(* ===== verification/Prelude.thy ===== *)
theory Prelude
  imports Main "HOL-Library.Word"
begin

text \<open>
  Shared material of the development: the names of the C types, exclusive-or sums over
  an index range (the sums of a field of characteristic two), and the lemmas about bits
  and about arrays updated by loops that every component uses.
\<close>

unbundle bit_operations_syntax

type_synonym u8 = "8 word"
type_synonym u16 = "16 word"
type_synonym u32 = "32 word"
type_synonym u64 = "64 word"

named_theorems xor_linear \<open>exclusive-or moves through a linear operation\<close>

section \<open>Exclusive-or as the addition of words\<close>

lemma xor_self_left [simp]: "(a :: 'a::len word) XOR (a XOR b) = b"
  by (simp flip: xor.assoc)

lemma xor_eq_0_iff [simp]: "(a :: 'a::len word) XOR b = 0 \<longleftrightarrow> a = b"
  by (metis xor_self_left xor.right_neutral xor_self_eq)

lemma xor_left_cancel_iff [simp]: "(a :: 'a::len word) XOR b = a XOR c \<longleftrightarrow> b = c"
  by (metis xor_self_left)

lemmas xor_ac = xor.assoc xor.commute xor.left_commute

lemma word_take_bit_eqI:
  fixes a b :: "'a::len word"
  assumes "take_bit w a = a" "take_bit w b = b" "\<And>i. i < w \<Longrightarrow> i < LENGTH('a) \<Longrightarrow> bit a i = bit b i"
  shows "a = b"
proof (rule bit_word_eqI)
  fix n assume n: "n < LENGTH('a)"
  show "bit a n = bit b n"
  proof (cases "n < w")
    case True then show ?thesis using assms(3) n by simp
  next
    case False
    have "bit (take_bit w a) n = bit (take_bit w b) n" using False by (simp add: bit_take_bit_iff)
    then show ?thesis using assms(1,2) by simp
  qed
qed

lemma take_bit_xor_closed:
  fixes a b :: "'a::len word"
  shows "take_bit w a = a \<Longrightarrow> take_bit w b = b \<Longrightarrow> take_bit w (a XOR b) = a XOR b"
  by (simp add: take_bit_xor)

section \<open>Exclusive-or sums\<close>

primrec xsum :: "nat \<Rightarrow> (nat \<Rightarrow> 'a::len word) \<Rightarrow> 'a word" where
  "xsum 0 f = 0"
| "xsum (Suc n) f = xsum n f XOR f n"

lemma xsum_cong: "(\<And>i. i < n \<Longrightarrow> f i = g i) \<Longrightarrow> xsum n f = xsum n g"
  by (induction n) auto

lemma xsum_zero [simp]: "xsum n (\<lambda>_. 0) = 0"
  by (induction n) auto

lemma xsum_zeroI: "(\<And>i. i < n \<Longrightarrow> f i = 0) \<Longrightarrow> xsum n f = 0"
  by (induction n) auto

lemma xsum_xor: "xsum n (\<lambda>i. f i XOR g i) = xsum n f XOR xsum n g"
  by (induction n) (auto simp: xor_ac)

lemma xsum_additive:
  assumes "F 0 = 0" "\<And>a b. F (a XOR b) = F a XOR F b"
  shows "F (xsum n f) = xsum n (\<lambda>i. F (f i))"
  by (induction n) (auto simp: assms)

lemma xsum_swap: "xsum n (\<lambda>i. xsum m (f i)) = xsum m (\<lambda>j. xsum n (\<lambda>i. f i j))"
proof (induction n)
  case 0 then show ?case by (induction m) auto
next
  case (Suc n) then show ?case by (simp add: xsum_xor)
qed

lemma xsum_delta: "xsum n (\<lambda>i. if i = k then f i else 0) = (if k < n then f k else 0)"
  by (induction n) (auto simp: less_Suc_eq)

lemma xsum_single:
  assumes "k < n" "\<And>i. i < n \<Longrightarrow> i \<noteq> k \<Longrightarrow> f i = 0"
  shows "xsum n f = f k"
proof -
  have "xsum n f = xsum n (\<lambda>i. if i = k then f i else 0)"
    using assms(2) by (intro xsum_cong) auto
  then show ?thesis using assms(1) by (simp add: xsum_delta)
qed

lemma xsum_extend:
  "m \<le> n \<Longrightarrow> (\<And>i. m \<le> i \<Longrightarrow> i < n \<Longrightarrow> f i = 0) \<Longrightarrow> xsum n f = xsum m f"
proof (induction n)
  case (Suc n)
  show ?case
  proof (cases "m = Suc n")
    case False
    then show ?thesis using Suc by auto
  qed simp
qed simp

lemma xsum_split: "xsum (m + n) f = xsum m f XOR xsum n (\<lambda>i. f (m + i))"
  by (induction n) (auto simp: xor_ac)

lemma xsum_Suc_shift: "xsum (Suc n) f = f 0 XOR xsum n (\<lambda>i. f (Suc i))"
  using xsum_split [of 1 n f] by simp

lemma xsum_closed:
  "(\<And>i. i < n \<Longrightarrow> take_bit w (f i) = f i) \<Longrightarrow> take_bit w (xsum n f) = xsum n f"
  by (induction n) (auto simp: take_bit_xor)

lemma bit_xsum: "bit (xsum n f) k \<longleftrightarrow> odd (card {i. i < n \<and> bit (f i) k})"
proof (induction n)
  case (Suc n)
  have "{i. i < Suc n \<and> bit (f i) k} =
        (if bit (f n) k then insert n {i. i < n \<and> bit (f i) k} else {i. i < n \<and> bit (f i) k})"
    by (auto simp: less_Suc_eq)
  then show ?case using Suc by (simp add: bit_xor_iff)
qed simp

lemma xsum_bits:
  fixes a :: "'a::len word"
  shows "xsum n (\<lambda>i. if bit a i then push_bit i 1 else 0) = take_bit n a"
proof (induction n)
  case (Suc n)
  show ?case
    by (rule bit_word_eqI)
       (auto simp: Suc bit_simps less_Suc_eq)
qed simp

lemma not_bit_xsum: "(\<And>i. i < n \<Longrightarrow> \<not> bit (f i) k) \<Longrightarrow> \<not> bit (xsum n f) k"
  by (induction n) (auto simp: bit_xor_iff)

section \<open>Shifts and casts\<close>

text \<open>A shifted one is a single bit; it is kept as such and not rewritten to a power of two.\<close>

declare push_bit_of_1 [simp del]

lemma unat_drop_bit_1: "unat (drop_bit 1 (a :: 'a::len word)) = unat a div 2"
  using take_bit_nat_eq_self [OF unsigned_less [of a]]
  by (simp only: unsigned_drop_bit_eq) (simp add: drop_bit_Suc)

lemma unat_halve: "(a :: 'a::len word) \<noteq> 0 \<Longrightarrow> unat (drop_bit 1 a) < unat a"
  using unat_gt_0 [of a] unfolding unat_drop_bit_1 by simp

lemma unat_drop_byte: "(a :: 'a::len word) \<noteq> 0 \<Longrightarrow> unat (drop_bit 8 a) < unat a"
proof -
  assume "a \<noteq> 0"
  moreover have "unat (drop_bit 8 a) = unat a div 256"
    using take_bit_nat_eq_self [OF unsigned_less [of a]]
    by (simp only: unsigned_drop_bit_eq) (simp add: drop_bit_eq_div)
  ultimately show ?thesis using unat_gt_0 [of a] by simp
qed

lemma not_bit_ucast_32_64: "32 \<le> i \<Longrightarrow> \<not> bit (ucast (b::u32) :: u64) i"
  using bit_imp_le_length [of b i] by (auto simp: bit_ucast_iff)

lemma bit_ucast_32_64 [simp]: "bit (ucast (b::u32) :: u64) i = bit b i"
  using bit_imp_le_length [of b i] by (auto simp: bit_ucast_iff)

lemma bit_push_one [simp]: "bit (push_bit i (1 :: 'a::len word)) n \<longleftrightarrow> n = i \<and> n < LENGTH('a)"
  by (auto simp only: bit_push_bit_iff possible_bit_word bit_1_iff)

lemma bit_double [simp]:
  "bit ((b :: 'a::len word) * 2) n \<longleftrightarrow> 0 < n \<and> n < LENGTH('a) \<and> bit b (n - 1)"
proof -
  have "b * 2 = push_bit 1 b" by simp
  then show ?thesis by (simp only: bit_push_bit_iff possible_bit_word) auto
qed

lemma and_push_bit_neq_0:
  "(a :: 'a::len word) AND push_bit i 1 \<noteq> 0 \<longleftrightarrow> bit a i"
proof (cases "i < LENGTH('a)")
  case True
  have "bit (a AND push_bit i 1) n \<longleftrightarrow> n = i \<and> bit a i" for n
    using True by (auto simp only: bit_and_iff bit_push_one)
  then show ?thesis by (metis bit_0_eq bot_apply bot_bool_def bit_eqI)
next
  case False
  then have "\<not> bit a n \<or> n \<noteq> i" for n using bit_imp_le_length [of a n] by auto
  then have "bit (a AND push_bit i 1) n = bit (0 :: 'a word) n" for n
    by (auto simp only: bit_and_iff bit_push_one bit_0_eq bot_apply bot_bool_def)
  moreover have "\<not> bit a i" using False bit_imp_le_length [of a i] by auto
  ultimately show ?thesis by (metis bit_eqI)
qed

section \<open>Loops\<close>

text \<open>A loop whose body may leave the program: the first None ends it.\<close>

primrec ofold :: "('i \<Rightarrow> 's \<Rightarrow> 's option) \<Rightarrow> 'i list \<Rightarrow> 's \<Rightarrow> 's option" where
  "ofold f [] s = Some s"
| "ofold f (i # is) s = (case f i s of None \<Rightarrow> None | Some s \<Rightarrow> ofold f is s)"

lemma ofold_append:
  "ofold f (xs @ ys) s = (case ofold f xs s of None \<Rightarrow> None | Some s \<Rightarrow> ofold f ys s)"
  by (induction xs arbitrary: s) (auto split: option.splits)

lemma ofold_upt_Suc:
  "a \<le> n \<Longrightarrow> ofold f [a..<Suc n] s = (case ofold f [a..<n] s of None \<Rightarrow> None | Some s \<Rightarrow> f n s)"
  by (simp add: ofold_append split: option.splits)

text \<open>The invariant rule for counting loops, without and with failure.\<close>

lemma fold_upt_inv:
  assumes "a \<le> b" "P a s" "\<And>i s. a \<le> i \<Longrightarrow> i < b \<Longrightarrow> P i s \<Longrightarrow> P (Suc i) (f i s)"
  shows "P b (fold f [a..<b] s)"
  using assms
proof (induction b)
  case (Suc b)
  then show ?case by (cases "a = Suc b") auto
qed simp

lemma fold_rev_upt_inv:
  assumes "a \<le> b" "P b s" "\<And>i s. a \<le> i \<Longrightarrow> i < b \<Longrightarrow> P (Suc i) s \<Longrightarrow> P i (f i s)"
  shows "P a (fold f (rev [a..<b]) s)"
  using assms
proof (induction b arbitrary: s)
  case (Suc b)
  then show ?case by (cases "a = Suc b") auto
qed simp

lemma ofold_upt_inv:
  assumes "a \<le> b" "P a s"
    and step: "\<And>i s. a \<le> i \<Longrightarrow> i < b \<Longrightarrow> P i s \<Longrightarrow> \<exists>s'. f i s = Some s' \<and> P (Suc i) s'"
  shows "\<exists>s'. ofold f [a..<b] s = Some s' \<and> P b s'"
  using assms
proof (induction b)
  case (Suc b)
  show ?case
  proof (cases "a = Suc b")
    case False
    then obtain s' where "ofold f [a..<b] s = Some s'" "P b s'"
      using Suc.IH Suc.prems by fastforce
    then show ?thesis using Suc.prems(3) [of b s'] False Suc.prems(1)
      by (auto simp: ofold_append)
  qed (use Suc.prems in simp)
qed simp

definition swap :: "nat \<Rightarrow> nat \<Rightarrow> 'a list \<Rightarrow> 'a list" where
  "swap i j xs = xs[i := xs ! j, j := xs ! i]"

lemma length_swap [simp]: "length (swap i j xs) = length xs"
  by (simp add: swap_def)

lemma nth_swap:
  "i < length xs \<Longrightarrow> j < length xs \<Longrightarrow>
   swap i j xs ! k = (if k = i then xs ! j else if k = j then xs ! i else xs ! k)"
  by (auto simp: swap_def nth_list_update)

lemma find_upt_Some:
  "find P [a..<b] = Some j \<Longrightarrow> a \<le> j \<and> j < b \<and> P j \<and> (\<forall>k. a \<le> k \<and> k < j \<longrightarrow> \<not> P k)"
proof -
  assume "find P [a..<b] = Some j"
  then obtain i where i: "i < b - a" "P (a + i)" "j = a + i" "\<forall>k<i. \<not> P (a + k)"
    by (auto simp: find_Some_iff)
  have "\<not> P k" if "a \<le> k" "k < j" for k
    using i(4) [rule_format, of "k - a"] that i(3) by simp
  then show ?thesis using i by auto
qed

lemma find_upt_None: "find P [a..<b] = None \<longleftrightarrow> (\<forall>j. a \<le> j \<and> j < b \<longrightarrow> \<not> P j)"
  by (auto simp: find_None_iff)

text \<open>Tables filled by keyed updates, also two at a time and by nested loops.\<close>

lemma nth_fold_update:
  assumes "\<And>x. x \<in> set xs \<Longrightarrow> k x = i \<Longrightarrow> v x = val" "i < length t"
  shows "fold (\<lambda>x t. t[k x := v x]) xs t ! i = (if \<exists>x\<in>set xs. k x = i then val else t ! i)"
  using assms
proof (induction xs arbitrary: t)
  case (Cons x xs)
  then show ?case by (cases "k x = i") auto
qed simp

lemma length_fold_update [simp]: "length (fold (\<lambda>x t. t[k x := v x]) xs t) = length t"
  by (induction xs arbitrary: t) auto

lemma fold_update_pair:
  "fold (\<lambda>x (s, t). (s[k x := v x], t[k' x := v' x])) xs (s, t) =
   (fold (\<lambda>x s. s[k x := v x]) xs s, fold (\<lambda>x t. t[k' x := v' x]) xs t)"
  by (induction xs arbitrary: s t) auto

lemma fold_nested:
  "fold (\<lambda>a s. fold (\<lambda>b. f a b) ys s) xs s = fold (\<lambda>(a, b). f a b) (List.product xs ys) s"
proof (induction xs arbitrary: s)
  case (Cons x xs)
  have "fold (\<lambda>(a, b). f a b) (map (Pair x) ys) s = fold (f x) ys s"
    by (induction ys arbitrary: s) auto
  then show ?case using Cons by simp
qed simp

text \<open>Accumulation: every index is hit by at most one element of the list.\<close>

lemma fold_accumulate_one:
  "fold (\<lambda>k p. p[q := p ! q XOR f k]) [0..<n] p = p[q := p ! q XOR xsum n f]"
  by (cases "q < length p"; induction n) (auto simp: xor_ac list_update_beyond)

lemma length_fold_accumulate [simp]:
  "length (fold (\<lambda>x t. t[k x := t ! k x XOR v x]) xs t) = length t"
  by (induction xs arbitrary: t) auto

lemma nth_fold_accumulate_notin:
  "\<forall>x\<in>set xs. k x \<noteq> i \<Longrightarrow> fold (\<lambda>x t. t[k x := t ! k x XOR v x]) xs t ! i = t ! i"
  by (induction xs arbitrary: t) auto

lemma nth_fold_accumulate:
  assumes "distinct xs" "inj_on k (set xs)" "x \<in> set xs" "k x < length t"
  shows "fold (\<lambda>x t. t[k x := t ! k x XOR v x]) xs t ! k x = t ! k x XOR v x"
  using assms
proof (induction xs arbitrary: t)
  case (Cons y ys)
  show ?case
  proof (cases "y = x")
    case True
    then have "\<forall>z\<in>set ys. k z \<noteq> k x" using Cons.prems by (auto simp: image_iff)
    then show ?thesis using True Cons.prems(4) by (simp add: nth_fold_accumulate_notin)
  next
    case False
    then have "x \<in> set ys" "k y \<noteq> k x" using Cons.prems by auto
    then show ?thesis using Cons.IH [of "t[k y := t ! k y XOR v y]"] Cons.prems by simp
  qed
qed simp

lemma fold_upt_Suc: "fold f [0..<Suc n] s = f n (fold f [0..<n] s)"
  by simp

end
