(* ===== verification/Gf_Types.thy ===== *)
theory Gf_Types
  imports Prelude
begin

text \<open>
  The data of GF-Complete (gf_complete.h, gf_int.h): the multiplication and division
  techniques, the region options, the error codes, the scratch area
  that describes a field (\<open>gf_internal\<close>) and the table of functions of a field (\<open>gf_t\<close>).
  A function pointer is an optional closure; None is the NULL pointer.  Inversion and
  division may in principle not return, so their results are optional.
\<close>

datatype gf_mult_type =
    GF_MULT_DEFAULT | GF_MULT_SHIFT | GF_MULT_CARRY_FREE | GF_MULT_CARRY_FREE_GK
  | GF_MULT_GROUP | GF_MULT_BYTWO_p | GF_MULT_BYTWO_b | GF_MULT_TABLE
  | GF_MULT_LOG_TABLE | GF_MULT_LOG_ZERO | GF_MULT_LOG_ZERO_EXT
  | GF_MULT_SPLIT_TABLE | GF_MULT_COMPOSITE
  | GF_MULT_OTHER int \<comment> \<open>an int that is no member of the enumeration\<close>

datatype gf_division_type =
    GF_DIVIDE_DEFAULT | GF_DIVIDE_MATRIX | GF_DIVIDE_EUCLID
  | GF_DIVIDE_OTHER int \<comment> \<open>an int that is no member of the enumeration\<close>

definition GF_REGION_DEFAULT :: u32 where "GF_REGION_DEFAULT = 0x0"
definition GF_REGION_DOUBLE_TABLE :: u32 where "GF_REGION_DOUBLE_TABLE = 0x1"
definition GF_REGION_QUAD_TABLE :: u32 where "GF_REGION_QUAD_TABLE = 0x2"
definition GF_REGION_LAZY :: u32 where "GF_REGION_LAZY = 0x4"
definition GF_REGION_SIMD :: u32 where "GF_REGION_SIMD = 0x8"
definition GF_REGION_NOSIMD :: u32 where "GF_REGION_NOSIMD = 0x10"
definition GF_REGION_ALTMAP :: u32 where "GF_REGION_ALTMAP = 0x20"
definition GF_REGION_CAUCHY :: u32 where "GF_REGION_CAUCHY = 0x40"

lemmas gf_region_defs = GF_REGION_DEFAULT_def GF_REGION_DOUBLE_TABLE_def
  GF_REGION_QUAD_TABLE_def GF_REGION_LAZY_def GF_REGION_SIMD_def GF_REGION_NOSIMD_def
  GF_REGION_ALTMAP_def GF_REGION_CAUCHY_def

text \<open>
  An error code of the enumeration \<open>gf_error_type_t\<close> is written as the string of its
  name; the fallible functions return \<open>Inl\<close> of the code they store in \<open>_gf_errno\<close>.
\<close>

type_synonym gf_error = string

text \<open>
  How an initialisation fails: with a code in \<open>_gf_errno\<close>, by returning 0 and leaving the
  code alone, by leaving the process; \<open>Gf_unmodelled\<close> marks the initialisations this
  development does not translate.
\<close>

datatype gf_fail = Gf_errno gf_error | Gf_zero | Gf_exit | Gf_unmodelled

datatype gf_internal = Gf_internal
  (mult_type: gf_mult_type)
  (region_type: u32)
  (divide_type: gf_division_type)
  (h_w: nat)
  (prim_poly: u64)
  (arg1: int)
  (arg2: int)
  (base_gf: "gf_internal option")

primrec set_prim_poly :: "u64 \<Rightarrow> gf_internal \<Rightarrow> gf_internal" where
  "set_prim_poly p (Gf_internal mt rt dt w pp a1 a2 b) = Gf_internal mt rt dt w p a1 a2 b"

lemma set_prim_poly_sel [simp]:
  "mult_type (set_prim_poly p h) = mult_type h" "region_type (set_prim_poly p h) = region_type h"
  "divide_type (set_prim_poly p h) = divide_type h" "h_w (set_prim_poly p h) = h_w h"
  "prim_poly (set_prim_poly p h) = p" "arg1 (set_prim_poly p h) = arg1 h"
  "arg2 (set_prim_poly p h) = arg2 h" "base_gf (set_prim_poly p h) = base_gf h"
  by (cases h; simp)+

text \<open>
  The words by which the by-two region functions work on several elements at once: the
  polynomial, the bits that stay after a shift and the leading bits, repeated in every element.
\<close>

record gf_bytwo_data =
  btd_prim_poly :: u64
  btd_mask1 :: u64
  btd_mask2 :: u64

text \<open>
  The region functions and word extractors a field may install; the functions themselves
  are in \<open>Gf_Region\<close>.  The tables the functions read are kept in the scratch area of the field.
\<close>

datatype region_fn = Wgen_cauchy_region | W8_table_region "u32 list" | W8_from_single
  | W8_bytwo_p_region gf_bytwo_data | W8_bytwo_b_region gf_bytwo_data
  | W16_log_region "u32 list" "u32 list" | W16_split_8_16_lazy_region | W16_from_single
  | W16_bytwo_p_region gf_bytwo_data | W16_bytwo_b_region gf_bytwo_data
  | W32_split_8_32_lazy_region | W32_from_single
  | W32_bytwo_p_region gf_bytwo_data | W32_bytwo_b_region gf_bytwo_data

datatype extract_fn = Wgen_extract | W8_extract | W16_extract | W32_extract

record gf_t =
  multiply :: "(u32 \<Rightarrow> u32 \<Rightarrow> u32) option"
  divide :: "(u32 \<Rightarrow> u32 \<Rightarrow> u32 option) option"
  inverse :: "(u32 \<Rightarrow> u32 option) option"
  multiply_region :: "region_fn option"
  extract_word :: "extract_fn option"
  scratch :: gf_internal

end
