(* ===== verification/Gf_Poly.thy ===== *)
theory Gf_Poly
  imports Prelude
begin

text \<open>
  The reference arithmetic of GF(2^w).  An element is a 32-bit word whose bits above
  position w are clear; the modulus is given by its bits below w.  Multiplication by x
  (\<open>gf_xtime\<close>) is a linear map, and the product of a and b is the polynomial a evaluated
  at that map and applied to b.  From this the ring laws follow without any division of
  polynomials, and a word of any length is read as an element by \<open>gf_peval\<close>.
\<close>

section \<open>Multiplication by x, products, and reading a polynomial\<close>

definition gf_elem :: "nat \<Rightarrow> u32 \<Rightarrow> bool" where
  "gf_elem w a \<longleftrightarrow> take_bit w a = a"

definition gf_xtime :: "nat \<Rightarrow> u32 \<Rightarrow> u32 \<Rightarrow> u32" where
  "gf_xtime w pp b = take_bit w (push_bit 1 b XOR (if bit b (w - 1) then pp else 0))"

definition gf_mul :: "nat \<Rightarrow> u32 \<Rightarrow> u32 \<Rightarrow> u32 \<Rightarrow> u32" where
  "gf_mul w pp a b = xsum w (\<lambda>i. if bit a i then (gf_xtime w pp ^^ i) b else 0)"

definition gf_peval :: "nat \<Rightarrow> u32 \<Rightarrow> 'a::len word \<Rightarrow> u32" where
  "gf_peval w pp q = xsum LENGTH('a) (\<lambda>i. if bit q i then (gf_xtime w pp ^^ i) 1 else 0)"

lemma gf_elem_xor [intro, simp]: "gf_elem w a \<Longrightarrow> gf_elem w b \<Longrightarrow> gf_elem w (a XOR b)"
  by (simp add: gf_elem_def)

lemma gf_elem_0 [simp]: "gf_elem w 0"
  by (simp add: gf_elem_def)

lemma gf_elem_1 [simp]: "0 < w \<Longrightarrow> gf_elem w 1"
  by (cases w) (auto simp: gf_elem_def)

lemma gf_elem_xsum: "(\<And>i. i < n \<Longrightarrow> gf_elem w (f i)) \<Longrightarrow> gf_elem w (xsum n f)"
  by (simp add: gf_elem_def xsum_closed)

lemma gf_elem_32 [simp]: "gf_elem 32 a"
  by (simp add: gf_elem_def take_bit_word_eq_self)

lemma gf_elem_bit: "gf_elem w a \<Longrightarrow> w \<le> n \<Longrightarrow> \<not> bit a n"
  unfolding gf_elem_def by (metis bit_take_bit_iff not_less)

lemma gf_elemI: "(\<And>n. w \<le> n \<Longrightarrow> n < 32 \<Longrightarrow> \<not> bit a n) \<Longrightarrow> gf_elem w a"
  unfolding gf_elem_def
  by (rule bit_word_eqI) (use not_less in \<open>auto simp: bit_take_bit_iff\<close>)

lemma gf_elem_unat: "w \<le> 32 \<Longrightarrow> gf_elem w a \<longleftrightarrow> unat a < 2 ^ w"
  unfolding gf_elem_def
  by (metis unsigned_take_bit_eq take_bit_nat_eq_self_iff word_unat_eq_iff)

lemma bit_gf_xtime:
  "bit (gf_xtime w pp b) n \<longleftrightarrow>
     n < w \<and> n < 32 \<and> ((0 < n \<and> bit b (n - 1)) \<noteq> (bit b (w - 1) \<and> bit pp n))"
proof -
  have "bit (push_bit 1 b) n \<longleftrightarrow> 0 < n \<and> n < 32 \<and> bit b (n - 1)"
    by (auto simp only: bit_push_bit_iff possible_bit_word, auto)
  moreover have "bit pp n \<Longrightarrow> n < 32" using bit_imp_le_length [of pp n] by simp
  ultimately show ?thesis
    unfolding gf_xtime_def bit_take_bit_iff bit_xor_iff by auto
qed

lemma gf_elem_xtime [simp]: "gf_elem w (gf_xtime w pp b)"
  by (simp add: gf_elem_def gf_xtime_def)

lemma gf_xtime_0 [simp]: "gf_xtime w pp 0 = 0"
  by (simp add: gf_xtime_def)

lemma gf_xtime_xor [xor_linear]: "gf_xtime w pp (a XOR b) = gf_xtime w pp a XOR gf_xtime w pp b"
  by (rule bit_word_eqI) (auto simp: bit_gf_xtime bit_xor_iff)

lemma gf_xtime_xsum: "gf_xtime w pp (xsum n f) = xsum n (\<lambda>i. gf_xtime w pp (f i))"
  by (rule xsum_additive) (auto simp: gf_xtime_xor)

lemma gf_xpow_0 [simp]: "(gf_xtime w pp ^^ i) 0 = 0"
  by (induction i) auto

lemma gf_xpow_xor [xor_linear]:
  "(gf_xtime w pp ^^ i) (a XOR b) = (gf_xtime w pp ^^ i) a XOR (gf_xtime w pp ^^ i) b"
  by (induction i) (auto simp: gf_xtime_xor)

lemma gf_xpow_xsum: "(gf_xtime w pp ^^ i) (xsum n f) = xsum n (\<lambda>j. (gf_xtime w pp ^^ i) (f j))"
  by (rule xsum_additive) (auto simp: gf_xpow_xor)

lemma gf_elem_xpow [simp]: "gf_elem w b \<Longrightarrow> gf_elem w ((gf_xtime w pp ^^ i) b)"
  by (cases i) auto

lemma gf_xpow_1:
  assumes "i < w" "w \<le> 32"
  shows "(gf_xtime w pp ^^ i) 1 = push_bit i 1"
  using assms(1)
proof (induction i)
  case (Suc i)
  then have "(gf_xtime w pp ^^ i) 1 = push_bit i 1" by simp
  then have "(gf_xtime w pp ^^ Suc i) 1 = gf_xtime w pp (push_bit i 1)" by simp
  also have "\<dots> = push_bit (Suc i) 1"
    using Suc.prems assms(2)
    by (intro bit_word_eqI) (auto simp only: bit_gf_xtime bit_push_one)
  finally show ?case .
qed simp

section \<open>The ring laws\<close>

lemma gf_mul_0_left [simp]: "gf_mul w pp 0 b = 0"
  by (simp add: gf_mul_def)

lemma gf_mul_0_right [simp]: "gf_mul w pp a 0 = 0"
  by (simp add: gf_mul_def cong: if_cong)

lemma gf_elem_mul [simp]: "gf_elem w b \<Longrightarrow> gf_elem w (gf_mul w pp a b)"
  by (auto simp: gf_mul_def intro!: gf_elem_xsum)

lemma gf_mul_xor_right [xor_linear]:
  "gf_mul w pp a (b XOR c) = gf_mul w pp a b XOR gf_mul w pp a c"
  unfolding gf_mul_def xsum_xor [symmetric]
  by (rule xsum_cong) (simp add: gf_xpow_xor)

lemma gf_mul_xor_left [xor_linear]:
  "gf_mul w pp (a XOR b) c = gf_mul w pp a c XOR gf_mul w pp b c"
  unfolding gf_mul_def xsum_xor [symmetric]
  by (rule xsum_cong) (auto simp: bit_xor_iff)

lemma gf_mul_xsum_right: "gf_mul w pp a (xsum n f) = xsum n (\<lambda>i. gf_mul w pp a (f i))"
  by (rule xsum_additive) (auto simp: gf_mul_xor_right)

lemma gf_mul_xsum_left: "gf_mul w pp (xsum n f) b = xsum n (\<lambda>i. gf_mul w pp (f i) b)"
  by (rule xsum_additive [where F = "\<lambda>a. gf_mul w pp a b"]) (auto simp: gf_mul_xor_left)

lemma gf_xpow_commute:
  "(gf_xtime w pp ^^ i) ((gf_xtime w pp ^^ j) b) = (gf_xtime w pp ^^ j) ((gf_xtime w pp ^^ i) b)"
  by (metis funpow_add comp_apply add.commute)

lemma gf_xpow_mul:
  "(gf_xtime w pp ^^ i) (gf_mul w pp a b) = gf_mul w pp a ((gf_xtime w pp ^^ i) b)"
  unfolding gf_mul_def gf_xpow_xsum
  by (rule xsum_cong) (simp add: gf_xpow_commute [where i = i])

lemma gf_mul_1_right:
  assumes "gf_elem w a" "w \<le> 32"
  shows "gf_mul w pp a 1 = a"
proof -
  have "gf_mul w pp a 1 = xsum w (\<lambda>i. if bit a i then push_bit i 1 else 0)"
    unfolding gf_mul_def using assms(2) by (intro xsum_cong) (auto simp: gf_xpow_1)
  then show ?thesis using assms(1) by (simp add: xsum_bits gf_elem_def)
qed

lemma gf_mul_left_commute:
  "gf_mul w pp a (gf_mul w pp b c) = gf_mul w pp b (gf_mul w pp a c)"
proof -
  have "gf_mul w pp a (gf_mul w pp b c) =
        xsum w (\<lambda>i. if bit a i then gf_mul w pp b ((gf_xtime w pp ^^ i) c) else 0)"
    unfolding gf_mul_def [of w pp a] by (rule xsum_cong) (simp add: gf_xpow_mul)
  also have "\<dots> = gf_mul w pp b (gf_mul w pp a c)"
    unfolding gf_mul_def [of w pp a] gf_mul_xsum_right by (rule xsum_cong) simp
  finally show ?thesis .
qed

lemma gf_mul_commute:
  assumes "gf_elem w a" "gf_elem w b" "w \<le> 32"
  shows "gf_mul w pp a b = gf_mul w pp b a"
  by (metis assms gf_mul_1_right gf_mul_left_commute)

lemma gf_mul_1_left:
  assumes "gf_elem w a" "0 < w" "w \<le> 32"
  shows "gf_mul w pp 1 a = a"
  using assms by (simp add: gf_mul_commute [of w 1] gf_mul_1_right)

lemma gf_mul_assoc:
  assumes "gf_elem w a" "gf_elem w b" "gf_elem w c" "w \<le> 32"
  shows "gf_mul w pp (gf_mul w pp a b) c = gf_mul w pp a (gf_mul w pp b c)"
proof -
  have "gf_mul w pp (gf_mul w pp a b) c = gf_mul w pp c (gf_mul w pp a b)"
    using assms by (intro gf_mul_commute) auto
  also have "\<dots> = gf_mul w pp a (gf_mul w pp c b)" by (rule gf_mul_left_commute)
  also have "gf_mul w pp c b = gf_mul w pp b c" using assms by (intro gf_mul_commute)
  finally show ?thesis .
qed

lemma gf_mul_push_bit:
  assumes "gf_elem w b" "i < w" "w \<le> 32"
  shows "gf_mul w pp (push_bit i 1) b = (gf_xtime w pp ^^ i) b"
proof -
  have "(gf_xtime w pp ^^ i) b = (gf_xtime w pp ^^ i) (gf_mul w pp b 1)"
    using assms by (simp add: gf_mul_1_right)
  also have "\<dots> = gf_mul w pp b (push_bit i 1)"
    using assms by (simp add: gf_xpow_mul gf_xpow_1)
  also have "\<dots> = gf_mul w pp (push_bit i 1) b"
    using assms by (intro gf_mul_commute) (auto intro!: gf_elemI simp: bit_simps)
  finally show ?thesis ..
qed

lemma gf_mul_2:
  assumes "gf_elem w b" "1 < w" "w \<le> 32"
  shows "gf_mul w pp 2 b = gf_xtime w pp b"
  using gf_mul_push_bit [of w b 1 pp] assms by simp

section \<open>Reading a polynomial modulo the field polynomial\<close>

lemma gf_peval_0 [simp]: "gf_peval w pp 0 = 0"
  by (simp add: gf_peval_def)

lemma gf_peval_xor [xor_linear]: "gf_peval w pp (p XOR q) = gf_peval w pp p XOR gf_peval w pp q"
  unfolding gf_peval_def xsum_xor [symmetric]
  by (rule xsum_cong) (auto simp: bit_xor_iff)

lemma gf_peval_xsum: "gf_peval w pp (xsum n f) = xsum n (\<lambda>i. gf_peval w pp (f i))"
  by (rule xsum_additive) (auto simp: gf_peval_xor)

lemma gf_peval_ucast:
  assumes "gf_elem w a" "w \<le> 32" "w \<le> LENGTH('a::len)"
  shows "gf_peval w pp (ucast a :: 'a word) = a"
proof -
  have "gf_peval w pp (ucast a :: 'a word) = xsum w (\<lambda>i. if bit a i then push_bit i 1 else 0)"
    unfolding gf_peval_def using assms gf_elem_bit [OF assms(1)]
    by (subst xsum_extend [of w]) (auto simp: bit_ucast_iff gf_xpow_1 intro!: xsum_cong)
  then show ?thesis using assms(1) by (simp add: xsum_bits gf_elem_def)
qed

text \<open>Shifting a polynomial is a power of the multiplication by x, as long as no bit is lost.\<close>

lemma gf_peval_push_bit:
  fixes q :: "'a::len word"
  assumes "\<And>i. LENGTH('a) - n \<le> i \<Longrightarrow> i < LENGTH('a) \<Longrightarrow> \<not> bit q i" "n \<le> LENGTH('a)"
  shows "gf_peval w pp (push_bit n q) = (gf_xtime w pp ^^ n) (gf_peval w pp q)"
proof -
  let ?X = "gf_xtime w pp" and ?L = "LENGTH('a)"
  have "gf_peval w pp (push_bit n q) =
        xsum (n + (?L - n)) (\<lambda>i. if bit (push_bit n q) i then (?X ^^ i) 1 else 0)"
    using assms(2) by (simp add: gf_peval_def)
  also have "\<dots> = xsum n (\<lambda>i. if bit (push_bit n q) i then (?X ^^ i) 1 else 0) XOR
        xsum (?L - n) (\<lambda>i. if bit (push_bit n q) (n + i) then (?X ^^ (n + i)) 1 else 0)"
    by (rule xsum_split)
  also have "xsum n (\<lambda>i. if bit (push_bit n q) i then (?X ^^ i) 1 else 0) = 0"
    by (rule xsum_zeroI) (auto simp: bit_push_bit_iff)
  also have "xsum (?L - n) (\<lambda>i. if bit (push_bit n q) (n + i) then (?X ^^ (n + i)) 1 else 0) =
        xsum (?L - n) (\<lambda>i. (?X ^^ n) (if bit q i then (?X ^^ i) 1 else 0))"
    using assms(2) by (intro xsum_cong) (auto simp: bit_push_bit_iff funpow_add)
  also have "\<dots> = xsum ?L (\<lambda>i. (?X ^^ n) (if bit q i then (?X ^^ i) 1 else 0))"
    using assms by (intro xsum_extend [symmetric]) auto
  finally show ?thesis by (simp add: gf_peval_def gf_xpow_xsum)
qed

text \<open>
  The field polynomial itself, with its leading term, is zero: \<open>q\<close> has the bit w, the
  bits of pp below it and none above.
\<close>

lemma gf_peval_1:
  assumes "0 < w" "w \<le> 32"
  shows "gf_peval w pp (1 :: 'a::len word) = 1"
  unfolding gf_peval_def by (subst xsum_single [of 0]) (auto simp: bit_1_iff)

lemma gf_peval_poly:
  fixes q :: "'a::len word"
  assumes "0 < w" "w \<le> 32" "w < LENGTH('a)"
    and q: "\<And>i. bit q i \<longleftrightarrow> i = w \<or> i < w \<and> bit pp i"
  shows "gf_peval w pp q = 0"
proof -
  have split: "q = push_bit w 1 XOR ucast (take_bit w pp)"
    using assms by (intro bit_word_eqI) (auto simp: q bit_xor_iff bit_ucast_iff bit_take_bit_iff)
  have "gf_peval w pp (push_bit w (1 :: 'a word)) = (gf_xtime w pp ^^ w) 1"
    using assms gf_peval_push_bit [of w "1 :: 'a word" w pp] gf_peval_1 [OF assms(1,2), where 'a = 'a]
    by (auto simp: bit_1_iff)
  also have "\<dots> = gf_xtime w pp ((gf_xtime w pp ^^ (w - 1)) 1)"
    using assms(1) by (cases w) auto
  also have "\<dots> = gf_xtime w pp (push_bit (w - 1) 1)"
    using assms by (simp add: gf_xpow_1)
  also have "\<dots> = take_bit w pp"
    using assms by (intro bit_word_eqI) (auto simp: bit_gf_xtime bit_take_bit_iff)
  moreover have "gf_peval w pp (ucast (take_bit w pp) :: 'a word) = take_bit w pp"
    using assms by (intro gf_peval_ucast) (auto simp: gf_elem_def)
  ultimately show ?thesis by (simp add: split gf_peval_xor)
qed

section \<open>The shift product\<close>

text \<open>
  Multiplication by shifting and reducing, as all the shift routines of GF-Complete do it:
  \<open>pp\<close> is the polynomial with its leading term, the reduction starts below \<open>hi\<close>.
\<close>

definition shift_multiply :: "nat \<Rightarrow> nat \<Rightarrow> 'a::len word \<Rightarrow> 'a word \<Rightarrow> 'a word \<Rightarrow> 'a word" where
  "shift_multiply w hi pp a b =
    (let product = fold (\<lambda>i product. if bit a i then product XOR push_bit i b else product)
                     [0..<w] 0
     in fold (\<lambda>i product. if bit product i then product XOR push_bit (i - w) pp else product)
          (rev [w..<hi]) product)"

lemma shift_product_eq:
  "fold (\<lambda>i product. if bit a i then product XOR push_bit i b else product) [0..<n] 0 =
   xsum n (\<lambda>i. if bit a i then push_bit i b else (0::'a::len word))"
  by (induction n) auto

lemma shift_product_peval:
  assumes "gf_elem w b" "w \<le> 32" "2 * w - 1 \<le> LENGTH('a::len)" "0 < w"
  shows "gf_peval w pp (xsum w (\<lambda>i. if bit (ucast a :: 'a word) i then push_bit i (ucast b) else 0 :: 'a word)) =
         gf_mul w pp a b"
proof -
  have "gf_peval w pp (if bit (ucast a :: 'a word) i then push_bit i (ucast b) else 0 :: 'a word) =
        (if bit a i then (gf_xtime w pp ^^ i) b else 0)" if "i < w" for i
  proof -
    have "gf_peval w pp (push_bit i (ucast b :: 'a word)) = (gf_xtime w pp ^^ i) (gf_peval w pp (ucast b :: 'a word))"
      using that assms(3) gf_elem_bit [OF assms(1)]
      by (intro gf_peval_push_bit) (auto simp: bit_ucast_iff)
    then show ?thesis using assms that gf_peval_ucast [OF assms(1,2), where 'a = 'a]
      by (auto simp: bit_ucast_iff)
  qed
  then show ?thesis unfolding gf_peval_xsum gf_mul_def by (intro xsum_cong) auto
qed

lemma shift_product_high:
  assumes "gf_elem w b" "2 * w - 1 \<le> k"
  shows "\<not> bit (xsum w (\<lambda>i. if bit (a :: 'a::len word) i then push_bit i (ucast b) else 0 :: 'a word)) k"
proof -
  have "\<not> bit (if bit a i then push_bit i (ucast b) else 0 :: 'a word) k" if "i < w" for i
  proof -
    have "w \<le> k - i" using that assms(2) by simp
    then have "\<not> bit (ucast b :: 'a word) (k - i)"
      using gf_elem_bit [OF assms(1)] by (simp add: bit_ucast_iff)
    then show ?thesis by (auto simp: bit_push_bit_iff)
  qed
  then show ?thesis by (intro not_bit_xsum)
qed

abbreviation shift_reduce_step :: "nat \<Rightarrow> 'a::len word \<Rightarrow> nat \<Rightarrow> 'a word \<Rightarrow> 'a word" where
  "shift_reduce_step w q \<equiv> \<lambda>i product. if bit product i
     then product XOR push_bit (i - w) q else product"

text \<open>A reduction step keeps the value and clears the highest bit.\<close>

lemma shift_reduce_step:
  fixes q p :: "'a::len word"
  assumes w: "0 < w" "w \<le> 32" "w \<le> i" "i < LENGTH('a)"
    and q: "\<And>i. bit q i \<longleftrightarrow> i = w \<or> i < w \<and> bit pp i"
    and p: "\<And>k. i < k \<Longrightarrow> \<not> bit p k"
  shows "gf_peval w pp (shift_reduce_step w q i p) = gf_peval w pp p"
    and "\<And>k. i \<le> k \<Longrightarrow> \<not> bit (shift_reduce_step w q i p) k"
proof -
  have "gf_peval w pp (push_bit (i - w) q) = (gf_xtime w pp ^^ (i - w)) (gf_peval w pp q)"
    using w by (intro gf_peval_push_bit) (auto simp: q)
  also have "\<dots> = 0" using gf_peval_poly [OF w(1,2) _ q] w by simp
  finally show "gf_peval w pp (shift_reduce_step w q i p) = gf_peval w pp p"
    by (simp add: gf_peval_xor)
  fix k assume k: "i \<le> k"
  have "bit (push_bit (i - w) q) k \<longleftrightarrow> k = i"
    unfolding bit_push_bit_iff q using k w by auto
  then show "\<not> bit (shift_reduce_step w q i p) k"
    using k p [of k] by (cases "k = i") (auto simp: bit_xor_iff)
qed

lemma shift_reduce_fold:
  fixes q p :: "'a::len word"
  assumes w: "0 < w" "w \<le> 32" "w + n \<le> LENGTH('a)"
    and q: "\<And>i. bit q i \<longleftrightarrow> i = w \<or> i < w \<and> bit pp i"
    and p: "\<And>k. w + n \<le> k \<Longrightarrow> \<not> bit p k"
  shows "gf_peval w pp (fold (shift_reduce_step w q) (rev [w..<w + n]) p) = gf_peval w pp p \<and>
         (\<forall>k\<ge>w. \<not> bit (fold (shift_reduce_step w q) (rev [w..<w + n]) p) k)"
  using w(3) p
proof (induction n arbitrary: p)
  case (Suc n)
  have hi: "\<not> bit p k" if "w + n < k" for k using Suc.prems(2) that by auto
  note st = shift_reduce_step [OF w(1,2) _ _ q hi]
  have "fold (shift_reduce_step w q) (rev [w..<w + Suc n]) p =
        fold (shift_reduce_step w q) (rev [w..<w + n]) (shift_reduce_step w q (w + n) p)"
    by simp
  moreover have "gf_peval w pp (shift_reduce_step w q (w + n) p) = gf_peval w pp p"
    using Suc.prems(1) by (intro st(1)) auto
  moreover have "\<not> bit (shift_reduce_step w q (w + n) p) k" if "w + n \<le> k" for k
    using Suc.prems(1) that by (intro st(2)) auto
  ultimately show ?case using Suc.IH [of "shift_reduce_step w q (w + n) p"] Suc.prems(1) by simp
qed simp

lemma shift_multiply_mul:
  fixes q :: "'a::len word"
  assumes w: "0 < w" "w \<le> 32" "2 * w - 1 \<le> hi" "hi \<le> LENGTH('a)" "w < LENGTH('a)"
    and q: "\<And>i. bit q i \<longleftrightarrow> i = w \<or> i < w \<and> bit pp i" and b: "gf_elem w b"
  shows "ucast (shift_multiply w hi q (ucast a) (ucast b)) = gf_mul w pp a b"
proof -
  define p :: "'a word" where
    "p = xsum w (\<lambda>i. if bit (ucast a :: 'a word) i then push_bit i (ucast b) else 0)"
  define r where "r = fold (shift_reduce_step w q) (rev [w..<hi]) p"
  have tp: "w + (hi - w) = hi" using w by simp
  have above: "\<not> bit p k" if "hi \<le> k" for k
    unfolding p_def using w that b by (intro shift_product_high) auto
  have r: "gf_peval w pp r = gf_peval w pp p" "\<forall>k\<ge>w. \<not> bit r k"
    using shift_reduce_fold [OF w(1,2) _ q, of "hi - w" p] above w(4) unfolding r_def tp by auto
  have res: "shift_multiply w hi q (ucast a) (ucast b) = r"
    unfolding shift_multiply_def Let_def shift_product_eq r_def p_def ..
  have "n < 32" if "bit r n" for n
    using r(2) that w(2) by (meson leI le_trans)
  then have "ucast (ucast r :: u32) = r"
    by (intro bit_word_eqI) (auto simp: bit_ucast_iff)
  moreover have el: "gf_elem w (ucast r)"
    using r(2) by (intro gf_elemI) (auto simp: bit_ucast_iff)
  ultimately have "ucast r = gf_peval w pp r"
    using gf_peval_ucast [OF el w(2), where 'a = 'a] w(5) by simp
  also have "\<dots> = gf_mul w pp a b"
    unfolding r(1) p_def using b w by (intro shift_product_peval) auto
  finally show ?thesis using res by simp
qed

end
