(* ===== verification/Gf_Field.thy ===== *)
theory Gf_Field
  imports Gf_Poly
begin

text \<open>
  When x generates the non-zero elements (the polynomial is primitive), the ring of
  \<open>Gf_Poly\<close> is a field.  Primitivity of a concrete polynomial is decided by computing
  powers of x on lists of bits; it is established here for the default polynomials of
  w = 4, 8, 16 and 32.  The locale \<open>gf_arith\<close> is the interface the coding components
  rely on.
\<close>

section \<open>Powers of x and primitive polynomials\<close>

abbreviation gf_xp :: "nat \<Rightarrow> u32 \<Rightarrow> nat \<Rightarrow> u32" where
  "gf_xp w pp n \<equiv> (gf_xtime w pp ^^ n) 1"

definition gf_primitive :: "nat \<Rightarrow> u32 \<Rightarrow> bool" where
  "gf_primitive w pp \<longleftrightarrow> 0 < w \<and> w \<le> 32 \<and> gf_xp w pp (2 ^ w - 1) = 1 \<and>
     (\<forall>d. 0 < d \<and> d < 2 ^ w - 1 \<longrightarrow> gf_xp w pp d \<noteq> 1)"

lemma gf_xpow_add:
  "(gf_xtime w pp ^^ m) ((gf_xtime w pp ^^ n) b) = (gf_xtime w pp ^^ (m + n)) b"
  by (simp add: funpow_add)

lemma gf_xp_mul:
  assumes "0 < w" "w \<le> 32"
  shows "gf_mul w pp (gf_xp w pp m) (gf_xp w pp n) = gf_xp w pp (m + n)"
proof -
  have "gf_mul w pp (gf_xp w pp m) (gf_xp w pp n) = (gf_xtime w pp ^^ n) (gf_xp w pp m)"
    using assms by (simp add: gf_xpow_mul [symmetric] gf_mul_1_right)
  then show ?thesis by (simp add: gf_xpow_add add.commute)
qed

lemma gf_xp_period:
  assumes "0 < w" "w \<le> 32" "gf_xp w pp N = 1" "gf_elem w b"
  shows "(gf_xtime w pp ^^ N) b = b"
proof -
  have "(gf_xtime w pp ^^ N) b = (gf_xtime w pp ^^ N) (gf_mul w pp b 1)"
    using assms by (simp add: gf_mul_1_right del: gf_xpow_0)
  also have "\<dots> = b" unfolding gf_xpow_mul using assms by (simp add: gf_mul_1_right)
  finally show ?thesis .
qed

lemma gf_xp_cancel:
  assumes "0 < w" "w \<le> 32" "gf_xp w pp N = 1" "i \<le> j" "i \<le> N" "gf_xp w pp i = gf_xp w pp j"
  shows "gf_xp w pp (j - i) = 1"
proof -
  have "1 = (gf_xtime w pp ^^ (N - i)) (gf_xp w pp i)"
    using assms(3,5) by (simp add: gf_xpow_add)
  also have "\<dots> = (gf_xtime w pp ^^ (N - i)) (gf_xp w pp j)" using assms(6) by simp
  also have "\<dots> = gf_xp w pp (N - i + (i + (j - i)))" using assms(4) by (simp add: funpow_add)
  also have "N - i + (i + (j - i)) = N + (j - i)" using assms(5) by simp
  also have "gf_xp w pp (N + (j - i)) = (gf_xtime w pp ^^ N) (gf_xp w pp (j - i))"
    by (simp add: gf_xpow_add)
  also have "\<dots> = gf_xp w pp (j - i)"
    using assms(1,2) by (intro gf_xp_period [OF assms(1-3)]) simp
  finally show ?thesis ..
qed

lemma gf_xp_neq_0:
  assumes "0 < w" "w \<le> 32" "gf_xp w pp N = 1" "n \<le> N"
  shows "gf_xp w pp n \<noteq> 0"
proof
  assume z: "gf_xp w pp n = 0"
  have "1 = (gf_xtime w pp ^^ (N - n)) (gf_xp w pp n)"
    using assms(3,4) by (simp add: gf_xpow_add)
  then show False using z by simp
qed

lemma card_gf_elem: "w \<le> 32 \<Longrightarrow> card {a. gf_elem w a} = 2 ^ w"
proof -
  assume w: "w \<le> 32"
  have "{a. gf_elem w a} = (of_nat :: nat \<Rightarrow> u32) ` {..<2 ^ w}"
  proof (intro set_eqI iffI)
    fix a :: u32 assume "a \<in> {a. gf_elem w a}"
    then have "unat a < 2 ^ w" using w by (simp add: gf_elem_unat)
    then show "a \<in> of_nat ` {..<2 ^ w}" by (intro image_eqI [of _ _ "unat a"]) auto
  next
    fix a :: u32 assume "a \<in> of_nat ` {..<2 ^ w}"
    then obtain n where n: "n < 2 ^ w" "a = of_nat n" by auto
    have "(2::nat) ^ w \<le> 2 ^ 32" using w by (rule power_increasing) simp
    then show "a \<in> {a. gf_elem w a}" using n w
      by (simp add: gf_elem_unat unat_of_nat take_bit_eq_mod)
  qed
  moreover have "inj_on (of_nat :: nat \<Rightarrow> u32) {..<2 ^ w}"
  proof (rule inj_onI)
    fix x y :: nat
    have "(2::nat) ^ w \<le> 2 ^ 32" using w by (rule power_increasing) simp
    moreover assume "x \<in> {..<2 ^ w}" "y \<in> {..<2 ^ w}" "(of_nat x :: u32) = of_nat y"
    ultimately show "x = y"
      by (auto simp: word_unat_eq_iff unat_of_nat take_bit_eq_mod)
  qed
  ultimately show ?thesis by (simp add: card_image)
qed

lemma gf_primitive_surj:
  assumes "gf_primitive w pp" "gf_elem w a" "a \<noteq> 0"
  obtains n where "n < 2 ^ w - 1" "a = gf_xp w pp n"
proof -
  let ?N = "2 ^ w - 1 :: nat" and ?f = "gf_xp w pp" and ?C = "{a. gf_elem w a} - {0}"
  from assms(1) have w: "0 < w" "w \<le> 32" and one: "?f ?N = 1"
    and least: "\<And>d. 0 < d \<Longrightarrow> d < ?N \<Longrightarrow> ?f d \<noteq> 1" by (auto simp: gf_primitive_def)
  have inj: "inj_on ?f {..<?N}"
  proof (rule linorder_inj_onI)
    fix i j assume ij: "i < j" "i \<in> {..<?N}" "j \<in> {..<?N}"
    show "?f i \<noteq> ?f j"
      using gf_xp_cancel [OF w one, of i j] least [of "j - i"] ij by auto
  qed auto
  have fin: "finite ?C" using card_gf_elem [OF w(2)] card.infinite by fastforce
  have sub: "?f ` {..<?N} \<subseteq> ?C"
    using gf_xp_neq_0 [OF w one] w by auto
  have "card ?C = ?N" using card_gf_elem [OF w(2)] by (simp add: card_Diff_subset)
  then have "?f ` {..<?N} = ?C"
    using card_image [OF inj] card_subset_eq [OF fin sub] by simp
  moreover have "a \<in> ?C" using assms(2,3) by simp
  ultimately have "a \<in> ?f ` {..<?N}" by simp
  then show thesis using that by auto
qed

theorem gf_inverse_exists:
  assumes "gf_primitive w pp" "gf_elem w a" "a \<noteq> 0"
  shows "\<exists>b. gf_elem w b \<and> b \<noteq> 0 \<and> gf_mul w pp a b = 1"
proof -
  let ?N = "2 ^ w - 1 :: nat"
  from assms(1) have w: "0 < w" "w \<le> 32" and one: "gf_xp w pp ?N = 1"
    by (auto simp: gf_primitive_def)
  obtain n where n: "n < ?N" "a = gf_xp w pp n" using assms by (rule gf_primitive_surj)
  have "gf_mul w pp a (gf_xp w pp (?N - n)) = 1"
    using n one gf_xp_mul [OF w, of pp n "?N - n"] by simp
  moreover have "gf_xp w pp (?N - n) \<noteq> 0" using gf_xp_neq_0 [OF w one] by simp
  ultimately show ?thesis using w by (intro exI [of _ "gf_xp w pp (?N - n)"]) simp
qed

theorem gf_no_zero_divisors:
  assumes "gf_primitive w pp" "gf_elem w a" "gf_elem w b" "gf_mul w pp a b = 0"
  shows "a = 0 \<or> b = 0"
proof (rule disjCI)
  assume "b \<noteq> 0"
  then obtain c where c: "gf_elem w c" "gf_mul w pp b c = 1"
    using gf_inverse_exists [OF assms(1,3)] by auto
  have w: "w \<le> 32" using assms(1) by (simp add: gf_primitive_def)
  have "a = gf_mul w pp a (gf_mul w pp b c)" using assms c w by (simp add: gf_mul_1_right)
  also have "\<dots> = gf_mul w pp (gf_mul w pp a b) c"
    using assms(2,3) c(1) w by (rule gf_mul_assoc [symmetric])
  finally show "a = 0" using assms(4) by simp
qed

section \<open>Deciding primitivity on lists of bits\<close>

definition bl_of :: "nat \<Rightarrow> u32 \<Rightarrow> bool list" where
  "bl_of w a = map (bit a) (rev [0..<w])"

fun bl_xor :: "bool list \<Rightarrow> bool list \<Rightarrow> bool list" where
  "bl_xor (x # xs) (y # ys) = (x \<noteq> y) # bl_xor xs ys"
| "bl_xor _ _ = []"

fun bl_shift :: "bool list \<Rightarrow> bool list" where
  "bl_shift [] = [False]"
| "bl_shift (x # xs) = x # bl_shift xs"

fun bl_xtime :: "bool list \<Rightarrow> bool list \<Rightarrow> bool list" where
  "bl_xtime pp [] = []"
| "bl_xtime pp (b # bs) = (if b then bl_xor (bl_shift bs) pp else bl_shift bs)"

fun bl_mul :: "bool list \<Rightarrow> bool list \<Rightarrow> bool list \<Rightarrow> bool list \<Rightarrow> bool list" where
  "bl_mul pp [] b p = p"
| "bl_mul pp (a # as) b p = bl_mul pp as b (if a then bl_xor (bl_xtime pp p) b else bl_xtime pp p)"

fun bl_square :: "nat \<Rightarrow> bool list \<Rightarrow> bool list \<Rightarrow> bool list" where
  "bl_square w pp s = bl_mul pp s s (bl_of w 0)"

fun bl_xpow :: "nat \<Rightarrow> bool list \<Rightarrow> num \<Rightarrow> bool list" where
  "bl_xpow w pp num.One = bl_xtime pp (bl_of w 1)"
| "bl_xpow w pp (num.Bit0 n) = bl_square w pp (bl_xpow w pp n)"
| "bl_xpow w pp (num.Bit1 n) = bl_xtime pp (bl_square w pp (bl_xpow w pp n))"

lemma bl_of_Suc: "bl_of (Suc n) a = bit a n # bl_of n a"
  by (simp add: bl_of_def)

lemma bl_xor_map: "bl_xor (map f xs) (map g xs) = map (\<lambda>i. f i \<noteq> g i) xs"
  by (induction xs) auto

lemma bl_xor_of: "bl_xor (bl_of w a) (bl_of w b) = bl_of w (a XOR b)"
  by (simp add: bl_of_def bl_xor_map bit_xor_iff)

lemma bl_shift_map: "bl_shift (map f (rev [0..<n])) = map (\<lambda>i. 0 < i \<and> f (i - 1)) (rev [0..<Suc n])"
  by (induction n) (auto simp: less_Suc_eq)

lemma bl_xtime_of:
  assumes "w \<le> 32"
  shows "bl_xtime (bl_of w pp) (bl_of w b) = bl_of w (gf_xtime w pp b)"
proof (cases w)
  case (Suc n)
  then show ?thesis using assms
    by (auto simp: bl_of_def bl_xor_map bl_shift_map bit_gf_xtime)
qed (simp add: bl_of_def)

lemma bl_mul_of:
  assumes "w \<le> 32"
  shows "bl_mul (bl_of w pp) (bl_of n a) (bl_of w b) (bl_of w p) =
    bl_of w ((gf_xtime w pp ^^ n) p XOR xsum n (\<lambda>i. if bit a i then (gf_xtime w pp ^^ i) b else 0))"
proof (induction n arbitrary: p)
  case 0
  then show ?case by (simp add: bl_of_def)
next
  case (Suc n)
  have "bl_mul (bl_of w pp) (bl_of (Suc n) a) (bl_of w b) (bl_of w p) =
        bl_mul (bl_of w pp) (bl_of n a) (bl_of w b)
          (bl_of w (gf_xtime w pp p XOR (if bit a n then b else 0)))"
    by (simp add: bl_of_Suc bl_xtime_of [OF assms] bl_xor_of)
  then show ?case
    by (simp add: Suc.IH gf_xpow_xor funpow_swap1 xor_ac)
qed

lemma bl_mul_gf_mul:
  "w \<le> 32 \<Longrightarrow> bl_mul (bl_of w pp) (bl_of w a) (bl_of w b) (bl_of w 0) = bl_of w (gf_mul w pp a b)"
  by (simp add: bl_mul_of gf_mul_def)

lemma bl_xpow_of:
  assumes "0 < w" "w \<le> 32"
  shows "bl_xpow w (bl_of w pp) n = bl_of w (gf_xp w pp (nat_of_num n))"
proof (induction n)
  case One
  then show ?case using assms by (simp add: bl_xtime_of)
next
  case (Bit0 n)
  then show ?case using assms by (simp add: bl_mul_gf_mul gf_xp_mul)
next
  case (Bit1 n)
  then show ?case using assms by (simp add: bl_mul_gf_mul gf_xp_mul bl_xtime_of)
qed

lemma bl_of_inject:
  assumes "gf_elem w a" "gf_elem w b"
  shows "bl_of w a = bl_of w b \<longleftrightarrow> a = b"
proof
  assume "bl_of w a = bl_of w b"
  then have bits: "\<forall>i\<in>set (rev [0..<w]). bit a i = bit b i"
    unfolding bl_of_def map_eq_conv .
  show "a = b"
    using assms unfolding gf_elem_def
    by (rule word_take_bit_eqI) (use bits in simp)
qed simp

lemma gf_xp_numeral:
  assumes "0 < w" "w \<le> 32"
  shows "gf_xp w pp (numeral n) = 1 \<longleftrightarrow> bl_xpow w (bl_of w pp) n = bl_of w 1"
proof -
  have "gf_xp w pp (numeral n) = gf_xp w pp (nat_of_num n)"
    by (simp add: nat_of_num_numeral)
  then show ?thesis using assms by (simp add: bl_xpow_of bl_of_inject)
qed

lemma gf_xp_mult_order: "gf_xp w pp d = 1 \<Longrightarrow> gf_xp w pp (d * k) = 1"
proof (induction k)
  case (Suc k)
  have "gf_xp w pp (d * Suc k) = (gf_xtime w pp ^^ (d * k)) (gf_xp w pp d)"
    by (simp add: gf_xpow_add add.commute)
  then show ?case using Suc by simp
qed simp

lemma gf_xp_order_dvd:
  assumes "0 < w" "w \<le> 32" "gf_xp w pp N = 1" "0 < N"
  defines "d \<equiv> LEAST n. 0 < n \<and> gf_xp w pp n = 1"
  shows "0 < d" "gf_xp w pp d = 1" "d dvd N"
proof -
  have d: "0 < d \<and> gf_xp w pp d = 1"
    unfolding d_def by (rule LeastI [of _ N]) (use assms in simp)
  then show "0 < d" "gf_xp w pp d = 1" by auto
  note pow = gf_xp_mult_order [OF conjunct2 [OF d]]
  have "gf_xp w pp N = gf_xp w pp (N mod d + d * (N div d))" by simp
  also have "\<dots> = (gf_xtime w pp ^^ (N mod d)) (gf_xp w pp (d * (N div d)))"
    by (simp only: gf_xpow_add)
  also have "\<dots> = gf_xp w pp (N mod d)" by (subst pow) (rule refl)
  finally have one: "gf_xp w pp (N mod d) = 1" using assms(3) by simp
  have "N mod d < d" using d by simp
  then have "\<not> (0 < N mod d \<and> gf_xp w pp (N mod d) = 1)"
    unfolding d_def by (rule not_less_Least)
  then have "N mod d = 0" unfolding one by simp
  then show "d dvd N" by (rule mod_0_imp_dvd)
qed

text \<open>
  x is primitive when its order divides 2^w - 1 and does not divide any maximal proper
  divisor; \<open>qs\<close> lists the prime factors of 2^w - 1.
\<close>

lemma gf_primitiveI:
  assumes w: "0 < w" "w \<le> 32" and one: "gf_xp w pp (2 ^ w - 1) = 1"
    and fac: "\<And>e. e dvd 2 ^ w - 1 \<Longrightarrow> e \<noteq> 1 \<Longrightarrow> \<exists>q\<in>set qs. q dvd e"
    and pr: "\<And>q. q \<in> set qs \<Longrightarrow> gf_xp w pp ((2 ^ w - 1) div q) \<noteq> 1"
  shows "gf_primitive w pp"
proof -
  let ?N = "2 ^ w - 1 :: nat"
  define d where "d = (LEAST n. 0 < n \<and> gf_xp w pp n = 1)"
  have N: "0 < ?N" using w one_less_power [of "2::nat" w] by simp
  note d = gf_xp_order_dvd [OF w one N, folded d_def]
  have "d = ?N"
  proof (rule ccontr)
    assume "d \<noteq> ?N"
    obtain e where e: "?N = d * e" using d(3) by blast
    then have "e \<noteq> 1" using \<open>d \<noteq> ?N\<close> by auto
    then obtain q where q: "q \<in> set qs" "q dvd e" using fac [of e] e by auto
    then obtain r where r: "e = q * r" by blast
    have "q \<noteq> 0" using r e N by auto
    then have eq: "?N div q = d * r" using e r by simp
    then show False using pr [OF q(1)] gf_xp_mult_order [OF d(2)] by simp
  qed
  then have "gf_xp w pp n \<noteq> 1" if "0 < n" "n < ?N" for n
    using that not_less_Least [of n "\<lambda>n. 0 < n \<and> gf_xp w pp n = 1"] unfolding d_def by auto
  then show ?thesis using w one by (auto simp: gf_primitive_def)
qed

text \<open>The prime factors of 2^w - 1 are found without a theory of primes.\<close>

definition irreducible_nat :: "nat \<Rightarrow> bool" where
  "irreducible_nat p \<longleftrightarrow> (\<forall>d. d dvd p \<longrightarrow> d = 1 \<or> d = p)"

lemma irreducible_natI:
  assumes "1 < p" "p < b * b" "list_all (\<lambda>d. \<not> d dvd p) [2..<b]"
  shows "irreducible_nat p"
  unfolding irreducible_nat_def
proof (intro allI impI)
  fix d assume "d dvd p"
  then obtain e where e: "p = d * e" by blast
  have small: "x = 1" if "x dvd p" "x < b" for x
  proof -
    have "x \<noteq> 0" using that(1) assms(1) by (cases "x = 0") auto
    moreover have "x \<notin> set [2..<b]" using assms(3) that(1) by (auto simp: list_all_iff)
    ultimately show ?thesis using that(2) by auto
  qed
  have "d < b \<or> e < b"
    using assms(2) e mult_le_mono [of b d b e] by (meson not_less)
  then show "d = 1 \<or> d = p" using small [of d] small [of e] e by auto
qed

lemma dvd_irreducible_mult:
  assumes "irreducible_nat p" "e dvd p * m"
  shows "p dvd e \<or> e dvd m"
proof (cases "gcd e p = p")
  case True then show ?thesis by (metis gcd_dvd1)
next
  case False
  then have "coprime e p" using assms(1) unfolding irreducible_nat_def
    by (metis coprime_iff_gcd_eq_1 gcd_dvd2)
  then show ?thesis using assms(2) by (simp add: coprime_dvd_mult_right_iff)
qed

lemma irreducible_3: "irreducible_nat 3" by (rule irreducible_natI [where b = 2]) code_simp+
lemma irreducible_5: "irreducible_nat 5" by (rule irreducible_natI [where b = 3]) code_simp+
lemma irreducible_17: "irreducible_nat 17" by (rule irreducible_natI [where b = 5]) code_simp+
lemma irreducible_257: "irreducible_nat 257" by (rule irreducible_natI [where b = 17]) code_simp+
lemma irreducible_65537: "irreducible_nat 65537"
  by (rule irreducible_natI [where b = 257]) simp_all

lemma dvd_mersenne_4: "e dvd (2::nat) ^ 4 - 1 \<Longrightarrow> e \<noteq> 1 \<Longrightarrow> \<exists>q\<in>set [3, 5]. q dvd e"
  using dvd_irreducible_mult [OF irreducible_3, of e 5] dvd_irreducible_mult [OF irreducible_5, of e 1]
  by auto

lemma dvd_mersenne_8: "e dvd (2::nat) ^ 8 - 1 \<Longrightarrow> e \<noteq> 1 \<Longrightarrow> \<exists>q\<in>set [3, 5, 17]. q dvd e"
  using dvd_irreducible_mult [OF irreducible_17, of e 15] dvd_mersenne_4 [of e] by auto

lemma dvd_mersenne_16:
  "e dvd (2::nat) ^ 16 - 1 \<Longrightarrow> e \<noteq> 1 \<Longrightarrow> \<exists>q\<in>set [3, 5, 17, 257]. q dvd e"
  using dvd_irreducible_mult [OF irreducible_257, of e 255] dvd_mersenne_8 [of e] by auto

lemma dvd_mersenne_32:
  "e dvd (2::nat) ^ 32 - 1 \<Longrightarrow> e \<noteq> 1 \<Longrightarrow> \<exists>q\<in>set [3, 5, 17, 257, 65537]. q dvd e"
  using dvd_irreducible_mult [OF irreducible_65537, of e 65535] dvd_mersenne_16 [of e] by auto

lemma gf_primitive_4: "gf_primitive 4 0x13"
proof (rule gf_primitiveI [OF _ _ _ dvd_mersenne_4])
  have "gf_xp 4 0x13 15 = 1" by (subst gf_xp_numeral; code_simp)
  then show "gf_xp 4 0x13 (2 ^ 4 - 1) = 1" by simp
  fix q :: nat assume "q \<in> set [3, 5]"
  moreover have "gf_xp 4 0x13 5 \<noteq> 1" by (subst gf_xp_numeral; code_simp)
  moreover have "gf_xp 4 0x13 3 \<noteq> 1" by (subst gf_xp_numeral; code_simp)
  ultimately show "gf_xp 4 0x13 ((2 ^ 4 - 1) div q) \<noteq> 1" by auto
qed auto

lemma gf_primitive_8: "gf_primitive 8 0x11d"
proof (rule gf_primitiveI [OF _ _ _ dvd_mersenne_8])
  have "gf_xp 8 0x11d 255 = 1" by (subst gf_xp_numeral; code_simp)
  then show "gf_xp 8 0x11d (2 ^ 8 - 1) = 1" by simp
  fix q :: nat assume "q \<in> set [3, 5, 17]"
  moreover have "gf_xp 8 0x11d 85 \<noteq> 1" by (subst gf_xp_numeral; code_simp)
  moreover have "gf_xp 8 0x11d 51 \<noteq> 1" by (subst gf_xp_numeral; code_simp)
  moreover have "gf_xp 8 0x11d 15 \<noteq> 1" by (subst gf_xp_numeral; code_simp)
  ultimately show "gf_xp 8 0x11d ((2 ^ 8 - 1) div q) \<noteq> 1" by auto
qed auto

lemma gf_primitive_16: "gf_primitive 16 0x1100b"
proof (rule gf_primitiveI [OF _ _ _ dvd_mersenne_16])
  have "gf_xp 16 0x1100b 65535 = 1" by (subst gf_xp_numeral; code_simp)
  then show "gf_xp 16 0x1100b (2 ^ 16 - 1) = 1" by simp
  fix q :: nat assume "q \<in> set [3, 5, 17, 257]"
  moreover have "gf_xp 16 0x1100b 21845 \<noteq> 1" by (subst gf_xp_numeral; code_simp)
  moreover have "gf_xp 16 0x1100b 13107 \<noteq> 1" by (subst gf_xp_numeral; code_simp)
  moreover have "gf_xp 16 0x1100b 3855 \<noteq> 1" by (subst gf_xp_numeral; code_simp)
  moreover have "gf_xp 16 0x1100b 255 \<noteq> 1" by (subst gf_xp_numeral; code_simp)
  ultimately show "gf_xp 16 0x1100b ((2 ^ 16 - 1) div q) \<noteq> 1" by auto
qed auto

lemma gf_primitive_32: "gf_primitive 32 0x400007"
proof (rule gf_primitiveI [OF _ _ _ dvd_mersenne_32])
  have "gf_xp 32 0x400007 4294967295 = 1" by (subst gf_xp_numeral; code_simp)
  then show "gf_xp 32 0x400007 (2 ^ 32 - 1) = 1" by simp
  fix q :: nat assume "q \<in> set [3, 5, 17, 257, 65537]"
  moreover have "gf_xp 32 0x400007 1431655765 \<noteq> 1" by (subst gf_xp_numeral; code_simp)
  moreover have "gf_xp 32 0x400007 858993459 \<noteq> 1" by (subst gf_xp_numeral; code_simp)
  moreover have "gf_xp 32 0x400007 252645135 \<noteq> 1" by (subst gf_xp_numeral; code_simp)
  moreover have "gf_xp 32 0x400007 16711935 \<noteq> 1" by (subst gf_xp_numeral; code_simp)
  moreover have "gf_xp 32 0x400007 65535 \<noteq> 1" by (subst gf_xp_numeral; code_simp)
  ultimately show "gf_xp 32 0x400007 ((2 ^ 32 - 1) div q) \<noteq> 1" by auto
qed auto

section \<open>The interface of a field\<close>

text \<open>
  What the coding layers rely on: a carrier closed under exclusive-or and under a
  commutative, associative, distributive product with a unit, and a division.
\<close>

locale gf_arith =
  fixes elem :: "u32 \<Rightarrow> bool" and mult :: "u32 \<Rightarrow> u32 \<Rightarrow> u32" and divd :: "u32 \<Rightarrow> u32 \<Rightarrow> u32"
  assumes elem_0: "elem 0" and elem_1: "elem 1"
    and elem_xor: "elem a \<Longrightarrow> elem b \<Longrightarrow> elem (a XOR b)"
    and elem_mult: "elem a \<Longrightarrow> elem b \<Longrightarrow> elem (mult a b)"
    and mult_comm: "elem a \<Longrightarrow> elem b \<Longrightarrow> mult a b = mult b a"
    and mult_assoc: "elem a \<Longrightarrow> elem b \<Longrightarrow> elem c \<Longrightarrow> mult (mult a b) c = mult a (mult b c)"
    and mult_xor: "elem a \<Longrightarrow> elem b \<Longrightarrow> elem c \<Longrightarrow> mult a (b XOR c) = mult a b XOR mult a c"
    and mult_1: "elem a \<Longrightarrow> mult 1 a = a"
    and elem_divd: "elem a \<Longrightarrow> elem b \<Longrightarrow> b \<noteq> 0 \<Longrightarrow> elem (divd a b)"
    and divd_mult: "elem a \<Longrightarrow> elem b \<Longrightarrow> b \<noteq> 0 \<Longrightarrow> mult (divd a b) b = a"
begin

lemma mult_0: "elem a \<Longrightarrow> mult a 0 = 0"
  using mult_xor [of a 0 0] elem_0 by simp

lemma mult_0': "elem a \<Longrightarrow> mult 0 a = 0"
  using mult_0 [of a] mult_comm [of 0 a] elem_0 by simp

lemma mult_1': "elem a \<Longrightarrow> mult a 1 = a"
  using mult_1 [of a] mult_comm [of 1 a] elem_1 by simp

lemma mult_xor': "elem a \<Longrightarrow> elem b \<Longrightarrow> elem c \<Longrightarrow> mult (a XOR b) c = mult a c XOR mult b c"
  using mult_xor [of c a b] mult_comm [of c] elem_xor [of a b] by simp

lemma elem_xsum: "(\<And>i. i < n \<Longrightarrow> elem (f i)) \<Longrightarrow> elem (xsum n f)"
  by (induction n) (auto simp: elem_0 elem_xor)

lemma mult_xsum:
  "elem a \<Longrightarrow> (\<And>i. i < n \<Longrightarrow> elem (f i)) \<Longrightarrow> mult a (xsum n f) = xsum n (\<lambda>i. mult a (f i))"
  by (induction n) (auto simp: mult_0 mult_xor elem_xsum)

lemma mult_xsum':
  "elem a \<Longrightarrow> (\<And>i. i < n \<Longrightarrow> elem (f i)) \<Longrightarrow> mult (xsum n f) a = xsum n (\<lambda>i. mult (f i) a)"
  by (induction n) (auto simp: mult_0' mult_xor' elem_xsum)

lemma no_zero_div:
  assumes "elem a" "elem b" "mult a b = 0" "b \<noteq> 0"
  shows "a = 0"
proof -
  have d: "elem (divd 1 b)" "mult (divd 1 b) b = 1"
    using assms elem_1 elem_divd divd_mult by auto
  have "a = mult a (mult (divd 1 b) b)" using d assms(1) mult_1' by simp
  also have "\<dots> = mult (mult a b) (divd 1 b)"
    using assms(1,2) d(1) mult_assoc mult_comm [of b] by simp
  finally show ?thesis using assms(3) mult_0' d(1) by simp
qed

text \<open>
  A triangular system with a missing pivot has a non-trivial solution: rows 0 to i - 1
  have a non-zero diagonal and zeros to its left, all later rows are zero in the columns
  up to i.
\<close>

lemma triangular_kernel:
  assumes el: "\<And>r c. r < n \<Longrightarrow> c < n \<Longrightarrow> elem (A r c)" and i: "i < n"
    and diag: "\<And>r. r < i \<Longrightarrow> A r r \<noteq> 0"
    and left: "\<And>r c. r < n \<Longrightarrow> c < r \<Longrightarrow> c < i \<Longrightarrow> A r c = 0"
    and piv: "\<And>r. i \<le> r \<Longrightarrow> r < n \<Longrightarrow> A r i = 0"
  shows "\<exists>x. (\<forall>c. elem (x c)) \<and> x i = 1 \<and> (\<forall>r<n. xsum n (\<lambda>c. mult (A r c) (x c)) = 0)"
proof -
  have "\<exists>x. (\<forall>c. elem (x c)) \<and> x i = 1 \<and> (\<forall>c>i. x c = 0) \<and>
          (\<forall>r. i - k \<le> r \<and> r < i \<longrightarrow> xsum n (\<lambda>c. mult (A r c) (x c)) = 0)" if "k \<le> i" for k
    using that
  proof (induction k)
    case 0
    then show ?case by (intro exI [of _ "\<lambda>c. if c = i then 1 else 0"]) (auto simp: elem_0 elem_1)
  next
    case (Suc k)
    then obtain x where x: "\<forall>c. elem (x c)" "x i = 1" "\<forall>c>i. x c = 0"
      "\<And>r. i - k \<le> r \<Longrightarrow> r < i \<Longrightarrow> xsum n (\<lambda>c. mult (A r c) (x c)) = 0" by auto
    define r where "r = i - Suc k"
    have r: "r < i" "r < n" using Suc.prems i by (auto simp: r_def)
    define s where "s = xsum n (\<lambda>c. if c = r then 0 else mult (A r c) (x c))"
    have s: "elem s" unfolding s_def using el [OF r(2)] x(1) by (intro elem_xsum) (auto simp: elem_0 elem_mult)
    define v where "v = divd s (A r r)"
    have v: "elem v" "mult (A r r) v = s"
      unfolding v_def using s diag [OF r(1)] el [OF r(2) r(2)] elem_divd divd_mult mult_comm by auto
    define x' where "x' = x(r := v)"
    have row: "xsum n (\<lambda>c. mult (A q c) (x' c)) =
        xsum n (\<lambda>c. if c = r then 0 else mult (A q c) (x c)) XOR mult (A q r) v" if "q < n" for q
    proof -
      have "xsum n (\<lambda>c. mult (A q c) (x' c)) =
        xsum n (\<lambda>c. (if c = r then 0 else mult (A q c) (x c)) XOR (if c = r then mult (A q c) v else 0))"
        by (rule xsum_cong) (simp add: x'_def)
      then show ?thesis using r(2) by (simp add: xsum_xor xsum_delta)
    qed
    have "xsum n (\<lambda>c. mult (A q c) (x' c)) = 0" if "i - Suc k \<le> q" "q < i" for q
    proof (cases "q = r")
      case True
      then show ?thesis using row [of r] r(2) v(2) by (simp add: s_def)
    next
      case False
      then have q: "r < q" "i - k \<le> q" "q < n" using that i by (auto simp: r_def)
      have "A q r = 0" using left q r that by simp
      then have "mult (A q c) (x' c) = mult (A q c) (x c)" for c
        using v(1) x(1) by (cases "c = r") (auto simp: x'_def mult_0')
      then show ?thesis using x(4) [OF q(2) that(2)] by simp
    qed
    then show ?case using x v(1) r by (intro exI [of _ x']) (auto simp: x'_def)
  qed
  from this [of i] obtain x where x: "\<forall>c. elem (x c)" "x i = 1" "\<forall>c>i. x c = 0"
    "\<And>r. r < i \<Longrightarrow> xsum n (\<lambda>c. mult (A r c) (x c)) = 0" by auto
  have "xsum n (\<lambda>c. mult (A r c) (x c)) = 0" if "r < n" for r
  proof (cases "r < i")
    case False
    have "mult (A r c) (x c) = 0" if "c < n" for c
      using x(1,3) left [OF \<open>r < n\<close>, of c] piv [of r] el [OF \<open>r < n\<close> that] False \<open>r < n\<close>
      by (cases c i rule: linorder_cases) (auto simp: mult_0 mult_0' elem_1 x)
    then show ?thesis by (rule xsum_zeroI)
  qed (use x in simp)
  then show ?thesis using x(1,2) by auto
qed

end

text \<open>Every primitive polynomial gives such a field, with the inverse found by exponentiation.\<close>

definition gf_inv :: "nat \<Rightarrow> u32 \<Rightarrow> u32 \<Rightarrow> u32" where
  "gf_inv w pp b = (THE c. gf_elem w c \<and> gf_mul w pp b c = 1)"

lemma gf_inv:
  assumes "gf_primitive w pp" "gf_elem w b" "b \<noteq> 0"
  shows "gf_elem w (gf_inv w pp b) \<and> gf_mul w pp b (gf_inv w pp b) = 1"
proof -
  have w: "0 < w" "w \<le> 32" using assms(1) by (auto simp: gf_primitive_def)
  obtain c where c: "gf_elem w c" "gf_mul w pp b c = 1" using gf_inverse_exists [OF assms] by auto
  have "d = c" if d: "gf_elem w d" "gf_mul w pp b d = 1" for d
  proof -
    have "gf_mul w pp b (d XOR c) = 0" unfolding gf_mul_xor_right d(2) c(2) by simp
    then have "d XOR c = 0"
      using gf_no_zero_divisors [OF assms(1,2) gf_elem_xor [OF d(1) c(1)]] assms(3) by blast
    then show ?thesis by simp
  qed
  then have "gf_inv w pp b = c" unfolding gf_inv_def by (intro the_equality conjI c) blast
  then show ?thesis using c by metis
qed

lemma gf_primitive_arith:
  assumes "gf_primitive w pp"
  shows "gf_arith (gf_elem w) (gf_mul w pp) (\<lambda>a b. gf_mul w pp a (gf_inv w pp b))"
proof -
  have w: "0 < w" "w \<le> 32" using assms by (auto simp: gf_primitive_def)
  show ?thesis
  proof unfold_locales
    fix a b assume e: "gf_elem w a" "gf_elem w b" "b \<noteq> 0"
    note iv = gf_inv [OF assms e(2,3)]
    have "gf_mul w pp (gf_mul w pp a (gf_inv w pp b)) b = gf_mul w pp a (gf_mul w pp (gf_inv w pp b) b)"
      using e iv w by (intro gf_mul_assoc) auto
    also have "gf_mul w pp (gf_inv w pp b) b = 1"
      using e iv w gf_mul_commute [of w b "gf_inv w pp b" pp] by simp
    finally show "gf_mul w pp (gf_mul w pp a (gf_inv w pp b)) b = a"
      using e w by (simp add: gf_mul_1_right)
    show "gf_elem w (gf_mul w pp a (gf_inv w pp b))" using iv by simp
  qed (use w in \<open>auto simp: gf_mul_assoc gf_mul_xor_right gf_mul_1_left intro: gf_mul_commute\<close>)
qed

text \<open>The field of two elements, which the bit-matrix routines compute in.\<close>

interpretation gf2: gf_arith "\<lambda>a. a = 0 \<or> a = 1" "(AND)" "\<lambda>a b. a"
  by unfold_locales (auto simp: and.commute)

end
