(* ===== verification/Gf_Bitmatrix.thy ===== *)
theory Gf_Bitmatrix
  imports Gf_Field
begin

text \<open>
  The inversion of a field element through its bit matrix (gf.c:
  \<open>gf_invert_binary_matrix\<close>, \<open>gf_bitmatrix_inverse\<close>).  A binary matrix is a list of rows,
  a row is a word.  None is the failing assertion of a singular matrix.
\<close>

section \<open>The routines\<close>

definition binmat_pivot :: "nat \<Rightarrow> nat \<Rightarrow> u32 list \<times> u32 list \<Rightarrow> (u32 list \<times> u32 list) option" where
  "binmat_pivot rows i = (\<lambda>(mat, iv).
    if \<not> bit (mat ! i) i
    then (case find (\<lambda>j. bit (mat ! j) i) [i + 1..<rows] of
            None \<Rightarrow> None
          | Some j \<Rightarrow> Some (swap i j mat, swap i j iv))
    else Some (mat, iv))"

definition binmat_eliminate :: "nat \<Rightarrow> nat \<Rightarrow> u32 list \<times> u32 list \<Rightarrow> u32 list \<times> u32 list" where
  "binmat_eliminate rows i = fold (\<lambda>j (mat, iv).
      if bit (mat ! j) i
      then (mat[j := mat ! j XOR mat ! i], iv[j := iv ! j XOR iv ! i])
      else (mat, iv)) [i + 1..<rows]"

definition binmat_back :: "nat \<Rightarrow> u32 list \<Rightarrow> nat \<Rightarrow> u32 list \<Rightarrow> u32 list" where
  "binmat_back rows mat i = fold (\<lambda>j iv.
      if bit (mat ! j) i then iv[j := iv ! j XOR iv ! i] else iv) [0..<i]"

definition gf_invert_binary_matrix :: "u32 list \<Rightarrow> nat \<Rightarrow> u32 list option" where
  "gf_invert_binary_matrix mat rows =
    (case ofold (\<lambda>i s. case binmat_pivot rows i s of
                          None \<Rightarrow> None | Some s \<Rightarrow> Some (binmat_eliminate rows i s))
            [0..<rows] (mat, map (\<lambda>i. push_bit i 1) [0..<rows]) of
       None \<Rightarrow> None
     | Some (mat, iv) \<Rightarrow> Some (fold (binmat_back rows mat) (rev [0..<rows]) iv))"

definition gf_bitmatrix_inverse :: "u32 \<Rightarrow> nat \<Rightarrow> u32 \<Rightarrow> u32 option" where
  "gf_bitmatrix_inverse y w pp =
    (let mask = (if w = 32 then 0xffffffff else push_bit w 1 - 1);
         mat = fst (fold (\<lambda>i (mat, y).
                 (mat[i := y],
                  if y AND push_bit (w - 1) 1 \<noteq> 0 then (push_bit 1 y XOR pp) AND mask
                  else push_bit 1 y)) [0..<w] (replicate w 0, y))
     in case gf_invert_binary_matrix mat w of None \<Rightarrow> None | Some iv \<Rightarrow> Some (iv ! 0))"

section \<open>Row combinations and dot products\<close>

definition comb :: "nat \<Rightarrow> u32 list \<Rightarrow> u32 \<Rightarrow> u32" where
  "comb n M v = xsum n (\<lambda>i. if bit v i then M ! i else 0)"

definition bdot :: "nat \<Rightarrow> (nat \<Rightarrow> u32) \<Rightarrow> u32 \<Rightarrow> u32" where
  "bdot n x a = xsum n (\<lambda>c. of_bool (bit a c) AND x c)"

lemma comb_xor [xor_linear]: "comb n M (u XOR v) = comb n M u XOR comb n M v"
  unfolding comb_def xsum_xor [symmetric] by (rule xsum_cong) (auto simp: bit_xor_iff)

lemma comb_unit: "i < n \<Longrightarrow> i < 32 \<Longrightarrow> comb n M (push_bit i 1) = M ! i"
  unfolding comb_def by (subst xsum_single [of i]) auto

lemma bdot_xor [xor_linear]: "bdot n x (a XOR b) = bdot n x a XOR bdot n x b"
  unfolding bdot_def xsum_xor [symmetric]
  by (rule xsum_cong) (auto simp: bit_xor_iff of_bool_def split: if_splits)

lemma bdot_0 [simp]: "bdot n x 0 = 0"
  by (simp add: bdot_def)

lemma bdot_unit: "i < n \<Longrightarrow> i < 32 \<Longrightarrow> x i = 0 \<or> x i = 1 \<Longrightarrow> bdot n x (push_bit i 1) = x i"
  unfolding bdot_def by (subst xsum_single [of i]) auto

text \<open>The invariant of the elimination: \<open>iv\<close> times the original matrix is the current one.\<close>

definition binmat_inv :: "nat \<Rightarrow> u32 list \<Rightarrow> u32 list \<times> u32 list \<Rightarrow> bool" where
  "binmat_inv n M = (\<lambda>(mat, iv). length mat = n \<and> length iv = n \<and>
     (\<forall>r<n. gf_elem n (mat ! r) \<and> gf_elem n (iv ! r) \<and> comb n M (iv ! r) = mat ! r) \<and>
     (\<forall>x. (\<forall>r<n. bdot n x (mat ! r) = 0) \<longrightarrow> (\<forall>r<n. bdot n x (M ! r) = 0)))"

definition binmat_tri :: "nat \<Rightarrow> nat \<Rightarrow> u32 list \<Rightarrow> bool" where
  "binmat_tri n i mat \<longleftrightarrow> (\<forall>r<n. \<forall>c<i. c < r \<longrightarrow> \<not> bit (mat ! r) c) \<and> (\<forall>r<i. bit (mat ! r) r)"

lemma binmat_inv_swap:
  assumes "binmat_inv n M (mat, iv)" "i < n" "j < n"
  shows "binmat_inv n M (swap i j mat, swap i j iv)"
  using assms unfolding binmat_inv_def
  by (auto simp: nth_swap) (metis (full_types))

lemma binmat_inv_add:
  assumes "binmat_inv n M (mat, iv)" "i < n" "j < n" "i \<noteq> j"
  shows "binmat_inv n M (mat[j := mat ! j XOR mat ! i], iv[j := iv ! j XOR iv ! i])"
proof -
  let ?m = "mat[j := mat ! j XOR mat ! i]"
  note a = assms(1) [unfolded binmat_inv_def, simplified]
  have "\<forall>r<n. bdot n x (mat ! r) = 0" if "\<forall>r<n. bdot n x (?m ! r) = 0" for x
  proof (intro allI impI)
    fix r assume r: "r < n"
    have "bdot n x (mat ! i) = 0" using that [rule_format, OF assms(2)] assms(4) by simp
    moreover have "bdot n x (mat ! j) XOR bdot n x (mat ! i) = 0"
      using that [rule_format, OF assms(3)] a assms(3) by (simp add: bdot_xor del: xor_eq_0_iff)
    ultimately show "bdot n x (mat ! r) = 0"
      using that [rule_format, OF r] by (cases "r = j") auto
  qed
  then show ?thesis
    using a assms(2-4) by (auto simp: binmat_inv_def nth_list_update comb_xor)
qed

lemma binmat_eliminate:
  assumes "binmat_inv n M (mat, iv)" "i < n" "binmat_tri n i mat" "bit (mat ! i) i"
  shows "\<exists>mat' iv'. binmat_eliminate n i (mat, iv) = (mat', iv') \<and>
           binmat_inv n M (mat', iv') \<and> binmat_tri n (Suc i) mat'"
proof -
  define P where "P j s \<longleftrightarrow> (case s of (mat, iv) \<Rightarrow> binmat_inv n M (mat, iv) \<and> binmat_tri n i mat \<and>
      bit (mat ! i) i \<and> (\<forall>r. i < r \<and> r < j \<longrightarrow> \<not> bit (mat ! r) i))" for j s
  have "P n (binmat_eliminate n i (mat, iv))"
    unfolding binmat_eliminate_def
  proof (rule fold_upt_inv [where P = P])
    show "P (i + 1) (mat, iv)" using assms by (auto simp: P_def)
    fix j s assume j: "i + 1 \<le> j" "j < n" and P: "P j s"
    obtain m v where s: "s = (m, v)" by (cases s)
    show "P (Suc j) (case s of (mat, iv) \<Rightarrow> if bit (mat ! j) i
        then (mat[j := mat ! j XOR mat ! i], iv[j := iv ! j XOR iv ! i]) else (mat, iv))"
    proof (cases "bit (m ! j) i")
      case True
      have len: "length m = n" using P by (simp add: P_def s binmat_inv_def)
      have "binmat_inv n M (m[j := m ! j XOR m ! i], v[j := v ! j XOR v ! i])"
        using P j assms(2) by (intro binmat_inv_add) (auto simp: P_def s)
      moreover have "binmat_tri n i (m[j := m ! j XOR m ! i])"
        using P j assms(2) len
        by (auto simp: P_def s binmat_tri_def nth_list_update bit_xor_iff)
      ultimately show ?thesis using P True j assms(2) len
        by (auto simp: P_def s nth_list_update bit_xor_iff less_Suc_eq)
    next
      case False
      then show ?thesis using P by (auto simp: P_def s less_Suc_eq)
    qed
  qed (use assms(2) in simp)
  then show ?thesis
    by (cases "binmat_eliminate n i (mat, iv)")
       (auto simp: P_def binmat_tri_def less_Suc_eq)
qed

text \<open>Without a non-trivial kernel every column finds its pivot.\<close>

definition binmat_regular :: "nat \<Rightarrow> u32 list \<Rightarrow> bool" where
  "binmat_regular n M \<longleftrightarrow> (\<forall>x. (\<forall>c. x c = 0 \<or> x c = 1) \<and> (\<forall>r<n. bdot n x (M ! r) = 0) \<longrightarrow>
     (\<forall>c<n. x c = 0))"

lemma binmat_pivot:
  assumes "binmat_inv n M (mat, iv)" "i < n" "binmat_tri n i mat" "binmat_regular n M"
  shows "\<exists>mat' iv'. binmat_pivot n i (mat, iv) = Some (mat', iv') \<and>
           binmat_inv n M (mat', iv') \<and> binmat_tri n i mat' \<and> bit (mat' ! i) i"
proof (cases "bit (mat ! i) i")
  case True
  then show ?thesis using assms by (auto simp: binmat_pivot_def)
next
  case False
  have len: "length mat = n" using assms(1) by (simp add: binmat_inv_def)
  show ?thesis
  proof (cases "find (\<lambda>j. bit (mat ! j) i) [i + 1..<n]")
    case None
    then have piv: "\<not> bit (mat ! r) i" if "i \<le> r" "r < n" for r
      using that False by (cases "r = i") (auto simp: find_upt_None)
    define A :: "nat \<Rightarrow> nat \<Rightarrow> u32" where "A r c = of_bool (bit (mat ! r) c)" for r c
    have "\<exists>x. (\<forall>c. x c = 0 \<or> x c = 1) \<and> x i = 1 \<and> (\<forall>r<n. xsum n (\<lambda>c. A r c AND x c) = 0)"
      using assms(2,3) piv
      by (intro gf2.triangular_kernel) (auto simp: A_def binmat_tri_def)
    then obtain x where x: "\<forall>c. x c = 0 \<or> x c = 1" "x i = 1" "\<forall>r<n. bdot n x (mat ! r) = 0"
      unfolding A_def bdot_def by auto
    then have "\<forall>r<n. bdot n x (M ! r) = 0" using assms(1) by (simp add: binmat_inv_def)
    then have "x i = 0" using assms(2,4) x(1) unfolding binmat_regular_def by blast
    then show ?thesis using x(2) by simp
  next
    case (Some j)
    then have j: "i < j" "j < n" "bit (mat ! j) i" by (auto dest: find_upt_Some)
    have "binmat_tri n i (swap i j mat)"
      using assms(2,3) j len unfolding binmat_tri_def by (auto simp: nth_swap)
    then show ?thesis using Some False j assms(1,2) len binmat_inv_swap [of n M mat iv i j]
      by (auto simp: binmat_pivot_def nth_swap)
  qed
qed

lemma binmat_forward:
  assumes "length M = n" "n \<le> 32" "\<And>r. r < n \<Longrightarrow> gf_elem n (M ! r)" "binmat_regular n M"
  shows "\<exists>mat iv. ofold (\<lambda>i s. case binmat_pivot n i s of
                          None \<Rightarrow> None | Some s \<Rightarrow> Some (binmat_eliminate n i s))
            [0..<n] (M, map (\<lambda>i. push_bit i 1) [0..<n]) = Some (mat, iv) \<and>
          binmat_inv n M (mat, iv) \<and> binmat_tri n n mat"
proof -
  let ?f = "\<lambda>i s. case binmat_pivot n i s of
                          None \<Rightarrow> None | Some s \<Rightarrow> Some (binmat_eliminate n i s)"
  have "\<exists>s. ofold ?f [0..<n] (M, map (\<lambda>i. push_bit i 1) [0..<n]) = Some s \<and>
          (case s of (mat, iv) \<Rightarrow> binmat_inv n M (mat, iv) \<and> binmat_tri n n mat)"
  proof (rule ofold_upt_inv [where P = "\<lambda>i s. case s of (mat, iv) \<Rightarrow>
        binmat_inv n M (mat, iv) \<and> binmat_tri n i mat"])
    show "case (M, map (\<lambda>i. push_bit i 1) [0..<n]) of (mat, iv) \<Rightarrow>
        binmat_inv n M (mat, iv) \<and> binmat_tri n 0 mat"
      using assms by (auto simp: binmat_inv_def binmat_tri_def comb_unit intro!: gf_elemI)
    fix i s assume i: "i < n"
      and P: "case s of (mat, iv) \<Rightarrow> binmat_inv n M (mat, iv) \<and> binmat_tri n i mat"
    obtain m v where s: "s = (m, v)" by (cases s)
    obtain m' v' where 1: "binmat_pivot n i (m, v) = Some (m', v')"
      "binmat_inv n M (m', v')" "binmat_tri n i m'" "bit (m' ! i) i"
      using binmat_pivot [OF _ i _ assms(4), of m v] P s by auto
    then show "\<exists>s'. ?f i s = Some s' \<and>
        (case s' of (mat, iv) \<Rightarrow> binmat_inv n M (mat, iv) \<and> binmat_tri n (Suc i) mat)"
      using binmat_eliminate [OF 1(2) i 1(3,4)] s by auto
  qed simp
  then show ?thesis by auto
qed

text \<open>The back substitution leaves a matrix whose product with the original is the identity.\<close>

definition back_value :: "nat \<Rightarrow> u32 list \<Rightarrow> nat \<Rightarrow> u32" where
  "back_value i mat r = (if r < i then take_bit i (mat ! r) else push_bit r 1)"

lemma back_value_Suc:
  assumes "binmat_tri n n mat" "i < n" "n \<le> 32" "r < n"
  shows "back_value i mat r =
    (if r < i \<and> bit (mat ! r) i then back_value (Suc i) mat r XOR push_bit i 1 else back_value (Suc i) mat r)"
    and "back_value (Suc i) mat i = push_bit i 1"
proof -
  have tri: "bit (mat ! i) i" "\<And>c. c < i \<Longrightarrow> \<not> bit (mat ! i) c"
    using assms(1,2) by (auto simp: binmat_tri_def)
  show diag: "back_value (Suc i) mat i = push_bit i 1"
    using tri assms(2,3) by (intro bit_word_eqI) (auto simp: back_value_def bit_take_bit_iff less_Suc_eq)
  show "back_value i mat r =
    (if r < i \<and> bit (mat ! r) i then back_value (Suc i) mat r XOR push_bit i 1 else back_value (Suc i) mat r)"
  proof (cases "r < i")
    case True
    then show ?thesis using assms(2,3)
      by (intro bit_word_eqI) (auto simp: back_value_def bit_take_bit_iff bit_xor_iff less_Suc_eq)
  next
    case False
    then show ?thesis using diag by (cases "r = i") (auto simp: back_value_def)
  qed
qed

lemma binmat_back:
  assumes "binmat_tri n n mat" "i < n" "n \<le> 32" "length iv = n"
    "\<And>r. r < n \<Longrightarrow> gf_elem n (iv ! r) \<and> comb n M (iv ! r) = back_value (Suc i) mat r"
  shows "length (binmat_back n mat i iv) = n \<and>
    (\<forall>r<n. gf_elem n (binmat_back n mat i iv ! r) \<and>
           comb n M (binmat_back n mat i iv ! r) = back_value i mat r)"
proof -
  note bv = back_value_Suc [OF assms(1-3)]
  define P where "P j v \<longleftrightarrow> length v = n \<and>
    (\<forall>r<n. gf_elem n (v ! r) \<and> comb n M (v ! r) = back_value (if r < j then i else Suc i) mat r)" for j v
  have "P i (binmat_back n mat i iv)"
    unfolding binmat_back_def
  proof (rule fold_upt_inv [where P = P])
    show "P 0 iv" using assms by (simp add: P_def)
    fix j v assume j: "j < i" and P: "P j v"
    have pi: "comb n M (v ! i) = push_bit i 1"
      using P j assms(2) bv(2) [of i] by (simp add: P_def)
    have "back_value i mat j = (if bit (mat ! j) i then back_value (Suc i) mat j XOR push_bit i 1
        else back_value (Suc i) mat j)"
      using bv(1) [of j] j assms(2) by simp
    then show "P (Suc j) (if bit (mat ! j) i then v[j := v ! j XOR v ! i] else v)"
      using P j assms(2) pi by (auto simp: P_def nth_list_update comb_xor less_Suc_eq)
  qed simp
  moreover have "back_value i mat r = back_value (Suc i) mat r" if "r < n" "\<not> r < i" for r
    using bv(1) [OF that(1)] that(2) by simp
  ultimately show ?thesis unfolding P_def by auto
qed

lemma invert_binary_matrix:
  assumes "length M = n" "n \<le> 32" "\<And>r. r < n \<Longrightarrow> gf_elem n (M ! r)" "binmat_regular n M"
  shows "\<exists>iv. gf_invert_binary_matrix M n = Some iv \<and> length iv = n \<and>
           (\<forall>r<n. gf_elem n (iv ! r) \<and> comb n M (iv ! r) = push_bit r 1)"
proof -
  obtain mat iv where f: "ofold (\<lambda>i s. case binmat_pivot n i s of
                          None \<Rightarrow> None | Some s \<Rightarrow> Some (binmat_eliminate n i s))
            [0..<n] (M, map (\<lambda>i. push_bit i 1) [0..<n]) = Some (mat, iv)"
    and inv: "binmat_inv n M (mat, iv)" and tri: "binmat_tri n n mat"
    using binmat_forward [OF assms] by blast
  define P where "P i v \<longleftrightarrow> length v = n \<and>
    (\<forall>r<n. gf_elem n (v ! r) \<and> comb n M (v ! r) = back_value i mat r)" for i v
  have "P 0 (fold (binmat_back n mat) (rev [0..<n]) iv)"
  proof (rule fold_rev_upt_inv [where P = P])
    show "P n iv" using inv by (auto simp: P_def binmat_inv_def back_value_def gf_elem_def)
    fix i v assume "i < n" "P (Suc i) v"
    then show "P i (binmat_back n mat i v)"
      using binmat_back [OF tri, of i v M] assms(2) by (simp add: P_def)
  qed simp
  then show ?thesis using f by (simp add: gf_invert_binary_matrix_def P_def back_value_def)
qed

section \<open>The inverse of a field element\<close>

lemma and_low_mask: "w \<le> 32 \<Longrightarrow>
    a AND (if w = 32 then 0xffffffff else push_bit w 1 - 1) = take_bit w (a :: u32)"
proof (cases "w = 32")
  case True
  have "(0xffffffff :: u32) = - 1" by simp
  then have "a AND 0xffffffff = a" by (metis and.right_neutral)
  then show ?thesis using True by (simp add: take_bit_word_eq_self)
next
  case False
  have "push_bit w 1 - 1 = (mask w :: u32)" by (simp add: mask_eq_exp_minus_1 push_bit_of_1)
  then show ?thesis using False by (simp add: take_bit_eq_mask)
qed

lemma bitmatrix_row_step:
  assumes "gf_elem w y" "0 < w" "w \<le> 32"
  shows "(if y AND push_bit (w - 1) 1 \<noteq> 0
          then (push_bit 1 y XOR pp) AND (if w = 32 then 0xffffffff else push_bit w 1 - 1)
          else push_bit 1 y) = gf_xtime w pp y"
proof (cases "bit y (w - 1)")
  case True
  then show ?thesis
    unfolding and_push_bit_neq_0 and_low_mask [OF assms(3)] gf_xtime_def by simp
next
  case False
  have "take_bit w (push_bit 1 y) = push_bit 1 y"
  proof (rule bit_word_eqI)
    fix n assume "n < LENGTH(32)"
    moreover have "n < w" if "bit y (n - 1)" "0 < n"
    proof (rule ccontr)
      assume "\<not> n < w"
      then have "n - 1 = w - 1 \<or> w \<le> n - 1" by auto
      then show False using that False gf_elem_bit [OF assms(1)] by auto
    qed
    ultimately show "bit (take_bit w (push_bit 1 y)) n = bit (push_bit 1 y) n"
      by (auto simp: bit_take_bit_iff)
  qed
  then show ?thesis using False unfolding and_push_bit_neq_0 gf_xtime_def by simp
qed

lemma bitmatrix_rows:
  assumes "gf_elem w y" "0 < w" "w \<le> 32"
  shows "fst (fold (\<lambda>i (mat, y).
                 (mat[i := y],
                  if y AND push_bit (w - 1) 1 \<noteq> 0
                  then (push_bit 1 y XOR pp) AND (if w = 32 then 0xffffffff else push_bit w 1 - 1)
                  else push_bit 1 y)) [0..<w] (replicate w 0, y)) =
         map (\<lambda>i. (gf_xtime w pp ^^ i) y) [0..<w]"
proof -
  let ?f = "\<lambda>i (mat, y).
                 (mat[i := y],
                  if y AND push_bit (w - 1) 1 \<noteq> 0
                  then (push_bit 1 y XOR pp) AND (if w = 32 then 0xffffffff else push_bit w 1 - 1)
                  else push_bit 1 y)"
  have "fold ?f [0..<n] (replicate w 0, y) =
        (map (\<lambda>i. (gf_xtime w pp ^^ i) y) [0..<n] @ replicate (w - n) 0, (gf_xtime w pp ^^ n) y)"
    if "n \<le> w" for n
    using that
  proof (induction n)
    case (Suc n)
    have "(map (\<lambda>i. (gf_xtime w pp ^^ i) y) [0..<n] @ replicate (w - n) 0)[n := z] =
          map (\<lambda>i. (gf_xtime w pp ^^ i) y) [0..<n] @ z # replicate (w - Suc n) 0" for z
      using Suc.prems Suc_diff_Suc [of n w] by (auto simp: list_update_append)
         (metis list_update_code(2) replicate_Suc)
    then show ?case
      using Suc bitmatrix_row_step [OF _ assms(2,3), of "(gf_xtime w pp ^^ n) y" pp] assms(1)
      by (simp del: push_bit_Suc)
  qed simp
  from this [of w] show ?thesis by simp
qed

lemma element_rows_regular:
  assumes "gf_primitive w pp" "gf_elem w y" "y \<noteq> 0"
  shows "binmat_regular w (map (\<lambda>i. (gf_xtime w pp ^^ i) y) [0..<w])"
  unfolding binmat_regular_def
proof (intro allI impI, elim conjE)
  let ?M = "map (\<lambda>i. (gf_xtime w pp ^^ i) y) [0..<w]"
  fix x c assume x: "\<forall>c. x c = 0 \<or> x c = (1::u32)" "\<forall>r<w. bdot w x (?M ! r) = 0" and c: "c < w"
  have w: "0 < w" "w \<le> 32" using assms(1) by (auto simp: gf_primitive_def)
  have dot: "bdot w x (gf_mul w pp a y) = 0" for a
  proof -
    have "bdot w x (gf_mul w pp a y) =
          xsum w (\<lambda>i. bdot w x (if bit a i then (gf_xtime w pp ^^ i) y else 0))"
      unfolding gf_mul_def by (rule xsum_additive) (auto simp: bdot_xor)
    also have "\<dots> = 0" using x(2) by (intro xsum_zeroI) auto
    finally show ?thesis .
  qed
  obtain z where z: "gf_elem w z" "gf_mul w pp y z = 1" using gf_inverse_exists [OF assms] by auto
  have e: "gf_elem w (push_bit c 1)" using c by (intro gf_elemI) auto
  have "gf_mul w pp (gf_mul w pp (push_bit c 1) z) y = gf_mul w pp (push_bit c 1) (gf_mul w pp z y)"
    using e z assms(2) w by (intro gf_mul_assoc) auto
  also have "gf_mul w pp z y = 1" using z assms(2) w gf_mul_commute [of w y z pp] by simp
  finally have "gf_mul w pp (gf_mul w pp (push_bit c 1) z) y = push_bit c 1"
    using e w by (simp add: gf_mul_1_right)
  then show "x c = 0" using dot [of "gf_mul w pp (push_bit c 1) z"] bdot_unit [of c w x] c w x(1) by simp
qed

lemma bitmatrix_inverse:
  assumes "gf_primitive w pp" "gf_elem w y" "y \<noteq> 0"
  shows "\<exists>z. gf_bitmatrix_inverse y w pp = Some z \<and> gf_elem w z \<and> gf_mul w pp z y = 1"
proof -
  let ?M = "map (\<lambda>i. (gf_xtime w pp ^^ i) y) [0..<w]"
  have w: "0 < w" "w \<le> 32" using assms(1) by (auto simp: gf_primitive_def)
  obtain iv where iv: "gf_invert_binary_matrix ?M w = Some iv"
    "\<forall>r<w. gf_elem w (iv ! r) \<and> comb w ?M (iv ! r) = push_bit r 1"
    using invert_binary_matrix [of ?M w] element_rows_regular [OF assms] w assms(2) by auto
  have "comb w ?M (iv ! 0) = gf_mul w pp (iv ! 0) y"
    unfolding comb_def gf_mul_def by (rule xsum_cong) simp
  then show ?thesis
    using iv w unfolding gf_bitmatrix_inverse_def Let_def bitmatrix_rows [OF assms(2) w] by auto
qed

end
