(* ===== verification/Gf_Wgen.thy ===== *)
theory Gf_Wgen
  imports Gf_Types Gf_Bitmatrix
begin

text \<open>
  gf_wgen.c: arithmetic in GF(2^w) for general w.  Every multiplication technique is
  translated as it is written (shift, by-two from either end, grouped tables, full
  tables, logarithm tables) together with Euclid's inversion and the initialisation that
  selects among them.  The theories \<open>Gf_Wgen_Mult\<close> and \<open>Gf_Wgen_Tables\<close> prove that they
  all compute \<open>gf_mul\<close>, the reference product.
\<close>

section \<open>Division by inversion, shift, by-two, and Euclid\<close>

definition gf_wgen_shift_multiply :: "gf_internal \<Rightarrow> u32 \<Rightarrow> u32 \<Rightarrow> u32" where
  "gf_wgen_shift_multiply h a32 b32 =
    ucast (shift_multiply (h_w h) (2 * h_w h) (prim_poly h OR push_bit (h_w h) (1 :: u64))
             (ucast a32) (ucast b32))"

text \<open>The step shared by the by-two routines and the table builders.\<close>

definition by_two :: "nat \<Rightarrow> u32 \<Rightarrow> u32 \<Rightarrow> u32" where
  "by_two w pp b = (if b AND push_bit (w - 1) 1 \<noteq> 0 then push_bit 1 b XOR pp else push_bit 1 b)"

function gf_wgen_bytwo_b_loop :: "nat \<Rightarrow> u32 \<Rightarrow> u32 \<Rightarrow> u32 \<Rightarrow> u32 \<Rightarrow> u32" where
  "gf_wgen_bytwo_b_loop w pp prd a b =
    (let prd = (if a AND 1 \<noteq> 0 then prd XOR b else prd);
         a = drop_bit 1 a
     in if a = 0 then prd else gf_wgen_bytwo_b_loop w pp prd a (by_two w pp b))"
  by pat_completeness auto
termination
proof (relation "measure (\<lambda>(w, pp, prd, a, b). unat a)", goal_cases)
  case (2 w pp prd a b x xa)
  then have "a \<noteq> 0" by auto
  then show ?case using 2 unat_halve by simp
qed simp

definition gf_wgen_bytwo_b_multiply :: "gf_internal \<Rightarrow> u32 \<Rightarrow> u32 \<Rightarrow> u32" where
  "gf_wgen_bytwo_b_multiply h a b = gf_wgen_bytwo_b_loop (h_w h) (ucast (prim_poly h)) 0 a b"

function gf_wgen_bytwo_p_loop :: "nat \<Rightarrow> u32 \<Rightarrow> u32 \<Rightarrow> u32 \<Rightarrow> u32 \<Rightarrow> u32 \<Rightarrow> u32" where
  "gf_wgen_bytwo_p_loop w pp a b amask prd =
    (if amask \<noteq> 0 then
       (let prd = by_two w pp prd;
            prd = (if a AND amask \<noteq> 0 then prd XOR b else prd)
        in gf_wgen_bytwo_p_loop w pp a b (drop_bit 1 amask) prd)
     else prd)"
  by pat_completeness auto
termination
proof (relation "measure (\<lambda>(w, pp, a, b, amask, prd). unat amask)", goal_cases)
  case (2 w pp a b amask prd x xa)
  then show ?case using unat_halve [of amask] by simp
qed simp

definition gf_wgen_bytwo_p_multiply :: "gf_internal \<Rightarrow> u32 \<Rightarrow> u32 \<Rightarrow> u32" where
  "gf_wgen_bytwo_p_multiply h a b =
    gf_wgen_bytwo_p_loop (h_w h) (ucast (prim_poly h)) a b (push_bit (h_w h - 1) 1) 0"

text \<open>The search for the highest set bit, downwards from d.\<close>

fun high_bit :: "u32 \<Rightarrow> nat \<Rightarrow> nat" where
  "high_bit e 0 = 0"
| "high_bit e (Suc d) = (if bit e (Suc d) then Suc d else high_bit e d)"

text \<open>
  The inner loop of Euclid's algorithm divides; \<open>Some None\<close> is the early \<open>return 0\<close> of
  the procedure, None a loop that does not end.  The outer loop is shared by the versions
  of the algorithm, which differ in the inner one.
\<close>

partial_function (option) gf_wgen_euclid_inner ::
  "u32 \<Rightarrow> nat \<Rightarrow> u32 \<Rightarrow> u32 \<Rightarrow> nat \<Rightarrow> (u32 \<times> u32 \<times> nat) option option" where
  "gf_wgen_euclid_inner e_i d_i c_i e_ip1 d_ip1 =
    (if d_ip1 < d_i then Some (Some (c_i, e_ip1, d_ip1))
     else (let c_i = c_i XOR push_bit (d_ip1 - d_i) 1;
               e_ip1 = e_ip1 XOR push_bit (d_ip1 - d_i) e_i
           in if e_ip1 = 0 then Some None
              else gf_wgen_euclid_inner e_i d_i c_i e_ip1 (high_bit e_ip1 d_ip1)))"

partial_function (option) euclid_loop ::
  "(u32 \<Rightarrow> nat \<Rightarrow> u32 \<Rightarrow> u32 \<Rightarrow> nat \<Rightarrow> (u32 \<times> u32 \<times> nat) option option) \<Rightarrow>
   (u32 \<Rightarrow> u32 \<Rightarrow> u32) \<Rightarrow> u32 \<Rightarrow> u32 \<Rightarrow> nat \<Rightarrow> nat \<Rightarrow> u32 \<Rightarrow> u32 \<Rightarrow> u32 option" where
  "euclid_loop inner mul e_im1 e_i d_im1 d_i y_im1 y_i =
    (if e_i = 1 then Some y_i
     else case inner e_i d_i 0 e_im1 d_im1 of
            None \<Rightarrow> None
          | Some None \<Rightarrow> Some 0
          | Some (Some (c_i, e_ip1, d_ip1)) \<Rightarrow>
              euclid_loop inner mul e_i e_ip1 d_i d_ip1 y_i (y_im1 XOR mul c_i y_i))"

definition gf_wgen_euclid :: "gf_internal \<Rightarrow> (u32 \<Rightarrow> u32 \<Rightarrow> u32) \<Rightarrow> u32 \<Rightarrow> u32 option" where
  "gf_wgen_euclid h mul b =
    (if b = 0 then Some (- 1)
     else euclid_loop gf_wgen_euclid_inner mul (ucast (prim_poly h)) b
            (h_w h) (high_bit b (h_w h)) 0 1)"

definition gf_wgen_inverse_from_divide :: "(u32 \<Rightarrow> u32 \<Rightarrow> u32 option) \<Rightarrow> u32 \<Rightarrow> u32 option" where
  "gf_wgen_inverse_from_divide dv a = dv 1 a"

definition gf_wgen_divide_from_inverse ::
  "(u32 \<Rightarrow> u32 option) \<Rightarrow> (u32 \<Rightarrow> u32 \<Rightarrow> u32) \<Rightarrow> u32 \<Rightarrow> u32 \<Rightarrow> u32 option" where
  "gf_wgen_divide_from_inverse iv mul a b =
    (case iv b of None \<Rightarrow> None | Some b \<Rightarrow> Some (mul a b))"

definition gf_wgen_matrix :: "gf_internal \<Rightarrow> u32 \<Rightarrow> u32 option" where
  "gf_wgen_matrix h b = gf_bitmatrix_inverse b (h_w h) (ucast (prim_poly h))"

section \<open>Grouped tables\<close>

record gf_wgen_group_data =
  gd_reduce :: "u32 list"
  gd_mask :: u32
  gd_rmask :: u64
  gd_tshift :: int

definition group_g_s :: "gf_internal \<Rightarrow> nat" where
  "group_g_s h = (if mult_type h = GF_MULT_DEFAULT then 2 else nat (arg1 h))"

definition group_g_r :: "gf_internal \<Rightarrow> nat" where
  "group_g_r h = (if mult_type h = GF_MULT_DEFAULT then 8 else nat (arg2 h))"

text \<open>The table of the multiples of val by the polynomials of degree below g_s.\<close>

definition gf_wgen_group_set_shift_tables :: "gf_internal \<Rightarrow> u32 \<Rightarrow> u32 list" where
  "gf_wgen_group_set_shift_tables h val =
    fst (fold (\<lambda>k (shift, val).
          (fold (\<lambda>j shift. shift[2 ^ k OR j := shift ! j XOR val]) [0..<2 ^ k] shift,
           by_two (h_w h) (ucast (prim_poly h)) val))
      [0..<group_g_s h] (replicate (2 ^ group_g_s h) 0, val))"

text \<open>A group size of zero, with which the loops below would not end, is refused by \<open>gf_error_check\<close>.\<close>

function group_s_equals_r_loop ::
  "gf_wgen_group_data \<Rightarrow> u32 list \<Rightarrow> nat \<Rightarrow> nat \<Rightarrow> nat \<Rightarrow> u32 \<Rightarrow> u32 \<Rightarrow> u32" where
  "group_s_equals_r_loop gd shift g_s rs bits_left a32 p =
    (if 0 < bits_left \<and> 0 < g_s then
       (let ind = drop_bit rs a32;
            a32 = push_bit g_s a32 AND gd_mask gd;
            l = drop_bit rs p;
            p = (shift ! unat ind XOR gd_reduce gd ! unat l XOR push_bit g_s p) AND gd_mask gd
        in group_s_equals_r_loop gd shift g_s rs (bits_left - g_s) a32 p)
     else p)"
  by pat_completeness auto
termination by (relation "measure (\<lambda>(gd, shift, g_s, rs, bits_left, a32, p). bits_left)") auto

definition gf_wgen_group_s_equals_r_multiply ::
  "gf_internal \<Rightarrow> gf_wgen_group_data \<Rightarrow> u32 \<Rightarrow> u32 \<Rightarrow> u32" where
  "gf_wgen_group_s_equals_r_multiply h gd a b =
    (let g_s = nat (arg1 h);
         w = h_w h;
         shift = gf_wgen_group_set_shift_tables h b;
         leftover = (if w mod g_s = 0 then g_s else w mod g_s);
         rs = w - leftover;
         ind = drop_bit rs a;
         a32 = push_bit leftover a AND gd_mask gd;
         p = shift ! unat ind
     in group_s_equals_r_loop gd shift g_s (w - g_s) rs a32 p)"

function group_multiply_loop ::
  "gf_wgen_group_data \<Rightarrow> u32 list \<Rightarrow> nat \<Rightarrow> nat \<Rightarrow> nat \<Rightarrow> u32 \<Rightarrow> u64 \<Rightarrow> u32 \<times> u64" where
  "group_multiply_loop gd shift w g_s i a32 p =
    (if g_s < i \<and> 0 < g_s then
       (let ind = drop_bit (w - g_s) a32;
            p = p XOR ucast (shift ! unat ind);
            a32 = push_bit g_s a32 AND gd_mask gd;
            p = push_bit g_s p
        in group_multiply_loop gd shift w g_s (i - g_s) a32 p)
     else (a32, p))"
  by pat_completeness auto
termination by (relation "measure (\<lambda>(gd, shift, w, g_s, i, a32, p). i)") auto

function group_reduce_loop :: "gf_wgen_group_data \<Rightarrow> nat \<Rightarrow> nat \<Rightarrow> int \<Rightarrow> u64 \<Rightarrow> u64" where
  "group_reduce_loop gd w g_r i p =
    (if 0 \<le> i \<and> 0 < g_r then
       (let l = p AND push_bit (nat i) (gd_rmask gd);
            r = push_bit (nat i) (ucast (gd_reduce gd ! unat (drop_bit (nat i + w) l)))
        in group_reduce_loop gd w g_r (i - int g_r) (p XOR r))
     else p)"
  by pat_completeness auto
termination by (relation "measure (\<lambda>(gd, w, g_r, i, p). nat (i + 1))") auto

definition gf_wgen_group_multiply :: "gf_internal \<Rightarrow> gf_wgen_group_data \<Rightarrow> u32 \<Rightarrow> u32 \<Rightarrow> u32" where
  "gf_wgen_group_multiply h gd a b =
    (let g_s = group_g_s h;
         g_r = group_g_r h;
         w = h_w h;
         shift = gf_wgen_group_set_shift_tables h b;
         leftover = (if w mod g_s = 0 then g_s else w mod g_s);
         ind = drop_bit (w - leftover) a;
         p = push_bit g_s (ucast (shift ! unat ind) :: u64);
         a32 = push_bit leftover a AND gd_mask gd;
         (a32, p) = group_multiply_loop gd shift w g_s (w - leftover) a32 p;
         ind = drop_bit (w - g_s) a32;
         p = p XOR ucast (shift ! unat ind);
         p = group_reduce_loop gd w g_r (gd_tshift gd) p
     in ucast (p AND ucast (gd_mask gd)))"

text \<open>
  The reduction table: a multiple of the polynomial with high part \<open>index\<close> has low part
  \<open>p\<close>.  In the last assignment to \<open>tshift\<close> the difference is converted to unsigned
  before the division, so that it wraps when \<open>tshift\<close> is zero.
\<close>

definition group_reduce_entry :: "gf_internal \<Rightarrow> nat \<Rightarrow> nat \<Rightarrow> u32 \<times> u32" where
  "group_reduce_entry h g_r i =
    fold (\<lambda>j (p, index). if bit i j
            then (p XOR ucast (push_bit j (prim_poly h)),
                  index XOR ucast (drop_bit (h_w h - j) (prim_poly h)))
            else (p, index)) [0..<g_r] (0, 0)"

definition gf_wgen_group_tables :: "gf_internal \<Rightarrow> gf_wgen_group_data" where
  "gf_wgen_group_tables h =
    (let g_s = group_g_s h;
         g_r = group_g_r h;
         w = h_w h;
         mask = (if w \<noteq> 31 then push_bit w 1 - 1 else 0x7fffffff);
         rmask = push_bit w (push_bit g_r 1 - 1);
         t = (if w mod g_s = 0 then g_s else w mod g_s);
         t = (of_nat (w - t) - 1 :: u32) div of_nat g_r * of_nat g_r;
         reduce = fold (\<lambda>i reduce. case group_reduce_entry h g_r i of
                      (p, index) \<Rightarrow> reduce[unat index := p AND mask])
                    [0..<2 ^ g_r] (replicate (2 ^ g_r) 0)
     in \<lparr>gd_reduce = reduce, gd_mask = mask, gd_rmask = rmask, gd_tshift = sint t\<rparr>)"

definition gf_wgen_group_init :: "gf_internal \<Rightarrow> u32 \<Rightarrow> u32 \<Rightarrow> u32" where
  "gf_wgen_group_init h =
    (let gd = gf_wgen_group_tables h
     in if group_g_s h = group_g_r h then gf_wgen_group_s_equals_r_multiply h gd
        else gf_wgen_group_multiply h gd)"

section \<open>Multiplication and division tables\<close>

text \<open>
  The tables hold elements of \<open>ew\<close> bits: 8 for w up to 8, 16 for w up to 14.  An index
  \<open>(a << w) + b\<close> is a word, as in the source.
\<close>

type_synonym gf_wgen_table_data = "u32 list \<times> u32 list" \<comment> \<open>mult, div\<close>

definition table_index :: "nat \<Rightarrow> u32 \<Rightarrow> u32 \<Rightarrow> nat" where
  "table_index w a b = unat (push_bit w a + b)"

definition table_or_index :: "nat \<Rightarrow> u32 \<Rightarrow> u32 \<Rightarrow> nat" where
  "table_or_index w a b = unat (push_bit w a OR b)"

definition gf_wgen_table_fill :: "nat \<Rightarrow> gf_internal \<Rightarrow> gf_wgen_table_data" where
  "gf_wgen_table_fill ew h =
    (let w = h_w h;
         size = 2 ^ w * 2 ^ w;
         clear = (\<lambda>a t. t[a := 0, table_index w (of_nat a) 0 := 0]);
         tabs = fold (\<lambda>a (mtab, dtab). (clear a mtab, clear a dtab)) [0..<2 ^ w]
                  (replicate size 0, replicate size 0)
     in fold (\<lambda>a tabs. fold (\<lambda>b (mtab, dtab).
            (let p = gf_wgen_shift_multiply h (of_nat a) (of_nat b)
             in (mtab[table_or_index w (of_nat a) (of_nat b) := take_bit ew p],
                 dtab[table_or_index w p (of_nat a) := take_bit ew (of_nat b)])))
          [1..<2 ^ w] tabs) [1..<2 ^ w] tabs)"

definition gf_wgen_table_8_multiply :: "gf_internal \<Rightarrow> gf_wgen_table_data \<Rightarrow> u32 \<Rightarrow> u32 \<Rightarrow> u32" where
  "gf_wgen_table_8_multiply h std a b = fst std ! table_index (h_w h) a b"

definition gf_wgen_table_8_divide :: "gf_internal \<Rightarrow> gf_wgen_table_data \<Rightarrow> u32 \<Rightarrow> u32 \<Rightarrow> u32" where
  "gf_wgen_table_8_divide h std a b = snd std ! table_index (h_w h) a b"

definition gf_wgen_table_16_multiply :: "gf_internal \<Rightarrow> gf_wgen_table_data \<Rightarrow> u32 \<Rightarrow> u32 \<Rightarrow> u32" where
  "gf_wgen_table_16_multiply h std a b = fst std ! table_index (h_w h) a b"

definition gf_wgen_table_16_divide :: "gf_internal \<Rightarrow> gf_wgen_table_data \<Rightarrow> u32 \<Rightarrow> u32 \<Rightarrow> u32" where
  "gf_wgen_table_16_divide h std a b = snd std ! table_index (h_w h) a b"

text \<open>
  The functions an initialisation installs: the product, and the division and inversion
  it leaves in place (None for NULL).
\<close>

type_synonym gf_funs =
  "(u32 \<Rightarrow> u32 \<Rightarrow> u32) \<times> (u32 \<Rightarrow> u32 \<Rightarrow> u32 option) option \<times> (u32 \<Rightarrow> u32 option) option"

definition gf_wgen_shift_init :: "gf_internal \<Rightarrow> gf_funs" where
  "gf_wgen_shift_init h =
    (gf_wgen_shift_multiply h, None, Some (gf_wgen_euclid h (gf_wgen_shift_multiply h)))"

definition gf_wgen_bytwo_b_init :: "gf_internal \<Rightarrow> gf_funs" where
  "gf_wgen_bytwo_b_init h =
    (gf_wgen_bytwo_b_multiply h, None, Some (gf_wgen_euclid h (gf_wgen_bytwo_b_multiply h)))"

definition gf_wgen_bytwo_p_init :: "gf_internal \<Rightarrow> gf_funs" where
  "gf_wgen_bytwo_p_init h =
    (gf_wgen_bytwo_p_multiply h, None, Some (gf_wgen_euclid h (gf_wgen_bytwo_p_multiply h)))"

definition gf_wgen_table_8_init :: "gf_internal \<Rightarrow> gf_funs" where
  "gf_wgen_table_8_init h =
    (let std = gf_wgen_table_fill 8 h
     in (gf_wgen_table_8_multiply h std, Some (\<lambda>a b. Some (gf_wgen_table_8_divide h std a b)), None))"

definition gf_wgen_table_16_init :: "gf_internal \<Rightarrow> gf_funs" where
  "gf_wgen_table_16_init h =
    (let std = gf_wgen_table_fill 16 h
     in (gf_wgen_table_16_multiply h std, Some (\<lambda>a b. Some (gf_wgen_table_16_divide h std a b)), None))"

definition gf_wgen_table_init :: "gf_internal \<Rightarrow> gf_fail + gf_funs" where
  "gf_wgen_table_init h =
    (if h_w h \<le> 8 then Inr (gf_wgen_table_8_init h)
     else if h_w h \<le> 14 then Inr (gf_wgen_table_16_init h)
     else Inl Gf_zero)"

section \<open>Logarithm tables\<close>

text \<open>
  \<open>log\<close>, then \<open>anti\<close> directly followed by \<open>danti\<close>: a sum of two logarithms may run from
  the first into the second, and a negative difference from the second into the first.
\<close>

record gf_wgen_log_data =
  log_tab :: "u32 list"
  anti_tab :: "u32 list"

definition log_period :: "nat \<Rightarrow> nat" where
  "log_period w = 2 ^ w - 1"

definition gf_wgen_log_fill :: "nat \<Rightarrow> gf_internal \<Rightarrow> gf_wgen_log_data \<times> bool" where
  "gf_wgen_log_fill ew h =
    (let w = h_w h;
         n = log_period w;
         (log, anti, a, check) =
           fold (\<lambda>i (log, anti, a, check).
              (let check = (check \<or> log ! unat a \<noteq> 0);
                   log = log[unat a := take_bit ew (of_nat i)];
                   anti = anti[i := take_bit ew a, n + i := take_bit ew a];
                   a' = push_bit 1 a
               in (log, anti, if bit a' w then a' XOR ucast (prim_poly h) else a', check)))
             [0..<n] (replicate (2 ^ w) 0, replicate (2 * n) 0, 1 :: u32, False)
     in (\<lparr>log_tab = log, anti_tab = anti\<rparr>, check))"

definition log_multiply :: "gf_wgen_log_data \<Rightarrow> u32 \<Rightarrow> u32 \<Rightarrow> u32" where
  "log_multiply std a b = (if a = 0 \<or> b = 0 then 0
     else anti_tab std ! (unat (log_tab std ! unat a) + unat (log_tab std ! unat b)))"

definition log_divide :: "nat \<Rightarrow> gf_wgen_log_data \<Rightarrow> u32 \<Rightarrow> u32 \<Rightarrow> u32" where
  "log_divide w std a b = (if a = 0 \<or> b = 0 then 0
     else (let index = uint (log_tab std ! unat a) - uint (log_tab std ! unat b)
           in anti_tab std ! nat (int (log_period w) + index)))"

definition gf_wgen_log_8_multiply :: "gf_wgen_log_data \<Rightarrow> u32 \<Rightarrow> u32 \<Rightarrow> u32" where
  "gf_wgen_log_8_multiply = log_multiply"

definition gf_wgen_log_8_divide :: "nat \<Rightarrow> gf_wgen_log_data \<Rightarrow> u32 \<Rightarrow> u32 \<Rightarrow> u32" where
  "gf_wgen_log_8_divide = log_divide"

definition gf_wgen_log_16_multiply :: "gf_wgen_log_data \<Rightarrow> u32 \<Rightarrow> u32 \<Rightarrow> u32" where
  "gf_wgen_log_16_multiply = log_multiply"

definition gf_wgen_log_16_divide :: "nat \<Rightarrow> gf_wgen_log_data \<Rightarrow> u32 \<Rightarrow> u32 \<Rightarrow> u32" where
  "gf_wgen_log_16_divide = log_divide"

definition gf_wgen_log_32_multiply :: "gf_wgen_log_data \<Rightarrow> u32 \<Rightarrow> u32 \<Rightarrow> u32" where
  "gf_wgen_log_32_multiply = log_multiply"

definition gf_wgen_log_32_divide :: "nat \<Rightarrow> gf_wgen_log_data \<Rightarrow> u32 \<Rightarrow> u32 \<Rightarrow> u32" where
  "gf_wgen_log_32_divide = log_divide"

definition gf_wgen_log_8_init :: "gf_internal \<Rightarrow> gf_fail + gf_funs" where
  "gf_wgen_log_8_init h =
    (case gf_wgen_log_fill 8 h of (std, check) \<Rightarrow>
       if check then Inl (Gf_errno ''GF_E_LOGPOLY'')
       else Inr (gf_wgen_log_8_multiply std,
                 Some (\<lambda>a b. Some (gf_wgen_log_8_divide (h_w h) std a b)), None))"

definition gf_wgen_log_16_init :: "gf_internal \<Rightarrow> gf_fail + gf_funs" where
  "gf_wgen_log_16_init h =
    (case gf_wgen_log_fill 16 h of (std, check) \<Rightarrow>
       if check then
         (if mult_type h \<noteq> GF_MULT_LOG_TABLE then Inr (gf_wgen_shift_init h)
          else Inl (Gf_errno ''GF_E_LOGPOLY''))
       else Inr (gf_wgen_log_16_multiply std,
                 Some (\<lambda>a b. Some (gf_wgen_log_16_divide (h_w h) std a b)), None))"

definition gf_wgen_log_32_init :: "gf_internal \<Rightarrow> gf_fail + gf_funs" where
  "gf_wgen_log_32_init h =
    (case gf_wgen_log_fill 32 h of (std, check) \<Rightarrow>
       if check then Inl (Gf_errno ''GF_E_LOGPOLY'')
       else Inr (gf_wgen_log_32_multiply std,
                 Some (\<lambda>a b. Some (gf_wgen_log_32_divide (h_w h) std a b)), None))"

definition gf_wgen_log_init :: "gf_internal \<Rightarrow> gf_fail + gf_funs" where
  "gf_wgen_log_init h =
    (if h_w h \<le> 8 then gf_wgen_log_8_init h
     else if h_w h \<le> 16 then gf_wgen_log_16_init h
     else if h_w h \<le> 32 then gf_wgen_log_32_init h
     else Inl Gf_zero)"

section \<open>The size of the scratch area\<close>

text \<open>Sizes in bytes of the structures on an LP64 machine.\<close>

definition sizeof_gf_internal :: nat where "sizeof_gf_internal = 56"
definition sizeof_table_w8_data :: nat where "sizeof_table_w8_data = 24"
definition sizeof_table_w16_data :: nat where "sizeof_table_w16_data = 24"
definition sizeof_log_w8_data :: nat where "sizeof_log_w8_data = 32"
definition sizeof_log_w16_data :: nat where "sizeof_log_w16_data = 32"
definition sizeof_log_w32_data :: nat where "sizeof_log_w32_data = 32"
definition sizeof_group_data :: nat where "sizeof_group_data = 40"

lemmas sizeof_defs = sizeof_gf_internal_def sizeof_table_w8_data_def sizeof_table_w16_data_def
  sizeof_log_w8_data_def sizeof_log_w16_data_def sizeof_log_w32_data_def sizeof_group_data_def

definition gf_wgen_scratch_size :: "nat \<Rightarrow> gf_mult_type \<Rightarrow> int \<Rightarrow> int \<Rightarrow> nat" where
  "gf_wgen_scratch_size w mt a1 a2 =
    (case mt of
       GF_MULT_DEFAULT \<Rightarrow>
         (if w \<le> 8 then sizeof_gf_internal + sizeof_table_w8_data + 2 ^ w * 2 ^ w * 2 + 64
          else if w \<le> 16 then sizeof_gf_internal + sizeof_log_w16_data + 2 * 2 ^ w * 3
          else sizeof_gf_internal + sizeof_group_data + 4 * 2 ^ 2 + 4 * 2 ^ 8 + 64)
     | GF_MULT_SHIFT \<Rightarrow> sizeof_gf_internal
     | GF_MULT_BYTWO_b \<Rightarrow> sizeof_gf_internal
     | GF_MULT_BYTWO_p \<Rightarrow> sizeof_gf_internal
     | GF_MULT_GROUP \<Rightarrow>
         sizeof_gf_internal + sizeof_group_data + 4 * 2 ^ nat a1 + 4 * 2 ^ nat a2 + 64
     | GF_MULT_TABLE \<Rightarrow>
         (if w \<le> 8 then sizeof_gf_internal + sizeof_table_w8_data + 2 ^ w * 2 ^ w * 2 + 64
          else if w < 15 then sizeof_gf_internal + sizeof_table_w16_data + 2 * 2 ^ w * 2 ^ w * 2 + 64
          else 0)
     | GF_MULT_LOG_TABLE \<Rightarrow>
         (if w \<le> 8 then sizeof_gf_internal + sizeof_log_w8_data + 2 ^ w * 3
          else if w \<le> 16 then sizeof_gf_internal + sizeof_log_w16_data + 2 * 2 ^ w * 3
          else if w \<le> 27 then sizeof_gf_internal + sizeof_log_w32_data + 4 * 2 ^ w * 3
          else 0)
     | _ \<Rightarrow> 0)"

section \<open>Extraction of a word and initialisation\<close>

text \<open>A word is spread over w packets of \<open>rs\<close> bytes, its lowest bit in the first one.\<close>

definition gf_wgen_extract_word :: "gf_internal \<Rightarrow> u8 list \<Rightarrow> nat \<Rightarrow> nat \<Rightarrow> u32" where
  "gf_wgen_extract_word h start bytes index =
    (let w = h_w h;
         rs = bytes div w;
         byte = index div 8;
         bt = index mod 8
     in fst (fold (\<lambda>i (rv, ptr).
            (let rv = push_bit 1 rv
             in (if bit (start ! nat ptr) bt then rv OR 1 else rv, ptr - int rs)))
          [0..<w] (0, int bytes - int rs + int byte)))"

definition gf_wgen_default_poly :: "nat \<Rightarrow> u64 option" where
  "gf_wgen_default_poly w =
    (if 1 \<le> w \<and> w \<le> 32 then Some ([0x1, 0x7, 0xB, 0x13, 0x25, 0x43, 0x89, 0x11D, 0x211,
       0x409, 0x805, 0x1053, 0x201B, 0x4443, 0x8003, 0x1100B, 0x20009, 0x40081, 0x80027,
       0x100009, 0x200005, 0x400003, 0x800021, 0x1000087, 0x2000009, 0x4000047, 0x8000027,
       0x10000009, 0x20000005, 0x40800007, 0x80000009, 0x400007] ! (w - 1))
     else None)"

text \<open>
  The polynomial in use.  \<open>1 << w\<close> is a signed int, so for w = 31 its conversion to 64
  bits sets the upper half.
\<close>

definition gf_wgen_poly :: "gf_internal \<Rightarrow> gf_fail + u64" where
  "gf_wgen_poly h =
    (if prim_poly h = 0 then
       (case gf_wgen_default_poly (h_w h) of None \<Rightarrow> Inl Gf_exit | Some p \<Rightarrow> Inr p)
     else if h_w h = 32 then Inr (prim_poly h AND 0xffffffff)
     else (let p = prim_poly h OR scast (push_bit (h_w h) 1 :: u32)
           in if p AND NOT (push_bit (h_w h + 1) 1 - 1) \<noteq> 0 then Inl Gf_zero else Inr p))"

definition gf_wgen_mult_init :: "gf_internal \<Rightarrow> gf_fail + gf_funs" where
  "gf_wgen_mult_init h =
    (case mult_type h of
       GF_MULT_DEFAULT \<Rightarrow>
         (if h_w h \<le> 8 then gf_wgen_table_init h
          else if h_w h \<le> 16 then gf_wgen_log_init h
          else Inr (gf_wgen_bytwo_p_init h))
     | GF_MULT_SHIFT \<Rightarrow> Inr (gf_wgen_shift_init h)
     | GF_MULT_BYTWO_b \<Rightarrow> Inr (gf_wgen_bytwo_b_init h)
     | GF_MULT_BYTWO_p \<Rightarrow> Inr (gf_wgen_bytwo_p_init h)
     | GF_MULT_GROUP \<Rightarrow> Inr (gf_wgen_group_init h, None, None)
     | GF_MULT_TABLE \<Rightarrow> gf_wgen_table_init h
     | GF_MULT_LOG_TABLE \<Rightarrow> gf_wgen_log_init h
     | _ \<Rightarrow> Inl Gf_zero)"

text \<open>The choice of the inversion and division, and the completion of the missing one.\<close>

definition gf_wgen_division :: "gf_internal \<Rightarrow> gf_funs \<Rightarrow> gf_funs" where
  "gf_wgen_division h = (\<lambda>(mul, dv, iv).
    (let (dv, iv) =
           (case divide_type h of
              GF_DIVIDE_EUCLID \<Rightarrow>
                (let e = gf_wgen_euclid h mul in (Some (gf_wgen_divide_from_inverse e mul), Some e))
            | GF_DIVIDE_MATRIX \<Rightarrow>
                (let e = gf_wgen_matrix h in (Some (gf_wgen_divide_from_inverse e mul), Some e))
            | _ \<Rightarrow> (dv, iv));
         iv = (if iv = None \<and> dv = None then Some (gf_wgen_euclid h mul) else iv);
         dv = (case (iv, dv) of (Some i, None) \<Rightarrow> Some (gf_wgen_divide_from_inverse i mul) | _ \<Rightarrow> dv);
         iv = (case (iv, dv) of (None, Some d) \<Rightarrow> Some (gf_wgen_inverse_from_divide d) | _ \<Rightarrow> iv)
     in (mul, dv, iv)))"

definition gf_wgen_init :: "gf_internal \<Rightarrow> gf_fail + gf_t" where
  "gf_wgen_init h =
    (case gf_wgen_poly h of
       Inl e \<Rightarrow> Inl e
     | Inr p \<Rightarrow>
         (let h = set_prim_poly p h
          in case gf_wgen_mult_init h of
               Inl e \<Rightarrow> Inl e
             | Inr fs \<Rightarrow>
                 (case gf_wgen_division h fs of (mul, dv, iv) \<Rightarrow>
                    Inr \<lparr>multiply = Some mul, divide = dv, inverse = iv,
                         multiply_region = Some Wgen_cauchy_region,
                         extract_word = Some Wgen_extract, scratch = h\<rparr>)))"

declare gf_wgen_bytwo_b_loop.simps [simp del] gf_wgen_bytwo_p_loop.simps [simp del]
  group_s_equals_r_loop.simps [simp del] group_multiply_loop.simps [simp del]
  group_reduce_loop.simps [simp del]

end
