(* ===== verification/Gf_Wgen_Mult.thy ===== *)
theory Gf_Wgen_Mult
  imports Gf_Wgen
begin

text \<open>
  The multiplications of gf_wgen.c without tables compute the reference product, and
  Euclid's algorithm computes inverses, for a scratch area with a well-formed polynomial.
\<close>

section \<open>The shift and by-two products are the reference product\<close>

definition wf_field :: "gf_internal \<Rightarrow> bool" where
  "wf_field h \<longleftrightarrow> 0 < h_w h \<and> h_w h \<le> 32 \<and>
     (h_w h < 32 \<longrightarrow> drop_bit (h_w h) (prim_poly h) = 1) \<and>
     (h_w h = 32 \<longrightarrow> drop_bit (h_w h) (prim_poly h) = 0)"

abbreviation field_poly :: "gf_internal \<Rightarrow> u32" where
  "field_poly h \<equiv> ucast (prim_poly h)"

abbreviation h_mul :: "gf_internal \<Rightarrow> u32 \<Rightarrow> u32 \<Rightarrow> u32" where
  "h_mul h \<equiv> gf_mul (h_w h) (field_poly h)"

abbreviation h_elem :: "gf_internal \<Rightarrow> u32 \<Rightarrow> bool" where
  "h_elem h \<equiv> gf_elem (h_w h)"

lemma wf_field_bounds: "wf_field h \<Longrightarrow> 0 < h_w h \<and> h_w h \<le> 32"
  by (simp add: wf_field_def)

lemma wf_field_high:
  assumes "wf_field h" "h_w h \<le> i"
  shows "bit (prim_poly h) i \<longleftrightarrow> i = h_w h \<and> h_w h < 32"
proof -
  have "bit (prim_poly h) i = bit (drop_bit (h_w h) (prim_poly h)) (i - h_w h)"
    using assms(2) by (simp add: bit_drop_bit_eq)
  also have "\<dots> \<longleftrightarrow> i = h_w h \<and> h_w h < 32"
    using assms by (cases "h_w h = 32") (auto simp: wf_field_def bit_1_iff)
  finally show ?thesis .
qed

lemma full_poly_bit:
  assumes "wf_field h"
  shows "bit (prim_poly h OR push_bit (h_w h) 1) i \<longleftrightarrow>
         i = h_w h \<or> i < h_w h \<and> bit (field_poly h) i"
  using wf_field_high [OF assms, of i] wf_field_bounds [OF assms]
  by (cases "i < h_w h") (auto simp: bit_or_iff bit_ucast_iff)

lemma shift_multiply_eq_mul:
  assumes "wf_field h" "h_elem h b"
  shows "gf_wgen_shift_multiply h a b = h_mul h a b"
  unfolding gf_wgen_shift_multiply_def
  using wf_field_bounds [OF assms(1)] full_poly_bit [OF assms(1)] assms(2)
  by (intro shift_multiply_mul) auto

lemma by_two_xtime:
  assumes "wf_field h" "h_elem h b"
  shows "by_two (h_w h) (field_poly h) b = gf_xtime (h_w h) (field_poly h) b"
proof (rule bit_word_eqI)
  fix n assume n: "n < LENGTH(32)"
  note w = wf_field_bounds [OF assms(1)]
  consider "n < h_w h" | "n = h_w h" | "h_w h < n" by linarith
  then show "bit (by_two (h_w h) (field_poly h) b) n = bit (gf_xtime (h_w h) (field_poly h) b) n"
  proof cases
    case 1
    then show ?thesis using n
      by (auto simp: by_two_def and_push_bit_neq_0 bit_gf_xtime bit_xor_iff)
  next
    case 2
    then show ?thesis using n w wf_field_high [OF assms(1), of n]
      by (auto simp: by_two_def and_push_bit_neq_0 bit_gf_xtime bit_xor_iff bit_ucast_iff)
  next
    case 3
    then have "\<not> bit b (n - 1)" using assms(2) by (intro gf_elem_bit) auto
    then show ?thesis using 3 wf_field_high [OF assms(1), of n]
      by (auto simp: by_two_def and_push_bit_neq_0 bit_gf_xtime bit_xor_iff bit_ucast_iff)
  qed
qed

lemma bytwo_b_loop:
  assumes "wf_field h" "h_elem h b"
  shows "gf_wgen_bytwo_b_loop (h_w h) (field_poly h) p a b =
    p XOR xsum 32 (\<lambda>i. if bit a i then (gf_xtime (h_w h) (field_poly h) ^^ i) b else 0)"
  using assms(2)
proof (induction "unat a" arbitrary: p a b rule: less_induct)
  case less
  let ?X = "gf_xtime (h_w h) (field_poly h)"
  define p' where "p' = (if a AND 1 \<noteq> 0 then p XOR b else p)"
  have bit0: "a AND 1 \<noteq> 0 \<longleftrightarrow> bit a 0" using and_push_bit_neq_0 [of a 0] by simp
  have "xsum 32 (\<lambda>i. if bit a i then (?X ^^ i) b else 0) =
      (if bit a 0 then b else 0) XOR xsum 31 (\<lambda>i. if bit a (Suc i) then (?X ^^ Suc i) b else 0)"
    using xsum_Suc_shift [of 31 "\<lambda>i. if bit a i then (?X ^^ i) b else 0"] by simp
  also have "xsum 31 (\<lambda>i. if bit a (Suc i) then (?X ^^ Suc i) b else 0) =
      xsum 32 (\<lambda>i. if bit (drop_bit 1 a) i then (?X ^^ i) (?X b) else 0)"
  proof -
    have "xsum 32 (\<lambda>i. if bit (drop_bit 1 a) i then (?X ^^ i) (?X b) else 0) =
          xsum 31 (\<lambda>i. if bit (drop_bit 1 a) i then (?X ^^ i) (?X b) else 0)"
      using bit_imp_le_length [of a 32]
      by (intro xsum_extend) (auto simp only: bit_drop_bit_eq comp_apply, auto dest: bit_imp_le_length)
    then show ?thesis
      by (auto simp only: bit_drop_bit_eq comp_apply funpow_swap1 funpow.simps plus_1_eq_Suc)
  qed
  finally have split: "p XOR xsum 32 (\<lambda>i. if bit a i then (?X ^^ i) b else 0) =
      p' XOR xsum 32 (\<lambda>i. if bit (drop_bit 1 a) i then (?X ^^ i) (?X b) else 0)"
    by (simp add: p'_def bit0 xor_ac)
  show ?case
  proof (cases "drop_bit 1 a = 0")
    case True
    then show ?thesis unfolding split
      by (subst gf_wgen_bytwo_b_loop.simps) (simp add: p'_def)
  next
    case False
    then have "a \<noteq> 0" by auto
    then have "unat (drop_bit 1 a) < unat a" by (rule unat_halve)
    from less.hyps [OF this, of "?X b" p']
    show ?thesis unfolding split using False less.prems
      by (subst gf_wgen_bytwo_b_loop.simps) (simp add: p'_def by_two_xtime [OF assms(1)] Let_def)
  qed
qed

lemma bytwo_b_multiply_eq_mul:
  assumes "wf_field h" "h_elem h a" "h_elem h b"
  shows "gf_wgen_bytwo_b_multiply h a b = h_mul h a b"
proof -
  have "gf_wgen_bytwo_b_multiply h a b =
    xsum 32 (\<lambda>i. if bit a i then (gf_xtime (h_w h) (field_poly h) ^^ i) b else 0)"
    using bytwo_b_loop [OF assms(1,3)] by (simp add: gf_wgen_bytwo_b_multiply_def)
  then show ?thesis
    using gf_elem_bit [OF assms(2)] wf_field_bounds [OF assms(1)]
    unfolding gf_mul_def by (simp add: xsum_extend)
qed

lemma bytwo_p_loop:
  assumes "wf_field h" "h_elem h b" "h_elem h p" "k < h_w h"
  shows "gf_wgen_bytwo_p_loop (h_w h) (field_poly h) a b (push_bit k 1) p =
    (gf_xtime (h_w h) (field_poly h) ^^ Suc k) p XOR
    xsum (Suc k) (\<lambda>i. if bit a i then (gf_xtime (h_w h) (field_poly h) ^^ i) b else 0)"
  using assms(3,4)
proof (induction k arbitrary: p)
  case 0
  have "gf_wgen_bytwo_p_loop (h_w h) (field_poly h) a b (drop_bit 1 1) q = q" for q
    by (subst gf_wgen_bytwo_p_loop.simps) simp
  then show ?case using 0
    by (subst gf_wgen_bytwo_p_loop.simps)
       (auto simp: Let_def by_two_xtime [OF assms(1)] and_push_bit_neq_0 [of a 0, simplified] xor_ac)
next
  case (Suc k)
  let ?X = "gf_xtime (h_w h) (field_poly h)"
  define p' where "p' = ?X p XOR (if bit a (Suc k) then b else 0)"
  have k: "Suc k < 32" using Suc.prems wf_field_bounds [OF assms(1)] by simp
  have nz: "push_bit (Suc k) (1::u32) \<noteq> 0"
  proof -
    have "bit (push_bit (Suc k) (1::u32)) (Suc k)" unfolding bit_push_one using k by simp
    then show ?thesis by (metis bit_0_eq bot_apply bot_bool_def)
  qed
  have sh: "drop_bit 1 (push_bit (Suc k) (1::u32)) = push_bit k 1"
    using k by (intro bit_word_eqI) (auto simp only: bit_drop_bit_eq comp_apply bit_push_one, auto)
  have "gf_wgen_bytwo_p_loop (h_w h) (field_poly h) a b (push_bit (Suc k) 1) p =
      gf_wgen_bytwo_p_loop (h_w h) (field_poly h) a b (push_bit k 1) p'"
    using nz Suc.prems
    by (subst gf_wgen_bytwo_p_loop.simps)
       (simp only: Let_def by_two_xtime [OF assms(1)] and_push_bit_neq_0 sh p'_def if_True,
        simp add: xor_ac)
  also have "\<dots> = (?X ^^ Suc k) p' XOR xsum (Suc k) (\<lambda>i. if bit a i then (?X ^^ i) b else 0)"
    using Suc assms(2) by (intro Suc.IH) (auto simp: p'_def)
  also have "(?X ^^ Suc k) p' = (?X ^^ Suc (Suc k)) p XOR (if bit a (Suc k) then (?X ^^ Suc k) b else 0)"
    by (auto simp: p'_def gf_xpow_xor gf_xtime_xor funpow_swap1)
  finally show ?case by (simp add: xor_ac)
qed

lemma bytwo_p_multiply_eq_mul:
  assumes "wf_field h" "h_elem h b"
  shows "gf_wgen_bytwo_p_multiply h a b = h_mul h a b"
proof -
  have "h_w h - 1 < h_w h" "Suc (h_w h - 1) = h_w h" using wf_field_bounds [OF assms(1)] by auto
  then show ?thesis
    using bytwo_p_loop [OF assms, of 0 "h_w h - 1" a]
    by (simp add: gf_wgen_bytwo_p_multiply_def gf_mul_def del: funpow.simps)
qed

section \<open>Degrees\<close>

definition deg_is :: "u32 \<Rightarrow> nat \<Rightarrow> bool" where
  "deg_is e d \<longleftrightarrow> bit e d \<and> (\<forall>k>d. \<not> bit e k)"

lemma deg_is_above: "deg_is e d \<Longrightarrow> bit e k \<Longrightarrow> k \<le> d"
  by (meson deg_is_def not_le)

lemma deg_is_top: "deg_is e d \<Longrightarrow> bit e d"
  by (simp add: deg_is_def)

lemma deg_is_lt_32: "deg_is e d \<Longrightarrow> d < 32"
  using bit_imp_le_length [of e d] by (auto simp: deg_is_def)

lemma deg_is_nonzero: "deg_is e d \<Longrightarrow> e \<noteq> 0"
  by (auto simp: deg_is_def)

lemma deg_is_0: "deg_is e 0 \<Longrightarrow> e = 1"
  by (rule bit_word_eqI) (auto simp: deg_is_def bit_1_iff)

lemma deg_is_1 [simp]: "deg_is 1 0"
  by (auto simp: deg_is_def bit_1_iff)

lemma high_bit_le: "high_bit e d \<le> d"
  by (induction d) auto

lemma high_bit_deg:
  assumes "e \<noteq> 0" "\<And>k. d < k \<Longrightarrow> \<not> bit e k"
  shows "deg_is e (high_bit e d)"
  using assms(2)
proof (induction d)
  case 0
  have "bit e 0"
  proof (rule ccontr)
    assume "\<not> bit e 0"
    then have "e = 0" using 0 by (intro bit_word_eqI) (metis bit_0_eq bot_apply bot_bool_def gr0I)
    then show False using assms(1) by simp
  qed
  then show ?case using 0 by (simp add: deg_is_def)
next
  case (Suc d)
  show ?case
  proof (cases "bit e (Suc d)")
    case True
    then show ?thesis using Suc.prems by (simp add: deg_is_def)
  next
    case False
    then have "\<not> bit e k" if "d < k" for k using Suc.prems [of k] that by (cases "k = Suc d") auto
    then show ?thesis using Suc.IH False by simp
  qed
qed

lemma high_bit_drop:
  assumes "e \<noteq> 0" "\<And>k. d \<le> k \<Longrightarrow> \<not> bit e k"
  shows "high_bit e d < d"
proof -
  have "deg_is e (high_bit e d)" using assms by (intro high_bit_deg) auto
  then show ?thesis using assms(2) by (meson deg_is_def not_le)
qed

lemma gf_xpow_no_overflow:
  assumes "\<And>k. d < k \<Longrightarrow> \<not> bit y k" "d + i < w" "w \<le> 32"
  shows "(gf_xtime w pp ^^ i) y = push_bit i y"
  using assms(2)
proof (induction i)
  case (Suc i)
  then have "(gf_xtime w pp ^^ Suc i) y = gf_xtime w pp (push_bit i y)" by simp
  also have "\<dots> = push_bit (Suc i) y"
  proof (rule bit_word_eqI)
    fix n assume "n < LENGTH(32)"
    moreover have "\<not> bit y (w - 1 - i)" using assms(1) Suc.prems by simp
    moreover have "n < w" if "bit y (n - Suc i)"
      using assms(1) [of "n - Suc i"] Suc.prems that by linarith
    ultimately show "bit (gf_xtime w pp (push_bit i y)) n = bit (push_bit (Suc i) y) n"
      by (auto simp: bit_gf_xtime bit_push_bit_iff)
  qed
  finally show ?case .
qed simp

lemma gf_mul_deg:
  assumes "deg_is c dc" "deg_is y dy" "dc + dy < w" "w \<le> 32"
  shows "deg_is (gf_mul w pp c y) (dc + dy)"
proof -
  have eq: "gf_mul w pp c y = xsum (Suc dc) (\<lambda>i. if bit c i then push_bit i y else 0)"
  proof -
    have "gf_mul w pp c y = xsum (Suc dc) (\<lambda>i. if bit c i then (gf_xtime w pp ^^ i) y else 0)"
      unfolding gf_mul_def using assms by (intro xsum_extend) (auto simp: deg_is_def)
    also have "\<dots> = xsum (Suc dc) (\<lambda>i. if bit c i then push_bit i y else 0)"
    proof (rule xsum_cong)
      fix i assume "i < Suc dc"
      then have "(gf_xtime w pp ^^ i) y = push_bit i y"
        using assms by (intro gf_xpow_no_overflow [where d = dy]) (auto simp: deg_is_def)
      then show "(if bit c i then (gf_xtime w pp ^^ i) y else 0) = (if bit c i then push_bit i y else 0)"
        by simp
    qed
    finally show ?thesis .
  qed
  have low: "\<not> bit (xsum dc (\<lambda>i. if bit c i then push_bit i y else 0)) k" if "dc + dy \<le> k" for k
    using that assms(2) by (intro not_bit_xsum) (auto simp: bit_push_bit_iff deg_is_def)
  show ?thesis
    unfolding eq deg_is_def using assms low
    by (auto simp: bit_xor_iff bit_push_bit_iff deg_is_def)
qed

section \<open>Euclid's algorithm inverts\<close>

abbreviation h_eval :: "gf_internal \<Rightarrow> u32 \<Rightarrow> u32" where
  "h_eval h e \<equiv> gf_peval (h_w h) (field_poly h) (ucast e :: u64)"

lemma h_eval_xor [xor_linear]: "h_eval h (a XOR b) = h_eval h a XOR h_eval h b"
proof -
  have "ucast (a XOR b) = (ucast a XOR ucast b :: u64)"
    by (rule bit_word_eqI) (auto simp: bit_ucast_iff bit_xor_iff)
  then show ?thesis by (simp add: gf_peval_xor)
qed

lemma h_elem_eval [simp]: "0 < h_w h \<Longrightarrow> h_elem h (h_eval h e)"
  unfolding gf_peval_def by (intro gf_elem_xsum) auto

lemma h_eval_push_bit:
  assumes "wf_field h" "deg_is e d" "d + s < 32" "s < h_w h"
  shows "h_eval h (push_bit s e) = h_mul h (push_bit s 1) (h_eval h e)"
proof -
  have "ucast (push_bit s e) = (push_bit s (ucast e) :: u64)"
    using assms(3)
    by (intro bit_word_eqI) (auto simp: bit_ucast_iff bit_push_bit_iff dest: deg_is_above [OF assms(2)])
  then have "h_eval h (push_bit s e) = (gf_xtime (h_w h) (field_poly h) ^^ s) (h_eval h e)"
    using assms(3) by (subst gf_peval_push_bit [symmetric]) (auto dest: bit_imp_le_length)
  then show ?thesis using assms(4) wf_field_bounds [OF assms(1)] by (simp add: gf_mul_push_bit)
qed

lemma euclid_cancel:
  assumes "deg_is e_i d_i" "deg_is e d" "d_i \<le> d" "d \<le> k"
  shows "\<not> bit (e XOR push_bit (d - d_i) e_i) k"
proof (cases "k = d")
  case True
  then show ?thesis using assms deg_is_lt_32 [OF assms(2)]
    by (simp add: bit_xor_iff bit_push_bit_iff deg_is_top)
next
  case False
  then have "\<not> bit e k" "\<not> bit e_i (k - (d - d_i))"
    using assms by (auto dest: deg_is_above)
  then show ?thesis by (simp add: bit_xor_iff bit_push_bit_iff)
qed

text \<open>
  The division loop always ends; it returns a quotient c and a remainder e with
  \<open>e_i * c + e\<close> unchanged, and the quotient differs from the initial one at the bit
  \<open>d - d_i\<close> and below only.  A zero remainder is the early return.
\<close>

lemma euclid_inner:
  assumes "wf_field h" "deg_is e_i d_i" "0 < d_i" "deg_is e d" "d \<le> h_w h" "h_elem h c"
  shows "\<exists>c' e' d'. h_elem h c' \<and>
     h_eval h e' XOR h_mul h c' (h_eval h e_i) = h_eval h e XOR h_mul h c (h_eval h e_i) \<and>
     (d_i \<le> d \<longrightarrow> (\<forall>k>d - d_i. bit c' k = bit c k) \<and> bit c' (d - d_i) = (\<not> bit c (d - d_i))) \<and>
     (d < d_i \<longrightarrow> c' = c) \<and>
     (gf_wgen_euclid_inner e_i d_i c e d = Some None \<and> e' = 0 \<or>
      gf_wgen_euclid_inner e_i d_i c e d = Some (Some (c', e', d')) \<and> deg_is e' d' \<and> d' < d_i)"
  using assms(4-6)
proof (induction d arbitrary: c e rule: less_induct)
  case (less d)
  show ?case
  proof (cases "d < d_i")
    case True
    then show ?thesis using less.prems
      by (intro exI [of _ c] exI [of _ e] exI [of _ d])
         (auto simp: gf_wgen_euclid_inner.simps [of e_i])
  next
    case False
    let ?s = "d - d_i"
    define c1 where "c1 = c XOR push_bit ?s 1"
    define e1 where "e1 = e XOR push_bit ?s e_i"
    have s: "?s < h_w h" "d_i + ?s < 32" "?s < 32"
      using False assms(3) less.prems(2) deg_is_lt_32 [OF less.prems(1)] by auto
    have "h_elem h (push_bit ?s 1)" using s by (intro gf_elemI) auto
    then have c1: "h_elem h c1" unfolding c1_def using less.prems(3) by simp
    have c1_bits: "bit c1 k \<longleftrightarrow> (bit c k \<noteq> (k = ?s))" for k
      using s unfolding c1_def by (auto simp: bit_xor_iff)
    have low: "\<And>k. d \<le> k \<Longrightarrow> \<not> bit e1 k"
      unfolding e1_def using False by (intro euclid_cancel [OF assms(2) less.prems(1)]) auto
    have inv: "h_eval h e1 XOR h_mul h c1 (h_eval h e_i) = h_eval h e XOR h_mul h c (h_eval h e_i)"
      using h_eval_push_bit [OF assms(1,2) s(2,1)]
      by (simp add: c1_def e1_def h_eval_xor gf_mul_xor_left xor_ac)
    have unfold: "gf_wgen_euclid_inner e_i d_i c e d =
        (if e1 = 0 then Some None else gf_wgen_euclid_inner e_i d_i c1 e1 (high_bit e1 d))"
      using False by (subst gf_wgen_euclid_inner.simps) (simp add: Let_def c1_def e1_def)
    show ?thesis
    proof (cases "e1 = 0")
      case True
      have top: "(\<forall>k>?s. bit c1 k = bit c k) \<and> bit c1 ?s = (\<not> bit c ?s)"
        unfolding c1_bits by simp
      have "gf_wgen_euclid_inner e_i d_i c e d = Some None" unfolding unfold using True by simp
      then show ?thesis using c1 inv top False True by metis
    next
      case nz: False
      let ?d1 = "high_bit e1 d"
      have d1: "deg_is e1 ?d1" "?d1 < d"
        using high_bit_deg [OF nz] high_bit_drop [OF nz] low by auto
      have "?d1 \<le> h_w h" using d1(2) less.prems(2) by simp
      from less.IH [OF d1(2,1) this c1] obtain c' e' d' where r: "h_elem h c'"
        "h_eval h e' XOR h_mul h c' (h_eval h e_i) = h_eval h e1 XOR h_mul h c1 (h_eval h e_i)"
        "d_i \<le> ?d1 \<longrightarrow> (\<forall>k>?d1 - d_i. bit c' k = bit c1 k)" "?d1 < d_i \<longrightarrow> c' = c1"
        "gf_wgen_euclid_inner e_i d_i c1 e1 ?d1 = Some None \<and> e' = 0 \<or>
         gf_wgen_euclid_inner e_i d_i c1 e1 ?d1 = Some (Some (c', e', d')) \<and> deg_is e' d' \<and> d' < d_i"
        by blast
      have "bit c' k = bit c1 k" if "?s \<le> k" for k
        using r(3,4) that d1(2) by (cases "?d1 < d_i") auto
      then have top: "(\<forall>k>?s. bit c' k = bit c k) \<and> bit c' ?s = (\<not> bit c ?s)"
        by (simp add: c1_bits)
      have "gf_wgen_euclid_inner e_i d_i c e d = gf_wgen_euclid_inner e_i d_i c1 e1 ?d1"
        unfolding unfold using nz by simp
      then show ?thesis using r(1,5) trans [OF r(2) inv] top False by metis
    qed
  qed
qed

text \<open>The cofactors: \<open>y_i * b = e_i\<close>, and the degree of y_i makes up for that of e_{i-1}.\<close>

lemma euclid_loop_inverse:
  assumes h: "wf_field h" "gf_primitive (h_w h) (field_poly h)"
    and inner: "\<And>e_i d_i c e d. deg_is e_i d_i \<Longrightarrow> 0 < d_i \<Longrightarrow> deg_is e d \<Longrightarrow>
      inner e_i d_i c e d = gf_wgen_euclid_inner e_i d_i c e d"
    and mul: "\<And>a b. h_elem h a \<Longrightarrow> h_elem h b \<Longrightarrow> mul a b = h_mul h a b"
    and b: "h_elem h b" "b \<noteq> 0"
    and st: "deg_is e_im1 d_im1" "deg_is e_i d_i" "d_i < d_im1" "d_im1 \<le> h_w h"
      "h_elem h y_im1" "h_elem h y_i" "h_mul h y_im1 b = h_eval h e_im1" "h_mul h y_i b = h_eval h e_i"
      "deg_is y_i (h_w h - d_im1)" "\<And>k. h_w h - d_im1 \<le> k \<Longrightarrow> \<not> bit y_im1 k"
  shows "\<exists>y. euclid_loop inner mul e_im1 e_i d_im1 d_i y_im1 y_i = Some y \<and>
             h_elem h y \<and> h_mul h y b = 1"
  using st
proof (induction d_i arbitrary: e_im1 e_i d_im1 y_im1 y_i rule: less_induct)
  case (less d_i)
  let ?w = "h_w h" and ?pp = "field_poly h"
  note w = wf_field_bounds [OF h(1)]
  show ?case
  proof (cases "e_i = 1")
    case True
    then show ?thesis using less.prems(6,8) w gf_peval_ucast [of ?w 1 ?pp, where 'a = 64]
      by (subst euclid_loop.simps) simp
  next
    case False
    then have d0: "0 < d_i" using deg_is_0 less.prems(2) by (cases d_i) auto
    obtain c e' d' where c: "h_elem h c"
      "h_eval h e' XOR h_mul h c (h_eval h e_i) = h_eval h e_im1"
      "\<forall>k>d_im1 - d_i. \<not> bit c k" "bit c (d_im1 - d_i)"
      and r: "gf_wgen_euclid_inner e_i d_i 0 e_im1 d_im1 = Some None \<and> e' = 0 \<or>
       gf_wgen_euclid_inner e_i d_i 0 e_im1 d_im1 = Some (Some (c, e', d')) \<and> deg_is e' d' \<and> d' < d_i"
      using euclid_inner [OF h(1) less.prems(2) d0 less.prems(1,4), of 0] less.prems(3) by auto
    have dc: "deg_is c (d_im1 - d_i)" using c(3,4) by (simp add: deg_is_def)
    define y' where "y' = y_im1 XOR h_mul h c y_i"
    have prod: "deg_is (h_mul h c y_i) (?w - d_i)"
      using gf_mul_deg [OF dc less.prems(9), of ?w ?pp] less.prems(3,4) d0 w by simp
    have y'_deg: "deg_is y' (?w - d_i)"
      unfolding y'_def using prod less.prems(3,4,10) by (auto simp: deg_is_def bit_xor_iff)
    have y'_elem: "h_elem h y'" unfolding y'_def using less.prems(5,6) by simp
    have y'_b: "h_mul h y' b = h_eval h e'"
    proof -
      have "h_mul h (h_mul h c y_i) b = h_mul h c (h_eval h e_i)"
        using c(1) less.prems(6,8) b(1) w by (simp add: gf_mul_assoc)
      then show ?thesis using c(2) less.prems(7) by (simp add: y'_def gf_mul_xor_left xor_ac flip: c(2))
    qed
    have "e' \<noteq> 0"
    proof
      assume "e' = 0"
      then have "h_mul h y' b = 0" using y'_b by simp
      then show False using gf_no_zero_divisors [OF h(2) y'_elem b(1)] b(2) deg_is_nonzero [OF y'_deg] by auto
    qed
    then have division: "gf_wgen_euclid_inner e_i d_i 0 e_im1 d_im1 = Some (Some (c, e', d'))"
      "deg_is e' d'" "d' < d_i" using r by auto
    have step: "euclid_loop inner mul e_im1 e_i d_im1 d_i y_im1 y_i =
        euclid_loop inner mul e_i e' d_i d' y_i y'"
      using False division(1) mul [OF c(1) less.prems(6)] inner [OF less.prems(2) d0 less.prems(1)]
      by (subst euclid_loop.simps) (simp add: y'_def)
    have "\<not> bit y_i k" if "?w - d_i \<le> k" for k
      using less.prems(3,4,9) that by (auto simp: deg_is_def)
    then show ?thesis unfolding step
      using less.prems division y'_elem y'_b y'_deg by (intro less.IH) auto
  qed
qed

lemma field_poly_deg: "wf_field h \<Longrightarrow> h_w h < 32 \<Longrightarrow> deg_is (field_poly h) (h_w h)"
  using wf_field_high [of h] by (auto simp: deg_is_def bit_ucast_iff)

lemma h_eval_field_poly:
  assumes "wf_field h" "h_w h < 32"
  shows "h_eval h (field_poly h) = 0"
  using wf_field_bounds [OF assms(1)] wf_field_high [OF assms(1)] assms(2)
  by (intro gf_peval_poly) (auto simp: bit_ucast_iff not_less [symmetric])

lemma euclid_inverse:
  assumes "wf_field h" "h_w h < 32" "gf_primitive (h_w h) (field_poly h)"
    and mul: "\<And>a b. h_elem h a \<Longrightarrow> h_elem h b \<Longrightarrow> mul a b = h_mul h a b"
    and "h_elem h b" "b \<noteq> 0"
  shows "\<exists>y. gf_wgen_euclid h mul b = Some y \<and> h_elem h y \<and> h_mul h y b = 1"
proof -
  note w = wf_field_bounds [OF assms(1)]
  have "\<not> bit b k" if "h_w h \<le> k" for k using gf_elem_bit assms(5) that by blast
  then have d: "deg_is b (high_bit b (h_w h))" "high_bit b (h_w h) < h_w h"
    using high_bit_deg [OF assms(6)] high_bit_drop [OF assms(6)] by auto
  have "h_eval h b = b" using gf_peval_ucast [OF assms(5), where 'a = 64] w by simp
  moreover have "h_mul h 1 b = b" using gf_mul_1_left assms(5) w by blast
  ultimately show ?thesis
    unfolding gf_wgen_euclid_def using assms(6) w d field_poly_deg [OF assms(1,2)]
      h_eval_field_poly [OF assms(1,2)]
    by (simp, intro euclid_loop_inverse [OF assms(1,3) refl assms(4-6)]) auto
qed

end
