(* ===== verification/Gf_Wgen_Tables.thy ===== *)
theory Gf_Wgen_Tables
  imports Gf_Wgen_Mult
begin

text \<open>
  The table-driven multiplications and divisions of gf_wgen.c: after their initialisation
  the tables hold the reference product and its quotients.
\<close>

section \<open>Table indices\<close>

lemma push_bit_or_add:
  assumes "gf_elem w a" "gf_elem w b" "w + w \<le> 32"
  shows "push_bit w a OR b = push_bit w a + b"
  using gf_elem_bit [OF assms(2)]
  by (intro disjunctive_add_eq_or [symmetric] bit_word_eqI) (auto simp: bit_and_iff bit_push_bit_iff)

lemma table_index_eq:
  assumes "gf_elem w a" "gf_elem w b" "w + w \<le> 32"
  shows "table_index w a b = unat a * 2 ^ w + unat b"
proof -
  have lt: "unat a < 2 ^ w" "unat b < 2 ^ w" using assms by (simp_all add: gf_elem_unat [symmetric])
  have "unat a * 2 ^ w + unat b < (unat a + 1) * 2 ^ w" using lt by simp
  also have "\<dots> \<le> 2 ^ w * 2 ^ w" using lt by (intro mult_le_mono) auto
  also have "(2::nat) ^ w * 2 ^ w \<le> 2 ^ 32"
    using assms(3) power_increasing [of "w + w" 32 "2::nat"] by (simp add: power_add)
  finally have "unat a * 2 ^ w + unat b < 2 ^ 32" .
  moreover have "push_bit w a + b = of_nat (unat a * 2 ^ w + unat b)"
    by (simp add: push_bit_eq_mult)
  ultimately show ?thesis unfolding table_index_def
    by (simp add: unat_of_nat take_bit_nat_eq_self del: of_nat_add of_nat_mult)
qed

lemma table_or_index_eq:
  "gf_elem w a \<Longrightarrow> gf_elem w b \<Longrightarrow> w + w \<le> 32 \<Longrightarrow> table_or_index w a b = unat a * 2 ^ w + unat b"
  by (simp add: table_or_index_def push_bit_or_add flip: table_index_eq table_index_def)

lemma table_index_bound:
  "unat a < 2 ^ w \<Longrightarrow> unat b < 2 ^ w \<Longrightarrow> unat a * 2 ^ w + unat b < 2 ^ w * (2::nat) ^ w"
proof -
  assume "unat a < 2 ^ w" "unat b < 2 ^ w"
  then have "unat a * 2 ^ w + unat b < (unat a + 1) * 2 ^ w" by simp
  also have "\<dots> \<le> 2 ^ w * 2 ^ w" using \<open>unat a < 2 ^ w\<close> by (intro mult_le_mono) auto
  finally show ?thesis .
qed

lemma mixed_radix_inj:
  fixes a b c d m :: nat
  assumes "b < m" "d < m" "a * m + b = c * m + d"
  shows "a = c \<and> b = d"
proof -
  have "a = (a * m + b) div m" "b = (a * m + b) mod m" using assms(1) by auto
  moreover have "c = (c * m + d) div m" "d = (c * m + d) mod m" using assms(2) by auto
  ultimately show ?thesis using assms(3) by metis
qed

lemma elem_of_nat:
  assumes "n < 2 ^ w" "w \<le> 32"
  shows "gf_elem w (of_nat n)" "unat (of_nat n :: u32) = n"
proof -
  have "(2::nat) ^ w \<le> 2 ^ 32" using assms(2) by (intro power_increasing) auto
  then show u: "unat (of_nat n :: u32) = n" using assms(1) by (simp add: unat_of_nat take_bit_nat_eq_self)
  show "gf_elem w (of_nat n)" using gf_elem_unat [OF assms(2), of "of_nat n"] u assms(1) by simp
qed

lemma elem_take_bit: "gf_elem w a \<Longrightarrow> w \<le> e \<Longrightarrow> take_bit e a = a"
  unfolding gf_elem_def by (metis min.absorb2 take_bit_take_bit)

section \<open>Full tables\<close>

abbreviation nonzero_pairs :: "nat \<Rightarrow> (nat \<times> nat) list" where
  "nonzero_pairs w \<equiv> List.product [1..<2 ^ w] [1..<2 ^ w]"

text \<open>The first loop clears entries of an area that is zero in the model already.\<close>

lemma table_clear:
  "fold (\<lambda>a (mtab, dtab). (mtab[a := 0, k a := 0], dtab[a := 0, k a := 0])) xs
     (replicate n 0, replicate n 0) = (replicate n (0::u32), replicate n (0::u32))"
proof -
  have z: "(replicate n 0)[i := 0] = replicate n (0::u32)" for i
    by (cases "i < n") (auto intro: nth_equalityI simp: nth_list_update)
  show ?thesis by (induction xs) (auto simp: z)
qed

definition table_shape :: "nat \<Rightarrow> gf_internal \<Rightarrow> gf_wgen_table_data" where
  "table_shape ew h =
    (let w = h_w h; z = replicate (2 ^ w * 2 ^ w) 0; p = \<lambda>a b. gf_wgen_shift_multiply h (of_nat a) (of_nat b) in
     (fold (\<lambda>(a, b) t. t[table_or_index w (of_nat a) (of_nat b) := take_bit ew (p a b)]) (nonzero_pairs w) z,
      fold (\<lambda>(a, b) t. t[table_or_index w (p a b) (of_nat a) := take_bit ew (of_nat b)]) (nonzero_pairs w) z))"

lemma table_fill_shape: "gf_wgen_table_fill ew h = table_shape ew h"
  unfolding gf_wgen_table_fill_def table_shape_def Let_def table_clear fold_nested
  using fold_update_pair [where
      k = "\<lambda>(a, b). table_or_index (h_w h) (of_nat a) (of_nat b)" and
      v = "\<lambda>(a, b). take_bit ew (gf_wgen_shift_multiply h (of_nat a) (of_nat b))" and
      k' = "\<lambda>(a, b). table_or_index (h_w h) (gf_wgen_shift_multiply h (of_nat a) (of_nat b)) (of_nat a)" and
      v' = "\<lambda>(a, b). take_bit ew (of_nat b)" and xs = "nonzero_pairs (h_w h)"]
  by (simp add: case_prod_unfold)

text \<open>A table keyed by an injective index holds the value of the pair with that index.\<close>

lemma nth_pair_table:
  assumes "\<And>a b. (a, b) \<in> set ps \<Longrightarrow> k a b = i \<Longrightarrow> v a b = val" "i < n"
  shows "fold (\<lambda>(a, b) t. t[k a b := v a b]) ps (replicate n 0) ! i =
         (if \<exists>(a, b)\<in>set ps. k a b = i then val else (0::u32))"
  using nth_fold_update [of ps "\<lambda>(a, b). k a b" i "\<lambda>(a, b). v a b" val "replicate n 0"] assms
  by (auto simp: case_prod_unfold)

lemma elem_pair:
  assumes "gf_elem w a" "gf_elem w b" "w \<le> 32" "a \<noteq> 0" "b \<noteq> 0"
  shows "(unat a, unat b) \<in> set (nonzero_pairs w)"
  using assms gf_elem_unat [OF assms(3)] by (auto simp: unat_gt_0 Suc_le_eq)

lemma table_multiply:
  assumes "wf_field h" "h_w h \<le> ew" "h_w h + h_w h \<le> 32" "h_elem h a" "h_elem h b"
  shows "fst (gf_wgen_table_fill ew h) ! table_index (h_w h) a b = h_mul h a b"
proof -
  let ?w = "h_w h"
  let ?k = "\<lambda>a b. table_or_index ?w (of_nat a) (of_nat b)"
  let ?v = "\<lambda>a b. take_bit ew (gf_wgen_shift_multiply h (of_nat a) (of_nat b))"
  let ?i = "table_index ?w a b"
  have w: "0 < ?w" "?w \<le> 32" using wf_field_bounds [OF assms(1)] by auto
  have i: "?i = unat a * 2 ^ ?w + unat b" using assms by (intro table_index_eq)
  have lt: "unat a < 2 ^ ?w" "unat b < 2 ^ ?w" using assms(4,5) w by (simp_all add: gf_elem_unat [symmetric])
  have v: "?v (unat a) (unat b) = h_mul h a b"
    using shift_multiply_eq_mul [OF assms(1,5)] elem_take_bit [OF gf_elem_mul assms(2)] assms(5) by simp
  have key: "c = unat a \<and> d = unat b"
    if "(c, d) \<in> set (nonzero_pairs ?w)" "?k c d = ?i" for c d
  proof -
    have cd: "c < 2 ^ ?w" "d < 2 ^ ?w" using that(1) by auto
    then have "?k c d = c * 2 ^ ?w + d"
      using elem_of_nat [OF _ w(2)] assms(3) by (simp add: table_or_index_eq)
    then show ?thesis using mixed_radix_inj [OF cd(2) lt(2)] that(2) i by metis
  qed
  have "fst (gf_wgen_table_fill ew h) ! ?i =
      (if \<exists>(c, d)\<in>set (nonzero_pairs ?w). ?k c d = ?i then h_mul h a b else 0)"
    unfolding table_fill_shape table_shape_def Let_def fst_conv
  proof (rule nth_pair_table)
    show "?v c d = h_mul h a b" if "(c, d) \<in> set (nonzero_pairs ?w)" "?k c d = ?i" for c d
      using key [OF that] v by simp
    show "?i < 2 ^ ?w * 2 ^ ?w" unfolding i using lt by (rule table_index_bound)
  qed
  moreover have "\<exists>(c, d)\<in>set (nonzero_pairs ?w). ?k c d = ?i" if "a \<noteq> 0" "b \<noteq> 0"
    using elem_pair [OF assms(4,5) w(2) that] assms(3-5)
    by (intro bexI [of _ "(unat a, unat b)"]) (auto simp: table_index_eq table_or_index_eq)
  ultimately show ?thesis by (cases "a = 0 \<or> b = 0") auto
qed

lemma table_divide:
  assumes "wf_field h" "gf_primitive (h_w h) (field_poly h)" "h_w h \<le> ew" "h_w h + h_w h \<le> 32"
    "h_elem h a" "h_elem h b" "b \<noteq> 0"
  shows "h_elem h (snd (gf_wgen_table_fill ew h) ! table_index (h_w h) a b) \<and>
    h_mul h (snd (gf_wgen_table_fill ew h) ! table_index (h_w h) a b) b = a"
proof -
  let ?w = "h_w h"
  let ?p = "\<lambda>a b. gf_wgen_shift_multiply h (of_nat a) (of_nat b)"
  let ?k = "\<lambda>a b. table_or_index ?w (?p a b) (of_nat a)"
  let ?i = "table_index ?w a b"
  have w: "0 < ?w" "?w \<le> 32" using wf_field_bounds [OF assms(1)] by auto
  obtain z where z: "h_elem h z" "h_mul h b z = 1"
    using gf_inverse_exists [OF assms(2,6,7)] by auto
  define q where "q = h_mul h z a"
  have q: "h_elem h q" unfolding q_def using assms(5) by simp
  have bq: "h_mul h b q = a"
    using gf_mul_assoc [OF assms(6) z(1) assms(5) w(2), of "field_poly h"] z(2) assms(5) w
    by (simp add: q_def gf_mul_1_left)
  have lt: "unat a < 2 ^ ?w" "unat b < 2 ^ ?w" using assms(5,6) w by (simp_all add: gf_elem_unat [symmetric])
  have i: "?i = unat a * 2 ^ ?w + unat b" using assms by (intro table_index_eq)
  have k: "?k c d = unat (h_mul h (of_nat c) (of_nat d)) * 2 ^ ?w + c" if "c < 2 ^ ?w" "d < 2 ^ ?w" for c d
    using elem_of_nat [OF that(1) w(2)] elem_of_nat [OF that(2) w(2)] assms(1,4)
    by (simp add: shift_multiply_eq_mul table_or_index_eq)
  have key: "take_bit ew (of_nat d) = q" if cd: "(c, d) \<in> set (nonzero_pairs ?w)" "?k c d = ?i" for c d
  proof -
    have lt': "c < 2 ^ ?w" "d < 2 ^ ?w" using cd(1) by auto
    then have "unat (h_mul h (of_nat c) (of_nat d)) = unat a \<and> c = unat b"
      using mixed_radix_inj [OF lt'(1) lt(2)] k [OF lt'] i cd(2) by metis
    then have "h_mul h b (of_nat d) = a" by (metis of_nat_unat ucast_id word_unat_eq_iff)
    then have "h_mul h b (of_nat d XOR q) = 0" using bq by (simp add: gf_mul_xor_right)
    then have "of_nat d = q"
      using gf_no_zero_divisors [OF assms(2,6), of "of_nat d XOR q"] assms(7) q
        elem_of_nat(1) [OF lt'(2) w(2)] by auto
    then show ?thesis using q assms(3) by (simp add: elem_take_bit)
  qed
  have "snd (gf_wgen_table_fill ew h) ! ?i =
      (if \<exists>(c, d)\<in>set (nonzero_pairs ?w). ?k c d = ?i then q else 0)"
    unfolding table_fill_shape table_shape_def Let_def snd_conv
  proof (rule nth_pair_table [OF key])
    show "?i < 2 ^ ?w * 2 ^ ?w" unfolding i using lt by (rule table_index_bound)
  qed
  moreover have "\<exists>(c, d)\<in>set (nonzero_pairs ?w). ?k c d = ?i" if "a \<noteq> 0"
  proof -
    have "q \<noteq> 0" using bq that by auto
    then have "(unat b, unat q) \<in> set (nonzero_pairs ?w)"
      using elem_pair [OF assms(6) q w(2) assms(7)] by simp
    moreover have "?k (unat b) (unat q) = ?i"
      using k [of "unat b" "unat q"] lt(2) q w bq i by (simp add: gf_elem_unat)
    ultimately show ?thesis by blast
  qed
  moreover have "q = 0" if "a = 0" using that by (simp add: q_def)
  ultimately have "snd (gf_wgen_table_fill ew h) ! ?i = q" by (cases "a = 0") auto
  moreover have "h_mul h q b = a" using bq gf_mul_commute [OF q assms(6) w(2)] by simp
  ultimately show ?thesis using q by simp
qed

section \<open>Logarithm tables\<close>

lemma gf_xp_inj:
  assumes "gf_primitive w pp" "i < 2 ^ w - 1" "j < 2 ^ w - 1" "gf_xp w pp i = gf_xp w pp j"
  shows "i = j"
proof (rule ccontr)
  have w: "0 < w" "w \<le> 32" and one: "gf_xp w pp (2 ^ w - 1) = 1"
    and least: "\<And>d. 0 < d \<Longrightarrow> d < 2 ^ w - 1 \<Longrightarrow> gf_xp w pp d \<noteq> 1"
    using assms(1) by (auto simp: gf_primitive_def)
  assume "i \<noteq> j"
  then consider "i < j" | "j < i" by linarith
  then show False
  proof cases
    case 1
    then show False using gf_xp_cancel [OF w one, of i j] least [of "j - i"] assms(2-4) by auto
  next
    case 2
    then show False using gf_xp_cancel [OF w one, of j i] least [of "i - j"] assms(2-4) by auto
  qed
qed

lemma log_step_xtime:
  assumes "wf_field h" "h_w h < 32" "h_elem h a"
  shows "(if bit (push_bit 1 a) (h_w h) then push_bit 1 a XOR field_poly h else push_bit 1 a) =
         gf_xtime (h_w h) (field_poly h) a"
proof -
  have "bit (push_bit 1 a) (h_w h) \<longleftrightarrow> bit a (h_w h - 1)"
    using wf_field_bounds [OF assms(1)] assms(2) by auto
  then have "(if bit (push_bit 1 a) (h_w h) then push_bit 1 a XOR field_poly h else push_bit 1 a) =
      by_two (h_w h) (field_poly h) a"
    unfolding by_two_def and_push_bit_neq_0 by simp
  then show ?thesis using by_two_xtime [OF assms(1,3)] by simp
qed

abbreviation h_xp :: "gf_internal \<Rightarrow> nat \<Rightarrow> u32" where
  "h_xp h \<equiv> gf_xp (h_w h) (field_poly h)"

definition log_inv :: "gf_internal \<Rightarrow> nat \<Rightarrow> u32 list \<Rightarrow> u32 list \<Rightarrow> bool" where
  "log_inv h i log anti \<longleftrightarrow> length log = 2 ^ h_w h \<and> length anti = 2 * log_period (h_w h) \<and>
     (\<forall>j<i. unat (log ! unat (h_xp h j)) = j) \<and>
     (\<forall>e<2 ^ h_w h. (\<forall>j<i. unat (h_xp h j) \<noteq> e) \<longrightarrow> log ! e = 0) \<and>
     (\<forall>j<i. anti ! j = h_xp h j \<and> anti ! (log_period (h_w h) + j) = h_xp h j)"

lemma log_inv_step:
  assumes "gf_primitive (h_w h) (field_poly h)" "h_w h \<le> ew" "h_w h \<le> 32"
    "i < log_period (h_w h)" "log_inv h i log anti"
  shows "log ! unat (h_xp h i) = 0"
    and "log_inv h (Suc i) (log[unat (h_xp h i) := take_bit ew (of_nat i)])
           (anti[i := take_bit ew (h_xp h i), log_period (h_w h) + i := take_bit ew (h_xp h i)])"
proof -
  let ?n = "log_period (h_w h)" and ?x = "h_xp h"
  have w: "0 < h_w h" using assms(1) by (simp add: gf_primitive_def)
  have el: "h_elem h (?x j)" for j using w by simp
  have lt: "unat (?x j) < 2 ^ h_w h" for j using el [of j] assms(3) by (simp add: gf_elem_unat)
  have new: "unat (?x j) \<noteq> unat (?x i)" if "j < i" for j
    using gf_xp_inj [OF assms(1), of j i] that assms(4)
    by (auto simp: log_period_def word_unat_eq_iff [symmetric])
  show "log ! unat (?x i) = 0" using assms(5) new lt by (simp add: log_inv_def)
  have i: "gf_elem (h_w h) (of_nat i)" "unat (of_nat i :: u32) = i"
    using elem_of_nat [of i "h_w h"] assms(3,4) by (auto simp: log_period_def)
  have tb: "take_bit ew (of_nat i :: u32) = of_nat i" "take_bit ew (?x i) = ?x i"
    using elem_take_bit [OF _ assms(2)] i(1) el by auto
  have len: "length log = 2 ^ h_w h" "length anti = 2 * ?n" using assms(5) by (auto simp: log_inv_def)
  show "log_inv h (Suc i) (log[unat (?x i) := take_bit ew (of_nat i)])
      (anti[i := take_bit ew (?x i), ?n + i := take_bit ew (?x i)])"
    unfolding log_inv_def tb
  proof (intro conjI allI impI)
    fix j assume j: "j < Suc i"
    show "unat (log[unat (?x i) := of_nat i] ! unat (?x j)) = j"
      using j assms(5) lt len new [of j] i(2) by (cases "j = i") (auto simp: log_inv_def less_Suc_eq)
    show "anti[i := ?x i, ?n + i := ?x i] ! j = ?x j"
      using j assms(4,5) len by (cases "j = i") (auto simp: log_inv_def less_Suc_eq nth_list_update)
    show "anti[i := ?x i, ?n + i := ?x i] ! (?n + j) = ?x j"
      using j assms(4,5) len by (cases "j = i") (auto simp: log_inv_def less_Suc_eq nth_list_update)
  next
    fix e assume "e < 2 ^ h_w h" "\<forall>j<Suc i. unat (?x j) \<noteq> e"
    then show "log[unat (?x i) := of_nat i] ! e = 0"
      using assms(5) by (auto simp: log_inv_def less_Suc_eq)
  qed (use len in simp_all)
qed

lemma log_fill:
  assumes "wf_field h" "h_w h < 32" "gf_primitive (h_w h) (field_poly h)" "h_w h \<le> ew"
  shows "\<exists>std. gf_wgen_log_fill ew h = (std, False) \<and>
           log_inv h (log_period (h_w h)) (log_tab std) (anti_tab std)"
proof -
  let ?n = "log_period (h_w h)" and ?w = "h_w h"
  define f where "f = (\<lambda>i (log :: u32 list, anti, a, check).
              (let check = (check \<or> log ! unat a \<noteq> 0);
                   log = log[unat a := take_bit ew (of_nat i)];
                   anti = anti[i := take_bit ew a, ?n + i := take_bit ew a];
                   a' = push_bit 1 a
               in (log, anti, if bit a' ?w then a' XOR field_poly h else a', check)))"
  define P where "P = (\<lambda>i (log, anti, a, check). log_inv h i log anti \<and> a = h_xp h i \<and> \<not> check)"
  have w: "0 < ?w" using wf_field_bounds [OF assms(1)] by simp
  have "P ?n (fold f [0..<?n] (replicate (2 ^ ?w) 0, replicate (2 * ?n) 0, 1, False))"
  proof (rule fold_upt_inv [where P = P])
    show "P 0 (replicate (2 ^ ?w) 0, replicate (2 * ?n) 0, 1, False)"
      by (simp add: P_def log_inv_def)
    fix i s assume i: "i < ?n" and P: "P i s"
    obtain log anti a check where s: "s = (log, anti, a, check)" by (cases s) auto
    then have inv: "log_inv h i log anti" and a: "a = h_xp h i" "\<not> check" using P by (auto simp: P_def)
    have "h_elem h a" using a(1) w by simp
    note st = log_step_xtime [OF assms(1,2) this]
    show "P (Suc i) (f i s)"
      unfolding f_def s prod.case Let_def st P_def
      using log_inv_step [OF assms(3,4) _ i inv] assms(2) a by auto
  qed simp
  then obtain log anti where "fold f [0..<?n] (replicate (2 ^ ?w) 0, replicate (2 * ?n) 0, 1, False) =
      (log, anti, h_xp h ?n, False)" "log_inv h ?n log anti"
    unfolding P_def by auto
  then show ?thesis
    unfolding gf_wgen_log_fill_def Let_def f_def by simp
qed

lemma log_multiply:
  assumes "gf_primitive (h_w h) (field_poly h)" "log_inv h (log_period (h_w h)) (log_tab std) (anti_tab std)"
    "h_elem h a" "h_elem h b"
  shows "log_multiply std a b = h_mul h a b"
proof (cases "a = 0 \<or> b = 0")
  case True then show ?thesis by (auto simp: log_multiply_def)
next
  case False
  let ?n = "log_period (h_w h)"
  have w: "0 < h_w h" "h_w h \<le> 32" and one: "h_xp h ?n = 1"
    using assms(1) by (auto simp: gf_primitive_def log_period_def)
  obtain i j where ij: "i < ?n" "a = h_xp h i" "j < ?n" "b = h_xp h j"
    using gf_primitive_surj [OF assms(1,3)] gf_primitive_surj [OF assms(1,4)] False
    unfolding log_period_def by metis
  have lg: "unat (log_tab std ! unat a) = i" "unat (log_tab std ! unat b) = j"
    using assms(2) ij by (auto simp: log_inv_def)
  have "anti_tab std ! (i + j) = h_xp h (i + j)"
  proof (cases "i + j < ?n")
    case True then show ?thesis using assms(2) by (simp add: log_inv_def)
  next
    case ge: False
    have "i + j - ?n < ?n" using ij by simp
    then have "anti_tab std ! (?n + (i + j - ?n)) = h_xp h (i + j - ?n)"
      using assms(2) unfolding log_inv_def by blast
    moreover have "h_xp h (?n + (i + j - ?n)) = h_xp h (i + j - ?n)"
      using gf_xp_period [OF w one, of "h_xp h (i + j - ?n)"] w by (simp add: gf_xpow_add)
    ultimately show ?thesis using ge by simp
  qed
  then show ?thesis using False lg gf_xp_mul [OF w, of "field_poly h" i j] ij(2,4)
    by (simp add: log_multiply_def)
qed

lemma log_divide:
  assumes "gf_primitive (h_w h) (field_poly h)" "log_inv h (log_period (h_w h)) (log_tab std) (anti_tab std)"
    "h_elem h a" "h_elem h b" "b \<noteq> 0"
  shows "h_elem h (log_divide (h_w h) std a b) \<and> h_mul h (log_divide (h_w h) std a b) b = a"
proof (cases "a = 0")
  case True then show ?thesis by (simp add: log_divide_def)
next
  case False
  let ?n = "log_period (h_w h)"
  have w: "0 < h_w h" "h_w h \<le> 32" and one: "h_xp h ?n = 1"
    using assms(1) by (auto simp: gf_primitive_def log_period_def)
  obtain i j where ij: "i < ?n" "a = h_xp h i" "j < ?n" "b = h_xp h j"
    using gf_primitive_surj [OF assms(1,3)] gf_primitive_surj [OF assms(1,4)] False assms(5)
    unfolding log_period_def by metis
  have lg: "unat (log_tab std ! unat a) = i" "unat (log_tab std ! unat b) = j"
    using assms(2) ij by (auto simp: log_inv_def)
  have per: "h_xp h (?n + k) = h_xp h k" for k
    using gf_xp_period [OF w one, of "h_xp h k"] w by (simp add: gf_xpow_add)
  have idx: "nat (int ?n + (uint (log_tab std ! unat a) - uint (log_tab std ! unat b))) = ?n + i - j"
    using lg ij by (metis add_diff_eq nat_int of_nat_add of_nat_diff less_imp_le_nat trans_le_add1 uint_nat)
  have "anti_tab std ! (?n + i - j) = h_xp h (?n + i - j)"
  proof (cases "i < j")
    case True
    then have "?n + i - j < ?n" using ij by simp
    then show ?thesis using assms(2) by (simp add: log_inv_def)
  next
    case ge: False
    then have "?n + i - j = ?n + (i - j)" by simp
    moreover have "anti_tab std ! (?n + (i - j)) = h_xp h (i - j)"
      using assms(2) ij by (simp add: log_inv_def)
    ultimately show ?thesis using per by simp
  qed
  then have d: "log_divide (h_w h) std a b = h_xp h (?n + i - j)"
    using False assms(5) by (simp add: log_divide_def Let_def idx)
  have "h_mul h (h_xp h (?n + i - j)) b = h_xp h (?n + i - j + j)"
    unfolding ij(4) by (rule gf_xp_mul [OF w])
  also have "\<dots> = a" using ij per by simp
  finally show ?thesis using d w by simp
qed

end
