(* ===== verification/Gf_Words.thy ===== *)
theory Gf_Words
  imports Gf_Wgen_Tables
begin

text \<open>
  The fields of 8, 16 and 32 bits with the techniques a default initialisation selects on
  a machine without vector instructions (gf_w8.c, gf_w16.c, gf_w32.c): full tables,
  logarithm tables, and by-two multiplication with Euclid's inversion; and with shifting and
  by-two multiplication on demand.  The other techniques of these files are not translated
  and yield \<open>Gf_unmodelled\<close>.  The polynomial of the multiplications is a word of 32 bits.
\<close>

section \<open>By-two multiplication in words of 64 bits\<close>

lemma shift_out_less:
  fixes a :: "'a::len word"
  assumes "a \<noteq> 0" "0 < k"
  shows "(LEAST n. push_bit (n + k) a = 0) < (LEAST n. push_bit n a = 0)"
proof -
  define l where "l = (LEAST n. push_bit n a = 0)"
  have "push_bit LENGTH('a) a = 0" by (rule bit_word_eqI) (simp add: bit_simps)
  then have l: "push_bit l a = 0" unfolding l_def by (rule LeastI)
  have "push_bit 0 a \<noteq> 0" using assms(1) by simp
  then have "0 < l" using l by (cases l) auto
  have "push_bit (l - 1 + k) a = push_bit (k - 1) (push_bit l a)"
    using \<open>0 < l\<close> assms(2) by (simp add: add.commute)
  then have "push_bit (l - 1 + k) a = 0" using l by simp
  then have "(LEAST n. push_bit (n + k) a = 0) \<le> l - 1" by (rule Least_le)
  then show ?thesis using \<open>0 < l\<close> unfolding l_def by linarith
qed

text \<open>
  The loop of the three initialisations repeats the polynomial and the masks in every element
  of w bits.  It would not end for w = 0, which is no word size, and is made to end there.
\<close>

function bytwo_fill :: "nat \<Rightarrow> u64 \<Rightarrow> u64 \<Rightarrow> u64 \<Rightarrow> gf_bytwo_data \<Rightarrow> gf_bytwo_data" where
  "bytwo_fill w ip m1 m2 btd =
    (if w = 0 \<or> ip = 0 then btd
     else bytwo_fill w (push_bit w ip) (push_bit w m1) (push_bit w m2)
       \<lparr>btd_prim_poly = btd_prim_poly btd OR ip, btd_mask1 = btd_mask1 btd OR m1, btd_mask2 = btd_mask2 btd OR m2\<rparr>)"
  by auto

termination
  by (relation "measure (\<lambda>(w, ip, m1, m2, btd). LEAST n. push_bit n ip = 0)") (auto intro!: shift_out_less)

declare bytwo_fill.simps [simp del]

definition bytwo_empty :: gf_bytwo_data where
  "bytwo_empty = \<lparr>btd_prim_poly = 0, btd_mask1 = 0, btd_mask2 = 0\<rparr>"

section \<open>GF(2^8)\<close>

definition gf_w8_shift_multiply :: "gf_internal \<Rightarrow> u32 \<Rightarrow> u32 \<Rightarrow> u32" where
  "gf_w8_shift_multiply h a8 b8 =
    ucast (shift_multiply 8 15 (ucast (prim_poly h) :: u16) (ucast a8) (ucast b8))"

text \<open>The rows of the two tables are stored one after the other, 256 entries each.\<close>

definition gf_w8_table_fill :: "gf_internal \<Rightarrow> u32 list \<times> u32 list" where
  "gf_w8_table_fill h =
    fold (\<lambda>a tabs. fold (\<lambda>b (multtable, divtable).
        (let prd = gf_w8_shift_multiply h (of_nat a) (of_nat b)
         in (multtable[a * 256 + b := take_bit 8 prd],
             divtable[unat prd * 256 + b := take_bit 8 (of_nat a)])))
      [1..<256] tabs) [1..<256] (replicate 65536 0, replicate 65536 0)"

definition gf_w8_table_multiply :: "u32 list \<Rightarrow> u32 \<Rightarrow> u32 \<Rightarrow> u32" where
  "gf_w8_table_multiply multtable a b = multtable ! (unat a * 256 + unat b)"

definition gf_w8_table_divide :: "u32 list \<Rightarrow> u32 \<Rightarrow> u32 \<Rightarrow> u32" where
  "gf_w8_table_divide divtable a b = divtable ! (unat a * 256 + unat b)"

definition gf_w8_table_init :: "gf_internal \<Rightarrow> gf_fail + gf_funs \<times> region_fn option" where
  "gf_w8_table_init h =
    (if mult_type h = GF_MULT_DEFAULT \<or> region_type h = 0 \<or> region_type h AND GF_REGION_CAUCHY \<noteq> 0
     then (let (multtable, divtable) = gf_w8_table_fill h
           in Inr ((gf_w8_table_multiply multtable,
                    Some (\<lambda>a b. Some (gf_w8_table_divide divtable a b)), None),
                   Some (W8_table_region multtable)))
     else Inl Gf_unmodelled)"

definition gf_w8_shift_init :: "gf_internal \<Rightarrow> gf_fail + gf_funs \<times> region_fn option" where
  "gf_w8_shift_init h = Inr ((gf_w8_shift_multiply h, None, None), None)"

definition gf_w8_bytwo_p_multiply :: "gf_internal \<Rightarrow> u32 \<Rightarrow> u32 \<Rightarrow> u32" where
  "gf_w8_bytwo_p_multiply h a b = gf_wgen_bytwo_p_loop 8 (ucast (prim_poly h)) a b 0x80 0"

definition gf_w8_bytwo_b_multiply :: "gf_internal \<Rightarrow> u32 \<Rightarrow> u32 \<Rightarrow> u32" where
  "gf_w8_bytwo_b_multiply h a b = gf_wgen_bytwo_b_loop 8 (ucast (prim_poly h)) 0 a b"

definition gf_w8_bytwo_init :: "gf_internal \<Rightarrow> gf_fail + gf_funs \<times> region_fn option" where
  "gf_w8_bytwo_init h =
    (let btd = bytwo_fill 8 (prim_poly h AND 0xff) 0xfe 0x80 bytwo_empty
     in if mult_type h = GF_MULT_BYTWO_p
        then (if region_type h AND GF_REGION_SIMD \<noteq> 0 then Inl Gf_zero
              else Inr ((gf_w8_bytwo_p_multiply h, None, None), Some (W8_bytwo_p_region btd)))
        else (if region_type h AND GF_REGION_SIMD \<noteq> 0 then Inl Gf_zero
              else Inr ((gf_w8_bytwo_b_multiply h, None, None), Some (W8_bytwo_b_region btd))))"

definition gf_w8_euclid :: "gf_internal \<Rightarrow> (u32 \<Rightarrow> u32 \<Rightarrow> u32) \<Rightarrow> u32 \<Rightarrow> u32 option" where
  "gf_w8_euclid h mul b =
    (if b = 0 then Some (- 1)
     else euclid_loop gf_wgen_euclid_inner mul (ucast (prim_poly h)) b 8 (high_bit b 8) 0 1)"

definition gf_w8_divide_from_inverse ::
  "(u32 \<Rightarrow> u32 option) \<Rightarrow> (u32 \<Rightarrow> u32 \<Rightarrow> u32) \<Rightarrow> u32 \<Rightarrow> u32 \<Rightarrow> u32 option" where
  "gf_w8_divide_from_inverse iv mul a b =
    (case iv b of None \<Rightarrow> None | Some b \<Rightarrow> Some (mul a b))"

text \<open>
  The completion of the division shared by gf_w8.c and gf_w16.c: \<open>euclid\<close> is the file's
  version of the algorithm.
\<close>

definition word_division ::
  "gf_internal \<Rightarrow> ((u32 \<Rightarrow> u32 \<Rightarrow> u32) \<Rightarrow> u32 \<Rightarrow> u32 option) \<Rightarrow> gf_funs \<Rightarrow> gf_funs" where
  "word_division h euclid = (\<lambda>(mul, dv, iv).
    (let (dv, iv) =
           (case divide_type h of
              GF_DIVIDE_EUCLID \<Rightarrow> (Some (gf_w8_divide_from_inverse (euclid mul) mul), Some (euclid mul))
            | GF_DIVIDE_MATRIX \<Rightarrow>
                (Some (gf_w8_divide_from_inverse (gf_wgen_matrix h) mul), Some (gf_wgen_matrix h))
            | _ \<Rightarrow> (dv, iv));
         (dv, iv) =
           (case dv of
              None \<Rightarrow> (let i = (case iv of None \<Rightarrow> euclid mul | Some i \<Rightarrow> i)
                       in (Some (gf_w8_divide_from_inverse i mul), Some i))
            | Some d \<Rightarrow> (dv, iv));
         iv = (case (iv, dv) of (None, Some d) \<Rightarrow> Some (gf_wgen_inverse_from_divide d) | _ \<Rightarrow> iv)
     in (mul, dv, iv)))"

text \<open>The switch over the techniques.\<close>

definition gf_w8_technique :: "gf_internal \<Rightarrow> gf_fail + gf_funs \<times> region_fn option" where
  "gf_w8_technique h =
    (case mult_type h of
      GF_MULT_DEFAULT \<Rightarrow> gf_w8_table_init h
    | GF_MULT_TABLE \<Rightarrow> gf_w8_table_init h
    | GF_MULT_BYTWO_p \<Rightarrow> gf_w8_bytwo_init h
    | GF_MULT_BYTWO_b \<Rightarrow> gf_w8_bytwo_init h
    | GF_MULT_SHIFT \<Rightarrow> gf_w8_shift_init h
    | GF_MULT_CARRY_FREE_GK \<Rightarrow> Inl Gf_zero
    | GF_MULT_GROUP \<Rightarrow> Inl Gf_zero
    | GF_MULT_OTHER _ \<Rightarrow> Inl Gf_zero
    | _ \<Rightarrow> Inl Gf_unmodelled)"

definition gf_w8_init :: "gf_internal \<Rightarrow> gf_fail + gf_t" where
  "gf_w8_init h =
    (if mult_type h = GF_MULT_COMPOSITE then Inl Gf_unmodelled
     else
       (let p = (if prim_poly h = 0 then 0x11d else prim_poly h) OR 0x100;
            h = set_prim_poly p h
        in case gf_w8_technique h of
             Inl e \<Rightarrow> Inl e
           | Inr (fs, region) \<Rightarrow>
               (case word_division h (gf_w8_euclid h) fs of (mul, dv, iv) \<Rightarrow>
                  Inr \<lparr>multiply = Some mul, divide = dv, inverse = iv,
                       multiply_region =
                         (if region_type h = GF_REGION_CAUCHY then Some Wgen_cauchy_region
                          else Some (case region of None \<Rightarrow> W8_from_single | Some f \<Rightarrow> f)),
                       extract_word =
                         (if region_type h = GF_REGION_CAUCHY then Some Wgen_extract
                          else Some W8_extract),
                       scratch = h\<rparr>)))"

section \<open>GF(2^16)\<close>

definition gf_w16_shift_multiply :: "gf_internal \<Rightarrow> u32 \<Rightarrow> u32 \<Rightarrow> u32" where
  "gf_w16_shift_multiply h a16 b16 =
    shift_multiply 16 31 (ucast (prim_poly h) :: u32) a16 b16"

definition gf_w16_euclid :: "gf_internal \<Rightarrow> (u32 \<Rightarrow> u32 \<Rightarrow> u32) \<Rightarrow> u32 \<Rightarrow> u32 option" where
  "gf_w16_euclid h mul b =
    (if b = 0 then Some (- 1)
     else euclid_loop gf_wgen_euclid_inner mul (ucast (prim_poly h)) b 16 (high_bit b 16) 0 1)"

definition gf_w16_log_multiply :: "gf_wgen_log_data \<Rightarrow> u32 \<Rightarrow> u32 \<Rightarrow> u32" where
  "gf_w16_log_multiply = log_multiply"

definition gf_w16_log_divide :: "gf_wgen_log_data \<Rightarrow> u32 \<Rightarrow> u32 \<Rightarrow> u32" where
  "gf_w16_log_divide = log_divide 16"

definition gf_w16_inv_tbl :: "gf_wgen_log_data \<Rightarrow> u32 list" where
  "gf_w16_inv_tbl ltd =
    0 # 1 # map (\<lambda>i. anti_tab ltd ! (65535 - unat (log_tab ltd ! i))) [2..<65536]"

definition gf_w16_log_inverse :: "u32 list \<Rightarrow> u32 \<Rightarrow> u32" where
  "gf_w16_log_inverse inv_tbl a = inv_tbl ! unat a"

text \<open>The loop that fills the tables is the one of gf_wgen.c with 16-bit entries.\<close>

definition gf_w16_shift_init :: "gf_internal \<Rightarrow> gf_fail + gf_funs \<times> region_fn option" where
  "gf_w16_shift_init h = Inr ((gf_w16_shift_multiply h, None, None), None)"

definition gf_w16_bytwo_p_multiply :: "gf_internal \<Rightarrow> u32 \<Rightarrow> u32 \<Rightarrow> u32" where
  "gf_w16_bytwo_p_multiply h a b = gf_wgen_bytwo_p_loop 16 (ucast (prim_poly h)) a b 0x8000 0"

definition gf_w16_bytwo_b_multiply :: "gf_internal \<Rightarrow> u32 \<Rightarrow> u32 \<Rightarrow> u32" where
  "gf_w16_bytwo_b_multiply h a b = gf_wgen_bytwo_b_loop 16 (ucast (prim_poly h)) 0 a b"

definition gf_w16_bytwo_init :: "gf_internal \<Rightarrow> gf_fail + gf_funs \<times> region_fn option" where
  "gf_w16_bytwo_init h =
    (let btd = bytwo_fill 16 (prim_poly h AND 0xffff) 0xfffe 0x8000 bytwo_empty
     in if mult_type h = GF_MULT_BYTWO_p
        then (if region_type h AND GF_REGION_SIMD \<noteq> 0 then Inl Gf_zero
              else Inr ((gf_w16_bytwo_p_multiply h, None, None), Some (W16_bytwo_p_region btd)))
        else (if region_type h AND GF_REGION_SIMD \<noteq> 0 then Inl Gf_zero
              else Inr ((gf_w16_bytwo_b_multiply h, None, None), Some (W16_bytwo_b_region btd))))"

definition gf_w16_log_init :: "gf_internal \<Rightarrow> gf_fail + gf_funs \<times> region_fn option" where
  "gf_w16_log_init h =
    (case gf_wgen_log_fill 16 h of (ltd, check) \<Rightarrow>
       if check then
         (if mult_type h \<noteq> GF_MULT_LOG_TABLE
          then gf_w16_shift_init h
          else Inl (Gf_errno ''GF_E_LOGPOLY''))
       else (let inv_tbl = gf_w16_inv_tbl ltd
             in Inr ((gf_w16_log_multiply ltd,
                      Some (\<lambda>a b. Some (gf_w16_log_divide ltd a b)),
                      Some (\<lambda>a. Some (gf_w16_log_inverse inv_tbl a))),
                     Some (W16_log_region (log_tab ltd) (anti_tab ltd)))))"

definition gf_w16_split_init :: "gf_internal \<Rightarrow> gf_fail + gf_funs \<times> region_fn option" where
  "gf_w16_split_init h =
    (if mult_type h \<noteq> GF_MULT_DEFAULT then Inl Gf_unmodelled
     else (case gf_w16_log_init h of
             Inl e \<Rightarrow> Inl e
           | Inr (fs, region) \<Rightarrow> Inr (fs, Some W16_split_8_16_lazy_region)))"

text \<open>The switch over the techniques.\<close>

definition gf_w16_technique :: "gf_internal \<Rightarrow> gf_fail + gf_funs \<times> region_fn option" where
  "gf_w16_technique h =
    (case mult_type h of
      GF_MULT_LOG_TABLE \<Rightarrow> gf_w16_log_init h
    | GF_MULT_DEFAULT \<Rightarrow> gf_w16_split_init h
    | GF_MULT_SHIFT \<Rightarrow> gf_w16_shift_init h
    | GF_MULT_BYTWO_p \<Rightarrow> gf_w16_bytwo_init h
    | GF_MULT_BYTWO_b \<Rightarrow> gf_w16_bytwo_init h
    | GF_MULT_CARRY_FREE_GK \<Rightarrow> Inl Gf_zero
    | GF_MULT_LOG_ZERO_EXT \<Rightarrow> Inl Gf_zero
    | GF_MULT_OTHER _ \<Rightarrow> Inl Gf_zero
    | _ \<Rightarrow> Inl Gf_unmodelled)"

definition gf_w16_init :: "gf_internal \<Rightarrow> gf_fail + gf_t" where
  "gf_w16_init h =
    (if mult_type h = GF_MULT_COMPOSITE \<or> region_type h AND GF_REGION_ALTMAP \<noteq> 0 then Inl Gf_unmodelled
     else
     let p = (if prim_poly h = 0 then 0x1100b else prim_poly h) OR push_bit 16 1;
         h = set_prim_poly p h
     in case gf_w16_technique h of
          Inl e \<Rightarrow> Inl e
        | Inr (fs, region) \<Rightarrow>
            (case word_division h (gf_w16_euclid h) fs of (mul, dv, iv) \<Rightarrow>
               Inr \<lparr>multiply = Some mul, divide = dv, inverse = iv,
                    multiply_region =
                      (if region_type h = GF_REGION_CAUCHY then Some Wgen_cauchy_region
                       else Some (case region of None \<Rightarrow> W16_from_single | Some f \<Rightarrow> f)),
                    extract_word =
                      (if region_type h = GF_REGION_CAUCHY then Some Wgen_extract
                       else Some W16_extract),
                    scratch = h\<rparr>))"

section \<open>GF(2^32)\<close>

text \<open>
  Here the polynomial is stored without its leading term, which the 32-bit words cannot
  hold; the first shift drops it, and the degree is decremented before the search.
\<close>

partial_function (option) gf_w32_euclid_inner ::
  "u32 \<Rightarrow> nat \<Rightarrow> u32 \<Rightarrow> u32 \<Rightarrow> nat \<Rightarrow> (u32 \<times> u32 \<times> nat) option option" where
  "gf_w32_euclid_inner e_i d_i c_i e_ip1 d_ip1 =
    (if d_ip1 < d_i then Some (Some (c_i, e_ip1, d_ip1))
     else (let c_i = c_i XOR push_bit (d_ip1 - d_i) 1;
               e_ip1 = e_ip1 XOR push_bit (d_ip1 - d_i) e_i
           in if e_ip1 = 0 then Some None
              else gf_w32_euclid_inner e_i d_i c_i e_ip1 (high_bit e_ip1 (d_ip1 - 1))))"

definition gf_w32_euclid :: "gf_internal \<Rightarrow> (u32 \<Rightarrow> u32 \<Rightarrow> u32) \<Rightarrow> u32 \<Rightarrow> u32 option" where
  "gf_w32_euclid h mul b =
    (if b = 0 then Some (- 1)
     else euclid_loop gf_w32_euclid_inner mul (ucast (prim_poly h)) b 32 (high_bit b 31) 0 1)"

definition gf_w32_bytwo_p_multiply :: "gf_internal \<Rightarrow> u32 \<Rightarrow> u32 \<Rightarrow> u32" where
  "gf_w32_bytwo_p_multiply h a b =
    gf_wgen_bytwo_p_loop 32 (ucast (prim_poly h)) a b 0x80000000 0"

definition gf_w32_bytwo_b_multiply :: "gf_internal \<Rightarrow> u32 \<Rightarrow> u32 \<Rightarrow> u32" where
  "gf_w32_bytwo_b_multiply h a b = gf_wgen_bytwo_b_loop 32 (ucast (prim_poly h)) 0 a b"

definition gf_w32_shift_multiply :: "gf_internal \<Rightarrow> u32 \<Rightarrow> u32 \<Rightarrow> u32" where
  "gf_w32_shift_multiply h a32 b32 =
    ucast (shift_multiply 32 63 (prim_poly h OR push_bit 32 1) (ucast a32) (ucast b32))"

definition gf_w32_shift_init :: "gf_internal \<Rightarrow> gf_fail + gf_funs \<times> region_fn" where
  "gf_w32_shift_init h =
    Inr ((gf_w32_shift_multiply h, None, Some (gf_w32_euclid h (gf_w32_shift_multiply h))), W32_from_single)"

definition gf_w32_bytwo_init :: "gf_internal \<Rightarrow> gf_fail + gf_funs \<times> region_fn" where
  "gf_w32_bytwo_init h =
    (let btd = bytwo_fill 32 (prim_poly h AND 0xffffffff) 0xfffffffe 0x80000000 bytwo_empty
     in if region_type h AND GF_REGION_SIMD \<noteq> 0 then Inl Gf_zero
        else if mult_type h = GF_MULT_BYTWO_p
        then Inr ((gf_w32_bytwo_p_multiply h, None, Some (gf_w32_euclid h (gf_w32_bytwo_p_multiply h))),
                  W32_bytwo_p_region btd)
        else Inr ((gf_w32_bytwo_b_multiply h, None, Some (gf_w32_euclid h (gf_w32_bytwo_b_multiply h))),
                  W32_bytwo_b_region btd))"

definition gf_w32_split_init :: "gf_internal \<Rightarrow> gf_fail + gf_funs \<times> region_fn" where
  "gf_w32_split_init h =
    (if mult_type h \<noteq> GF_MULT_DEFAULT then Inl Gf_unmodelled
     else Inr ((gf_w32_bytwo_p_multiply h, None, Some (gf_w32_euclid h (gf_w32_bytwo_p_multiply h))),
               W32_split_8_32_lazy_region))"

text \<open>The switch over the techniques.\<close>

definition gf_w32_technique :: "gf_internal \<Rightarrow> gf_fail + gf_funs \<times> region_fn" where
  "gf_w32_technique h =
    (case mult_type h of
      GF_MULT_SHIFT \<Rightarrow> gf_w32_shift_init h
    | GF_MULT_DEFAULT \<Rightarrow> gf_w32_split_init h
    | GF_MULT_BYTWO_p \<Rightarrow> gf_w32_bytwo_init h
    | GF_MULT_BYTWO_b \<Rightarrow> gf_w32_bytwo_init h
    | GF_MULT_TABLE \<Rightarrow> Inl Gf_zero
    | GF_MULT_LOG_TABLE \<Rightarrow> Inl Gf_zero
    | GF_MULT_LOG_ZERO \<Rightarrow> Inl Gf_zero
    | GF_MULT_LOG_ZERO_EXT \<Rightarrow> Inl Gf_zero
    | GF_MULT_OTHER _ \<Rightarrow> Inl Gf_zero
    | _ \<Rightarrow> Inl Gf_unmodelled)"

definition gf_w32_init :: "gf_internal \<Rightarrow> gf_fail + gf_t" where
  "gf_w32_init h =
    (if mult_type h = GF_MULT_COMPOSITE \<or> region_type h AND GF_REGION_ALTMAP \<noteq> 0 then Inl Gf_unmodelled
     else
       (let p = (if prim_poly h = 0 then 0x400007 else prim_poly h) AND 0xffffffff;
            h = set_prim_poly p h
        in case gf_w32_technique h of
             Inl e \<Rightarrow> Inl e
           | Inr ((mul, dv, iv), region) \<Rightarrow>
               (let (dv, iv) =
                      (case divide_type h of
                         GF_DIVIDE_EUCLID \<Rightarrow>
                           (Some (gf_wgen_divide_from_inverse (gf_w32_euclid h mul) mul),
                            Some (gf_w32_euclid h mul))
                       | GF_DIVIDE_MATRIX \<Rightarrow>
                           (Some (gf_wgen_divide_from_inverse (gf_wgen_matrix h) mul),
                            Some (gf_wgen_matrix h))
                       | _ \<Rightarrow> (dv, iv));
                    dv = (case (iv, dv) of
                            (Some i, None) \<Rightarrow> Some (gf_wgen_divide_from_inverse i mul) | _ \<Rightarrow> dv);
                    iv = (case (iv, dv) of
                            (None, Some d) \<Rightarrow> Some (gf_wgen_inverse_from_divide d) | _ \<Rightarrow> iv)
                in Inr \<lparr>multiply = Some mul, divide = dv, inverse = iv,
                        multiply_region =
                          (if region_type h = GF_REGION_CAUCHY then Some Wgen_cauchy_region
                           else Some region),
                        extract_word =
                          (if region_type h = GF_REGION_CAUCHY then Some Wgen_extract
                           else Some W32_extract),
                        scratch = h\<rparr>)))"

end
