(* ===== verification/Gf_Correct.thy ===== *)
theory Gf_Correct
  imports Gf_Words
begin

text \<open>
  What a successful initialisation promises: \<open>gf_correct F\<close> says that the functions
  installed in F multiply, divide and invert in the field of a primitive polynomial.  It is
  proved for the initialisation of gf_wgen.c with each of its techniques and for the
  default initialisations of the fields of 8, 16 and 32 bits.
\<close>

section \<open>The contract of the installed functions\<close>

definition mul_ok :: "gf_internal \<Rightarrow> (u32 \<Rightarrow> u32 \<Rightarrow> u32) \<Rightarrow> bool" where
  "mul_ok h mul \<longleftrightarrow> (\<forall>a b. h_elem h a \<and> h_elem h b \<longrightarrow> mul a b = h_mul h a b)"

definition inv_ok :: "gf_internal \<Rightarrow> (u32 \<Rightarrow> u32 option) \<Rightarrow> bool" where
  "inv_ok h iv \<longleftrightarrow> (\<forall>b. h_elem h b \<and> b \<noteq> 0 \<longrightarrow> (\<exists>y. iv b = Some y \<and> h_elem h y \<and> h_mul h y b = 1))"

definition div_ok :: "gf_internal \<Rightarrow> (u32 \<Rightarrow> u32 \<Rightarrow> u32 option) \<Rightarrow> bool" where
  "div_ok h dv \<longleftrightarrow> (\<forall>a b. h_elem h a \<and> h_elem h b \<and> b \<noteq> 0 \<longrightarrow>
     (\<exists>q. dv a b = Some q \<and> h_elem h q \<and> h_mul h q b = a))"

definition h_primitive :: "gf_internal \<Rightarrow> bool" where
  "h_primitive h \<longleftrightarrow> gf_primitive (h_w h) (field_poly h)"

definition gf_correct :: "gf_t \<Rightarrow> bool" where
  "gf_correct F \<longleftrightarrow> h_primitive (scratch F) \<and>
     (\<exists>mul dv iv. multiply F = Some mul \<and> divide F = Some dv \<and> inverse F = Some iv \<and>
        mul_ok (scratch F) mul \<and> div_ok (scratch F) dv \<and> inv_ok (scratch F) iv) \<and>
     multiply_region F \<noteq> None \<and> extract_word F \<noteq> None"

lemma h_primitive_bounds: "h_primitive h \<Longrightarrow> 0 < h_w h \<and> h_w h \<le> 32"
  by (simp add: h_primitive_def gf_primitive_def)

lemma divide_from_inverse_ok:
  assumes "h_w h \<le> 32" "mul_ok h mul" "inv_ok h iv"
  shows "div_ok h (gf_wgen_divide_from_inverse iv mul)"
  unfolding div_ok_def
proof (intro allI impI, elim conjE)
  fix a b assume ab: "h_elem h a" "h_elem h b" "b \<noteq> 0"
  then obtain y where y: "iv b = Some y" "h_elem h y" "h_mul h y b = 1"
    using assms(3) by (auto simp: inv_ok_def)
  have "h_mul h (h_mul h a y) b = h_mul h a (h_mul h y b)"
    using ab y(2) assms(1) by (intro gf_mul_assoc)
  also have "\<dots> = a" using y(3) ab(1) assms(1) by (simp add: gf_mul_1_right)
  finally show "\<exists>q. gf_wgen_divide_from_inverse iv mul a b = Some q \<and> h_elem h q \<and> h_mul h q b = a"
    using y ab assms(2) by (auto simp: gf_wgen_divide_from_inverse_def mul_ok_def)
qed

lemma w8_divide_from_inverse [simp]: "gf_w8_divide_from_inverse = gf_wgen_divide_from_inverse"
  by (intro ext) (simp add: gf_w8_divide_from_inverse_def gf_wgen_divide_from_inverse_def)

lemma inverse_from_divide_ok:
  "0 < h_w h \<Longrightarrow> div_ok h dv \<Longrightarrow> inv_ok h (gf_wgen_inverse_from_divide dv)"
  by (auto simp: div_ok_def inv_ok_def gf_wgen_inverse_from_divide_def)

lemma matrix_ok:
  assumes "h_primitive h"
  shows "inv_ok h (gf_wgen_matrix h)"
  using bitmatrix_inverse [OF assms [unfolded h_primitive_def]]
  by (simp add: inv_ok_def gf_wgen_matrix_def)

lemma euclid_ok:
  assumes "wf_field h" "h_w h < 32" "h_primitive h" "mul_ok h mul"
  shows "inv_ok h (gf_wgen_euclid h mul)"
  unfolding inv_ok_def
  using euclid_inverse [OF assms(1,2) assms(3) [unfolded h_primitive_def]] assms(4)
  by (auto simp: mul_ok_def)

section \<open>General w\<close>

lemma shift_ok: "wf_field h \<Longrightarrow> mul_ok h (gf_wgen_shift_multiply h)"
  by (auto simp: mul_ok_def shift_multiply_eq_mul)

lemma bytwo_b_ok: "wf_field h \<Longrightarrow> mul_ok h (gf_wgen_bytwo_b_multiply h)"
  by (auto simp: mul_ok_def bytwo_b_multiply_eq_mul)

lemma bytwo_p_ok: "wf_field h \<Longrightarrow> mul_ok h (gf_wgen_bytwo_p_multiply h)"
  by (auto simp: mul_ok_def bytwo_p_multiply_eq_mul)

definition funs_ok :: "gf_internal \<Rightarrow> gf_funs \<Rightarrow> bool" where
  "funs_ok h = (\<lambda>(mul, dv, iv). mul_ok h mul \<and> (\<forall>d. dv = Some d \<longrightarrow> div_ok h d) \<and>
     (\<forall>i. iv = Some i \<longrightarrow> inv_ok h i))"

lemma table_init_ok:
  assumes "wf_field h" "h_primitive h" "h_w h \<le> 14"
  shows "\<exists>fs. gf_wgen_table_init h = Inr fs \<and> funs_ok h fs"
proof (cases "h_w h \<le> 8")
  case True
  then show ?thesis
    using table_multiply [OF assms(1), of 8] table_divide [OF assms(1), of 8] assms
    by (auto simp: gf_wgen_table_init_def gf_wgen_table_8_init_def funs_ok_def mul_ok_def div_ok_def
        gf_wgen_table_8_multiply_def gf_wgen_table_8_divide_def Let_def h_primitive_def)
next
  case False
  then show ?thesis
    using table_multiply [OF assms(1), of 16] table_divide [OF assms(1), of 16] assms
    by (auto simp: gf_wgen_table_init_def gf_wgen_table_16_init_def funs_ok_def mul_ok_def div_ok_def
        gf_wgen_table_16_multiply_def gf_wgen_table_16_divide_def Let_def h_primitive_def)
qed

lemma log_funs_ok:
  assumes "h_primitive h" "log_inv h (log_period (h_w h)) (log_tab std) (anti_tab std)"
  shows "mul_ok h (log_multiply std)" "div_ok h (\<lambda>a b. Some (log_divide (h_w h) std a b))"
  using log_multiply [OF assms(1) [unfolded h_primitive_def] assms(2)]
    log_divide [OF assms(1) [unfolded h_primitive_def] assms(2)]
  by (auto simp: mul_ok_def div_ok_def)

lemma log_init_ok:
  assumes "wf_field h" "h_primitive h" "h_w h < 32"
  shows "\<exists>fs. gf_wgen_log_init h = Inr fs \<and> funs_ok h fs"
proof -
  note fill = log_fill [OF assms(1,3) assms(2) [unfolded h_primitive_def]]
  consider "h_w h \<le> 8" | "8 < h_w h" "h_w h \<le> 16" | "16 < h_w h" by linarith
  then show ?thesis
  proof cases
    case 1
    then show ?thesis using fill [of 8] log_funs_ok [OF assms(2)]
      by (auto simp: gf_wgen_log_init_def gf_wgen_log_8_init_def gf_wgen_log_8_multiply_def
          gf_wgen_log_8_divide_def funs_ok_def)
  next
    case 2
    then show ?thesis using fill [of 16] log_funs_ok [OF assms(2)]
      by (auto simp: gf_wgen_log_init_def gf_wgen_log_16_init_def gf_wgen_log_16_multiply_def
          gf_wgen_log_16_divide_def funs_ok_def)
  next
    case 3
    then show ?thesis using fill [of 32] log_funs_ok [OF assms(2)] assms(3)
      by (auto simp: gf_wgen_log_init_def gf_wgen_log_32_init_def gf_wgen_log_32_multiply_def
          gf_wgen_log_32_divide_def funs_ok_def)
  qed
qed

text \<open>Whatever an initialisation left out, the completion installs it.\<close>

lemma division_ok:
  assumes "wf_field h" "h_w h < 32" "h_primitive h" "funs_ok h fs"
  shows "\<exists>mul dv iv. gf_wgen_division h fs = (mul, Some dv, Some iv) \<and>
           mul_ok h mul \<and> div_ok h dv \<and> inv_ok h iv"
proof -
  obtain mul d0 i0 where fs: "fs = (mul, d0, i0)" by (cases fs)
  have m: "mul_ok h mul" using assms(4) by (simp add: funs_ok_def fs)
  note e = euclid_ok [OF assms(1-3) m] and x = matrix_ok [OF assms(3)]
  have w: "0 < h_w h" "h_w h \<le> 32" using assms(1,2) wf_field_bounds by auto
  note de = divide_from_inverse_ok [OF w(2) m]
  note ie = inverse_from_divide_ok [OF w(1)]
  show ?thesis
  proof (cases "divide_type h")
    case GF_DIVIDE_EUCLID
    then show ?thesis using m e de [OF e] by (simp add: gf_wgen_division_def fs Let_def)
  next
    case GF_DIVIDE_MATRIX
    then show ?thesis using m x de [OF x] by (simp add: gf_wgen_division_def fs Let_def)
  qed (use assms(4) m e de ie in
      \<open>cases d0; cases i0; auto simp: gf_wgen_division_def fs funs_ok_def Let_def\<close>)+
qed

definition wgen_supported :: "gf_internal \<Rightarrow> bool" where
  "wgen_supported h \<longleftrightarrow> (case mult_type h of
     GF_MULT_DEFAULT \<Rightarrow> True | GF_MULT_SHIFT \<Rightarrow> True | GF_MULT_BYTWO_b \<Rightarrow> True
   | GF_MULT_BYTWO_p \<Rightarrow> True | GF_MULT_TABLE \<Rightarrow> h_w h \<le> 14 | GF_MULT_LOG_TABLE \<Rightarrow> True
   | _ \<Rightarrow> False)"

lemma mult_init_ok:
  assumes "wf_field h" "h_w h < 32" "h_primitive h" "wgen_supported h"
  shows "\<exists>fs. gf_wgen_mult_init h = Inr fs \<and> funs_ok h fs"
proof -
  have s: "funs_ok h (gf_wgen_shift_init h)" "funs_ok h (gf_wgen_bytwo_b_init h)"
    "funs_ok h (gf_wgen_bytwo_p_init h)"
    using shift_ok bytwo_b_ok bytwo_p_ok euclid_ok [OF assms(1-3)] assms(1)
    by (auto simp: funs_ok_def gf_wgen_shift_init_def gf_wgen_bytwo_b_init_def gf_wgen_bytwo_p_init_def)
  note l = log_init_ok [OF assms(1,3,2)] and t = table_init_ok [OF assms(1,3)]
  show ?thesis
  proof (cases "mult_type h")
    case GF_MULT_DEFAULT
    then show ?thesis using l t s(3)
      by (cases "h_w h \<le> 8"; cases "h_w h \<le> 16") (auto simp: gf_wgen_mult_init_def)
  qed (use assms(4) l t s in \<open>auto simp: gf_wgen_mult_init_def wgen_supported_def\<close>)
qed

lemma wgen_init_ok:
  assumes "gf_wgen_poly h = Inr p" "wf_field (set_prim_poly p h)" "h_w h < 32"
    "h_primitive (set_prim_poly p h)" "wgen_supported h"
  shows "\<exists>F. gf_wgen_init h = Inr F \<and> gf_correct F \<and> scratch F = set_prim_poly p h"
proof -
  have s: "wgen_supported (set_prim_poly p h)" using assms(5) by (cases "mult_type h") (simp_all add: wgen_supported_def)
  have w: "h_w (set_prim_poly p h) < 32" using assms(3) by simp
  obtain fs where fs: "gf_wgen_mult_init (set_prim_poly p h) = Inr fs" "funs_ok (set_prim_poly p h) fs"
    using mult_init_ok [OF assms(2) w assms(4) s] by auto
  obtain mul dv iv where "gf_wgen_division (set_prim_poly p h) fs = (mul, Some dv, Some iv)"
    "mul_ok (set_prim_poly p h) mul" "div_ok (set_prim_poly p h) dv" "inv_ok (set_prim_poly p h) iv"
    using division_ok [OF assms(2) w assms(4) fs(2)] by auto
  then show ?thesis using assms(1,4) fs(1) by (simp add: gf_wgen_init_def gf_correct_def)
qed

section \<open>GF(2^8): full tables\<close>

lemma w8_shift_eq_mul:
  assumes "wf_field h" "h_w h = 8" "h_elem h b"
  shows "gf_w8_shift_multiply h a b = h_mul h a b"
proof -
  have "bit (ucast (prim_poly h) :: u16) i \<longleftrightarrow> i = 8 \<or> i < 8 \<and> bit (field_poly h) i" for i
    using wf_field_high [OF assms(1), of i] assms(2)
    by (cases "i < 8") (auto simp: bit_ucast_iff)
  then show ?thesis
    unfolding gf_w8_shift_multiply_def assms(2)
    using assms(2,3) by (intro shift_multiply_mul) auto
qed

lemma w8_table_fill_pairs:
  "gf_w8_table_fill h =
    (fold (\<lambda>(a, b) t. t[a * 256 + b := take_bit 8 (gf_w8_shift_multiply h (of_nat a) (of_nat b))])
       (nonzero_pairs 8) (replicate 65536 0),
     fold (\<lambda>(a, b) t. t[unat (gf_w8_shift_multiply h (of_nat a) (of_nat b)) * 256 + b :=
         take_bit 8 (of_nat a)]) (nonzero_pairs 8) (replicate 65536 0))"
  unfolding gf_w8_table_fill_def Let_def fold_nested
  using fold_update_pair [where
      k = "\<lambda>(a, b). a * 256 + b" and
      v = "\<lambda>(a, b). take_bit 8 (gf_w8_shift_multiply h (of_nat a) (of_nat b))" and
      k' = "\<lambda>(a, b). unat (gf_w8_shift_multiply h (of_nat a) (of_nat b)) * 256 + b" and
      v' = "\<lambda>(a, b). take_bit 8 (of_nat a)" and xs = "nonzero_pairs 8"]
  by (simp add: case_prod_unfold)

lemma w8_table_multiply:
  assumes "wf_field h" "h_w h = 8" "h_elem h a" "h_elem h b"
  shows "gf_w8_table_multiply (fst (gf_w8_table_fill h)) a b = h_mul h a b"
proof -
  have lt: "unat a < 256" "unat b < 256"
    using assms(2-4) gf_elem_unat [of 8 a] gf_elem_unat [of 8 b] by auto
  have v: "take_bit 8 (gf_w8_shift_multiply h (of_nat (unat a)) (of_nat (unat b))) = h_mul h a b"
    using w8_shift_eq_mul [OF assms(1,2,4)] elem_take_bit [of 8 "h_mul h a b" 8] assms(2,4) by simp
  have key: "c = unat a \<and> d = unat b"
    if "(c, d) \<in> set (nonzero_pairs 8)" "c * 256 + d = unat a * 256 + unat b" for c d
    using mixed_radix_inj [OF _ lt(2) that(2)] that(1) by auto
  have "fst (gf_w8_table_fill h) ! (unat a * 256 + unat b) =
      (if \<exists>(c, d)\<in>set (nonzero_pairs 8). c * 256 + d = unat a * 256 + unat b then h_mul h a b else 0)"
    unfolding w8_table_fill_pairs fst_conv
  proof (rule nth_pair_table)
    fix c d assume "(c, d) \<in> set (nonzero_pairs 8)" "c * 256 + d = unat a * 256 + unat b"
    from key [OF this] v
    show "take_bit 8 (gf_w8_shift_multiply h (of_nat c) (of_nat d)) = h_mul h a b" by simp
  qed (use lt in simp)
  moreover have "\<exists>(c, d)\<in>set (nonzero_pairs 8). c * 256 + d = unat a * 256 + unat b"
    if "a \<noteq> 0" "b \<noteq> 0"
  proof (rule bexI [of _ "(unat a, unat b)"])
    show "(unat a, unat b) \<in> set (nonzero_pairs 8)"
      using elem_pair [of 8 a b] that assms(2-4) by simp
  qed simp
  ultimately show ?thesis unfolding gf_w8_table_multiply_def by (cases "a = 0 \<or> b = 0") auto
qed

lemma w8_table_divide:
  assumes "wf_field h" "h_w h = 8" "h_primitive h" "h_elem h a" "h_elem h b" "b \<noteq> 0"
  shows "h_elem h (gf_w8_table_divide (snd (gf_w8_table_fill h)) a b) \<and>
    h_mul h (gf_w8_table_divide (snd (gf_w8_table_fill h)) a b) b = a"
proof -
  let ?p = "\<lambda>a b. gf_w8_shift_multiply h (of_nat a) (of_nat b)"
  have lt: "unat a < 256" "unat b < 256"
    using assms(2,4,5) gf_elem_unat [of 8 a] gf_elem_unat [of 8 b] by auto
  obtain q where q: "h_elem h q" "h_mul h q b = a"
    using divide_from_inverse_ok [of h "h_mul h" "gf_wgen_matrix h"] matrix_ok [OF assms(3)] assms
    by (auto simp: div_ok_def mul_ok_def)
  have p: "?p c d = h_mul h (of_nat c) (of_nat d)" if "d < 256" for c d
    using w8_shift_eq_mul [OF assms(1,2)] elem_of_nat(1) [of d 8] that assms(2) by simp
  have key: "take_bit 8 (of_nat c) = q"
    if cd: "(c, d) \<in> set (nonzero_pairs 8)" "unat (?p c d) * 256 + d = unat a * 256 + unat b" for c d
  proof -
    have lt': "c < 2 ^ 8" "d < 256" using cd(1) by auto
    then have "unat (h_mul h (of_nat c) (of_nat d)) = unat a" "d = unat b"
      using mixed_radix_inj [OF lt'(2) lt(2) cd(2)] p [OF lt'(2), of c] by metis+
    then have "h_mul h (of_nat c) b = a" by (metis of_nat_unat ucast_id word_unat_eq_iff)
    then have "h_mul h (of_nat c XOR q) b = 0" using q(2) by (simp add: gf_mul_xor_left)
    then have "of_nat c = q"
      using gf_no_zero_divisors [OF assms(3) [unfolded h_primitive_def], of "of_nat c XOR q" b]
        elem_of_nat(1) [OF lt'(1)] assms(2,5,6) q(1) by auto
    then show ?thesis using q(1) assms(2) by (simp add: elem_take_bit)
  qed
  have "snd (gf_w8_table_fill h) ! (unat a * 256 + unat b) =
      (if \<exists>(c, d)\<in>set (nonzero_pairs 8). unat (?p c d) * 256 + d = unat a * 256 + unat b then q else 0)"
    unfolding w8_table_fill_pairs snd_conv
    by (rule nth_pair_table [OF key]) (use lt in auto)
  moreover have "\<exists>(c, d)\<in>set (nonzero_pairs 8). unat (?p c d) * 256 + d = unat a * 256 + unat b"
    if "q \<noteq> 0"
  proof (rule bexI [of _ "(unat q, unat b)"])
    show "(unat q, unat b) \<in> set (nonzero_pairs 8)"
      using elem_pair [of 8 q b] that assms(2,5,6) q(1) by simp
    show "case (unat q, unat b) of (c, d) \<Rightarrow> unat (?p c d) * 256 + d = unat a * 256 + unat b"
      using p [OF lt(2), of "unat q"] q(2) by simp
  qed
  ultimately have "snd (gf_w8_table_fill h) ! (unat a * 256 + unat b) = q" by (cases "q = 0") auto
  then show ?thesis using q by (simp add: gf_w8_table_divide_def)
qed

lemma word_division_ok:
  assumes "h_w h \<le> 32" "h_primitive h" "\<And>mul. mul_ok h mul \<Longrightarrow> inv_ok h (euclid mul)" "funs_ok h fs"
  shows "\<exists>mul dv iv. word_division h euclid fs = (mul, Some dv, Some iv) \<and>
           mul_ok h mul \<and> div_ok h dv \<and> inv_ok h iv"
proof -
  obtain mul d0 i0 where fs: "fs = (mul, d0, i0)" by (cases fs)
  have m: "mul_ok h mul" using assms(4) by (simp add: funs_ok_def fs)
  note e = assms(3) [OF m] and x = matrix_ok [OF assms(2)]
  have w: "0 < h_w h" using assms(2) h_primitive_bounds by auto
  note de = divide_from_inverse_ok [OF assms(1) m]
  note ie = inverse_from_divide_ok [OF w]
  show ?thesis
  proof (cases "divide_type h")
    case GF_DIVIDE_EUCLID
    then show ?thesis using m e de [OF e] by (simp add: word_division_def fs Let_def)
  next
    case GF_DIVIDE_MATRIX
    then show ?thesis using m x de [OF x] by (simp add: word_division_def fs Let_def)
  qed (use assms(4) m e de ie in
      \<open>cases d0; cases i0; auto simp: word_division_def fs funs_ok_def Let_def\<close>)+
qed

lemma w8_euclid: "h_w h = 8 \<Longrightarrow> gf_w8_euclid h = gf_wgen_euclid h"
  by (intro ext) (simp add: gf_w8_euclid_def gf_wgen_euclid_def)

lemma w8_bytwo_multiply:
  assumes "wf_field h" "h_w h = 8"
  shows "mul_ok h (gf_w8_bytwo_p_multiply h)" "mul_ok h (gf_w8_bytwo_b_multiply h)"
proof -
  have "(0x80 :: u32) = push_bit 7 1" by (simp add: push_bit_of_1)
  then have "gf_w8_bytwo_p_multiply h a b = gf_wgen_bytwo_p_multiply h a b" for a b
    by (simp only: gf_w8_bytwo_p_multiply_def gf_wgen_bytwo_p_multiply_def assms(2)) simp
  moreover have "gf_w8_bytwo_b_multiply h a b = gf_wgen_bytwo_b_multiply h a b" for a b
    by (simp add: gf_w8_bytwo_b_multiply_def gf_wgen_bytwo_b_multiply_def assms(2))
  ultimately show "mul_ok h (gf_w8_bytwo_p_multiply h)" "mul_ok h (gf_w8_bytwo_b_multiply h)"
    using bytwo_p_multiply_eq_mul [OF assms(1)] bytwo_b_multiply_eq_mul [OF assms(1)] by (simp_all add: mul_ok_def)
qed

text \<open>What the technique leaves out is completed, and the field is correct.\<close>

lemma w8_init_technique:
  assumes "mult_type h \<noteq> GF_MULT_COMPOSITE" "h_w h = 8"
    "h' = set_prim_poly ((if prim_poly h = 0 then 0x11d else prim_poly h) OR 0x100) h"
    "wf_field h'" "h_primitive h'" "gf_w8_technique h' = Inr (fs, region)" "funs_ok h' fs"
  shows "\<exists>F. gf_w8_init h = Inr F \<and> gf_correct F \<and> scratch F = h' \<and>
    (region_type h \<noteq> GF_REGION_CAUCHY \<longrightarrow>
       multiply_region F = Some (case region of None \<Rightarrow> W8_from_single | Some f \<Rightarrow> f) \<and> extract_word F = Some W8_extract)"
proof -
  have w: "h_w h' = 8" using assms(2,3) by simp
  have "inv_ok h' (gf_w8_euclid h' mul)" if "mul_ok h' mul" for mul
    using euclid_ok [OF assms(4) _ assms(5) that] w w8_euclid [of h'] by simp
  then obtain mul dv iv where d: "word_division h' (gf_w8_euclid h') fs = (mul, Some dv, Some iv)"
    "mul_ok h' mul" "div_ok h' dv" "inv_ok h' iv"
    using word_division_ok [of h' "gf_w8_euclid h'" fs] assms(5,7) w by auto
  have "region_type h' = region_type h" using assms(3) by simp
  then show ?thesis
    unfolding gf_w8_init_def Let_def assms(3) [symmetric] assms(6) using assms(1,5) d by (simp add: gf_correct_def)
qed

lemma w8_table_technique:
  assumes "mult_type h = GF_MULT_DEFAULT \<or> mult_type h = GF_MULT_TABLE \<and> region_type h = 0"
    "h_w h = 8" "wf_field h" "h_primitive h"
  shows "\<exists>fs. gf_w8_technique h = Inr (fs, Some (W8_table_region (fst (gf_w8_table_fill h)))) \<and> funs_ok h fs"
proof -
  let ?fs = "(gf_w8_table_multiply (fst (gf_w8_table_fill h)),
    Some (\<lambda>a b. Some (gf_w8_table_divide (snd (gf_w8_table_fill h)) a b)), None)"
  have "mul_ok h (gf_w8_table_multiply (fst (gf_w8_table_fill h)))"
    using w8_table_multiply [OF assms(3,2)] by (simp add: mul_ok_def)
  moreover have "div_ok h (\<lambda>a b. Some (gf_w8_table_divide (snd (gf_w8_table_fill h)) a b))"
    using w8_table_divide [OF assms(3,2,4)] by (simp add: div_ok_def)
  ultimately have "funs_ok h ?fs" by (simp add: funs_ok_def)
  moreover have "gf_w8_technique h = Inr (?fs, Some (W8_table_region (fst (gf_w8_table_fill h))))"
    using assms(1) by (auto simp: gf_w8_technique_def gf_w8_table_init_def Let_def case_prod_beta)
  ultimately show ?thesis by blast
qed

lemma w8_init_ok:
  assumes "mult_type h = GF_MULT_DEFAULT \<or> mult_type h = GF_MULT_TABLE \<and> region_type h = 0"
    "h_w h = 8" "h' = set_prim_poly ((if prim_poly h = 0 then 0x11d else prim_poly h) OR 0x100) h"
    "wf_field h'" "h_primitive h'"
  shows "\<exists>F. gf_w8_init h = Inr F \<and> gf_correct F \<and> scratch F = h' \<and>
    (region_type h \<noteq> GF_REGION_CAUCHY \<longrightarrow>
       multiply_region F = Some (W8_table_region (fst (gf_w8_table_fill h'))) \<and> extract_word F = Some W8_extract)"
proof -
  obtain fs where "gf_w8_technique h' = Inr (fs, Some (W8_table_region (fst (gf_w8_table_fill h'))))" "funs_ok h' fs"
    using w8_table_technique [of h'] assms by auto
  from w8_init_technique [OF _ assms(2-5) this] show ?thesis using assms(1) by auto
qed

section \<open>GF(2^16): logarithms\<close>

lemma w16_euclid: "h_w h = 16 \<Longrightarrow> gf_w16_euclid h = gf_wgen_euclid h"
  by (intro ext) (simp add: gf_w16_euclid_def gf_wgen_euclid_def)

lemma w16_inverse_ok:
  assumes "h_w h = 16" "h_primitive h" "log_inv h (log_period 16) (log_tab std) (anti_tab std)"
  shows "inv_ok h (\<lambda>a. Some (gf_w16_log_inverse (gf_w16_inv_tbl std) a))"
  unfolding inv_ok_def
proof (intro allI impI, elim conjE)
  fix b assume b: "h_elem h b" "b \<noteq> 0"
  have pr: "gf_primitive (h_w h) (field_poly h)" using assms(2) by (simp add: h_primitive_def)
  have n: "log_period 16 = 65535" by (simp add: log_period_def)
  have one: "h_xp h 65535 = 1" using pr assms(1) by (simp add: gf_primitive_def)
  obtain i where i: "i < 65535" "b = h_xp h i"
    using gf_primitive_surj [OF pr b] assms(1) by auto
  have lg: "unat (log_tab std ! unat b) = i" using assms(3) i n by (simp add: log_inv_def)
  have ub: "unat b < 65536" "0 < unat b" using b assms(1) gf_elem_unat [of 16 b] by (auto simp: unat_gt_0)
  have mul: "h_mul h (h_xp h (65535 - i)) b = 1"
    unfolding i(2) using gf_xp_mul [of "h_w h" "field_poly h" "65535 - i" i] assms(1) i(1) one by simp
  have "gf_w16_log_inverse (gf_w16_inv_tbl std) b = h_xp h (65535 - i)"
  proof (cases "unat b = 1")
    case True
    then have "b = 1" by (metis unat_1 word_unat_eq_iff)
    have "i = 0"
    proof (rule ccontr)
      assume "i \<noteq> 0"
      then have "h_xp h i \<noteq> 1" using pr i(1) assms(1) by (simp add: gf_primitive_def)
      then show False using i(2) \<open>b = 1\<close> by simp
    qed
    then show ?thesis using True one
      by (simp add: gf_w16_log_inverse_def gf_w16_inv_tbl_def del: upt_rec_numeral)
  next
    case False
    then obtain k where k: "unat b = Suc (Suc k)"
      using ub(2) by (cases "unat b"; cases "unat b - 1") auto
    have "1 \<le> i"
    proof (rule ccontr)
      assume "\<not> 1 \<le> i"
      then have "i = 0" by simp
      then show False using i(2) False by simp
    qed
    then have "anti_tab std ! (65535 - i) = h_xp h (65535 - i)"
      using assms(3) i n assms(1) by (simp add: log_inv_def)
    moreover have "gf_w16_inv_tbl std ! unat b = anti_tab std ! (65535 - unat (log_tab std ! unat b))"
      using k ub(1) by (simp add: gf_w16_inv_tbl_def del: upt_Suc upt_rec_numeral)
    ultimately show ?thesis using lg by (simp add: gf_w16_log_inverse_def)
  qed
  then show "\<exists>y. Some (gf_w16_log_inverse (gf_w16_inv_tbl std) b) = Some y \<and> h_elem h y \<and> h_mul h y b = 1"
    using mul assms(1) by simp
qed

lemma w16_shift_eq_mul:
  assumes "wf_field h" "h_w h = 16" "h_elem h b"
  shows "gf_w16_shift_multiply h a b = h_mul h a b"
proof -
  have "bit (ucast (prim_poly h) :: u32) i \<longleftrightarrow> i = 16 \<or> i < 16 \<and> bit (field_poly h) i" for i
    using wf_field_high [OF assms(1), of i] assms(2) by (cases "i < 16") (auto simp: bit_ucast_iff)
  then have "(ucast (shift_multiply 16 31 (ucast (prim_poly h) :: u32) (ucast a) (ucast b)) :: u32) = h_mul h a b"
    unfolding assms(2) using assms(2,3) by (intro shift_multiply_mul) auto
  then show ?thesis by (simp add: gf_w16_shift_multiply_def)
qed

lemma w16_bytwo_multiply:
  assumes "wf_field h" "h_w h = 16"
  shows "mul_ok h (gf_w16_bytwo_p_multiply h)" "mul_ok h (gf_w16_bytwo_b_multiply h)"
proof -
  have "(0x8000 :: u32) = push_bit 15 1" by (simp add: push_bit_of_1)
  then have "gf_w16_bytwo_p_multiply h a b = gf_wgen_bytwo_p_multiply h a b" for a b
    by (simp only: gf_w16_bytwo_p_multiply_def gf_wgen_bytwo_p_multiply_def assms(2)) simp
  moreover have "gf_w16_bytwo_b_multiply h a b = gf_wgen_bytwo_b_multiply h a b" for a b
    by (simp add: gf_w16_bytwo_b_multiply_def gf_wgen_bytwo_b_multiply_def assms(2))
  ultimately show "mul_ok h (gf_w16_bytwo_p_multiply h)" "mul_ok h (gf_w16_bytwo_b_multiply h)"
    using bytwo_p_multiply_eq_mul [OF assms(1)] bytwo_b_multiply_eq_mul [OF assms(1)] by (simp_all add: mul_ok_def)
qed

lemma w16_init_technique:
  assumes "mult_type h \<noteq> GF_MULT_COMPOSITE" "region_type h AND GF_REGION_ALTMAP = 0" "h_w h = 16"
    "h' = set_prim_poly ((if prim_poly h = 0 then 0x1100b else prim_poly h) OR push_bit 16 1) h"
    "wf_field h'" "h_primitive h'" "gf_w16_technique h' = Inr (fs, region)" "funs_ok h' fs"
  shows "\<exists>F. gf_w16_init h = Inr F \<and> gf_correct F \<and> scratch F = h' \<and>
    (region_type h \<noteq> GF_REGION_CAUCHY \<longrightarrow>
       multiply_region F = Some (case region of None \<Rightarrow> W16_from_single | Some f \<Rightarrow> f) \<and> extract_word F = Some W16_extract)"
proof -
  have w: "h_w h' = 16" using assms(3,4) by simp
  have "inv_ok h' (gf_w16_euclid h' mul)" if "mul_ok h' mul" for mul
    using euclid_ok [OF assms(5) _ assms(6) that] w w16_euclid [of h'] by simp
  then obtain mul dv iv where d: "word_division h' (gf_w16_euclid h') fs = (mul, Some dv, Some iv)"
    "mul_ok h' mul" "div_ok h' dv" "inv_ok h' iv"
    using word_division_ok [of h' "gf_w16_euclid h'" fs] assms(6,8) w by auto
  have "region_type h' = region_type h" using assms(4) by simp
  then show ?thesis
    unfolding gf_w16_init_def Let_def assms(4) [symmetric] assms(7) using assms(1,2,6) d by (simp add: gf_correct_def)
qed

lemma w16_log_technique:
  assumes "h_w h = 16" "wf_field h" "h_primitive h"
  shows "\<exists>fs l al. gf_w16_log_init h = Inr (fs, Some (W16_log_region l al)) \<and> funs_ok h fs \<and> log_inv h (log_period 16) l al"
proof -
  obtain std where std: "gf_wgen_log_fill 16 h = (std, False)"
    "log_inv h (log_period 16) (log_tab std) (anti_tab std)"
    using log_fill [OF assms(2), of 16] assms(1,3) by (auto simp: h_primitive_def)
  let ?fs = "(gf_w16_log_multiply std, Some (\<lambda>a b. Some (gf_w16_log_divide std a b)),
    Some (\<lambda>a. Some (gf_w16_log_inverse (gf_w16_inv_tbl std) a)))"
  have "funs_ok h ?fs"
    using log_funs_ok [OF assms(3), of std] std(2) w16_inverse_ok [OF assms(1,3) std(2)] assms(1)
    by (simp add: funs_ok_def gf_w16_log_multiply_def gf_w16_log_divide_def)
  moreover have "gf_w16_log_init h = Inr (?fs, Some (W16_log_region (log_tab std) (anti_tab std)))"
    using std(1) by (simp add: gf_w16_log_init_def)
  ultimately show ?thesis using std(2) by blast
qed

lemma w16_init_ok:
  assumes "mult_type h = GF_MULT_DEFAULT" "region_type h AND GF_REGION_ALTMAP = 0"
    "h_w h = 16" "h' = set_prim_poly ((if prim_poly h = 0 then 0x1100b else prim_poly h) OR push_bit 16 1) h"
    "wf_field h'" "h_primitive h'"
  shows "\<exists>F. gf_w16_init h = Inr F \<and> gf_correct F \<and> scratch F = h' \<and>
    (region_type h \<noteq> GF_REGION_CAUCHY \<longrightarrow>
       multiply_region F = Some W16_split_8_16_lazy_region \<and> extract_word F = Some W16_extract)"
proof -
  have "h_w h' = 16" using assms(3,4) by simp
  from w16_log_technique [OF this assms(5,6)] obtain fs where fs: "funs_ok h' fs" "\<exists>r. gf_w16_log_init h' = Inr (fs, r)" by blast
  have "gf_w16_technique h' = Inr (fs, Some W16_split_8_16_lazy_region)"
    using fs(2) assms(1,4) by (auto simp: gf_w16_technique_def gf_w16_split_init_def)
  from w16_init_technique [OF _ assms(2-6) this fs(1)] show ?thesis using assms(1) by auto
qed

section \<open>GF(2^32): by-two and Euclid\<close>

lemma w32_inner_eq:
  assumes "deg_is e_i d_i" "0 < d_i" "deg_is e d"
  shows "gf_w32_euclid_inner e_i d_i c e d = gf_wgen_euclid_inner e_i d_i c e d"
  using assms(3)
proof (induction d arbitrary: c e rule: less_induct)
  case (less d)
  show ?case
  proof (cases "d < d_i")
    case True
    then show ?thesis
      by (simp add: gf_w32_euclid_inner.simps [of e_i] gf_wgen_euclid_inner.simps [of e_i])
  next
    case False
    define e1 where "e1 = e XOR push_bit (d - d_i) e_i"
    have low: "\<not> bit e1 k" if "d \<le> k" for k
      unfolding e1_def using euclid_cancel [OF assms(1) less.prems _ that] False by simp
    obtain d1 where d1: "d = Suc d1" using False assms(2) by (cases d) auto
    show ?thesis
    proof (cases "e1 = 0")
      case True
      then show ?thesis unfolding e1_def using False
        by (simp add: gf_w32_euclid_inner.simps [of e_i] gf_wgen_euclid_inner.simps [of e_i] Let_def)
    next
      case nz: False
      have hb: "high_bit e1 d = high_bit e1 (d - 1)" using low [of d] d1 by simp
      have deg: "deg_is e1 (high_bit e1 (d - 1))"
        using high_bit_deg [OF nz, of "d - 1"] low d1 by auto
      have lt: "high_bit e1 (d - 1) < d" using high_bit_le [of e1 "d - 1"] d1 by simp
      show ?thesis using less.IH [OF lt deg] nz False hb unfolding e1_def
        by (subst gf_w32_euclid_inner.simps, subst gf_wgen_euclid_inner.simps) (simp add: Let_def)
    qed
  qed
qed

lemma w32_bytwo_p_eq_mul:
  assumes "wf_field h" "h_w h = 32"
  shows "gf_w32_bytwo_p_multiply h a b = h_mul h a b"
proof -
  have "(0x80000000 :: u32) = push_bit (h_w h - 1) 1" using assms(2) by (simp add: push_bit_of_1)
  then have "gf_w32_bytwo_p_multiply h a b = gf_wgen_bytwo_p_multiply h a b"
    unfolding gf_w32_bytwo_p_multiply_def gf_wgen_bytwo_p_multiply_def assms(2) by metis
  then show ?thesis using bytwo_p_multiply_eq_mul [OF assms(1), of b a] assms(2) by simp
qed

text \<open>
  The first division is by the polynomial with its leading term; after it the loop is in a
  state the general argument covers.
\<close>

lemma h_eval_full_32:
  assumes "wf_field h" "h_w h = 32" "deg_is e d" "0 < d"
  shows "h_eval h (field_poly h XOR push_bit (32 - d) e) = h_mul h (push_bit (32 - d) 1) (h_eval h e)"
proof -
  let ?pp = "field_poly h"
  define q :: u64 where "q = push_bit 32 1 XOR ucast ?pp"
  have pq: "bit q i \<longleftrightarrow> i = 32 \<or> i < 32 \<and> bit ?pp i" for i
    using bit_imp_le_length [of ?pp i] by (auto simp: q_def bit_xor_iff)
  have "gf_peval 32 ?pp q = 0" by (rule gf_peval_poly) (auto simp: pq)
  moreover have "ucast (?pp XOR push_bit (32 - d) e) = q XOR push_bit (32 - d) (ucast e :: u64)"
  proof (rule bit_word_eqI)
    fix n assume "n < LENGTH(64)"
    show "bit (ucast (?pp XOR push_bit (32 - d) e) :: u64) n = bit (q XOR push_bit (32 - d) (ucast e)) n"
    proof (cases n "32 :: nat" rule: linorder_cases)
      case less
      then show ?thesis by (auto simp: pq bit_xor_iff bit_push_bit_iff)
    next
      case equal
      have "bit e (32 - (32 - d))" using assms(3) deg_is_lt_32 [OF assms(3)] by (simp add: deg_is_def)
      moreover have "\<not> bit ?pp 32" using bit_imp_le_length [of ?pp 32] by auto
      ultimately show ?thesis using equal by (simp add: pq bit_xor_iff bit_push_bit_iff)
    next
      case greater
      then have "d < n - (32 - d)" using deg_is_lt_32 [OF assms(3)] by linarith
      then have "\<not> bit e (n - (32 - d))" using assms(3) by (simp add: deg_is_def)
      moreover have "\<not> bit (?pp XOR push_bit (32 - d) e) n"
        using greater bit_imp_le_length [of "?pp XOR push_bit (32 - d) e" n] by auto
      ultimately show ?thesis using greater by (simp add: pq bit_xor_iff bit_push_bit_iff)
    qed
  qed
  ultimately have "h_eval h (?pp XOR push_bit (32 - d) e) =
      gf_peval 32 ?pp (push_bit (32 - d) (ucast e :: u64))"
    using assms(2) by (simp add: gf_peval_xor)
  also have "\<dots> = (gf_xtime 32 ?pp ^^ (32 - d)) (gf_peval 32 ?pp (ucast e :: u64))"
    by (rule gf_peval_push_bit) (auto dest: bit_imp_le_length)
  also have "\<dots> = h_mul h (push_bit (32 - d) 1) (h_eval h e)"
    using assms(2,4) gf_mul_push_bit [of 32 "h_eval h e" "32 - d" ?pp] by simp
  finally show ?thesis .
qed

lemma w32_euclid_ok:
  assumes "wf_field h" "h_w h = 32" "h_primitive h" "mul_ok h mul"
  shows "inv_ok h (gf_w32_euclid h mul)"
  unfolding inv_ok_def
proof (intro allI impI, elim conjE)
  fix b assume b: "h_elem h b" "b \<noteq> 0"
  let ?pp = "field_poly h" and ?d = "high_bit b 31"
  have pr: "gf_primitive (h_w h) ?pp" using assms(3) by (simp add: h_primitive_def)
  have el: "h_elem h a" for a using assms(2) by simp
  have mul: "mul x y = h_mul h x y" for x y using assms(4) el by (simp add: mul_ok_def)
  have "\<not> bit b k" if "31 < k" for k using that bit_imp_le_length [of b k] by auto
  then have d: "deg_is b ?d" "?d < 32" using high_bit_deg [OF b(2)] high_bit_le [of b 31] by auto
  have ev: "h_eval h b = b" using gf_peval_ucast [of 32 b ?pp, where 'a = 64] assms(2) by simp
  show "\<exists>y. gf_w32_euclid h mul b = Some y \<and> h_elem h y \<and> h_mul h y b = 1"
  proof (cases "b = 1")
    case True
    then show ?thesis using assms(2) gf_mul_1_right [of 32 1 ?pp] el
      by (subst gf_w32_euclid_def) (simp add: euclid_loop.simps)
  next
    case False
    then have d0: "0 < ?d" using deg_is_0 d(1) by (cases ?d) auto
    define c1 where "c1 = push_bit (32 - ?d) (1::u32)"
    define e1 where "e1 = ?pp XOR push_bit (32 - ?d) b"
    have e1v: "h_eval h e1 = h_mul h c1 b"
      unfolding e1_def c1_def h_eval_full_32 [OF assms(1,2) d(1) d0] ev ..
    have c1: "c1 \<noteq> 0"
    proof -
      have "bit c1 (32 - ?d)" unfolding c1_def using d0 by simp
      then show ?thesis by auto
    qed
    have "e1 \<noteq> 0"
    proof
      assume "e1 = 0"
      then have "h_mul h c1 b = 0" using e1v by simp
      then show False using gf_no_zero_divisors [OF pr el el] c1 b(2) by blast
    qed
    then have d1: "deg_is e1 (high_bit e1 31)"
      using high_bit_deg [of e1 31] bit_imp_le_length [of e1] by fastforce
    have unf: "gf_w32_euclid_inner b ?d 0 ?pp 32 = gf_w32_euclid_inner b ?d c1 e1 (high_bit e1 31)"
      using \<open>e1 \<noteq> 0\<close> d(2) by (subst gf_w32_euclid_inner.simps) (simp add: Let_def c1_def e1_def)
    have "high_bit e1 31 \<le> h_w h" using high_bit_le [of e1 31] assms(2) by simp
    from euclid_inner [OF assms(1) d(1) d0 d1 this el [of c1]]
    obtain c e' d' where c:
      "h_eval h e' XOR h_mul h c (h_eval h b) = h_eval h e1 XOR h_mul h c1 (h_eval h b)"
      "?d \<le> high_bit e1 31 \<longrightarrow> (\<forall>k>high_bit e1 31 - ?d. bit c k = bit c1 k)"
      "high_bit e1 31 < ?d \<longrightarrow> c = c1"
      and r: "gf_wgen_euclid_inner b ?d c1 e1 (high_bit e1 31) = Some None \<and> e' = 0 \<or>
        gf_wgen_euclid_inner b ?d c1 e1 (high_bit e1 31) = Some (Some (c, e', d')) \<and> deg_is e' d' \<and> d' < ?d"
      by blast
    have e'v: "h_mul h c b = h_eval h e'"
      using c(1) unfolding ev e1v by simp
    have top: "bit c k = bit c1 k" if "32 - ?d \<le> k" for k
      using c(2,3) that high_bit_le [of e1 31] by (cases "high_bit e1 31 < ?d") auto
    have c1_bit: "bit c1 k \<longleftrightarrow> k = 32 - ?d \<and> k < 32" for k by (simp add: c1_def)
    have dc: "deg_is c (32 - ?d)"
      using top d0 d(2) by (simp add: deg_is_def c1_bit)
    have "e' \<noteq> 0"
    proof
      assume "e' = 0"
      then have "h_mul h c b = 0" using e'v by simp
      then show False using gf_no_zero_divisors [OF pr el el] deg_is_nonzero [OF dc] b(2) by blast
    qed
    then have r': "gf_w32_euclid_inner b ?d 0 ?pp 32 = Some (Some (c, e', d'))" "deg_is e' d'" "d' < ?d"
      using r unf w32_inner_eq [OF d(1) d0 d1] by auto
    have "h_mul h c 1 = c" using gf_mul_1_right el assms(2) by auto
    then have step: "gf_w32_euclid h mul b =
        euclid_loop gf_w32_euclid_inner mul b e' ?d d' 1 c"
      using b(2) False r'(1) mul
      by (subst gf_w32_euclid_def) (simp add: euclid_loop.simps [of _ _ ?pp])
    have one: "h_mul h 1 b = h_eval h b" using ev gf_mul_1_left el assms(2) by simp
    show ?thesis unfolding step
      using d(1) d(2) r'(2,3) el one e'v dc assms(2) d0 mul
      by (intro euclid_loop_inverse [OF assms(1) pr w32_inner_eq]) (auto simp: bit_1_iff b)
  qed
qed

lemma w32_bytwo_b_eq_mul: "wf_field h \<Longrightarrow> h_w h = 32 \<Longrightarrow> gf_w32_bytwo_b_multiply h a b = h_mul h a b"
  using bytwo_b_multiply_eq_mul [of h a b] by (simp add: gf_w32_bytwo_b_multiply_def gf_wgen_bytwo_b_multiply_def)

lemma w32_shift_eq_mul:
  assumes "wf_field h" "h_w h = 32"
  shows "gf_w32_shift_multiply h a b = h_mul h a b"
  unfolding gf_w32_shift_multiply_def assms(2)
  using full_poly_bit [OF assms(1)] assms(2) by (intro shift_multiply_mul) auto

lemma w32_init_technique:
  assumes "mult_type h \<noteq> GF_MULT_COMPOSITE" "region_type h AND GF_REGION_ALTMAP = 0" "h_w h = 32"
    "h' = set_prim_poly ((if prim_poly h = 0 then 0x400007 else prim_poly h) AND 0xffffffff) h"
    "wf_field h'" "h_primitive h'" "gf_w32_technique h' = Inr ((mul, None, Some (gf_w32_euclid h' mul)), region)" "mul_ok h' mul"
  shows "\<exists>F. gf_w32_init h = Inr F \<and> gf_correct F \<and> scratch F = h' \<and>
    (region_type h \<noteq> GF_REGION_CAUCHY \<longrightarrow> multiply_region F = Some region \<and> extract_word F = Some W32_extract)"
proof -
  have w: "h_w h' = 32" using assms(3,4) by simp
  have sel: "divide_type h' = divide_type h" "region_type h' = region_type h" using assms(4) by simp_all
  note i = w32_euclid_ok [OF assms(5) w assms(6,8)]
  note d = divide_from_inverse_ok [OF _ assms(8) i]
  note x = matrix_ok [OF assms(6)]
  note dx = divide_from_inverse_ok [OF _ assms(8) x]
  show ?thesis
    unfolding gf_w32_init_def Let_def assms(4) [symmetric] assms(7)
    using i d x dx w sel assms(1,2,6,8) by (cases "divide_type h") (simp_all add: gf_correct_def)
qed

lemma w32_init_ok:
  assumes "mult_type h = GF_MULT_DEFAULT" "region_type h AND GF_REGION_ALTMAP = 0" "h_w h = 32"
    "h' = set_prim_poly ((if prim_poly h = 0 then 0x400007 else prim_poly h) AND 0xffffffff) h"
    "wf_field h'" "h_primitive h'"
  shows "\<exists>F. gf_w32_init h = Inr F \<and> gf_correct F \<and> scratch F = h' \<and>
    (region_type h \<noteq> GF_REGION_CAUCHY \<longrightarrow>
       multiply_region F = Some W32_split_8_32_lazy_region \<and> extract_word F = Some W32_extract)"
proof -
  have w: "h_w h' = 32" "mult_type h' = GF_MULT_DEFAULT" using assms(1,3,4) by simp_all
  have "gf_w32_technique h' =
      Inr ((gf_w32_bytwo_p_multiply h', None, Some (gf_w32_euclid h' (gf_w32_bytwo_p_multiply h'))), W32_split_8_32_lazy_region)"
    using w by (simp add: gf_w32_technique_def gf_w32_split_init_def)
  from w32_init_technique [OF _ assms(2-6) this] show ?thesis
    using w32_bytwo_p_eq_mul [OF assms(5) w(1)] assms(1) by (simp add: mul_ok_def)
qed

end
