(* ===== verification/Gf_Core.thy ===== *)
theory Gf_Core
  imports Gf_Correct
begin

text \<open>
  gf.c: the check of the arguments of an initialisation, the default polynomials of
  composite fields, the sizes of the scratch areas, and \<open>gf_init_hard\<close> and
  \<open>gf_init_easy\<close>, which select the initialisation of the field.  A machine without vector
  instructions is assumed where a field is initialised.
\<close>

section \<open>The check of the arguments\<close>

record cpu =
  cpu_sse2 :: bool
  cpu_sse3 :: bool
  cpu_pclmul :: bool

definition no_simd :: cpu where
  "no_simd = \<lparr>cpu_sse2 = False, cpu_sse3 = False, cpu_pclmul = False\<rparr>"

text \<open>
  The default polynomial of a composite field over the given base; 0 if there is none.
  None is the dereference of a NULL pointer.
\<close>

fun gf_composite_get_default_poly :: "gf_internal \<Rightarrow> u64 option" where
  "gf_composite_get_default_poly (Gf_internal mt rt dt w pp a1 a2 b) =
    (if w = 4 then
       Some (if mt = GF_MULT_COMPOSITE then 0 else if pp = 0x13 then 2 else 0)
     else if w = 8 then
       Some (if mt = GF_MULT_COMPOSITE then 0 else if pp = 0x11d then 3 else 0)
     else if w = 16 then
       (if mt = GF_MULT_COMPOSITE then
          (case b of None \<Rightarrow> None | Some base \<Rightarrow>
             (case gf_composite_get_default_poly base of None \<Rightarrow> None | Some rv \<Rightarrow>
                Some (if rv \<noteq> pp then 0 else if rv = 3 then 0x105 else 0)))
        else Some (if pp = 0x1100b then 2 else if pp = 0x1002d then 7 else 0))
     else if w = 32 then
       (if mt = GF_MULT_COMPOSITE then
          (case b of None \<Rightarrow> None | Some base \<Rightarrow>
             (case gf_composite_get_default_poly base of None \<Rightarrow> None | Some rv \<Rightarrow>
                Some (if rv \<noteq> pp then 0 else if rv = 2 then 0x10005 else if rv = 7 then 0x10008
                      else if rv = 0x105 then 0x10002 else 0)))
        else Some (if pp = 0x400007 then 2 else if pp = 0xc5 then 3 else 0))
     else if w = 64 then
       (if mt = GF_MULT_COMPOSITE then
          (case b of None \<Rightarrow> None | Some base \<Rightarrow>
             (case gf_composite_get_default_poly base of None \<Rightarrow> None | Some rv \<Rightarrow>
                Some (if rv \<noteq> pp then 0 else if rv = 3 then 0x100000009 else if rv = 2 then 0x100000004
                      else if rv = 0x10005 then 0x100000003 else if rv = 0x10002 then 0x100000005
                      else if rv = 0x10008 then 0x100000006 else 0)))
        else Some (if pp = 0x1b then 2 else 0))
     else Some 0)"

type_synonym gf_check = "gf_error + unit"

abbreviation refuse :: "gf_error \<Rightarrow> gf_check" where
  "refuse e \<equiv> Inl e"

abbreviation accept :: gf_check where
  "accept \<equiv> Inr ()"

text \<open>The checks of each technique, in the order of the source.\<close>

definition check_carry_free :: "cpu \<Rightarrow> int \<Rightarrow> u64 \<Rightarrow> bool \<Rightarrow> bool \<Rightarrow> bool \<Rightarrow> gf_check" where
  "check_carry_free cpu w poly rsimd rnosimd raltmap =
    (if w \<notin> {4, 8, 16, 32, 64, 128} then refuse ''GF_E_CFM___W''
     else if w = 4 \<and> poly AND 0xc \<noteq> 0 then refuse ''GF_E_CFM4POL''
     else if w = 8 \<and> poly AND 0x80 \<noteq> 0 then refuse ''GF_E_CFM8POL''
     else if w = 16 \<and> poly AND 0xe000 \<noteq> 0 then refuse ''GF_E_CF16POL''
     else if w = 32 \<and> poly AND 0xfe000000 \<noteq> 0 then refuse ''GF_E_CF32POL''
     else if w = 64 \<and> poly AND 0xfffe000000000000 \<noteq> 0 then refuse ''GF_E_CF64POL''
     else if raltmap then refuse ''GF_E_ALT_CFM''
     else if rsimd \<or> rnosimd then refuse ''GF_E_SSE_CFM''
     else if \<not> cpu_pclmul cpu then refuse ''GF_E_PCLMULX''
     else accept)"

definition check_carry_free_gk :: "cpu \<Rightarrow> int \<Rightarrow> bool \<Rightarrow> bool \<Rightarrow> bool \<Rightarrow> gf_check" where
  "check_carry_free_gk cpu w rsimd rnosimd raltmap =
    (if w \<notin> {4, 8, 16, 32, 64, 128} then refuse ''GF_E_CFM___W''
     else if raltmap then refuse ''GF_E_ALT_CFM''
     else if rsimd \<or> rnosimd then refuse ''GF_E_SSE_CFM''
     else if \<not> cpu_pclmul cpu then refuse ''GF_E_PCLMULX''
     else accept)"

definition check_log :: "int \<Rightarrow> gf_mult_type \<Rightarrow> bool \<Rightarrow> bool \<Rightarrow> bool \<Rightarrow> gf_check" where
  "check_log w mt rsimd rnosimd raltmap =
    (if w > 27 then refuse ''GF_E_LOGBADW''
     else if raltmap \<or> rsimd \<or> rnosimd then refuse ''GF_E_LOG___J''
     else if mt = GF_MULT_LOG_TABLE then accept
     else if w \<noteq> 8 \<and> w \<noteq> 16 then refuse ''GF_E_ZERBADW''
     else if mt = GF_MULT_LOG_ZERO then accept
     else if w \<noteq> 8 then refuse ''GF_E_ZEXBADW''
     else accept)"

definition check_group :: "int \<Rightarrow> int \<Rightarrow> int \<Rightarrow> bool \<Rightarrow> bool \<Rightarrow> bool \<Rightarrow> gf_check" where
  "check_group w a1 a2 rsimd rnosimd raltmap =
    (if a1 \<le> 0 \<or> a2 \<le> 0 then refuse ''GF_E_GR_ARGX''
     else if w = 4 \<or> w = 8 then refuse ''GF_E_GR_W_48''
     else if w = 16 \<and> (a1 \<noteq> 4 \<or> a2 \<noteq> 4) then refuse ''GF_E_GR_W_16''
     else if w = 128 \<and> (a1 \<noteq> 4 \<or> (a2 \<noteq> 4 \<and> a2 \<noteq> 8 \<and> a2 \<noteq> 16)) then refuse ''GF_E_GR_128A''
     else if a1 > 27 \<or> a2 > 27 then refuse ''GF_E_GR_A_27''
     else if a1 > w \<or> a2 > w then refuse ''GF_E_GR_AR_W''
     else if raltmap \<or> rsimd \<or> rnosimd then refuse ''GF_E_GR____J''
     else accept)"

definition check_table :: "cpu \<Rightarrow> int \<Rightarrow> bool \<Rightarrow> bool \<Rightarrow> bool \<Rightarrow> gf_check" where
  "check_table cpu w rsimd rnosimd raltmap =
    (if w \<noteq> 16 \<and> w \<ge> 15 then refuse ''GF_E_TABLE_W''
     else if w \<noteq> 4 \<and> (rsimd \<or> rnosimd) then refuse ''GF_E_TAB_SSE''
     else if rsimd \<and> \<not> cpu_sse3 cpu then refuse ''GF_E_TABSSE3''
     else if raltmap then refuse ''GF_E_TAB_ALT''
     else accept)"

text \<open>The cases of w = 32, 64 and 128 of a split table differ in their error codes only.\<close>

definition check_split_wide ::
  "cpu \<Rightarrow> int \<Rightarrow> bool \<Rightarrow> bool \<Rightarrow> gf_error \<Rightarrow> int \<Rightarrow> int \<Rightarrow> bool \<Rightarrow> bool \<Rightarrow> bool \<Rightarrow>
   gf_error \<Rightarrow> gf_error \<Rightarrow> gf_error \<Rightarrow> gf_check" where
  "check_split_wide cpu w eight_eight sixteen bad_args a1 a2 rsimd rnosimd raltmap e_s e_a e_as =
    (if (eight_eight \<and> a1 = 8 \<and> a2 = 8) \<or> (a1 = 8 \<and> a2 = w) \<or> (sixteen \<and> a1 = 16 \<and> a2 = w) then
       (if rsimd \<or> rnosimd then refuse e_s else if raltmap then refuse e_a else accept)
     else if a1 = 4 \<and> a2 = w then
       (if rsimd \<and> \<not> cpu_sse3 cpu then refuse ''GF_E_SP_SSE3''
        else if raltmap \<and> \<not> cpu_sse3 cpu then refuse e_as
        else if raltmap \<and> rnosimd then refuse e_as
        else accept)
     else refuse bad_args)"

definition check_split :: "cpu \<Rightarrow> int \<Rightarrow> int \<Rightarrow> int \<Rightarrow> bool \<Rightarrow> bool \<Rightarrow> bool \<Rightarrow> gf_check" where
  "check_split cpu w arg1' arg2' rsimd rnosimd raltmap =
    (let a1 = min arg1' arg2'; a2 = max arg1' arg2' in
     if w = 8 then
       (if a1 \<noteq> 4 \<or> a2 \<noteq> 8 then refuse ''GF_E_SP_8_AR''
        else if rsimd \<and> \<not> cpu_sse3 cpu then refuse ''GF_E_SP_SSE3''
        else if raltmap then refuse ''GF_E_SP_8__A''
        else accept)
     else if w = 16 then
       (if (a1 = 8 \<and> a2 = 8) \<or> (a1 = 8 \<and> a2 = 16) then
          (if rsimd \<or> rnosimd then refuse ''GF_E_SP_16_S''
           else if raltmap then refuse ''GF_E_SP_16_A'' else accept)
        else if a1 = 4 \<and> a2 = 16 then
          (if rsimd \<and> \<not> cpu_sse3 cpu then refuse ''GF_E_SP_SSE3'' else accept)
        else refuse ''GF_E_SP_16AR'')
     else if w = 32 then
       check_split_wide cpu 32 True True ''GF_E_SP_32AR'' a1 a2 rsimd rnosimd raltmap
         ''GF_E_SP_32_S'' ''GF_E_SP_32_A'' ''GF_E_SP_32AS''
     else if w = 64 then
       check_split_wide cpu 64 True True ''GF_E_SP_64AR'' a1 a2 rsimd rnosimd raltmap
         ''GF_E_SP_64_S'' ''GF_E_SP_64_A'' ''GF_E_SP_64AS''
     else if w = 128 then
       check_split_wide cpu 128 False False ''GF_E_SP128AR'' a1 a2 rsimd rnosimd raltmap
         ''GF_E_SP128_S'' ''GF_E_SP128_A'' ''GF_E_SP128AS''
     else refuse ''GF_E_SPLIT_W'')"

definition check_composite ::
  "int \<Rightarrow> gf_division_type \<Rightarrow> int \<Rightarrow> u64 \<Rightarrow> bool \<Rightarrow> bool \<Rightarrow> gf_internal option \<Rightarrow> gf_check" where
  "check_composite w dt a1 poly rsimd rnosimd base =
    (if w \<notin> {8, 16, 32, 64, 128} then refuse ''GF_E_COMP__W''
     else if w < 128 \<and> drop_bit (nat (w div 2)) poly \<noteq> 0 then refuse ''GF_E_COMP_PP''
     else if dt \<noteq> GF_DIVIDE_DEFAULT then refuse ''GF_E_DIVCOMP''
     else if a1 \<noteq> 2 then refuse ''GF_E_COMP_A2''
     else if rsimd \<or> rnosimd then refuse ''GF_E_COMP_SS''
     else (case base of
             None \<Rightarrow> accept
           | Some sub \<Rightarrow>
               if int (h_w sub) \<noteq> w div 2 then refuse ''GF_E_BASE__W''
               else if poly = 0
                 then (case gf_composite_get_default_poly sub of
                         None \<Rightarrow> refuse ''SIGSEGV''
                       | Some p \<Rightarrow> if p = 0 then refuse ''GF_E_COMPXPP'' else accept)
               else accept))"

definition gf_error_check ::
  "cpu \<Rightarrow> int \<Rightarrow> gf_mult_type \<Rightarrow> u32 \<Rightarrow> gf_division_type \<Rightarrow> int \<Rightarrow> int \<Rightarrow> u64 \<Rightarrow> gf_internal option \<Rightarrow> gf_check" where
  "gf_error_check cpu w mt rt dt a1 a2 poly base =
    (let rdouble = rt AND GF_REGION_DOUBLE_TABLE \<noteq> 0;
         rquad = rt AND GF_REGION_QUAD_TABLE \<noteq> 0;
         rlazy = rt AND GF_REGION_LAZY \<noteq> 0;
         rsimd = rt AND GF_REGION_SIMD \<noteq> 0;
         rnosimd = rt AND GF_REGION_NOSIMD \<noteq> 0;
         raltmap = rt AND GF_REGION_ALTMAP \<noteq> 0;
         rcauchy = rt AND GF_REGION_CAUCHY \<noteq> 0;
         all_regions = GF_REGION_DOUBLE_TABLE OR GF_REGION_QUAD_TABLE OR GF_REGION_LAZY OR
           GF_REGION_SIMD OR GF_REGION_NOSIMD OR GF_REGION_ALTMAP OR GF_REGION_CAUCHY
     in
     if dt \<noteq> GF_DIVIDE_DEFAULT \<and> dt \<noteq> GF_DIVIDE_MATRIX \<and> dt \<noteq> GF_DIVIDE_EUCLID then refuse ''GF_E_UNK_DIV''
     else if rt AND NOT all_regions \<noteq> 0 then refuse ''GF_E_UNK_REG''
     else if w < 1 \<or> (w > 32 \<and> w \<noteq> 64 \<and> w \<noteq> 128) then refuse ''GF_E_BAD___W''
     else if mt \<noteq> GF_MULT_COMPOSITE \<and> w < 64 \<and> drop_bit (nat (w + 1)) poly \<noteq> 0 then refuse ''GF_E_BADPOLY''
     else if mt = GF_MULT_DEFAULT then
       (if dt \<noteq> GF_DIVIDE_DEFAULT then refuse ''GF_E_MDEFDIV''
        else if rt \<noteq> GF_REGION_DEFAULT then refuse ''GF_E_MDEFREG''
        else if a1 \<noteq> 0 \<or> a2 \<noteq> 0 then refuse ''GF_E_MDEFARG''
        else accept)
     else if rsimd \<and> rnosimd then refuse ''GF_E_SIMD_NO''
     else if rcauchy \<and> w > 32 then refuse ''GF_E_CAUGT32''
     else if rcauchy \<and> rt \<noteq> GF_REGION_CAUCHY then refuse ''GF_E_CAUCHYB''
     else if rcauchy \<and> mt = GF_MULT_COMPOSITE then refuse ''GF_E_CAUCOMP''
     else if a1 \<noteq> 0 \<and> mt \<noteq> GF_MULT_COMPOSITE \<and> mt \<noteq> GF_MULT_SPLIT_TABLE \<and> mt \<noteq> GF_MULT_GROUP
       then refuse ''GF_E_ARG1SET''
     else if a2 \<noteq> 0 \<and> mt \<noteq> GF_MULT_SPLIT_TABLE \<and> mt \<noteq> GF_MULT_GROUP then refuse ''GF_E_ARG2SET''
     else if dt = GF_DIVIDE_MATRIX \<and> w > 32 then refuse ''GF_E_MATRIXW''
     else if rdouble then
       (if rquad then refuse ''GF_E_DOUQUAD''
        else if mt \<noteq> GF_MULT_TABLE then refuse ''GF_E_DOUBLET''
        else if w \<noteq> 4 \<and> w \<noteq> 8 then refuse ''GF_E_DOUBLEW''
        else if rsimd \<or> rnosimd \<or> raltmap then refuse ''GF_E_DOUBLEJ''
        else if rlazy \<and> w = 4 then refuse ''GF_E_DOUBLEL''
        else accept)
     else if rquad then
       (if mt \<noteq> GF_MULT_TABLE then refuse ''GF_E_QUAD__T''
        else if w \<noteq> 4 then refuse ''GF_E_QUAD__W''
        else if rsimd \<or> rnosimd \<or> raltmap then refuse ''GF_E_QUAD__J''
        else accept)
     else if rlazy then refuse ''GF_E_LAZY__X''
     else (case mt of
         GF_MULT_SHIFT \<Rightarrow>
           (if raltmap then refuse ''GF_E_ALTSHIF''
            else if rsimd \<or> rnosimd then refuse ''GF_E_SSESHIF'' else accept)
       | GF_MULT_CARRY_FREE \<Rightarrow> check_carry_free cpu w poly rsimd rnosimd raltmap
       | GF_MULT_CARRY_FREE_GK \<Rightarrow> check_carry_free_gk cpu w rsimd rnosimd raltmap
       | GF_MULT_BYTWO_p \<Rightarrow>
           (if raltmap then refuse ''GF_E_ALT_BY2''
            else if rsimd \<and> \<not> cpu_sse2 cpu then refuse ''GF_E_BY2_SSE'' else accept)
       | GF_MULT_BYTWO_b \<Rightarrow>
           (if raltmap then refuse ''GF_E_ALT_BY2''
            else if rsimd \<and> \<not> cpu_sse2 cpu then refuse ''GF_E_BY2_SSE'' else accept)
       | GF_MULT_LOG_TABLE \<Rightarrow> check_log w mt rsimd rnosimd raltmap
       | GF_MULT_LOG_ZERO \<Rightarrow> check_log w mt rsimd rnosimd raltmap
       | GF_MULT_LOG_ZERO_EXT \<Rightarrow> check_log w mt rsimd rnosimd raltmap
       | GF_MULT_GROUP \<Rightarrow> check_group w a1 a2 rsimd rnosimd raltmap
       | GF_MULT_TABLE \<Rightarrow> check_table cpu w rsimd rnosimd raltmap
       | GF_MULT_SPLIT_TABLE \<Rightarrow> check_split cpu w a1 a2 rsimd rnosimd raltmap
       | GF_MULT_COMPOSITE \<Rightarrow> check_composite w dt a1 poly rsimd rnosimd base
       | _ \<Rightarrow> refuse ''GF_E_UNKNOWN''))"

section \<open>Scratch sizes\<close>

text \<open>The structures of gf_w8.h, gf_w16.h and gf_w32.h, in bytes on an LP64 machine.\<close>

definition gf_w8_scratch_size :: "gf_mult_type \<Rightarrow> u32 \<Rightarrow> int \<Rightarrow> int \<Rightarrow> nat" where
  "gf_w8_scratch_size mt rt a1 a2 =
    (case mt of
       GF_MULT_DEFAULT \<Rightarrow> sizeof_gf_internal + 131072 + 64
     | GF_MULT_TABLE \<Rightarrow>
         (if rt = GF_REGION_CAUCHY \<or> rt = GF_REGION_DEFAULT then sizeof_gf_internal + 131072 + 64
          else if rt AND GF_REGION_DOUBLE_TABLE \<noteq> 0 then
            (if rt = GF_REGION_DOUBLE_TABLE then sizeof_gf_internal + 33619968 + 64
             else if rt = (GF_REGION_DOUBLE_TABLE OR GF_REGION_LAZY)
             then sizeof_gf_internal + 262144 + 64
             else 0)
          else 0)
     | GF_MULT_BYTWO_p \<Rightarrow> sizeof_gf_internal + 24
     | GF_MULT_BYTWO_b \<Rightarrow> sizeof_gf_internal + 24
     | GF_MULT_SPLIT_TABLE \<Rightarrow>
         (if (a1 = 4 \<and> a2 = 8) \<or> (a1 = 8 \<and> a2 = 4) then sizeof_gf_internal + 8192 + 64 else 0)
     | GF_MULT_LOG_TABLE \<Rightarrow> sizeof_gf_internal + 1024 + 64
     | GF_MULT_LOG_ZERO \<Rightarrow> sizeof_gf_internal + 1544 + 64
     | GF_MULT_LOG_ZERO_EXT \<Rightarrow> sizeof_gf_internal + 1560 + 64
     | GF_MULT_CARRY_FREE \<Rightarrow> sizeof_gf_internal
     | GF_MULT_SHIFT \<Rightarrow> sizeof_gf_internal
     | GF_MULT_COMPOSITE \<Rightarrow> sizeof_gf_internal + 8 + 64
     | _ \<Rightarrow> 0)"

definition gf_w16_scratch_size :: "gf_mult_type \<Rightarrow> int \<Rightarrow> int \<Rightarrow> nat" where
  "gf_w16_scratch_size mt a1 a2 =
    (let split = (if a1 = 8 \<and> a2 = 8 then sizeof_gf_internal + 393216 + 64
                  else if (a1 = 8 \<and> a2 = 16) \<or> (a2 = 8 \<and> a1 = 16) then sizeof_gf_internal + 524296 + 64
                  else if mt = GF_MULT_DEFAULT \<or> (a1 = 4 \<and> a2 = 16) \<or> (a2 = 4 \<and> a1 = 16)
                  then sizeof_gf_internal + 524296 + 64
                  else 0)
     in case mt of
          GF_MULT_TABLE \<Rightarrow> sizeof_gf_internal + 655368 + 64
        | GF_MULT_BYTWO_p \<Rightarrow> sizeof_gf_internal + 24
        | GF_MULT_BYTWO_b \<Rightarrow> sizeof_gf_internal + 24
        | GF_MULT_LOG_ZERO \<Rightarrow> sizeof_gf_internal + 917512 + 64
        | GF_MULT_LOG_TABLE \<Rightarrow> sizeof_gf_internal + 524296 + 64
        | GF_MULT_DEFAULT \<Rightarrow> split
        | GF_MULT_SPLIT_TABLE \<Rightarrow> split
        | GF_MULT_GROUP \<Rightarrow> sizeof_gf_internal + 64 + 64
        | GF_MULT_CARRY_FREE \<Rightarrow> sizeof_gf_internal
        | GF_MULT_SHIFT \<Rightarrow> sizeof_gf_internal
        | GF_MULT_COMPOSITE \<Rightarrow> sizeof_gf_internal + 8 + 64
        | _ \<Rightarrow> 0)"

definition gf_w32_scratch_size :: "gf_mult_type \<Rightarrow> int \<Rightarrow> int \<Rightarrow> nat" where
  "gf_w32_scratch_size mt a1 a2 =
    (let split = (if a1 = 8 \<and> a2 = 8 then sizeof_gf_internal + 1839108 + 64
                  else if (a1 = 16 \<and> a2 = 32) \<or> (a2 = 16 \<and> a1 = 32) then sizeof_gf_internal + 524292 + 64
                  else if (a1 = 2 \<and> a2 = 32) \<or> (a2 = 2 \<and> a1 = 32) then sizeof_gf_internal + 260 + 64
                  else if (a1 = 8 \<and> a2 = 32) \<or> (a2 = 8 \<and> a1 = 32) \<or> mt = GF_MULT_DEFAULT
                  then sizeof_gf_internal + 4100 + 64
                  else if (a1 = 4 \<and> a2 = 32) \<or> (a2 = 4 \<and> a1 = 32) then sizeof_gf_internal + 516 + 64
                  else 0)
     in case mt of
          GF_MULT_BYTWO_p \<Rightarrow> sizeof_gf_internal + 24 + 64
        | GF_MULT_BYTWO_b \<Rightarrow> sizeof_gf_internal + 24 + 64
        | GF_MULT_GROUP \<Rightarrow> sizeof_gf_internal + 40 + 4 * 2 ^ nat a1 + 4 * 2 ^ nat a2 + 64
        | GF_MULT_DEFAULT \<Rightarrow> split
        | GF_MULT_SPLIT_TABLE \<Rightarrow> split
        | GF_MULT_CARRY_FREE \<Rightarrow> sizeof_gf_internal
        | GF_MULT_CARRY_FREE_GK \<Rightarrow> sizeof_gf_internal + 8 * 2
        | GF_MULT_SHIFT \<Rightarrow> sizeof_gf_internal
        | GF_MULT_COMPOSITE \<Rightarrow> sizeof_gf_internal + 16 + 64
        | _ \<Rightarrow> 0)"

text \<open>None for the fields of 4, 64 and 128 bits, which are not translated.\<close>

definition gf_scratch_size ::
  "int \<Rightarrow> gf_mult_type \<Rightarrow> u32 \<Rightarrow> gf_division_type \<Rightarrow> int \<Rightarrow> int \<Rightarrow> nat option" where
  "gf_scratch_size w mt rt dt a1 a2 =
    (if isl (gf_error_check no_simd w mt rt dt a1 a2 0 None) then Some 0
     else if w = 4 \<or> w = 64 \<or> w = 128 then None
     else if w = 8 then Some (gf_w8_scratch_size mt rt a1 a2)
     else if w = 16 then Some (gf_w16_scratch_size mt a1 a2)
     else if w = 32 then Some (gf_w32_scratch_size mt a1 a2)
     else Some (gf_wgen_scratch_size (nat w) mt a1 a2))"

section \<open>Initialisation\<close>

definition gf_init_hard ::
  "int \<Rightarrow> gf_mult_type \<Rightarrow> u32 \<Rightarrow> gf_division_type \<Rightarrow> u64 \<Rightarrow> int \<Rightarrow> int \<Rightarrow> gf_internal option \<Rightarrow> gf_fail + gf_t" where
  "gf_init_hard w mt rt dt pp a1 a2 base =
    (case gf_error_check no_simd w mt rt dt a1 a2 pp base of
       Inl e \<Rightarrow> Inl (Gf_errno e)
     | Inr _ \<Rightarrow>
         (case gf_scratch_size w mt rt dt a1 a2 of
            None \<Rightarrow> Inl Gf_unmodelled
          | Some sz \<Rightarrow>
              if sz = 0 then Inl Gf_zero
              else (let h = Gf_internal mt rt dt (nat w) pp a1 a2 base
                    in if w = 8 then gf_w8_init h
                       else if w = 16 then gf_w16_init h
                       else if w = 32 then gf_w32_init h
                       else gf_wgen_init h)))"

definition gf_init_easy :: "int \<Rightarrow> gf_fail + gf_t" where
  "gf_init_easy w = gf_init_hard w GF_MULT_DEFAULT GF_REGION_DEFAULT GF_DIVIDE_DEFAULT 0 0 0 None"

section \<open>The default fields are correct\<close>

lemma check_default: "1 \<le> w \<Longrightarrow> w \<le> 32 \<Longrightarrow>
    gf_error_check cpu w GF_MULT_DEFAULT GF_REGION_DEFAULT GF_DIVIDE_DEFAULT 0 0 0 base = accept"
  by (simp add: gf_error_check_def GF_REGION_DEFAULT_def)

text \<open>The scratch area of a default field, after the polynomial has been set.\<close>

definition default_field :: "nat \<Rightarrow> u64 \<Rightarrow> gf_internal" where
  "default_field w p = Gf_internal GF_MULT_DEFAULT GF_REGION_DEFAULT GF_DIVIDE_DEFAULT w p 0 0 None"

lemma default_field_sel [simp]:
  "h_w (default_field w p) = w" "prim_poly (default_field w p) = p"
  "mult_type (default_field w p) = GF_MULT_DEFAULT" "divide_type (default_field w p) = GF_DIVIDE_DEFAULT"
  "region_type (default_field w p) = GF_REGION_DEFAULT" "set_prim_poly q (default_field w p) = default_field w q"
  by (simp_all add: default_field_def)

lemma wf_default_8: "wf_field (default_field 8 0x11d)"
  by (simp add: wf_field_def)

lemma wf_default_16: "wf_field (default_field 16 0x1100b)"
  by (simp add: wf_field_def)

lemma wf_default_32: "wf_field (default_field 32 0x400007)"
  by (simp add: wf_field_def)

lemma init_easy_8: "\<exists>F. gf_init_easy 8 = Inr F \<and> gf_correct F \<and> scratch F = default_field 8 0x11d \<and>
    multiply_region F = Some (W8_table_region (fst (gf_w8_table_fill (default_field 8 0x11d)))) \<and> extract_word F = Some W8_extract"
proof -
  have "gf_init_easy 8 = gf_w8_init (default_field 8 0)"
    by (simp add: gf_init_easy_def gf_init_hard_def check_default gf_scratch_size_def
        gf_w8_scratch_size_def sizeof_defs default_field_def)
  moreover have "h_primitive (default_field 8 0x11d)" using gf_primitive_8 by (simp add: h_primitive_def)
  moreover have "(0x11d OR 0x100 :: u64) = 0x11d" by simp
  ultimately show ?thesis
    using w8_init_ok [of "default_field 8 0" "default_field 8 0x11d"] wf_default_8 by (simp add: gf_region_defs)
qed

lemma init_easy_16: "\<exists>F. gf_init_easy 16 = Inr F \<and> gf_correct F \<and> scratch F = default_field 16 0x1100b \<and>
    multiply_region F = Some W16_split_8_16_lazy_region \<and> extract_word F = Some W16_extract"
proof -
  have "gf_init_easy 16 = gf_w16_init (default_field 16 0)"
    by (simp add: gf_init_easy_def gf_init_hard_def check_default gf_scratch_size_def
        gf_w16_scratch_size_def sizeof_defs default_field_def)
  moreover have "h_primitive (default_field 16 0x1100b)" using gf_primitive_16 by (simp add: h_primitive_def)
  moreover have "(0x1100b OR push_bit 16 1 :: u64) = 0x1100b" by (simp add: push_bit_of_1)
  ultimately show ?thesis
    using w16_init_ok [of "default_field 16 0" "default_field 16 0x1100b"] wf_default_16 by (simp add: gf_region_defs)
qed

lemma init_easy_32: "\<exists>F. gf_init_easy 32 = Inr F \<and> gf_correct F \<and> scratch F = default_field 32 0x400007 \<and>
    multiply_region F = Some W32_split_8_32_lazy_region \<and> extract_word F = Some W32_extract"
proof -
  have "gf_init_easy 32 = gf_w32_init (default_field 32 0)"
    by (simp add: gf_init_easy_def gf_init_hard_def check_default gf_scratch_size_def
        gf_w32_scratch_size_def sizeof_defs default_field_def)
  moreover have "h_primitive (default_field 32 0x400007)" using gf_primitive_32 by (simp add: h_primitive_def)
  moreover have "(0x400007 AND 0xffffffff :: u64) = 0x400007" by simp
  ultimately show ?thesis
    using w32_init_ok [of "default_field 32 0" "default_field 32 0x400007"] wf_default_32 by (simp add: gf_region_defs)
qed

end
