(* ===== verification/Gf_LinAlg.thy ===== *)
theory Gf_LinAlg
  imports Gf_Field
begin

text \<open>
  Linear algebra over the interface \<open>gf_arith\<close>, for the inversion routines of Jerasure:
  a square matrix is a function of two indices below n.  The invariant \<open>gauss_inv\<close> relates
  the matrix under elimination and the collected row operations to the original matrix.
\<close>

type_synonym mat = "nat \<Rightarrow> nat \<Rightarrow> u32"

definition elem_mat :: "(u32 \<Rightarrow> bool) \<Rightarrow> nat \<Rightarrow> mat \<Rightarrow> bool" where
  "elem_mat elem n A \<longleftrightarrow> (\<forall>r<n. \<forall>c<n. elem (A r c))"

definition mat_prod :: "(u32 \<Rightarrow> u32 \<Rightarrow> u32) \<Rightarrow> nat \<Rightarrow> mat \<Rightarrow> mat \<Rightarrow> mat" where
  "mat_prod mult n A B r c = xsum n (\<lambda>k. mult (A r k) (B k c))"

definition mat_vec :: "(u32 \<Rightarrow> u32 \<Rightarrow> u32) \<Rightarrow> nat \<Rightarrow> mat \<Rightarrow> (nat \<Rightarrow> u32) \<Rightarrow> nat \<Rightarrow> u32" where
  "mat_vec mult n A x r = xsum n (\<lambda>k. mult (A r k) (x k))"

text \<open>Only the zero vector is mapped to zero.\<close>

definition mat_regular :: "(u32 \<Rightarrow> bool) \<Rightarrow> (u32 \<Rightarrow> u32 \<Rightarrow> u32) \<Rightarrow> nat \<Rightarrow> mat \<Rightarrow> bool" where
  "mat_regular elem mult n A \<longleftrightarrow>
     (\<forall>x. (\<forall>c. elem (x c)) \<and> (\<forall>r<n. mat_vec mult n A x r = 0) \<longrightarrow> (\<forall>c<n. x c = 0))"

definition is_identity :: "nat \<Rightarrow> mat \<Rightarrow> bool" where
  "is_identity n A \<longleftrightarrow> (\<forall>r<n. \<forall>c<n. A r c = (if r = c then 1 else 0))"

definition upper_tri :: "nat \<Rightarrow> nat \<Rightarrow> mat \<Rightarrow> bool" where
  "upper_tri n i M \<longleftrightarrow> (\<forall>r<n. \<forall>c<i. c < r \<longrightarrow> M r c = 0) \<and> (\<forall>r<i. M r r = 1)"

definition back_tri :: "nat \<Rightarrow> nat \<Rightarrow> mat \<Rightarrow> bool" where
  "back_tri n i M \<longleftrightarrow> upper_tri n n M \<and> (\<forall>r<n. \<forall>c<n. i \<le> c \<longrightarrow> r < c \<longrightarrow> M r c = 0)"

definition gauss_invariant ::
  "(u32 \<Rightarrow> bool) \<Rightarrow> (u32 \<Rightarrow> u32 \<Rightarrow> u32) \<Rightarrow> nat \<Rightarrow> mat \<Rightarrow> mat \<Rightarrow> mat \<Rightarrow> bool" where
  "gauss_invariant elem mult n A M V \<longleftrightarrow> elem_mat elem n M \<and> elem_mat elem n V \<and>
     (\<forall>r<n. \<forall>c<n. mat_prod mult n V A r c = M r c) \<and>
     (\<forall>x. (\<forall>c. elem (x c)) \<and> (\<forall>r<n. mat_vec mult n M x r = 0) \<longrightarrow>
        (\<forall>r<n. mat_vec mult n A x r = 0))"

lemma upper_tri_cong:
  "upper_tri n i M \<Longrightarrow> i \<le> n \<Longrightarrow> (\<And>r c. r < n \<Longrightarrow> c < n \<Longrightarrow> M' r c = M r c) \<Longrightarrow> upper_tri n i M'"
  by (auto simp: upper_tri_def)

lemma back_tri_cong:
  "back_tri n i M \<Longrightarrow> (\<And>r c. r < n \<Longrightarrow> c < n \<Longrightarrow> M' r c = M r c) \<Longrightarrow> back_tri n i M'"
  using upper_tri_cong [of n n M M'] by (auto simp: back_tri_def)

lemma back_tri_0: "back_tri n 0 M \<Longrightarrow> is_identity n M"
  unfolding back_tri_def upper_tri_def is_identity_def by (metis linorder_neqE_nat zero_le)

lemma back_tri_row:
  assumes "back_tri n (Suc i) M" "i < n" "c < n"
  shows "M i c = (if c = i then 1 else 0)"
  using assms unfolding back_tri_def upper_tri_def
  by (metis Suc_leI linorder_neqE_nat)

lemma back_tri_step: "back_tri n (Suc i) M \<Longrightarrow> \<forall>r<i. M r i = 0 \<Longrightarrow> back_tri n i M"
  unfolding back_tri_def by (metis Suc_leI le_neq_implies_less)

context gf_arith
begin

abbreviation "mprod \<equiv> mat_prod mult"
abbreviation "mvec \<equiv> mat_vec mult"
abbreviation "regular \<equiv> mat_regular elem mult"
abbreviation "gauss_inv \<equiv> gauss_invariant elem mult"
abbreviation "emat \<equiv> elem_mat elem"

lemma mprod_cong: "(\<And>k. k < n \<Longrightarrow> A r k = A' r k) \<Longrightarrow> mprod n A B r c = mprod n A' B r c"
  by (auto simp: mat_prod_def intro: xsum_cong)

lemma mvec_cong: "(\<And>k. k < n \<Longrightarrow> A r k = A' r k) \<Longrightarrow> mvec n A x r = mvec n A' x r"
  by (auto simp: mat_vec_def intro: xsum_cong)

lemma gauss_inv_cong:
  assumes "gauss_inv n A M V" "\<And>r c. r < n \<Longrightarrow> c < n \<Longrightarrow> M' r c = M r c"
    "\<And>r c. r < n \<Longrightarrow> c < n \<Longrightarrow> V' r c = V r c"
  shows "gauss_inv n A M' V'"
proof -
  have "mprod n V' A r c = mprod n V A r c" if "r < n" for r c
    using assms(3) that by (intro mprod_cong) auto
  moreover have "mvec n M' x r = mvec n M x r" if "r < n" for x r
    using assms(2) that by (intro mvec_cong) auto
  ultimately show ?thesis using assms by (auto simp: gauss_invariant_def elem_mat_def)
qed

lemma gauss_inv_init:
  assumes "emat n A" "\<And>r c. r < n \<Longrightarrow> c < n \<Longrightarrow> V r c = (if r = c then 1 else 0)"
  shows "gauss_inv n A A V"
proof -
  have "mprod n V A r c = A r c" if "r < n" "c < n" for r c
  proof -
    have "mult (V r k) (A k c) = (if k = r then A k c else 0)" if "k < n" for k
      using that \<open>r < n\<close> \<open>c < n\<close> assms by (auto simp: elem_mat_def mult_1 mult_0')
    then have "mprod n V A r c = xsum n (\<lambda>k. if k = r then A k c else 0)"
      unfolding mat_prod_def by (intro xsum_cong) auto
    then show ?thesis using \<open>r < n\<close> by (simp add: xsum_delta)
  qed
  then show ?thesis using assms by (auto simp: gauss_invariant_def elem_mat_def elem_0 elem_1)
qed

lemma gauss_inv_permute:
  assumes "gauss_inv n A M V" "\<And>r. r < n \<Longrightarrow> p r < n" "\<And>r. p (p r) = r"
  shows "gauss_inv n A (\<lambda>r. M (p r)) (\<lambda>r. V (p r))"
proof -
  have vec: "mvec n (\<lambda>r. M (p r)) x r = mvec n M x (p r)" for x r by (simp add: mat_vec_def)
  have prod: "mprod n (\<lambda>r. V (p r)) A r c = mprod n V A (p r) c" for r c by (simp add: mat_prod_def)
  have "\<forall>r<n. mvec n M x r = 0" if "\<forall>r<n. mvec n (\<lambda>r. M (p r)) x r = 0" for x
  proof (intro allI impI)
    fix r assume "r < n"
    then have "mvec n (\<lambda>r. M (p r)) x (p r) = 0" using that assms(2) by blast
    then show "mvec n M x r = 0" unfolding vec assms(3) .
  qed
  then show ?thesis using assms(1,2) by (auto simp: gauss_invariant_def elem_mat_def prod)
qed

lemma gauss_inv_swap:
  assumes "gauss_inv n A M V" "i < n" "j < n"
  shows "gauss_inv n A (\<lambda>r. M (if r = i then j else if r = j then i else r))
                       (\<lambda>r. V (if r = i then j else if r = j then i else r))"
  using assms(2,3) by (intro gauss_inv_permute [OF assms(1)]) auto

lemma gauss_inv_scale:
  assumes "gauss_inv n A M V" "emat n A" "i < n" "elem s" "s \<noteq> 0"
  shows "gauss_inv n A (\<lambda>r c. if r = i then mult (M r c) s else M r c)
                       (\<lambda>r c. if r = i then mult (V r c) s else V r c)"
proof -
  have el: "\<And>r c. r < n \<Longrightarrow> c < n \<Longrightarrow> elem (M r c) \<and> elem (V r c) \<and> elem (A r c)"
    and pr: "\<And>r c. r < n \<Longrightarrow> c < n \<Longrightarrow> mprod n V A r c = M r c"
    using assms(1,2) by (auto simp: gauss_invariant_def elem_mat_def)
  have scale: "xsum n (\<lambda>k. mult (mult (B k) s) (y k)) = mult (xsum n (\<lambda>k. mult (B k) (y k))) s"
    if "\<And>k. k < n \<Longrightarrow> elem (B k)" "\<And>k. k < n \<Longrightarrow> elem (y k)" for B y
  proof -
    have "mult (mult (B k) s) (y k) = mult (mult (B k) (y k)) s" if "k < n" for k
      using that \<open>\<And>k. k < n \<Longrightarrow> elem (B k)\<close> \<open>\<And>k. k < n \<Longrightarrow> elem (y k)\<close> assms(4)
      by (simp add: mult_assoc mult_comm [of s])
    then have "xsum n (\<lambda>k. mult (mult (B k) s) (y k)) = xsum n (\<lambda>k. mult (mult (B k) (y k)) s)"
      by (rule xsum_cong)
    also have "\<dots> = mult (xsum n (\<lambda>k. mult (B k) (y k))) s"
      using that assms(4) by (intro mult_xsum' [symmetric]) (auto simp: elem_mult)
    finally show ?thesis .
  qed
  have vec: "mvec n M x r = 0" if "\<forall>c. elem (x c)" "r < n"
    "\<forall>r<n. mvec n (\<lambda>r c. if r = i then mult (M r c) s else M r c) x r = 0" for x r
  proof (cases "r = i")
    case True
    have "mult (mvec n M x i) s = 0"
      using that(3) [rule_format, OF assms(3)] scale [of "M i" x] that(1) el assms(3)
      by (simp add: mat_vec_def)
    moreover have "elem (mvec n M x i)"
      unfolding mat_vec_def using that(1) el assms(3) by (intro elem_xsum) (auto simp: elem_mult)
    ultimately show ?thesis using no_zero_div assms(4,5) True by blast
  next
    case False
    then show ?thesis using that(3) [rule_format, OF that(2)] by (simp add: mat_vec_def)
  qed
  have "mprod n (\<lambda>r c. if r = i then mult (V r c) s else V r c) A r c =
      (if r = i then mult (M r c) s else M r c)" if "r < n" "c < n" for r c
    using pr [OF that] scale [of "V r" "\<lambda>k. A k c"] el that
    by (cases "r = i") (simp_all add: mat_prod_def)
  then show ?thesis using assms(1,4) vec el
    by (auto simp: gauss_invariant_def elem_mat_def elem_mult)
qed

lemma gauss_inv_add:
  assumes "gauss_inv n A M V" "emat n A" "i < n" "j < n" "i \<noteq> j" "elem s"
  shows "gauss_inv n A (\<lambda>r c. if r = j then M j c XOR mult s (M i c) else M r c)
                       (\<lambda>r c. if r = j then V j c XOR mult s (V i c) else V r c)"
proof -
  have el: "\<And>r c. r < n \<Longrightarrow> c < n \<Longrightarrow> elem (M r c) \<and> elem (V r c) \<and> elem (A r c)"
    and pr: "\<And>r c. r < n \<Longrightarrow> c < n \<Longrightarrow> mprod n V A r c = M r c"
    using assms(1,2) by (auto simp: gauss_invariant_def elem_mat_def)
  have lin: "xsum n (\<lambda>k. mult (B j k XOR mult s (B i k)) (y k)) =
      xsum n (\<lambda>k. mult (B j k) (y k)) XOR mult s (xsum n (\<lambda>k. mult (B i k) (y k)))"
    if "\<And>r k. r < n \<Longrightarrow> k < n \<Longrightarrow> elem (B r k)" "\<And>k. k < n \<Longrightarrow> elem (y k)" for B y
  proof -
    have "mult (B j k XOR mult s (B i k)) (y k) =
        mult (B j k) (y k) XOR mult s (mult (B i k) (y k))" if "k < n" for k
      using that \<open>\<And>r k. r < n \<Longrightarrow> k < n \<Longrightarrow> elem (B r k)\<close> \<open>\<And>k. k < n \<Longrightarrow> elem (y k)\<close> assms(3,4,6)
      by (simp add: mult_xor' elem_mult mult_assoc)
    then have "xsum n (\<lambda>k. mult (B j k XOR mult s (B i k)) (y k)) =
        xsum n (\<lambda>k. mult (B j k) (y k)) XOR xsum n (\<lambda>k. mult s (mult (B i k) (y k)))"
      unfolding xsum_xor [symmetric] by (rule xsum_cong)
    also have "xsum n (\<lambda>k. mult s (mult (B i k) (y k))) = mult s (xsum n (\<lambda>k. mult (B i k) (y k)))"
      using that assms(3,6) by (intro mult_xsum [symmetric]) (auto simp: elem_mult)
    finally show ?thesis .
  qed
  have vec: "mvec n M x r = 0" if x: "\<forall>c. elem (x c)" "r < n"
    "\<forall>r<n. mvec n (\<lambda>r c. if r = j then M j c XOR mult s (M i c) else M r c) x r = 0" for x r
  proof -
    have i0: "mvec n M x i = 0" using x(3) [rule_format, OF assms(3)] assms(5) by (simp add: mat_vec_def)
    have "mvec n M x j XOR mult s (mvec n M x i) = 0"
      using x(3) [rule_format, OF assms(4)] lin [of M x] el x(1)
      by (simp add: mat_vec_def del: xor_eq_0_iff)
    then have "mvec n M x j = 0" using i0 assms(6) by (simp add: mult_0)
    then show ?thesis using x(3) [rule_format, OF x(2)] by (cases "r = j") (auto simp: mat_vec_def)
  qed
  have "mprod n (\<lambda>r c. if r = j then V j c XOR mult s (V i c) else V r c) A r c =
      (if r = j then M j c XOR mult s (M i c) else M r c)" if "r < n" "c < n" for r c
    using pr [OF assms(3) that(2)] pr [OF that] lin [of V "\<lambda>k. A k c"] el that
    by (cases "r = j") (simp_all add: mat_prod_def)
  then show ?thesis using assms(1,3,4,6) vec el
    by (auto simp: gauss_invariant_def elem_mat_def elem_mult elem_xor)
qed

text \<open>A regular matrix always has a pivot; a column without one shows a singular matrix.\<close>

lemma no_pivot_singular:
  assumes "gauss_inv n A M V" "upper_tri n i M" "i < n" "\<And>r. i \<le> r \<Longrightarrow> r < n \<Longrightarrow> M r i = 0"
  shows "\<not> regular n A"
proof -
  have nz: "(1::u32) \<noteq> 0" by simp
  have "\<exists>x. (\<forall>c. elem (x c)) \<and> x i = 1 \<and> (\<forall>r<n. xsum n (\<lambda>c. mult (M r c) (x c)) = 0)"
    using assms nz by (intro triangular_kernel) (auto simp: gauss_invariant_def elem_mat_def upper_tri_def)
  then obtain x where x: "\<forall>c. elem (x c)" "x i = 1" "\<forall>r<n. mvec n M x r = 0"
    unfolding mat_vec_def by auto
  then have "\<forall>r<n. mvec n A x r = 0" using assms(1) by (simp add: gauss_invariant_def)
  then show ?thesis using x(1,2) assms(3) unfolding mat_regular_def by fastforce
qed

lemma mprod_vec:
  assumes "emat n A" "emat n V" "\<forall>k<n. elem (x k)" "r < n"
  shows "mvec n (mprod n V A) x r = mvec n V (mvec n A x) r"
proof -
  have el: "\<And>r c. r < n \<Longrightarrow> c < n \<Longrightarrow> elem (A r c) \<and> elem (V r c)"
    using assms(1,2) by (auto simp: elem_mat_def)
  have "mvec n (mprod n V A) x r = xsum n (\<lambda>k. xsum n (\<lambda>l. mult (V r l) (mult (A l k) (x k))))"
    unfolding mat_vec_def
  proof (rule xsum_cong)
    fix k assume k: "k < n"
    have "mult (mprod n V A r k) (x k) = xsum n (\<lambda>l. mult (mult (V r l) (A l k)) (x k))"
      unfolding mat_prod_def using assms(3) el assms(4) k by (intro mult_xsum') (auto simp: elem_mult)
    also have "\<dots> = xsum n (\<lambda>l. mult (V r l) (mult (A l k) (x k)))"
      using assms(3) el assms(4) k by (intro xsum_cong) (simp add: mult_assoc)
    finally show "mult (mprod n V A r k) (x k) = xsum n (\<lambda>l. mult (V r l) (mult (A l k) (x k)))" .
  qed
  also have "\<dots> = xsum n (\<lambda>l. xsum n (\<lambda>k. mult (V r l) (mult (A l k) (x k))))"
    by (rule xsum_swap)
  also have "\<dots> = mvec n V (mvec n A x) r"
    unfolding mat_vec_def using assms(3) el assms(4)
    by (intro xsum_cong mult_xsum [symmetric]) (auto simp: elem_mult)
  finally show ?thesis .
qed

lemma identity_vec:
  assumes "is_identity n M" "\<forall>k<n. elem (x k)" "r < n"
  shows "mvec n M x r = x r"
proof -
  have "mvec n M x r = xsum n (\<lambda>k. if k = r then x k else 0)"
    unfolding mat_vec_def using assms by (intro xsum_cong) (auto simp: is_identity_def mult_1 mult_0')
  then show ?thesis using assms(3) by (simp add: xsum_delta)
qed

lemma left_inverse_vec:
  assumes "emat n A" "emat n V" "is_identity n (mprod n V A)" "\<forall>k<n. elem (x k)" "r < n"
  shows "mvec n V (mvec n A x) r = x r"
  using mprod_vec [OF assms(1,2,4,5)] identity_vec [OF assms(3,4,5)] by simp

lemma left_inverse_regular:
  assumes "emat n A" "emat n V" "is_identity n (mprod n V A)"
  shows "regular n A"
  unfolding mat_regular_def
proof (intro allI impI, elim conjE)
  fix x c assume x: "\<forall>c. elem (x c)" "\<forall>r<n. mvec n A x r = 0" and c: "c < n"
  have "mvec n V (mvec n A x) c = x c" using left_inverse_vec [OF assms _ c] x(1) by blast
  moreover have "mvec n V (mvec n A x) c = 0"
    using x(2) assms(2) c unfolding mat_vec_def [of _ _ V]
    by (intro xsum_zeroI) (simp add: mult_0 elem_mat_def)
  ultimately show "x c = 0" by simp
qed

lemma gauss_inv_identity:
  "gauss_inv n A M V \<Longrightarrow> is_identity n M \<Longrightarrow> is_identity n (mprod n V A)"
  by (auto simp: gauss_invariant_def is_identity_def)

end

end
