(* ===== verification/Galois.thy ===== *)
theory Galois
  imports Gf_Core Gf_LinAlg
begin

text \<open>
  galois.c: the table of the fields in use, one per word size, filled on demand, and the
  single operations of Jerasure on it.  None is a failing assertion.
\<close>

section \<open>The table of fields\<close>

text \<open>
  A slot of the table is the NULL pointer, a structure that was allocated and never
  initialised, or a field.
\<close>

datatype gf_slot = Null | Uninit | Field gf_t

record galois =
  gfp_array :: "nat \<Rightarrow> gf_slot"
  gfp_is_composite :: "nat \<Rightarrow> bool"

definition galois_start :: galois where
  "galois_start = \<lparr>gfp_array = (\<lambda>_. Null), gfp_is_composite = (\<lambda>_. False)\<rparr>"

definition set_slot :: "nat \<Rightarrow> gf_slot \<Rightarrow> galois \<Rightarrow> galois" where
  "set_slot w s st = st\<lparr>gfp_array := (gfp_array st)(w := s)\<rparr>"

definition galois_get_field_ptr :: "galois \<Rightarrow> nat \<Rightarrow> gf_slot" where
  "galois_get_field_ptr st w = (if gfp_array st w \<noteq> Null then gfp_array st w else Null)"

definition galois_init_field ::
  "galois \<Rightarrow> int \<Rightarrow> gf_mult_type \<Rightarrow> u32 \<Rightarrow> gf_division_type \<Rightarrow> u64 \<Rightarrow> int \<Rightarrow> int \<Rightarrow> (galois \<times> gf_t) option" where
  "galois_init_field st w mt rt dt pp a1 a2 =
    (if w \<le> 0 \<or> w > 32 then None
     else if gf_scratch_size w mt rt dt a1 a2 = Some 0 then None
     else (case gf_init_hard w mt rt dt pp a1 a2 None of
             Inl _ \<Rightarrow> None
           | Inr F \<Rightarrow> Some (st\<lparr>gfp_is_composite := (gfp_is_composite st)(nat w := False)\<rparr>, F)))"

definition galois_init_composite_field ::
  "galois \<Rightarrow> int \<Rightarrow> u32 \<Rightarrow> gf_division_type \<Rightarrow> int \<Rightarrow> gf_internal option \<Rightarrow> (galois \<times> gf_t) option" where
  "galois_init_composite_field st w rt dt degree base =
    (if w \<le> 0 \<or> w > 32 then None
     else if gf_scratch_size w GF_MULT_COMPOSITE rt dt degree 0 = Some 0 then None
     else (case gf_init_hard w GF_MULT_COMPOSITE rt dt 0 degree 0 base of
             Inl _ \<Rightarrow> None
           | Inr F \<Rightarrow> Some (st\<lparr>gfp_is_composite := (gfp_is_composite st)(nat w := True)\<rparr>, F)))"

datatype galois_ret = Ret_ok | Ret_ENOMEM | Ret_EINVAL

text \<open>\<open>mem\<close> says whether the allocation succeeds.\<close>

definition galois_init_default_field :: "bool \<Rightarrow> galois \<Rightarrow> nat \<Rightarrow> galois \<times> galois_ret" where
  "galois_init_default_field mem st w =
    (if gfp_array st w = Null then
       (if \<not> mem then (st, Ret_ENOMEM)
        else (case gf_init_easy (int w) of
                Inl _ \<Rightarrow> (set_slot w Uninit st, Ret_EINVAL)
              | Inr F \<Rightarrow> (set_slot w (Field F) st, Ret_ok)))
     else (st, Ret_ok))"

definition galois_uninit_field :: "galois \<Rightarrow> nat \<Rightarrow> galois" where
  "galois_uninit_field st w = (if gfp_array st w \<noteq> Null then set_slot w Null st else st)"

definition galois_init :: "bool \<Rightarrow> galois \<Rightarrow> nat \<Rightarrow> galois option" where
  "galois_init mem st w =
    (if w \<le> 0 \<or> w > 32 then None
     else (case galois_init_default_field mem st w of
             (st, Ret_ok) \<Rightarrow> Some st
           | (st, Ret_ENOMEM) \<Rightarrow> None
           | (st, Ret_EINVAL) \<Rightarrow> None))"

definition is_valid_gf :: "gf_t option \<Rightarrow> bool" where
  "is_valid_gf gf =
    (case gf of
       None \<Rightarrow> False
     | Some F \<Rightarrow> multiply F \<noteq> None \<and> multiply_region F \<noteq> None \<and> divide F \<noteq> None \<and>
         inverse F \<noteq> None \<and> extract_word F \<noteq> None)"

definition galois_change_technique :: "galois \<Rightarrow> gf_t option \<Rightarrow> nat \<Rightarrow> galois option" where
  "galois_change_technique st gf w =
    (if w \<le> 0 \<or> w > 32 then None
     else if \<not> is_valid_gf gf then None
     else Some (set_slot w (case gf of None \<Rightarrow> Null | Some F \<Rightarrow> Field F) st))"

section \<open>Single operations\<close>

text \<open>The operations on the field that is found in the table.\<close>

definition galois_single_multiply :: "gf_t \<Rightarrow> u32 \<Rightarrow> u32 \<Rightarrow> u32" where
  "galois_single_multiply F x y = (if x = 0 \<or> y = 0 then 0 else the (multiply F) x y)"

definition galois_single_divide :: "gf_t \<Rightarrow> u32 \<Rightarrow> u32 \<Rightarrow> u32 option" where
  "galois_single_divide F x y =
    (if x = 0 then Some 0 else if y = 0 then Some (- 1) else the (divide F) x y)"

definition galois_inverse :: "gf_t \<Rightarrow> u32 \<Rightarrow> u32 option" where
  "galois_inverse F y = (if y = 0 then Some (- 1) else galois_single_divide F 1 y)"

text \<open>The same with the table: the field is initialised on the first use.\<close>

definition galois_field :: "bool \<Rightarrow> galois \<Rightarrow> nat \<Rightarrow> (galois \<times> gf_t) option" where
  "galois_field mem st w =
    (case (if gfp_array st w = Null then galois_init mem st w else Some st) of
       None \<Rightarrow> None
     | Some st \<Rightarrow> (case gfp_array st w of Field F \<Rightarrow> Some (st, F) | _ \<Rightarrow> None))"

definition galois_single_multiply_st :: "bool \<Rightarrow> galois \<Rightarrow> u32 \<Rightarrow> u32 \<Rightarrow> nat \<Rightarrow> (galois \<times> u32) option" where
  "galois_single_multiply_st mem st x y w =
    (if x = 0 \<or> y = 0 then Some (st, 0)
     else (case galois_field mem st w of
             None \<Rightarrow> None
           | Some (st, F) \<Rightarrow> Some (st, if w \<le> 32 then the (multiply F) x y else 0)))"

definition galois_single_divide_st :: "bool \<Rightarrow> galois \<Rightarrow> u32 \<Rightarrow> u32 \<Rightarrow> nat \<Rightarrow> (galois \<times> u32) option" where
  "galois_single_divide_st mem st x y w =
    (if x = 0 then Some (st, 0)
     else if y = 0 then Some (st, - 1)
     else (case galois_field mem st w of
             None \<Rightarrow> None
           | Some (st, F) \<Rightarrow>
               (if w \<le> 32 then map_option (Pair st) (the (divide F) x y) else Some (st, 0))))"

section \<open>A correct field is a field\<close>

abbreviation felem :: "gf_t \<Rightarrow> u32 \<Rightarrow> bool" where
  "felem F \<equiv> gf_elem (h_w (scratch F))"

abbreviation fmul :: "gf_t \<Rightarrow> u32 \<Rightarrow> u32 \<Rightarrow> u32" where
  "fmul F \<equiv> gf_mul (h_w (scratch F)) (field_poly (scratch F))"

definition gdiv :: "gf_t \<Rightarrow> u32 \<Rightarrow> u32 \<Rightarrow> u32" where
  "gdiv F x y = the (galois_single_divide F x y)"

lemma single_multiply_mul:
  assumes "gf_correct F" "felem F x" "felem F y"
  shows "galois_single_multiply F x y = fmul F x y"
  using assms by (auto simp: galois_single_multiply_def gf_correct_def mul_ok_def)

lemma single_divide:
  assumes "gf_correct F" "felem F x" "felem F y" "y \<noteq> 0"
  shows "\<exists>q. galois_single_divide F x y = Some q \<and> felem F q \<and> fmul F q y = x"
  using assms by (auto simp: galois_single_divide_def gf_correct_def div_ok_def)

text \<open>The interface of the linear algebra is provided by every correct field.\<close>

locale correct_field =
  fixes F :: gf_t
  assumes correct: "gf_correct F"

lemma correct_field_arith:
  assumes "gf_correct F"
  shows "gf_arith (felem F) (galois_single_multiply F) (gdiv F)"
proof -
  let ?w = "h_w (scratch F)" and ?pp = "field_poly (scratch F)"
  have "gf_primitive ?w ?pp" using assms by (simp add: gf_correct_def h_primitive_def)
  note ar = gf_primitive_arith [OF this]
  note m = single_multiply_mul [OF assms] and e = gf_arith.elem_mult [OF ar] gf_arith.elem_xor [OF ar]
  show ?thesis
  proof
    fix a b c assume "felem F a" "felem F b" "felem F c"
    then show "galois_single_multiply F (galois_single_multiply F a b) c =
        galois_single_multiply F a (galois_single_multiply F b c)"
      using gf_arith.mult_assoc [OF ar] by (simp add: m)
  next
    fix a b assume ab: "felem F a" "felem F b" "b \<noteq> 0"
    then obtain q where q: "galois_single_divide F a b = Some q" "felem F q" "fmul F q b = a"
      using single_divide [OF assms] by blast
    then show "felem F (gdiv F a b)" "galois_single_multiply F (gdiv F a b) b = a"
      using ab by (auto simp: gdiv_def m)
  qed (use gf_arith.elem_0 [OF ar] gf_arith.elem_1 [OF ar] gf_arith.mult_comm [OF ar]
      gf_arith.mult_xor [OF ar] gf_arith.mult_1 [OF ar] in \<open>auto simp: m\<close>)
qed

sublocale correct_field \<subseteq> gf_arith "felem F" "galois_single_multiply F" "gdiv F"
  by (rule correct_field_arith [OF correct])

section \<open>The default fields\<close>

definition galois_default :: "nat \<Rightarrow> gf_t" where
  "galois_default w = projr (gf_init_easy (int w))"

lemma default_8: "gf_init_easy 8 = Inr (galois_default 8)" "gf_correct (galois_default 8)"
    "scratch (galois_default 8) = default_field 8 0x11d"
    "multiply_region (galois_default 8) = Some (W8_table_region (fst (gf_w8_table_fill (default_field 8 0x11d))))"
    "extract_word (galois_default 8) = Some W8_extract"
  using init_easy_8 by (auto simp: galois_default_def)

lemma default_16: "gf_init_easy 16 = Inr (galois_default 16)" "gf_correct (galois_default 16)"
    "scratch (galois_default 16) = default_field 16 0x1100b"
    "multiply_region (galois_default 16) = Some W16_split_8_16_lazy_region"
    "extract_word (galois_default 16) = Some W16_extract"
  using init_easy_16 by (auto simp: galois_default_def)

lemma default_32: "gf_init_easy 32 = Inr (galois_default 32)" "gf_correct (galois_default 32)"
    "scratch (galois_default 32) = default_field 32 0x400007"
    "multiply_region (galois_default 32) = Some W32_split_8_32_lazy_region"
    "extract_word (galois_default 32) = Some W32_extract"
  using init_easy_32 by (auto simp: galois_default_def)

interpretation gal8: correct_field "galois_default 8"
  by unfold_locales (rule default_8)

interpretation gal16: correct_field "galois_default 16"
  by unfold_locales (rule default_16)

interpretation gal32: correct_field "galois_default 32"
  by unfold_locales (rule default_32)

text \<open>
  Once a field has been used it stays in its slot: a use finds the field that was installed
  or the default one, and leaves the other slots alone.
\<close>

lemma galois_field_installed:
  "gfp_array st w = Field F \<Longrightarrow> galois_field mem st w = Some (st, F)"
  by (simp add: galois_field_def)

lemma galois_field_default:
  assumes "gfp_array st w = Null" "1 \<le> w" "w \<le> 32" "gf_init_easy (int w) = Inr F"
  shows "galois_field True st w = Some (set_slot w (Field F) st, F)"
  using assms by (simp add: galois_field_def galois_init_def galois_init_default_field_def set_slot_def)

lemma set_slot_array [simp]:
  "gfp_array (set_slot w s st) v = (if v = w then s else gfp_array st v)"
  by (simp add: set_slot_def)

text \<open>
  A sequence of uses of the table, of any word sizes and operands; the first argument of a use
  says whether an allocation succeeds while it runs.
\<close>

datatype field_use = Use_multiply bool u32 u32 nat | Use_divide bool u32 u32 nat

fun galois_use :: "field_use \<Rightarrow> galois \<Rightarrow> galois option" where
  "galois_use (Use_multiply mem x y w) st = map_option fst (galois_single_multiply_st mem st x y w)"
| "galois_use (Use_divide mem x y w) st = map_option fst (galois_single_divide_st mem st x y w)"

abbreviation galois_uses :: "field_use list \<Rightarrow> galois \<Rightarrow> galois option" where
  "galois_uses \<equiv> ofold galois_use"

lemma galois_field_keeps:
  assumes "galois_field mem st v = Some (st', H)" "gfp_array st w \<noteq> Null"
  shows "gfp_array st' w = gfp_array st w"
  using assms
  by (auto simp: galois_field_def galois_init_def galois_init_default_field_def set_slot_def
      split: option.splits if_splits gf_slot.splits prod.splits sum.splits galois_ret.splits)

lemma galois_use_keeps:
  assumes "galois_use u st = Some st'" "gfp_array st w \<noteq> Null"
  shows "gfp_array st' w = gfp_array st w"
  using assms galois_field_keeps [where st = st and w = w]
  by (cases u) (auto simp: galois_single_multiply_st_def galois_single_divide_st_def
      split: if_splits option.splits prod.splits)

lemma galois_uses_keep:
  "galois_uses us st = Some st' \<Longrightarrow> gfp_array st w \<noteq> Null \<Longrightarrow> gfp_array st' w = gfp_array st w"
  by (induction us arbitrary: st) (fastforce split: option.splits dest: galois_use_keeps)+

text \<open>An occupied slot decides the results, and using it needs no memory.\<close>

lemma galois_multiply_installed:
  assumes "gfp_array st w = Field F" "w \<le> 32"
  shows "galois_single_multiply_st mem st x y w = Some (st, galois_single_multiply F x y)"
  using assms by (simp add: galois_single_multiply_st_def galois_single_multiply_def galois_field_installed)

lemma galois_divide_installed:
  assumes "gfp_array st w = Field F" "w \<le> 32"
  shows "galois_single_divide_st mem st x y w = map_option (Pair st) (galois_single_divide F x y)"
  using assms by (simp add: galois_single_divide_st_def galois_single_divide_def galois_field_installed)

lemma galois_use_default:
  assumes "gfp_array st w = Null" "1 \<le> w" "w \<le> 32" "gf_init_easy (int w) = Inr F" "x \<noteq> 0" "y \<noteq> 0"
  shows "galois_single_multiply_st True st x y w = Some (set_slot w (Field F) st, galois_single_multiply F x y)"
    and "galois_single_divide_st True st x y w =
      map_option (Pair (set_slot w (Field F) st)) (galois_single_divide F x y)"
  using galois_field_default [OF assms(1-4)] assms(3,5,6)
  by (simp_all add: galois_single_multiply_st_def galois_single_divide_st_def
      galois_single_multiply_def galois_single_divide_def)

lemma galois_change:
  assumes "1 \<le> w" "w \<le> 32" "is_valid_gf (Some F)"
  shows "galois_change_technique st (Some F) w = Some (set_slot w (Field F) st)"
  using assms by (simp add: galois_change_technique_def)

lemma gf_correct_valid: "gf_correct F \<Longrightarrow> is_valid_gf (Some F)"
  by (auto simp: gf_correct_def is_valid_gf_def)

text \<open>
  The contract of a slot: after any further uses of the table it holds the same field, and every
  single operation of its word size is that field's and leaves the table alone, with and
  without memory to allocate.
\<close>

definition field_serves :: "nat \<Rightarrow> gf_t \<Rightarrow> galois \<Rightarrow> bool" where
  "field_serves w F st \<longleftrightarrow> (\<forall>us st'. galois_uses us st = Some st' \<longrightarrow>
     gfp_array st' w = Field F \<and>
     (\<forall>mem x y. galois_single_multiply_st mem st' x y w = Some (st', galois_single_multiply F x y) \<and>
        galois_single_divide_st mem st' x y w = map_option (Pair st') (galois_single_divide F x y)))"

lemma field_servesI:
  assumes "gfp_array st w = Field F" "w \<le> 32"
  shows "field_serves w F st"
proof -
  have "gfp_array st' w = Field F" if "galois_uses us st = Some st'" for us st'
    using galois_uses_keep [OF that] assms(1) by simp
  then show ?thesis
    using assms(2) by (simp add: field_serves_def galois_multiply_installed galois_divide_installed)
qed

lemma correct_field_default: "w \<in> {8, 16, 32} \<Longrightarrow> correct_field (galois_default w)"
  using gal8.correct_field_axioms gal16.correct_field_axioms gal32.correct_field_axioms by auto

end
