(* ===== verification/Jer_Matrix.thy ===== *)
theory Jer_Matrix
  imports Galois
begin

text \<open>
  The matrix routines of jerasure.c.  A matrix is a flat array with its rows one after the
  other, updated in place by loops over the columns, as in the source.  The field F is the
  one \<open>galois_single_multiply\<close> finds in its table for the word size in use.  None is a
  division that does not return.
\<close>

section \<open>Loops over a row\<close>

text \<open>Row a of a matrix is updated from its own elements and those of row b.\<close>

definition row_op :: "nat \<Rightarrow> (u32 \<Rightarrow> u32 \<Rightarrow> u32) \<Rightarrow> nat \<Rightarrow> nat \<Rightarrow> u32 list \<Rightarrow> u32 list" where
  "row_op cols g a b m =
    fold (\<lambda>x m. m[a * cols + x := g (m ! (a * cols + x)) (m ! (b * cols + x))]) [0..<cols] m"

definition row_swap :: "nat \<Rightarrow> nat \<Rightarrow> nat \<Rightarrow> u32 list \<Rightarrow> u32 list" where
  "row_swap cols a b m = fold (\<lambda>k m. swap (a * cols + k) (b * cols + k) m) [0..<cols] m"

definition identity_list :: "nat \<Rightarrow> u32 list" where
  "identity_list n = concat (map (\<lambda>i. map (\<lambda>j. if i = j then 1 else 0) [0..<n]) [0..<n])"

section \<open>Inversion over the field\<close>

text \<open>
  One column of the elimination: find a pivot, scale its row, and clear the column below.
  \<open>Some (Inl s)\<close> is the early return for a singular matrix, with
  the arrays as they are left.
\<close>

definition invert_pivot :: "nat \<Rightarrow> nat \<Rightarrow> u32 list \<times> u32 list \<Rightarrow> (u32 list \<times> u32 list) option" where
  "invert_pivot n i = (\<lambda>(mat, iv).
    if mat ! (n * i + i) = 0
    then (case find (\<lambda>j. mat ! (n * j + i) \<noteq> 0) [i + 1..<n] of
            None \<Rightarrow> None
          | Some j \<Rightarrow> Some (row_swap n i j mat, row_swap n i j iv))
    else Some (mat, iv))"

definition invert_scale :: "gf_t \<Rightarrow> nat \<Rightarrow> nat \<Rightarrow> u32 list \<times> u32 list \<Rightarrow> (u32 list \<times> u32 list) option" where
  "invert_scale F n i = (\<lambda>(mat, iv).
    (let tmp = mat ! (n * i + i)
     in if tmp \<noteq> 1
        then (case galois_single_divide F 1 tmp of
                None \<Rightarrow> None
              | Some iv1 \<Rightarrow>
                  Some (row_op n (\<lambda>x y. galois_single_multiply F x iv1) i i mat,
                        row_op n (\<lambda>x y. galois_single_multiply F x iv1) i i iv))
        else Some (mat, iv)))"

definition invert_eliminate :: "gf_t \<Rightarrow> nat \<Rightarrow> nat \<Rightarrow> u32 list \<times> u32 list \<Rightarrow> u32 list \<times> u32 list" where
  "invert_eliminate F n i = fold (\<lambda>j (mat, iv).
    (let tmp = mat ! (n * j + i)
     in if tmp \<noteq> 0
        then (if tmp = 1
              then (row_op n (\<lambda>x y. x XOR y) j i mat, row_op n (\<lambda>x y. x XOR y) j i iv)
              else (row_op n (\<lambda>x y. x XOR galois_single_multiply F tmp y) j i mat,
                    row_op n (\<lambda>x y. x XOR galois_single_multiply F tmp y) j i iv))
        else (mat, iv))) [i + 1..<n]"

type_synonym invert_state = "(u32 list \<times> u32 list) + (u32 list \<times> u32 list)"

definition invert_column ::
  "gf_t \<Rightarrow> nat \<Rightarrow> nat \<Rightarrow> invert_state \<Rightarrow> invert_state option" where
  "invert_column F n i s =
    (case s of
       Inl u \<Rightarrow> Some (Inl u)
     | Inr s \<Rightarrow>
         (case invert_pivot n i s of
            None \<Rightarrow> Some (Inl s)
          | Some s \<Rightarrow>
              (case invert_scale F n i s of
                 None \<Rightarrow> None
               | Some s \<Rightarrow> Some (Inr (invert_eliminate F n i s)))))"

definition invert_back :: "gf_t \<Rightarrow> nat \<Rightarrow> nat \<Rightarrow> u32 list \<times> u32 list \<Rightarrow> u32 list \<times> u32 list" where
  "invert_back F n i = fold (\<lambda>j (mat, iv).
    (let tmp = mat ! (j * n + i)
     in if tmp \<noteq> 0
        then (mat[j * n + i := 0],
              row_op n (\<lambda>x y. x XOR galois_single_multiply F tmp y) j i iv)
        else (mat, iv))) [0..<i]"

text \<open>The result: the return code, the matrix as it is left, and the inverse.\<close>

definition jerasure_invert_matrix :: "gf_t \<Rightarrow> u32 list \<Rightarrow> nat \<Rightarrow> (int \<times> u32 list \<times> u32 list) option" where
  "jerasure_invert_matrix F mat rows =
    (case ofold (invert_column F rows) [0..<rows] (Inr (mat, identity_list rows)) of
       None \<Rightarrow> None
     | Some (Inl (mat, iv)) \<Rightarrow> Some (- 1, mat, iv)
     | Some (Inr s) \<Rightarrow>
         (case fold (invert_back F rows) (rev [0..<rows]) s of (mat, iv) \<Rightarrow> Some (0, mat, iv)))"

text \<open>The test for invertibility runs the same elimination without collecting the inverse.\<close>

definition invertible_column :: "gf_t \<Rightarrow> nat \<Rightarrow> nat \<Rightarrow> unit + u32 list \<Rightarrow> (unit + u32 list) option" where
  "invertible_column F n i s =
    (case s of
       Inl u \<Rightarrow> Some (Inl u)
     | Inr mat \<Rightarrow>
         (case (if mat ! (n * i + i) = 0
                then map_option (\<lambda>j. row_swap n i j mat)
                       (find (\<lambda>j. mat ! (n * j + i) \<noteq> 0) [i + 1..<n])
                else Some mat) of
            None \<Rightarrow> Some (Inl ())
          | Some mat \<Rightarrow>
              (let tmp = mat ! (n * i + i)
               in case (if tmp \<noteq> 1
                        then map_option
                               (\<lambda>iv1. row_op n (\<lambda>x y. galois_single_multiply F x iv1) i i mat)
                               (galois_single_divide F 1 tmp)
                        else Some mat) of
                    None \<Rightarrow> None
                  | Some mat \<Rightarrow>
                      Some (Inr (fold (\<lambda>j mat.
                        (let tmp = mat ! (n * j + i)
                         in if tmp \<noteq> 0
                            then (if tmp = 1 then row_op n (\<lambda>x y. x XOR y) j i mat
                                  else row_op n (\<lambda>x y. x XOR galois_single_multiply F tmp y) j i mat)
                            else mat)) [i + 1..<n] mat)))))"

definition jerasure_invertible_matrix :: "gf_t \<Rightarrow> u32 list \<Rightarrow> nat \<Rightarrow> int option" where
  "jerasure_invertible_matrix F mat rows =
    (case ofold (invertible_column F rows) [0..<rows] (Inr mat) of
       None \<Rightarrow> None
     | Some (Inl _) \<Rightarrow> Some 0
     | Some (Inr _) \<Rightarrow> Some 1)"

section \<open>Products, bit matrices and erasures\<close>

definition jerasure_matrix_multiply ::
  "gf_t \<Rightarrow> u32 list \<Rightarrow> u32 list \<Rightarrow> nat \<Rightarrow> nat \<Rightarrow> nat \<Rightarrow> nat \<Rightarrow> u32 list" where
  "jerasure_matrix_multiply F m1 m2 r1 c1 r2 c2 =
    fold (\<lambda>i product. fold (\<lambda>j product. fold (\<lambda>k product.
        product[i * c2 + j := product ! (i * c2 + j) XOR
          galois_single_multiply F (m1 ! (i * c1 + k)) (m2 ! (k * c2 + j))])
      [0..<r2] product) [0..<c2] product) [0..<r1] (replicate (r1 * c2) 0)"

definition jerasure_matrix_to_bitmatrix :: "gf_t \<Rightarrow> nat \<Rightarrow> nat \<Rightarrow> nat \<Rightarrow> u32 list \<Rightarrow> u32 list" where
  "jerasure_matrix_to_bitmatrix F k m w matrix =
    (let rowelts = k * w
     in fold (\<lambda>i bitmatrix. fold (\<lambda>j bitmatrix.
          fst (fold (\<lambda>x (bitmatrix, elt).
                 (fold (\<lambda>l bitmatrix.
                     bitmatrix[i * (rowelts * w) + j * w + x + l * rowelts := (if bit elt l then 1 else 0)])
                   [0..<w] bitmatrix,
                  galois_single_multiply F elt 2))
               [0..<w] (bitmatrix, matrix ! (i * k + j))))
        [0..<k] bitmatrix) [0..<m] (replicate (k * m * w * w) 0))"

text \<open>
  The list of erasures ends with -1.  \<open>Some None\<close> is the NULL result for too many
  erasures; None is a list that names a device that does not exist or has no end mark.
\<close>

fun erasures_loop :: "nat \<Rightarrow> nat \<Rightarrow> u32 list \<Rightarrow> u32 list \<Rightarrow> nat \<Rightarrow> u32 list option option" where
  "erasures_loop k td [] erased t_non_erased = None"
| "erasures_loop k td (e # es) erased t_non_erased =
    (if e = - 1 then Some (Some erased)
     else if td \<le> unat e then None
     else if erased ! unat e = 0
     then (if t_non_erased - 1 < k then Some None
           else erasures_loop k td es (erased[unat e := 1]) (t_non_erased - 1))
     else erasures_loop k td es erased t_non_erased)"

definition jerasure_erasures_to_erased :: "nat \<Rightarrow> nat \<Rightarrow> u32 list \<Rightarrow> u32 list option option" where
  "jerasure_erasures_to_erased k m erasures = erasures_loop k (k + m) erasures (replicate (k + m) 0) (k + m)"

text \<open>
  The first k devices that are not erased.  The loop of the source ends when k have been
  found; with more than m devices erased it would read past the end of the array, which
  is None in the routines that use it.
\<close>

definition dm_ids :: "nat \<Rightarrow> nat \<Rightarrow> u32 list \<Rightarrow> nat list" where
  "dm_ids k m erased =
    fold (\<lambda>i ids. if length ids < k \<and> erased ! i = 0 then ids @ [i] else ids) [0..<k + m] []"

definition decoding_rows :: "nat \<Rightarrow> u32 list \<Rightarrow> nat list \<Rightarrow> u32 list" where
  "decoding_rows k matrix ids =
    fold (\<lambda>i tmpmat.
        if ids ! i < k
        then (fold (\<lambda>j tmpmat. tmpmat[i * k + j := 0]) [0..<k] tmpmat)[i * k + ids ! i := 1]
        else fold (\<lambda>j tmpmat. tmpmat[i * k + j := matrix ! ((ids ! i - k) * k + j)]) [0..<k] tmpmat)
      [0..<k] (replicate (k * k) 0)"

definition jerasure_make_decoding_matrix ::
  "gf_t \<Rightarrow> nat \<Rightarrow> nat \<Rightarrow> u32 list \<Rightarrow> u32 list \<Rightarrow> (int \<times> u32 list \<times> nat list) option" where
  "jerasure_make_decoding_matrix F k m matrix erased =
    (let ids = dm_ids k m erased
     in if length ids < k then None
        else case jerasure_invert_matrix F (decoding_rows k matrix ids) k of
          None \<Rightarrow> None
        | Some (ret, tmpmat, decoding_matrix) \<Rightarrow> Some (ret, decoding_matrix, ids))"

end
