(* ===== verification/Jer_Invert.thy ===== *)
theory Jer_Invert
  imports Jer_Matrix
begin

text \<open>
  The inversion of a matrix over the field is correct: it succeeds exactly on the regular
  matrices, and then the product of the result and the matrix is the identity.
\<close>

section \<open>Flat matrices\<close>

definition mf :: "nat \<Rightarrow> u32 list \<Rightarrow> mat" where
  "mf n m r c = m ! (r * n + c)"

lemma mat_index_lt: "r < R \<Longrightarrow> c < n \<Longrightarrow> r * n + c < R * (n::nat)"
proof -
  assume "r < R" "c < n"
  then have "r * n + c < Suc r * n" by simp
  also have "\<dots> \<le> R * n" using \<open>r < R\<close> by (intro mult_le_mono1) simp
  finally show ?thesis .
qed

lemma mat_index_eq: "c < n \<Longrightarrow> x < n \<Longrightarrow> r * n + c = a * n + x \<longleftrightarrow> r = a \<and> c = (x::nat)"
  using mixed_radix_inj [of c n x r a] by auto

lemma mf_update:
  assumes "length m = R * n" "a < R" "x < n" "c < n"
  shows "mf n (m[a * n + x := v]) r c = (if r = a \<and> c = x then v else mf n m r c)"
  using assms mat_index_lt [OF assms(2,3)] mat_index_eq [OF assms(4,3), of r a]
  by (auto simp: mf_def)

lemma length_row_op [simp]: "length (row_op n g a b m) = length m"
proof -
  have "length (fold (\<lambda>x m. m[a * n + x := g (m ! (a * n + x)) (m ! (b * n + x))]) xs m) = length m" for xs
    by (induction xs arbitrary: m) auto
  then show ?thesis by (simp add: row_op_def)
qed

lemma mf_row_op:
  assumes "length m = R * n" "a < R" "b < R" "r < R" "c < n"
  shows "mf n (row_op n g a b m) r c = (if r = a then g (mf n m a c) (mf n m b c) else mf n m r c)"
proof -
  define P where "P j m' \<longleftrightarrow> length m' = R * n \<and> (\<forall>r<R. \<forall>c<n. m' ! (r * n + c) =
    (if r = a \<and> c < j then g (mf n m a c) (mf n m b c) else mf n m r c))" for j m'
  have "P n (row_op n g a b m)" unfolding row_op_def
  proof (rule fold_upt_inv [where P = P])
    show "P 0 m" using assms by (simp add: P_def mf_def)
    fix x m' assume x: "x < n" and P: "P x m'"
    show "P (Suc x) (m'[a * n + x := g (m' ! (a * n + x)) (m' ! (b * n + x))])"
      unfolding P_def
    proof (intro conjI allI impI)
      fix r c assume rc: "r < R" "c < n"
      show "m'[a * n + x := g (m' ! (a * n + x)) (m' ! (b * n + x))] ! (r * n + c) =
        (if r = a \<and> c < Suc x then g (mf n m a c) (mf n m b c) else mf n m r c)"
      proof (cases "r = a \<and> c = x")
        case True
        then show ?thesis using P x assms mat_index_lt [OF assms(2) x] by (simp add: P_def)
      next
        case False
        then have "r * n + c \<noteq> a * n + x" using mat_index_eq [OF rc(2) x] by simp
        then show ?thesis using P rc False by (auto simp: P_def less_Suc_eq)
      qed
    qed (use P in \<open>simp add: P_def\<close>)
  qed simp
  then show ?thesis using assms by (simp add: P_def mf_def)
qed

lemma length_row_swap [simp]: "length (row_swap n a b m) = length m"
proof -
  have "length (fold (\<lambda>k m. swap (a * n + k) (b * n + k) m) xs m) = length m" for xs
    by (induction xs arbitrary: m) auto
  then show ?thesis by (simp add: row_swap_def)
qed

lemma mf_row_swap:
  assumes "length m = R * n" "a < R" "b < R" "a \<noteq> b" "r < R" "c < n"
  shows "mf n (row_swap n a b m) r c = mf n m (if r = a then b else if r = b then a else r) c"
proof -
  define P where "P j m' \<longleftrightarrow> length m' = R * n \<and> (\<forall>r<R. \<forall>c<n. m' ! (r * n + c) =
    mf n m (if c < j then (if r = a then b else if r = b then a else r) else r) c)" for j m'
  have "P n (row_swap n a b m)" unfolding row_swap_def
  proof (rule fold_upt_inv [where P = P])
    show "P 0 m" using assms by (simp add: P_def mf_def)
    fix x m' assume x: "x < n" and P: "P x m'"
    note lt = mat_index_lt [OF assms(2) x] mat_index_lt [OF assms(3) x]
    show "P (Suc x) (swap (a * n + x) (b * n + x) m')"
      unfolding P_def
    proof (intro conjI allI impI)
      fix r c assume rc: "r < R" "c < n"
      have "swap (a * n + x) (b * n + x) m' ! (r * n + c) =
          m' ! (if c = x then (if r = a then b else if r = b then a else r) * n + x else r * n + c)"
        using P lt mat_index_eq [OF rc(2) x] by (auto simp: P_def nth_swap)
      then show "swap (a * n + x) (b * n + x) m' ! (r * n + c) =
          mf n m (if c < Suc x then (if r = a then b else if r = b then a else r) else r) c"
        using P rc x assms by (auto simp: P_def less_Suc_eq)
    qed (use P in \<open>simp add: P_def\<close>)
  qed simp
  then show ?thesis using assms by (simp add: P_def mf_def)
qed

lemma length_identity_list [simp]: "length (identity_list n) = n * n"
  by (simp add: identity_list_def length_concat comp_def sum_list_triv)

lemma nth_concat_rows:
  assumes "\<And>r. r < R \<Longrightarrow> length (f r) = n" "r < R" "c < n"
  shows "concat (map f [0..<R]) ! (r * n + c) = f r ! c"
  using assms
proof (induction R)
  case (Suc R)
  have len: "length (concat (map f [0..<R])) = R * n"
  proof -
    have "map length (map f [0..<R]) = map (\<lambda>_. n) [0..<R]" using Suc.prems(1) by simp
    then show ?thesis by (simp add: length_concat sum_list_triv del: map_map)
  qed
  show ?case
  proof (cases "r = R")
    case True
    then show ?thesis using len Suc.prems by (simp add: nth_append)
  next
    case False
    then have "r < R" using Suc.prems by simp
    then show ?thesis using Suc len mat_index_lt [of r R c n] by (simp add: nth_append)
  qed
qed simp

lemma mf_identity_list: "r < n \<Longrightarrow> c < n \<Longrightarrow> mf n (identity_list n) r c = (if r = c then 1 else 0)"
  unfolding mf_def identity_list_def by (subst nth_concat_rows) auto

section \<open>The elimination\<close>

context correct_field
begin

definition inv_state :: "nat \<Rightarrow> mat \<Rightarrow> u32 list \<times> u32 list \<Rightarrow> bool" where
  "inv_state n A = (\<lambda>(mat, iv). length mat = n * n \<and> length iv = n * n \<and>
     gauss_inv n A (mf n mat) (mf n iv))"

lemma pivot_none:
  assumes "inv_state n A (mat, iv)" "upper_tri n i (mf n mat)" "i < n"
    "invert_pivot n i (mat, iv) = None"
  shows "\<not> regular n A"
proof -
  have "mf n mat r i = 0" if "i \<le> r" "r < n" for r
    using assms(4) that by (cases "r = i")
      (auto simp: invert_pivot_def mf_def find_upt_None mult.commute [of n] split: if_splits option.splits)
  then show ?thesis
    using assms by (intro no_pivot_singular [of n A "mf n mat" "mf n iv"]) (auto simp: inv_state_def)
qed

lemma pivot_some:
  assumes "inv_state n A (mat, iv)" "upper_tri n i (mf n mat)" "i < n"
    "invert_pivot n i (mat, iv) = Some (mat', iv')"
  shows "inv_state n A (mat', iv')" "upper_tri n i (mf n mat')" "mf n mat' i i \<noteq> 0"
proof -
  have len: "length mat = n * n" "length iv = n * n" and g: "gauss_inv n A (mf n mat) (mf n iv)"
    using assms(1) by (auto simp: inv_state_def)
  have "inv_state n A (mat', iv') \<and> upper_tri n i (mf n mat') \<and> mf n mat' i i \<noteq> 0"
  proof (cases "mat ! (n * i + i) = 0")
    case False
    then show ?thesis using assms by (auto simp: invert_pivot_def mf_def mult.commute)
  next
    case True
    then obtain j where j: "find (\<lambda>j. mat ! (n * j + i) \<noteq> 0) [i + 1..<n] = Some j"
      "mat' = row_swap n i j mat" "iv' = row_swap n i j iv"
      using assms(4) by (auto simp: invert_pivot_def split: option.splits)
    then have jn: "i < j" "j < n" "mf n mat j i \<noteq> 0"
      by (auto dest!: find_upt_Some simp: mf_def mult.commute)
    let ?p = "\<lambda>r. if r = i then j else if r = j then i else r"
    have sw: "mf n mat' r c = mf n mat (?p r) c" "mf n iv' r c = mf n iv (?p r) c"
      if "r < n" "c < n" for r c
      using that j(2,3) jn assms(3) len mf_row_swap [of _ n n i j r c] by auto
    have "gauss_inv n A (mf n mat') (mf n iv')"
      using gauss_inv_swap [OF g assms(3) jn(2)] sw by (rule gauss_inv_cong)
    moreover have "upper_tri n i (mf n mat')"
      using assms(2,3) sw(1) jn unfolding upper_tri_def by auto
    moreover have "mf n mat' i i \<noteq> 0" using sw(1) [of i i] assms(3) jn by simp
    ultimately show ?thesis using len j by (simp add: inv_state_def)
  qed
  then show "inv_state n A (mat', iv')" "upper_tri n i (mf n mat')" "mf n mat' i i \<noteq> 0" by auto
qed

lemma scale:
  assumes "inv_state n A (mat, iv)" "emat n A" "upper_tri n i (mf n mat)" "i < n" "mf n mat i i \<noteq> 0"
  shows "\<exists>mat' iv'. invert_scale F n i (mat, iv) = Some (mat', iv') \<and> inv_state n A (mat', iv') \<and>
     upper_tri n i (mf n mat') \<and> mf n mat' i i = 1"
proof (cases "mf n mat i i = 1")
  case True
  then show ?thesis using assms by (auto simp: invert_scale_def mf_def mult.commute)
next
  case False
  let ?t = "mf n mat i i"
  have len: "length mat = n * n" "length iv = n * n" and g: "gauss_inv n A (mf n mat) (mf n iv)"
    using assms(1) by (auto simp: inv_state_def)
  have el: "felem F (mf n mat r c)" if "r < n" "c < n" for r c
    using g that by (auto simp: gauss_invariant_def elem_mat_def)
  obtain s where s: "galois_single_divide F 1 ?t = Some s" "felem F s" "fmul F s ?t = 1"
    using single_divide [OF correct, of 1 ?t] elem_1 el assms(4,5) by auto
  have st: "galois_single_multiply F ?t s = 1"
    using s single_multiply_mul [OF correct s(2), of ?t] mult_comm [of ?t s] el assms(4) by simp
  then have "s \<noteq> 0" using mult_0 el assms(4) by auto
  define mat' where "mat' = row_op n (\<lambda>x y. galois_single_multiply F x s) i i mat"
  define iv' where "iv' = row_op n (\<lambda>x y. galois_single_multiply F x s) i i iv"
  have mf': "mf n mat' r c = (if r = i then galois_single_multiply F (mf n mat r c) s else mf n mat r c)"
    "mf n iv' r c = (if r = i then galois_single_multiply F (mf n iv r c) s else mf n iv r c)"
    if "r < n" "c < n" for r c
    using that assms(4) len by (simp_all add: mat'_def iv'_def mf_row_op [of _ n])
  have "gauss_inv n A (mf n mat') (mf n iv')"
    using gauss_inv_scale [OF g assms(2,4) s(2) \<open>s \<noteq> 0\<close>] mf' by (rule gauss_inv_cong)
  moreover have "upper_tri n i (mf n mat')"
    using assms(3,4) mf'(1) s(2) unfolding upper_tri_def by (auto simp: mult_0')
  moreover have "mf n mat' i i = 1" using mf'(1) [of i i] assms(4) st by simp
  moreover have "invert_scale F n i (mat, iv) = Some (mat', iv')"
    using False s(1) by (simp add: invert_scale_def mf_def mult.commute mat'_def iv'_def Let_def)
  ultimately show ?thesis using len by (simp add: inv_state_def mat'_def iv'_def)
qed

lemma eliminate_row:
  assumes "inv_state n A (mat, iv)" "emat n A" "i < n" "j < n" "i \<noteq> j"
  defines "tmp \<equiv> mf n mat j i"
  defines "mat' \<equiv> row_op n (\<lambda>x y. x XOR galois_single_multiply F tmp y) j i mat"
    and "iv' \<equiv> row_op n (\<lambda>x y. x XOR galois_single_multiply F tmp y) j i iv"
  shows "inv_state n A (mat', iv')"
    and "r < n \<Longrightarrow> c < n \<Longrightarrow> mf n mat' r c =
      (if r = j then mf n mat j c XOR galois_single_multiply F tmp (mf n mat i c) else mf n mat r c)"
proof -
  have len: "length mat = n * n" "length iv = n * n" and g: "gauss_inv n A (mf n mat) (mf n iv)"
    using assms(1) by (auto simp: inv_state_def)
  have el: "felem F tmp" unfolding tmp_def using g assms(3,4) by (auto simp: gauss_invariant_def elem_mat_def)
  have mf': "mf n mat' r c =
      (if r = j then mf n mat j c XOR galois_single_multiply F tmp (mf n mat i c) else mf n mat r c)"
    "mf n iv' r c =
      (if r = j then mf n iv j c XOR galois_single_multiply F tmp (mf n iv i c) else mf n iv r c)"
    if "r < n" "c < n" for r c
    using that assms(3,4) len by (simp_all add: mat'_def iv'_def mf_row_op [of _ n])
  show "r < n \<Longrightarrow> c < n \<Longrightarrow> mf n mat' r c =
      (if r = j then mf n mat j c XOR galois_single_multiply F tmp (mf n mat i c) else mf n mat r c)"
    by (rule mf'(1))
  have "gauss_inv n A (mf n mat') (mf n iv')"
    using gauss_inv_add [OF g assms(2-5) el] mf' by (rule gauss_inv_cong)
  then show "inv_state n A (mat', iv')" using len by (simp add: inv_state_def mat'_def iv'_def)
qed

text \<open>Adding the pivot row itself is the case of the factor 1.\<close>

lemma row_op_one:
  assumes "length m = n * n" "i < n" "j < n" "emat n (mf n m)"
  shows "row_op n (\<lambda>x y. x XOR y) j i m = row_op n (\<lambda>x y. x XOR galois_single_multiply F 1 y) j i m"
proof (rule nth_equalityI)
  fix k assume "k < length (row_op n (\<lambda>x y. x XOR y) j i m)"
  then have k: "k < n * n" using assms(1) by simp
  then have n: "0 < n" by (cases n) auto
  define r c where "r = k div n" and "c = k mod n"
  have rc: "r < n" "c < n" "k = r * n + c"
    using k n by (auto simp: r_def c_def less_mult_imp_div_less)
  have "mf n (row_op n (\<lambda>x y. x XOR y) j i m) r c =
        mf n (row_op n (\<lambda>x y. x XOR galois_single_multiply F 1 y) j i m) r c"
    using assms rc by (simp add: mf_row_op [of _ n] mult_1 elem_mat_def)
  then show "row_op n (\<lambda>x y. x XOR y) j i m ! k =
      row_op n (\<lambda>x y. x XOR galois_single_multiply F 1 y) j i m ! k"
    by (simp add: mf_def rc(3))
qed simp

lemma eliminate:
  assumes "inv_state n A (mat, iv)" "emat n A" "i < n" "upper_tri n i (mf n mat)" "mf n mat i i = 1"
  shows "\<exists>mat' iv'. invert_eliminate F n i (mat, iv) = (mat', iv') \<and> inv_state n A (mat', iv') \<and>
     upper_tri n (Suc i) (mf n mat')"
proof -
  define f where "f = (\<lambda>j (mat, iv).
    (let tmp = mat ! (n * j + i)
     in if tmp \<noteq> 0
        then (if tmp = 1
              then (row_op n (\<lambda>x y. x XOR y) j i mat, row_op n (\<lambda>x y. x XOR y) j i iv)
              else (row_op n (\<lambda>x y. x XOR galois_single_multiply F tmp y) j i mat,
                    row_op n (\<lambda>x y. x XOR galois_single_multiply F tmp y) j i iv))
        else (mat, iv)))"
  define P where "P j s \<longleftrightarrow> (case s of (mat, iv) \<Rightarrow> inv_state n A (mat, iv) \<and> upper_tri n i (mf n mat) \<and>
      mf n mat i i = 1 \<and> (\<forall>r. i < r \<and> r < j \<longrightarrow> mf n mat r i = 0))" for j s
  have "P n (fold f [i + 1..<n] (mat, iv))"
  proof (rule fold_upt_inv [where P = P])
    show "P (i + 1) (mat, iv)" using assms by (auto simp: P_def)
    fix j s assume j: "i + 1 \<le> j" "j < n" and P: "P j s"
    obtain m v where s: "s = (m, v)" by (cases s)
    have st: "inv_state n A (m, v)" "upper_tri n i (mf n m)" "mf n m i i = 1"
      "\<And>r. i < r \<Longrightarrow> r < j \<Longrightarrow> mf n m r i = 0" using P by (auto simp: P_def s)
    have len: "length m = n * n" "length v = n * n" "emat n (mf n m)" "emat n (mf n v)"
      using st(1) by (auto simp: inv_state_def gauss_invariant_def)
    define tmp where "tmp = mf n m j i"
    have tmp: "m ! (n * j + i) = tmp" by (simp add: tmp_def mf_def mult.commute)
    show "P (Suc j) (f j s)"
    proof (cases "tmp = 0")
      case True
      then have "f j s = (m, v)" using tmp by (simp add: f_def s)
      then show ?thesis using st True by (auto simp: P_def tmp_def less_Suc_eq)
    next
      case False
      define m' where "m' = row_op n (\<lambda>x y. x XOR galois_single_multiply F tmp y) j i m"
      define v' where "v' = row_op n (\<lambda>x y. x XOR galois_single_multiply F tmp y) j i v"
      have eq: "f j s = (m', v')"
        using tmp False row_op_one [OF len(1) assms(3) j(2) len(3)] row_op_one [OF len(2) assms(3) j(2) len(4)]
        by (auto simp: f_def s m'_def v'_def Let_def)
      note row = eliminate_row [OF st(1) assms(2,3) j(2), folded tmp_def, folded m'_def v'_def]
      have ij: "i \<noteq> j" using j by simp
      have el: "felem F tmp" using len(3) assms(3) j by (simp add: elem_mat_def tmp_def)
      have "upper_tri n i (mf n m')"
        unfolding upper_tri_def
      proof (intro conjI allI impI)
        fix r c assume rc: "r < n" "c < i" "c < r"
        have "mf n m i c = 0" "mf n m r c = 0" using st(2) rc assms(3) by (auto simp: upper_tri_def)
        then show "mf n m' r c = 0" using row(2) [OF ij rc(1)] rc assms(3) el by (auto simp: mult_0)
      next
        fix r assume "r < i"
        then show "mf n m' r r = 1" using row(2) [OF ij, of r r] st(2) assms(3) j by (auto simp: upper_tri_def)
      qed
      moreover have "mf n m' i i = 1" using row(2) [OF ij assms(3,3)] ij st(3) by simp
      moreover have "mf n m' r i = 0" if "i < r" "r < Suc j" for r
        using row(2) [OF ij, of r i] that st(3,4) j el assms(3) by (cases "r = j") (auto simp: mult_1' tmp_def)
      ultimately show ?thesis using row(1) [OF ij] eq by (simp add: P_def)
    qed
  qed (use assms(3) in simp)
  moreover have "invert_eliminate F n i = fold f [i + 1..<n]" by (simp add: invert_eliminate_def f_def)
  ultimately show ?thesis
    by (cases "fold f [i + 1..<n] (mat, iv)") (auto simp: P_def upper_tri_def less_Suc_eq)
qed

lemma forward:
  assumes "length mat = n * n" "emat n (mf n mat)"
  shows "\<exists>s. ofold (invert_column F n) [0..<n] (Inr (mat, identity_list n)) = Some s \<and>
     (case s of Inl _ \<Rightarrow> \<not> regular n (mf n mat)
      | Inr (mat', iv') \<Rightarrow> inv_state n (mf n mat) (mat', iv') \<and> upper_tri n n (mf n mat'))"
proof (rule ofold_upt_inv [where P = "\<lambda>i s. case s of Inl _ \<Rightarrow> \<not> regular n (mf n mat)
      | Inr (mat', iv') \<Rightarrow> inv_state n (mf n mat) (mat', iv') \<and> upper_tri n i (mf n mat')"])
  show "case Inr (mat, identity_list n) of Inl _ \<Rightarrow> \<not> regular n (mf n mat)
      | Inr (mat', iv') \<Rightarrow> inv_state n (mf n mat) (mat', iv') \<and> upper_tri n 0 (mf n mat')"
    using assms gauss_inv_init [OF assms(2) mf_identity_list]
    by (simp add: inv_state_def upper_tri_def)
next
  fix i and s :: invert_state
  assume i: "i < n" and P: "case s of Inl _ \<Rightarrow> \<not> regular n (mf n mat)
      | Inr (mat', iv') \<Rightarrow> inv_state n (mf n mat) (mat', iv') \<and> upper_tri n i (mf n mat')"
  show "\<exists>s'. invert_column F n i s = Some s' \<and> (case s' of Inl _ \<Rightarrow> \<not> regular n (mf n mat)
      | Inr (mat', iv') \<Rightarrow> inv_state n (mf n mat) (mat', iv') \<and> upper_tri n (Suc i) (mf n mat'))"
  proof (cases s)
    case (Inl u)
    then show ?thesis using P by (simp add: invert_column_def)
  next
    case (Inr mv)
    obtain m v where mv: "mv = (m, v)" by (cases mv)
    have st: "inv_state n (mf n mat) (m, v)" "upper_tri n i (mf n m)" using P Inr mv by auto
    show ?thesis
    proof (cases "invert_pivot n i (m, v)")
      case None
      then show ?thesis using pivot_none [OF st i None] Inr mv by (simp add: invert_column_def)
    next
      case (Some mv1)
      obtain m1 v1 where mv1: "mv1 = (m1, v1)" by (cases mv1)
      note p = pivot_some [OF st i Some [unfolded mv1]]
      obtain m2 v2 where s2: "invert_scale F n i (m1, v1) = Some (m2, v2)" "inv_state n (mf n mat) (m2, v2)"
        "upper_tri n i (mf n m2)" "mf n m2 i i = 1"
        using scale [OF p(1) assms(2) p(2) i p(3)] by auto
      then show ?thesis
        using eliminate [OF s2(2) assms(2) i s2(3,4)] Inr mv Some mv1 by (auto simp: invert_column_def)
    qed
  qed
qed simp

lemma back_column:
  assumes "inv_state n A (mat, iv)" "emat n A" "i < n" "back_tri n (Suc i) (mf n mat)"
  shows "\<exists>mat' iv'. invert_back F n i (mat, iv) = (mat', iv') \<and> inv_state n A (mat', iv') \<and>
     back_tri n i (mf n mat')"
proof -
  define P where "P j s \<longleftrightarrow> (case s of (mat, iv) \<Rightarrow> inv_state n A (mat, iv) \<and>
      back_tri n (Suc i) (mf n mat) \<and> (\<forall>r<j. mf n mat r i = 0))" for j s
  have "P i (invert_back F n i (mat, iv))"
    unfolding invert_back_def
  proof (rule fold_upt_inv [where P = P])
    show "P 0 (mat, iv)" using assms by (auto simp: P_def)
    fix j s assume j: "j < i" and P: "P j s"
    obtain m v where s: "s = (m, v)" by (cases s)
    have st: "inv_state n A (m, v)" "back_tri n (Suc i) (mf n m)" "\<forall>r<j. mf n m r i = 0"
      using P by (auto simp: P_def s)
    have len: "length m = n * n" "length v = n * n" "emat n (mf n m)"
      using st(1) by (auto simp: inv_state_def gauss_invariant_def)
    define tmp where "tmp = mf n m j i"
    have jn: "j < n" "i \<noteq> j" using j assms(3) by auto
    have el: "felem F tmp" using len(3) assms(3) jn by (simp add: elem_mat_def tmp_def)
    show "P (Suc j) (case s of (mat, iv) \<Rightarrow>
      (let tmp = mat ! (j * n + i)
       in if tmp \<noteq> 0
          then (mat[j * n + i := 0],
                row_op n (\<lambda>x y. x XOR galois_single_multiply F tmp y) j i iv)
          else (mat, iv)))"
    proof (cases "tmp = 0")
      case True
      then show ?thesis using st by (auto simp: P_def s tmp_def mf_def less_Suc_eq)
    next
      case False
      define m' where "m' = row_op n (\<lambda>x y. x XOR galois_single_multiply F tmp y) j i m"
      define v' where "v' = row_op n (\<lambda>x y. x XOR galois_single_multiply F tmp y) j i v"
      note row = eliminate_row [OF st(1) assms(2,3) jn(1,2), folded tmp_def, folded m'_def v'_def]
      let ?m = "m[j * n + i := 0]"
      have up: "mf n ?m r c = (if r = j \<and> c = i then 0 else mf n m r c)" if "r < n" "c < n" for r c
        using mf_update [OF len(1) jn(1) assms(3) that(2)] .
      have same: "mf n m' r c = mf n ?m r c" if "r < n" "c < n" for r c
        using row(2) [OF that] up [OF that] back_tri_row [OF st(2) assms(3) that(2)] el
        by (auto simp: mult_0 mult_1' tmp_def)
      have "gauss_inv n A (mf n m') (mf n v')" using row(1) unfolding inv_state_def by blast
      then have "gauss_inv n A (mf n ?m) (mf n v')" using same [symmetric] refl by (rule gauss_inv_cong)
      then have "inv_state n A (?m, v')" using len by (simp add: inv_state_def v'_def)
      moreover have "back_tri n (Suc i) (mf n ?m)"
        using st(2) up jn(2) unfolding back_tri_def upper_tri_def by auto
      moreover have "\<forall>r<Suc j. mf n ?m r i = 0" using st(3) up jn assms(3) by (auto simp: less_Suc_eq)
      ultimately show ?thesis using False by (simp add: P_def s v'_def tmp_def mf_def)
    qed
  qed simp
  then show ?thesis
    by (cases "invert_back F n i (mat, iv)")
       (auto simp: P_def intro: back_tri_step)
qed

lemma invert_matrix:
  assumes "length mat = n * n" "emat n (mf n mat)"
  shows "\<exists>ret mat' iv. jerasure_invert_matrix F mat n = Some (ret, mat', iv) \<and>
     (if regular n (mf n mat)
      then ret = 0 \<and> length iv = n * n \<and> emat n (mf n iv) \<and> is_identity n (mprod n (mf n iv) (mf n mat))
      else ret = - 1)"
proof -
  obtain s where s: "ofold (invert_column F n) [0..<n] (Inr (mat, identity_list n)) = Some s"
    "case s of Inl _ \<Rightarrow> \<not> regular n (mf n mat)
      | Inr (mat', iv') \<Rightarrow> inv_state n (mf n mat) (mat', iv') \<and> upper_tri n n (mf n mat')"
    using forward [OF assms] by blast
  show ?thesis
  proof (cases s)
    case (Inl u)
    then show ?thesis using s by (cases u) (auto simp: jerasure_invert_matrix_def)
  next
    case (Inr mv)
    define P where "P i s \<longleftrightarrow> (case s of (m, v) \<Rightarrow> inv_state n (mf n mat) (m, v) \<and> back_tri n i (mf n m))" for i s
    have "P 0 (fold (invert_back F n) (rev [0..<n]) mv)"
    proof (rule fold_rev_upt_inv [where P = P])
      show "P n mv" using s(2) Inr by (auto simp: P_def back_tri_def)
      fix i s assume "i < n" "P (Suc i) s"
      then show "P i (invert_back F n i s)" using back_column [of n "mf n mat" _ _ i] assms(2) by (fastforce simp: P_def)
    qed simp
    then obtain m v where mv: "fold (invert_back F n) (rev [0..<n]) mv = (m, v)"
      "inv_state n (mf n mat) (m, v)" "back_tri n 0 (mf n m)" by (auto simp: P_def)
    have id: "is_identity n (mprod n (mf n v) (mf n mat))"
      using mv(2) back_tri_0 [OF mv(3)] by (intro gauss_inv_identity) (auto simp: inv_state_def)
    have v: "length v = n * n" "emat n (mf n v)"
      using mv(2) by (auto simp: inv_state_def gauss_invariant_def)
    have "regular n (mf n mat)" using left_inverse_regular [OF assms(2) v(2) id] .
    then show ?thesis using s(1) Inr mv(1) id v by (simp add: jerasure_invert_matrix_def)
  qed
qed

end

end
