(* ===== verification/Jer_Decode.thy ===== *)
theory Jer_Decode
  imports Jer_Invert
begin

text \<open>
  The test for invertibility, matrix products, the decoding matrix and the bit matrix of a
  matrix: what they compute in terms of the field.
\<close>

section \<open>The test for invertibility\<close>

definition proj_state :: "invert_state \<Rightarrow> unit + u32 list" where
  "proj_state s = (case s of Inl _ \<Rightarrow> Inl () | Inr (m, v) \<Rightarrow> Inr m)"

lemma fold_fst:
  assumes "\<And>j m v. fst (f j (m, v)) = g j m"
  shows "fst (fold f xs (m, v)) = fold g xs m"
proof (induction xs arbitrary: m v)
  case (Cons x xs)
  then show ?case using assms [of x m v] by (cases "f x (m, v)") auto
qed simp

lemma invertible_column_proj:
  "invertible_column F n i (proj_state s) = map_option proj_state (invert_column F n i s)"
proof (cases s)
  case (Inr mv)
  obtain m v where mv: "mv = (m, v)" by (cases mv)
  define g where "g = (\<lambda>j mat.
      (let tmp = mat ! (n * j + i)
       in if tmp \<noteq> 0
          then (if tmp = 1 then row_op n (\<lambda>x y. x XOR y) j i mat
                else row_op n (\<lambda>x y. x XOR galois_single_multiply F tmp y) j i mat)
          else mat))"
  have el: "fst (invert_eliminate F n i (m, v)) = fold g [i + 1..<n] m" for m v
    unfolding invert_eliminate_def g_def by (rule fold_fst) (simp add: Let_def)
  have el': "invert_eliminate F n i (m, v) = (fold g [i + 1..<n] m, snd (invert_eliminate F n i (m, v)))" for m v
    using el [of m v] by (cases "invert_eliminate F n i (m, v)") simp
  show ?thesis
    unfolding invertible_column_def invert_column_def g_def [symmetric]
    by (auto simp: proj_state_def Inr mv invert_pivot_def invert_scale_def Let_def el' [symmetric]
        split: option.splits) (subst el', simp)+
qed (simp add: proj_state_def invertible_column_def invert_column_def)

lemma invertible_loop_proj:
  "ofold (invertible_column F n) is (proj_state s) = map_option proj_state (ofold (invert_column F n) is s)"
  by (induction "is" arbitrary: s) (auto simp: invertible_column_proj split: option.splits)

context correct_field
begin

lemma invertible_matrix:
  assumes "length mat = n * n" "emat n (mf n mat)"
  shows "jerasure_invertible_matrix F mat n = Some (if regular n (mf n mat) then 1 else 0)"
proof -
  obtain s where s: "ofold (invert_column F n) [0..<n] (Inr (mat, identity_list n)) = Some s"
    "case s of Inl _ \<Rightarrow> \<not> regular n (mf n mat)
      | Inr (mat', iv') \<Rightarrow> inv_state n (mf n mat) (mat', iv') \<and> upper_tri n n (mf n mat')"
    using forward [OF assms] by blast
  have "ofold (invertible_column F n) [0..<n] (Inr mat) = Some (proj_state s)"
    using invertible_loop_proj [of F n "[0..<n]" "Inr (mat, identity_list n)"] s(1)
    by (simp add: proj_state_def)
  moreover obtain ret mat' iv where inv: "jerasure_invert_matrix F mat n = Some (ret, mat', iv)"
    "ret = (if regular n (mf n mat) then 0 else - 1)" using invert_matrix [OF assms] by (metis (no_types))
  ultimately show ?thesis
    using s by (cases s) (auto simp: jerasure_invertible_matrix_def jerasure_invert_matrix_def proj_state_def
        split: prod.splits if_splits)
qed

end

section \<open>Products of matrices\<close>

lemma matrix_multiply_entry:
  assumes "i < r1" "j < c2"
  shows "jerasure_matrix_multiply F m1 m2 r1 c1 r2 c2 ! (i * c2 + j) =
    xsum r2 (\<lambda>k. galois_single_multiply F (m1 ! (i * c1 + k)) (m2 ! (k * c2 + j)))"
proof -
  define v where "v = (\<lambda>(i, j). xsum r2 (\<lambda>k. galois_single_multiply F (m1 ! (i * c1 + k)) (m2 ! (k * c2 + j))))"
  define q where "q = (\<lambda>(i, j). i * c2 + j)"
  define xs where "xs = List.product [0..<r1] [0..<c2]"
  have inner: "fold (\<lambda>k p. p[i * c2 + j := p ! (i * c2 + j) XOR
      galois_single_multiply F (m1 ! (i * c1 + k)) (m2 ! (k * c2 + j))]) [0..<r2] p =
    p[i * c2 + j := p ! (i * c2 + j) XOR v (i, j)]" for i j p
    unfolding v_def using fold_accumulate_one by simp
  have "jerasure_matrix_multiply F m1 m2 r1 c1 r2 c2 =
      fold (\<lambda>x t. t[q x := t ! q x XOR v x]) xs (replicate (r1 * c2) 0)"
    unfolding jerasure_matrix_multiply_def inner fold_nested xs_def q_def
    by (simp add: case_prod_unfold)
  moreover have "distinct xs" by (simp add: xs_def distinct_product)
  moreover have "inj_on q (set xs)"
    using mat_index_eq [of _ c2] by (auto simp: inj_on_def q_def xs_def)
  moreover have "(i, j) \<in> set xs" using assms by (simp add: xs_def)
  moreover have "q (i, j) < r1 * c2" using mat_index_lt [OF assms] by (simp add: q_def)
  ultimately show ?thesis
    using nth_fold_accumulate [of xs q "(i, j)" "replicate (r1 * c2) 0" v] by (simp add: q_def v_def)
qed

section \<open>Generator matrices and decoding\<close>

text \<open>
  Row d of the generator: the first k devices hold the data, device k + i the product of row
  i of the coding matrix with the data.
\<close>

definition gen_row :: "nat \<Rightarrow> u32 list \<Rightarrow> nat \<Rightarrow> nat \<Rightarrow> u32" where
  "gen_row k matrix d j = (if d < k then (if j = d then 1 else 0) else matrix ! ((d - k) * k + j))"

definition codeword :: "gf_t \<Rightarrow> nat \<Rightarrow> u32 list \<Rightarrow> (nat \<Rightarrow> u32) \<Rightarrow> nat \<Rightarrow> u32" where
  "codeword F k matrix x d = xsum k (\<lambda>j. galois_single_multiply F (gen_row k matrix d j) (x j))"

lemma dm_ids_filter: "dm_ids k m erased = take k (filter (\<lambda>i. erased ! i = 0) [0..<k + m])"
proof -
  have "fold (\<lambda>i ids. if length ids < k \<and> erased ! i = 0 then ids @ [i] else ids) [0..<n] [] =
      take k (filter (\<lambda>i. erased ! i = 0) [0..<n])" for n
    by (induction n) auto
  then show ?thesis by (simp add: dm_ids_def)
qed

lemma dm_ids_props:
  assumes "i < length (dm_ids k m erased)"
  shows "dm_ids k m erased ! i < k + m" "erased ! (dm_ids k m erased ! i) = 0"
proof -
  have "dm_ids k m erased ! i \<in> set (filter (\<lambda>i. erased ! i = 0) [0..<k + m])"
    by (rule in_set_takeD [of _ k]) (use nth_mem [OF assms] in \<open>simp only: dm_ids_filter\<close>)
  then show "dm_ids k m erased ! i < k + m" "erased ! (dm_ids k m erased ! i) = 0" by auto
qed

lemma distinct_dm_ids: "distinct (dm_ids k m erased)"
  by (simp add: dm_ids_filter)

lemma length_dm_ids: "length (dm_ids k m erased) = min k (card {i. i < k + m \<and> erased ! i = 0})"
proof -
  have "set (filter (\<lambda>i. erased ! i = 0) [0..<k + m]) = {i. i < k + m \<and> erased ! i = 0}" by auto
  then have "length (filter (\<lambda>i. erased ! i = 0) [0..<k + m]) = card {i. i < k + m \<and> erased ! i = 0}"
    using distinct_card [OF distinct_filter [OF distinct_upt], of "\<lambda>i. erased ! i = 0" 0 "k + m"] by argo
  then show ?thesis by (simp add: dm_ids_filter min.commute)
qed

lemma decoding_rows_entry:
  assumes "i < k" "j < k"
  shows "decoding_rows k matrix ids ! (i * k + j) = gen_row k matrix (ids ! i) j"
proof -
  define f where "f = (\<lambda>i tmpmat.
        if ids ! i < k
        then (fold (\<lambda>j tmpmat. tmpmat[i * k + j := 0]) [0..<k] tmpmat)[i * k + ids ! i := 1]
        else fold (\<lambda>j tmpmat. tmpmat[i * k + j := matrix ! ((ids ! i - k) * k + j)]) [0..<k] tmpmat)"
  have row: "length (f a t) = length t \<and>
      (\<forall>r<k. \<forall>c<k. f a t ! (r * k + c) = (if r = a then gen_row k matrix (ids ! a) c else t ! (r * k + c)))"
    if a: "a < k" and t: "length t = k * k" for a and t :: "u32 list"
  proof -
    have up: "fold (\<lambda>j t. t[a * k + j := v j]) [0..<k] t ! (r * k + c) = (if r = a then v c else t ! (r * k + c))"
      if "r < k" "c < k" for v :: "nat \<Rightarrow> u32" and r c
      using that t mat_index_lt [OF that] mat_index_eq [OF _ that(2), of _ a r]
      by (subst nth_fold_update [where val = "v c"]) auto
    moreover have "ids ! a < k \<Longrightarrow> t'[a * k + ids ! a := 1] ! (r * k + c) =
        (if r = a \<and> c = ids ! a then 1 else t' ! (r * k + c))"
      if "r < k" "c < k" "length t' = k * k" for t' :: "u32 list" and r c
      using that mat_index_eq [OF that(2), of "ids ! a" r a] mat_index_lt [OF a, of "ids ! a" k]
      by (auto simp: nth_list_update)
    ultimately show ?thesis using t by (auto simp: f_def gen_row_def)
  qed
  have "length (fold f [0..<k] (replicate (k * k) 0)) = k * k \<and>
     (\<forall>r<k. \<forall>c<k. fold f [0..<k] (replicate (k * k) 0) ! (r * k + c) =
        (if r < k then gen_row k matrix (ids ! r) c else 0))"
    by (rule fold_upt_inv [where P = "\<lambda>n t. length t = k * k \<and> (\<forall>r<k. \<forall>c<k. t ! (r * k + c) =
        (if r < n then gen_row k matrix (ids ! r) c else 0))"])
       (use mat_index_lt in \<open>auto simp: row less_Suc_eq\<close>)
  then show ?thesis using assms unfolding decoding_rows_def f_def by simp
qed


lemma length_decoding_rows [simp]: "length (decoding_rows k matrix ids) = k * k"
proof -
  have "length (fold f xs t) = length t" if "\<And>i t. length (f i t) = length t"
    for f :: "nat \<Rightarrow> u32 list \<Rightarrow> u32 list" and xs t
    using that by (induction xs arbitrary: t) auto
  then show ?thesis unfolding decoding_rows_def by simp
qed

text \<open>
  A coding matrix is well formed for k data and m coding devices when its k m entries are
  field elements.
\<close>

definition coding_matrix :: "gf_t \<Rightarrow> nat \<Rightarrow> nat \<Rightarrow> u32 list \<Rightarrow> bool" where
  "coding_matrix F k m matrix \<longleftrightarrow> length matrix = m * k \<and> (\<forall>e\<in>set matrix. felem F e)"

context correct_field
begin

lemma elem_gen_row: "coding_matrix F k m matrix \<Longrightarrow> d < k + m \<Longrightarrow> j < k \<Longrightarrow> felem F (gen_row k matrix d j)"
  using mat_index_lt [of "d - k" m j k] elem_0 elem_1 by (auto simp: gen_row_def coding_matrix_def)

lemma emat_decoding_rows:
  assumes "coding_matrix F k m matrix" "\<forall>i<k. ids ! i < k + m"
  shows "emat k (mf k (decoding_rows k matrix ids))"
  using assms elem_gen_row by (auto simp: elem_mat_def mf_def decoding_rows_entry)

lemma codeword_data:
  assumes "\<forall>j<k. felem F (x j)" "d < k"
  shows "codeword F k matrix x d = x d"
proof -
  have "codeword F k matrix x d = xsum k (\<lambda>j. if j = d then x j else 0)"
    unfolding codeword_def gen_row_def using assms by (intro xsum_cong) (auto simp: mult_1 mult_0')
  then show ?thesis using assms by (simp add: xsum_delta)
qed

lemma elem_codeword:
  "coding_matrix F k m matrix \<Longrightarrow> \<forall>j<k. felem F (x j) \<Longrightarrow> d < k + m \<Longrightarrow> felem F (codeword F k matrix x d)"
  unfolding codeword_def by (intro elem_xsum elem_mult) (auto intro: elem_gen_row)

text \<open>The decoding matrix recovers the data from the surviving devices.\<close>

lemma make_decoding_matrix:
  assumes "coding_matrix F k m matrix" "k \<le> card {i. i < k + m \<and> erased ! i = 0}"
  defines "ids \<equiv> dm_ids k m erased"
  shows "\<exists>ret D. jerasure_make_decoding_matrix F k m matrix erased = Some (ret, D, ids) \<and> length ids = k \<and>
     (if regular k (mf k (decoding_rows k matrix ids))
      then ret = 0 \<and> length D = k * k \<and> emat k (mf k D) \<and>
        (\<forall>x. (\<forall>j<k. felem F (x j)) \<longrightarrow>
          (\<forall>j<k. xsum k (\<lambda>i. galois_single_multiply F (D ! (j * k + i)) (codeword F k matrix x (ids ! i))) = x j))
      else ret = - 1)"
proof -
  have len: "length ids = k" using assms(2) by (simp add: ids_def length_dm_ids)
  have ids: "\<forall>i<k. ids ! i < k + m" using dm_ids_props(1) [of _ k m erased] len by (simp add: ids_def)
  let ?A = "decoding_rows k matrix ids"
  note em = emat_decoding_rows [OF assms(1) ids]
  obtain ret m' D where inv: "jerasure_invert_matrix F ?A k = Some (ret, m', D)"
    "if regular k (mf k ?A)
      then ret = 0 \<and> length D = k * k \<and> emat k (mf k D) \<and> is_identity k (mprod k (mf k D) (mf k ?A))
      else ret = - 1"
    using invert_matrix [OF _ em] by auto
  have "jerasure_make_decoding_matrix F k m matrix erased = Some (ret, D, ids)"
    using inv(1) len by (simp add: jerasure_make_decoding_matrix_def ids_def Let_def)
  moreover have "xsum k (\<lambda>i. galois_single_multiply F (D ! (j * k + i)) (codeword F k matrix x (ids ! i))) = x j"
    if r: "regular k (mf k ?A)" and x: "\<forall>j<k. felem F (x j)" and j: "j < k" for x j
  proof -
    have "mvec k (mf k ?A) x i = codeword F k matrix x (ids ! i)" if "i < k" for i
      unfolding codeword_def mat_vec_def mf_def using that decoding_rows_entry by (intro xsum_cong) simp
    then have "xsum k (\<lambda>i. galois_single_multiply F (D ! (j * k + i)) (codeword F k matrix x (ids ! i))) =
        mvec k (mf k D) (mvec k (mf k ?A) x) j"
      unfolding mat_vec_def [of _ _ "mf k D"] by (intro xsum_cong) (simp add: mf_def)
    also have "\<dots> = x j" using inv(2) r by (intro left_inverse_vec [OF em _ _ x j]) auto
    finally show ?thesis .
  qed
  ultimately show ?thesis using inv(2) len by auto
qed

end

section \<open>The list of erasures\<close>

abbreviation mark_erased :: "u32 list \<Rightarrow> u32 list \<Rightarrow> u32 list" where
  "mark_erased \<equiv> fold (\<lambda>e erased. erased[unat e := 1])"

abbreviation alive :: "nat \<Rightarrow> u32 list \<Rightarrow> nat" where
  "alive td erased \<equiv> card {i. i < td \<and> erased ! i = 0}"

lemma alive_mark:
  assumes "length erased = td" "unat e < td" "erased ! unat e = 0"
  shows "alive td (erased[unat e := 1]) = alive td erased - 1"
proof -
  have "{i. i < td \<and> erased[unat e := 1] ! i = 0} = {i. i < td \<and> erased ! i = 0} - {unat e}"
    using assms by (auto simp: nth_list_update)
  then show ?thesis using assms by simp
qed

lemma alive_mark_mono:
  assumes "length erased = td"
  shows "alive td (mark_erased xs erased) \<le> alive td erased"
  using assms
proof (induction xs arbitrary: erased)
  case (Cons e xs)
  have "erased ! i = 0" if "i < td" "erased[unat e := 1] ! i = 0" for i
    using that Cons.prems by (cases "i = unat e") auto
  then have "alive td (erased[unat e := 1]) \<le> alive td erased"
    by (intro card_mono) auto
  then show ?case using Cons.IH [of "erased[unat e := 1]"] Cons.prems by simp
qed simp

lemma erasures_loop:
  assumes "\<forall>e\<in>set xs. e \<noteq> - 1 \<and> unat e < td" "length erased = td" "\<forall>i<td. erased ! i \<in> {0, 1}"
    "k \<le> alive td erased"
  shows "erasures_loop k td (xs @ - 1 # ys) erased (alive td erased) =
    Some (if k \<le> alive td (mark_erased xs erased) then Some (mark_erased xs erased) else None)"
  using assms
proof (induction xs arbitrary: erased)
  case (Cons e xs)
  have e: "e \<noteq> - 1" "unat e < td" using Cons.prems(1) by auto
  let ?er = "erased[unat e := 1]"
  show ?case
  proof (cases "erased ! unat e = 0")
    case False
    then have "erased ! unat e = 1" using Cons.prems(3) e by auto
    then have "?er = erased" by (metis list_update_id)
    then show ?thesis using Cons e False by simp
  next
    case True
    note al = alive_mark [OF Cons.prems(2) e(2) True]
    have mono: "alive td (mark_erased xs ?er) \<le> alive td ?er"
      using alive_mark_mono [of ?er td xs] Cons.prems(2) by simp
    have "\<forall>i<td. ?er ! i \<in> {0, 1}" using Cons.prems(2,3) e(2) by (auto simp: nth_list_update)
    then show ?thesis
      using Cons.IH [of ?er] Cons.prems e True al mono by auto
  qed
qed simp

lemma mark_erased_map:
  assumes "\<forall>e\<in>set xs. unat e < n"
  shows "mark_erased xs (replicate n 0) = map (\<lambda>i. if i \<in> unat ` set xs then 1 else 0) [0..<n]"
proof (rule nth_equalityI)
  fix i assume i: "i < length (mark_erased xs (replicate n 0))"
  then show "mark_erased xs (replicate n 0) ! i = map (\<lambda>i. if i \<in> unat ` set xs then 1 else 0) [0..<n] ! i"
    using nth_fold_update [of xs unat i "\<lambda>_. 1 :: u32" 1 "replicate n 0"] by auto
qed simp

lemma erasures_to_erased:
  assumes "\<forall>e\<in>set xs. e \<noteq> - 1 \<and> unat e < k + m"
  shows "jerasure_erasures_to_erased k m (xs @ - 1 # ys) =
    Some (if card (unat ` set xs) \<le> m
          then Some (map (\<lambda>i. if i \<in> unat ` set xs then 1 else 0) [0..<k + m]) else None)"
proof -
  let ?er = "mark_erased xs (replicate (k + m) 0)"
  note map = mark_erased_map [of xs "k + m"]
  have "{i. i < k + m \<and> ?er ! i = 0} = {..<k + m} - unat ` set xs"
    using map assms by (auto simp: nth_append)
  then have "alive (k + m) ?er = k + m - card (unat ` set xs)"
    using assms by (subst card_Diff_subset [symmetric, of "unat ` set xs" "{..<k + m}", simplified]) auto
  moreover have "card (unat ` set xs) \<le> k + m"
    using card_mono [of "{..<k + m}" "unat ` set xs"] assms by auto
  moreover have "alive (k + m) (replicate (k + m) 0) = k + m"
    by (simp add: nth_append cong: conj_cong)
  ultimately show ?thesis
    using erasures_loop [of xs "k + m" "replicate (k + m) 0" k ys] assms map
    unfolding jerasure_erasures_to_erased_def by (simp add: le_diff_conv2)
qed

end
