(* ===== verification/Gf_Region.thy ===== *)
theory Gf_Region
  imports Gf_Core
begin

text \<open>
  Region operations of GF-Complete (gf.c, and the region functions the default fields
  install): a region is a list of bytes at an address, of which only the alignment
  matters; source and destination do not overlap, or are the same region: every loop reads a
  word before it writes the word at the same place.  Words are read and written in
  little-endian order.  None stands for a failing assertion and for an access outside the
  region.
\<close>

section \<open>Words in memory\<close>

definition le_load :: "nat \<Rightarrow> u8 list \<Rightarrow> nat \<Rightarrow> 'a::len word" where
  "le_load n s p = foldr (\<lambda>b a. ucast b OR push_bit 8 a) (take n (drop p s)) 0"

definition le_store :: "nat \<Rightarrow> nat \<Rightarrow> 'a::len word \<Rightarrow> u8 list \<Rightarrow> u8 list" where
  "le_store n p v s = fold (\<lambda>i s. s[p + i := ucast (drop_bit (8 * i) v)]) [0..<n] s"

text \<open>
  A loop over cnt words of n bytes, from offset lo in both regions: each word of the
  destination becomes f of the source word and the old destination word.
\<close>

definition word_loop ::
  "nat \<Rightarrow> ('a::len word \<Rightarrow> 'a word \<Rightarrow> 'a word) \<Rightarrow> nat \<Rightarrow> nat \<Rightarrow> u8 list \<Rightarrow> u8 list \<Rightarrow> u8 list option" where
  "word_loop n f cnt lo s d =
    (if 0 < cnt \<and> (length s < lo + cnt * n \<or> length d < lo + cnt * n) then None
     else Some (fold (\<lambda>i d. le_store n (lo + i * n) (f (le_load n s (lo + i * n)) (le_load n d (lo + i * n))) d)
                  [0..<cnt] d))"

section \<open>Aligned and unaligned parts of a region\<close>

record gf_region_data =
  s_start :: nat
  d_start :: nat
  s_top :: nat
  d_top :: nat

text \<open>The field is given by its word size; None is the NULL pointer.\<close>

definition gf_set_region_data :: "nat option \<Rightarrow> nat \<Rightarrow> nat \<Rightarrow> nat \<Rightarrow> int \<Rightarrow> gf_region_data option" where
  "gf_set_region_data gf src dest bytes align =
    (let wb = (case gf of None \<Rightarrow> 1 | Some w \<Rightarrow> if w div 8 = 0 then 1 else w div 8)
     in if align = - 1 then
          (if (case gf of None \<Rightarrow> False | Some w \<Rightarrow> bytes mod w \<noteq> 0) then None
           else Some \<lparr>s_start = src, d_start = dest, s_top = src + bytes, d_top = src + bytes\<rparr>)
        else
          (let align = nat align;
               a = (if align \<le> 16 then align else 16)
           in if src mod a \<noteq> dest mod a then None
              else if src mod wb \<noteq> 0 then None
              else if bytes mod wb \<noteq> 0 then None
              else (let uls = (if src mod a \<noteq> 0 then a - src mod a else 0);
                        chunk = (bytes - uls) div align * align
                    in Some \<lparr>s_start = src + uls, d_start = dest + uls,
                             s_top = src + uls + chunk, d_top = dest + uls + chunk\<rparr>)))"

definition slow_product :: "gf_t \<Rightarrow> u32 \<Rightarrow> bool \<Rightarrow> u32 \<Rightarrow> u32 \<Rightarrow> u32" where
  "slow_product F v xr a d =
    (let mul = the (multiply F);
         p = (if h_w (scratch F) = 4 then mul v (a AND 0xf) OR push_bit 4 (mul v (drop_bit 4 a)) else mul v a)
     in if xr then p XOR d else p)"

text \<open>From offset lo up to the first word that starts at or after offset hi.\<close>

definition gf_slow_multiply_region ::
  "gf_t \<Rightarrow> u32 \<Rightarrow> bool \<Rightarrow> nat \<Rightarrow> nat \<Rightarrow> u8 list \<Rightarrow> u8 list \<Rightarrow> u8 list option" where
  "gf_slow_multiply_region F v xr lo hi s d =
    (let w = h_w (scratch F);
         wb = (if w div 8 = 0 then 1 else w div 8)
     in if hi \<le> lo then Some d
        else if w \<noteq> 4 \<and> w \<noteq> 8 \<and> w \<noteq> 16 \<and> w \<noteq> 32 then None
        else word_loop wb (slow_product F v xr) ((hi - lo + wb - 1) div wb) lo s d)"

definition gf_do_initial_region_alignment ::
  "gf_t \<Rightarrow> u32 \<Rightarrow> bool \<Rightarrow> gf_region_data \<Rightarrow> nat \<Rightarrow> u8 list \<Rightarrow> u8 list \<Rightarrow> u8 list option" where
  "gf_do_initial_region_alignment F v xr rd src s d =
    gf_slow_multiply_region F v xr 0 (s_start rd - src) s d"

definition gf_do_final_region_alignment ::
  "gf_t \<Rightarrow> u32 \<Rightarrow> bool \<Rightarrow> gf_region_data \<Rightarrow> nat \<Rightarrow> u8 list \<Rightarrow> u8 list \<Rightarrow> u8 list option" where
  "gf_do_final_region_alignment F v xr rd src s d =
    gf_slow_multiply_region F v xr (s_top rd - src) (length s) s d"

definition gf_multby_zero :: "bool \<Rightarrow> u8 list \<Rightarrow> u8 list" where
  "gf_multby_zero xr d = (if xr then d else replicate (length d) 0)"

abbreviation obind :: "'a option \<Rightarrow> ('a \<Rightarrow> 'b option) \<Rightarrow> 'b option" where
  "obind \<equiv> Option.bind"

definition xor8 :: "u8 \<Rightarrow> u8 \<Rightarrow> u8" where
  "xor8 s d = d XOR s"

definition xor64 :: "u64 \<Rightarrow> u64 \<Rightarrow> u64" where
  "xor64 s d = d XOR s"

definition gf_unaligned_xor :: "nat \<Rightarrow> u8 list \<Rightarrow> u8 list \<Rightarrow> u8 list option" where
  "gf_unaligned_xor dest s d =
    obind (gf_set_region_data None dest dest (length d) 64) (\<lambda>rd.
    (let lo = d_start rd - dest; hi = d_top rd - dest
     in obind (word_loop 1 xor8 lo 0 s d) (\<lambda>d.
        obind (ofold (\<lambda>b d. word_loop 8 xor64 8 (lo + b * 64) s d) [0..<(hi - lo) div 64] d) (\<lambda>d.
        word_loop 1 xor8 (length d - hi) hi s d))))"

text \<open>
  The last loop runs until its pointer is equal to the end of the region, which it never
  is when it starts behind it.
\<close>

definition gf_multby_one :: "nat \<Rightarrow> nat \<Rightarrow> bool \<Rightarrow> u8 list \<Rightarrow> u8 list \<Rightarrow> u8 list option" where
  "gf_multby_one src dest xr s d =
    (if \<not> xr then Some s
     else if src mod 8 \<noteq> dest mod 8 then gf_unaligned_xor dest s d
     else obind (gf_set_region_data None src dest (length d) 8) (\<lambda>rd.
       (let lo = d_start rd - dest; hi = d_top rd - dest
        in obind (word_loop 1 xor8 lo 0 s d) (\<lambda>d.
           obind (word_loop 8 xor64 ((hi - lo) div 8) lo s d) (\<lambda>d.
           if length d < hi then None
           else word_loop 1 xor8 (length d - hi) hi s d)))))"

section \<open>Region functions\<close>

text \<open>The product of four 16-bit words at once, from a table of products of two bytes.\<close>

definition two_byte_product :: "u32 list \<Rightarrow> u64 \<Rightarrow> u64" where
  "two_byte_product base a =
    (let step = (\<lambda>(a, prd). (push_bit 16 a, push_bit 16 prd XOR ucast (base ! unat (drop_bit 48 a))))
     in snd ((step ^^ 4) (a, 0)))"

definition gf_two_byte_region_table_multiply ::
  "bool \<Rightarrow> gf_region_data \<Rightarrow> nat \<Rightarrow> u32 list \<Rightarrow> u8 list \<Rightarrow> u8 list \<Rightarrow> u8 list option" where
  "gf_two_byte_region_table_multiply xr rd dest base s d =
    word_loop 8 (\<lambda>a b. if xr then two_byte_product base a XOR b else two_byte_product base a)
      ((d_top rd - d_start rd) div 8) (d_start rd - dest) s d"

definition gf_w8_table_multiply_region ::
  "u32 list \<Rightarrow> nat \<Rightarrow> nat \<Rightarrow> u32 \<Rightarrow> bool \<Rightarrow> u8 list \<Rightarrow> u8 list \<Rightarrow> u8 list option" where
  "gf_w8_table_multiply_region multtable src dest v xr s d =
    (if v = 0 then Some (gf_multby_zero xr d)
     else if v = 1 then gf_multby_one src dest xr s d
     else word_loop 1 (\<lambda>a b. (if xr then b else 0) XOR ucast (multtable ! (unat (a :: u8) * 256 + unat v)))
            (length d) 0 s d)"

text \<open>
  The functions that treat the middle of the region by words of their own and leave the two
  ends to the slow routine: wb is the size of the words of the middle.
\<close>

definition aligned_region ::
  "gf_t \<Rightarrow> int \<Rightarrow> (gf_region_data \<Rightarrow> u8 list \<Rightarrow> u8 list \<Rightarrow> u8 list option) \<Rightarrow>
   nat \<Rightarrow> nat \<Rightarrow> u32 \<Rightarrow> bool \<Rightarrow> u8 list \<Rightarrow> u8 list \<Rightarrow> u8 list option" where
  "aligned_region F align middle src dest v xr s d =
    obind (gf_set_region_data (Some (h_w (scratch F))) src dest (length d) align) (\<lambda>rd.
    obind (gf_do_initial_region_alignment F v xr rd src s d) (\<lambda>d.
    obind (middle rd s d) (\<lambda>d.
    gf_do_final_region_alignment F v xr rd src s d)))"

definition gf_w8_multiply_region_from_single ::
  "gf_t \<Rightarrow> nat \<Rightarrow> nat \<Rightarrow> u32 \<Rightarrow> bool \<Rightarrow> u8 list \<Rightarrow> u8 list \<Rightarrow> u8 list option" where
  "gf_w8_multiply_region_from_single F src dest v xr s d =
    (if v = 0 then Some (gf_multby_zero xr d)
     else if v = 1 then gf_multby_one src dest xr s d
     else aligned_region F 1 (\<lambda>rd. word_loop 1
              (\<lambda>(a :: u32) b. (if xr then b else 0) XOR the (multiply F) v a)
              (d_top rd - d_start rd) (d_start rd - dest)) src dest v xr s d)"

definition gf_w16_multiply_region_from_single ::
  "gf_t \<Rightarrow> nat \<Rightarrow> nat \<Rightarrow> u32 \<Rightarrow> bool \<Rightarrow> u8 list \<Rightarrow> u8 list \<Rightarrow> u8 list option" where
  "gf_w16_multiply_region_from_single F src dest v xr s d =
    (if v = 0 then Some (gf_multby_zero xr d)
     else if v = 1 then gf_multby_one src dest xr s d
     else aligned_region F 2 (\<lambda>rd. word_loop 2
              (\<lambda>(a :: u32) b. (if xr then b else 0) XOR the (multiply F) v a)
              ((d_top rd - d_start rd) div 2) (d_start rd - dest)) src dest v xr s d)"

definition gf_w16_log_multiply_region ::
  "gf_t \<Rightarrow> u32 list \<Rightarrow> u32 list \<Rightarrow> nat \<Rightarrow> nat \<Rightarrow> u32 \<Rightarrow> bool \<Rightarrow> u8 list \<Rightarrow> u8 list \<Rightarrow> u8 list option" where
  "gf_w16_log_multiply_region F log_tbl antilog_tbl src dest v xr s d =
    (if v = 0 then Some (gf_multby_zero xr d)
     else if v = 1 then gf_multby_one src dest xr s d
     else (let lv = unat (log_tbl ! unat v)
           in aligned_region F 2 (\<lambda>rd. word_loop 2
              (\<lambda>(a :: u32) b. (if xr then b else 0) XOR
                 (if a = 0 then 0 else antilog_tbl ! (lv + unat (log_tbl ! unat a))))
              ((d_top rd - d_start rd) div 2) (d_start rd - dest)) src dest v xr s d))"

text \<open>
  A table of the products with every byte, built by doubling: \<open>two\<close> multiplies by the
  polynomial x.  The value left is the operand times x^8.
\<close>

definition byte_table :: "('a::len word \<Rightarrow> 'a word) \<Rightarrow> 'a word \<Rightarrow> 'a word list \<times> 'a word" where
  "byte_table two v =
    fold (\<lambda>b (t, v). (fold (\<lambda>k t. t[k XOR 2 ^ b := v XOR t ! k]) [0..<2 ^ b] t, two v))
      [0..<8] (replicate 256 0, v)"

definition w16_two :: "u64 \<Rightarrow> u64 \<Rightarrow> u64" where
  "w16_two pp p = (if p AND push_bit 15 1 \<noteq> 0 then push_bit 1 p XOR pp else push_bit 1 p)"

definition split_product :: "u64 list \<Rightarrow> u64 list \<Rightarrow> u64 \<Rightarrow> u64" where
  "split_product htable ltable a =
    (let step = (\<lambda>(a, prd).
           (let prd = push_bit 16 prd XOR htable ! unat (drop_bit 56 a); a = push_bit 8 a;
                prd = prd XOR ltable ! unat (drop_bit 56 a)
            in (push_bit 8 a, prd)))
     in snd ((step ^^ 4) (a, 0)))"

definition gf_w16_split_8_16_lazy_multiply_region ::
  "gf_t \<Rightarrow> nat \<Rightarrow> nat \<Rightarrow> u32 \<Rightarrow> bool \<Rightarrow> u8 list \<Rightarrow> u8 list \<Rightarrow> u8 list option" where
  "gf_w16_split_8_16_lazy_multiply_region F src dest v xr s d =
    (if v = 0 then Some (gf_multby_zero xr d)
     else if v = 1 then gf_multby_one src dest xr s d
     else (let (ltable, v') = byte_table (w16_two (prim_poly (scratch F))) (ucast v);
               (htable, v'') = byte_table (w16_two (prim_poly (scratch F))) v'
           in aligned_region F 8 (\<lambda>rd. word_loop 8
                (\<lambda>a b. split_product htable ltable a XOR (if xr then b else 0))
                ((d_top rd - d_start rd) div 8) (d_start rd - dest)) src dest v xr s d))"

definition gf_w32_multiply_region_from_single ::
  "gf_t \<Rightarrow> u32 \<Rightarrow> bool \<Rightarrow> u8 list \<Rightarrow> u8 list \<Rightarrow> u8 list option" where
  "gf_w32_multiply_region_from_single F v xr s d =
    word_loop 4 (\<lambda>(a :: u32) b. (if xr then b else 0) XOR the (multiply F) v a) (length d div 4) 0 s d"

text \<open>
  The tables of GF(2^32) are kept with the value they were made for and made again when the
  value changes.
\<close>

record gf_split_8_32_lazy_data =
  last_value :: u32
  lazy_tables :: "u32 list list"

definition w32_two :: "u32 \<Rightarrow> u32 \<Rightarrow> u32" where
  "w32_two pp v = (if v AND push_bit 31 1 \<noteq> 0 then push_bit 1 v XOR pp else push_bit 1 v)"

definition w32_make_tables :: "u32 \<Rightarrow> u32 \<Rightarrow> u32 list list" where
  "w32_make_tables pp v =
    fst (fold (\<lambda>i (ts, v). case byte_table (w32_two pp) v of (t, v) \<Rightarrow> (ts @ [t], v)) [0..<4] ([], v))"

function w32_table_product :: "u32 list list \<Rightarrow> nat \<Rightarrow> u32 \<Rightarrow> u32 \<Rightarrow> u32" where
  "w32_table_product t i a p =
    (if a = 0 then p
     else w32_table_product t (i + 1) (drop_bit 8 a) (p XOR t ! i ! unat (a AND 0xff)))"
  by auto

termination
  by (relation "measure (\<lambda>(t, i, a, p). unat a)") (auto simp: unat_drop_byte)

declare w32_table_product.simps [simp del]

definition gf_w32_split_8_32_lazy_multiply_region ::
  "gf_t \<Rightarrow> gf_split_8_32_lazy_data \<Rightarrow> nat \<Rightarrow> nat \<Rightarrow> u32 \<Rightarrow> bool \<Rightarrow> u8 list \<Rightarrow> u8 list \<Rightarrow>
   (gf_split_8_32_lazy_data \<times> u8 list) option" where
  "gf_w32_split_8_32_lazy_multiply_region F d8 src dest v xr s d =
    (if v = 0 then Some (d8, gf_multby_zero xr d)
     else if v = 1 then map_option (Pair d8) (gf_multby_one src dest xr s d)
     else (let d8 = (if v \<noteq> last_value d8
                     then \<lparr>last_value = v, lazy_tables = w32_make_tables (ucast (prim_poly (scratch F))) v\<rparr>
                     else d8)
           in map_option (Pair d8) (aligned_region F 4 (\<lambda>rd. word_loop 4
                (\<lambda>a b. w32_table_product (lazy_tables d8) 0 a (if xr then b else 0))
                ((d_top rd - d_start rd) div 4) (d_start rd - dest)) src dest v xr s d)))"

text \<open>
  By-two multiplication of all elements of a 64-bit word at once.  \<open>AB2\<close> is the macro that
  multiplies every element by x; the loops and the special cases are those of the word that
  is stored or added.
\<close>

definition AB2 :: "nat \<Rightarrow> gf_bytwo_data \<Rightarrow> u64 \<Rightarrow> u64" where
  "AB2 w btd b =
    (let t1 = push_bit 1 b AND btd_mask1 btd;
         t2 = b AND btd_mask2 btd;
         t2 = push_bit 1 t2 - drop_bit (w - 1) t2
     in t1 XOR (t2 AND btd_prim_poly btd))"

function bytwo_p_word :: "nat \<Rightarrow> gf_bytwo_data \<Rightarrow> u32 \<Rightarrow> u64 \<Rightarrow> u64 \<Rightarrow> u64 \<Rightarrow> u64" where
  "bytwo_p_word w btd v ta amask prd =
    (if amask \<noteq> 0
     then (let prd = AB2 w btd prd;
               prd = (if ucast v AND amask \<noteq> 0 then prd XOR ta else prd)
           in bytwo_p_word w btd v ta (drop_bit 1 amask) prd)
     else prd)"
  by auto

termination
  by (relation "measure (\<lambda>(w, btd, v, ta, amask, prd). unat amask)") (auto simp: unat_halve [unfolded One_nat_def])

function bytwo_b_word :: "nat \<Rightarrow> gf_bytwo_data \<Rightarrow> u64 \<Rightarrow> u64 \<Rightarrow> u64 \<Rightarrow> u64" where
  "bytwo_b_word w btd ta tb prd =
    (let prd = (if tb AND 1 \<noteq> 0 then prd XOR ta else prd); tb = drop_bit 1 tb
     in if tb = 0 then prd else bytwo_b_word w btd (AB2 w btd ta) tb prd)"
  by auto

termination
proof (relation "measure (\<lambda>(w, btd, ta, tb, prd). unat tb)", goal_cases)
  case (2 w btd ta tb prd x xa)
  then have "tb \<noteq> 0" by auto
  then show ?case using 2 unat_halve by simp
qed simp

declare bytwo_p_word.simps [simp del] bytwo_b_word.simps [simp del]

definition add_or_store :: "bool \<Rightarrow> u64 \<Rightarrow> u64 \<Rightarrow> u64" where
  "add_or_store xr x d = (if xr then d XOR x else x)"

text \<open>The values for which the by-two functions have loops of their own.\<close>

definition bytwo_small_word :: "nat \<Rightarrow> gf_bytwo_data \<Rightarrow> u32 \<Rightarrow> u64 \<Rightarrow> u64" where
  "bytwo_small_word w btd v ta =
    (if v = 2 then AB2 w btd ta
     else if v = 3 then AB2 w btd ta XOR ta
     else if v = 4 then AB2 w btd (AB2 w btd ta)
     else if v = 5 then AB2 w btd (AB2 w btd ta) XOR ta
     else if v = 6 then AB2 w btd (AB2 w btd ta) XOR AB2 w btd ta
     else AB2 w btd (AB2 w btd (AB2 w btd ta)))"

definition bytwo_b_stored :: "nat \<Rightarrow> u32 list \<Rightarrow> gf_bytwo_data \<Rightarrow> u32 \<Rightarrow> bool \<Rightarrow> u64 \<Rightarrow> u64 \<Rightarrow> u64" where
  "bytwo_b_stored w small btd v xr ta d =
    (if v \<in> set small then add_or_store xr (bytwo_small_word w btd v ta) d
     else bytwo_b_word w btd ta (ucast v) (if xr then d else 0))"

definition gf_w8_bytwo_p_nosse_multiply_region ::
  "gf_t \<Rightarrow> gf_bytwo_data \<Rightarrow> nat \<Rightarrow> nat \<Rightarrow> u32 \<Rightarrow> bool \<Rightarrow> u8 list \<Rightarrow> u8 list \<Rightarrow> u8 list option" where
  "gf_w8_bytwo_p_nosse_multiply_region F btd src dest v xr s d =
    (if v = 0 then Some (gf_multby_zero xr d)
     else if v = 1 then gf_multby_one src dest xr s d
     else aligned_region F 8 (\<lambda>rd. word_loop 8 (\<lambda>a b. add_or_store xr (bytwo_p_word 8 btd v a 0x80 0) b)
            ((d_top rd - d_start rd) div 8) (d_start rd - dest)) src dest v xr s d)"

definition gf_w16_bytwo_p_nosse_multiply_region ::
  "gf_t \<Rightarrow> gf_bytwo_data \<Rightarrow> nat \<Rightarrow> nat \<Rightarrow> u32 \<Rightarrow> bool \<Rightarrow> u8 list \<Rightarrow> u8 list \<Rightarrow> u8 list option" where
  "gf_w16_bytwo_p_nosse_multiply_region F btd src dest v xr s d =
    (if v = 0 then Some (gf_multby_zero xr d)
     else if v = 1 then gf_multby_one src dest xr s d
     else aligned_region F 8 (\<lambda>rd. word_loop 8 (\<lambda>a b. add_or_store xr (bytwo_p_word 16 btd v a 0x8000 0) b)
            ((d_top rd - d_start rd) div 8) (d_start rd - dest)) src dest v xr s d)"

definition gf_w32_bytwo_p_nosse_multiply_region ::
  "gf_t \<Rightarrow> gf_bytwo_data \<Rightarrow> nat \<Rightarrow> nat \<Rightarrow> u32 \<Rightarrow> bool \<Rightarrow> u8 list \<Rightarrow> u8 list \<Rightarrow> u8 list option" where
  "gf_w32_bytwo_p_nosse_multiply_region F btd src dest v xr s d =
    (if v = 0 then Some (gf_multby_zero xr d)
     else if v = 1 then gf_multby_one src dest xr s d
     else aligned_region F 8 (\<lambda>rd. word_loop 8 (\<lambda>a b. add_or_store xr (bytwo_p_word 32 btd v a 0x80000000 0) b)
            ((d_top rd - d_start rd) div 8) (d_start rd - dest)) src dest v xr s d)"

definition gf_w8_bytwo_b_nosse_multiply_region ::
  "gf_t \<Rightarrow> gf_bytwo_data \<Rightarrow> nat \<Rightarrow> nat \<Rightarrow> u32 \<Rightarrow> bool \<Rightarrow> u8 list \<Rightarrow> u8 list \<Rightarrow> u8 list option" where
  "gf_w8_bytwo_b_nosse_multiply_region F btd src dest v xr s d =
    (if v = 0 then Some (gf_multby_zero xr d)
     else if v = 1 then gf_multby_one src dest xr s d
     else aligned_region F 16 (\<lambda>rd. word_loop 8 (bytwo_b_stored 8 [2, 3, 4, 5, 6, 8] btd v xr)
            ((d_top rd - d_start rd) div 8) (d_start rd - dest)) src dest v xr s d)"

definition gf_w16_bytwo_b_nosse_multiply_region ::
  "gf_t \<Rightarrow> gf_bytwo_data \<Rightarrow> nat \<Rightarrow> nat \<Rightarrow> u32 \<Rightarrow> bool \<Rightarrow> u8 list \<Rightarrow> u8 list \<Rightarrow> u8 list option" where
  "gf_w16_bytwo_b_nosse_multiply_region F btd src dest v xr s d =
    (if v = 0 then Some (gf_multby_zero xr d)
     else if v = 1 then gf_multby_one src dest xr s d
     else aligned_region F 16 (\<lambda>rd. word_loop 8 (bytwo_b_stored 16 [2, 3, 4, 5] btd v xr)
            ((d_top rd - d_start rd) div 8) (d_start rd - dest)) src dest v xr s d)"

definition gf_w32_bytwo_b_nosse_multiply_region ::
  "gf_t \<Rightarrow> gf_bytwo_data \<Rightarrow> nat \<Rightarrow> nat \<Rightarrow> u32 \<Rightarrow> bool \<Rightarrow> u8 list \<Rightarrow> u8 list \<Rightarrow> u8 list option" where
  "gf_w32_bytwo_b_nosse_multiply_region F btd src dest v xr s d =
    (if v = 0 then Some (gf_multby_zero xr d)
     else if v = 1 then gf_multby_one src dest xr s d
     else aligned_region F 32 (\<lambda>rd. word_loop 8 (bytwo_b_stored 32 [2, 3, 4, 5] btd v xr)
            ((d_top rd - d_start rd) div 8) (d_start rd - dest)) src dest v xr s d)"

definition patch :: "nat \<Rightarrow> u8 list \<Rightarrow> u8 list \<Rightarrow> u8 list" where
  "patch p x d = take p d @ x @ drop (p + length x) d"

text \<open>
  Every word is spread over w packets, one bit in each: multiplying is adding packets.
\<close>

definition gf_wgen_cauchy_region ::
  "gf_t \<Rightarrow> nat \<Rightarrow> nat \<Rightarrow> u32 \<Rightarrow> bool \<Rightarrow> u8 list \<Rightarrow> u8 list \<Rightarrow> u8 list option" where
  "gf_wgen_cauchy_region F src dest v xr s d =
    obind (gf_set_region_data (Some (h_w (scratch F))) src dest (length d) (- 1)) (\<lambda>rd.
    if v = 0 then Some (gf_multby_zero xr d)
    else if v = 1 then gf_multby_one src dest xr s d
    else
      (let w = h_w (scratch F);
           rs = length d div w
       in map_option (\<lambda>(v, written, d). d)
            (ofold (\<lambda>i (v, written, d).
               map_option (\<lambda>(written, d). (the (multiply F) v 2, written, d))
                 (ofold (\<lambda>j (written, d).
                    if v AND push_bit j 1 \<noteq> 0
                    then map_option (\<lambda>x. (written OR push_bit j 1, patch (j * rs) x d))
                           (gf_multby_one (src + i * rs) (dest + j * rs) (written AND push_bit j 1 \<noteq> 0)
                              (take rs (drop (i * rs) s)) (take rs (drop (j * rs) d)))
                    else Some (written, d)) [0..<w] (written, d)))
               [0..<w] (v, if xr then (- 1 :: u32) else 0, d))))"

section \<open>The region function of a field\<close>

definition gf_multiply_region ::
  "gf_t \<Rightarrow> gf_split_8_32_lazy_data \<Rightarrow> nat \<Rightarrow> nat \<Rightarrow> u32 \<Rightarrow> bool \<Rightarrow> u8 list \<Rightarrow> u8 list \<Rightarrow>
   (gf_split_8_32_lazy_data \<times> u8 list) option" where
  "gf_multiply_region F d8 src dest v xr s d =
    (case multiply_region F of
       None \<Rightarrow> None
     | Some f \<Rightarrow>
         (case f of
            Wgen_cauchy_region \<Rightarrow> map_option (Pair d8) (gf_wgen_cauchy_region F src dest v xr s d)
          | W8_table_region t \<Rightarrow> map_option (Pair d8) (gf_w8_table_multiply_region t src dest v xr s d)
          | W8_from_single \<Rightarrow> map_option (Pair d8) (gf_w8_multiply_region_from_single F src dest v xr s d)
          | W8_bytwo_p_region t \<Rightarrow> map_option (Pair d8) (gf_w8_bytwo_p_nosse_multiply_region F t src dest v xr s d)
          | W8_bytwo_b_region t \<Rightarrow> map_option (Pair d8) (gf_w8_bytwo_b_nosse_multiply_region F t src dest v xr s d)
          | W16_bytwo_p_region t \<Rightarrow> map_option (Pair d8) (gf_w16_bytwo_p_nosse_multiply_region F t src dest v xr s d)
          | W16_bytwo_b_region t \<Rightarrow> map_option (Pair d8) (gf_w16_bytwo_b_nosse_multiply_region F t src dest v xr s d)
          | W32_bytwo_p_region t \<Rightarrow> map_option (Pair d8) (gf_w32_bytwo_p_nosse_multiply_region F t src dest v xr s d)
          | W32_bytwo_b_region t \<Rightarrow> map_option (Pair d8) (gf_w32_bytwo_b_nosse_multiply_region F t src dest v xr s d)
          | W16_log_region l al \<Rightarrow> map_option (Pair d8) (gf_w16_log_multiply_region F l al src dest v xr s d)
          | W16_split_8_16_lazy_region \<Rightarrow>
              map_option (Pair d8) (gf_w16_split_8_16_lazy_multiply_region F src dest v xr s d)
          | W16_from_single \<Rightarrow> map_option (Pair d8) (gf_w16_multiply_region_from_single F src dest v xr s d)
          | W32_split_8_32_lazy_region \<Rightarrow> gf_w32_split_8_32_lazy_multiply_region F d8 src dest v xr s d
          | W32_from_single \<Rightarrow> map_option (Pair d8) (gf_w32_multiply_region_from_single F v xr s d)))"

text \<open>Reading word i of a region.\<close>

definition gf_w8_extract_word :: "u8 list \<Rightarrow> nat \<Rightarrow> u32" where
  "gf_w8_extract_word s i = ucast (s ! i)"

definition gf_w16_extract_word :: "u8 list \<Rightarrow> nat \<Rightarrow> u32" where
  "gf_w16_extract_word s i = le_load 2 s (2 * i)"

definition gf_w32_extract_word :: "u8 list \<Rightarrow> nat \<Rightarrow> u32" where
  "gf_w32_extract_word s i = le_load 4 s (4 * i)"

definition gf_extract_word :: "gf_t \<Rightarrow> u8 list \<Rightarrow> nat \<Rightarrow> u32" where
  "gf_extract_word F s i =
    (case extract_word F of
       Some W8_extract \<Rightarrow> gf_w8_extract_word s i
     | Some W16_extract \<Rightarrow> gf_w16_extract_word s i
     | Some W32_extract \<Rightarrow> gf_w32_extract_word s i
     | _ \<Rightarrow> gf_wgen_extract_word (scratch F) s (length s) i)"

end
