(* ===== verification/Jer_Devices.thy ===== *)
theory Jer_Devices
  imports Jer_Decode Gf_Region
begin

text \<open>
  The data path of jerasure.c over fields: devices are buffers that do not overlap, at
  addresses of which only the alignment matters.  Device i below k is \<open>data_ptrs[i]\<close>,
  device k + i is \<open>coding_ptrs[i]\<close>.  The state holds the table of fields (initialised
  on demand), the tables the field of 32 bits keeps between calls, the devices, and the
  three counters of \<open>jerasure_get_stats\<close> (doubles that hold integers).  None is a failing
  assertion or an access outside a buffer; allocations succeed.
\<close>

section \<open>State and regions\<close>

record jstate =
  gal :: galois
  lazy_data :: gf_split_8_32_lazy_data
  addr :: "nat \<Rightarrow> nat"
  dev :: "u8 list list"
  total_xor_bytes :: nat
  total_gf_bytes :: nat
  total_memcpy_bytes :: nat

definition dev_read :: "jstate \<Rightarrow> nat \<Rightarrow> nat \<Rightarrow> nat \<Rightarrow> u8 list option" where
  "dev_read st d off n =
    (if d < length (dev st) \<and> off + n \<le> length (dev st ! d) then Some (take n (drop off (dev st ! d))) else None)"

definition dev_write :: "nat \<Rightarrow> nat \<Rightarrow> u8 list \<Rightarrow> jstate \<Rightarrow> jstate" where
  "dev_write d off x st = st\<lparr>dev := (dev st)[d := patch off x (dev st ! d)]\<rparr>"

text \<open>The region function of the field for word sz w, found in the table.\<close>

definition galois_region :: "nat \<Rightarrow> nat \<Rightarrow> nat \<Rightarrow> u32 \<Rightarrow> nat \<Rightarrow> nat \<Rightarrow> nat \<Rightarrow> bool \<Rightarrow> jstate \<Rightarrow> jstate option" where
  "galois_region w src soff v nbytes dst doff add st =
    obind (galois_field True (gal st) w) (\<lambda>(g, F).
    obind (dev_read st src soff nbytes) (\<lambda>s.
    obind (dev_read st dst doff nbytes) (\<lambda>d.
    obind (gf_multiply_region F (lazy_data st) (addr st src + soff) (addr st dst + doff) v add s d) (\<lambda>(d8, d).
    Some (dev_write dst doff d (st\<lparr>gal := g, lazy_data := d8\<rparr>))))))"

definition galois_w08_region_multiply :: "nat \<Rightarrow> u32 \<Rightarrow> nat \<Rightarrow> nat \<Rightarrow> bool \<Rightarrow> jstate \<Rightarrow> jstate option" where
  "galois_w08_region_multiply src multby nbytes r2 add = galois_region 8 src 0 multby nbytes r2 0 add"

definition galois_w16_region_multiply :: "nat \<Rightarrow> u32 \<Rightarrow> nat \<Rightarrow> nat \<Rightarrow> bool \<Rightarrow> jstate \<Rightarrow> jstate option" where
  "galois_w16_region_multiply src multby nbytes r2 add = galois_region 16 src 0 multby nbytes r2 0 add"

definition galois_w32_region_multiply :: "nat \<Rightarrow> u32 \<Rightarrow> nat \<Rightarrow> nat \<Rightarrow> bool \<Rightarrow> jstate \<Rightarrow> jstate option" where
  "galois_w32_region_multiply src multby nbytes r2 add = galois_region 32 src 0 multby nbytes r2 0 add"

definition galois_w32_region_xor :: "nat \<Rightarrow> nat \<Rightarrow> nat \<Rightarrow> nat \<Rightarrow> nat \<Rightarrow> jstate \<Rightarrow> jstate option" where
  "galois_w32_region_xor src soff dst doff nbytes = galois_region 32 src soff 1 nbytes dst doff True"

definition galois_region_xor :: "nat \<Rightarrow> nat \<Rightarrow> nat \<Rightarrow> nat \<Rightarrow> nat \<Rightarrow> jstate \<Rightarrow> jstate option" where
  "galois_region_xor src soff dst doff nbytes st =
    (if nbytes \<ge> 16 then galois_w32_region_xor src soff dst doff nbytes st
     else obind (dev_read st src soff nbytes) (\<lambda>s.
          obind (dev_read st dst doff nbytes) (\<lambda>d.
          Some (dev_write dst doff (map2 (\<lambda>a b. b XOR a) s d) st))))"

definition dev_memcpy :: "nat \<Rightarrow> nat \<Rightarrow> nat \<Rightarrow> nat \<Rightarrow> nat \<Rightarrow> jstate \<Rightarrow> jstate option" where
  "dev_memcpy dst doff src soff nbytes st =
    obind (dev_read st src soff nbytes) (\<lambda>s.
    obind (dev_read st dst doff nbytes) (\<lambda>d.
    Some (dev_write dst doff s st)))"

text \<open>The copies and exclusive-ors with their counters.\<close>

definition counted_copy :: "nat \<Rightarrow> nat \<Rightarrow> nat \<Rightarrow> nat \<Rightarrow> nat \<Rightarrow> jstate \<Rightarrow> jstate option" where
  "counted_copy src soff dst doff n st =
    map_option (\<lambda>st. st\<lparr>total_memcpy_bytes := total_memcpy_bytes st + n\<rparr>) (dev_memcpy dst doff src soff n st)"

definition counted_xor :: "nat \<Rightarrow> nat \<Rightarrow> nat \<Rightarrow> nat \<Rightarrow> nat \<Rightarrow> jstate \<Rightarrow> jstate option" where
  "counted_xor src soff dst doff n st =
    map_option (\<lambda>st. st\<lparr>total_xor_bytes := total_xor_bytes st + n\<rparr>) (galois_region_xor src soff dst doff n st)"

definition jerasure_get_stats :: "jstate \<Rightarrow> (nat \<times> nat \<times> nat) \<times> jstate" where
  "jerasure_get_stats st =
    ((total_xor_bytes st, total_gf_bytes st, total_memcpy_bytes st),
     st\<lparr>total_xor_bytes := 0, total_gf_bytes := 0, total_memcpy_bytes := 0\<rparr>)"

section \<open>Dot products, encoding and decoding\<close>

definition src_dev :: "nat list option \<Rightarrow> nat \<Rightarrow> nat" where
  "src_dev src_ids i = (case src_ids of None \<Rightarrow> i | Some ids \<Rightarrow> ids ! i)"

text \<open>
  The bodies of the two loops of a dot product: first the copies and exclusive-ors of the
  sources with factor 1, then the products; the flag says whether the destination has been
  written.
\<close>

definition dot_copy_step ::
  "u32 list \<Rightarrow> nat list option \<Rightarrow> nat \<Rightarrow> nat \<Rightarrow> nat \<Rightarrow> bool \<times> jstate \<Rightarrow> (bool \<times> jstate) option" where
  "dot_copy_step matrix_row src_ids dest_id sz i = (\<lambda>(init, st).
    if matrix_row ! i = 1
    then map_option (Pair True)
           (if \<not> init then counted_copy (src_dev src_ids i) 0 dest_id 0 sz st
            else counted_xor (src_dev src_ids i) 0 dest_id 0 sz st)
    else Some (init, st))"

definition dot_multiply_step ::
  "nat \<Rightarrow> u32 list \<Rightarrow> nat list option \<Rightarrow> nat \<Rightarrow> nat \<Rightarrow> nat \<Rightarrow> bool \<times> jstate \<Rightarrow> (bool \<times> jstate) option" where
  "dot_multiply_step w matrix_row src_ids dest_id sz i = (\<lambda>(init, st).
    if matrix_row ! i \<noteq> 0 \<and> matrix_row ! i \<noteq> 1
    then map_option (\<lambda>st. (True, st\<lparr>total_gf_bytes := total_gf_bytes st + sz\<rparr>))
           (if w = 8 then galois_w08_region_multiply (src_dev src_ids i) (matrix_row ! i) sz dest_id init st
            else if w = 16 then galois_w16_region_multiply (src_dev src_ids i) (matrix_row ! i) sz dest_id init st
            else if w = 32 then galois_w32_region_multiply (src_dev src_ids i) (matrix_row ! i) sz dest_id init st
            else Some st)
    else Some (init, st))"

definition jerasure_matrix_dotprod ::
  "nat \<Rightarrow> nat \<Rightarrow> u32 list \<Rightarrow> nat list option \<Rightarrow> nat \<Rightarrow> nat \<Rightarrow> jstate \<Rightarrow> jstate option" where
  "jerasure_matrix_dotprod k w matrix_row src_ids dest_id sz st =
    (if w \<noteq> 1 \<and> w \<noteq> 8 \<and> w \<noteq> 16 \<and> w \<noteq> 32 then None
     else obind (ofold (dot_copy_step matrix_row src_ids dest_id sz) [0..<k] (False, st)) (\<lambda>s.
          map_option snd (ofold (dot_multiply_step w matrix_row src_ids dest_id sz) [0..<k] s)))"

definition jerasure_do_parity :: "nat \<Rightarrow> nat \<Rightarrow> nat \<Rightarrow> jstate \<Rightarrow> jstate option" where
  "jerasure_do_parity k parity sz st =
    obind (counted_copy 0 0 parity 0 sz st) (\<lambda>st.
    ofold (\<lambda>i st. counted_xor i 0 parity 0 sz st) [1..<k] st)"

definition matrix_row_of :: "nat \<Rightarrow> u32 list \<Rightarrow> nat \<Rightarrow> u32 list" where
  "matrix_row_of n matrix i = take n (drop (i * n) matrix)"

definition jerasure_matrix_encode :: "nat \<Rightarrow> nat \<Rightarrow> nat \<Rightarrow> u32 list \<Rightarrow> nat \<Rightarrow> jstate \<Rightarrow> jstate option" where
  "jerasure_matrix_encode k m w matrix sz st =
    (if w \<noteq> 8 \<and> w \<noteq> 16 \<and> w \<noteq> 32 then None
     else ofold (\<lambda>i st. jerasure_matrix_dotprod k w (matrix_row_of k matrix i) None (k + i) sz st) [0..<m] st)"

text \<open>
  The number of erased data devices and the last one; the latter is k when it cannot be
  decoded from the parity row.
\<close>

definition erased_data :: "nat \<Rightarrow> u32 list \<Rightarrow> nat \<times> nat" where
  "erased_data k erased =
    fold (\<lambda>i (edd, lastdrive). if erased ! i \<noteq> 0 then (edd + 1, i) else (edd, lastdrive)) [0..<k] (0, k)"

text \<open>The loop that decodes the erased data devices before \<open>lastdrive\<close>, by the given step.\<close>

definition decode_data ::
  "nat \<Rightarrow> u32 list \<Rightarrow> (nat \<Rightarrow> jstate \<Rightarrow> jstate option) \<Rightarrow> nat \<times> jstate \<Rightarrow> (nat \<times> jstate) option" where
  "decode_data lastdrive erased step =
    ofold (\<lambda>i (edd, st). if edd > 0 \<and> erased ! i \<noteq> 0 then map_option (Pair (edd - 1)) (step i st) else Some (edd, st))
      [0..<lastdrive]"

definition parity_ids :: "nat \<Rightarrow> nat \<Rightarrow> nat list" where
  "parity_ids k lastdrive = map (\<lambda>i. if i < lastdrive then i else i + 1) [0..<k]"

text \<open>
  The field is looked up before the decoding matrix is made; the code looks it up at the first
  multiplication, so that the default field may be installed here when every product has a
  factor zero.
\<close>

definition jerasure_matrix_decode ::
  "nat \<Rightarrow> nat \<Rightarrow> nat \<Rightarrow> u32 list \<Rightarrow> bool \<Rightarrow> u32 list \<Rightarrow> nat \<Rightarrow> jstate \<Rightarrow> (int \<times> jstate) option" where
  "jerasure_matrix_decode k m w matrix row_k_ones erasures sz st =
    (if w \<noteq> 8 \<and> w \<noteq> 16 \<and> w \<noteq> 32 then Some (- 1, st)
     else obind (jerasure_erasures_to_erased k m erasures) (\<lambda>er.
       case er of
         None \<Rightarrow> Some (- 1, st)
       | Some erased \<Rightarrow>
           (let (edd, lastd) = erased_data k erased;
                lastdrive = (if \<not> row_k_ones \<or> erased ! k \<noteq> 0 then k else lastd)
            in obind (if edd > 1 \<or> (edd > 0 \<and> (\<not> row_k_ones \<or> erased ! k \<noteq> 0))
                      then obind (galois_field True (gal st) w) (\<lambda>(g, F).
                           obind (jerasure_make_decoding_matrix F k m matrix erased) (\<lambda>(ret, dm, ids).
                           Some (ret, dm, ids, st\<lparr>gal := g\<rparr>)))
                      else Some (0, [], [], st)) (\<lambda>(ret, decoding_matrix, ids, st).
               if ret < 0 then Some (- 1, st)
               else
                 obind (decode_data lastdrive erased (\<lambda>i st.
                     jerasure_matrix_dotprod k w (matrix_row_of k decoding_matrix i) (Some ids) i sz st)
                     (edd, st)) (\<lambda>(edd, st).
                 obind (if edd > 0
                        then jerasure_matrix_dotprod k w (matrix_row_of k matrix 0) (Some (parity_ids k lastdrive)) lastdrive sz st
                        else Some st) (\<lambda>st.
                 map_option (Pair 0) (ofold (\<lambda>i st.
                     if erased ! (k + i) \<noteq> 0
                     then jerasure_matrix_dotprod k w (matrix_row_of k matrix i) None (k + i) sz st
                     else Some st) [0..<m] st)))))))"

end
