(* ===== verification/Gf_Region_Correct.thy ===== *)
theory Gf_Region_Correct
  imports Gf_Region
begin

text \<open>
  The region operations compute word by word what the single multiplication computes: the
  alignment parts, the wide words of the middle part and the lookup tables do not show in
  the result.
\<close>

section \<open>Words in memory\<close>

lemma bit_le_load:
  "p + n \<le> length s \<Longrightarrow> 8 * n \<le> LENGTH('a) \<Longrightarrow>
   bit (le_load n s p :: 'a::len word) i \<longleftrightarrow> i < 8 * n \<and> bit (s ! (p + i div 8)) (i mod 8)"
proof (induction n arbitrary: p i)
  case 0 then show ?case by (simp add: le_load_def)
next
  case (Suc n)
  have "drop p s = s ! p # drop (Suc p) s" using Suc.prems(1) by (simp add: Cons_nth_drop_Suc)
  then have load: "le_load (Suc n) s p = (ucast (s ! p) OR push_bit 8 (le_load n s (Suc p)) :: 'a word)"
    by (simp add: le_load_def)
  show ?case
  proof (cases "i < 8")
    case True
    then show ?thesis using Suc.prems(2) by (auto simp: load bit_simps)
  next
    case False
    then obtain j where j: "i = j + 8" by (metis le_add_diff_inverse2 not_less)
    have "\<not> bit (s ! p) i" using bit_imp_le_length [of "s ! p" i] False by auto
    moreover have "(j + 8) div 8 = Suc (j div 8)" by simp
    ultimately show ?thesis using Suc.IH [of "Suc p" j] Suc.prems
      by (auto simp: load j bit_simps)
  qed
qed

lemma le_load_cong:
  "(\<And>i. i < n \<Longrightarrow> p + i < length s \<Longrightarrow> s ! (p + i) = s' ! (p + i)) \<Longrightarrow> length s = length s' \<Longrightarrow>
   le_load n s p = le_load n s' p"
proof -
  assume a: "\<And>i. i < n \<Longrightarrow> p + i < length s \<Longrightarrow> s ! (p + i) = s' ! (p + i)" "length s = length s'"
  have "take n (drop p s) = take n (drop p s')" by (rule nth_equalityI) (use a in auto)
  then show ?thesis by (simp add: le_load_def)
qed

lemma length_le_store [simp]: "length (le_store n p v s) = length s"
  by (simp add: le_store_def)

lemma nth_le_store:
  assumes "q < length s"
  shows "le_store n p v s ! q = (if p \<le> q \<and> q < p + n then ucast (drop_bit (8 * (q - p)) v) else s ! q)"
proof -
  have "(\<exists>x\<in>set [0..<n]. p + x = q) \<longleftrightarrow> p \<le> q \<and> q < p + n"
    by (auto intro: bexI [of _ "q - p"])
  then show ?thesis
    unfolding le_store_def using assms
    by (subst nth_fold_update [where val = "ucast (drop_bit (8 * (q - p)) v)"]) auto
qed

section \<open>Loops over the words of a region\<close>

definition loop_byte ::
  "nat \<Rightarrow> ('a::len word \<Rightarrow> 'a word \<Rightarrow> 'a word) \<Rightarrow> nat \<Rightarrow> u8 list \<Rightarrow> u8 list \<Rightarrow> nat \<Rightarrow> u8" where
  "loop_byte n f lo s d q =
    (let r = (q - lo) mod n; p = q - r in ucast (drop_bit (8 * r) (f (le_load n s p) (le_load n d p))))"

text \<open>The first m bytes of the destination have their final values, the rest are old.\<close>

definition region_done :: "(nat \<Rightarrow> u8) \<Rightarrow> u8 list \<Rightarrow> nat \<Rightarrow> u8 list \<Rightarrow> bool" where
  "region_done g d0 m d \<longleftrightarrow>
     length d = length d0 \<and> (\<forall>q<length d0. d ! q = (if q < m then g q else d0 ! q))"

lemma region_done_0: "region_done g d0 0 d0"
  by (simp add: region_done_def)

lemma region_done_all: "region_done g d0 (length d0) d \<Longrightarrow> d = map g [0..<length d0]"
  by (auto simp: region_done_def intro!: nth_equalityI)

lemma word_loop_done:
  assumes "region_done g d0 lo d" "0 < n" "lo + cnt * n \<le> length d0" "length s = length d0"
    and g: "\<And>q. lo \<le> q \<Longrightarrow> q < lo + cnt * n \<Longrightarrow> loop_byte n f lo s d0 q = g q"
  shows "\<exists>d'. word_loop n f cnt lo s d = Some d' \<and> region_done g d0 (lo + cnt * n) d'"
proof -
  define step where "step i d = le_store n (lo + i * n) (f (le_load n s (lo + i * n)) (le_load n d (lo + i * n))) d"
    for i d
  have "region_done g d0 (lo + cnt * n) (fold step [0..<cnt] d)"
  proof (rule fold_upt_inv [where P = "\<lambda>i d. region_done g d0 (lo + i * n) d"])
    show "region_done g d0 (lo + 0 * n) d" using assms(1) by simp
    fix i t assume i: "i < cnt" and t: "region_done g d0 (lo + i * n) t"
    have bound: "lo + i * n + n \<le> lo + cnt * n"
      using i mult_le_mono1 [of "Suc i" cnt n] by simp
    have load: "le_load n t (lo + i * n) = le_load n d0 (lo + i * n)"
      using t by (intro le_load_cong) (auto simp: region_done_def)
    have byte: "ucast (drop_bit (8 * (q - (lo + i * n))) (f (le_load n s (lo + i * n)) (le_load n d0 (lo + i * n)))) = g q"
      if q: "lo + i * n \<le> q" "q < lo + i * n + n" for q
    proof -
      have "q - lo = (q - (lo + i * n)) + i * n" using q by simp
      then have "(q - lo) mod n = (q - (lo + i * n))" using q by (simp only: mod_mult_self1) simp
      then show ?thesis using g [of q] q bound by (simp add: loop_byte_def Let_def)
    qed
    show "region_done g d0 (lo + Suc i * n) (step i t)"
      using t byte assms(3) by (auto simp: region_done_def step_def load nth_le_store algebra_simps)
  qed simp
  then show ?thesis using assms unfolding word_loop_def step_def by (auto simp: region_done_def)
qed

lemma loop_byte_shift:
  assumes "n dvd lo" "lo \<le> q"
  shows "loop_byte n f lo s d q = loop_byte n f 0 s d q"
proof -
  obtain k where "lo = n * k" using assms(1) by blast
  then have "(q - lo) mod n = q mod n"
    using assms(2) by (metis le_add_diff_inverse mod_mult_self4)
  then show ?thesis by (simp add: loop_byte_def)
qed

text \<open>A function on wide words that works on each of their narrow parts.\<close>

definition lane :: "nat \<Rightarrow> nat \<Rightarrow> 'b::len word \<Rightarrow> 'a::len word" where
  "lane n k a = ucast (take_bit (8 * n) (drop_bit (8 * n * k) a))"

definition lanes ::
  "nat \<Rightarrow> nat \<Rightarrow> ('b::len word \<Rightarrow> 'b word \<Rightarrow> 'b word) \<Rightarrow> ('a::len word \<Rightarrow> 'a word \<Rightarrow> 'a word) \<Rightarrow> bool" where
  "lanes N n g f \<longleftrightarrow> (\<forall>a b. \<forall>r<N. (ucast (drop_bit (8 * r) (g a b)) :: u8) =
     ucast (drop_bit (8 * (r mod n)) (f (lane n (r div n) a) (lane n (r div n) b))))"

lemma lane_le_load:
  assumes "p + N \<le> length s" "8 * N \<le> LENGTH('b)" "Suc k * n \<le> N" "8 * n \<le> LENGTH('a)"
  shows "(lane n k (le_load N s p :: 'b::len word) :: 'a::len word) = le_load n s (p + k * n)"
proof (rule bit_word_eqI)
  fix i assume i: "i < LENGTH('a)"
  have load: "bit (le_load N s p :: 'b word) j \<longleftrightarrow> j < 8 * N \<and> bit (s ! (p + j div 8)) (j mod 8)" for j
    using assms by (intro bit_le_load) auto
  have load': "bit (le_load n s (p + k * n) :: 'a word) j \<longleftrightarrow> j < 8 * n \<and> bit (s ! (p + k * n + j div 8)) (j mod 8)" for j
    using assms by (intro bit_le_load) auto
  have "(8 * n * k + i) div 8 = k * n + i div 8" "(8 * n * k + i) mod 8 = i mod 8"
    by (simp_all add: mult.assoc [of 8] mult.commute [of n])
  moreover have "8 * n * k + i < 8 * N" if "i < 8 * n"
    using that mult_le_mono2 [OF assms(3), of 8] by (simp add: algebra_simps)
  ultimately show "bit (lane n k (le_load N s p :: 'b word) :: 'a word) i = bit (le_load n s (p + k * n) :: 'a word) i"
    using i assms by (auto simp: lane_def bit_simps load load' add.assoc)
qed

lemma loop_byte_lanes:
  fixes g :: "'b::len word \<Rightarrow> 'b word \<Rightarrow> 'b word" and f :: "'a::len word \<Rightarrow> 'a word \<Rightarrow> 'a word"
  assumes "lanes N n g f" "n dvd N" "n dvd lo" "lo \<le> q" "0 < N" "0 < n"
    and "q - (q - lo) mod N + N \<le> length s" "length d = length s"
    and "8 * N \<le> LENGTH('b)" "8 * n \<le> LENGTH('a)"
  shows "loop_byte N g lo s d q = loop_byte n f 0 s d q"
proof -
  define R where "R = (q - lo) mod N"
  define p where "p = q - R"
  have R: "R < N" using assms(5) by (simp add: R_def)
  have r: "R mod n = q mod n"
  proof -
    have "R mod n = (q - lo) mod n" using assms(2) by (simp add: R_def mod_mod_cancel)
    also have "\<dots> = q mod n"
      using assms(3,4) by (metis dvd_def le_add_diff_inverse mod_mult_self4)
    finally show ?thesis .
  qed
  have "R \<le> q" unfolding R_def by (meson diff_le_self le_trans mod_less_eq_dividend)
  then have p: "p + R div n * n = q - q mod n"
    using r div_mult_mod_eq [of R n] unfolding p_def by linarith
  obtain c where c: "N = n * c" using assms(2) by blast
  then have "R div n < c" using R by (simp add: less_mult_imp_div_less mult.commute)
  then have bound: "Suc (R div n) * n \<le> N"
    using mult_le_mono1 [of "Suc (R div n)" c n] by (simp add: c mult.commute)
  have ld: "(lane n (R div n) (le_load N t p :: 'b word) :: 'a word) = le_load n t (q - q mod n)"
    if "length t = length s" for t
    using lane_le_load [of p N t "R div n" n] assms(7,9,10) bound that p by (simp add: p_def R_def)
  have "loop_byte N g lo s d q = ucast (drop_bit (8 * R) (g (le_load N s p) (le_load N d p)))"
    by (simp add: loop_byte_def R_def p_def Let_def)
  also have "\<dots> = ucast (drop_bit (8 * (R mod n)) (f (le_load n s (q - q mod n)) (le_load n d (q - q mod n))))"
    using assms(1,8) R ld by (simp add: lanes_def)
  finally show ?thesis by (simp add: loop_byte_def r Let_def)
qed


text \<open>The result of a region operation, word by word.\<close>

definition region_map :: "nat \<Rightarrow> ('a::len word \<Rightarrow> 'a word \<Rightarrow> 'a word) \<Rightarrow> u8 list \<Rightarrow> u8 list \<Rightarrow> u8 list" where
  "region_map n f s d = map (loop_byte n f 0 s d) [0..<length d]"

lemma length_region_map [simp]: "length (region_map n f s d) = length d"
  by (simp add: region_map_def)

lemma le_load_elem:
  "p + n \<le> length s \<Longrightarrow> 8 * n \<le> 32 \<Longrightarrow> gf_elem (8 * n) (le_load n s p)"
  by (rule gf_elemI) (simp add: bit_le_load)

lemma loop_word_in:
  assumes "n dvd length d" "q < length d" "0 < n"
  shows "q - q mod n + n \<le> length d"
proof -
  obtain c where c: "length d = n * c" using assms(1) by blast
  have "q div n < c" using assms(2) c by (simp add: less_mult_imp_div_less mult.commute)
  then have "Suc (q div n) * n \<le> c * n" by (intro mult_le_mono1) simp
  moreover have "q - q mod n = q div n * n" by (simp add: minus_mod_eq_div_mult)
  ultimately show ?thesis using c by (simp add: mult.commute)
qed

lemma region_map_cong:
  assumes "\<And>a b. gf_elem (8 * n) a \<Longrightarrow> gf_elem (8 * n) b \<Longrightarrow> f a b = f' a b"
    and "n dvd length d" "length s = length d" "0 < n" "8 * n \<le> 32"
  shows "region_map n f s d = region_map n f' s d"
proof -
  have "loop_byte n f 0 s d q = loop_byte n f' 0 s d q" if "q < length d" for q
    using assms le_load_elem [of "q - q mod n" n] loop_word_in [OF assms(2) that assms(4)]
    by (simp add: loop_byte_def Let_def)
  then show ?thesis by (simp add: region_map_def)
qed

text \<open>Reading a word of the result.\<close>

lemma le_load_region_map:
  fixes f :: "'a::len word \<Rightarrow> 'a word \<Rightarrow> 'a word"
  assumes "n * i + n \<le> length d" "length s = length d" "0 < n" "8 * n \<le> LENGTH('a)"
    and "\<And>j. bit (f (le_load n s (n * i)) (le_load n d (n * i))) j \<Longrightarrow> j < 8 * n"
  shows "le_load n (region_map n f s d) (n * i) = f (le_load n s (n * i)) (le_load n d (n * i))"
proof (rule bit_word_eqI)
  fix j assume j: "j < LENGTH('a)"
  show "bit (le_load n (region_map n f s d) (n * i) :: 'a word) j =
      bit (f (le_load n s (n * i)) (le_load n d (n * i))) j"
  proof (cases "j < 8 * n")
    case True
    then have jn: "j div 8 < n" by (simp add: less_mult_imp_div_less mult.commute)
    then have "(n * i + j div 8) mod n = j div 8" by simp
    then show ?thesis
      using bit_le_load [of "n * i" n "region_map n f s d" j] assms True jn j
      by (simp add: region_map_def loop_byte_def Let_def bit_simps)
  next
    case False
    then show ?thesis using assms by (auto simp: bit_le_load)
  qed
qed

lemma bytes_eqI:
  fixes s t :: "u8 list"
  assumes "length s = length t" "n dvd length t" "0 < n" "8 * n \<le> 32"
    and "\<And>i. n * i + n \<le> length t \<Longrightarrow> (le_load n s (n * i) :: u32) = le_load n t (n * i)"
  shows "s = t"
proof (rule nth_equalityI)
  fix q assume q: "q < length s"
  define p where "p = n * (q div n)"
  have p: "p + n \<le> length t"
    using loop_word_in [OF assms(2), of q] q assms(1,3) by (simp add: p_def minus_mod_eq_mult_div)
  show "s ! q = t ! q"
  proof (rule bit_word_eqI)
    fix i assume i: "i < LENGTH(8)"
    have "q mod n < n" using assms(3) by simp
    then have "8 * (q mod n) + i < 8 * n" using i by simp
    moreover have "p + (8 * (q mod n) + i) div 8 = q" "(8 * (q mod n) + i) mod 8 = i"
      using i by (simp_all add: p_def)
    ultimately show "bit (s ! q) i = bit (t ! q) i"
      using bit_le_load [where 'a = 32, of p n s "8 * (q mod n) + i"]
        bit_le_load [where 'a = 32, of p n t "8 * (q mod n) + i"] assms(1,4) p assms(5) [of "q div n"]
      by (simp add: p_def)
  qed
qed (use assms in simp)

section \<open>Multiplication by one\<close>

definition start_off :: "nat \<Rightarrow> nat \<Rightarrow> nat" where
  "start_off a x = (if x mod a \<noteq> 0 then a - x mod a else 0)"

lemma set_region_data:
  assumes "0 < al" "a = (if al \<le> 16 then al else 16)" "src mod a = dest mod a"
    "wb = (case gf of None \<Rightarrow> 1 | Some w \<Rightarrow> if w div 8 = 0 then 1 else w div 8)"
    "src mod wb = 0" "bytes mod wb = 0"
  shows "gf_set_region_data gf src dest bytes (int al) =
    (let u = start_off a src; c = (bytes - u) div al * al
     in Some \<lparr>s_start = src + u, d_start = dest + u, s_top = src + u + c, d_top = dest + u + c\<rparr>)"
  using assms by (simp add: gf_set_region_data_def start_off_def Let_def)

lemma start_off_lt: "0 < a \<Longrightarrow> start_off a x < a"
  by (simp add: start_off_def)

lemma start_off_aligned: "0 < a \<Longrightarrow> a dvd x + start_off a x"
proof (cases "x mod a = 0")
  case False
  assume "0 < a"
  then have "x + (a - x mod a) = x div a * a + a"
    using div_mult_mod_eq [of x a] mod_less_divisor [of a x] by linarith
  then show ?thesis using False by (simp add: start_off_def)
qed (auto simp: start_off_def)

text \<open>
  The part of a region that is left to wide words starts and ends at aligned addresses, and
  less than one wide word is left on either side.
\<close>

definition aligned_part :: "nat \<Rightarrow> nat \<Rightarrow> nat \<Rightarrow> nat \<Rightarrow> gf_region_data \<Rightarrow> bool" where
  "aligned_part al src dest bytes rd \<longleftrightarrow>
     (\<forall>x\<in>{s_start rd, s_top rd, d_start rd, d_top rd}. al dvd x) \<and>
     src \<le> s_start rd \<and> s_start rd < src + al \<and> s_start rd \<le> s_top rd \<and>
     s_top rd \<le> src + bytes \<and> src + bytes < s_top rd + al \<and>
     d_start rd + src = s_start rd + dest \<and> d_top rd + src = s_top rd + dest"

lemma region_aligned_part:
  assumes "0 < al" "al \<le> 16" "src mod al = dest mod al" "start_off al src \<le> bytes"
    and "wb = (case gf of None \<Rightarrow> 1 | Some w \<Rightarrow> if w div 8 = 0 then 1 else w div 8)" "src mod wb = 0" "bytes mod wb = 0"
  shows "\<exists>rd. gf_set_region_data gf src dest bytes (int al) = Some rd \<and> aligned_part al src dest bytes rd"
proof -
  let ?u = "start_off al src" and ?c = "(bytes - start_off al src) div al * al"
  have "start_off al src = start_off al dest" using assms(3) by (simp add: start_off_def)
  then have "al dvd src + ?u" "al dvd dest + ?u" using start_off_aligned [OF assms(1)] by metis+
  moreover have "al dvd ?c" by simp
  moreover have "?u + ?c \<le> bytes" "bytes < ?u + ?c + al"
    using div_mult_mod_eq [of "bytes - ?u" al] mod_less_divisor [OF assms(1), of "bytes - ?u"] assms(4) by linarith+
  ultimately have "aligned_part al src dest bytes
      \<lparr>s_start = src + ?u, d_start = dest + ?u, s_top = src + ?u + ?c, d_top = dest + ?u + ?c\<rparr>"
    using start_off_lt [OF assms(1), of src] by (simp add: aligned_part_def)
  then show ?thesis
    using set_region_data [of al al src dest wb gf bytes] assms by (simp add: Let_def)
qed

lemma lanes_xor: "lanes 8 1 xor64 xor8"
proof -
  have "ucast (drop_bit (8 * r) (b XOR a)) = (lane 1 r b XOR lane 1 r a :: u8)" for a b :: u64 and r
    by (rule bit_word_eqI) (auto simp: lane_def bit_simps)
  then show ?thesis by (simp add: lanes_def xor64_def xor8_def)
qed

abbreviation xor_byte :: "u8 list \<Rightarrow> u8 list \<Rightarrow> nat \<Rightarrow> u8" where
  "xor_byte s d \<equiv> loop_byte 1 xor8 0 s d"

lemma xor8_loop:
  assumes "region_done (xor_byte s d0) d0 lo d" "lo + cnt \<le> length d0" "length s = length d0"
  shows "\<exists>d'. word_loop 1 xor8 cnt lo s d = Some d' \<and> region_done (xor_byte s d0) d0 (lo + cnt) d'"
proof -
  have "loop_byte 1 xor8 lo s d0 q = xor_byte s d0 q" if "lo \<le> q" for q
    using that by (intro loop_byte_shift) simp_all
  then show ?thesis
    using word_loop_done [OF assms(1) zero_less_one, of cnt s xor8] assms(2,3)
    unfolding mult_1_right by blast
qed

lemma xor64_loop:
  assumes "region_done (xor_byte s d0) d0 lo d" "lo + cnt * 8 \<le> length d0" "length s = length d0"
  shows "\<exists>d'. word_loop 8 xor64 cnt lo s d = Some d' \<and> region_done (xor_byte s d0) d0 (lo + cnt * 8) d'"
proof (rule word_loop_done [OF assms(1) _ assms(2,3)])
  fix q assume q: "lo \<le> q" "q < lo + cnt * 8"
  then have "(q - lo) div 8 < cnt" by (simp add: less_mult_imp_div_less)
  then have "q - (q - lo) mod 8 + 8 \<le> lo + cnt * 8"
    using q div_mult_mod_eq [of "q - lo" 8] by linarith
  then show "loop_byte 8 xor64 lo s d0 q = xor_byte s d0 q"
    using q assms(2,3) by (intro loop_byte_lanes [OF lanes_xor]) simp_all
qed simp

lemma unaligned_xor:
  assumes "length s = length d" "16 \<le> length d"
  shows "gf_unaligned_xor dest s d = Some (region_map 1 xor8 s d)"
proof -
  define u where "u = start_off 16 dest"
  define c where "c = (length d - u) div 64"
  have u: "u < 16" using start_off_lt [of 16 dest] by (simp add: u_def)
  have hi: "u + c * 64 \<le> length d" using u assms(2) div_mult_mod_eq [of "length d - u" 64] unfolding c_def by linarith
  let ?D = "region_done (xor_byte s d) d"
  obtain d1 where d1: "word_loop 1 xor8 u 0 s d = Some d1" "?D u d1"
    using xor8_loop [OF region_done_0, of u d s] u assms by auto
  have "\<exists>d'. ofold (\<lambda>b d. word_loop 8 xor64 8 (u + b * 64) s d) [0..<c] d1 = Some d' \<and> ?D (u + c * 64) d'"
  proof (rule ofold_upt_inv [where P = "\<lambda>b d'. ?D (u + b * 64) d'"])
    fix b t assume b: "b < c" "?D (u + b * 64) t"
    then have "u + b * 64 + 8 * 8 \<le> length d" using hi mult_le_mono1 [of "Suc b" c 64] by simp
    then show "\<exists>t'. word_loop 8 xor64 8 (u + b * 64) s t = Some t' \<and> ?D (u + Suc b * 64) t'"
      using xor64_loop [OF b(2), of 8] assms(1) by (simp add: algebra_simps)
  qed (use d1 in auto)
  then obtain d2 where d2: "ofold (\<lambda>b d. word_loop 8 xor64 8 (u + b * 64) s d) [0..<c] d1 = Some d2" "?D (u + c * 64) d2"
    by blast
  obtain d3 where d3: "word_loop 1 xor8 (length d - (u + c * 64)) (u + c * 64) s d2 = Some d3" "?D (length d) d3"
    using xor8_loop [OF d2(2), of "length d - (u + c * 64)"] hi assms(1) by auto
  have "length d2 = length d" using d2(2) by (simp add: region_done_def)
  then show ?thesis
    using d1(1) d2(1) d3 region_done_all [OF d3(2)] set_region_data [of 64 16 dest dest 1 None "length d"]
    by (simp add: gf_unaligned_xor_def u_def [symmetric] c_def [symmetric] Let_def region_map_def)
qed

definition region_fits :: "nat \<Rightarrow> nat \<Rightarrow> nat \<Rightarrow> bool" where
  "region_fits src dest bytes \<longleftrightarrow> (src mod 8 = 0 \<and> dest mod 8 = 0) \<or> 16 \<le> bytes"

lemma region_fits_start:
  assumes "region_fits src dest bytes" "al \<in> {1, 2, 4, 8}"
  shows "start_off al src \<le> bytes"
proof (cases "16 \<le> bytes")
  case True
  have "0 < al" "al \<le> 8" using assms(2) by auto
  then show ?thesis using start_off_lt [of al src] True by linarith
next
  case False
  then have "8 dvd src" using assms(1) by (auto simp: region_fits_def)
  moreover have "al dvd 8" using assms(2) by auto
  ultimately have "al dvd src" by (rule dvd_trans [rotated])
  then show ?thesis by (simp add: start_off_def)
qed

lemma multby_one_xor:
  assumes "length s = length d" "region_fits src dest (length d)"
  shows "gf_multby_one src dest True s d = Some (region_map 1 xor8 s d)"
proof (cases "src mod 8 = dest mod 8")
  case False
  then show ?thesis using unaligned_xor [OF assms(1)] assms(2) by (auto simp: gf_multby_one_def region_fits_def)
next
  case True
  define u where "u = start_off 8 src"
  define c where "c = (length d - u) div 8"
  have u: "u < 8" "u \<le> length d" using start_off_lt [of 8 src] assms(2) by (auto simp: u_def region_fits_def start_off_def)
  have hi: "u + c * 8 \<le> length d" using u div_mult_mod_eq [of "length d - u" 8] unfolding c_def by linarith
  let ?D = "region_done (xor_byte s d) d"
  obtain d1 where d1: "word_loop 1 xor8 u 0 s d = Some d1" "?D u d1"
    using xor8_loop [OF region_done_0, of u d s] u assms by auto
  obtain d2 where d2: "word_loop 8 xor64 c u s d1 = Some d2" "?D (u + c * 8) d2"
    using xor64_loop [OF d1(2) hi assms(1)] by blast
  obtain d3 where d3: "word_loop 1 xor8 (length d - (u + c * 8)) (u + c * 8) s d2 = Some d3" "?D (length d) d3"
    using xor8_loop [OF d2(2), of "length d - (u + c * 8)"] hi assms(1) by auto
  have "length d2 = length d" using d2(2) by (simp add: region_done_def)
  then show ?thesis
    using True d1(1) d2(1) d3 hi region_done_all [OF d3(2)] set_region_data [of 8 8 src dest 1 None "length d"]
    by (simp add: gf_multby_one_def u_def [symmetric] c_def [symmetric] Let_def region_map_def)
qed

end
