(* ===== verification/Gf_Region_Mult.thy ===== *)
theory Gf_Region_Mult
  imports Gf_Region_Correct
begin

text \<open>
  The region functions of the fields of 8, 16 and 32 bits multiply every word of the
  region by the given value and store or add the products.
\<close>

section \<open>Multiplying by zero and one\<close>

definition word_product :: "gf_internal \<Rightarrow> u32 \<Rightarrow> bool \<Rightarrow> u32 \<Rightarrow> u32 \<Rightarrow> u32" where
  "word_product h v xr a b = (if xr then b else 0) XOR h_mul h v a"

lemma loop_byte_src:
  assumes "n dvd length s" "q < length s" "0 < n" "8 * n \<le> 32"
  shows "(ucast (drop_bit (8 * (q mod n)) (le_load n s (q - q mod n) :: u32)) :: u8) = s ! q"
proof (rule bit_word_eqI)
  fix i assume i: "i < LENGTH(8)"
  have "8 * (q mod n) + i < 8 * n" using i mod_less_divisor [OF assms(3), of q] by simp
  then show "bit (ucast (drop_bit (8 * (q mod n)) (le_load n s (q - q mod n) :: u32)) :: u8) i = bit (s ! q) i"
    using i loop_word_in [OF assms(1-3)] assms(4) by (simp add: bit_simps bit_le_load)
qed

lemma loop_byte_xor:
  assumes "n dvd length d" "q < length d" "0 < n" "8 * n \<le> 32" "length s = length d"
  shows "loop_byte n (\<lambda>a b :: u32. (if xr then b else 0) XOR a) 0 s d q = (if xr then d ! q else 0) XOR s ! q"
  using loop_byte_src [of n s q] loop_byte_src [of n d q] assms
  by (simp add: loop_byte_def Let_def drop_bit_xor unsigned_xor_eq)

lemma region_map_zero:
  assumes "n dvd length d" "0 < n" "8 * n \<le> 32"
  shows "region_map n (word_product h 0 xr) s d = gf_multby_zero xr d"
proof (rule nth_equalityI)
  fix q assume "q < length (region_map n (word_product h 0 xr) s d)"
  then show "region_map n (word_product h 0 xr) s d ! q = gf_multby_zero xr d ! q"
    using loop_byte_src [of n d q] assms
    by (simp add: region_map_def loop_byte_def Let_def word_product_def gf_multby_zero_def)
qed (simp add: gf_multby_zero_def)

lemma region_map_xor8:
  "length s = length d \<Longrightarrow> q < length d \<Longrightarrow> region_map 1 xor8 s d ! q = d ! q XOR s ! q"
proof -
  assume a: "length s = length d" "q < length d"
  have "le_load 1 t q = (t ! q :: u8)" if "q < length t" for t
    by (rule bit_word_eqI) (use that in \<open>simp add: bit_le_load\<close>)
  then show ?thesis using a by (simp add: region_map_def loop_byte_def Let_def xor8_def)
qed

lemma region_map_one:
  assumes "h_w h = 8 * n" "n dvd length d" "0 < n" "8 * n \<le> 32" "length s = length d"
  shows "region_map n (word_product h 1 xr) s d = (if xr then region_map 1 xor8 s d else s)"
proof -
  have "region_map n (word_product h 1 xr) s d = region_map n (\<lambda>a b :: u32. (if xr then b else 0) XOR a) s d"
    using assms by (intro region_map_cong) (auto simp: word_product_def gf_mul_1_left)
  also have "\<dots> = (if xr then region_map 1 xor8 s d else s)"
    using loop_byte_xor [OF assms(2) _ assms(3-5)] region_map_xor8 [OF assms(5)] assms(5)
    by (intro nth_equalityI) (auto simp: region_map_def)
  finally show ?thesis .
qed

lemma multby_one:
  assumes "h_w h = 8 * n" "n dvd length d" "0 < n" "8 * n \<le> 32" "length s = length d"
    "region_fits src dest (length d)"
  shows "gf_multby_one src dest xr s d = Some (region_map n (word_product h 1 xr) s d)"
  using region_map_one [OF assms(1-5), of xr] multby_one_xor [OF assms(5,6)]
  by (cases xr) (simp_all add: gf_multby_one_def)

section \<open>The three parts of a region\<close>

abbreviation product_byte :: "nat \<Rightarrow> gf_internal \<Rightarrow> u32 \<Rightarrow> bool \<Rightarrow> u8 list \<Rightarrow> u8 list \<Rightarrow> nat \<Rightarrow> u8" where
  "product_byte n h v xr s d \<equiv> loop_byte n (word_product h v xr) 0 s d"

lemma loop_byte_cong:
  fixes f g :: "u32 \<Rightarrow> u32 \<Rightarrow> u32"
  assumes "\<And>a b. gf_elem (8 * n) a \<Longrightarrow> gf_elem (8 * n) b \<Longrightarrow> f a b = g a b"
    and "n dvd lo" "lo \<le> q" "q < length d" "n dvd length d" "length s = length d" "0 < n" "8 * n \<le> 32"
  shows "loop_byte n f lo s d q = loop_byte n g 0 s d q"
  unfolding loop_byte_shift [OF assms(2,3), of f]
  using assms le_load_elem [of "q - q mod n" n] loop_word_in [OF assms(5,4,7)]
  by (simp add: loop_byte_def Let_def)

lemma slow_product:
  assumes "gf_correct F" "8 \<le> h_w (scratch F)" "h_elem (scratch F) v" "h_elem (scratch F) a"
  shows "slow_product F v xr a b = word_product (scratch F) v xr a b"
  using assms by (auto simp: slow_product_def word_product_def gf_correct_def mul_ok_def xor.commute)

lemma slow_region:
  assumes "gf_correct F" "h_w (scratch F) \<in> {8, 16, 32}" "n = h_w (scratch F) div 8" "h_elem (scratch F) v"
    and "region_done (product_byte n (scratch F) v xr s d0) d0 lo d" "n dvd lo" "n dvd hi" "lo \<le> hi"
    "hi \<le> length d0" "n dvd length d0" "length s = length d0"
  shows "\<exists>d'. gf_slow_multiply_region F v xr lo hi s d = Some d' \<and>
     region_done (product_byte n (scratch F) v xr s d0) d0 hi d'"
proof (cases "hi = lo")
  case True
  then show ?thesis using assms(5) by (simp add: gf_slow_multiply_region_def Let_def)
next
  case False
  let ?w = "h_w (scratch F)"
  have n: "0 < n" "8 * n = ?w" "8 * n \<le> 32" "?w div 8 \<noteq> 0" using assms(2,3) by auto
  obtain c where c: "hi - lo = n * c" using assms(6,7) by (meson dvd_def dvd_diff_nat)
  have hi: "hi = lo + c * n" using c assms(8) by (simp add: mult.commute)
  have "(n * c + n - 1) div n = c" using n(1) by (simp add: div_nat_eqI)
  then have cnt: "(hi - lo + n - 1) div n = c" by (simp only: c)
  have "\<exists>d'. word_loop n (slow_product F v xr) c lo s d = Some d' \<and>
      region_done (product_byte n (scratch F) v xr s d0) d0 (lo + c * n) d'"
  proof (rule word_loop_done [OF assms(5) n(1) _ assms(11)])
    fix q assume q: "lo \<le> q" "q < lo + c * n"
    show "loop_byte n (slow_product F v xr) lo s d0 q = product_byte n (scratch F) v xr s d0 q"
      using slow_product [OF assms(1) _ assms(4)] n q assms hi by (intro loop_byte_cong) auto
  qed (use hi assms(9) in simp)
  then show ?thesis
    using False assms(2,3,8) n(4) cnt hi by (auto simp: gf_slow_multiply_region_def Let_def)
qed

lemma start_off_dvd: "n dvd a \<Longrightarrow> n dvd x \<Longrightarrow> n dvd start_off a x"
  by (auto simp: start_off_def dvd_mod)

lemma aligned_region:
  assumes "gf_correct F" "h_w (scratch F) \<in> {8, 16, 32}" "n = h_w (scratch F) div 8" "h_elem (scratch F) v"
    and len: "length s = length d" "n dvd length d" and src: "n dvd src"
    and al: "0 < al" "a = (if al \<le> 16 then al else 16)" "n dvd al" "src mod a = dest mod a" "start_off a src \<le> length d"
    and a: "n dvd a"
    and mid: "\<And>rd d'. \<lbrakk>region_done (product_byte n (scratch F) v xr s d) d (start_off a src) d';
        d_start rd = dest + start_off a src;
        d_top rd = dest + start_off a src + (length d - start_off a src) div al * al\<rbrakk> \<Longrightarrow>
      \<exists>d''. middle rd s d' = Some d'' \<and> region_done (product_byte n (scratch F) v xr s d) d
        (start_off a src + (length d - start_off a src) div al * al) d''"
  shows "aligned_region F (int al) middle src dest v xr s d =
    Some (region_map n (word_product (scratch F) v xr) s d)"
proof -
  define u where "u = start_off a src"
  define c where "c = (length d - u) div al * al"
  define rd where "rd = \<lparr>s_start = src + u, d_start = dest + u, s_top = src + u + c, d_top = dest + u + c\<rparr>"
  let ?D = "region_done (product_byte n (scratch F) v xr s d) d"
  note std = assms(1-4)
  have dv: "n dvd u" "n dvd u + c" using start_off_dvd [OF a src] al(3) by (auto simp: u_def c_def)
  have hi: "u + c \<le> length d" using al(5) by (simp add: u_def c_def)
    (metis add.commute le_diff_conv2 times_div_less_eq_dividend mult.commute)
  have sel: "gf_set_region_data (Some (h_w (scratch F))) src dest (length d) (int al) = Some rd"
    using set_region_data [of al a src dest n "Some (h_w (scratch F))" "length d"] al src len(2) assms(2,3)
    by (auto simp: rd_def u_def c_def Let_def)
  have "\<exists>d'. gf_slow_multiply_region F v xr 0 u s d = Some d' \<and> ?D u d'"
    by (rule slow_region [OF std region_done_0]) (use dv al(5) len u_def in auto)
  then obtain d1 where d1: "gf_slow_multiply_region F v xr 0 u s d = Some d1" "?D u d1" by blast
  obtain d2 where d2: "middle rd s d1 = Some d2" "?D (u + c) d2"
    using mid [of d1 rd] d1(2) by (auto simp: rd_def u_def c_def)
  obtain d3 where d3: "gf_slow_multiply_region F v xr (u + c) (length d) s d2 = Some d3" "?D (length d) d3"
    using slow_region [OF std d2(2) dv(2) len(2) hi] len by auto
  show ?thesis
    unfolding aligned_region_def gf_do_initial_region_alignment_def gf_do_final_region_alignment_def
    using sel d1(1) d2(1) d3(1) region_done_all [OF d3(2)] len(1)
    by (simp add: rd_def region_map_def)
qed

text \<open>When the middle is done by words of the field, nothing is left to show about lanes.\<close>

lemma aligned_region_single:
  assumes "gf_correct F" "h_w (scratch F) \<in> {8, 16, 32}" "n = h_w (scratch F) div 8" "h_elem (scratch F) v"
    and "length s = length d" "n dvd length d" "n dvd src" "n dvd dest"
    and f: "\<And>a b. h_elem (scratch F) a \<Longrightarrow> f a b = word_product (scratch F) v xr a b"
  shows "aligned_region F (int n) (\<lambda>rd. word_loop n f ((d_top rd - d_start rd) div n) (d_start rd - dest))
      src dest v xr s d = Some (region_map n (word_product (scratch F) v xr) s d)"
proof -
  have n: "0 < n" "n \<le> 16" "8 * n = h_w (scratch F)" "8 * n \<le> 32" using assms(2,3) by auto
  have u: "start_off n src = 0" using assms(7) by (simp add: start_off_def)
  show ?thesis
  proof (rule aligned_region [OF assms(1-7) n(1), where a = n])
    fix rd :: gf_region_data and d' assume rd: "region_done (product_byte n (scratch F) v xr s d) d (start_off n src) d'"
      "d_start rd = dest + start_off n src"
      "d_top rd = dest + start_off n src + (length d - start_off n src) div n * n"
    have cnt: "(d_top rd - d_start rd) div n = length d div n" "d_start rd - dest = 0"
      using rd u n(1) by simp_all
    have "loop_byte n f 0 s d q = product_byte n (scratch F) v xr s d q" if "q < length d" for q
      using f n that assms(5,6) by (intro loop_byte_cong) auto
    then show "\<exists>d''. word_loop n f ((d_top rd - d_start rd) div n) (d_start rd - dest) s d' = Some d'' \<and>
      region_done (product_byte n (scratch F) v xr s d) d
        (start_off n src + (length d - start_off n src) div n * n) d''"
      using word_loop_done [of "product_byte n (scratch F) v xr s d" d 0 d' n "length d div n" s f]
        rd(1) n(1) assms(5,6) u cnt by simp
  qed (use assms(7,8) u n(2) in auto)
qed

section \<open>Words of 64 bits\<close>

lemma byte_lane:
  assumes "n dvd 8" "8 * n \<le> 32"
  shows "(ucast (drop_bit (8 * r) (a :: u64)) :: u8) = ucast (drop_bit (8 * (r mod n)) (lane n (r div n) a :: u32))"
proof (rule bit_word_eqI)
  fix i assume i: "i < LENGTH(8)"
  have n: "0 < n" using assms(1) by (auto intro: Nat.gr0I)
  have "n * (r div n) + r mod n = r" by simp
  then have "8 * n * (r div n) + (8 * (r mod n) + i) = 8 * r + i" by (metis add.assoc distrib_left mult.assoc)
  moreover have "8 * (r mod n) + i < 8 * n" using i mod_less_divisor [OF n, of r] by simp
  ultimately show "bit (ucast (drop_bit (8 * r) a) :: u8) i =
      bit (ucast (drop_bit (8 * (r mod n)) (lane n (r div n) a :: u32)) :: u8) i"
    using i assms(2) by (simp add: lane_def bit_simps flip: add.assoc)
qed

lemma lanesI:
  fixes g :: "u64 \<Rightarrow> u64 \<Rightarrow> u64" and f :: "u32 \<Rightarrow> u32 \<Rightarrow> u32"
  assumes "n dvd 8" "8 * n \<le> 32"
    and "\<And>a b k. Suc k * n \<le> 8 \<Longrightarrow> lane n k (g a b) = f (lane n k a) (lane n k b)"
  shows "lanes 8 n g f"
  unfolding lanes_def
proof (intro allI impI)
  fix a b r assume r: "r < (8::nat)"
  obtain c where c: "8 = n * c" using assms(1) by blast
  then have "r div n < c" using r by (simp add: less_mult_imp_div_less mult.commute)
  then have "Suc (r div n) * n \<le> 8" using mult_le_mono1 [of "Suc (r div n)" c n] c by (simp add: mult.commute)
  then show "(ucast (drop_bit (8 * r) (g a b)) :: u8) =
      ucast (drop_bit (8 * (r mod n)) (f (lane n (r div n) a) (lane n (r div n) b)))"
    using byte_lane [OF assms(1,2), of r "g a b"] assms(3) by simp
qed

text \<open>
  A middle part done by words of 64 bits whose lanes are the products of the elements.
\<close>

lemma aligned_region_lanes:
  fixes g :: "u64 \<Rightarrow> u64 \<Rightarrow> u64"
  assumes "gf_correct F" "h_w (scratch F) \<in> {8, 16, 32}" "n = h_w (scratch F) div 8" "h_elem (scratch F) v"
    and len: "length s = length d" "n dvd length d" and src: "n dvd src"
    and al: "8 dvd al" "0 < al" "a = min al 16" "src mod a = dest mod a" "start_off a src \<le> length d"
    and g: "lanes 8 n g (word_product (scratch F) v xr)"
  shows "aligned_region F (int al) (\<lambda>rd. word_loop 8 g ((d_top rd - d_start rd) div 8) (d_start rd - dest)) src dest v xr s d =
    Some (region_map n (word_product (scratch F) v xr) s d)"
proof -
  let ?D = "region_done (product_byte n (scratch F) v xr s d) d"
  have n: "n dvd 8" "0 < n" "8 * n \<le> 32" using assms(2,3) by auto
  have "8 dvd a" using al(1,3) by (simp add: min_def)
  then have na: "n dvd a" "n dvd al" using n(1) al(1) by (auto intro: dvd_trans)
  show ?thesis
  proof (rule aligned_region [OF assms(1-4) len src al(2) _ na(2) al(4,5) na(1)])
    fix rd :: gf_region_data and d' assume rd: "?D (start_off a src) d'" "d_start rd = dest + start_off a src"
      "d_top rd = dest + start_off a src + (length d - start_off a src) div al * al"
    let ?u = "start_off a src" and ?c = "(length d - start_off a src) div al * al"
    have c: "8 dvd ?c" using al(1) by (rule dvd_mult)
    have "?c \<le> length d - ?u" by (rule div_times_less_eq_dividend)
    then have hi: "?u + ?c \<le> length d" using al(5) by linarith
    have u: "n dvd ?u" by (rule start_off_dvd [OF na(1) src])
    have "\<exists>d''. word_loop 8 g (?c div 8) ?u s d' = Some d'' \<and> ?D (?u + ?c div 8 * 8) d''"
    proof (rule word_loop_done [OF rd(1)])
      fix q assume q: "?u \<le> q" "q < ?u + ?c div 8 * 8"
      have "q - (q - ?u) mod 8 + 8 \<le> ?u + ?c div 8 * 8"
      proof -
        have "(q - ?u) div 8 < ?c div 8" using q by (intro less_mult_imp_div_less) linarith
        then show ?thesis using mult_div_mod_eq [of 8 "q - ?u"] q(1) by linarith
      qed
      then show "loop_byte 8 g ?u s d q = product_byte n (scratch F) v xr s d q"
        using q u hi len n c by - (rule loop_byte_lanes [OF g], simp_all)
    qed (use c hi len in auto)
    then show "\<exists>d''. word_loop 8 g ((d_top rd - d_start rd) div 8) (d_start rd - dest) s d' = Some d'' \<and> ?D (?u + ?c) d''"
      using rd(2,3) c by simp
  qed (use al(3) in \<open>simp add: min_def\<close>)
qed

end
