(* ===== verification/Gf_Region_Tables.thy ===== *)
theory Gf_Region_Tables
  imports Gf_Region_Mult
begin

text \<open>The lookup tables of the region functions, and the region functions of the three fields.\<close>

section \<open>Tables of the products with a byte\<close>

lemma not_bit_nat_lt: "(k :: nat) < 2 ^ b \<Longrightarrow> b \<le> i \<Longrightarrow> \<not> bit k i"
  by (metis bit_take_bit_iff not_less take_bit_nat_eq_self)

lemma nat_xor_top: "(k :: nat) < 2 ^ b \<Longrightarrow> k XOR 2 ^ b = k + 2 ^ b"
proof -
  assume "k < 2 ^ b"
  then have "k AND 2 ^ b = 0" by (intro bit_eqI) (auto simp: bit_simps not_bit_nat_lt)
  then show ?thesis by (simp add: disjunctive_add_eq_xor)
qed

lemma bit_nat_add_top:
  assumes "(k :: nat) < 2 ^ b"
  shows "bit (k + 2 ^ b) i \<longleftrightarrow> i = b \<or> bit k i"
  using not_bit_nat_lt [OF assms, of b]
  by (auto simp: nat_xor_top [OF assms, symmetric] bit_simps)

definition byte_sum :: "nat \<Rightarrow> (nat \<Rightarrow> 'a::len word) \<Rightarrow> nat \<Rightarrow> 'a word" where
  "byte_sum n x k = xsum n (\<lambda>i. if bit k i then x i else 0)"

lemma byte_table_round:
  fixes t :: "'a::len word list"
  assumes "length t = 256" "b < 8" "\<forall>k<2 ^ b. t ! k = byte_sum b x k"
  defines "t' \<equiv> fold (\<lambda>k t. t[k XOR 2 ^ b := x b XOR t ! k]) [0..<2 ^ b] t"
  shows "length t' = 256 \<and> (\<forall>k<2 ^ Suc b. t' ! k = byte_sum (Suc b) x k)"
proof -
  have b: "(2::nat) ^ Suc b \<le> 256" using assms(2) power_increasing [of "Suc b" 8 "2::nat"] by simp
  have "length t' = 256 \<and> (\<forall>k<256. t' ! k =
      (if 2 ^ b \<le> k \<and> k < 2 ^ b + 2 ^ b then x b XOR t ! (k - 2 ^ b) else t ! k))"
    unfolding t'_def
  proof (rule fold_upt_inv [where P = "\<lambda>j t'. length t' = 256 \<and> (\<forall>k<256. t' ! k =
      (if 2 ^ b \<le> k \<and> k < 2 ^ b + j then x b XOR t ! (k - 2 ^ b) else t ! k))"])
    fix j u assume j: "j < 2 ^ b" and u: "length u = 256 \<and> (\<forall>k<256. u ! k =
      (if 2 ^ b \<le> k \<and> k < 2 ^ b + j then x b XOR t ! (k - 2 ^ b) else t ! k))"
    have "u ! j = t ! j" using u j b by auto
    then show "length (u[j XOR 2 ^ b := x b XOR u ! j]) = 256 \<and> (\<forall>k<256. u[j XOR 2 ^ b := x b XOR u ! j] ! k =
      (if 2 ^ b \<le> k \<and> k < 2 ^ b + Suc j then x b XOR t ! (k - 2 ^ b) else t ! k))"
      using u j b by (auto simp: nat_xor_top nth_list_update)
  qed (use assms in auto)
  moreover have "byte_sum (Suc b) x k = byte_sum b x k" if "k < 2 ^ b" for k
    using not_bit_nat_lt [OF that, of b] by (simp add: byte_sum_def)
  moreover have "byte_sum (Suc b) x k = x b XOR byte_sum b x (k - 2 ^ b)"
    if k: "2 ^ b \<le> k" "k < 2 ^ Suc b" for k
  proof -
    have "k - 2 ^ b < 2 ^ b" using k by simp
    from bit_nat_add_top [OF this] have bits: "bit k i \<longleftrightarrow> i = b \<or> bit (k - 2 ^ b) i" for i using k by simp
    have "xsum b (\<lambda>i. if bit k i then x i else 0) = byte_sum b x (k - 2 ^ b)"
      unfolding byte_sum_def using bits by (intro xsum_cong) auto
    then show ?thesis using bits [of b] by (simp add: byte_sum_def xor.commute)
  qed
  ultimately show ?thesis using assms(3) b by auto
qed

lemma byte_table:
  fixes v :: "'a::len word"
  shows "\<exists>t. byte_table two v = (t, (two ^^ 8) v) \<and> length t = 256 \<and>
     (\<forall>k<256. t ! k = byte_sum 8 (\<lambda>i. (two ^^ i) v) k)"
proof -
  have "case byte_table two v of (t, y) \<Rightarrow> y = (two ^^ 8) v \<and> length t = 256 \<and>
     (\<forall>k<2 ^ 8. t ! k = byte_sum 8 (\<lambda>i. (two ^^ i) v) k)"
    unfolding byte_table_def
  proof (rule fold_upt_inv [where P = "\<lambda>b (t, y). y = (two ^^ b) v \<and> length t = 256 \<and>
     (\<forall>k<2 ^ b. t ! k = byte_sum b (\<lambda>i. (two ^^ i) v) k)"])
    fix b s assume "b < 8" "case s of (t, y) \<Rightarrow> y = (two ^^ b) v \<and> length t = 256 \<and>
       (\<forall>k<2 ^ b. t ! k = byte_sum b (\<lambda>i. (two ^^ i) v) k)"
    then show "case (case s of (t, v) \<Rightarrow> (fold (\<lambda>k t. t[k XOR 2 ^ b := v XOR t ! k]) [0..<2 ^ b] t, two v)) of
       (t, y) \<Rightarrow> y = (two ^^ Suc b) v \<and> length t = 256 \<and>
       (\<forall>k<2 ^ Suc b. t ! k = byte_sum (Suc b) (\<lambda>i. (two ^^ i) v) k)"
      using byte_table_round [of "fst s" b "\<lambda>i. (two ^^ i) v"] by (auto simp: case_prod_beta)
  qed (auto simp: byte_sum_def)
  then show ?thesis by (cases "byte_table two v") auto
qed

section \<open>GF(2^16)\<close>

lemma w16_two_xtime:
  fixes h :: gf_internal and e :: u32
  assumes "wf_field h" "h_w h = 16" "gf_elem 16 e"
  shows "w16_two (prim_poly h) (ucast e) = ucast (gf_xtime 16 (field_poly h) e)"
proof (rule bit_word_eqI)
  fix i assume i: "i < LENGTH(64)"
  have pp: "bit (prim_poly h) i \<longleftrightarrow> i = 16 \<or> i < 16 \<and> bit (field_poly h) i"
    using wf_field_high [OF assms(1), of i] assms(2) by (cases "i < 16") (auto simp: bit_ucast_iff)
  have top: "(ucast e :: u64) AND push_bit 15 1 \<noteq> 0 \<longleftrightarrow> bit e 15"
    by (simp only: and_push_bit_neq_0) simp
  have e: "\<not> bit e n" if "16 \<le> n" for n using gf_elem_bit [OF assms(3) that] .
  have two: "bit (w16_two (prim_poly h) (ucast e)) i \<longleftrightarrow>
      (0 < i \<and> bit e (i - 1)) \<noteq> (bit e 15 \<and> bit (prim_poly h) i)"
    unfolding w16_two_def top using i by (auto simp: bit_xor_iff)
  have x: "bit (ucast (gf_xtime 16 (field_poly h) e) :: u64) i \<longleftrightarrow>
      i < 16 \<and> (0 < i \<and> bit e (i - 1)) \<noteq> (bit e 15 \<and> bit (field_poly h) i)"
    unfolding bit_ucast_32_64 bit_gf_xtime by auto
  show "bit (w16_two (prim_poly h) (ucast e)) i = bit (ucast (gf_xtime 16 (field_poly h) e) :: u64) i"
    unfolding two x pp using e [of "i - 1"] by (cases i "16::nat" rule: linorder_cases) auto
qed

lemma w16_two_iterate:
  assumes "wf_field h" "h_w h = 16" "gf_elem 16 e"
  shows "(w16_two (prim_poly h) ^^ i) (ucast e) = ucast ((gf_xtime 16 (field_poly h) ^^ i) e)"
  using assms by (induction i) (auto simp: w16_two_xtime)

lemma ucast_xsum: "ucast (xsum n f :: 'a::len word) = (xsum n (\<lambda>i. ucast (f i)) :: 'b::len word)"
  by (induction n) (auto simp: unsigned_xor_eq)

lemma ucast_byte_sum: "byte_sum n (\<lambda>i. ucast (x i :: 'a::len word)) k = (ucast (byte_sum n x k) :: 'b::len word)"
  unfolding byte_sum_def ucast_xsum by (intro xsum_cong) auto

text \<open>A product as the sum of the products with the bytes of a factor.\<close>

lemma byte_sum_mul:
  assumes "k < 256" "i + 8 \<le> w" "w \<le> 32"
  shows "byte_sum 8 (\<lambda>j. (gf_xtime w pp ^^ (i + j)) v) k = gf_mul w pp (push_bit i (of_nat k)) v"
proof -
  have bits: "bit (push_bit i (of_nat k) :: u32) j \<longleftrightarrow> i \<le> j \<and> j < 32 \<and> bit k (j - i)" for j
    by (auto simp: bit_push_bit_iff bit_of_nat_iff)
  have "gf_mul w pp (push_bit i (of_nat k)) v =
      xsum (i + 8) (\<lambda>j. if bit (push_bit i (of_nat k) :: u32) j then (gf_xtime w pp ^^ j) v else 0)"
    unfolding gf_mul_def using assms not_bit_nat_lt [of k 8] bits
    by (intro xsum_extend) auto
  also have "\<dots> = xsum 8 (\<lambda>j. if bit (push_bit i (of_nat k) :: u32) (i + j) then (gf_xtime w pp ^^ (i + j)) v else 0)"
    unfolding xsum_split using bits by (subst xsum_zeroI) auto
  also have "\<dots> = byte_sum 8 (\<lambda>j. (gf_xtime w pp ^^ (i + j)) v) k"
    unfolding byte_sum_def using bits assms by (intro xsum_cong) auto
  finally show ?thesis ..
qed

lemma w16_tables:
  assumes "wf_field h" "h_w h = 16" "gf_elem 16 v"
    "byte_table (w16_two (prim_poly h)) (ucast v) = (lt, v')"
    "byte_table (w16_two (prim_poly h)) v' = (ht, v'')" "k < 256"
  shows "lt ! k = ucast (h_mul h (of_nat k) v)" "ht ! k = ucast (h_mul h (push_bit 8 (of_nat k)) v)"
proof -
  let ?two = "w16_two (prim_poly h)" and ?x = "gf_xtime 16 (field_poly h)"
  have it: "(?two ^^ i) (ucast v) = ucast ((?x ^^ i) v)" for i by (rule w16_two_iterate [OF assms(1-3)])
  have lt: "lt ! k = byte_sum 8 (\<lambda>i. (?two ^^ i) (ucast v)) k" and v': "v' = (?two ^^ 8) (ucast v)"
    using byte_table [of ?two "ucast v"] assms(4,6) by auto
  have ht: "ht ! k = byte_sum 8 (\<lambda>i. (?two ^^ i) v') k"
    using byte_table [of ?two v'] assms(5,6) by auto
  show "lt ! k = ucast (h_mul h (of_nat k) v)"
    unfolding lt it ucast_byte_sum using byte_sum_mul [OF assms(6), of 0 16] assms(2) by simp
  have "(?two ^^ i) v' = ucast ((?x ^^ (8 + i)) v)" for i
    unfolding v' using it [of "i + 8"] by (simp add: funpow_add add.commute)
  then show "ht ! k = ucast (h_mul h (push_bit 8 (of_nat k)) v)"
    unfolding ht using byte_sum_mul [OF assms(6), of 8 16] assms(2)
    by (simp add: ucast_byte_sum del: push_bit_of_nat)
qed

text \<open>Four 16-bit results packed into a word of 64 bits.\<close>

definition pack4 :: "(nat \<Rightarrow> u64) \<Rightarrow> u64" where
  "pack4 e = push_bit 16 (push_bit 16 (push_bit 16 (e 3) XOR e 2) XOR e 1) XOR e 0"

lemma bit_pack4:
  assumes "\<And>k j. k < 4 \<Longrightarrow> 16 \<le> j \<Longrightarrow> \<not> bit (e k) j" "i < 64"
  shows "bit (pack4 e) i \<longleftrightarrow> bit (e (i div 16)) (i mod 16)"
proof -
  have push: "bit (push_bit 16 (a :: u64)) j \<longleftrightarrow> 16 \<le> j \<and> j < 64 \<and> bit a (j - 16)" for a j
    by (auto simp: bit_push_bit_iff)
  have m: "i mod 16 = i - 16 * (i div 16)" by (simp add: minus_mult_div_eq_mod)
  have "i div 16 < 4" using assms(2) by (simp add: less_mult_imp_div_less)
  then consider "i div 16 = 0" | "i div 16 = 1" | "i div 16 = 2" | "i div 16 = 3" by linarith
  then show ?thesis
    unfolding pack4_def bit_xor_iff push m
    using assms(1) [of 0] assms(1) [of 1] assms(1) [of 2] assms(1) [of 3]
    by cases (auto simp: diff_diff_left)
qed

lemma byte_pack4:
  assumes "\<And>k. k < 4 \<Longrightarrow> e k = ucast (x k :: u32)" "\<And>k. k < 4 \<Longrightarrow> gf_elem 16 (x k)" "r < 8"
  shows "(ucast (drop_bit (8 * r) (pack4 e)) :: u8) = ucast (drop_bit (8 * (r mod 2)) (x (r div 2)))"
proof (rule bit_word_eqI)
  fix j assume j: "j < LENGTH(8)"
  have r: "r div 2 < 4" "(8 * r + j) div 16 = r div 2" "(8 * r + j) mod 16 = 8 * (r mod 2) + j"
  proof -
    define k e where "k = r div 2" and "e = r mod 2"
    have ke: "r = 2 * k + e" "e < 2" by (simp_all add: k_def e_def)
    then have "k < 4" "(8 * r + j) = 16 * k + (8 * e + j)" "8 * e + j < 16" using assms(3) j by simp_all
    moreover have "(16 * k + x) div 16 = k" "(16 * k + x) mod 16 = x" if "x < 16" for x
      using that by simp_all
    ultimately have "r div 2 < 4" "(8 * r + j) div 16 = k" "(8 * r + j) mod 16 = 8 * e + j"
      unfolding k_def [symmetric] by metis+
    then show "r div 2 < 4" "(8 * r + j) div 16 = r div 2" "(8 * r + j) mod 16 = 8 * (r mod 2) + j"
      by (simp_all add: k_def e_def)
  qed
  have "\<not> bit (e k) i" if "k < 4" "16 \<le> i" for k i
    using assms(1,2) [OF that(1)] gf_elem_bit [of 16 "x k" i] that(2) by simp
  from bit_pack4 [of e "8 * r + j", OF this] have "bit (pack4 e) (8 * r + j) \<longleftrightarrow> bit (x (r div 2)) (8 * (r mod 2) + j)"
    using assms(1,3) j r by simp
  then show "bit (ucast (drop_bit (8 * r) (pack4 e)) :: u8) j =
      bit (ucast (drop_bit (8 * (r mod 2)) (x (r div 2))) :: u8) j"
    using j by (simp add: bit_simps)
qed

lemma drop_top_byte: "drop_bit 56 (a :: u64) = take_bit 8 (drop_bit 56 a)"
proof (rule bit_word_eqI)
  fix n show "bit (drop_bit 56 a) n = bit (take_bit 8 (drop_bit 56 a)) n"
    using bit_imp_le_length [of a "56 + n"] by (auto simp: bit_simps)
qed

lemma split_product_pack:
  "split_product ht lt a = pack4 (\<lambda>k. ht ! unat (take_bit 8 (drop_bit (16 * k + 8) a)) XOR
     lt ! unat (take_bit 8 (drop_bit (16 * k) a)))"
proof -
  have f: "(f ^^ 4) x = f (f (f (f x)))" for f :: "u64 \<times> u64 \<Rightarrow> u64 \<times> u64" and x
    by (simp add: numeral_eq_Suc)
  have d: "drop_bit 56 (push_bit 8 a) = take_bit 8 (drop_bit 48 a)"
    "drop_bit 56 (push_bit 16 a) = take_bit 8 (drop_bit 40 a)"
    "drop_bit 56 (push_bit 24 a) = take_bit 8 (drop_bit 32 a)"
    "drop_bit 56 (push_bit 32 a) = take_bit 8 (drop_bit 24 a)"
    "drop_bit 56 (push_bit 40 a) = take_bit 8 (drop_bit 16 a)"
    "drop_bit 56 (push_bit 48 a) = take_bit 8 (drop_bit 8 a)"
    "drop_bit 56 (push_bit 56 a) = take_bit 8 (drop_bit 0 a)"
    by (rule bit_word_eqI; simp add: bit_simps; fastforce)+
  show ?thesis
    unfolding split_product_def f Let_def prod.case snd_conv push_bit_push_bit
    by (simp add: d pack4_def xor.assoc drop_top_byte [symmetric])
qed

text \<open>The product of a whole lane from the products of its two bytes.\<close>

lemma lane_bytes:
  "lane 2 k (a :: u64) = (of_nat (unat (take_bit 8 (drop_bit (16 * k) a))) XOR
     push_bit 8 (of_nat (unat (take_bit 8 (drop_bit (16 * k + 8) a)))) :: u32)"
proof (rule bit_word_eqI)
  fix i assume i: "i < LENGTH(32)"
  have u: "(of_nat (unat (b :: u64)) :: u32) = ucast b" for b by simp
  show "bit (lane 2 k a :: u32) i = bit (of_nat (unat (take_bit 8 (drop_bit (16 * k) a))) XOR
     push_bit 8 (of_nat (unat (take_bit 8 (drop_bit (16 * k + 8) a)))) :: u32) i"
    unfolding u using i by (cases "i < 8") (auto simp: lane_def bit_simps)
qed

lemma elem_lane: "gf_elem (8 * n) (lane n k a)"
  by (rule gf_elemI) (simp add: lane_def bit_simps)

lemma split_lanes:
  assumes "wf_field h" "h_w h = 16" "gf_elem 16 v"
    "byte_table (w16_two (prim_poly h)) (ucast v) = (lt, v')"
    "byte_table (w16_two (prim_poly h)) v' = (ht, v'')"
  shows "lanes 8 2 (\<lambda>a b. split_product ht lt a XOR (if xr then b else 0)) (word_product h v xr)"
  unfolding lanes_def
proof (intro allI impI)
  fix a b :: u64 and r :: nat assume r: "r < 8"
  define e where "e k = ht ! unat (take_bit 8 (drop_bit (16 * k + 8) a)) XOR
     lt ! unat (take_bit 8 (drop_bit (16 * k) a))" for k
  have small: "unat (take_bit 8 x) < 256" for x :: u64
    using take_bit_nat_less_exp [of 8 "unat x"] by (simp add: unsigned_take_bit_eq)
  have e: "e k = ucast (h_mul h v (lane 2 k a))" for k
  proof -
    let ?lo = "take_bit 8 (drop_bit (16 * k) a)" and ?hi = "take_bit 8 (drop_bit (16 * k + 8) a)"
    have "e k = ucast (h_mul h (of_nat (unat ?lo) XOR push_bit 8 (of_nat (unat ?hi))) v)"
      unfolding e_def w16_tables(1) [OF assms small] w16_tables(2) [OF assms small] gf_mul_xor_left
      by (simp add: unsigned_xor_eq xor.commute del: push_bit_of_nat)
    also have "\<dots> = ucast (h_mul h (lane 2 k a) v)" by (simp only: lane_bytes)
    finally show ?thesis using gf_mul_commute [of 16 "lane 2 k a" v] assms(2,3) elem_lane [of 2 k a] by simp
  qed
  have "(ucast (drop_bit (8 * r) (split_product ht lt a)) :: u8) =
      ucast (drop_bit (8 * (r mod 2)) (h_mul h v (lane 2 (r div 2) a)))"
    unfolding split_product_pack e_def [symmetric]
    using e r assms(2) elem_lane [of 2 _ a] by (intro byte_pack4) auto
  moreover have "(ucast (drop_bit (8 * r) b) :: u8) = ucast (drop_bit (8 * (r mod 2)) (lane 2 (r div 2) b :: u32))"
    by (rule byte_lane) simp_all
  ultimately show "(ucast (drop_bit (8 * r) (split_product ht lt a XOR (if xr then b else 0))) :: u8) =
      ucast (drop_bit (8 * (r mod 2)) (word_product h v xr (lane 2 (r div 2) a) (lane 2 (r div 2) b)))"
    by (simp add: word_product_def drop_bit_xor unsigned_xor_eq xor.commute)
qed

lemma w16_split_region:
  assumes "gf_correct F" "wf_field (scratch F)" "h_w (scratch F) = 16" "gf_elem 16 v"
    and "length s = length d" "2 dvd length d" "2 dvd src" "src mod 8 = dest mod 8"
    and fits: "region_fits src dest (length d)"
  shows "gf_w16_split_8_16_lazy_multiply_region F src dest v xr s d =
    Some (region_map 2 (word_product (scratch F) v xr) s d)"
proof -
  have w: "h_w (scratch F) \<in> {8, 16, 32}" "2 = h_w (scratch F) div 8" using assms(3) by auto
  obtain lt v' ht v'' where t: "byte_table (w16_two (prim_poly (scratch F))) (ucast v) = (lt, v')"
    "byte_table (w16_two (prim_poly (scratch F))) v' = (ht, v'')" by fastforce
  note lanes = split_lanes [OF assms(2,3,4) t]
  have off: "start_off 8 src \<le> length d"
    using fits start_off_lt [of 8 src] by (auto simp: region_fits_def start_off_def)
  have "aligned_region F (int 8) (\<lambda>rd. word_loop 8 (\<lambda>a b. split_product ht lt a XOR (if xr then b else 0))
      ((d_top rd - d_start rd) div 8) (d_start rd - dest)) src dest v xr s d =
    Some (region_map 2 (word_product (scratch F) v xr) s d)"
    using assms(4) off by (intro aligned_region_lanes [OF assms(1) w _ assms(5-7) _ _ _ assms(8) _ lanes]) (simp_all add: assms(3))
  moreover have "gf_multby_one src dest xr s d = Some (region_map 2 (word_product (scratch F) 1 xr) s d)"
    using multby_one [of "scratch F" 2] assms fits by simp
  moreover have "gf_multby_zero xr d = region_map 2 (word_product (scratch F) 0 xr) s d"
    using region_map_zero [of 2 d] assms by simp
  ultimately show ?thesis
    unfolding gf_w16_split_8_16_lazy_multiply_region_def by (simp add: t)
qed

section \<open>GF(2^8)\<close>

lemma w8_table_region:
  assumes "gf_correct F" "wf_field (scratch F)" "h_w (scratch F) = 8" "gf_elem 8 v"
    and "length s = length d" and fits: "region_fits src dest (length d)"
    and "tab = fst (gf_w8_table_fill (scratch F))"
  shows "gf_w8_table_multiply_region tab src dest v xr s d =
    Some (region_map 1 (word_product (scratch F) v xr) s d)"
proof -
  define f where "f = (\<lambda>a b. (if xr then b else 0) XOR ucast (tab ! (unat (a :: u8) * 256 + unat v)) :: u8)"
  have l8: "le_load 1 t q = (t ! q :: u8)" if "q < length t" for t q
    by (rule bit_word_eqI) (use that in \<open>simp add: bit_le_load bit_simps\<close>)
  have l32: "le_load 1 t q = (ucast (t ! q) :: u32)" if "q < length t" for t q
  proof (rule bit_word_eqI)
    fix n show "bit (le_load 1 t q :: u32) n = bit (ucast (t ! q) :: u32) n"
      using that bit_imp_le_length [of "t ! q" n] by (cases "n < 8") (auto simp: bit_le_load bit_simps)
  qed
  have e8: "gf_elem 8 (ucast (a :: u8))" for a
    by (rule gf_elemI) (auto simp: bit_simps dest: bit_imp_le_length)
  have uu: "(ucast (ucast x :: u32) :: u8) = x" for x :: u8
    by (rule bit_word_eqI) (simp add: bit_simps)
  have u8: "take_bit 32 (unat a) = unat a" for a :: u8
    using unsigned_less [of a] by (intro take_bit_nat_eq_self) (auto intro: less_le_trans)
  have tab: "tab ! (unat a * 256 + unat v) = h_mul (scratch F) v (ucast a)" for a :: u8
    using w8_table_multiply [OF assms(2,3), of "ucast a" v] e8 [of a] assms(3,4,7)
      gf_mul_commute [of 8 v "ucast a"] by (simp add: gf_w8_table_multiply_def unsigned_ucast_eq u8)
  have "\<exists>d'. word_loop 1 f (length d) 0 s d = Some d' \<and>
      region_done (product_byte 1 (scratch F) v xr s d) d (0 + length d * 1) d'"
  proof (rule word_loop_done [OF region_done_0])
    fix q assume "q < 0 + length d * 1"
    then show "loop_byte 1 f 0 s d q = product_byte 1 (scratch F) v xr s d q"
      using assms(5) by (simp add: loop_byte_def l8 [unfolded One_nat_def] l32 [unfolded One_nat_def]
          f_def tab word_product_def unsigned_xor_eq uu)
  qed (use assms(5) in auto)
  then have "word_loop 1 f (length d) 0 s d = Some (region_map 1 (word_product (scratch F) v xr) s d)"
    using region_done_all by (fastforce simp: region_map_def)
  moreover have "gf_multby_one src dest xr s d = Some (region_map 1 (word_product (scratch F) 1 xr) s d)"
    using multby_one [of "scratch F" 1] assms fits by simp
  moreover have "gf_multby_zero xr d = region_map 1 (word_product (scratch F) 0 xr) s d"
    using region_map_zero [of 1 d] assms by simp
  ultimately show ?thesis
    unfolding gf_w8_table_multiply_region_def by (simp add: f_def)
qed

section \<open>GF(2^32)\<close>

lemma w32_two_xtime: "w32_two pp v = gf_xtime 32 pp v"
proof (rule bit_word_eqI)
  fix i assume "i < LENGTH(32)"
  then show "bit (w32_two pp v) i = bit (gf_xtime 32 pp v) i"
    unfolding w32_two_def and_push_bit_neq_0 bit_gf_xtime by (auto simp: bit_xor_iff)
qed

definition w32_tables_ok :: "u32 \<Rightarrow> u32 \<Rightarrow> u32 list list \<Rightarrow> bool" where
  "w32_tables_ok pp v ts \<longleftrightarrow> length ts = 4 \<and>
     (\<forall>i<4. \<forall>k<256. ts ! i ! k = gf_mul 32 pp (push_bit (8 * i) (of_nat k)) v)"

lemma w32_make_tables_ok: "w32_tables_ok pp v (w32_make_tables pp v)"
proof -
  let ?x = "gf_xtime 32 pp"
  define P where "P n s \<longleftrightarrow> (case s of (ts, y) \<Rightarrow> y = (?x ^^ (8 * n)) v \<and> length ts = n \<and>
     (\<forall>i<n. \<forall>k<256. ts ! i ! k = gf_mul 32 pp (push_bit (8 * i) (of_nat k)) v))" for n s
  have "P 4 (fold (\<lambda>i (ts, v). case byte_table (w32_two pp) v of (t, v) \<Rightarrow> (ts @ [t], v)) [0..<4] ([], v))"
  proof (rule fold_upt_inv [where P = P])
    fix n s assume n: "n < 4" and s: "P n s"
    obtain ts y where ts: "s = (ts, y)" by (cases s)
    obtain t where t: "byte_table (w32_two pp) y = (t, (w32_two pp ^^ 8) y)"
      "\<And>k. k < 256 \<Longrightarrow> t ! k = byte_sum 8 (\<lambda>i. (w32_two pp ^^ i) y) k"
      using byte_table [of "w32_two pp" y] by auto
    have two: "w32_two pp = ?x" by (rule ext) (rule w32_two_xtime)
    have y: "y = (?x ^^ (8 * n)) v" using s ts by (simp add: P_def)
    have "t ! k = gf_mul 32 pp (push_bit (8 * n) (of_nat k)) v" if "k < 256" for k
      using t(2) [OF that] byte_sum_mul [OF that, of "8 * n" 32 pp v] n
      by (simp add: two y funpow_add add.commute del: push_bit_of_nat)
    moreover have "(w32_two pp ^^ 8) y = (?x ^^ (8 * Suc n)) v"
      unfolding two y using funpow_add [of 8 "8 * n" ?x] by (simp add: comp_def)
    ultimately show "P (Suc n) (case s of (ts, v) \<Rightarrow> case byte_table (w32_two pp) v of (t, v) \<Rightarrow> (ts @ [t], v))"
      using s ts t(1) by (auto simp: P_def less_Suc_eq nth_append)
  qed (simp_all add: P_def)
  then show ?thesis by (auto simp: P_def w32_tables_ok_def w32_make_tables_def)
qed

lemma w32_table_product:
  assumes "w32_tables_ok pp v ts"
  shows "i \<le> 4 \<Longrightarrow> drop_bit (8 * (4 - i)) a = 0 \<Longrightarrow>
    w32_table_product ts i a p = p XOR gf_mul 32 pp (push_bit (8 * i) a) v"
proof (induction "4 - i" arbitrary: i a p)
  case 0
  then have "a = 0" by simp
  then show ?case by (subst w32_table_product.simps) simp
next
  case (Suc n)
  show ?case
  proof (cases "a = 0")
    case True
    then show ?thesis by (subst w32_table_product.simps) simp
  next
    case False
    have i: "i < 4" "n = 4 - Suc i" using Suc.hyps(2) by auto
    have lo: "of_nat (unat (a AND 0xff)) = take_bit 8 a" "unat (a AND 0xff) < 256"
    proof -
      have "a AND 0xff = take_bit 8 a" by (simp add: take_bit_eq_mask mask_eq_exp_minus_1)
      moreover have "unat (take_bit 8 a) < 256"
        using take_bit_nat_less_exp [of 8 "unat a"] by (simp add: unsigned_take_bit_eq)
      ultimately show "of_nat (unat (a AND 0xff)) = take_bit 8 a" "unat (a AND 0xff) < 256"
        by (simp_all only: of_nat_unat ucast_id)
    qed
    have entry: "ts ! i ! unat (a AND 0xff) = gf_mul 32 pp (push_bit (8 * i) (take_bit 8 a)) v"
      using assms i(1) lo by (simp add: w32_tables_ok_def del: push_bit_of_nat)
    have "drop_bit (8 * (4 - Suc i)) (drop_bit 8 a) = 0"
      using Suc.prems(2) i by (simp add: Suc.hyps(2) [symmetric] add.commute)
    then have "w32_table_product ts (Suc i) (drop_bit 8 a) (p XOR ts ! i ! unat (a AND 0xff)) =
        (p XOR ts ! i ! unat (a AND 0xff)) XOR gf_mul 32 pp (push_bit (8 * Suc i) (drop_bit 8 a)) v"
      using Suc.hyps(1) [OF i(2)] i(1) by simp
    moreover have "push_bit (8 * i) a = push_bit (8 * i) (take_bit 8 a) XOR push_bit (8 * Suc i) (drop_bit 8 a)"
      by (rule bit_word_eqI) (auto simp: bit_simps)
    ultimately show ?thesis
      using False by (subst w32_table_product.simps) (simp add: entry gf_mul_xor_left xor.assoc)
  qed
qed

text \<open>The tables that are kept belong to the value they are kept with.\<close>

definition lazy_ok :: "gf_internal \<Rightarrow> gf_split_8_32_lazy_data \<Rightarrow> bool" where
  "lazy_ok h d8 \<longleftrightarrow> last_value d8 = 0 \<or> w32_tables_ok (field_poly h) (last_value d8) (lazy_tables d8)"

lemma w32_split_region:
  assumes "gf_correct F" "wf_field (scratch F)" "h_w (scratch F) = 32" "lazy_ok (scratch F) d8"
    and "length s = length d" "4 dvd length d" and al: "4 dvd src" "4 dvd dest"
    and fits: "region_fits src dest (length d)"
  shows "\<exists>d8'. gf_w32_split_8_32_lazy_multiply_region F d8 src dest v xr s d =
    Some (d8', region_map 4 (word_product (scratch F) v xr) s d) \<and> lazy_ok (scratch F) d8'"
proof -
  let ?pp = "field_poly (scratch F)"
  define d8' where "d8' = (if v \<noteq> last_value d8
      then \<lparr>last_value = v, lazy_tables = w32_make_tables ?pp v\<rparr> else d8)"
  have ok: "lazy_ok (scratch F) d8'" using assms(4) w32_make_tables_ok by (auto simp: d8'_def lazy_ok_def)
  have tabs: "w32_tables_ok ?pp v (lazy_tables d8')" if "v \<noteq> 0"
    using that assms(4) w32_make_tables_ok by (auto simp: d8'_def lazy_ok_def)
  have f: "w32_table_product (lazy_tables d8') 0 a (if xr then b else 0) = word_product (scratch F) v xr a b"
    if "v \<noteq> 0" for a b
    using w32_table_product [OF tabs [OF that], of 0 a] assms(3) gf_mul_commute [of 32 v a ?pp]
    by (simp add: word_product_def)
  have "aligned_region F (int 4) (\<lambda>rd. word_loop 4
        (\<lambda>a b. w32_table_product (lazy_tables d8') 0 a (if xr then b else 0))
        ((d_top rd - d_start rd) div 4) (d_start rd - dest)) src dest v xr s d =
      Some (region_map 4 (word_product (scratch F) v xr) s d)" if "v \<noteq> 0"
    using f [OF that] assms al by (intro aligned_region_single) auto
  moreover have "gf_multby_one src dest xr s d = Some (region_map 4 (word_product (scratch F) 1 xr) s d)"
    using multby_one [of "scratch F" 4] assms fits by simp
  moreover have "gf_multby_zero xr d = region_map 4 (word_product (scratch F) 0 xr) s d"
    using region_map_zero [of 4 d] assms by simp
  ultimately show ?thesis
    using ok assms(4) unfolding gf_w32_split_8_32_lazy_multiply_region_def
    by (auto simp: d8'_def [symmetric] Let_def)
qed

end
