(* ===== verification/Jer_Coding.thy ===== *)
theory Jer_Coding
  imports Jer_Devices Gf_Region_Tables
begin

text \<open>
  Encoding and decoding of whole devices is correct: the interface \<open>region_field\<close> states
  what the coding layer relies on, and the default fields of 8, 16 and 32 bits provide it.
\<close>

section \<open>The interface between coding and fields\<close>

abbreviation field32 :: gf_internal where
  "field32 \<equiv> default_field 32 0x400007"

locale region_field = correct_field F for F :: gf_t +
  fixes w n :: nat
  assumes word_size: "h_w (scratch F) = w" "w = 8 * n" "0 < n" "w \<le> 32"
    and code_size: "w \<in> {8, 16, 32}"
    and default: "F = galois_default w"
    and region_any: "lazy_ok field32 d8 \<Longrightarrow> length s = length d \<Longrightarrow> n dvd length d \<Longrightarrow> n dvd src \<Longrightarrow> n dvd dest \<Longrightarrow>
      (w = 16 \<Longrightarrow> src mod 8 = dest mod 8) \<Longrightarrow> region_fits src dest (length d) \<Longrightarrow>
      felem F v \<Longrightarrow> \<exists>d8'. gf_multiply_region F d8 src dest v xr s d =
        Some (d8', region_map n (word_product (scratch F) v xr) s d) \<and> lazy_ok field32 d8'"
begin

text \<open>The regions the coding layer multiplies start at multiples of 8.\<close>

lemma region:
  assumes "lazy_ok field32 d8" "length s = length d" "n dvd length d" "8 dvd src" "8 dvd dest" "felem F v"
  shows "\<exists>d8'. gf_multiply_region F d8 src dest v xr s d =
      Some (d8', region_map n (word_product (scratch F) v xr) s d) \<and> lazy_ok field32 d8'"
proof (rule region_any [OF assms(1-3)])
  have "n dvd 8" using code_size word_size by auto
  then show "n dvd src" "n dvd dest" using assms(4,5) by (auto intro: dvd_trans)
qed (use assms(4-6) in \<open>simp_all add: region_fits_def\<close>)

end

lemma map_option_PairD: "x = Some y \<Longrightarrow> map_option (Pair a) x = Some (a, y)"
  by simp

interpretation reg8: region_field "galois_default 8" 8 1
proof unfold_locales
  fix d8 and s d :: "u8 list" and src dest :: nat and v xr
  assume a: "lazy_ok field32 d8" "length s = length d" "region_fits src dest (length d)" "felem (galois_default 8) v"
  have "gf_elem 8 v" using a(4) by (simp add: default_8)
  then have "gf_w8_table_multiply_region (fst (gf_w8_table_fill (default_field 8 0x11d))) src dest v xr s d =
      Some (region_map 1 (word_product (default_field 8 0x11d) v xr) s d)"
    using w8_table_region [of "galois_default 8" v s d src dest] a wf_default_8 default_8 by simp
  then show "\<exists>d8'. gf_multiply_region (galois_default 8) d8 src dest v xr s d =
        Some (d8', region_map 1 (word_product (scratch (galois_default 8)) v xr) s d) \<and> lazy_ok field32 d8'"
    using a(1) by (simp add: gf_multiply_region_def default_8)
qed (simp_all add: default_8)

interpretation reg16: region_field "galois_default 16" 16 2
proof unfold_locales
  fix d8 and s d :: "u8 list" and src dest :: nat and v xr
  assume a: "lazy_ok field32 d8" "length s = length d" "2 dvd length d" "2 dvd src"
    "region_fits src dest (length d)" "felem (galois_default 16) v" and off: "(16 :: nat) = 16 \<Longrightarrow> src mod 8 = dest mod 8"
  have v: "gf_elem 16 v" using a(6) by (simp add: default_16)
  have "gf_w16_split_8_16_lazy_multiply_region (galois_default 16) src dest v xr s d =
      Some (region_map 2 (word_product (scratch (galois_default 16)) v xr) s d)"
    by (rule w16_split_region) (use v a(2-5) off [OF refl] wf_default_16 in \<open>simp_all add: default_16\<close>)
  then show "\<exists>d8'. gf_multiply_region (galois_default 16) d8 src dest v xr s d =
        Some (d8', region_map 2 (word_product (scratch (galois_default 16)) v xr) s d) \<and> lazy_ok field32 d8'"
    using a(1) by (simp add: gf_multiply_region_def default_16)
qed (simp_all add: default_16)

interpretation reg32: region_field "galois_default 32" 32 4
proof unfold_locales
  fix d8 and s d :: "u8 list" and src dest :: nat and v xr
  assume a: "lazy_ok field32 d8" "length s = length d" "4 dvd length d" "4 dvd src" "4 dvd dest"
    "region_fits src dest (length d)"
  then show "\<exists>d8'. gf_multiply_region (galois_default 32) d8 src dest v xr s d =
        Some (d8', region_map 4 (word_product (scratch (galois_default 32)) v xr) s d) \<and> lazy_ok field32 d8'"
    using w32_split_region [of "galois_default 32" d8 s d src dest v xr] wf_default_32
    by (simp add: gf_multiply_region_def default_32)
qed (simp_all add: default_32)

section \<open>Good states\<close>

text \<open>
  Every slot in use holds its default field, the tables kept by the field of 32 bits fit
  their value, and the devices are aligned to 8 bytes.
\<close>

definition gal_ok :: "galois \<Rightarrow> bool" where
  "gal_ok g \<longleftrightarrow> (\<forall>w\<in>{8, 16, 32}. gfp_array g w = Null \<or> gfp_array g w = Field (galois_default w))"

definition jst_ok :: "jstate \<Rightarrow> bool" where
  "jst_ok st \<longleftrightarrow> gal_ok (gal st) \<and> lazy_ok field32 (lazy_data st) \<and> (\<forall>d. 8 dvd addr st d)"

lemma galois_field_ok:
  assumes "gal_ok g" "w \<in> {8, 16, 32}"
  shows "\<exists>g'. galois_field True g w = Some (g', galois_default w) \<and> gal_ok g'"
proof (cases "gfp_array g w = Null")
  case True
  have "gf_init_easy (int w) = Inr (galois_default w)" using assms(2) default_8(1) default_16(1) default_32(1) by auto
  then show ?thesis using galois_field_default [OF True] assms by (auto simp: gal_ok_def)
next
  case False
  then have "gfp_array g w = Field (galois_default w)" using assms by (auto simp: gal_ok_def)
  then show ?thesis using galois_field_installed assms(1) by blast
qed

text \<open>One device is replaced; everything else the coding layer looks at stays.\<close>

definition replaced :: "jstate \<Rightarrow> nat \<Rightarrow> u8 list \<Rightarrow> jstate \<Rightarrow> bool" where
  "replaced st d x st' \<longleftrightarrow> jst_ok st' \<and> addr st' = addr st \<and> dev st' = (dev st)[d := x]"

lemma replaced_trans:
  "replaced st d x st' \<Longrightarrow> replaced st' d y st'' \<Longrightarrow> replaced st d y st''"
  by (auto simp: replaced_def)

lemma patch_whole: "length x = length d \<Longrightarrow> patch 0 x d = x"
  by (simp add: patch_def)

lemma dev_read_whole: "d < length (dev st) \<Longrightarrow> length (dev st ! d) = sz \<Longrightarrow> dev_read st d 0 sz = Some (dev st ! d)"
  by (simp add: dev_read_def)

lemma multby_one_32:
  assumes "length s = length d" "region_fits src dest (length d)"
  shows "gf_multiply_region (galois_default 32) d8 src dest 1 True s d = Some (d8, region_map 1 xor8 s d)"
  using multby_one_xor [OF assms] by (simp add: gf_multiply_region_def default_32 gf_w32_split_8_32_lazy_multiply_region_def)

lemma xor_bytes: "length s = length d \<Longrightarrow> map2 (\<lambda>a b. b XOR a) s d = region_map 1 xor8 s d"
  by (rule nth_equalityI) (simp_all add: region_map_xor8 [unfolded One_nat_def])

context region_field
begin

lemma galois_region_whole:
  assumes "jst_ok st" "src < length (dev st)" "dst < length (dev st)" "length (dev st ! src) = sz"
    "length (dev st ! dst) = sz" "n dvd sz" "felem F v"
  shows "\<exists>st'. galois_region w src 0 v sz dst 0 add st = Some st' \<and>
     replaced st dst (region_map n (word_product (scratch F) v add) (dev st ! src) (dev st ! dst)) st'"
proof -
  obtain g where g: "galois_field True (gal st) w = Some (g, F)" "gal_ok g"
    using galois_field_ok [of "gal st" w] assms(1) code_size default by (auto simp: jst_ok_def)
  obtain d8 where "gf_multiply_region F (lazy_data st) (addr st src) (addr st dst) v add (dev st ! src) (dev st ! dst) =
      Some (d8, region_map n (word_product (scratch F) v add) (dev st ! src) (dev st ! dst))" "lazy_ok field32 d8"
    using region [of "lazy_data st" "dev st ! src" "dev st ! dst" "addr st src" "addr st dst" v add] assms
    by (auto simp: jst_ok_def)
  then show ?thesis
    using g assms by (simp add: galois_region_def dev_read_whole dev_write_def replaced_def jst_ok_def patch_whole)
qed

lemma counted_copy_whole:
  assumes "jst_ok st" "src < length (dev st)" "dst < length (dev st)" "length (dev st ! src) = sz"
    "length (dev st ! dst) = sz" "n dvd sz"
  shows "\<exists>st'. counted_copy src 0 dst 0 sz st = Some st' \<and>
     replaced st dst (region_map n (word_product (scratch F) 1 False) (dev st ! src) (dev st ! dst)) st'"
  using assms region_map_one [of "scratch F" n "dev st ! dst" "dev st ! src" False] word_size
  by (simp add: counted_copy_def dev_memcpy_def dev_read_whole dev_write_def replaced_def jst_ok_def patch_whole)

lemma counted_xor_whole:
  assumes "jst_ok st" "src < length (dev st)" "dst < length (dev st)" "length (dev st ! src) = sz"
    "length (dev st ! dst) = sz" "n dvd sz"
  shows "\<exists>st'. counted_xor src 0 dst 0 sz st = Some st' \<and>
     replaced st dst (region_map n (word_product (scratch F) 1 True) (dev st ! src) (dev st ! dst)) st'"
proof -
  let ?s = "dev st ! src" and ?d = "dev st ! dst"
  have x: "region_map n (word_product (scratch F) 1 True) ?s ?d = region_map 1 xor8 ?s ?d"
    using region_map_one [of "scratch F" n ?d ?s True] word_size assms by simp
  obtain g where g: "galois_field True (gal st) 32 = Some (g, galois_default 32)" "gal_ok g"
    using galois_field_ok [of "gal st" 32] assms(1) by (auto simp: jst_ok_def)
  have "gf_multiply_region (galois_default 32) (lazy_data st) (addr st src) (addr st dst) 1 True ?s ?d =
      Some (lazy_data st, region_map 1 xor8 ?s ?d)"
    using multby_one_32 [of ?s ?d "addr st src" "addr st dst"] assms by (simp add: jst_ok_def region_fits_def)
  then show ?thesis
    unfolding x counted_xor_def galois_region_xor_def galois_w32_region_xor_def
    using g assms xor_bytes [of ?s ?d]
    by (simp add: galois_region_def dev_read_whole dev_write_def replaced_def jst_ok_def patch_whole)
qed

section \<open>Dot products\<close>

abbreviation wordv :: "u8 list \<Rightarrow> nat \<Rightarrow> u32" where
  "wordv s i \<equiv> le_load n s (n * i)"

lemma elem_wordv: "n * i + n \<le> length s \<Longrightarrow> felem F (wordv s i)"
  using le_load_elem [of "n * i" n s] word_size by simp

lemma wordv_product:
  assumes "n * i + n \<le> length d" "length s = length d" "felem F v"
  shows "wordv (region_map n (word_product (scratch F) v add) s d) i =
    (if add then wordv d i else 0) XOR galois_single_multiply F v (wordv s i)"
proof -
  let ?v = "word_product (scratch F) v add (wordv s i) (wordv d i)"
  have mul: "h_mul (scratch F) v (wordv s i) = galois_single_multiply F v (wordv s i)"
    using single_multiply_mul [OF correct assms(3)] elem_wordv [of i s] assms by simp
  have "felem F ?v" unfolding word_product_def mul
    using elem_xor elem_mult elem_wordv assms elem_0 by auto
  then have "bit ?v j \<Longrightarrow> j < 8 * n" for j
    using gf_elem_bit [of "h_w (scratch F)" ?v j] word_size by (metis not_less)
  then show ?thesis
    using le_load_region_map [of n i d s "word_product (scratch F) v add"] assms(1,2) word_size(2-4)
    unfolding word_product_def mul by simp
qed

text \<open>The destination holds the sum of the terms in the list so far; before the first term it is old.\<close>

definition partial_sum :: "jstate \<Rightarrow> nat \<Rightarrow> nat \<Rightarrow> bool \<Rightarrow> (nat \<Rightarrow> u32) \<Rightarrow> jstate \<Rightarrow> bool" where
  "partial_sum st dst sz init t st' \<longleftrightarrow> (\<exists>x. replaced st dst x st' \<and> length x = sz \<and>
     (if init then \<forall>i. n * i + n \<le> sz \<longrightarrow> wordv x i = t i else \<forall>i. t i = 0))"

lemma partial_sum_step:
  assumes "partial_sum st dst sz init t st'" "dst < length (dev st)"
    and "felem F v" "length s = sz" "dst < length (dev st')"
    and "replaced st' dst (region_map n (word_product (scratch F) v init) s (dev st' ! dst)) st''"
  shows "partial_sum st dst sz True (\<lambda>i. t i XOR galois_single_multiply F v (wordv s i)) st''"
proof -
  obtain x where x: "replaced st dst x st'" "length x = sz"
    "if init then \<forall>i. n * i + n \<le> sz \<longrightarrow> wordv x i = t i else \<forall>i. t i = 0"
    using assms(1) by (auto simp: partial_sum_def)
  have "dev st' ! dst = x" using x(1) assms(2) by (simp add: replaced_def)
  then show ?thesis
    using replaced_trans [OF x(1) assms(6)] x(2,3) assms(3,4) wordv_product [of _ x s v init]
    unfolding partial_sum_def by (intro exI [of _ "region_map n (word_product (scratch F) v init) s x"]) auto
qed

text \<open>The sources of a dot product: whole devices of the right size, none of them the destination.\<close>

definition dot_sources :: "jstate \<Rightarrow> nat \<Rightarrow> nat list option \<Rightarrow> nat \<Rightarrow> nat \<Rightarrow> bool" where
  "dot_sources st k ids dst sz \<longleftrightarrow> dst < length (dev st) \<and> length (dev st ! dst) = sz \<and> n dvd sz \<and>
     (\<forall>i<k. src_dev ids i < length (dev st) \<and> src_dev ids i \<noteq> dst \<and> length (dev st ! src_dev ids i) = sz)"

abbreviation dot_term :: "jstate \<Rightarrow> nat list option \<Rightarrow> u32 list \<Rightarrow> nat \<Rightarrow> nat \<Rightarrow> u32" where
  "dot_term st ids row j i \<equiv> galois_single_multiply F (row ! j) (wordv (dev st ! src_dev ids j) i)"

lemma partial_sum_sources:
  assumes "partial_sum st dst sz init t st'" "dot_sources st k ids dst sz" "j < k"
  shows "dev st' ! src_dev ids j = dev st ! src_dev ids j" "src_dev ids j < length (dev st')"
    "length (dev st ! src_dev ids j) = sz" "dst < length (dev st')" "length (dev st' ! dst) = sz" "jst_ok st'" "n dvd sz"
    "dst < length (dev st)"
  using assms by (auto simp: partial_sum_def replaced_def dot_sources_def)

lemma dot_copy_loop:
  assumes "dot_sources st k ids dst sz" "partial_sum st dst sz False (\<lambda>i. 0) st"
  shows "\<exists>st'. ofold (dot_copy_step row ids dst sz) [0..<k] (False, st) = Some (\<exists>j<k. row ! j = 1, st') \<and>
    partial_sum st dst sz (\<exists>j<k. row ! j = 1) (\<lambda>i. xsum k (\<lambda>j. if row ! j = 1 then dot_term st ids row j i else 0)) st'"
proof -
  let ?one = "\<lambda>j i. if row ! j = 1 then dot_term st ids row j i else 0"
  have "\<exists>s. ofold (dot_copy_step row ids dst sz) [0..<k] (False, st) = Some s \<and> (case s of (init, st') \<Rightarrow>
      init = (\<exists>j<k. row ! j = 1) \<and> partial_sum st dst sz init (\<lambda>i. xsum k (\<lambda>j. ?one j i)) st')"
  proof (rule ofold_upt_inv [where P = "\<lambda>l (init, st'). init = (\<exists>j<l. row ! j = 1) \<and>
      partial_sum st dst sz init (\<lambda>i. xsum l (\<lambda>j. ?one j i)) st'"])
    fix l s assume l: "l < k" and P: "case s of (init, st') \<Rightarrow> init = (\<exists>j<l. row ! j = 1) \<and>
      partial_sum st dst sz init (\<lambda>i. xsum l (\<lambda>j. ?one j i)) st'"
    obtain init st' where s: "s = (init, st')" by (cases s)
    note ps = P [unfolded s prod.case]
    show "\<exists>s'. dot_copy_step row ids dst sz l s = Some s' \<and> (case s' of (init, st') \<Rightarrow> init = (\<exists>j<Suc l. row ! j = 1) \<and>
      partial_sum st dst sz init (\<lambda>i. xsum (Suc l) (\<lambda>j. ?one j i)) st')"
    proof (cases "row ! l = 1")
      case True
      note sm = partial_sum_sources [OF ps [THEN conjunct2] assms(1) l]
      obtain st'' where st'': "(if \<not> init then counted_copy (src_dev ids l) 0 dst 0 sz st'
                   else counted_xor (src_dev ids l) 0 dst 0 sz st') = Some st''"
        "replaced st' dst (region_map n (word_product (scratch F) 1 init) (dev st ! src_dev ids l) (dev st' ! dst)) st''"
        using counted_copy_whole [of st' "src_dev ids l" dst sz] counted_xor_whole [of st' "src_dev ids l" dst sz]
          sm by (cases init) auto
      have "partial_sum st dst sz True
          (\<lambda>i. xsum l (\<lambda>j. ?one j i) XOR galois_single_multiply F 1 (wordv (dev st ! src_dev ids l) i)) st''"
        by (rule partial_sum_step [OF ps [THEN conjunct2] sm(8) elem_1 sm(3,4) st''(2)])
      then show ?thesis using st''(1) True by (auto simp: dot_copy_step_def s)
    next
      case False
      then show ?thesis using ps by (auto simp: dot_copy_step_def s less_Suc_eq)
    qed
  qed (use assms(2) in auto)
  then show ?thesis by auto
qed

lemma dot_multiply_step:
  assumes "dot_sources st k ids dst sz" "partial_sum st dst sz init t st'" "l < k" "felem F (row ! l)"
    "row ! l \<noteq> 0" "row ! l \<noteq> 1"
  shows "\<exists>st''. dot_multiply_step w row ids dst sz l (init, st') = Some (True, st'') \<and>
    partial_sum st dst sz True (\<lambda>i. t i XOR dot_term st ids row l i) st''"
proof -
  note sm = partial_sum_sources [OF assms(2,1,3)]
  obtain st'' where st'': "galois_region w (src_dev ids l) 0 (row ! l) sz dst 0 init st' = Some st''"
    "replaced st' dst (region_map n (word_product (scratch F) (row ! l) init) (dev st ! src_dev ids l) (dev st' ! dst)) st''"
    using galois_region_whole [of st' "src_dev ids l" dst sz "row ! l" init] sm assms(4) by auto
  define st3 where "st3 = st''\<lparr>total_gf_bytes := total_gf_bytes st'' + sz\<rparr>"
  have rep: "replaced st' dst (region_map n (word_product (scratch F) (row ! l) init) (dev st ! src_dev ids l) (dev st' ! dst)) st3"
    using st''(2) unfolding replaced_def jst_ok_def st3_def by (metis jstate.ext_inject jstate.surjective jstate.update_convs(6))
  have "partial_sum st dst sz True (\<lambda>i. t i XOR dot_term st ids row l i) st3"
    by (rule partial_sum_step [OF assms(2) sm(8) assms(4) sm(3,4) rep])
  moreover have "dot_multiply_step w row ids dst sz l (init, st') = Some (True, st3)"
    using st''(1) assms(5,6) code_size
    by (auto simp: dot_multiply_step_def st3_def galois_w08_region_multiply_def galois_w16_region_multiply_def
        galois_w32_region_multiply_def)
  ultimately show ?thesis by blast
qed

lemma dot_multiply_loop:
  assumes "dot_sources st k ids dst sz" "partial_sum st dst sz init t st'" "\<And>i. i < k \<Longrightarrow> felem F (row ! i)"
  shows "\<exists>st''. ofold (dot_multiply_step w row ids dst sz) [0..<k] (init, st') =
      Some (init \<or> (\<exists>j<k. row ! j \<noteq> 0 \<and> row ! j \<noteq> 1), st'') \<and>
    partial_sum st dst sz (init \<or> (\<exists>j<k. row ! j \<noteq> 0 \<and> row ! j \<noteq> 1))
      (\<lambda>i. t i XOR xsum k (\<lambda>j. if row ! j \<noteq> 0 \<and> row ! j \<noteq> 1 then dot_term st ids row j i else 0)) st''"
proof -
  let ?other = "\<lambda>j i. if row ! j \<noteq> 0 \<and> row ! j \<noteq> 1 then dot_term st ids row j i else 0"
  define P where "P l s \<longleftrightarrow> (case s of (i, u) \<Rightarrow> i = (init \<or> (\<exists>j<l. row ! j \<noteq> 0 \<and> row ! j \<noteq> 1)) \<and>
      partial_sum st dst sz i (\<lambda>i. t i XOR xsum l (\<lambda>j. ?other j i)) u)" for l s
  have "\<exists>s. ofold (dot_multiply_step w row ids dst sz) [0..<k] (init, st') = Some s \<and> P k s"
  proof (rule ofold_upt_inv [where P = P])
    fix l s assume l: "l < k" and P: "P l s"
    obtain i u where s: "s = (i, u)" by (cases s)
    show "\<exists>s'. dot_multiply_step w row ids dst sz l s = Some s' \<and> P (Suc l) s'"
    proof (cases "row ! l \<noteq> 0 \<and> row ! l \<noteq> 1")
      case True
      have "partial_sum st dst sz i (\<lambda>i. t i XOR xsum l (\<lambda>j. ?other j i)) u" using P unfolding P_def s prod.case by blast
      from dot_multiply_step [OF assms(1) this l assms(3) [OF l]] True
      show ?thesis by (fastforce simp: P_def s xor.assoc)
    next
      case False
      then have same: "(\<exists>j<Suc l. row ! j \<noteq> 0 \<and> row ! j \<noteq> 1) = (\<exists>j<l. row ! j \<noteq> 0 \<and> row ! j \<noteq> 1)"
        by (metis less_Suc_eq)
      have "P (Suc l) s" using P unfolding P_def s prod.case same using False by auto
      moreover have "dot_multiply_step w row ids dst sz l s = Some s" using False by (auto simp: dot_multiply_step_def s)
      ultimately show ?thesis by blast
    qed
  qed (use assms(2) in \<open>simp_all add: P_def\<close>)
  then show ?thesis by (auto simp: P_def)
qed

lemma matrix_dotprod:
  assumes "jst_ok st" "dot_sources st k ids dst sz" "\<And>i. i < k \<Longrightarrow> felem F (row ! i)" "\<exists>i<k. row ! i \<noteq> 0"
  shows "\<exists>st' x. jerasure_matrix_dotprod k w row ids dst sz st = Some st' \<and> replaced st dst x st' \<and> length x = sz \<and>
     (\<forall>i. n * i + n \<le> sz \<longrightarrow> wordv x i = xsum k (\<lambda>j. dot_term st ids row j i))"
proof -
  let ?one = "\<lambda>j i. if row ! j = 1 then dot_term st ids row j i else 0"
  let ?other = "\<lambda>j i. if row ! j \<noteq> 0 \<and> row ! j \<noteq> 1 then dot_term st ids row j i else 0"
  have start: "partial_sum st dst sz False (\<lambda>i. 0) st"
    unfolding partial_sum_def using assms(1,2)
    by (intro exI [of _ "dev st ! dst"]) (simp add: replaced_def dot_sources_def)
  obtain st1 where p1: "ofold (dot_copy_step row ids dst sz) [0..<k] (False, st) = Some (\<exists>j<k. row ! j = 1, st1)"
    "partial_sum st dst sz (\<exists>j<k. row ! j = 1) (\<lambda>i. xsum k (\<lambda>j. ?one j i)) st1"
    using dot_copy_loop [OF assms(2) start, of row] by blast
  have init: "((\<exists>j<k. row ! j = 1) \<or> (\<exists>j<k. row ! j \<noteq> 0 \<and> row ! j \<noteq> 1)) = True"
    using assms(4) by auto
  obtain st2 where p2: "ofold (dot_multiply_step w row ids dst sz) [0..<k] (\<exists>j<k. row ! j = 1, st1) = Some (True, st2)"
    "partial_sum st dst sz True (\<lambda>i. xsum k (\<lambda>j. ?one j i) XOR xsum k (\<lambda>j. ?other j i)) st2"
    using dot_multiply_loop [OF assms(2) p1(2) assms(3)] unfolding init by blast
  have sum: "xsum k (\<lambda>j. ?one j i) XOR xsum k (\<lambda>j. ?other j i) = xsum k (\<lambda>j. dot_term st ids row j i)"
    if "n * i + n \<le> sz" for i
    unfolding xsum_xor [symmetric] using assms(2) elem_wordv that
    by (intro xsum_cong) (auto simp: mult_0' dot_sources_def)
  have "jerasure_matrix_dotprod k w row ids dst sz st = Some st2"
    using p1(1) p2(1) code_size unfolding jerasure_matrix_dotprod_def by auto
  then show ?thesis using p2(2) sum by (auto simp: partial_sum_def)
qed

end

end
