(* ===== verification/Jer_Roundtrip.thy ===== *)
theory Jer_Roundtrip
  imports Jer_Coding
begin

text \<open>
  Encoding makes the coding devices hold the code of the data, and decoding restores every
  device that was erased, whichever of its three phases does the work.
\<close>

section \<open>Encoded devices\<close>

text \<open>Word i of every device is the code of the words i of the data devices.\<close>

definition encoded :: "gf_t \<Rightarrow> nat \<Rightarrow> nat \<Rightarrow> nat \<Rightarrow> u32 list \<Rightarrow> nat \<Rightarrow> u8 list list \<Rightarrow> bool" where
  "encoded F n k m matrix sz D \<longleftrightarrow> length D = k + m \<and> (\<forall>d<k + m. length (D ! d) = sz) \<and>
     (\<forall>d<k + m. \<forall>i. n * i + n \<le> sz \<longrightarrow>
        le_load n (D ! d) (n * i) = codeword F k matrix (\<lambda>j. le_load n (D ! j) (n * i)) d)"

text \<open>The erased devices have arbitrary contents, the others still hold those of D.\<close>

definition survivors :: "nat \<Rightarrow> nat \<Rightarrow> u32 list \<Rightarrow> nat \<Rightarrow> u8 list list \<Rightarrow> jstate \<Rightarrow> bool" where
  "survivors k m erased sz D st \<longleftrightarrow> jst_ok st \<and> length (dev st) = k + m \<and> (\<forall>d<k + m. length (dev st ! d) = sz) \<and>
     (\<forall>d<k + m. erased ! d = 0 \<longrightarrow> dev st ! d = D ! d)"

text \<open>Every coding device depends on the data; the code leaves the others unwritten.\<close>

definition rows_nonzero :: "nat \<Rightarrow> nat \<Rightarrow> u32 list \<Rightarrow> bool" where
  "rows_nonzero k m matrix \<longleftrightarrow> (\<forall>i<m. \<exists>j<k. matrix ! (i * k + j) \<noteq> 0)"

lemma nth_matrix_row: "j < k \<Longrightarrow> matrix_row_of k matrix i ! j = (drop (i * k) matrix) ! j"
  by (simp add: matrix_row_of_def)

lemma nth_matrix_row_of: "length matrix = r * k \<Longrightarrow> i < r \<Longrightarrow> j < k \<Longrightarrow> matrix_row_of k matrix i ! j = matrix ! (i * k + j)"
  using mult_le_mono1 [of i r k] by (simp add: nth_matrix_row)

context region_field
begin

text \<open>A dot product whose value is known word by word writes that value.\<close>

lemma dotprod_writes:
  assumes "jst_ok st" "dot_sources st k ids dst sz" "\<And>i. i < k \<Longrightarrow> felem F (row ! i)" "\<exists>i<k. row ! i \<noteq> 0"
    and "length x = sz"
    and "\<And>i. n * i + n \<le> sz \<Longrightarrow> xsum k (\<lambda>j. dot_term st ids row j i) = wordv x i"
  shows "\<exists>st'. jerasure_matrix_dotprod k w row ids dst sz st = Some st' \<and> replaced st dst x st'"
proof -
  obtain st' y where y: "jerasure_matrix_dotprod k w row ids dst sz st = Some st'" "replaced st dst y st'"
    "length y = sz" "\<forall>i. n * i + n \<le> sz \<longrightarrow> wordv y i = xsum k (\<lambda>j. dot_term st ids row j i)"
    using matrix_dotprod [OF assms(1-4)] by blast
  have "y = x"
    by (rule bytes_eqI [of _ _ n]) (use y assms word_size in \<open>auto simp: dot_sources_def\<close>)
  then show ?thesis using y by blast
qed

lemma elem_matrix_row:
  "coding_matrix F k m matrix \<Longrightarrow> i < m \<Longrightarrow> j < k \<Longrightarrow> felem F (matrix_row_of k matrix i ! j)"
  using elem_gen_row [of k m matrix "k + i" j] by (auto simp: coding_matrix_def nth_matrix_row_of gen_row_def)

text \<open>The dot product of a coding row with the data devices is the code word of the coding device.\<close>

lemma coding_row_sum:
  assumes "coding_matrix F k m matrix" "i < m"
  shows "xsum k (\<lambda>j. galois_single_multiply F (matrix_row_of k matrix i ! j) (x j)) = codeword F k matrix x (k + i)"
  unfolding codeword_def using assms
  by (intro xsum_cong) (simp add: gen_row_def coding_matrix_def nth_matrix_row_of)

lemma coding_row_nonzero:
  "coding_matrix F k m matrix \<Longrightarrow> rows_nonzero k m matrix \<Longrightarrow> i < m \<Longrightarrow> \<exists>j<k. matrix_row_of k matrix i ! j \<noteq> 0"
  unfolding rows_nonzero_def coding_matrix_def by (metis nth_matrix_row_of)

subsection \<open>Encoding\<close>

lemma encode:
  assumes ok: "jst_ok st" and len: "length (dev st) = k + m" "\<forall>d<k + m. length (dev st ! d) = sz" "n dvd sz"
    and mat: "coding_matrix F k m matrix" "rows_nonzero k m matrix"
  shows "\<exists>st'. jerasure_matrix_encode k m w matrix sz st = Some st' \<and> jst_ok st' \<and> addr st' = addr st \<and>
    encoded F n k m matrix sz (dev st') \<and> take k (dev st') = take k (dev st)"
proof -
  define P where "P l st' \<longleftrightarrow> jst_ok st' \<and> addr st' = addr st \<and> length (dev st') = k + m \<and> take k (dev st') = take k (dev st) \<and>
      (\<forall>d<k + m. length (dev st' ! d) = sz) \<and>
      (\<forall>d<k + l. \<forall>i. n * i + n \<le> sz \<longrightarrow> wordv (dev st' ! d) i = codeword F k matrix (\<lambda>j. wordv (dev st ! j) i) d)" for l st'
  have "\<exists>st'. ofold (\<lambda>i st. jerasure_matrix_dotprod k w (matrix_row_of k matrix i) None (k + i) sz st) [0..<m] st =
      Some st' \<and> P m st'"
  proof (rule ofold_upt_inv [where P = P])
    have "\<forall>j<k. felem F (wordv (dev st ! j) i)" if "n * i + n \<le> sz" for i using that len elem_wordv by simp
    then show "P 0 st" unfolding P_def using ok len codeword_data by auto
  next
    fix l st1 assume l: "l < m" and P: "P l st1"
    have data: "\<forall>j<k. dev st1 ! j = dev st ! j"
      using P len unfolding P_def by (metis nth_take)
    have "\<exists>st' x. jerasure_matrix_dotprod k w (matrix_row_of k matrix l) None (k + l) sz st1 = Some st' \<and>
        replaced st1 (k + l) x st' \<and> length x = sz \<and> (\<forall>i. n * i + n \<le> sz \<longrightarrow> wordv x i =
          xsum k (\<lambda>j. dot_term st1 None (matrix_row_of k matrix l) j i))"
      by (rule matrix_dotprod) (use P l len(3) elem_matrix_row [OF mat(1) l] coding_row_nonzero [OF mat l] in
          \<open>auto simp: P_def dot_sources_def src_dev_def\<close>)
    then obtain st' x where st': "jerasure_matrix_dotprod k w (matrix_row_of k matrix l) None (k + l) sz st1 = Some st'"
      "replaced st1 (k + l) x st'" "length x = sz"
      and x: "\<forall>i. n * i + n \<le> sz \<longrightarrow> wordv x i = xsum k (\<lambda>j. dot_term st1 None (matrix_row_of k matrix l) j i)"
      by blast
    have "wordv x i = codeword F k matrix (\<lambda>j. wordv (dev st ! j) i) (k + l)" if "n * i + n \<le> sz" for i
      unfolding coding_row_sum [OF mat(1) l, symmetric] using x that data
      by (auto simp: src_dev_def intro!: xsum_cong)
    then have "P (Suc l) st'"
      using P st'(2,3) l unfolding P_def replaced_def by (auto simp: nth_list_update less_Suc_eq)
    then show "\<exists>st'. jerasure_matrix_dotprod k w (matrix_row_of k matrix l) None (k + l) sz st1 = Some st' \<and> P (Suc l) st'"
      using st'(1) by blast
  qed simp
  then obtain st' where st': "jerasure_matrix_encode k m w matrix sz st = Some st'" "P m st'"
    using code_size unfolding jerasure_matrix_encode_def by auto
  have "dev st' ! j = dev st ! j" if "j < k" for j
    using st'(2) that unfolding P_def by (metis nth_take)
  then have "codeword F k matrix (\<lambda>j. wordv (dev st ! j) i) d = codeword F k matrix (\<lambda>j. wordv (dev st' ! j) i) d" for i d
    unfolding codeword_def by (intro xsum_cong) simp
  then show ?thesis using st' unfolding P_def encoded_def by auto
qed


subsection \<open>Decoding\<close>

lemma encoded_elem: "encoded F n k m matrix sz D \<Longrightarrow> n * i + n \<le> sz \<Longrightarrow> \<forall>j<k. felem F (wordv (D ! j) i)"
  unfolding encoded_def by (metis elem_wordv trans_less_add1)

lemma encoded_word:
  "encoded F n k m matrix sz D \<Longrightarrow> d < k + m \<Longrightarrow> n * i + n \<le> sz \<Longrightarrow>
   codeword F k matrix (\<lambda>j. wordv (D ! j) i) d = wordv (D ! d) i"
  by (simp add: encoded_def)

text \<open>A dot product that recomputes an erased device from devices that hold their contents.\<close>

lemma dotprod_restores:
  assumes "survivors k m erased sz D st" "encoded F n k m matrix sz D" "n dvd sz"
    and dst: "dst < k + m" "erased ! dst \<noteq> 0"
    and src: "\<And>j. j < k \<Longrightarrow> src_dev ids j < k + m \<and> src_dev ids j \<noteq> dst \<and> dev st ! src_dev ids j = D ! src_dev ids j"
    and row: "\<And>j. j < k \<Longrightarrow> felem F (row ! j)" "\<exists>j<k. row ! j \<noteq> 0"
    and sum: "\<And>i. n * i + n \<le> sz \<Longrightarrow>
      xsum k (\<lambda>j. galois_single_multiply F (row ! j) (wordv (D ! src_dev ids j) i)) = wordv (D ! dst) i"
  shows "\<exists>st'. jerasure_matrix_dotprod k w row ids dst sz st = Some st' \<and> survivors k m erased sz D st' \<and>
    dev st' = (dev st)[dst := D ! dst]"
proof -
  have len: "\<forall>d<k + m. length (D ! d) = sz" using assms(2) by (simp add: encoded_def)
  have "\<exists>st'. jerasure_matrix_dotprod k w row ids dst sz st = Some st' \<and> replaced st dst (D ! dst) st'"
  proof (rule dotprod_writes)
    show "dot_sources st k ids dst sz"
      using assms(1,3) dst src len by (simp add: dot_sources_def survivors_def)
    show "xsum k (\<lambda>j. dot_term st ids row j i) = wordv (D ! dst) i" if "n * i + n \<le> sz" for i
      unfolding sum [OF that, symmetric] using src by (intro xsum_cong) simp
  qed (use assms in \<open>auto simp: survivors_def encoded_def\<close>)
  then show ?thesis using assms(1,2) dst
    by (auto simp: replaced_def survivors_def encoded_def nth_list_update)
qed

text \<open>Phase 3: a lost coding device is the product of its row and the data.\<close>

lemma restore_coding:
  assumes "survivors k m erased sz D st" "encoded F n k m matrix sz D" "n dvd sz"
    "coding_matrix F k m matrix" "rows_nonzero k m matrix" "\<forall>d<k. dev st ! d = D ! d" "l < m" "erased ! (k + l) \<noteq> 0"
  shows "\<exists>st'. jerasure_matrix_dotprod k w (matrix_row_of k matrix l) None (k + l) sz st = Some st' \<and>
    survivors k m erased sz D st' \<and> dev st' = (dev st)[k + l := D ! (k + l)]"
proof (rule dotprod_restores [OF assms(1-3) _ assms(8)])
  fix i assume i: "n * i + n \<le> sz"
  show "xsum k (\<lambda>j. galois_single_multiply F (matrix_row_of k matrix l ! j) (wordv (D ! src_dev None j) i)) =
      wordv (D ! (k + l)) i"
    using coding_row_sum [OF assms(4,7)] encoded_word [OF assms(2) _ i, of "k + l"] assms(7) by (simp add: src_dev_def)
qed (use assms(6,7) elem_matrix_row [OF assms(4,7)] coding_row_nonzero [OF assms(4,5,7)] in \<open>auto simp: src_dev_def\<close>)

end

section \<open>Counting the erased data devices\<close>

definition lost :: "nat \<Rightarrow> u32 list \<Rightarrow> nat" where
  "lost l erased = card {i. i < l \<and> erased ! i \<noteq> 0}"

lemma lost_Suc: "lost (Suc l) erased = lost l erased + (if erased ! l \<noteq> 0 then 1 else 0)"
proof -
  have "{i. i < Suc l \<and> erased ! i \<noteq> 0} =
      (if erased ! l \<noteq> 0 then insert l {i. i < l \<and> erased ! i \<noteq> 0} else {i. i < l \<and> erased ! i \<noteq> 0})"
    by (auto simp: less_Suc_eq)
  then show ?thesis by (simp add: lost_def)
qed

lemma lost_0 [simp]: "lost 0 erased = 0"
  by (simp add: lost_def)

lemma lost_mono: "a \<le> b \<Longrightarrow> lost a erased \<le> lost b erased"
  unfolding lost_def by (intro card_mono) auto

lemma lost_eq_0: "lost l erased = 0 \<longleftrightarrow> (\<forall>i<l. erased ! i = 0)"
  by (auto simp: lost_def)

lemma lost_less: "i < l \<Longrightarrow> erased ! i \<noteq> 0 \<Longrightarrow> lost i erased < lost l erased"
  using lost_mono [of "Suc i" l erased] lost_Suc [of i erased] by simp

lemma erased_data:
  "\<exists>lastd. erased_data k erased = (lost k erased, lastd) \<and>
     (if lost k erased = 0 then lastd = k
      else lastd < k \<and> erased ! lastd \<noteq> 0 \<and> lost k erased = Suc (lost lastd erased))"
proof -
  have "case erased_data k erased of (edd, lastd) \<Rightarrow> edd = lost k erased \<and>
     (if lost k erased = 0 then lastd = k
      else lastd < k \<and> erased ! lastd \<noteq> 0 \<and> lost k erased = Suc (lost lastd erased))"
    unfolding erased_data_def
    by (rule fold_upt_inv [where P = "\<lambda>l (edd, lastd). edd = lost l erased \<and> (if lost l erased = 0 then lastd = k
      else lastd < l \<and> erased ! lastd \<noteq> 0 \<and> lost l erased = Suc (lost lastd erased))"])
      (auto simp: lost_Suc split: if_splits)
  then show ?thesis by auto
qed

section \<open>The decoder\<close>

lemma alive_flags:
  assumes "\<forall>e\<in>set xs. unat (e :: u32) < k + m" "card (unat ` set xs) \<le> m"
  shows "k \<le> alive (k + m) (map (\<lambda>i. if i \<in> unat ` set xs then 1 else 0) [0..<k + m])"
proof -
  have "{i. i < k + m \<and> map (\<lambda>i. if i \<in> unat ` set xs then 1 else (0 :: u32)) [0..<k + m] ! i = 0} = {..<k + m} - unat ` set xs"
    by (auto simp: nth_append)
  moreover have "card ({..<k + m} - unat ` set xs) = k + m - card (unat ` set xs)"
    using assms(1) by (subst card_Diff_subset) auto
  ultimately show ?thesis using assms(2) by simp
qed

lemma xsum_skip:
  "l \<le> k \<Longrightarrow> xsum k (\<lambda>i. f (if i < l then i else i + 1)) = xsum (Suc k) f XOR f l"
proof (induction k)
  case (Suc k)
  show ?case
  proof (cases "l = Suc k")
    case True
    then have "xsum (Suc k) (\<lambda>i. f (if i < l then i else i + 1)) = xsum (Suc k) f" by (intro xsum_cong) simp
    then show ?thesis using True by (simp add: xor_ac)
  next
    case False
    then show ?thesis using Suc by (simp add: xor_ac)
  qed
qed simp

text \<open>The three phases of a decoder, as the source runs them.\<close>

abbreviation run_phases ::
  "nat \<Rightarrow> nat \<Rightarrow> u32 list \<Rightarrow> nat \<Rightarrow> (nat \<Rightarrow> jstate \<Rightarrow> jstate option) \<Rightarrow> (jstate \<Rightarrow> jstate option) \<Rightarrow>
   (nat \<Rightarrow> jstate \<Rightarrow> jstate option) \<Rightarrow> nat \<Rightarrow> jstate \<Rightarrow> (int \<times> jstate) option" where
  "run_phases k m erased ld f1 f2 f3 edd st \<equiv>
     obind (decode_data ld erased f1 (edd, st)) (\<lambda>(edd, st).
     obind (if edd > 0 then f2 st else Some st) (\<lambda>st.
     map_option (Pair 0) (ofold (\<lambda>i st. if erased ! (k + i) \<noteq> 0 then f3 i st else Some st) [0..<m] st)))"

text \<open>
  The three phases for any code: the lost data devices before \<open>ld\<close>, the one at \<open>ld\<close> from the
  parity row, and the lost coding devices.  Each step restores the device it is for.
\<close>

lemma decode_data_loop:
  assumes "survivors k m erased sz D st" "ld \<le> k"
    and step: "\<And>i st. i < ld \<Longrightarrow> erased ! i \<noteq> 0 \<Longrightarrow> survivors k m erased sz D st \<Longrightarrow>
      \<exists>st'. f i st = Some st' \<and> survivors k m erased sz D st' \<and> dev st' = (dev st)[i := D ! i]"
  shows "\<exists>st'. decode_data ld erased f (lost k erased, st) = Some (lost k erased - lost ld erased, st') \<and>
    survivors k m erased sz D st' \<and> (\<forall>d<ld. dev st' ! d = D ! d)"
proof -
  let ?P = "\<lambda>l (edd, st'). edd = lost k erased - lost l erased \<and> survivors k m erased sz D st' \<and> (\<forall>d<l. dev st' ! d = D ! d)"
  have "\<exists>s. decode_data ld erased f (lost k erased, st) = Some s \<and> ?P ld s"
    unfolding decode_data_def
  proof (rule ofold_upt_inv [where P = ?P])
    fix l s assume l: "l < ld" and P: "?P l s"
    obtain edd st1 where s: "s = (edd, st1)" by (cases s)
    show "\<exists>s'. (case s of (edd, st) \<Rightarrow> if 0 < edd \<and> erased ! l \<noteq> 0 then map_option (Pair (edd - 1))
          (f l st) else Some (edd, st)) = Some s' \<and> ?P (Suc l) s'"
    proof (cases "erased ! l = 0")
      case True
      then show ?thesis using P l assms(2) by (auto simp: s lost_Suc less_Suc_eq survivors_def)
    next
      case False
      have pos: "lost l erased < lost k erased" using lost_less [of l k erased] False l assms(2) by auto
      obtain st' where st': "f l st1 = Some st'" "survivors k m erased sz D st'" "dev st' = (dev st1)[l := D ! l]"
        using step [OF l False] P unfolding s by auto
      have "\<forall>d<Suc l. dev st' ! d = D ! d"
        using P l assms(2) unfolding s st'(3) by (auto simp: less_Suc_eq nth_list_update survivors_def)
      then show ?thesis using P False pos st'(1,2) by (auto simp: s lost_Suc)
    qed
  qed (use assms(1) in auto)
  then show ?thesis by auto
qed

lemma decode_coding_loop:
  assumes "survivors k m erased sz D st" "length D = k + m" "\<forall>d<k. dev st ! d = D ! d"
    and step: "\<And>i st. i < m \<Longrightarrow> erased ! (k + i) \<noteq> 0 \<Longrightarrow> survivors k m erased sz D st \<Longrightarrow> \<forall>d<k. dev st ! d = D ! d \<Longrightarrow>
      \<exists>st'. f i st = Some st' \<and> survivors k m erased sz D st' \<and> dev st' = (dev st)[k + i := D ! (k + i)]"
  shows "\<exists>st'. ofold (\<lambda>i st. if erased ! (k + i) \<noteq> 0 then f i st else Some st) [0..<m] st = Some st' \<and>
    jst_ok st' \<and> dev st' = D"
proof -
  let ?P = "\<lambda>l st'. survivors k m erased sz D st' \<and> (\<forall>d<k + l. dev st' ! d = D ! d)"
  let ?f = "\<lambda>i st. if erased ! (k + i) \<noteq> 0 then f i st else Some st"
  have "\<exists>st'. ofold ?f [0..<m] st = Some st' \<and> ?P m st'"
  proof (rule ofold_upt_inv [where P = ?P])
    fix l st1 assume l: "l < m" and P: "?P l st1"
    show "\<exists>st'. ?f l st1 = Some st' \<and> ?P (Suc l) st'"
    proof (cases "erased ! (k + l) = 0")
      case True
      then show ?thesis using P l by (auto simp: survivors_def less_Suc_eq)
    next
      case False
      have "\<forall>d<k. dev st1 ! d = D ! d" using P by simp
      from step [OF l False _ this] P obtain st' where
        st': "f l st1 = Some st'" "survivors k m erased sz D st'" "dev st' = (dev st1)[k + l := D ! (k + l)]" by blast
      have "\<forall>d<k + Suc l. dev st' ! d = D ! d" using P l st'(3) by (auto simp: nth_list_update less_Suc_eq survivors_def)
      then show ?thesis using False st' by auto
    qed
  qed (use assms in auto)
  moreover have "dev st' = D" if "?P m st'" for st'
    using that assms(2) by (intro nth_equalityI) (auto simp: survivors_def)
  ultimately show ?thesis by (auto simp: survivors_def)
qed

lemma decode_loops:
  assumes sv: "survivors k m erased sz D st" "length D = k + m"
    and ld: "ld = k \<or> ld < k \<and> erased ! ld \<noteq> 0 \<and> lost k erased = Suc (lost ld erased)"
    and step1: "\<And>i st. i < ld \<Longrightarrow> erased ! i \<noteq> 0 \<Longrightarrow> survivors k m erased sz D st \<Longrightarrow>
      \<exists>st'. f1 i st = Some st' \<and> survivors k m erased sz D st' \<and> dev st' = (dev st)[i := D ! i]"
    and step2: "\<And>st. ld < k \<Longrightarrow> survivors k m erased sz D st \<Longrightarrow> \<forall>d<k. d \<noteq> ld \<longrightarrow> dev st ! d = D ! d \<Longrightarrow>
      \<exists>st'. f2 st = Some st' \<and> survivors k m erased sz D st' \<and> dev st' = (dev st)[ld := D ! ld]"
    and step3: "\<And>i st. i < m \<Longrightarrow> erased ! (k + i) \<noteq> 0 \<Longrightarrow> survivors k m erased sz D st \<Longrightarrow> \<forall>d<k. dev st ! d = D ! d \<Longrightarrow>
      \<exists>st'. f3 i st = Some st' \<and> survivors k m erased sz D st' \<and> dev st' = (dev st)[k + i := D ! (k + i)]"
  shows "\<exists>st'. run_phases k m erased ld f1 f2 f3 (lost k erased) st = Some (0, st') \<and> jst_ok st' \<and> dev st' = D"
proof -
  have "ld \<le> k" using ld by auto
  from decode_data_loop [OF sv(1) this step1] obtain st1 where
    p1: "decode_data ld erased f1 (lost k erased, st) = Some (lost k erased - lost ld erased, st1)"
      "survivors k m erased sz D st1" "\<forall>d<ld. dev st1 ! d = D ! d" by auto
  obtain st2 where p2: "(if lost k erased - lost ld erased > 0 then f2 st1 else Some st1) = Some st2"
    "survivors k m erased sz D st2" "\<forall>d<k. dev st2 ! d = D ! d"
  proof (cases "ld = k")
    case True
    then show ?thesis using p1 by (intro that [of st1]) auto
  next
    case False
    then have ld: "ld < k" "erased ! ld \<noteq> 0" "lost k erased = Suc (lost ld erased)" using ld by auto
    have "erased ! d = 0" if "ld < d" "d < k" for d
      using lost_less [of d k erased] lost_mono [of "Suc ld" d erased] that ld(2,3) lost_Suc [of ld erased] by fastforce
    then have other: "\<forall>d<k. d \<noteq> ld \<longrightarrow> dev st1 ! d = D ! d"
      using p1(2,3) unfolding survivors_def by (metis linorder_neqE_nat trans_less_add1)
    obtain st2 where st2: "f2 st1 = Some st2" "survivors k m erased sz D st2" "dev st2 = (dev st1)[ld := D ! ld]"
      using step2 [OF ld(1) p1(2) other] by blast
    have "\<forall>d<k. dev st2 ! d = D ! d"
      using other ld(1) p1(2) unfolding st2(3) by (auto simp: nth_list_update survivors_def)
    then show ?thesis using ld st2 by (intro that [of st2]) auto
  qed
  from decode_coding_loop [OF p2(2) sv(2) p2(3) step3] obtain st' where
    "ofold (\<lambda>i st. if erased ! (k + i) \<noteq> 0 then f3 i st else Some st) [0..<m] st2 = Some st'" "jst_ok st'" "dev st' = D" by blast
  then show ?thesis using p1(1) p2(1) by simp
qed

context region_field
begin

text \<open>What phase 1 relies on: the decoding matrix and the devices it reads.\<close>

definition decodes :: "nat \<Rightarrow> nat \<Rightarrow> u32 list \<Rightarrow> u32 list \<Rightarrow> u32 list \<Rightarrow> nat list \<Rightarrow> bool" where
  "decodes k m matrix erased dm ids \<longleftrightarrow> length dm = k * k \<and> (\<forall>j<k. ids ! j < k + m \<and> erased ! (ids ! j) = 0) \<and>
     emat k (mf k dm) \<and> (\<forall>x. (\<forall>j<k. felem F (x j)) \<longrightarrow>
          (\<forall>j<k. xsum k (\<lambda>i. galois_single_multiply F (dm ! (j * k + i)) (codeword F k matrix x (ids ! i))) = x j))"

lemma decodesD:
  assumes "decodes k m matrix erased dm ids"
  shows "length dm = k * k" "j < k \<Longrightarrow> ids ! j < k + m" "j < k \<Longrightarrow> erased ! (ids ! j) = 0"
    "i < k \<Longrightarrow> j < k \<Longrightarrow> felem F (dm ! (i * k + j))"
    "\<forall>j<k. felem F (x j) \<Longrightarrow> j < k \<Longrightarrow>
       xsum k (\<lambda>i. galois_single_multiply F (dm ! (j * k + i)) (codeword F k matrix x (ids ! i))) = x j"
  using assms unfolding decodes_def elem_mat_def mf_def by blast+

lemma decodes_row_nonzero:
  assumes "decodes k m matrix erased dm ids" "coding_matrix F k m matrix" "j < k"
  shows "\<exists>i<k. dm ! (j * k + i) \<noteq> 0"
proof (rule ccontr)
  assume "\<not> (\<exists>i<k. dm ! (j * k + i) \<noteq> 0)"
  then have "xsum k (\<lambda>i. galois_single_multiply F (dm ! (j * k + i)) (codeword F k matrix (\<lambda>_. 1) (ids ! i))) = 0"
    using decodesD(2) [OF assms(1)] elem_codeword [OF assms(2)] elem_1
    by (intro xsum_zeroI) (simp add: mult_0')
  then show False using decodesD(5) [OF assms(1) _ assms(3), of "\<lambda>_. 1"] elem_1 by simp
qed

lemma restore_one:
  assumes "decodes k m matrix erased dm ids" "coding_matrix F k m matrix" "survivors k m erased sz D st"
    "encoded F n k m matrix sz D" "n dvd sz" "l < k" "erased ! l \<noteq> 0"
  shows "\<exists>st'. jerasure_matrix_dotprod k w (matrix_row_of k dm l) (Some ids) l sz st = Some st' \<and>
    survivors k m erased sz D st' \<and> dev st' = (dev st)[l := D ! l]"
proof (rule dotprod_restores [OF assms(3-5) _ assms(7)])
  have row: "matrix_row_of k dm l ! j = dm ! (l * k + j)" if "j < k" for j
    using decodesD(1) [OF assms(1)] assms(6) that by (simp add: nth_matrix_row_of)
  then show "\<exists>j<k. matrix_row_of k dm l ! j \<noteq> 0" using decodes_row_nonzero [OF assms(1,2,6)] by auto
  show "felem F (matrix_row_of k dm l ! j)" if "j < k" for j
    using row [OF that] decodesD(4) [OF assms(1,6) that] by simp
  fix i assume i: "n * i + n \<le> sz"
  have "xsum k (\<lambda>j. galois_single_multiply F (matrix_row_of k dm l ! j) (wordv (D ! src_dev (Some ids) j) i)) =
      xsum k (\<lambda>j. galois_single_multiply F (dm ! (l * k + j)) (codeword F k matrix (\<lambda>j. wordv (D ! j) i) (ids ! j)))"
    using decodesD(2) [OF assms(1)] encoded_word [OF assms(4) _ i] row by (intro xsum_cong) (simp add: src_dev_def)
  also have "\<dots> = wordv (D ! l) i"
    by (rule decodesD(5) [OF assms(1) encoded_elem [OF assms(4) i] assms(6)])
  finally show "xsum k (\<lambda>j. galois_single_multiply F (matrix_row_of k dm l ! j) (wordv (D ! src_dev (Some ids) j) i)) =
      wordv (D ! l) i" .
qed (use assms(3,6,7) decodesD(2,3) [OF assms(1)] in \<open>auto simp: src_dev_def survivors_def\<close>)

text \<open>Phase 2: the last lost data device is the sum of the others and the parity device.\<close>

lemma restore_parity:
  assumes "survivors k m erased sz D st" "encoded F n k m matrix sz D" "n dvd sz" "coding_matrix F k m matrix"
    and "0 < m" "\<forall>j<k. matrix ! j = 1" "lastd < k" "erased ! lastd \<noteq> 0" "erased ! k = 0" "\<forall>d<k. d \<noteq> lastd \<longrightarrow> dev st ! d = D ! d"
  shows "\<exists>st'. jerasure_matrix_dotprod k w (matrix_row_of k matrix 0) (Some (parity_ids k lastd)) lastd sz st = Some st' \<and>
    survivors k m erased sz D st' \<and> dev st' = (dev st)[lastd := D ! lastd]"
proof (rule dotprod_restores [OF assms(1-3) _ assms(8)])
  have row: "matrix_row_of k matrix 0 ! j = 1" if "j < k" for j
    using that assms(4-6) by (simp add: coding_matrix_def nth_matrix_row_of [of _ m])
  then show "\<exists>j<k. matrix_row_of k matrix 0 ! j \<noteq> 0" "j < k \<Longrightarrow> felem F (matrix_row_of k matrix 0 ! j)" for j
    using assms(7) elem_1 by auto
  fix i assume i: "n * i + n \<le> sz"
  let ?x = "\<lambda>d. wordv (D ! d) i"
  have el: "felem F (?x d)" if "d < k + m" for d
    using that i assms(2) elem_wordv unfolding encoded_def by metis
  have "codeword F k matrix ?x k = xsum k ?x"
    unfolding codeword_def using assms(6) el by (intro xsum_cong) (simp add: gen_row_def mult_1)
  then have parity: "?x k = xsum k ?x" using encoded_word [OF assms(2) _ i, of k] assms(5) by simp
  have "xsum k (\<lambda>j. galois_single_multiply F (matrix_row_of k matrix 0 ! j) (?x (src_dev (Some (parity_ids k lastd)) j))) =
      xsum k (\<lambda>j. ?x (if j < lastd then j else j + 1))"
    using row el assms(5) by (intro xsum_cong) (simp add: src_dev_def parity_ids_def mult_1)
  also have "\<dots> = ?x lastd" using xsum_skip [of lastd k ?x] assms(7) parity by simp
  finally show "xsum k (\<lambda>j. galois_single_multiply F (matrix_row_of k matrix 0 ! j) (?x (src_dev (Some (parity_ids k lastd)) j))) =
      ?x lastd" .
next
  show "src_dev (Some (parity_ids k lastd)) j < k + m \<and> src_dev (Some (parity_ids k lastd)) j \<noteq> lastd \<and>
      dev st ! src_dev (Some (parity_ids k lastd)) j = D ! src_dev (Some (parity_ids k lastd)) j" if "j < k" for j
    using that assms(1,5,7,9,10) by (cases "Suc j = k") (auto simp: src_dev_def parity_ids_def survivors_def)
qed (use assms(7) in simp)

text \<open>The decoding matrix is made when phase 1 needs it.\<close>

definition decoder_rows :: "nat \<Rightarrow> nat \<Rightarrow> u32 list \<Rightarrow> u32 list \<Rightarrow> (int \<times> u32 list \<times> nat list) \<Rightarrow> bool" where
  "decoder_rows k m matrix erased r \<longleftrightarrow> (case r of (ret, dm, ids) \<Rightarrow>
     (if regular k (mf k (decoding_rows k matrix (dm_ids k m erased))) then ret = 0 \<and> decodes k m matrix erased dm ids else ret = - 1))"

lemma make_decoder:
  assumes "jst_ok st" "coding_matrix F k m matrix" "k \<le> alive (k + m) erased"
  shows "\<exists>g r. galois_field True (gal st) w = Some (g, F) \<and> gal_ok g \<and>
    jerasure_make_decoding_matrix F k m matrix erased = Some r \<and> decoder_rows k m matrix erased r"
proof -
  obtain g where g: "galois_field True (gal st) w = Some (g, F)" "gal_ok g"
    using galois_field_ok [of "gal st" w] assms(1) code_size default by (auto simp: jst_ok_def)
  obtain ret D where D: "jerasure_make_decoding_matrix F k m matrix erased = Some (ret, D, dm_ids k m erased)"
     "length (dm_ids k m erased) = k"
     "if regular k (mf k (decoding_rows k matrix (dm_ids k m erased)))
      then ret = 0 \<and> length D = k * k \<and> emat k (mf k D) \<and>
        (\<forall>x. (\<forall>j<k. felem F (x j)) \<longrightarrow>
          (\<forall>j<k. xsum k (\<lambda>i. galois_single_multiply F (D ! (j * k + i)) (codeword F k matrix x (dm_ids k m erased ! i))) = x j))
      else ret = - 1"
    using make_decoding_matrix [OF assms(2,3)] by blast
  have "decoder_rows k m matrix erased (ret, D, dm_ids k m erased)"
    using D(3) dm_ids_props [of _ k m erased] D(2)
    unfolding decoder_rows_def decodes_def prod.case by (metis (no_types, lifting))
  then show ?thesis using g D(1) by blast
qed

lemma survivors_gal: "survivors k m erased sz D st \<Longrightarrow> gal_ok g \<Longrightarrow> survivors k m erased sz D (st\<lparr>gal := g\<rparr>)"
  by (simp add: survivors_def jst_ok_def)

text \<open>Phases 1 to 3, whether or not the last lost data device is left to the parity row.\<close>

lemma decode_phases:
  assumes sv: "survivors k m erased sz D st" and enc: "encoded F n k m matrix sz D" "n dvd sz"
    and mat: "coding_matrix F k m matrix" "rows_nonzero k m matrix"
    and ld: "ld = k \<or> ld < k \<and> erased ! ld \<noteq> 0 \<and> lost k erased = Suc (lost ld erased) \<and>
      erased ! k = 0 \<and> 0 < m \<and> (\<forall>j<k. matrix ! j = 1)"
    and dm: "0 < lost ld erased \<Longrightarrow> decodes k m matrix erased dm ids"
  shows "\<exists>st'. run_phases k m erased ld
      (\<lambda>i. jerasure_matrix_dotprod k w (matrix_row_of k dm i) (Some ids) i sz)
      (jerasure_matrix_dotprod k w (matrix_row_of k matrix 0) (Some (parity_ids k ld)) ld sz)
      (\<lambda>i. jerasure_matrix_dotprod k w (matrix_row_of k matrix i) None (k + i) sz) (lost k erased) st = Some (0, st') \<and> jst_ok st' \<and> dev st' = D"
proof (rule decode_loops [OF sv])
  show "ld = k \<or> ld < k \<and> erased ! ld \<noteq> 0 \<and> lost k erased = Suc (lost ld erased)" using ld by blast
next
  fix i st assume i: "i < ld" "erased ! i \<noteq> 0" "survivors k m erased sz D st"
  have "decodes k m matrix erased dm ids" using dm lost_less [OF i(1,2)] by simp
  then show "\<exists>st'. jerasure_matrix_dotprod k w (matrix_row_of k dm i) (Some ids) i sz st = Some st' \<and>
      survivors k m erased sz D st' \<and> dev st' = (dev st)[i := D ! i]"
    using i ld by (intro restore_one [OF _ mat(1) i(3) enc]) auto
next
  fix st assume "ld < k" "survivors k m erased sz D st" "\<forall>d<k. d \<noteq> ld \<longrightarrow> dev st ! d = D ! d"
  then show "\<exists>st'. jerasure_matrix_dotprod k w (matrix_row_of k matrix 0) (Some (parity_ids k ld)) ld sz st = Some st' \<and>
      survivors k m erased sz D st' \<and> dev st' = (dev st)[ld := D ! ld]"
    using ld restore_parity [OF _ enc mat(1)] by simp
qed (use enc(1) restore_coding [OF _ enc mat] in \<open>simp_all add: encoded_def\<close>)

theorem decode:
  assumes sv: "survivors k m erased sz D st" and enc: "encoded F n k m matrix sz D" "n dvd sz"
    and mat: "coding_matrix F k m matrix" "rows_nonzero k m matrix" "0 < m" "row_k_ones \<longrightarrow> (\<forall>j<k. matrix ! j = 1)"
    and er: "erased = map (\<lambda>i. if i \<in> unat ` set xs then 1 else 0) [0..<k + m]"
      "\<forall>e\<in>set xs. e \<noteq> - 1 \<and> unat e < k + m" "card (unat ` set xs) \<le> m"
    and reg: "regular k (mf k (decoding_rows k matrix (dm_ids k m erased)))"
  shows "\<exists>st'. jerasure_matrix_decode k m w matrix row_k_ones (xs @ - 1 # ys) sz st = Some (0, st') \<and>
    jst_ok st' \<and> dev st' = D"
proof -
  have wk: "(w \<noteq> 8 \<and> w \<noteq> 16 \<and> w \<noteq> 32) = False" using code_size by auto
  have flags: "jerasure_erasures_to_erased k m (xs @ - 1 # ys) = Some (Some erased)"
    using erasures_to_erased [OF er(2)] er(1,3) by simp
  obtain lastd where ld: "erased_data k erased = (lost k erased, lastd)"
     "if lost k erased = 0 then lastd = k
      else lastd < k \<and> erased ! lastd \<noteq> 0 \<and> lost k erased = Suc (lost lastd erased)"
    using erased_data [of k erased] by blast
  define l where "l = (if \<not> row_k_ones \<or> erased ! k \<noteq> 0 then k else lastd)"
  define need where "need \<longleftrightarrow> lost k erased > 1 \<or> lost k erased > 0 \<and> (\<not> row_k_ones \<or> erased ! k \<noteq> 0)"
  have al: "k \<le> alive (k + m) erased" using alive_flags [of xs k m] er by auto
  have "jst_ok st" using sv by (simp add: survivors_def)
  from make_decoder [OF this mat(1) al] obtain g dm ids where
    g: "galois_field True (gal st) w = Some (g, F)" "gal_ok g" and
    r: "jerasure_make_decoding_matrix F k m matrix erased = Some (0, dm, ids)" "decodes k m matrix erased dm ids"
    using reg by (auto simp: decoder_rows_def)
  define st0 where "st0 = (if need then st\<lparr>gal := g\<rparr> else st)"
  define dm0 where "dm0 = (if need then dm else [])"
  define ids0 where "ids0 = (if need then ids else [])"
  have a: "l = k \<or> l < k \<and> erased ! l \<noteq> 0 \<and> lost k erased = Suc (lost l erased) \<and>
      erased ! k = 0 \<and> 0 < m \<and> (\<forall>j<k. matrix ! j = 1)"
    using ld(2) mat(3,4) unfolding l_def by (auto split: if_splits)
  have "need" if "0 < lost l erased"
    using that ld(2) unfolding l_def need_def by (auto split: if_splits)
  then have b: "0 < lost l erased \<Longrightarrow> decodes k m matrix erased dm0 ids0" using r(2) by (simp add: dm0_def ids0_def)
  have c: "survivors k m erased sz D st0" using sv survivors_gal g(2) by (simp add: st0_def)
  from decode_phases [OF c enc mat(1,2) a b] obtain st' where st': "run_phases k m erased l
      (\<lambda>i. jerasure_matrix_dotprod k w (matrix_row_of k dm0 i) (Some ids0) i sz)
      (jerasure_matrix_dotprod k w (matrix_row_of k matrix 0) (Some (parity_ids k l)) l sz)
      (\<lambda>i. jerasure_matrix_dotprod k w (matrix_row_of k matrix i) None (k + i) sz) (lost k erased) st0 = Some (0, st')" "jst_ok st'" "dev st' = D"
    by blast
  have "(if need then obind (galois_field True (gal st) w) (\<lambda>(g, F).
                           obind (jerasure_make_decoding_matrix F k m matrix erased) (\<lambda>(ret, dm, ids).
                           Some (ret, dm, ids, st\<lparr>gal := g\<rparr>)))
                      else Some (0, [], [], st)) = Some (0, dm0, ids0, st0)"
    using g r by (simp add: dm0_def ids0_def st0_def)
  then have "jerasure_matrix_decode k m w matrix row_k_ones (xs @ - 1 # ys) sz st = Some (0, st')"
    unfolding jerasure_matrix_decode_def wk if_False flags bind.bind_lunit option.case Let_def ld(1) prod.case
      need_def [symmetric] l_def [symmetric] using st'(1) by (simp only: bind.bind_lunit prod.case less_irrefl if_False)
  then show ?thesis using st' by blast
qed

text \<open>The decoder gives up, with the devices untouched, when the surviving rows are singular.\<close>

lemma decode_singular:
  assumes "jst_ok st" "coding_matrix F k m matrix"
    and er: "erased = map (\<lambda>i. if i \<in> unat ` set xs then 1 else 0) [0..<k + m]"
      "\<forall>e\<in>set xs. e \<noteq> - 1 \<and> unat e < k + m" "card (unat ` set xs) \<le> m"
    and need: "lost k erased > 1 \<or> lost k erased > 0 \<and> (\<not> row_k_ones \<or> erased ! k \<noteq> 0)"
    and reg: "\<not> regular k (mf k (decoding_rows k matrix (dm_ids k m erased)))"
  shows "\<exists>st'. jerasure_matrix_decode k m w matrix row_k_ones (xs @ - 1 # ys) sz st = Some (- 1, st') \<and> dev st' = dev st"
proof -
  have wk: "(w \<noteq> 8 \<and> w \<noteq> 16 \<and> w \<noteq> 32) = False" using code_size by auto
  have flags: "jerasure_erasures_to_erased k m (xs @ - 1 # ys) = Some (Some erased)"
    using erasures_to_erased [OF er(2)] er(1,3) by simp
  obtain lastd where ld: "erased_data k erased = (lost k erased, lastd)"
    using erased_data [of k erased] by blast
  have al: "k \<le> alive (k + m) erased" using alive_flags [of xs k m] er by auto
  from make_decoder [OF assms(1,2) al] obtain g dm ids where
    g: "galois_field True (gal st) w = Some (g, F)" and
    r: "jerasure_make_decoding_matrix F k m matrix erased = Some (- 1, dm, ids)"
    using reg by (auto simp: decoder_rows_def)
  show ?thesis
    unfolding jerasure_matrix_decode_def wk if_False flags bind.bind_lunit option.case Let_def ld(1) prod.case
    using need g r by simp
qed

end

lemma decode_too_many:
  assumes "w \<in> {8, 16, 32}" "\<forall>e\<in>set xs. e \<noteq> - 1 \<and> unat e < k + m" "m < card (unat ` set xs)"
  shows "jerasure_matrix_decode k m w matrix row_k_ones (xs @ - 1 # ys) sz st = Some (- 1, st)"
proof -
  have "(w \<noteq> 8 \<and> w \<noteq> 16 \<and> w \<noteq> 32) = False" using assms(1) by auto
  moreover have "jerasure_erasures_to_erased k m (xs @ - 1 # ys) = Some None"
    using erasures_to_erased [OF assms(2)] assms(3) by simp
  ultimately show ?thesis unfolding jerasure_matrix_decode_def by simp
qed

lemma region_field_default: "w \<in> {8, 16, 32} \<Longrightarrow> region_field (galois_default w) w (w div 8)"
  using reg8.region_field_axioms reg16.region_field_axioms reg32.region_field_axioms by auto

section \<open>Summary for the default fields\<close>

abbreviation erased_flags :: "nat \<Rightarrow> u32 list \<Rightarrow> u32 list" where
  "erased_flags n xs \<equiv> map (\<lambda>i. if i \<in> unat ` set xs then 1 else 0) [0..<n]"

text \<open>The rows of the generator that belong to the first k surviving devices are regular.\<close>

definition recoverable :: "gf_t \<Rightarrow> nat \<Rightarrow> nat \<Rightarrow> u32 list \<Rightarrow> u32 list \<Rightarrow> bool" where
  "recoverable F k m matrix erased \<longleftrightarrow>
     mat_regular (felem F) (galois_single_multiply F) k (mf k (decoding_rows k matrix (dm_ids k m erased)))"

text \<open>Devices the coding functions accept: k + m of them, of one size that is a multiple of the word size.\<close>

definition devices_ok :: "nat \<Rightarrow> nat \<Rightarrow> nat \<Rightarrow> nat \<Rightarrow> jstate \<Rightarrow> bool" where
  "devices_ok k m w sz st \<longleftrightarrow> jst_ok st \<and> length (dev st) = k + m \<and> (\<forall>d<k + m. length (dev st ! d) = sz) \<and> w div 8 dvd sz"

definition matrix_ok :: "nat \<Rightarrow> nat \<Rightarrow> nat \<Rightarrow> u32 list \<Rightarrow> bool" where
  "matrix_ok k m w matrix \<longleftrightarrow> w \<in> {8, 16, 32} \<and> coding_matrix (galois_default w) k m matrix \<and> rows_nonzero k m matrix"

lemma encode_default:
  assumes "matrix_ok k m w matrix" "devices_ok k m w sz st"
  shows "\<exists>st'. jerasure_matrix_encode k m w matrix sz st = Some st' \<and> devices_ok k m w sz st' \<and>
    encoded (galois_default w) (w div 8) k m matrix sz (dev st') \<and> take k (dev st') = take k (dev st)"
proof -
  have "region_field (galois_default w) w (w div 8)" using assms(1) by (simp add: matrix_ok_def region_field_default)
  from region_field.encode [OF this, of st k m sz matrix] assms
  show ?thesis by (fastforce simp: devices_ok_def matrix_ok_def encoded_def)
qed

lemma decode_default:
  assumes "matrix_ok k m w matrix" "0 < m" "row_k_ones \<longrightarrow> (\<forall>j<k. matrix ! j = 1)"
    "encoded (galois_default w) (w div 8) k m matrix sz D" "devices_ok k m w sz st"
    "\<forall>e\<in>set xs. e \<noteq> - 1 \<and> unat e < k + m" "card (unat ` set xs) \<le> m"
    "\<forall>d<k + m. d \<notin> unat ` set xs \<longrightarrow> dev st ! d = D ! d"
    "recoverable (galois_default w) k m matrix (erased_flags (k + m) xs)"
  shows "\<exists>st'. jerasure_matrix_decode k m w matrix row_k_ones (xs @ - 1 # ys) sz st = Some (0, st') \<and> dev st' = D"
proof -
  have F: "region_field (galois_default w) w (w div 8)" using assms(1) by (simp add: matrix_ok_def region_field_default)
  have "survivors k m (erased_flags (k + m) xs) sz D st"
    using assms(5,8) by (simp add: survivors_def devices_ok_def split: if_splits)
  from region_field.decode [OF F this assms(4) _ _ _ assms(2,3) refl assms(6,7)] assms(1,5,9)
  show ?thesis unfolding recoverable_def devices_ok_def matrix_ok_def by blast
qed

lemma decode_refuses:
  assumes "matrix_ok k m w matrix" "jst_ok st" "\<forall>e\<in>set xs. e \<noteq> - 1 \<and> unat e < k + m"
    and "m < card (unat ` set xs) \<or>
      \<not> recoverable (galois_default w) k m matrix (erased_flags (k + m) xs) \<and>
      (\<exists>d<k. d \<in> unat ` set xs) \<and> \<not> row_k_ones"
  shows "\<exists>st'. jerasure_matrix_decode k m w matrix row_k_ones (xs @ - 1 # ys) sz st = Some (- 1, st') \<and> dev st' = dev st"
proof (cases "m < card (unat ` set xs)")
  case True
  then show ?thesis using decode_too_many [OF _ assms(3), of w] assms(1) by (simp add: matrix_ok_def)
next
  case False
  have F: "region_field (galois_default w) w (w div 8)" using assms(1) by (simp add: matrix_ok_def region_field_default)
  have "lost k (erased_flags (k + m) xs) > 0" using False assms(4) lost_eq_0 [of k "erased_flags (k + m) xs"] by auto
  then show ?thesis
    using region_field.decode_singular [OF F assms(2) _ refl assms(3)] False assms(1,4)
    unfolding recoverable_def matrix_ok_def by auto
qed

end
