(* ===== verification/Jer_Bitmatrix.thy ===== *)
theory Jer_Bitmatrix
  imports Jer_Devices
begin

text \<open>
  The bit-matrix routines of jerasure.c.  A bit matrix for k data and m coding devices has
  m w rows and k w columns of zeros and ones in a flat array.  The devices are cut into
  stripes of w packets, and a coding packet is the exclusive-or of the data packets its row
  selects.  None is a failing assertion, an access outside an array or a buffer, a division
  by zero, the use of an array element that was never written, or a loop that does not end;
  allocations succeed.
\<close>

section \<open>Inversion of a bit matrix\<close>

definition bit_eliminate :: "nat \<Rightarrow> nat \<Rightarrow> u32 list \<times> u32 list \<Rightarrow> u32 list \<times> u32 list" where
  "bit_eliminate n i = fold (\<lambda>j (mat, iv).
     if mat ! (j * n + i) \<noteq> 0 then (row_op n (\<lambda>x y. x XOR y) j i mat, row_op n (\<lambda>x y. x XOR y) j i iv)
     else (mat, iv)) [i + 1..<n]"

definition bit_column :: "nat \<Rightarrow> nat \<Rightarrow> invert_state \<Rightarrow> invert_state" where
  "bit_column n i s =
    (case s of
       Inl u \<Rightarrow> Inl u
     | Inr s \<Rightarrow> (case invert_pivot n i s of None \<Rightarrow> Inl s | Some s \<Rightarrow> Inr (bit_eliminate n i s)))"

definition bit_back :: "nat \<Rightarrow> nat \<Rightarrow> u32 list \<times> u32 list \<Rightarrow> u32 list \<times> u32 list" where
  "bit_back n i = fold (\<lambda>j (mat, iv).
     if mat ! (j * n + i) \<noteq> 0 then (row_op n (\<lambda>x y. x XOR y) j i mat, row_op n (\<lambda>x y. x XOR y) j i iv)
     else (mat, iv)) [0..<i]"

text \<open>The result: the return code, the matrix as it is left, and the inverse.\<close>

definition jerasure_invert_bitmatrix :: "u32 list \<Rightarrow> nat \<Rightarrow> int \<times> u32 list \<times> u32 list" where
  "jerasure_invert_bitmatrix mat rows =
    (case fold (bit_column rows) [0..<rows] (Inr (mat, identity_list rows)) of
       Inl (mat, iv) \<Rightarrow> (- 1, mat, iv)
     | Inr s \<Rightarrow> (case fold (bit_back rows) (rev [0..<rows]) s of (mat, iv) \<Rightarrow> (0, mat, iv)))"

definition invertible_bit_column :: "nat \<Rightarrow> nat \<Rightarrow> unit + u32 list \<Rightarrow> unit + u32 list" where
  "invertible_bit_column n i s =
    (case s of
       Inl u \<Rightarrow> Inl u
     | Inr mat \<Rightarrow>
         (case (if mat ! (n * i + i) = 0
                then map_option (\<lambda>j. row_swap n i j mat) (find (\<lambda>j. mat ! (n * j + i) \<noteq> 0) [i + 1..<n])
                else Some mat) of
            None \<Rightarrow> Inl ()
          | Some mat \<Rightarrow>
              Inr (fold (\<lambda>j mat. if mat ! (j * n + i) \<noteq> 0 then row_op n (\<lambda>x y. x XOR y) j i mat else mat)
                [i + 1..<n] mat)))"

definition jerasure_invertible_bitmatrix :: "u32 list \<Rightarrow> nat \<Rightarrow> int" where
  "jerasure_invertible_bitmatrix mat rows =
    (case fold (invertible_bit_column rows) [0..<rows] (Inr mat) of Inl _ \<Rightarrow> 0 | Inr _ \<Rightarrow> 1)"

section \<open>Decoding matrices\<close>

text \<open>
  The blocks of w rows of a decoding matrix: block i becomes the w unit rows of data device
  d, or a copy of block d of another matrix.
\<close>

definition identity_block :: "nat \<Rightarrow> nat \<Rightarrow> nat \<Rightarrow> nat \<Rightarrow> u32 list \<Rightarrow> u32 list" where
  "identity_block k w i d t =
    fold (\<lambda>j t. t[i * k * w * w + d * w + j * (k * w + 1) := 1]) [0..<w]
      (fold (\<lambda>j t. t[i * k * w * w + j := 0]) [0..<k * w * w] t)"

definition copy_block :: "nat \<Rightarrow> nat \<Rightarrow> u32 list \<Rightarrow> nat \<Rightarrow> nat \<Rightarrow> u32 list \<Rightarrow> u32 list" where
  "copy_block k w matrix d i t =
    fold (\<lambda>j t. t[i * k * w * w + j := matrix ! (d * k * w * w + j)]) [0..<k * w * w] t"

definition decoding_bitrows :: "nat \<Rightarrow> nat \<Rightarrow> u32 list \<Rightarrow> nat list \<Rightarrow> u32 list" where
  "decoding_bitrows k w matrix ids =
    fold (\<lambda>i tmpmat. if ids ! i < k then identity_block k w i (ids ! i) tmpmat
                     else copy_block k w matrix (ids ! i - k) i tmpmat)
      [0..<k] (replicate (k * k * w * w) 0)"

definition jerasure_make_decoding_bitmatrix ::
  "nat \<Rightarrow> nat \<Rightarrow> nat \<Rightarrow> u32 list \<Rightarrow> u32 list \<Rightarrow> (int \<times> u32 list \<times> nat list) option" where
  "jerasure_make_decoding_bitmatrix k m w matrix erased =
    (let ids = dm_ids k m erased
     in if length ids < k then None
        else case jerasure_invert_bitmatrix (decoding_bitrows k w matrix ids) (k * w) of
          (ret, tmpmat, decoding_matrix) \<Rightarrow> Some (ret, decoding_matrix, ids))"

section \<open>Dot products, encoding and decoding\<close>

text \<open>The body of the innermost loop; the flag says whether the packet has been written.\<close>

definition bit_dot_step ::
  "nat \<Rightarrow> nat \<Rightarrow> u32 list \<Rightarrow> nat list option \<Rightarrow> nat \<Rightarrow> nat \<Rightarrow> nat \<Rightarrow> nat \<Rightarrow> nat \<Rightarrow> nat \<Rightarrow> bool \<times> jstate \<Rightarrow> (bool \<times> jstate) option" where
  "bit_dot_step k w bitmatrix_row src_ids dest_id packetsize sindex j x y = (\<lambda>(pstarted, st).
    if bitmatrix_row ! (j * (k * w) + (x * w + y)) \<noteq> 0
    then map_option (Pair True)
           (if \<not> pstarted
            then counted_copy (src_dev src_ids x) (sindex + y * packetsize) dest_id (sindex + j * packetsize) packetsize st
            else counted_xor (src_dev src_ids x) (sindex + y * packetsize) dest_id (sindex + j * packetsize) packetsize st)
    else Some (pstarted, st))"

definition jerasure_bitmatrix_dotprod ::
  "nat \<Rightarrow> nat \<Rightarrow> u32 list \<Rightarrow> nat list option \<Rightarrow> nat \<Rightarrow> nat \<Rightarrow> nat \<Rightarrow> jstate \<Rightarrow> jstate option" where
  "jerasure_bitmatrix_dotprod k w bitmatrix_row src_ids dest_id sz packetsize st =
    (if w * packetsize = 0 \<or> sz mod (w * packetsize) \<noteq> 0 then None
     else ofold (\<lambda>s. ofold (\<lambda>j st. map_option snd
            (ofold (\<lambda>x. ofold (\<lambda>y.
                bit_dot_step k w bitmatrix_row src_ids dest_id packetsize (s * (packetsize * w)) j x y)
              [0..<w]) [0..<k] (False, st)))
          [0..<w]) [0..<sz div (packetsize * w)] st)"

definition jerasure_bitmatrix_encode :: "nat \<Rightarrow> nat \<Rightarrow> nat \<Rightarrow> u32 list \<Rightarrow> nat \<Rightarrow> nat \<Rightarrow> jstate \<Rightarrow> jstate option" where
  "jerasure_bitmatrix_encode k m w bitmatrix sz packetsize st =
    (if packetsize mod 8 \<noteq> 0 then None
     else if packetsize * w = 0 \<or> sz mod (packetsize * w) \<noteq> 0 then None
     else ofold (\<lambda>i st. jerasure_bitmatrix_dotprod k w (matrix_row_of (k * w * w) bitmatrix i) None (k + i) sz packetsize st)
            [0..<m] st)"

text \<open>The parity row may be used only when the argument is exactly 1.\<close>

definition jerasure_bitmatrix_decode ::
  "nat \<Rightarrow> nat \<Rightarrow> nat \<Rightarrow> u32 list \<Rightarrow> int \<Rightarrow> u32 list \<Rightarrow> nat \<Rightarrow> nat \<Rightarrow> jstate \<Rightarrow> (int \<times> jstate) option" where
  "jerasure_bitmatrix_decode k m w bitmatrix row_k_ones erasures sz packetsize st =
    obind (jerasure_erasures_to_erased k m erasures) (\<lambda>er.
      case er of
        None \<Rightarrow> Some (- 1, st)
      | Some erased \<Rightarrow>
          (let (edd, lastd) = erased_data k erased;
               lastdrive = (if row_k_ones \<noteq> 1 \<or> erased ! k \<noteq> 0 then k else lastd)
           in obind (if edd > 1 \<or> (edd > 0 \<and> (row_k_ones \<noteq> 1 \<or> erased ! k \<noteq> 0))
                     then jerasure_make_decoding_bitmatrix k m w bitmatrix erased
                     else Some (0, [], [])) (\<lambda>(ret, decoding_matrix, ids).
              if ret < 0 then Some (- 1, st)
              else
                obind (decode_data lastdrive erased (\<lambda>i st.
                    jerasure_bitmatrix_dotprod k w (matrix_row_of (k * w * w) decoding_matrix i) (Some ids) i sz packetsize st)
                    (edd, st)) (\<lambda>(edd, st).
                obind (if edd > 0
                       then jerasure_bitmatrix_dotprod k w (matrix_row_of (k * w * w) bitmatrix 0)
                              (Some (parity_ids k lastdrive)) lastdrive sz packetsize st
                       else Some st) (\<lambda>st.
                map_option (Pair 0) (ofold (\<lambda>i st.
                    if erased ! (k + i) \<noteq> 0
                    then jerasure_bitmatrix_dotprod k w (matrix_row_of (k * w * w) bitmatrix i) None (k + i) sz packetsize st
                    else Some st) [0..<m] st))))))"

end
