(* ===== verification/Jer_Bits.thy ===== *)
theory Jer_Bits
  imports Jer_Decode
begin

text \<open>
  The bit matrix of a matrix: every element becomes a w by w block over the two-element
  field, and multiplying by the block is multiplying by the element.
\<close>

definition block_index :: "nat \<Rightarrow> nat \<Rightarrow> nat \<Rightarrow> nat \<Rightarrow> nat \<Rightarrow> nat \<Rightarrow> nat" where
  "block_index k w i j l x = (i * w + l) * (k * w) + (j * w + x)"

lemma block_index_eq:
  assumes "j < k" "x < w" "l < w" "j' < k" "x' < w" "l' < w"
  shows "block_index k w i j l x = block_index k w i' j' l' x' \<longleftrightarrow> i = i' \<and> j = j' \<and> l = l' \<and> x = x'"
  unfolding block_index_def
  using assms mat_index_eq [of "j * w + x" "k * w" "j' * w + x'"] mat_index_eq [of x w x']
    mat_index_eq [of l w l'] mat_index_lt [of j k x w] mat_index_lt [of j' k x' w] by auto

lemma block_index_lt:
  assumes "i < m" "j < k" "x < w" "l < w"
  shows "block_index k w i j l x < k * m * w * w"
proof -
  have "block_index k w i j l x < (m * w) * (k * w)"
    unfolding block_index_def using assms by (intro mat_index_lt) auto
  then show ?thesis by (simp add: algebra_simps)
qed

lemma block_index_alt: "i * (k * w * w) + j * w + x + l * (k * w) = block_index k w i j l x"
  by (simp add: block_index_def algebra_simps)

lemma bitmatrix_column_loop:
  "fold (\<lambda>x (b, e). (f x e b, g e)) [0..<n] (b, e) =
   (fold (\<lambda>x b. f x ((g ^^ x) e) b) [0..<n] b, (g ^^ n) e)"
  by (induction n) auto

lemma length_fold_keep:
  "(\<And>i t. length (f i t) = length t) \<Longrightarrow> length (fold f xs t) = length t"
  by (induction xs arbitrary: t) auto

lemma to_bitmatrix_entry:
  fixes F :: gf_t and matrix :: "u32 list"
  assumes "i < m" "j < k" "x < w" "l < w"
  defines "bm \<equiv> jerasure_matrix_to_bitmatrix F k m w matrix"
  shows "length bm = k * m * w * w"
    and "bm ! block_index k w i j l x =
      (if bit (((\<lambda>e. galois_single_multiply F e 2) ^^ x) (matrix ! (i * k + j))) l then 1 else 0)"
proof -
  define v :: "(nat \<times> nat) \<times> nat \<times> nat \<Rightarrow> u32" where
    "v = (\<lambda>((i, j), x, l). if bit (((\<lambda>e. galois_single_multiply F e 2) ^^ x) (matrix ! (i * k + j))) l then 1 else 0)"
  define q where "q = (\<lambda>((i, j), x, l). block_index k w i j l x)"
  define xs where "xs = List.product (List.product [0..<m] [0..<k]) (List.product [0..<w] [0..<w])"
  have bm: "bm = fold (\<lambda>a t. t[q a := v a]) xs (replicate (k * m * w * w) 0)"
    unfolding bm_def jerasure_matrix_to_bitmatrix_def Let_def block_index_alt bitmatrix_column_loop
      fst_conv fold_nested xs_def q_def v_def
    by (simp add: case_prod_unfold fold_nested)
  then show "length bm = k * m * w * w" by simp
  have "bm ! q ((i, j), x, l) = (if \<exists>a\<in>set xs. q a = q ((i, j), x, l) then v ((i, j), x, l) else 0)"
    unfolding bm
    using assms block_index_lt [OF assms(1-4)] block_index_eq
    by (subst nth_fold_update [where val = "v ((i, j), x, l)"]) (auto simp: q_def xs_def)
  moreover have "((i, j), x, l) \<in> set xs" using assms by (simp add: xs_def)
  ultimately show "bm ! block_index k w i j l x =
      (if bit (((\<lambda>e. galois_single_multiply F e 2) ^^ x) (matrix ! (i * k + j))) l then 1 else 0)"
    by (auto simp: q_def v_def)
qed

definition of_bit :: "bool \<Rightarrow> u32" where
  "of_bit b = (if b then 1 else 0)"

lemma of_bit_xor: "of_bit (a \<noteq> b) = of_bit a XOR of_bit b"
  by (auto simp: of_bit_def)

lemma of_bit_xsum: "of_bit (bit (xsum n f) l) = xsum n (\<lambda>i. of_bit (bit (f i) l))"
  by (induction n) (auto simp: of_bit_def bit_xor_iff)

context correct_field
begin

lemma times_two_iterate:
  assumes "felem F e" "x < h_w (scratch F)"
  shows "((\<lambda>e. galois_single_multiply F e 2) ^^ x) e = (gf_xtime (h_w (scratch F)) (field_poly (scratch F)) ^^ x) e"
  using assms(2)
proof (induction x)
  case (Suc x)
  let ?w = "h_w (scratch F)"
  have w: "2 \<le> ?w" "?w \<le> 32" using Suc.prems correct by (auto simp: gf_correct_def h_primitive_def gf_primitive_def)
  have two: "felem F 2" using w power_increasing [of 2 ?w "2::nat"] by (simp add: gf_elem_unat)
  have e: "felem F ((gf_xtime ?w (field_poly (scratch F)) ^^ x) e)" using assms(1) by simp
  show ?case
    using Suc w two e single_multiply_mul [OF correct e two] gf_mul_2 gf_mul_commute
    by simp
qed simp

text \<open>Multiplying by the block is multiplying by the element.\<close>

lemma to_bitmatrix_block:
  assumes "i < m" "j < k" "w = h_w (scratch F)" "l < w"
    and "felem F (matrix ! (i * k + j))" "felem F y"
  shows "of_bit (bit (galois_single_multiply F (matrix ! (i * k + j)) y) l) =
     xsum w (\<lambda>x. jerasure_matrix_to_bitmatrix F k m w matrix ! block_index k w i j l x AND of_bit (bit y x))"
proof -
  let ?e = "matrix ! (i * k + j)" and ?pp = "field_poly (scratch F)"
  have w: "w \<le> 32" using assms(3) correct by (auto simp: gf_correct_def h_primitive_def gf_primitive_def)
  have "galois_single_multiply F ?e y = gf_mul w ?pp y ?e"
    using single_multiply_mul [OF correct assms(5,6)] gf_mul_commute assms(3,5,6) w by metis
  also have "\<dots> = xsum w (\<lambda>x. if bit y x then (gf_xtime w ?pp ^^ x) ?e else 0)"
    by (simp add: gf_mul_def)
  finally have "of_bit (bit (galois_single_multiply F ?e y) l) =
      xsum w (\<lambda>x. of_bit (bit (if bit y x then (gf_xtime w ?pp ^^ x) ?e else 0) l))"
    by (simp add: of_bit_xsum)
  also have "\<dots> = xsum w (\<lambda>x. jerasure_matrix_to_bitmatrix F k m w matrix ! block_index k w i j l x AND of_bit (bit y x))"
    using to_bitmatrix_entry(2) [OF assms(1,2) _ assms(4)] times_two_iterate [OF assms(5)] assms(3)
    by (intro xsum_cong) (auto simp: of_bit_def)
  finally show ?thesis .
qed

end

end
