(* ===== verification/Jer_Bit_Invert.thy ===== *)
theory Jer_Bit_Invert
  imports Jer_Bitmatrix Jer_Bits
begin

text \<open>
  The inversion of bit matrices is correct.  On matrices of zeros and ones it takes the same
  steps as the inversion over any field; the field of 8 bits is used here.  Its bytes are
  also what the packets of a device are made of, so that a bit-matrix code is a code over
  that field with the coefficients 0 and 1.
\<close>

section \<open>Matrices of zeros and ones\<close>

definition bits :: "u32 list \<Rightarrow> bool" where
  "bits xs \<longleftrightarrow> set xs \<subseteq> {0, 1}"

text \<open>Over the two-element field: only the zero vector is mapped to zero.\<close>

definition bit_regular :: "nat \<Rightarrow> mat \<Rightarrow> bool" where
  "bit_regular n A \<longleftrightarrow>
     (\<forall>x. (\<forall>c. x c \<in> {0, 1}) \<and> (\<forall>r<n. xsum n (\<lambda>c. A r c AND x c) = 0) \<longrightarrow> (\<forall>c<n. x c = 0))"

abbreviation mult8 :: "u32 \<Rightarrow> u32 \<Rightarrow> u32" where
  "mult8 \<equiv> galois_single_multiply (galois_default 8)"

abbreviation elem8 :: "u32 \<Rightarrow> bool" where
  "elem8 \<equiv> felem (galois_default 8)"

lemma bits_nth: "bits xs \<Longrightarrow> i < length xs \<Longrightarrow> xs ! i = 0 \<or> xs ! i = 1"
  unfolding bits_def using nth_mem [of i xs] by blast

lemma elem8_bit: "a = 0 \<or> a = 1 \<Longrightarrow> elem8 a"
  using gal8.elem_0 gal8.elem_1 by auto

lemma mult8_bit: "a = 0 \<or> a = 1 \<Longrightarrow> elem8 b \<Longrightarrow> mult8 a b = (if a = 0 then 0 else b)"
  using gal8.mult_0' gal8.mult_1 by auto

lemma mult8_and: "a = 0 \<or> a = 1 \<Longrightarrow> b = 0 \<or> b = 1 \<Longrightarrow> mult8 a b = a AND b"
  by (subst mult8_bit) (auto simp: elem8_bit)

lemma mf_index_lt: "length m = R * n \<Longrightarrow> r < R \<Longrightarrow> c < n \<Longrightarrow> r * n + c < length m"
  using mat_index_lt by simp

lemma index_split:
  assumes "i < R * (n :: nat)"
  shows "\<exists>r c. r < R \<and> c < n \<and> i = r * n + c"
proof (intro exI conjI)
  have n: "0 < n" using assms by (cases n) auto
  show "i div n < R" using assms by (simp add: less_mult_imp_div_less)
  show "i mod n < n" using n by simp
  show "i = i div n * n + i mod n" by simp
qed

lemma mf_eqI:
  assumes "length a = R * n" "length b = R * n" "\<And>r c. r < R \<Longrightarrow> c < n \<Longrightarrow> mf n a r c = mf n b r c"
  shows "a = b"
proof (rule nth_equalityI)
  fix i assume "i < length a"
  then obtain r c where "r < R" "c < n" "i = r * n + c" using index_split [of i R n] assms(1) by auto
  then show "a ! i = b ! i" using assms(3) by (simp add: mf_def)
qed (use assms in simp)

lemma bits_mf:
  assumes "length m = R * n"
  shows "bits m \<longleftrightarrow> (\<forall>r<R. \<forall>c<n. mf n m r c = 0 \<or> mf n m r c = 1)"
proof
  assume b: "bits m"
  show "\<forall>r<R. \<forall>c<n. mf n m r c = 0 \<or> mf n m r c = 1"
    using bits_nth [OF b] mf_index_lt [OF assms] by (simp add: mf_def)
next
  assume all: "\<forall>r<R. \<forall>c<n. mf n m r c = 0 \<or> mf n m r c = 1"
  have "m ! i = 0 \<or> m ! i = 1" if i: "i < length m" for i
  proof -
    obtain r c where "r < R" "c < n" "i = r * n + c" using index_split [of i R n] assms i by auto
    then show ?thesis using all by (auto simp: mf_def)
  qed
  then show "bits m" unfolding bits_def by (metis in_set_conv_nth insertI1 insert_iff subsetI)
qed

lemma bits_row_op:
  assumes "bits m" "length m = R * n" "a < R" "b < R"
  shows "bits (row_op n (\<lambda>x y. x XOR y) a b m)"
proof -
  have "mf n m r c = 0 \<or> mf n m r c = 1" if "r < R" "c < n" for r c
    using assms(1) that bits_mf [OF assms(2)] by blast
  then have "mf n m a c XOR mf n m b c = 0 \<or> mf n m a c XOR mf n m b c = 1" if "c < n" for c
    using assms(3,4) that by (metis xor_self_eq xor.right_neutral xor.left_neutral)
  then show ?thesis using assms by (subst bits_mf [of _ R n]) (auto simp: mf_row_op [of _ R] bits_mf [of _ R n])
qed

lemma bits_row_swap:
  assumes "bits m" "length m = R * n" "a < R" "b < R" "a \<noteq> b"
  shows "bits (row_swap n a b m)"
  using assms by (subst bits_mf [of _ R n]) (auto simp: mf_row_swap [of _ R] bits_mf [of _ R n])

lemma bits_identity: "bits (identity_list n)"
  by (subst bits_mf [of _ n n]) (auto simp: mf_identity_list)

lemma bits_update: "bits m \<Longrightarrow> v = 0 \<or> v = 1 \<Longrightarrow> bits (m[i := v])"
  unfolding bits_def using set_update_subset_insert [of m i v] by auto

lemma emat_bits: "bits m \<Longrightarrow> length m = n * n \<Longrightarrow> gal8.emat n (mf n m)"
  using bits_mf [of m n n] elem8_bit by (auto simp: elem_mat_def)

text \<open>Regular over the two-element field is regular over the field of 8 bits.\<close>

lemma xsum_mask: "xsum n (\<lambda>c. if P c then of_bit (bit (f c) l) else 0) = of_bit (bit (xsum n (\<lambda>c. if P c then f c else 0)) l)"
  by (subst of_bit_xsum) (auto intro!: xsum_cong simp: of_bit_def)

lemma bit_regular_iff:
  assumes "\<And>r c. r < n \<Longrightarrow> c < n \<Longrightarrow> A r c = 0 \<or> A r c = 1"
  shows "bit_regular n A \<longleftrightarrow> gal8.regular n A"
proof
  assume reg: "gal8.regular n A"
  show "bit_regular n A"
    unfolding bit_regular_def
  proof (intro allI impI, elim conjE)
    fix x c assume x: "\<forall>c. x c \<in> {0, 1}" "\<forall>r<n. xsum n (\<lambda>c. A r c AND x c) = 0" and c: "c < n"
    have "mat_vec mult8 n A x r = xsum n (\<lambda>c. A r c AND x c)" if "r < n" for r
      unfolding mat_vec_def using that assms x(1) by (intro xsum_cong mult8_and) auto
    moreover have "\<forall>c. elem8 (x c)" using x(1) elem8_bit by simp
    ultimately show "x c = 0" using reg x(2) c unfolding mat_regular_def by simp
  qed
next
  assume reg: "bit_regular n A"
  show "gal8.regular n A"
    unfolding mat_regular_def
  proof (intro allI impI, elim conjE)
    fix x c assume x: "\<forall>c. elem8 (x c)" "\<forall>r<n. mat_vec mult8 n A x r = 0" and c: "c < n"
    have "x' c = 0" if x': "x' = (\<lambda>c. of_bit (bit (x c) l))" for x' l
    proof -
      have "xsum n (\<lambda>c. A r c AND x' c) = 0" if r: "r < n" for r
      proof -
        have "xsum n (\<lambda>c. A r c AND x' c) = xsum n (\<lambda>c. if A r c = 1 then of_bit (bit (x c) l) else 0)"
          using assms [OF r] by (intro xsum_cong) (fastforce simp: x' of_bit_def)
        also have "\<dots> = of_bit (bit (mat_vec mult8 n A x r) l)"
          unfolding xsum_mask mat_vec_def using assms [OF r] x(1)
          by (intro arg_cong [of _ _ "\<lambda>y. of_bit (bit y l)"] xsum_cong) (auto simp: mult8_bit)
        finally show ?thesis using x(2) r by (simp add: of_bit_def)
      qed
      moreover have "\<forall>c. x' c \<in> {0, 1}" by (simp add: x' of_bit_def)
      ultimately show ?thesis using reg c unfolding bit_regular_def by blast
    qed
    then have "of_bit (bit (x c) l) = 0" for l by blast
    then have "\<not> bit (x c) l" for l by (metis of_bit_def zero_neq_one)
    then show "x c = 0" by (simp add: bit_eq_iff)
  qed
qed

section \<open>The same steps as over the field\<close>

lemma fold_cong_inv:
  assumes "\<And>x s. x \<in> set xs \<Longrightarrow> P s \<Longrightarrow> f x s = g x s \<and> P (g x s)" "P s"
  shows "fold f xs s = fold g xs s \<and> P (fold g xs s)"
  using assms by (induction xs arbitrary: s) auto

lemma fold_rev_upt_cong_inv:
  assumes "\<And>i s. i < n \<Longrightarrow> P (Suc i) s \<Longrightarrow> f i s = g i s \<and> P i (g i s)" "P n s"
  shows "fold f (rev [0..<n]) s = fold g (rev [0..<n]) s \<and> P 0 (fold g (rev [0..<n]) s)"
  using assms by (induction n arbitrary: s) auto

definition bit_pair :: "nat \<Rightarrow> u32 list \<times> u32 list \<Rightarrow> bool" where
  "bit_pair n = (\<lambda>(m, v). length m = n * n \<and> length v = n * n \<and> bits m \<and> bits v)"

lemma bit_pair_add:
  "bit_pair n (m, v) \<Longrightarrow> i < n \<Longrightarrow> j < n \<Longrightarrow>
   bit_pair n (row_op n (\<lambda>x y. x XOR y) j i m, row_op n (\<lambda>x y. x XOR y) j i v)"
  using bits_row_op [of _ n n j i] by (simp add: bit_pair_def)

lemma bit_pair_pivot:
  assumes "bit_pair n s" "i < n" "invert_pivot n i s = Some (m, v)"
  shows "bit_pair n (m, v) \<and> m ! (n * i + i) = 1"
proof -
  obtain m0 v0 where s: "s = (m0, v0)" by (cases s)
  have b: "bits m0" "length m0 = n * n" using assms(1) by (auto simp: s bit_pair_def)
  show ?thesis
  proof (cases "m0 ! (n * i + i) = 0")
    case False
    then show ?thesis
      using assms bits_nth [OF b(1), of "n * i + i"] mat_index_lt [OF assms(2,2)] b(2)
      by (auto simp: invert_pivot_def s mult.commute)
  next
    case True
    then obtain j where j: "find (\<lambda>j. m0 ! (n * j + i) \<noteq> 0) [i + 1..<n] = Some j"
      "m = row_swap n i j m0" "v = row_swap n i j v0"
      using assms(3) by (auto simp: invert_pivot_def s split: option.splits)
    then have jn: "i < j" "j < n" "mf n m0 j i \<noteq> 0"
      by (auto dest!: find_upt_Some simp: mf_def mult.commute)
    have "bit_pair n (m, v)" using assms(1,2) jn bits_row_swap [of _ n n i j] by (auto simp: s j bit_pair_def)
    moreover have "mf n m i i = mf n m0 j i" using mf_row_swap [of m0 n n i j i i] b jn assms(2) by (simp add: j)
    moreover have "mf n m0 j i = 1" using jn(3) bits_mf [of m0 n n] b jn(2) assms(2) by auto
    ultimately show ?thesis by (simp add: mf_def mult.commute)
  qed
qed

lemma bit_eliminate_eq:
  assumes "bit_pair n s" "i < n"
  shows "invert_eliminate (galois_default 8) n i s = bit_eliminate n i s \<and> bit_pair n (bit_eliminate n i s)"
  unfolding invert_eliminate_def bit_eliminate_def
proof (rule fold_cong_inv [where P = "bit_pair n"])
  fix j s' assume j: "j \<in> set [i + 1..<n]" and p: "bit_pair n s'"
  obtain m v where s': "s' = (m, v)" by (cases s')
  have jn: "j < n" using j by simp
  then have b: "m ! (j * n + i) = 0 \<or> m ! (j * n + i) = 1"
    using p assms(2) bits_nth [of m "j * n + i"] mat_index_lt [of j n i n] by (auto simp: s' bit_pair_def)
  show "(case s' of (mat, iv) \<Rightarrow> let tmp = mat ! (n * j + i)
       in if tmp \<noteq> 0
          then if tmp = 1 then (row_op n (\<lambda>x y. x XOR y) j i mat, row_op n (\<lambda>x y. x XOR y) j i iv)
               else (row_op n (\<lambda>x y. x XOR mult8 tmp y) j i mat, row_op n (\<lambda>x y. x XOR mult8 tmp y) j i iv)
          else (mat, iv)) =
      (case s' of (mat, iv) \<Rightarrow>
        if mat ! (j * n + i) \<noteq> 0 then (row_op n (\<lambda>x y. x XOR y) j i mat, row_op n (\<lambda>x y. x XOR y) j i iv)
        else (mat, iv)) \<and>
      bit_pair n (case s' of (mat, iv) \<Rightarrow>
        if mat ! (j * n + i) \<noteq> 0 then (row_op n (\<lambda>x y. x XOR y) j i mat, row_op n (\<lambda>x y. x XOR y) j i iv)
        else (mat, iv))"
    using b p bit_pair_add [of n m v i j] assms(2) jn by (auto simp: s' mult.commute)
qed (rule assms(1))

lemma bit_column_eq:
  assumes "case s of Inl _ \<Rightarrow> True | Inr p \<Rightarrow> bit_pair n p" "i < n"
  shows "invert_column (galois_default 8) n i s = Some (bit_column n i s) \<and>
    (case bit_column n i s of Inl _ \<Rightarrow> True | Inr p \<Rightarrow> bit_pair n p)"
proof (cases s)
  case (Inr p)
  show ?thesis
  proof (cases "invert_pivot n i p")
    case (Some q)
    obtain m v where q: "q = (m, v)" by (cases q)
    have "bit_pair n p" using assms(1) Inr by simp
    from bit_pair_pivot [OF this assms(2) Some [unfolded q]] bit_eliminate_eq [OF _ assms(2), of "(m, v)"]
    show ?thesis using Some by (auto simp: Inr q invert_column_def bit_column_def invert_scale_def)
  qed (simp add: Inr invert_column_def bit_column_def)
qed (simp add: invert_column_def bit_column_def)

lemma bit_forward_eq:
  assumes "bits mat" "length mat = n * n"
  defines "s0 \<equiv> Inr (mat, identity_list n)"
  shows "ofold (invert_column (galois_default 8) n) [0..<n] s0 = Some (fold (bit_column n) [0..<n] s0) \<and>
    (case fold (bit_column n) [0..<n] s0 of Inl _ \<Rightarrow> True | Inr p \<Rightarrow> bit_pair n p)"
proof -
  have "ofold (invert_column (galois_default 8) n) [0..<l] s0 = Some (fold (bit_column n) [0..<l] s0) \<and>
    (case fold (bit_column n) [0..<l] s0 of Inl _ \<Rightarrow> True | Inr p \<Rightarrow> bit_pair n p)" if "l \<le> n" for l
    using that
  proof (induction l)
    case 0
    then show ?case using assms bits_identity [of n] by (simp add: bit_pair_def)
  next
    case (Suc l)
    then show ?case using bit_column_eq [where s = "fold (bit_column n) [0..<l] s0" and n = n and i = l] by (simp add: ofold_append)
  qed
  then show ?thesis by blast
qed

text \<open>
  In the back substitution the source adds the whole row, where the inversion over the field
  only clears one element; the row is a unit row by then.
\<close>

lemma bit_back_row:
  assumes "bit_pair n (m, v)" "i < n" "j < n" "i \<noteq> j" "mf n m j i = 1"
    and "\<And>c. c < n \<Longrightarrow> mf n m i c = (if c = i then 1 else 0)"
  shows "row_op n (\<lambda>x y. x XOR y) j i m = m[j * n + i := 0]"
    "row_op n (\<lambda>x y. x XOR y) j i v = row_op n (\<lambda>x y. x XOR mult8 1 y) j i v"
proof -
  have len: "length m = n * n" "length v = n * n" "bits v" using assms(1) by (auto simp: bit_pair_def)
  show "row_op n (\<lambda>x y. x XOR y) j i m = m[j * n + i := 0]"
  proof (rule mf_eqI [of _ n n])
    fix r c assume "r < n" "c < n"
    then show "mf n (row_op n (\<lambda>x y. x XOR y) j i m) r c = mf n (m[j * n + i := 0]) r c"
      using assms len by (simp add: mf_row_op [of _ n] mf_update [of _ n])
  qed (use len in simp_all)
  show "row_op n (\<lambda>x y. x XOR y) j i v = row_op n (\<lambda>x y. x XOR mult8 1 y) j i v"
    by (rule gal8.row_op_one) (use assms len emat_bits in auto)
qed

lemma bit_back_eq:
  assumes "bit_pair n (m, v)" "i < n" "back_tri n (Suc i) (mf n m)"
  shows "invert_back (galois_default 8) n i (m, v) = bit_back n i (m, v) \<and> bit_pair n (bit_back n i (m, v))"
proof -
  let ?Q = "\<lambda>s. case s of (m, v) \<Rightarrow> bit_pair n (m, v) \<and> (\<forall>c<n. mf n m i c = (if c = i then 1 else 0))"
  have "invert_back (galois_default 8) n i (m, v) = bit_back n i (m, v) \<and> ?Q (bit_back n i (m, v))"
    unfolding invert_back_def bit_back_def
  proof (rule fold_cong_inv [where P = ?Q])
    fix j s assume j: "j \<in> set [0..<i]" and Q: "?Q s"
    obtain m v where s: "s = (m, v)" by (cases s)
    have p: "bit_pair n (m, v)" "\<And>c. c < n \<Longrightarrow> mf n m i c = (if c = i then 1 else 0)" using Q by (auto simp: s)
    have jn: "j < n" "i \<noteq> j" using j assms(2) by auto
    have len: "length m = n * n" "bits m" using p(1) by (auto simp: bit_pair_def)
    have b: "mf n m j i = 0 \<or> mf n m j i = 1" using len bits_mf [of m n n] assms(2) jn by auto
    have row: "mf n (row_op n (\<lambda>x y. x XOR y) j i m) i c = mf n m i c" if "c < n" for c
      using that len assms(2) jn by (simp add: mf_row_op [of _ n])
    show "(case s of (mat, iv) \<Rightarrow>
          let tmp = mat ! (j * n + i)
          in if tmp \<noteq> 0 then (mat[j * n + i := 0], row_op n (\<lambda>x y. x XOR mult8 tmp y) j i iv) else (mat, iv)) =
        (case s of (mat, iv) \<Rightarrow>
          if mat ! (j * n + i) \<noteq> 0 then (row_op n (\<lambda>x y. x XOR y) j i mat, row_op n (\<lambda>x y. x XOR y) j i iv)
          else (mat, iv)) \<and>
        ?Q (case s of (mat, iv) \<Rightarrow>
          if mat ! (j * n + i) \<noteq> 0 then (row_op n (\<lambda>x y. x XOR y) j i mat, row_op n (\<lambda>x y. x XOR y) j i iv)
          else (mat, iv))"
    proof (cases "mf n m j i = 0")
      case True
      then show ?thesis using p by (simp add: s mf_def)
    next
      case False
      then have one: "mf n m j i = 1" using b by simp
      note br = bit_back_row [OF p(1) assms(2) jn(1,2) one p(2)]
      show ?thesis
        using one br bit_pair_add [OF p(1) assms(2) jn(1)] row p(2) by (simp add: s mf_def)
    qed
  qed (use assms back_tri_row [OF assms(3,2)] in simp)
  then show ?thesis by (auto simp: case_prod_unfold)
qed

lemma invert_bitmatrix_field:
  assumes "bits mat" "length mat = n * n"
  shows "\<exists>ret mat' iv. jerasure_invert_bitmatrix mat n = (ret, mat', iv) \<and>
    jerasure_invert_matrix (galois_default 8) mat n = Some (ret, mat', iv) \<and> (ret = 0 \<longrightarrow> bits iv)"
proof -
  let ?s = "fold (bit_column n) [0..<n] (Inr (mat, identity_list n))"
  note fwd = bit_forward_eq [OF assms]
  show ?thesis
  proof (cases ?s)
    case (Inl p)
    then show ?thesis using fwd by (cases p) (auto simp: jerasure_invert_bitmatrix_def jerasure_invert_matrix_def)
  next
    case (Inr p)
    have em: "gal8.emat n (mf n mat)" using emat_bits [OF assms] .
    have start: "bit_pair n p" "case p of (m, v) \<Rightarrow> gal8.inv_state n (mf n mat) (m, v) \<and> upper_tri n n (mf n m)"
      using fwd gal8.forward [OF assms(2) em] Inr by auto
    let ?P = "\<lambda>i s. bit_pair n s \<and> (case s of (m, v) \<Rightarrow> gal8.inv_state n (mf n mat) (m, v) \<and> back_tri n i (mf n m))"
    have "fold (invert_back (galois_default 8) n) (rev [0..<n]) p = fold (bit_back n) (rev [0..<n]) p \<and>
        ?P 0 (fold (bit_back n) (rev [0..<n]) p)"
    proof (rule fold_rev_upt_cong_inv [where P = ?P])
      fix i s assume i: "i < n" and P: "?P (Suc i) s"
      obtain m v where s: "s = (m, v)" by (cases s)
      have st: "bit_pair n (m, v)" "gal8.inv_state n (mf n mat) (m, v)" "back_tri n (Suc i) (mf n m)" using P by (auto simp: s)
      show "invert_back (galois_default 8) n i s = bit_back n i s \<and> ?P i (bit_back n i s)"
        using bit_back_eq [OF st(1) i st(3)] gal8.back_column [OF st(2) em i st(3)] by (auto simp: s)
    next
      show "?P n p" using start by (auto simp: back_tri_def)
    qed
    then show ?thesis
      using fwd Inr by (cases "fold (bit_back n) (rev [0..<n]) p")
        (auto simp: jerasure_invert_bitmatrix_def jerasure_invert_matrix_def bit_pair_def)
  qed
qed

section \<open>The inversion is correct\<close>

lemma invert_bitmatrix:
  assumes "bits mat" "length mat = n * n"
  shows "\<exists>mat' iv. jerasure_invert_bitmatrix mat n = (if bit_regular n (mf n mat) then 0 else - 1, mat', iv) \<and>
    (bit_regular n (mf n mat) \<longrightarrow> length iv = n * n \<and> bits iv \<and> is_identity n (gal8.mprod n (mf n iv) (mf n mat)))"
proof -
  obtain ret mat' iv where inv: "jerasure_invert_bitmatrix mat n = (ret, mat', iv)"
    "jerasure_invert_matrix (galois_default 8) mat n = Some (ret, mat', iv)" "ret = 0 \<longrightarrow> bits iv"
    using invert_bitmatrix_field [OF assms] by blast
  have reg: "bit_regular n (mf n mat) \<longleftrightarrow> gal8.regular n (mf n mat)"
    using bit_regular_iff [of n "mf n mat"] assms bits_mf [of mat n n] by blast
  show ?thesis using gal8.invert_matrix [OF assms(2) emat_bits [OF assms]] inv reg by auto
qed

lemma mprod_bits:
  assumes "bits a" "length a = n * n" "bits b" "length b = n * n" "r < n" "c < n"
  shows "gal8.mprod n (mf n a) (mf n b) r c = mat_prod (AND) n (mf n a) (mf n b) r c"
  unfolding mat_prod_def using assms bits_mf [of a n n] bits_mf [of b n n]
  by (intro xsum_cong mult8_and) auto

lemma invertible_bit_column_proj:
  "invertible_bit_column n i (proj_state s) = proj_state (bit_column n i s)"
proof (cases s)
  case (Inr p)
  obtain m v where p: "p = (m, v)" by (cases p)
  define g where "g = (\<lambda>j mat. if mat ! (j * n + i) \<noteq> (0 :: u32) then row_op n (\<lambda>x y. x XOR y) j i mat else mat)"
  have el: "fst (bit_eliminate n i (m, v)) = fold g [i + 1..<n] m" for m v
    unfolding bit_eliminate_def g_def by (rule fold_fst) simp
  have el': "bit_eliminate n i (m, v) = (fold g [i + 1..<n] m, snd (bit_eliminate n i (m, v)))" for m v
    using el [of m v] by (cases "bit_eliminate n i (m, v)") simp
  show ?thesis
    unfolding invertible_bit_column_def bit_column_def g_def [symmetric]
    by (auto simp: proj_state_def Inr p invert_pivot_def el' [symmetric] split: option.splits) (subst el', simp)+
qed (simp add: proj_state_def invertible_bit_column_def bit_column_def)

lemma invertible_bitmatrix:
  assumes "bits mat" "length mat = n * n"
  shows "jerasure_invertible_bitmatrix mat n = (if bit_regular n (mf n mat) then 1 else 0)"
proof -
  have proj: "fold (invertible_bit_column n) xs (proj_state s) = proj_state (fold (bit_column n) xs s)" for xs s
    by (induction xs arbitrary: s) (simp_all add: invertible_bit_column_proj)
  obtain mat' iv where "jerasure_invert_bitmatrix mat n = (if bit_regular n (mf n mat) then 0 else - 1, mat', iv)"
    using invert_bitmatrix [OF assms] by blast
  then show ?thesis
    using proj [of "[0..<n]" "Inr (mat, identity_list n)"]
    by (auto simp: jerasure_invertible_bitmatrix_def jerasure_invert_bitmatrix_def proj_state_def
        split: sum.splits prod.splits if_splits)
qed

end
