(* ===== verification/Jer_Schedule.thy ===== *)
theory Jer_Schedule
  imports Jer_Bitmatrix
begin

text \<open>
  The schedules of jerasure.c.  The source keeps a schedule as an array of rows of five
  integers that ends with a row that starts with -1; here it is the list of its rows.  The
  pointers a schedule works on are kept as the numbers of the devices they point to, with
  the offset of the current stripe apart; an element of such an array that has not been
  written is None.
\<close>

section \<open>Operations and their execution\<close>

record operation =
  op_src :: nat
  op_src_packet :: nat
  op_dst :: nat
  op_dst_packet :: nat
  op_xor :: bool

definition mk_op :: "nat \<Rightarrow> nat \<Rightarrow> nat \<Rightarrow> nat \<Rightarrow> bool \<Rightarrow> operation" where
  "mk_op s sp d dp x = \<lparr>op_src = s, op_src_packet = sp, op_dst = d, op_dst_packet = dp, op_xor = x\<rparr>"

type_synonym ptr_array = "nat \<rightharpoonup> nat"

definition scheduled_operation :: "ptr_array \<Rightarrow> nat \<Rightarrow> nat \<Rightarrow> operation \<Rightarrow> jstate \<Rightarrow> jstate option" where
  "scheduled_operation ptrs base packetsize oper st =
    obind (ptrs (op_src oper)) (\<lambda>s.
    obind (ptrs (op_dst oper)) (\<lambda>d.
    if op_xor oper
    then counted_xor s (base + op_src_packet oper * packetsize) d (base + op_dst_packet oper * packetsize) packetsize st
    else counted_copy s (base + op_src_packet oper * packetsize) d (base + op_dst_packet oper * packetsize) packetsize st))"

definition jerasure_do_scheduled_operations ::
  "ptr_array \<Rightarrow> nat \<Rightarrow> operation list \<Rightarrow> nat \<Rightarrow> jstate \<Rightarrow> jstate option" where
  "jerasure_do_scheduled_operations ptrs base operations packetsize =
    ofold (scheduled_operation ptrs base packetsize) operations"

text \<open>
  The loop over the stripes.  It checks nothing: a last stripe that is not full is worked on
  as if it were.
\<close>

definition schedule_stripes ::
  "ptr_array \<Rightarrow> nat \<Rightarrow> operation list \<Rightarrow> nat \<Rightarrow> nat \<Rightarrow> jstate \<Rightarrow> jstate option" where
  "schedule_stripes ptrs w schedule sz packetsize st =
    (if sz = 0 then Some st
     else if packetsize * w = 0 then None
     else ofold (\<lambda>t. jerasure_do_scheduled_operations ptrs (t * (packetsize * w)) schedule packetsize)
            [0..<(sz + packetsize * w - 1) div (packetsize * w)] st)"

definition jerasure_schedule_encode ::
  "nat \<Rightarrow> nat \<Rightarrow> nat \<Rightarrow> operation list \<Rightarrow> nat \<Rightarrow> nat \<Rightarrow> jstate \<Rightarrow> jstate option" where
  "jerasure_schedule_encode k m w schedule sz packetsize =
    schedule_stripes (\<lambda>i. if i < k + m then Some i else None) w schedule sz packetsize"

section \<open>From bit matrices to schedules\<close>

text \<open>
  The operations that compute a row: for each selected column, a copy for the first and an
  exclusive-or for the others (\<open>optodo\<close> says whether the first has been issued).
\<close>

definition row_operations :: "nat \<Rightarrow> nat \<Rightarrow> nat \<Rightarrow> (nat \<Rightarrow> bool) \<Rightarrow> bool \<Rightarrow> operation list" where
  "row_operations k w row sel optodo =
    snd (fold (\<lambda>j (optodo, operations).
        if sel j then (True, operations @ [mk_op (j div w) (j mod w) (k + row div w) (row mod w) optodo])
        else (optodo, operations)) [0..<k * w] (optodo, []))"

definition jerasure_dumb_bitmatrix_to_schedule :: "nat \<Rightarrow> nat \<Rightarrow> nat \<Rightarrow> u32 list \<Rightarrow> operation list" where
  "jerasure_dumb_bitmatrix_to_schedule k m w bitmatrix =
    fold (\<lambda>i operations. operations @ row_operations k w i (\<lambda>j. bitmatrix ! (i * (k * w) + j) \<noteq> 0) False)
      [0..<m * w] []"

text \<open>
  The state of the scheduler that reuses finished rows: the cheapest known way to compute
  each row (\<open>diff\<close> operations, starting from the finished row \<open>from\<close> unless that is -1), and
  the doubly linked list of the rows still to be done.
\<close>

record smart_state =
  diff :: "int list"
  from_row :: "int list"
  flink :: "int list"
  blink :: "int list"
  top_row :: int
  bestrow :: nat

definition diff_ones :: "nat \<Rightarrow> (nat \<Rightarrow> u32) \<Rightarrow> int" where
  "diff_ones n f = fold (\<lambda>j no. no + sint (f j)) [0..<n] 0"

definition smart_start :: "nat \<Rightarrow> nat \<Rightarrow> u32 list \<Rightarrow> smart_state" where
  "smart_start n rows bitmatrix =
    (case fold (\<lambda>i (df, bestdiff, best).
        (let no = diff_ones n (\<lambda>j. bitmatrix ! (i * n + j))
         in if no < bestdiff then (df @ [no], no, i) else (df @ [no], bestdiff, best)))
        [0..<rows] ([], int n + 1, 0) of
       (df, bestdiff, best) \<Rightarrow>
         \<lparr>diff = df, from_row = replicate rows (- 1),
          flink = (map (\<lambda>i. int i + 1) [0..<rows])[rows - 1 := - 1], blink = map (\<lambda>i. int i - 1) [0..<rows],
          top_row = 0, bestrow = best\<rparr>)"

text \<open>The row is taken out of the list.\<close>

definition smart_unlink :: "nat \<Rightarrow> smart_state \<Rightarrow> smart_state" where
  "smart_unlink row s =
    (if blink s ! row = - 1
     then (let t = flink s ! row
           in s\<lparr>top_row := t, blink := (if t \<noteq> - 1 then (blink s)[nat t := - 1] else blink s)\<rparr>)
     else s\<lparr>flink := (flink s)[nat (blink s ! row) := flink s ! row],
            blink := (if flink s ! row \<noteq> - 1 then (blink s)[nat (flink s ! row) := blink s ! row] else blink s)\<rparr>)"

definition smart_operations :: "nat \<Rightarrow> nat \<Rightarrow> u32 list \<Rightarrow> nat \<Rightarrow> int \<Rightarrow> operation list" where
  "smart_operations k w bitmatrix row from =
    (if from = - 1 then row_operations k w row (\<lambda>j. bitmatrix ! (row * (k * w) + j) \<noteq> 0) False
     else mk_op (k + nat from div w) (nat from mod w) (k + row div w) (row mod w) False #
          row_operations k w row
            (\<lambda>j. bitmatrix ! (row * (k * w) + j) XOR bitmatrix ! (nat from * (k * w) + j) \<noteq> 0) True)"

text \<open>
  The walk over the rows still to be done, which looks for cheaper ways through the row just
  finished and for the cheapest row.  The list has at most as many elements as there are
  rows, so that many steps are enough; a walk that does not end is None.
\<close>

fun smart_update :: "nat \<Rightarrow> u32 list \<Rightarrow> nat \<Rightarrow> nat \<Rightarrow> int \<Rightarrow> int \<Rightarrow> smart_state \<Rightarrow> smart_state option" where
  "smart_update n bitmatrix row fuel i bestdiff s =
    (if i = - 1 then Some s
     else case fuel of
       0 \<Rightarrow> None
     | Suc fuel \<Rightarrow>
         (let no = 1 + diff_ones n (\<lambda>j. bitmatrix ! (row * n + j) XOR bitmatrix ! (nat i * n + j));
              s = (if no < diff s ! nat i
                   then s\<lparr>from_row := (from_row s)[nat i := int row], diff := (diff s)[nat i := no]\<rparr> else s)
          in if diff s ! nat i < bestdiff
             then smart_update n bitmatrix row fuel (flink s ! nat i) (diff s ! nat i) (s\<lparr>bestrow := nat i\<rparr>)
             else smart_update n bitmatrix row fuel (flink s ! nat i) bestdiff s))"

declare smart_update.simps [simp del]

text \<open>Each round finishes one row, so there are as many rounds as rows.\<close>

fun smart_loop :: "nat \<Rightarrow> nat \<Rightarrow> nat \<Rightarrow> u32 list \<Rightarrow> nat \<Rightarrow> smart_state \<Rightarrow> operation list option" where
  "smart_loop k w rows bitmatrix fuel s =
    (if top_row s = - 1 then Some []
     else case fuel of
       0 \<Rightarrow> None
     | Suc fuel \<Rightarrow>
         (let row = bestrow s; s = smart_unlink row s
          in obind (smart_update (k * w) bitmatrix row rows (top_row s) (int (k * w) + 1) s) (\<lambda>s'.
             map_option ((@) (smart_operations k w bitmatrix row (from_row s ! row)))
               (smart_loop k w rows bitmatrix fuel s'))))"

declare smart_loop.simps [simp del]

definition jerasure_smart_bitmatrix_to_schedule :: "nat \<Rightarrow> nat \<Rightarrow> nat \<Rightarrow> u32 list \<Rightarrow> operation list option" where
  "jerasure_smart_bitmatrix_to_schedule k m w bitmatrix =
    (if m * w = 0 then None
     else smart_loop k w (m * w) bitmatrix (m * w) (smart_start (k * w) (m * w) bitmatrix))"

section \<open>Schedules for decoding\<close>

text \<open>The numbers of failed data and of failed coding devices in a list of erasures.\<close>

fun count_failed :: "nat \<Rightarrow> u32 list \<Rightarrow> nat \<times> nat \<Rightarrow> (nat \<times> nat) option" where
  "count_failed k [] c = None"
| "count_failed k (e # es) (ddf, cdf) =
    (if e = - 1 then Some (ddf, cdf)
     else if sint e < int k then count_failed k es (ddf + 1, cdf) else count_failed k es (ddf, cdf + 1))"

text \<open>
  A lost data device is replaced by the next surviving coding device, and itself becomes the
  next destination; the lost coding devices are the last destinations.
\<close>

definition ptrs_data_step ::
  "nat \<Rightarrow> nat \<Rightarrow> u32 list \<Rightarrow> nat \<Rightarrow> ptr_array \<times> nat \<times> nat \<Rightarrow> (ptr_array \<times> nat \<times> nat) option" where
  "ptrs_data_step k m erased i = (\<lambda>(ptrs, j, x).
    if erased ! i = 0 then Some (ptrs(i \<mapsto> i), j, x)
    else obind (find (\<lambda>j. erased ! j = 0) [j..<k + m]) (\<lambda>j. Some (ptrs(i \<mapsto> j, x \<mapsto> i), j + 1, x + 1)))"

definition set_up_ptrs_for_scheduled_decoding :: "nat \<Rightarrow> nat \<Rightarrow> u32 list \<Rightarrow> ptr_array option option" where
  "set_up_ptrs_for_scheduled_decoding k m erasures =
    obind (count_failed k erasures (0, 0)) (\<lambda>_.
    obind (jerasure_erasures_to_erased k m erasures) (\<lambda>er.
    case er of
      None \<Rightarrow> Some None
    | Some erased \<Rightarrow>
        obind (ofold (ptrs_data_step k m erased) [0..<k] (Map.empty, k, k)) (\<lambda>(ptrs, j, x).
        Some (Some (fst (fold (\<lambda>i (ptrs, x). if erased ! i \<noteq> 0 then (ptrs(x \<mapsto> i), x + 1) else (ptrs, x))
          [k..<k + m] (ptrs, x)))))))"

definition ids_data_step ::
  "nat \<Rightarrow> nat \<Rightarrow> u32 list \<Rightarrow> nat \<Rightarrow> ptr_array \<times> ptr_array \<times> nat \<times> nat \<Rightarrow> (ptr_array \<times> ptr_array \<times> nat \<times> nat) option" where
  "ids_data_step k m erased i = (\<lambda>(row_ids, ind_to_row, j, x).
    if erased ! i = 0 then Some (row_ids(i \<mapsto> i), ind_to_row(i \<mapsto> i), j, x)
    else obind (find (\<lambda>j. erased ! j = 0) [j..<k + m]) (\<lambda>j.
      Some (row_ids(i \<mapsto> j, x \<mapsto> i), ind_to_row(j \<mapsto> i, i \<mapsto> x), j + 1, x + 1)))"

definition set_up_ids_for_scheduled_decoding ::
  "nat \<Rightarrow> nat \<Rightarrow> u32 list \<Rightarrow> (ptr_array \<times> ptr_array) option option" where
  "set_up_ids_for_scheduled_decoding k m erasures =
    obind (count_failed k erasures (0, 0)) (\<lambda>_.
    obind (jerasure_erasures_to_erased k m erasures) (\<lambda>er.
    case er of
      None \<Rightarrow> Some None
    | Some erased \<Rightarrow>
        obind (ofold (ids_data_step k m erased) [0..<k] (Map.empty, Map.empty, k, k)) (\<lambda>(row_ids, ind_to_row, j, x).
        (case fold (\<lambda>i (row_ids, ind_to_row, x).
             if erased ! i \<noteq> 0 then (row_ids(x \<mapsto> i), ind_to_row(i \<mapsto> x), x + 1) else (row_ids, ind_to_row, x))
            [k..<k + m] (row_ids, ind_to_row, x) of
           (row_ids, ind_to_row, x) \<Rightarrow> Some (Some (row_ids, ind_to_row))))))"

text \<open>The matrix whose inverse expresses the data by the surviving devices, and its inverse.\<close>

definition schedule_bitrows :: "nat \<Rightarrow> nat \<Rightarrow> u32 list \<Rightarrow> ptr_array \<Rightarrow> u32 list option" where
  "schedule_bitrows k w bitmatrix row_ids =
    ofold (\<lambda>i t. obind (row_ids i) (\<lambda>r.
        Some (if r = i then identity_block k w i i t else copy_block k w bitmatrix (r - k) i t)))
      [0..<k] (replicate (k * k * w * w) 0)"

text \<open>The rows of the lost data devices.  The result of the inversion is not looked at.\<close>

definition data_bitrows ::
  "nat \<Rightarrow> nat \<Rightarrow> u32 list \<Rightarrow> ptr_array \<Rightarrow> nat \<Rightarrow> u32 list \<Rightarrow> u32 list option" where
  "data_bitrows k w bitmatrix row_ids ddf real =
    (if ddf = 0 then Some real
     else obind (schedule_bitrows k w bitmatrix row_ids) (\<lambda>decoding_matrix.
       (case jerasure_invert_bitmatrix decoding_matrix (k * w) of
          (ret, mat, inverted) \<Rightarrow>
            ofold (\<lambda>i real. obind (row_ids (k + i)) (\<lambda>r.
                if r < k then Some (copy_block k w inverted r i real) else None)) [0..<ddf] real)))"

text \<open>
  The rows of a lost coding device: its rows of the bit matrix, with the columns of the lost
  data devices replaced by the rows that compute those devices.
\<close>

definition clear_columns :: "nat \<Rightarrow> nat \<Rightarrow> ptr_array \<Rightarrow> nat \<Rightarrow> u32 list \<Rightarrow> u32 list option" where
  "clear_columns k w row_ids b real =
    ofold (\<lambda>i real. obind (row_ids i) (\<lambda>r.
      Some (if r \<noteq> i
            then fold (\<lambda>j real. fold (\<lambda>y real. real[(b * w + j) * (k * w) + (i * w + y) := 0]) [0..<w] real) [0..<w] real
            else real))) [0..<k] real"

definition fold_in_rows ::
  "nat \<Rightarrow> nat \<Rightarrow> u32 list \<Rightarrow> ptr_array \<Rightarrow> ptr_array \<Rightarrow> nat \<Rightarrow> nat \<Rightarrow> u32 list \<Rightarrow> u32 list option" where
  "fold_in_rows k w bitmatrix row_ids ind_to_row drive b real =
    ofold (\<lambda>i real. obind (row_ids i) (\<lambda>r.
      if r \<noteq> i
      then obind (ind_to_row i) (\<lambda>x.
        Some (fold (\<lambda>j real. fold (\<lambda>y real.
            if bitmatrix ! ((drive * w + j) * (k * w) + (i * w + y)) \<noteq> 0
            then row_op (k * w) (\<lambda>x y. x XOR y) (b * w + j) ((x - k) * w + y) real else real)
          [0..<w] real) [0..<w] real))
      else Some real)) [0..<k] real"

definition coding_bitrows ::
  "nat \<Rightarrow> nat \<Rightarrow> u32 list \<Rightarrow> ptr_array \<Rightarrow> ptr_array \<Rightarrow> nat \<Rightarrow> nat \<Rightarrow> u32 list \<Rightarrow> u32 list option" where
  "coding_bitrows k w bitmatrix row_ids ind_to_row ddf x real =
    obind (row_ids (x + ddf + k)) (\<lambda>r.
    if r < k then None
    else obind (clear_columns k w row_ids (ddf + x) (copy_block k w bitmatrix (r - k) (ddf + x) real))
           (fold_in_rows k w bitmatrix row_ids ind_to_row (r - k) (ddf + x)))"

definition jerasure_generate_decoding_schedule ::
  "nat \<Rightarrow> nat \<Rightarrow> nat \<Rightarrow> u32 list \<Rightarrow> u32 list \<Rightarrow> bool \<Rightarrow> operation list option option" where
  "jerasure_generate_decoding_schedule k m w bitmatrix erasures smart =
    obind (count_failed k erasures (0, 0)) (\<lambda>(ddf, cdf).
    obind (set_up_ids_for_scheduled_decoding k m erasures) (\<lambda>ids.
    case ids of
      None \<Rightarrow> Some None
    | Some (row_ids, ind_to_row) \<Rightarrow>
        obind (data_bitrows k w bitmatrix row_ids ddf (replicate (k * w * (cdf + ddf) * w) 0)) (\<lambda>real.
        obind (ofold (coding_bitrows k w bitmatrix row_ids ind_to_row ddf) [0..<cdf] real) (\<lambda>real.
        if smart then map_option Some (jerasure_smart_bitmatrix_to_schedule k (ddf + cdf) w real)
        else Some (Some (jerasure_dumb_bitmatrix_to_schedule k (ddf + cdf) w real))))))"

definition jerasure_schedule_decode_lazy ::
  "nat \<Rightarrow> nat \<Rightarrow> nat \<Rightarrow> u32 list \<Rightarrow> u32 list \<Rightarrow> nat \<Rightarrow> nat \<Rightarrow> bool \<Rightarrow> jstate \<Rightarrow> (int \<times> jstate) option" where
  "jerasure_schedule_decode_lazy k m w bitmatrix erasures sz packetsize smart st =
    obind (set_up_ptrs_for_scheduled_decoding k m erasures) (\<lambda>ptrs.
    case ptrs of
      None \<Rightarrow> Some (- 1, st)
    | Some ptrs \<Rightarrow>
        obind (jerasure_generate_decoding_schedule k m w bitmatrix erasures smart) (\<lambda>schedule.
        case schedule of
          None \<Rightarrow> Some (- 1, st)
        | Some schedule \<Rightarrow> map_option (Pair 0) (schedule_stripes ptrs w schedule sz packetsize st)))"

section \<open>The cache of schedules for two coding devices\<close>

type_synonym schedule_cache = "nat \<rightharpoonup> operation list option"

definition jerasure_generate_schedule_cache ::
  "nat \<Rightarrow> nat \<Rightarrow> nat \<Rightarrow> u32 list \<Rightarrow> bool \<Rightarrow> schedule_cache option option" where
  "jerasure_generate_schedule_cache k m w bitmatrix smart =
    (if m \<noteq> 2 then Some None
     else map_option Some
       (ofold (\<lambda>e1 scache.
           obind (ofold (\<lambda>e2 scache.
               obind (jerasure_generate_decoding_schedule k m w bitmatrix [of_nat e1, of_nat e2, - 1] smart) (\<lambda>s.
               Some (scache(e1 * (k + m) + e2 \<mapsto> s, e2 * (k + m) + e1 \<mapsto> s)))) [0..<e1] scache) (\<lambda>scache.
           obind (jerasure_generate_decoding_schedule k m w bitmatrix [of_nat e1, - 1] smart) (\<lambda>s.
           Some (scache(e1 * (k + m) + e1 \<mapsto> s))))) [0..<k + m] Map.empty))"

definition jerasure_schedule_decode_cache ::
  "nat \<Rightarrow> nat \<Rightarrow> nat \<Rightarrow> schedule_cache \<Rightarrow> u32 list \<Rightarrow> nat \<Rightarrow> nat \<Rightarrow> jstate \<Rightarrow> (int \<times> jstate) option" where
  "jerasure_schedule_decode_cache k m w scache erasures sz packetsize st =
    (if length erasures < 2 then None
     else obind (if erasures ! 1 = - 1 then Some (Some (unat (erasures ! 0) * (k + m) + unat (erasures ! 0)))
                 else if length erasures < 3 then None
                 else if erasures ! 2 = - 1 then Some (Some (unat (erasures ! 0) * (k + m) + unat (erasures ! 1)))
                 else Some None) (\<lambda>index.
       case index of
         None \<Rightarrow> Some (- 1, st)
       | Some index \<Rightarrow>
           obind (scache index) (\<lambda>schedule.
           obind (set_up_ptrs_for_scheduled_decoding k m erasures) (\<lambda>ptrs.
           case ptrs of
             None \<Rightarrow> Some (- 1, st)
           | Some ptrs \<Rightarrow>
               obind schedule (\<lambda>schedule.
               map_option (Pair 0) (schedule_stripes ptrs w schedule sz packetsize st))))))"

section \<open>The check at configuration time\<close>

definition jerasure_autoconf_test :: "galois \<Rightarrow> (int \<times> galois) option" where
  "jerasure_autoconf_test g =
    obind (galois_field True g 8) (\<lambda>(g, F).
    Some (if galois_single_multiply F 1 2 \<noteq> 2 then - 1 else 0, g))"

end
