(* ===== verification/Jer_Packets.thy ===== *)
theory Jer_Packets
  imports Jer_Roundtrip Jer_Bit_Invert Jer_Schedule
begin

text \<open>
  What the packet operations do.  The devices are looked at one byte of every packet at a
  time: \<open>track ps D b\<close> is the memory that holds byte b of packet q of device d at (d, q).  A
  copy or an exclusive-or of two packets is one assignment in every such memory.
\<close>

section \<open>Tracks\<close>

type_synonym track_mem = "nat \<Rightarrow> nat \<Rightarrow> u32"

definition track :: "nat \<Rightarrow> u8 list list \<Rightarrow> nat \<Rightarrow> track_mem" where
  "track ps D b d q =
    (if d < length D \<and> q * ps + ps \<le> length (D ! d) then ucast (D ! d ! (q * ps + b)) else 0)"

definition track_put :: "bool \<Rightarrow> nat \<times> nat \<Rightarrow> nat \<times> nat \<Rightarrow> track_mem \<Rightarrow> track_mem" where
  "track_put xr = (\<lambda>(s, q) (d, p) x. x(d := (x d)(p := (if xr then x d p XOR x s q else x s q))))"

text \<open>n devices of sz bytes, cut into packets of ps bytes.\<close>

definition packets_ok :: "nat \<Rightarrow> nat \<Rightarrow> nat \<Rightarrow> jstate \<Rightarrow> bool" where
  "packets_ok n sz ps st \<longleftrightarrow> jst_ok st \<and> length (dev st) = n \<and> (\<forall>d<n. length (dev st ! d) = sz) \<and> 0 < ps \<and> ps dvd sz"

lemma elem8_byte: "elem8 (ucast (x :: u8))"
proof -
  have "bit x i \<Longrightarrow> i < 8" for i using bit_imp_le_length [of x i] by simp
  then show ?thesis by (auto simp: default_8 gf_elem_def bit_simps intro!: bit_eqI)
qed

lemma ucast_byte_eq: "ucast (x :: u8) = (ucast y :: u32) \<Longrightarrow> x = y"
proof (rule bit_word_eqI)
  fix n assume "ucast x = (ucast y :: u32)" "n < LENGTH(8)"
  then have "bit (ucast x :: u32) n = bit (ucast y :: u32) n" "n < 8" by simp_all
  then show "bit x n = bit y n" by (simp add: bit_simps)
qed

lemma ucast_byte_xor: "ucast (x XOR y :: u8) = (ucast x XOR ucast y :: u32)"
  by (rule bit_word_eqI) (auto simp: bit_simps)

lemma elem8_track: "elem8 (track ps D b d q)"
  using elem8_byte gal8.elem_0 by (simp add: track_def)

lemma packet_bound: "(ps :: nat) dvd sz \<Longrightarrow> 0 < ps \<Longrightarrow> q < sz div ps \<longleftrightarrow> q * ps + ps \<le> sz"
  by (metis Suc_le_eq add.commute less_eq_div_iff_mult_less_eq mult_Suc)

lemma track_eq_0: "packets_ok n sz ps st \<Longrightarrow> \<not> (d < n \<and> q < sz div ps) \<Longrightarrow> track ps (dev st) b d q = 0"
  by (auto simp: track_def packets_ok_def packet_bound)

lemma bytes_eq_tracks:
  assumes "length x = sz" "length y = sz" "0 < ps" "ps dvd sz"
    and "\<And>q b. q < sz div ps \<Longrightarrow> b < ps \<Longrightarrow> x ! (q * ps + b) = y ! (q * ps + b)"
  shows "x = y"
proof (rule nth_equalityI)
  fix i assume i: "i < length x"
  have "i div ps < sz div ps"
    using i assms(1,3,4) by (metis dvd_mult_div_cancel less_mult_imp_div_less mult.commute)
  then show "x ! i = y ! i" using assms(5) [of "i div ps" "i mod ps"] assms(3) by simp
qed (use assms in simp)

lemma dev_eqI:
  assumes "packets_ok n sz ps st" "length D = n" "\<forall>d<n. length (D ! d) = sz" "d < n"
    and "\<And>b q. b < ps \<Longrightarrow> q < sz div ps \<Longrightarrow> track ps (dev st) b d q = track ps D b d q"
  shows "dev st ! d = D ! d"
proof (rule bytes_eq_tracks)
  fix q b assume "q < sz div ps" "b < ps"
  then have "ucast (dev st ! d ! (q * ps + b)) = (ucast (D ! d ! (q * ps + b)) :: u32)"
    using assms packet_bound [of ps sz q] by (fastforce simp: track_def packets_ok_def)
  then show "dev st ! d ! (q * ps + b) = D ! d ! (q * ps + b)"
    by (rule ucast_byte_eq)
qed (use assms in \<open>auto simp: packets_ok_def\<close>)

section \<open>One operation\<close>

lemma nth_patch:
  assumes "p + length x \<le> length d"
  shows "i < length d \<Longrightarrow> patch p x d ! i = (if p \<le> i \<and> i < p + length x then x ! (i - p) else d ! i)"
    "length (patch p x d) = length d"
  using assms by (auto simp: patch_def nth_append min_def add_ac)

lemma track_write:
  assumes "packets_ok n sz ps st" "d < n" "p < sz div ps" "length x = ps" "b < ps"
    "dev st' = (dev st)[d := patch (p * ps) x (dev st ! d)]"
  shows "track ps (dev st') b = (track ps (dev st) b)(d := (track ps (dev st) b d)(p := ucast (x ! b)))"
proof (intro ext)
  fix d' q
  have len: "length (dev st ! d) = sz" "length (dev st) = n" and ps: "0 < ps" "ps dvd sz"
    using assms(1,2) by (auto simp: packets_ok_def)
  have bound: "p * ps + ps \<le> sz" using assms(3) packet_bound [OF ps(2,1)] by blast
  have "p * ps \<le> q * ps + b \<and> q * ps + b < p * ps + ps \<longleftrightarrow> q = p"
  proof
    assume a: "p * ps \<le> q * ps + b \<and> q * ps + b < p * ps + ps"
    have "(q * ps + b) div ps = q" using assms(5) ps by simp
    moreover have "(q * ps + b) div ps = p"
    proof (rule div_nat_eqI)
      show "ps * p \<le> q * ps + b" "q * ps + b < ps * Suc p" using a by (auto simp: mult.commute)
    qed
    ultimately show "q = p" by simp
  qed (use assms(5) in simp)
  moreover have "q * ps + ps \<le> sz \<Longrightarrow> patch (p * ps) x (dev st ! d) ! (q * ps + b) =
      (if p * ps \<le> q * ps + b \<and> q * ps + b < p * ps + ps then x ! (q * ps + b - p * ps) else dev st ! d ! (q * ps + b))"
    using nth_patch(1) [of "p * ps" x "dev st ! d" "q * ps + b"] bound len assms(4,5) by simp
  moreover have "length (patch (p * ps) x (dev st ! d)) = sz" using nth_patch(2) bound len assms(4) by simp
  ultimately show "track ps (dev st') b d' q = ((track ps (dev st) b)(d := (track ps (dev st) b d)(p := ucast (x ! b)))) d' q"
    using assms(2,6) len bound by (auto simp: track_def nth_list_update)
qed

lemma read_packet:
  assumes "packets_ok n sz ps st" "d < n" "q < sz div ps"
  shows "dev_read st d (q * ps) ps = Some (take ps (drop (q * ps) (dev st ! d)))"
    "length (take ps (drop (q * ps) (dev st ! d))) = ps"
    "b < ps \<Longrightarrow> ucast (take ps (drop (q * ps) (dev st ! d)) ! b) = track ps (dev st) b d q"
  using assms packet_bound [of ps sz q] by (auto simp: dev_read_def packets_ok_def track_def)

lemma packets_ok_write:
  assumes "packets_ok n sz ps st" "d < n" "p < sz div ps" "length x = ps" "jst_ok st'"
    "dev st' = (dev st)[d := patch (p * ps) x (dev st ! d)]"
  shows "packets_ok n sz ps st'"
proof -
  have "p * ps + ps \<le> sz" using assms(1,3) packet_bound [of ps sz p] by (simp add: packets_ok_def)
  then show ?thesis using assms nth_patch(2) [of "p * ps" x "dev st ! d"]
    by (auto simp: packets_ok_def nth_list_update)
qed

lemma region_xor_packet:
  assumes ok: "packets_ok n sz ps st" and s: "s < n" "q < sz div ps" and d: "d < n" "p < sz div ps"
  defines "x \<equiv> region_map 1 xor8 (take ps (drop (q * ps) (dev st ! s))) (take ps (drop (p * ps) (dev st ! d)))"
  shows "\<exists>st'. galois_region_xor s (q * ps) d (p * ps) ps st = Some st' \<and> jst_ok st' \<and>
    dev st' = (dev st)[d := patch (p * ps) x (dev st ! d)]"
proof (cases "16 \<le> ps")
  case False
  then show ?thesis using ok read_packet [OF ok s] read_packet [OF ok d]
    by (simp add: galois_region_xor_def dev_write_def x_def xor_bytes packets_ok_def jst_ok_def)
next
  case True
  have jst: "jst_ok st" using ok by (simp add: packets_ok_def)
  obtain g where g: "galois_field True (gal st) 32 = Some (g, galois_default 32)" "gal_ok g"
    using galois_field_ok [of "gal st" 32] jst by (auto simp: jst_ok_def)
  have "gf_multiply_region (galois_default 32) (lazy_data st) (addr st s + q * ps) (addr st d + p * ps) 1 True
      (take ps (drop (q * ps) (dev st ! s))) (take ps (drop (p * ps) (dev st ! d))) = Some (lazy_data st, x)"
    unfolding x_def using read_packet(2) [OF ok s] read_packet(2) [OF ok d] True
    by (intro multby_one_32) (auto simp: region_fits_def)
  then show ?thesis
    using True g jst read_packet(1) [OF ok s] read_packet(1) [OF ok d]
    by (simp add: galois_region_xor_def galois_w32_region_xor_def galois_region_def dev_write_def jst_ok_def)
qed

abbreviation packet_op :: "bool \<Rightarrow> nat \<Rightarrow> nat \<Rightarrow> nat \<Rightarrow> nat \<Rightarrow> nat \<Rightarrow> jstate \<Rightarrow> jstate option" where
  "packet_op xr s so d do ps st \<equiv> (if xr then counted_xor s so d do ps st else counted_copy s so d do ps st)"

lemma packet_op:
  assumes ok: "packets_ok n sz ps st" and s: "s < n" "q < sz div ps" and d: "d < n" "p < sz div ps"
  shows "\<exists>st'. packet_op xr s (q * ps) d (p * ps) ps st = Some st' \<and> packets_ok n sz ps st' \<and>
    (\<forall>b<ps. track ps (dev st') b = track_put xr (s, q) (d, p) (track ps (dev st) b))"
proof -
  let ?s = "take ps (drop (q * ps) (dev st ! s))" and ?d = "take ps (drop (p * ps) (dev st ! d))"
  note rs = read_packet [OF ok s] and rd = read_packet [OF ok d]
  define x where "x = (if xr then region_map 1 xor8 ?s ?d else ?s)"
  have len: "length x = ps" using rs rd by (simp add: x_def)
  have x: "ucast (x ! b) = (if xr then track ps (dev st) b d p XOR track ps (dev st) b s q else track ps (dev st) b s q)"
    if "b < ps" for b
  proof -
    have "ucast (region_map 1 xor8 ?s ?d ! b) = (ucast (?d ! b) XOR ucast (?s ! b) :: u32)"
      using that rs(2) rd(2) region_map_xor8 [of ?s ?d b] by (simp add: ucast_byte_xor)
    then show ?thesis using rs(3) rd(3) that by (auto simp: x_def)
  qed
  have "\<exists>st'. packet_op xr s (q * ps) d (p * ps) ps st = Some st' \<and> jst_ok st' \<and>
      dev st' = (dev st)[d := patch (p * ps) x (dev st ! d)]"
  proof (cases xr)
    case True
    then show ?thesis using region_xor_packet [OF ok s d] by (auto simp: counted_xor_def x_def jst_ok_def)
  next
    case False
    then show ?thesis using ok rs rd
      by (auto simp: counted_copy_def dev_memcpy_def x_def dev_write_def packets_ok_def jst_ok_def)
  qed
  then obtain st' where st': "packet_op xr s (q * ps) d (p * ps) ps st = Some st'" "jst_ok st'"
    "dev st' = (dev st)[d := patch (p * ps) x (dev st ! d)]" by blast
  have "track ps (dev st') b = track_put xr (s, q) (d, p) (track ps (dev st) b)" if "b < ps" for b
    using track_write [OF ok d len that st'(3)] x [OF that] by (simp add: track_put_def)
  then show ?thesis using st'(1) packets_ok_write [OF ok d len st'(2,3)] by blast
qed

section \<open>One row\<close>

text \<open>The loop all routines share: the selected packets are copied or added to one packet.\<close>

definition row_step :: "(nat \<Rightarrow> bool) \<Rightarrow> (nat \<Rightarrow> nat \<times> nat) \<Rightarrow> nat \<times> nat \<Rightarrow> nat \<Rightarrow> nat \<Rightarrow> bool \<times> jstate \<Rightarrow> (bool \<times> jstate) option" where
  "row_step sel src dst ps c = (\<lambda>(started, st).
     if sel c then map_option (Pair True)
       (packet_op started (fst (src c)) (snd (src c) * ps) (fst dst) (snd dst * ps) ps st)
     else Some (started, st))"

abbreviation sum_sel :: "nat \<Rightarrow> (nat \<Rightarrow> bool) \<Rightarrow> (nat \<Rightarrow> u32) \<Rightarrow> u32" where
  "sum_sel n sel f \<equiv> xsum n (\<lambda>c. if sel c then f c else 0)"

abbreviation assign :: "nat \<times> nat \<Rightarrow> u32 \<Rightarrow> track_mem \<Rightarrow> track_mem" where
  "assign p v x \<equiv> x(fst p := (x (fst p))(snd p := v))"

lemma row_loop:
  assumes ok: "packets_ok n sz ps st" and dst: "fst dst < n" "snd dst < sz div ps"
    and src: "\<And>c. c < l \<Longrightarrow> sel c \<Longrightarrow> fst (src c) < n \<and> snd (src c) < sz div ps \<and> src c \<noteq> dst"
  shows "\<exists>st'. ofold (row_step sel src dst ps) [0..<l] (init, st) = Some (init \<or> (\<exists>c<l. sel c), st') \<and>
    packets_ok n sz ps st' \<and> (\<forall>b<ps. track ps (dev st') b =
      (if init \<or> (\<exists>c<l. sel c)
       then assign dst ((if init then track ps (dev st) b (fst dst) (snd dst) else 0) XOR
              sum_sel l sel (\<lambda>c. case_prod (track ps (dev st) b) (src c))) (track ps (dev st) b)
       else track ps (dev st) b))"
proof -
  let ?x = "\<lambda>b. track ps (dev st) b"
  let ?acc = "\<lambda>l b. (if init then ?x b (fst dst) (snd dst) else 0) XOR sum_sel l sel (\<lambda>c. case_prod (?x b) (src c))"
  define P where "P i s \<longleftrightarrow> (case s of (started, st') \<Rightarrow> started = (init \<or> (\<exists>c<i. sel c)) \<and> packets_ok n sz ps st' \<and>
    (\<forall>b<ps. track ps (dev st') b = (if started then assign dst (?acc i b) (?x b) else ?x b)))" for i s
  have "\<exists>s. ofold (row_step sel src dst ps) [0..<l] (init, st) = Some s \<and> P l s"
  proof (rule ofold_upt_inv [where P = P])
    show "P 0 (init, st)" using ok by (simp add: P_def)
    fix i s assume i: "i < l" and "P i s"
    obtain started st' where s: "s = (started, st')" by (cases s)
    have P: "started = (init \<or> (\<exists>c<i. sel c))" "packets_ok n sz ps st'"
      "\<And>b. b < ps \<Longrightarrow> track ps (dev st') b = (if started then assign dst (?acc i b) (?x b) else ?x b)"
      using \<open>P i s\<close> by (auto simp: P_def s)
    show "\<exists>s'. row_step sel src dst ps i s = Some s' \<and> P (Suc i) s'"
    proof (cases "sel i")
      case False
      then have "P (Suc i) (started, st')" using P unfolding P_def prod.case by (auto simp: less_Suc_eq)
      then show ?thesis using False by (simp add: row_step_def s)
    next
      case True
      note sr = src [OF i True]
      obtain st2 where st2: "packet_op started (fst (src i)) (snd (src i) * ps) (fst dst) (snd dst * ps) ps st' = Some st2"
        "packets_ok n sz ps st2" "\<forall>b<ps. track ps (dev st2) b = track_put started (src i) dst (track ps (dev st') b)"
        using packet_op [OF P(2) _ _ dst, of "fst (src i)" "snd (src i)" started] sr by auto
      have "track ps (dev st2) b = assign dst (?acc (Suc i) b) (?x b)" if b: "b < ps" for b
      proof -
        have "case_prod (track ps (dev st') b) (src i) = case_prod (?x b) (src i)"
          using P(3) [OF b] sr by (cases "src i"; cases dst) auto
        moreover have "track ps (dev st') b (fst dst) (snd dst) = ?acc i b" if started using P(3) [OF b] that by simp
        moreover have "?acc i b = 0" if "\<not> started" using that P(1) by (auto intro!: xsum_zeroI)
        ultimately show ?thesis using st2(3) b P(3) [OF b] True
          by (cases "src i"; cases dst) (auto simp: track_put_def xor.assoc)
      qed
      then have "P (Suc i) (True, st2)" using True st2(2) by (auto simp: P_def)
      then show ?thesis using True st2(1) by (simp add: row_step_def s)
    qed
  qed simp
  then show ?thesis by (auto simp: P_def)
qed

lemma row_loop_fresh:
  assumes "packets_ok n sz ps st" "fst dst < n" "snd dst < sz div ps"
    and "\<And>c. c < l \<Longrightarrow> sel c \<Longrightarrow> fst (src c) < n \<and> snd (src c) < sz div ps \<and> src c \<noteq> dst"
  shows "\<exists>st'. ofold (row_step sel src dst ps) [0..<l] (False, st) = Some (\<exists>c<l. sel c, st') \<and>
    packets_ok n sz ps st' \<and> (\<forall>b<ps. track ps (dev st') b =
      (if \<exists>c<l. sel c
       then assign dst (sum_sel l sel (\<lambda>c. case_prod (track ps (dev st) b) (src c))) (track ps (dev st) b)
       else track ps (dev st) b))"
  using row_loop [OF assms, where init = False] by (simp cong: if_cong)

section \<open>Sets of rows\<close>

text \<open>
  Row r of stripe t of a bit matrix with n columns: the sum of the selected packets, and
  the packet it belongs to.  \<open>rows_done\<close> says that exactly the packets of the rows R with a
  selected column have been replaced by their sums; the others are unchanged.
\<close>

definition row_sel :: "nat \<Rightarrow> u32 list \<Rightarrow> nat \<Rightarrow> nat \<Rightarrow> bool" where
  "row_sel n bm r c \<longleftrightarrow> bm ! (r * n + c) \<noteq> 0"

definition row_sum :: "nat \<Rightarrow> nat \<Rightarrow> u32 list \<Rightarrow> (nat \<Rightarrow> nat) \<Rightarrow> nat \<times> nat \<Rightarrow> track_mem \<Rightarrow> u32" where
  "row_sum w n bm src = (\<lambda>(t, r) x. sum_sel n (row_sel n bm r) (\<lambda>c. x (src (c div w)) (t * w + c mod w)))"

definition row_packet :: "nat \<Rightarrow> (nat \<Rightarrow> nat) \<Rightarrow> nat \<times> nat \<Rightarrow> nat \<times> nat" where
  "row_packet w dst = (\<lambda>(t, r). (dst (r div w), t * w + r mod w))"

definition rows_done ::
  "nat \<Rightarrow> nat \<Rightarrow> u32 list \<Rightarrow> (nat \<Rightarrow> nat) \<Rightarrow> (nat \<Rightarrow> nat) \<Rightarrow> (nat \<times> nat) set \<Rightarrow> track_mem \<Rightarrow> track_mem \<Rightarrow> bool" where
  "rows_done w n bm src dst R x y \<longleftrightarrow>
     (\<forall>r\<in>R. (\<exists>c<n. row_sel n bm (snd r) c) \<longrightarrow> case_prod y (row_packet w dst r) = row_sum w n bm src r x) \<and>
     (\<forall>p. (\<forall>r\<in>R. (\<exists>c<n. row_sel n bm (snd r) c) \<longrightarrow> row_packet w dst r \<noteq> p) \<longrightarrow> case_prod y p = case_prod x p)"

lemma rows_done_empty [simp]: "rows_done w n bm src dst {} x x"
  by (simp add: rows_done_def)

lemma rows_doneD:
  assumes "rows_done w n bm src dst R x y"
  shows "(t, r) \<in> R \<Longrightarrow> \<exists>c<n. row_sel n bm r c \<Longrightarrow> y (dst (r div w)) (t * w + r mod w) = row_sum w n bm src (t, r) x"
    and "(\<And>t r. (t, r) \<in> R \<Longrightarrow> (dst (r div w), t * w + r mod w) \<noteq> (d, p)) \<Longrightarrow> y d p = x d p"
proof -
  show "(t, r) \<in> R \<Longrightarrow> \<exists>c<n. row_sel n bm r c \<Longrightarrow> y (dst (r div w)) (t * w + r mod w) = row_sum w n bm src (t, r) x"
    using assms unfolding rows_done_def row_packet_def by fastforce
  assume a: "\<And>t r. (t, r) \<in> R \<Longrightarrow> (dst (r div w), t * w + r mod w) \<noteq> (d, p)"
  have "\<forall>r\<in>R. (\<exists>c<n. row_sel n bm (snd r) c) \<longrightarrow> row_packet w dst r \<noteq> (d, p)"
    using a by (auto simp: row_packet_def)
  then show "y d p = x d p" using assms unfolding rows_done_def by fastforce
qed

lemma rows_done_unique:
  assumes "rows_done w n bm src dst R x y" "rows_done w n bm src dst R x z"
  shows "y = z"
proof (intro ext)
  fix d p
  show "y d p = z d p"
  proof (cases "\<exists>r\<in>R. (\<exists>c<n. row_sel n bm (snd r) c) \<and> row_packet w dst r = (d, p)")
    case True
    then obtain r where r: "r \<in> R" "\<exists>c<n. row_sel n bm (snd r) c" "row_packet w dst r = (d, p)" by blast
    then have "case_prod y (row_packet w dst r) = case_prod z (row_packet w dst r)"
      using assms unfolding rows_done_def by metis
    then show ?thesis using r(3) by simp
  next
    case False
    then have "case_prod y (d, p) = case_prod x (d, p)" "case_prod z (d, p) = case_prod x (d, p)"
      using assms unfolding rows_done_def by metis+
    then show ?thesis by simp
  qed
qed

text \<open>One more row, when the packets it reads and writes have not been written yet.\<close>

lemma rows_done_insert:
  assumes "rows_done w n bm src dst R x y" "\<And>r'. r' \<in> R \<Longrightarrow> row_packet w dst r' \<noteq> row_packet w dst r"
    and "z = (if \<exists>c<n. row_sel n bm (snd r) c then assign (row_packet w dst r) (row_sum w n bm src r x) y else y)"
  shows "rows_done w n bm src dst (insert r R) x z"
  unfolding rows_done_def
proof (intro conjI ballI allI impI)
  fix r' assume r': "r' \<in> insert r R" "\<exists>c<n. row_sel n bm (snd r') c"
  show "case_prod z (row_packet w dst r') = row_sum w n bm src r' x"
  proof (cases "r' = r")
    case True
    then show ?thesis using assms(3) r'(2) by (auto simp: case_prod_unfold)
  next
    case False
    then have "case_prod z (row_packet w dst r') = case_prod y (row_packet w dst r')"
      using assms(2) [of r'] assms(3) r'(1) by (auto simp: case_prod_unfold prod_eq_iff)
    then show ?thesis using assms(1) False r' unfolding rows_done_def by auto
  qed
next
  fix p assume p: "\<forall>r'\<in>insert r R. (\<exists>c<n. row_sel n bm (snd r') c) \<longrightarrow> row_packet w dst r' \<noteq> p"
  then have "case_prod z p = case_prod y p" using assms(3) by (auto simp: case_prod_unfold prod_eq_iff)
  then show "case_prod z p = case_prod x p" using assms(1) p unfolding rows_done_def by auto
qed

lemma row_sum_unchanged:
  assumes "rows_done w n bm src dst R x y" "\<And>t r c. (t, r) \<in> R \<Longrightarrow> c < n \<Longrightarrow> src (c div w) \<noteq> dst (r div w)"
  shows "row_sum w n bm' src tr y = row_sum w n bm' src tr x"
  unfolding row_sum_def
proof (cases tr, clarsimp, intro xsum_cong)
  fix t r c assume "c < n"
  then show "(if row_sel n bm' r c then y (src (c div w)) (t * w + c mod w) else 0) =
      (if row_sel n bm' r c then x (src (c div w)) (t * w + c mod w) else 0)"
    using rows_doneD(2) [OF assms(1), of "src (c div w)" "t * w + c mod w"] assms(2) by fastforce
qed

end
