(* ===== verification/Jer_Bitcode.thy ===== *)
theory Jer_Bitcode
  imports Jer_Packets
begin

text \<open>
  Bit-matrix codes: the dot product of packets, encoding, and the round trip through
  decoding.
\<close>

section \<open>Nested loops\<close>

lemma upt_block: "[0..<Suc k * w] = [0..<k * w] @ map ((+) (k * w)) [0..<w]"
proof -
  have "[0..<k * w + w] = [0..<k * w] @ [k * w..<k * w + w]" by (rule upt_add_eq_append) simp
  moreover have "[k * w..<k * w + w] = map (\<lambda>i. i + k * w) [0..<w]" by (simp only: map_add_upt add.commute)
  ultimately show ?thesis by (simp add: add.commute)
qed

lemma ofold_map: "ofold f (map g xs) s = ofold (\<lambda>x. f (g x)) xs s"
  by (induction xs arbitrary: s) (auto split: option.splits)

lemma ofold_cong: "(\<And>x s. x \<in> set xs \<Longrightarrow> f x s = g x s) \<Longrightarrow> ofold f xs s = ofold g xs s"
  by (induction xs arbitrary: s) (auto split: option.splits)

lemma ofold_nested_upt:
  assumes "\<And>x y s. x < k \<Longrightarrow> y < w \<Longrightarrow> f x y s = g (x * w + y) s"
  shows "ofold (\<lambda>x. ofold (f x) [0..<w]) [0..<k] s = ofold g [0..<k * w] s"
  using assms
proof (induction k)
  case (Suc k)
  have last: "ofold (\<lambda>x. ofold (f x) [0..<w]) [k] s = ofold g (map ((+) (k * w)) [0..<w]) s" for s
    unfolding ofold_map by (subst ofold_cong [where g = "f k"]) (use Suc.prems in \<open>auto split: option.splits\<close>)
  have "ofold (\<lambda>x. ofold (f x) [0..<w]) [0..<k] s = ofold g [0..<k * w] s" using Suc by simp
  then show ?case unfolding upt_block ofold_append upt_Suc_append [OF le0] last by simp
qed simp

section \<open>The dot product\<close>

abbreviation block_rows :: "nat \<Rightarrow> nat \<Rightarrow> (nat \<times> nat) set" where
  "block_rows T h \<equiv> {..<T} \<times> {..<h}"

lemma packet_index_lt: "t < T \<Longrightarrow> j < w \<Longrightarrow> t * w + j < T * (w :: nat)"
  by (rule mat_index_lt)

lemma stripes:
  assumes "ps * w dvd sz" "0 < ps" "0 < (w :: nat)"
  shows "sz div ps = sz div (ps * w) * w" "ps dvd sz"
proof -
  obtain c where c: "sz = ps * w * c" using assms(1) by (elim dvdE)
  have "ps * (w * c) div ps = w * c" "ps * w * c div (ps * w) = c"
    using assms(2,3) nonzero_mult_div_cancel_left [of ps] nonzero_mult_div_cancel_left [of "ps * w"] by simp_all
  then show "sz div ps = sz div (ps * w) * w" "ps dvd sz" unfolding c by (simp_all add: mult.assoc)
qed

lemma bit_dotprod:
  assumes ok: "packets_ok n sz ps st" and sz: "0 < w" "ps * w dvd sz" and dst: "dst < n"
    and src: "\<And>x. x < k \<Longrightarrow> src_dev ids x < n \<and> src_dev ids x \<noteq> dst"
  shows "\<exists>st'. jerasure_bitmatrix_dotprod k w row ids dst sz ps st = Some st' \<and> packets_ok n sz ps st' \<and>
    (\<forall>b<ps. rows_done w (k * w) row (src_dev ids) (\<lambda>_. dst) (block_rows (sz div (ps * w)) w)
       (track ps (dev st) b) (track ps (dev st') b))"
proof -
  let ?T = "sz div (ps * w)" and ?n = "k * w"
  have ps: "0 < ps" "ps dvd sz" using ok by (auto simp: packets_ok_def)
  have T: "sz div ps = ?T * w" using stripes [OF sz(2) ps(1) sz(1)] by simp
  have guard: "\<not> (w * ps = 0 \<or> sz mod (w * ps) \<noteq> 0)" using sz ps by (auto simp: mult.commute)
  define step where "step q st = map_option snd (ofold (row_step (row_sel ?n row (q mod w))
      (\<lambda>c. (src_dev ids (c div w), q div w * w + c mod w)) (dst, q) ps) [0..<?n] (False, st))" for q st
  have inner: "map_option snd (ofold (\<lambda>x. ofold (bit_dot_step k w row ids dst ps (s * (ps * w)) j x) [0..<w]) [0..<k] (False, st)) =
      step (s * w + j) st" if "j < w" for s j st
    unfolding step_def
    by (subst ofold_nested_upt [where g = "row_step (row_sel ?n row j)
      (\<lambda>c. (src_dev ids (c div w), s * w + c mod w)) (dst, s * w + j) ps"])
      (use that in \<open>auto simp: bit_dot_step_def row_step_def row_sel_def algebra_simps\<close>)
  have eq: "jerasure_bitmatrix_dotprod k w row ids dst sz ps st = ofold step [0..<?T * w] st"
    unfolding jerasure_bitmatrix_dotprod_def if_not_P [OF guard]
    by (rule ofold_nested_upt) (rule inner)
  define upto_row where "upto_row q = {(t, r). t * w + r < q \<and> r < w}" for q
  have "\<exists>st'. ofold step [0..<?T * w] st = Some st' \<and> (packets_ok n sz ps st' \<and>
    (\<forall>b<ps. rows_done w ?n row (src_dev ids) (\<lambda>_. dst) (upto_row (?T * w)) (track ps (dev st) b) (track ps (dev st') b)))"
  proof (rule ofold_upt_inv [where P = "\<lambda>q st'. packets_ok n sz ps st' \<and>
    (\<forall>b<ps. rows_done w ?n row (src_dev ids) (\<lambda>_. dst) (upto_row q) (track ps (dev st) b) (track ps (dev st') b))"])
    fix q st1 assume q: "q < ?T * w"
    assume P: "packets_ok n sz ps st1 \<and> (\<forall>b<ps. rows_done w ?n row (src_dev ids) (\<lambda>_. dst) (upto_row q)
      (track ps (dev st) b) (track ps (dev st1) b))"
    define t j where "t = q div w" and "j = q mod w"
    have tj: "q = t * w + j" "j < w" "t < ?T" using sz(1) q by (auto simp: t_def j_def less_mult_imp_div_less)
    let ?src = "\<lambda>c. (src_dev ids (c div w), t * w + c mod w)"
    have c: "c div w < k \<and> c mod w < w" if "c < ?n" for c using that sz(1) by (simp add: less_mult_imp_div_less)
    have sr: "fst (?src c) < n \<and> snd (?src c) < sz div ps \<and> ?src c \<noteq> (dst, q)" if "c < ?n" for c
      using src [of "c div w"] c [OF that] packet_index_lt [OF tj(3)] T by simp
    obtain st2 where st2: "step q st1 = Some st2" "packets_ok n sz ps st2"
      "\<forall>b<ps. track ps (dev st2) b =
        (if \<exists>c<?n. row_sel ?n row j c
         then assign (dst, q) (sum_sel ?n (row_sel ?n row j) (\<lambda>c. case_prod (track ps (dev st1) b) (?src c))) (track ps (dev st1) b)
         else track ps (dev st1) b)"
      using row_loop_fresh [of n sz ps st1 "(dst, q)" ?n "row_sel ?n row j" ?src] P dst q sr
      unfolding step_def t_def [symmetric] j_def [symmetric] T by auto
    have new: "upto_row (Suc q) = insert (t, j) (upto_row q)"
      using tj mat_index_eq [of _ w j] by (auto simp: upto_row_def less_Suc_eq)
    have "rows_done w ?n row (src_dev ids) (\<lambda>_. dst) (upto_row (Suc q)) (track ps (dev st) b) (track ps (dev st2) b)" if b: "b < ps" for b
      unfolding new
    proof (rule rows_done_insert)
      show old: "rows_done w ?n row (src_dev ids) (\<lambda>_. dst) (upto_row q) (track ps (dev st) b) (track ps (dev st1) b)" using P b by blast
      fix r' assume "r' \<in> upto_row q"
      then show "row_packet w (\<lambda>_. dst) r' \<noteq> row_packet w (\<lambda>_. dst) (t, j)" using tj by (auto simp: row_packet_def upto_row_def)
    next
      have "row_sum w ?n row (src_dev ids) (t, j) (track ps (dev st1) b) = row_sum w ?n row (src_dev ids) (t, j) (track ps (dev st) b)"
        using P b c src by (intro row_sum_unchanged [where dst = "\<lambda>_. dst" and bm = row]) auto
      then show "track ps (dev st2) b = (if \<exists>c<?n. row_sel ?n row (snd (t, j)) c
        then assign (row_packet w (\<lambda>_. dst) (t, j)) (row_sum w ?n row (src_dev ids) (t, j) (track ps (dev st) b)) (track ps (dev st1) b)
        else track ps (dev st1) b)"
        using st2(3) b tj by (simp add: row_packet_def row_sum_def cong: if_cong)
    qed
    then show "\<exists>st2. step q st1 = Some st2 \<and> packets_ok n sz ps st2 \<and> (\<forall>b<ps. rows_done w ?n row (src_dev ids) (\<lambda>_. dst)
      (upto_row (Suc q)) (track ps (dev st) b) (track ps (dev st2) b))" using st2 by blast
  qed (use ok in \<open>simp_all add: upto_row_def\<close>)
  moreover have "upto_row (?T * w) = block_rows ?T w"
    using packet_index_lt [of _ ?T _ w] mat_index_eq [of _ w] by (auto simp: upto_row_def)
       (metis add.commute add_lessD1 mult_less_cancel2)
  ultimately show ?thesis unfolding eq by simp
qed

section \<open>Encoding\<close>

text \<open>Element c of stripe t: the packets of all devices of the stripe, w for each device.\<close>

definition stripe_vec :: "nat \<Rightarrow> nat \<Rightarrow> u8 list list \<Rightarrow> nat \<Rightarrow> nat \<Rightarrow> nat \<Rightarrow> u32" where
  "stripe_vec ps w D b t c = track ps D b (c div w) (t * w + c mod w)"

text \<open>Every packet of a coding device is the exclusive-or of the data packets its row selects.\<close>

definition bit_encoded :: "nat \<Rightarrow> nat \<Rightarrow> nat \<Rightarrow> u32 list \<Rightarrow> nat \<Rightarrow> nat \<Rightarrow> u8 list list \<Rightarrow> bool" where
  "bit_encoded k m w bitmatrix sz ps D \<longleftrightarrow> length D = k + m \<and> (\<forall>d<k + m. length (D ! d) = sz) \<and>
     (\<forall>b<ps. \<forall>t < sz div (ps * w). \<forall>r<m * w. stripe_vec ps w D b t (k * w + r) =
        xsum (k * w) (\<lambda>c. if bitmatrix ! (r * (k * w) + c) \<noteq> 0 then stripe_vec ps w D b t c else 0))"

definition bitmatrix_ok :: "nat \<Rightarrow> nat \<Rightarrow> nat \<Rightarrow> u32 list \<Rightarrow> bool" where
  "bitmatrix_ok k m w bitmatrix \<longleftrightarrow> 0 < w \<and> bits bitmatrix \<and> length bitmatrix = m * w * (k * w) \<and>
     rows_nonzero (k * w) (m * w) bitmatrix"

lemma rows_done_block:
  assumes 1: "rows_done w n bm src dst (block_rows T (i * w)) x y"
    and 2: "rows_done w n row src (\<lambda>_. dst i) (block_rows T w) y z" and w: "0 < w"
    and row: "\<And>j c. j < w \<Longrightarrow> c < n \<Longrightarrow> row_sel n row j c = row_sel n bm (i * w + j) c"
    and dst: "\<And>i'. i' < i \<Longrightarrow> dst i' \<noteq> dst i" and src: "\<And>i' c. i' < i \<Longrightarrow> c < n \<Longrightarrow> src (c div w) \<noteq> dst i'"
  shows "rows_done w n bm src dst (block_rows T (Suc i * w)) x z"
  unfolding rows_done_def
proof (intro conjI ballI allI impI)
  have sum: "row_sum w n row src (t, j) y = row_sum w n bm src (t, i * w + j) x" if "j < w" for t j
  proof -
    have "row_sum w n row src (t, j) y = row_sum w n row src (t, j) x"
      by (rule row_sum_unchanged [OF 1]) (use w src in \<open>auto simp: less_mult_imp_div_less\<close>)
    then show ?thesis using row that unfolding row_sum_def by (auto intro!: xsum_cong)
  qed
  fix tr assume tr: "tr \<in> block_rows T (Suc i * w)" "\<exists>c<n. row_sel n bm (snd tr) c"
  obtain t r where t: "tr = (t, r)" by (cases tr)
  show "case_prod z (row_packet w dst tr) = row_sum w n bm src tr x"
  proof (cases "r < i * w")
    case True
    then have "dst (r div w) \<noteq> dst i" using dst by (simp add: less_mult_imp_div_less)
    then have "z (dst (r div w)) (t * w + r mod w) = y (dst (r div w)) (t * w + r mod w)"
      by (intro rows_doneD(2) [OF 2]) auto
    then show ?thesis using rows_doneD(1) [OF 1, of t r] tr True by (auto simp: t row_packet_def)
  next
    case False
    define j where "j = r - i * w"
    have j: "r = i * w + j" "j < w" "t < T" using False tr by (auto simp: t j_def)
    have "z (dst i) (t * w + j mod w) = row_sum w n row src (t, j) y"
      using rows_doneD(1) [OF 2, of t j] j tr(2) row by (fastforce simp: t)
    then show ?thesis using sum [OF j(2)] j w by (simp add: t row_packet_def)
  qed
next
  fix p assume p: "\<forall>tr\<in>block_rows T (Suc i * w). (\<exists>c<n. row_sel n bm (snd tr) c) \<longrightarrow> row_packet w dst tr \<noteq> p"
  have "case_prod z p = case_prod y p"
  proof -
    have "row_packet w (\<lambda>_. dst i) (t, j) \<noteq> p" if "t < T" "j < w" "\<exists>c<n. row_sel n row j c" for t j
      using p [rule_format, of "(t, i * w + j)"] that row w by (auto simp: row_packet_def)
    then have "\<forall>r\<in>block_rows T w. (\<exists>c<n. row_sel n row (snd r) c) \<longrightarrow> row_packet w (\<lambda>_. dst i) r \<noteq> p" by auto
    then show ?thesis using 2 unfolding rows_done_def by blast
  qed
  also have "\<dots> = case_prod x p"
  proof -
    have "block_rows T (i * w) \<subseteq> block_rows T (Suc i * w)" by auto
    then have "\<forall>r\<in>block_rows T (i * w). (\<exists>c<n. row_sel n bm (snd r) c) \<longrightarrow> row_packet w dst r \<noteq> p" using p by blast
    then show ?thesis using 1 unfolding rows_done_def by blast
  qed
  finally show "case_prod z p = case_prod x p" .
qed

lemma block_row_sel:
  assumes "length bm = m * w * (k * w)" "i < m" "j < w" "c < k * w"
  shows "row_sel (k * w) (matrix_row_of (k * w * w) bm i) j c = row_sel (k * w) bm (i * w + j) c"
proof -
  have "j * (k * w) + c < w * (k * w)" using assms(3,4) by (rule mat_index_lt)
  then have lt: "j * (k * w) + c < k * w * w" by (simp add: mult_ac)
  have "matrix_row_of (k * w * w) bm i ! (j * (k * w) + c) = bm ! (i * (k * w * w) + (j * (k * w) + c))"
    using assms(1,2) lt by (intro nth_matrix_row_of [of _ m]) (auto simp: mult_ac)
  also have "i * (k * w * w) + (j * (k * w) + c) = (i * w + j) * (k * w) + c" by (simp add: algebra_simps)
  finally show ?thesis by (simp add: row_sel_def)
qed

lemma bit_encode_rows:
  assumes bm: "bitmatrix_ok k m w bm" and ok: "packets_ok (k + m) sz ps st" and sz: "ps * w dvd sz" "8 dvd ps"
  shows "\<exists>st'. jerasure_bitmatrix_encode k m w bm sz ps st = Some st' \<and> packets_ok (k + m) sz ps st' \<and>
    (\<forall>b<ps. rows_done w (k * w) bm id ((+) k) (block_rows (sz div (ps * w)) (m * w))
       (track ps (dev st) b) (track ps (dev st') b))"
proof -
  have w: "0 < w" "length bm = m * w * (k * w)" and ps: "0 < ps"
    using bm ok by (auto simp: bitmatrix_ok_def packets_ok_def)
  let ?f = "\<lambda>i. jerasure_bitmatrix_dotprod k w (matrix_row_of (k * w * w) bm i) None (k + i) sz ps"
  let ?P = "\<lambda>i st'. packets_ok (k + m) sz ps st' \<and> (\<forall>b<ps. rows_done w (k * w) bm id ((+) k)
    (block_rows (sz div (ps * w)) (i * w)) (track ps (dev st) b) (track ps (dev st') b))"
  have "\<exists>st'. ofold ?f [0..<m] st = Some st' \<and> ?P m st'"
  proof (rule ofold_upt_inv [where P = ?P])
    fix i st1 assume i: "i < m" and P: "?P i st1"
    obtain st2 where st2: "?f i st1 = Some st2" "packets_ok (k + m) sz ps st2"
      "\<forall>b<ps. rows_done w (k * w) (matrix_row_of (k * w * w) bm i) (src_dev None) (\<lambda>_. k + i)
         (block_rows (sz div (ps * w)) w) (track ps (dev st1) b) (track ps (dev st2) b)"
      using bit_dotprod [of "k + m" sz ps st1 w "k + i" k None "matrix_row_of (k * w * w) bm i"] P i w(1) sz(1)
      by (auto simp: src_dev_def)
    have none: "src_dev None = id" by (auto simp: src_dev_def)
    have "rows_done w (k * w) bm id ((+) k) (block_rows (sz div (ps * w)) (Suc i * w))
        (track ps (dev st) b) (track ps (dev st2) b)" if b: "b < ps" for b
    proof (rule rows_done_block)
      show "rows_done w (k * w) bm id ((+) k) (block_rows (sz div (ps * w)) (i * w)) (track ps (dev st) b) (track ps (dev st1) b)"
        using P b by blast
      show "rows_done w (k * w) (matrix_row_of (k * w * w) bm i) id (\<lambda>_. k + i) (block_rows (sz div (ps * w)) w)
          (track ps (dev st1) b) (track ps (dev st2) b)"
        using st2(3) b unfolding none by blast
      show "id (c div w) \<noteq> k + i'" if "c < k * w" for c i'
        using less_mult_imp_div_less [OF that] by simp
    qed (use w i block_row_sel [OF w(2) i] in auto)
    then show "\<exists>st2. ?f i st1 = Some st2 \<and> ?P (Suc i) st2" using st2(1,2) by blast
  qed (use ok in simp_all)
  moreover have "\<not> ps mod 8 \<noteq> 0" "\<not> (ps * w = 0 \<or> sz mod (ps * w) \<noteq> 0)" using sz w ps by auto
  ultimately show ?thesis unfolding jerasure_bitmatrix_encode_def by (simp only: if_False)
qed

lemma rows_done_data:
  assumes "rows_done w (k * w) bm id ((+) k) R x y" "d < k"
  shows "y d p = x d p"
  by (rule rows_doneD(2) [OF assms(1)]) (use assms(2) in auto)

lemma rows_done_coding:
  assumes "rows_done w (k * w) bm id ((+) k) (block_rows T (m * w)) x y" "0 < w" "rows_nonzero (k * w) (m * w) bm"
    "t < T" "r < m * w"
  shows "y (k + r div w) (t * w + r mod w) = row_sum w (k * w) bm id (t, r) y"
proof -
  have "\<exists>c<k * w. row_sel (k * w) bm r c" using assms(3,5) unfolding rows_nonzero_def row_sel_def by blast
  then have "y (k + r div w) (t * w + r mod w) = row_sum w (k * w) bm id (t, r) x"
    using assms by (intro rows_doneD(1) [OF assms(1)]) auto
  also have "\<dots> = row_sum w (k * w) bm id (t, r) y"
    using assms(2) less_mult_imp_div_less [of _ k w] by (intro row_sum_unchanged [OF assms(1), symmetric]) force
  finally show ?thesis .
qed

lemma stripe_coding:
  "0 < w \<Longrightarrow> stripe_vec ps w D b t (k * w + r) = track ps D b (k + r div w) (t * w + r mod w)"
  by (simp add: stripe_vec_def)

lemma row_sum_stripe:
  "row_sum w n bm id (t, r) (track ps D b) = xsum n (\<lambda>c. if bm ! (r * n + c) \<noteq> 0 then stripe_vec ps w D b t c else 0)"
  by (simp add: row_sum_def row_sel_def stripe_vec_def cong: if_cong)

lemma bit_encode:
  assumes bm: "bitmatrix_ok k m w bm" and ok: "packets_ok (k + m) sz ps st" and sz: "ps * w dvd sz" "8 dvd ps"
  shows "\<exists>st'. jerasure_bitmatrix_encode k m w bm sz ps st = Some st' \<and> packets_ok (k + m) sz ps st' \<and>
    bit_encoded k m w bm sz ps (dev st') \<and> take k (dev st') = take k (dev st)"
proof -
  obtain st' where st': "jerasure_bitmatrix_encode k m w bm sz ps st = Some st'" "packets_ok (k + m) sz ps st'"
    and rows: "\<And>b. b < ps \<Longrightarrow> rows_done w (k * w) bm id ((+) k) (block_rows (sz div (ps * w)) (m * w))
       (track ps (dev st) b) (track ps (dev st') b)"
    using bit_encode_rows [OF assms] by blast
  have w: "0 < w" "rows_nonzero (k * w) (m * w) bm" using bm by (auto simp: bitmatrix_ok_def)
  have len: "length (dev st') = k + m" "\<forall>d<k + m. length (dev st' ! d) = sz" "length (dev st) = k + m"
    "\<forall>d<k + m. length (dev st ! d) = sz" using ok st'(2) by (auto simp: packets_ok_def)
  have "dev st' ! d = dev st ! d" if "d < k" for d
    by (rule dev_eqI [OF st'(2)]) (use that len rows_done_data [OF rows] in auto)
  then have "take k (dev st') = take k (dev st)" using len by (intro nth_equalityI) auto
  moreover have "bit_encoded k m w bm sz ps (dev st')"
    unfolding bit_encoded_def stripe_coding [OF w(1)] using len rows_done_coding [OF rows w]
    by (simp add: row_sum_stripe)
  ultimately show ?thesis using st' by blast
qed

section \<open>Decoding\<close>

lemma survivors_packets:
  "survivors k m erased sz D st \<Longrightarrow> 0 < ps \<Longrightarrow> ps dvd sz \<Longrightarrow> packets_ok (k + m) sz ps st"
  by (simp add: survivors_def packets_ok_def)

text \<open>A dot product that recomputes an erased device from devices that hold their contents.\<close>

lemma bit_dotprod_restores:
  assumes sv: "survivors k m erased sz D st" and enc: "length D = k + m" "\<forall>d<k + m. length (D ! d) = sz"
    and sz: "ps * w dvd sz" "0 < ps" "0 < w" and dst: "dst < k + m" "erased ! dst \<noteq> 0"
    and src: "\<And>j. j < k \<Longrightarrow> src_dev ids j < k + m \<and> src_dev ids j \<noteq> dst \<and> dev st ! src_dev ids j = D ! src_dev ids j"
    and row: "\<And>j. j < w \<Longrightarrow> \<exists>c<k * w. row_sel (k * w) row j c"
    and sum: "\<And>b t j. b < ps \<Longrightarrow> t < sz div (ps * w) \<Longrightarrow> j < w \<Longrightarrow>
      sum_sel (k * w) (row_sel (k * w) row j) (\<lambda>c. track ps D b (src_dev ids (c div w)) (t * w + c mod w)) =
      track ps D b dst (t * w + j)"
  shows "\<exists>st'. jerasure_bitmatrix_dotprod k w row ids dst sz ps st = Some st' \<and> survivors k m erased sz D st' \<and>
    dev st' = (dev st)[dst := D ! dst]"
proof -
  let ?T = "sz div (ps * w)"
  have T: "sz div ps = ?T * w" "ps dvd sz" using stripes [OF sz] by auto
  have ok: "packets_ok (k + m) sz ps st" using survivors_packets [OF sv sz(2) T(2)] .
  obtain st' where st': "jerasure_bitmatrix_dotprod k w row ids dst sz ps st = Some st'" "packets_ok (k + m) sz ps st'"
    and rows: "\<And>b. b < ps \<Longrightarrow> rows_done w (k * w) row (src_dev ids) (\<lambda>_. dst) (block_rows ?T w)
      (track ps (dev st) b) (track ps (dev st') b)"
    using bit_dotprod [OF ok sz(3,1) dst(1), of k ids row] src by blast
  have src': "track ps (dev st) b (src_dev ids (c div w)) q = track ps D b (src_dev ids (c div w)) q" if "c < k * w" for b c q
    using src [OF less_mult_imp_div_less [OF that]] sv enc(1) by (simp add: track_def survivors_def)
  have new: "dev st' ! dst = D ! dst"
  proof (rule dev_eqI [OF st'(2) enc dst(1)])
    fix b q assume b: "b < ps" and q: "q < sz div ps"
    define t j where "t = q div w" and "j = q mod w"
    have tj: "q = t * w + j" "j < w" "t < ?T" using q T(1) sz(3) by (auto simp: t_def j_def less_mult_imp_div_less)
    have "track ps (dev st') b dst (t * w + j mod w) = row_sum w (k * w) row (src_dev ids) (t, j) (track ps (dev st) b)"
      using rows_doneD(1) [OF rows [OF b], of t j] row tj by blast
    also have "\<dots> = sum_sel (k * w) (row_sel (k * w) row j) (\<lambda>c. track ps D b (src_dev ids (c div w)) (t * w + c mod w))"
      unfolding row_sum_def prod.case using src' by (intro xsum_cong) auto
    finally show "track ps (dev st') b dst q = track ps D b dst q" using sum [OF b tj(3,2)] tj by simp
  qed
  have len: "length (dev st) = k + m" "\<forall>d<k + m. length (dev st ! d) = sz" using ok by (auto simp: packets_ok_def)
  have other: "dev st' ! d = dev st ! d" if "d < k + m" "d \<noteq> dst" for d
    by (rule dev_eqI [OF st'(2) len]) (use that rows_doneD(2) [OF rows, of _ d] in auto)
  have "dev st' = (dev st)[dst := D ! dst]"
  proof (rule nth_equalityI)
    show "length (dev st') = length ((dev st)[dst := D ! dst])" using st'(2) len by (simp add: packets_ok_def)
    fix i assume "i < length (dev st')"
    then have "i < k + m" using st'(2) by (simp add: packets_ok_def)
    then show "dev st' ! i = (dev st)[dst := D ! dst] ! i" using new other len dst(1) by (cases "i = dst") auto
  qed
  then show ?thesis using st' sv dst enc by (auto simp: survivors_def packets_ok_def nth_list_update)
qed

section \<open>Decoding matrices\<close>

lemma fill_block:
  fixes v :: "nat \<Rightarrow> u32"
  assumes "b * N + e < length t" "e < N"
  shows "fold (\<lambda>j t. t[i * N + j := v j]) [0..<N] t ! (b * N + e) = (if b = i then v e else t ! (b * N + e))"
  using assms mat_index_eq [of _ N e i b] by (subst nth_fold_update [where val = "v e"]) auto

lemma block_entry_index: "(b * w + j) * (k * w) + c = b * (k * w * w) + (j * (k * w) + c)" for b w j k c :: nat
  by (simp add: algebra_simps)

lemma block_entry_lt: "j < w \<Longrightarrow> c < k * w \<Longrightarrow> j * (k * w) + c < k * w * (w :: nat)"
  using mat_index_lt [of j w c "k * w"] by (simp add: mult_ac)

lemma length_blocks [simp]:
  "length (identity_block k w i d t) = length t" "length (copy_block k w M d i t) = length t"
  by (simp_all add: identity_block_def copy_block_def)

lemma mf_copy_block:
  assumes "length t = B * w * (k * w)" "b < B" "j < w" "c < k * w"
  shows "mf (k * w) (copy_block k w M d i t) (b * w + j) c =
    (if b = i then mf (k * w) M (d * w + j) c else mf (k * w) t (b * w + j) c)"
proof -
  have "b * (k * w * w) + (j * (k * w) + c) < length t"
    using assms mat_index_lt [of "b * w + j" "B * w" c "k * w"] mat_index_lt [of b B j w]
    by (simp add: block_entry_index)
  from fill_block [OF this block_entry_lt [OF assms(3,4)], of i "\<lambda>j. M ! (d * (k * w * w) + j)"]
  show ?thesis unfolding mf_def block_entry_index copy_block_def by (simp add: mult.assoc)
qed

lemma mf_identity_block:
  assumes "length t = B * w * (k * w)" "b < B" "j < w" "c < k * w" "d < k"
  shows "mf (k * w) (identity_block k w i d t) (b * w + j) c =
    (if b = i then (if c = d * w + j then 1 else 0) else mf (k * w) t (b * w + j) c)"
proof -
  let ?N = "k * w * w" and ?e = "j * (k * w) + c"
  let ?z = "fold (\<lambda>j t. t[i * ?N + j := 0]) [0..<?N] t"
  have lt: "b * ?N + ?e < length t"
    using assms mat_index_lt [of "b * w + j" "B * w" c "k * w"] mat_index_lt [of b B j w]
    by (simp add: block_entry_index)
  have pos: "i * k * w * w + d * w + x * (k * w + 1) = i * ?N + (x * (k * w) + (d * w + x))" for x
    by (simp add: algebra_simps)
  have dx: "d * w + x < k * w" if "x < w" for x using mat_index_lt [OF assms(5) that] .
  have same: "i * ?N + (x * (k * w) + (d * w + x)) = b * ?N + ?e \<longleftrightarrow> i = b \<and> x = j \<and> c = d * w + j" if "x < w" for x
    using mat_index_eq [OF block_entry_lt [OF that dx [OF that]] block_entry_lt [OF assms(3,4)], of i b]
      mat_index_eq [OF dx [OF that] assms(4), of x j] by auto
  have "identity_block k w i d t ! (b * ?N + ?e) =
      (if \<exists>x\<in>set [0..<w]. i * ?N + (x * (k * w) + (d * w + x)) = b * ?N + ?e then 1 else ?z ! (b * ?N + ?e))"
    unfolding identity_block_def pos using lt
    by (subst nth_fold_update [where val = 1]) (auto simp: mult.assoc)
  moreover have "?z ! (b * ?N + ?e) = (if b = i then 0 else t ! (b * ?N + ?e))"
    using fill_block [OF lt block_entry_lt [OF assms(3,4)], of i "\<lambda>_. 0"] by simp
  moreover have "(\<exists>x\<in>set [0..<w]. i * ?N + (x * (k * w) + (d * w + x)) = b * ?N + ?e) \<longleftrightarrow> i = b \<and> c = d * w + j"
    using same assms(3) by auto
  ultimately show ?thesis unfolding mf_def block_entry_index by auto
qed

text \<open>Writing the block of a device: its rows of the generator.\<close>

lemma mf_generator_block:
  assumes "length t = B * w * (k * w)" "b < B" "j < w" "c < k * w"
    "t' = (if d < k then identity_block k w i d t else copy_block k w bm (d - k) i t)"
  shows "mf (k * w) t' (b * w + j) c =
    (if b = i then gen_row (k * w) bm (d * w + j) c else mf (k * w) t (b * w + j) c)"
proof (cases "d < k")
  case True
  then have "d * w + j < k * w" using assms(3) by (intro mat_index_lt)
  then show ?thesis using mf_identity_block [OF assms(1-4) True, of i] assms(5) True by (simp add: gen_row_def)
next
  case False
  then have "k * w \<le> d * w" by (intro mult_le_mono1) simp
  then have "\<not> d * w + j < k * w" "d * w + j - k * w = (d - k) * w + j"
    unfolding diff_mult_distrib by linarith+
  then show ?thesis using mf_copy_block [OF assms(1-4), of bm "d - k" i] assms(5) False by (simp add: gen_row_def mf_def)
qed

lemma decoding_bitrows:
  shows "length (decoding_bitrows k w bm ids) = k * w * (k * w)"
    and "i < k \<Longrightarrow> j < w \<Longrightarrow> c < k * w \<Longrightarrow>
      mf (k * w) (decoding_bitrows k w bm ids) (i * w + j) c = gen_row (k * w) bm (ids ! i * w + j) c"
proof -
  let ?f = "\<lambda>i t. if ids ! i < k then identity_block k w i (ids ! i) t else copy_block k w bm (ids ! i - k) i t"
  let ?P = "\<lambda>l t. length t = k * w * (k * w) \<and> (\<forall>i<l. \<forall>j<w. \<forall>c<k * w.
    mf (k * w) t (i * w + j) c = gen_row (k * w) bm (ids ! i * w + j) c)"
  have "?P k (fold ?f [0..<k] (replicate (k * k * w * w) 0))"
  proof (rule fold_upt_inv [where P = ?P])
    fix l t assume l: "l < k" and P: "?P l t"
    have "mf (k * w) (?f l t) (i * w + j) c =
        (if i = l then gen_row (k * w) bm (ids ! l * w + j) c else mf (k * w) t (i * w + j) c)"
      if "i < k" "j < w" "c < k * w" for i j c
      by (rule mf_generator_block [of t k]) (use P that in auto)
    then show "?P (Suc l) (?f l t)" using P l by (auto simp: less_Suc_eq)
  qed (simp_all add: mult_ac)
  then show "length (decoding_bitrows k w bm ids) = k * w * (k * w)"
    and "i < k \<Longrightarrow> j < w \<Longrightarrow> c < k * w \<Longrightarrow>
      mf (k * w) (decoding_bitrows k w bm ids) (i * w + j) c = gen_row (k * w) bm (ids ! i * w + j) c"
    unfolding decoding_bitrows_def by blast+
qed

text \<open>
  The rows of the generator for k devices f 0, ..., f (k - 1) in a flat array; when they are
  regular, their inverse expresses the data packets by the packets of those devices.
\<close>

definition device_rows :: "nat \<Rightarrow> nat \<Rightarrow> nat \<Rightarrow> u32 list \<Rightarrow> (nat \<Rightarrow> nat) \<Rightarrow> u32 list \<Rightarrow> bool" where
  "device_rows k m w bm f A \<longleftrightarrow> length A = k * w * (k * w) \<and> (\<forall>i<k. f i < k + m) \<and>
     (\<forall>i<k. \<forall>j<w. \<forall>c<k * w. mf (k * w) A (i * w + j) c = gen_row (k * w) bm (f i * w + j) c)"

lemma bits_gen_row:
  assumes "bitmatrix_ok k m w bm" "v < (k + m) * w" "c < k * w"
  shows "gen_row (k * w) bm v c = 0 \<or> gen_row (k * w) bm v c = 1"
proof (cases "v < k * w")
  case False
  have "v - k * w < m * w" using assms(2) False by (simp add: add_mult_distrib)
  then have "(v - k * w) * (k * w) + c < length bm"
    using assms mat_index_lt [of "v - k * w" "m * w" c "k * w"] by (simp add: bitmatrix_ok_def)
  then show ?thesis using assms(1) bits_nth False by (simp add: gen_row_def bitmatrix_ok_def)
qed (simp add: gen_row_def)

lemma bits_device_rows:
  assumes "bitmatrix_ok k m w bm" "device_rows k m w bm f A"
  shows "bits A"
proof -
  have "mf (k * w) A r c = 0 \<or> mf (k * w) A r c = 1" if rc: "r < k * w" "c < k * w" for r c
  proof -
    have w: "0 < w" using assms(1) by (simp add: bitmatrix_ok_def)
    have r: "r div w < k" "r mod w < w" using rc w by (auto simp: less_mult_imp_div_less)
    have "mf (k * w) A (r div w * w + r mod w) c = gen_row (k * w) bm (f (r div w) * w + r mod w) c"
      using assms(2) r rc(2) unfolding device_rows_def by blast
    moreover have "f (r div w) * w + r mod w < (k + m) * w"
      using assms(2) r by (intro mat_index_lt) (auto simp: device_rows_def)
    ultimately show ?thesis using bits_gen_row [OF assms(1)] rc(2) by simp
  qed
  then show ?thesis using assms(2) by (subst bits_mf [of _ "k * w" "k * w"]) (auto simp: device_rows_def)
qed

lemma mult8_sel: "a = 0 \<or> a = 1 \<Longrightarrow> elem8 x \<Longrightarrow> mult8 a x = (if a \<noteq> 0 then x else 0)"
  using mult8_bit [of a x] by auto

lemma bit_codeword:
  assumes "bitmatrix_ok k m w bm" "v < (k + m) * w" "\<And>c. elem8 (x c)"
  shows "codeword (galois_default 8) (k * w) bm x v =
    xsum (k * w) (\<lambda>c. if gen_row (k * w) bm v c \<noteq> 0 then x c else 0)"
  unfolding codeword_def by (intro xsum_cong mult8_sel bits_gen_row [OF assms(1,2)] assms(3))

lemma bit_encoded_codeword:
  assumes "bitmatrix_ok k m w bm" "bit_encoded k m w bm sz ps D" "b < ps" "t < sz div (ps * w)" "v < (k + m) * w"
  shows "codeword (galois_default 8) (k * w) bm (stripe_vec ps w D b t) v = stripe_vec ps w D b t v"
proof (cases "v < k * w")
  case True
  then show ?thesis using gal8.codeword_data elem8_track by (simp add: stripe_vec_def)
next
  case False
  define r where "r = v - k * w"
  have r: "v = k * w + r" "r < m * w" using False assms(5) by (auto simp: r_def add_mult_distrib)
  have "codeword (galois_default 8) (k * w) bm (stripe_vec ps w D b t) v =
      xsum (k * w) (\<lambda>c. if bm ! (r * (k * w) + c) \<noteq> 0 then stripe_vec ps w D b t c else 0)"
    using bit_codeword [OF assms(1,5), of "stripe_vec ps w D b t"] elem8_track
    by (simp add: stripe_vec_def gen_row_def r cong: if_cong)
  then show ?thesis using assms(2-4) r unfolding bit_encoded_def by simp
qed

lemma device_rows_inverse:
  assumes ok: "bitmatrix_ok k m w bm" and A: "device_rows k m w bm f A" and reg: "bit_regular (k * w) (mf (k * w) A)"
  shows "\<exists>mat iv. jerasure_invert_bitmatrix A (k * w) = (0, mat, iv) \<and> length iv = k * w * (k * w) \<and> bits iv \<and>
    (\<forall>x. (\<forall>c. elem8 (x c)) \<longrightarrow> (\<forall>r<k * w. sum_sel (k * w) (row_sel (k * w) iv r)
       (\<lambda>c. codeword (galois_default 8) (k * w) bm x (f (c div w) * w + c mod w)) = x r))"
proof -
  let ?n = "k * w"
  have bA: "bits A" "length A = ?n * ?n" using bits_device_rows [OF ok A] A by (auto simp: device_rows_def)
  obtain mat iv where iv: "jerasure_invert_bitmatrix A ?n = (0, mat, iv)" "length iv = ?n * ?n" "bits iv"
    "is_identity ?n (gal8.mprod ?n (mf ?n iv) (mf ?n A))"
    using invert_bitmatrix [OF bA] reg by auto
  have "sum_sel ?n (row_sel ?n iv r) (\<lambda>c. codeword (galois_default 8) ?n bm x (f (c div w) * w + c mod w)) = x r"
    if x: "\<forall>c. elem8 (x c)" and r: "r < ?n" for x r
  proof -
    have w: "0 < w" using ok by (simp add: bitmatrix_ok_def)
    have row: "mf ?n A c l = gen_row ?n bm (f (c div w) * w + c mod w) l" if "c < ?n" "l < ?n" for c l
    proof -
      have "mf ?n A (c div w * w + c mod w) l = gen_row ?n bm (f (c div w) * w + c mod w) l"
        using A w that less_mult_imp_div_less [OF that(1)] unfolding device_rows_def by (metis mod_less_divisor)
      then show ?thesis by simp
    qed
    have vec: "gal8.mvec ?n (mf ?n A) x c = codeword (galois_default 8) ?n bm x (f (c div w) * w + c mod w)" if "c < ?n" for c
      unfolding mat_vec_def codeword_def using row [OF that] by (intro xsum_cong) simp
    have el: "elem8 (gal8.mvec ?n (mf ?n A) x c)" if "c < ?n" for c
      using emat_bits [OF bA] x that unfolding mat_vec_def elem_mat_def by (intro gal8.elem_xsum gal8.elem_mult) auto
    have "sum_sel ?n (row_sel ?n iv r) (\<lambda>c. codeword (galois_default 8) ?n bm x (f (c div w) * w + c mod w)) =
        gal8.mvec ?n (mf ?n iv) (gal8.mvec ?n (mf ?n A) x) r"
      unfolding mat_vec_def [of _ _ "mf ?n iv"]
    proof (rule xsum_cong)
      fix c assume c: "c < ?n"
      have "mf ?n iv r c = 0 \<or> mf ?n iv r c = 1" using iv(2,3) r c bits_mf [of iv ?n ?n] by blast
      then show "(if row_sel ?n iv r c then codeword (galois_default 8) ?n bm x (f (c div w) * w + c mod w) else 0) =
          mult8 (mf ?n iv r c) (gal8.mvec ?n (mf ?n A) x c)"
        using mult8_sel [OF _ el [OF c]] vec [OF c] by (simp add: row_sel_def mf_def)
    qed
    also have "\<dots> = x r"
      using gal8.left_inverse_vec [OF emat_bits [OF bA] emat_bits [OF iv(3,2)] iv(4) _ r] x by blast
    finally show ?thesis .
  qed
  then show ?thesis using iv by blast
qed

section \<open>The decoder\<close>

lemma inverse_row_nonzero:
  assumes "\<And>x. \<forall>c. elem8 (x c) \<Longrightarrow> sum_sel n sel (y x) = x r"
  shows "\<exists>c<n. sel c"
proof (rule ccontr)
  assume "\<not> (\<exists>c<n. sel c)"
  then have "sum_sel n sel (y (\<lambda>_. 1)) = 0" by (auto intro!: xsum_zeroI)
  then show False using assms [of "\<lambda>_. 1"] gal8.elem_1 by simp
qed

text \<open>The inverse restores the lost data packets from the packets of the k devices.\<close>

lemma inverse_restores:
  assumes "bitmatrix_ok k m w bm" "device_rows k m w bm f A" "bit_encoded k m w bm sz ps D" "b < ps" "t < sz div (ps * w)"
    and iv: "\<And>x. \<forall>c. elem8 (x c) \<Longrightarrow> sum_sel (k * w) (row_sel (k * w) iv r)
       (\<lambda>c. codeword (galois_default 8) (k * w) bm x (f (c div w) * w + c mod w)) = x r"
  shows "sum_sel (k * w) (row_sel (k * w) iv r) (\<lambda>c. track ps D b (f (c div w)) (t * w + c mod w)) =
    track ps D b (r div w) (t * w + r mod w)"
proof -
  have w: "0 < w" using assms(1) by (simp add: bitmatrix_ok_def)
  have "sum_sel (k * w) (row_sel (k * w) iv r) (\<lambda>c. track ps D b (f (c div w)) (t * w + c mod w)) =
      sum_sel (k * w) (row_sel (k * w) iv r)
        (\<lambda>c. codeword (galois_default 8) (k * w) bm (stripe_vec ps w D b t) (f (c div w) * w + c mod w))"
  proof (rule xsum_cong)
    fix c assume c: "c < k * w"
    have "f (c div w) * w + c mod w < (k + m) * w"
      using assms(2) less_mult_imp_div_less [OF c] w by (intro mat_index_lt) (auto simp: device_rows_def)
    then show "(if row_sel (k * w) iv r c then track ps D b (f (c div w)) (t * w + c mod w) else 0) =
        (if row_sel (k * w) iv r c
         then codeword (galois_default 8) (k * w) bm (stripe_vec ps w D b t) (f (c div w) * w + c mod w) else 0)"
      using bit_encoded_codeword [OF assms(1,3-5)] w by (simp add: stripe_vec_def)
  qed
  also have "\<dots> = stripe_vec ps w D b t r" using iv elem8_track by (simp add: stripe_vec_def)
  finally show ?thesis by (simp add: stripe_vec_def)
qed

text \<open>The parity row: the first w rows of the bit matrix are k unit blocks.\<close>

definition parity_block :: "nat \<Rightarrow> nat \<Rightarrow> u32 list \<Rightarrow> bool" where
  "parity_block k w bm \<longleftrightarrow> (\<forall>j<w. \<forall>c<k * w. bm ! (j * (k * w) + c) = (if c mod w = j then 1 else 0))"

lemma xsum_column:
  "j < w \<Longrightarrow> xsum (k * w) (\<lambda>c. if c mod w = j then f (c div w) else 0) = xsum k f"
proof (induction k)
  case (Suc k)
  have "xsum w (\<lambda>c. if (k * w + c) mod w = j then f ((k * w + c) div w) else 0) = xsum w (\<lambda>c. if c = j then f k else 0)"
    by (rule xsum_cong) auto
  also have "\<dots> = f k" using Suc.prems xsum_delta [of w j "\<lambda>_. f k"] by simp
  finally have "xsum (k * w + w) (\<lambda>c. if c mod w = j then f (c div w) else 0) = xsum k f XOR f k"
    using Suc unfolding xsum_split by simp
  then show ?case by (simp add: add.commute)
qed simp

lemma bit_parity_sum:
  assumes bm: "bitmatrix_ok k m w bm" "parity_block k w bm" "0 < m" and enc: "bit_encoded k m w bm sz ps D"
    and b: "b < ps" "t < sz div (ps * w)" "j < w" "ld < k"
  shows "sum_sel (k * w) (row_sel (k * w) bm j) (\<lambda>c. track ps D b (parity_ids k ld ! (c div w)) (t * w + c mod w)) =
    track ps D b ld (t * w + j)"
proof -
  let ?x = "\<lambda>d. track ps D b d (t * w + j)"
  have sel: "row_sel (k * w) bm j c \<longleftrightarrow> c mod w = j" if "c < k * w" for c
    using bm(2) b(3) that by (simp add: row_sel_def parity_block_def)
  have sum: "sum_sel (k * w) (row_sel (k * w) bm j) (\<lambda>c. track ps D b (g (c div w)) (t * w + c mod w)) = xsum k (\<lambda>d. ?x (g d))" for g
    unfolding xsum_column [OF b(3), of k "\<lambda>d. ?x (g d)", symmetric] using sel by (intro xsum_cong) auto
  have "stripe_vec ps w D b t (k * w + j) =
      xsum (k * w) (\<lambda>c. if bm ! (j * (k * w) + c) \<noteq> 0 then stripe_vec ps w D b t c else 0)"
    using enc b(1,2) less_le_trans [OF b(3), of "m * w"] bm(3) unfolding bit_encoded_def by simp
  then have "?x k = xsum k ?x"
    using sum [of "\<lambda>d. d"] b(3) by (simp add: stripe_vec_def row_sel_def cong: if_cong)
  moreover have "xsum k (\<lambda>d. ?x (parity_ids k ld ! d)) = xsum k (\<lambda>d. ?x (if d < ld then d else d + 1))"
    by (rule xsum_cong) (simp add: parity_ids_def)
  ultimately show ?thesis using sum [of "\<lambda>d. parity_ids k ld ! d"] xsum_skip [of ld k ?x] b(4) by simp
qed

text \<open>The rows of the first k surviving devices are regular over the two-element field.\<close>

definition bit_recoverable :: "nat \<Rightarrow> nat \<Rightarrow> nat \<Rightarrow> u32 list \<Rightarrow> u32 list \<Rightarrow> bool" where
  "bit_recoverable k m w bm erased \<longleftrightarrow>
     bit_regular (k * w) (mf (k * w) (decoding_bitrows k w bm (dm_ids k m erased)))"

lemma make_decoding_bitmatrix:
  assumes "bitmatrix_ok k m w bm" "k \<le> alive (k + m) erased"
  defines "ids \<equiv> dm_ids k m erased"
  shows "\<exists>ret dm. jerasure_make_decoding_bitmatrix k m w bm erased = Some (ret, dm, ids) \<and>
    device_rows k m w bm ((!) ids) (decoding_bitrows k w bm ids) \<and> (\<forall>j<k. erased ! (ids ! j) = 0) \<and>
    (if bit_recoverable k m w bm erased
     then ret = 0 \<and> length dm = k * w * (k * w) \<and> (\<forall>x. (\<forall>c. elem8 (x c)) \<longrightarrow>
        (\<forall>r<k * w. sum_sel (k * w) (row_sel (k * w) dm r)
          (\<lambda>c. codeword (galois_default 8) (k * w) bm x (ids ! (c div w) * w + c mod w)) = x r))
     else ret = - 1)"
proof -
  let ?A = "decoding_bitrows k w bm ids"
  have len: "length ids = k" using assms(2) by (simp add: ids_def length_dm_ids)
  have ids: "ids ! i < k + m" "erased ! (ids ! i) = 0" if "i < k" for i
    using dm_ids_props [of i k m erased] len that by (simp_all add: ids_def)
  have rows: "device_rows k m w bm ((!) ids) ?A"
    unfolding device_rows_def using decoding_bitrows ids(1) by blast
  have A: "bits ?A" "length ?A = k * w * (k * w)"
    using bits_device_rows [OF assms(1) rows] rows by (auto simp: device_rows_def)
  obtain ret dm mat where inv: "jerasure_invert_bitmatrix ?A (k * w) = (ret, mat, dm)"
    "ret = (if bit_recoverable k m w bm erased then 0 else - 1)"
    using invert_bitmatrix [OF A] by (auto simp: bit_recoverable_def ids_def)
  have "jerasure_make_decoding_bitmatrix k m w bm erased = Some (ret, dm, ids)"
    using len inv(1) by (simp add: jerasure_make_decoding_bitmatrix_def ids_def Let_def)
  moreover have "length dm = k * w * (k * w) \<and> (\<forall>x. (\<forall>c. elem8 (x c)) \<longrightarrow>
        (\<forall>r<k * w. sum_sel (k * w) (row_sel (k * w) dm r)
          (\<lambda>c. codeword (galois_default 8) (k * w) bm x (ids ! (c div w) * w + c mod w)) = x r))"
    if "bit_recoverable k m w bm erased"
    using device_rows_inverse [OF assms(1) rows] that inv(1) unfolding bit_recoverable_def ids_def by auto
  ultimately show ?thesis using rows ids(2) inv(2) by auto
qed

lemma bit_restore_data:
  assumes bm: "bitmatrix_ok k m w bm" and enc: "bit_encoded k m w bm sz ps D" and sz: "ps * w dvd sz" "0 < ps"
    and rows: "device_rows k m w bm ((!) ids) A" "\<forall>j<k. erased ! (ids ! j) = 0"
    and dm: "length dm = k * w * (k * w)" "\<forall>x. (\<forall>c. elem8 (x c)) \<longrightarrow> (\<forall>r<k * w. sum_sel (k * w) (row_sel (k * w) dm r)
          (\<lambda>c. codeword (galois_default 8) (k * w) bm x (ids ! (c div w) * w + c mod w)) = x r)"
    and i: "i < k" "erased ! i \<noteq> 0" and sv: "survivors k m erased sz D st"
  shows "\<exists>st'. jerasure_bitmatrix_dotprod k w (matrix_row_of (k * w * w) dm i) (Some ids) i sz ps st = Some st' \<and>
    survivors k m erased sz D st' \<and> dev st' = (dev st)[i := D ! i]"
proof (rule bit_dotprod_restores [OF sv _ _ sz])
  have w: "0 < w" using bm by (simp add: bitmatrix_ok_def)
  have sel: "row_sel (k * w) (matrix_row_of (k * w * w) dm i) j c = row_sel (k * w) dm (i * w + j) c"
    if "j < w" "c < k * w" for j c by (rule block_row_sel [OF dm(1) i(1) that])
  have r: "i * w + j < k * w" if "j < w" for j using mat_index_lt [OF i(1) that] .
  have dm': "sum_sel (k * w) (row_sel (k * w) dm (i * w + j))
      (\<lambda>c. codeword (galois_default 8) (k * w) bm x (ids ! (c div w) * w + c mod w)) = x (i * w + j)"
    if "j < w" "\<forall>c. elem8 (x c)" for j x using dm(2) that r by blast
  show "\<exists>c<k * w. row_sel (k * w) (matrix_row_of (k * w * w) dm i) j c" if j: "j < w" for j
    using inverse_row_nonzero [of "k * w" "row_sel (k * w) dm (i * w + j)"
        "\<lambda>x c. codeword (galois_default 8) (k * w) bm x (ids ! (c div w) * w + c mod w)" "i * w + j", OF dm' [OF j]]
      sel [OF j] by blast
  fix b t j assume b: "b < ps" "t < sz div (ps * w)" and j: "j < w"
  have "sum_sel (k * w) (row_sel (k * w) (matrix_row_of (k * w * w) dm i) j)
      (\<lambda>c. track ps D b (src_dev (Some ids) (c div w)) (t * w + c mod w)) =
    sum_sel (k * w) (row_sel (k * w) dm (i * w + j)) (\<lambda>c. track ps D b (ids ! (c div w)) (t * w + c mod w))"
    using sel [OF j] by (intro xsum_cong) (simp add: src_dev_def)
  also have "\<dots> = track ps D b i (t * w + j)"
    using inverse_restores [OF bm rows(1) enc b, of dm "i * w + j"] dm' [OF j] j w by simp
  finally show "sum_sel (k * w) (row_sel (k * w) (matrix_row_of (k * w * w) dm i) j)
      (\<lambda>c. track ps D b (src_dev (Some ids) (c div w)) (t * w + c mod w)) = track ps D b i (t * w + j)" .
next
  fix j assume "j < k"
  then show "src_dev (Some ids) j < k + m \<and> src_dev (Some ids) j \<noteq> i \<and> dev st ! src_dev (Some ids) j = D ! src_dev (Some ids) j"
    using rows i sv by (auto simp: src_dev_def device_rows_def survivors_def)
qed (use bm enc i in \<open>auto simp: bitmatrix_ok_def bit_encoded_def\<close>)

lemma bit_restore_parity:
  assumes bm: "bitmatrix_ok k m w bm" "parity_block k w bm" "0 < m" and enc: "bit_encoded k m w bm sz ps D"
    and sz: "ps * w dvd sz" "0 < ps"
    and ld: "ld < k" "erased ! ld \<noteq> 0" "erased ! k = 0" "\<forall>d<k. d \<noteq> ld \<longrightarrow> dev st ! d = D ! d"
    and sv: "survivors k m erased sz D st"
  shows "\<exists>st'. jerasure_bitmatrix_dotprod k w (matrix_row_of (k * w * w) bm 0) (Some (parity_ids k ld)) ld sz ps st = Some st' \<and>
    survivors k m erased sz D st' \<and> dev st' = (dev st)[ld := D ! ld]"
proof (rule bit_dotprod_restores [OF sv _ _ sz])
  have w: "0 < w" "length bm = m * w * (k * w)" using bm by (auto simp: bitmatrix_ok_def)
  have sel: "row_sel (k * w) (matrix_row_of (k * w * w) bm 0) j c = row_sel (k * w) bm j c"
    if "j < w" "c < k * w" for j c using block_row_sel [OF w(2) bm(3) that] by simp
  show "\<exists>c<k * w. row_sel (k * w) (matrix_row_of (k * w * w) bm 0) j c" if j: "j < w" for j
  proof (intro exI conjI)
    show "j < k * w" using mat_index_lt [of 0 k j w] j ld(1) by simp
    then show "row_sel (k * w) (matrix_row_of (k * w * w) bm 0) j j"
      using bm(2) j sel by (simp add: parity_block_def row_sel_def)
  qed
  fix b t j assume b: "b < ps" "t < sz div (ps * w)" and j: "j < w"
  have "sum_sel (k * w) (row_sel (k * w) (matrix_row_of (k * w * w) bm 0) j)
      (\<lambda>c. track ps D b (src_dev (Some (parity_ids k ld)) (c div w)) (t * w + c mod w)) =
    sum_sel (k * w) (row_sel (k * w) bm j) (\<lambda>c. track ps D b (parity_ids k ld ! (c div w)) (t * w + c mod w))"
    using sel [OF j] by (intro xsum_cong) (simp add: src_dev_def)
  then show "sum_sel (k * w) (row_sel (k * w) (matrix_row_of (k * w * w) bm 0) j)
      (\<lambda>c. track ps D b (src_dev (Some (parity_ids k ld)) (c div w)) (t * w + c mod w)) = track ps D b ld (t * w + j)"
    using bit_parity_sum [OF bm enc b j ld(1)] by simp
next
  fix j assume "j < k"
  then show "src_dev (Some (parity_ids k ld)) j < k + m \<and> src_dev (Some (parity_ids k ld)) j \<noteq> ld \<and>
      dev st ! src_dev (Some (parity_ids k ld)) j = D ! src_dev (Some (parity_ids k ld)) j"
    using ld sv bm(3) by (cases "Suc j = k") (auto simp: src_dev_def parity_ids_def survivors_def)
qed (use bm enc ld in \<open>auto simp: bitmatrix_ok_def bit_encoded_def\<close>)

lemma bit_restore_coding:
  assumes bm: "bitmatrix_ok k m w bm" and enc: "bit_encoded k m w bm sz ps D" and sz: "ps * w dvd sz" "0 < ps"
    and i: "i < m" "erased ! (k + i) \<noteq> 0" and sv: "survivors k m erased sz D st" "\<forall>d<k. dev st ! d = D ! d"
  shows "\<exists>st'. jerasure_bitmatrix_dotprod k w (matrix_row_of (k * w * w) bm i) None (k + i) sz ps st = Some st' \<and>
    survivors k m erased sz D st' \<and> dev st' = (dev st)[k + i := D ! (k + i)]"
proof (rule bit_dotprod_restores [OF sv(1) _ _ sz])
  have w: "0 < w" "length bm = m * w * (k * w)" using bm by (auto simp: bitmatrix_ok_def)
  have sel: "row_sel (k * w) (matrix_row_of (k * w * w) bm i) j c = row_sel (k * w) bm (i * w + j) c"
    if "j < w" "c < k * w" for j c using block_row_sel [OF w(2) i(1) that] .
  have r: "i * w + j < m * w" if "j < w" for j using mat_index_lt [OF i(1) that] .
  show "\<exists>c<k * w. row_sel (k * w) (matrix_row_of (k * w * w) bm i) j c" if j: "j < w" for j
    using bm r [OF j] sel [OF j] unfolding bitmatrix_ok_def rows_nonzero_def by (metis row_sel_def)
  fix b t j assume b: "b < ps" "t < sz div (ps * w)" and j: "j < w"
  have "sum_sel (k * w) (row_sel (k * w) (matrix_row_of (k * w * w) bm i) j)
      (\<lambda>c. track ps D b (src_dev None (c div w)) (t * w + c mod w)) =
    xsum (k * w) (\<lambda>c. if bm ! ((i * w + j) * (k * w) + c) \<noteq> 0 then stripe_vec ps w D b t c else 0)"
    using sel [OF j] by (intro xsum_cong) (simp add: src_dev_def row_sel_def stripe_vec_def)
  also have "\<dots> = stripe_vec ps w D b t (k * w + (i * w + j))"
    using enc b r [OF j] unfolding bit_encoded_def by simp
  finally show "sum_sel (k * w) (row_sel (k * w) (matrix_row_of (k * w * w) bm i) j)
      (\<lambda>c. track ps D b (src_dev None (c div w)) (t * w + c mod w)) = track ps D b (k + i) (t * w + j)"
    using stripe_coding [OF w(1), of ps D b t k "i * w + j"] j by simp
next
  fix j assume "j < k"
  then show "src_dev None j < k + m \<and> src_dev None j \<noteq> k + i \<and> dev st ! src_dev None j = D ! src_dev None j"
    using sv(2) by (simp add: src_dev_def)
qed (use bm enc i in \<open>auto simp: bitmatrix_ok_def bit_encoded_def\<close>)

lemma bit_decode:
  assumes bm: "bitmatrix_ok k m w bm" "0 < m" "row_k_ones = 1 \<longrightarrow> parity_block k w bm"
    and enc: "bit_encoded k m w bm sz ps D" and ok: "packets_ok (k + m) sz ps st" "ps * w dvd sz"
    and er: "\<forall>e\<in>set xs. e \<noteq> - 1 \<and> unat e < k + m" "card (unat ` set xs) \<le> m"
      "\<forall>d<k + m. d \<notin> unat ` set xs \<longrightarrow> dev st ! d = D ! d"
    and rec: "bit_recoverable k m w bm (erased_flags (k + m) xs)"
  shows "\<exists>st'. jerasure_bitmatrix_decode k m w bm row_k_ones (xs @ - 1 # ys) sz ps st = Some (0, st') \<and>
    jst_ok st' \<and> dev st' = D"
proof -
  define erased where "erased = erased_flags (k + m) xs"
  have flags: "jerasure_erasures_to_erased k m (xs @ - 1 # ys) = Some (Some erased)"
    using erasures_to_erased [OF er(1)] er(2) by (simp add: erased_def)
  obtain lastd where ld: "erased_data k erased = (lost k erased, lastd)"
     "if lost k erased = 0 then lastd = k
      else lastd < k \<and> erased ! lastd \<noteq> 0 \<and> lost k erased = Suc (lost lastd erased)"
    using erased_data [of k erased] by blast
  define l where "l = (if row_k_ones \<noteq> 1 \<or> erased ! k \<noteq> 0 then k else lastd)"
  define need where "need \<longleftrightarrow> lost k erased > 1 \<or> lost k erased > 0 \<and> (row_k_ones \<noteq> 1 \<or> erased ! k \<noteq> 0)"
  have al: "k \<le> alive (k + m) erased" using alive_flags [of xs k m] er unfolding erased_def by blast
  have ps: "0 < ps" using ok by (simp add: packets_ok_def)
  have sv: "survivors k m erased sz D st"
    using ok er(3) by (simp add: survivors_def packets_ok_def erased_def split: if_splits)
  obtain dm ids where r: "jerasure_make_decoding_bitmatrix k m w bm erased = Some (0, dm, ids)"
    and dm: "device_rows k m w bm ((!) ids) (decoding_bitrows k w bm ids)" "\<forall>j<k. erased ! (ids ! j) = 0"
      "length dm = k * w * (k * w)" "\<forall>x. (\<forall>c. elem8 (x c)) \<longrightarrow> (\<forall>r<k * w. sum_sel (k * w) (row_sel (k * w) dm r)
          (\<lambda>c. codeword (galois_default 8) (k * w) bm x (ids ! (c div w) * w + c mod w)) = x r)"
    using make_decoding_bitmatrix [OF bm(1) al] rec unfolding erased_def by auto
  define dm0 where "dm0 = (if need then dm else [])"
  define ids0 where "ids0 = (if need then ids else [])"
  have a: "l = k \<or> l < k \<and> erased ! l \<noteq> 0 \<and> lost k erased = Suc (lost l erased)"
    and par: "l < k \<Longrightarrow> erased ! k = 0 \<and> row_k_ones = 1"
    using ld(2) unfolding l_def by (auto split: if_splits)
  have n: "need" if "i < l" "erased ! i \<noteq> 0" for i
    using lost_less [OF that] ld(2) unfolding l_def need_def by (auto split: if_splits)
  let ?dot = "\<lambda>row ids d. jerasure_bitmatrix_dotprod k w row ids d sz ps" and ?row = "matrix_row_of (k * w * w)"
  have "\<exists>st'. run_phases k m erased l (\<lambda>i. ?dot (?row dm0 i) (Some ids0) i) (?dot (?row bm 0) (Some (parity_ids k l)) l)
      (\<lambda>i. ?dot (?row bm i) None (k + i)) (lost k erased) st = Some (0, st') \<and> jst_ok st' \<and> dev st' = D"
  proof (rule decode_loops [OF sv _ a])
    fix i st assume i: "i < l" "erased ! i \<noteq> 0" and s: "survivors k m erased sz D st"
    show "\<exists>st'. ?dot (?row dm0 i) (Some ids0) i st = Some st' \<and> survivors k m erased sz D st' \<and> dev st' = (dev st)[i := D ! i]"
      using bit_restore_data [OF bm(1) enc ok(2) ps dm _ i(2) s] n [OF i] i(1) a by (auto simp: dm0_def ids0_def)
  next
    fix st assume s: "l < k" "survivors k m erased sz D st" "\<forall>d<k. d \<noteq> l \<longrightarrow> dev st ! d = D ! d"
    show "\<exists>st'. ?dot (?row bm 0) (Some (parity_ids k l)) l st = Some st' \<and> survivors k m erased sz D st' \<and> dev st' = (dev st)[l := D ! l]"
      using bit_restore_parity [OF bm(1) _ bm(2) enc ok(2) ps s(1) _ _ s(3,2)] par [OF s(1)] a s(1) bm(3) by auto
  next
    fix i st assume s: "i < m" "erased ! (k + i) \<noteq> 0" "survivors k m erased sz D st" "\<forall>d<k. dev st ! d = D ! d"
    show "\<exists>st'. ?dot (?row bm i) None (k + i) st = Some st' \<and> survivors k m erased sz D st' \<and> dev st' = (dev st)[k + i := D ! (k + i)]"
      by (rule bit_restore_coding [OF bm(1) enc ok(2) ps s])
  qed (use enc in \<open>simp add: bit_encoded_def\<close>)
  then obtain st' where st': "run_phases k m erased l (\<lambda>i. ?dot (?row dm0 i) (Some ids0) i)
      (?dot (?row bm 0) (Some (parity_ids k l)) l) (\<lambda>i. ?dot (?row bm i) None (k + i)) (lost k erased) st = Some (0, st')"
    "jst_ok st'" "dev st' = D" by blast
  have "(if need then jerasure_make_decoding_bitmatrix k m w bm erased else Some (0, [], [])) = Some (0, dm0, ids0)"
    using r by (simp add: dm0_def ids0_def)
  then have "jerasure_bitmatrix_decode k m w bm row_k_ones (xs @ - 1 # ys) sz ps st = Some (0, st')"
    unfolding jerasure_bitmatrix_decode_def flags bind.bind_lunit option.case Let_def ld(1) prod.case
      need_def [symmetric] l_def [symmetric] using st'(1) by (simp only: bind.bind_lunit prod.case less_irrefl if_False)
  then show ?thesis using st' by blast
qed

end
