(* ===== verification/Jer_Sched_Exec.thy ===== *)
theory Jer_Sched_Exec
  imports Jer_Bitcode
begin

text \<open>
  Schedules compute bit matrices.  \<open>extends A B ops\<close> says that the operations, run on a stripe
  where the rows A have been computed, leave the rows B computed; schedules are built from
  such pieces.
\<close>

section \<open>Running a schedule on a stripe\<close>

text \<open>
  The pointers denote different devices: P i for i < k the sources, P (k + i) the
  destinations.
\<close>

definition sched_ctx :: "nat \<Rightarrow> nat \<Rightarrow> nat \<Rightarrow> ptr_array \<Rightarrow> (nat \<Rightarrow> nat) \<Rightarrow> nat \<Rightarrow> nat \<Rightarrow> nat \<Rightarrow> bool" where
  "sched_ctx k m w ptrs P n sz ps \<longleftrightarrow> 0 < w \<and> 0 < ps \<and> ps * w dvd sz \<and> (\<forall>i<k + m. ptrs i = Some (P i) \<and> P i < n) \<and>
     inj_on P {..<k + m}"

definition sched_inv ::
  "nat \<Rightarrow> nat \<Rightarrow> u32 list \<Rightarrow> (nat \<Rightarrow> nat) \<Rightarrow> nat \<Rightarrow> nat \<Rightarrow> nat \<Rightarrow> (nat \<times> nat) set \<Rightarrow> jstate \<Rightarrow> jstate \<Rightarrow> bool" where
  "sched_inv k w bm P n sz ps R st0 st \<longleftrightarrow> packets_ok n sz ps st \<and>
     (\<forall>b<ps. rows_done w (k * w) bm P (\<lambda>i. P (k + i)) R (track ps (dev st0) b) (track ps (dev st) b))"

definition extends :: "nat \<Rightarrow> nat \<Rightarrow> nat \<Rightarrow> u32 list \<Rightarrow> nat set \<Rightarrow> nat set \<Rightarrow> operation list \<Rightarrow> bool" where
  "extends k m w bm A B ops \<longleftrightarrow> (\<forall>ptrs P n sz ps t st0 st. sched_ctx k m w ptrs P n sz ps \<longrightarrow> t < sz div (ps * w) \<longrightarrow>
     sched_inv k w bm P n sz ps ({t} \<times> A) st0 st \<longrightarrow>
     (\<exists>st'. jerasure_do_scheduled_operations ptrs (t * (ps * w)) ops ps st = Some st' \<and>
        sched_inv k w bm P n sz ps ({t} \<times> B) st0 st'))"

lemma extends_Nil: "extends k m w bm A A []"
  by (simp add: extends_def jerasure_do_scheduled_operations_def)

lemma extends_append:
  assumes "extends k m w bm A B ops" "extends k m w bm B C ops'"
  shows "extends k m w bm A C (ops @ ops')"
  unfolding extends_def
proof (intro allI impI)
  fix ptrs P n sz ps t st0 st
  assume c: "sched_ctx k m w ptrs P n sz ps" "t < sz div (ps * w)" "sched_inv k w bm P n sz ps ({t} \<times> A) st0 st"
  from assms(1) [unfolded extends_def, rule_format, OF c] obtain st1 where
    st1: "jerasure_do_scheduled_operations ptrs (t * (ps * w)) ops ps st = Some st1"
      "sched_inv k w bm P n sz ps ({t} \<times> B) st0 st1" by blast
  from assms(2) [unfolded extends_def, rule_format, OF c(1,2) st1(2)] st1(1)
  show "\<exists>st'. jerasure_do_scheduled_operations ptrs (t * (ps * w)) (ops @ ops') ps st = Some st' \<and>
      sched_inv k w bm P n sz ps ({t} \<times> C) st0 st'"
    by (auto simp: jerasure_do_scheduled_operations_def ofold_append)
qed

lemma extends_fold:
  assumes "\<And>i. i < N \<Longrightarrow> extends k m w bm {..<i} {..<Suc i} (f i)"
  shows "extends k m w bm {} {..<N} (fold (\<lambda>i ops. ops @ f i) [0..<N] [])"
  using assms
proof (induction N)
  case (Suc N)
  then show ?case using extends_append [of k m w bm "{}" "{..<N}" _ "{..<Suc N}" "f N"] by simp
qed (simp add: extends_Nil)

section \<open>The operations of a row\<close>

lemma exec_row_operations:
  assumes "sched_ctx k m w ptrs P n sz ps" "row < m * w"
  shows "jerasure_do_scheduled_operations ptrs (t * (ps * w)) (row_operations k w row sel init) ps st =
    map_option snd (ofold (row_step sel (\<lambda>c. (P (c div w), t * w + c mod w)) (P (k + row div w), t * w + row mod w) ps)
      [0..<k * w] (init, st))"
proof -
  let ?f = "\<lambda>j (optodo, operations).
        if sel j then (True, operations @ [mk_op (j div w) (j mod w) (k + row div w) (row mod w) optodo])
        else (optodo, operations)"
  let ?step = "row_step sel (\<lambda>c. (P (c div w), t * w + c mod w)) (P (k + row div w), t * w + row mod w) ps"
  let ?sched = "scheduled_operation ptrs (t * (ps * w)) ps"
  have ptrs: "ptrs (c div w) = Some (P (c div w))" if "c < k * w" for c
    using assms(1) less_mult_imp_div_less [OF that] by (simp add: sched_ctx_def)
  have dst: "ptrs (k + row div w) = Some (P (k + row div w))"
    using assms(1) less_mult_imp_div_less [OF assms(2)] by (simp add: sched_ctx_def)
  have op: "?sched (mk_op (c div w) (c mod w) (k + row div w) (row mod w) x) st =
      packet_op x (P (c div w)) ((t * w + c mod w) * ps) (P (k + row div w)) ((t * w + row mod w) * ps) ps st"
    if "c < k * w" for c x st
    using ptrs [OF that] dst by (simp add: scheduled_operation_def mk_op_def algebra_simps)
  have "ofold ?step [0..<l] (init, st) = map_option (Pair (fst (fold ?f [0..<l] (init, []))))
      (ofold ?sched (snd (fold ?f [0..<l] (init, []))) st)" if "l \<le> k * w" for l
    using that
  proof (induction l)
    case (Suc l)
    obtain o' ops where s: "fold ?f [0..<l] (init, []) = (o', ops)" by (cases "fold ?f [0..<l] (init, [])")
    have "ofold ?step [0..<l] (init, st) = map_option (Pair o') (ofold ?sched ops st)" using Suc s by simp
    then have IH: "ofold ?step [0..<Suc l] (init, st) =
        (case ofold ?sched ops st of None \<Rightarrow> None | Some s \<Rightarrow> ?step l (o', s))"
      by (cases "ofold ?sched ops st") (simp_all add: ofold_append split: option.splits)
    have f: "fold ?f [0..<Suc l] (init, []) = ?f l (o', ops)" using s by simp
    show ?case unfolding IH f
    proof (cases "sel l")
      case True
      then show "(case ofold ?sched ops st of None \<Rightarrow> None | Some s \<Rightarrow> ?step l (o', s)) =
          map_option (Pair (fst (?f l (o', ops)))) (ofold ?sched (snd (?f l (o', ops))) st)"
        using op [of l o'] Suc.prems
        by (cases "ofold ?sched ops st") (simp_all add: ofold_append row_step_def split: option.splits)
    next
      case False
      then show "(case ofold ?sched ops st of None \<Rightarrow> None | Some s \<Rightarrow> ?step l (o', s)) =
          map_option (Pair (fst (?f l (o', ops)))) (ofold ?sched (snd (?f l (o', ops))) st)"
        by (cases "ofold ?sched ops st") (simp_all add: row_step_def)
    qed
  qed simp
  from this [of "k * w"] show ?thesis
    unfolding jerasure_do_scheduled_operations_def row_operations_def by (simp add: option.map_comp comp_def option.map_ident)
qed

lemma sched_packets:
  assumes "sched_ctx k m w ptrs P n sz ps" "t < sz div (ps * w)"
  shows "j < w \<Longrightarrow> t * w + j < sz div ps" "i < k + m \<Longrightarrow> P i < n"
    "c < k * w \<Longrightarrow> r < m * w \<Longrightarrow> P (c div w) \<noteq> P (k + r div w)"
    "r < m * w \<Longrightarrow> r' < m * w \<Longrightarrow> row_packet w (\<lambda>i. P (k + i)) (t, r) = row_packet w (\<lambda>i. P (k + i)) (t, r') \<longleftrightarrow> r = r'"
proof -
  have c: "0 < w" "0 < ps" "ps * w dvd sz" "inj_on P {..<k + m}" "\<forall>i<k + m. P i < n" using assms(1) by (auto simp: sched_ctx_def)
  show "j < w \<Longrightarrow> t * w + j < sz div ps"
    using stripes(1) [OF c(3,2,1)] packet_index_lt [OF assms(2)] by simp
  show "i < k + m \<Longrightarrow> P i < n" using c(5) by simp
  show "c < k * w \<Longrightarrow> r < m * w \<Longrightarrow> P (c div w) \<noteq> P (k + r div w)"
    using inj_onD [OF c(4), of "c div w" "k + r div w"] less_mult_imp_div_less [of c k w] less_mult_imp_div_less [of r m w] by auto
  show "r < m * w \<Longrightarrow> r' < m * w \<Longrightarrow>
      row_packet w (\<lambda>i. P (k + i)) (t, r) = row_packet w (\<lambda>i. P (k + i)) (t, r') \<longleftrightarrow> r = r'"
  proof
    assume r: "r < m * w" "r' < m * w" "row_packet w (\<lambda>i. P (k + i)) (t, r) = row_packet w (\<lambda>i. P (k + i)) (t, r')"
    then have "k + r div w = k + r' div w" "r mod w = r' mod w"
      using inj_onD [OF c(4), of "k + r div w" "k + r' div w"] less_mult_imp_div_less [of _ m w] by (auto simp: row_packet_def)
    then show "r = r'" by (metis add_left_cancel div_mult_mod_eq)
  qed simp
qed

lemma sched_row_sum:
  assumes "sched_ctx k m w ptrs P n sz ps" "t < sz div (ps * w)" "A \<subseteq> {..<m * w}"
    "rows_done w (k * w) bm P (\<lambda>i. P (k + i)) ({t} \<times> A) x y"
  shows "row_sum w (k * w) bm' P r y = row_sum w (k * w) bm' P r x"
  by (rule row_sum_unchanged [OF assms(4)]) (use sched_packets(3) [OF assms(1,2)] assms(3) in blast)

lemma sched_inv_insert:
  assumes c: "sched_ctx k m w ptrs P n sz ps" "t < sz div (ps * w)" "A \<subseteq> {..<m * w}" "r < m * w" "r \<notin> A"
    and inv: "sched_inv k w bm P n sz ps ({t} \<times> A) st0 st" and ok: "packets_ok n sz ps st'"
    and new: "\<And>b. b < ps \<Longrightarrow> track ps (dev st') b = (if \<exists>c<k * w. row_sel (k * w) bm r c
      then assign (P (k + r div w), t * w + r mod w) (row_sum w (k * w) bm P (t, r) (track ps (dev st) b)) (track ps (dev st) b)
      else track ps (dev st) b)"
  shows "sched_inv k w bm P n sz ps ({t} \<times> insert r A) st0 st'"
  unfolding sched_inv_def
proof (intro conjI allI impI)
  fix b assume b: "b < ps"
  have old: "rows_done w (k * w) bm P (\<lambda>i. P (k + i)) ({t} \<times> A) (track ps (dev st0) b) (track ps (dev st) b)"
    using inv b by (simp add: sched_inv_def)
  have "rows_done w (k * w) bm P (\<lambda>i. P (k + i)) (insert (t, r) ({t} \<times> A)) (track ps (dev st0) b) (track ps (dev st') b)"
  proof (rule rows_done_insert [OF old])
    show "row_packet w (\<lambda>i. P (k + i)) r' \<noteq> row_packet w (\<lambda>i. P (k + i)) (t, r)" if "r' \<in> {t} \<times> A" for r'
      using that sched_packets(4) [OF c(1,2), of "snd r'" r] c(3-5) by auto
    show "track ps (dev st') b = (if \<exists>c<k * w. row_sel (k * w) bm (snd (t, r)) c
        then assign (row_packet w (\<lambda>i. P (k + i)) (t, r)) (row_sum w (k * w) bm P (t, r) (track ps (dev st0) b)) (track ps (dev st) b)
        else track ps (dev st) b)"
      using new [OF b] sched_row_sum [OF c(1-3) old] by (auto simp: row_packet_def)
  qed
  then show "rows_done w (k * w) bm P (\<lambda>i. P (k + i)) ({t} \<times> insert r A) (track ps (dev st0) b) (track ps (dev st') b)"
    by simp
qed (rule ok)

lemma extends_row:
  assumes "A \<subseteq> {..<m * w}" "r < m * w" "r \<notin> A"
  shows "extends k m w bm A (insert r A) (row_operations k w r (row_sel (k * w) bm r) False)"
  unfolding extends_def
proof (intro allI impI)
  fix ptrs P n sz ps t st0 st
  assume c: "sched_ctx k m w ptrs P n sz ps" "t < sz div (ps * w)" and inv: "sched_inv k w bm P n sz ps ({t} \<times> A) st0 st"
  let ?src = "\<lambda>c. (P (c div w), t * w + c mod w)" and ?dst = "(P (k + r div w), t * w + r mod w)"
  have w: "0 < w" using c(1) by (simp add: sched_ctx_def)
  have ok: "packets_ok n sz ps st" using inv by (simp add: sched_inv_def)
  note pk = sched_packets [OF c]
  have src: "fst (?src c) < n \<and> snd (?src c) < sz div ps \<and> ?src c \<noteq> ?dst" if "c < k * w" for c
    using pk(1) [of "c mod w"] pk(2) [of "c div w"] pk(3) [OF that assms(2)] w less_mult_imp_div_less [OF that] by simp
  have dst: "fst ?dst < n" "snd ?dst < sz div ps"
    using pk(1) [of "r mod w"] pk(2) [of "k + r div w"] w less_mult_imp_div_less [OF assms(2)] by simp_all
  from row_loop_fresh [OF ok dst, of "k * w" "row_sel (k * w) bm r" ?src] src obtain st' where
    st': "ofold (row_step (row_sel (k * w) bm r) ?src ?dst ps) [0..<k * w] (False, st) = Some (\<exists>c<k * w. row_sel (k * w) bm r c, st')"
      "packets_ok n sz ps st'"
    and tr: "\<forall>b<ps. track ps (dev st') b = (if \<exists>c<k * w. row_sel (k * w) bm r c
      then assign ?dst (sum_sel (k * w) (row_sel (k * w) bm r) (\<lambda>c. case_prod (track ps (dev st) b) (?src c))) (track ps (dev st) b)
      else track ps (dev st) b)" by blast
  have "sched_inv k w bm P n sz ps ({t} \<times> insert r A) st0 st'"
    by (rule sched_inv_insert [OF c assms inv st'(2)]) (use tr in \<open>simp add: row_sum_def cong: if_cong\<close>)
  then show "\<exists>st'. jerasure_do_scheduled_operations ptrs (t * (ps * w)) (row_operations k w r (row_sel (k * w) bm r) False) ps st =
      Some st' \<and> sched_inv k w bm P n sz ps ({t} \<times> insert r A) st0 st'"
    using exec_row_operations [OF c(1) assms(2), of t "row_sel (k * w) bm r" False st] st'(1) by auto
qed

text \<open>A row computed from a finished row: the packet is copied and the differing columns are added.\<close>

lemma row_sum_difference:
  assumes "\<And>c. c < n \<Longrightarrow> bm ! (r * n + c) = 0 \<or> bm ! (r * n + c) = 1" "\<And>c. c < n \<Longrightarrow> bm ! (f * n + c) = 0 \<or> bm ! (f * n + c) = 1"
  shows "row_sum w n bm P (t, f) x XOR sum_sel n (\<lambda>c. bm ! (r * n + c) XOR bm ! (f * n + c) \<noteq> 0) (\<lambda>c. x (P (c div w)) (t * w + c mod w)) =
    row_sum w n bm P (t, r) x"
  unfolding row_sum_def prod.case xsum_xor [symmetric]
  by (rule xsum_cong) (use assms in \<open>fastforce simp: row_sel_def\<close>)

lemma extends_from_row:
  assumes A: "A \<subseteq> {..<m * w}" "r < m * w" "r \<notin> A" "f \<in> A" and bm: "bits bm" "length bm = m * w * (k * w)"
    and nz: "\<exists>c<k * w. row_sel (k * w) bm r c" "\<exists>c<k * w. row_sel (k * w) bm f c"
  shows "extends k m w bm A (insert r A) (mk_op (k + f div w) (f mod w) (k + r div w) (r mod w) False #
    row_operations k w r (\<lambda>c. bm ! (r * (k * w) + c) XOR bm ! (f * (k * w) + c) \<noteq> 0) True)"
  unfolding extends_def
proof (intro allI impI)
  fix ptrs P n sz ps t st0 st
  assume c: "sched_ctx k m w ptrs P n sz ps" "t < sz div (ps * w)" and inv: "sched_inv k w bm P n sz ps ({t} \<times> A) st0 st"
  let ?src = "\<lambda>c. (P (c div w), t * w + c mod w)" and ?dst = "(P (k + r div w), t * w + r mod w)"
  let ?sel = "\<lambda>c. bm ! (r * (k * w) + c) XOR bm ! (f * (k * w) + c) \<noteq> 0"
  have w: "0 < w" and f: "f < m * w" using c(1) A by (auto simp: sched_ctx_def)
  have ok: "packets_ok n sz ps st" using inv by (simp add: sched_inv_def)
  note pk = sched_packets [OF c]
  have src: "fst (?src c) < n \<and> snd (?src c) < sz div ps \<and> ?src c \<noteq> ?dst" if "c < k * w" for c
    using pk(1) [of "c mod w"] pk(2) [of "c div w"] pk(3) [OF that A(2)] w less_mult_imp_div_less [OF that] by simp
  have dst: "fst ?dst < n" "snd ?dst < sz div ps" "P (k + f div w) < n" "t * w + f mod w < sz div ps"
    using pk(1) [of "r mod w"] pk(2) [of "k + r div w"] pk(1) [of "f mod w"] pk(2) [of "k + f div w"] w
      less_mult_imp_div_less [OF A(2)] less_mult_imp_div_less [OF f] by simp_all
  obtain st1 where st1: "counted_copy (P (k + f div w)) ((t * w + f mod w) * ps) (P (k + r div w)) ((t * w + r mod w) * ps) ps st = Some st1"
    "packets_ok n sz ps st1" "\<forall>b<ps. track ps (dev st1) b = track_put False (P (k + f div w), t * w + f mod w) ?dst (track ps (dev st) b)"
    using packet_op [OF ok dst(3,4), of "fst ?dst" "snd ?dst" False] dst(1,2) by auto
  from row_loop [OF st1(2) dst(1,2), of "k * w" ?sel ?src True] src obtain st' where
    st': "ofold (row_step ?sel ?src ?dst ps) [0..<k * w] (True, st1) = Some (True, st')" "packets_ok n sz ps st'"
    and tr: "\<forall>b<ps. track ps (dev st') b = assign ?dst (track ps (dev st1) b (fst ?dst) (snd ?dst) XOR
        sum_sel (k * w) ?sel (\<lambda>c. case_prod (track ps (dev st1) b) (?src c))) (track ps (dev st1) b)" by auto
  have bit: "bm ! (x * (k * w) + c) = 0 \<or> bm ! (x * (k * w) + c) = 1" if "x < m * w" "c < k * w" for x c
    using bits_nth [OF bm(1)] mat_index_lt [OF that] bm(2) by simp
  have "sched_inv k w bm P n sz ps ({t} \<times> insert r A) st0 st'"
  proof (rule sched_inv_insert [OF c A(1-3) inv st'(2)])
    fix b assume b: "b < ps"
    let ?x = "track ps (dev st) b"
    have old: "rows_done w (k * w) bm P (\<lambda>i. P (k + i)) ({t} \<times> A) (track ps (dev st0) b) ?x"
      using inv b by (simp add: sched_inv_def)
    have x1: "track ps (dev st1) b = assign ?dst (?x (P (k + f div w)) (t * w + f mod w)) ?x"
      using st1(3) b by (simp add: track_put_def)
    have "?x (P (k + f div w)) (t * w + f mod w) = row_sum w (k * w) bm P (t, f) ?x"
      using rows_doneD(1) [OF old, of t f] A(4) nz(2) sched_row_sum [OF c A(1) old] by simp
    moreover have "sum_sel (k * w) ?sel (\<lambda>c. case_prod (track ps (dev st1) b) (?src c)) =
        sum_sel (k * w) ?sel (\<lambda>c. ?x (P (c div w)) (t * w + c mod w))"
      unfolding x1 using src by (intro xsum_cong) auto
    ultimately have "track ps (dev st1) b (fst ?dst) (snd ?dst) XOR
        sum_sel (k * w) ?sel (\<lambda>c. case_prod (track ps (dev st1) b) (?src c)) = row_sum w (k * w) bm P (t, r) ?x"
      using row_sum_difference [of "k * w" bm r f w P t ?x] bit [OF A(2)] bit [OF f] x1 by simp
    then show "track ps (dev st') b = (if \<exists>c<k * w. row_sel (k * w) bm r c
        then assign ?dst (row_sum w (k * w) bm P (t, r) ?x) ?x else ?x)"
      using tr b nz(1) x1 by simp
  qed
  moreover have "scheduled_operation ptrs (t * (ps * w)) ps (mk_op (k + f div w) (f mod w) (k + r div w) (r mod w) False) st = Some st1"
    using st1(1) c(1) less_mult_imp_div_less [OF A(2)] less_mult_imp_div_less [OF f]
    by (simp add: scheduled_operation_def mk_op_def sched_ctx_def algebra_simps)
  moreover have "jerasure_do_scheduled_operations ptrs (t * (ps * w)) (row_operations k w r ?sel True) ps st1 = Some st'"
    using exec_row_operations [OF c(1) A(2), of t ?sel True st1] st'(1) by simp
  ultimately show "\<exists>st'. jerasure_do_scheduled_operations ptrs (t * (ps * w))
      (mk_op (k + f div w) (f mod w) (k + r div w) (r mod w) False # row_operations k w r ?sel True) ps st = Some st' \<and>
      sched_inv k w bm P n sz ps ({t} \<times> insert r A) st0 st'"
    by (simp add: jerasure_do_scheduled_operations_def)
qed

lemma dumb_schedule: "extends k m w bm {} {..<m * w} (jerasure_dumb_bitmatrix_to_schedule k m w bm)"
proof -
  have "extends k m w bm {..<i} {..<Suc i} (row_operations k w i (\<lambda>j. bm ! (i * (k * w) + j) \<noteq> 0) False)" if "i < m * w" for i
  proof -
    have "row_sel (k * w) bm i = (\<lambda>j. bm ! (i * (k * w) + j) \<noteq> 0)" by (simp add: fun_eq_iff row_sel_def)
    then show ?thesis using extends_row [of "{..<i}" m w i k bm] that by (simp add: lessThan_Suc subset_iff)
  qed
  then show ?thesis unfolding jerasure_dumb_bitmatrix_to_schedule_def by (rule extends_fold)
qed

section \<open>All stripes\<close>

lemma rows_done_stripe:
  assumes 1: "rows_done w n bm src dst (block_rows t h) x y" and 2: "rows_done w n bm src dst ({t} \<times> {..<h}) y z"
    and w: "0 < w" and src: "\<And>r c. r < h \<Longrightarrow> c < n \<Longrightarrow> src (c div w) \<noteq> dst (r div w)"
  shows "rows_done w n bm src dst (block_rows (Suc t) h) x z"
  unfolding rows_done_def
proof (intro conjI ballI allI impI)
  have blocks: "block_rows (Suc t) h = block_rows t h \<union> {t} \<times> {..<h}" by (auto simp: less_Suc_eq)
  fix tr assume tr: "tr \<in> block_rows (Suc t) h" "\<exists>c<n. row_sel n bm (snd tr) c"
  obtain t' r where t': "tr = (t', r)" by (cases tr)
  show "case_prod z (row_packet w dst tr) = row_sum w n bm src tr x"
  proof (cases "t' = t")
    case True
    have "z (dst (r div w)) (t * w + r mod w) = row_sum w n bm src (t, r) y"
      using rows_doneD(1) [OF 2, of t r] tr by (simp add: t' True)
    then show ?thesis using row_sum_unchanged [OF 1] src by (auto simp: t' True row_packet_def)
  next
    case False
    have "t * w + r' mod w \<noteq> t' * w + r mod w" for r'
      using mat_index_eq [of "r' mod w" w "r mod w" t t'] w False by simp
    then have "z (dst (r div w)) (t' * w + r mod w) = y (dst (r div w)) (t' * w + r mod w)"
      by (intro rows_doneD(2) [OF 2]) auto
    then show ?thesis using rows_doneD(1) [OF 1, of t' r] tr False by (auto simp: t' row_packet_def less_Suc_eq)
  qed
next
  have blocks: "block_rows (Suc t) h = block_rows t h \<union> {t} \<times> {..<h}" by (auto simp: less_Suc_eq)
  fix p assume "\<forall>tr\<in>block_rows (Suc t) h. (\<exists>c<n. row_sel n bm (snd tr) c) \<longrightarrow> row_packet w dst tr \<noteq> p"
  then have "case_prod z p = case_prod y p" "case_prod y p = case_prod x p"
    using 1 2 unfolding rows_done_def blocks by blast+
  then show "case_prod z p = case_prod x p" by simp
qed

lemma ceil_div_dvd:
  assumes "0 < g" "g dvd (sz :: nat)"
  shows "(sz + g - 1) div g = sz div g"
proof -
  obtain q where q: "sz = g * q" using assms(2) by (elim dvdE)
  have "(g * q + g - 1) div g = q" by (rule div_nat_eqI) (use assms(1) in simp_all)
  then show ?thesis using q assms(1) by simp
qed

lemma schedule_stripes:
  assumes ext: "extends k m w bm {} {..<m * w} ops" and c: "sched_ctx k m w ptrs P n sz ps" and ok: "packets_ok n sz ps st"
  shows "\<exists>st'. schedule_stripes ptrs w ops sz ps st = Some st' \<and>
    sched_inv k w bm P n sz ps (block_rows (sz div (ps * w)) (m * w)) st st'"
proof -
  let ?T = "sz div (ps * w)" and ?n = "k * w" and ?dst = "\<lambda>i. P (k + i)"
  have pw: "0 < ps * w" "ps * w dvd sz" "0 < w" using c by (auto simp: sched_ctx_def)
  have T: "(sz + ps * w - 1) div (ps * w) = ?T"
    using ceil_div_dvd [OF pw(1,2)] .
  have "\<exists>st'. ofold (\<lambda>t. jerasure_do_scheduled_operations ptrs (t * (ps * w)) ops ps) [0..<?T] st = Some st' \<and>
      sched_inv k w bm P n sz ps (block_rows ?T (m * w)) st st'"
  proof (rule ofold_upt_inv [where P = "\<lambda>t st'. sched_inv k w bm P n sz ps (block_rows t (m * w)) st st'"])
    show "sched_inv k w bm P n sz ps (block_rows 0 (m * w)) st st" using ok by (simp add: sched_inv_def)
    fix t st1 assume t: "t < ?T" and inv: "sched_inv k w bm P n sz ps (block_rows t (m * w)) st st1"
    have "sched_inv k w bm P n sz ps ({t} \<times> {}) st1 st1" using inv by (simp add: sched_inv_def)
    from ext [unfolded extends_def, rule_format, OF c t this] obtain st2 where
      st2: "jerasure_do_scheduled_operations ptrs (t * (ps * w)) ops ps st1 = Some st2"
        "sched_inv k w bm P n sz ps ({t} \<times> {..<m * w}) st1 st2" by blast
    have "rows_done w ?n bm P ?dst (block_rows (Suc t) (m * w)) (track ps (dev st) b) (track ps (dev st2) b)" if "b < ps" for b
      using inv st2(2) that sched_packets(3) [OF c t]
      by (intro rows_done_stripe [OF _ _ pw(3)]) (auto simp: sched_inv_def)
    then have "sched_inv k w bm P n sz ps (block_rows (Suc t) (m * w)) st st2" using st2(2) by (simp add: sched_inv_def)
    then show "\<exists>st2. jerasure_do_scheduled_operations ptrs (t * (ps * w)) ops ps st1 = Some st2 \<and>
        sched_inv k w bm P n sz ps (block_rows (Suc t) (m * w)) st st2" using st2(1) by blast
  qed simp
  then show ?thesis using pw T ok by (cases "sz = 0") (auto simp: schedule_stripes_def)
qed

end
