(* ===== verification/Jer_Smart.thy ===== *)
theory Jer_Smart
  imports Jer_Sched_Exec
begin

text \<open>
  The scheduler that reuses finished rows ends and its schedule computes the bit matrix.
  Its doubly linked list of rows is shown to hold the list of the rows still to be done.
\<close>

section \<open>The linked list\<close>

definition dll :: "nat \<Rightarrow> smart_state \<Rightarrow> nat list \<Rightarrow> bool" where
  "dll N s L \<longleftrightarrow> distinct L \<and> set L \<subseteq> {..<N} \<and> length (flink s) = N \<and> length (blink s) = N \<and>
     top_row s = (if L = [] then - 1 else int (L ! 0)) \<and>
     (\<forall>i<length L. flink s ! (L ! i) = (if Suc i < length L then int (L ! Suc i) else - 1) \<and>
        blink s ! (L ! i) = (if i = 0 then - 1 else int (L ! (i - 1))))"

lemma nth_remove_index:
  "i < length L \<Longrightarrow> j < length L - 1 \<Longrightarrow> (take i L @ drop (Suc i) L) ! j = (if j < i then L ! j else L ! Suc j)"
  by (auto simp: nth_append)

lemma smart_unlink_fields [simp]:
  "diff (smart_unlink r s) = diff s" "from_row (smart_unlink r s) = from_row s" "bestrow (smart_unlink r s) = bestrow s"
  by (simp_all add: smart_unlink_def Let_def)

lemma dll_unlink:
  assumes "dll N s L" "i < length L"
  shows "dll N (smart_unlink (L ! i) s) (take i L @ drop (Suc i) L)"
proof -
  let ?L = "take i L @ drop (Suc i) L" and ?s = "smart_unlink (L ! i) s"
  have d: "distinct L" "set L \<subseteq> {..<N}" "length (flink s) = N" "length (blink s) = N"
    and links: "\<And>j. j < length L \<Longrightarrow> flink s ! (L ! j) = (if Suc j < length L then int (L ! Suc j) else - 1)"
      "\<And>j. j < length L \<Longrightarrow> blink s ! (L ! j) = (if j = 0 then - 1 else int (L ! (j - 1)))"
      "top_row s = int (L ! 0)"
    using assms by (auto simp: dll_def)
  have lt: "L ! j < N" if "j < length L" for j using d(2) nth_mem [OF that] by auto
  have eq: "L ! a = L ! b \<longleftrightarrow> a = b" if "a < length L" "b < length L" for a b
    using that d(1) by (simp add: nth_eq_iff_index_eq)
  have len: "length ?L = length L - 1" using assms(2) by simp
  have nth: "?L ! j = (if j < i then L ! j else L ! Suc j)" if "j < length L - 1" for j
    using nth_remove_index [OF assms(2) that] .
  have row_distance: "distinct ?L" "set ?L \<subseteq> {..<N}"
    using d set_take_subset [of i L] set_drop_subset [of "Suc i" L] set_take_disj_set_drop_if_distinct [of L i "Suc i"] by auto
  show ?thesis
  proof (cases "i = 0")
    case True
    have s: "top_row ?s = flink s ! (L ! 0)" "flink ?s = flink s"
      "blink ?s = (if Suc 0 < length L then (blink s)[L ! Suc 0 := - 1] else blink s)"
      using links(1) [of 0] links(2) [of 0] assms(2) True by (auto simp: smart_unlink_def Let_def)
    have "top_row ?s = (if ?L = [] then - 1 else int (?L ! 0))"
    proof (cases "Suc 0 < length L")
      case False
      then have "?L = []" "0 < length L" using assms(2) True by auto
      then show ?thesis using s(1) links(1) [of 0] False by simp
    next
      case long: True
      then have "?L \<noteq> []" using True by auto
      moreover have "L \<noteq> []" using long by auto
      ultimately show ?thesis using s(1) links(1) [of 0] nth [of 0] long True by simp
    qed
    moreover have "flink ?s ! (?L ! j) = (if Suc j < length ?L then int (?L ! Suc j) else - 1)" if "j < length ?L" for j
      using that links(1) [of "Suc j"] nth [of j] nth [of "Suc j"] True assms(2) s(2) by auto
    moreover have "blink ?s ! (?L ! j) = (if j = 0 then - 1 else int (?L ! (j - 1)))" if "j < length ?L" for j
    proof (cases j)
      case 0
      then show ?thesis using that nth [of 0] True s(3) d(4) lt [of "Suc 0"] len by simp
    next
      case (Suc l)
      then have "?L ! j = L ! Suc j" "?L ! l = L ! j" "Suc j < length L"
        using that nth [of j] nth [of l] True len by auto
      moreover have "blink ?s ! (L ! Suc j) = blink s ! (L ! Suc j)"
        using s(3) eq [of "Suc j" "Suc 0"] Suc calculation(3) by (cases "Suc 0 < length L") auto
      ultimately show ?thesis using links(2) [of "Suc j"] Suc by simp
    qed
    ultimately show ?thesis using row_distance d s unfolding dll_def by auto
  next
    case False
    have b: "blink s ! (L ! i) = int (L ! (i - 1))" using links(2) [OF assms(2)] False by simp
    have s: "top_row ?s = top_row s" "flink ?s = (flink s)[L ! (i - 1) := flink s ! (L ! i)]"
      "blink ?s = (if Suc i < length L then (blink s)[L ! Suc i := int (L ! (i - 1))] else blink s)"
      using links(1) [OF assms(2)] b by (auto simp: smart_unlink_def Let_def)
    have "top_row ?s = (if ?L = [] then - 1 else int (?L ! 0))"
      using s(1) links(3) nth [of 0] False assms(2) by auto
    moreover have "flink ?s ! (?L ! j) = (if Suc j < length ?L then int (?L ! Suc j) else - 1)" if "j < length ?L" for j
    proof (cases "Suc j = i")
      case True
      then show ?thesis unfolding len using that [unfolded len] s(2) links(1) [OF assms(2)] nth [of j] nth [of "Suc j"] d(3) lt [of j] assms(2) by auto
    next
      case False
      define j' where "j' = (if j < i then j else Suc j)"
      have j': "?L ! j = L ! j'" "j' < length L" "j' \<noteq> i - 1" using that [unfolded len] False nth [of j] \<open>i \<noteq> 0\<close> by (auto simp: j'_def)
      have "flink ?s ! (?L ! j) = flink s ! (L ! j')" using s(2) j' eq [OF j'(2) less_imp_diff_less [OF assms(2)], of 1] by simp
      also have "\<dots> = (if Suc j < length ?L then int (?L ! Suc j) else - 1)"
        unfolding len using links(1) [OF j'(2)] nth [of "Suc j"] that [unfolded len] False assms(2) by (auto simp: j'_def)
      finally show ?thesis .
    qed
    moreover have "blink ?s ! (?L ! j) = (if j = 0 then - 1 else int (?L ! (j - 1)))" if "j < length ?L" for j
    proof (cases "j = i")
      case True
      then show ?thesis unfolding len using that [unfolded len] s(3) nth [of j] nth [of "j - 1"] d(4) lt [of "Suc i"] False assms(2) by auto
    next
      case False
      define j' where "j' = (if j < i then j else Suc j)"
      have j': "?L ! j = L ! j'" "j' < length L" "j' \<noteq> Suc i" using that [unfolded len] False nth [of j] by (auto simp: j'_def)
      have "blink ?s ! (?L ! j) = blink s ! (L ! j')" using s(3) j' eq [OF j'(2), of "Suc i"] by (cases "Suc i < length L") simp_all
      also have "\<dots> = (if j = 0 then - 1 else int (?L ! (j - 1)))"
        using links(2) [OF j'(2)] nth [of "j - 1"] that [unfolded len] False \<open>i \<noteq> 0\<close> by (auto simp: j'_def)
      finally show ?thesis .
    qed
    ultimately show ?thesis using row_distance d s unfolding dll_def by auto
  qed
qed

section \<open>Counting ones\<close>

lemma diff_ones_Suc: "diff_ones (Suc n) f = diff_ones n f + sint (f n)"
  by (simp add: diff_ones_def)

lemma diff_ones_bound:
  assumes "\<And>j. j < n \<Longrightarrow> f j = 0 \<or> f j = 1"
  shows "0 \<le> diff_ones n f \<and> diff_ones n f \<le> int n"
  using assms
proof (induction n)
  case (Suc n)
  have "sint (f n) = 0 \<or> sint (f n) = 1" using Suc.prems [of n] by auto
  moreover have "0 \<le> diff_ones n f \<and> diff_ones n f \<le> int n" using Suc by simp
  ultimately show ?case by (auto simp: diff_ones_Suc)
qed (simp add: diff_ones_def)

lemma diff_ones_cong: "(\<And>j. j < n \<Longrightarrow> f j = g j) \<Longrightarrow> diff_ones n f = diff_ones n g"
  by (induction n) (simp_all add: diff_ones_Suc, simp add: diff_ones_def)

lemma diff_ones_zero: "(\<And>j. j < n \<Longrightarrow> f j = 0) \<Longrightarrow> diff_ones n f = 0"
  by (induction n) (simp_all add: diff_ones_Suc, simp add: diff_ones_def)

abbreviation row_weight :: "nat \<Rightarrow> u32 list \<Rightarrow> nat \<Rightarrow> int" where
  "row_weight n bm r \<equiv> diff_ones n (\<lambda>j. bm ! (r * n + j))"

abbreviation row_distance :: "nat \<Rightarrow> u32 list \<Rightarrow> nat \<Rightarrow> nat \<Rightarrow> int" where
  "row_distance n bm f r \<equiv> diff_ones n (\<lambda>j. bm ! (f * n + j) XOR bm ! (r * n + j))"

lemma bm_bit: "bits bm \<Longrightarrow> length bm = N * n \<Longrightarrow> r < N \<Longrightarrow> j < n \<Longrightarrow> bm ! (r * n + j) = 0 \<or> bm ! (r * n + j) = 1"
  using bits_nth mat_index_lt by metis

lemma cheaper_nonzero:
  assumes bm: "bits bm" "length bm = N * n" and r: "r < N" "f < N" "1 + row_distance n bm f r < row_weight n bm r"
  shows "\<exists>c<n. row_sel n bm r c" "\<exists>c<n. row_sel n bm f c"
proof -
  have xor: "bm ! (f * n + j) XOR bm ! (r * n + j) = 0 \<or> bm ! (f * n + j) XOR bm ! (r * n + j) = 1" if "j < n" for j
    using bm_bit [OF bm r(1) that] bm_bit [OF bm r(2) that] by auto
  have d: "0 \<le> row_distance n bm f r" using diff_ones_bound [of n "\<lambda>j. bm ! (f * n + j) XOR bm ! (r * n + j)"] xor by blast
  show "\<exists>c<n. row_sel n bm r c"
  proof (rule ccontr)
    assume "\<not> (\<exists>c<n. row_sel n bm r c)"
    then have "row_weight n bm r = 0" by (intro diff_ones_zero) (auto simp: row_sel_def)
    then show False using d r(3) by simp
  qed
  show "\<exists>c<n. row_sel n bm f c"
  proof (rule ccontr)
    assume "\<not> (\<exists>c<n. row_sel n bm f c)"
    then have "row_distance n bm f r = row_weight n bm r" by (intro diff_ones_cong) (auto simp: row_sel_def)
    then show False using r(3) by simp
  qed
qed

section \<open>The walk over the remaining rows\<close>

text \<open>What the walk makes of the entry of row r.\<close>

definition updated :: "nat \<Rightarrow> u32 list \<Rightarrow> nat \<Rightarrow> smart_state \<Rightarrow> smart_state \<Rightarrow> nat \<Rightarrow> bool" where
  "updated n bm row s s' r \<longleftrightarrow>
     (if 1 + row_distance n bm row r < diff s ! r
      then diff s' ! r = 1 + row_distance n bm row r \<and> from_row s' ! r = int row
      else diff s' ! r = diff s ! r \<and> from_row s' ! r = from_row s ! r)"

lemma smart_update:
  assumes "\<And>i. i < length M \<Longrightarrow> flink s ! (M ! i) = (if Suc i < length M then int (M ! Suc i) else - 1)"
    "distinct M" "set M \<subseteq> {..<N}" "length (diff s) = N" "length (from_row s) = N" "length M \<le> fuel"
  shows "\<exists>s'. smart_update n bm row fuel (if M = [] then - 1 else int (M ! 0)) best s = Some s' \<and>
    flink s' = flink s \<and> blink s' = blink s \<and> top_row s' = top_row s \<and>
    length (diff s') = N \<and> length (from_row s') = N \<and>
    (\<forall>r. r \<notin> set M \<longrightarrow> diff s' ! r = diff s ! r \<and> from_row s' ! r = from_row s ! r) \<and>
    (\<forall>r\<in>set M. updated n bm row s s' r) \<and>
    (bestrow s' \<in> set M \<or> bestrow s' = bestrow s \<and> (\<forall>r\<in>set M. best \<le> diff s' ! r))"
  using assms
proof (induction M arbitrary: fuel best s)
  case Nil
  then show ?case by (simp add: smart_update.simps)
next
  case (Cons a M)
  obtain g where fuel: "fuel = Suc g" using Cons.prems(6) by (cases fuel) auto
  let ?no = "1 + row_distance n bm row a"
  define s1 where "s1 = (if ?no < diff s ! a then s\<lparr>from_row := (from_row s)[a := int row], diff := (diff s)[a := ?no]\<rparr> else s)"
  define best' where "best' = (if diff s1 ! a < best then diff s1 ! a else best)"
  define s2 where "s2 = (if diff s1 ! a < best then s1\<lparr>bestrow := a\<rparr> else s1)"
  have a: "a < N" "a \<notin> set M" using Cons.prems by auto
  have s2: "flink s2 = flink s" "blink s2 = blink s" "top_row s2 = top_row s" "length (diff s2) = N" "length (from_row s2) = N"
    "diff s2 = diff s1" "from_row s2 = from_row s1" using Cons.prems(4,5) by (auto simp: s2_def s1_def)
  have upd: "updated n bm row s s1 a" "\<And>r. r \<noteq> a \<Longrightarrow> diff s1 ! r = diff s ! r \<and> from_row s1 ! r = from_row s ! r"
    using a(1) Cons.prems(4,5) by (auto simp: updated_def s1_def)
  have nexta: "flink s ! a = (if M = [] then - 1 else int (M ! 0))" using Cons.prems(1) [of 0] by auto
  have step: "smart_update n bm row fuel (if a # M = [] then - 1 else int ((a # M) ! 0)) best s =
      smart_update n bm row g (if M = [] then - 1 else int (M ! 0)) best' s2"
    unfolding fuel using nexta by (subst smart_update.simps) (simp add: Let_def s1_def s2_def best'_def)
  have links: "flink s2 ! (M ! i) = (if Suc i < length M then int (M ! Suc i) else - 1)" if "i < length M" for i
    using Cons.prems(1) [of "Suc i"] that s2(1) by simp
  obtain s' where s': "smart_update n bm row g (if M = [] then - 1 else int (M ! 0)) best' s2 = Some s'"
    "flink s' = flink s2" "blink s' = blink s2" "top_row s' = top_row s2" "length (diff s') = N" "length (from_row s') = N"
    "\<forall>r. r \<notin> set M \<longrightarrow> diff s' ! r = diff s2 ! r \<and> from_row s' ! r = from_row s2 ! r"
    "\<forall>r\<in>set M. updated n bm row s2 s' r"
    "bestrow s' \<in> set M \<or> bestrow s' = bestrow s2 \<and> (\<forall>r\<in>set M. best' \<le> diff s' ! r)"
    using Cons.IH [of s2 g best'] links Cons.prems fuel s2 by auto
  have "updated n bm row s s' a" using upd(1) s'(7) a(2) s2 by (simp add: updated_def)
  moreover have "updated n bm row s s' r" if "r \<in> set M" for r
  proof -
    have "r \<noteq> a" using a(2) that by auto
    then show ?thesis using s'(8) that upd(2) [of r] s2 by (auto simp: updated_def)
  qed
  moreover have "bestrow s' \<in> set (a # M) \<or> bestrow s' = bestrow s \<and> (\<forall>r\<in>set (a # M). best \<le> diff s' ! r)"
  proof (cases "diff s1 ! a < best")
    case True
    then show ?thesis using s'(9) by (auto simp: s2_def)
  next
    case False
    have "bestrow s1 = bestrow s" by (simp add: s1_def)
    then show ?thesis using s'(9) False s'(7) a(2) s2 by (auto simp: s2_def best'_def)
  qed
  ultimately show ?case unfolding step using s' s2 upd(2) a(2) by auto
qed

section \<open>The scheduler\<close>

definition smart_ok :: "nat \<Rightarrow> nat \<Rightarrow> u32 list \<Rightarrow> smart_state \<Rightarrow> nat list \<Rightarrow> nat set \<Rightarrow> bool" where
  "smart_ok N n bm s L A \<longleftrightarrow> dll N s L \<and> length (diff s) = N \<and> length (from_row s) = N \<and> set L \<union> A = {..<N} \<and>
     set L \<inter> A = {} \<and> (L \<noteq> [] \<longrightarrow> bestrow s \<in> set L) \<and>
     (\<forall>r\<in>set L. diff s ! r \<le> row_weight n bm r \<and>
        (from_row s ! r = - 1 \<or> (\<exists>f\<in>A. from_row s ! r = int f \<and> 1 + row_distance n bm f r < row_weight n bm r)))"

lemma smart_round:
  assumes ok: "smart_ok N n bm s L A" and bm: "bits bm" "length bm = N * n" and L: "L \<noteq> []"
  defines "row \<equiv> bestrow s"
  shows "\<exists>s' L'. smart_update n bm row N (top_row (smart_unlink row s)) (int n + 1) (smart_unlink row s) = Some s' \<and>
    smart_ok N n bm s' L' (insert row A) \<and> length L = Suc (length L') \<and> row \<in> set L \<and> set L' = set L - {row}"
proof -
  have d: "dll N s L" "length (diff s) = N" "length (from_row s) = N" "set L \<union> A = {..<N}" "set L \<inter> A = {}" "row \<in> set L"
    and rows: "\<And>r. r \<in> set L \<Longrightarrow> diff s ! r \<le> row_weight n bm r \<and>
        (from_row s ! r = - 1 \<or> (\<exists>f\<in>A. from_row s ! r = int f \<and> 1 + row_distance n bm f r < row_weight n bm r))"
    using ok L unfolding smart_ok_def row_def by blast+
  obtain i where i: "i < length L" "L ! i = row" using d(6) by (metis in_set_conv_nth)
  define L' where "L' = take i L @ drop (Suc i) L"
  define s1 where "s1 = smart_unlink row s"
  have dl: "dll N s1 L'" using dll_unlink [OF d(1) i(1)] i(2) by (simp add: s1_def L'_def)
  have L': "length L = Suc (length L')" "distinct L'" "set L' \<subseteq> {..<N}" using i(1) dl by (auto simp: L'_def dll_def)
  have setL: "set L' = set L - {row}"
  proof -
    obtain xs ys where "L = xs @ row # ys" "L' = xs @ ys"
      using that [of "take i L" "drop (Suc i) L"] id_take_nth_drop [OF i(1)] i(2) unfolding L'_def by metis
    then show ?thesis using d(1) by (auto simp: dll_def)
  qed
  have "length L' \<le> N" using card_mono [OF _ L'(3)] distinct_card [OF L'(2)] by simp
  then obtain s' where s': "smart_update n bm row N (if L' = [] then - 1 else int (L' ! 0)) (int n + 1) s1 = Some s'"
    "flink s' = flink s1" "blink s' = blink s1" "top_row s' = top_row s1" "length (diff s') = N" "length (from_row s') = N"
    "\<forall>r\<in>set L'. updated n bm row s1 s' r"
    "bestrow s' \<in> set L' \<or> bestrow s' = bestrow s1 \<and> (\<forall>r\<in>set L'. int n + 1 \<le> diff s' ! r)"
    using smart_update [of L' s1 N N n bm row "int n + 1"] dl d(2,3) L' by (auto simp: dll_def s1_def)
  have top: "top_row s1 = (if L' = [] then - 1 else int (L' ! 0))" using dl by (simp add: dll_def)
  have new: "diff s' ! r \<le> row_weight n bm r \<and> (from_row s' ! r = - 1 \<or>
      (\<exists>f\<in>insert row A. from_row s' ! r = int f \<and> 1 + row_distance n bm f r < row_weight n bm r))" if r: "r \<in> set L'" for r
    using s'(7) r rows [of r] setL unfolding updated_def s1_def by (fastforce split: if_splits)
  have "bestrow s' \<in> set L'" if "L' \<noteq> []"
  proof -
    have r: "hd L' \<in> set L'" using that by simp
    have "row_weight n bm (hd L') \<le> int n" using diff_ones_bound [of n "\<lambda>j. bm ! (hd L' * n + j)"] bm_bit [OF bm] r L'(3) by blast
    then have "\<not> int n + 1 \<le> diff s' ! hd L'" using new [OF r] by simp
    then show ?thesis using s'(8) r by blast
  qed
  moreover have "dll N s' L'" using dl s'(2-4) by (simp add: dll_def)
  moreover have "set L' \<union> insert row A = {..<N}" "set L' \<inter> insert row A = {}" using setL d(4-6) by auto
  ultimately have "smart_ok N n bm s' L' (insert row A)" using s'(5,6) new unfolding smart_ok_def by blast
  then show ?thesis using s'(1) top L'(1) d(6) setL by (auto simp: s1_def)
qed

text \<open>Each row takes at most one operation for each of its ones.\<close>

lemma length_row_operations: "length (row_operations k w row sel b) = length (filter sel [0..<k * w])"
proof -
  have "length (snd (fold (\<lambda>j (b, operations).
        if sel j then (True, operations @ [mk_op (j div w) (j mod w) (k + row div w) (row mod w) b])
        else (b, operations)) xs (b, ops))) = length ops + length (filter sel xs)" for xs ops
    by (induction xs arbitrary: b ops) auto
  then show ?thesis by (simp add: row_operations_def)
qed

lemma diff_ones_count: "(\<And>j. j < n \<Longrightarrow> f j = 0 \<or> f j = 1) \<Longrightarrow> diff_ones n f = int (length (filter (\<lambda>j. f j \<noteq> 0) [0..<n]))"
proof (induction n)
  case (Suc n)
  have "sint (f n) = (if f n \<noteq> 0 then 1 else 0)" using Suc.prems [of n] by auto
  then show ?case using Suc by (simp add: diff_ones_Suc)
qed (simp add: diff_ones_def)

lemma length_smart_operations:
  assumes bm: "bits bm" "length bm = m * w * (k * w)" and r: "row < m * w"
    and from': "fr = - 1 \<or> (\<exists>f<m * w. fr = int f \<and> 1 + row_distance (k * w) bm f row < row_weight (k * w) bm row)"
  shows "int (length (smart_operations k w bm row fr)) \<le> row_weight (k * w) bm row"
proof (cases "fr = - 1")
  case True
  then show ?thesis
    using bm_bit [OF bm r] by (simp add: smart_operations_def length_row_operations diff_ones_count)
next
  case False
  then obtain f where f: "f < m * w" "fr = int f" "1 + row_distance (k * w) bm f row < row_weight (k * w) bm row" using from' by blast
  have "bm ! (f * (k * w) + j) XOR bm ! (row * (k * w) + j) = 0 \<or> bm ! (f * (k * w) + j) XOR bm ! (row * (k * w) + j) = 1"
    if "j < k * w" for j using bm_bit [OF bm r that] bm_bit [OF bm f(1) that] by auto
  from diff_ones_count [of "k * w" "\<lambda>j. bm ! (f * (k * w) + j) XOR bm ! (row * (k * w) + j)", OF this] show ?thesis
    using f(2,3) by (simp add: smart_operations_def length_row_operations xor.commute)
qed

lemma smart_loop:
  assumes "smart_ok (m * w) (k * w) bm s L A" "length L \<le> fuel" and bm: "bits bm" "length bm = m * w * (k * w)"
  shows "\<exists>ops. smart_loop k w (m * w) bm fuel s = Some ops \<and> extends k m w bm A {..<m * w} ops \<and>
    int (length ops) \<le> (\<Sum>r\<in>set L. row_weight (k * w) bm r)"
  using assms(1,2)
proof (induction fuel arbitrary: s L A)
  case 0
  then have "A = {..<m * w}" "top_row s = - 1" "L = []" by (auto simp: smart_ok_def dll_def)
  then show ?case using extends_Nil by (simp add: smart_loop.simps)
next
  case (Suc fuel)
  show ?case
  proof (cases "L = []")
    case True
    then have "A = {..<m * w}" "top_row s = - 1" using Suc.prems by (auto simp: smart_ok_def dll_def)
    then show ?thesis using True extends_Nil by (simp add: smart_loop.simps)
  next
    case False
    define row where "row = bestrow s"
    obtain s' L' where s': "smart_update (k * w) bm row (m * w) (top_row (smart_unlink row s)) (int (k * w) + 1) (smart_unlink row s) = Some s'"
      "smart_ok (m * w) (k * w) bm s' L' (insert row A)" "length L = Suc (length L')" "row \<in> set L" "set L' = set L - {row}"
      using smart_round [OF Suc.prems(1) bm False] by (auto simp: row_def)
    obtain ops where ops: "smart_loop k w (m * w) bm fuel s' = Some ops" "extends k m w bm (insert row A) {..<m * w} ops"
      "int (length ops) \<le> (\<Sum>r\<in>set L'. row_weight (k * w) bm r)"
      using Suc.IH [OF s'(2)] s'(3) Suc.prems(2) by auto
    have A: "A \<subseteq> {..<m * w}" "row < m * w" "row \<notin> A" using Suc.prems(1) s'(4) by (auto simp: smart_ok_def)
    have from': "from_row s ! row = - 1 \<or> (\<exists>f\<in>A. from_row s ! row = int f \<and> 1 + row_distance (k * w) bm f row < row_weight (k * w) bm row)"
      using Suc.prems(1) s'(4) by (simp add: smart_ok_def)
    have "extends k m w bm A (insert row A) (smart_operations k w bm row (from_row s ! row))"
    proof (cases "from_row s ! row = - 1")
      case True
      have "row_sel (k * w) bm row = (\<lambda>j. bm ! (row * (k * w) + j) \<noteq> 0)" by (simp add: fun_eq_iff row_sel_def)
      then show ?thesis using extends_row [OF A, of k bm] True by (simp add: smart_operations_def)
    next
      case False
      then obtain f where f: "f \<in> A" "from_row s ! row = int f" "1 + row_distance (k * w) bm f row < row_weight (k * w) bm row"
        using from' by blast
      have nz: "\<exists>c<k * w. row_sel (k * w) bm row c" "\<exists>c<k * w. row_sel (k * w) bm f c"
        using cheaper_nonzero [OF bm A(2) _ f(3)] f(1) A(1) by auto
      show ?thesis using extends_from_row [OF A f(1) bm nz] f(2) by (simp add: smart_operations_def)
    qed
    then have "extends k m w bm A {..<m * w} (smart_operations k w bm row (from_row s ! row) @ ops)"
      using ops(2) by (rule extends_append)
    moreover have "int (length (smart_operations k w bm row (from_row s ! row) @ ops)) \<le> (\<Sum>r\<in>set L. row_weight (k * w) bm r)"
    proof -
      have "int (length (smart_operations k w bm row (from_row s ! row))) \<le> row_weight (k * w) bm row"
        using length_smart_operations [OF bm A(2)] from' A(1) by auto
      moreover have "(\<Sum>r\<in>set L. row_weight (k * w) bm r) = row_weight (k * w) bm row + (\<Sum>r\<in>set L'. row_weight (k * w) bm r)"
        using s'(4,5) by (simp add: sum.remove)
      ultimately show ?thesis using ops(3) by simp
    qed
    moreover have "top_row s \<noteq> - 1" using Suc.prems(1) False by (simp add: smart_ok_def dll_def)
    ultimately show ?thesis using s'(1) ops(1) by (subst smart_loop.simps) (simp add: Let_def row_def)
  qed
qed

lemma smart_start:
  assumes bm: "bits bm" "length bm = N * n" "0 < N"
  shows "smart_ok N n bm (smart_start n N bm) [0..<N] {}"
proof -
  let ?f = "\<lambda>i (df, bestdiff, best). (let no = row_weight n bm i
         in if no < bestdiff then (df @ [no], no, i) else (df @ [no], bestdiff, best))"
  let ?P = "\<lambda>l (df, bestdiff, best). df = map (row_weight n bm) [0..<l] \<and> (if l = 0 then bestdiff = int n + 1 else best < l)"
  have "?P N (fold ?f [0..<N] ([], int n + 1, 0))"
  proof (rule fold_upt_inv [where P = ?P])
    fix l and s :: "int list \<times> int \<times> nat" assume l: "l < N" and P: "?P l s"
    have "row_weight n bm l \<le> int n" using diff_ones_bound [of n "\<lambda>j. bm ! (l * n + j)"] bm_bit [OF bm(1,2) l] by blast
    then show "?P (Suc l) (?f l s)" using P by (cases s) (auto simp: Let_def split: if_splits)
  qed simp_all
  then obtain bestdiff best where f: "fold ?f [0..<N] ([], int n + 1, 0) = (map (row_weight n bm) [0..<N], bestdiff, best)" "best < N"
    using bm(3) by (auto split: prod.splits)
  have s: "smart_start n N bm = \<lparr>diff = map (row_weight n bm) [0..<N], from_row = replicate N (- 1),
          flink = (map (\<lambda>i. int i + 1) [0..<N])[N - 1 := - 1], blink = map (\<lambda>i. int i - 1) [0..<N],
          top_row = 0, bestrow = best\<rparr>"
    unfolding smart_start_def f(1) by simp
  have "dll N (smart_start n N bm) [0..<N]"
    unfolding s dll_def using bm(3) by (auto simp: nth_list_update)
  then show ?thesis unfolding smart_ok_def using f(2) by (auto simp: s)
qed

lemma smart_schedule:
  assumes "bits bm" "length bm = m * w * (k * w)" "0 < m * w"
  shows "\<exists>ops. jerasure_smart_bitmatrix_to_schedule k m w bm = Some ops \<and>
    extends k m w bm {} {..<m * w} ops \<and> int (length ops) \<le> (\<Sum>r<m * w. row_weight (k * w) bm r)"
  using smart_loop [OF smart_start [OF assms] _ assms(1,2)] assms(3)
  by (simp add: jerasure_smart_bitmatrix_to_schedule_def atLeast0LessThan)

lemma length_dumb_schedule:
  assumes "bits bm" "length bm = m * w * (k * w)"
  shows "int (length (jerasure_dumb_bitmatrix_to_schedule k m w bm)) = (\<Sum>r<m * w. row_weight (k * w) bm r)"
    and "length (jerasure_dumb_bitmatrix_to_schedule k m w bm) \<le> k * m * w * w"
proof -
  let ?f = "\<lambda>i operations. operations @ row_operations k w i (\<lambda>j. bm ! (i * (k * w) + j) \<noteq> 0) False"
  have row: "int (length (row_operations k w r (\<lambda>j. bm ! (r * (k * w) + j) \<noteq> 0) False)) = row_weight (k * w) bm r"
    if "r < m * w" for r
    using diff_ones_count [OF bm_bit [OF assms that]] by (simp add: length_row_operations)
  have "N \<le> m * w \<Longrightarrow> int (length (fold ?f [0..<N] [])) = (\<Sum>r<N. row_weight (k * w) bm r)" for N
    by (induction N) (simp_all add: row)
  then show eq: "int (length (jerasure_dumb_bitmatrix_to_schedule k m w bm)) = (\<Sum>r<m * w. row_weight (k * w) bm r)"
    by (simp add: jerasure_dumb_bitmatrix_to_schedule_def)
  have "(\<Sum>r<m * w. row_weight (k * w) bm r) \<le> (\<Sum>r<m * w. int (k * w))"
  proof (rule sum_mono)
    fix r assume "r \<in> {..<m * w}"
    then have "r < m * w" by simp
    from diff_ones_bound [of "k * w" "\<lambda>j. bm ! (r * (k * w) + j)", OF bm_bit [OF assms this]] show "row_weight (k * w) bm r \<le> int (k * w)" by blast
  qed
  then have "int (length (jerasure_dumb_bitmatrix_to_schedule k m w bm)) \<le> int (k * m * w * w)"
    unfolding eq by (simp add: mult_ac)
  then show "length (jerasure_dumb_bitmatrix_to_schedule k m w bm) \<le> k * m * w * w" by linarith
qed

end
