(* ===== verification/Jer_Sched_Ids.thy ===== *)
theory Jer_Sched_Ids
  imports Jer_Smart
begin

text \<open>
  The pointers of a decoding schedule: a lost data device is replaced by a surviving coding
  device, and the lost devices follow as destinations, in the order of their numbers.
\<close>

section \<open>Counting the failed devices\<close>

definition lost_coding :: "nat \<Rightarrow> nat \<Rightarrow> u32 list \<Rightarrow> nat" where
  "lost_coding k l erased = card {i. k \<le> i \<and> i < k + l \<and> erased ! i \<noteq> 0}"

lemma lost_coding_0 [simp]: "lost_coding k 0 erased = 0"
  by (simp add: lost_coding_def)

lemma lost_coding_Suc: "lost_coding k (Suc l) erased = lost_coding k l erased + (if erased ! (k + l) \<noteq> 0 then 1 else 0)"
proof -
  have "{i. k \<le> i \<and> i < k + Suc l \<and> erased ! i \<noteq> 0} =
      (if erased ! (k + l) \<noteq> 0 then insert (k + l) {i. k \<le> i \<and> i < k + l \<and> erased ! i \<noteq> 0}
       else {i. k \<le> i \<and> i < k + l \<and> erased ! i \<noteq> 0})"
    by (auto simp: less_Suc_eq)
  then show ?thesis by (simp add: lost_coding_def)
qed

lemma count_failed:
  assumes "\<forall>e\<in>set xs. e \<noteq> - 1"
  shows "count_failed k (xs @ - 1 # ys) (a, b) =
    Some (a + length (filter (\<lambda>e. sint e < int k) xs), b + length (filter (\<lambda>e. \<not> sint e < int k) xs))"
  using assms by (induction xs arbitrary: a b) auto

lemma sint_small: "unat (e :: u32) < 2 ^ 31 \<Longrightarrow> sint e = int (unat e)"
proof -
  assume "unat e < 2 ^ 31"
  then have "uint e < 2 ^ 31" by (metis of_nat_less_iff of_nat_numeral of_nat_power uint_nat)
  moreover have "- (2 ^ 31) \<le> uint e" by (rule order_trans [of _ 0]) simp_all
  ultimately have "signed_take_bit 31 (uint e) = uint e" by (intro signed_take_bit_int_eq_self)
  then show ?thesis by (simp add: sint_uint)
qed

lemma count_failed_flags:
  assumes "\<forall>e\<in>set xs. e \<noteq> - 1 \<and> unat e < k + m" "distinct xs" "k + m \<le> 2 ^ 31"
  shows "count_failed k (xs @ - 1 # ys) (0, 0) =
    Some (lost k (erased_flags (k + m) xs), lost_coding k m (erased_flags (k + m) xs))"
proof -
  have s: "sint e < int k \<longleftrightarrow> unat e < k" if "e \<in> set xs" for e
  proof -
    have "unat e < k + m" using assms(1) that by blast
    then show ?thesis using sint_small [of e] assms(3) by linarith
  qed
  have flag: "erased_flags (k + m) xs ! i \<noteq> 0 \<longleftrightarrow> i \<in> unat ` set xs" if "i < k + m" for i
    using that by simp
  have inj: "inj_on unat (set (filter P xs))" for P :: "u32 \<Rightarrow> bool" by (simp add: inj_on_def word_unat_eq_iff)
  have "length (filter (\<lambda>e. sint e < int k) xs) = card (unat ` set (filter (\<lambda>e. sint e < int k) xs))"
    using distinct_card [OF distinct_filter [OF assms(2)]] card_image [OF inj] by metis
  also have "unat ` set (filter (\<lambda>e. sint e < int k) xs) = {i. i < k \<and> erased_flags (k + m) xs ! i \<noteq> 0}"
  proof -
    have "{i. i < k \<and> erased_flags (k + m) xs ! i \<noteq> 0} = {i. i < k \<and> i \<in> unat ` set xs}" using flag by auto
    then show ?thesis using s by auto
  qed
  finally have d: "length (filter (\<lambda>e. sint e < int k) xs) = lost k (erased_flags (k + m) xs)" by (simp add: lost_def)
  have "length (filter (\<lambda>e. \<not> sint e < int k) xs) = card (unat ` set (filter (\<lambda>e. \<not> sint e < int k) xs))"
    using distinct_card [OF distinct_filter [OF assms(2)]] card_image [OF inj] by metis
  also have "unat ` set (filter (\<lambda>e. \<not> sint e < int k) xs) = {i. k \<le> i \<and> i < k + m \<and> erased_flags (k + m) xs ! i \<noteq> 0}"
  proof -
    have "{i. k \<le> i \<and> i < k + m \<and> erased_flags (k + m) xs ! i \<noteq> 0} = {i. k \<le> i \<and> i \<in> unat ` set xs}"
      using flag assms(1) by auto
    then show ?thesis using s by auto
  qed
  finally show ?thesis using d count_failed [of xs k ys 0 0] assms(1) by (simp add: lost_coding_def)
qed

section \<open>Pointers and row numbers\<close>

text \<open>The two functions fill the same array.\<close>

lemma ptrs_ids_data:
  "ofold (ptrs_data_step k m erased) is (R, j, x) =
   map_option (\<lambda>(R, I, j, x). (R, j, x)) (ofold (ids_data_step k m erased) is (R, I, j, x))"
proof (induction "is" arbitrary: R I j x)
  case (Cons i "is")
  have step: "ptrs_data_step k m erased i (R, j, x) =
      map_option (\<lambda>(R, I, j, x). (R, j, x)) (ids_data_step k m erased i (R, I, j, x))"
    by (cases "find (\<lambda>j. erased ! j = 0) [j..<k + m]") (simp_all add: ptrs_data_step_def ids_data_step_def)
  show ?case
  proof (cases "ids_data_step k m erased i (R, I, j, x)")
    case (Some s)
    then show ?thesis using step Cons.IH by (cases s) simp
  qed (use step in simp)
qed simp

lemma ptrs_ids_coding:
  "fold (\<lambda>i (ptrs, x). if erased ! i \<noteq> 0 then (ptrs(x \<mapsto> i), x + 1) else (ptrs, x)) is (R, x) =
   (case fold (\<lambda>i (row_ids, ind_to_row, x).
       if erased ! i \<noteq> 0 then (row_ids(x \<mapsto> i), ind_to_row(i \<mapsto> x), x + 1) else (row_ids, ind_to_row, x)) is (R, I, x) of
      (R, I, x) \<Rightarrow> (R, x))" for erased :: "u32 list"
  by (induction "is" arbitrary: R I x) auto

lemma set_up_ptrs_ids:
  "set_up_ptrs_for_scheduled_decoding k m erasures =
   map_option (map_option fst) (set_up_ids_for_scheduled_decoding k m erasures)"
proof -
  have f: "fst (fold (\<lambda>i (ptrs, x). if erased ! i \<noteq> 0 then (ptrs(x \<mapsto> i), x + 1) else (ptrs, x)) is (R, x)) =
    fst (fold (\<lambda>i (row_ids, ind_to_row, x).
       if erased ! i \<noteq> 0 then (row_ids(x \<mapsto> i), ind_to_row(i \<mapsto> x), x + 1) else (row_ids, ind_to_row, x)) is (R, I, x))"
    for erased :: "u32 list" and "is" R I x
    using ptrs_ids_coding [of erased "is" R x I] by (simp add: case_prod_unfold)
  show ?thesis
  proof (cases "count_failed k erasures (0, 0)")
    case c: (Some c)
    show ?thesis
    proof (cases "jerasure_erasures_to_erased k m erasures")
      case e: (Some er)
      show ?thesis
      proof (cases er)
        case er: (Some erased)
        show ?thesis
        proof (cases "ofold (ids_data_step k m erased) [0..<k] (Map.empty, Map.empty, k, k)")
          case (Some s)
          obtain R I j x where s: "s = (R, I, j, x)" by (cases s)
          show ?thesis
            unfolding set_up_ptrs_for_scheduled_decoding_def set_up_ids_for_scheduled_decoding_def
              ptrs_ids_data [where I = Map.empty] c e er bind.bind_lunit option.case Some s option.map prod.case
            using f [of erased "[k..<k + m]" R x I] by (simp add: case_prod_unfold)
        qed (simp add: set_up_ptrs_for_scheduled_decoding_def set_up_ids_for_scheduled_decoding_def
              ptrs_ids_data [where I = Map.empty] c e er)
      qed (simp add: set_up_ptrs_for_scheduled_decoding_def set_up_ids_for_scheduled_decoding_def c e)
    qed (simp add: set_up_ptrs_for_scheduled_decoding_def set_up_ids_for_scheduled_decoding_def c)
  qed (simp add: set_up_ptrs_for_scheduled_decoding_def set_up_ids_for_scheduled_decoding_def)
qed

text \<open>
  What the first loop has set up when it has reached device l: j is the first coding device
  that may still be taken, x the next free destination.
\<close>

definition ids_data_inv ::
  "nat \<Rightarrow> nat \<Rightarrow> u32 list \<Rightarrow> nat \<Rightarrow> ptr_array \<times> ptr_array \<times> nat \<times> nat \<Rightarrow> bool" where
  "ids_data_inv k m erased l = (\<lambda>(R, I, j, x). x = k + lost l erased \<and> k \<le> j \<and>
     lost k erased \<le> lost l erased + card {a. j \<le> a \<and> a < k + m \<and> erased ! a = 0} \<and>
     (\<forall>i<l. if erased ! i = 0 then R i = Some i
            else \<exists>a. R i = Some a \<and> k \<le> a \<and> a < j \<and> a < k + m \<and> erased ! a = 0) \<and>
     inj_on R {..<l} \<and>
     (\<forall>d<l. erased ! d \<noteq> 0 \<longrightarrow> I d = Some (k + lost d erased) \<and> R (k + lost d erased) = Some d))"

lemma ids_data_invI:
  assumes "x = k + lost l erased" "k \<le> j"
    "lost k erased \<le> lost l erased + card {a. j \<le> a \<and> a < k + m \<and> erased ! a = 0}"
    "\<And>i. i < l \<Longrightarrow> if erased ! i = 0 then R i = Some i
       else \<exists>a. R i = Some a \<and> k \<le> a \<and> a < j \<and> a < k + m \<and> erased ! a = 0"
    "inj_on R {..<l}"
    "\<And>d. d < l \<Longrightarrow> erased ! d \<noteq> 0 \<Longrightarrow> I d = Some (k + lost d erased) \<and> R (k + lost d erased) = Some d"
  shows "ids_data_inv k m erased l (R, I, j, x)"
  using assms unfolding ids_data_inv_def prod.case by (intro conjI allI impI) blast+

lemma first_alive:
  assumes "0 < card {a. j \<le> a \<and> a < n \<and> P a}"
  shows "\<exists>a. find P [j..<n] = Some a \<and> j \<le> a \<and> a < n \<and> P a \<and>
    card {a. j \<le> a \<and> a < n \<and> P a} = Suc (card {b. Suc a \<le> b \<and> b < n \<and> P b})"
proof -
  have "{a. j \<le> a \<and> a < n \<and> P a} \<noteq> {}" using assms by (metis card.empty less_irrefl)
  then have "find P [j..<n] \<noteq> None" unfolding find_upt_None by blast
  then obtain a where a: "find P [j..<n] = Some a" by blast
  then have p: "j \<le> a" "a < n" "P a" "\<And>i. j \<le> i \<Longrightarrow> i < a \<Longrightarrow> \<not> P i" using find_upt_Some [OF a] by auto
  have "{a. j \<le> a \<and> a < n \<and> P a} = insert a {b. Suc a \<le> b \<and> b < n \<and> P b}"
    using p by (auto simp: Suc_le_eq) (metis not_less_iff_gr_or_eq)
  then show ?thesis using a p by simp
qed

lemma ids_data_step:
  assumes inv: "ids_data_inv k m erased l s" and l: "l < k"
  shows "\<exists>s'. ids_data_step k m erased l s = Some s' \<and> ids_data_inv k m erased (Suc l) s'"
proof -
  obtain R I j x where s: "s = (R, I, j, x)" by (cases s)
  have i: "x = k + lost l erased" "k \<le> j" "lost k erased \<le> lost l erased + card {a. j \<le> a \<and> a < k + m \<and> erased ! a = 0}"
      "inj_on R {..<l}"
    and ri: "\<And>i. i < l \<Longrightarrow> if erased ! i = 0 then R i = Some i
            else \<exists>a. R i = Some a \<and> k \<le> a \<and> a < j \<and> a < k + m \<and> erased ! a = 0"
    and di: "\<And>d. d < l \<Longrightarrow> erased ! d \<noteq> 0 \<Longrightarrow> I d = Some (k + lost d erased) \<and> R (k + lost d erased) = Some d"
    using inv unfolding ids_data_inv_def s prod.case by blast+
  have small: "\<exists>a. R i = Some a \<and> (a = i \<or> k \<le> a \<and> a < j)" if "i < l" for i using ri [OF that] by (auto split: if_splits)
  show ?thesis
  proof (cases "erased ! l = 0")
    case True
    let ?R = "R(l \<mapsto> l)" and ?I = "I(l \<mapsto> l)"
    have "R i \<noteq> Some l" if "i < l" for i using small [OF that] that l by auto
    then have "Some l \<notin> R ` {..<l}" by (metis imageE lessThan_iff)
    moreover have "inj_on ?R {..<l} = inj_on R {..<l}" by (rule inj_on_cong) auto
    ultimately have "inj_on ?R {..<Suc l}"
      unfolding lessThan_Suc inj_on_insert using i(4) by auto
    moreover have "?I d = Some (k + lost d erased) \<and> ?R (k + lost d erased) = Some d" if "d < Suc l" "erased ! d \<noteq> 0" for d
      using di [of d] that True l by (auto simp: less_Suc_eq)
    moreover have "if erased ! i = 0 then ?R i = Some i else \<exists>a. ?R i = Some a \<and> k \<le> a \<and> a < j \<and> a < k + m \<and> erased ! a = 0"
      if "i < Suc l" for i using ri [of i] that True by (cases "i = l") auto
    moreover have "x = k + lost (Suc l) erased" "lost k erased \<le> lost (Suc l) erased + card {b. j \<le> b \<and> b < k + m \<and> erased ! b = 0}"
      using True i(1-3) by (simp_all add: lost_Suc)
    ultimately have "ids_data_inv k m erased (Suc l) (?R, ?I, j, x)"
      using i(2) by (intro ids_data_invI) blast+
    then show ?thesis using True by (simp add: ids_data_step_def s)
  next
    case False
    have lt: "lost l erased < lost k erased" using lost_less [OF l False] .
    then obtain a where a: "find (\<lambda>j. erased ! j = 0) [j..<k + m] = Some a" "j \<le> a" "a < k + m" "erased ! a = 0"
      and card: "card {a. j \<le> a \<and> a < k + m \<and> erased ! a = 0} = Suc (card {b. Suc a \<le> b \<and> b < k + m \<and> erased ! b = 0})"
      using first_alive [of j "k + m" "\<lambda>j. erased ! j = 0"] i(3) by auto
    let ?R = "R(l \<mapsto> a, x \<mapsto> l)" and ?I = "I(a \<mapsto> l, l \<mapsto> x)"
    have xl: "x \<noteq> l" "k \<le> x" using i(1) l by auto
    have Ri: "?R i = R i" if "i < l" for i using that xl l by simp
    have "R i \<noteq> Some a" if "i < l" for i using small [OF that] that a(2) i(2) l by auto
    then have "Some a \<notin> ?R ` {..<l}" using Ri by (metis imageE lessThan_iff)
    moreover have "?R l = Some a" using xl by simp
    moreover have "inj_on ?R {..<l} = inj_on R {..<l}" by (rule inj_on_cong) (use Ri in auto)
    ultimately have "inj_on ?R {..<Suc l}"
      unfolding lessThan_Suc inj_on_insert using i(4) by simp
    moreover have "?I d = Some (k + lost d erased) \<and> ?R (k + lost d erased) = Some d" if d: "d < Suc l" "erased ! d \<noteq> 0" for d
    proof (cases "d = l")
      case True
      then show ?thesis using i(1) a(2) i(2) l by simp
    next
      case False
      then have "d < l" "lost d erased < lost l erased" using d lost_less [of d l erased] by auto
      then show ?thesis using di [of d] d(2) i(1) l a(2) i(2) by auto
    qed
    moreover have "if erased ! i = 0 then ?R i = Some i else \<exists>b. ?R i = Some b \<and> k \<le> b \<and> b < a + 1 \<and> b < k + m \<and> erased ! b = 0"
      if il: "i < Suc l" for i
    proof (cases "i = l")
      case True
      then show ?thesis using False a i(2) xl by auto
    next
      case False
      then have "i < l" using il by simp
      then show ?thesis using ri [of i] Ri [of i] a(2) by (auto split: if_splits)
    qed
    moreover have "x + 1 = k + lost (Suc l) erased" "k \<le> a + 1"
      "lost k erased \<le> lost (Suc l) erased + card {b. a + 1 \<le> b \<and> b < k + m \<and> erased ! b = 0}"
      using i(1-3) False card a(2) by (simp_all add: lost_Suc)
    ultimately have "ids_data_inv k m erased (Suc l) (?R, ?I, a + 1, x + 1)"
      by (intro ids_data_invI) blast+
    then show ?thesis using False a(1) by (auto simp: ids_data_step_def s)
  qed
qed

text \<open>What the two loops leave: the pointers P of a schedule that restores the erased devices.\<close>

definition sched_ids ::
  "nat \<Rightarrow> nat \<Rightarrow> u32 list \<Rightarrow> ptr_array \<Rightarrow> ptr_array \<Rightarrow> bool" where
  "sched_ids k m erased R I \<longleftrightarrow>
     (\<forall>i<k. if erased ! i = 0 then R i = Some i else \<exists>a. R i = Some a \<and> k \<le> a \<and> a < k + m \<and> erased ! a = 0) \<and>
     inj_on R {..<k} \<and>
     (\<forall>d<k. erased ! d \<noteq> 0 \<longrightarrow> I d = Some (k + lost d erased) \<and> R (k + lost d erased) = Some d) \<and>
     (\<forall>d. k \<le> d \<and> d < k + m \<and> erased ! d \<noteq> 0 \<longrightarrow> R (k + lost k erased + lost_coding k (d - k) erased) = Some d)"

lemma ids_coding_loop:
  assumes inv: "ids_data_inv k m erased k (R, I, j, x)"
  shows "\<exists>R' I' x'. fold (\<lambda>i (row_ids, ind_to_row, x).
       if erased ! i \<noteq> 0 then (row_ids(x \<mapsto> i), ind_to_row(i \<mapsto> x), x + 1) else (row_ids, ind_to_row, x))
      [k..<k + m] (R, I, x) = (R', I', x') \<and> sched_ids k m erased R' I'"
proof -
  let ?f = "\<lambda>i (row_ids, ind_to_row, x).
       if erased ! i \<noteq> 0 then (row_ids(x \<mapsto> i), ind_to_row(i \<mapsto> x), x + 1) else (row_ids, ind_to_row, x)"
  let ?x = "\<lambda>l. k + lost k erased + lost_coding k (l - k) erased"
  let ?P = "\<lambda>l (R', I', x'). x' = ?x l \<and> (\<forall>i<k + lost k erased. R' i = R i) \<and> (\<forall>i<k. I' i = I i) \<and>
     (\<forall>d. k \<le> d \<and> d < l \<and> erased ! d \<noteq> 0 \<longrightarrow> R' (?x d) = Some d)"
  have "?P (k + m) (fold ?f [k..<k + m] (R, I, x))"
  proof (rule fold_upt_inv [where P = ?P])
    show "?P k (R, I, x)" using inv by (auto simp: ids_data_inv_def)
    fix l and s :: "ptr_array \<times> ptr_array \<times> nat" assume l: "k \<le> l" and P: "?P l s"
    obtain R' I' x' where s: "s = (R', I', x')" by (cases s)
    have S: "lost_coding k (Suc l - k) erased = lost_coding k (l - k) erased + (if erased ! l \<noteq> 0 then 1 else 0)"
      using lost_coding_Suc [of k "l - k" erased] l by (simp add: Suc_diff_le)
    have mono: "lost_coding k (d - k) erased < lost_coding k (l - k) erased" if "k \<le> d" "d < l" "erased ! d \<noteq> 0" for d
      unfolding lost_coding_def using that by (intro psubset_card_mono) auto
    show "?P (Suc l) (?f l s)"
    proof (cases "erased ! l = 0")
      case True
      then show ?thesis using P S l by (auto simp: s less_Suc_eq)
    next
      case False
      have "(R'(x' \<mapsto> l)) (?x d) = Some d" if d: "k \<le> d" "d < Suc l" "erased ! d \<noteq> 0" for d
      proof (cases "d = l")
        case True
        then show ?thesis using P by (simp add: s)
      next
        case False
        then show ?thesis using P mono [of d] d by (auto simp: s)
      qed
      then show ?thesis using P S False l by (auto simp: s)
    qed
  qed simp
  then obtain R' I' x' where f: "fold ?f [k..<k + m] (R, I, x) = (R', I', x')"
    and R': "\<forall>i<k + lost k erased. R' i = R i" "\<forall>i<k. I' i = I i"
      "\<forall>d. k \<le> d \<and> d < k + m \<and> erased ! d \<noteq> 0 \<longrightarrow> R' (?x d) = Some d" by auto
  have d: "inj_on R {..<k}"
    "\<And>i. i < k \<Longrightarrow> if erased ! i = 0 then R i = Some i else \<exists>a. R i = Some a \<and> k \<le> a \<and> a < j \<and> a < k + m \<and> erased ! a = 0"
    "\<And>d. d < k \<Longrightarrow> erased ! d \<noteq> 0 \<Longrightarrow> I d = Some (k + lost d erased) \<and> R (k + lost d erased) = Some d"
    using inv unfolding ids_data_inv_def prod.case by blast+
  have "inj_on R' {..<k}" using d(1) R'(1) inj_on_cong [of "{..<k}" R' R] by auto
  moreover have "if erased ! i = 0 then R' i = Some i else \<exists>a. R' i = Some a \<and> k \<le> a \<and> a < k + m \<and> erased ! a = 0" if "i < k" for i
    using d(2) [OF that] R'(1) that by (auto split: if_splits)
  moreover have "I' d = Some (k + lost d erased) \<and> R' (k + lost d erased) = Some d" if "d < k" "erased ! d \<noteq> 0" for d
    using d(3) [OF that] R'(1,2) that lost_less [OF that] by simp
  ultimately have "sched_ids k m erased R' I'" using R'(3) unfolding sched_ids_def by blast
  then show ?thesis using f by blast
qed

lemma set_up_ids:
  assumes "\<forall>e\<in>set xs. e \<noteq> - 1 \<and> unat e < k + m" "card (unat ` set xs) \<le> m"
  shows "\<exists>R I. set_up_ids_for_scheduled_decoding k m (xs @ - 1 # ys) = Some (Some (R, I)) \<and>
    sched_ids k m (erased_flags (k + m) xs) R I"
proof -
  define erased where "erased = erased_flags (k + m) xs"
  have flags: "jerasure_erasures_to_erased k m (xs @ - 1 # ys) = Some (Some erased)"
    using erasures_to_erased [OF assms(1)] assms(2) by (simp add: erased_def)
  have "k \<le> alive (k + m) erased" using alive_flags [of xs k m] assms unfolding erased_def by blast
  moreover have "{i. i < k + m \<and> erased ! i = 0} = {i. i < k \<and> erased ! i = 0} \<union> {a. k \<le> a \<and> a < k + m \<and> erased ! a = 0}" by auto
  then have "alive (k + m) erased \<le> card {i. i < k \<and> erased ! i = 0} + card {a. k \<le> a \<and> a < k + m \<and> erased ! a = 0}"
    using card_Un_le [of "{i. i < k \<and> erased ! i = 0}" "{a. k \<le> a \<and> a < k + m \<and> erased ! a = 0}"] by simp
  moreover have "card {i. i < k \<and> erased ! i = 0} + lost k erased = k"
  proof -
    have "{..<k} = {i. i < k \<and> erased ! i = 0} \<union> {i. i < k \<and> erased ! i \<noteq> 0}" by auto
    then have "k = card ({i. i < k \<and> erased ! i = 0} \<union> {i. i < k \<and> erased ! i \<noteq> 0})" using card_lessThan [of k] by simp
    also have "\<dots> = card {i. i < k \<and> erased ! i = 0} + lost k erased" unfolding lost_def by (rule card_Un_disjoint) auto
    finally show ?thesis by simp
  qed
  ultimately have "ids_data_inv k m erased 0 (Map.empty, Map.empty, k, k)"
    by (intro ids_data_invI) auto
  then obtain s where s: "ofold (ids_data_step k m erased) [0..<k] (Map.empty, Map.empty, k, k) = Some s" "ids_data_inv k m erased k s"
    using ofold_upt_inv [of 0 k "ids_data_inv k m erased" "(Map.empty, Map.empty, k, k)" "ids_data_step k m erased"] ids_data_step by auto
  obtain R I j x where sx: "s = (R, I, j, x)" by (cases s)
  obtain c where c: "count_failed k (xs @ - 1 # ys) (0, 0) = Some c" using count_failed assms(1) by blast
  show ?thesis
    using ids_coding_loop [OF s(2) [unfolded sx]] s(1)
    unfolding set_up_ids_for_scheduled_decoding_def c flags erased_def [symmetric] sx by auto
qed

end
