(* ===== verification/Jer_Sched_Decode.thy ===== *)
theory Jer_Sched_Decode
  imports Jer_Sched_Ids
begin

text \<open>
  Decoding schedules restore the erased devices: the matrix they are made from expresses
  every lost packet by the packets of the devices the pointers name.
\<close>

section \<open>The devices behind the pointers\<close>

lemma lost_surj: "e < lost l erased \<Longrightarrow> \<exists>d<l. erased ! d \<noteq> 0 \<and> lost d erased = e"
proof (induction l)
  case (Suc l)
  show ?case
  proof (cases "e < lost l erased")
    case True
    then show ?thesis using Suc.IH less_SucI by blast
  next
    case False
    then show ?thesis using Suc.prems by (auto simp: lost_Suc split: if_splits)
  qed
qed simp

lemma lost_coding_surj: "e < lost_coding k l erased \<Longrightarrow> \<exists>d<l. erased ! (k + d) \<noteq> 0 \<and> lost_coding k d erased = e"
proof (induction l)
  case (Suc l)
  show ?case
  proof (cases "e < lost_coding k l erased")
    case True
    then show ?thesis using Suc.IH less_SucI by blast
  next
    case False
    then show ?thesis using Suc.prems by (auto simp: lost_coding_Suc split: if_splits)
  qed
qed simp

lemma lost_coding_less: "i < l \<Longrightarrow> erased ! (k + i) \<noteq> 0 \<Longrightarrow> lost_coding k i erased < lost_coding k l erased"
proof -
  assume i: "i < l" "erased ! (k + i) \<noteq> 0"
  have "{d. k \<le> d \<and> d < k + Suc i \<and> erased ! d \<noteq> 0} \<subseteq> {d. k \<le> d \<and> d < k + l \<and> erased ! d \<noteq> 0}" using i(1) by auto
  then have "lost_coding k (Suc i) erased \<le> lost_coding k l erased" unfolding lost_coding_def by (intro card_mono) auto
  then show ?thesis using i(2) by (simp add: lost_coding_Suc)
qed

abbreviation lost_all :: "nat \<Rightarrow> nat \<Rightarrow> u32 list \<Rightarrow> nat" where
  "lost_all k m erased \<equiv> lost k erased + lost_coding k m erased"

text \<open>The destination of a lost device.\<close>

definition dest_index :: "nat \<Rightarrow> u32 list \<Rightarrow> nat \<Rightarrow> nat" where
  "dest_index k erased d = (if d < k then lost d erased else lost k erased + lost_coding k (d - k) erased)"

lemma dest_index:
  assumes ids: "sched_ids k m erased R I" and d: "d < k + m" "erased ! d \<noteq> 0"
  shows "R (k + dest_index k erased d) = Some d" "dest_index k erased d < lost_all k m erased"
    "dest_index k erased d < lost k erased \<longleftrightarrow> d < k"
proof -
  show "R (k + dest_index k erased d) = Some d"
    using ids d by (auto simp: sched_ids_def dest_index_def add.assoc)
  show "dest_index k erased d < lost_all k m erased" "dest_index k erased d < lost k erased \<longleftrightarrow> d < k"
    using lost_less [of d k erased] lost_coding_less [of "d - k" m erased k] d by (auto simp: dest_index_def)
qed

lemma dest_surj:
  assumes "sched_ids k m erased R I" "e < lost_all k m erased"
  shows "\<exists>d<k + m. erased ! d \<noteq> 0 \<and> dest_index k erased d = e"
proof (cases "e < lost k erased")
  case True
  then show ?thesis using lost_surj [OF True] by (auto simp: dest_index_def intro: trans_less_add1)
next
  case False
  then have "e - lost k erased < lost_coding k m erased" using assms(2) by linarith
  from lost_coding_surj [OF this] obtain d where
    "d < m" "erased ! (k + d) \<noteq> 0" "lost_coding k d erased = e - lost k erased" by blast
  then show ?thesis using False by (intro exI [of _ "k + d"]) (auto simp: dest_index_def)
qed

abbreviation ptr_dev :: "ptr_array \<Rightarrow> nat \<Rightarrow> nat" where
  "ptr_dev R i \<equiv> the (R i)"

lemma source_props:
  assumes "sched_ids k m erased R I" "i < k"
  shows "R i = Some (ptr_dev R i)" "ptr_dev R i < k + m" "erased ! ptr_dev R i = 0" "ptr_dev R i < k \<longleftrightarrow> ptr_dev R i = i"
    "ptr_dev R i = i \<longleftrightarrow> erased ! i = 0"
  using assms by (auto simp: sched_ids_def split: if_splits)

lemma dest_props:
  assumes "sched_ids k m erased R I" "e < lost_all k m erased"
  shows "R (k + e) = Some (ptr_dev R (k + e))" "ptr_dev R (k + e) < k + m" "erased ! ptr_dev R (k + e) \<noteq> 0"
    "dest_index k erased (ptr_dev R (k + e)) = e" "ptr_dev R (k + e) < k \<longleftrightarrow> e < lost k erased"
proof -
  obtain d where d: "d < k + m" "erased ! d \<noteq> 0" "dest_index k erased d = e" using dest_surj [OF assms] by blast
  note di = dest_index [OF assms(1) d(1,2), unfolded d(3)]
  show "R (k + e) = Some (ptr_dev R (k + e))" "ptr_dev R (k + e) < k + m" "erased ! ptr_dev R (k + e) \<noteq> 0"
    "dest_index k erased (ptr_dev R (k + e)) = e" "ptr_dev R (k + e) < k \<longleftrightarrow> e < lost k erased"
    using di d by auto
qed

lemma inj_ptr_dev:
  assumes ids: "sched_ids k m erased R I"
  shows "inj_on (ptr_dev R) {..<k + lost_all k m erased}"
proof (rule inj_onI)
  fix i j assume ij: "i \<in> {..<k + lost_all k m erased}" "j \<in> {..<k + lost_all k m erased}" "ptr_dev R i = ptr_dev R j"
  have src: "i' = j'" if "i' < k" "j' < k" "ptr_dev R i' = ptr_dev R j'" for i' j'
  proof -
    have "inj_on R {..<k}" using ids by (simp add: sched_ids_def)
    moreover have "R i' = R j'" using source_props(1) [OF ids that(1)] source_props(1) [OF ids that(2)] unfolding that(3) by (rule trans [OF _ sym])
    ultimately show ?thesis using that(1,2) by (simp add: inj_on_def)
  qed
  have dst: "e = e'" if "e < lost_all k m erased" "e' < lost_all k m erased" "ptr_dev R (k + e) = ptr_dev R (k + e')" for e e'
    using dest_props(4) [OF ids that(1)] dest_props(4) [OF ids that(2)] unfolding that(3) by metis
  have ne: "ptr_dev R i' \<noteq> ptr_dev R (k + e)" if "i' < k" "e < lost_all k m erased" for i' e
    using source_props(3) [OF ids that(1)] dest_props(3) [OF ids that(2)] by force
  have lt: "l - k < lost_all k m erased" if "k \<le> l" "l \<in> {..<k + lost_all k m erased}" for l
    using that by (simp add: less_diff_conv2)
  consider "i < k" "j < k" | "i < k" "k \<le> j" | "k \<le> i" "j < k" | "k \<le> i" "k \<le> j" by linarith
  then show "i = j"
  proof cases
    case 1
    then show ?thesis using src ij(3) by blast
  next
    case 2
    then show ?thesis using ne [OF _ lt [of j], of i] ij by simp
  next
    case 3
    then show ?thesis using ne [OF _ lt [of i], of j] ij by simp
  next
    case 4
    then show ?thesis using dst [OF lt [of i] lt [of j]] ij by simp
  qed
qed

section \<open>The decoding matrix of a schedule\<close>

text \<open>The rows of any k devices are regular: the code survives the loss of any m devices.\<close>

definition bit_mds :: "nat \<Rightarrow> nat \<Rightarrow> nat \<Rightarrow> u32 list \<Rightarrow> bool" where
  "bit_mds k m w bm \<longleftrightarrow>
     (\<forall>f A. inj_on f {..<k} \<and> device_rows k m w bm f A \<longrightarrow> bit_regular (k * w) (mf (k * w) A))"

text \<open>The value of row r of a matrix on the packets of the devices f i.\<close>

definition form :: "nat \<Rightarrow> nat \<Rightarrow> u32 list \<Rightarrow> (nat \<Rightarrow> nat) \<Rightarrow> u32 list \<Rightarrow> nat \<Rightarrow> (nat \<Rightarrow> u32) \<Rightarrow> u32" where
  "form k w bm f real r x = sum_sel (k * w) (row_sel (k * w) real r)
     (\<lambda>c. codeword (galois_default 8) (k * w) bm x (f (c div w) * w + c mod w))"

lemma row_sel_mf: "row_sel n m r c \<longleftrightarrow> mf n m r c \<noteq> 0"
  by (simp add: row_sel_def mf_def)

lemma form_cong: "(\<And>c. c < k * w \<Longrightarrow> mf (k * w) a r c = mf (k * w) b s c) \<Longrightarrow> form k w bm f a r x = form k w bm f b s x"
  unfolding form_def row_sel_mf by (intro xsum_cong) simp

lemma form_row_op:
  assumes "bits m" "length m = N * (k * w)" "a < N" "b < N" "r < N"
  shows "form k w bm f (row_op (k * w) (\<lambda>x y. x XOR y) a b m) r x =
    (if r = a then form k w bm f m a x XOR form k w bm f m b x else form k w bm f m r x)"
proof (cases "r = a")
  case False
  then show ?thesis using assms by (auto intro!: form_cong simp: mf_row_op [of _ N])
next
  case True
  have "form k w bm f (row_op (k * w) (\<lambda>x y. x XOR y) a b m) a x = form k w bm f m a x XOR form k w bm f m b x"
    unfolding form_def row_sel_mf xsum_xor [symmetric]
  proof (rule xsum_cong)
    fix c assume c: "c < k * w"
    have "mf (k * w) m a c = 0 \<or> mf (k * w) m a c = 1" "mf (k * w) m b c = 0 \<or> mf (k * w) m b c = 1"
      using assms(1,3,4) c bits_mf [OF assms(2)] by blast+
    then show "(if mf (k * w) (row_op (k * w) (\<lambda>x y. x XOR y) a b m) a c \<noteq> 0
         then codeword (galois_default 8) (k * w) bm x (f (c div w) * w + c mod w) else 0) =
      (if mf (k * w) m a c \<noteq> 0 then codeword (galois_default 8) (k * w) bm x (f (c div w) * w + c mod w) else 0) XOR
      (if mf (k * w) m b c \<noteq> 0 then codeword (galois_default 8) (k * w) bm x (f (c div w) * w + c mod w) else 0)"
      using mf_row_op [OF assms(2-4,3) c, of "\<lambda>x y. x XOR y"] by (auto simp del: xor_eq_0_iff)
  qed
  then show ?thesis using True by simp
qed

lemma schedule_bitrows:
  assumes ids: "sched_ids k m erased R I"
  shows "\<exists>A. schedule_bitrows k w bm R = Some A \<and> device_rows k m w bm (ptr_dev R) A"
proof -
  let ?f = "\<lambda>i t. obind (R i) (\<lambda>r. Some (if r = i then identity_block k w i i t else copy_block k w bm (r - k) i t))"
  let ?P = "\<lambda>l t. length t = k * w * (k * w) \<and> (\<forall>i<l. \<forall>j<w. \<forall>c<k * w.
    mf (k * w) t (i * w + j) c = gen_row (k * w) bm (ptr_dev R i * w + j) c)"
  have "\<exists>A. ofold ?f [0..<k] (replicate (k * k * w * w) 0) = Some A \<and> ?P k A"
  proof (rule ofold_upt_inv [where P = ?P])
    fix l t assume l: "l < k" and P: "?P l t"
    note sp = source_props [OF ids l]
    define t' where "t' = (if ptr_dev R l < k then identity_block k w l (ptr_dev R l) t else copy_block k w bm (ptr_dev R l - k) l t)"
    have "?f l t = Some t'" using sp(1,4) by (cases "R l") (auto simp: t'_def)
    moreover have "mf (k * w) t' (i * w + j) c =
        (if i = l then gen_row (k * w) bm (ptr_dev R l * w + j) c else mf (k * w) t (i * w + j) c)"
      if "i < k" "j < w" "c < k * w" for i j c
      by (rule mf_generator_block [of t k, OF _ _ _ _ t'_def]) (use P that in auto)
    moreover have "length t' = length t" by (simp add: t'_def)
    ultimately show "\<exists>t'. ?f l t = Some t' \<and> ?P (Suc l) t'" using P l by (auto simp: less_Suc_eq)
  qed (simp_all add: mult_ac)
  then show ?thesis using source_props(2) [OF ids] unfolding schedule_bitrows_def device_rows_def by blast
qed

lemma xsum_nested: "xsum k (\<lambda>i. xsum w (\<lambda>y. F (i * w + y))) = xsum (k * w) F"
proof (induction k)
  case (Suc k)
  have "Suc k * w = k * w + w" by simp
  then show ?case using Suc by (simp only: xsum.simps xsum_split)
qed simp

lemma bits_copy_block:
  assumes "bits t" "length t = B * w * (k * w)" "bits M" "length M = C * w * (k * w)" "d < C"
  shows "bits (copy_block k w M d i t)"
proof -
  have "mf (k * w) (copy_block k w M d i t) r c = 0 \<or> mf (k * w) (copy_block k w M d i t) r c = 1"
    if rc: "r < B * w" "c < k * w" for r c
  proof -
    have w: "0 < w" using rc by (cases w) auto
    have r: "r div w < B" "r mod w < w" "r = r div w * w + r mod w" using rc w by (auto simp: less_mult_imp_div_less)
    have "d * w + r mod w < C * w" using mat_index_lt [OF assms(5) r(2)] .
    then show ?thesis
      using mf_copy_block [OF assms(2) r(1,2) rc(2), of M d i] bits_mf [OF assms(2)] bits_mf [OF assms(4)] assms(1,3) rc r(3)
      by (metis (full_types))
  qed
  then show ?thesis using assms(2) by (subst bits_mf [of _ "B * w" "k * w"]) auto
qed

definition restores_rows ::
  "nat \<Rightarrow> nat \<Rightarrow> u32 list \<Rightarrow> ptr_array \<Rightarrow> nat \<Rightarrow> nat \<Rightarrow> u32 list \<Rightarrow> bool" where
  "restores_rows k w bm R B E real \<longleftrightarrow> length real = B * w * (k * w) \<and> bits real \<and>
     (\<forall>x. (\<forall>c. elem8 (x c)) \<longrightarrow> (\<forall>e<E. \<forall>j<w. form k w bm (ptr_dev R) real (e * w + j) x =
        codeword (galois_default 8) (k * w) bm x (ptr_dev R (k + e) * w + j)))"

lemma restores_rowsD:
  assumes "restores_rows k w bm R B E real"
  shows "length real = B * w * (k * w)" "bits real"
    "\<forall>c. elem8 (x c) \<Longrightarrow> e < E \<Longrightarrow> j < w \<Longrightarrow> form k w bm (ptr_dev R) real (e * w + j) x =
        codeword (galois_default 8) (k * w) bm x (ptr_dev R (k + e) * w + j)"
  using assms unfolding restores_rows_def by blast+

lemma data_bitrows:
  assumes ok: "bitmatrix_ok k m w bm" "bit_mds k m w bm" and ids: "sched_ids k m erased R I"
  defines "B \<equiv> lost_all k m erased"
  assumes real: "length real0 = B * w * (k * w)" "bits real0"
  shows "\<exists>real. data_bitrows k w bm R (lost k erased) real0 = Some real \<and> restores_rows k w bm R B (lost k erased) real"
proof (cases "lost k erased = 0")
  case True
  then show ?thesis using real by (simp add: data_bitrows_def restores_rows_def)
next
  case False
  obtain A where A: "schedule_bitrows k w bm R = Some A" "device_rows k m w bm (ptr_dev R) A"
    using schedule_bitrows [OF ids] by blast
  have "inj_on (ptr_dev R) {..<k}" by (rule inj_on_subset [OF inj_ptr_dev [OF ids]]) auto
  then have "bit_regular (k * w) (mf (k * w) A)" using ok(2) A(2) unfolding bit_mds_def by blast
  from device_rows_inverse [OF ok(1) A(2) this] obtain mat iv where
    iv: "jerasure_invert_bitmatrix A (k * w) = (0, mat, iv)" "length iv = k * w * (k * w)" "bits iv"
    and inverse: "\<forall>x. (\<forall>c. elem8 (x c)) \<longrightarrow> (\<forall>r<k * w. form k w bm (ptr_dev R) iv r x = x r)"
    unfolding form_def by blast
  let ?f = "\<lambda>i real. obind (R (k + i)) (\<lambda>r. if r < k then Some (copy_block k w iv r i real) else None)"
  have "\<exists>real. ofold ?f [0..<lost k erased] real0 = Some real \<and> restores_rows k w bm R B (lost k erased) real"
  proof (rule ofold_upt_inv [where P = "restores_rows k w bm R B"])
    show "restores_rows k w bm R B 0 real0" using real by (simp add: restores_rows_def)
    fix i real assume i: "i < lost k erased" and P: "restores_rows k w bm R B i real"
    have iB: "i < B" using i by (simp add: B_def)
    note dp = dest_props [OF ids iB [unfolded B_def]]
    have d: "R (k + i) = Some (ptr_dev R (k + i))" "ptr_dev R (k + i) < k" using dp(1,5) i by auto
    define r where "r = ptr_dev R (k + i)"
    let ?real = "copy_block k w iv r i real"
    note rD = restores_rowsD [OF P]
    have "form k w bm (ptr_dev R) ?real (e * w + j) x = codeword (galois_default 8) (k * w) bm x (ptr_dev R (k + e) * w + j)"
      if x: "\<forall>c. elem8 (x c)" and e: "e < Suc i" "j < w" for x e j
    proof (cases "e = i")
      case True
      have rj: "r * w + j < k * w" using mat_index_lt [OF d(2) e(2)] by (simp add: r_def)
      have "form k w bm (ptr_dev R) ?real (e * w + j) x = form k w bm (ptr_dev R) iv (r * w + j) x"
        by (rule form_cong) (use mf_copy_block [OF rD(1) iB e(2)] True in simp)
      also have "\<dots> = x (r * w + j)" using inverse x rj by blast
      also have "\<dots> = codeword (galois_default 8) (k * w) bm x (r * w + j)" using gal8.codeword_data x rj by simp
      finally show ?thesis using True by (simp add: r_def)
    next
      case False
      then have ei: "e < i" "e < B" using e iB by auto
      have "form k w bm (ptr_dev R) ?real (e * w + j) x = form k w bm (ptr_dev R) real (e * w + j) x"
        by (rule form_cong) (use mf_copy_block [OF rD(1) ei(2) e(2)] False in simp)
      then show ?thesis using rD(3) [OF x ei(1) e(2)] by simp
    qed
    moreover have "bits ?real" using bits_copy_block [OF rD(2,1) iv(3,2)] d(2) by (simp add: r_def)
    ultimately have "restores_rows k w bm R B (Suc i) ?real" using rD(1) unfolding restores_rows_def by simp
    moreover have "?f i real = Some ?real" by (subst d(1)) (use d(2) in \<open>simp add: r_def\<close>)
    ultimately show "\<exists>real'. ?f i real = Some real' \<and> restores_rows k w bm R B (Suc i) real'" by blast
  qed simp
  then show ?thesis using False A(1) iv(1) by (simp add: data_bitrows_def)
qed

text \<open>The columns of the lost data devices are cleared in block b.\<close>

lemma clear_block:
  assumes "length real = B * w * (k * w)" "b < B" "i < k" "b' < B" "j < w" "c < k * w"
  shows "mf (k * w) (fold (\<lambda>j real. fold (\<lambda>y real. real[(b * w + j) * (k * w) + (i * w + y) := 0]) [0..<w] real) [0..<w] real) (b' * w + j) c =
    (if b' = b \<and> c div w = i then 0 else mf (k * w) real (b' * w + j) c)"
proof -
  let ?q = "\<lambda>(j, y). (b * w + j) * (k * w) + (i * w + y)" and ?xs = "List.product [0..<w] [0..<w]"
  have w: "0 < w" using assms(5) by simp
  have lt: "(b' * w + j) * (k * w) + c < length real"
    using assms mat_index_lt [OF mat_index_lt [OF assms(4,5)] assms(6)] by simp
  have eq: "(b * w + j') * (k * w) + (i * w + y) = (b' * w + j) * (k * w) + c \<longleftrightarrow> b = b' \<and> j' = j \<and> c = i * w + y"
    if "j' < w" "y < w" for j' y
    using mat_index_eq [OF mat_index_lt [OF assms(3) that(2)] assms(6), of "b * w + j'" "b' * w + j"]
      mat_index_eq [OF that(1) assms(5), of b b'] by auto
  have "(\<exists>x\<in>set ?xs. ?q x = (b' * w + j) * (k * w) + c) \<longleftrightarrow> b' = b \<and> c div w = i"
  proof
    assume "b' = b \<and> c div w = i"
    then have "(j, c mod w) \<in> set ?xs" "?q (j, c mod w) = (b' * w + j) * (k * w) + c"
      using assms(5) w by auto
    then show "\<exists>x\<in>set ?xs. ?q x = (b' * w + j) * (k * w) + c" by blast
  next
    assume "\<exists>x\<in>set ?xs. ?q x = (b' * w + j) * (k * w) + c"
    then show "b' = b \<and> c div w = i" using eq by auto
  qed
  then show ?thesis
    unfolding mf_def fold_nested
    using nth_fold_update [of ?xs ?q "(b' * w + j) * (k * w) + c" "\<lambda>_. 0" 0 real] lt by (simp add: case_prod_unfold)
qed

lemma length_fold_fold_update:
  "length (fold (\<lambda>j real. fold (\<lambda>y real. real[p j y := v]) ys real) xs t) = length t"
  by (rule length_fold_keep) (simp add: length_fold_keep)

lemma clear_columns:
  assumes ids: "sched_ids k m erased R I" and real: "length real = B * w * (k * w)" "b < B"
  shows "\<exists>real'. clear_columns k w R b real = Some real' \<and> length real' = length real \<and>
    (\<forall>b'<B. \<forall>j<w. \<forall>c<k * w. mf (k * w) real' (b' * w + j) c =
       (if b' = b \<and> ptr_dev R (c div w) \<noteq> c div w then 0 else mf (k * w) real (b' * w + j) c))"
proof -
  let ?P = "\<lambda>l t. length t = length real \<and> (\<forall>b'<B. \<forall>j<w. \<forall>c<k * w. mf (k * w) t (b' * w + j) c =
       (if b' = b \<and> c div w < l \<and> ptr_dev R (c div w) \<noteq> c div w then 0 else mf (k * w) real (b' * w + j) c))"
  have "\<exists>real'. clear_columns k w R b real = Some real' \<and> ?P k real'"
    unfolding clear_columns_def
  proof (rule ofold_upt_inv [where P = ?P])
    fix l t assume l: "l < k" and P: "?P l t"
    let ?t = "fold (\<lambda>j real. fold (\<lambda>y real. real[(b * w + j) * (k * w) + (l * w + y) := 0]) [0..<w] real) [0..<w] t"
    let ?t' = "if ptr_dev R l \<noteq> l then ?t else t"
    have "mf (k * w) ?t' (b' * w + j) c =
       (if b' = b \<and> c div w < Suc l \<and> ptr_dev R (c div w) \<noteq> c div w then 0 else mf (k * w) real (b' * w + j) c)"
      if c: "b' < B" "j < w" "c < k * w" for b' j c
      using clear_block [of t B w k b l b' j c] P real c l by (auto simp: less_Suc_eq)
    then have "?P (Suc l) ?t'" using P by (simp add: length_fold_fold_update)
    moreover have "obind (R l) (\<lambda>r. Some (if r \<noteq> l
            then fold (\<lambda>j real. fold (\<lambda>y real. real[(b * w + j) * (k * w) + (l * w + y) := 0]) [0..<w] real) [0..<w] t
            else t)) = Some ?t'"
      by (subst source_props(1) [OF ids l]) simp
    ultimately show "\<exists>t'. obind (R l) (\<lambda>r. Some (if r \<noteq> l
            then fold (\<lambda>j real. fold (\<lambda>y real. real[(b * w + j) * (k * w) + (l * w + y) := 0]) [0..<w] real) [0..<w] t
            else t)) = Some t' \<and> ?P (Suc l) t'" by blast
  qed simp_all
  then obtain real' where r: "clear_columns k w R b real = Some real'" "?P k real'" by blast
  have "c div w < k" if "c < k * w" for c using that by (simp add: less_mult_imp_div_less)
  then show ?thesis using r by auto
qed

text \<open>Rows are added to the rows of block b, the rows outside the block stay.\<close>

lemma form_add_rows:
  fixes S :: "nat \<Rightarrow> bool"
  assumes "bits m" "length m = N * (k * w)" "a < N" "\<And>y. y < l \<Longrightarrow> g y < N \<and> g y \<noteq> a"
  defines "m' \<equiv> fold (\<lambda>y m. if S y then row_op (k * w) (\<lambda>x y. x XOR y) a (g y) m else m) [0..<l] m"
  shows "bits m' \<and> length m' = length m \<and> (\<forall>r<N. \<forall>x. form k w bm f m' r x =
    (if r = a then form k w bm f m a x XOR xsum l (\<lambda>y. if S y then form k w bm f m (g y) x else 0) else form k w bm f m r x))"
  unfolding m'_def
proof (rule fold_upt_inv [where P = "\<lambda>l m'. bits m' \<and> length m' = length m \<and> (\<forall>r<N. \<forall>x. form k w bm f m' r x =
    (if r = a then form k w bm f m a x XOR xsum l (\<lambda>y. if S y then form k w bm f m (g y) x else 0) else form k w bm f m r x))"])
  fix y t assume y: "y < l" and P: "bits t \<and> length t = length m \<and> (\<forall>r<N. \<forall>x. form k w bm f t r x =
    (if r = a then form k w bm f m a x XOR xsum y (\<lambda>y. if S y then form k w bm f m (g y) x else 0) else form k w bm f m r x))"
  have g: "g y < N" "g y \<noteq> a" using assms(4) [OF y] by auto
  have t: "bits t" "length t = N * (k * w)" using P assms(2) by auto
  let ?t = "if S y then row_op (k * w) (\<lambda>x y. x XOR y) a (g y) t else t"
  have "form k w bm f ?t r x = (if r = a then form k w bm f m a x XOR xsum (Suc y) (\<lambda>y. if S y then form k w bm f m (g y) x else 0)
      else form k w bm f m r x)" if "r < N" for r x
    using P that g assms(3) form_row_op [OF t assms(3) g(1) that, of bm f x] by (auto simp: xor.assoc)
  moreover have "bits ?t" using t bits_row_op [OF t assms(3) g(1)] by simp
  ultimately show "bits ?t \<and> length ?t = length m \<and> (\<forall>r<N. \<forall>x. form k w bm f ?t r x =
    (if r = a then form k w bm f m a x XOR xsum (Suc y) (\<lambda>y. if S y then form k w bm f m (g y) x else 0) else form k w bm f m r x))"
    using P by simp
qed (use assms in simp_all)

lemma form_add_block:
  fixes S :: "nat \<Rightarrow> nat \<Rightarrow> bool"
  assumes m: "bits m" "length m = B * w * (k * w)" and b: "b < B" and g: "\<And>y. y < w \<Longrightarrow> g y < b * w"
  defines "m' \<equiv> fold (\<lambda>j m. fold (\<lambda>y m. if S j y then row_op (k * w) (\<lambda>x y. x XOR y) (b * w + j) (g y) m else m) [0..<w] m) [0..<w] m"
  shows "bits m' \<and> length m' = length m \<and> (\<forall>r<b * w. \<forall>x. form k w bm f m' r x = form k w bm f m r x) \<and>
    (\<forall>j<w. \<forall>x. form k w bm f m' (b * w + j) x =
       form k w bm f m (b * w + j) x XOR xsum w (\<lambda>y. if S j y then form k w bm f m (g y) x else 0))"
proof -
  let ?h = "\<lambda>j m. fold (\<lambda>y m. if S j y then row_op (k * w) (\<lambda>x y. x XOR y) (b * w + j) (g y) m else m) [0..<w] m"
  let ?P = "\<lambda>l t. bits t \<and> length t = length m \<and> (\<forall>r<b * w. \<forall>x. form k w bm f t r x = form k w bm f m r x) \<and>
    (\<forall>j<w. \<forall>x. form k w bm f t (b * w + j) x = (if j < l
       then form k w bm f m (b * w + j) x XOR xsum w (\<lambda>y. if S j y then form k w bm f m (g y) x else 0)
       else form k w bm f m (b * w + j) x))"
  have "?P w m'"
    unfolding m'_def
  proof (rule fold_upt_inv [where P = ?P])
    fix l t assume l: "l < w" and P: "?P l t"
    have a: "b * w + j < B * w" if "j < w" for j using mat_index_lt [OF b that] .
    have gb: "g y < B * w \<and> g y \<noteq> b * w + l" if "y < w" for y using g [OF that] a [OF l] by simp
    have t: "bits t" "length t = B * w * (k * w)" using P m by auto
    from form_add_rows [where S = "S l" and l = w and bm = bm and f = f, OF t a [OF l] gb] have
      h: "bits (?h l t)" "length (?h l t) = length t"
        "\<And>r x. r < B * w \<Longrightarrow> form k w bm f (?h l t) r x = (if r = b * w + l
          then form k w bm f t (b * w + l) x XOR xsum w (\<lambda>y. if S l y then form k w bm f t (g y) x else 0) else form k w bm f t r x)"
      by auto
    have "form k w bm f (?h l t) r x = form k w bm f m r x" if r: "r < b * w" for r x
    proof -
      have "r < B * w" "r \<noteq> b * w + l" using r a [OF l] by auto
      then show ?thesis using h(3) P r by simp
    qed
    moreover have "xsum w (\<lambda>y. if S l y then form k w bm f t (g y) x else 0) = xsum w (\<lambda>y. if S l y then form k w bm f m (g y) x else 0)" for x
      using P g by (intro xsum_cong) simp
    ultimately show "?P (Suc l) (?h l t)" using P h(1,2) h(3) a by (auto simp: less_Suc_eq)
  qed (use m in auto)
  then show ?thesis by auto
qed

lemma fold_in_rows:
  assumes ids: "sched_ids k m erased R I" and real: "bits real" "length real = B * w * (k * w)" "b < B" "lost k erased \<le> b"
  shows "\<exists>real'. fold_in_rows k w bm R I drive b real = Some real' \<and> bits real' \<and> length real' = length real \<and>
    (\<forall>r<b * w. \<forall>x. form k w bm' f real' r x = form k w bm' f real r x) \<and>
    (\<forall>j<w. \<forall>x. form k w bm' f real' (b * w + j) x = form k w bm' f real (b * w + j) x XOR
       xsum k (\<lambda>i. if ptr_dev R i \<noteq> i then xsum w (\<lambda>y. if bm ! ((drive * w + j) * (k * w) + (i * w + y)) \<noteq> 0
         then form k w bm' f real (lost i erased * w + y) x else 0) else 0))"
proof -
  let ?S = "\<lambda>i j y. bm ! ((drive * w + j) * (k * w) + (i * w + y)) \<noteq> 0"
  let ?T = "\<lambda>i j x. if ptr_dev R i \<noteq> i then xsum w (\<lambda>y. if ?S i j y then form k w bm' f real (lost i erased * w + y) x else 0) else 0"
  let ?f = "\<lambda>i real. obind (R i) (\<lambda>r.
      if r \<noteq> i
      then obind (I i) (\<lambda>x.
        Some (fold (\<lambda>j real. fold (\<lambda>y real.
            if bm ! ((drive * w + j) * (k * w) + (i * w + y)) \<noteq> 0
            then row_op (k * w) (\<lambda>x y. x XOR y) (b * w + j) ((x - k) * w + y) real else real)
          [0..<w] real) [0..<w] real))
      else Some real)"
  let ?P = "\<lambda>l t. bits t \<and> length t = length real \<and> (\<forall>r<b * w. \<forall>x. form k w bm' f t r x = form k w bm' f real r x) \<and>
    (\<forall>j<w. \<forall>x. form k w bm' f t (b * w + j) x = form k w bm' f real (b * w + j) x XOR xsum l (\<lambda>i. ?T i j x))"
  show ?thesis
    unfolding fold_in_rows_def
  proof (rule ofold_upt_inv [where P = ?P, simplified conj_assoc])
    fix l t assume l: "l < k" and "?P l t"
    then have P: "bits t" "length t = length real" "\<And>r x. r < b * w \<Longrightarrow> form k w bm' f t r x = form k w bm' f real r x"
      "\<And>j x. j < w \<Longrightarrow> form k w bm' f t (b * w + j) x = form k w bm' f real (b * w + j) x XOR xsum l (\<lambda>i. ?T i j x)" by auto
    show "\<exists>t'. ?f l t = Some t' \<and> ?P (Suc l) t'"
    proof (cases "ptr_dev R l = l")
      case True
      then have "?f l t = Some t" by (subst source_props(1) [OF ids l]) simp
      then show ?thesis using P True by simp
    next
      case False
      then have er: "erased ! l \<noteq> 0" using source_props(5) [OF ids l] by simp
      have I: "I l = Some (k + lost l erased)" using ids l er by (simp add: sched_ids_def)
      have q: "lost l erased < b" using lost_less [OF l er] real(4) by simp
      let ?t = "fold (\<lambda>j m. fold (\<lambda>y m. if ?S l j y then row_op (k * w) (\<lambda>x y. x XOR y) (b * w + j) (lost l erased * w + y) m else m)
          [0..<w] m) [0..<w] t"
      have "?f l t = Some ?t" by (subst source_props(1) [OF ids l]) (use False I in \<open>simp cong: if_cong\<close>)
      moreover have g: "lost l erased * w + y < b * w" if "y < w" for y using mat_index_lt [OF q that] .
      note ab = form_add_block [where S = "?S l" and bm = bm' and f = f, OF P(1) P(2) [unfolded real(2)] real(3) g]
      have "form k w bm' f ?t (b * w + j) x = form k w bm' f real (b * w + j) x XOR xsum (Suc l) (\<lambda>i. ?T i j x)" if "j < w" for j x
      proof -
        have "xsum w (\<lambda>y. if ?S l j y then form k w bm' f t (lost l erased * w + y) x else 0) = ?T l j x"
          using False P(3) g by (simp cong: if_cong) (intro xsum_cong, simp)
        then show ?thesis using ab P(4) [OF that] that by (simp add: xor.assoc)
      qed
      then have "?P (Suc l) ?t" using ab P(2,3) by auto
      ultimately show ?thesis by blast
    qed
  qed (use real in auto)
qed

lemma bits_blocks:
  assumes "length t = B * w * (k * w)" "\<And>b j c. b < B \<Longrightarrow> j < w \<Longrightarrow> c < k * w \<Longrightarrow> mf (k * w) t (b * w + j) c = 0 \<or> mf (k * w) t (b * w + j) c = 1"
  shows "bits t"
proof -
  have "mf (k * w) t r c = 0 \<or> mf (k * w) t r c = 1" if "r < B * w" "c < k * w" for r c
  proof -
    have "0 < w" using that by (cases w) auto
    then have "r div w < B" "r mod w < w" using that by (simp_all add: less_mult_imp_div_less)
    from assms(2) [OF this that(2)] show ?thesis by simp
  qed
  then show ?thesis using assms(1) by (subst bits_mf [of _ "B * w" "k * w"]) auto
qed

text \<open>The rows of a lost coding device, on data packets and on the packets that replace lost ones.\<close>

lemma coding_form:
  assumes ok: "bitmatrix_ok k m w bm" and x: "\<forall>c. elem8 (x c)" and d: "k \<le> d" "d < k + m" and j: "j < w"
    and real: "\<And>c. c < k * w \<Longrightarrow> mf (k * w) real r c = (if f (c div w) \<noteq> c div w then 0 else mf (k * w) bm ((d - k) * w + j) c)"
    and lostf: "\<And>i y. i < k \<Longrightarrow> y < w \<Longrightarrow> f i \<noteq> i \<Longrightarrow> v i y = x (i * w + y)"
  shows "form k w bm f real r x XOR xsum k (\<lambda>i. if f i \<noteq> i then xsum w (\<lambda>y.
      if bm ! (((d - k) * w + j) * (k * w) + (i * w + y)) \<noteq> 0 then v i y else 0) else 0) =
    codeword (galois_default 8) (k * w) bm x (d * w + j)"
proof -
  let ?n = "k * w"
  let ?sel = "\<lambda>c. mf ?n bm ((d - k) * w + j) c \<noteq> 0"
  have w: "0 < w" using j by simp
  have 1: "form k w bm f real r x = xsum ?n (\<lambda>c. if ?sel c \<and> f (c div w) = c div w then x c else 0)"
    unfolding form_def row_sel_mf using real x gal8.codeword_data by (intro xsum_cong) auto
  have "xsum k (\<lambda>i. if f i \<noteq> i then xsum w (\<lambda>y. if bm ! (((d - k) * w + j) * ?n + (i * w + y)) \<noteq> 0 then v i y else 0) else 0) =
      xsum k (\<lambda>i. xsum w (\<lambda>y. if ?sel (i * w + y) \<and> f ((i * w + y) div w) \<noteq> (i * w + y) div w then x (i * w + y) else 0))"
  proof (rule xsum_cong)
    fix i assume i: "i < k"
    have div: "(i * w + y) div w = i" if "y < w" for y using that by simp
    show "(if f i \<noteq> i then xsum w (\<lambda>y. if bm ! (((d - k) * w + j) * ?n + (i * w + y)) \<noteq> 0 then v i y else 0) else 0) =
        xsum w (\<lambda>y. if ?sel (i * w + y) \<and> f ((i * w + y) div w) \<noteq> (i * w + y) div w then x (i * w + y) else 0)"
    proof (cases "f i = i")
      case True
      then have "xsum w (\<lambda>y. if ?sel (i * w + y) \<and> f ((i * w + y) div w) \<noteq> (i * w + y) div w then x (i * w + y) else 0) = 0"
        by (intro xsum_zeroI) (simp add: div)
      then show ?thesis using True by simp
    next
      case False
      then show ?thesis using lostf [OF i] by (simp cong: if_cong) (intro xsum_cong, simp add: mf_def)
    qed
  qed
  also have "\<dots> = xsum ?n (\<lambda>c. if ?sel c \<and> f (c div w) \<noteq> c div w then x c else 0)"
    by (rule xsum_nested)
  finally have "form k w bm f real r x XOR xsum k (\<lambda>i. if f i \<noteq> i then xsum w (\<lambda>y.
      if bm ! (((d - k) * w + j) * ?n + (i * w + y)) \<noteq> 0 then v i y else 0) else 0) = xsum ?n (\<lambda>c. if ?sel c then x c else 0)"
    unfolding 1 by (simp only: xsum_xor [symmetric]) (intro xsum_cong, auto)
  also have "\<dots> = codeword (galois_default 8) ?n bm x (d * w + j)"
  proof -
    have le: "k * w \<le> d * w" using d(1) by (rule mult_le_mono1)
    then have "\<not> d * w + j < k * w" by linarith
    with le have "gen_row ?n bm (d * w + j) c = mf ?n bm ((d - k) * w + j) c" for c
      by (simp add: gen_row_def mf_def diff_mult_distrib)
    moreover have "d * w + j < (k + m) * w" using mat_index_lt [OF d(2) j] .
    ultimately show ?thesis using bit_codeword [OF ok, of "d * w + j" x] x by simp
  qed
  finally show ?thesis .
qed

lemma coding_bitrows:
  assumes ok: "bitmatrix_ok k m w bm" and ids: "sched_ids k m erased R I"
  defines "B \<equiv> lost_all k m erased" and "ddf \<equiv> lost k erased"
  assumes u: "u < lost_coding k m erased" and real: "restores_rows k w bm R B (ddf + u) real"
  shows "\<exists>real'. coding_bitrows k w bm R I ddf u real = Some real' \<and> restores_rows k w bm R B (ddf + Suc u) real'"
proof -
  define b where "b = ddf + u"
  have b: "b < B" "ddf \<le> b" using u by (auto simp: b_def B_def ddf_def)
  define d where "d = ptr_dev R (k + b)"
  note dp = dest_props [OF ids b(1) [unfolded B_def], folded d_def]
  have d: "k \<le> d" "d < k + m" using dp(2,5) b(2) by (auto simp: ddf_def)
  note rD = restores_rowsD [OF real]
  define r1 where "r1 = copy_block k w bm (d - k) b real"
  have r1: "length r1 = B * w * (k * w)"
    "\<And>b' j c. b' < B \<Longrightarrow> j < w \<Longrightarrow> c < k * w \<Longrightarrow> mf (k * w) r1 (b' * w + j) c =
      (if b' = b then mf (k * w) bm ((d - k) * w + j) c else mf (k * w) real (b' * w + j) c)"
    using rD(1) mf_copy_block [OF rD(1)] by (auto simp: r1_def)
  have bits1: "bits r1"
    unfolding r1_def using ok d rD(1,2) by (intro bits_copy_block [where C = m]) (auto simp: bitmatrix_ok_def)
  obtain r2 where r2: "clear_columns k w R b r1 = Some r2" "length r2 = B * w * (k * w)"
    "\<And>b' j c. b' < B \<Longrightarrow> j < w \<Longrightarrow> c < k * w \<Longrightarrow> mf (k * w) r2 (b' * w + j) c =
       (if b' = b \<and> ptr_dev R (c div w) \<noteq> c div w then 0 else mf (k * w) r1 (b' * w + j) c)"
    using clear_columns [OF ids r1(1) b(1)] r1(1) by auto
  have "mf (k * w) r2 (b' * w + j) c = 0 \<or> mf (k * w) r2 (b' * w + j) c = 1" if "b' < B" "j < w" "c < k * w" for b' j c
    using r2(3) [OF that] bits1 bits_mf [OF r1(1)] mat_index_lt [OF that(1,2)] that(3) by auto
  then have bits2: "bits r2" by (rule bits_blocks [OF r2(2)])
  let ?form = "form k w bm (ptr_dev R)"
  obtain r3 where r3: "fold_in_rows k w bm R I (d - k) b r2 = Some r3" "bits r3" "length r3 = length r2"
    "\<And>r x. r < b * w \<Longrightarrow> ?form r3 r x = ?form r2 r x"
    "\<And>j x. j < w \<Longrightarrow> ?form r3 (b * w + j) x = ?form r2 (b * w + j) x XOR
       xsum k (\<lambda>i. if ptr_dev R i \<noteq> i then xsum w (\<lambda>y. if bm ! (((d - k) * w + j) * (k * w) + (i * w + y)) \<noteq> 0
         then ?form r2 (lost i erased * w + y) x else 0) else 0)"
    using fold_in_rows [OF ids bits2 r2(2) b(1) b(2) [unfolded ddf_def], of bm "d - k" bm "ptr_dev R"] by blast
  have old: "?form r2 (e * w + j) x = codeword (galois_default 8) (k * w) bm x (ptr_dev R (k + e) * w + j)"
    if "e < b" "j < w" "\<forall>c. elem8 (x c)" for e j x
  proof -
    have "?form r2 (e * w + j) x = ?form real (e * w + j) x"
      by (rule form_cong) (use r2(3) [of e j] r1(2) [of e j] that b(1) in simp)
    then show ?thesis using rD(3) [OF that(3)] that by (simp add: b_def)
  qed
  have new: "?form r3 (b * w + j) x = codeword (galois_default 8) (k * w) bm x (d * w + j)"
    if j: "j < w" and x: "\<forall>c. elem8 (x c)" for j x
    unfolding r3(5) [OF j]
  proof (rule coding_form [OF ok x d j])
    show "mf (k * w) r2 (b * w + j) c = (if ptr_dev R (c div w) \<noteq> c div w then 0 else mf (k * w) bm ((d - k) * w + j) c)"
      if "c < k * w" for c using r2(3) [OF b(1) j that] r1(2) [OF b(1) j that] by simp
    fix i y assume i: "i < k" "y < w" "ptr_dev R i \<noteq> i"
    then have er: "erased ! i \<noteq> 0" using source_props(5) [OF ids i(1)] by simp
    have "lost i erased < b" using lost_less [OF i(1) er] b(2) by (simp add: ddf_def)
    moreover have "ptr_dev R (k + lost i erased) = i" using ids i(1) er by (simp add: sched_ids_def)
    moreover have "i * w + y < k * w" using mat_index_lt [OF i(1,2)] .
    ultimately show "?form r2 (lost i erased * w + y) x = x (i * w + y)"
      using old [of "lost i erased" y x] i(2) x gal8.codeword_data by simp
  qed
  have "?form r3 (e * w + j) x = codeword (galois_default 8) (k * w) bm x (ptr_dev R (k + e) * w + j)"
    if "\<forall>c. elem8 (x c)" "e < ddf + Suc u" "j < w" for x e j
  proof (cases "e = b")
    case True
    then show ?thesis using new that by (simp add: d_def)
  next
    case False
    then have e: "e < b" using that(2) by (simp add: b_def)
    then show ?thesis using r3(4) [OF mat_index_lt [OF e that(3)]] old that by simp
  qed
  then have "restores_rows k w bm R B (ddf + Suc u) r3" using r3(2,3) r2(2) unfolding restores_rows_def by simp
  moreover have "coding_bitrows k w bm R I ddf u real = Some r3"
  proof -
    have "R (u + ddf + k) = Some d" using dp(1) by (simp add: b_def add_ac)
    then show ?thesis using d(1) r2(1) r3(1) by (simp add: coding_bitrows_def r1_def b_def)
  qed
  ultimately show ?thesis by blast
qed

section \<open>Decoding by schedule\<close>

lemma decoding_bitmatrix:
  assumes ok: "bitmatrix_ok k m w bm" "bit_mds k m w bm" and ids: "sched_ids k m erased R I"
  defines "B \<equiv> lost_all k m erased"
  shows "\<exists>real0 real. data_bitrows k w bm R (lost k erased) (replicate (k * w * (lost_coding k m erased + lost k erased) * w) 0) = Some real0 \<and>
    ofold (coding_bitrows k w bm R I (lost k erased)) [0..<lost_coding k m erased] real0 = Some real \<and>
    restores_rows k w bm R B B real"
proof -
  have "length (replicate (k * w * (lost_coding k m erased + lost k erased) * w) (0 :: u32)) = B * w * (k * w)"
    by (simp add: B_def algebra_simps)
  moreover have "bits (replicate n 0)" for n by (auto simp: bits_def set_replicate_conv_if)
  ultimately obtain real0 where
    r0: "data_bitrows k w bm R (lost k erased) (replicate (k * w * (lost_coding k m erased + lost k erased) * w) 0) = Some real0"
      "restores_rows k w bm R B (lost k erased) real0"
    using data_bitrows [OF ok ids] unfolding B_def by blast
  have "\<exists>real. ofold (coding_bitrows k w bm R I (lost k erased)) [0..<lost_coding k m erased] real0 = Some real \<and>
      restores_rows k w bm R B (lost k erased + lost_coding k m erased) real"
    by (rule ofold_upt_inv [where P = "\<lambda>u. restores_rows k w bm R B (lost k erased + u)"])
       (use r0(2) coding_bitrows [OF ok(1) ids] in \<open>auto simp: B_def\<close>)
  then show ?thesis using r0(1) by (auto simp: B_def)
qed

end
