(* ===== verification/Jer_Sched_Correct.thy ===== *)
theory Jer_Sched_Correct
  imports Jer_Sched_Decode
begin

text \<open>
  Schedules do what the bit matrix they are made from does: encoding by a schedule equals
  encoding by the bit matrix, and decoding by a schedule, made on the spot or taken from the
  cache, restores the erased devices.
\<close>

section \<open>Encoding\<close>

lemma encode_ctx:
  assumes "0 < w" "0 < ps" "ps * w dvd sz"
  shows "sched_ctx k m w (\<lambda>i. if i < k + m then Some i else None) id (k + m) sz ps"
  using assms by (simp add: sched_ctx_def)

lemma schedule_encode_eq:
  assumes bm: "bitmatrix_ok k m w bm" and ok: "packets_ok (k + m) sz ps st" and sz: "ps * w dvd sz" "8 dvd ps"
    and ext: "extends k m w bm {} {..<m * w} ops"
  shows "\<exists>st1 st2. jerasure_schedule_encode k m w ops sz ps st = Some st1 \<and>
    jerasure_bitmatrix_encode k m w bm sz ps st = Some st2 \<and> dev st1 = dev st2"
proof -
  have ctx: "sched_ctx k m w (\<lambda>i. if i < k + m then Some i else None) id (k + m) sz ps"
    using encode_ctx bm ok sz by (simp add: bitmatrix_ok_def packets_ok_def)
  obtain st1 where st1: "jerasure_schedule_encode k m w ops sz ps st = Some st1"
    "sched_inv k w bm id (k + m) sz ps (block_rows (sz div (ps * w)) (m * w)) st st1"
    using schedule_stripes [OF ext ctx ok] unfolding jerasure_schedule_encode_def by blast
  have id: "(\<lambda>i. id (k + i)) = (+) k" by (simp add: fun_eq_iff)
  obtain st2 where st2: "jerasure_bitmatrix_encode k m w bm sz ps st = Some st2" "packets_ok (k + m) sz ps st2"
    "\<And>b. b < ps \<Longrightarrow> rows_done w (k * w) bm id ((+) k) (block_rows (sz div (ps * w)) (m * w))
       (track ps (dev st) b) (track ps (dev st2) b)"
    using bit_encode_rows [OF bm ok sz] by blast
  have ok1: "packets_ok (k + m) sz ps st1" using st1(2) by (simp add: sched_inv_def)
  have eq: "track ps (dev st1) b = track ps (dev st2) b" if "b < ps" for b
    using st1(2) that by (intro rows_done_unique [OF _ st2(3)]) (auto simp: sched_inv_def id)
  have "dev st1 ! d = dev st2 ! d" if "d < k + m" for d
    by (rule dev_eqI [OF ok1]) (use st2(2) that eq in \<open>auto simp: packets_ok_def\<close>)
  then have "dev st1 = dev st2" using ok1 st2(2) by (intro nth_equalityI) (auto simp: packets_ok_def)
  then show ?thesis using st1(1) st2(1) by blast
qed

section \<open>Decoding\<close>

lemma restoring_row_nonzero:
  assumes ok: "bitmatrix_ok k m w bm" and real: "restores_rows k w bm R B B real"
    and e: "e < B" "j < w" "ptr_dev R (k + e) < k + m"
  shows "\<exists>c<k * w. row_sel (k * w) real (e * w + j) c"
proof (rule ccontr)
  assume none: "\<not> (\<exists>c<k * w. row_sel (k * w) real (e * w + j) c)"
  let ?v = "ptr_dev R (k + e) * w + j"
  have v: "?v < (k + m) * w" using mat_index_lt [OF e(3,2)] .
  obtain c0 where c0: "c0 < k * w" "gen_row (k * w) bm ?v c0 \<noteq> 0"
  proof (cases "?v < k * w")
    case True
    then show ?thesis using that [of ?v] by (simp add: gen_row_def)
  next
    case False
    then have "?v - k * w < m * w" using v by (simp add: add_mult_distrib)
    then obtain c where "c < k * w" "bm ! ((?v - k * w) * (k * w) + c) \<noteq> 0"
      using ok unfolding bitmatrix_ok_def rows_nonzero_def by blast
    then show ?thesis using that [of c] False by (simp add: gen_row_def)
  qed
  define x :: "nat \<Rightarrow> u32" where "x = (\<lambda>c. if c = c0 then 1 else 0)"
  have x: "\<forall>c. elem8 (x c)" using elem8_bit by (simp add: x_def)
  have "codeword (galois_default 8) (k * w) bm x ?v = xsum (k * w) (\<lambda>c. if gen_row (k * w) bm ?v c \<noteq> 0 then x c else 0)"
    using bit_codeword [OF ok v] x by blast
  also have "\<dots> = (if gen_row (k * w) bm ?v c0 \<noteq> 0 then x c0 else 0)"
    by (rule xsum_single) (use c0 in \<open>auto simp: x_def\<close>)
  finally have "codeword (galois_default 8) (k * w) bm x ?v = 1" using c0(2) by (simp add: x_def)
  moreover have "form k w bm (ptr_dev R) real (e * w + j) x = 0"
    unfolding form_def by (rule xsum_zeroI) (use none in simp)
  ultimately show False using restores_rowsD(3) [OF real x e(1,2)] by simp
qed

lemma decode_ctx:
  assumes ids: "sched_ids k m erased R I" and "0 < w" "0 < ps" "ps * w dvd sz"
  shows "sched_ctx k (lost_all k m erased) w R (ptr_dev R) (k + m) sz ps"
proof -
  have "R i = Some (ptr_dev R i) \<and> ptr_dev R i < k + m" if "i < k + lost_all k m erased" for i
  proof (cases "i < k")
    case True
    then show ?thesis using source_props(1,2) [OF ids True] by blast
  next
    case False
    then have i: "i = k + (i - k)" "i - k < lost_all k m erased" using that by auto
    show ?thesis using dest_props(1,2) [OF ids i(2)] i(1) by metis
  qed
  then show ?thesis using inj_ptr_dev [OF ids] assms(2-) unfolding sched_ctx_def by blast
qed

lemma schedule_restores:
  assumes bm: "bitmatrix_ok k m w bm" and enc: "bit_encoded k m w bm sz ps D" and ids: "sched_ids k m erased R I"
    and ok: "packets_ok (k + m) sz ps st" "ps * w dvd sz" and sv: "\<forall>d<k + m. erased ! d = 0 \<longrightarrow> dev st ! d = D ! d"
  defines "B \<equiv> lost_all k m erased"
  assumes real: "restores_rows k w bm R B B real" and ext: "extends k B w real {} {..<B * w} ops"
  shows "\<exists>st'. schedule_stripes R w ops sz ps st = Some st' \<and> jst_ok st' \<and> dev st' = D"
proof -
  have w: "0 < w" "0 < ps" using bm ok by (auto simp: bitmatrix_ok_def packets_ok_def)
  let ?P = "ptr_dev R" and ?T = "sz div (ps * w)"
  have ctx: "sched_ctx k B w R ?P (k + m) sz ps" unfolding B_def by (rule decode_ctx [OF ids w ok(2)])
  obtain st' where st': "schedule_stripes R w ops sz ps st = Some st'"
    "sched_inv k w real ?P (k + m) sz ps (block_rows ?T (B * w)) st st'"
    using schedule_stripes [OF ext ctx ok(1)] by blast
  then have ok': "packets_ok (k + m) sz ps st'" by (simp add: sched_inv_def)
  have rows: "rows_done w (k * w) real ?P (\<lambda>i. ?P (k + i)) (block_rows ?T (B * w))
      (track ps (dev st) b) (track ps (dev st') b)" if "b < ps" for b
    using st'(2) that by (simp add: sched_inv_def)
  have lenD: "length D = k + m" "\<forall>d<k + m. length (D ! d) = sz" using enc by (auto simp: bit_encoded_def)
  have track_eq: "track ps (dev st) b d q = track ps D b d q" if "d < k + m" "erased ! d = 0" for b d q
    using that sv ok(1) lenD by (simp add: track_def packets_ok_def)
  have "track ps (dev st') b d q = track ps D b d q" if d: "d < k + m" and b: "b < ps" and q: "q < sz div ps" for b d q
  proof (cases "erased ! d = 0")
    case True
    have "track ps (dev st') b d q = track ps (dev st) b d q"
    proof (rule rows_doneD(2) [OF rows [OF b]])
      fix t r assume "(t, r) \<in> block_rows ?T (B * w)"
      then have "r div w < B" by (simp add: less_mult_imp_div_less)
      then have "erased ! ?P (k + r div w) \<noteq> 0" using dest_props(3) [OF ids] unfolding B_def by blast
      then show "(?P (k + r div w), t * w + r mod w) \<noteq> (d, q)" using True by auto
    qed
    then show ?thesis using track_eq [OF d True] by simp
  next
    case False
    define e where "e = dest_index k erased d"
    have e: "?P (k + e) = d" "e < B" using dest_index [OF ids d False] by (auto simp: e_def B_def)
    define t j where "t = q div w" and "j = q mod w"
    have "q < ?T * w" using q stripes(1) [OF ok(2) w(2,1)] by simp
    then have t: "t < ?T" "j < w" "q = t * w + j" using w(1) by (auto simp: t_def j_def less_mult_imp_div_less)
    define r where "r = e * w + j"
    have r: "r div w = e" "r mod w = j" "r < B * w" using t(2) mat_index_lt [OF e(2) t(2)] by (auto simp: r_def)
    let ?x = "stripe_vec ps w D b t"
    have cw: "codeword (galois_default 8) (k * w) bm ?x (i * w + j') = track ps D b i (t * w + j')"
      if "i < k + m" "j' < w" for i j'
      using bit_encoded_codeword [OF bm enc b t(1) mat_index_lt [OF that]] that by (simp add: stripe_vec_def)
    have "track ps (dev st') b d q = row_sum w (k * w) real ?P (t, r) (track ps (dev st) b)"
      using rows_doneD(1) [OF rows [OF b], of t r] restoring_row_nonzero [OF bm real e(2) t(2)] t(1,3) r e(1) d
      by (simp add: r_def)
    also have "\<dots> = form k w bm ?P real r ?x"
      unfolding row_sum_def form_def prod.case
    proof (rule xsum_cong)
      fix c assume c: "c < k * w"
      note sp = source_props(2,3) [OF ids less_mult_imp_div_less [OF c]]
      have "c mod w < w" using w(1) by simp
      from cw [OF sp(1) this]
      show "(if row_sel (k * w) real r c then track ps (dev st) b (?P (c div w)) (t * w + c mod w) else 0) =
        (if row_sel (k * w) real r c then codeword (galois_default 8) (k * w) bm ?x (?P (c div w) * w + c mod w) else 0)"
        using track_eq [OF sp] by simp
    qed
    also have "\<dots> = codeword (galois_default 8) (k * w) bm ?x (?P (k + e) * w + j)"
      unfolding r_def by (rule restores_rowsD(3) [OF real _ e(2) t(2)]) (simp add: stripe_vec_def elem8_track)
    also have "\<dots> = track ps D b d q" using cw [OF d t(2)] e(1) t(3) by simp
    finally show ?thesis .
  qed
  then have "dev st' ! d = D ! d" if "d < k + m" for d
    using that by (intro dev_eqI [OF ok' lenD])
  then have "dev st' = D" using ok' lenD by (intro nth_equalityI) (auto simp: packets_ok_def)
  then show ?thesis using st'(1) ok' by (auto simp: packets_ok_def)
qed

text \<open>The erasures a caller may pass: a terminated list of different devices, at most m of them.\<close>

definition erasures_ok :: "nat \<Rightarrow> nat \<Rightarrow> u32 list \<Rightarrow> bool" where
  "erasures_ok k m xs \<longleftrightarrow> (\<forall>e\<in>set xs. e \<noteq> - 1 \<and> unat e < k + m) \<and> distinct xs \<and> length xs \<le> m"

lemma card_erasures: "distinct xs \<Longrightarrow> card (unat ` set xs) = length (xs :: u32 list)"
  by (subst card_image) (simp_all add: inj_on_def word_unat_eq_iff distinct_card)

lemma erasures_okD:
  assumes "erasures_ok k m xs"
  shows "\<forall>e\<in>set xs. e \<noteq> - 1 \<and> unat e < k + m" "distinct xs" "card (unat ` set xs) \<le> m"
  using assms card_erasures by (simp_all add: erasures_ok_def)

lemma lost_all_erasures:
  assumes "erasures_ok k m xs"
  shows "lost_all k m (erased_flags (k + m) xs) = length xs"
proof -
  let ?er = "erased_flags (k + m) xs"
  have "{i. i < k \<and> ?er ! i \<noteq> 0} \<union> {i. k \<le> i \<and> i < k + m \<and> ?er ! i \<noteq> 0} = unat ` set xs"
    using erasures_okD(1) [OF assms] by (auto simp: nth_append not_le split: if_splits)
  moreover have "card ({i. i < k \<and> ?er ! i \<noteq> 0} \<union> {i. k \<le> i \<and> i < k + m \<and> ?er ! i \<noteq> 0}) = lost_all k m ?er"
    unfolding lost_def lost_coding_def by (rule card_Un_disjoint) auto
  ultimately show ?thesis using card_erasures erasures_okD(2) [OF assms] by simp
qed

lemma generate_decoding_schedule:
  assumes bm: "bitmatrix_ok k m w bm" "bit_mds k m w bm" and er: "erasures_ok k m xs" "k + m \<le> 2 ^ 31"
    and smart: "smart \<longrightarrow> xs \<noteq> []"
  defines "erased \<equiv> erased_flags (k + m) xs"
  shows "\<exists>R I ops real. set_up_ptrs_for_scheduled_decoding k m (xs @ - 1 # ys) = Some (Some R) \<and>
    jerasure_generate_decoding_schedule k m w bm (xs @ - 1 # ys) smart = Some (Some ops) \<and>
    sched_ids k m erased R I \<and> restores_rows k w bm R (lost_all k m erased) (lost_all k m erased) real \<and>
    extends k (lost_all k m erased) w real {} {..<lost_all k m erased * w} ops"
proof -
  let ?B = "lost_all k m erased"
  note e = erasures_okD [OF er(1)]
  obtain R I where RI: "set_up_ids_for_scheduled_decoding k m (xs @ - 1 # ys) = Some (Some (R, I))" "sched_ids k m erased R I"
    using set_up_ids [OF e(1,3)] unfolding erased_def by blast
  obtain real0 real where real:
    "data_bitrows k w bm R (lost k erased) (replicate (k * w * (lost_coding k m erased + lost k erased) * w) 0) = Some real0"
    "ofold (coding_bitrows k w bm R I (lost k erased)) [0..<lost_coding k m erased] real0 = Some real"
    "restores_rows k w bm R ?B ?B real"
    using decoding_bitmatrix [OF bm RI(2)] by blast
  have w: "0 < w" using bm by (simp add: bitmatrix_ok_def)
  have smart: "\<exists>ops. jerasure_smart_bitmatrix_to_schedule k ?B w real = Some ops \<and> extends k ?B w real {} {..<?B * w} ops" if smart
    using restores_rowsD(1,2) [OF real(3)] lost_all_erasures [OF er(1)] smart that w
      smart_schedule [of real ?B w k] by (auto simp: erased_def)
  define gen where "gen = (if smart then map_option Some (jerasure_smart_bitmatrix_to_schedule k ?B w real)
      else Some (Some (jerasure_dumb_bitmatrix_to_schedule k ?B w real)))"
  have "\<exists>ops. gen = Some (Some ops) \<and> extends k ?B w real {} {..<?B * w} ops"
    using smart dumb_schedule by (auto simp: gen_def)
  moreover have "jerasure_generate_decoding_schedule k m w bm (xs @ - 1 # ys) smart = gen"
    unfolding jerasure_generate_decoding_schedule_def count_failed_flags [OF e(1,2) er(2)] RI(1) gen_def
    by (simp add: real(1,2) [unfolded erased_def] erased_def)
  moreover have "set_up_ptrs_for_scheduled_decoding k m (xs @ - 1 # ys) = Some (Some R)"
    unfolding set_up_ptrs_ids RI(1) by simp
  ultimately show ?thesis using RI(2) real(3) by blast
qed

lemma schedule_decode_lazy:
  assumes bm: "bitmatrix_ok k m w bm" "bit_mds k m w bm" and er: "erasures_ok k m xs" "k + m \<le> 2 ^ 31"
    and smart: "smart \<longrightarrow> xs \<noteq> []" and enc: "bit_encoded k m w bm sz ps D"
    and ok: "packets_ok (k + m) sz ps st" "ps * w dvd sz" and sv: "\<forall>d<k + m. d \<notin> unat ` set xs \<longrightarrow> dev st ! d = D ! d"
  shows "\<exists>st'. jerasure_schedule_decode_lazy k m w bm (xs @ - 1 # ys) sz ps smart st = Some (0, st') \<and>
    jst_ok st' \<and> dev st' = D"
proof -
  obtain R I ops real where g: "set_up_ptrs_for_scheduled_decoding k m (xs @ - 1 # ys) = Some (Some R)"
    "jerasure_generate_decoding_schedule k m w bm (xs @ - 1 # ys) smart = Some (Some ops)"
    and s: "sched_ids k m (erased_flags (k + m) xs) R I"
      "restores_rows k w bm R (lost_all k m (erased_flags (k + m) xs)) (lost_all k m (erased_flags (k + m) xs)) real"
      "extends k (lost_all k m (erased_flags (k + m) xs)) w real {} {..<lost_all k m (erased_flags (k + m) xs) * w} ops"
    using generate_decoding_schedule [OF bm er smart] by blast
  have "\<forall>d<k + m. erased_flags (k + m) xs ! d = 0 \<longrightarrow> dev st ! d = D ! d" using sv by (simp split: if_splits)
  from schedule_restores [OF bm(1) enc s(1) ok this s(2,3)] show ?thesis
    using g by (auto simp: jerasure_schedule_decode_lazy_def)
qed

section \<open>The cache\<close>

text \<open>The order of the erasures does not matter.\<close>

lemma generate_permute:
  assumes "erasures_ok k m xs" "erasures_ok k m xs'" "set xs' = set xs" "k + m \<le> 2 ^ 31"
  shows "jerasure_generate_decoding_schedule k m w bm (xs @ - 1 # ys) smart =
    jerasure_generate_decoding_schedule k m w bm (xs' @ - 1 # ys') smart"
proof -
  note e = erasures_okD [OF assms(1)] and e' = erasures_okD [OF assms(2)]
  have c: "count_failed k (xs @ - 1 # ys) (0, 0) = count_failed k (xs' @ - 1 # ys') (0, 0)"
    using count_failed_flags [OF e(1,2) assms(4)] count_failed_flags [OF e'(1,2) assms(4)] assms(3) by simp
  have "jerasure_erasures_to_erased k m (xs @ - 1 # ys) = jerasure_erasures_to_erased k m (xs' @ - 1 # ys')"
    using erasures_to_erased [OF e(1)] erasures_to_erased [OF e'(1)] assms(3) by simp
  then have "set_up_ids_for_scheduled_decoding k m (xs @ - 1 # ys) = set_up_ids_for_scheduled_decoding k m (xs' @ - 1 # ys')"
    using c unfolding set_up_ids_for_scheduled_decoding_def by simp
  then show ?thesis using c unfolding jerasure_generate_decoding_schedule_def by simp
qed

definition cached :: "nat \<Rightarrow> (nat \<Rightarrow> nat \<Rightarrow> operation list) \<Rightarrow> schedule_cache \<Rightarrow> nat \<Rightarrow> nat \<Rightarrow> bool" where
  "cached n G c a b \<longleftrightarrow> c (a * n + b) = Some (Some (G a b))"

lemma pair_index_eq: "b < n \<Longrightarrow> b' < n \<Longrightarrow> a * n + b = a' * n + b' \<longleftrightarrow> a = a' \<and> b = (b' :: nat)"
proof
  assume b: "b < n" "b' < n" and eq: "a * n + b = a' * n + b'"
  have "a = (a * n + b) div n" "b = (a * n + b) mod n" using b(1) by simp_all
  moreover have "a' = (a' * n + b') div n" "b' = (a' * n + b') mod n" using b(2) by simp_all
  ultimately show "a = a' \<and> b = b'" using eq by simp
qed simp

lemma cached_update:
  assumes "b < n" "b' < n" "cached n G c a b \<or> a = a' \<and> b = b'"
  shows "cached n G (c(a' * n + b' \<mapsto> Some (G a' b'))) a b"
  using assms by (auto simp: cached_def pair_index_eq)

lemma generate_schedule_cache:
  fixes G :: "nat \<Rightarrow> nat \<Rightarrow> operation list"
  assumes n: "n = k + 2" and sym: "\<And>a b. G a b = G b a"
    and two: "\<And>a b. a < n \<Longrightarrow> b < a \<Longrightarrow>
        jerasure_generate_decoding_schedule k 2 w bm [of_nat a, of_nat b, - 1] smart = Some (Some (G a b))"
    and one: "\<And>a. a < n \<Longrightarrow> jerasure_generate_decoding_schedule k 2 w bm [of_nat a, - 1] smart = Some (Some (G a a))"
  shows "\<exists>c. jerasure_generate_schedule_cache k 2 w bm smart = Some (Some c) \<and> (\<forall>a<n. \<forall>b<n. cached n G c a b)"
proof -
  let ?in = "\<lambda>e1 e2 scache. obind (jerasure_generate_decoding_schedule k 2 w bm [of_nat e1, of_nat e2, - 1] smart)
    (\<lambda>s. Some (scache(e1 * n + e2 \<mapsto> s, e2 * n + e1 \<mapsto> s)))"
  let ?out = "\<lambda>e1 scache. obind (ofold (?in e1) [0..<e1] scache) (\<lambda>scache.
    obind (jerasure_generate_decoding_schedule k 2 w bm [of_nat e1, - 1] smart) (\<lambda>s. Some (scache(e1 * n + e1 \<mapsto> s))))"
  let ?P = "\<lambda>e c. \<forall>a<e. \<forall>b<e. cached n G c a b"
  have "\<exists>c. ofold ?out [0..<n] Map.empty = Some c \<and> ?P n c"
  proof (rule ofold_upt_inv [where P = ?P])
    fix e1 c assume e1: "e1 < n" and c: "?P e1 c"
    let ?Q = "\<lambda>e2 c'. ?P e1 c' \<and> (\<forall>b<e2. cached n G c' e1 b \<and> cached n G c' b e1)"
    have "\<exists>c'. ofold (?in e1) [0..<e1] c = Some c' \<and> ?Q e1 c'"
    proof (rule ofold_upt_inv [where P = ?Q])
      fix e2 c' assume e2: "e2 < e1" and c': "?Q e2 c'"
      let ?c = "c'(e1 * n + e2 \<mapsto> Some (G e1 e2), e2 * n + e1 \<mapsto> Some (G e2 e1))"
      have "?in e1 e2 c' = Some ?c" using two [OF e1 e2] sym [of e1 e2] by simp
      moreover have "?Q (Suc e2) ?c"
        using c' e1 e2 by (auto simp: less_Suc_eq intro!: cached_update)
      ultimately show "\<exists>c''. ?in e1 e2 c' = Some c'' \<and> ?Q (Suc e2) c''" by blast
    qed (use c in auto)
    then obtain c' where c': "ofold (?in e1) [0..<e1] c = Some c'" "?Q e1 c'" by blast
    have "?P (Suc e1) (c'(e1 * n + e1 \<mapsto> Some (G e1 e1)))"
      using c'(2) e1 by (auto simp: less_Suc_eq intro!: cached_update)
    then show "\<exists>c''. ?out e1 c = Some c'' \<and> ?P (Suc e1) c''"
      using c'(1) one [OF e1] by simp
  qed auto
  then show ?thesis unfolding jerasure_generate_schedule_cache_def n [symmetric] by auto
qed

text \<open>
  With two coding devices, decoding by a cached schedule does exactly what decoding by a
  schedule made on the spot does.
\<close>

lemma erasures_of_nat:
  assumes "k + 2 \<le> 2 ^ 31" "a < k + 2" "b < k + 2"
  shows "erasures_ok k 2 [of_nat a]" "a \<noteq> b \<Longrightarrow> erasures_ok k 2 [of_nat a, of_nat b]"
proof -
  have u: "unat (of_nat d :: u32) = d" "(of_nat d :: u32) \<noteq> - 1" if "d < k + 2" for d
  proof -
    have d: "d < 2 ^ 31" using that assms(1) by linarith
    then show *: "unat (of_nat d :: u32) = d" by (simp add: unat_of_nat take_bit_nat_eq_self)
    show "(of_nat d :: u32) \<noteq> - 1"
    proof
      assume "(of_nat d :: u32) = - 1"
      then have "d = unat (- 1 :: u32)" using * by simp
      then show False using d by (simp add: unsigned_minus_1_eq_mask mask_eq_exp_minus_1)
    qed
  qed
  show "erasures_ok k 2 [of_nat a]" using u [OF assms(2)] assms(2) by (simp add: erasures_ok_def)
  have "a \<noteq> b \<Longrightarrow> of_nat a \<noteq> (of_nat b :: u32)" using u(1) [OF assms(2)] u(1) [OF assms(3)] by metis
  then show "a \<noteq> b \<Longrightarrow> erasures_ok k 2 [of_nat a, of_nat b]"
    using u [OF assms(2)] u [OF assms(3)] assms(2,3) by (simp add: erasures_ok_def)
qed

lemma decode_cache_one:
  assumes "x \<noteq> - 1" "cache (unat x * (k + m) + unat x) = Some (Some ops)"
    "set_up_ptrs_for_scheduled_decoding k m [x, - 1] = Some (Some R)"
  shows "jerasure_schedule_decode_cache k m w cache [x, - 1] sz ps st = map_option (Pair 0) (schedule_stripes R w ops sz ps st)"
  using assms by (simp add: jerasure_schedule_decode_cache_def)

lemma decode_cache_two:
  assumes "x \<noteq> - 1" "y \<noteq> - 1" "cache (unat x * (k + m) + unat y) = Some (Some ops)"
    "set_up_ptrs_for_scheduled_decoding k m [x, y, - 1] = Some (Some R)"
  shows "jerasure_schedule_decode_cache k m w cache [x, y, - 1] sz ps st = map_option (Pair 0) (schedule_stripes R w ops sz ps st)"
  using assms by (simp add: jerasure_schedule_decode_cache_def)

lemma schedule_cache:
  assumes bm: "bitmatrix_ok k 2 w bm" "bit_mds k 2 w bm" and k: "k + 2 \<le> 2 ^ 31"
  shows "\<exists>cache. jerasure_generate_schedule_cache k 2 w bm smart = Some (Some cache) \<and>
    (\<forall>xs sz ps st. erasures_ok k 2 xs \<and> xs \<noteq> [] \<longrightarrow>
       jerasure_schedule_decode_cache k 2 w cache (xs @ [- 1]) sz ps st =
       jerasure_schedule_decode_lazy k 2 w bm (xs @ [- 1]) sz ps smart st)"
proof -
  define gen where "gen = (\<lambda>xs. jerasure_generate_decoding_schedule k 2 w bm (xs @ [- 1]) smart)"
  have gen: "\<exists>ops R. gen xs = Some (Some ops) \<and> set_up_ptrs_for_scheduled_decoding k 2 (xs @ [- 1]) = Some (Some R)"
    if "erasures_ok k 2 xs" "xs \<noteq> []" for xs
    using generate_decoding_schedule [OF bm that(1) k, of smart "[]"] that(2) unfolding gen_def by blast
  have perm: "gen [x, y] = gen [y, x]" if "erasures_ok k 2 [x, y]" for x y
    unfolding gen_def using generate_permute [OF that, of "[y, x]" w bm "[]" smart "[]"] that k
    by (auto simp: erasures_ok_def)
  define G where "G = (\<lambda>a b :: nat. the (the (gen (if a = b then [of_nat a] else [of_nat a, of_nat b]))))"
  have G: "gen (if a = b then [of_nat a] else [of_nat a, of_nat b]) = Some (Some (G a b))" if "a < k + 2" "b < k + 2" for a b
  proof -
    have "erasures_ok k 2 (if a = b then [of_nat a] else [of_nat a, of_nat b])"
      using erasures_of_nat [OF k that] by (cases "a = b") simp_all
    then show ?thesis using gen [of "if a = b then [of_nat a] else [of_nat a, of_nat b]"] unfolding G_def by (auto split: if_splits)
  qed
  define H where "H = (\<lambda>a b. if a < k + 2 \<and> b < k + 2 then G a b else [])"
  have sym: "H a b = H b a" for a b
  proof (cases "a < k + 2 \<and> b < k + 2 \<and> a \<noteq> b")
    case True
    then have "gen [of_nat a, of_nat b] = gen [of_nat b, of_nat a]" using erasures_of_nat(2) [OF k] perm by blast
    then show ?thesis using True by (simp add: H_def G_def)
  qed (auto simp: H_def)
  obtain cache where cache: "jerasure_generate_schedule_cache k 2 w bm smart = Some (Some cache)"
    "\<forall>a<k + 2. \<forall>b<k + 2. cached (k + 2) H cache a b"
  proof -
    have "jerasure_generate_decoding_schedule k 2 w bm [of_nat a, of_nat b, - 1] smart = Some (Some (H a b))" if "a < k + 2" "b < a" for a b
      using G [of a b] that by (simp add: gen_def H_def)
    moreover have "jerasure_generate_decoding_schedule k 2 w bm [of_nat a, - 1] smart = Some (Some (H a a))" if "a < k + 2" for a
      using G [of a a] that by (simp add: gen_def H_def)
    ultimately show ?thesis using that generate_schedule_cache [of "k + 2" k H w bm smart, OF refl] sym by blast
  qed
  have "jerasure_schedule_decode_cache k 2 w cache (xs @ [- 1]) sz ps st = jerasure_schedule_decode_lazy k 2 w bm (xs @ [- 1]) sz ps smart st"
    if xs: "erasures_ok k 2 xs" "xs \<noteq> []" for xs sz ps st
  proof -
    obtain R where R: "set_up_ptrs_for_scheduled_decoding k 2 (xs @ [- 1]) = Some (Some R)" using gen [OF xs] by blast
    have c: "cache (unat x * (k + 2) + unat y) = Some (Some (G (unat x) (unat y)))" if "x \<in> set xs" "y \<in> set xs" for x y
      using cache(2) that xs(1) by (simp add: cached_def H_def erasures_ok_def)
    have ne: "\<forall>e\<in>set xs. e \<noteq> - 1 \<and> unat e < k + 2" using xs(1) by (auto simp: erasures_ok_def)
    have lazy: "jerasure_schedule_decode_lazy k 2 w bm (xs @ [- 1]) sz ps smart st =
        map_option (Pair 0) (schedule_stripes R w ops sz ps st)" if "gen xs = Some (Some ops)" for ops
      using R that by (simp add: jerasure_schedule_decode_lazy_def gen_def)
    have "0 < length xs" "length xs \<le> 2" "distinct xs" using xs by (simp_all add: erasures_ok_def)
    then consider x where "xs = [x]" | x y where "xs = [x, y]" "x \<noteq> y"
      by (cases xs; cases "tl xs") auto
    then show ?thesis
    proof cases
      case 1
      have g: "gen [x] = Some (Some (G (unat x) (unat x)))" using G [of "unat x" "unat x"] ne 1 by simp
      have cx: "cache (unat x * (k + 2) + unat x) = Some (Some (G (unat x) (unat x)))" by (rule c) (use 1 in simp_all)
      from lazy [unfolded 1, OF g] decode_cache_one [of x cache k 2, OF _ cx R [unfolded 1 append.simps]] ne 1
      show ?thesis by simp
    next
      case 2
      have g: "gen [x, y] = Some (Some (G (unat x) (unat y)))" proof -
        have "unat x \<noteq> unat y" using 2(2) word_unat_eq_iff by blast
        then show ?thesis using G [of "unat x" "unat y"] ne 2(1) by simp
      qed
      have cx: "cache (unat x * (k + 2) + unat y) = Some (Some (G (unat x) (unat y)))" by (rule c) (use 2 in simp_all)
      from lazy [unfolded 2(1), OF g] decode_cache_two [of x y cache k 2, OF _ _ cx R [unfolded 2(1) append.simps]] ne 2
      show ?thesis by simp
    qed
  qed
  then show ?thesis using cache(1) by blast
qed

end
