(* ===== verification/Jer_Mds.thy ===== *)
theory Jer_Mds
  imports Jer_Roundtrip
begin

text \<open>
  Codes that survive the loss of any m devices: every square submatrix of the coding matrix
  is regular.  The criterion is proved sufficient for the decoder, and the two families of
  matrices that Jerasure builds are shown to meet it: Cauchy matrices with scaled rows and
  columns, and matrices of two rows, ones and distinct elements.
\<close>

section \<open>Tables changed by loops\<close>

text \<open>Elements of a table changed one after the other.\<close>

lemma length_fold_modify [simp]: "length (fold (\<lambda>x t. t[q x := g (t ! q x)]) xs t) = length t"
  by (induction xs arbitrary: t) auto

lemma nth_fold_modify:
  assumes "distinct xs" "inj_on q (set xs)" "i < length t"
  shows "fold (\<lambda>x t. t[q x := g (t ! q x)]) xs t ! i = (if i \<in> q ` set xs then g (t ! i) else t ! i)"
  using assms
proof (induction xs arbitrary: t)
  case (Cons x xs)
  then have "q x \<notin> q ` set xs" by (auto simp: image_iff dest: inj_onD)
  then show ?case using Cons by (cases "i = q x") auto
qed simp

lemma length_fold_combine [simp]: "length (fold (\<lambda>x t. t[q x := g (t ! q x) (t ! p x)]) xs t) = length t"
  by (induction xs arbitrary: t) auto

lemma nth_fold_combine_other:
  "i \<notin> q ` set xs \<Longrightarrow> fold (\<lambda>x t. t[q x := g (t ! q x) (t ! p x)]) xs t ! i = t ! i"
  by (induction xs arbitrary: t) auto

lemma nth_fold_combine:
  assumes "distinct xs" "inj_on q (set xs)" "p ` set xs \<inter> q ` set xs = {}" "x \<in> set xs" "q x < length t"
  shows "fold (\<lambda>x t. t[q x := g (t ! q x) (t ! p x)]) xs t ! q x = g (t ! q x) (t ! p x)"
  using assms
proof (induction xs arbitrary: t)
  case (Cons y xs)
  show ?case
  proof (cases "x = y")
    case True
    then have "q x \<notin> q ` set xs" using Cons.prems(1,2) by (auto simp: image_iff dest: inj_onD)
    then show ?thesis using True Cons.prems(5) by (simp add: nth_fold_combine_other)
  next
    case False
    then have "q y \<noteq> q x" "q y \<noteq> p x" using Cons.prems by (auto dest: inj_onD)
    moreover have "inj_on q (set xs)" using Cons.prems(2) by simp
    ultimately show ?thesis using Cons.IH [of "t[y' := v]" for y' v] Cons.prems False by auto
  qed
qed simp

section \<open>Sums over a set of columns\<close>

abbreviation xsum_on :: "nat \<Rightarrow> nat set \<Rightarrow> (nat \<Rightarrow> u32) \<Rightarrow> u32" where
  "xsum_on k E f \<equiv> xsum k (\<lambda>j. if j \<in> E then f j else 0)"

lemma xsum_on_insert: "e < k \<Longrightarrow> e \<notin> E \<Longrightarrow> xsum_on k (insert e E) f = xsum_on k E f XOR f e"
proof -
  assume e: "e < k" "e \<notin> E"
  have "xsum_on k (insert e E) f = xsum k (\<lambda>j. (if j \<in> E then f j else 0) XOR (if j = e then f j else 0))"
    using e by (intro xsum_cong) auto
  then show ?thesis using e(1) by (simp add: xsum_xor xsum_delta)
qed

lemma xsum_on_cong: "(\<And>j. j \<in> E \<Longrightarrow> j < k \<Longrightarrow> f j = g j) \<Longrightarrow> xsum_on k E f = xsum_on k E g"
  by (intro xsum_cong) auto

lemma xsum_on_xor: "xsum_on k E (\<lambda>j. f j XOR g j) = xsum_on k E f XOR xsum_on k E g"
  unfolding xsum_xor [symmetric] by (intro xsum_cong) auto

definition square_regular :: "gf_t \<Rightarrow> nat \<Rightarrow> nat \<Rightarrow> u32 list \<Rightarrow> bool" where
  "square_regular F k m matrix \<longleftrightarrow> (\<forall>C E z. C \<subseteq> {..<m} \<and> E \<subseteq> {..<k} \<and> card C = card E \<and> (\<forall>j. felem F (z j)) \<and>
     (\<forall>i\<in>C. xsum_on k E (\<lambda>j. galois_single_multiply F (matrix ! (i * k + j)) (z j)) = 0) \<longrightarrow> (\<forall>j\<in>E. z j = 0))"

lemma square_regularD:
  assumes "square_regular F k m matrix" "C \<subseteq> {..<m}" "E \<subseteq> {..<k}" "card C = card E" "\<forall>j. felem F (z j)"
    and "\<And>i. i \<in> C \<Longrightarrow> xsum_on k E (\<lambda>j. galois_single_multiply F (matrix ! (i * k + j)) (z j)) = 0"
  shows "j \<in> E \<Longrightarrow> z j = 0"
  by (rule assms(1) [unfolded square_regular_def, rule_format, of C E]) (use assms(2-) in auto)

section \<open>The criterion suffices\<close>

lemma missing_devices:
  assumes "length ids = k" "distinct ids" "\<forall>d\<in>set ids. d < k + m"
  shows "card {i. i < m \<and> k + i \<in> set ids} = card {j. j < k \<and> j \<notin> set ids}"
proof -
  have split: "set ids = {j. j < k \<and> j \<in> set ids} \<union> (+) k ` {i. i < m \<and> k + i \<in> set ids}"
  proof -
    have "d \<in> (+) k ` {i. i < m \<and> k + i \<in> set ids}" if "d \<in> set ids" "\<not> d < k" for d
      using that assms(3) by (intro image_eqI [of _ _ "d - k"]) auto
    then show ?thesis by auto
  qed
  have "card (set ids) = card {j. j < k \<and> j \<in> set ids} + card ((+) k ` {i. i < m \<and> k + i \<in> set ids})"
    by (subst split, rule card_Un_disjoint) auto
  moreover have "card ((+) k ` {i. i < m \<and> k + i \<in> set ids}) = card {i. i < m \<and> k + i \<in> set ids}"
    by (intro card_image) simp
  moreover have "card ({j. j < k \<and> j \<in> set ids} \<union> {j. j < k \<and> j \<notin> set ids}) =
      card {j. j < k \<and> j \<in> set ids} + card {j. j < k \<and> j \<notin> set ids}"
    by (rule card_Un_disjoint) auto
  moreover have "{j. j < k \<and> j \<in> set ids} \<union> {j. j < k \<and> j \<notin> set ids} = {..<k}" by auto
  ultimately show ?thesis using distinct_card [OF assms(2)] assms(1) by simp
qed

context correct_field
begin

lemma square_regular_rows:
  assumes "square_regular F k m matrix" "length ids = k" "distinct ids" "\<forall>d\<in>set ids. d < k + m"
  shows "regular k (mf k (decoding_rows k matrix ids))"
  unfolding mat_regular_def
proof (intro allI impI, elim conjE)
  fix x c assume x: "\<forall>c. felem F (x c)" and z: "\<forall>r<k. mvec k (mf k (decoding_rows k matrix ids)) x r = 0" and c: "c < k"
  have row: "codeword F k matrix x d = 0" if d: "d \<in> set ids" for d
  proof -
    obtain r where r: "r < k" "ids ! r = d" using d assms(2) by (auto simp: in_set_conv_nth)
    have "mvec k (mf k (decoding_rows k matrix ids)) x r = codeword F k matrix x d"
      unfolding codeword_def mat_vec_def mf_def using r decoding_rows_entry by (intro xsum_cong) auto
    then show ?thesis using z r by simp
  qed
  have data: "x j = 0" if "j < k" "j \<in> set ids" for j
    using row [OF that(2)] codeword_data [of k x j matrix] x that(1) by simp
  let ?C = "{i. i < m \<and> k + i \<in> set ids}" and ?E = "{j. j < k \<and> j \<notin> set ids}"
  have "xsum_on k ?E (\<lambda>j. galois_single_multiply F (matrix ! (i * k + j)) (x j)) = 0" if i: "i \<in> ?C" for i
  proof -
    have "xsum_on k ?E (\<lambda>j. galois_single_multiply F (matrix ! (i * k + j)) (x j)) = codeword F k matrix x (k + i)"
      unfolding codeword_def
    proof (intro xsum_cong)
      fix j assume j: "j < k"
      show "(if j \<in> ?E then galois_single_multiply F (matrix ! (i * k + j)) (x j) else 0) =
          galois_single_multiply F (gen_row k matrix (k + i) j) (x j)"
        using data [OF j] j by (auto simp: gen_row_def galois_single_multiply_def)
    qed
    then show ?thesis using row i by simp
  qed
  note sq = square_regularD [OF assms(1) _ _ missing_devices [OF assms(2-4)] x this]
  have "x j = 0" if "j \<in> ?E" for j by (rule sq) (use that in auto)
  then show "x c = 0" using data c by blast
qed

lemma square_regular_recoverable:
  assumes "square_regular F k m matrix" "k \<le> alive (k + m) erased"
  shows "recoverable F k m matrix erased"
  unfolding recoverable_def
proof (rule square_regular_rows [OF assms(1)])
  show len: "length (dm_ids k m erased) = k" using assms(2) by (simp add: length_dm_ids)
  show "\<forall>d\<in>set (dm_ids k m erased). d < k + m"
    using dm_ids_props(1) [of _ k m erased] by (auto simp: in_set_conv_nth)
qed (rule distinct_dm_ids)

end

section \<open>Cauchy systems\<close>

context gf_arith
begin

lemma mult_left_comm: "elem a \<Longrightarrow> elem b \<Longrightarrow> elem c \<Longrightarrow> mult a (mult b c) = mult b (mult a c)"
  using mult_assoc [of a b c] mult_assoc [of b a c] mult_comm [of a b] by simp

lemmas mult_ac = mult_assoc mult_comm mult_left_comm

lemma no_zero_div':
  assumes "elem a" "elem b" "mult a b = 0" "a \<noteq> 0"
  shows "b = 0"
  using no_zero_div [of b a] assms mult_comm by simp

lemma elem_xsum_on: "(\<And>j. j \<in> E \<Longrightarrow> elem (f j)) \<Longrightarrow> elem (xsum_on k E f)"
  by (intro elem_xsum) (auto simp: elem_0)

lemma mult_xsum_on:
  assumes "elem a" "\<And>j. j \<in> E \<Longrightarrow> elem (f j)"
  shows "mult a (xsum_on k E f) = xsum_on k E (\<lambda>j. mult a (f j))"
  using assms by (subst mult_xsum) (auto simp: elem_0 mult_0 intro!: xsum_cong)

text \<open>One step of the elimination of a column e by a row c.\<close>

lemma cauchy_term:
  assumes el: "elem xi" "elem xc" "elem y" "elem ye" "elem p" "elem q" "elem z"
    and p: "mult (xi XOR y) p = 1" and q: "mult (xc XOR y) q = 1"
  shows "mult (xi XOR ye) (mult p z) XOR mult (xc XOR ye) (mult q z) =
    mult (xc XOR xi) (mult p (mult q (mult (y XOR ye) z)))"
proof -
  have sub: "p XOR q = mult (xc XOR xi) (mult p q)"
  proof -
    have "mult (xc XOR xi) (mult p q) = mult (xc XOR y) (mult p q) XOR mult (xi XOR y) (mult p q)"
      using el by (simp add: mult_xor' [symmetric] elem_xor elem_mult xor_ac)
    also have "mult (xc XOR y) (mult p q) = mult p (mult (xc XOR y) q)"
      using el by (intro mult_left_comm) (auto simp: elem_xor)
    also have "mult (xi XOR y) (mult p q) = mult (mult (xi XOR y) p) q"
      using el by (simp add: mult_assoc elem_xor)
    finally show ?thesis using el p q by (simp add: mult_1 mult_1')
  qed
  have t: "mult (a XOR ye) (mult b z) = z XOR mult (y XOR ye) (mult b z)"
    if "elem a" "elem b" "mult (a XOR y) b = 1" for a b
  proof -
    have "mult (a XOR ye) (mult b z) = mult ((a XOR y) XOR (y XOR ye)) (mult b z)" by (simp add: xor_ac)
    also have "\<dots> = mult (a XOR y) (mult b z) XOR mult (y XOR ye) (mult b z)"
      using that el by (intro mult_xor') (auto simp: elem_xor elem_mult)
    also have "mult (a XOR y) (mult b z) = z"
      using that el mult_assoc [of "a XOR y" b z] by (simp add: elem_xor mult_1)
    finally show ?thesis .
  qed
  have "mult (xi XOR ye) (mult p z) XOR mult (xc XOR ye) (mult q z) =
      mult (y XOR ye) (mult p z) XOR mult (y XOR ye) (mult q z)"
    using t [of xi p] t [of xc q] el p q by (simp add: xor_ac)
  also have "\<dots> = mult (y XOR ye) (mult (p XOR q) z)"
    using el by (simp add: mult_xor mult_xor' elem_xor elem_mult)
  also have "\<dots> = mult (xc XOR xi) (mult p (mult q (mult (y XOR ye) z)))"
    unfolding sub using el by (simp add: mult_ac elem_xor elem_mult)
  finally show ?thesis .
qed

lemma cauchy_kernel:
  assumes "finite E" "card C = card E" "E \<subseteq> {..<k}"
    and el: "\<forall>i\<in>C. elem (X i)" "\<forall>j\<in>E. elem (Y j)" "\<forall>j. elem (z j)"
    and inj: "inj_on X C" "inj_on Y E"
    and q: "\<forall>i\<in>C. \<forall>j\<in>E. elem (q i j) \<and> mult (X i XOR Y j) (q i j) = 1"
    and sum: "\<forall>i\<in>C. xsum_on k E (\<lambda>j. mult (q i j) (z j)) = 0"
  shows "\<forall>j\<in>E. z j = 0"
  using assms
proof (induction E arbitrary: C z rule: finite_induct)
  case (insert e E)
  have "C \<noteq> {}" using insert.hyps insert.prems(1) by auto
  then obtain c where c: "c \<in> C" by blast
  have fin: "finite C" using insert.hyps insert.prems(1) card_ge_0_finite [of C] by simp
  define S where "S i = xsum_on k E (\<lambda>j. mult (q i j) (z j))" for i
  have elS: "elem (S i)" if "i \<in> C" for i
    unfolding S_def using insert.prems that by (intro elem_xsum_on elem_mult) auto
  have S: "mult (X i XOR Y e) (S i) = z e" if i: "i \<in> C" for i
  proof -
    have "S i = mult (q i e) (z e)"
      using insert.prems(9) i insert.prems(2) insert.hyps(2) xsum_on_insert [of e k E "\<lambda>j. mult (q i j) (z j)"]
      by (simp add: S_def)
    then show ?thesis
      using insert.prems i mult_assoc [of "X i XOR Y e" "q i e" "z e"] by (simp add: elem_xor mult_1)
  qed
  define y where "y j = (if j \<in> E then mult (q c j) (mult (Y j XOR Y e) (z j)) else 0)" for j
  have ely: "\<forall>j. elem (y j)" using insert.prems c by (auto simp: y_def elem_mult elem_xor elem_0)
  have "xsum_on k E (\<lambda>j. mult (q i j) (y j)) = 0" if i: "i \<in> C - {c}" for i
  proof -
    have i': "i \<in> C" "X c XOR X i \<noteq> 0" using i c insert.prems(6) by (auto dest: inj_onD)
    have "0 = mult (X i XOR Y e) (S i) XOR mult (X c XOR Y e) (S c)" using S i' c by simp
    also have "\<dots> = xsum_on k E (\<lambda>j. mult (X i XOR Y e) (mult (q i j) (z j)) XOR mult (X c XOR Y e) (mult (q c j) (z j)))"
      unfolding S_def xsum_on_xor using insert.prems c i'
      by (subst (1 2) mult_xsum_on) (auto simp: elem_xor elem_mult)
    also have "\<dots> = xsum_on k E (\<lambda>j. mult (X c XOR X i) (mult (q i j) (y j)))"
    proof (rule xsum_on_cong)
      fix j assume j: "j \<in> E"
      then show "mult (X i XOR Y e) (mult (q i j) (z j)) XOR mult (X c XOR Y e) (mult (q c j) (z j)) =
          mult (X c XOR X i) (mult (q i j) (y j))"
        using cauchy_term [of "X i" "X c" "Y j" "Y e" "q i j" "q c j" "z j"] insert.prems c i' by (simp add: y_def)
    qed
    also have "\<dots> = mult (X c XOR X i) (xsum_on k E (\<lambda>j. mult (q i j) (y j)))"
      using insert.prems c i' ely by (subst mult_xsum_on) (auto simp: elem_xor elem_mult)
    finally have "mult (X c XOR X i) (xsum_on k E (\<lambda>j. mult (q i j) (y j))) = 0" by simp
    moreover have "elem (xsum_on k E (\<lambda>j. mult (q i j) (y j)))"
      by (intro elem_xsum_on elem_mult) (use insert.prems i' ely in auto)
    moreover have "elem (X c XOR X i)" using insert.prems c i' by (simp add: elem_xor)
    ultimately show ?thesis using no_zero_div' i'(2) by blast
  qed
  then have "\<forall>j\<in>E. y j = 0"
    using insert.prems insert.hyps c fin ely inj_on_subset [of X C "C - {c}"]
    by (intro insert.IH [of "C - {c}"]) auto
  then have zE: "z j = 0" if j: "j \<in> E" for j
  proof -
    have "Y j \<noteq> Y e" using insert.prems(7) insert.hyps(2) j by (metis inj_on_eq_iff insertCI)
    moreover have "mult (X c XOR Y j) (q c j) = 1" using insert.prems(8) c j by simp
    moreover have "elem (X c XOR Y j)" using insert.prems(3,4) c j by (simp add: elem_xor)
    then have "q c j \<noteq> 0" using mult_0 calculation(2) by (metis zero_neq_one)
    ultimately have ne: "Y j XOR Y e \<noteq> 0" "q c j \<noteq> 0" by auto
    have "mult (Y j XOR Y e) (z j) = 0"
      using \<open>\<forall>j\<in>E. y j = 0\<close> ne insert.prems c j no_zero_div' [of "q c j" "mult (Y j XOR Y e) (z j)"]
      by (simp add: y_def elem_xor elem_mult)
    then show ?thesis using ne insert.prems j no_zero_div' [of "Y j XOR Y e" "z j"] by (simp add: elem_xor)
  qed
  have "S c = 0" unfolding S_def using zE insert.prems c by (intro xsum_zeroI) (auto simp: mult_0)
  then have "z e = 0" using S [OF c] insert.prems c by (simp add: mult_0 elem_xor)
  then show ?case using zE by auto
qed simp

end

section \<open>The two families of coding matrices\<close>

text \<open>A Cauchy matrix whose rows and columns may be scaled by non-zero factors.\<close>

definition scaled_cauchy ::
  "gf_t \<Rightarrow> nat \<Rightarrow> nat \<Rightarrow> (nat \<Rightarrow> u32) \<Rightarrow> (nat \<Rightarrow> u32) \<Rightarrow> (nat \<Rightarrow> u32) \<Rightarrow> (nat \<Rightarrow> u32) \<Rightarrow> u32 list \<Rightarrow> bool" where
  "scaled_cauchy F k m X Y r c matrix \<longleftrightarrow> length matrix = m * k \<and>
     inj_on X {..<m} \<and> inj_on Y {..<k} \<and> (\<forall>i<m. felem F (X i) \<and> felem F (r i) \<and> r i \<noteq> 0) \<and>
     (\<forall>j<k. felem F (Y j) \<and> felem F (c j) \<and> c j \<noteq> 0) \<and> (\<forall>i<m. \<forall>j<k. X i \<noteq> Y j) \<and>
     (\<forall>i<m. \<forall>j<k. matrix ! (i * k + j) =
        galois_single_multiply F (r i) (galois_single_multiply F (gdiv F 1 (X i XOR Y j)) (c j)))"

context correct_field
begin

lemma scaled_cauchy_entry:
  assumes "scaled_cauchy F k m X Y r c matrix" "i < m" "j < k"
  shows "felem F (gdiv F 1 (X i XOR Y j))" "galois_single_multiply F (X i XOR Y j) (gdiv F 1 (X i XOR Y j)) = 1"
    "felem F (matrix ! (i * k + j))" "matrix ! (i * k + j) \<noteq> 0"
proof -
  have e: "felem F (X i XOR Y j)" "X i XOR Y j \<noteq> 0" "felem F (r i)" "r i \<noteq> 0" "felem F (c j)" "c j \<noteq> 0"
    using assms by (auto simp: scaled_cauchy_def elem_xor)
  show q: "felem F (gdiv F 1 (X i XOR Y j))" using elem_divd elem_1 e by blast
  show i: "galois_single_multiply F (X i XOR Y j) (gdiv F 1 (X i XOR Y j)) = 1"
    using divd_mult [OF elem_1 e(1,2)] mult_comm [OF q e(1)] by simp
  have m: "matrix ! (i * k + j) = galois_single_multiply F (r i) (galois_single_multiply F (gdiv F 1 (X i XOR Y j)) (c j))"
    using assms by (simp add: scaled_cauchy_def)
  show "felem F (matrix ! (i * k + j))" unfolding m using e q by (simp add: elem_mult)
  have "gdiv F 1 (X i XOR Y j) \<noteq> 0" using i mult_0 [OF e(1)] by auto
  then show "matrix ! (i * k + j) \<noteq> 0"
    unfolding m using e q no_zero_div' [of "r i"] no_zero_div [of _ "c j"] elem_mult by metis
qed

lemma scaled_cauchy_coding_matrix: "scaled_cauchy F k m X Y r c matrix \<Longrightarrow> coding_matrix F k m matrix"
proof -
  assume a: "scaled_cauchy F k m X Y r c matrix"
  then have len: "length matrix = m * k" by (simp add: scaled_cauchy_def)
  have "felem F e" if "e \<in> set matrix" for e
  proof -
    obtain l where l: "l < m * k" "e = matrix ! l" using \<open>e \<in> set matrix\<close> len by (auto simp: in_set_conv_nth)
    then have "l div k < m" "l mod k < k" by (cases k; simp add: less_mult_imp_div_less)+
    from scaled_cauchy_entry(3) [OF a this] show ?thesis using l by simp
  qed
  then show ?thesis using len by (auto simp: coding_matrix_def)
qed

lemma scaled_cauchy_square_regular:
  assumes a: "scaled_cauchy F k m X Y r c matrix"
  shows "square_regular F k m matrix"
  unfolding square_regular_def
proof (intro allI impI, elim conjE)
  fix C E z assume C: "C \<subseteq> {..<m}" and E: "E \<subseteq> {..<k}" and card: "card C = card E" and z: "\<forall>j. felem F (z j)"
    and sum: "\<forall>i\<in>C. xsum_on k E (\<lambda>j. galois_single_multiply F (matrix ! (i * k + j)) (z j)) = 0"
  define q where "q i j = gdiv F 1 (X i XOR Y j)" for i j
  define y where "y j = (if j \<in> E then galois_single_multiply F (c j) (z j) else 0)" for j
  have c: "felem F (c j)" "c j \<noteq> 0" if "j \<in> E" for j using a E that by (auto simp: scaled_cauchy_def)
  have ely: "\<forall>j. felem F (y j)" using c z by (auto simp: y_def elem_mult elem_0)
  have q: "felem F (q i j)" "galois_single_multiply F (X i XOR Y j) (q i j) = 1" if "i \<in> C" "j \<in> E" for i j
    using scaled_cauchy_entry(1,2) [OF a, of i j] that C E by (auto simp: q_def)
  have "xsum_on k E (\<lambda>j. galois_single_multiply F (q i j) (y j)) = 0" if i: "i \<in> C" for i
  proof -
    have r: "felem F (r i)" "r i \<noteq> 0" using a C i by (auto simp: scaled_cauchy_def)
    have "galois_single_multiply F (matrix ! (i * k + j)) (z j) =
        galois_single_multiply F (r i) (galois_single_multiply F (q i j) (y j))" if "j \<in> E" for j
      using a C E i that r c [OF that] q [OF i that] z
      by (auto simp: scaled_cauchy_def y_def q_def mult_assoc elem_mult subset_iff)
    then have "galois_single_multiply F (r i) (xsum_on k E (\<lambda>j. galois_single_multiply F (q i j) (y j))) =
        xsum_on k E (\<lambda>j. galois_single_multiply F (matrix ! (i * k + j)) (z j))"
      using r q [OF i] ely by (subst mult_xsum_on) (auto simp: elem_mult intro!: xsum_on_cong)
    moreover have "felem F (xsum_on k E (\<lambda>j. galois_single_multiply F (q i j) (y j)))"
      using q [OF i] ely by (intro elem_xsum_on elem_mult) auto
    ultimately show ?thesis using no_zero_div' [OF r(1) _ _ r(2)] sum i by simp
  qed
  then have sums: "\<forall>i\<in>C. xsum_on k E (\<lambda>j. galois_single_multiply F (q i j) (y j)) = 0" by blast
  have "finite E" using finite_subset [OF E] by simp
  moreover have "inj_on X C" "inj_on Y E" "\<forall>i\<in>C. felem F (X i)" "\<forall>j\<in>E. felem F (Y j)"
    using a inj_on_subset [OF _ C, of X] inj_on_subset [OF _ E, of Y] C E by (auto simp: scaled_cauchy_def)
  ultimately have "\<forall>j\<in>E. y j = 0"
    using cauchy_kernel [OF _ card E _ _ ely _ _ _ sums, of X Y] q by blast
  then show "\<forall>j\<in>E. z j = 0"
    using c z no_zero_div' unfolding y_def by metis
qed

text \<open>Two rows: ones, and distinct non-zero elements.\<close>

lemma two_rows_square_regular:
  assumes one: "\<forall>j<k. matrix ! j = 1" and p: "\<forall>j<k. felem F (matrix ! (k + j)) \<and> matrix ! (k + j) \<noteq> 0"
    and inj: "inj_on (\<lambda>j. matrix ! (k + j)) {..<k}"
  shows "square_regular F k 2 matrix"
  unfolding square_regular_def
proof (intro allI impI, elim conjE)
  fix C E z assume C: "C \<subseteq> {..<2}" and E: "E \<subseteq> {..<k}" and card: "card C = card E" and z: "\<forall>j. felem F (z j)"
    and sum: "\<forall>i\<in>C. xsum_on k E (\<lambda>j. galois_single_multiply F (matrix ! (i * k + j)) (z j)) = 0"
  have "card E \<le> 2" using card card_mono [OF _ C] by simp
  then consider "card E = 0" | "card E = 1" | "card E = 2" by linarith
  then show "\<forall>j\<in>E. z j = 0"
  proof cases
    case 1
    then show ?thesis using finite_subset [OF E] by simp
  next
    case 2
    then obtain e i where e: "E = {e}" "C = {i}" using card by (auto simp: card_1_singleton_iff)
    have el: "e < k" "i = 0 \<or> i = 1" using E C e by auto
    have mi: "felem F (matrix ! (i * k + e))" "matrix ! (i * k + e) \<noteq> 0" using el one p elem_1 by auto
    have "xsum_on k {e} f = f e" if "e < k" for f using xsum_on_insert [of e k "{}" f] that by simp
    then have "galois_single_multiply F (matrix ! (i * k + e)) (z e) = 0" using sum e el by simp
    then show ?thesis using mi z no_zero_div' e by auto
  next
    case 3
    obtain a b where ab: "E = {a, b}" "a \<noteq> b" using 3 by (auto simp: card_2_iff)
    have C2: "C = {..<2}" using C 3 card by (intro card_subset_eq) auto
    have k: "a < k" "b < k" using E ab by auto
    have two: "xsum_on k {a, b} f = f b XOR f a" for f
      using xsum_on_insert [of a k "{b}" f] xsum_on_insert [of b k "{}" f] k ab(2) by (simp add: insert_commute)
    have in_C: "0 \<in> C" "1 \<in> C" using C2 by auto
    note rows = sum [rule_format, OF in_C(1)] sum [rule_format, OF in_C(2)]
    have s0: "z b XOR z a = 0" using rows(1) one k z unfolding ab(1) two by (simp add: mult_1)
    have "galois_single_multiply F (matrix ! (k + b)) (z b) XOR galois_single_multiply F (matrix ! (k + a)) (z a) = 0"
      using rows(2) unfolding ab(1) two by simp
    then have "galois_single_multiply F (matrix ! (k + b) XOR matrix ! (k + a)) (z a) = 0"
      using s0 p k z by (simp add: mult_xor')
    moreover have "matrix ! (k + b) XOR matrix ! (k + a) \<noteq> 0" using inj k ab(2) by (auto dest: inj_onD)
    ultimately have "z a = 0" using no_zero_div' p k z elem_xor by metis
    then show ?thesis using s0 ab(1) by auto
  qed
qed

end

text \<open>
  Any loss of at most m devices is repaired when every square submatrix of the coding matrix
  is regular.
\<close>

lemma decode_any_loss:
  assumes "matrix_ok k m w matrix" "0 < m" "row_k_ones \<longrightarrow> (\<forall>j<k. matrix ! j = 1)"
    "square_regular (galois_default w) k m matrix"
    "encoded (galois_default w) (w div 8) k m matrix sz D" "devices_ok k m w sz st"
    "\<forall>e\<in>set xs. e \<noteq> - 1 \<and> unat e < k + m" "card (unat ` set xs) \<le> m"
    "\<forall>d<k + m. d \<notin> unat ` set xs \<longrightarrow> dev st ! d = D ! d"
  shows "\<exists>st'. jerasure_matrix_decode k m w matrix row_k_ones (xs @ - 1 # ys) sz st = Some (0, st') \<and> dev st' = D"
proof -
  have "correct_field (galois_default w)"
    using assms(1) by (intro correct_field_default) (simp add: matrix_ok_def)
  then have "recoverable (galois_default w) k m matrix (erased_flags (k + m) xs)"
    using correct_field.square_regular_recoverable assms(4,7,8) alive_flags [of xs k m] by blast
  then show ?thesis using decode_default [OF assms(1-3,5-9)] by blast
qed

text \<open>Encoding and then losing any m devices: the code survives.\<close>

lemma square_regular_survives:
  assumes "matrix_ok k m w matrix" "0 < m" "row_k_ones \<longrightarrow> (\<forall>j<k. matrix ! j = 1)"
    "square_regular (galois_default w) k m matrix" "devices_ok k m w sz st"
  shows "\<exists>st1. jerasure_matrix_encode k m w matrix sz st = Some st1 \<and> take k (dev st1) = take k (dev st) \<and>
    (\<forall>st2 xs ys. devices_ok k m w sz st2 \<and> (\<forall>e\<in>set xs. e \<noteq> - 1 \<and> unat e < k + m) \<and> card (unat ` set xs) \<le> m \<and>
       (\<forall>d<k + m. d \<notin> unat ` set xs \<longrightarrow> dev st2 ! d = dev st1 ! d) \<longrightarrow>
       (\<exists>st3. jerasure_matrix_decode k m w matrix row_k_ones (xs @ - 1 # ys) sz st2 = Some (0, st3) \<and> dev st3 = dev st1))"
proof -
  obtain st1 where st1: "jerasure_matrix_encode k m w matrix sz st = Some st1"
    "encoded (galois_default w) (w div 8) k m matrix sz (dev st1)" "take k (dev st1) = take k (dev st)"
    using encode_default [OF assms(1,5)] by blast
  have "\<exists>st3. jerasure_matrix_decode k m w matrix row_k_ones (xs @ - 1 # ys) sz st2 = Some (0, st3) \<and> dev st3 = dev st1"
    if "devices_ok k m w sz st2 \<and> (\<forall>e\<in>set xs. e \<noteq> - 1 \<and> unat e < k + m) \<and> card (unat ` set xs) \<le> m \<and>
       (\<forall>d<k + m. d \<notin> unat ` set xs \<longrightarrow> dev st2 ! d = dev st1 ! d)" for st2 xs ys
    using that by (intro decode_any_loss [OF assms(1-4) st1(2)]) auto
  then show ?thesis using st1(1,3) by blast
qed

end
