(* ===== verification/Jer_Bit_Mds.thy ===== *)
theory Jer_Bit_Mds
  imports Jer_Sched_Correct Jer_Mds
begin

text \<open>
  The bit matrix of a matrix whose square submatrices are regular survives the loss of any m
  devices: w packets of a stripe, read bit by bit, are the bits of words of the field.
\<close>

text \<open>The word of the w bits of device i.\<close>

definition word_of_bits :: "nat \<Rightarrow> (nat \<Rightarrow> u32) \<Rightarrow> nat \<Rightarrow> u32" where
  "word_of_bits w x i = xsum w (\<lambda>l. if x (i * w + l) = 1 then push_bit l 1 else 0)"

lemma bit_word_of_bits: "l < w \<Longrightarrow> w \<le> 32 \<Longrightarrow> bit (word_of_bits w x i) l \<longleftrightarrow> x (i * w + l) = 1"
proof -
  assume l: "l < w" "w \<le> 32"
  have "bit (xsum n (\<lambda>l. if x (i * w + l) = 1 then push_bit l (1 :: u32) else 0)) l \<longleftrightarrow> l < n \<and> x (i * w + l) = 1" for n
    using l by (induction n) (auto simp: bit_simps less_Suc_eq)
  then show ?thesis using l by (simp add: word_of_bits_def)
qed

lemma elem_word_of_bits: "w \<le> 32 \<Longrightarrow> gf_elem w (word_of_bits w x i)"
  unfolding word_of_bits_def
  by (rule gf_elem_xsum) (auto intro!: gf_elemI simp: bit_simps)

lemma of_bit_word_of_bits: "l < w \<Longrightarrow> w \<le> 32 \<Longrightarrow> x (i * w + l) \<in> {0, 1} \<Longrightarrow> of_bit (bit (word_of_bits w x i) l) = x (i * w + l)"
  by (auto simp: bit_word_of_bits of_bit_def)

lemma elem_eq_0I: "gf_elem w a \<Longrightarrow> (\<And>l. l < w \<Longrightarrow> \<not> bit a l) \<Longrightarrow> a = 0"
  by (rule bit_word_eqI) (simp, metis gf_elem_bit not_less)

context correct_field
begin

lemma bit_row_codeword:
  assumes w: "w = h_w (scratch F)" and m: "coding_matrix F k m matrix" and d: "k \<le> d" "d < k + m" and l: "l < w"
    and x: "\<And>c. x c \<in> {0, 1}"
  shows "xsum (k * w) (\<lambda>c. gen_row (k * w) (jerasure_matrix_to_bitmatrix F k m w matrix) (d * w + l) c AND x c) =
    of_bit (bit (codeword F k matrix (word_of_bits w x) d) l)"
proof -
  let ?bm = "jerasure_matrix_to_bitmatrix F k m w matrix" and ?y = "word_of_bits w x"
  have w32: "w \<le> 32" using w correct by (auto simp: gf_correct_def h_primitive_def gf_primitive_def)
  have le: "k * w \<le> d * w" using d(1) by (rule mult_le_mono1)
  then have ge: "\<not> d * w + l < k * w" by linarith
  have "xsum (k * w) (\<lambda>c. gen_row (k * w) ?bm (d * w + l) c AND x c) =
      xsum k (\<lambda>j. xsum w (\<lambda>y. gen_row (k * w) ?bm (d * w + l) (j * w + y) AND x (j * w + y)))"
    by (rule xsum_nested [symmetric])
  also have "\<dots> = xsum k (\<lambda>j. of_bit (bit (galois_single_multiply F (gen_row k matrix d j) (?y j)) l))"
  proof (rule xsum_cong)
    fix j assume j: "j < k"
    have i: "d - k < m" using d by linarith
    have e: "felem F (matrix ! ((d - k) * k + j))"
      using m i j mat_index_lt [OF i j] by (simp add: coding_matrix_def)
    have "of_bit (bit (galois_single_multiply F (matrix ! ((d - k) * k + j)) (?y j)) l) =
        xsum w (\<lambda>y. ?bm ! block_index k w (d - k) j l y AND of_bit (bit (?y j) y))"
      by (rule to_bitmatrix_block [OF i j w l e]) (use elem_word_of_bits [OF w32] w in simp)
    also have "\<dots> = xsum w (\<lambda>y. gen_row (k * w) ?bm (d * w + l) (j * w + y) AND x (j * w + y))"
    proof (rule xsum_cong)
      fix y assume y: "y < w"
      have "d * w + l - k * w = (d - k) * w + l" using le by (simp add: diff_mult_distrib)
      then show "?bm ! block_index k w (d - k) j l y AND of_bit (bit (?y j) y) =
          gen_row (k * w) ?bm (d * w + l) (j * w + y) AND x (j * w + y)"
        using ge by (simp add: gen_row_def block_index_def of_bit_word_of_bits [OF y w32 x])
    qed
    finally show "xsum w (\<lambda>y. gen_row (k * w) ?bm (d * w + l) (j * w + y) AND x (j * w + y)) =
        of_bit (bit (galois_single_multiply F (gen_row k matrix d j) (?y j)) l)"
      using d(1) by (simp add: gen_row_def)
  qed
  finally show ?thesis by (simp add: codeword_def of_bit_xsum)
qed

lemma bit_mds_of_regular:
  assumes w: "w = h_w (scratch F)" and m: "coding_matrix F k m matrix" "square_regular F k m matrix"
  shows "bit_mds k m w (jerasure_matrix_to_bitmatrix F k m w matrix)"
  unfolding bit_mds_def bit_regular_def
proof (intro allI impI, elim conjE)
  fix f A x c
  let ?bm = "jerasure_matrix_to_bitmatrix F k m w matrix"
  assume f: "inj_on f {..<k}" and A: "device_rows k m w ?bm f A" and c: "c < k * w"
    and x: "\<forall>c. x c \<in> {0, 1 :: u32}" "\<forall>r<k * w. xsum (k * w) (\<lambda>c. mf (k * w) A r c AND x c) = 0"
  have w32: "w \<le> 32" using w correct by (auto simp: gf_correct_def h_primitive_def gf_primitive_def)
  have w0: "0 < w" using c by (cases w) auto
  define y where "y = word_of_bits w x"
  have y: "\<forall>j. felem F (y j)" using elem_word_of_bits [OF w32] w by (simp add: y_def)
  have row: "xsum (k * w) (\<lambda>c. gen_row (k * w) ?bm (f i * w + l) c AND x c) = 0" if i: "i < k" "l < w" for i l
  proof -
    have "xsum (k * w) (\<lambda>c. gen_row (k * w) ?bm (f i * w + l) c AND x c) = xsum (k * w) (\<lambda>c. mf (k * w) A (i * w + l) c AND x c)"
      using A i by (intro xsum_cong) (simp add: device_rows_def)
    then show ?thesis using x(2) mat_index_lt [OF i] by simp
  qed
  have zero: "codeword F k matrix y (f i) = 0" if i: "i < k" for i
  proof (rule elem_eq_0I [of w])
    have fi: "f i < k + m" using A i by (simp add: device_rows_def)
    then show "gf_elem w (codeword F k matrix y (f i))" using elem_codeword [OF m(1)] y w by blast
    fix l assume l: "l < w"
    show "\<not> bit (codeword F k matrix y (f i)) l"
    proof (cases "f i < k")
      case True
      have fl: "f i * w + l < k * w" using mat_index_lt [OF True l] .
      have "xsum (k * w) (\<lambda>c. gen_row (k * w) ?bm (f i * w + l) c AND x c) = 1 AND x (f i * w + l)"
        using fl by (subst xsum_single [OF fl]) (auto simp: gen_row_def)
      then have "x (f i * w + l) = 0" using row [OF i l] x(1) [rule_format, of "f i * w + l"] by auto
      then have "\<not> bit (y (f i)) l" using bit_word_of_bits [OF l w32] by (simp add: y_def)
      then show ?thesis using codeword_data [of k y "f i" matrix] y True by simp
    next
      case False
      then have "of_bit (bit (codeword F k matrix y (f i)) l) = 0"
        using bit_row_codeword [OF w m(1) _ fi l, of x] row [OF i l] x(1) by (simp add: y_def)
      then show ?thesis by (simp add: of_bit_def split: if_splits)
    qed
  qed
  define ids where "ids = map f [0..<k]"
  have ids: "length ids = k" "distinct ids" "\<forall>d\<in>set ids. d < k + m"
    using f A by (auto simp: ids_def distinct_map atLeast0LessThan device_rows_def)
  have "regular k (mf k (decoding_rows k matrix ids))" by (rule square_regular_rows [OF m(2) ids])
  moreover have "mvec k (mf k (decoding_rows k matrix ids)) y r = 0" if "r < k" for r
  proof -
    have "mvec k (mf k (decoding_rows k matrix ids)) y r = codeword F k matrix y (ids ! r)"
      unfolding codeword_def mat_vec_def mf_def using that decoding_rows_entry by (intro xsum_cong) auto
    then show ?thesis using zero [OF that] that by (simp add: ids_def)
  qed
  ultimately have y0: "y j = 0" if "j < k" for j using y that unfolding mat_regular_def by blast
  have "c div w < k" "c mod w < w" using c w0 by (simp_all add: less_mult_imp_div_less)
  then have "x (c div w * w + c mod w) \<noteq> 1" using bit_word_of_bits [of "c mod w" w x "c div w"] y0 w32 by (simp add: y_def)
  then show "x c = 0" using x(1) by (metis div_mult_mod_eq insertE singletonD)
qed

lemma to_bitmatrix_ok:
  assumes w: "w = h_w (scratch F)" and m: "coding_matrix F k m matrix" "rows_nonzero k m matrix"
  shows "bitmatrix_ok k m w (jerasure_matrix_to_bitmatrix F k m w matrix)"
proof -
  let ?bm = "jerasure_matrix_to_bitmatrix F k m w matrix"
  have w32: "w \<le> 32" "0 < w" using w correct by (auto simp: gf_correct_def h_primitive_def gf_primitive_def)
  have entry: "?bm ! ((i * w + l) * (k * w) + (j * w + x)) = 0 \<or> ?bm ! ((i * w + l) * (k * w) + (j * w + x)) = 1"
    if "i < m" "j < k" "x < w" "l < w" for i j x l
    using to_bitmatrix_entry(2) [OF that, of F matrix] by (simp add: block_index_def)
  have len: "length ?bm = m * w * (k * w)"
  proof (cases "m = 0 \<or> k = 0")
    case True
    have "fold (\<lambda>i t. t) xs s = s" for xs :: "nat list" and s :: "u32 list" by (induction xs) auto
    then show ?thesis
      using True by (auto simp: jerasure_matrix_to_bitmatrix_def case_prod_unfold)
  next
    case False
    then show ?thesis using to_bitmatrix_entry(1) [of 0 m 0 k 0 w 0 F matrix] w32 by (simp add: mult_ac)
  qed
  have split: "r div w < R" "r mod w < w" "r = r div w * w + r mod w" if "r < R * w" for r R
    using that w32 by (simp_all add: less_mult_imp_div_less)
  have "mf (k * w) ?bm r c = 0 \<or> mf (k * w) ?bm r c = 1" if "r < m * w" "c < k * w" for r c
    using entry [OF split(1) [OF that(1)] split(1,2) [OF that(2)] split(2) [OF that(1)]] by (simp add: mf_def)
  then have "bits ?bm" using bits_mf [OF len] by blast
  moreover have "\<exists>c<k * w. ?bm ! (r * (k * w) + c) \<noteq> 0" if r: "r < m * w" for r
  proof (rule ccontr)
    assume none: "\<not> (\<exists>c<k * w. ?bm ! (r * (k * w) + c) \<noteq> 0)"
    note r = split [OF r]
    obtain j where j: "j < k" "matrix ! (r div w * k + j) \<noteq> 0" using m(2) r(1) unfolding rows_nonzero_def by blast
    let ?e = "matrix ! (r div w * k + j)" and ?b = "push_bit (r mod w) 1 :: u32"
    have e: "felem F ?e" using m(1) mat_index_lt [OF r(1) j(1)] by (simp add: coding_matrix_def)
    have b: "felem F ?b" using r(2) w by (auto intro!: gf_elemI simp: bit_simps)
    let ?y = "gdiv F ?b ?e"
    have y: "felem F ?y" "galois_single_multiply F ?e ?y = ?b"
      using elem_divd [OF b e j(2)] divd_mult [OF b e j(2)] mult_comm [OF e] by auto
    have "of_bit (bit ?b (r mod w)) =
        xsum w (\<lambda>x. ?bm ! block_index k w (r div w) j (r mod w) x AND of_bit (bit ?y x))"
      using to_bitmatrix_block [OF r(1) j(1) w r(2) e y(1)] y(2) by simp
    also have "\<dots> = 0"
      using none r(3) mat_index_lt [OF j(1), of _ w] by (intro xsum_zeroI) (simp add: block_index_def)
    finally show False using r(2) w32 by (simp add: of_bit_def bit_simps)
  qed
  ultimately show ?thesis using w32 len by (simp add: bitmatrix_ok_def rows_nonzero_def)
qed

text \<open>A first row of ones becomes a block row of unit blocks.\<close>

lemma times_two_power: "x < w \<Longrightarrow> w = h_w (scratch F) \<Longrightarrow> (gf_xtime w pp ^^ x) 1 = push_bit x 1"
proof (induction x)
  case (Suc x)
  have w: "w \<le> 32" using Suc.prems(2) correct by (auto simp: gf_correct_def h_primitive_def gf_primitive_def)
  have "(gf_xtime w pp ^^ Suc x) 1 = gf_xtime w pp (push_bit x 1)" using Suc by simp
  also have "\<dots> = push_bit (Suc x) 1"
    unfolding gf_xtime_def using Suc.prems(1) w by (intro bit_word_eqI) (auto simp: bit_simps)
  finally show ?case .
qed simp

lemma to_bitmatrix_parity:
  assumes w: "w = h_w (scratch F)" and m: "0 < m" "\<forall>j<k. matrix ! j = 1"
  shows "parity_block k w (jerasure_matrix_to_bitmatrix F k m w matrix)"
  unfolding parity_block_def
proof (intro allI impI)
  let ?bm = "jerasure_matrix_to_bitmatrix F k m w matrix"
  fix l c assume l: "l < w" and c: "c < k * w"
  have w32: "w \<le> 32" using w correct by (auto simp: gf_correct_def h_primitive_def gf_primitive_def)
  have s: "c div w < k" "c mod w < w" "c = c div w * w + c mod w" using c l by (simp_all add: less_mult_imp_div_less)
  have "?bm ! block_index k w 0 (c div w) l (c mod w) =
      (if bit (((\<lambda>e. galois_single_multiply F e 2) ^^ (c mod w)) (matrix ! (c div w))) l then 1 else 0)"
    using to_bitmatrix_entry(2) [OF m(1) s(1,2) l] by simp
  also have "\<dots> = (if c mod w = l then 1 else 0)"
    using times_two_iterate [of 1 "c mod w"] times_two_power [OF s(2) w] m(2) s(1,2) w w32 l elem_1
    by (simp add: bit_simps)
  finally show "?bm ! (l * (k * w) + c) = (if c mod w = l then 1 else 0)"
    by (simp add: block_index_def)
qed

end

lemma default_bitmatrix:
  assumes "matrix_ok k m w matrix"
  defines "bm \<equiv> jerasure_matrix_to_bitmatrix (galois_default w) k m w matrix"
  shows "bitmatrix_ok k m w bm"
    and "square_regular (galois_default w) k m matrix \<Longrightarrow> bit_mds k m w bm"
    and "0 < m \<Longrightarrow> \<forall>j<k. matrix ! j = 1 \<Longrightarrow> parity_block k w bm"
proof -
  have F: "correct_field (galois_default w)"
    using assms(1) by (intro correct_field_default) (simp add: matrix_ok_def)
  have w: "w = h_w (scratch (galois_default w))"
    using assms(1) default_8(3) default_16(3) default_32(3) by (auto simp: matrix_ok_def)
  note c = assms(1) [unfolded matrix_ok_def]
  show "bitmatrix_ok k m w bm" unfolding bm_def using correct_field.to_bitmatrix_ok [OF F w] c by blast
  show "bit_mds k m w bm" if "square_regular (galois_default w) k m matrix"
    unfolding bm_def using correct_field.bit_mds_of_regular [OF F w] c that by blast
  show "parity_block k w bm" if "0 < m" "\<forall>j<k. matrix ! j = 1"
    unfolding bm_def by (rule correct_field.to_bitmatrix_parity [OF F w that])
qed

lemma bit_mds_recoverable:
  assumes "bitmatrix_ok k m w bm" "bit_mds k m w bm" "k \<le> alive (k + m) erased"
  shows "bit_recoverable k m w bm erased"
proof -
  have "device_rows k m w bm ((!) (dm_ids k m erased)) (decoding_bitrows k w bm (dm_ids k m erased))"
    using make_decoding_bitmatrix [OF assms(1,3)] by blast
  moreover have "inj_on ((!) (dm_ids k m erased)) {..<k}"
    using distinct_dm_ids [of k m erased] assms(3) by (auto simp: inj_on_def length_dm_ids nth_eq_iff_index_eq)
  ultimately show ?thesis using assms(2) unfolding bit_mds_def bit_recoverable_def by blast
qed

lemma bit_decode_any_loss:
  assumes "bitmatrix_ok k m w bm" "bit_mds k m w bm" "0 < m" "row_k_ones = 1 \<longrightarrow> parity_block k w bm"
    and "bit_encoded k m w bm sz ps D" "packets_ok (k + m) sz ps st" "ps * w dvd sz"
    and "\<forall>e\<in>set xs. e \<noteq> - 1 \<and> unat e < k + m" "card (unat ` set xs) \<le> m"
      "\<forall>d<k + m. d \<notin> unat ` set xs \<longrightarrow> dev st ! d = D ! d"
  shows "\<exists>st'. jerasure_bitmatrix_decode k m w bm row_k_ones (xs @ - 1 # ys) sz ps st = Some (0, st') \<and> dev st' = D"
proof -
  have "bit_recoverable k m w bm (erased_flags (k + m) xs)"
    using bit_mds_recoverable [OF assms(1,2)] alive_flags [of xs k m] assms(8,9) by blast
  then show ?thesis using bit_decode [OF assms(1,3-10)] by blast
qed

lemma bit_decode_refuses:
  assumes "bitmatrix_ok k m w bm" "\<forall>e\<in>set xs. e \<noteq> - 1 \<and> unat e < k + m"
    and "m < card (unat ` set xs) \<or>
      \<not> bit_recoverable k m w bm (erased_flags (k + m) xs) \<and> (\<exists>d<k. d \<in> unat ` set xs) \<and> row_k_ones \<noteq> 1"
  shows "jerasure_bitmatrix_decode k m w bm row_k_ones (xs @ - 1 # ys) sz ps st = Some (- 1, st)"
proof (cases "m < card (unat ` set xs)")
  case True
  then show ?thesis using erasures_to_erased [OF assms(2)] by (simp add: jerasure_bitmatrix_decode_def)
next
  case False
  define erased where "erased = erased_flags (k + m) xs"
  have flags: "jerasure_erasures_to_erased k m (xs @ - 1 # ys) = Some (Some erased)"
    using erasures_to_erased [OF assms(2)] False by (simp add: erased_def)
  have al: "k \<le> alive (k + m) erased" using alive_flags [of xs k m] assms(2) False unfolding erased_def by auto
  have sing: "\<not> bit_recoverable k m w bm erased" "row_k_ones \<noteq> 1" and d: "\<exists>d<k. d \<in> unat ` set xs"
    using assms(3) False by (auto simp: erased_def)
  from d obtain d where "d < k" "erased ! d \<noteq> 0" by (auto simp: erased_def nth_append)
  then have l: "0 < lost k erased" using lost_less by fastforce
  obtain lastd where ld: "erased_data k erased = (lost k erased, lastd)" using erased_data [of k erased] by blast
  obtain dm where r: "jerasure_make_decoding_bitmatrix k m w bm erased = Some (- 1, dm, dm_ids k m erased)"
    using make_decoding_bitmatrix [OF assms(1) al] sing(1) by auto
  show ?thesis
    unfolding jerasure_bitmatrix_decode_def flags bind.bind_lunit option.case Let_def ld prod.case
    using l sing(2) r by simp
qed

text \<open>Encoding, the loss of any m devices and decoding, by both decoders.\<close>

lemma bit_mds_survives:
  assumes bm: "bitmatrix_ok k m w bm" "bit_mds k m w bm" "parity_block k w bm" and m: "0 < m" "k + m \<le> 2 ^ 31"
    and ok: "packets_ok (k + m) sz ps st" "ps * w dvd sz" "8 dvd ps"
  shows "\<exists>st1. jerasure_bitmatrix_encode k m w bm sz ps st = Some st1 \<and> packets_ok (k + m) sz ps st1 \<and>
    take k (dev st1) = take k (dev st) \<and>
    (\<forall>st2 xs ys smart. packets_ok (k + m) sz ps st2 \<and> erasures_ok k m xs \<and> (smart \<longrightarrow> xs \<noteq> []) \<and>
       (\<forall>d<k + m. d \<notin> unat ` set xs \<longrightarrow> dev st2 ! d = dev st1 ! d) \<longrightarrow>
       (\<exists>st3. jerasure_bitmatrix_decode k m w bm 1 (xs @ - 1 # ys) sz ps st2 = Some (0, st3) \<and> dev st3 = dev st1) \<and>
       (\<exists>st3. jerasure_schedule_decode_lazy k m w bm (xs @ - 1 # ys) sz ps smart st2 = Some (0, st3) \<and> dev st3 = dev st1))"
proof -
  obtain st1 where st1: "jerasure_bitmatrix_encode k m w bm sz ps st = Some st1" "packets_ok (k + m) sz ps st1"
    "bit_encoded k m w bm sz ps (dev st1)" "take k (dev st1) = take k (dev st)"
    using bit_encode [OF bm(1) ok] by blast
  have "(\<exists>st3. jerasure_bitmatrix_decode k m w bm 1 (xs @ - 1 # ys) sz ps st2 = Some (0, st3) \<and> dev st3 = dev st1) \<and>
      (\<exists>st3. jerasure_schedule_decode_lazy k m w bm (xs @ - 1 # ys) sz ps smart st2 = Some (0, st3) \<and> dev st3 = dev st1)"
    if a: "packets_ok (k + m) sz ps st2 \<and> erasures_ok k m xs \<and> (smart \<longrightarrow> xs \<noteq> []) \<and>
       (\<forall>d<k + m. d \<notin> unat ` set xs \<longrightarrow> dev st2 ! d = dev st1 ! d)" for st2 xs ys smart
    using bit_decode_any_loss [OF bm(1,2) m(1) _ st1(3) _ ok(2), of 1 st2 xs ys] bm(3) erasures_okD [of k m xs] a
      schedule_decode_lazy [OF bm(1,2) _ m(2) _ st1(3) _ ok(2), of xs smart st2 ys] by blast
  then show ?thesis using st1(1,2,4) by blast
qed

end
