(* ===== verification/Cauchy.thy ===== *)
theory Cauchy
  imports Jer_Mds Cauchy_Tables
begin

text \<open>
  The coding matrices of cauchy.c.  The functions take the field for the word size; the
  three static arrays that \<open>cauchy_n_ones\<close> fills on the first use of a word size are the
  record \<open>cauchy_state\<close>.  Entry -1 of PPs marks a word size not used so far.
\<close>

record cauchy_state =
  PPs :: "nat \<Rightarrow> u32"
  NOs :: "nat \<Rightarrow> nat"
  ONEs :: "nat \<Rightarrow> u32 list"

definition cauchy_start :: cauchy_state where
  "cauchy_start = \<lparr>PPs = (\<lambda>_. - 1), NOs = (\<lambda>_. 0), ONEs = (\<lambda>_. [])\<rparr>"

text \<open>The first use of a word size: the field polynomial and its bits.\<close>

definition n_ones_prepare :: "gf_t \<Rightarrow> nat \<Rightarrow> cauchy_state \<Rightarrow> cauchy_state" where
  "n_ones_prepare F w st =
    (if PPs st w = - 1
     then let pp = galois_single_multiply F (push_bit (w - 1) 1) 2;
              ones = fold (\<lambda>i ones. if pp AND push_bit i 1 \<noteq> 0 then ones @ [push_bit i 1] else ones) [0..<w] []
          in \<lparr>PPs = (PPs st)(w := pp), NOs = (NOs st)(w := length ones), ONEs = (ONEs st)(w := ones)\<rparr>
     else st)"

definition n_ones_step :: "nat \<Rightarrow> cauchy_state \<Rightarrow> nat \<Rightarrow> u32 \<times> int \<times> int \<Rightarrow> u32 \<times> int \<times> int" where
  "n_ones_step w st i = (\<lambda>(n, cno, no).
    let (n, cno) =
      (if n AND push_bit (w - 1) 1 \<noteq> 0
       then let n = push_bit 1 (n XOR push_bit (w - 1) 1) XOR PPs st w
            in (n, fold (\<lambda>j cno. cno + (if n AND ONEs st w ! j \<noteq> 0 then 1 else - 1)) [0..<NOs st w] (cno - 1))
       else (push_bit 1 n, cno))
    in (n, cno, no + cno))"

definition cauchy_n_ones :: "gf_t \<Rightarrow> u32 \<Rightarrow> nat \<Rightarrow> cauchy_state \<Rightarrow> int \<times> cauchy_state" where
  "cauchy_n_ones F n w st =
    (let st = n_ones_prepare F w st;
         no = fold (\<lambda>i no. if n AND push_bit i 1 \<noteq> 0 then no + 1 else no) [0..<w] 0;
         (n, cno, no) = fold (n_ones_step w st) [1..<w] (n, no, no)
     in (no, st))"

definition cauchy_xy_coding_matrix :: "gf_t \<Rightarrow> nat \<Rightarrow> nat \<Rightarrow> u32 list \<Rightarrow> u32 list \<Rightarrow> u32 list option" where
  "cauchy_xy_coding_matrix F k m X Y =
    ofold (\<lambda>(i, j) matrix. map_option (\<lambda>v. matrix @ [v]) (galois_single_divide F 1 (X ! i XOR Y ! j)))
      (List.product [0..<m] [0..<k]) []"

text \<open>The outer None is a division that does not return, the inner one is NULL.\<close>

definition cauchy_original_coding_matrix :: "gf_t \<Rightarrow> nat \<Rightarrow> nat \<Rightarrow> nat \<Rightarrow> u32 list option option" where
  "cauchy_original_coding_matrix F k m w =
    (if w < 31 \<and> k + m > 2 ^ w then Some None
     else map_option Some
       (ofold (\<lambda>(i, j) matrix. map_option (\<lambda>v. matrix @ [v]) (galois_single_divide F 1 (of_nat i XOR of_nat (m + j))))
         (List.product [0..<m] [0..<k]) []))"

text \<open>The first pass makes row 0 all ones by scaling the columns.\<close>

definition improve_column :: "gf_t \<Rightarrow> nat \<Rightarrow> nat \<Rightarrow> nat \<Rightarrow> u32 list \<Rightarrow> u32 list option" where
  "improve_column F k m j matrix =
    (if matrix ! j \<noteq> 1
     then obind (galois_single_divide F 1 (matrix ! j)) (\<lambda>tmp.
       Some (fold (\<lambda>i matrix. matrix[i * k + j := galois_single_multiply F (matrix ! (i * k + j)) tmp]) [0..<m] matrix))
     else Some matrix)"

definition row_ones :: "gf_t \<Rightarrow> nat \<Rightarrow> nat \<Rightarrow> (nat \<Rightarrow> u32) \<Rightarrow> cauchy_state \<Rightarrow> int \<times> cauchy_state" where
  "row_ones F k w v = fold (\<lambda>j (bno, st). let (n, st) = cauchy_n_ones F (v j) w st in (bno + n, st)) [0..<k] \<circ> Pair 0"

text \<open>The second pass divides each further row by the element that leaves the fewest ones.\<close>

definition improve_row_step ::
  "gf_t \<Rightarrow> nat \<Rightarrow> nat \<Rightarrow> u32 list \<Rightarrow> nat \<Rightarrow> nat \<Rightarrow> int \<times> nat option \<times> cauchy_state \<Rightarrow> (int \<times> nat option \<times> cauchy_state) option" where
  "improve_row_step F k w matrix i j = (\<lambda>(bno, bno_index, st).
    if matrix ! (i * k + j) \<noteq> 1
    then obind (galois_single_divide F 1 (matrix ! (i * k + j))) (\<lambda>tmp.
      let (tno, st) = row_ones F k w (\<lambda>x. galois_single_multiply F (matrix ! (i * k + x)) tmp) st
      in Some (if tno < bno then (tno, Some j, st) else (bno, bno_index, st)))
    else Some (bno, bno_index, st))"

definition improve_row ::
  "gf_t \<Rightarrow> nat \<Rightarrow> nat \<Rightarrow> nat \<Rightarrow> u32 list \<times> cauchy_state \<Rightarrow> (u32 list \<times> cauchy_state) option" where
  "improve_row F k w i = (\<lambda>(matrix, st).
    let (bno, st) = row_ones F k w (\<lambda>j. matrix ! (i * k + j)) st
    in obind (ofold (improve_row_step F k w matrix i) [0..<k] (bno, None, st)) (\<lambda>(bno, bno_index, st).
      case bno_index of
        None \<Rightarrow> Some (matrix, st)
      | Some b \<Rightarrow> obind (galois_single_divide F 1 (matrix ! (i * k + b))) (\<lambda>tmp.
          Some (fold (\<lambda>j matrix. matrix[i * k + j := galois_single_multiply F (matrix ! (i * k + j)) tmp]) [0..<k] matrix, st))))"

definition cauchy_improve_coding_matrix ::
  "gf_t \<Rightarrow> nat \<Rightarrow> nat \<Rightarrow> nat \<Rightarrow> u32 list \<Rightarrow> cauchy_state \<Rightarrow> (u32 list \<times> cauchy_state) option" where
  "cauchy_improve_coding_matrix F k m w matrix st =
    obind (ofold (improve_column F k m) [0..<k] matrix) (\<lambda>matrix.
    ofold (improve_row F k w) [1..<m] (matrix, st))"

definition cauchy_good_general_coding_matrix ::
  "gf_t \<Rightarrow> nat \<Rightarrow> nat \<Rightarrow> nat \<Rightarrow> cauchy_state \<Rightarrow> (u32 list option \<times> cauchy_state) option" where
  "cauchy_good_general_coding_matrix F k m w st =
    (if m = 2 \<and> int k \<le> cbest_max_k w
     then Some (Some (fold (\<lambda>i matrix. matrix[i := 1, i + k := cbest_all w ! i]) [0..<k] (replicate (k * m) 0)), st)
     else obind (cauchy_original_coding_matrix F k m w) (\<lambda>r.
       case r of
         None \<Rightarrow> Some (None, st)
       | Some matrix \<Rightarrow> map_option (\<lambda>(matrix, st). (Some matrix, st)) (cauchy_improve_coding_matrix F k m w matrix st)))"

section \<open>Cauchy matrices\<close>

lemma ofold_append_values:
  assumes "\<And>x. x \<in> set xs \<Longrightarrow> f x = Some (v x)"
  shows "ofold (\<lambda>x t. map_option (\<lambda>y. t @ [y]) (f x)) xs t = Some (t @ map v xs)"
  using assms by (induction xs arbitrary: t) auto

lemma nth_map_product:
  assumes "i < m" "j < k"
  shows "map f (List.product [0..<m] [0..<k]) ! (i * k + j) = f (i, j)"
  using assms mat_index_lt [OF assms] by (simp add: product_nth)

lemma nth_scale_column:
  assumes "length t = m * k" "j < k" "r < m" "s < k"
  shows "fold (\<lambda>i t. t[i * k + j := g (t ! (i * k + j))]) [0..<m] t ! (r * k + s) =
    (if s = j then g (t ! (r * k + s)) else t ! (r * k + s))"
proof -
  have "r * k + s \<in> (\<lambda>i. i * k + j) ` set [0..<m] \<longleftrightarrow> s = j"
    using assms(2-4) mat_index_eq [OF assms(4,2)] by auto
  then show ?thesis
    using assms mat_index_lt [OF assms(3,4)] nth_fold_modify [of "[0..<m]" "\<lambda>i. i * k + j" "r * k + s" t g]
    by (auto simp: inj_on_def)
qed

lemma nth_scale_row:
  assumes "length t = m * k" "i < m" "r < m" "s < k"
  shows "fold (\<lambda>j t. t[i * k + j := g (t ! (i * k + j))]) [0..<k] t ! (r * k + s) =
    (if r = i then g (t ! (r * k + s)) else t ! (r * k + s))"
proof -
  have "r * k + s \<in> (\<lambda>j. i * k + j) ` set [0..<k] \<longleftrightarrow> r = i"
    using assms(2-4) mat_index_eq [OF assms(4), of _ r i] unfolding image_iff set_upt by (metis atLeastLessThan_iff zero_le)
  then show ?thesis
    using assms mat_index_lt [OF assms(3,4)] nth_fold_modify [of "[0..<k]" "\<lambda>j. i * k + j" "r * k + s" t g]
    by (auto simp: inj_on_def)
qed

context correct_field
begin

lemma divide_some: "felem F a \<Longrightarrow> felem F b \<Longrightarrow> b \<noteq> 0 \<Longrightarrow> galois_single_divide F a b = Some (gdiv F a b)"
  using single_divide [OF correct, of a b] by (auto simp: gdiv_def)

lemma cauchy_product_matrix:
  assumes "inj_on X {..<m}" "inj_on Y {..<k}" "\<forall>i<m. felem F (X i)" "\<forall>j<k. felem F (Y j)" "\<forall>i<m. \<forall>j<k. X i \<noteq> Y j"
  shows "\<exists>matrix. ofold (\<lambda>(i, j) matrix. map_option (\<lambda>v. matrix @ [v]) (galois_single_divide F 1 (X i XOR Y j)))
      (List.product [0..<m] [0..<k]) [] = Some matrix \<and> scaled_cauchy F k m X Y (\<lambda>_. 1) (\<lambda>_. 1) matrix"
proof -
  let ?v = "\<lambda>(i, j). gdiv F 1 (X i XOR Y j)"
  have "ofold (\<lambda>(i, j) matrix. map_option (\<lambda>v. matrix @ [v]) (galois_single_divide F 1 (X i XOR Y j)))
      (List.product [0..<m] [0..<k]) [] = Some ([] @ map ?v (List.product [0..<m] [0..<k]))"
    using assms ofold_append_values [of "List.product [0..<m] [0..<k]" "\<lambda>(i, j). galois_single_divide F 1 (X i XOR Y j)" ?v]
    by (auto simp: case_prod_unfold divide_some elem_1 elem_xor)
  moreover have "felem F (gdiv F 1 (X i XOR Y j))" if "i < m" "j < k" for i j
    using assms that by (intro elem_divd) (auto simp: elem_1 elem_xor)
  then have "scaled_cauchy F k m X Y (\<lambda>_. 1) (\<lambda>_. 1) (map ?v (List.product [0..<m] [0..<k]))"
    unfolding scaled_cauchy_def using assms by (auto simp: nth_map_product elem_1 mult_1 mult_1')
  ultimately show ?thesis by auto
qed

text \<open>Scaling a column or a row by a non-zero element.\<close>

lemma scaled_cauchy_column:
  assumes a: "scaled_cauchy F k m X Y r c matrix" and j: "j < k" and v: "felem F v" "v \<noteq> 0"
  shows "scaled_cauchy F k m X Y r (c(j := galois_single_multiply F (c j) v))
    (fold (\<lambda>i t. t[i * k + j := galois_single_multiply F (t ! (i * k + j)) v]) [0..<m] matrix)"
proof -
  have len: "length matrix = m * k" using a by (simp add: scaled_cauchy_def)
  have c: "felem F (c j)" "c j \<noteq> 0" using a j by (auto simp: scaled_cauchy_def)
  have "galois_single_multiply F (c j) v \<noteq> 0" using no_zero_div [OF c(1) v(1)] c v by blast
  moreover have "galois_single_multiply F (matrix ! (i * k + j)) v =
      galois_single_multiply F (r i) (galois_single_multiply F (gdiv F 1 (X i XOR Y j)) (galois_single_multiply F (c j) v))"
    if "i < m" for i
    using a c v that j scaled_cauchy_entry(1) [OF a that j] by (simp add: scaled_cauchy_def mult_assoc elem_mult)
  moreover have "length (fold (\<lambda>i t. t[i * k + j := galois_single_multiply F (t ! (i * k + j)) v]) [0..<m] matrix) = m * k"
    using len length_fold_modify [of "\<lambda>i. i * k + j" "\<lambda>x. galois_single_multiply F x v"] by simp
  ultimately show ?thesis
    using a c v unfolding scaled_cauchy_def
    by (auto simp: nth_scale_column [OF len j, where g = "\<lambda>x. galois_single_multiply F x v"] elem_mult)
qed

lemma scaled_cauchy_row:
  assumes a: "scaled_cauchy F k m X Y r c matrix" and i: "i < m" and v: "felem F v" "v \<noteq> 0"
  shows "scaled_cauchy F k m X Y (r(i := galois_single_multiply F v (r i))) c
    (fold (\<lambda>j t. t[i * k + j := galois_single_multiply F (t ! (i * k + j)) v]) [0..<k] matrix)"
proof -
  have len: "length matrix = m * k" using a by (simp add: scaled_cauchy_def)
  have r: "felem F (r i)" "r i \<noteq> 0" using a i by (auto simp: scaled_cauchy_def)
  have "galois_single_multiply F v (r i) \<noteq> 0" using no_zero_div [OF v(1) r(1)] r v by blast
  moreover have "galois_single_multiply F (matrix ! (i * k + j)) v =
      galois_single_multiply F (galois_single_multiply F v (r i)) (galois_single_multiply F (gdiv F 1 (X i XOR Y j)) (c j))"
    if "j < k" for j
  proof -
    note e = scaled_cauchy_entry [OF a i that]
    have cj: "felem F (c j)" using a that by (simp add: scaled_cauchy_def)
    have "galois_single_multiply F (matrix ! (i * k + j)) v = galois_single_multiply F v (matrix ! (i * k + j))"
      using e v by (simp add: mult_comm)
    then show ?thesis using a r v cj e that i by (simp add: scaled_cauchy_def mult_assoc elem_mult)
  qed
  moreover have "length (fold (\<lambda>j t. t[i * k + j := galois_single_multiply F (t ! (i * k + j)) v]) [0..<k] matrix) = m * k"
    using len length_fold_modify [of "\<lambda>j. i * k + j" "\<lambda>x. galois_single_multiply F x v"] by simp
  ultimately show ?thesis
    using a r v unfolding scaled_cauchy_def
    by (auto simp: nth_scale_row [OF len i, where g = "\<lambda>x. galois_single_multiply F x v"] elem_mult)
qed

text \<open>The first pass.\<close>

lemma improve_column:
  assumes a: "scaled_cauchy F k m X Y r c matrix" and j: "j < k" and m: "0 < m"
  shows "\<exists>c' matrix'. improve_column F k m j matrix = Some matrix' \<and> scaled_cauchy F k m X Y r c' matrix' \<and>
    matrix' ! j = 1 \<and> (\<forall>l<k. l \<noteq> j \<longrightarrow> matrix' ! l = matrix ! l)"
proof (cases "matrix ! j = 1")
  case True
  then show ?thesis using a by (auto simp: improve_column_def)
next
  case False
  have len: "length matrix = m * k" using a by (simp add: scaled_cauchy_def)
  note e = scaled_cauchy_entry(3,4) [OF a m j, simplified]
  define v where "v = gdiv F 1 (matrix ! j)"
  have v: "felem F v" "galois_single_multiply F v (matrix ! j) = 1"
    using elem_divd [OF elem_1 e] divd_mult [OF elem_1 e] by (auto simp: v_def)
  have "v \<noteq> 0" using v(2) mult_0' [OF e(1)] by auto
  note sc = scaled_cauchy_column [OF a j v(1) this]
  note nth = nth_scale_column [OF len j m, where g = "\<lambda>x. galois_single_multiply F x v", simplified]
  have "improve_column F k m j matrix =
      Some (fold (\<lambda>i t. t[i * k + j := galois_single_multiply F (t ! (i * k + j)) v]) [0..<m] matrix)"
    using False e elem_1 by (simp add: improve_column_def divide_some v_def)
  then show ?thesis
    using sc nth j v(2) mult_comm [OF e(1) v(1)] by auto
qed

lemma improve_columns:
  assumes "scaled_cauchy F k m X Y r c matrix" "0 < m"
  shows "\<exists>c' matrix'. ofold (improve_column F k m) [0..<k] matrix = Some matrix' \<and>
    scaled_cauchy F k m X Y r c' matrix' \<and> (\<forall>l<k. matrix' ! l = 1)"
proof -
  have "\<exists>t. ofold (improve_column F k m) [0..<k] matrix = Some t \<and>
      ((\<exists>c'. scaled_cauchy F k m X Y r c' t) \<and> (\<forall>l<k. t ! l = 1))"
  proof (rule ofold_upt_inv [where P = "\<lambda>j t. (\<exists>c'. scaled_cauchy F k m X Y r c' t) \<and> (\<forall>l<j. t ! l = 1)"])
    fix j t assume j: "j < k" and P: "(\<exists>c'. scaled_cauchy F k m X Y r c' t) \<and> (\<forall>l<j. t ! l = 1)"
    then obtain c' c'' t' where "improve_column F k m j t = Some t'" "scaled_cauchy F k m X Y r c'' t'" "t' ! j = 1"
      "\<forall>l<k. l \<noteq> j \<longrightarrow> t' ! l = t ! l" using improve_column [OF _ j assms(2)] by blast
    then show "\<exists>t'. improve_column F k m j t = Some t' \<and> (\<exists>c'. scaled_cauchy F k m X Y r c' t') \<and> (\<forall>l<Suc j. t' ! l = 1)"
      using P j by (auto simp: less_Suc_eq)
  qed (use assms(1) in auto)
  then show ?thesis by blast
qed

text \<open>The second pass, whatever the counts of ones are.\<close>

lemma improve_row_steps:
  assumes a: "scaled_cauchy F k m X Y r c matrix" and i: "i < m"
  shows "\<exists>bno b st'. ofold (improve_row_step F k w matrix i) [0..<k] (bno0, None, st) = Some (bno, b, st') \<and>
    (\<forall>j. b = Some j \<longrightarrow> j < k)"
proof -
  have "\<exists>s. ofold (improve_row_step F k w matrix i) [0..<k] (bno0, None, st) = Some s \<and>
      (case s of (bno, b, st') \<Rightarrow> \<forall>j. b = Some j \<longrightarrow> j < k)"
  proof (rule ofold_upt_inv [where P = "\<lambda>_ (bno, b, st'). \<forall>j. b = Some j \<longrightarrow> j < k"])
    fix j and s :: "int \<times> nat option \<times> cauchy_state" assume j: "j < k" and P: "case s of (bno, b, st') \<Rightarrow> \<forall>j. b = Some j \<longrightarrow> j < k"
    have "galois_single_divide F 1 (matrix ! (i * k + j)) = Some (gdiv F 1 (matrix ! (i * k + j)))"
      using scaled_cauchy_entry(3,4) [OF a i j] elem_1 by (simp add: divide_some)
    then show "\<exists>s'. improve_row_step F k w matrix i j s = Some s' \<and> (case s' of (bno, b, st') \<Rightarrow> \<forall>j. b = Some j \<longrightarrow> j < k)"
      using P j by (cases s) (auto simp: improve_row_step_def split: prod.splits)
  qed auto
  then show ?thesis by auto
qed

lemma improve_row:
  assumes a: "scaled_cauchy F k m X Y r c matrix" and i: "0 < i" "i < m"
  shows "\<exists>r' matrix' st'. improve_row F k w i (matrix, st) = Some (matrix', st') \<and>
    scaled_cauchy F k m X Y r' c matrix' \<and> (\<forall>l<k. matrix' ! l = matrix ! l)"
proof -
  obtain bno0 st0 where r: "row_ones F k w (\<lambda>j. matrix ! (i * k + j)) st = (bno0, st0)" by fastforce
  obtain bno b st' where s: "ofold (improve_row_step F k w matrix i) [0..<k] (bno0, None, st0) = Some (bno, b, st')"
    "\<forall>j. b = Some j \<longrightarrow> j < k" using improve_row_steps [OF a i(2)] by blast
  show ?thesis
  proof (cases b)
    case None
    then show ?thesis using r s a by (auto simp: improve_row_def)
  next
    case (Some j)
    then have j: "j < k" using s(2) by blast
    have len: "length matrix = m * k" using a by (simp add: scaled_cauchy_def)
    note e = scaled_cauchy_entry(3,4) [OF a i(2) j]
    define v where "v = gdiv F 1 (matrix ! (i * k + j))"
    have v: "felem F v" "galois_single_multiply F v (matrix ! (i * k + j)) = 1"
      using elem_divd [OF elem_1 e] divd_mult [OF elem_1 e] by (auto simp: v_def)
    have "v \<noteq> 0" using v(2) mult_0' [OF e(1)] by auto
    note sc = scaled_cauchy_row [OF a i(2) v(1) this]
    have "\<forall>l<k. fold (\<lambda>j t. t[i * k + j := galois_single_multiply F (t ! (i * k + j)) v]) [0..<k] matrix ! l = matrix ! l"
      using nth_scale_row [OF len i(2), of 0 _ "\<lambda>x. galois_single_multiply F x v"] i by auto
    then show ?thesis using r s(1) sc e elem_1 by (auto simp: improve_row_def Some divide_some v_def)
  qed
qed

lemma improve_coding_matrix:
  assumes a: "scaled_cauchy F k m X Y r c matrix" and m: "0 < m"
  shows "\<exists>r' c' matrix' st'. cauchy_improve_coding_matrix F k m w matrix st = Some (matrix', st') \<and>
    scaled_cauchy F k m X Y r' c' matrix' \<and> (\<forall>l<k. matrix' ! l = 1)"
proof -
  obtain c' t where t: "ofold (improve_column F k m) [0..<k] matrix = Some t" "scaled_cauchy F k m X Y r c' t"
    "\<forall>l<k. t ! l = 1" using improve_columns [OF assms] by blast
  have "\<exists>s. ofold (improve_row F k w) [1..<m] (t, st) = Some s \<and>
      (case s of (u, _) \<Rightarrow> (\<exists>r'. scaled_cauchy F k m X Y r' c' u) \<and> (\<forall>l<k. u ! l = 1))"
  proof (rule ofold_upt_inv [where P = "\<lambda>_ (u, _). (\<exists>r'. scaled_cauchy F k m X Y r' c' u) \<and> (\<forall>l<k. u ! l = 1)"])
    fix i and s :: "u32 list \<times> cauchy_state" assume i: "1 \<le> i" "i < m" and P: "case s of (u, _) \<Rightarrow> (\<exists>r'. scaled_cauchy F k m X Y r' c' u) \<and> (\<forall>l<k. u ! l = 1)"
    obtain u st1 where s: "s = (u, st1)" by (cases s)
    then obtain r1 where u: "scaled_cauchy F k m X Y r1 c' u" "\<forall>l<k. u ! l = 1" using P by auto
    from improve_row [OF u(1), of i w st1] i u(2)
    show "\<exists>s'. improve_row F k w i s = Some s' \<and> (case s' of (u, _) \<Rightarrow> (\<exists>r'. scaled_cauchy F k m X Y r' c' u) \<and> (\<forall>l<k. u ! l = 1))"
      unfolding s by fastforce
  qed (use m t in auto)
  then show ?thesis using t(1) by (auto simp: cauchy_improve_coding_matrix_def)
qed

end

section \<open>The coding matrices survive any loss\<close>

lemma of_nat_u32_inj: "a < 2 ^ 32 \<Longrightarrow> b < 2 ^ 32 \<Longrightarrow> (of_nat a :: u32) = of_nat b \<longleftrightarrow> a = b"
  by (simp add: word_of_nat_eq_iff take_bit_nat_eq_self)

lemma gf_elem_of_nat: "a < 2 ^ w \<Longrightarrow> w \<le> 32 \<Longrightarrow> gf_elem w (of_nat a)"
proof -
  assume a: "a < 2 ^ w" "w \<le> 32"
  then have "a < 2 ^ 32" using power_increasing [of w 32 "2 :: nat"] by linarith
  then show ?thesis using a by (simp add: gf_elem_def take_bit_of_nat take_bit_nat_eq_self)
qed

context correct_field
begin

lemma original_coding_matrix:
  assumes "k + m \<le> 2 ^ w" "w = h_w (scratch F)" "w \<le> 32"
  shows "\<exists>matrix. cauchy_original_coding_matrix F k m w = Some (Some matrix) \<and>
    scaled_cauchy F k m of_nat (\<lambda>j. of_nat (m + j)) (\<lambda>_. 1) (\<lambda>_. 1) matrix"
proof -
  have lim: "k + m \<le> 2 ^ 32" using assms(1,3) power_increasing [of w 32 "2 :: nat"] by linarith
  have "inj_on (of_nat :: nat \<Rightarrow> u32) {..<m}"
    by (rule inj_onI) (use lim of_nat_u32_inj in \<open>auto simp del: power_numeral\<close>)
  moreover have "inj_on (\<lambda>j. of_nat (m + j) :: u32) {..<k}"
  proof (rule inj_onI)
    fix x y assume "x \<in> {..<k}" "y \<in> {..<k}" "of_nat (m + x) = (of_nat (m + y) :: u32)"
    then show "x = y" using lim of_nat_u32_inj [of "m + x" "m + y"] by simp
  qed
  moreover have "of_nat i \<noteq> (of_nat (m + j) :: u32)" if "i < m" "j < k" for i j
    using that lim of_nat_u32_inj [of i "m + j"] by simp
  moreover have "felem F (of_nat i)" "felem F (of_nat (m + j))" if "i < m" "j < k" for i j
    using that assms gf_elem_of_nat [of i w] gf_elem_of_nat [of "m + j" w] by auto
  moreover have "felem F (of_nat i)" if "i < m" for i using that assms gf_elem_of_nat [of i w] by auto
  moreover have "felem F (of_nat (m + j))" if "j < k" for j using that assms gf_elem_of_nat [of "m + j" w] by auto
  ultimately show ?thesis
    using cauchy_product_matrix [of of_nat m "\<lambda>j. of_nat (m + j)" k] assms(1)
    by (auto simp: cauchy_original_coding_matrix_def)
qed

lemma good_general_improved:
  assumes "k + m \<le> 2 ^ w" "w = h_w (scratch F)" "w \<le> 32" "0 < m" "\<not> (m = 2 \<and> int k \<le> cbest_max_k w)"
  shows "\<exists>X Y r c matrix st'. cauchy_good_general_coding_matrix F k m w st = Some (Some matrix, st') \<and>
    scaled_cauchy F k m X Y r c matrix \<and> (\<forall>l<k. matrix ! l = 1)"
proof -
  obtain t where t: "cauchy_original_coding_matrix F k m w = Some (Some t)"
    "scaled_cauchy F k m of_nat (\<lambda>j. of_nat (m + j)) (\<lambda>_. 1) (\<lambda>_. 1) t"
    using original_coding_matrix [OF assms(1-3)] by blast
  from improve_coding_matrix [OF t(2) assms(4), of w st]
  obtain r c u st' where "cauchy_improve_coding_matrix F k m w t st = Some (u, st')"
    "scaled_cauchy F k m of_nat (\<lambda>j. of_nat (m + j)) r c u" "\<forall>l<k. u ! l = 1" by blast
  moreover have "cauchy_good_general_coding_matrix F k m w st = Some (Some u, st')"
    using t(1) calculation(1) assms(5) unfolding cauchy_good_general_coding_matrix_def by auto
  ultimately show ?thesis by blast
qed

lemma good_general_table:
  assumes "w = 8" "w = h_w (scratch F)" "k \<le> 255"
  shows "\<exists>matrix. cauchy_good_general_coding_matrix F k 2 w st = Some (Some matrix, st) \<and> length matrix = 2 * k \<and>
    (\<forall>j<k. matrix ! j = 1) \<and> (\<forall>j<k. matrix ! (k + j) = cbest_8 ! j)"
proof -
  define f where "f = (\<lambda>i (t :: u32 list). t[i := 1, i + k := cbest_8 ! i])"
  define P where "P n t \<longleftrightarrow> length t = 2 * k \<and> (\<forall>j<n. t ! j = 1) \<and> (\<forall>j<n. t ! (k + j) = cbest_8 ! j)" for n t
  have "P k (fold f [0..<k] (replicate (k * 2) 0))"
  proof (rule fold_upt_inv [where P = P])
    fix i t assume "i < k" "P i t"
    then show "P (Suc i) (f i t)" by (auto simp: P_def f_def nth_list_update less_Suc_eq)
  qed (simp_all add: P_def)
  moreover have "cauchy_good_general_coding_matrix F k 2 w st = Some (Some (fold f [0..<k] (replicate (k * 2) 0)), st)"
    using assms by (simp add: cauchy_good_general_coding_matrix_def cbest_max_k_def cbest_all_def f_def)
  ultimately show ?thesis by (auto simp: P_def)
qed

end

lemma scaled_cauchy_matrix_ok:
  assumes "w \<in> {8, 16, 32}" "scaled_cauchy (galois_default w) k m X Y r c matrix" "0 < k"
  shows "matrix_ok k m w matrix" "square_regular (galois_default w) k m matrix"
proof -
  have F: "correct_field (galois_default w)"
    using assms(1) by (rule correct_field_default)
  show "square_regular (galois_default w) k m matrix"
    by (rule correct_field.scaled_cauchy_square_regular [OF F assms(2)])
  have "rows_nonzero k m matrix"
    unfolding rows_nonzero_def using correct_field.scaled_cauchy_entry(4) [OF F assms(2)] assms(3) by blast
  then show "matrix_ok k m w matrix"
    using correct_field.scaled_cauchy_coding_matrix [OF F assms(2)] assms(1) by (simp add: matrix_ok_def)
qed

lemma default_width: "w \<in> {8, 16, 32} \<Longrightarrow> h_w (scratch (galois_default w)) = w"
  using default_8(3) default_16(3) default_32(3) by auto

lemma original_ok:
  assumes "w \<in> {8, 16, 32}" "k + m \<le> 2 ^ w" "0 < k"
  shows "\<exists>matrix. cauchy_original_coding_matrix (galois_default w) k m w = Some (Some matrix) \<and>
    matrix_ok k m w matrix \<and> square_regular (galois_default w) k m matrix"
proof -
  have F: "correct_field (galois_default w)"
    using assms(1) by (rule correct_field_default)
  have "w \<le> 32" using assms(1) by auto
  from correct_field.original_coding_matrix [OF F assms(2) default_width [OF assms(1), symmetric] this]
  show ?thesis using scaled_cauchy_matrix_ok [OF assms(1) _ assms(3)] by blast
qed

lemma table_matrix_ok:
  assumes "length matrix = 2 * k" "\<forall>j<k. matrix ! j = 1" "\<forall>j<k. matrix ! (k + j) = cbest_8 ! j" "k \<le> 255" "0 < k"
  shows "matrix_ok k 2 8 matrix" "square_regular (galois_default 8) k 2 matrix"
proof -
  have el: "felem (galois_default 8) (cbest_8 ! j)" "cbest_8 ! j \<noteq> 0" if "j < k" for j
    using cbest_8_range nth_mem [of j cbest_8] length_cbest_8 that assms(4) by (auto simp: gf_elem_def default_8)
  have "inj_on (\<lambda>j. matrix ! (k + j)) {..<k}"
    using cbest_8_distinct assms(3,4) length_cbest_8 by (auto simp: inj_on_def nth_eq_iff_index_eq)
  then show "square_regular (galois_default 8) k 2 matrix"
    using gal8.two_rows_square_regular [of k matrix] assms(2,3) el by simp
  have "felem (galois_default 8) (matrix ! l)" if "l < 2 * k" for l
  proof (cases "l < k")
    case False
    then show ?thesis using assms(3) el(1) [of "l - k"] that by (metis add_diff_inverse_nat less_diff_conv2 mult_2 not_less)
  qed (use assms(2) gal8.elem_1 in simp)
  then have "coding_matrix (galois_default 8) k 2 matrix"
    using assms(1) by (auto simp: coding_matrix_def in_set_conv_nth)
  moreover have "rows_nonzero k 2 matrix"
    using assms(2,3,5) el(2) [OF assms(5)] by (auto simp: rows_nonzero_def less_2_cases_iff intro!: exI [of _ 0])
  ultimately show "matrix_ok k 2 8 matrix" by (simp add: matrix_ok_def)
qed

lemma good_general_ok:
  assumes "w \<in> {8, 16, 32}" "k + m \<le> 2 ^ w" "0 < k" "0 < m"
  shows "\<exists>matrix st'. cauchy_good_general_coding_matrix (galois_default w) k m w st = Some (Some matrix, st') \<and>
    matrix_ok k m w matrix \<and> square_regular (galois_default w) k m matrix \<and> (\<forall>j<k. matrix ! j = 1)"
proof (cases "m = 2 \<and> int k \<le> cbest_max_k w")
  case True
  then have w: "w = 8" using assms(1,3) by (auto simp: cbest_max_k_def)
  then have k: "k \<le> 255" using True by (simp add: cbest_max_k_def)
  from gal8.good_general_table [OF refl _ this, of st]
  show ?thesis using table_matrix_ok [OF _ _ _ k assms(3)] True w by (fastforce simp: default_width)
next
  case False
  have F: "correct_field (galois_default w)"
    using assms(1) by (rule correct_field_default)
  have "w \<le> 32" using assms(1) by auto
  from correct_field.good_general_improved [OF F assms(2) default_width [OF assms(1), symmetric] this assms(4) False, of st]
  show ?thesis using scaled_cauchy_matrix_ok [OF assms(1) _ assms(3)] by blast
qed

lemma original_refused: "w < 31 \<Longrightarrow> 2 ^ w < k + m \<Longrightarrow> cauchy_original_coding_matrix F k m w = Some None"
  by (simp add: cauchy_original_coding_matrix_def)

end
