(* ===== verification/Cauchy_Ones.thy ===== *)
theory Cauchy_Ones
  imports Cauchy Jer_Bits
begin

text \<open>
  \<open>cauchy_n_ones\<close> counts the ones of the bit matrix of an element without building it: it
  follows the products with the powers of two and corrects the count by the bits of the
  field polynomial.
\<close>

definition ones :: "nat \<Rightarrow> u32 \<Rightarrow> int" where
  "ones w a = int (card {i. i < w \<and> bit a i})"

text \<open>What the static arrays hold once a word size has been used with the field F.\<close>

definition ones_list :: "nat \<Rightarrow> u32 \<Rightarrow> u32 list" where
  "ones_list w pp = map (\<lambda>i. push_bit i 1) (filter (bit pp) [0..<w])"

definition cauchy_cache_ok :: "gf_t \<Rightarrow> nat \<Rightarrow> cauchy_state \<Rightarrow> bool" where
  "cauchy_cache_ok F w st \<longleftrightarrow> PPs st w = - 1 \<or>
     PPs st w = galois_single_multiply F (push_bit (w - 1) 1) 2 \<and>
     ONEs st w = ones_list w (PPs st w) \<and> NOs st w = length (ones_list w (PPs st w))"

lemma fold_count: "fold (\<lambda>i no. if P i then no + 1 else no) [0..<w] (a :: int) = a + int (card {i. i < w \<and> P i})"
proof (induction w)
  case (Suc w)
  have "{i. i < Suc w \<and> P i} = (if P w then insert w {i. i < w \<and> P i} else {i. i < w \<and> P i})"
    by (auto simp: less_Suc_eq)
  then show ?case using Suc by simp
qed simp

lemma fold_ones_list:
  "fold (\<lambda>i xs. if bit pp i then xs @ [push_bit i 1] else xs) [0..<w] [] = ones_list w (pp :: u32)"
  by (induction w) (auto simp: ones_list_def)

lemma prepare_cache:
  assumes "cauchy_cache_ok F w st"
  defines "pp \<equiv> galois_single_multiply F (push_bit (w - 1) 1) 2"
  shows "PPs (n_ones_prepare F w st) w = pp" "ONEs (n_ones_prepare F w st) w = ones_list w pp"
    "NOs (n_ones_prepare F w st) w = length (ones_list w pp)" "cauchy_cache_ok F w (n_ones_prepare F w st)"
  using assms(1)
  by (auto simp: n_ones_prepare_def cauchy_cache_ok_def pp_def Let_def fold_ones_list [of "galois_single_multiply F (push_bit (w - 1) 1) 2", simplified]
      and_push_bit_neq_0)

lemma fold_nth_sum:
  fixes f :: "'a \<Rightarrow> int"
  shows "fold (\<lambda>j c. c + f (xs ! j)) [0..<length xs] c = c + sum_list (map f xs)"
proof (induction xs rule: rev_induct)
  case (snoc x xs)
  have "fold (\<lambda>j c. c + f ((xs @ [x]) ! j)) [0..<length xs] c = fold (\<lambda>j c. c + f (xs ! j)) [0..<length xs] c"
    by (rule fold_cong) (auto simp: nth_append)
  then show ?case using snoc by simp
qed simp

lemma ones_list_sum:
  "sum_list (map f (ones_list w pp)) = (\<Sum>i\<in>{i. i < w \<and> bit pp i}. f (push_bit i 1) :: int)"
proof -
  have "sum_list (map (\<lambda>i. f (push_bit i 1)) (filter (bit pp) [0..<w])) = (\<Sum>i\<in>set (filter (bit pp) [0..<w]). f (push_bit i 1))"
    by (rule sum_list_distinct_conv_sum_set) simp
  moreover have "set (filter (bit pp) [0..<w]) = {i. i < w \<and> bit pp i}" by auto
  ultimately show ?thesis by (simp add: ones_list_def comp_def)
qed

text \<open>The count after adding the polynomial, bit by bit.\<close>

lemma card_flip:
  assumes "finite B" "finite P" "\<And>i. i \<in> X \<longleftrightarrow> (i \<in> B) \<noteq> (i \<in> P)"
  shows "int (card X) = int (card B) + (\<Sum>i\<in>P. if i \<in> X then 1 else - 1)"
proof -
  have "X = (B - P) \<union> (P - B)" using assms(3) by auto
  then have "card X = card (B - P) + card (P - B)" using assms by (simp add: card_Un_disjoint disjoint_iff)
  moreover have "card B = card (B - P) + card (B \<inter> P)"
    using card_Un_disjoint [of "B - P" "B \<inter> P"] assms(1) by (simp add: Un_Diff_Int disjoint_iff)
  moreover have "(\<Sum>i\<in>P. if i \<in> X then 1 else - 1 :: int) = (\<Sum>i\<in>P - B. 1) + (\<Sum>i\<in>B \<inter> P. - 1)"
  proof -
    have "P = (P - B) \<union> (B \<inter> P)" by auto
    then have "(\<Sum>i\<in>P. if i \<in> X then 1 else - 1 :: int) =
        (\<Sum>i\<in>P - B. if i \<in> X then 1 else - 1) + (\<Sum>i\<in>B \<inter> P. if i \<in> X then 1 else - 1)"
      using assms(1,2) by (metis (no_types, lifting) Diff_disjoint Int_Diff finite_Diff finite_Int inf_commute sum.union_disjoint)
    then show ?thesis using assms(3) by simp
  qed
  ultimately show ?thesis by simp
qed

lemma card_shift:
  assumes "bit n (w - 1)" "0 < w" "w \<le> 32"
  shows "int (card {i. i < w \<and> bit (push_bit 1 (n XOR push_bit (w - 1) 1) :: u32) i}) = ones w n - 1"
proof -
  have "{i. i < w \<and> bit (push_bit 1 (n XOR push_bit (w - 1) 1) :: u32) i} = Suc ` ({i. i < w \<and> bit n i} - {w - 1})"
  proof (intro set_eqI)
    fix i
    show "i \<in> {i. i < w \<and> bit (push_bit 1 (n XOR push_bit (w - 1) 1) :: u32) i} \<longleftrightarrow>
        i \<in> Suc ` ({i. i < w \<and> bit n i} - {w - 1})"
      using assms(2,3) by (cases i) (auto simp: bit_push_bit_iff bit_xor_iff)
  qed
  then have "card {i. i < w \<and> bit (push_bit 1 (n XOR push_bit (w - 1) 1) :: u32) i} = card ({i. i < w \<and> bit n i} - {w - 1})"
    by (simp add: card_image)
  also have "\<dots> = card {i. i < w \<and> bit n i} - 1" using assms by (intro card_Diff_singleton) simp
  finally have c: "card {i. i < w \<and> bit (push_bit 1 (n XOR push_bit (w - 1) 1) :: u32) i} = card {i. i < w \<and> bit n i} - 1" .
  have "w - 1 \<in> {i. i < w \<and> bit n i}" using assms by simp
  then have "0 < card {i. i < w \<and> bit n i}" by (auto simp only: card_gt_0_iff finite_Collect_conjI finite_Collect_less_nat)
  then show ?thesis unfolding ones_def c by (simp only: of_nat_diff Suc_le_eq One_nat_def of_nat_1)
qed

lemma ones_shift:
  assumes "\<not> bit n (w - 1)" "0 < w" "w \<le> 32"
  shows "ones w (push_bit 1 n) = ones w n"
proof -
  have "{i. i < w \<and> bit (push_bit 1 n) i} = Suc ` {i. i < w \<and> bit n i}"
  proof (intro set_eqI)
    fix i
    have "Suc i < w \<and> Suc i < 32" if "bit n i" "i < w" for i using that assms(1,3) by (cases "i = w - 1") auto
    then show "i \<in> {i. i < w \<and> bit (push_bit 1 n) i} \<longleftrightarrow> i \<in> Suc ` {i. i < w \<and> bit n i}"
      using assms by (cases i) (auto simp: bit_push_bit_iff)
  qed
  then show ?thesis by (simp add: ones_def card_image)
qed

lemma bit_shift_1: "bit (push_bit 1 (x :: u32)) j \<longleftrightarrow> 0 < j \<and> j < 32 \<and> bit x (j - 1)"
  by (auto simp only: bit_push_bit_iff possible_bit_word) auto

context correct_field
begin

text \<open>One step of the loop multiplies by two and keeps the count.\<close>

lemma n_ones_step:
  assumes w: "w = h_w (scratch F)" "2 \<le> w" and n: "felem F n" and st: "cauchy_cache_ok F w st0" "st = n_ones_prepare F w st0"
  shows "n_ones_step w st i (n, ones w n, no) =
    (galois_single_multiply F n 2, ones w (galois_single_multiply F n 2), no + ones w (galois_single_multiply F n 2))"
proof -
  let ?pp = "field_poly (scratch F)" and ?h = "push_bit (w - 1) 1 :: u32"
  have w32: "w \<le> 32" using w correct by (auto simp: gf_correct_def h_primitive_def gf_primitive_def)
  have two: "galois_single_multiply F a 2 = gf_xtime w ?pp a" if "felem F a" for a
    using times_two_iterate [OF that, of 1] w by simp
  define PP where "PP = galois_single_multiply F ?h 2"
  have "felem F ?h" using w w32 unfolding gf_elem_def w(1) [symmetric] by (intro bit_word_eqI) (auto simp: bit_take_bit_iff)
  then have PP: "bit PP j \<longleftrightarrow> j < w \<and> bit ?pp j" for j
    using two [of ?h] w w32 by (auto simp: PP_def bit_gf_xtime)
  have nb: "\<not> bit n j" if "w \<le> j" for j using gf_elem_bit [of w n j] n w(1) that by auto
  note cache = prepare_cache [OF st(1), folded st(2) PP_def]
  show ?thesis
  proof (cases "bit n (w - 1)")
    case True
    define n' where "n' = push_bit 1 (n XOR ?h) XOR PP"
    have n': "n' = galois_single_multiply F n 2"
      unfolding two [OF n] n'_def
    proof (rule bit_word_eqI)
      fix j assume j: "j < LENGTH(32)"
      consider "j < w" | "j = w" | "w < j" by linarith
      then show "bit (push_bit 1 (n XOR ?h) XOR PP) j \<longleftrightarrow> bit (gf_xtime w ?pp n) j"
        unfolding bit_gf_xtime bit_xor_iff PP bit_shift_1 bit_push_one
        using True w(2) nb [of "j - 1"] w32 j by cases auto
    qed
    have "ones w n' = int (card {i. i < w \<and> bit (push_bit 1 (n XOR ?h)) i}) +
        (\<Sum>i\<in>{i. i < w \<and> bit PP i}. if i \<in> {i. i < w \<and> bit n' i} then 1 else - 1)"
      unfolding ones_def by (rule card_flip) (auto simp: n'_def bit_xor_iff)
    also have "\<dots> = ones w n - 1 + (\<Sum>i\<in>{i. i < w \<and> bit PP i}. if bit n' i then 1 else - 1)"
      using card_shift [OF True] w w32 by (auto intro!: sum.cong)
    also have "(\<Sum>i\<in>{i. i < w \<and> bit PP i}. if bit n' i then 1 else - 1 :: int) =
        sum_list (map (\<lambda>x. if n' AND x \<noteq> 0 then 1 else - 1) (ones_list w PP))"
      unfolding ones_list_sum by (auto simp: and_push_bit_neq_0 intro!: sum.cong)
    finally have "fold (\<lambda>j cno. cno + (if n' AND ones_list w PP ! j \<noteq> 0 then 1 else - 1)) [0..<length (ones_list w PP)]
        (ones w n - 1) = ones w n'"
      using fold_nth_sum [of "\<lambda>x. if n' AND x \<noteq> 0 then 1 else - 1" "ones_list w PP" "ones w n - 1"] by simp
    then show ?thesis
      unfolding n_ones_step_def prod.case cache(1-3) n' [symmetric] n'_def [symmetric] Let_def
      using True by (simp only: and_push_bit_neq_0 if_True prod.case)
  next
    case False
    have "push_bit 1 n = galois_single_multiply F n 2"
      unfolding two [OF n]
    proof (rule bit_word_eqI)
      fix j assume j: "j < LENGTH(32)"
      consider "j < w" | "j = w" | "w < j" by linarith
      then show "bit (push_bit 1 n) j \<longleftrightarrow> bit (gf_xtime w ?pp n) j"
        unfolding bit_gf_xtime bit_shift_1 using False w(2) nb [of "j - 1"] w32 j by cases auto
    qed
    then show ?thesis
      unfolding n_ones_step_def prod.case Let_def
      using False ones_shift [OF False] w w32 by (simp only: and_push_bit_neq_0 if_False prod.case)
  qed
qed

theorem n_ones:
  assumes w: "w = h_w (scratch F)" "2 \<le> w" and n: "felem F n" and st: "cauchy_cache_ok F w st"
  shows "cauchy_n_ones F n w st =
    ((\<Sum>x<w. ones w (((\<lambda>e. galois_single_multiply F e 2) ^^ x) n)), n_ones_prepare F w st)"
proof -
  let ?t = "\<lambda>x. ((\<lambda>e. galois_single_multiply F e 2) ^^ x) n" and ?st = "n_ones_prepare F w st"
  have w32: "w \<le> 32" using w correct by (auto simp: gf_correct_def h_primitive_def gf_primitive_def)
  have two: "felem F 2" using w w32 power_increasing [of 2 w "2::nat"] by (simp add: gf_elem_unat)
  have el: "felem F (?t x)" for x by (induction x) (auto simp: n two elem_mult)
  have start: "fold (\<lambda>i no. if n AND push_bit i 1 \<noteq> 0 then no + 1 else no) [0..<w] 0 = ones w n"
    using fold_count [of "\<lambda>i. n AND push_bit i 1 \<noteq> 0" w 0] by (simp add: ones_def and_push_bit_neq_0)
  have "fold (n_ones_step w ?st) [1..<w] (n, ones w n, ones w n) =
      (?t (w - 1), ones w (?t (w - 1)), \<Sum>x<w. ones w (?t x))"
    by (rule fold_upt_inv [where P = "\<lambda>l s. s = (?t (l - 1), ones w (?t (l - 1)), \<Sum>x<l. ones w (?t x))"])
       (use w(2) n_ones_step [OF w el st refl] in \<open>auto simp: Suc_diff_le [symmetric] dest!: Suc_le_D\<close>)
  then show ?thesis unfolding cauchy_n_ones_def Let_def start by simp
qed

text \<open>The count is the number of ones of the bit matrix of the element.\<close>

lemma n_ones_bitmatrix:
  assumes w: "w = h_w (scratch F)" "2 \<le> w" and n: "felem F n" and st: "cauchy_cache_ok F w st"
  shows "fst (cauchy_n_ones F n w st) = (\<Sum>x<w. int (card {l. l < w \<and> jerasure_matrix_to_bitmatrix F 1 1 w [n] ! (l * w + x) = 1}))"
  unfolding n_ones [OF assms] fst_conv
proof (rule sum.cong)
  fix x assume x: "x \<in> {..<w}"
  have "jerasure_matrix_to_bitmatrix F 1 1 w [n] ! (l * w + x) =
      (if bit (((\<lambda>e. galois_single_multiply F e 2) ^^ x) n) l then 1 else 0)" if "l < w" for l
    using to_bitmatrix_entry(2) [of 0 1 0 1 x w l F "[n]"] x that by (simp add: block_index_def)
  then show "ones w (((\<lambda>e. galois_single_multiply F e 2) ^^ x) n) =
      int (card {l. l < w \<and> jerasure_matrix_to_bitmatrix F 1 1 w [n] ! (l * w + x) = 1})"
    unfolding ones_def by (intro arg_cong [of _ _ int] arg_cong [of _ _ card]) (auto split: if_splits)
qed simp

end

end
