(* ===== verification/Samples.thy ===== *)
theory Samples
  imports Jer_Bit_Mds Cauchy_Ones
begin

text \<open>
  Small concrete inputs at which the properties are applied: a state with three devices, a
  coding matrix and its bit matrix.
\<close>

definition devices3 :: jstate where
  "devices3 = \<lparr>gal = galois_start, lazy_data = \<lparr>last_value = 0, lazy_tables = []\<rparr>, addr = (\<lambda>d. 64 * d),
     dev = [[1, 2, 3, 4], [5, 6, 7, 8], [0, 0, 0, 0]], total_xor_bytes = 0, total_gf_bytes = 0, total_memcpy_bytes = 0\<rparr>"

lemma devices3_ok: "w \<in> {8, 16, 32} \<Longrightarrow> devices_ok 2 1 w 4 devices3"
proof -
  assume w: "w \<in> {8, 16, 32}"
  have "w div 8 dvd 4" using w by auto
  moreover have "\<forall>d<2 + 1. length (dev devices3 ! d) = 4" by (simp add: devices3_def All_less_Suc numeral_eq_Suc)
  moreover have "jst_ok devices3" by (simp add: jst_ok_def gal_ok_def devices3_def galois_start_def lazy_ok_def)
  ultimately show ?thesis by (simp add: devices_ok_def) (simp add: devices3_def)
qed

lemma matrix21_ok: "matrix_ok 2 1 8 [1, 7]"
  by (auto simp: matrix_ok_def coding_matrix_def rows_nonzero_def default_8 gf_elem_def intro!: exI [of _ 0])

definition packets3 :: jstate where
  "packets3 = devices3\<lparr>dev := [replicate 64 1, replicate 64 2, replicate 64 0]\<rparr>"

lemma packets3_ok: "packets_ok (2 + 1) 64 8 packets3"
proof -
  have "\<forall>d<2 + 1. length (dev packets3 ! d) = 64" by (simp add: packets3_def All_less_Suc numeral_eq_Suc)
  moreover have "jst_ok packets3" by (simp add: jst_ok_def gal_ok_def packets3_def devices3_def galois_start_def lazy_ok_def)
  ultimately show ?thesis by (simp add: packets_ok_def) (simp add: packets3_def)
qed

lemma bitmatrix21:
  defines "bm \<equiv> jerasure_matrix_to_bitmatrix (galois_default 8) 2 1 8 [1, 7]"
  shows "bitmatrix_ok 2 1 8 bm" "bit_mds 2 1 8 bm"
proof -
  have "square_regular (galois_default 8) 2 1 [1, 7]"
    unfolding square_regular_def
  proof (intro allI impI, elim conjE, rule ballI)
    fix C E :: "nat set" and z j
    assume C: "C \<subseteq> {..<1}" "E \<subseteq> {..<2}" "card C = card E" and z: "\<forall>j. felem (galois_default 8) (z j)" and j: "j \<in> E"
      and s: "\<forall>i\<in>C. xsum_on 2 E (\<lambda>j. galois_single_multiply (galois_default 8) ([1, 7] ! (i * 2 + j)) (z j)) = 0"
    have "finite E" using C(2) finite_subset by blast
    then have "0 < card E" using j card_gt_0_iff by blast
    then have "C \<noteq> {}" using C(3) by auto
    moreover have "C \<subseteq> {0}" using C(1) by auto
    ultimately have c: "C = {0}" by blast
    then have "card E = 1" using C(3) by simp
    then have E: "E = {j}" using j by (metis card_1_singletonE singletonD)
    have p: "galois_single_multiply (galois_default 8) ([1, 7] ! j) (z j) = 0"
      using s c C(2) j unfolding E by (auto simp: numeral_2_eq_2 less_Suc_eq)
    have "j = 0 \<or> j = 1" using C(2) j by auto
    then have "felem (galois_default 8) ([1, 7] ! j)" "[1, 7] ! j \<noteq> (0 :: u32)"
      by (elim disjE; simp add: default_8 gf_elem_def)+
    then show "z j = 0" using gal8.no_zero_div' [of "[1, 7] ! j" "z j"] p z by blast
  qed
  then show "bitmatrix_ok 2 1 8 bm" "bit_mds 2 1 8 bm"
    using default_bitmatrix(1,2) [OF matrix21_ok] by (simp_all add: bm_def)
qed

end
