(* ===== verification/Bit_Codes.thy ===== *)
theory Bit_Codes
  imports Samples
begin

text \<open>
  The properties of the bit-matrix codes of jerasure.c: encoding and decoding over packets,
  the two schedulers, decoding schedules and their cache, and the inversion of bit matrices.
\<close>

section \<open>Codes on packets\<close>

text \<open>
  C3: the bit matrix of the matrix made by
  \<open>cauchy_good_general_coding_matrix\<close> is a code on packets that survives the loss of any m
  devices: \<open>jerasure_bitmatrix_encode\<close> leaves the data devices as they are, and both
  \<open>jerasure_bitmatrix_decode\<close> and \<open>jerasure_schedule_decode_lazy\<close> (with the plain scheduler, or
  with the one that reuses rows when a device is lost) return 0 and restore every device.
\<close>

theorem cauchy_bit_code_survives:
  assumes "w \<in> {8, 16, 32}" "k + m \<le> 2 ^ w" "k + m \<le> 2 ^ 31" "0 < k" "0 < m"
    "packets_ok (k + m) sz ps st" "ps * w dvd sz" "8 dvd ps"
  shows "\<exists>matrix cst' bm st1.
    cauchy_good_general_coding_matrix (galois_default w) k m w cst = Some (Some matrix, cst') \<and>
    bm = jerasure_matrix_to_bitmatrix (galois_default w) k m w matrix \<and>
    jerasure_bitmatrix_encode k m w bm sz ps st = Some st1 \<and> packets_ok (k + m) sz ps st1 \<and>
    take k (dev st1) = take k (dev st) \<and>
    (\<forall>st2 xs ys smart. packets_ok (k + m) sz ps st2 \<and> erasures_ok k m xs \<and> (smart \<longrightarrow> xs \<noteq> []) \<and>
       (\<forall>d<k + m. d \<notin> unat ` set xs \<longrightarrow> dev st2 ! d = dev st1 ! d) \<longrightarrow>
       (\<exists>st3. jerasure_bitmatrix_decode k m w bm 1 (xs @ - 1 # ys) sz ps st2 = Some (0, st3) \<and> dev st3 = dev st1) \<and>
       (\<exists>st3. jerasure_schedule_decode_lazy k m w bm (xs @ - 1 # ys) sz ps smart st2 = Some (0, st3) \<and> dev st3 = dev st1))"
proof -
  obtain matrix cst' where m: "cauchy_good_general_coding_matrix (galois_default w) k m w cst = Some (Some matrix, cst')"
    "matrix_ok k m w matrix" "square_regular (galois_default w) k m matrix" "\<forall>j<k. matrix ! j = 1"
    using good_general_ok [OF assms(1,2,4,5), of cst] by blast
  define bm where "bm = jerasure_matrix_to_bitmatrix (galois_default w) k m w matrix"
  note bm = default_bitmatrix(1) [OF m(2), folded bm_def] default_bitmatrix(2) [OF m(2,3), folded bm_def]
    default_bitmatrix(3) [OF m(2) assms(5) m(4), folded bm_def]
  show ?thesis using m(1) bit_mds_survives [OF bm(1-3) assms(5,3,6-8)] bm_def by blast
qed

theorem cauchy_bit_code_survives_witness:
  "\<exists>matrix cst' bm st1.
    cauchy_good_general_coding_matrix (galois_default 8) 2 1 8 cauchy_start = Some (Some matrix, cst') \<and>
    bm = jerasure_matrix_to_bitmatrix (galois_default 8) 2 1 8 matrix \<and>
    jerasure_bitmatrix_encode 2 1 8 bm 64 8 packets3 = Some st1 \<and> take 2 (dev st1) = take 2 (dev packets3) \<and>
    (\<exists>st3. jerasure_schedule_decode_lazy 2 1 8 bm ([0] @ - 1 # []) 64 8 True
       (st1\<lparr>dev := (dev st1)[0 := replicate 64 9]\<rparr>) = Some (0, st3) \<and> dev st3 = dev st1)"
proof -
  obtain matrix cst' bm st1 where
    m: "cauchy_good_general_coding_matrix (galois_default 8) 2 1 8 cauchy_start = Some (Some matrix, cst')"
      "bm = jerasure_matrix_to_bitmatrix (galois_default 8) 2 1 8 matrix"
      "jerasure_bitmatrix_encode 2 1 8 bm 64 8 packets3 = Some st1" "packets_ok (2 + 1) 64 8 st1"
      "take 2 (dev st1) = take 2 (dev packets3)"
    and dec: "\<And>st2 xs ys smart. packets_ok (2 + 1) 64 8 st2 \<and> erasures_ok 2 1 xs \<and> (smart \<longrightarrow> xs \<noteq> []) \<and>
       (\<forall>d<2 + 1. d \<notin> unat ` set xs \<longrightarrow> dev st2 ! d = dev st1 ! d) \<Longrightarrow>
       (\<exists>st3. jerasure_schedule_decode_lazy 2 1 8 bm (xs @ - 1 # ys) 64 8 smart st2 = Some (0, st3) \<and> dev st3 = dev st1)"
    using cauchy_bit_code_survives [of 8 2 1 64 8 packets3 cauchy_start, OF _ _ _ _ _ packets3_ok] by auto
  let ?st2 = "st1\<lparr>dev := (dev st1)[0 := replicate 64 9]\<rparr>"
  have "packets_ok (2 + 1) 64 8 ?st2" using m(4) by (auto simp: packets_ok_def jst_ok_def nth_list_update)
  moreover have "erasures_ok 2 1 [0]" by (simp add: erasures_ok_def)
  ultimately show ?thesis using m dec [of ?st2 "[0]" True "[]"] by (auto simp: nth_list_update)
qed

text \<open>
  C6: for a bit matrix that survives the loss of any m devices,
  \<open>jerasure_schedule_decode_lazy\<close> makes one schedule that computes all lost data and coding
  packets from the surviving ones, runs it over all stripes, returns 0 and restores every
  device, with both schedulers.
\<close>

theorem schedule_decode_restores:
  assumes "bitmatrix_ok k m w bm" "bit_mds k m w bm" "erasures_ok k m xs" "k + m \<le> 2 ^ 31" "smart \<longrightarrow> xs \<noteq> []"
    "bit_encoded k m w bm sz ps D" "packets_ok (k + m) sz ps st" "ps * w dvd sz"
    "\<forall>d<k + m. d \<notin> unat ` set xs \<longrightarrow> dev st ! d = D ! d"
  shows "\<exists>st'. jerasure_schedule_decode_lazy k m w bm (xs @ - 1 # ys) sz ps smart st = Some (0, st') \<and> dev st' = D"
  using schedule_decode_lazy [OF assms, of ys] by blast

theorem schedule_decode_restores_witness:
  "\<exists>bm D st'. bit_encoded 2 1 8 bm 64 8 D \<and> take 2 D = take 2 (dev packets3) \<and>
     jerasure_schedule_decode_lazy 2 1 8 bm ([1] @ - 1 # []) 64 8 True (packets3\<lparr>dev := D[1 := replicate 64 0]\<rparr>) = Some (0, st') \<and>
     dev st' = D"
proof -
  obtain st1 where st1: "packets_ok (2 + 1) 64 8 st1" "take 2 (dev st1) = take 2 (dev packets3)"
    "bit_encoded 2 1 8 (jerasure_matrix_to_bitmatrix (galois_default 8) 2 1 8 [1, 7]) 64 8 (dev st1)"
    using bit_encode [OF bitmatrix21(1) packets3_ok] by (auto simp: dvd_def)
  let ?st = "packets3\<lparr>dev := (dev st1)[1 := replicate 64 0]\<rparr>"
  have ok: "packets_ok (2 + 1) 64 8 ?st"
    using st1(1) packets3_ok by (auto simp: packets_ok_def jst_ok_def nth_list_update)
  have e: "erasures_ok 2 1 [1]" by (simp add: erasures_ok_def)
  show ?thesis
    using schedule_decode_restores [OF bitmatrix21 e _ _ st1(3) ok, of True "[]"] st1(2,3) by (auto simp: dvd_def)
qed

text \<open>
  C8: when the surviving devices hold the packets of an encoding
  and their rows are regular over the two-element field, \<open>jerasure_bitmatrix_decode\<close> returns 0
  and restores every device; the parity rows are used when the caller allows it.
\<close>

theorem bitmatrix_decode_restores:
  assumes "bitmatrix_ok k m w bm" "0 < m" "row_k_ones = 1 \<longrightarrow> parity_block k w bm"
    "bit_encoded k m w bm sz ps D" "packets_ok (k + m) sz ps st" "ps * w dvd sz"
    "\<forall>e\<in>set xs. e \<noteq> - 1 \<and> unat e < k + m" "card (unat ` set xs) \<le> m"
    "\<forall>d<k + m. d \<notin> unat ` set xs \<longrightarrow> dev st ! d = D ! d"
    "bit_recoverable k m w bm (erased_flags (k + m) xs)"
  shows "\<exists>st'. jerasure_bitmatrix_decode k m w bm row_k_ones (xs @ - 1 # ys) sz ps st = Some (0, st') \<and> dev st' = D"
  using bit_decode [OF assms] by blast

theorem bitmatrix_decode_restores_witness:
  "\<exists>bm D st'. bit_encoded 2 1 8 bm 64 8 D \<and>
     jerasure_bitmatrix_decode 2 1 8 bm 0 ([0] @ - 1 # []) 64 8 (packets3\<lparr>dev := D[0 := replicate 64 5]\<rparr>) = Some (0, st') \<and>
     dev st' = D"
proof -
  let ?bm = "jerasure_matrix_to_bitmatrix (galois_default 8) 2 1 8 [1, 7]"
  obtain st1 where st1: "packets_ok (2 + 1) 64 8 st1" "bit_encoded 2 1 8 ?bm 64 8 (dev st1)"
    using bit_encode [OF bitmatrix21(1) packets3_ok] by (auto simp: dvd_def)
  let ?st = "packets3\<lparr>dev := (dev st1)[0 := replicate 64 5]\<rparr>"
  have ok: "packets_ok (2 + 1) 64 8 ?st"
    using st1(1) packets3_ok by (auto simp: packets_ok_def jst_ok_def nth_list_update)
  have "bit_recoverable 2 1 8 ?bm (erased_flags (2 + 1) [0])"
    using alive_flags [of "[0]" 2 1] by (intro bit_mds_recoverable [OF bitmatrix21]) simp
  then show ?thesis
    using bitmatrix_decode_restores [OF bitmatrix21(1) _ _ st1(2) ok, of 0 "[0]" "[]"] st1(2)
    by (auto simp: dvd_def nth_list_update)
qed

text \<open>
  C11: \<open>jerasure_bitmatrix_encode\<close> returns for every bit matrix without
  zero rows; every packet of a coding device is then the exclusive-or of the data packets
  its row selects, and the data devices keep their contents.
\<close>

theorem bitmatrix_encode_encodes:
  assumes "bitmatrix_ok k m w bm" "packets_ok (k + m) sz ps st" "ps * w dvd sz" "8 dvd ps"
  shows "\<exists>st'. jerasure_bitmatrix_encode k m w bm sz ps st = Some st' \<and> packets_ok (k + m) sz ps st' \<and>
    bit_encoded k m w bm sz ps (dev st') \<and> take k (dev st') = take k (dev st)"
  using assms by (rule bit_encode)

theorem bitmatrix_encode_encodes_witness:
  "\<exists>st'. jerasure_bitmatrix_encode 2 1 8 (jerasure_matrix_to_bitmatrix (galois_default 8) 2 1 8 [1, 7]) 64 8 packets3 = Some st' \<and>
    take 2 (dev st') = take 2 (dev packets3)"
  using bitmatrix_encode_encodes [OF bitmatrix21(1) packets3_ok] by (auto simp: dvd_def)

section \<open>Schedules\<close>

text \<open>
  C9: \<open>jerasure_schedule_encode\<close> with the schedule of either scheduler
  leaves the devices as \<open>jerasure_bitmatrix_encode\<close> does; in particular the loops of the
  scheduler that reuses rows end.
\<close>

theorem schedules_equal_encode:
  assumes "bitmatrix_ok k m w bm" "0 < m" "packets_ok (k + m) sz ps st" "ps * w dvd sz" "8 dvd ps"
  shows "\<exists>smart st1 st2 st3. jerasure_smart_bitmatrix_to_schedule k m w bm = Some smart \<and>
    jerasure_schedule_encode k m w smart sz ps st = Some st1 \<and>
    jerasure_schedule_encode k m w (jerasure_dumb_bitmatrix_to_schedule k m w bm) sz ps st = Some st2 \<and>
    jerasure_bitmatrix_encode k m w bm sz ps st = Some st3 \<and> dev st1 = dev st3 \<and> dev st2 = dev st3"
proof -
  obtain smart where smart: "jerasure_smart_bitmatrix_to_schedule k m w bm = Some smart" "extends k m w bm {} {..<m * w} smart"
    using smart_schedule [of bm m w k] assms(1,2) by (auto simp: bitmatrix_ok_def)
  show ?thesis
    using smart(1) schedule_encode_eq [OF assms(1,3-5) smart(2)] schedule_encode_eq [OF assms(1,3-5) dumb_schedule] by fastforce
qed

theorem schedules_equal_encode_witness:
  "\<exists>smart st1 st2. jerasure_smart_bitmatrix_to_schedule 2 1 8 (jerasure_matrix_to_bitmatrix (galois_default 8) 2 1 8 [1, 7]) = Some smart \<and>
    jerasure_schedule_encode 2 1 8 smart 64 8 packets3 = Some st1 \<and>
    jerasure_bitmatrix_encode 2 1 8 (jerasure_matrix_to_bitmatrix (galois_default 8) 2 1 8 [1, 7]) 64 8 packets3 = Some st2 \<and>
    dev st1 = dev st2"
  using schedules_equal_encode [OF bitmatrix21(1) _ packets3_ok] by (auto simp: dvd_def)

text \<open>
  C21: the scheduler that reuses rows never issues more operations than the
  plain one, and both stay within the k m w^2 operations the array of a schedule has room
  for.
\<close>

theorem schedules_fit:
  assumes "bits bm" "length bm = m * w * (k * w)" "0 < m * w"
  shows "\<exists>smart. jerasure_smart_bitmatrix_to_schedule k m w bm = Some smart \<and>
    length smart \<le> length (jerasure_dumb_bitmatrix_to_schedule k m w bm) \<and>
    length (jerasure_dumb_bitmatrix_to_schedule k m w bm) \<le> k * m * w * w"
  using smart_schedule [OF assms] length_dumb_schedule [OF assms(1,2)] by fastforce

theorem schedules_fit_witness:
  "\<exists>smart. jerasure_smart_bitmatrix_to_schedule 2 2 1 [1, 1, 0, 1] = Some smart \<and> length smart \<le> 4"
  using schedules_fit [of "[1, 1, 0, 1]" 2 1 2] by (auto simp: bits_def)

text \<open>
  C20: for two coding devices and a bit matrix that survives the loss of
  any two, \<open>jerasure_generate_schedule_cache\<close> succeeds, and decoding one or two different
  erasures, in either order, with the cached schedules does exactly what
  \<open>jerasure_schedule_decode_lazy\<close> does.
\<close>

theorem cached_decode_agrees:
  assumes "bitmatrix_ok k 2 w bm" "bit_mds k 2 w bm" "k + 2 \<le> 2 ^ 31"
  shows "\<exists>cache. jerasure_generate_schedule_cache k 2 w bm smart = Some (Some cache) \<and>
    (\<forall>xs sz ps st. erasures_ok k 2 xs \<and> xs \<noteq> [] \<longrightarrow>
       jerasure_schedule_decode_cache k 2 w cache (xs @ [- 1]) sz ps st =
       jerasure_schedule_decode_lazy k 2 w bm (xs @ [- 1]) sz ps smart st)"
  using assms by (rule schedule_cache)

theorem cached_decode_agrees_witness:
  "\<exists>bm cache. jerasure_generate_schedule_cache 3 2 8 bm True = Some (Some cache) \<and>
     jerasure_schedule_decode_cache 3 2 8 cache ([4, 0] @ [- 1]) 64 8 packets3 =
     jerasure_schedule_decode_lazy 3 2 8 bm ([4, 0] @ [- 1]) 64 8 True packets3"
proof -
  obtain matrix where m: "matrix_ok 3 2 8 matrix" "square_regular (galois_default 8) 3 2 matrix"
    using original_ok [of 8 3 2] by auto
  have "erasures_ok 3 2 [4, 0]" by (simp add: erasures_ok_def)
  moreover obtain cache where
    "jerasure_generate_schedule_cache 3 2 8 (jerasure_matrix_to_bitmatrix (galois_default 8) 3 2 8 matrix) True = Some (Some cache)"
    "\<And>xs sz ps st. erasures_ok 3 2 xs \<Longrightarrow> xs \<noteq> [] \<Longrightarrow>
       jerasure_schedule_decode_cache 3 2 8 cache (xs @ [- 1]) sz ps st =
       jerasure_schedule_decode_lazy 3 2 8 (jerasure_matrix_to_bitmatrix (galois_default 8) 3 2 8 matrix) (xs @ [- 1]) sz ps True st"
    using cached_decode_agrees [OF default_bitmatrix(1) [OF m(1)] default_bitmatrix(2) [OF m], of True] by auto
  ultimately show ?thesis by blast
qed

section \<open>Bit matrices\<close>

text \<open>
  C23: the bit matrix of a coding matrix whose square submatrices are
  all regular over its field survives the loss of any m devices: the bit rows of any k
  devices are regular over the two-element field.
\<close>

theorem square_regular_bit_mds:
  assumes "gf_correct F" "w = h_w (scratch F)" "coding_matrix F k m matrix" "square_regular F k m matrix"
  shows "bit_mds k m w (jerasure_matrix_to_bitmatrix F k m w matrix)"
  by (rule correct_field.bit_mds_of_regular [OF correct_field.intro [OF assms(1)] assms(2-4)])

theorem square_regular_bit_mds_witness:
  "\<exists>matrix. cauchy_original_coding_matrix (galois_default 8) 3 2 8 = Some (Some matrix) \<and>
    bit_mds 3 2 8 (jerasure_matrix_to_bitmatrix (galois_default 8) 3 2 8 matrix)"
  using original_ok [of 8 3 2] square_regular_bit_mds [OF default_8(2)] by (auto simp: matrix_ok_def default_8(3))

text \<open>
  C27: \<open>jerasure_invert_bitmatrix\<close> returns 0 exactly for the bit
  matrices that are regular over the two-element field, and then the inverse is a bit matrix
  whose product with the matrix is the identity; \<open>jerasure_invertible_bitmatrix\<close> returns 1
  for exactly the same matrices.
\<close>

theorem bitmatrix_inversion_correct:
  assumes "bits mat" "length mat = n * n"
  shows "\<exists>mat' iv. jerasure_invert_bitmatrix mat n = (if bit_regular n (mf n mat) then 0 else - 1, mat', iv) \<and>
    (bit_regular n (mf n mat) \<longrightarrow> length iv = n * n \<and> bits iv \<and>
       is_identity n (mat_prod (galois_single_multiply (galois_default 8)) n (mf n iv) (mf n mat))) \<and>
    jerasure_invertible_bitmatrix mat n = (if bit_regular n (mf n mat) then 1 else 0)"
  using invert_bitmatrix [OF assms] invertible_bitmatrix [OF assms] by blast

theorem bitmatrix_inversion_correct_witness:
  "\<exists>mat' iv. jerasure_invert_bitmatrix [1, 1, 0, 1] 2 = (0, mat', iv) \<and> length iv = 4"
proof -
  have "jerasure_invertible_bitmatrix [1, 1, 0, 1] 2 = 1" by code_simp
  then show ?thesis
    using bitmatrix_inversion_correct [of "[1, 1, 0, 1]" 2] by (auto simp: bits_def split: if_splits)
qed

text \<open>
  C38: \<open>jerasure_bitmatrix_decode\<close> returns -1 and leaves the devices
  as they are when more than m devices are named, and when a data device is lost, the parity
  rows may not be used and the rows of the surviving devices are singular.
\<close>

theorem bitmatrix_decode_refuses:
  assumes "bitmatrix_ok k m w bm" "\<forall>e\<in>set xs. e \<noteq> - 1 \<and> unat e < k + m"
    "m < card (unat ` set xs) \<or>
      \<not> bit_recoverable k m w bm (erased_flags (k + m) xs) \<and> (\<exists>d<k. d \<in> unat ` set xs) \<and> row_k_ones \<noteq> 1"
  shows "jerasure_bitmatrix_decode k m w bm row_k_ones (xs @ - 1 # ys) sz ps st = Some (- 1, st)"
  using assms by (rule bit_decode_refuses)

theorem bitmatrix_decode_refuses_witness:
  "jerasure_bitmatrix_decode 2 1 8 (jerasure_matrix_to_bitmatrix (galois_default 8) 2 1 8 [1, 7]) 1 ([0, 2] @ - 1 # []) 64 8 packets3 =
     Some (- 1, packets3)"
  by (rule bitmatrix_decode_refuses [OF bitmatrix21(1)]) simp_all

end
