(* ===== verification/Vandermonde.thy ===== *)
theory Vandermonde
  imports Jer_Mds
begin

text \<open>
  Matrices with more rows than columns of which any choice of rows, as many as there are
  columns, is regular.  Vandermonde matrices are such, exchanging rows and operations on the
  columns keep it, and when the first rows are the identity, every square submatrix of the
  others is regular.
\<close>

text \<open>The coefficients of a polynomial, the constant one first, and its value.\<close>

definition horner :: "(u32 \<Rightarrow> u32 \<Rightarrow> u32) \<Rightarrow> u32 list \<Rightarrow> u32 \<Rightarrow> u32" where
  "horner mult zs x = foldr (\<lambda>z v. z XOR mult x v) zs 0"

lemma horner_simps [simp]: "horner mult [] x = 0" "horner mult (z # zs) x = z XOR mult x (horner mult zs x)"
  by (simp_all add: horner_def)

definition row_sets :: "nat \<Rightarrow> nat \<Rightarrow> nat set set" where
  "row_sets rows cols = {R. R \<subseteq> {..<rows} \<and> card R = cols}"

definition all_regular ::
  "(u32 \<Rightarrow> bool) \<Rightarrow> (u32 \<Rightarrow> u32 \<Rightarrow> u32) \<Rightarrow> nat \<Rightarrow> nat \<Rightarrow> mat \<Rightarrow> bool" where
  "all_regular elem mult rows cols A \<longleftrightarrow> (\<forall>R\<in>row_sets rows cols. \<forall>z. (\<forall>c. elem (z c)) \<and>
     (\<forall>r\<in>R. mat_vec mult cols A z r = 0) \<longrightarrow> (\<forall>c<cols. z c = 0))"

text \<open>Every square submatrix of the m by k matrix B is regular.\<close>

definition minors_regular ::
  "(u32 \<Rightarrow> bool) \<Rightarrow> (u32 \<Rightarrow> u32 \<Rightarrow> u32) \<Rightarrow> nat \<Rightarrow> nat \<Rightarrow> mat \<Rightarrow> bool" where
  "minors_regular elem mult m k B \<longleftrightarrow> (\<forall>C E z. C \<subseteq> {..<m} \<and> E \<subseteq> {..<k} \<and> card C = card E \<and> (\<forall>j. elem (z j)) \<and>
     (\<forall>i\<in>C. xsum_on k E (\<lambda>j. mult (B i j) (z j)) = 0) \<longrightarrow> (\<forall>j\<in>E. z j = 0))"

lemma square_regular_minors:
  "square_regular F k m matrix \<longleftrightarrow> minors_regular (felem F) (galois_single_multiply F) m k (\<lambda>i j. matrix ! (i * k + j))"
  by (simp add: square_regular_def minors_regular_def)

context gf_arith
begin

abbreviation "all_reg \<equiv> all_regular elem mult"
abbreviation "minors_reg \<equiv> minors_regular elem mult"

section \<open>Polynomials have few roots\<close>

lemma elem_horner: "\<forall>z\<in>set zs. elem z \<Longrightarrow> elem x \<Longrightarrow> elem (horner mult zs x)"
  by (induction zs) (auto simp: elem_0 elem_xor elem_mult)

text \<open>Division by a linear factor; the quotient is zero only when all but the constant are.\<close>

lemma horner_divide:
  assumes "\<forall>y\<in>set (z # zs). elem y" "elem a"
  shows "\<exists>q. length q = length zs \<and> (\<forall>y\<in>set q. elem y) \<and> (set q \<subseteq> {0} \<longrightarrow> set zs \<subseteq> {0}) \<and>
    (\<forall>x. elem x \<longrightarrow> horner mult (z # zs) x = mult (x XOR a) (horner mult q x) XOR horner mult (z # zs) a)"
  using assms
proof (induction zs arbitrary: z)
  case Nil
  then show ?case by (auto simp: mult_0 elem_xor intro: exI [of _ "[]"])
next
  case (Cons y zs)
  then obtain q where q: "length q = length zs" "\<forall>y\<in>set q. elem y" "set q \<subseteq> {0} \<longrightarrow> set zs \<subseteq> {0}"
    and eq: "\<And>x. elem x \<Longrightarrow> horner mult (y # zs) x = mult (x XOR a) (horner mult q x) XOR horner mult (y # zs) a"
    using Cons.IH [of y, OF _ Cons.prems(2)] Cons.prems(1) unfolding list.set by blast
  let ?p = "\<lambda>x. horner mult (y # zs) x"
  have el: "elem (?p x)" "elem (horner mult q x)" if "elem x" for x
    using Cons.prems q(2) that by (intro elem_horner; auto)+
  have "set zs \<subseteq> {0} \<Longrightarrow> horner mult zs a = 0"
    using Cons.prems(2) by (induction zs) (auto simp: mult_0)
  then have zero: "set (?p a # q) \<subseteq> {0} \<longrightarrow> set (y # zs) \<subseteq> {0}" using q(3) Cons.prems(2) by (auto simp: mult_0)
  have "horner mult (z # y # zs) x = mult (x XOR a) (horner mult (?p a # q) x) XOR horner mult (z # y # zs) a"
    if x: "elem x" for x
  proof -
    have "mult x (?p x) = mult x (mult (x XOR a) (horner mult q x)) XOR mult x (?p a)"
      using eq [OF x] el [OF x] el [OF Cons.prems(2)] x Cons.prems(2) by (simp del: horner_simps add: mult_xor elem_mult elem_xor)
    moreover have "mult (x XOR a) (?p a XOR mult x (horner mult q x)) =
        mult x (?p a) XOR mult a (?p a) XOR mult (x XOR a) (mult x (horner mult q x))"
      using el [OF x] el [OF Cons.prems(2)] x Cons.prems(2)
      by (simp del: horner_simps add: mult_xor mult_xor' elem_mult elem_xor xor_ac)
    moreover have "mult (x XOR a) (mult x (horner mult q x)) = mult x (mult (x XOR a) (horner mult q x))"
      using el [OF x] x Cons.prems(2) by (intro mult_left_comm) (auto simp: elem_xor)
    ultimately show ?thesis
      unfolding horner_simps(2) [of mult z "y # zs"] horner_simps(2) [of mult "?p a" q] by (simp del: horner_simps add: xor_ac)
  qed
  moreover have "length (?p a # q) = length (y # zs)" "\<forall>v\<in>set (?p a # q). elem v"
    using q el(1) [OF Cons.prems(2)] by auto
  ultimately show ?case using zero by blast
qed

lemma horner_roots:
  assumes "\<forall>y\<in>set zs. elem y" "finite X" "card X = length zs" "\<forall>x\<in>X. elem x \<and> horner mult zs x = 0"
  shows "set zs \<subseteq> {0}"
  using assms
proof (induction "length zs" arbitrary: zs X)
  case (Suc n)
  then obtain z ys where zs: "zs = z # ys" by (cases zs) auto
  obtain a where a: "a \<in> X" using Suc.prems(3) zs by fastforce
  then have ea: "elem a" "horner mult (z # ys) a = 0" using Suc.prems(4) zs by auto
  obtain q where q: "length q = length ys" "\<forall>y\<in>set q. elem y" "set q \<subseteq> {0} \<longrightarrow> set ys \<subseteq> {0}"
    and eq: "\<And>x. elem x \<Longrightarrow> horner mult (z # ys) x = mult (x XOR a) (horner mult q x) XOR horner mult (z # ys) a"
    using horner_divide [of z ys a] Suc.prems(1) zs ea by blast
  have "elem x \<and> horner mult q x = 0" if x: "x \<in> X - {a}" for x
  proof -
    have "elem x" "horner mult (z # ys) x = 0" using Suc.prems(4) zs x by auto
    then have "mult (x XOR a) (horner mult q x) = 0" using eq [of x] ea by simp
    then show ?thesis
      using no_zero_div' [of "x XOR a" "horner mult q x"] elem_horner [OF q(2)] \<open>elem x\<close> ea(1) x by (auto simp: elem_xor)
  qed
  moreover have "card (X - {a}) = length q" using a Suc.prems(2,3) zs q(1) by simp
  ultimately have "set q \<subseteq> {0}" using Suc.hyps(1) [of q "X - {a}"] Suc.hyps(2) q zs Suc.prems(2) by simp
  then have ys: "set ys \<subseteq> {0}" using q(3) by blast
  then have "horner mult ys a = 0" using ea(1) by (induction ys) (auto simp: mult_0)
  then have "z = 0" using ea by (simp add: mult_0)
  then show ?case using ys zs by simp
qed simp

text \<open>The powers of x, as the source computes them.\<close>

definition powers :: "u32 \<Rightarrow> nat \<Rightarrow> u32" where
  "powers x c = ((\<lambda>k. mult k x) ^^ c) 1"

lemma powers_simps [simp]: "powers x 0 = 1" "powers x (Suc c) = mult (powers x c) x"
  by (simp_all add: powers_def)

lemma elem_powers: "elem x \<Longrightarrow> elem (powers x c)"
  by (induction c) (auto simp: elem_1 elem_mult)

lemma powers_horner:
  assumes "\<forall>c. elem (z c)" "elem x"
  shows "xsum n (\<lambda>c. mult (powers x c) (z c)) = horner mult (map z [0..<n]) x"
  using assms(1)
proof (induction n arbitrary: z)
  case (Suc n)
  have "xsum (Suc n) (\<lambda>c. mult (powers x c) (z c)) = z 0 XOR xsum n (\<lambda>c. mult x (mult (powers x c) (z (Suc c))))"
    unfolding xsum_Suc_shift using Suc.prems assms(2) mult_comm [of "powers x _" x]
    by (auto simp: mult_1 mult_assoc elem_powers intro!: xsum_cong)
  also have "xsum n (\<lambda>c. mult x (mult (powers x c) (z (Suc c)))) = mult x (xsum n (\<lambda>c. mult (powers x c) (z (Suc c))))"
    using Suc.prems assms(2) by (subst mult_xsum) (auto simp: elem_mult elem_powers)
  also have "xsum n (\<lambda>c. mult (powers x c) (z (Suc c))) = horner mult (map (\<lambda>c. z (Suc c)) [0..<n]) x"
    using Suc.IH [of "\<lambda>c. z (Suc c)"] Suc.prems by simp
  also have "map (\<lambda>c. z (Suc c)) [0..<n] = map z [1..<Suc n]"
    by (simp add: map_Suc_upt [symmetric] del: upt_Suc)
  finally show ?case by (simp only: upt_conv_Cons [of 0 "Suc n"] horner_simps list.map zero_less_Suc One_nat_def)
qed simp

lemma powers_independent:
  assumes "\<forall>c. elem (z c)" "finite X" "card X = n" "\<forall>x\<in>X. elem x \<and> xsum n (\<lambda>c. mult (powers x c) (z c)) = 0"
  shows "\<forall>c<n. z c = 0"
proof -
  have "set (map z [0..<n]) \<subseteq> {0}"
    using assms powers_horner [OF assms(1)] by (intro horner_roots [OF _ assms(2)]) auto
  then show ?thesis by force
qed

section \<open>Regular choices of rows\<close>

lemma all_regD:
  assumes "all_reg rows cols A" "R \<subseteq> {..<rows}" "card R = cols" "\<forall>c. elem (z c)"
    and "\<And>r. r \<in> R \<Longrightarrow> mvec cols A z r = 0"
  shows "c < cols \<Longrightarrow> z c = 0"
  using assms unfolding all_regular_def row_sets_def by blast

text \<open>A change of the matrix that is undone by a change of the vector keeps it.\<close>

lemma all_reg_transform:
  assumes "all_reg rows cols A"
    and "\<And>z. \<forall>c. elem (z c) \<Longrightarrow> (\<forall>c. elem (f z c)) \<and> (\<forall>r<rows. mvec cols A' z r = mvec cols A (f z) r) \<and>
      ((\<forall>c<cols. f z c = 0) \<longrightarrow> (\<forall>c<cols. z c = 0))"
  shows "all_reg rows cols A'"
  unfolding all_regular_def row_sets_def
proof (intro ballI allI impI, elim conjE CollectE)
  fix R z c assume R: "R \<subseteq> {..<rows}" "card R = cols" and z: "\<forall>c. elem (z c)" "\<forall>r\<in>R. mvec cols A' z r = 0" and c: "c < cols"
  have "f z c' = 0" if "c' < cols" for c'
    by (rule all_regD [OF assms(1) R _ _ that]) (use assms(2) [OF z(1)] z(2) R in auto)
  then show "z c = 0" using assms(2) [OF z(1)] c by blast
qed

lemma all_reg_cong:
  assumes "all_reg rows cols A" "\<And>r c. r < rows \<Longrightarrow> c < cols \<Longrightarrow> A' r c = A r c"
  shows "all_reg rows cols A'"
  by (rule all_reg_transform [OF assms(1), of id]) (use assms(2) in \<open>auto intro!: mvec_cong\<close>)

lemma all_reg_permute:
  assumes "all_reg rows cols A" "\<And>r. r < rows \<Longrightarrow> p r < rows" "\<And>r. p (p r) = r"
  shows "all_reg rows cols (\<lambda>r. A (p r))"
  unfolding all_regular_def row_sets_def
proof (intro ballI allI impI, elim conjE CollectE)
  fix R z c assume R: "R \<subseteq> {..<rows}" "card R = cols" and z: "\<forall>c. elem (z c)" "\<forall>r\<in>R. mvec cols (\<lambda>r. A (p r)) z r = 0"
    and c: "c < cols"
  have "inj_on p R" by (rule inj_on_inverseI [of _ p]) (rule assms(3))
  moreover have "mvec cols A z (p r) = mvec cols (\<lambda>r. A (p r)) z r" for r by (simp add: mat_vec_def)
  ultimately show "z c = 0"
    using R z assms(2) by (intro all_regD [OF assms(1), of "p ` R" z c] c) (auto simp: card_image)
qed

lemma all_reg_scale:
  assumes A: "all_reg rows cols A" "\<forall>r<rows. \<forall>c<cols. elem (A r c)" and i: "i < cols" and s: "elem s" "s \<noteq> 0"
  shows "all_reg rows cols (\<lambda>r c. if c = i then mult s (A r c) else A r c)"
proof (rule all_reg_transform [OF A(1), of "\<lambda>z. z(i := mult s (z i))"], intro conjI allI impI)
  fix z :: "nat \<Rightarrow> u32" and r assume z: "\<forall>c. elem (z c)" and r: "r < rows"
  show "mvec cols (\<lambda>r c. if c = i then mult s (A r c) else A r c) z r = mvec cols A (z(i := mult s (z i))) r"
    unfolding mat_vec_def using A(2) r z s mult_left_comm [of s] by (intro xsum_cong) (auto simp: mult_assoc)
next
  fix z c assume "\<forall>c. elem (z c)" "\<forall>c<cols. (z(i := mult s (z i))) c = 0" "c < cols"
  then show "z c = 0" using no_zero_div' [OF s(1), of "z i"] i s(2) by (cases "c = i") auto
qed (use s in \<open>auto simp: elem_mult\<close>)

lemma all_reg_add:
  assumes A: "all_reg rows cols A" "\<forall>r<rows. \<forall>c<cols. elem (A r c)" and i: "i < cols" "j < cols" "i \<noteq> j" and t: "elem t"
  shows "all_reg rows cols (\<lambda>r c. if c = j then A r j XOR mult t (A r i) else A r c)"
proof (rule all_reg_transform [OF A(1), of "\<lambda>z. z(i := z i XOR mult t (z j))"], intro conjI allI impI)
  fix z :: "nat \<Rightarrow> u32" and r assume z: "\<forall>c. elem (z c)" and r: "r < rows"
  have "mvec cols (\<lambda>r c. if c = j then A r j XOR mult t (A r i) else A r c) z r =
      xsum cols (\<lambda>c. mult (A r c) (z c) XOR (if c = j then mult (A r i) (mult t (z j)) else 0))"
    unfolding mat_vec_def
    using A(2) r z t i mult_comm [of t "A r i"] by (intro xsum_cong) (auto simp: mult_xor' mult_assoc elem_mult)
  also have "\<dots> = xsum cols (\<lambda>c. mult (A r c) (z c) XOR (if c = i then mult (A r i) (mult t (z j)) else 0))"
    using i by (simp add: xsum_xor xsum_delta)
  also have "\<dots> = mvec cols A (z(i := z i XOR mult t (z j))) r"
    unfolding mat_vec_def using A(2) r z t i by (intro xsum_cong) (auto simp: mult_xor elem_mult)
  finally show "mvec cols (\<lambda>r c. if c = j then A r j XOR mult t (A r i) else A r c) z r =
      mvec cols A (z(i := z i XOR mult t (z j))) r" .
next
  fix z c assume z: "\<forall>c. elem (z c)" and zero: "\<forall>c<cols. (z(i := z i XOR mult t (z j))) c = 0" and c: "c < cols"
  have "z j = 0" using zero i by auto
  then show "z c = 0" using zero c i t by (cases "c = i") (auto simp: mult_0 split: if_splits)
qed (use t in \<open>auto simp: elem_mult elem_xor\<close>)

text \<open>Some row has a non-zero element in column i when the rows before it are unit vectors.\<close>

lemma all_reg_pivot:
  assumes "all_reg rows cols A" "\<forall>r<rows. \<forall>c<cols. elem (A r c)" "cols \<le> rows" "i < cols"
    and unit: "\<forall>r<i. \<forall>c<cols. A r c = (if r = c then 1 else 0)"
  shows "\<exists>j. i \<le> j \<and> j < rows \<and> A j i \<noteq> 0"
proof (rule ccontr)
  assume none: "\<not> ?thesis"
  define z :: "nat \<Rightarrow> u32" where "z c = (if c = i then 1 else 0)" for c
  have "mvec cols A z r = 0" if "r < cols" for r
  proof -
    have "mvec cols A z r = xsum cols (\<lambda>c. if c = i then A r c else 0)"
      unfolding mat_vec_def z_def using assms(2,3) that by (intro xsum_cong) (auto simp: mult_0 mult_1')
    also have "\<dots> = A r i" using assms(4) by (simp add: xsum_delta)
    also have "\<dots> = 0" using none unit assms(3,4) that by (cases "r < i") auto
    finally show ?thesis .
  qed
  then have "z i = 0"
    using assms(3) by (intro all_regD [OF assms(1), of "{..<cols}" z i] assms(4)) (auto simp: z_def elem_0 elem_1)
  then show False by (simp add: z_def)
qed

text \<open>The rows after an identity: a square submatrix is completed by rows of the identity.\<close>

lemma all_reg_minors:
  assumes A: "all_reg (k + m) k A" "\<forall>r<k + m. \<forall>c<k. elem (A r c)"
    and unit: "\<forall>r<k. \<forall>c<k. A r c = (if r = c then 1 else 0)"
  shows "minors_reg m k (\<lambda>i. A (k + i))"
  unfolding minors_regular_def
proof (intro allI impI, elim conjE)
  fix C E z assume C: "C \<subseteq> {..<m}" and E: "E \<subseteq> {..<k}" and card: "card C = card E" and z: "\<forall>j. elem (z j)"
    and sum: "\<forall>i\<in>C. xsum_on k E (\<lambda>j. mult (A (k + i) j) (z j)) = 0"
  define y where "y j = (if j \<in> E then z j else 0)" for j
  have ely: "\<forall>j. elem (y j)" using z by (simp add: y_def elem_0)
  have fin: "finite E" "finite C" using finite_subset [OF E] finite_subset [OF C] by auto
  have id: "mvec k A y r = 0" if "r < k" "r \<notin> E" for r
  proof -
    have "mvec k A y r = xsum k (\<lambda>c. if c = r then y c else 0)"
      unfolding mat_vec_def using unit that ely by (intro xsum_cong) (auto simp: mult_0' mult_1)
    then show ?thesis using that by (simp add: xsum_delta y_def)
  qed
  have low: "mvec k A y (k + i) = 0" if "i \<in> C" for i
  proof -
    have "mvec k A y (k + i) = xsum_on k E (\<lambda>j. mult (A (k + i) j) (z j))"
      unfolding mat_vec_def y_def using A(2) C that by (intro xsum_cong) (auto simp: mult_0)
    then show ?thesis using sum that by simp
  qed
  have "card (({..<k} - E) \<union> (+) k ` C) = card ({..<k} - E) + card ((+) k ` C)"
    using fin by (intro card_Un_disjoint) auto
  also have "card ((+) k ` C) = card E" using card by (simp add: card_image)
  finally have "card (({..<k} - E) \<union> (+) k ` C) = k"
    using E fin card_mono [OF _ E] by (simp add: card_Diff_subset)
  note zero = all_regD [OF A(1) _ this ely]
  have "y j = 0" if "j < k" for j
    by (rule zero [OF _ _ that]) (use C id low in auto)
  then show "\<forall>j\<in>E. z j = 0" using E unfolding y_def by (metis lessThan_iff subsetD)
qed

text \<open>Scaling a column or a row of a matrix with regular square submatrices.\<close>

lemma minors_reg_cong:
  assumes "minors_reg m k B" "\<And>i j. i < m \<Longrightarrow> j < k \<Longrightarrow> B' i j = B i j"
  shows "minors_reg m k B'"
  unfolding minors_regular_def
proof (intro allI impI, elim conjE)
  fix C E z assume C: "C \<subseteq> {..<m}" and E: "E \<subseteq> {..<k}" and card: "card C = card E" and z: "\<forall>j. elem (z j)"
    and sum: "\<forall>i\<in>C. xsum_on k E (\<lambda>j. mult (B' i j) (z j)) = 0"
  have "xsum_on k E (\<lambda>j. mult (B i j) (z j)) = xsum_on k E (\<lambda>j. mult (B' i j) (z j))" if "i \<in> C" for i
    using assms(2) C that by (intro xsum_on_cong) auto
  then show "\<forall>j\<in>E. z j = 0"
    using assms(1) [unfolded minors_regular_def, rule_format, of C E z] C E card z sum by auto
qed

lemma minors_reg_scale:
  assumes B: "minors_reg m k B" "\<forall>i<m. \<forall>j<k. elem (B i j)"
    and s: "\<forall>i<m. elem (s i) \<and> s i \<noteq> 0" and t: "\<forall>j<k. elem (t j) \<and> t j \<noteq> 0"
  shows "minors_reg m k (\<lambda>i j. mult (s i) (mult (t j) (B i j)))"
  unfolding minors_regular_def
proof (intro allI impI, elim conjE)
  fix C E z assume C: "C \<subseteq> {..<m}" and E: "E \<subseteq> {..<k}" and card: "card C = card E" and z: "\<forall>j. elem (z j)"
    and sum: "\<forall>i\<in>C. xsum_on k E (\<lambda>j. mult (mult (s i) (mult (t j) (B i j))) (z j)) = 0"
  define y where "y j = (if j \<in> E then mult (t j) (z j) else 0)" for j
  have ely: "\<forall>j. elem (y j)" using z t E by (auto simp: y_def elem_0 elem_mult)
  have "xsum_on k E (\<lambda>j. mult (B i j) (y j)) = 0" if i: "i \<in> C" for i
  proof -
    have im: "i < m" using C i by auto
    have el: "elem (mult (B i j) (y j))" if "j \<in> E" for j using B(2) im ely E that by (auto intro!: elem_mult)
    have "mult (s i) (xsum_on k E (\<lambda>j. mult (B i j) (y j))) = xsum_on k E (\<lambda>j. mult (s i) (mult (B i j) (y j)))"
      using s im el by (intro mult_xsum_on) auto
    also have "\<dots> = xsum_on k E (\<lambda>j. mult (mult (s i) (mult (t j) (B i j))) (z j))"
      using s t B(2) im z E
      by (intro xsum_on_cong) (auto simp: y_def mult_assoc elem_mult mult_left_comm [of "B i _"])
    finally have "mult (s i) (xsum_on k E (\<lambda>j. mult (B i j) (y j))) = 0" using sum i by simp
    moreover have "elem (xsum_on k E (\<lambda>j. mult (B i j) (y j)))" using el by (intro elem_xsum_on) auto
    ultimately show ?thesis using no_zero_div' s im by blast
  qed
  then have "\<forall>j\<in>E. y j = 0"
    using B(1) [unfolded minors_regular_def, rule_format, of C E y] C E card ely by auto
  then show "\<forall>j\<in>E. z j = 0" using no_zero_div' t z E unfolding y_def by (metis lessThan_iff subsetD)
qed

lemma minors_reg_nonzero:
  assumes "minors_reg m k B" "\<forall>i<m. \<forall>j<k. elem (B i j)" "i < m" "j < k"
  shows "B i j \<noteq> 0"
proof
  assume "B i j = 0"
  then have "xsum_on k {j} (\<lambda>j. mult (B i j) 1) = 0"
    using assms(4) xsum_on_insert [of j k "{}"] by (simp add: mult_0' elem_1)
  then have "(1 :: u32) = 0"
    by (intro assms(1) [unfolded minors_regular_def, rule_format, of "{i}" "{j}" "\<lambda>_. 1" j])
      (use assms(3,4) elem_1 in auto)
  then show False by simp
qed

section \<open>The extended Vandermonde matrix\<close>

text \<open>Row r holds the powers of x r, but the last one is the unit vector of the last column.\<close>

lemma vandermonde_all_reg:
  assumes "inj_on x {..<rows - 1}" "\<forall>r<rows - 1. elem (x r)" "0 < cols" "0 < rows"
    and A: "\<forall>r<rows - 1. \<forall>c<cols. A r c = powers (x r) c"
    and last: "\<forall>c<cols. A (rows - 1) c = (if c = cols - 1 then 1 else 0)"
  shows "all_reg rows cols A"
  unfolding all_regular_def row_sets_def
proof (intro ballI, elim CollectE conjE, rule allI, rule impI, elim conjE)
  fix R z assume R: "R \<subseteq> {..<rows}" "card R = cols" and z: "\<forall>c. elem (z c)" "\<forall>r\<in>R. mvec cols A z r = 0"
  have fin: "finite R" using finite_subset [OF R(1)] by simp
  have inj: "inj_on x (R - {rows - 1})" using R(1) by (intro inj_on_subset [OF assms(1)]) auto
  have sum: "xsum cols (\<lambda>c. mult (powers (x r) c) (z c)) = 0" if "r \<in> R - {rows - 1}" for r
  proof -
    have "r < rows - 1" using R(1) that by auto
    then have "mvec cols A z r = xsum cols (\<lambda>c. mult (powers (x r) c) (z c))"
      unfolding mat_vec_def using A by (intro xsum_cong) auto
    then show ?thesis using z(2) that by simp
  qed
  have el: "elem (x r)" if "r \<in> R - {rows - 1}" for r using assms(2) R(1) that by auto
  show "\<forall>c<cols. z c = 0"
  proof (cases "rows - 1 \<in> R")
    case True
    obtain n where n: "cols = Suc n" using assms(3) by (cases cols) auto
    have "mvec cols A z (rows - 1) = xsum cols (\<lambda>c. if c = cols - 1 then z c else 0)"
      unfolding mat_vec_def using last z(1) by (intro xsum_cong) (auto simp: mult_0' mult_1)
    then have zn: "z n = 0" using True z(2) n by (simp add: xsum_delta)
    have "\<forall>c<n. z c = 0"
    proof (rule powers_independent [OF z(1), of "x ` (R - {rows - 1})"])
      show "card (x ` (R - {rows - 1})) = n" using True R(2) n fin inj by (simp add: card_image)
      show "\<forall>v\<in>x ` (R - {rows - 1}). elem v \<and> xsum n (\<lambda>c. mult (powers v c) (z c)) = 0"
        using sum el zn n by (auto simp: mult_0 elem_powers)
    qed (use fin in simp)
    then show ?thesis using zn n by (auto simp: less_Suc_eq)
  next
    case False
    show ?thesis
    proof (rule powers_independent [OF z(1), of "x ` R"])
      show "card (x ` R) = cols" using False R(2) inj by (simp add: card_image)
    qed (use False fin sum el in auto)
  qed
qed

end

end
