(* ===== verification/Reed_Sol.thy ===== *)
theory Reed_Sol
  imports Cauchy Vandermonde
begin

text \<open>
  The coding matrices of reed_sol.c: the two rows of RAID-6, and Vandermonde matrices that are
  made systematic by operations on their columns.  F is the field for the word size.  In a
  result the outer None is an access outside the array, a failing assertion or a division that
  does not return, the inner None is NULL.
\<close>

section \<open>The matrices\<close>

definition reed_sol_r6_coding_matrix :: "gf_t \<Rightarrow> nat \<Rightarrow> nat \<Rightarrow> u32 list option option" where
  "reed_sol_r6_coding_matrix F k w =
    (if w \<noteq> 8 \<and> w \<noteq> 16 \<and> w \<noteq> 32 then Some None
     else if k = 0 then None
     else let matrix = fold (\<lambda>i matrix. matrix[i := 1]) [0..<k] (replicate (2 * k) 0);
              matrix = matrix[k := 1];
              (tmp, matrix) =
                fold (\<lambda>i (tmp, matrix). let tmp = galois_single_multiply F tmp 2 in (tmp, matrix[k + i := tmp]))
                  [1..<k] (1, matrix)
          in Some (Some matrix))"

text \<open>Row i holds the powers of i.\<close>

definition vandermonde_row :: "gf_t \<Rightarrow> nat \<Rightarrow> nat \<Rightarrow> u32 list \<Rightarrow> u32 list" where
  "vandermonde_row F cols i vdm =
    snd (fold (\<lambda>j (k, vdm). (galois_single_multiply F k (of_nat i), vdm[i * cols + j := k])) [0..<cols] (1, vdm))"

definition reed_sol_extended_vandermonde_matrix :: "gf_t \<Rightarrow> nat \<Rightarrow> nat \<Rightarrow> nat \<Rightarrow> u32 list option option" where
  "reed_sol_extended_vandermonde_matrix F rows cols w =
    (if w < 30 \<and> 2 ^ w < rows then Some None
     else if w < 30 \<and> 2 ^ w < cols then Some None
     else if rows = 0 \<or> cols = 0 then None
     else let vdm = (replicate (rows * cols) 0)[0 := 1];
              vdm = fold (\<lambda>j vdm. vdm[j := 0]) [1..<cols] vdm
          in if rows = 1 then Some (Some vdm)
             else let i = (rows - 1) * cols;
                      vdm = fold (\<lambda>j vdm. vdm[i + j := 0]) [0..<cols - 1] vdm;
                      vdm = vdm[i + (cols - 1) := 1]
                  in if rows = 2 then Some (Some vdm)
                     else Some (Some (fold (vandermonde_row F cols) [1..<rows - 1] vdm)))"

text \<open>
  One round of the main loop makes row i a unit vector: a row with a non-zero element in
  column i is brought there, the column is scaled, and it is added to the other columns.
\<close>

definition scale_column :: "gf_t \<Rightarrow> nat \<Rightarrow> nat list \<Rightarrow> nat \<Rightarrow> u32 \<Rightarrow> u32 list \<Rightarrow> u32 list" where
  "scale_column F cols rs j tmp dist =
    fold (\<lambda>r dist. dist[r * cols + j := galois_single_multiply F tmp (dist ! (r * cols + j))]) rs dist"

definition add_column :: "gf_t \<Rightarrow> nat \<Rightarrow> nat \<Rightarrow> nat \<Rightarrow> nat \<Rightarrow> u32 list \<Rightarrow> u32 list" where
  "add_column F rows cols i j dist =
    (let tmp = dist ! (i * cols + j)
     in if j \<noteq> i \<and> tmp \<noteq> 0
        then fold (\<lambda>k dist. dist[k * cols + j := dist ! (k * cols + j) XOR
                   galois_single_multiply F tmp (dist ! (k * cols + i))]) [0..<rows] dist
        else dist)"

definition vandermonde_round :: "gf_t \<Rightarrow> nat \<Rightarrow> nat \<Rightarrow> nat \<Rightarrow> u32 list \<Rightarrow> u32 list option" where
  "vandermonde_round F rows cols i dist =
    obind (find (\<lambda>j. dist ! (j * cols + i) \<noteq> 0) [i..<rows]) (\<lambda>j.
    let dist = (if j \<noteq> i then row_swap cols j i dist else dist)
    in obind (if dist ! (i * cols + i) \<noteq> 1
              then map_option (\<lambda>tmp. scale_column F cols [0..<rows] i tmp dist)
                     (galois_single_divide F 1 (dist ! (i * cols + i)))
              else Some dist) (\<lambda>dist.
       Some (fold (add_column F rows cols i) [0..<cols] dist)))"

text \<open>The last two loops make row cols, and the first column of the rows after it, all ones.\<close>

definition vandermonde_ones_column :: "gf_t \<Rightarrow> nat \<Rightarrow> nat \<Rightarrow> nat \<Rightarrow> u32 list \<Rightarrow> u32 list option" where
  "vandermonde_ones_column F rows cols j dist =
    (let tmp = dist ! (cols * cols + j)
     in if tmp \<noteq> 1 then map_option (\<lambda>tmp. scale_column F cols [cols..<rows] j tmp dist) (galois_single_divide F 1 tmp)
        else Some dist)"

definition vandermonde_ones_row :: "gf_t \<Rightarrow> nat \<Rightarrow> nat \<Rightarrow> u32 list \<Rightarrow> u32 list option" where
  "vandermonde_ones_row F cols i dist =
    (let tmp = dist ! (i * cols)
     in if tmp \<noteq> 1
        then map_option (\<lambda>tmp. row_op cols (\<lambda>x y. galois_single_multiply F x tmp) i i dist) (galois_single_divide F 1 tmp)
        else Some dist)"

definition reed_sol_big_vandermonde_distribution_matrix ::
  "gf_t \<Rightarrow> nat \<Rightarrow> nat \<Rightarrow> nat \<Rightarrow> u32 list option option" where
  "reed_sol_big_vandermonde_distribution_matrix F rows cols w =
    (if cols \<ge> rows then Some None
     else obind (reed_sol_extended_vandermonde_matrix F rows cols w) (\<lambda>r.
       case r of
         None \<Rightarrow> Some None
       | Some dist \<Rightarrow>
           obind (ofold (vandermonde_round F rows cols) [1..<cols] dist) (\<lambda>dist.
           obind (ofold (vandermonde_ones_column F rows cols) [0..<cols] dist) (\<lambda>dist.
           map_option Some (ofold (vandermonde_ones_row F cols) [cols + 1..<rows] dist)))))"

definition reed_sol_vandermonde_coding_matrix :: "gf_t \<Rightarrow> nat \<Rightarrow> nat \<Rightarrow> nat \<Rightarrow> u32 list option option" where
  "reed_sol_vandermonde_coding_matrix F k m w =
    obind (reed_sol_big_vandermonde_distribution_matrix F (k + m) k w) (\<lambda>r.
      Some (map_option (\<lambda>vdm. fold (\<lambda>j dist. dist[j := vdm ! (k * k + j)]) [0..<m * k] (replicate (m * k) 0)) r))"

end
