(* ===== verification/Reed_Sol_Correct.thy ===== *)
theory Reed_Sol_Correct
  imports Reed_Sol
begin

text \<open>
  The matrices of reed_sol.c have regular square submatrices, so that their codes survive the
  loss of any m devices.
\<close>

section \<open>Loops over a column\<close>

lemma column_inj: "j < cols \<Longrightarrow> inj_on (\<lambda>r. r * cols + j) (X :: nat set)"
  by (auto simp: inj_on_def)

lemma length_scale_column [simp]: "length (scale_column F cols rs j tmp dist) = length dist"
  unfolding scale_column_def
  using length_fold_modify [of "\<lambda>r. r * cols + j" "galois_single_multiply F tmp" rs dist] by simp

lemma mf_scale_column:
  assumes "length dist = rows * cols" "j < cols" "distinct rs" "r < rows" "c < cols"
  shows "mf cols (scale_column F cols rs j tmp dist) r c =
    (if c = j \<and> r \<in> set rs then galois_single_multiply F tmp (mf cols dist r c) else mf cols dist r c)"
proof -
  have "r * cols + c \<in> (\<lambda>r. r * cols + j) ` set rs \<longleftrightarrow> c = j \<and> r \<in> set rs"
    using mat_index_eq [OF assms(5,2)] by auto
  then show ?thesis
    unfolding mf_def scale_column_def
    using nth_fold_modify [OF assms(3) column_inj [OF assms(2)], of "r * cols + c" dist "galois_single_multiply F tmp"]
      mat_index_lt [OF assms(4,5)] assms(1) by simp
qed

lemma length_add_column [simp]: "length (add_column F rows cols i j dist) = length dist"
  unfolding add_column_def Let_def
  using length_fold_combine [of "\<lambda>k. k * cols + j" "\<lambda>x y. x XOR galois_single_multiply F (dist ! (i * cols + j)) y"
      "\<lambda>k. k * cols + i" "[0..<rows]" dist] by simp

lemma mf_add_column:
  assumes "length dist = rows * cols" "i < cols" "j < cols" "j \<noteq> i" "r < rows" "c < cols"
    and zero: "galois_single_multiply F 0 (mf cols dist r i) = 0"
  shows "mf cols (add_column F rows cols i j dist) r c =
    (if c = j then mf cols dist r j XOR galois_single_multiply F (mf cols dist i j) (mf cols dist r i) else mf cols dist r c)"
proof (cases "dist ! (i * cols + j) = 0")
  case True
  then show ?thesis using zero by (simp add: add_column_def mf_def)
next
  case False
  let ?g = "\<lambda>x y. x XOR galois_single_multiply F (dist ! (i * cols + j)) y"
  have eq: "add_column F rows cols i j dist =
      fold (\<lambda>k t. t[k * cols + j := ?g (t ! (k * cols + j)) (t ! (k * cols + i))]) [0..<rows] dist"
    using False assms(4) by (simp add: add_column_def)
  show ?thesis
  proof (cases "c = j")
    case True
    have dis: "(\<lambda>k. k * cols + i) ` set [0..<rows] \<inter> (\<lambda>k. k * cols + j) ` set [0..<rows] = {}"
      using mat_index_eq [OF assms(2,3)] assms(4) by auto
    have "fold (\<lambda>k t. t[k * cols + j := ?g (t ! (k * cols + j)) (t ! (k * cols + i))]) [0..<rows] dist ! (r * cols + j) =
        ?g (dist ! (r * cols + j)) (dist ! (r * cols + i))"
      using assms mat_index_lt [OF assms(5,3)]
      by (intro nth_fold_combine [where q = "\<lambda>k. k * cols + j" and p = "\<lambda>k. k * cols + i", OF _ column_inj dis]) auto
    then show ?thesis unfolding eq mf_def using True by simp
  next
    case c: False
    then have "r * cols + c \<notin> (\<lambda>k. k * cols + j) ` set [0..<rows]"
      using mat_index_eq [OF assms(6,3)] by auto
    from nth_fold_combine_other [OF this, of ?g "\<lambda>k. k * cols + i" dist] show ?thesis
      unfolding eq mf_def using c by simp
  qed
qed

section \<open>Vandermonde matrices\<close>

text \<open>The state of the main loop before round i: the first i rows are unit vectors.\<close>

definition vandermonde_inv :: "gf_t \<Rightarrow> nat \<Rightarrow> nat \<Rightarrow> nat \<Rightarrow> u32 list \<Rightarrow> bool" where
  "vandermonde_inv F rows cols i dist \<longleftrightarrow> length dist = rows * cols \<and> (\<forall>r<rows. \<forall>c<cols. felem F (mf cols dist r c)) \<and>
     all_regular (felem F) (galois_single_multiply F) rows cols (mf cols dist) \<and>
     (\<forall>r<i. \<forall>c<cols. mf cols dist r c = (if r = c then 1 else 0))"

text \<open>The rows from k on: the first of them is one in the columns before j.\<close>

definition ones_inv :: "gf_t \<Rightarrow> nat \<Rightarrow> nat \<Rightarrow> nat \<Rightarrow> u32 list \<Rightarrow> bool" where
  "ones_inv F k m j dist \<longleftrightarrow> length dist = (k + m) * k \<and> (\<forall>r<k + m. \<forall>c<k. felem F (mf k dist r c)) \<and>
     minors_regular (felem F) (galois_single_multiply F) m k (\<lambda>i. mf k dist (k + i)) \<and> (\<forall>c<j. mf k dist k c = 1)"

context correct_field
begin

lemma vandermonde_inv_pivot:
  assumes "vandermonde_inv F rows cols i dist" "i < cols" "cols \<le> rows"
  shows "\<exists>j dist'. find (\<lambda>j. dist ! (j * cols + i) \<noteq> 0) [i..<rows] = Some j \<and>
    dist' = (if j \<noteq> i then row_swap cols j i dist else dist) \<and> vandermonde_inv F rows cols i dist' \<and> mf cols dist' i i \<noteq> 0"
proof -
  note inv = assms(1) [unfolded vandermonde_inv_def]
  have "\<exists>j. i \<le> j \<and> j < rows \<and> mf cols dist j i \<noteq> 0"
    by (rule all_reg_pivot [of rows cols "mf cols dist"]) (use inv assms in auto)
  then obtain j where f: "find (\<lambda>j. dist ! (j * cols + i) \<noteq> 0) [i..<rows] = Some j"
    using find_upt_None [of "\<lambda>j. dist ! (j * cols + i) \<noteq> 0" i rows] by (force simp: mf_def)
  then have j: "i \<le> j" "j < rows" "mf cols dist j i \<noteq> 0" using find_upt_Some [OF f] by (auto simp: mf_def)
  show ?thesis
  proof (cases "j = i")
    case True
    then show ?thesis using f assms(1) j by auto
  next
    case False
    define p where "p r = (if r = j then i else if r = i then j else r)" for r
    have sw: "mf cols (row_swap cols j i dist) r c = mf cols dist (p r) c" if "r < rows" "c < cols" for r c
      using mf_row_swap [of dist rows cols j i r c] inv j that False by (auto simp: p_def)
    have p: "p r < rows" if "r < rows" for r using j that assms by (simp add: p_def)
    have "all_reg rows cols (\<lambda>r. mf cols dist (p r))"
      by (rule all_reg_permute [OF _ p]) (use inv in \<open>auto simp: p_def\<close>)
    then have "all_reg rows cols (mf cols (row_swap cols j i dist))"
      by (rule all_reg_cong) (rule sw)
    moreover have "mf cols (row_swap cols j i dist) r c = (if r = c then 1 else 0)" if "r < i" "c < cols" for r c
      using sw [of r c] that j inv by (auto simp: p_def)
    ultimately have "vandermonde_inv F rows cols i (row_swap cols j i dist)"
      unfolding vandermonde_inv_def using inv sw p by auto
    moreover have "mf cols (row_swap cols j i dist) i i \<noteq> 0" using sw [of i i] j assms False by (simp add: p_def)
    ultimately show ?thesis using f False by auto
  qed
qed

lemma vandermonde_inv_scale:
  assumes inv: "vandermonde_inv F rows cols i dist" and i: "i < cols" "cols \<le> rows" and nz: "mf cols dist i i \<noteq> 0"
  shows "\<exists>dist'. (if dist ! (i * cols + i) \<noteq> 1
      then map_option (\<lambda>tmp. scale_column F cols [0..<rows] i tmp dist) (galois_single_divide F 1 (dist ! (i * cols + i)))
      else Some dist) = Some dist' \<and> vandermonde_inv F rows cols i dist' \<and> mf cols dist' i i = 1"
proof (cases "dist ! (i * cols + i) = 1")
  case True
  then show ?thesis using inv by (auto simp: mf_def)
next
  case False
  note I = inv [unfolded vandermonde_inv_def]
  let ?d = "dist ! (i * cols + i)"
  have d: "felem F ?d" "?d \<noteq> 0" using I i nz by (auto simp: mf_def)
  define s where "s = gdiv F 1 ?d"
  have s: "felem F s" "s \<noteq> 0" "galois_single_multiply F s ?d = 1"
    unfolding s_def using elem_divd [OF elem_1 d] divd_mult [OF elem_1 d] mult_0' [OF d(1)] by auto
  let ?D = "scale_column F cols [0..<rows] i s dist"
  have D: "mf cols ?D r c = (if c = i then galois_single_multiply F s (mf cols dist r c) else mf cols dist r c)"
    if "r < rows" "c < cols" for r c
    using mf_scale_column [of dist rows cols i "[0..<rows]" r c F s] I i that by auto
  have "all_reg rows cols (mf cols ?D)"
    by (rule all_reg_cong [OF all_reg_scale [of rows cols "mf cols dist" i s] D]) (use I i s in auto)
  moreover have "felem F (mf cols ?D r c)" if "r < rows" "c < cols" for r c
    using D [OF that] I s that by (auto intro!: elem_mult)
  moreover have "mf cols ?D r c = (if r = c then 1 else 0)" if "r < i" "c < cols" for r c
    using D [of r c] I that i s by (auto simp: mult_0)
  ultimately have "vandermonde_inv F rows cols i ?D"
    unfolding vandermonde_inv_def using I by simp
  moreover have "mf cols ?D i i = 1" using D [of i i] i s(3) by (simp add: mf_def)
  ultimately show ?thesis using False divide_some [OF elem_1 d] by (simp add: s_def)
qed

lemma vandermonde_inv_clear:
  assumes inv: "vandermonde_inv F rows cols i dist" and i: "i < cols" "cols \<le> rows" and one: "mf cols dist i i = 1"
  shows "vandermonde_inv F rows cols (Suc i) (fold (add_column F rows cols i) [0..<cols] dist)"
proof -
  define P where "P j d \<longleftrightarrow> vandermonde_inv F rows cols i d \<and> mf cols d i i = 1 \<and> (\<forall>c<j. c \<noteq> i \<longrightarrow> mf cols d i c = 0)" for j d
  have "P cols (fold (add_column F rows cols i) [0..<cols] dist)"
  proof (rule fold_upt_inv [where P = P])
    show "P 0 dist" using inv one by (simp add: P_def)
    fix j d assume j: "j < cols" and P: "P j d"
    show "P (Suc j) (add_column F rows cols i j d)"
    proof (cases "j = i")
      case True
      then show ?thesis using P by (auto simp: P_def add_column_def less_Suc_eq)
    next
      case False
      note I = P [unfolded P_def vandermonde_inv_def]
      have el: "felem F (mf cols d r c)" if "r < rows" "c < cols" for r c using I that by blast
      let ?D = "add_column F rows cols i j d"
      have D: "mf cols ?D r c = (if c = j then mf cols d r j XOR galois_single_multiply F (mf cols d i j) (mf cols d r i) else mf cols d r c)"
        if "r < rows" "c < cols" for r c
        by (rule mf_add_column) (use I i j False that el in \<open>auto intro: mult_0'\<close>)
      have eij: "felem F (mf cols d i j)" using el i j by simp
      have "all_reg rows cols (mf cols ?D)"
        by (rule all_reg_cong [OF all_reg_add [of rows cols "mf cols d" i j "mf cols d i j"] D])
          (use I i j False eij in auto)
      moreover have "felem F (mf cols ?D r c)" if "r < rows" "c < cols" for r c
        using D [OF that] el that i j eij by (auto intro!: elem_xor elem_mult)
      moreover have "mf cols ?D r c = (if r = c then 1 else 0)" if "r < i" "c < cols" for r c
        using D [of r c] I that i j eij by (auto simp: mult_0)
      moreover have "mf cols ?D i j = 0" using D [of i j] I i j eij by (simp add: mult_1')
      moreover have "mf cols ?D i c = mf cols d i c" if "c < cols" "c \<noteq> j" for c using D [of i c] i that by simp
      ultimately show ?thesis
        unfolding P_def vandermonde_inv_def using I False i j by (auto simp: less_Suc_eq)
    qed
  qed simp
  then show ?thesis by (auto simp: P_def vandermonde_inv_def less_Suc_eq)
qed

lemma vandermonde_round_inv:
  assumes "vandermonde_inv F rows cols i dist" "i < cols" "cols \<le> rows"
  shows "\<exists>dist'. vandermonde_round F rows cols i dist = Some dist' \<and> vandermonde_inv F rows cols (Suc i) dist'"
proof -
  obtain j d where d: "find (\<lambda>j. dist ! (j * cols + i) \<noteq> 0) [i..<rows] = Some j"
    "d = (if j \<noteq> i then row_swap cols j i dist else dist)" "vandermonde_inv F rows cols i d" "mf cols d i i \<noteq> 0"
    using vandermonde_inv_pivot [OF assms] by blast
  obtain e where e: "(if d ! (i * cols + i) \<noteq> 1
      then map_option (\<lambda>tmp. scale_column F cols [0..<rows] i tmp d) (galois_single_divide F 1 (d ! (i * cols + i)))
      else Some d) = Some e" "vandermonde_inv F rows cols i e" "mf cols e i i = 1"
    using vandermonde_inv_scale [OF d(3) assms(2,3) d(4)] by blast
  have "vandermonde_round F rows cols i dist = Some (fold (add_column F rows cols i) [0..<cols] e)"
    unfolding vandermonde_round_def d(1) bind.simps Let_def d(2) [symmetric] e(1) ..
  then show ?thesis using vandermonde_inv_clear [OF e(2) assms(2,3) e(3)] by blast
qed

section \<open>The extended Vandermonde matrix\<close>

lemma length_vandermonde_row [simp]: "length (vandermonde_row F cols i vdm) = length vdm"
proof -
  have "length (snd (fold (\<lambda>j (k, vdm). (galois_single_multiply F k (of_nat i), vdm[i * cols + j := k])) xs (k, vdm))) = length vdm"
    for xs k by (induction xs arbitrary: k vdm) auto
  then show ?thesis by (simp add: vandermonde_row_def)
qed

lemma mf_vandermonde_row:
  assumes "length vdm = rows * cols" "i < rows" "r < rows" "c < cols"
  shows "mf cols (vandermonde_row F cols i vdm) r c = (if r = i then powers (of_nat i) c else mf cols vdm r c)"
proof -
  define P where "P j s \<longleftrightarrow> fst s = powers (of_nat i) j \<and> length (snd s) = rows * cols \<and>
    (\<forall>r<rows. \<forall>c<cols. mf cols (snd s) r c = (if r = i \<and> c < j then powers (of_nat i) c else mf cols vdm r c))"
    for j and s :: "u32 \<times> u32 list"
  let ?f = "\<lambda>j (k, vdm). (galois_single_multiply F k (of_nat i), vdm[i * cols + j := k])"
  have "P cols (fold ?f [0..<cols] (1, vdm))"
  proof (rule fold_upt_inv [where P = P])
    show "P 0 (1, vdm)" using assms by (simp add: P_def)
    fix j s assume j: "j < cols" and P: "P j s"
    obtain k v where s: "s = (k, v)" by (cases s)
    have "mf cols (v[i * cols + j := k]) r c = (if r = i \<and> c < Suc j then powers (of_nat i) c else mf cols vdm r c)"
      if "r < rows" "c < cols" for r c
      using P mf_update [of v rows cols i j c k r] assms(2) j that by (auto simp: P_def s less_Suc_eq)
    then show "P (Suc j) (?f j s)" using P by (simp add: P_def s)
  qed simp
  then show ?thesis using assms by (simp add: P_def vandermonde_row_def)
qed

lemma extended_vandermonde:
  assumes "0 < cols" "2 \<le> rows" "cols \<le> rows" "rows \<le> 2 ^ w"
  shows "\<exists>vdm. reed_sol_extended_vandermonde_matrix F rows cols w = Some (Some vdm) \<and> length vdm = rows * cols \<and>
    (\<forall>c<cols. mf cols vdm 0 c = (if c = 0 then 1 else 0)) \<and>
    (\<forall>c<cols. mf cols vdm (rows - 1) c = (if c = cols - 1 then 1 else 0)) \<and>
    (\<forall>r. 0 < r \<and> r < rows - 1 \<longrightarrow> (\<forall>c<cols. mf cols vdm r c = powers (of_nat r) c))"
proof -
  define i where "i = (rows - 1) * cols"
  define v1 where "v1 = fold (\<lambda>j vdm. vdm[j := 0]) [1..<cols] ((replicate (rows * cols) 0)[0 := 1 :: u32])"
  define v2 where "v2 = (fold (\<lambda>j vdm. vdm[i + j := 0]) [0..<cols - 1] v1)[i + (cols - 1) := 1]"
  define v3 where "v3 = fold (vandermonde_row F cols) [1..<rows - 1] v2"
  have i: "cols \<le> i" "i + cols = rows * cols" using assms unfolding i_def by (cases rows; simp)+
  have l1: "length v1 = rows * cols" "length v2 = rows * cols"
    unfolding v1_def v2_def using length_fold_update [of "\<lambda>j. j" "\<lambda>_. 0 :: u32"] length_fold_update [of "\<lambda>j. i + j" "\<lambda>_. 0 :: u32"]
    by simp_all
  have v1: "v1 ! n = (if n = 0 then 1 else 0)" if "n < rows * cols" for n
    unfolding v1_def using that nth_fold_update [of "[1..<cols]" "\<lambda>j. j" n "\<lambda>_. 0 :: u32" 0] by (cases "n = 0") auto
  have v2: "v2 ! n = (if n = 0 \<or> n = i + (cols - 1) then 1 else 0)" if "n < rows * cols" for n
    unfolding v2_def using that nth_fold_update [of "[0..<cols - 1]" "\<lambda>j. i + j" n "\<lambda>_. 0 :: u32" 0 v1] v1 l1 i assms(1)
    by (auto simp: nth_list_update length_fold_update [of "\<lambda>j. i + j" "\<lambda>_. 0 :: u32"])
  have "length (fold (vandermonde_row F cols) [1..<j] v2) = rows * cols \<and>
      (\<forall>r<rows. \<forall>c<cols. mf cols (fold (vandermonde_row F cols) [1..<j] v2) r c =
        (if 0 < r \<and> r < j then powers (of_nat r) c else mf cols v2 r c))" if "1 \<le> j" "j \<le> rows" for j
    using that
  proof (induction j rule: dec_induct)
    case (step n)
    then have n: "n < rows" "n \<le> rows" by auto
    from step.IH [OF n(2)] show ?case
      using step.hyps n(1) mf_vandermonde_row [of "fold (vandermonde_row F cols) [1..<n] v2" rows cols n]
      by (auto simp: less_Suc_eq)
  qed (use l1 in auto)
  from this [of "rows - 1"] have v3: "length v3 = rows * cols" "\<And>r c. r < rows \<Longrightarrow> c < cols \<Longrightarrow>
      mf cols v3 r c = (if 0 < r \<and> r < rows - 1 then powers (of_nat r) c else mf cols v2 r c)"
    using assms(2) by (auto simp: v3_def)
  have first: "mf cols v2 0 c = (if c = 0 then 1 else 0)" if "c < cols" for c
    unfolding mf_def using v2 [of c] that i by auto
  have last: "mf cols v2 (rows - 1) c = (if c = cols - 1 then 1 else 0)" if "c < cols" for c
    unfolding mf_def i_def [symmetric] using v2 [of "i + c"] that i assms(1) by auto
  have c2: "cols \<le> 2 ^ w" using assms by simp
  have eq: "reed_sol_extended_vandermonde_matrix F rows cols w = Some (Some v3)"
    unfolding reed_sol_extended_vandermonde_matrix_def Let_def v1_def [symmetric] i_def [symmetric] v2_def [symmetric] v3_def [symmetric]
    using assms c2 v3_def by auto
  then show ?thesis using v3 first last assms by (intro exI [of _ v3]) auto
qed

lemma extended_vandermonde_inv:
  assumes "0 < cols" "cols < rows" "rows \<le> 2 ^ w" "w = h_w (scratch F)" "w \<le> 32"
  shows "\<exists>vdm. reed_sol_extended_vandermonde_matrix F rows cols w = Some (Some vdm) \<and> vandermonde_inv F rows cols 1 vdm"
proof -
  obtain vdm where vdm: "reed_sol_extended_vandermonde_matrix F rows cols w = Some (Some vdm)" "length vdm = rows * cols"
    "\<forall>c<cols. mf cols vdm 0 c = (if c = 0 then 1 else 0)"
    "\<forall>c<cols. mf cols vdm (rows - 1) c = (if c = cols - 1 then 1 else 0)"
    "\<forall>r. 0 < r \<and> r < rows - 1 \<longrightarrow> (\<forall>c<cols. mf cols vdm r c = powers (of_nat r) c)"
    using extended_vandermonde [of cols rows w] assms by auto
  have lim: "rows \<le> 2 ^ 32" using assms(3,5) power_increasing [of w 32 "2 :: nat"] by linarith
  have p0: "powers 0 c = (if c = 0 then 1 else 0)" for c by (cases c) (auto simp: mult_0 elem_powers elem_0)
  have A: "mf cols vdm r c = powers (of_nat r) c" if "r < rows - 1" "c < cols" for r c
    using vdm(3,5) that p0 by (cases "r = 0") auto
  have el: "felem F (of_nat r)" if "r < rows" for r using gf_elem_of_nat [of r w] assms(3-5) that by auto
  have "all_reg rows cols (mf cols vdm)"
  proof (rule vandermonde_all_reg [where x = of_nat])
    show "inj_on (of_nat :: nat \<Rightarrow> u32) {..<rows - 1}"
      by (rule inj_onI) (use lim of_nat_u32_inj in \<open>auto simp del: power_numeral\<close>)
  qed (use assms A el vdm(4) in auto)
  moreover have "felem F (mf cols vdm r c)" if "r < rows" "c < cols" for r c
    using A [of r c] vdm(4) that el [of r] elem_powers elem_0 elem_1 by (cases "r = rows - 1") auto
  ultimately have "vandermonde_inv F rows cols 1 vdm"
    unfolding vandermonde_inv_def using vdm(2,3) by auto
  then show ?thesis using vdm(1) by blast
qed

section \<open>Rows and columns of ones\<close>

lemma ones_inv_nonzero: "ones_inv F k m j dist \<Longrightarrow> i < m \<Longrightarrow> c < k \<Longrightarrow> mf k dist (k + i) c \<noteq> 0"
  using minors_reg_nonzero [of m k "\<lambda>i. mf k dist (k + i)" i c] by (auto simp: ones_inv_def)

lemma inverse_factor:
  assumes "felem F a" "a \<noteq> 0"
  shows "felem F (gdiv F 1 a)" "gdiv F 1 a \<noteq> 0" "galois_single_multiply F (gdiv F 1 a) a = 1" "galois_single_divide F 1 a = Some (gdiv F 1 a)"
  using elem_divd [OF elem_1 assms] divd_mult [OF elem_1 assms] mult_0' [OF assms(1)] divide_some [OF elem_1 assms] by auto

lemma ones_column:
  assumes inv: "ones_inv F k m j dist" and j: "j < k" and m: "0 < m"
  shows "\<exists>dist'. vandermonde_ones_column F (k + m) k j dist = Some dist' \<and> ones_inv F k m (Suc j) dist'"
proof (cases "dist ! (k * k + j) = 1")
  case True
  then have "mf k dist k j = 1" by (simp add: mf_def)
  then show ?thesis using inv True by (auto simp: vandermonde_ones_column_def ones_inv_def less_Suc_eq)
next
  case False
  note I = inv [unfolded ones_inv_def]
  let ?d = "dist ! (k * k + j)"
  have d: "felem F ?d" "?d \<noteq> 0" using I ones_inv_nonzero [OF inv m j] j m by (auto simp: mf_def)
  note s = inverse_factor [OF d]
  let ?D = "scale_column F k [k..<k + m] j (gdiv F 1 ?d) dist"
  have D: "mf k ?D r c = (if c = j \<and> k \<le> r then galois_single_multiply F (gdiv F 1 ?d) (mf k dist r c) else mf k dist r c)"
    if "r < k + m" "c < k" for r c
    using mf_scale_column [of dist "k + m" k j "[k..<k + m]" r c] I j that by auto
  have "minors_reg m k (\<lambda>i. mf k ?D (k + i))"
  proof (rule minors_reg_cong [OF minors_reg_scale [of m k "\<lambda>i. mf k dist (k + i)" "\<lambda>_. 1" "\<lambda>c. if c = j then gdiv F 1 ?d else 1"]])
    fix i c assume ic: "i < m" "c < k"
    have "felem F (mf k dist (k + i) c)" using I ic by auto
    then show "mf k ?D (k + i) c = galois_single_multiply F 1
        (galois_single_multiply F (if c = j then gdiv F 1 ?d else 1) (mf k dist (k + i) c))"
      using D [of "k + i" c] ic s(1) by (auto simp: mult_1 elem_mult)
  qed (use I s elem_1 in auto)
  moreover have "felem F (mf k ?D r c)" if "r < k + m" "c < k" for r c
    using D [OF that] I s(1) that by (auto intro!: elem_mult)
  moreover have "mf k ?D k c = 1" if "c < Suc j" for c
    using D [of k c] I that j m s(3) by (auto simp: mf_def less_Suc_eq)
  ultimately have "ones_inv F k m (Suc j) ?D" unfolding ones_inv_def using I by simp
  moreover have "vandermonde_ones_column F (k + m) k j dist = Some ?D"
    using False s(4) by (simp add: vandermonde_ones_column_def Let_def)
  ultimately show ?thesis by blast
qed

lemma ones_row:
  assumes inv: "ones_inv F k m k dist" and i: "k < i" "i < k + m" and k: "0 < k"
  shows "\<exists>dist'. vandermonde_ones_row F k i dist = Some dist' \<and> ones_inv F k m k dist' \<and> mf k dist' i 0 = 1 \<and>
    (\<forall>r<k + m. r \<noteq> i \<longrightarrow> (\<forall>c<k. mf k dist' r c = mf k dist r c))"
proof (cases "dist ! (i * k) = 1")
  case True
  then have "mf k dist i 0 = 1" by (simp add: mf_def)
  then show ?thesis using inv True by (auto simp: vandermonde_ones_row_def)
next
  case False
  note I = inv [unfolded ones_inv_def]
  let ?d = "dist ! (i * k)"
  have "mf k dist i 0 \<noteq> 0" using ones_inv_nonzero [OF inv, of "i - k" 0] i k by simp
  moreover have "felem F (mf k dist i 0)" using I i k by simp
  ultimately have d: "felem F ?d" "?d \<noteq> 0" by (simp_all add: mf_def)
  note s = inverse_factor [OF d]
  let ?D = "row_op k (\<lambda>x y. galois_single_multiply F x (gdiv F 1 ?d)) i i dist"
  have el: "felem F (mf k dist r c)" if "r < k + m" "c < k" for r c using I that by blast
  have D: "mf k ?D r c = (if r = i then galois_single_multiply F (gdiv F 1 ?d) (mf k dist i c) else mf k dist r c)"
    if "r < k + m" "c < k" for r c
    using mf_row_op [of dist "k + m" k i i r c "\<lambda>x y. galois_single_multiply F x (gdiv F 1 ?d)"] I i that
      mult_comm [OF el [OF i(2) that(2)] s(1)] by simp
  have "minors_reg m k (\<lambda>i. mf k ?D (k + i))"
  proof (rule minors_reg_cong [OF minors_reg_scale [of m k "\<lambda>i. mf k dist (k + i)" "\<lambda>r. if k + r = i then gdiv F 1 ?d else 1" "\<lambda>_. 1"]])
    fix r c assume rc: "r < m" "c < k"
    then show "mf k ?D (k + r) c = galois_single_multiply F (if k + r = i then gdiv F 1 ?d else 1)
        (galois_single_multiply F 1 (mf k dist (k + r) c))"
      using D [of "k + r" c] el [of "k + r" c] by (auto simp: mult_1)
  qed (use I s elem_1 in auto)
  moreover have "felem F (mf k ?D r c)" if "r < k + m" "c < k" for r c
    using D [OF that] el [OF that] el [OF i(2) that(2)] s(1) by (auto intro!: elem_mult)
  moreover have "mf k ?D k c = 1" if "c < k" for c using D [of k c] I that i by simp
  ultimately have "ones_inv F k m k ?D" unfolding ones_inv_def using I by simp
  moreover have "vandermonde_ones_row F k i dist = Some ?D"
    using False s(4) by (simp add: vandermonde_ones_row_def Let_def)
  moreover have "mf k ?D i 0 = 1" using D [of i 0] i k s(3) by (simp add: mf_def)
  ultimately show ?thesis using D by auto
qed

lemma ones_rows:
  assumes inv: "ones_inv F k m k dist" and k: "0 < k" "0 < m"
  shows "\<exists>dist'. ofold (vandermonde_ones_row F k) [k + 1..<k + m] dist = Some dist' \<and> ones_inv F k m k dist' \<and>
    (\<forall>r. k \<le> r \<and> r < k + m \<longrightarrow> mf k dist' r 0 = 1)"
proof -
  define P where "P j d \<longleftrightarrow> ones_inv F k m k d \<and> (\<forall>r. k \<le> r \<and> r < j \<longrightarrow> mf k d r 0 = 1)" for j d
  have "\<exists>d. ofold (vandermonde_ones_row F k) [k + 1..<k + m] dist = Some d \<and> P (k + m) d"
  proof (rule ofold_upt_inv [where P = P])
    show "P (k + 1) dist" using inv k by (auto simp: P_def ones_inv_def le_less_Suc_eq)
    fix i d assume i: "k + 1 \<le> i" "i < k + m" and P: "P i d"
    then have "ones_inv F k m k d" "k < i" by (auto simp: P_def)
    from ones_row [OF this i(2) k(1)] show "\<exists>d'. vandermonde_ones_row F k i d = Some d' \<and> P (Suc i) d'"
      using P i k(1) unfolding P_def by (auto simp: less_Suc_eq)
  qed (use k in simp)
  then show ?thesis by (auto simp: P_def)
qed

section \<open>The coding matrices\<close>

lemma big_vandermonde:
  assumes "0 < k" "0 < m" "k + m \<le> 2 ^ w" "w = h_w (scratch F)" "w \<le> 32"
  shows "\<exists>dist. reed_sol_big_vandermonde_distribution_matrix F (k + m) k w = Some (Some dist) \<and> ones_inv F k m k dist \<and>
    (\<forall>r. k \<le> r \<and> r < k + m \<longrightarrow> mf k dist r 0 = 1)"
proof -
  obtain vdm where vdm: "reed_sol_extended_vandermonde_matrix F (k + m) k w = Some (Some vdm)" "vandermonde_inv F (k + m) k 1 vdm"
    using extended_vandermonde_inv [of k "k + m" w] assms by auto
  obtain d1 where d1: "ofold (vandermonde_round F (k + m) k) [1..<k] vdm = Some d1" "vandermonde_inv F (k + m) k k d1"
    using ofold_upt_inv [of 1 k "vandermonde_inv F (k + m) k" vdm "vandermonde_round F (k + m) k"]
      vdm(2) vandermonde_round_inv assms(1) by auto
  have "ones_inv F k m 0 d1"
    using d1(2) all_reg_minors [of k m "mf k d1"] by (simp add: ones_inv_def vandermonde_inv_def)
  then obtain d2 where d2: "ofold (vandermonde_ones_column F (k + m) k) [0..<k] d1 = Some d2" "ones_inv F k m k d2"
    using ofold_upt_inv [of 0 k "ones_inv F k m" d1 "vandermonde_ones_column F (k + m) k"] ones_column assms(2) by auto
  obtain d3 where d3: "ofold (vandermonde_ones_row F k) [k + 1..<k + m] d2 = Some d3" "ones_inv F k m k d3"
    "\<forall>r. k \<le> r \<and> r < k + m \<longrightarrow> mf k d3 r 0 = 1"
    using ones_rows [OF d2(2) assms(1,2)] by blast
  have "reed_sol_big_vandermonde_distribution_matrix F (k + m) k w = Some (Some d3)"
    unfolding reed_sol_big_vandermonde_distribution_matrix_def vdm(1) using assms(2) d1(1) d2(1) d3(1) by simp
  then show ?thesis using d3 by blast
qed

lemma vandermonde_coding_matrix:
  assumes "0 < k" "0 < m" "k + m \<le> 2 ^ w" "w = h_w (scratch F)" "w \<le> 32"
  shows "\<exists>matrix. reed_sol_vandermonde_coding_matrix F k m w = Some (Some matrix) \<and> coding_matrix F k m matrix \<and>
    square_regular F k m matrix \<and> rows_nonzero k m matrix \<and> (\<forall>j<k. matrix ! j = 1) \<and> (\<forall>i<m. matrix ! (i * k) = 1)"
proof -
  obtain dist where dist: "reed_sol_big_vandermonde_distribution_matrix F (k + m) k w = Some (Some dist)" "ones_inv F k m k dist"
    "\<forall>r. k \<le> r \<and> r < k + m \<longrightarrow> mf k dist r 0 = 1" using big_vandermonde [OF assms] by blast
  note I = dist(2) [unfolded ones_inv_def]
  define M where "M = fold (\<lambda>j d. d[j := dist ! (k * k + j)]) [0..<m * k] (replicate (m * k) 0)"
  have len: "length M = m * k" unfolding M_def using length_fold_update [of "\<lambda>j. j"] by simp
  have M: "M ! (i * k + j) = mf k dist (k + i) j" if "i < m" "j < k" for i j
    unfolding M_def mf_def using mat_index_lt [OF that]
      nth_fold_update [of "[0..<m * k]" "\<lambda>j. j" "i * k + j" "\<lambda>j. dist ! (k * k + j)" "dist ! (k * k + (i * k + j))" "replicate (m * k) 0"]
    by (simp add: algebra_simps)
  have "felem F e" if e: "e \<in> set M" for e
  proof -
    obtain l where l: "l < m * k" "e = M ! l" using e len by (auto simp: in_set_conv_nth)
    then have "l div k < m" "l mod k < k" using assms(1) by (auto simp: less_mult_imp_div_less)
    then show ?thesis using M [of "l div k" "l mod k"] I l(2) by simp
  qed
  moreover have "square_regular F k m M"
    unfolding square_regular_minors using I by (intro minors_reg_cong [OF _ M]) auto
  moreover have "rows_nonzero k m M"
    unfolding rows_nonzero_def by (metis M ones_inv_nonzero [OF dist(2)] assms(1))
  moreover have "M ! j = 1" if "j < k" for j using M [of 0 j] I that assms(2) by simp
  moreover have "M ! (i * k) = 1" if "i < m" for i using M [of i 0] dist(3) that assms(1) by simp
  moreover have "reed_sol_vandermonde_coding_matrix F k m w = Some (Some M)"
    unfolding reed_sol_vandermonde_coding_matrix_def dist(1) M_def by simp
  ultimately show ?thesis unfolding coding_matrix_def using len by blast
qed

text \<open>The powers of 2 are those of x, which generates the non-zero elements.\<close>

lemma elem_two: "1 < h_w (scratch F) \<Longrightarrow> felem F 2"
  using correct gf_xpow_1 [of 1 "h_w (scratch F)"] gf_elem_xpow [OF elem_1, where i = 1]
  by (simp add: gf_correct_def h_primitive_def gf_primitive_def push_bit_of_1)

lemma powers_two:
  assumes "1 < h_w (scratch F)"
  shows "powers 2 c = gf_xp (h_w (scratch F)) (field_poly (scratch F)) c"
proof (induction c)
  case (Suc c)
  let ?w = "h_w (scratch F)" and ?pp = "field_poly (scratch F)"
  have p: "gf_primitive ?w ?pp" using correct by (simp add: gf_correct_def h_primitive_def)
  then have w: "0 < ?w" "?w \<le> 32" by (auto simp: gf_primitive_def)
  have two: "gf_xp ?w ?pp 1 = 2"
    using assms w gf_xpow_1 [of 1 ?w] by (simp add: push_bit_of_1)
  have "felem F 2" using elem_two assms .
  then have "powers 2 (Suc c) = gf_mul ?w ?pp (powers 2 c) 2"
    by (simp add: single_multiply_mul [OF correct] elem_powers)
  also have "\<dots> = gf_mul ?w ?pp (gf_xp ?w ?pp c) (gf_xp ?w ?pp 1)" unfolding Suc.IH two ..
  also have "\<dots> = gf_xp ?w ?pp (Suc c)" using gf_xp_mul [OF w, of ?pp c 1] by simp
  finally show ?case .
qed simp

lemma powers_two_inj:
  assumes "1 < h_w (scratch F)" "i < 2 ^ h_w (scratch F) - 1" "j < 2 ^ h_w (scratch F) - 1" "powers 2 i = powers 2 j"
  shows "i = j"
proof -
  let ?w = "h_w (scratch F)" and ?pp = "field_poly (scratch F)"
  have p: "gf_primitive ?w ?pp" using correct by (simp add: gf_correct_def h_primitive_def)
  then have q: "0 < ?w" "?w \<le> 32" "gf_xp ?w ?pp (2 ^ ?w - 1) = 1"
    and ord: "\<And>d. 0 < d \<Longrightarrow> d < 2 ^ ?w - 1 \<Longrightarrow> gf_xp ?w ?pp d \<noteq> 1" unfolding gf_primitive_def by blast+
  have "j' \<le> i'" if "i' \<le> j'" "j' < 2 ^ ?w - 1" "gf_xp ?w ?pp i' = gf_xp ?w ?pp j'" for i' j'
  proof -
    have "i' \<le> 2 ^ ?w - 1" using that(1,2) by linarith
    from gf_xp_cancel [OF q that(1) this that(3)] have "\<not> (0 < j' - i' \<and> j' - i' < 2 ^ ?w - 1)" using ord by blast
    moreover have "j' - i' < 2 ^ ?w - 1" using that(2) by (rule le_less_trans [OF diff_le_self])
    ultimately show ?thesis by simp
  qed
  from this [of i j] this [of j i] show ?thesis
    using assms(2-4) unfolding powers_two [OF assms(1)] by (metis le_antisym nle_le)
qed

lemma powers_two_nonzero:
  assumes "1 < h_w (scratch F)" "i < 2 ^ h_w (scratch F) - 1"
  shows "powers 2 i \<noteq> 0"
proof -
  have p: "gf_primitive (h_w (scratch F)) (field_poly (scratch F))" using correct by (simp add: gf_correct_def h_primitive_def)
  show ?thesis unfolding powers_two [OF assms(1)]
    using p assms(2) by (intro gf_xp_neq_0 [where N = "2 ^ h_w (scratch F) - 1"]) (auto simp: gf_primitive_def)
qed

lemma r6_coding_matrix:
  assumes "w = h_w (scratch F)" "w \<in> {8, 16, 32}" "0 < k" "k < 2 ^ w"
  shows "\<exists>matrix. reed_sol_r6_coding_matrix F k w = Some (Some matrix) \<and> coding_matrix F k 2 matrix \<and>
    square_regular F k 2 matrix \<and> rows_nonzero k 2 matrix \<and> (\<forall>j<k. matrix ! j = 1 \<and> matrix ! (k + j) = powers 2 j)"
proof -
  have w: "1 < h_w (scratch F)" using assms(1,2) by auto
  define M0 where "M0 = (fold (\<lambda>i matrix. matrix[i := 1]) [0..<k] (replicate (2 * k) 0))[k := 1 :: u32]"
  let ?f = "\<lambda>i (tmp, matrix). let tmp = galois_single_multiply F tmp 2 in (tmp, matrix[k + i := tmp])"
  have l0: "length M0 = 2 * k" unfolding M0_def using length_fold_update [of "\<lambda>i. i" "\<lambda>_. 1 :: u32"] by simp
  have M0: "M0 ! j = 1" if "j \<le> k" for j
    unfolding M0_def using that assms(3) nth_fold_update [of "[0..<k]" "\<lambda>i. i" j "\<lambda>_. 1 :: u32" 1]
      length_fold_update [of "\<lambda>i. i" "\<lambda>_. 1 :: u32" "[0..<k]" "replicate (2 * k) 0"] by (auto simp: nth_list_update)
  define P where "P i s \<longleftrightarrow> fst s = powers 2 (i - 1) \<and> length (snd s) = 2 * k \<and> (\<forall>j<k. snd s ! j = 1) \<and>
    (\<forall>j<i. snd s ! (k + j) = powers 2 j)" for i and s :: "u32 \<times> u32 list"
  have "P k (fold ?f [1..<k] (1, M0))"
  proof (rule fold_upt_inv [where P = P])
    show "P 1 (1, M0)" using M0 l0 by (simp add: P_def)
    fix i s assume i: "1 \<le> i" "i < k" and P: "P i s"
    have "powers 2 i = galois_single_multiply F (fst s) 2" using P i by (cases i) (auto simp: P_def)
    then show "P (Suc i) (?f i s)" using P i by (auto simp: P_def case_prod_unfold Let_def less_Suc_eq)
  qed (use assms(3) in simp)
  then obtain t M where M: "fold ?f [1..<k] (1, M0) = (t, M)" "length M = 2 * k" "\<forall>j<k. M ! j = 1" "\<forall>j<k. M ! (k + j) = powers 2 j"
    by (cases "fold ?f [1..<k] (1, M0)") (auto simp: P_def)
  note e2 = elem_two [OF w]
  have "felem F (M ! l)" if "l < 2 * k" for l
  proof (cases "l < k")
    case False
    then show ?thesis using M(4) [rule_format, of "l - k"] that elem_powers [OF e2] by simp
  qed (use M(3) elem_1 in simp)
  then have "coding_matrix F k 2 M" using M(2) by (auto simp: coding_matrix_def in_set_conv_nth)
  moreover have "square_regular F k 2 M"
  proof (rule two_rows_square_regular)
    show "inj_on (\<lambda>j. M ! (k + j)) {..<k}"
      by (rule inj_onI) (use M(4) powers_two_inj [OF w] assms(1,4) in auto)
    show "\<forall>j<k. felem F (M ! (k + j)) \<and> M ! (k + j) \<noteq> 0"
      using M(4) elem_powers [OF e2] powers_two_nonzero [OF w] assms(1,4) by auto
  qed (use M(3) in simp)
  moreover have "rows_nonzero k 2 M"
    using M(3,4) assms(3) by (auto simp: rows_nonzero_def less_2_cases_iff intro!: exI [of _ 0])
  moreover have "reed_sol_r6_coding_matrix F k w = Some (Some M)"
    unfolding reed_sol_r6_coding_matrix_def Let_def M0_def [symmetric] using assms(2,3) M(1) by (auto simp: Let_def)
  ultimately show ?thesis using M(3,4) by blast
qed

end

end
