(* ===== verification/Field_Codes.thy ===== *)
theory Field_Codes
  imports Reed_Sol_Correct Samples
begin

text \<open>
  The properties of the codes over fields that reed_sol.c makes.
\<close>

text \<open>
  C2: for words of 8, 16 and 32 bits, at least one data and one
  coding device, and at most 2^w devices in all, \<open>reed_sol_vandermonde_coding_matrix\<close> makes a
  coding matrix whose first row and first column are ones; encoding with it leaves the data
  devices as they are, and after the loss of any m devices \<open>jerasure_matrix_decode\<close> returns 0
  and every device has its contents back.
\<close>

theorem vandermonde_code_survives:
  assumes "w \<in> {8, 16, 32}" "k + m \<le> 2 ^ w" "0 < k" "0 < m" "devices_ok k m w sz st"
  shows "\<exists>matrix st1.
    reed_sol_vandermonde_coding_matrix (galois_default w) k m w = Some (Some matrix) \<and>
    (\<forall>j<k. matrix ! j = 1) \<and> (\<forall>i<m. matrix ! (i * k) = 1) \<and>
    jerasure_matrix_encode k m w matrix sz st = Some st1 \<and> take k (dev st1) = take k (dev st) \<and>
    (\<forall>st2 xs ys. devices_ok k m w sz st2 \<and> (\<forall>e\<in>set xs. e \<noteq> - 1 \<and> unat e < k + m) \<and> card (unat ` set xs) \<le> m \<and>
       (\<forall>d<k + m. d \<notin> unat ` set xs \<longrightarrow> dev st2 ! d = dev st1 ! d) \<longrightarrow>
       (\<exists>st3. jerasure_matrix_decode k m w matrix True (xs @ - 1 # ys) sz st2 = Some (0, st3) \<and> dev st3 = dev st1))"
proof -
  have w: "correct_field (galois_default w)" "w = h_w (scratch (galois_default w))" "w \<le> 32"
    using correct_field_default [OF assms(1)] default_width [OF assms(1)] assms(1) by (simp_all, auto)
  obtain matrix where m: "reed_sol_vandermonde_coding_matrix (galois_default w) k m w = Some (Some matrix)"
    "coding_matrix (galois_default w) k m matrix" "square_regular (galois_default w) k m matrix" "rows_nonzero k m matrix"
    "\<forall>j<k. matrix ! j = 1" "\<forall>i<m. matrix ! (i * k) = 1"
    using correct_field.vandermonde_coding_matrix [OF w(1) assms(3,4,2) w(2,3)] by blast
  have "matrix_ok k m w matrix" using m(2,4) assms(1) by (simp add: matrix_ok_def)
  from square_regular_survives [OF this assms(4) _ m(3) assms(5), of True] show ?thesis using m(1,5,6) by blast
qed

theorem vandermonde_code_survives_witness:
  "\<exists>matrix st1. reed_sol_vandermonde_coding_matrix (galois_default 16) 2 1 16 = Some (Some matrix) \<and>
    jerasure_matrix_encode 2 1 16 matrix 4 devices3 = Some st1 \<and> take 2 (dev st1) = [[1, 2, 3, 4], [5, 6, 7, 8]]"
proof -
  have "take 2 (dev devices3) = [[1, 2, 3, 4], [5, 6, 7, 8]]" by (simp add: devices3_def)
  then show ?thesis
    using vandermonde_code_survives [of 16 2 1 4 devices3] devices3_ok [of 16] by fastforce
qed

end
