(* ===== verification/Gf_Bytwo.thy ===== *)
theory Gf_Bytwo
  imports Gf_Region_Tables
begin

text \<open>
  The by-two region functions multiply all the elements packed in a word of 64 bits at once:
  a shift, two masks and a subtraction that spreads the leading bit of every element over the
  element do for each of them what a multiplication by x does.
\<close>

section \<open>Spreading the leading bits\<close>

text \<open>A word x of less than w bits, repeated in the elements that c selects.\<close>

definition packed :: "nat \<Rightarrow> (nat \<Rightarrow> bool) \<Rightarrow> 'a::len word \<Rightarrow> nat \<Rightarrow> 'a word" where
  "packed w c x k = (\<Sum>l<k. if c l then push_bit (w * l) x else 0)"

lemma bit_packed:
  fixes x :: "'a::len word"
  assumes "\<And>i. bit x i \<Longrightarrow> i < w" "0 < w"
  shows "bit (packed w c x k) i \<longleftrightarrow> i < LENGTH('a) \<and> i div w < k \<and> c (i div w) \<and> bit x (i mod w)"
proof (induction k arbitrary: i)
  case 0
  then show ?case by (simp add: packed_def)
next
  case (Suc k)
  have b: "bit (if c k then push_bit (w * k) x else 0) j \<longleftrightarrow> j < LENGTH('a) \<and> j div w = k \<and> c k \<and> bit x (j mod w)" for j
  proof -
    have "bit x (j - w * k) \<and> w * k \<le> j \<longleftrightarrow> j div w = k \<and> bit x (j mod w)"
    proof
      assume a: "bit x (j - w * k) \<and> w * k \<le> j"
      then have "j - w * k < w" using assms(1) by blast
      then have "j div w = k" "j mod w = j - w * k"
        using a by (metis div_nat_eqI mult.commute mult_Suc_right add.commute less_diff_conv2)
          (metis a mod_less \<open>j - w * k < w\<close> le_add_diff_inverse mod_mult_self4 mult.commute)
      then show "j div w = k \<and> bit x (j mod w)" using a by simp
    next
      assume a: "j div w = k \<and> bit x (j mod w)"
      have "w * k + j mod w = j" using a mult_div_mod_eq [of w j] by simp
      then show "bit x (j - w * k) \<and> w * k \<le> j" using a by (metis add_diff_cancel_left' le_add1)
    qed
    then show ?thesis by (auto simp: bit_push_bit_iff)
  qed
  have "packed w c x (Suc k) = packed w c x k + (if c k then push_bit (w * k) x else 0)" by (simp add: packed_def)
  also have "\<dots> = packed w c x k OR (if c k then push_bit (w * k) x else 0)"
    by (rule disjunctive_add) (use Suc.IH b in auto)
  finally have eq: "packed w c x (Suc k) = packed w c x k OR (if c k then push_bit (w * k) x else 0)" .
  show ?case unfolding eq bit_or_iff b Suc.IH by (auto simp: less_Suc_eq)
qed

lemma packed_mult: "packed w c x k * y = packed w c (x * y) k" for x y :: "'a::len word"
  unfolding packed_def sum_distrib_right
  by (intro sum.cong) (simp_all add: push_bit_eq_mult mult.assoc)

text \<open>The subtraction of the macro.\<close>

lemma spread_leading:
  fixes t :: u64
  assumes w: "0 < w" "w * m = 64" and t: "\<And>i. bit t i \<Longrightarrow> i mod w = w - 1"
  shows "bit (push_bit 1 t - drop_bit (w - 1) t) i \<longleftrightarrow> i < 64 \<and> bit t (i - i mod w + (w - 1))"
proof -
  define c where "c l \<longleftrightarrow> bit t (w * l + (w - 1))" for l
  have lim: "i div w < m \<longleftrightarrow> i < 64" for i
    using w by (metis div_less_iff_less_mult mult.commute)
  have X: "drop_bit (w - 1) t = packed w c 1 m"
  proof (rule bit_word_eqI)
    fix i assume i: "i < LENGTH(64)"
    have iff: "bit t (w - 1 + i) \<longleftrightarrow> i mod w = 0 \<and> c (i div w)"
    proof
      assume a: "bit t (w - 1 + i)"
      then have "(w - 1 + i) mod w = w - 1" using t by blast
      then have r: "(w - 1 + i mod w) mod w = w - 1" by (simp only: mod_add_right_eq)
      have "i mod w = 0"
      proof (rule ccontr)
        assume "i mod w \<noteq> 0"
        then have "w - 1 + i mod w = w + (i mod w - 1)" using w(1) by simp
        then have "(w - 1 + i mod w) mod w = i mod w - 1"
          using w(1) mod_less_divisor [OF w(1), of i] by (simp only: mod_add_self1) simp
        then show False using r \<open>i mod w \<noteq> 0\<close> mod_less_divisor [OF w(1), of i] by linarith
      qed
      then have "w * (i div w) = i" using mult_div_mod_eq [of w i] by simp
      then show "i mod w = 0 \<and> c (i div w)" using a \<open>i mod w = 0\<close> by (simp add: c_def add.commute)
    next
      assume a: "i mod w = 0 \<and> c (i div w)"
      then have "w * (i div w) = i" using mult_div_mod_eq [of w i] by simp
      then show "bit t (w - 1 + i)" using a by (simp add: c_def add.commute)
    qed
    have "bit (packed w c 1 m :: u64) i \<longleftrightarrow> i < LENGTH(64) \<and> i div w < m \<and> c (i div w) \<and> bit (1 :: u64) (i mod w)"
      by (rule bit_packed) (use w(1) in \<open>simp_all add: bit_1_iff\<close>)
    then show "bit (drop_bit (w - 1) t) i = bit (packed w c 1 m :: u64) i"
      using i lim [of i] iff [unfolded One_nat_def] by (auto simp: bit_drop_bit_eq bit_1_iff)
  qed
  have "push_bit 1 t = push_bit w (drop_bit (w - 1) t)"
  proof (rule bit_word_eqI)
    fix i assume i: "i < LENGTH(64)"
    have low: "\<not> bit t j" if "j < w - 1" for j using t [of j] that w(1) by (auto simp: mod_less)
    show "bit (push_bit 1 t) i = bit (push_bit w (drop_bit (w - 1) t)) i"
    proof (cases "w \<le> i")
      case True
      then have "w - 1 + (i - w) = i - 1" using w(1) by simp
      then show ?thesis using i True w(1) by (auto simp: bit_push_bit_iff bit_drop_bit_eq)
    next
      case False
      then have "i = 0 \<or> i - 1 < w - 1" using w(1) by linarith
      then show ?thesis using False low [of "i - 1"] by (auto simp: bit_push_bit_iff)
    qed
  qed
  also have "\<dots> = drop_bit (w - 1) t * 2 ^ w" by (simp add: push_bit_eq_mult)
  finally have "push_bit 1 t - drop_bit (w - 1) t = packed w c 1 m * (2 ^ w - 1)"
    unfolding X by (simp add: algebra_simps)
  also have "\<dots> = packed w c (mask w) m" unfolding packed_mult by (simp add: mask_eq_exp_minus_1)
  finally have eq: "push_bit 1 t - drop_bit (w - 1) t = packed w c (mask w) m" .
  have "bit (packed w c (mask w :: u64) m) i \<longleftrightarrow>
      i < LENGTH(64) \<and> i div w < m \<and> c (i div w) \<and> bit (mask w :: u64) (i mod w)"
    by (rule bit_packed) (use w(1) in \<open>simp_all add: bit_mask_iff\<close>)
  moreover have "i < 64 \<Longrightarrow> i mod w < 64" using mod_less_eq_dividend [of i w] by (rule le_less_trans)
  ultimately have "bit (push_bit 1 t - drop_bit (w - 1) t) i \<longleftrightarrow> i < 64 \<and> c (i div w)"
    unfolding eq using w(1) lim [of i] by (auto simp: bit_mask_iff)
  moreover have "w * (i div w) + (w - 1) = i - i mod w + (w - 1)" by (simp add: minus_mod_eq_mult_div)
  ultimately show ?thesis by (simp add: c_def)
qed

section \<open>The macro multiplies every element by x\<close>

definition bytwo_ok :: "nat \<Rightarrow> u32 \<Rightarrow> gf_bytwo_data \<Rightarrow> bool" where
  "bytwo_ok w pp btd \<longleftrightarrow> w \<in> {8, 16, 32} \<and>
     (\<forall>i<64. (bit (btd_prim_poly btd) i \<longleftrightarrow> bit pp (i mod w)) \<and> (bit (btd_mask1 btd) i \<longleftrightarrow> i mod w \<noteq> 0) \<and>
        (bit (btd_mask2 btd) i \<longleftrightarrow> i mod w = w - 1))"

lemma bit_AB2:
  assumes "bytwo_ok w pp btd" "i < 64"
  shows "bit (AB2 w btd b) i \<longleftrightarrow>
    (i mod w \<noteq> 0 \<and> bit b (i - 1)) \<noteq> (bit b (i - i mod w + (w - 1)) \<and> bit pp (i mod w))"
proof -
  have w: "0 < w" "\<exists>m. w * m = 64"
    using assms(1) by (auto simp: bytwo_ok_def intro: exI [of _ 8] exI [of _ 4] exI [of _ 2])
  then obtain m where m: "w * m = 64" by blast
  define u where "u = b AND btd_mask2 btd"
  have t: "bit u j \<Longrightarrow> j mod w = w - 1" for j
    using assms(1) bit_imp_le_length [of u j] by (auto simp: u_def bytwo_ok_def bit_and_iff)
  have "i - i mod w + (w - 1) < 64"
  proof -
    have "i div w < m" using m assms(2) w(1) by (metis div_less_iff_less_mult mult.commute)
    then have "w * Suc (i div w) \<le> w * m" by (intro mult_le_mono2) simp
    then show ?thesis using w(1) m by (simp add: minus_mod_eq_mult_div)
  qed
  moreover have "(w * (i div w) + (w - 1)) mod w = w - 1"
    using w(1) mod_mult_self4 [of w "i div w" "w - 1"] by (simp only: mod_less diff_less zero_less_one)
  then have "(i - i mod w + (w - 1)) mod w = w - 1" by (simp only: minus_mod_eq_mult_div)
  ultimately have "bit u (i - i mod w + (w - 1)) = bit b (i - i mod w + (w - 1))"
    using assms(1) by (auto simp: u_def bytwo_ok_def bit_and_iff)
  then have "bit (push_bit 1 u - drop_bit (w - 1) u) i = bit b (i - i mod w + (w - 1))"
    using spread_leading [OF w(1) m t, where i = i] assms(2) by simp
  moreover have "bit (push_bit 1 b AND btd_mask1 btd) i \<longleftrightarrow> i mod w \<noteq> 0 \<and> bit b (i - 1)"
    using assms w(1) by (cases i) (auto simp: bytwo_ok_def bit_and_iff bit_push_bit_iff)
  moreover have "bit (btd_prim_poly btd) i = bit pp (i mod w)" using assms by (simp add: bytwo_ok_def)
  ultimately show ?thesis
    unfolding AB2_def Let_def bit_xor_iff u_def [symmetric] bit_and_iff [of "push_bit 1 u - drop_bit (w - 1) u"] by blast
qed

lemma lane_bit:
  assumes "i < 32" "8 * n \<le> 32"
  shows "bit (lane n k (a :: u64) :: u32) i \<longleftrightarrow> i < 8 * n \<and> bit a (8 * n * k + i)"
  using assms bit_imp_le_length [of a "8 * n * k + i"] by (auto simp: lane_def bit_simps)

lemma lane_AB2:
  assumes "bytwo_ok (8 * n) pp btd" "Suc k * n \<le> 8"
  shows "(lane n k (AB2 (8 * n) btd b) :: u32) = gf_xtime (8 * n) pp (lane n k b)"
proof (rule bit_word_eqI)
  fix i assume i: "i < LENGTH(32)"
  have n: "0 < n" "8 * n \<le> 32" using assms(1) by (auto simp: bytwo_ok_def)
  have k: "8 * n * k + 8 * n \<le> 64" using mult_le_mono2 [OF assms(2), of 8] by (simp add: algebra_simps)
  show "bit (lane n k (AB2 (8 * n) btd b) :: u32) i = bit (gf_xtime (8 * n) pp (lane n k b)) i"
  proof (cases "i < 8 * n")
    case False
    then show ?thesis using n i by (simp add: lane_bit bit_gf_xtime)
  next
    case True
    have j: "(8 * n * k + i) mod (8 * n) = i" "8 * n * k + i < 64" using True k by simp_all
    have "bit (AB2 (8 * n) btd b) (8 * n * k + i) \<longleftrightarrow>
        (i \<noteq> 0 \<and> bit b (8 * n * k + i - 1)) \<noteq> (bit b (8 * n * k + (8 * n - 1)) \<and> bit pp i)"
      using bit_AB2 [OF assms(1) j(2), of b] unfolding j(1) by simp
    moreover have "bit (lane n k b :: u32) (8 * n - 1) = bit b (8 * n * k + (8 * n - 1))"
      using n lane_bit [of "8 * n - 1" n k b] by simp
    moreover have "bit (lane n k b :: u32) (i - 1) = bit b (8 * n * k + i - 1)" if "i \<noteq> 0"
      using n True i that lane_bit [of "i - 1" n k b] by (cases i) auto
    ultimately show ?thesis using True n i by (auto simp: lane_bit bit_gf_xtime)
  qed
qed

lemma lane_xor: "(lane n k (a XOR b :: u64) :: u32) = lane n k a XOR lane n k b"
  by (rule bit_word_eqI) (auto simp: lane_def bit_simps)

lemma lane_0 [simp]: "(lane n k (0 :: u64) :: u32) = 0"
  by (simp add: lane_def)


section \<open>Filling in the masks\<close>

lemma packed_Suc_or:
  fixes x :: "'a::len word"
  assumes "\<And>i. bit x i \<Longrightarrow> i < w" "0 < w"
  shows "packed w (\<lambda>l. True) x (Suc k) = packed w (\<lambda>l. True) x k OR push_bit (w * k) x"
proof -
  have "\<not> (bit (packed w (\<lambda>l. True) x k) i \<and> bit (push_bit (w * k) x) i)" for i
  proof
    assume a: "bit (packed w (\<lambda>l. True) x k) i \<and> bit (push_bit (w * k) x) i"
    then have "i div w < k" using bit_packed [OF assms] by blast
    then have "i < w * k" using assms(2) by (simp add: div_less_iff_less_mult mult.commute)
    then show False using a by (simp add: bit_push_bit_iff)
  qed
  then show ?thesis by (simp add: packed_def) (subst disjunctive_add, simp_all add: packed_def)
qed

lemma bytwo_fill_packed:
  assumes "l \<le> m" "0 < w" "w * m = 64" "ip \<noteq> 0"
    and "\<And>i. bit ip i \<Longrightarrow> i < w" "\<And>i. bit m1 i \<Longrightarrow> i < w" "\<And>i. bit m2 i \<Longrightarrow> i < w"
  shows "bytwo_fill w (push_bit (w * l) ip) (push_bit (w * l) m1) (push_bit (w * l) m2)
      \<lparr>btd_prim_poly = packed w (\<lambda>l. True) ip l, btd_mask1 = packed w (\<lambda>l. True) m1 l,
       btd_mask2 = packed w (\<lambda>l. True) m2 l\<rparr> =
    \<lparr>btd_prim_poly = packed w (\<lambda>l. True) ip m, btd_mask1 = packed w (\<lambda>l. True) m1 m,
     btd_mask2 = packed w (\<lambda>l. True) m2 m\<rparr>"
  using assms(1)
proof (induction rule: inc_induct)
  case base
  have "push_bit (w * m) ip = 0" unfolding assms(3) by (rule bit_word_eqI) (simp add: bit_push_bit_iff)
  then show ?case by (subst bytwo_fill.simps) simp
next
  case (step l)
  have "push_bit (w * l) ip \<noteq> 0"
  proof -
    obtain i where i: "bit ip i" using assms(4) bit_eqI [of ip 0] by auto
    have "w * Suc l \<le> w * m" using step.hyps by (intro mult_le_mono2) simp
    then have "w * l + i < 64" using assms(3,5) i by fastforce
    then have "bit (push_bit (w * l) ip) (w * l + i)" using i by (simp add: bit_push_bit_iff)
    then show ?thesis by auto
  qed
  moreover have "push_bit w (push_bit (w * l) x) = push_bit (w * Suc l) x" for x :: u64
    by (simp add: add.commute)
  ultimately show ?case
    using step.IH assms(2)
    by (subst bytwo_fill.simps) (simp del: push_bit_push_bit add: packed_Suc_or [OF assms(5,2)]
        packed_Suc_or [OF assms(6,2)] packed_Suc_or [OF assms(7,2)])
qed

lemma bytwo_fill_ok:
  assumes "w \<in> {8, 16, 32}" "ip \<noteq> 0" "\<And>i. bit ip i \<longleftrightarrow> i < w \<and> bit pp i"
    and "\<And>i. bit m1 i \<longleftrightarrow> 0 < i \<and> i < w" "\<And>i. bit m2 i \<longleftrightarrow> i = w - 1"
  shows "bytwo_ok w pp (bytwo_fill w ip m1 m2 bytwo_empty)"
proof -
  obtain m where m: "w * m = 64" "0 < w"
    using assms(1) by (auto intro: that [of 8] that [of 4] that [of 2])
  have s: "bit ip i \<Longrightarrow> i < w" "bit m1 i \<Longrightarrow> i < w" "bit m2 i \<Longrightarrow> i < w" for i
    using assms(3-5) m(2) by auto
  have eq: "bytwo_fill w ip m1 m2 bytwo_empty =
    \<lparr>btd_prim_poly = packed w (\<lambda>l. True) ip m, btd_mask1 = packed w (\<lambda>l. True) m1 m,
     btd_mask2 = packed w (\<lambda>l. True) m2 m\<rparr>"
    using bytwo_fill_packed [of 0 m w ip m1 m2, OF _ m(2,1) assms(2) s] by (simp add: packed_def bytwo_empty_def)
  have p: "bit (packed w (\<lambda>l. True) x m) i \<longleftrightarrow> bit x (i mod w)" if "\<And>i. bit x i \<Longrightarrow> i < w" "i < 64" for x :: u64 and i
  proof -
    have "i div w < m" using that(2) m by (metis div_less_iff_less_mult mult.commute)
    then show ?thesis using bit_packed [OF that(1) m(2), of x "\<lambda>l. True" m i] that(2) by simp
  qed
  have r: "i mod w < w" for i using m(2) by simp
  have "bit (packed w (\<lambda>l. True) ip m) i \<longleftrightarrow> bit pp (i mod w)" if "i < 64" for i
    by (subst p [OF _ that]) (erule s(1), simp add: r assms(3))
  moreover have "bit (packed w (\<lambda>l. True) m1 m) i \<longleftrightarrow> i mod w \<noteq> 0" if "i < 64" for i
    by (subst p [OF _ that]) (erule s(2), simp add: r assms(4))
  moreover have "bit (packed w (\<lambda>l. True) m2 m) i \<longleftrightarrow> i mod w = w - 1" if "i < 64" for i
    by (subst p [OF _ that]) (erule s(3), simp add: assms(5))
  ultimately show ?thesis unfolding bytwo_ok_def eq using assms(1) by (simp only: gf_bytwo_data.simps) blast
qed

section \<open>The loops over the bits of the factor\<close>

lemma ucast_u32:
  fixes v x :: u32
  shows "drop_bit 1 (ucast x :: u64) = ucast (drop_bit 1 x)" "(ucast x :: u64) = 0 \<longleftrightarrow> x = 0"
    "(ucast v :: u64) AND ucast x = 0 \<longleftrightarrow> v AND x = 0"
proof -
  show "drop_bit 1 (ucast x :: u64) = ucast (drop_bit 1 x)"
    by (rule bit_word_eqI) (auto simp: bit_simps dest: bit_imp_le_length)
  show z: "(ucast x :: u64) = 0 \<longleftrightarrow> x = 0" for x :: u32
  proof
    assume a: "(ucast x :: u64) = 0"
    then have "\<not> bit (ucast x :: u64) i" for i by simp
    then show "x = 0" by (intro bit_word_eqI) (auto simp: bit_ucast_iff)
  qed simp
  show "(ucast v :: u64) AND ucast x = 0 \<longleftrightarrow> v AND x = 0"
    using z [of "v AND x"] by (simp add: unsigned_and_eq)
qed

lemma lane_bytwo_b_word:
  assumes "bytwo_ok (8 * n) (field_poly h) btd" "Suc k * n \<le> 8" "wf_field h" "h_w h = 8 * n"
  shows "(lane n k (bytwo_b_word (8 * n) btd ta (ucast (v :: u32)) prd) :: u32) =
    gf_wgen_bytwo_b_loop (8 * n) (field_poly h) (lane n k prd) v (lane n k ta)"
proof (induction "unat v" arbitrary: v ta prd rule: less_induct)
  case less
  have v: "(ucast v :: u64) AND 1 = 0 \<longleftrightarrow> v AND 1 = 0" using ucast_u32(3) [of v 1] by simp
  show ?case
  proof (cases "drop_bit 1 v = 0")
    case True
    then show ?thesis
      by (subst bytwo_b_word.simps, subst gf_wgen_bytwo_b_loop.simps) (simp add: v ucast_u32 Let_def lane_xor del: One_nat_def)
  next
    case False
    then have "unat (drop_bit 1 v) < unat v" by (intro unat_halve) auto
    from less [OF this] show ?thesis
      using False by_two_xtime [OF assms(3), of "lane n k ta"] elem_lane [of n k ta] assms(4) lane_AB2 [OF assms(1,2), of ta]
      by (subst bytwo_b_word.simps, subst gf_wgen_bytwo_b_loop.simps) (simp add: v ucast_u32 Let_def lane_xor del: One_nat_def)
  qed
qed

lemma lane_bytwo_p_word:
  assumes "bytwo_ok (8 * n) (field_poly h) btd" "Suc k * n \<le> 8" "wf_field h" "h_w h = 8 * n"
  shows "(lane n k (bytwo_p_word (8 * n) btd v ta (ucast (am :: u32)) prd) :: u32) =
    gf_wgen_bytwo_p_loop (8 * n) (field_poly h) v (lane n k ta) am (lane n k prd)"
proof (induction "unat am" arbitrary: am prd rule: less_induct)
  case less
  show ?case
  proof (cases "am = 0")
    case True
    then show ?thesis by (subst bytwo_p_word.simps, subst gf_wgen_bytwo_p_loop.simps) simp
  next
    case False
    then have "unat (drop_bit 1 am) < unat am" by (rule unat_halve)
    from less [OF this] show ?thesis
      using False by_two_xtime [OF assms(3), of "lane n k prd"] elem_lane [of n k prd] assms(4) lane_AB2 [OF assms(1,2), of prd]
      by (subst bytwo_p_word.simps, subst gf_wgen_bytwo_p_loop.simps) (simp add: ucast_u32 Let_def lane_xor del: One_nat_def)
  qed
qed

text \<open>What the two functions store or add is the product of every element.\<close>

lemma bytwo_p_product:
  assumes "bytwo_ok (8 * n) (field_poly h) btd" "Suc k * n \<le> 8" "wf_field h" "h_w h = 8 * n"
  shows "(lane n k (bytwo_p_word (8 * n) btd v a (ucast (push_bit (8 * n - 1) 1 :: u32)) 0) :: u32) = h_mul h v (lane n k a)"
proof -
  have "h_elem h (lane n k a)" using elem_lane [of n k a] assms(4) by simp
  then show ?thesis
    using lane_bytwo_p_word [OF assms(1-4), of v a "push_bit (8 * n - 1) 1" 0]
      bytwo_p_multiply_eq_mul [OF assms(3), of "lane n k a" v] assms(4)
    by (simp add: gf_wgen_bytwo_p_multiply_def)
qed

lemma bytwo_b_product:
  assumes "bytwo_ok (8 * n) (field_poly h) btd" "Suc k * n \<le> 8" "wf_field h" "h_w h = 8 * n" "h_elem h v"
  shows "(lane n k (bytwo_b_word (8 * n) btd a (ucast v) d) :: u32) = lane n k d XOR h_mul h v (lane n k a)"
proof -
  have a: "h_elem h (lane n k a)" using elem_lane [of n k a] assms(4) by simp
  show ?thesis
    using lane_bytwo_b_word [OF assms(1-4), of a v d] bytwo_b_loop [OF assms(3) a, of "lane n k d" v]
      bytwo_b_loop [OF assms(3) a, of 0 v] bytwo_b_multiply_eq_mul [OF assms(3,5) a] assms(4)
    by (simp add: gf_wgen_bytwo_b_multiply_def)
qed

lemma bytwo_small_product:
  assumes "bytwo_ok (8 * n) (field_poly h) btd" "Suc k * n \<le> 8" "wf_field h" "h_w h = 8 * n"
    and "v \<in> {2, 3, 4, 5, 6, 8}"
  shows "(lane n k (bytwo_small_word (8 * n) btd v a) :: u32) = h_mul h v (lane n k a)"
proof -
  let ?X = "gf_xtime (h_w h) (field_poly h)" and ?a = "lane n k a :: u32"
  have w: "0 < h_w h" "3 < h_w h" "h_w h \<le> 32" using assms(1,4) by (auto simp: bytwo_ok_def)
  have e: "gf_elem (h_w h) ?a" using elem_lane [of n k a] assms(4) by simp
  have m: "h_mul h 1 ?a = ?a" "h_mul h 2 ?a = ?X ?a" "h_mul h 4 ?a = ?X (?X ?a)" "h_mul h 8 ?a = ?X (?X (?X ?a))"
    using gf_mul_1_left [OF e w(1,3)] gf_mul_push_bit [OF e _ w(3), of 1] gf_mul_push_bit [OF e _ w(3), of 2]
      gf_mul_push_bit [OF e w(2,3)] w(2) by (simp_all add: numeral_eq_Suc)
  have s: "h_mul h 3 ?a = ?X ?a XOR ?a" "h_mul h 5 ?a = ?X (?X ?a) XOR ?a" "h_mul h 6 ?a = ?X (?X ?a) XOR ?X ?a"
    using gf_mul_xor_left [of "h_w h" "field_poly h" 2 1 ?a] gf_mul_xor_left [of "h_w h" "field_poly h" 4 1 ?a]
      gf_mul_xor_left [of "h_w h" "field_poly h" 4 2 ?a] by (simp_all add: m)
  show ?thesis
    using assms(5) m s by (auto simp: bytwo_small_word_def lane_xor lane_AB2 [OF assms(1,2)] assms(4))
qed

section \<open>The region functions\<close>

lemma bytwo_p_lanes:
  assumes "bytwo_ok (8 * n) (field_poly h) btd" "n dvd 8" "wf_field h" "h_w h = 8 * n"
    "am = ucast (push_bit (8 * n - 1) 1 :: u32)"
  shows "lanes 8 n (\<lambda>a b. add_or_store xr (bytwo_p_word (8 * n) btd v a am 0) b) (word_product h v xr)"
proof (rule lanesI [OF assms(2)])
  fix a b k assume k: "Suc k * n \<le> 8"
  show "lane n k (add_or_store xr (bytwo_p_word (8 * n) btd v a am 0) b) =
      word_product h v xr (lane n k a) (lane n k b)"
    using bytwo_p_product [OF assms(1) k assms(3,4), of v a] assms(5)
    by (simp add: add_or_store_def word_product_def lane_xor)
qed (use assms(1) in \<open>auto simp: bytwo_ok_def\<close>)

lemma bytwo_b_lanes:
  assumes "bytwo_ok (8 * n) (field_poly h) btd" "n dvd 8" "wf_field h" "h_w h = 8 * n" "h_elem h v"
    "set small \<subseteq> {2, 3, 4, 5, 6, 8}"
  shows "lanes 8 n (bytwo_b_stored (8 * n) small btd v xr) (word_product h v xr)"
proof (rule lanesI [OF assms(2)])
  fix a b k assume k: "Suc k * n \<le> 8"
  have "v \<in> set small \<Longrightarrow> v \<in> {2, 3, 4, 5, 6, 8}" using assms(6) by blast
  note p = bytwo_small_product [OF assms(1) k assms(3,4) this, of a] bytwo_b_product [OF assms(1) k assms(3-5), of a]
  then show "lane n k (bytwo_b_stored (8 * n) small btd v xr a b) = word_product h v xr (lane n k a) (lane n k b)"
    by (simp add: bytwo_b_stored_def add_or_store_def word_product_def lane_xor)
qed (use assms(1) in \<open>auto simp: bytwo_ok_def\<close>)

lemma bytwo_region:
  fixes g :: "u64 \<Rightarrow> u64 \<Rightarrow> u64"
  assumes "gf_correct F" "h_w (scratch F) = 8 * n" "n dvd 8" "8 * n \<in> {8, 16, 32}" "h_elem (scratch F) v"
    and "length s = length d" "n dvd length d" "n dvd src" "src mod 16 = dest mod 16"
    and "16 \<le> length d \<or> 16 dvd src" "al \<in> {8, 16, 32}"
    and "lanes 8 n g (word_product (scratch F) v xr)"
  shows "(if v = 0 then Some (gf_multby_zero xr d)
     else if v = 1 then gf_multby_one src dest xr s d
     else aligned_region F (int al) (\<lambda>rd. word_loop 8 g ((d_top rd - d_start rd) div 8) (d_start rd - dest)) src dest v xr s d) =
    Some (region_map n (word_product (scratch F) v xr) s d)"
proof -
  have n: "0 < n" "8 * n \<le> 32" "h_w (scratch F) \<in> {8, 16, 32}" "n = h_w (scratch F) div 8" using assms(2,4) by auto
  have mod: "src mod 8 = dest mod 8"
    using assms(9) mod_mod_cancel [of 8 16 src] mod_mod_cancel [of 8 16 dest] by simp
  have "16 dvd src \<Longrightarrow> 16 dvd dest" using assms(9) by (simp only: dvd_eq_mod_eq_0)
  then have al: "16 dvd src \<Longrightarrow> src mod 8 = 0 \<and> dest mod 8 = 0"
    using dvd_trans [of 8 16 src] dvd_trans [of 8 16 dest] by simp
  then have fits: "region_fits src dest (length d)" using assms(10) by (auto simp: region_fits_def)
  have off: "start_off a src \<le> length d" if "a = 8 \<or> a = 16" for a
    using assms(10)
  proof
    assume "16 \<le> length d"
    then show ?thesis using that start_off_lt [of a src] by auto
  next
    assume "16 dvd src"
    then have "src mod a = 0" using that al by auto
    then show ?thesis by (simp add: start_off_def)
  qed
  have "aligned_region F (int al) (\<lambda>rd. word_loop 8 g ((d_top rd - d_start rd) div 8) (d_start rd - dest)) src dest v xr s d =
      Some (region_map n (word_product (scratch F) v xr) s d)"
  proof (rule aligned_region_lanes [OF assms(1) n(3,4) assms(5-8) _ _ refl _ _ assms(12)])
    show "8 dvd al" "0 < al" using assms(11) by auto
    have m: "min al 16 = 8 \<or> min al 16 = 16" using assms(11) by auto
    then show "src mod min al 16 = dest mod min al 16" using mod assms(9) by metis
    show "start_off (min al 16) src \<le> length d" by (rule off [OF m])
  qed
  then show ?thesis
    using multby_one [OF assms(2,7) n(1,2) assms(6) fits, of xr] region_map_zero [OF assms(7) n(1,2), of "scratch F" xr s]
    by auto
qed

text \<open>The region functions that the three initialisations select.\<close>

definition bytwo_region_of :: "nat \<Rightarrow> gf_bytwo_data \<Rightarrow> region_fn set" where
  "bytwo_region_of w btd =
    (if w = 8 then {W8_bytwo_p_region btd, W8_bytwo_b_region btd}
     else if w = 16 then {W16_bytwo_p_region btd, W16_bytwo_b_region btd}
     else {W32_bytwo_p_region btd, W32_bytwo_b_region btd})"

lemma bytwo_multiply_region:
  assumes "gf_correct F" "wf_field (scratch F)" "h_w (scratch F) = w" "bytwo_ok w (field_poly (scratch F)) btd"
    and "multiply_region F = Some f" "f \<in> bytwo_region_of w btd" "gf_elem w v"
    and "length s = length d" "w div 8 dvd length d" "w div 8 dvd src" "src mod 16 = dest mod 16"
    and "16 \<le> length d \<or> 16 dvd src"
  shows "gf_multiply_region F d8 src dest v xr s d = Some (d8, region_map (w div 8) (word_product (scratch F) v xr) s d)"
proof -
  have fc: "n dvd 8" "8 * n \<in> {8, 16, 32}" "n dvd length d" "n dvd src" "h_elem (scratch F) v"
    if "w = 8 * n" for n
    using assms(3,4,7,9,10) that by (auto simp: bytwo_ok_def)
  have p: "lanes 8 n (\<lambda>a b. add_or_store xr (bytwo_p_word w btd v a am 0) b) (word_product (scratch F) v xr)"
    if "w = 8 * n" "am = ucast (push_bit (8 * n - 1) 1 :: u32)" for n am
    using bytwo_p_lanes [of n "scratch F" btd, OF _ fc(1) [OF that(1)] assms(2) _ that(2)] assms(3,4) that(1) by simp
  have b: "lanes 8 n (bytwo_b_stored w small btd v xr) (word_product (scratch F) v xr)"
    if "w = 8 * n" "set small \<subseteq> {2, 3, 4, 5, 6, 8}" for n small
    using bytwo_b_lanes [of n "scratch F" btd v small, OF _ fc(1) [OF that(1)] assms(2) _ fc(5) [OF that(1)] that(2)]
      assms(3,4) that(1) by simp
  note std = bytwo_region [OF assms(1) _ fc(1,2,5) assms(8) fc(3,4) assms(11,12)]
  have "w \<in> {8, 16, 32}" using assms(4) by (simp add: bytwo_ok_def)
  then consider "w = 8 * 1" | "w = 8 * 2" | "w = 8 * 4" by auto
  then show ?thesis
  proof cases
    case 1
    have lp: "lanes 8 1 (\<lambda>a b. add_or_store xr (bytwo_p_word 8 btd v a 0x80 0) b) (word_product (scratch F) v xr)"
      using p [OF 1, of "0x80"] 1 by (simp add: push_bit_eq_mult)
    have lb: "lanes 8 1 (bytwo_b_stored 8 [2, 3, 4, 5, 6, 8] btd v xr) (word_product (scratch F) v xr)"
      using b [OF 1, of "[2, 3, 4, 5, 6, 8]"] 1 by simp
    show ?thesis
      using assms(5,6) 1 std [OF _ 1 1 1 1 1 _ lp, of 8] std [OF _ 1 1 1 1 1 _ lb, of 16] assms(3)
      by (auto simp: gf_multiply_region_def bytwo_region_of_def gf_w8_bytwo_p_nosse_multiply_region_def
          gf_w8_bytwo_b_nosse_multiply_region_def)
  next
    case 2
    have lp: "lanes 8 2 (\<lambda>a b. add_or_store xr (bytwo_p_word 16 btd v a 0x8000 0) b) (word_product (scratch F) v xr)"
      using p [OF 2, of "0x8000"] 2 by (simp add: push_bit_eq_mult)
    have lb: "lanes 8 2 (bytwo_b_stored 16 [2, 3, 4, 5] btd v xr) (word_product (scratch F) v xr)"
      using b [OF 2, of "[2, 3, 4, 5]"] 2 by simp
    show ?thesis
      using assms(5,6) 2 std [OF _ 2 2 2 2 2 _ lp, of 8] std [OF _ 2 2 2 2 2 _ lb, of 16] assms(3)
      by (auto simp: gf_multiply_region_def bytwo_region_of_def gf_w16_bytwo_p_nosse_multiply_region_def
          gf_w16_bytwo_b_nosse_multiply_region_def)
  next
    case 3
    have lp: "lanes 8 4 (\<lambda>a b. add_or_store xr (bytwo_p_word 32 btd v a 0x80000000 0) b) (word_product (scratch F) v xr)"
      using p [OF 3, of "0x80000000"] 3 by (simp add: push_bit_eq_mult)
    have lb: "lanes 8 4 (bytwo_b_stored 32 [2, 3, 4, 5] btd v xr) (word_product (scratch F) v xr)"
      using b [OF 3, of "[2, 3, 4, 5]"] 3 by simp
    show ?thesis
      using assms(5,6) 3 std [OF _ 3 3 3 3 3 _ lp, of 8] std [OF _ 3 3 3 3 3 _ lb, of 32] assms(3)
      by (auto simp: gf_multiply_region_def bytwo_region_of_def gf_w32_bytwo_p_nosse_multiply_region_def
          gf_w32_bytwo_b_nosse_multiply_region_def)
  qed
qed

section \<open>The initialisations\<close>

lemma primitive_low_bit:
  assumes "gf_primitive w pp" "1 < w"
  shows "bit pp 0"
proof -
  have "bit (2 :: u32) i \<Longrightarrow> i = 1" for i
    using bit_push_one [where ?'a = 32, of 1 i] bit_imp_le_length [of "2 :: u32" i] by auto
  then have w: "w \<le> 32" "gf_elem w 2" using assms by (auto simp: gf_primitive_def intro!: gf_elemI)
  then obtain b where b: "gf_elem w b" "gf_mul w pp 2 b = 1" using gf_inverse_exists [OF assms(1), of 2] by auto
  then have "bit (gf_xtime w pp b) 0" using gf_mul_2 [OF b(1) assms(2) w(1)] by simp
  then show ?thesis by (simp add: bit_gf_xtime)
qed

lemma bytwo_fill_field:
  assumes "h_primitive h" "h_w h = w" "w \<in> {8, 16, 32}"
  shows "bytwo_ok w (field_poly h) (bytwo_fill w (prim_poly h AND mask w) (mask w XOR 1) (push_bit (w - 1) 1) bytwo_empty)"
proof (rule bytwo_fill_ok [OF assms(3)])
  have "1 < w" using assms(3) by auto
  then have "bit (field_poly h) 0" using primitive_low_bit [of w "field_poly h"] assms(1,2) by (simp add: h_primitive_def)
  then have "bit (prim_poly h AND mask w) 0" using assms(3) by (auto simp: bit_simps)
  then show "prim_poly h AND mask w \<noteq> 0" by auto
qed (use assms(3) in \<open>auto simp: bit_simps bit_1_iff\<close>)

lemma bytwo_masks:
  assumes "h_primitive h"
  shows "h_w h = 8 \<Longrightarrow> bytwo_ok 8 (field_poly h) (bytwo_fill 8 (prim_poly h AND 0xff) 0xfe 0x80 bytwo_empty)"
    "h_w h = 16 \<Longrightarrow> bytwo_ok 16 (field_poly h) (bytwo_fill 16 (prim_poly h AND 0xffff) 0xfffe 0x8000 bytwo_empty)"
    "h_w h = 32 \<Longrightarrow> bytwo_ok 32 (field_poly h) (bytwo_fill 32 (prim_poly h AND 0xffffffff) 0xfffffffe 0x80000000 bytwo_empty)"
  using bytwo_fill_field [OF assms, of 8] bytwo_fill_field [OF assms, of 16] bytwo_fill_field [OF assms, of 32]
  by (simp_all add: mask_numeral push_bit_eq_mult)

text \<open>The polynomial that the initialisation of a width makes of the given one.\<close>

definition word_poly :: "nat \<Rightarrow> u64 \<Rightarrow> u64" where
  "word_poly w pp =
    (if w = 8 then (if pp = 0 then 0x11d else pp) OR 0x100
     else if w = 16 then (if pp = 0 then 0x1100b else pp) OR push_bit 16 1
     else (if pp = 0 then 0x400007 else pp) AND 0xffffffff)"

lemma bytwo_init:
  assumes "mt = GF_MULT_BYTWO_p \<or> mt = GF_MULT_BYTWO_b" "w = 8 \<or> w = 16 \<or> w = 32" "drop_bit (Suc w) pp = 0"
    and "h = Gf_internal mt GF_REGION_DEFAULT GF_DIVIDE_DEFAULT w (word_poly w pp) 0 0 None" "wf_field h" "h_primitive h"
  shows "\<exists>F f btd. gf_init_hard (int w) mt GF_REGION_DEFAULT GF_DIVIDE_DEFAULT pp 0 0 None = Inr F \<and> gf_correct F \<and>
    scratch F = h \<and> bytwo_ok w (field_poly h) btd \<and> multiply_region F = Some f \<and> f \<in> bytwo_region_of w btd"
proof -
  define h0 where "h0 = Gf_internal mt GF_REGION_DEFAULT GF_DIVIDE_DEFAULT w pp 0 0 None"
  have sel: "mult_type h = mt" "region_type h = 0" "h_w h = w" "mult_type h0 = mt" "region_type h0 = 0" "h_w h0 = w"
    "h = set_prim_poly (word_poly w pp) h0" "prim_poly h0 = pp"
    using assms(4) by (simp_all add: h0_def gf_region_defs)
  have check: "gf_error_check no_simd (int w) mt GF_REGION_DEFAULT GF_DIVIDE_DEFAULT 0 0 pp' None = accept"
    if "drop_bit (Suc w) pp' = 0" for pp'
    using assms(1,2) that by (elim disjE) (simp_all add: gf_error_check_def gf_region_defs)
  have hard: "gf_init_hard (int w) mt GF_REGION_DEFAULT GF_DIVIDE_DEFAULT pp 0 0 None =
      (if w = 8 then gf_w8_init h0 else if w = 16 then gf_w16_init h0 else gf_w32_init h0)"
    using assms(1,2) check [OF assms(3)] check [of 0]
    by (elim disjE) (simp_all add: gf_init_hard_def gf_scratch_size_def gf_w8_scratch_size_def gf_w16_scratch_size_def
        gf_w32_scratch_size_def sizeof_defs h0_def)
  from assms(2) show ?thesis
  proof (elim disjE, goal_cases)
    case 1
    define btd where "btd = bytwo_fill 8 (prim_poly h AND 0xff) 0xfe 0x80 bytwo_empty"
    have ok: "bytwo_ok 8 (field_poly h) btd" using bytwo_masks [OF assms(6)] 1 sel(3) by (simp add: btd_def)
    obtain fs f where f: "gf_w8_technique h = Inr (fs, Some f)" "funs_ok h fs" "f \<in> bytwo_region_of 8 btd"
      using assms(1) w8_bytwo_multiply [OF assms(5)] sel(1-3) 1
      by (auto simp: gf_w8_technique_def gf_w8_bytwo_init_def funs_ok_def bytwo_region_of_def btd_def Let_def)
    have "word_poly w pp = (if prim_poly h0 = 0 then 0x11d else prim_poly h0) OR 0x100"
      using 1 sel(8) by (simp add: word_poly_def)
    then obtain F where "gf_w8_init h0 = Inr F" "gf_correct F" "scratch F = h" "multiply_region F = Some f"
      using w8_init_technique [of h0 h fs "Some f"] sel 1 assms(1,5,6) f(1,2) by (auto simp: gf_region_defs)
    then show ?thesis using hard 1 ok f(3) by auto
  next
    case 2
    define btd where "btd = bytwo_fill 16 (prim_poly h AND 0xffff) 0xfffe 0x8000 bytwo_empty"
    have ok: "bytwo_ok 16 (field_poly h) btd" using bytwo_masks [OF assms(6)] 2 sel(3) by (simp add: btd_def)
    obtain fs f where f: "gf_w16_technique h = Inr (fs, Some f)" "funs_ok h fs" "f \<in> bytwo_region_of 16 btd"
      using assms(1) w16_bytwo_multiply [OF assms(5)] sel(1-3) 2
      by (auto simp: gf_w16_technique_def gf_w16_bytwo_init_def funs_ok_def bytwo_region_of_def btd_def Let_def)
    have "word_poly w pp = (if prim_poly h0 = 0 then 0x1100b else prim_poly h0) OR push_bit 16 1"
      using 2 sel(8) by (simp add: word_poly_def)
    then obtain F where "gf_w16_init h0 = Inr F" "gf_correct F" "scratch F = h" "multiply_region F = Some f"
      using w16_init_technique [of h0 h fs "Some f"] sel 2 assms(1,5,6) f(1,2) by (auto simp: gf_region_defs)
    then show ?thesis using hard 2 ok f(3) by auto
  next
    case 3
    define btd where "btd = bytwo_fill 32 (prim_poly h AND 0xffffffff) 0xfffffffe 0x80000000 bytwo_empty"
    have ok: "bytwo_ok 32 (field_poly h) btd" using bytwo_masks [OF assms(6)] 3 sel(3) by (simp add: btd_def)
    obtain mul f where f: "gf_w32_technique h = Inr ((mul, None, Some (gf_w32_euclid h mul)), f)" "mul_ok h mul" "f \<in> bytwo_region_of 32 btd"
      using assms(1) w32_bytwo_p_eq_mul [OF assms(5)] w32_bytwo_b_eq_mul [OF assms(5)] sel(1-3) 3
      by (auto simp: gf_w32_technique_def gf_w32_bytwo_init_def mul_ok_def bytwo_region_of_def btd_def Let_def)
    have "word_poly w pp = (if prim_poly h0 = 0 then 0x400007 else prim_poly h0) AND 0xffffffff"
      using 3 sel(8) by (simp add: word_poly_def)
    then obtain F where "gf_w32_init h0 = Inr F" "gf_correct F" "scratch F = h" "multiply_region F = Some f"
      using w32_init_technique [of h0 h mul f] sel 3 assms(1,5,6) f(1,2) by (auto simp: gf_region_defs)
    then show ?thesis using hard 3 ok f(3) by auto
  qed
qed

section \<open>Fields made with the by-two techniques\<close>

text \<open>
  C35: initialising a field of 8, 16 or 32 bits with one of the two
  by-two techniques and any primitive polynomial succeeds and gives a correct field, and its
  region function, which works on all elements of a 64-bit word at once and takes shortcuts for
  the small values, multiplies a region word by word, whatever its length and offset, as long as
  the two regions have the same offset from a multiple of 16 and 16 bytes or no offset.
\<close>

theorem bytwo_fields_multiply:
  assumes "mt = GF_MULT_BYTWO_p \<or> mt = GF_MULT_BYTWO_b" "w = 8 \<or> w = 16 \<or> w = 32" "drop_bit (Suc w) pp = 0"
    and "h = Gf_internal mt GF_REGION_DEFAULT GF_DIVIDE_DEFAULT w (word_poly w pp) 0 0 None" "wf_field h" "h_primitive h"
  shows "\<exists>F. gf_init_hard (int w) mt GF_REGION_DEFAULT GF_DIVIDE_DEFAULT pp 0 0 None = Inr F \<and> gf_correct F \<and>
    (\<forall>d8 src dest v xr s d. gf_elem w v \<and> length s = length d \<and> w div 8 dvd length d \<and> w div 8 dvd src \<and>
       src mod 16 = dest mod 16 \<and> (16 \<le> length d \<or> 16 dvd src) \<longrightarrow>
       gf_multiply_region F d8 src dest v xr s d = Some (d8, region_map (w div 8) (word_product h v xr) s d))"
proof -
  obtain F f btd where F: "gf_init_hard (int w) mt GF_REGION_DEFAULT GF_DIVIDE_DEFAULT pp 0 0 None = Inr F" "gf_correct F"
    "scratch F = h" "bytwo_ok w (field_poly h) btd" "multiply_region F = Some f" "f \<in> bytwo_region_of w btd"
    using bytwo_init [OF assms] by blast
  have "h_w h = w" using assms(4) by simp
  with F show ?thesis using bytwo_multiply_region [of F w btd f] assms(5) by auto
qed

theorem bytwo_fields_multiply_witness:
  "\<exists>F. gf_init_hard 8 GF_MULT_BYTWO_b GF_REGION_DEFAULT GF_DIVIDE_DEFAULT 0x1d 0 0 None = Inr F \<and>
    gf_multiply_region F \<lparr>last_value = 0, lazy_tables = []\<rparr> 0 16 2 False [1, 2, 3] [0, 0, 0] =
      Some (\<lparr>last_value = 0, lazy_tables = []\<rparr>,
        region_map 1 (word_product (Gf_internal GF_MULT_BYTWO_b GF_REGION_DEFAULT GF_DIVIDE_DEFAULT 8 0x11d 0 0 None) 2 False)
          [1, 2, 3] [0, 0, 0])"
proof -
  have p: "word_poly 8 0x1d = 0x11d" by (simp add: word_poly_def)
  let ?h = "Gf_internal GF_MULT_BYTWO_b GF_REGION_DEFAULT GF_DIVIDE_DEFAULT 8 0x11d 0 0 None"
  have "wf_field ?h" "h_primitive ?h" using gf_primitive_8 by (simp_all add: wf_field_def h_primitive_def)
  then show ?thesis
    using bytwo_fields_multiply [of GF_MULT_BYTWO_b 8 "0x1d" ?h] by (auto simp: p gf_elem_def)
qed

end
