(* ===== verification/Reed_Sol_R6.thy ===== *)
theory Reed_Sol_R6
  imports Reed_Sol_Correct Gf_Bytwo Samples
begin

text \<open>
  The RAID-6 encoder of reed_sol.c: the first coding device is the parity, the second is
  evaluated by Horner's rule, multiplying it by 2 in place with fields of its own that use the
  by-two technique.
\<close>

section \<open>The encoder\<close>

text \<open>
  The static variables \<open>prim08\<close>, \<open>GF08\<close> and their like for 16 and 32 bits.  The result of the
  multiplication is an \<open>int\<close>, and its sign is extended where the field is initialised.  A
  region is multiplied in place: every word is read before it is written and none is read
  again, so the old contents serve as the source.  These fields keep no tables.
\<close>

record by2_field =
  prim :: u32
  by2_gf :: "gf_t option"

type_synonym by2_fields = "nat \<Rightarrow> by2_field"

definition by2_start :: by2_fields where
  "by2_start = (\<lambda>w. \<lparr>prim = - 1, by2_gf = None\<rparr>)"

definition region_multby_2 :: "nat \<Rightarrow> nat \<Rightarrow> nat \<Rightarrow> by2_fields \<times> jstate \<Rightarrow> (by2_fields \<times> jstate) option" where
  "region_multby_2 w region nbytes = (\<lambda>(fs, st).
    obind (if prim (fs w) = - 1
           then obind (galois_single_multiply_st True (gal st) (push_bit (w - 1) 1) 2 w) (\<lambda>(g, p).
                  case gf_init_hard (int w) GF_MULT_BYTWO_b GF_REGION_DEFAULT GF_DIVIDE_DEFAULT (scast p) 0 0 None of
                    Inl e \<Rightarrow> None
                  | Inr F \<Rightarrow> Some (fs(w := \<lparr>prim = p, by2_gf = Some F\<rparr>), st\<lparr>gal := g\<rparr>))
           else Some (fs, st)) (\<lambda>(fs, st).
    obind (by2_gf (fs w)) (\<lambda>F.
    obind (dev_read st region 0 nbytes) (\<lambda>d.
    obind (gf_multiply_region F (lazy_data st) (addr st region) (addr st region) 2 False d d) (\<lambda>(d8, d).
    Some (fs, dev_write region 0 d st))))))"

definition reed_sol_galois_w08_region_multby_2 ::
  "nat \<Rightarrow> nat \<Rightarrow> by2_fields \<times> jstate \<Rightarrow> (by2_fields \<times> jstate) option" where
  "reed_sol_galois_w08_region_multby_2 = region_multby_2 8"

definition reed_sol_galois_w16_region_multby_2 ::
  "nat \<Rightarrow> nat \<Rightarrow> by2_fields \<times> jstate \<Rightarrow> (by2_fields \<times> jstate) option" where
  "reed_sol_galois_w16_region_multby_2 = region_multby_2 16"

definition reed_sol_galois_w32_region_multby_2 ::
  "nat \<Rightarrow> nat \<Rightarrow> by2_fields \<times> jstate \<Rightarrow> (by2_fields \<times> jstate) option" where
  "reed_sol_galois_w32_region_multby_2 = region_multby_2 32"

text \<open>
  The loop ends with 0 when it meets an unsupported word size, which it does unless k is 1.
  Device k is \<open>coding_ptrs[0]\<close> and device k + 1 is \<open>coding_ptrs[1]\<close>.
\<close>

definition r6_horner_step :: "nat \<Rightarrow> nat \<Rightarrow> nat \<Rightarrow> nat \<Rightarrow> by2_fields \<times> jstate \<Rightarrow> (by2_fields \<times> jstate) option" where
  "r6_horner_step k w sz i s =
    obind (if w = 8 then reed_sol_galois_w08_region_multby_2 (k + 1) sz s
           else if w = 16 then reed_sol_galois_w16_region_multby_2 (k + 1) sz s
           else reed_sol_galois_w32_region_multby_2 (k + 1) sz s) (\<lambda>(fs, st).
    map_option (Pair fs) (galois_region_xor i 0 (k + 1) 0 sz st))"

definition reed_sol_r6_encode :: "nat \<Rightarrow> nat \<Rightarrow> nat \<Rightarrow> by2_fields \<times> jstate \<Rightarrow> (int \<times> by2_fields \<times> jstate) option" where
  "reed_sol_r6_encode k w sz = (\<lambda>(fs, st).
    if k = 0 then None
    else
      obind (dev_memcpy k 0 0 0 sz st) (\<lambda>st.
      obind (ofold (\<lambda>i st. galois_region_xor i 0 k 0 sz st) [1..<k] st) (\<lambda>st.
      obind (dev_memcpy (k + 1) 0 (k - 1) 0 sz st) (\<lambda>st.
      if w \<noteq> 8 \<and> w \<noteq> 16 \<and> w \<noteq> 32 \<and> 2 \<le> k then Some (0, fs, st)
      else map_option (Pair 1) (ofold (r6_horner_step k w sz) (rev [0..<k - 1]) (fs, st))))))"

section \<open>The fields for multiplying by 2\<close>

definition low_poly :: "nat \<Rightarrow> u32" where
  "low_poly w = (if w = 8 then 0x1d else if w = 16 then 0x100b else 0x400007)"

text \<open>A field that multiplies regions by 2, given what is needed of the alignment.\<close>

definition doubles :: "nat \<Rightarrow> gf_t \<Rightarrow> bool" where
  "doubles w F \<longleftrightarrow> (\<forall>d8 a d. w div 8 dvd length d \<and> 8 dvd a \<and> (16 \<le> length d \<or> 16 dvd a) \<longrightarrow>
     gf_multiply_region F d8 a a 2 False d d =
       Some (d8, region_map (w div 8) (word_product (scratch (galois_default w)) 2 False) d d))"

definition by2_ok :: "by2_fields \<Rightarrow> bool" where
  "by2_ok fs \<longleftrightarrow> (\<forall>w\<in>{8, 16, 32}. prim (fs w) = - 1 \<or> (\<exists>F. by2_gf (fs w) = Some F \<and> doubles w F))"

lemma low_poly_product:
  assumes "w \<in> {8, 16, 32}"
  shows "galois_single_multiply (galois_default w) (push_bit (w - 1) 1) 2 = low_poly w"
proof -
  have e: "gf_elem w 2" "gf_elem w (push_bit (w - 1) 1)" "1 < w" "w \<le> 32"
    using assms by (auto simp: gf_elem_def push_bit_eq_mult)
  then have "galois_single_multiply (galois_default w) (push_bit (w - 1) 1) 2 =
      gf_xtime w (field_poly (scratch (galois_default w))) (push_bit (w - 1) 1)"
    using single_multiply_mul [of "galois_default w" "push_bit (w - 1) 1" 2] correct_field_default [OF assms]
      gf_mul_commute [OF e(2,1,4)] gf_mul_2 [OF e(2-4)]
    by (simp add: correct_field_def default_width [OF assms])
  also have "\<dots> = low_poly w"
    using assms by (auto simp: gf_xtime_def low_poly_def default_8 default_16 default_32 push_bit_eq_mult)
  finally show ?thesis .
qed

lemma by2_init:
  assumes "w \<in> {8, 16, 32}"
  shows "\<exists>F. gf_init_hard (int w) GF_MULT_BYTWO_b GF_REGION_DEFAULT GF_DIVIDE_DEFAULT (scast (low_poly w)) 0 0 None = Inr F \<and>
    doubles w F"
proof -
  define h where "h = Gf_internal GF_MULT_BYTWO_b GF_REGION_DEFAULT GF_DIVIDE_DEFAULT w (word_poly w (scast (low_poly w))) 0 0 None"
  have pp: "word_poly w (scast (low_poly w)) = prim_poly (scratch (galois_default w))"
    "drop_bit (Suc w) (scast (low_poly w) :: u64) = 0"
    using assms by (auto simp: word_poly_def low_poly_def default_8 default_16 default_32 push_bit_of_1)
  have eq: "h_w h = w" "prim_poly h = prim_poly (scratch (galois_default w))" "h_w (scratch (galois_default w)) = w"
    using pp(1) default_width [OF assms] by (simp_all add: h_def)
  have wf: "wf_field h" "h_primitive h"
  proof -
    have "wf_field (scratch (galois_default w))" "h_primitive (scratch (galois_default w))"
      using assms wf_default_8 wf_default_16 wf_default_32 default_8 default_16 default_32 by (auto simp: gf_correct_def)
    then show "wf_field h" "h_primitive h" unfolding wf_field_def h_primitive_def eq by blast+
  qed
  obtain F f btd where F: "gf_init_hard (int w) GF_MULT_BYTWO_b GF_REGION_DEFAULT GF_DIVIDE_DEFAULT (scast (low_poly w)) 0 0 None = Inr F"
    "gf_correct F" "scratch F = h" "bytwo_ok w (field_poly h) btd" "multiply_region F = Some f" "f \<in> bytwo_region_of w btd"
    using bytwo_init [OF _ _ pp(2) h_def wf] assms by auto
  have e: "gf_elem w 2" "w div 8 dvd 8" using assms by (auto simp: gf_elem_def)
  have "doubles w F"
    unfolding doubles_def
  proof (intro allI impI, elim conjE)
    fix d8 and a :: nat and d :: "u8 list" assume d: "w div 8 dvd length d" "8 dvd a" "16 \<le> length d \<or> 16 dvd a"
    have "w div 8 dvd a" using e(2) d(2) by (rule dvd_trans)
    then show "gf_multiply_region F d8 a a 2 False d d =
        Some (d8, region_map (w div 8) (word_product (scratch (galois_default w)) 2 False) d d)"
      using bytwo_multiply_region [OF F(2) _ _ _ F(5,6) e(1) refl d(1) _ refl d(3), of d8 False] F(3,4) wf(1) eq
      by (simp add: word_product_def [abs_def])
  qed
  then show ?thesis using F(1) by blast
qed

section \<open>The steps of the encoder\<close>

lemma region_multby_2:
  assumes "w \<in> {8, 16, 32}" "jst_ok st" "by2_ok fs" "d < length (dev st)" "length (dev st ! d) = sz" "w div 8 dvd sz"
    and "16 \<le> sz \<or> 16 dvd addr st d"
  shows "\<exists>fs' st'. region_multby_2 w d sz (fs, st) = Some (fs', st') \<and> by2_ok fs' \<and>
    replaced st d (region_map (w div 8) (word_product (scratch (galois_default w)) 2 False) (dev st ! d) (dev st ! d)) st'"
proof -
  let ?x = "region_map (w div 8) (word_product (scratch (galois_default w)) 2 False) (dev st ! d) (dev st ! d)"
  have addr: "8 dvd addr st d" using assms(2) by (simp add: jst_ok_def)
  have go: "obind (dev_read u d 0 sz) (\<lambda>x. obind (gf_multiply_region F (lazy_data u) (addr u d) (addr u d) 2 False x x) (\<lambda>(d8, x).
      Some (fs', dev_write d 0 x u))) = Some (fs', dev_write d 0 ?x u)"
    if "doubles w F" "dev u = dev st" "addr u = addr st" for u F fs'
    using that assms(4-7) addr by (simp add: dev_read_whole doubles_def)
  have rep: "replaced st d ?x (dev_write d 0 ?x u)" if "jst_ok u" "dev u = dev st" "addr u = addr st" for u
    using that by (simp add: replaced_def dev_write_def jst_ok_def patch_whole)
  show ?thesis
  proof (cases "prim (fs w) = - 1")
    case True
    obtain g where g: "galois_field True (gal st) w = Some (g, galois_default w)" "gal_ok g"
      using galois_field_ok [of "gal st" w] assms(1,2) by (auto simp: jst_ok_def)
    have nz: "push_bit (w - 1) (1 :: u32) \<noteq> 0" using assms(1) by (auto simp: push_bit_eq_mult)
    have "the (multiply (galois_default w)) (push_bit (w - 1) 1) 2 = low_poly w"
      using low_poly_product [OF assms(1)] nz by (simp add: galois_single_multiply_def)
    then have m: "galois_single_multiply_st True (gal st) (push_bit (w - 1) 1) 2 w = Some (g, low_poly w)"
      using g nz assms(1) by (auto simp: galois_single_multiply_st_def)
    obtain F where F: "gf_init_hard (int w) GF_MULT_BYTWO_b GF_REGION_DEFAULT GF_DIVIDE_DEFAULT (scast (low_poly w)) 0 0 None = Inr F"
      "doubles w F" using by2_init [OF assms(1)] by blast
    let ?fs = "fs(w := \<lparr>prim = low_poly w, by2_gf = Some F\<rparr>)" and ?u = "st\<lparr>gal := g\<rparr>"
    have "region_multby_2 w d sz (fs, st) = Some (?fs, dev_write d 0 ?x ?u)"
      using go [OF F(2), of ?u ?fs] by (simp add: region_multby_2_def True m [unfolded One_nat_def] F(1))
    moreover have "by2_ok ?fs" using assms(3) F(2) by (auto simp: by2_ok_def)
    moreover have "replaced st d ?x (dev_write d 0 ?x ?u)" using assms(2) g(2) by (intro rep) (auto simp: jst_ok_def)
    ultimately show ?thesis by blast
  next
    case False
    then obtain F where F: "by2_gf (fs w) = Some F" "doubles w F" using assms(1,3) by (auto simp: by2_ok_def)
    have "region_multby_2 w d sz (fs, st) = Some (fs, dev_write d 0 ?x st)"
      using go [OF F(2), of st fs] by (simp add: region_multby_2_def False F(1))
    then show ?thesis using rep [of st] assms(2,3) by blast
  qed
qed

context region_field
begin

lemma region_xor_whole:
  assumes "jst_ok st" "src < length (dev st)" "dst < length (dev st)" "length (dev st ! src) = sz"
    "length (dev st ! dst) = sz" "n dvd sz"
  shows "\<exists>st'. galois_region_xor src 0 dst 0 sz st = Some st' \<and>
     replaced st dst (region_map n (word_product (scratch F) 1 True) (dev st ! src) (dev st ! dst)) st'"
  using counted_xor_whole [OF assms] by (auto simp: counted_xor_def replaced_def jst_ok_def)

text \<open>A device holds the given words.\<close>

definition holds :: "jstate \<Rightarrow> nat \<Rightarrow> nat \<Rightarrow> (nat \<Rightarrow> u32) \<Rightarrow> jstate \<Rightarrow> bool" where
  "holds st d sz t st' \<longleftrightarrow> (\<exists>x. replaced st d x st' \<and> length x = sz \<and> (\<forall>i. n * i + n \<le> sz \<longrightarrow> wordv x i = t i))"

lemma holds_other: "holds st d sz t st' \<Longrightarrow> e \<noteq> d \<Longrightarrow> dev st' ! e = dev st ! e"
  by (auto simp: holds_def replaced_def)

lemma holds_copy:
  assumes "jst_ok st" "src < length (dev st)" "dst < length (dev st)" "length (dev st ! src) = sz" "length (dev st ! dst) = sz"
  shows "\<exists>st'. dev_memcpy dst 0 src 0 sz st = Some st' \<and> holds st dst sz (wordv (dev st ! src)) st'"
  using assms unfolding holds_def
  by (auto simp: dev_memcpy_def dev_read_whole dev_write_def replaced_def jst_ok_def patch_whole
      intro!: exI [of _ "dev st ! src"])

lemma holds_xor:
  assumes "holds st dst sz t st'" "src < length (dev st)" "dst < length (dev st)" "src \<noteq> dst" "length (dev st ! src) = sz"
    "n dvd sz"
  shows "\<exists>st''. galois_region_xor src 0 dst 0 sz st' = Some st'' \<and>
    holds st dst sz (\<lambda>i. t i XOR wordv (dev st ! src) i) st''"
proof -
  obtain x where x: "replaced st dst x st'" "length x = sz" "\<forall>i. n * i + n \<le> sz \<longrightarrow> wordv x i = t i"
    using assms(1) by (auto simp: holds_def)
  have d: "dev st' ! dst = x" "dev st' ! src = dev st ! src" "length (dev st') = length (dev st)" "jst_ok st'"
    using x(1) assms(3,4) by (auto simp: replaced_def)
  obtain st'' where st'': "galois_region_xor src 0 dst 0 sz st' = Some st''"
    "replaced st' dst (region_map n (word_product (scratch F) 1 True) (dev st ! src) x) st''"
    using region_xor_whole [of st' src dst sz] d x(2) assms(2-6) by auto
  have "wordv (region_map n (word_product (scratch F) 1 True) (dev st ! src) x) i = t i XOR wordv (dev st ! src) i"
    if "n * i + n \<le> sz" for i
    using wordv_product [of i x "dev st ! src" 1 True] that x(2,3) assms(5) elem_1 elem_wordv [of i "dev st ! src"] mult_1 by simp
  then show ?thesis using st'' replaced_trans [OF x(1) st''(2)] x(2) by (auto simp: holds_def)
qed

lemma holds_double:
  assumes "holds st d sz t st'" "by2_ok fs" "d < length (dev st)" "n dvd sz" "16 \<le> sz \<or> 16 dvd addr st d"
  shows "\<exists>fs' st''. region_multby_2 w d sz (fs, st') = Some (fs', st'') \<and> by2_ok fs' \<and>
    holds st d sz (\<lambda>i. galois_single_multiply F 2 (t i)) st''"
proof -
  obtain x where x: "replaced st d x st'" "length x = sz" "\<forall>i. n * i + n \<le> sz \<longrightarrow> wordv x i = t i"
    using assms(1) by (auto simp: holds_def)
  have d: "dev st' ! d = x" "length (dev st') = length (dev st)" "jst_ok st'" "addr st' = addr st"
    using x(1) assms(3) by (auto simp: replaced_def)
  have w: "w div 8 = n" using word_size(2) by simp
  obtain fs' st'' where m: "region_multby_2 w d sz (fs, st') = Some (fs', st'')" "by2_ok fs'"
    "replaced st' d (region_map n (word_product (scratch F) 2 False) x x) st''"
    using region_multby_2 [OF code_size d(3) assms(2), of d sz] d assms(3-5) x(2) w default by auto
  have "felem F 2" using code_size word_size(1) by (auto simp: gf_elem_def)
  then have "wordv (region_map n (word_product (scratch F) 2 False) x x) i = galois_single_multiply F 2 (t i)"
    if "n * i + n \<le> sz" for i
    using wordv_product [of i x x 2 False] that x(2,3) by simp
  then show ?thesis using m replaced_trans [OF x(1) m(3)] x(2) by (auto simp: holds_def)
qed

lemma r6_horner_step:
  assumes "holds st (k + 1) sz t st'" "by2_ok fs" "k + 1 < length (dev st)" "n dvd sz" "16 \<le> sz \<or> 16 dvd addr st (k + 1)"
    and "i < k" "length (dev st ! i) = sz"
  shows "\<exists>fs' st''. r6_horner_step k w sz i (fs, st') = Some (fs', st'') \<and> by2_ok fs' \<and>
    holds st (k + 1) sz (\<lambda>l. galois_single_multiply F 2 (t l) XOR wordv (dev st ! i) l) st''"
proof -
  obtain fs' u where u: "region_multby_2 w (k + 1) sz (fs, st') = Some (fs', u)" "by2_ok fs'"
    "holds st (k + 1) sz (\<lambda>i. galois_single_multiply F 2 (t i)) u"
    using holds_double [OF assms(1-5)] by blast
  obtain st'' where st'': "galois_region_xor i 0 (k + 1) 0 sz u = Some st''"
    "holds st (k + 1) sz (\<lambda>l. galois_single_multiply F 2 (t l) XOR wordv (dev st ! i) l) st''"
    using holds_xor [OF u(3), of i] assms(3,4,6,7) by auto
  have "r6_horner_step k w sz i (fs, st') = obind (region_multby_2 w (k + 1) sz (fs, st')) (\<lambda>(fs, st).
      map_option (Pair fs) (galois_region_xor i 0 (k + 1) 0 sz st))"
    using code_size unfolding r6_horner_step_def reed_sol_galois_w08_region_multby_2_def
      reed_sol_galois_w16_region_multby_2_def reed_sol_galois_w32_region_multby_2_def by auto
  then show ?thesis using u(1,2) st'' by simp
qed

lemma r6_horner_loop:
  assumes "by2_ok fs" "k + 1 < length (dev st)" "n dvd sz" "16 \<le> sz \<or> 16 dvd addr st (k + 1)"
    and "\<forall>i<k. length (dev st ! i) = sz" "m \<le> k"
    and "holds st (k + 1) sz (\<lambda>l. horner (galois_single_multiply F) (map (\<lambda>j. wordv (dev st ! j) l) [m..<k]) 2) st'"
  shows "\<exists>fs' st''. ofold (r6_horner_step k w sz) (rev [0..<m]) (fs, st') = Some (fs', st'') \<and> by2_ok fs' \<and>
    holds st (k + 1) sz (\<lambda>l. horner (galois_single_multiply F) (map (\<lambda>j. wordv (dev st ! j) l) [0..<k]) 2) st''"
  using assms(1,6,7)
proof (induction m arbitrary: fs st')
  case (Suc m)
  obtain fs1 st1 where 1: "r6_horner_step k w sz m (fs, st') = Some (fs1, st1)" "by2_ok fs1"
    "holds st (k + 1) sz (\<lambda>l. galois_single_multiply F 2
        (horner (galois_single_multiply F) (map (\<lambda>j. wordv (dev st ! j) l) [Suc m..<k]) 2) XOR wordv (dev st ! m) l) st1"
    using r6_horner_step [OF Suc.prems(3,1) assms(2-4), of m] Suc.prems(2) assms(5) by auto
  have "[m..<k] = m # [Suc m..<k]" using Suc.prems(2) by (simp add: upt_rec)
  then have "holds st (k + 1) sz (\<lambda>l. horner (galois_single_multiply F) (map (\<lambda>j. wordv (dev st ! j) l) [m..<k]) 2) st1"
    using 1(3) by (simp add: xor.commute)
  from Suc.IH [OF 1(2) _ this] Suc.prems(2) 1(1) show ?case by simp
qed auto

lemma r6_parity_loop:
  assumes "length (dev st) = k + 2" "\<forall>d<k + 2. length (dev st ! d) = sz" "n dvd sz" "0 < k"
    and "holds st k sz (wordv (dev st ! 0)) st'"
  shows "\<exists>st''. ofold (\<lambda>i st. galois_region_xor i 0 k 0 sz st) [1..<k] st' = Some st'' \<and>
    holds st k sz (\<lambda>l. xsum k (\<lambda>j. wordv (dev st ! j) l)) st''"
proof (rule ofold_upt_inv [where P = "\<lambda>i. holds st k sz (\<lambda>l. xsum i (\<lambda>j. wordv (dev st ! j) l))"])
  fix i s assume i: "1 \<le> i" "i < k" and s: "holds st k sz (\<lambda>l. xsum i (\<lambda>j. wordv (dev st ! j) l)) s"
  then show "\<exists>s'. galois_region_xor i 0 k 0 sz s = Some s' \<and> holds st k sz (\<lambda>l. xsum (Suc i) (\<lambda>j. wordv (dev st ! j) l)) s'"
    using holds_xor [OF s, of i] assms(1-3) by simp
qed (use assms in auto)

lemma r6_encode:
  assumes ok: "jst_ok st" "by2_ok fs" "0 < k" and len: "length (dev st) = k + 2" "\<forall>d<k + 2. length (dev st ! d) = sz" "n dvd sz"
    and al: "16 \<le> sz \<or> 16 dvd addr st (k + 1)"
    and mat: "\<forall>j<k. matrix ! j = 1 \<and> matrix ! (k + j) = powers 2 j"
  shows "\<exists>fs' st'. reed_sol_r6_encode k w sz (fs, st) = Some (1, fs', st') \<and> by2_ok fs' \<and> jst_ok st' \<and> addr st' = addr st \<and>
    encoded F n k 2 matrix sz (dev st') \<and> take k (dev st') = take k (dev st)"
proof -
  obtain st1 where st1: "dev_memcpy k 0 0 0 sz st = Some st1" "holds st k sz (wordv (dev st ! 0)) st1"
    using holds_copy [OF ok(1), of 0 k sz] len by auto
  obtain st2 where st2: "ofold (\<lambda>i st. galois_region_xor i 0 k 0 sz st) [1..<k] st1 = Some st2"
    "holds st k sz (\<lambda>l. xsum k (\<lambda>j. wordv (dev st ! j) l)) st2"
    using r6_parity_loop [OF len ok(3) st1(2)] by blast
  have d2: "jst_ok st2" "addr st2 = addr st" "length (dev st2) = k + 2" "\<forall>d<k + 2. length (dev st2 ! d) = sz"
    "\<forall>j<k. dev st2 ! j = dev st ! j" "\<forall>i. n * i + n \<le> sz \<longrightarrow> wordv (dev st2 ! k) i = xsum k (\<lambda>j. wordv (dev st ! j) i)"
    using st2(2) len by (auto simp: holds_def replaced_def nth_list_update)
  obtain st3 where st3: "dev_memcpy (k + 1) 0 (k - 1) 0 sz st2 = Some st3" "holds st2 (k + 1) sz (wordv (dev st2 ! (k - 1))) st3"
  proof -
    have "k - 1 < k + 2" by linarith
    then show thesis using holds_copy [OF d2(1), of "k - 1" "k + 1" sz] d2(3,4) that by auto
  qed
  have one: "[k - 1..<k] = [k - 1]" using ok(3) by (simp add: upt_rec)
  have h3: "holds st2 (k + 1) sz (\<lambda>l. horner (galois_single_multiply F) (map (\<lambda>j. wordv (dev st2 ! j) l) [k - 1..<k]) 2) st3"
    using st3(2) code_size word_size(1) unfolding one by (auto simp: galois_single_multiply_def)
  obtain fs' st4 where st4: "ofold (r6_horner_step k w sz) (rev [0..<k - 1]) (fs, st3) = Some (fs', st4)" "by2_ok fs'"
    "holds st2 (k + 1) sz (\<lambda>l. horner (galois_single_multiply F) (map (\<lambda>j. wordv (dev st2 ! j) l) [0..<k]) 2) st4"
    using r6_horner_loop [OF ok(2) _ len(3) _ _ _ h3] d2(2-4) al by auto
  have enc: "reed_sol_r6_encode k w sz (fs, st) = Some (1, fs', st4)"
    using st1(1) st2(1) st3(1) st4(1) ok(3) code_size by (auto simp: reed_sol_r6_encode_def)
  have d4: "jst_ok st4" "addr st4 = addr st" "length (dev st4) = k + 2" "\<forall>d<k + 2. length (dev st4 ! d) = sz"
    "\<forall>j<k. dev st4 ! j = dev st ! j" "dev st4 ! k = dev st2 ! k"
    using st4(3) d2 by (auto simp: holds_def replaced_def nth_list_update)
  have last: "wordv (dev st4 ! (k + 1)) i = horner (galois_single_multiply F) (map (\<lambda>j. wordv (dev st ! j) i) [0..<k]) 2"
    if "n * i + n \<le> sz" for i
  proof -
    have eq: "map (\<lambda>j. wordv (dev st2 ! j) i) [0..<k] = map (\<lambda>j. wordv (dev st ! j) i) [0..<k]" using d2(5) by simp
    show ?thesis unfolding eq [symmetric] using st4(3) d2(3) that by (auto simp: holds_def replaced_def)
  qed
  have el: "\<forall>j<k. felem F (wordv (dev st ! j) i)" if "n * i + n \<le> sz" for i using that len elem_wordv by simp
  have e2: "felem F 2" using code_size word_size(1) by (auto simp: gf_elem_def)
  have row2: "horner (galois_single_multiply F) (map (\<lambda>j. wordv (dev st ! j) i) [0..<k]) 2 =
      xsum k (\<lambda>j. galois_single_multiply F (powers 2 j) (wordv (dev st ! j) i))" if "n * i + n \<le> sz" for i
  proof -
    let ?z = "\<lambda>j. if j < k then wordv (dev st ! j) i else 0"
    have m: "map (\<lambda>j. wordv (dev st ! j) i) [0..<k] = map ?z [0..<k]" by simp
    have s: "xsum k (\<lambda>j. galois_single_multiply F (powers 2 j) (wordv (dev st ! j) i)) =
        xsum k (\<lambda>j. galois_single_multiply F (powers 2 j) (?z j))" by (rule xsum_cong) simp
    have "\<forall>c. felem F (?z c)" using el [OF that] elem_0 by simp
    then show ?thesis unfolding m s by (rule powers_horner [OF _ e2, symmetric])
  qed
  have "codeword F k matrix (\<lambda>j. wordv (dev st4 ! j) i) d = wordv (dev st4 ! d) i" if dk: "d < k + 2" "n * i + n \<le> sz" for d i
  proof -
    have cw: "codeword F k matrix (\<lambda>j. wordv (dev st4 ! j) i) d = codeword F k matrix (\<lambda>j. wordv (dev st ! j) i) d"
      unfolding codeword_def using d4(5) by (intro xsum_cong) simp
    consider "d < k" | "d = k" | "d = k + 1" using dk(1) by linarith
    then show ?thesis
    proof cases
      case 1
      then show ?thesis unfolding cw using codeword_data el dk(2) d4(5) by auto
    next
      case 2
      then show ?thesis unfolding cw using d2(6) d4(6) dk(2) el [OF dk(2)] mat
        by (auto simp: codeword_def gen_row_def mult_1 intro!: xsum_cong)
    next
      case 3
      then show ?thesis unfolding cw using last [OF dk(2)] row2 [OF dk(2)] mat
        by (auto simp: codeword_def gen_row_def intro!: xsum_cong)
    qed
  qed
  then have "encoded F n k 2 matrix sz (dev st4)" using d4(3,4) by (simp add: encoded_def)
  moreover have "take k (dev st4) = take k (dev st)" using d4(3,5) len(1) by (intro nth_equalityI) auto
  ultimately show ?thesis using enc st4(2) d4(1,2) by blast
qed

end

section \<open>The code\<close>

lemma encoded_unique:
  assumes "region_field F w n" "encoded F n k m matrix sz D" "encoded F n k m matrix sz E" "take k D = take k E" "n dvd sz"
  shows "D = E"
proof (rule nth_equalityI)
  have len: "length D = k + m" "length E = k + m" using assms(2,3) by (auto simp: encoded_def)
  then show "length D = length E" by simp
  have data: "D ! j = E ! j" if "j < k" for j using assms(4) that by (metis nth_take)
  fix d assume "d < length D"
  then have d: "d < k + m" using len by simp
  have w: "8 * n \<le> 32" "0 < n" using region_field.word_size [OF assms(1)] by auto
  have "le_load n (D ! d) (n * i) = (le_load n (E ! d) (n * i) :: u32)" if "n * i + n \<le> sz" for i
  proof -
    have "codeword F k matrix (\<lambda>j. le_load n (D ! j) (n * i)) d = codeword F k matrix (\<lambda>j. le_load n (E ! j) (n * i)) d"
      unfolding codeword_def using data by (intro xsum_cong) simp
    then show ?thesis using assms(2,3) d that by (simp add: encoded_def)
  qed
  then show "D ! d = E ! d"
    using w assms(2,3,5) d by (intro bytes_eqI [of _ _ n]) (auto simp: encoded_def)
qed

definition devices4 :: jstate where
  "devices4 = devices3\<lparr>dev := [[1, 2, 3, 4], [5, 6, 7, 8], [0, 0, 0, 0], [0, 0, 0, 0]]\<rparr>"

lemma devices4_ok: "devices_ok 2 2 16 4 devices4"
proof -
  have "\<forall>d<2 + 2. length (dev devices4 ! d) = 4" by (simp add: devices4_def All_less_Suc numeral_eq_Suc)
  moreover have "jst_ok devices4" using devices3_ok [of 16] by (simp add: devices_ok_def jst_ok_def devices4_def)
  ultimately show ?thesis by (simp add: devices_ok_def) (simp add: devices4_def)
qed

text \<open>
  C4: for words of 8, 16 and 32 bits and fewer than 2^w data devices,
  \<open>reed_sol_r6_encode\<close> returns 1 and leaves the devices exactly as \<open>jerasure_matrix_encode\<close>
  does with the matrix of \<open>reed_sol_r6_coding_matrix\<close>, whatever fields its static variables
  hold already; after the loss of any two devices \<open>jerasure_matrix_decode\<close> with that matrix
  returns 0 and every device has its contents back.
\<close>

theorem r6_code_survives:
  assumes "w \<in> {8, 16, 32}" "0 < k" "k < 2 ^ w" "devices_ok k 2 w sz st" "by2_ok fs" "16 \<le> sz \<or> 16 dvd addr st (k + 1)"
  shows "\<exists>matrix fs1 st1 st1'. reed_sol_r6_coding_matrix (galois_default w) k w = Some (Some matrix) \<and>
    reed_sol_r6_encode k w sz (fs, st) = Some (1, fs1, st1) \<and> by2_ok fs1 \<and>
    jerasure_matrix_encode k 2 w matrix sz st = Some st1' \<and> dev st1 = dev st1' \<and> take k (dev st1) = take k (dev st) \<and>
    (\<forall>st2 xs ys. devices_ok k 2 w sz st2 \<and> (\<forall>e\<in>set xs. e \<noteq> - 1 \<and> unat e < k + 2) \<and> card (unat ` set xs) \<le> 2 \<and>
       (\<forall>d<k + 2. d \<notin> unat ` set xs \<longrightarrow> dev st2 ! d = dev st1 ! d) \<longrightarrow>
       (\<exists>st3. jerasure_matrix_decode k 2 w matrix True (xs @ - 1 # ys) sz st2 = Some (0, st3) \<and> dev st3 = dev st1))"
proof -
  note cf = correct_field_default [OF assms(1)]
  have rf: "region_field (galois_default w) w (w div 8)" using assms(1) by (rule region_field_default)
  obtain matrix where m: "reed_sol_r6_coding_matrix (galois_default w) k w = Some (Some matrix)"
    "coding_matrix (galois_default w) k 2 matrix" "square_regular (galois_default w) k 2 matrix" "rows_nonzero k 2 matrix"
    "\<forall>j<k. matrix ! j = 1 \<and> matrix ! (k + j) = gf_arith.powers (galois_single_multiply (galois_default w)) 2 j"
    using correct_field.r6_coding_matrix [OF cf _ assms(1-3)] default_width [OF assms(1)] by auto
  have mok: "matrix_ok k 2 w matrix" using m(2,4) assms(1) by (simp add: matrix_ok_def)
  obtain fs1 st1 where st1: "reed_sol_r6_encode k w sz (fs, st) = Some (1, fs1, st1)" "by2_ok fs1"
    "encoded (galois_default w) (w div 8) k 2 matrix sz (dev st1)" "take k (dev st1) = take k (dev st)"
    using region_field.r6_encode [OF rf _ assms(5,2) _ _ _ assms(6) m(5)] assms(4) by (auto simp: devices_ok_def)
  obtain st1' where st1': "jerasure_matrix_encode k 2 w matrix sz st = Some st1'" "take k (dev st1') = take k (dev st)"
    "encoded (galois_default w) (w div 8) k 2 matrix sz (dev st1')"
    using encode_default [OF mok assms(4)] by blast
  have "w div 8 dvd sz" using assms(4) by (simp add: devices_ok_def)
  then have eq: "dev st1 = dev st1'" using encoded_unique [OF rf st1(3) st1'(3)] st1(4) st1'(2) by simp
  have "\<exists>st3. jerasure_matrix_decode k 2 w matrix True (xs @ - 1 # ys) sz st2 = Some (0, st3) \<and> dev st3 = dev st1"
    if "devices_ok k 2 w sz st2 \<and> (\<forall>e\<in>set xs. e \<noteq> - 1 \<and> unat e < k + 2) \<and> card (unat ` set xs) \<le> 2 \<and>
       (\<forall>d<k + 2. d \<notin> unat ` set xs \<longrightarrow> dev st2 ! d = dev st1 ! d)" for st2 xs ys
    using that m(5) by (intro decode_any_loss [OF mok _ _ m(3) st1(3)]) auto
  then show ?thesis using m(1) st1(1,2,4) st1'(1) eq by blast
qed

theorem r6_code_survives_witness:
  "\<exists>matrix fs1 st1. reed_sol_r6_coding_matrix (galois_default 16) 2 16 = Some (Some matrix) \<and>
    reed_sol_r6_encode 2 16 4 (by2_start, devices4) = Some (1, fs1, st1) \<and> take 2 (dev st1) = [[1, 2, 3, 4], [5, 6, 7, 8]]"
proof -
  have by2: "by2_ok by2_start" by (simp add: by2_ok_def by2_start_def)
  have d: "take 2 (dev devices4) = [[1, 2, 3, 4], [5, 6, 7, 8]]" "16 dvd addr devices4 (2 + 1)"
    by (simp_all add: devices4_def devices3_def)
  have n: "(16 :: nat) \<in> {8, 16, 32}" "(0 :: nat) < 2" "(2 :: nat) < 2 ^ 16" by simp_all
  show ?thesis using r6_code_survives [OF n devices4_ok by2 disjI2 [OF d(2)]] d(1) by metis
qed

end
