(* ===== verification/Liberation.thy ===== *)
theory Liberation
  imports Jer_Bits
begin

text \<open>
  liberation.c: bit matrices for two coding devices that are made directly.  None is NULL; as
  only k at most w is accepted, no index is out of range.
\<close>

text \<open>The loop that sets up the identity matrices of the first coding device.\<close>

definition identity_blocks :: "nat \<Rightarrow> nat \<Rightarrow> u32 list \<Rightarrow> u32 list" where
  "identity_blocks k w matrix =
    fold (\<lambda>i matrix. fst (fold (\<lambda>j (matrix, index). (matrix[index := 1], index + w)) [0..<k] (matrix, i * k * w + i)))
      [0..<w] matrix"

definition liberation_block :: "nat \<Rightarrow> nat \<Rightarrow> nat \<Rightarrow> u32 list \<Rightarrow> u32 list" where
  "liberation_block k w j matrix =
    (let index = k * w * w + j * w;
         matrix = fst (fold (\<lambda>i (matrix, index). (matrix[index + (j + i) mod w := 1], index + k * w)) [0..<w] (matrix, index))
     in if j > 0
        then let i = (j * ((w - 1) div 2)) mod w
             in matrix[k * w * w + j * w + i * k * w + (i + j - 1) mod w := 1]
        else matrix)"

definition liberation_coding_bitmatrix :: "nat \<Rightarrow> nat \<Rightarrow> u32 list option" where
  "liberation_coding_bitmatrix k w =
    (if k > w then None
     else Some (fold (liberation_block k w) [0..<k] (identity_blocks k w (replicate (2 * k * w * w) 0))))"

text \<open>
  The ones of the eight blocks of 8 times 8 bits, as rows and columns; after each block the
  source returns if it was the last of k.
\<close>

definition liber8tion_ones :: "(nat \<times> nat) list list" where
  "liber8tion_ones =
   [[(0, 0), (1, 1), (2, 2), (3, 3), (4, 4), (5, 5), (6, 6), (7, 7)],
    [(0, 7), (1, 3), (2, 0), (3, 2), (4, 6), (5, 1), (6, 5), (7, 4), (4, 7)],
    [(0, 6), (1, 2), (2, 4), (3, 0), (4, 7), (5, 3), (6, 1), (7, 5), (1, 3)],
    [(0, 2), (1, 5), (2, 7), (3, 6), (4, 0), (5, 3), (6, 4), (7, 1), (5, 4)],
    [(0, 5), (1, 6), (2, 1), (3, 7), (4, 2), (5, 4), (6, 3), (7, 0), (2, 0)],
    [(0, 1), (1, 2), (2, 3), (3, 4), (4, 5), (5, 6), (6, 7), (7, 0), (7, 2)],
    [(0, 3), (1, 0), (2, 6), (3, 5), (4, 1), (5, 7), (6, 4), (7, 2), (6, 5)],
    [(0, 4), (1, 7), (2, 1), (3, 5), (4, 3), (5, 2), (6, 0), (7, 6), (3, 1)]]"

definition liber8tion_coding_bitmatrix :: "nat \<Rightarrow> u32 list option" where
  "liber8tion_coding_bitmatrix k =
    (let w = 8 in
     if k > w then None
     else let index = k * w * w
          in Some (fold (\<lambda>j. fold (\<lambda>(r, c) matrix. matrix[index + r * k * w + j * w + c := 1]) (liber8tion_ones ! j)) [0..<k]
               (identity_blocks k w (replicate (2 * k * w * w) 0))))"

definition blaum_roth_block :: "nat \<Rightarrow> nat \<Rightarrow> nat \<Rightarrow> u32 list \<Rightarrow> u32 list" where
  "blaum_roth_block k w j matrix =
    (let p = w + 1; index = k * w * w + j * w
     in if j = 0
        then fst (fold (\<lambda>l (matrix, index). (matrix[index + l := 1], index + k * w)) [0..<w] (matrix, index))
        else let i = j
             in fst (fold (\<lambda>l (matrix, index).
                  (if l \<noteq> p - i
                   then let m = l + i; m = (if m \<ge> p then m - p else m); m = m - 1 in matrix[index + m := 1]
                   else let matrix = matrix[index + i - 1 := 1];
                            m = (if i mod 2 = 0 then i div 2 else p div 2 + 1 + i div 2);
                            m = m - 1
                        in matrix[index + m := 1], index + k * w)) [1..<w + 1] (matrix, index)))"

definition blaum_roth_coding_bitmatrix :: "nat \<Rightarrow> nat \<Rightarrow> u32 list option" where
  "blaum_roth_coding_bitmatrix k w =
    (if k > w then None
     else Some (fold (blaum_roth_block k w) [0..<k] (identity_blocks k w (replicate (2 * k * w * w) 0))))"

end
