(* ===== verification/Cyclic.thy ===== *)
theory Cyclic
  imports Prelude
begin

text \<open>
  Arithmetic modulo a prime, and the kernels of sums of two cyclic shifts with an extra bit each:
  what makes the codes of liberation.c survive two losses.  A vector of bits is a predicate on
  its indices.
\<close>

section \<open>Multiples of a number modulo a prime\<close>

definition is_prime :: "nat \<Rightarrow> bool" where
  "is_prime p \<longleftrightarrow> 1 < p \<and> (\<forall>d. d dvd p \<longrightarrow> d = 1 \<or> d = p)"

lemma prime_coprime:
  assumes "is_prime p" "0 < d" "d < p"
  shows "coprime p d"
proof -
  have "gcd p d dvd p" "gcd p d dvd d" by simp_all
  moreover have "gcd p d \<noteq> p"
  proof
    assume "gcd p d = p"
    then have "p dvd d" by (metis gcd_dvd2)
    then show False using assms(2,3) dvd_imp_le [of p d] by simp
  qed
  ultimately have "gcd p d = 1" using assms(1) by (auto simp: is_prime_def)
  then show ?thesis by (simp add: coprime_iff_gcd_eq_1)
qed

lemma prime_dvd_cancel:
  assumes "is_prime p" "0 < d" "d < p" "p dvd s * d"
  shows "p dvd s"
  using prime_coprime [OF assms(1-3)] assms(4) by (simp add: coprime_dvd_mult_left_iff)

lemma prime_mod_cancel:
  assumes "is_prime p" "0 < d" "d < p" "(a + s * d) mod p = (a + t * d) mod p" "s < p" "t < p"
  shows "s = t"
proof -
  have *: "s = t" if "s \<le> t" "(a + s * d) mod p = (a + t * d) mod p" "t < p" for s t
  proof -
    have "p dvd (a + t * d) - (a + s * d)"
      using that(1,2) by (intro mod_eq_dvd_iff_nat [THEN iffD1]) auto
    then have "p dvd (t - s) * d" by (simp add: diff_mult_distrib)
    then have "p dvd t - s" by (rule prime_dvd_cancel [OF assms(1-3)])
    then show ?thesis using that(1,3) dvd_imp_le [of p "t - s"] by fastforce
  qed
  show ?thesis
  proof (cases "s \<le> t")
    case True
    then show ?thesis using * assms(4,6) by blast
  next
    case False
    then show ?thesis using * [of t s] assms(4,5) by simp
  qed
qed

lemma prime_negative:
  assumes "is_prime p" "0 < d" "d < p"
  obtains s where "0 < s" "s < p" "p dvd s * d + 1"
proof -
  have g: "gcd p d = 1" using prime_coprime [OF assms] by (simp add: coprime_iff_gcd_eq_1)
  obtain x y where "p * x = d * y + gcd p d" using bezout_nat [of p d] assms by auto
  then have "p dvd d * y + 1" using g by (metis dvd_triv_left)
  moreover have "(d * y + 1) mod p = (y mod p * d + 1) mod p"
    by (metis mod_add_left_eq mod_mult_left_eq mult.commute)
  ultimately have d: "p dvd y mod p * d + 1" by (simp add: dvd_eq_mod_eq_0)
  moreover have "1 < p" using assms(1) by (simp add: is_prime_def)
  ultimately have "y mod p \<noteq> 0" by (metis add_0 mult_0 nat_dvd_1_iff_1 nat_neq_iff)
  then show ?thesis using that [of "y mod p"] d \<open>1 < p\<close> by simp
qed

lemma prime_multiples:
  assumes "is_prime p" "0 < d" "d < p" "y < p"
  shows "\<exists>s. (a + s * d) mod p = y"
proof -
  obtain s where s: "p dvd s * d + 1" using prime_negative [OF assms(1-3)] by blast
  define t where "t = a + (p - 1) * y"
  have "a + s * t * d + p * y + t = a + p * y + t * (s * d + 1)" by (simp add: algebra_simps)
  moreover have "(p - 1) * y + y = p * y" using assms(4) by (cases p) simp_all
  then have "a + p * y = t + y" by (simp add: t_def)
  ultimately have "a + s * t * d + p * y + t = y + t * (s * d + 1) + t" by simp
  then have "a + s * t * d + p * y = y + t * (s * d + 1)" by linarith
  then have "(a + s * t * d) mod p = (y + t * (s * d + 1)) mod p" by (metis mod_mult_self2)
  also have "\<dots> = y mod p" using s by (metis dvd_mult mod_add_right_eq mod_0_imp_dvd dvd_imp_mod_0 add_0_right)
  finally show ?thesis using assms(4) by (metis mod_less)
qed

lemma prime_odd:
  assumes "is_prime p" "2 < p"
  shows "odd p"
proof
  assume "even p"
  then have "(2 :: nat) = 1 \<or> 2 = p" using assms(1) unfolding is_prime_def by blast
  then show False using assms(2) by simp
qed

section \<open>Liberation codes\<close>

text \<open>
  Bit l of the product of block j with b: a cyclic shift by j and one more bit.
\<close>

definition liberation_row :: "nat \<Rightarrow> nat \<Rightarrow> nat \<Rightarrow> (nat \<Rightarrow> bool) \<Rightarrow> bool" where
  "liberation_row w j l b =
    (b ((j + l) mod w) \<noteq> (0 < j \<and> l = (j * ((w - 1) div 2)) mod w \<and> b ((l + j - 1) mod w)))"

lemma liberation_kernel_one:
  assumes "1 < w" "\<forall>l<w. \<not> liberation_row w j l b"
  shows "\<forall>y<w. \<not> b y"
proof -
  let ?a = "(j * ((w - 1) div 2)) mod w"
  have a: "?a < w" using assms(1) by simp
  have others: "\<not> b ((j + l) mod w)" if "l < w" "l \<noteq> ?a" for l
    using assms(2) that unfolding liberation_row_def by blast
  have "\<not> b ((j + ?a) mod w)"
  proof (cases "0 < j")
    case True
    define l where "l = (?a + (w - 1)) mod w"
    have "(j + l) mod w = (j + (?a + (w - 1))) mod w" unfolding l_def by (simp add: mod_add_right_eq)
    also have "\<dots> = (?a + j - 1 + w) mod w" using True assms(1) by (simp add: algebra_simps)
    finally have jl: "(j + l) mod w = (?a + j - 1) mod w" by simp
    have "l \<noteq> ?a"
    proof (cases "?a = 0")
      case True
      then show ?thesis using assms(1) by (simp add: l_def)
    next
      case False
      then have "?a + (w - 1) = ?a - 1 + w" using assms(1) by linarith
      then have "l = (?a - 1) mod w" unfolding l_def by (metis mod_add_self2)
      then have "l = ?a - 1" using a by (metis diff_le_self le_less_trans mod_less)
      then show ?thesis using False by linarith
    qed
    moreover have "l < w" using assms(1) by (simp add: l_def)
    ultimately have "\<not> b ((?a + j - 1) mod w)" using others jl by metis
    moreover have "\<not> liberation_row w j ?a b" using assms(2) a by blast
    ultimately show ?thesis unfolding liberation_row_def by blast
  next
    case False
    have "\<not> liberation_row w j ?a b" using assms(2) a by blast
    then show ?thesis using False unfolding liberation_row_def by blast
  qed
  then have all: "\<not> b ((j + l) mod w)" if "l < w" for l using others that by blast
  show ?thesis
  proof (intro allI impI)
    fix y assume y: "y < w"
    define l where "l = (y + j * (w - 1)) mod w"
    have "(j + l) mod w = (j + (y + j * (w - 1))) mod w" unfolding l_def by (simp add: mod_add_right_eq)
    also have "j + (y + j * (w - 1)) = y + j * w" using assms(1) by (cases w) (auto simp: algebra_simps)
    finally have "(j + l) mod w = y" using y by simp
    then show "\<not> b y" using all [of l] assms(1) by (simp add: l_def)
  qed
qed

text \<open>
  The difference d of two blocks generates all positions; along them the two extra bits are the
  only changes, half a turn apart.
\<close>

lemma chain_const:
  fixes U :: "nat \<Rightarrow> bool"
  assumes "\<And>s. a \<le> s \<Longrightarrow> s < c \<Longrightarrow> U (Suc s) = U s" "a \<le> s" "s \<le> c"
  shows "U s = U a"
  using assms(2,3)
proof (induction s rule: dec_induct)
  case (step s)
  then show ?case using assms(1) [of s] by simp
qed simp

lemma liberation_kernel_two:
  assumes p: "is_prime w" "2 < w" and ij: "i < j" "j < w" and eq: "\<forall>l<w. liberation_row w i l b = liberation_row w j l b"
  shows "\<forall>y<w. \<not> b y"
proof -
  define q d e where "q = (w - 1) div 2" and "d = j - i" and "e = q + 1"
  have w: "w = 2 * q + 1" "0 < q" "q < w" using p(2) prime_odd [OF p] by (auto simp: q_def elim!: oddE)
  have d: "0 < d" "d < w" "j = i + d" using ij by (simp_all add: d_def)
  define B where "B n = b (n mod w)" for n
  define U where "U s = B (e * i + s * d)" for s
  define \<alpha> \<beta> where "\<alpha> = (0 < i \<and> B (e * i - 1))" and "\<beta> = B (e * j - 1)"
  have U_mod: "U s = U t" if "s mod w = t mod w" for s t
    unfolding U_def B_def using that by (metis mod_add_right_eq mod_mult_left_eq)
  have row: "liberation_row w c (L mod w) b = (B (c + L) \<noteq> (0 < c \<and> L mod w = (c * q) mod w \<and> B (e * c - 1)))" for c L
  proof -
    have "B (L mod w + c - 1) = B (e * c - 1)" if "0 < c" "L mod w = (c * q) mod w"
    proof -
      have "L mod w + c - 1 = L mod w + (c - 1)" using that(1) by simp
      moreover have "e * c - 1 = c * q + (c - 1)" using that(1) by (simp add: e_def mult.commute)
      ultimately show ?thesis unfolding B_def by (metis that(2) mod_add_left_eq)
    qed
    then show ?thesis unfolding liberation_row_def q_def [symmetric] B_def by (auto simp: mod_add_right_eq)
  qed
  have step: "(U s \<noteq> (s = 0 \<and> \<alpha>)) = (U (Suc s) \<noteq> (s = q \<and> \<beta>))" if s: "s < w" for s
  proof -
    let ?L = "q * i + s * d"
    have idx: "i + ?L = e * i + s * d" "j + ?L = e * i + Suc s * d" by (simp_all add: e_def d(3))
    have at_i: "?L mod w = (i * q) mod w \<longleftrightarrow> s = 0"
      using prime_mod_cancel [OF p(1) d(1,2), of "q * i" s 0] s w(3) by (auto simp: mult.commute)
    have at_j: "?L mod w = (j * q) mod w \<longleftrightarrow> s = q"
      using prime_mod_cancel [OF p(1) d(1,2), of "q * i" s q] s w(3) by (auto simp: d(3) algebra_simps)
    have "liberation_row w i (?L mod w) b = liberation_row w j (?L mod w) b" using eq w(3) by simp
    then show ?thesis unfolding row at_i at_j idx U_def \<alpha>_def \<beta>_def using d by auto
  qed
  have low: "U s = (U 0 \<noteq> \<alpha>)" if "1 \<le> s" "s \<le> q" for s
  proof -
    have "U (Suc t) = U t" if "1 \<le> t" "t < q" for t using step [of t] that w by auto
    then have "U s = U 1" by (rule chain_const [OF _ that])
    then show ?thesis using step [of 0] w by auto
  qed
  have high: "U s = ((U 0 \<noteq> \<alpha>) \<noteq> \<beta>)" if "q + 1 \<le> s" "s \<le> w" for s
  proof -
    have "U (Suc t) = U t" if "q + 1 \<le> t" "t < w" for t using step [of t] that w by auto
    then have "U s = U (q + 1)" by (rule chain_const [OF _ that])
    moreover have "U q = (U 0 \<noteq> \<alpha>)" using low [of q] w(2) by simp
    ultimately show ?thesis using step [of q] w by auto
  qed
  have "U w = U 0" by (rule U_mod) simp
  then have \<alpha>\<beta>: "\<alpha> = \<beta>" using high [of w] w by auto
  obtain s0 where s0: "0 < s0" "s0 < w" "w dvd s0 * d + 1" by (rule prime_negative [OF p(1) d(1,2)])
  have \<beta>: "\<beta> = U (e + s0)"
  proof -
    have "e * j - 1 + (s0 * d + 1) = e * i + (e + s0) * d" using d by (simp add: algebra_simps e_def)
    then show ?thesis unfolding \<beta>_def U_def B_def by (metis s0(3) dvd_eq_mod_eq_0 mod_add_right_eq add_0_right)
  qed
  have \<alpha>: "\<alpha> = U s0" if "0 < i"
  proof -
    have "e * i - 1 + (s0 * d + 1) = e * i + s0 * d" using that by (simp add: algebra_simps e_def)
    then have "B (e * i - 1) = U s0"
      unfolding U_def B_def by (metis s0(3) dvd_eq_mod_eq_0 mod_add_right_eq add_0_right)
    then show ?thesis using that by (simp add: \<alpha>_def)
  qed
  have U: "U s = (if 1 \<le> s mod w \<and> s mod w \<le> q then U 0 \<noteq> \<alpha> else U 0)" for s
  proof -
    have "s mod w < w" using w by simp
    then have "U (s mod w) = (if 1 \<le> s mod w \<and> s mod w \<le> q then U 0 \<noteq> \<alpha> else U 0)"
      using low [of "s mod w"] high [of "s mod w"] \<alpha>\<beta> by (cases "s mod w = 0") auto
    then show ?thesis using U_mod [of s "s mod w"] by simp
  qed
  have zero: "\<not> \<alpha> \<and> \<not> U 0"
  proof (cases "0 < i")
    case False
    then have "\<not> \<alpha>" by (simp add: \<alpha>_def)
    then have "U (e + s0) = U 0" unfolding U [of "e + s0"] by simp
    then show ?thesis using \<open>\<not> \<alpha>\<close> \<alpha>\<beta> \<beta> by simp
  next
    case True
    note \<alpha> = \<alpha> [OF True]
    show ?thesis
    proof (cases "s0 \<le> q")
      case True
      have "U s0 = (U 0 \<noteq> \<alpha>)" using low [of s0] s0(1) True by simp
      then have "\<not> U 0" using \<alpha> by auto
      moreover have "U (e + s0) = U 0"
      proof (cases "e + s0 = w")
        case True
        then show ?thesis using U_mod [of w 0] by simp
      next
        case False
        then have "e + s0 < w" "q < e + s0" using True w by (simp_all add: e_def)
        then show ?thesis using U [of "e + s0"] by simp
      qed
      ultimately show ?thesis using \<beta> \<alpha>\<beta> by auto
    next
      case False
      have "U s0 = U 0" using U [of s0] False s0(2) by simp
      moreover have "e + s0 = s0 - q + w" "1 \<le> s0 - q" "s0 - q \<le> q" using False s0(2) w by (simp_all add: e_def)
      then have "U (e + s0) = (U 0 \<noteq> \<alpha>)" using U_mod [of "e + s0" "s0 - q"] low [of "s0 - q"] by (metis mod_add_self2)
      ultimately show ?thesis using \<alpha> \<beta> \<alpha>\<beta> by auto
    qed
  qed
  then have "\<not> U s" for s unfolding U [of s] by simp
  then show ?thesis using prime_multiples [OF p(1) d(1,2)] unfolding U_def B_def by metis
qed

section \<open>Blaum-Roth codes\<close>

text \<open>
  Here w + 1 is the prime, and the bits are numbered from 1: the shift by j has no bit for the
  position 0, and takes the bit j and the half of j modulo the prime for it.
\<close>

definition half :: "nat \<Rightarrow> nat \<Rightarrow> nat" where
  "half p j = (if j mod 2 = 0 then j div 2 else p div 2 + 1 + j div 2)"

definition blaum_roth_row :: "nat \<Rightarrow> nat \<Rightarrow> nat \<Rightarrow> (nat \<Rightarrow> bool) \<Rightarrow> bool" where
  "blaum_roth_row w j l b =
    (if j = 0 then b l
     else if l + 1 \<noteq> w + 1 - j then b ((l + 1 + j) mod (w + 1) - 1)
     else b (j - 1) \<noteq> b (half (w + 1) j - 1))"

lemma half:
  assumes "odd p" "0 < j" "j + 1 < p"
  shows "0 < half p j" "half p j < p" "half p j \<noteq> j" "(half p j + half p j) mod p = j"
proof -
  obtain q where q: "p = 2 * q + 1" using assms(1) by (auto elim: oddE)
  have "0 < half p j \<and> half p j < p \<and> half p j \<noteq> j \<and> (half p j + half p j) mod p = j"
  proof (cases "even j")
    case True
    then obtain r where "j = 2 * r" by blast
    then show ?thesis using assms(2,3) q by (auto simp: half_def)
  next
    case False
    then obtain r where r: "j = 2 * r + 1" by (auto elim: oddE)
    then have "half p j = q + 1 + r" using q by (simp add: half_def)
    moreover have "q + 1 + r + (q + 1 + r) = j + p" using r q by simp
    then have "(q + 1 + r + (q + 1 + r)) mod p = j" using assms(3) by simp
    ultimately show ?thesis using assms(3) q r by simp
  qed
  then show "0 < half p j" "half p j < p" "half p j \<noteq> j" "(half p j + half p j) mod p = j" by blast+
qed

lemma blaum_roth_kernel_one:
  assumes "odd (w + 1)" "j < w" "\<forall>l<w. \<not> blaum_roth_row w j l b"
  shows "\<forall>y<w. \<not> b y"
proof (cases "j = 0")
  case True
  then show ?thesis using assms(3) by (simp add: blaum_roth_row_def)
next
  case False
  then have h: "0 < half (w + 1) j" "half (w + 1) j < w + 1" "half (w + 1) j \<noteq> j"
    using half [OF assms(1), of j] assms(2) by simp_all
  have others: "\<not> b y" if y: "y < w" "y + 1 \<noteq> j" for y
  proof -
    define l where "l = (if j \<le> y then y - j else y + w + 1 - j)"
    have l: "l < w" "l + 1 \<noteq> w + 1 - j" using y assms(2) False by (auto simp: l_def)
    have "(l + 1 + j) mod (w + 1) = y + 1"
    proof (cases "j \<le> y")
      case True
      then have "l + 1 + j = y + 1" by (simp add: l_def)
      then show ?thesis using y(1) by simp
    next
      case False
      then have "l + 1 + j = y + 1 + (w + 1)" using assms(2) by (simp add: l_def)
      then show ?thesis using y(1) by (metis mod_add_self2 mod_less add_less_cancel_right)
    qed
    then show ?thesis using assms(3) l False by (auto simp: blaum_roth_row_def)
  qed
  have "\<not> b (half (w + 1) j - 1)" using others [of "half (w + 1) j - 1"] h by simp
  moreover have "w - j + 1 = w + 1 - j" using assms(2) by simp
  then have "blaum_roth_row w j (w - j) b = (b (j - 1) \<noteq> b (half (w + 1) j - 1))"
    using False unfolding blaum_roth_row_def by simp
  then have "b (j - 1) = b (half (w + 1) j - 1)" using assms(2,3) False by auto
  ultimately show ?thesis using others False by (metis Suc_eq_plus1 diff_Suc_1)
qed

lemma blaum_roth_kernel_two:
  assumes p: "is_prime (w + 1)" "2 < w + 1" and ij: "i < j" "j < w"
    and eq: "\<forall>l<w. blaum_roth_row w i l b = blaum_roth_row w j l b"
  shows "\<forall>y<w. \<not> b y"
proof -
  define P d where "P = w + 1" and "d = j - i"
  note p' = p [folded P_def]
  have odd: "odd P" by (rule prime_odd [OF p'])
  have d: "0 < d" "d < P" "j = i + d" using ij by (simp_all add: d_def P_def)
  define V where "V n = b (n mod P - 1)" for n
  define W where "W s = V (s * d)" for s
  have V: "V n = V m" if "n mod P = m mod P" for n m using that by (simp add: V_def)
  have row: "blaum_roth_row w c l b = (if c = 0 then V (l + 1) else if (l + 1 + c) mod P \<noteq> 0 then V (l + 1 + c) else V c \<noteq> V (half P c))"
    if "l < w" "c < w" for c l
  proof -
    have "(l + 1 + c) mod P = 0 \<longleftrightarrow> l + 1 = P - c"
    proof
      assume "(l + 1 + c) mod P = 0"
      then obtain z where z: "l + 1 + c = P * z" by auto
      have "z = 1"
      proof (rule ccontr)
        assume "z \<noteq> 1"
        then have "z = 0 \<or> 2 \<le> z" by linarith
        then have "P * z = 0 \<or> P * 2 \<le> P * z" using mult_le_mono2 [of 2 z P] by auto
        then show False using z that by (auto simp: P_def)
      qed
      then show "l + 1 = P - c" using z by simp
    next
      assume "l + 1 = P - c"
      then have "l + 1 + c = P" using that by (simp add: P_def)
      then show "(l + 1 + c) mod P = 0" by simp
    qed
    moreover have "c mod P = c" "(l + 1) mod P = l + 1" using that by (simp_all add: P_def)
    moreover have "half P c mod P = half P c" if "c \<noteq> 0" using half(2) [OF odd, of c] that \<open>c < w\<close> by (simp add: P_def)
    ultimately show ?thesis using that unfolding blaum_roth_row_def V_def P_def [symmetric] by auto
  qed
  define c where "c x = (V x \<noteq> V (half P x))" for x
  have step: "(if i \<noteq> 0 \<and> s = 0 then c i else W s) = (if Suc s = P then c j else W (Suc s))" if s: "s < P" "(s * d) mod P \<noteq> i" for s
  proof -
    define L where "L = (s * d + (P - i)) mod P"
    have i: "i < P" using ij by (simp add: P_def)
    have Li: "(L + i) mod P = (s * d) mod P"
    proof -
      have "(L + i) mod P = (s * d + (P - i) + i) mod P" unfolding L_def by (simp add: mod_add_left_eq)
      also have "s * d + (P - i) + i = s * d + P" using i by simp
      finally show ?thesis by simp
    qed
    then have Lj: "(L + j) mod P = (Suc s * d) mod P" using d(3) by (metis add.assoc add.commute mod_add_left_eq mult_Suc)
    have "L \<noteq> 0"
    proof
      assume "L = 0"
      then have "(s * d) mod P = i" using Li i by simp
      then show False using s(2) by contradiction
    qed
    moreover have "L < P" using i by (simp add: L_def)
    ultimately have l: "L - 1 < w" "L - 1 + 1 = L" by (simp_all add: P_def)
    have s0: "(s * d) mod P = 0 \<longleftrightarrow> s = 0"
      using prime_mod_cancel [OF p'(1) d(1,2), of 0 s 0] s(1) i by auto
    have s1: "(Suc s * d) mod P = 0 \<longleftrightarrow> Suc s = P"
    proof
      assume "(Suc s * d) mod P = 0"
      then have "P dvd Suc s * d" by (simp only: mod_eq_0_iff_dvd)
      then have "P dvd Suc s" by (rule prime_dvd_cancel [OF p'(1) d(1,2)])
      then show "Suc s = P" using s(1) dvd_imp_le [of P "Suc s"] by simp
    next
      assume "Suc s = P"
      then show "(Suc s * d) mod P = 0" by (simp del: mult_Suc)
    qed
    have v: "V (L + i) = W s" "V (L + j) = W (Suc s)" using V [OF Li] V [OF Lj] by (simp_all add: W_def)
    have "i < w" using ij by simp
    note rows = row [OF l(1) this, unfolded l(2) Li s0] row [OF l(1) ij(2), unfolded l(2) Lj s1]
    have "blaum_roth_row w i (L - 1) b = (if i \<noteq> 0 \<and> s = 0 then c i else W s)"
      unfolding rows(1) using v(1) by (cases "i = 0") (simp_all add: c_def)
    moreover have "blaum_roth_row w j (L - 1) b = (if Suc s = P then c j else W (Suc s))"
      unfolding rows(2) using v(2) ij(1) by (simp add: c_def)
    ultimately show ?thesis using eq l(1) by simp
  qed
  have hits: "\<exists>s. 0 < s \<and> s < P \<and> (s * d) mod P = y \<and> V y = W s" if y: "0 < y" "y < P" for y
  proof -
    obtain s where "(0 + s * d) mod P = y" using prime_multiples [OF p'(1) d(1,2) y(2)] by blast
    then have s: "(s mod P * d) mod P = y" by (simp add: mod_mult_left_eq)
    then have "s mod P \<noteq> 0" using y(1) by (metis mod_0 mult_0 less_irrefl)
    moreover have "V y = W (s mod P)" unfolding W_def by (rule V) (use s y(2) in simp)
    ultimately show ?thesis using s y by (intro exI [of _ "s mod P"]) simp
  qed
  have P2: "2 < P" using p'(2) .
  have W: "\<not> W s" if "0 < s" "s < P" for s
  proof (cases "i = 0")
    case True
    have nz: "(t * d) mod P \<noteq> i" if "1 \<le> t" "t < P" for t
      using prime_mod_cancel [OF p'(1) d(1,2), of 0 t 0] that True by auto
    have const: "W t = W 1" if "1 \<le> t" "t \<le> P - 1" for t
    proof (rule chain_const [OF _ that])
      fix t assume t: "1 \<le> t" "t < P - 1"
      then have "Suc t < P" by linarith
      then show "W (Suc t) = W t" using step [of t] nz [of t] t True by simp
    qed
    have h: "0 < half P j" "half P j < P" using half [OF odd, of j] ij by (simp_all add: P_def)
    obtain t u where "0 < t" "t < P" "V j = W t" "0 < u" "u < P" "V (half P j) = W u"
      using hits [of j] hits [OF h] ij by (auto simp: P_def)
    then have "\<not> c j" using const [of t] const [of u] by (simp add: c_def)
    moreover have "W (P - 1) = c j" using step [of "P - 1"] nz [of "P - 1"] True P2 by auto
    ultimately show ?thesis using const [of "P - 1"] const [of s] that P2 by simp
  next
    case False
    obtain si where si: "0 < si" "si < P" "(si * d) mod P = i" "V i = W si" using hits [of i] False ij by (auto simp: P_def)
    have sj: "(Suc si * d) mod P = j"
    proof -
      have "(Suc si * d) mod P = (i + d) mod P" using si(3) by (metis add.commute mod_add_left_eq mult_Suc)
      then show ?thesis using ij d(3) by (simp add: P_def)
    qed
    have "si \<noteq> P - 1"
    proof
      assume "si = P - 1"
      then have "Suc si = P" using P2 by simp
      then show False using sj ij by simp
    qed
    then have si2: "Suc si < P" using si(2) by linarith
    have nz: "(t * d) mod P \<noteq> i" if "t < P" "t \<noteq> si" for t
      using prime_mod_cancel [OF p'(1) d(1,2), of 0 t si] that si(2,3) by auto
    have low: "W t = W 1" if "1 \<le> t" "t \<le> si" for t
    proof (rule chain_const [OF _ that])
      fix t assume "1 \<le> t" "t < si"
      then show "W (Suc t) = W t" using step [of t] nz [of t] si2 by simp
    qed
    have high: "W t = W (Suc si)" if "Suc si \<le> t" "t \<le> P - 1" for t
    proof (rule chain_const [OF _ that])
      fix t assume t: "Suc si \<le> t" "t < P - 1"
      then have "Suc t < P" by linarith
      then show "W (Suc t) = W t" using step [of t] nz [of t] t by simp
    qed
    have "c i = W 1" using step [of 0] nz [of 0] si(1) False P2 by auto
    moreover have "W (P - 1) = c j" using step [of "P - 1"] nz [of "P - 1"] \<open>si \<noteq> P - 1\<close> P2 by auto
    moreover have "V j = W (Suc si)" unfolding W_def by (rule V) (use sj ij in \<open>simp add: P_def\<close>)
    moreover have "W si = W 1" "W (P - 1) = W (Suc si)" using low [of si] high [of "P - 1"] si(1) si2 by simp_all
    ultimately have halves: "\<not> V (half P i)" "\<not> V (half P j)" using si(4) by (auto simp: c_def)
    have hi: "0 < half P i" "half P i < P" "(half P i + half P i) mod P = i"
      "0 < half P j" "half P j < P" "(half P j + half P j) mod P = j"
      using half [OF odd, of i] half [OF odd, of j] ij False by (simp_all add: P_def)
    obtain \<sigma> where \<sigma>: "0 < \<sigma>" "\<sigma> < P" "(\<sigma> * d) mod P = half P i" "\<not> W \<sigma>" using hits [OF hi(1,2)] halves(1) by auto
    obtain \<tau> where \<tau>: "0 < \<tau>" "\<tau> < P" "(\<tau> * d) mod P = half P j" "\<not> W \<tau>" using hits [OF hi(4,5)] halves(2) by auto
    have double: "(t + t) mod P = u" if "(t * d) mod P = h" "(h + h) mod P = x" "(u * d) mod P = x" "u < P" for t h x u
    proof -
      have "((t + t) mod P * d) mod P = (t * d + t * d) mod P" by (simp add: mod_mult_left_eq distrib_right)
      also have "\<dots> = x" using that(1,2) by (metis mod_add_eq)
      finally show ?thesis using prime_mod_cancel [OF p'(1) d(1,2), of 0 "(t + t) mod P" u] that(3,4) d(2) by simp
    qed
    have two: "t + t = u \<or> t + t = u + P" if "(t + t) mod P = u" "t < P" for t u
    proof (cases "t + t < P")
      case True
      then show ?thesis using that(1) by simp
    next
      case False
      then have "(t + t) mod P = t + t - P" using that(2) by (simp add: le_mod_geq)
      then show ?thesis using that(1) False by linarith
    qed
    have \<sigma>2: "\<sigma> + \<sigma> = si \<or> \<sigma> + \<sigma> = si + P" by (rule two [OF double [OF \<sigma>(3) hi(3) si(3,2)] \<sigma>(2)])
    have \<tau>2: "\<tau> + \<tau> = Suc si \<or> \<tau> + \<tau> = Suc si + P" by (rule two [OF double [OF \<tau>(3) hi(6) sj si2] \<tau>(2)])
    have "\<not> W 1 \<and> \<not> W (Suc si)"
    proof (cases "even si")
      case True
      then have "\<sigma> + \<sigma> = si" "\<tau> + \<tau> = Suc si + P" using \<sigma>2 \<tau>2 odd by presburger+
      then show ?thesis using low [of \<sigma>] high [of \<tau>] \<sigma> \<tau> si2 by auto
    next
      case False
      then have "\<sigma> + \<sigma> = si + P" "\<tau> + \<tau> = Suc si" using \<sigma>2 \<tau>2 odd by presburger+
      then show ?thesis using low [of \<tau>] high [of \<sigma>] \<sigma> \<tau> si2 by auto
    qed
    then show ?thesis using low [of s] high [of s] that by (cases "s \<le> si") auto
  qed
  show ?thesis
  proof (intro allI impI)
    fix y assume y: "y < w"
    then have "b y = V (y + 1)" by (simp add: V_def P_def)
    then show "\<not> b y" using hits [of "y + 1"] W y by (auto simp: P_def)
  qed
qed

end
