(* ===== verification/Liberation_Correct.thy ===== *)
theory Liberation_Correct
  imports Liberation Cyclic Samples
begin

text \<open>
  The bit matrices of liberation.c survive the loss of any two devices when w, or w + 1 for the
  codes of Blaum and Roth, is an odd prime, and for the eight blocks of the liber8tion code.
\<close>

section \<open>Which elements are set\<close>

definition sets_ones :: "(u32 list \<Rightarrow> u32 list) \<Rightarrow> nat set \<Rightarrow> bool" where
  "sets_ones f S \<longleftrightarrow> (\<forall>m. length (f m) = length m \<and> (\<forall>p<length m. f m ! p = (if p \<in> S then 1 else m ! p)))"

lemma sets_ones_update: "sets_ones (\<lambda>m. m[p := 1]) {p}"
  by (simp add: sets_ones_def nth_list_update)

lemma sets_ones_then: "sets_ones f S \<Longrightarrow> sets_ones g T \<Longrightarrow> sets_ones (\<lambda>m. g (f m)) (S \<union> T)"
  by (simp add: sets_ones_def)

lemma sets_ones_fold: "(\<And>i. i \<in> set xs \<Longrightarrow> sets_ones (f i) (S i)) \<Longrightarrow> sets_ones (fold f xs) (\<Union>i\<in>set xs. S i)"
proof (induction xs)
  case (Cons x xs)
  then have "sets_ones (\<lambda>m. fold f xs (f x m)) (S x \<union> (\<Union>i\<in>set xs. S i))" by (intro sets_ones_then) simp_all
  then show ?case by (simp add: comp_def)
qed (simp add: sets_ones_def)

text \<open>A loop that carries the index along.\<close>

lemma fold_index:
  "a \<le> b \<Longrightarrow> fold (\<lambda>l (m, ix). (f l ix m, ix + st)) [a..<b] (m, ix) =
    (fold (\<lambda>l m. f l (ix + (l - a) * st) m) [a..<b] m, ix + (b - a) * st)"
proof (induction b rule: dec_induct)
  case (step b)
  then show ?case by (simp add: Suc_diff_le)
qed simp

lemma sets_ones_index:
  assumes "\<And>l. a \<le> l \<Longrightarrow> l < b \<Longrightarrow> sets_ones (f l (ix + (l - a) * st)) (S l)"
  shows "sets_ones (\<lambda>m. fst (fold (\<lambda>l (m, ix). (f l ix m, ix + st)) [a..<b] (m, ix))) (\<Union>l\<in>{a..<b}. S l)"
proof (cases "a \<le> b")
  case True
  have "sets_ones (fold (\<lambda>l m. f l (ix + (l - a) * st) m) [a..<b]) (\<Union>l\<in>set [a..<b]. S l)"
    by (rule sets_ones_fold) (use assms in auto)
  moreover have "(\<lambda>m. fst (fold (\<lambda>l (m, ix). (f l ix m, ix + st)) [a..<b] (m, ix))) = fold (\<lambda>l m. f l (ix + (l - a) * st) m) [a..<b]"
    by (rule ext) (simp only: fold_index [OF True] fst_conv)
  ultimately show ?thesis by (simp only: set_upt)
qed (simp add: sets_ones_def)

text \<open>The elements of block j of a coding device that a predicate selects.\<close>

definition block_ones :: "nat \<Rightarrow> nat \<Rightarrow> nat \<Rightarrow> nat \<Rightarrow> (nat \<Rightarrow> nat \<Rightarrow> bool) \<Rightarrow> nat set" where
  "block_ones k w i j X = {block_index k w i j l y |l y. l < w \<and> y < w \<and> X l y}"

lemma sets_ones_identity: "sets_ones (identity_blocks k w) (\<Union>j<k. block_ones k w 0 j (=))"
proof -
  have "sets_ones (fold (\<lambda>i matrix. fst (fold (\<lambda>j (matrix, index). (matrix[index := 1], index + w)) [0..<k] (matrix, i * k * w + i)))
      [0..<w]) (\<Union>i\<in>set [0..<w]. \<Union>j\<in>{0..<k}. {i * k * w + i + (j - 0) * w})"
    by (intro sets_ones_fold sets_ones_index sets_ones_update)
  moreover have "(\<Union>i\<in>set [0..<w]. \<Union>j\<in>{0..<k}. {i * k * w + i + (j - 0) * w}) = (\<Union>j<k. block_ones k w 0 j (=))"
  proof -
    have "i * k * w + i + (j - 0) * w = block_index k w 0 j i i" for i j by (simp add: block_index_def algebra_simps)
    then show ?thesis by (auto simp: block_ones_def atLeast0LessThan)
  qed
  ultimately show ?thesis by (simp add: identity_blocks_def [abs_def])
qed

lemma blocks_entry:
  assumes bm: "bm = fold block [0..<k] (identity_blocks k w (replicate (2 * k * w * w) 0))"
    and block: "\<And>j. j < k \<Longrightarrow> sets_ones (block j) (block_ones k w 1 j (X j))"
    and i: "i < 2" "j < k" "l < w" "y < w"
  shows "bm ! block_index k w i j l y = of_bool (if i = 0 then l = y else X j l y)" "length bm = 2 * k * w * w" "bits bm"
proof -
  have "sets_ones (\<lambda>m. fold block [0..<k] (identity_blocks k w m))
      ((\<Union>j<k. block_ones k w 0 j (=)) \<union> (\<Union>j\<in>set [0..<k]. block_ones k w 1 j (X j)))"
    by (intro sets_ones_then sets_ones_identity sets_ones_fold block) simp
  then have e: "length bm = 2 * k * w * w" "\<And>p. p < 2 * k * w * w \<Longrightarrow>
      bm ! p = (if p \<in> (\<Union>j<k. block_ones k w 0 j (=)) \<union> (\<Union>j<k. block_ones k w 1 j (X j)) then 1 else 0)"
    unfolding bm sets_ones_def by (auto simp: atLeast0LessThan)
  show "length bm = 2 * k * w * w" by (rule e)
  show "bits bm" using e by (auto simp: bits_def in_set_conv_nth split: if_split_asm)
  have lt: "block_index k w i j l y < 2 * k * w * w" using block_index_lt [OF i(1,2,4,3)] by (simp add: mult.commute)
  have "block_index k w i j l y \<in> (\<Union>j<k. block_ones k w 0 j (=)) \<union> (\<Union>j<k. block_ones k w 1 j (X j)) \<longleftrightarrow>
      (if i = 0 then l = y else X j l y)"
    using i(1) block_index_eq [OF i(2,4,3)] i(2-4) unfolding block_ones_def by (auto 0 3 split: if_splits)
  then show "bm ! block_index k w i j l y = of_bool (if i = 0 then l = y else X j l y)"
    using e(2) [OF lt] by simp
qed

lemma block_ones_or: "block_ones k w i j (\<lambda>l y. P l y \<or> Q l y) = block_ones k w i j P \<union> block_ones k w i j Q"
  unfolding block_ones_def by blast

lemma block_ones_row: "(\<And>l. l < w \<Longrightarrow> h l < w) \<Longrightarrow> block_ones k w i j (\<lambda>l y. y = h l) = (\<Union>l\<in>{0..<w}. {block_index k w i j l (h l)})"
  unfolding block_ones_def by auto

lemma block_ones_one: "a < w \<Longrightarrow> c < w \<Longrightarrow> block_ones k w i j (\<lambda>l y. (P \<and> l = a) \<and> y = c) = (if P then {block_index k w i j a c} else {})"
  unfolding block_ones_def by auto

section \<open>Two coding devices\<close>

lemma xsum_pair:
  fixes g :: "nat \<Rightarrow> u32"
  assumes "a < k" "c < k" "a \<noteq> c" "\<And>j. j < k \<Longrightarrow> j \<noteq> a \<Longrightarrow> j \<noteq> c \<Longrightarrow> g j = 0"
  shows "xsum k g = g a XOR g c"
proof -
  have "xsum k g = xsum k (\<lambda>j. (if j = a then g j else 0) XOR (if j = c then g j else 0))"
    using assms(3,4) by (intro xsum_cong) auto
  then show ?thesis using assms(1,2) by (simp only: xsum_xor xsum_delta if_True)
qed

text \<open>
  A code with the parity and one more row of blocks, whose products with bits are given by R,
  survives two losses when no block and no sum of two blocks maps other bits than zero to zero.
\<close>

lemma raid6_bit_mds:
  fixes R :: "nat \<Rightarrow> nat \<Rightarrow> (nat \<Rightarrow> bool) \<Rightarrow> bool"
  assumes parity: "\<And>j l y. j < k \<Longrightarrow> l < w \<Longrightarrow> y < w \<Longrightarrow> bm ! block_index k w 0 j l y = of_bool (l = y)"
    and rows: "\<And>j l b. j < k \<Longrightarrow> l < w \<Longrightarrow> xsum w (\<lambda>y. bm ! block_index k w 1 j l y AND of_bool (b y)) = of_bool (R j l b)"
    and one: "\<And>j b. j < k \<Longrightarrow> \<forall>l<w. \<not> R j l b \<Longrightarrow> \<forall>y<w. \<not> b y"
    and two: "\<And>i j b. i < j \<Longrightarrow> j < k \<Longrightarrow> \<forall>l<w. R i l b = R j l b \<Longrightarrow> \<forall>y<w. \<not> b y"
  shows "bit_mds k 2 w bm"
  unfolding bit_mds_def bit_regular_def
proof (intro allI impI, elim conjE)
  fix f A x c
  assume f: "inj_on f {..<k}" and A: "device_rows k 2 w bm f A" and c: "c < k * w"
    and x: "\<forall>c. x c \<in> {0, 1 :: u32}" "\<forall>r<k * w. xsum (k * w) (\<lambda>c. mf (k * w) A r c AND x c) = 0"
  define b where "b d y \<longleftrightarrow> y < w \<and> x (d * w + y) = 1" for d y
  have xb: "x (d * w + y) = of_bool (b d y)" if "y < w" for d y
    using x(1) [rule_format, of "d * w + y"] that by (auto simp: b_def)
  have row: "xsum k (\<lambda>j. xsum w (\<lambda>y. gen_row (k * w) bm (f i * w + l) (j * w + y) AND of_bool (b j y))) = 0"
    if i: "i < k" "l < w" for i l
  proof -
    have "xsum k (\<lambda>j. xsum w (\<lambda>y. gen_row (k * w) bm (f i * w + l) (j * w + y) AND of_bool (b j y))) =
        xsum k (\<lambda>j. xsum w (\<lambda>y. mf (k * w) A (i * w + l) (j * w + y) AND x (j * w + y)))"
      using A i mat_index_lt [of _ k _ w] by (intro xsum_cong) (simp add: device_rows_def xb)
    also have "\<dots> = xsum (k * w) (\<lambda>c. mf (k * w) A (i * w + l) c AND x c)" by (rule xsum_nested)
    finally show ?thesis using x(2) mat_index_lt [OF i] by simp
  qed
  have data: "\<not> b d l" if i: "i < k" "f i = d" "d < k" and l: "l < w" for i d l
  proof -
    have dl: "d * w + l < k * w" using mat_index_lt [OF i(3) l] .
    have "xsum (k * w) (\<lambda>c. gen_row (k * w) bm (d * w + l) c AND x c) = 0"
      using row [OF i(1) l] xsum_nested [of k w "\<lambda>c. gen_row (k * w) bm (d * w + l) c AND x c", symmetric] i(2)
      by (simp add: xb cong: xsum_cong)
    then have "x (d * w + l) = 0"
      using dl xsum_single [OF dl, of "\<lambda>c. gen_row (k * w) bm (d * w + l) c AND x c"] x(1) [rule_format, of "d * w + l"]
      by (auto simp: gen_row_def)
    then show ?thesis by (simp add: b_def)
  qed
  have sum0: "xsum k (\<lambda>j. of_bool (b j l) :: u32) = 0" if i: "i < k" "f i = k" and l: "l < w" for i l
  proof -
    have "xsum w (\<lambda>y. gen_row (k * w) bm (k * w + l) (j * w + y) AND of_bool (b j y)) = of_bool (b j l)" if j: "j < k" for j
    proof -
      have "gen_row (k * w) bm (k * w + l) (j * w + y) = of_bool (l = y)" if "y < w" for y
        using parity [OF j l that] by (simp add: gen_row_def block_index_def)
      then show ?thesis using l by (subst xsum_single [OF l]) simp_all
    qed
    then show ?thesis using row [OF i(1) l] i(2) by (simp cong: xsum_cong)
  qed
  have sum1: "xsum k (\<lambda>j. of_bool (R j l (b j)) :: u32) = 0" if i: "i < k" "f i = k + 1" and l: "l < w" for i l
  proof -
    have "xsum w (\<lambda>y. gen_row (k * w) bm ((k + 1) * w + l) (j * w + y) AND of_bool (b j y)) = of_bool (R j l (b j))" if j: "j < k" for j
    proof -
      have "gen_row (k * w) bm ((k + 1) * w + l) (j * w + y) = bm ! block_index k w 1 j l y" if "y < w" for y
        using l by (simp add: gen_row_def block_index_def)
      then show ?thesis using rows [OF j l, of "b j"] by (simp cong: xsum_cong)
    qed
    then show ?thesis using row [OF i(1) l] i(2) by (simp cong: xsum_cong)
  qed
  have R0: "\<not> R j l (b j)" if "j < k" "l < w" "\<forall>y<w. \<not> b j y" for j l
  proof -
    have "xsum w (\<lambda>y. bm ! block_index k w 1 j l y AND of_bool (b j y)) = 0" using that(3) by (intro xsum_zeroI) simp
    then show ?thesis using rows [OF that(1,2), of "b j"] by simp
  qed
  define M where "M = {d. d < k \<and> (\<exists>y<w. b d y)}"
  have M: "M \<subseteq> {..<k}" "finite M" by (auto simp: M_def)
  have img: "f ` {..<k} \<subseteq> {..<k + 2} - M" using data A by (auto simp: M_def device_rows_def)
  have few: "card M + card S \<le> 2" if "S \<subseteq> {k, k + 1}" "S \<inter> f ` {..<k} = {}" for S
  proof -
    have S: "finite S" "M \<inter> S = {}" using M(1) that(1) finite_subset [OF that(1)] by (simp, fastforce)
    have "f ` {..<k} \<subseteq> {..<k + 2} - (M \<union> S)" using img that(2) by auto
    then have "card (f ` {..<k}) \<le> card ({..<k + 2} - (M \<union> S))" by (intro card_mono) auto
    moreover have "M \<union> S \<subseteq> {..<k + 2}" using M(1) that(1) by auto
    ultimately have "k \<le> k + 2 - card (M \<union> S)" "card (M \<union> S) \<le> k + 2"
      using card_image [OF f] card_mono [of "{..<k + 2}" "M \<union> S"] M(2) S(1) by (simp_all add: card_Diff_subset)
    then show ?thesis using card_Un_disjoint [OF M(2) S] by linarith
  qed
  have in_img: "k \<in> f ` {..<k} \<or> k + 1 \<in> f ` {..<k}" if "card M = 1" using few [of "{k, k + 1}"] that by auto
  have both: "k \<in> f ` {..<k} \<and> k + 1 \<in> f ` {..<k}" if "card M = 2" using few [of "{k}"] few [of "{k + 1}"] that by auto
  have z: "\<not> b j y" if "j < k" "j \<notin> M" "y < w" for j y using that by (auto simp: M_def)
  have "M = {}"
  proof (rule ccontr)
    assume "M \<noteq> {}"
    then have "card M \<noteq> 0" using M(2) by simp
    moreover have "card M \<le> 2" using few [of "{}"] by simp
    ultimately have "card M = 1 \<or> card M = 2" by linarith
    then consider "card M = 1" | "card M = 2" by blast
    then show False
    proof cases
      case 1
      then obtain d where d: "M = {d}" by (auto simp: card_1_singleton_iff)
      then have dk: "d < k" using M(1) by simp
      have "\<forall>y<w. \<not> b d y"
        using in_img [OF 1]
      proof
        assume "k \<in> f ` {..<k}"
        then obtain i where i: "i < k" "f i = k" by auto
        have "xsum k (\<lambda>j. of_bool (b j y) :: u32) = of_bool (b d y)" if "y < w" for y
          by (rule xsum_single [OF dk]) (use z that d in auto)
        then show ?thesis using sum0 [OF i] by (metis of_bool_eq_0_iff)
      next
        assume "k + 1 \<in> f ` {..<k}"
        then obtain i where i: "i < k" "f i = k + 1" by auto
        have "xsum k (\<lambda>j. of_bool (R j l (b j)) :: u32) = of_bool (R d l (b d))" if "l < w" for l
          by (rule xsum_single [OF dk]) (use z R0 that d in auto)
        then have "\<forall>l<w. \<not> R d l (b d)" using sum1 [OF i] by (metis of_bool_eq_0_iff)
        then show ?thesis by (rule one [OF dk])
      qed
      then show False using d by (auto simp: M_def)
    next
      case 2
      then obtain d e where de: "M = {d, e}" "d < e" by (metis card_2_iff insert_commute nat_neq_iff)
      then have dk: "d < k" "e < k" using M(1) by auto
      obtain i i' where i: "i < k" "f i = k" "i' < k" "f i' = k + 1" using both [OF 2] by auto
      have eq: "b d = b e"
      proof
        fix y
        have "xsum k (\<lambda>j. of_bool (b j y) :: u32) = of_bool (b d y) XOR of_bool (b e y)" if "y < w"
          by (rule xsum_pair [OF dk]) (use z that de in auto)
        then have "y < w \<Longrightarrow> b d y = b e y" using sum0 [OF i(1,2), of y] by (auto split: if_split_asm)
        then show "b d y = b e y" by (auto simp: b_def)
      qed
      have "\<forall>l<w. R d l (b d) = R e l (b d)"
      proof (intro allI impI)
        fix l assume l: "l < w"
        have "xsum k (\<lambda>j. of_bool (R j l (b j)) :: u32) = of_bool (R d l (b d)) XOR of_bool (R e l (b e))"
          by (rule xsum_pair [OF dk]) (use z R0 l de in auto)
        then show "R d l (b d) = R e l (b d)" using sum1 [OF i(3,4) l] eq by (auto split: if_split_asm)
      qed
      then have "\<forall>y<w. \<not> b d y" by (rule two [OF de(2) dk(2)])
      then show False using de by (auto simp: M_def)
    qed
  qed
  moreover have "0 < w" using c by (cases w) auto
  ultimately have "\<not> b (c div w) (c mod w)" using z [of "c div w" "c mod w"] c by (simp add: less_mult_imp_div_less)
  then show "x c = 0" using xb [of "c mod w" "c div w"] \<open>0 < w\<close> by simp
qed

text \<open>The contract of the three makers of bit matrices: which elements they set, and what a row of blocks computes.\<close>

lemma raid6_code:
  assumes bm: "bm = fold block [0..<k] (identity_blocks k w (replicate (2 * k * w * w) 0))" "0 < k" "0 < w"
    and block: "\<And>j. j < k \<Longrightarrow> sets_ones (block j) (block_ones k w 1 j (X j))"
    and rows: "\<And>j l b. j < k \<Longrightarrow> l < w \<Longrightarrow> xsum w (\<lambda>y. of_bool (X j l y) AND of_bool (b y) :: u32) = of_bool (R j l b)"
    and some: "\<And>l. l < w \<Longrightarrow> \<exists>y<w. X 0 l y"
    and one: "\<And>j b. j < k \<Longrightarrow> \<forall>l<w. \<not> R j l b \<Longrightarrow> \<forall>y<w. \<not> b y"
    and two: "\<And>i j b. i < j \<Longrightarrow> j < k \<Longrightarrow> \<forall>l<w. R i l b = R j l b \<Longrightarrow> \<forall>y<w. \<not> b y"
  shows "bitmatrix_ok k 2 w bm \<and> bit_mds k 2 w bm \<and> parity_block k w bm"
proof (intro conjI)
  note entry = blocks_entry [OF bm(1) block]
  have e: "bm ! block_index k w i j l y = of_bool (if i = 0 then l = y else X j l y)" if "i < 2" "j < k" "l < w" "y < w" for i j l y
    by (rule entry(1)) (use that in auto)
  have len: "length bm = 2 * w * (k * w)" using entry(2) [of 0 0 0 0] bm(2,3) by (simp add: algebra_simps)
  have "\<exists>c<k * w. bm ! (r * (k * w) + c) \<noteq> 0" if r: "r < 2 * w" for r
  proof -
    have i: "r div w < 2" "r mod w < w" using r bm(3) by (simp_all add: less_mult_imp_div_less)
    obtain y where "y < w" "bm ! block_index k w (r div w) 0 (r mod w) y \<noteq> 0"
      using e [OF i(1) bm(2) i(2)] some [OF i(2)] i(2) by (cases "r div w = 0") force+
    then show ?thesis using mat_index_lt [OF bm(2)] by (intro exI [of _ y]) (auto simp: block_index_def)
  qed
  then show "bitmatrix_ok k 2 w bm"
    using bm(2,3) len entry(3) [of 0 0 0 0] by (auto simp: bitmatrix_ok_def rows_nonzero_def)
  show "parity_block k w bm"
    unfolding parity_block_def
  proof (intro allI impI)
    fix l c assume l: "l < w" and c: "c < k * w"
    then have "bm ! block_index k w 0 (c div w) l (c mod w) = of_bool (l = c mod w)"
      using bm(3) by (subst e) (auto simp: less_mult_imp_div_less)
    then show "bm ! (l * (k * w) + c) = (if c mod w = l then 1 else 0)" by (auto simp: block_index_def)
  qed
  show "bit_mds k 2 w bm"
  proof (rule raid6_bit_mds)
    show "bm ! block_index k w 0 j l y = of_bool (l = y)" if "j < k" "l < w" "y < w" for j l y
      using e [of 0] that by simp
    show "xsum w (\<lambda>y. bm ! block_index k w 1 j l y AND of_bool (b y)) = of_bool (R j l b)" if "j < k" "l < w" for j l b
      using e [of 1] that rows [OF that, of b] by (simp cong: xsum_cong)
  qed (fact one two)+
qed

lemma xsum_one_or_two:
  assumes "a < w" "c < w" "P \<Longrightarrow> a \<noteq> c"
  shows "xsum w (\<lambda>y. of_bool (y = a \<or> P \<and> y = c) AND of_bool (b y) :: u32) = of_bool (b a \<noteq> (P \<and> b c))"
proof (cases P)
  case True
  have "xsum w (\<lambda>y. of_bool (y = a \<or> P \<and> y = c) AND of_bool (b y) :: u32) =
      (of_bool (a = a \<or> P \<and> a = c) AND of_bool (b a)) XOR (of_bool (c = a \<or> P \<and> c = c) AND of_bool (b c))"
    by (rule xsum_pair) (use assms True in auto)
  then show ?thesis using True by auto
next
  case False
  then show ?thesis by (subst xsum_single [OF assms(1)]) auto
qed

section \<open>The liberation codes\<close>

definition liberation_ones :: "nat \<Rightarrow> nat \<Rightarrow> nat \<Rightarrow> nat \<Rightarrow> bool" where
  "liberation_ones w j l y \<longleftrightarrow>
     y = (j + l) mod w \<or> (0 < j \<and> l = (j * ((w - 1) div 2)) mod w) \<and> y = (l + j - 1) mod w"

lemma sets_ones_liberation:
  assumes "0 < w"
  shows "sets_ones (liberation_block k w j) (block_ones k w 1 j (liberation_ones w j))"
proof -
  define a where "a = (j * ((w - 1) div 2)) mod w"
  have 1: "sets_ones (\<lambda>m. fst (fold (\<lambda>i (m, ix). (m[ix + (j + i) mod w := 1], ix + k * w)) [0..<w] (m, k * w * w + j * w)))
      (\<Union>l\<in>{0..<w}. {k * w * w + j * w + (l - 0) * (k * w) + (j + l) mod w})"
    by (intro sets_ones_index sets_ones_update)
  have 2: "sets_ones (\<lambda>m. if j > 0 then m[k * w * w + j * w + a * k * w + (a + j - 1) mod w := 1] else m)
      (if j > 0 then {k * w * w + j * w + a * k * w + (a + j - 1) mod w} else {})"
    by (simp add: sets_ones_update) (simp add: sets_ones_def)
  have "block_ones k w 1 j (liberation_ones w j) =
      (\<Union>l\<in>{0..<w}. {block_index k w 1 j l ((j + l) mod w)}) \<union> (if 0 < j then {block_index k w 1 j a ((a + j - 1) mod w)} else {})"
  proof -
    have "liberation_ones w j = (\<lambda>l y. y = (j + l) mod w \<or> (0 < j \<and> l = a) \<and> y = (a + j - 1) mod w)"
      by (auto simp: liberation_ones_def a_def fun_eq_iff)
    moreover have "a < w" using assms by (simp add: a_def)
    ultimately show ?thesis using assms by (simp only: block_ones_or block_ones_row block_ones_one mod_less_divisor)
  qed
  also have "\<dots> = (\<Union>l\<in>{0..<w}. {k * w * w + j * w + (l - 0) * (k * w) + (j + l) mod w}) \<union>
      (if j > 0 then {k * w * w + j * w + a * k * w + (a + j - 1) mod w} else {})"
    by (simp add: block_index_def algebra_simps)
  finally have "block_ones k w 1 j (liberation_ones w j) = \<dots>" .
  moreover have "liberation_block k w j = (\<lambda>m. (\<lambda>m. if j > 0 then m[k * w * w + j * w + a * k * w + (a + j - 1) mod w := 1] else m)
      (fst (fold (\<lambda>i (m, ix). (m[ix + (j + i) mod w := 1], ix + k * w)) [0..<w] (m, k * w * w + j * w))))"
    by (rule ext) (simp add: liberation_block_def a_def Let_def)
  ultimately show ?thesis using sets_ones_then [OF 1 2] by simp
qed

lemma liberation_code:
  assumes w: "is_prime w" "2 < w" and k: "0 < k" "k \<le> w" and bm: "liberation_coding_bitmatrix k w = Some bm"
  shows "bitmatrix_ok k 2 w bm \<and> bit_mds k 2 w bm \<and> parity_block k w bm"
proof (rule raid6_code)
  show "bm = fold (liberation_block k w) [0..<k] (identity_blocks k w (replicate (2 * k * w * w) 0))"
    using bm k(2) by (simp add: liberation_coding_bitmatrix_def)
  show "sets_ones (liberation_block k w j) (block_ones k w 1 j (liberation_ones w j))" for j
    using w(2) by (intro sets_ones_liberation) simp
  show "xsum w (\<lambda>y. of_bool (liberation_ones w j l y) AND of_bool (b y) :: u32) = of_bool (liberation_row w j l b)" for j l b
  proof -
    have "(j + l) mod w \<noteq> (l + j - 1) mod w" if "0 < j"
    proof -
      have "(j + l) mod w = Suc (l + j - 1) mod w" using that by (simp add: add.commute)
      then show ?thesis using mod_Suc [of "l + j - 1" w] w(2) by (auto split: if_splits)
    qed
    then show ?thesis unfolding liberation_ones_def liberation_row_def
      using w(2) by (subst xsum_one_or_two) auto
  qed
  show "\<exists>y<w. liberation_ones w 0 l y" for l
    using w(2) by (intro exI [of _ "l mod w"]) (simp add: liberation_ones_def)
  show "\<forall>y<w. \<not> b y" if "\<forall>l<w. \<not> liberation_row w j l b" for j b
    using liberation_kernel_one [OF _ that] w(2) by simp
  show "\<forall>y<w. \<not> b y" if "i < j" "j < k" "\<forall>l<w. liberation_row w i l b = liberation_row w j l b" for i j b
    using liberation_kernel_two [OF w that(1) _ that(3)] that(2) k(2) by simp
qed (use w k in auto)

section \<open>The codes of Blaum and Roth\<close>

definition blaum_roth_first :: "nat \<Rightarrow> nat \<Rightarrow> nat \<Rightarrow> nat" where
  "blaum_roth_first w j l =
    (if j = 0 then l else if l + 1 \<noteq> w + 1 - j then (l + 1 + j) mod (w + 1) - 1 else j - 1)"

definition blaum_roth_ones :: "nat \<Rightarrow> nat \<Rightarrow> nat \<Rightarrow> nat \<Rightarrow> bool" where
  "blaum_roth_ones w j l y \<longleftrightarrow> y = blaum_roth_first w j l \<or> (0 < j \<and> l = w - j) \<and> y = half (w + 1) j - 1"

lemma blaum_roth_first_lt: "l < w \<Longrightarrow> j < w \<Longrightarrow> blaum_roth_first w j l < w"
proof -
  assume w: "l < w" "j < w"
  have "(l + 1 + j) mod (w + 1) < w + 1" by simp
  then have "(l + 1 + j) mod (w + 1) - 1 < w" using w by linarith
  moreover have "j - 1 < w" using w by linarith
  ultimately show ?thesis using w by (simp add: blaum_roth_first_def)
qed

lemma blaum_roth_block_ones:
  assumes "odd (w + 1)" "j < w"
  shows "block_ones k w i j (blaum_roth_ones w j) = (\<Union>l\<in>{0..<w}. {block_index k w i j l (blaum_roth_first w j l)} \<union>
    (if 0 < j \<and> l = w - j then {block_index k w i j l (half (w + 1) j - 1)} else {}))"
proof -
  have c: "half (w + 1) j - 1 < w" if "0 < j" using half(1,2) [OF assms(1) that] assms(2) by simp
  have "block_ones k w i j (blaum_roth_ones w j) = block_ones k w i j (\<lambda>l y. y = blaum_roth_first w j l) \<union>
      block_ones k w i j (\<lambda>l y. (0 < j \<and> l = w - j) \<and> y = half (w + 1) j - 1)"
    unfolding blaum_roth_ones_def by (rule block_ones_or)
  moreover have "block_ones k w i j (\<lambda>l y. (0 < j \<and> l = w - j) \<and> y = half (w + 1) j - 1) =
      (\<Union>l\<in>{0..<w}. if 0 < j \<and> l = w - j then {block_index k w i j l (half (w + 1) j - 1)} else {})"
    using c assms(2) unfolding block_ones_def by (auto split: if_splits)
  ultimately show ?thesis using assms(2) by (simp only: block_ones_row blaum_roth_first_lt UN_Un_distrib)
qed

lemma sets_ones_blaum_roth:
  assumes "odd (w + 1)" "j < w"
  shows "sets_ones (blaum_roth_block k w j) (block_ones k w 1 j (blaum_roth_ones w j))"
proof (cases "j = 0")
  case True
  have "sets_ones (\<lambda>m. fst (fold (\<lambda>l (m, ix). (m[ix + l := 1], ix + k * w)) [0..<w] (m, k * w * w)))
      (\<Union>l\<in>{0..<w}. {k * w * w + (l - 0) * (k * w) + l})"
    by (intro sets_ones_index sets_ones_update)
  moreover have "(\<Union>l\<in>{0..<w}. {k * w * w + (l - 0) * (k * w) + l}) = block_ones k w 1 j (blaum_roth_ones w j)"
    using True unfolding blaum_roth_block_ones [OF assms] by (simp add: blaum_roth_first_def block_index_def algebra_simps)
  ultimately show ?thesis using True by (simp add: blaum_roth_block_def [abs_def] Let_def)
next
  case False
  define f :: "nat \<Rightarrow> nat \<Rightarrow> u32 list \<Rightarrow> u32 list" where "f l ix m = (if l \<noteq> w + 1 - j
      then m[ix + ((if l + j \<ge> w + 1 then l + j - (w + 1) else l + j) - 1) := 1]
      else m[ix + j - 1 := 1, ix + (half (w + 1) j - 1) := 1])" for l ix m
  define S where "S l = (\<lambda>ix. if l \<noteq> w + 1 - j
      then {ix + ((if l + j \<ge> w + 1 then l + j - (w + 1) else l + j) - 1)}
      else {ix + j - 1} \<union> {ix + (half (w + 1) j - 1)})" for l
  let ?ix = "k * w * w + j * w"
  have "sets_ones (f l ix) (S l ix)" for l ix
  proof (cases "l \<noteq> w + 1 - j")
    case True
    then show ?thesis unfolding f_def S_def by (simp only: if_True sets_ones_update not_False_eq_True)
  next
    case False
    then show ?thesis unfolding f_def S_def
      by (simp only: if_False not_True_eq_False) (intro sets_ones_then [of _ _ "\<lambda>m. m[_ := 1]"] sets_ones_update)
  qed
  then have "sets_ones (\<lambda>m. fst (fold (\<lambda>l (m, ix). (f l ix m, ix + k * w)) [1..<w + 1] (m, ?ix)))
      (\<Union>l\<in>{1..<w + 1}. S l (?ix + (l - 1) * (k * w)))"
    by (intro sets_ones_index)
  moreover have "(\<Union>l\<in>{1..<w + 1}. S l (?ix + (l - 1) * (k * w))) = block_ones k w 1 j (blaum_roth_ones w j)"
  proof -
    have "S (Suc l) (?ix + l * (k * w)) = {block_index k w 1 j l (blaum_roth_first w j l)} \<union>
        (if 0 < j \<and> l = w - j then {block_index k w 1 j l (half (w + 1) j - 1)} else {})" if l: "l < w" for l
    proof -
      have "(l + 1 + j) mod (w + 1) = (if w + 1 \<le> Suc l + j then Suc l + j - (w + 1) else Suc l + j)"
        using l assms(2) by (simp add: mod_if)
      moreover define z where "z = ?ix + l * (k * w)"
      moreover have "block_index k w 1 j l y = z + y" for y by (simp add: z_def block_index_def algebra_simps)
      ultimately show ?thesis using l False assms(2) unfolding S_def z_def [symmetric]
        by (auto simp: blaum_roth_first_def)
    qed
    moreover have "(\<Union>l\<in>{1..<w + 1}. S l (?ix + (l - 1) * (k * w))) = (\<Union>l\<in>{0..<w}. S (Suc l) (?ix + l * (k * w)))"
    proof -
      have "{1..<w + 1} = Suc ` {0..<w}" by (simp add: image_Suc_atLeastLessThan)
      then show ?thesis by (simp only: UN_simps image_image diff_Suc_1)
    qed
    ultimately show ?thesis unfolding blaum_roth_block_ones [OF assms] by (simp only:) (rule SUP_cong [OF refl], simp only: atLeastLessThan_iff)
  qed
  moreover have "blaum_roth_block k w j = (\<lambda>m. fst (fold (\<lambda>l (m, ix). (f l ix m, ix + k * w)) [1..<w + 1] (m, ?ix)))"
    unfolding blaum_roth_block_def f_def half_def Let_def using False by (simp only: if_False)
  ultimately show ?thesis by simp
qed

lemma blaum_roth_code:
  assumes w: "is_prime (w + 1)" "2 < w + 1" and k: "0 < k" "k \<le> w" and bm: "blaum_roth_coding_bitmatrix k w = Some bm"
  shows "bitmatrix_ok k 2 w bm \<and> bit_mds k 2 w bm \<and> parity_block k w bm"
proof (rule raid6_code)
  have odd: "odd (w + 1)" using prime_odd [OF w] .
  show "bm = fold (blaum_roth_block k w) [0..<k] (identity_blocks k w (replicate (2 * k * w * w) 0))"
    using bm k(2) by (simp add: blaum_roth_coding_bitmatrix_def)
  show "sets_ones (blaum_roth_block k w j) (block_ones k w 1 j (blaum_roth_ones w j))" if "j < k" for j
    using sets_ones_blaum_roth [OF odd] that k(2) by simp
  show "xsum w (\<lambda>y. of_bool (blaum_roth_ones w j l y) AND of_bool (b y) :: u32) = of_bool (blaum_roth_row w j l b)"
    if j: "j < k" and l: "l < w" for j l b
  proof -
    have jw: "j < w" using j k(2) by simp
    have h: "half (w + 1) j - 1 < w" "j - 1 \<noteq> half (w + 1) j - 1" if "0 < j" using half(1-3) [OF odd that] jw that by simp_all
    have "xsum w (\<lambda>y. of_bool (blaum_roth_ones w j l y) AND of_bool (b y) :: u32) =
        of_bool (b (blaum_roth_first w j l) \<noteq> ((0 < j \<and> l = w - j) \<and> b (half (w + 1) j - 1)))"
      unfolding blaum_roth_ones_def
    proof (cases "0 < j")
      case True
      show "xsum w (\<lambda>y. of_bool (y = blaum_roth_first w j l \<or> (0 < j \<and> l = w - j) \<and> y = half (w + 1) j - 1) AND of_bool (b y) :: u32) =
          of_bool (b (blaum_roth_first w j l) \<noteq> ((0 < j \<and> l = w - j) \<and> b (half (w + 1) j - 1)))"
        by (rule xsum_one_or_two) (use blaum_roth_first_lt [OF l jw] h [OF True] jw in \<open>auto simp: blaum_roth_first_def\<close>)
    next
      case False
      then show "xsum w (\<lambda>y. of_bool (y = blaum_roth_first w j l \<or> (0 < j \<and> l = w - j) \<and> y = half (w + 1) j - 1) AND of_bool (b y) :: u32) =
          of_bool (b (blaum_roth_first w j l) \<noteq> ((0 < j \<and> l = w - j) \<and> b (half (w + 1) j - 1)))"
        using xsum_single [OF blaum_roth_first_lt [OF l jw], of "\<lambda>y. of_bool (y = blaum_roth_first w j l) AND of_bool (b y) :: u32"]
        by simp
    qed
    then show ?thesis using l jw by (auto simp: blaum_roth_row_def blaum_roth_first_def)
  qed
  show "\<exists>y<w. blaum_roth_ones w 0 l y" if "l < w" for l
    using that by (intro exI [of _ l]) (simp add: blaum_roth_ones_def blaum_roth_first_def)
  show "\<forall>y<w. \<not> b y" if "j < k" "\<forall>l<w. \<not> blaum_roth_row w j l b" for j b
    using blaum_roth_kernel_one [OF odd _ that(2)] that(1) k(2) by simp
  show "\<forall>y<w. \<not> b y" if "i < j" "j < k" "\<forall>l<w. blaum_roth_row w i l b = blaum_roth_row w j l b" for i j b
    using blaum_roth_kernel_two [OF w that(1) _ that(3)] that(2) k(2) by simp
qed (use w k in auto)

section \<open>The liber8tion code\<close>

text \<open>Elimination over the two-element field shows that only zero is mapped to zero.\<close>

fun row_parity :: "bool list \<Rightarrow> bool list \<Rightarrow> bool" where
  "row_parity (r # rs) (x # xs) = ((r \<and> x) \<noteq> row_parity rs xs)"
| "row_parity _ _ = False"

fun eliminated :: "nat \<Rightarrow> bool list list \<Rightarrow> bool" where
  "eliminated 0 rows = True"
| "eliminated (Suc n) rows =
    (case filter hd rows of [] \<Rightarrow> False
     | p # ps \<Rightarrow> eliminated n (map (\<lambda>r. map2 (\<noteq>) (tl r) (tl p)) ps @ map tl (filter (\<lambda>r. \<not> hd r) rows)))"

lemma row_parity_add: "length r = length x \<Longrightarrow> length p = length x \<Longrightarrow> row_parity (map2 (\<noteq>) r p) x = (row_parity r x \<noteq> row_parity p x)"
proof (induction x arbitrary: r p)
  case (Cons y x)
  then show ?case by (cases r; cases p) auto
qed simp

lemma row_parity_zero: "\<forall>y\<in>set x. \<not> y \<Longrightarrow> \<not> row_parity r x"
  by (induction r x rule: row_parity.induct) auto

lemma eliminated_zero:
  "eliminated n rows \<Longrightarrow> length x = n \<Longrightarrow> \<forall>r\<in>set rows. length r = n \<and> \<not> row_parity r x \<Longrightarrow> \<forall>y\<in>set x. \<not> y"
proof (induction n rows arbitrary: x rule: eliminated.induct)
  case (2 n rows)
  obtain y ys where x: "x = y # ys" "length ys = n" using "2.prems"(2) by (cases x) auto
  obtain p ps where p: "filter hd rows = p # ps" "eliminated n (map (\<lambda>r. map2 (\<noteq>) (tl r) (tl p)) ps @ map tl (filter (\<lambda>r. \<not> hd r) rows))"
    using "2.prems"(1) by (auto split: list.splits)
  have tl: "length (tl r) = n" "row_parity r x = ((hd r \<and> y) \<noteq> row_parity (tl r) ys)" if "r \<in> set rows" for r
    using "2.prems"(3) that by (auto simp: x(1)) (cases r; auto)+
  have ps: "r \<in> set rows \<and> hd r" if "r \<in> set (p # ps)" for r using that unfolding p(1) [symmetric] by simp
  have par: "row_parity (tl r) ys = (hd r \<and> y)" if "r \<in> set rows" for r using tl(2) [OF that] "2.prems"(3) that by auto
  have "\<forall>r\<in>set (map (\<lambda>r. map2 (\<noteq>) (tl r) (tl p)) ps @ map tl (filter (\<lambda>r. \<not> hd r) rows)). length r = n \<and> \<not> row_parity r ys"
  proof -
    have "\<not> row_parity (map2 (\<noteq>) (tl r) (tl p)) ys" if "r \<in> set ps" for r
      using row_parity_add [of "tl r" ys "tl p"] ps [of r] ps [of p] tl(1) par that x(2) by simp
    then show ?thesis using ps tl(1) par x(2) by auto
  qed
  then have z: "\<forall>y\<in>set ys. \<not> y" using "2.IH" [OF p(1) p(2) x(2)] by blast
  have "\<not> y" using par [of p] ps [of p] row_parity_zero [OF z] by simp
  then show ?case using z x(1) by simp
qed simp

definition liber8tion_rows :: "nat \<Rightarrow> bool list list" where
  "liber8tion_rows j = map (\<lambda>l. map (\<lambda>y. (l, y) \<in> set (liber8tion_ones ! j)) [0..<8]) [0..<8]"

fun blocks_eliminated :: "nat list \<Rightarrow> bool" where
  "blocks_eliminated [] \<longleftrightarrow> True"
| "blocks_eliminated (j # js) \<longleftrightarrow> eliminated 8 (liber8tion_rows j) \<and> blocks_eliminated js"

fun pairs_eliminated :: "(nat \<times> nat) list \<Rightarrow> bool" where
  "pairs_eliminated [] \<longleftrightarrow> True"
| "pairs_eliminated ((i, j) # r) \<longleftrightarrow>
     eliminated 8 (map2 (map2 (\<noteq>)) (liber8tion_rows i) (liber8tion_rows j)) \<and> pairs_eliminated r"

lemma blocks_eliminated: "blocks_eliminated js = (\<forall>j\<in>set js. eliminated 8 (liber8tion_rows j))"
  by (induction js) auto

lemma pairs_eliminated: "pairs_eliminated ps =
    (\<forall>(i, j)\<in>set ps. eliminated 8 (map2 (map2 (\<noteq>)) (liber8tion_rows i) (liber8tion_rows j)))"
  by (induction ps rule: pairs_eliminated.induct) auto

lemma liber8tion_blocks: "blocks_eliminated [0..<8]"
  by code_simp

lemma liber8tion_pairs:
  "pairs_eliminated (concat (map (\<lambda>j. map (\<lambda>i. (i, j)) [0..<j]) [0..<8]))"
  by code_simp

definition liber8tion_row :: "nat \<Rightarrow> nat \<Rightarrow> (nat \<Rightarrow> bool) \<Rightarrow> bool" where
  "liber8tion_row j l b = row_parity (liber8tion_rows j ! l) (map b [0..<8])"

lemma xsum_row_parity:
  "xsum n (\<lambda>y. of_bool (X y) AND of_bool (b y) :: u32) = of_bool (row_parity (map X [0..<n]) (map b [0..<n]))"
proof (induction n arbitrary: X b)
  case (Suc n)
  have shift: "map f [0..<Suc n] = f 0 # map (\<lambda>y. f (Suc y)) [0..<n]" for f :: "nat \<Rightarrow> bool"
    by (simp add: upt_conv_Cons map_Suc_upt [symmetric] del: upt_Suc)
  show ?case unfolding shift xsum_Suc_shift Suc.IH by simp
qed simp

lemma bits_false: "(\<forall>y\<in>set (map b [0..<8]). \<not> y) \<longleftrightarrow> (\<forall>y<8. \<not> b y)"
  by auto

lemma liber8tion_kernel_one:
  assumes "j < 8" "\<forall>l<8. \<not> liber8tion_row j l b"
  shows "\<forall>y<8. \<not> b y"
proof -
  have "j \<in> set [0..<8]" using assms(1) by simp
  then have "eliminated 8 (liber8tion_rows j)" using liber8tion_blocks unfolding blocks_eliminated by blast
  moreover have "\<forall>r\<in>set (liber8tion_rows j). length r = 8 \<and> \<not> row_parity r (map b [0..<8])"
    using assms(2) by (auto simp: liber8tion_row_def liber8tion_rows_def)
  ultimately show ?thesis using eliminated_zero [of 8 "liber8tion_rows j" "map b [0..<8]"] unfolding bits_false by simp
qed

lemma liber8tion_kernel_two:
  assumes "i < j" "j < 8" "\<forall>l<8. liber8tion_row i l b = liber8tion_row j l b"
  shows "\<forall>y<8. \<not> b y"
proof -
  let ?rows = "map2 (map2 (\<noteq>)) (liber8tion_rows i) (liber8tion_rows j)"
  have "(i, j) \<in> set (concat (map (\<lambda>j. map (\<lambda>i. (i, j)) [0..<j]) [0..<8]))" using assms(1,2) by force
  then have "eliminated 8 ?rows" using liber8tion_pairs unfolding pairs_eliminated by blast
  moreover have "length r = 8 \<and> \<not> row_parity r (map b [0..<8])" if r: "r \<in> set ?rows" for r
  proof -
    obtain l where l: "l < 8" "r = map2 (\<noteq>) (liber8tion_rows i ! l) (liber8tion_rows j ! l)"
      using r by (auto simp: in_set_zip liber8tion_rows_def)
    moreover have "length (liber8tion_rows j ! l) = 8" "length (liber8tion_rows i ! l) = 8"
      using l(1) by (simp_all add: liber8tion_rows_def)
    ultimately have "row_parity r (map b [0..<8]) = (liber8tion_row i l b \<noteq> liber8tion_row j l b)"
      unfolding liber8tion_row_def l(2) by (intro row_parity_add) simp_all
    then show ?thesis using assms(3) l \<open>length (liber8tion_rows j ! l) = 8\<close> \<open>length (liber8tion_rows i ! l) = 8\<close> by simp
  qed
  ultimately show ?thesis using eliminated_zero [of 8 ?rows "map b [0..<8]"] unfolding bits_false by simp
qed

lemma liber8tion_ones_lt: "list_all (list_all (\<lambda>(r, c). r < 8 \<and> c < 8)) liber8tion_ones"
  by code_simp

lemma sets_ones_list: "sets_ones (fold (\<lambda>(r, c) m. m[p r c := 1]) xs) {p r c |r c. (r, c) \<in> set xs}"
proof -
  have "sets_ones (fold (\<lambda>(r, c) m. m[p r c := 1]) xs) (\<Union>x\<in>set xs. {p (fst x) (snd x)})"
    by (rule sets_ones_fold) (simp add: split_beta sets_ones_update)
  moreover have "(\<Union>x\<in>set xs. {p (fst x) (snd x)}) = {p r c |r c. (r, c) \<in> set xs}" by force
  ultimately show ?thesis by simp
qed

lemma liber8tion_code:
  assumes k: "0 < k" "k \<le> 8" and bm: "liber8tion_coding_bitmatrix k = Some bm"
  shows "bitmatrix_ok k 2 8 bm \<and> bit_mds k 2 8 bm \<and> parity_block k 8 bm"
proof (rule raid6_code)
  show "bm = fold (\<lambda>j. fold (\<lambda>(r, c) matrix. matrix[k * 8 * 8 + r * k * 8 + j * 8 + c := 1]) (liber8tion_ones ! j)) [0..<k]
      (identity_blocks k 8 (replicate (2 * k * 8 * 8) 0))"
    using bm k(2) by (simp add: liber8tion_coding_bitmatrix_def Let_def)
  show "sets_ones (fold (\<lambda>(r, c) matrix. matrix[k * 8 * 8 + r * k * 8 + j * 8 + c := 1]) (liber8tion_ones ! j))
      (block_ones k 8 1 j (\<lambda>l y. (l, y) \<in> set (liber8tion_ones ! j)))" if "j < k" for j
  proof -
    have "liber8tion_ones ! j \<in> set liber8tion_ones" using that k(2) by (intro nth_mem) (simp add: liber8tion_ones_def)
    then have lt: "r < 8 \<and> c < 8" if "(r, c) \<in> set (liber8tion_ones ! j)" for r c
      using liber8tion_ones_lt that by (auto simp: list_all_iff)
    have "k * 8 * 8 + r * k * 8 + j * 8 + c = block_index k 8 1 j r c" for r c
      by (simp add: block_index_def algebra_simps)
    then have "{k * 8 * 8 + r * k * 8 + j * 8 + c |r c. (r, c) \<in> set (liber8tion_ones ! j)} =
        {block_index k 8 1 j l y |l y. (l, y) \<in> set (liber8tion_ones ! j)}" by (simp only:)
    also have "\<dots> = block_ones k 8 1 j (\<lambda>l y. (l, y) \<in> set (liber8tion_ones ! j))" using lt unfolding block_ones_def by blast
    finally show ?thesis using sets_ones_list [of "\<lambda>r c. k * 8 * 8 + r * k * 8 + j * 8 + c" "liber8tion_ones ! j"] by (simp only:)
  qed
  show "xsum 8 (\<lambda>y. of_bool ((l, y) \<in> set (liber8tion_ones ! j)) AND of_bool (b y) :: u32) = of_bool (liber8tion_row j l b)"
    if "l < 8" for j l b
    using that unfolding xsum_row_parity liber8tion_row_def by (simp add: liber8tion_rows_def)
  show "\<exists>y<8. (l, y) \<in> set (liber8tion_ones ! 0)" if "l < 8" for l
    using that by (intro exI [of _ l]) (auto simp: liber8tion_ones_def less_Suc_eq numeral_eq_Suc)
  show "\<forall>y<8. \<not> b y" if "j < k" "\<forall>l<8. \<not> liber8tion_row j l b" for j b
    using liber8tion_kernel_one [OF _ that(2)] that(1) k(2) by simp
  show "\<forall>y<8. \<not> b y" if "i < j" "j < k" "\<forall>l<8. liber8tion_row i l b = liber8tion_row j l b" for i j b
    using liber8tion_kernel_two [OF that(1) _ that(3)] that(2) k(2) by simp
qed (use k in auto)

section \<open>Codes that survive\<close>

lemma raid6_maker:
  assumes "0 < k" "liberation_coding_bitmatrix k w = Some bm \<and> is_prime w \<and> 2 < w \<or>
      blaum_roth_coding_bitmatrix k w = Some bm \<and> is_prime (w + 1) \<and> 1 < w \<or> liber8tion_coding_bitmatrix k = Some bm \<and> w = 8"
  shows "bitmatrix_ok k 2 w bm \<and> bit_mds k 2 w bm \<and> parity_block k w bm"
proof -
  have "k \<le> w"
    using assms(2) by (auto simp: liberation_coding_bitmatrix_def blaum_roth_coding_bitmatrix_def liber8tion_coding_bitmatrix_def Let_def split: if_splits)
  then show ?thesis using assms liberation_code blaum_roth_code liber8tion_code by auto
qed

text \<open>
  C5: the bit matrices of \<open>liberation_coding_bitmatrix\<close> for an odd prime w, of
  \<open>blaum_roth_coding_bitmatrix\<close> when w + 1 is an odd prime, and of \<open>liber8tion_coding_bitmatrix\<close> are codes that
  survive the loss of any two devices: after \<open>jerasure_bitmatrix_encode\<close>, which leaves the data devices as they
  are, both \<open>jerasure_bitmatrix_decode\<close> with the parity rows and \<open>jerasure_schedule_decode_lazy\<close> return 0 and
  restore every device.
\<close>

theorem raid6_bit_codes_survive:
  assumes "0 < k" "k + 2 \<le> 2 ^ 31"
    "liberation_coding_bitmatrix k w = Some bm \<and> is_prime w \<and> 2 < w \<or>
      blaum_roth_coding_bitmatrix k w = Some bm \<and> is_prime (w + 1) \<and> 1 < w \<or> liber8tion_coding_bitmatrix k = Some bm \<and> w = 8"
    "packets_ok (k + 2) sz ps st" "ps * w dvd sz" "8 dvd ps"
  shows "\<exists>st1. jerasure_bitmatrix_encode k 2 w bm sz ps st = Some st1 \<and> packets_ok (k + 2) sz ps st1 \<and>
    take k (dev st1) = take k (dev st) \<and>
    (\<forall>st2 xs ys smart. packets_ok (k + 2) sz ps st2 \<and> erasures_ok k 2 xs \<and> (smart \<longrightarrow> xs \<noteq> []) \<and>
       (\<forall>d<k + 2. d \<notin> unat ` set xs \<longrightarrow> dev st2 ! d = dev st1 ! d) \<longrightarrow>
       (\<exists>st3. jerasure_bitmatrix_decode k 2 w bm 1 (xs @ - 1 # ys) sz ps st2 = Some (0, st3) \<and> dev st3 = dev st1) \<and>
       (\<exists>st3. jerasure_schedule_decode_lazy k 2 w bm (xs @ - 1 # ys) sz ps smart st2 = Some (0, st3) \<and> dev st3 = dev st1))"
  using raid6_maker [OF assms(1,3)] assms(2,4-6) by (intro bit_mds_survives) simp_all

definition packets4 :: jstate where
  "packets4 = packets3\<lparr>dev := [replicate 24 1, replicate 24 2, replicate 24 0, replicate 24 0]\<rparr>"

lemma packets4_ok: "packets_ok (2 + 2) 24 8 packets4"
proof -
  have "\<forall>d<2 + 2. length (dev packets4 ! d) = 24" by (simp add: packets4_def All_less_Suc numeral_eq_Suc)
  moreover have "jst_ok packets4" using packets3_ok by (simp add: packets_ok_def jst_ok_def packets4_def)
  ultimately show ?thesis by (simp add: packets_ok_def) (simp add: packets4_def)
qed

theorem raid6_bit_codes_survive_witness:
  "\<exists>bm st1 st3. liberation_coding_bitmatrix 2 3 = Some bm \<and>
    jerasure_bitmatrix_encode 2 2 3 bm 24 8 packets4 = Some st1 \<and> take 2 (dev st1) = take 2 (dev packets4) \<and>
    jerasure_schedule_decode_lazy 2 2 3 bm ([1, 0] @ - 1 # []) 24 8 True
      (st1\<lparr>dev := (dev st1)[0 := replicate 24 9, 1 := replicate 24 8]\<rparr>) = Some (0, st3) \<and> dev st3 = dev st1"
proof -
  have "d = 1 \<or> d = 3" if "d dvd 3" for d :: nat
  proof -
    have "d \<le> 3" using that by (intro dvd_imp_le) simp_all
    then have "d = 0 \<or> d = 1 \<or> d = 2 \<or> d = 3" by linarith
    then show ?thesis using that by auto
  qed
  then have "is_prime 3" by (simp add: is_prime_def)
  moreover obtain bm where bm: "liberation_coding_bitmatrix 2 3 = Some bm" by (simp add: liberation_coding_bitmatrix_def)
  ultimately obtain st1 where s: "jerasure_bitmatrix_encode 2 2 3 bm 24 8 packets4 = Some st1" "packets_ok (2 + 2) 24 8 st1"
      "take 2 (dev st1) = take 2 (dev packets4)"
    and dec: "\<And>st2 xs ys smart. packets_ok (2 + 2) 24 8 st2 \<and> erasures_ok 2 2 xs \<and> (smart \<longrightarrow> xs \<noteq> []) \<and>
       (\<forall>d<2 + 2. d \<notin> unat ` set xs \<longrightarrow> dev st2 ! d = dev st1 ! d) \<Longrightarrow>
       (\<exists>st3. jerasure_schedule_decode_lazy 2 2 3 bm (xs @ - 1 # ys) 24 8 smart st2 = Some (0, st3) \<and> dev st3 = dev st1)"
    using raid6_bit_codes_survive [of 2 3 bm 24 8 packets4, OF _ _ _ packets4_ok] by (auto simp: dvd_def)
  let ?st2 = "st1\<lparr>dev := (dev st1)[0 := replicate 24 9, 1 := replicate 24 8]\<rparr>"
  have "packets_ok (2 + 2) 24 8 ?st2" using s(2) by (auto simp: packets_ok_def jst_ok_def nth_list_update)
  moreover have "erasures_ok 2 2 [1, 0]" by (simp add: erasures_ok_def)
  ultimately show ?thesis using bm s dec [of ?st2 "[1, 0]" True "[]"] by (auto simp: nth_list_update)
qed

end
