(* ===== verification/Nbd_Types.thy ===== *)
theory Nbd_Types
  imports Prelude
begin

text \<open>
  The data of the network block device of deliba1 (src/src/deliba1/host/nbd/nbd.c and nbd.h):
  constants, requests, commands, sockets, configurations and devices, the words on the wire,
  and the handle that ties a reply to its request.

  A request is named by its unique tag, so that a pointer to a request or to its command is a
  tag here.  What the network answers is part of a socket: how many bytes each call of
  sock_sendmsg takes (or its error), and what each call of sock_recvmsg delivers.
\<close>

section \<open>Constants\<close>

abbreviation "EIO \<equiv> 5 :: int"
abbreviation "EAGAIN \<equiv> 11 :: int"
abbreviation "EBUSY \<equiv> 16 :: int"
abbreviation "ENOENT \<equiv> 2 :: int"
abbreviation "EINTR \<equiv> 4 :: int"
abbreviation "EINVAL \<equiv> 22 :: int"
abbreviation "ENOSPC \<equiv> 28 :: int"
abbreviation "EPIPE \<equiv> 32 :: int"
abbreviation "EPROTO \<equiv> 71 :: int"
abbreviation "ETIMEDOUT \<equiv> 110 :: int"
abbreviation "ERESTARTSYS \<equiv> 512 :: int"
abbreviation "BLK_STS_OK \<equiv> 0 :: int"
abbreviation "BLK_STS_TIMEOUT \<equiv> 2 :: int"
abbreviation "BLK_STS_RESOURCE \<equiv> 9 :: int"
abbreviation "BLK_STS_IOERR \<equiv> 10 :: int"

definition NBD_REQUEST_MAGIC :: u32 where "NBD_REQUEST_MAGIC = 0x25609513"
definition NBD_REPLY_MAGIC :: u32 where "NBD_REPLY_MAGIC = 0x67446698"

definition NBD_CMD_READ :: u32 where "NBD_CMD_READ = 0"
definition NBD_CMD_WRITE :: u32 where "NBD_CMD_WRITE = 1"
definition NBD_CMD_DISC :: u32 where "NBD_CMD_DISC = 2"
definition NBD_CMD_FLUSH :: u32 where "NBD_CMD_FLUSH = 3"
definition NBD_CMD_TRIM :: u32 where "NBD_CMD_TRIM = 4"
definition NBD_CMD_FLAG_FUA :: u32 where "NBD_CMD_FLAG_FUA = push_bit 16 (push_bit 0 1)"

definition NBD_FLAG_READ_ONLY :: u32 where "NBD_FLAG_READ_ONLY = push_bit 1 1"
definition NBD_FLAG_SEND_FLUSH :: u32 where "NBD_FLAG_SEND_FLUSH = push_bit 2 1"
definition NBD_FLAG_SEND_FUA :: u32 where "NBD_FLAG_SEND_FUA = push_bit 3 1"
definition NBD_FLAG_SEND_TRIM :: u32 where "NBD_FLAG_SEND_TRIM = push_bit 5 1"
definition NBD_FLAG_CAN_MULTI_CONN :: u32 where "NBD_FLAG_CAN_MULTI_CONN = push_bit 8 1"

text \<open>The bits of \<open>runtime_flags\<close> of a configuration and of \<open>flags\<close> of a device.\<close>

datatype nbd_rt_flag = NBD_RT_TIMEDOUT | NBD_RT_DISCONNECT_REQUESTED | NBD_RT_DISCONNECTED
  | NBD_RT_HAS_PID_FILE | NBD_RT_HAS_CONFIG_REF | NBD_RT_BOUND | NBD_RT_DISCONNECT_ON_CLOSE
  | NBD_RT_HAS_BACKEND_FILE

datatype nbd_dev_flag = NBD_DESTROY_ON_DISCONNECT | NBD_DISCONNECT_REQUESTED

section \<open>Requests and commands\<close>

text \<open>
  The operation of a request; the other operations of the block layer write or do not.  The
  state of a request in the block layer is idle, in flight or complete.
\<close>

datatype req_op = REQ_OP_READ | REQ_OP_WRITE | REQ_OP_FLUSH | REQ_OP_DISCARD | REQ_OP_OTHER bool

datatype mq_rq_state = MQ_RQ_IDLE | MQ_RQ_IN_FLIGHT | MQ_RQ_COMPLETE

text \<open>The data of a request: the contents of its segments, over all its bios.\<close>

record request =
  rq_op :: req_op
  rq_pos :: u64
  rq_bytes :: u32
  rq_fua :: bool
  rq_segments :: "u8 list list"
  rq_state :: mq_rq_state

fun rq_writes :: "req_op \<Rightarrow> bool" where
  "rq_writes REQ_OP_WRITE = True"
| "rq_writes REQ_OP_DISCARD = True"
| "rq_writes (REQ_OP_OTHER b) = b"
| "rq_writes _ = False"

fun req_to_nbd_cmd_type :: "req_op \<Rightarrow> u32" where
  "req_to_nbd_cmd_type REQ_OP_DISCARD = NBD_CMD_TRIM"
| "req_to_nbd_cmd_type REQ_OP_FLUSH = NBD_CMD_FLUSH"
| "req_to_nbd_cmd_type REQ_OP_WRITE = NBD_CMD_WRITE"
| "req_to_nbd_cmd_type REQ_OP_READ = NBD_CMD_READ"
| "req_to_nbd_cmd_type (REQ_OP_OTHER _) = - 1"

definition nbdcmd_to_ascii :: "u32 \<Rightarrow> string" where
  "nbdcmd_to_ascii cmd =
    (if cmd = NBD_CMD_READ then ''read''
     else if cmd = NBD_CMD_WRITE then ''write''
     else if cmd = NBD_CMD_DISC then ''disconnect''
     else if cmd = NBD_CMD_FLUSH then ''flush''
     else if cmd = NBD_CMD_TRIM then ''trim/discard''
     else ''invalid'')"

record nbd_cmd =
  cmd_index :: nat
  cookie :: u32
  retries :: u32
  status :: int
  requeued :: bool
  inflight :: bool
  cmd_cookie :: u32

section \<open>Handles\<close>

text \<open>The handle of a request: its cookie above its unique tag.\<close>

definition NBD_COOKIE_BITS :: nat where "NBD_COOKIE_BITS = 32"

definition nbd_cmd_handle :: "u32 \<Rightarrow> nbd_cmd \<Rightarrow> u64" where
  "nbd_cmd_handle tag cmd = push_bit NBD_COOKIE_BITS (ucast (cmd_cookie cmd)) OR ucast tag"

definition nbd_handle_to_tag :: "u64 \<Rightarrow> u32" where
  "nbd_handle_to_tag handle = ucast handle"

definition nbd_handle_to_cookie :: "u64 \<Rightarrow> u32" where
  "nbd_handle_to_cookie handle = ucast (drop_bit NBD_COOKIE_BITS handle)"

lemma handle_tag [simp]: "nbd_handle_to_tag (nbd_cmd_handle tag cmd) = tag"
  by (rule bit_word_eqI) (auto simp: nbd_handle_to_tag_def nbd_cmd_handle_def NBD_COOKIE_BITS_def bit_simps)

lemma handle_cookie [simp]: "nbd_handle_to_cookie (nbd_cmd_handle tag cmd) = cmd_cookie cmd"
  by (rule bit_word_eqI) (auto simp: nbd_handle_to_cookie_def nbd_cmd_handle_def NBD_COOKIE_BITS_def bit_simps dest: bit_imp_le_length)

lemma handle_inject:
  "nbd_cmd_handle tag cmd = nbd_cmd_handle tag' cmd' \<longleftrightarrow> tag = tag' \<and> cmd_cookie cmd = cmd_cookie cmd'"
  by (metis handle_tag handle_cookie nbd_cmd_handle_def)

section \<open>The bytes on the wire\<close>

text \<open>Words of n bytes, the most significant byte first or last.\<close>

definition be_bytes :: "nat \<Rightarrow> 'a::len word \<Rightarrow> u8 list" where
  "be_bytes n x = map (\<lambda>i. ucast (drop_bit (8 * (n - 1 - i)) x)) [0..<n]"

definition le_bytes :: "nat \<Rightarrow> 'a::len word \<Rightarrow> u8 list" where
  "le_bytes n x = map (\<lambda>i. ucast (drop_bit (8 * i) x)) [0..<n]"

definition be_word :: "u8 list \<Rightarrow> 'a::len word" where
  "be_word = foldl (\<lambda>a b. push_bit 8 a OR ucast b) 0"

definition le_word :: "u8 list \<Rightarrow> 'a::len word" where
  "le_word bs = be_word (rev bs)"

text \<open>
  The header of 28 bytes: all words in network byte order except the handle, which is copied
  as it is in memory (least significant byte first on the machines the FPGA cards run in).
  A flush carries no position and no length.
\<close>

definition nbd_request_bytes :: "u32 \<Rightarrow> u64 \<Rightarrow> u64 \<Rightarrow> u32 \<Rightarrow> u8 list" where
  "nbd_request_bytes type handle from len =
    be_bytes 4 NBD_REQUEST_MAGIC @ be_bytes 4 type @ le_bytes 8 handle @ be_bytes 8 from @ be_bytes 4 len"

definition nbd_request_header :: "u32 \<Rightarrow> request \<Rightarrow> nbd_cmd \<Rightarrow> u8 list" where
  "nbd_request_header tag req cmd =
    (let type = req_to_nbd_cmd_type (rq_op req);
         flags = (if rq_fua req then NBD_CMD_FLAG_FUA else 0)
     in if type \<noteq> NBD_CMD_FLUSH
        then nbd_request_bytes (type OR flags) (nbd_cmd_handle tag cmd) (push_bit 9 (rq_pos req)) (rq_bytes req)
        else nbd_request_bytes (type OR flags) (nbd_cmd_handle tag cmd) 0 0)"

lemma length_be_bytes [simp]: "length (be_bytes n x) = n"
  by (simp add: be_bytes_def)

lemma length_le_bytes [simp]: "length (le_bytes n x) = n"
  by (simp add: le_bytes_def)

lemma length_header [simp]: "length (nbd_request_header tag req cmd) = 28"
  by (simp add: nbd_request_header_def nbd_request_bytes_def Let_def)

record nbd_reply =
  reply_magic :: u32
  reply_error :: u32
  reply_handle :: u64

text \<open>The 16 bytes of a reply; the server copies the handle of the request.\<close>

definition nbd_reply_of_bytes :: "u8 list \<Rightarrow> nbd_reply" where
  "nbd_reply_of_bytes bs =
    \<lparr>reply_magic = be_word (take 4 bs), reply_error = be_word (take 4 (drop 4 bs)), reply_handle = le_word (take 8 (drop 8 bs))\<rparr>"

lemma be_word_append: "be_word (bs @ [b]) = (push_bit 8 (be_word bs) OR ucast b :: 'a::len word)"
  by (simp add: be_word_def)

lemma be_bytes_Suc: "be_bytes (Suc n) x = be_bytes n (drop_bit 8 x) @ [ucast x]"
proof -
  have "8 * (n - Suc i) + 8 = 8 * (n - i)" if "i < n" for i using that by simp
  then show ?thesis by (simp add: be_bytes_def)
qed

lemma be_word_bytes: "be_word (be_bytes n (x :: 'a::len word)) = take_bit (8 * n) x"
proof (induction n arbitrary: x)
  case (Suc n)
  have "push_bit 8 (take_bit (8 * n) (drop_bit 8 x)) OR ucast (ucast x :: u8) = take_bit (8 * Suc n) x"
    by (rule bit_word_eqI) (auto simp: bit_simps)
  then show ?case using Suc by (simp add: be_bytes_Suc be_word_append)
qed (simp add: be_bytes_def be_word_def)

lemma rev_le_bytes: "rev (le_bytes n x) = be_bytes n x"
  by (rule nth_equalityI) (simp_all add: le_bytes_def be_bytes_def rev_nth Suc_diff_Suc)

lemma le_word_bytes: "le_word (le_bytes n (x :: 'a::len word)) = take_bit (8 * n) x"
  by (simp add: le_word_def rev_le_bytes be_word_bytes)

text \<open>The words of a packet come back from its bytes.\<close>

lemma words_of_bytes [simp]:
  "be_word (be_bytes 4 (x :: u32)) = x" "be_word (be_bytes 8 (y :: u64)) = y" "le_word (le_bytes 8 (y :: u64)) = y"
  by (simp_all add: be_word_bytes le_word_bytes take_bit_word_eq_self)

lemma reply_of_bytes:
  "nbd_reply_of_bytes (be_bytes 4 m @ be_bytes 4 e @ le_bytes 8 h) = \<lparr>reply_magic = m, reply_error = e, reply_handle = h\<rparr>"
  by (simp add: nbd_reply_of_bytes_def)

section \<open>Sockets, configurations and devices\<close>

text \<open>
  A socket: what the coming calls of sock_sendmsg answer (a positive number of bytes they
  take at most, or zero or an error), what those of sock_recvmsg answer (an error, zero at
  the end, or bytes), and the bytes that have been handed over.
\<close>

record socket =
  tx_results :: "int list"
  rx_results :: "(int + u8 list) list"
  wire :: "u8 list"
  shut :: bool

record nbd_sock =
  sock :: socket
  pending :: "u32 option"
  sent :: nat
  dead :: bool
  fallback_index :: int
  sock_cookie :: u32

record nbd_config =
  cfg_flags :: u32
  runtime_flags :: "nbd_rt_flag set"
  dead_conn_timeout :: u64
  socks :: "nbd_sock list"
  live_connections :: int
  recv_threads :: int
  blksize_bits :: nat
  bytesize :: u64

abbreviation num_connections :: "nbd_config \<Rightarrow> nat" where
  "num_connections config \<equiv> length (socks config)"

definition nbd_blksize :: "nbd_config \<Rightarrow> u32" where
  "nbd_blksize config = push_bit (blksize_bits config) 1"

definition nbd_disconnected :: "nbd_config \<Rightarrow> bool" where
  "nbd_disconnected config \<longleftrightarrow>
     NBD_RT_DISCONNECTED \<in> runtime_flags config \<or> NBD_RT_DISCONNECT_REQUESTED \<in> runtime_flags config"

text \<open>What a device does to its surroundings, in the order it happens.\<close>

datatype nbd_event =
    Start u32
  | Payload_sent u32
  | Requeue u32
  | Complete u32 int
  | Link_dead int
  | Set_capacity u64
  | Set_disk_ro bool
  | Write_cache bool bool
  | Wake_up
  | Remove

text \<open>
  A device.  \<open>tags\<close> are the requests of its tag set, \<open>all_tags\<close> the tags there are, and \<open>cmds\<close> the
  commands that go with them; \<open>timeout\<close> is the timeout of the tag set, and \<open>task_setup\<close> the task
  that sets the device up.  \<open>recv_works\<close> are the receive works that run, each with the index of
  its socket and the request whose reply it has handled and not yet completed; \<open>waiting\<close> are the
  requests that wait for their socket to come back, and \<open>openers\<close> counts those who hold the disk
  open.
\<close>

record nbd_device =
  nbd_index :: int
  refs :: nat
  config_refs :: nat
  config :: "nbd_config option"
  nr_hw_queues :: nat
  tags :: "u32 \<rightharpoonup> request"
  all_tags :: "u32 list"
  cmds :: "u32 \<Rightarrow> nbd_cmd"
  timeout :: nat
  pid :: nat
  task_setup :: "nat option"
  dev_flags :: "nbd_dev_flag set"
  backend :: "string option"
  recv_works :: "(nat \<times> u32 option) list"
  waiting :: "(u32 \<times> nat) list"
  openers :: nat
  events :: "nbd_event list"

end
