(* ===== verification/Nbd_Send.thy ===== *)
theory Nbd_Send
  imports Nbd_Types
begin

text \<open>
  Sending a request over a socket (sock_xmit, was_interrupted and nbd_send_cmd of nbd.c).  A
  call that the network has not answered yet, because its list of answers has run out, does
  not return and is None.
\<close>

section \<open>Sending and receiving bytes\<close>

text \<open>
  The loop of \<open>sock_xmit\<close> when it sends: the socket takes a part of the data at each call, and
  an answer that is zero or negative ends the loop.  n counts what has been taken, and w is
  what has reached the wire.
\<close>

fun sock_send_loop :: "int list \<Rightarrow> u8 list \<Rightarrow> nat \<Rightarrow> u8 list \<Rightarrow> (int \<times> int list \<times> u8 list \<times> nat) option" where
  "sock_send_loop [] bs n w = None"
| "sock_send_loop (r # rs) bs n w =
    (if r \<le> 0 then Some (if r = 0 then - EPIPE else r, rs, w, n)
     else (let k = min (nat r) (length bs)
           in if k = 0 then Some (- EPIPE, rs, w, n)
              else if drop k bs = [] then Some (int k, rs, w @ take k bs, n + k)
              else sock_send_loop rs (drop k bs) (n + k) (w @ take k bs)))"

definition sock_xmit_send :: "socket \<Rightarrow> u8 list \<Rightarrow> nat \<Rightarrow> (int \<times> socket \<times> nat) option" where
  "sock_xmit_send sk bs n =
    map_option (\<lambda>(result, rs, w, n). (result, sk\<lparr>tx_results := rs, wire := w\<rparr>, n))
      (sock_send_loop (if shut sk then [- EPIPE] else tx_results sk) bs n (wire sk))"

text \<open>
  The same loop when it receives n bytes; bytes that arrive together and are not asked for
  stay in the socket.  A socket that has been shut down delivers what has arrived and then its
  end.
\<close>

fun sock_recv_loop :: "bool \<Rightarrow> (int + u8 list) list \<Rightarrow> nat \<Rightarrow> u8 list \<Rightarrow> (int \<times> (int + u8 list) list \<times> u8 list) option" where
  "sock_recv_loop down [] n got = (if down then Some (- EPIPE, [], got) else None)"
| "sock_recv_loop down (Inl r # rs) n got = Some (if r < 0 then r else - EPIPE, rs, got)"
| "sock_recv_loop down (Inr bs # rs) n got =
    (if bs = [] \<or> n = 0 then Some (- EPIPE, rs, got)
     else if length bs < n then sock_recv_loop down rs (n - length bs) (got @ bs)
     else Some (int n, (if length bs = n then rs else Inr (drop n bs) # rs), got @ take n bs))"

definition sock_xmit_recv :: "socket \<Rightarrow> nat \<Rightarrow> (int \<times> socket \<times> u8 list) option" where
  "sock_xmit_recv sk n =
    map_option (\<lambda>(result, rs, got). (result, sk\<lparr>rx_results := rs\<rparr>, got))
      (sock_recv_loop (shut sk) (rx_results sk) n [])"

definition was_interrupted :: "int \<Rightarrow> bool" where
  "was_interrupted result \<longleftrightarrow> result = - ERESTARTSYS \<or> result = - EINTR"

section \<open>Sending a request\<close>

text \<open>The segments of a request, without the bytes that have been sent before.\<close>

fun send_segments :: "u8 list list \<Rightarrow> nat \<Rightarrow> socket \<Rightarrow> nat \<Rightarrow> (int \<times> socket \<times> nat) option" where
  "send_segments [] skip sk n = Some (0, sk, n)"
| "send_segments (seg # segs) skip sk n =
    (if skip \<noteq> 0 \<and> length seg \<le> skip then send_segments segs (skip - length seg) sk n
     else (case sock_xmit_send sk (drop skip seg) n of
         None \<Rightarrow> None
       | Some (result, sk, n) \<Rightarrow>
           if result < 0 then Some (result, sk, n) else send_segments segs 0 sk n))"

text \<open>
  \<open>nbd_send_cmd\<close>: the result is 0, a negative error or BLK_STS_RESOURCE, with the command and
  the socket as they are left.  \<open>fl\<close> are the flags of the configuration.  The part after the
  label \<open>send_pages\<close> is a function of its own.
\<close>

definition send_interrupted :: "u32 \<Rightarrow> nat \<Rightarrow> nbd_cmd \<Rightarrow> nbd_sock \<Rightarrow> int \<times> nbd_cmd \<times> nbd_sock" where
  "send_interrupted tag n cmd nsock = (BLK_STS_RESOURCE, cmd\<lparr>requeued := True\<rparr>, nsock\<lparr>pending := Some tag, sent := n\<rparr>)"

definition send_pages :: "u32 \<Rightarrow> request \<Rightarrow> nat \<Rightarrow> nat \<Rightarrow> nbd_cmd \<Rightarrow> nbd_sock \<Rightarrow> (int \<times> nbd_cmd \<times> nbd_sock) option" where
  "send_pages tag req skip n cmd nsock =
    (if req_to_nbd_cmd_type (rq_op req) \<noteq> NBD_CMD_WRITE then Some (0, cmd, nsock\<lparr>pending := None, sent := 0\<rparr>)
     else map_option (\<lambda>(result, sk, n).
         if result < 0
         then if was_interrupted result then send_interrupted tag n cmd (nsock\<lparr>sock := sk\<rparr>)
              else (- EAGAIN, cmd, nsock\<lparr>sock := sk\<rparr>)
         else (0, cmd, nsock\<lparr>sock := sk, pending := None, sent := 0\<rparr>))
       (send_segments (rq_segments req) skip (sock nsock) n))"

definition nbd_send_cmd ::
  "u32 \<Rightarrow> u32 \<Rightarrow> request \<Rightarrow> nat \<Rightarrow> nbd_cmd \<Rightarrow> nbd_sock \<Rightarrow> (int \<times> nbd_cmd \<times> nbd_sock) option" where
  "nbd_send_cmd fl tag req index cmd nsock =
    (if req_to_nbd_cmd_type (rq_op req) = - 1 then Some (- EIO, cmd, nsock)
     else if rq_writes (rq_op req) \<and> fl AND NBD_FLAG_READ_ONLY \<noteq> 0 then Some (- EIO, cmd, nsock)
     else if 28 \<le> sent nsock then send_pages tag req (sent nsock - 28) (sent nsock) cmd nsock
     else (let cmd = (if sent nsock = 0 then cmd\<lparr>cmd_cookie := cmd_cookie cmd + 1\<rparr> else cmd);
               cmd = cmd\<lparr>cmd_index := index, cookie := sock_cookie nsock, retries := 0\<rparr>
           in case sock_xmit_send (sock nsock) (drop (sent nsock) (nbd_request_header tag req cmd)) (sent nsock) of
                None \<Rightarrow> None
              | Some (result, sk, n) \<Rightarrow>
                  if result < 0
                  then if was_interrupted result
                       then Some (if n \<noteq> 0 then send_interrupted tag n cmd (nsock\<lparr>sock := sk\<rparr>)
                                  else (BLK_STS_RESOURCE, cmd\<lparr>requeued := True\<rparr>, nsock\<lparr>sock := sk\<rparr>))
                       else Some (- EAGAIN, cmd, nsock\<lparr>sock := sk\<rparr>)
                  else send_pages tag req 0 n cmd (nsock\<lparr>sock := sk\<rparr>)))"

section \<open>The bytes that reach the socket\<close>

text \<open>The message of a request: its header, and its data when it writes.\<close>

definition nbd_message :: "u32 \<Rightarrow> request \<Rightarrow> nbd_cmd \<Rightarrow> u8 list" where
  "nbd_message tag req cmd = nbd_request_header tag req cmd @
     (if req_to_nbd_cmd_type (rq_op req) = NBD_CMD_WRITE then concat (rq_segments req) else [])"

text \<open>
  One call takes a prefix of its data, all of it when it succeeds and not all of it when it
  fails.
\<close>

lemma sock_send_loop:
  assumes "sock_send_loop rs bs n w = Some (result, rs', w', n')" "bs \<noteq> []"
  shows "\<exists>l\<le>length bs. w' = w @ take l bs \<and> n' = n + l \<and> (0 \<le> result \<longleftrightarrow> l = length bs)"
  using assms
proof (induction rs bs n w rule: sock_send_loop.induct)
  case (2 r rs bs n w)
  show ?case
  proof (cases "r \<le> 0")
    case True
    then show ?thesis using 2(2,3) by (intro exI [of _ 0]) (auto split: if_splits)
  next
    case False
    define m where "m = min (nat r) (length bs)"
    have m: "0 < m" "m \<le> length bs" using False 2(3) by (auto simp: m_def)
    show ?thesis
    proof (cases "drop m bs = []")
      case True
      then have "m = length bs" using m by simp
      then show ?thesis using 2(2) False m by (auto simp: m_def [symmetric] Let_def)
    next
      case drop: False
      obtain l where l: "l \<le> length (drop m bs)" "w' = (w @ take m bs) @ take l (drop m bs)" "n' = (n + m) + l"
        "0 \<le> result \<longleftrightarrow> l = length (drop m bs)"
        using 2(1) [OF False m_def] 2(2) False drop m by (auto simp: m_def [symmetric] Let_def)
      have "take m bs @ take l (drop m bs) = take (m + l) bs" by (simp add: take_add)
      then show ?thesis using l m by (intro exI [of _ "m + l"]) auto
    qed
  qed
qed simp

lemma sock_xmit_send:
  assumes "sock_xmit_send sk bs n = Some (result, sk', n')" "bs \<noteq> []"
  obtains l where "l \<le> length bs" "wire sk' = wire sk @ take l bs" "n' = n + l" "0 \<le> result \<longleftrightarrow> l = length bs"
  using sock_send_loop [OF _ assms(2)] assms(1) unfolding sock_xmit_send_def by fastforce

lemma send_segments:
  assumes "send_segments segs skip sk n = Some (result, sk', n')" "[] \<notin> set segs" "skip \<le> length (concat segs)"
  shows "\<exists>l\<le>length (concat segs) - skip. wire sk' = wire sk @ take l (drop skip (concat segs)) \<and> n' = n + l
           \<and> (0 \<le> result \<longleftrightarrow> l = length (concat segs) - skip)"
  using assms
proof (induction segs arbitrary: skip sk n)
  case (Cons seg segs)
  show ?case
  proof (cases "skip \<noteq> 0 \<and> length seg \<le> skip")
    case True
    then have "skip - length seg \<le> length (concat segs)" "length (concat (seg # segs)) - skip = length (concat segs) - (skip - length seg)"
      using Cons.prems(3) by auto
    then show ?thesis using Cons.IH [of "skip - length seg" sk n] Cons.prems True by simp
  next
    case False
    then have skip: "skip < length seg" using Cons.prems(2) by (cases "skip = 0") auto
    obtain r sk1 n1 where x: "sock_xmit_send sk (drop skip seg) n = Some (r, sk1, n1)"
      and y: "(if r < 0 then Some (r, sk1, n1) else send_segments segs 0 sk1 n1) = Some (result, sk', n')"
      using Cons.prems(1) unfolding send_segments.simps if_not_P [OF False] by (auto split: option.splits)
    obtain l where l: "l \<le> length seg - skip" "wire sk1 = wire sk @ take l (drop skip seg)" "n1 = n + l" "0 \<le> r \<longleftrightarrow> l = length seg - skip"
      using sock_xmit_send [OF x] skip by auto
    show ?thesis
    proof (cases "r < 0")
      case True
      then have "l < length seg - skip" using l(1,4) by auto
      then show ?thesis using l y True by (intro exI [of _ l]) auto
    next
      case r: False
      obtain m where m: "m \<le> length (concat segs)" "wire sk' = wire sk1 @ take m (concat segs)" "n' = n1 + m"
        "0 \<le> result \<longleftrightarrow> m = length (concat segs)"
        using Cons.IH [of 0 sk1 n1] y r Cons.prems(2) by auto
      show ?thesis using m l r skip by (intro exI [of _ "l + m"]) auto
    qed
  qed
qed simp

text \<open>
  A socket has taken a part of a message after the bytes W, and remembers how much.
\<close>

definition partially_sent :: "u8 list \<Rightarrow> u32 \<Rightarrow> request \<Rightarrow> nbd_cmd \<Rightarrow> nbd_sock \<Rightarrow> bool" where
  "partially_sent W tag req cmd nsock \<longleftrightarrow>
     wire (sock nsock) = W @ take (sent nsock) (nbd_message tag req cmd) \<and> sent nsock < length (nbd_message tag req cmd)"

definition fully_sent :: "u8 list \<Rightarrow> u32 \<Rightarrow> request \<Rightarrow> nbd_cmd \<Rightarrow> nbd_sock \<Rightarrow> bool" where
  "fully_sent W tag req cmd nsock \<longleftrightarrow>
     wire (sock nsock) = W @ nbd_message tag req cmd \<and> pending nsock = None \<and> sent nsock = 0"

lemma message_write: "req_to_nbd_cmd_type (rq_op req) = NBD_CMD_WRITE \<Longrightarrow>
    nbd_message tag req cmd = nbd_request_header tag req cmd @ concat (rq_segments req)"
  and message_other: "req_to_nbd_cmd_type (rq_op req) \<noteq> NBD_CMD_WRITE \<Longrightarrow> nbd_message tag req cmd = nbd_request_header tag req cmd"
  by (simp_all add: nbd_message_def)

lemma was_interrupted_neg: "was_interrupted r \<Longrightarrow> r < 0"
  by (auto simp: was_interrupted_def)

lemma message_cookie: "cmd_cookie cmd = cmd_cookie cmd' \<Longrightarrow> nbd_message tag req cmd = nbd_message tag req cmd'"
  by (simp add: nbd_message_def nbd_request_header_def nbd_cmd_handle_def Let_def)

lemma message_cmd: "nbd_message tag req (cmd\<lparr>requeued := b\<rparr>) = nbd_message tag req cmd"
  by (rule message_cookie) simp

text \<open>What the part after the label leaves, when skip bytes of the data have been sent.\<close>

lemma send_pages:
  assumes "send_pages tag req skip n cmd nsock = Some (r, cmd', nsock')" "[] \<notin> set (rq_segments req)"
    and "wire (sock nsock) = W @ take n (nbd_message tag req cmd)" "n = 28 + skip" "n \<le> length (nbd_message tag req cmd)"
  shows "r = 0 \<Longrightarrow> fully_sent W tag req cmd' nsock'"
    and "r = BLK_STS_RESOURCE \<Longrightarrow> partially_sent W tag req cmd' nsock' \<and> pending nsock' = Some tag \<and> sent nsock' \<noteq> 0"
    and "r = 0 \<or> r = BLK_STS_RESOURCE \<or> r = - EAGAIN"
proof -
  have "(r = 0 \<longrightarrow> fully_sent W tag req cmd' nsock') \<and>
    (r = BLK_STS_RESOURCE \<longrightarrow> partially_sent W tag req cmd' nsock' \<and> pending nsock' = Some tag \<and> sent nsock' \<noteq> 0) \<and>
    (r = 0 \<or> r = BLK_STS_RESOURCE \<or> r = - EAGAIN)"
  proof (cases "req_to_nbd_cmd_type (rq_op req) = NBD_CMD_WRITE")
    case False
    then show ?thesis using assms by (auto simp: send_pages_def fully_sent_def message_other)
  next
    case True
    let ?d = "concat (rq_segments req)"
    have skip: "skip \<le> length ?d" using assms(4,5) by (simp add: message_write True)
    obtain q sk m where s: "send_segments (rq_segments req) skip (sock nsock) n = Some (q, sk, m)"
      and res: "(r, cmd', nsock') = (if q < 0
         then if was_interrupted q then send_interrupted tag m cmd (nsock\<lparr>sock := sk\<rparr>)
              else (- EAGAIN, cmd, nsock\<lparr>sock := sk\<rparr>)
         else (0, cmd, nsock\<lparr>sock := sk, pending := None, sent := 0\<rparr>))"
      using assms(1) True by (auto simp: send_pages_def)
    obtain l where l: "l \<le> length ?d - skip" "wire sk = wire (sock nsock) @ take l (drop skip ?d)" "m = n + l" "0 \<le> q \<longleftrightarrow> l = length ?d - skip"
      using send_segments [OF s assms(2) skip] by blast
    have w: "wire sk = W @ take m (nbd_message tag req cmd)"
      using l(2,3) assms(3,4) by (simp add: message_write True take_add)
    show ?thesis
    proof (cases "q < 0")
      case q: True
      then have "l < length ?d - skip" using l(1,4) by auto
      then have "m < length (nbd_message tag req cmd)" using l(3) assms(4) by (simp add: message_write True)
      then show ?thesis using res q w l(3) assms(4)
        by (auto simp: send_interrupted_def partially_sent_def message_cmd split: if_splits)
    next
      case q: False
      then have "m = length (nbd_message tag req cmd)" using l(3,4) assms(4) skip by (simp add: message_write True)
      then show ?thesis using res q w by (auto simp: fully_sent_def)
    qed
  qed
  then show "r = 0 \<Longrightarrow> fully_sent W tag req cmd' nsock'"
    and "r = BLK_STS_RESOURCE \<Longrightarrow> partially_sent W tag req cmd' nsock' \<and> pending nsock' = Some tag \<and> sent nsock' \<noteq> 0"
    and "r = 0 \<or> r = BLK_STS_RESOURCE \<or> r = - EAGAIN" by blast+
qed

lemma take_header: "n \<le> 28 \<Longrightarrow> take n (nbd_message tag req cmd) = take n (nbd_request_header tag req cmd)"
  by (simp add: nbd_message_def)

lemma header_le: "28 \<le> length (nbd_message tag req cmd)"
  by (simp add: nbd_message_def)

lemma message_ne [simp]: "nbd_message tag req cmd \<noteq> []"
  using header_le [of tag req cmd] by auto

text \<open>The ways \<open>nbd_send_cmd\<close> goes: an error, the rest of the data, or the header first.\<close>

definition send_header_cmd :: "nat \<Rightarrow> nbd_sock \<Rightarrow> nbd_cmd \<Rightarrow> nbd_cmd" where
  "send_header_cmd index nsock cmd = (if sent nsock = 0 then cmd\<lparr>cmd_cookie := cmd_cookie cmd + 1\<rparr> else cmd)
     \<lparr>cmd_index := index, cookie := sock_cookie nsock, retries := 0\<rparr>"

lemma nbd_send_cmd_cases:
  assumes "nbd_send_cmd fl tag req index cmd nsock = Some (r, cmd', nsock')"
  obtains (error) "r = - EIO" "cmd' = cmd" "nsock' = nsock"
    | (rest) "28 \<le> sent nsock" "send_pages tag req (sent nsock - 28) (sent nsock) cmd nsock = Some (r, cmd', nsock')"
    | (head) c q sk m where "c = send_header_cmd index nsock cmd" "sent nsock < 28"
        "sock_xmit_send (sock nsock) (drop (sent nsock) (nbd_request_header tag req c)) (sent nsock) = Some (q, sk, m)"
        "(if q < 0
          then if was_interrupted q
               then Some (if m \<noteq> 0 then send_interrupted tag m c (nsock\<lparr>sock := sk\<rparr>)
                          else (BLK_STS_RESOURCE, c\<lparr>requeued := True\<rparr>, nsock\<lparr>sock := sk\<rparr>))
               else Some (- EAGAIN, c, nsock\<lparr>sock := sk\<rparr>)
          else send_pages tag req 0 m c (nsock\<lparr>sock := sk\<rparr>)) = Some (r, cmd', nsock')"
  using assms unfolding nbd_send_cmd_def Let_def send_header_cmd_def [symmetric]
  by (auto simp del: if_split_asm split: option.splits if_split_asm)

lemma nbd_send_cmd:
  assumes "nbd_send_cmd fl tag req index cmd nsock = Some (r, cmd', nsock')" "[] \<notin> set (rq_segments req)"
    and "partially_sent W tag req cmd nsock" "sent nsock \<noteq> 0 \<longleftrightarrow> pending nsock = Some tag"
  shows "r = 0 \<Longrightarrow> fully_sent W tag req cmd' nsock'"
    and "r = BLK_STS_RESOURCE \<Longrightarrow> partially_sent W tag req cmd' nsock' \<and> (sent nsock' \<noteq> 0 \<longleftrightarrow> pending nsock' = Some tag)"
    and "r = 0 \<or> r = BLK_STS_RESOURCE \<or> r = - EAGAIN \<or> r = - EIO"
proof -
  have wire: "wire (sock nsock) = W @ take (sent nsock) (nbd_message tag req cmd)" "sent nsock < length (nbd_message tag req cmd)"
    using assms(3) by (simp_all add: partially_sent_def)
  from assms(1) have "(r = 0 \<longrightarrow> fully_sent W tag req cmd' nsock') \<and>
    (r = BLK_STS_RESOURCE \<longrightarrow> partially_sent W tag req cmd' nsock' \<and> (sent nsock' \<noteq> 0 \<longleftrightarrow> pending nsock' = Some tag)) \<and>
    (r = 0 \<or> r = BLK_STS_RESOURCE \<or> r = - EAGAIN \<or> r = - EIO)"
  proof (cases rule: nbd_send_cmd_cases)
    case error
    then show ?thesis by simp
  next
    case rest
    show ?thesis using send_pages [OF rest(2) assms(2) wire(1)] rest(1) wire(2) by auto
  next
    case (head c q sk m)
    have msg: "take (sent nsock) (nbd_message tag req c) = take (sent nsock) (nbd_message tag req cmd)"
      using message_cookie [of c cmd tag req] by (cases "sent nsock = 0") (simp_all add: head(1) send_header_cmd_def)
    obtain l where l: "l \<le> 28 - sent nsock" "wire sk = wire (sock nsock) @ take l (drop (sent nsock) (nbd_request_header tag req c))"
      "m = sent nsock + l" "0 \<le> q \<longleftrightarrow> l = 28 - sent nsock"
      using sock_xmit_send [OF head(3)] head(2) by auto
    have m: "m \<le> 28" using l(1,3) head(2) by simp
    have "wire sk = W @ take (sent nsock) (nbd_message tag req c) @ take l (drop (sent nsock) (nbd_request_header tag req c))"
      using l(2) wire(1) msg by simp
    also have "take (sent nsock) (nbd_message tag req c) @ take l (drop (sent nsock) (nbd_request_header tag req c))
        = take m (nbd_message tag req c)"
      unfolding take_header [OF m] take_header [OF less_imp_le [OF head(2)]] by (simp only: l(3) take_add)
    finally have w: "wire sk = W @ take m (nbd_message tag req c)" .
    show ?thesis
    proof (cases "q < 0")
      case True
      then have m28: "m < 28" using l(1,3,4) head(2) by auto
      have len: "m < length (nbd_message tag req c)" using m28 header_le [of tag req c] by linarith
      note res = head(4) [unfolded if_P [OF True]]
      show ?thesis
      proof (cases "was_interrupted q")
        case intr: True
        note res = res [unfolded if_P [OF intr] send_interrupted_def option.inject]
        show ?thesis
        proof (cases "m = 0")
          case True
          then show ?thesis using res w len l(3) assms(4) by (auto simp: partially_sent_def message_cmd)
        next
          case False
          then show ?thesis using res w len by (auto simp: partially_sent_def message_cmd)
        qed
      qed (use res in simp)
    next
      case False
      then have "m = 28" using l(3,4) head(2) by auto
      then show ?thesis using send_pages [of tag req 0 m c "nsock\<lparr>sock := sk\<rparr>" r cmd' nsock' W] head(4) False w assms(2) header_le [of tag req c]
        by auto
    qed
  qed
  then show "r = 0 \<Longrightarrow> fully_sent W tag req cmd' nsock'"
    and "r = BLK_STS_RESOURCE \<Longrightarrow> partially_sent W tag req cmd' nsock' \<and> (sent nsock' \<noteq> 0 \<longleftrightarrow> pending nsock' = Some tag)"
    and "r = 0 \<or> r = BLK_STS_RESOURCE \<or> r = - EAGAIN \<or> r = - EIO" by blast+
qed

section \<open>Attempts until a request is sent\<close>

text \<open>
  The block layer dispatches a request again while the driver answers that it is busy.
\<close>

fun send_attempts :: "nat \<Rightarrow> u32 \<Rightarrow> u32 \<Rightarrow> request \<Rightarrow> nat \<Rightarrow> nbd_cmd \<Rightarrow> nbd_sock \<Rightarrow> (int \<times> nbd_cmd \<times> nbd_sock) option" where
  "send_attempts 0 fl tag req index cmd nsock = None"
| "send_attempts (Suc k) fl tag req index cmd nsock =
    (case nbd_send_cmd fl tag req index cmd nsock of
       None \<Rightarrow> None
     | Some (r, cmd, nsock) \<Rightarrow>
         if r = BLK_STS_RESOURCE then send_attempts k fl tag req index cmd nsock else Some (r, cmd, nsock))"

lemma send_attempts:
  assumes "send_attempts k fl tag req index cmd nsock = Some (0, cmd', nsock')" "[] \<notin> set (rq_segments req)"
    and "partially_sent W tag req cmd nsock" "sent nsock \<noteq> 0 \<longleftrightarrow> pending nsock = Some tag"
  shows "fully_sent W tag req cmd' nsock'"
  using assms
proof (induction k arbitrary: cmd nsock)
  case (Suc k)
  obtain r c s where x: "nbd_send_cmd fl tag req index cmd nsock = Some (r, c, s)"
    and y: "(if r = BLK_STS_RESOURCE then send_attempts k fl tag req index c s else Some (r, c, s)) = Some (0, cmd', nsock')"
    using Suc.prems(1) by (auto split: option.splits)
  show ?case using y Suc.IH [of c s] nbd_send_cmd(1,2) [OF x Suc.prems(2-4)] Suc.prems(2) by (auto split: if_splits)
qed simp

text \<open>
  A network that answers every call by taking some bytes or with an interruption, and takes
  bytes often enough: at least once for each byte of the message in the worst case.
\<close>

definition good_answers :: "int list \<Rightarrow> bool" where
  "good_answers rs \<longleftrightarrow> (\<forall>r\<in>set rs. 0 < r \<or> was_interrupted r)"

definition positives :: "int list \<Rightarrow> nat" where
  "positives rs = length (filter (\<lambda>r. 0 < r) rs)"

lemma good_answers_simps [simp]:
  "good_answers []" "good_answers (r # rs) \<longleftrightarrow> (0 < r \<or> was_interrupted r) \<and> good_answers rs"
  by (simp_all add: good_answers_def)

lemma positives_simps [simp]:
  "positives [] = 0" "positives (r # rs) = (if 0 < r then Suc (positives rs) else positives rs)"
  by (simp_all add: positives_def)

text \<open>What one call leaves: good answers, fewer of them after an interruption.\<close>

definition answers_left :: "int list \<Rightarrow> nat \<Rightarrow> int \<Rightarrow> int list \<Rightarrow> nat \<Rightarrow> bool" where
  "answers_left rs n result rs' n' \<longleftrightarrow>
     good_answers rs' \<and> length rs' \<le> length rs \<and> positives rs + n \<le> positives rs' + n' \<and>
     (0 \<le> result \<or> was_interrupted result \<and> length rs' < length rs)"

lemma answers_left_trans:
  "answers_left rs n r rs' n' \<Longrightarrow> answers_left rs' n' r' rs'' n'' \<Longrightarrow> answers_left rs n r' rs'' n''"
  by (auto simp: answers_left_def)

lemma sock_send_loop_returns:
  assumes "good_answers rs" "bs \<noteq> []" "length bs \<le> positives rs"
  shows "\<exists>result rs' w' n'. sock_send_loop rs bs n w = Some (result, rs', w', n') \<and> answers_left rs n result rs' n'"
  using assms
proof (induction rs bs n w rule: sock_send_loop.induct)
  case (2 r rs bs n w)
  show ?case
  proof (cases "r \<le> 0")
    case True
    then have "was_interrupted r" using 2(2) by auto
    then show ?thesis using 2(2) True by (auto simp: answers_left_def was_interrupted_def)
  next
    case False
    define k where "k = min (nat r) (length bs)"
    have k: "0 < k" "k \<le> length bs" using False 2(3) by (auto simp: k_def)
    show ?thesis
    proof (cases "drop k bs = []")
      case True
      then have "sock_send_loop (r # rs) bs n w = Some (int k, rs, w @ take k bs, n + k)"
        unfolding sock_send_loop.simps Let_def k_def [symmetric] using False k(1) by simp
      then show ?thesis using k 2(2) by (simp add: answers_left_def)
    next
      case drop: False
      have "length (drop k bs) \<le> positives rs" using k 2(4) False by auto
      then have "\<exists>result rs' w' n'. sock_send_loop rs (drop k bs) (n + k) (w @ take k bs) = Some (result, rs', w', n') \<and>
          answers_left rs (n + k) result rs' n'"
        by (rule_tac 2(1) [OF False k_def]) (use k drop 2(2) in auto)
      then obtain result rs' w' n' where x: "sock_send_loop rs (drop k bs) (n + k) (w @ take k bs) = Some (result, rs', w', n')"
        "answers_left rs (n + k) result rs' n'"
        by blast
      have "answers_left (r # rs) n result rs' n'"
        using x(2) k(1) False by (auto simp: answers_left_def)
      then show ?thesis using x(1) False k drop by (simp add: k_def [symmetric] Let_def)
    qed
  qed
qed simp

lemma sock_xmit_send_returns:
  assumes "\<not> shut sk" "good_answers (tx_results sk)" "bs \<noteq> []" "length bs \<le> positives (tx_results sk)"
  obtains result sk' n' where "sock_xmit_send sk bs n = Some (result, sk', n')"
    "answers_left (tx_results sk) n result (tx_results sk') n'" "\<not> shut sk'"
proof -
  obtain result rs' w' n' where x: "sock_send_loop (tx_results sk) bs n (wire sk) = Some (result, rs', w', n')"
    "answers_left (tx_results sk) n result rs' n'"
    using sock_send_loop_returns [OF assms(2-4)] by blast
  show thesis
    by (rule that [of result "sk\<lparr>tx_results := rs', wire := w'\<rparr>" n']) (use x assms(1) in \<open>simp_all add: sock_xmit_send_def\<close>)
qed

lemma send_segments_returns:
  assumes "\<not> shut sk" "good_answers (tx_results sk)" "[] \<notin> set segs" "skip \<le> length (concat segs)"
    and "length (concat segs) - skip \<le> positives (tx_results sk)"
  shows "\<exists>result sk' n'. send_segments segs skip sk n = Some (result, sk', n') \<and>
    answers_left (tx_results sk) n result (tx_results sk') n' \<and> \<not> shut sk'"
  using assms
proof (induction segs arbitrary: skip sk n)
  case Nil
  then show ?case by (simp add: answers_left_def)
next
  case (Cons seg segs)
  show ?case
  proof (cases "skip \<noteq> 0 \<and> length seg \<le> skip")
    case True
    then have "skip - length seg \<le> length (concat segs)" "length (concat (seg # segs)) - skip = length (concat segs) - (skip - length seg)"
      using Cons.prems(4) by auto
    then show ?thesis using Cons.IH [of sk "skip - length seg" n] Cons.prems True by simp
  next
    case False
    then have skip: "skip < length seg" using Cons.prems(3) by (cases "skip = 0") auto
    then have "length (drop skip seg) \<le> positives (tx_results sk)" "drop skip seg \<noteq> []" using Cons.prems(5) by auto
    then obtain r sk1 n1 where x: "sock_xmit_send sk (drop skip seg) n = Some (r, sk1, n1)"
      "answers_left (tx_results sk) n r (tx_results sk1) n1" "\<not> shut sk1"
      using sock_xmit_send_returns [OF Cons.prems(1,2)] by metis
    show ?thesis
    proof (cases "r < 0")
      case True
      then show ?thesis unfolding send_segments.simps if_not_P [OF False] using x by simp
    next
      case r: False
      obtain l where l: "n1 = n + l" "l = length seg - skip"
        using sock_xmit_send [OF x(1)] r skip by fastforce
      have "length (concat segs) \<le> positives (tx_results sk1)"
        using x(2) l Cons.prems(5) skip by (auto simp: answers_left_def)
      then obtain r' sk' n' where y: "send_segments segs 0 sk1 n1 = Some (r', sk', n')"
        "answers_left (tx_results sk1) n1 r' (tx_results sk') n'" "\<not> shut sk'"
        using Cons.IH [of sk1 0 n1] x Cons.prems(3) by (auto simp: answers_left_def)
      then show ?thesis unfolding send_segments.simps if_not_P [OF False] using x r answers_left_trans [OF x(2) y(2)] by simp
    qed
  qed
qed

lemma length_message: "length (nbd_message tag req cmd) = 28 + (if req_to_nbd_cmd_type (rq_op req) = NBD_CMD_WRITE then length (concat (rq_segments req)) else 0)"
  by (simp add: nbd_message_def)

definition sends_allowed :: "u32 \<Rightarrow> request \<Rightarrow> bool" where
  "sends_allowed fl req \<longleftrightarrow> req_to_nbd_cmd_type (rq_op req) \<noteq> - 1 \<and> (rq_writes (rq_op req) \<longrightarrow> fl AND NBD_FLAG_READ_ONLY = 0)"

definition enough_answers :: "u32 \<Rightarrow> request \<Rightarrow> nbd_cmd \<Rightarrow> nbd_sock \<Rightarrow> bool" where
  "enough_answers tag req cmd nsock \<longleftrightarrow> \<not> shut (sock nsock) \<and> good_answers (tx_results (sock nsock)) \<and>
     length (nbd_message tag req cmd) \<le> positives (tx_results (sock nsock)) + sent nsock"

text \<open>One dispatch sends the rest or is interrupted, and then fewer answers are left.\<close>

definition send_goes_on :: "int \<Rightarrow> int list \<Rightarrow> u32 \<Rightarrow> request \<Rightarrow> nbd_cmd \<Rightarrow> nbd_sock \<Rightarrow> bool" where
  "send_goes_on r rs tag req cmd nsock \<longleftrightarrow> r = 0 \<or>
     r = BLK_STS_RESOURCE \<and> enough_answers tag req cmd nsock \<and> length (tx_results (sock nsock)) < length rs"

lemma send_pages_returns:
  assumes "\<not> shut (sock nsock)" "good_answers (tx_results (sock nsock))" "[] \<notin> set (rq_segments req)"
    and "n = 28 + skip" "n \<le> length (nbd_message tag req cmd)"
    and "length (nbd_message tag req cmd) \<le> positives (tx_results (sock nsock)) + n"
  shows "\<exists>r cmd' nsock'. send_pages tag req skip n cmd nsock = Some (r, cmd', nsock') \<and>
    send_goes_on r (tx_results (sock nsock)) tag req cmd' nsock'"
proof (cases "req_to_nbd_cmd_type (rq_op req) = NBD_CMD_WRITE")
  case True
  have "length (concat (rq_segments req)) - skip \<le> positives (tx_results (sock nsock))"
    using assms(4,6) True by (simp add: length_message)
  with True obtain q sk m where s: "send_segments (rq_segments req) skip (sock nsock) n = Some (q, sk, m)"
    "answers_left (tx_results (sock nsock)) n q (tx_results sk) m" "\<not> shut sk"
    using send_segments_returns [OF assms(1-3), of skip n] assms(4-6) by (auto simp: length_message)
  then show ?thesis using True assms(6)
    by (auto simp: send_pages_def send_goes_on_def enough_answers_def answers_left_def send_interrupted_def length_message)
qed (simp add: send_pages_def send_goes_on_def)

lemma nbd_send_cmd_returns:
  assumes "enough_answers tag req cmd nsock" "sends_allowed fl req" "[] \<notin> set (rq_segments req)"
    and "partially_sent W tag req cmd nsock"
  shows "\<exists>r cmd' nsock'. nbd_send_cmd fl tag req index cmd nsock = Some (r, cmd', nsock') \<and>
    send_goes_on r (tx_results (sock nsock)) tag req cmd' nsock'"
proof (cases "28 \<le> sent nsock")
  case True
  then show ?thesis
    using send_pages_returns [of nsock req "sent nsock" "sent nsock - 28" tag cmd] assms
    by (auto simp: nbd_send_cmd_def sends_allowed_def enough_answers_def partially_sent_def)
next
  case False
  define c where "c = send_header_cmd index nsock cmd"
  define h where "h = drop (sent nsock) (nbd_request_header tag req c)"
  have h: "h \<noteq> []" "length h = 28 - sent nsock" using False by (auto simp: h_def)
  have enough: "length h \<le> positives (tx_results (sock nsock))"
    using assms(1) h(2) False by (auto simp: enough_answers_def length_message)
  obtain q sk m where x: "sock_xmit_send (sock nsock) h (sent nsock) = Some (q, sk, m)"
    "answers_left (tx_results (sock nsock)) (sent nsock) q (tx_results sk) m" "\<not> shut sk"
    using sock_xmit_send_returns [of "sock nsock" h] assms(1) h(1) enough unfolding enough_answers_def by metis
  have allowed: "req_to_nbd_cmd_type (rq_op req) \<noteq> - 1" "\<not> (rq_writes (rq_op req) \<and> fl AND NBD_FLAG_READ_ONLY \<noteq> 0)"
    using assms(2) by (auto simp: sends_allowed_def)
  have code: "nbd_send_cmd fl tag req index cmd nsock =
      (if q < 0
       then if was_interrupted q
            then Some (if m \<noteq> 0 then send_interrupted tag m c (nsock\<lparr>sock := sk\<rparr>)
                       else (BLK_STS_RESOURCE, c\<lparr>requeued := True\<rparr>, nsock\<lparr>sock := sk\<rparr>))
            else Some (- EAGAIN, c, nsock\<lparr>sock := sk\<rparr>)
       else send_pages tag req 0 m c (nsock\<lparr>sock := sk\<rparr>))"
    using False x(1) unfolding nbd_send_cmd_def Let_def send_header_cmd_def [symmetric] c_def [symmetric] h_def [symmetric] if_not_P [OF allowed(1)] if_not_P [OF allowed(2)] by simp
  show ?thesis
  proof (cases "q < 0")
    case True
    moreover have "m = 0 \<Longrightarrow> sent nsock = 0"
      by (rule sock_xmit_send [OF x(1) h(1)]) auto
    ultimately show ?thesis using x(2,3) assms(1) unfolding code
      by (auto simp: send_goes_on_def enough_answers_def answers_left_def send_interrupted_def length_message)
  next
    case q: False
    then have m: "m = 28"
      by (rule_tac sock_xmit_send [OF x(1) h(1)]) (use h(2) False in auto)
    obtain r cmd' nsock' where y: "send_pages tag req 0 m c (nsock\<lparr>sock := sk\<rparr>) = Some (r, cmd', nsock')"
      "send_goes_on r (tx_results sk) tag req cmd' nsock'"
      using send_pages_returns [of "nsock\<lparr>sock := sk\<rparr>" req m 0 tag c] x(2,3) m assms(1,3)
      by (auto simp: answers_left_def enough_answers_def length_message)
    then have "send_goes_on r (tx_results (sock nsock)) tag req cmd' nsock'"
      using x(2) by (auto simp: send_goes_on_def answers_left_def)
    then show ?thesis using y(1) q unfolding code by simp
  qed
qed

lemma send_attempts_return:
  assumes "enough_answers tag req cmd nsock" "sends_allowed fl req" "[] \<notin> set (rq_segments req)"
    and "partially_sent W tag req cmd nsock" "sent nsock \<noteq> 0 \<longleftrightarrow> pending nsock = Some tag"
    and "length (tx_results (sock nsock)) < k"
  shows "\<exists>cmd' nsock'. send_attempts k fl tag req index cmd nsock = Some (0, cmd', nsock')"
  using assms
proof (induction k arbitrary: cmd nsock)
  case (Suc k)
  obtain r c s where x: "nbd_send_cmd fl tag req index cmd nsock = Some (r, c, s)"
    "send_goes_on r (tx_results (sock nsock)) tag req c s"
    using nbd_send_cmd_returns [OF Suc.prems(1-4)] by blast
  show ?case
  proof (cases "r = 0")
    case False
    then have r: "r = BLK_STS_RESOURCE" "enough_answers tag req c s" "length (tx_results (sock s)) < k"
      using x(2) Suc.prems(6) by (auto simp: send_goes_on_def)
    then show ?thesis
      using Suc.IH [OF r(2) Suc.prems(2,3)] nbd_send_cmd(2) [OF x(1) Suc.prems(3-5) r(1)] x(1) by simp
  qed (simp add: x(1))
qed simp

end
