(* ===== verification/Nbd_Device.thy ===== *)
theory Nbd_Device
  imports Nbd_Send
begin

text \<open>
  The operations of a network block device on its requests, its sockets and its configuration
  (nbd.c): completing, requeueing and aborting requests, marking sockets dead, the size of the
  disk, and the references that keep the configuration and the device.

  A pointer to the configuration that is NULL is None; the code follows it only while it holds
  a reference.  An operation of the block layer on a request (blk-mq.c of deliba3, the same
  interface) is its effect on the state of the request and an event.
\<close>

section \<open>Parts of a device\<close>

abbreviation cfg :: "nbd_device \<Rightarrow> nbd_config" where
  "cfg nbd \<equiv> the (config nbd)"

definition with_config :: "(nbd_config \<Rightarrow> nbd_config) \<Rightarrow> nbd_device \<Rightarrow> nbd_device" where
  "with_config f nbd = nbd\<lparr>config := map_option f (config nbd)\<rparr>"

definition with_sock :: "nat \<Rightarrow> (nbd_sock \<Rightarrow> nbd_sock) \<Rightarrow> nbd_config \<Rightarrow> nbd_config" where
  "with_sock i f c = c\<lparr>socks := (socks c)[i := f (socks c ! i)]\<rparr>"

definition with_cmd :: "u32 \<Rightarrow> (nbd_cmd \<Rightarrow> nbd_cmd) \<Rightarrow> nbd_device \<Rightarrow> nbd_device" where
  "with_cmd t f nbd = nbd\<lparr>cmds := (cmds nbd)(t := f (cmds nbd t))\<rparr>"

definition emit :: "nbd_event \<Rightarrow> nbd_device \<Rightarrow> nbd_device" where
  "emit e nbd = nbd\<lparr>events := events nbd @ [e]\<rparr>"

definition set_rq_state :: "u32 \<Rightarrow> mq_rq_state \<Rightarrow> nbd_device \<Rightarrow> nbd_device" where
  "set_rq_state t st nbd = nbd\<lparr>tags := (tags nbd)(t := map_option (\<lambda>r. r\<lparr>rq_state := st\<rparr>) (tags nbd t))\<rparr>"

definition started :: "u32 \<Rightarrow> nbd_device \<Rightarrow> bool" where
  "started t nbd \<longleftrightarrow> (case tags nbd t of None \<Rightarrow> False | Some r \<Rightarrow> rq_state r \<noteq> MQ_RQ_IDLE)"

definition completed :: "u32 \<Rightarrow> nbd_device \<Rightarrow> bool" where
  "completed t nbd \<longleftrightarrow> (case tags nbd t of None \<Rightarrow> False | Some r \<Rightarrow> rq_state r = MQ_RQ_COMPLETE)"

section \<open>Requests\<close>

definition blk_mq_start_request :: "u32 \<Rightarrow> nbd_device \<Rightarrow> nbd_device" where
  "blk_mq_start_request t nbd = emit (Start t) (set_rq_state t MQ_RQ_IN_FLIGHT nbd)"

definition blk_mq_requeue_request :: "u32 \<Rightarrow> nbd_device \<Rightarrow> nbd_device" where
  "blk_mq_requeue_request t nbd = emit (Requeue t) (if started t nbd then set_rq_state t MQ_RQ_IDLE nbd else nbd)"

text \<open>The block layer ends a request with the status of its command (\<open>nbd_complete_rq\<close>).\<close>

definition nbd_complete_rq :: "u32 \<Rightarrow> nbd_device \<Rightarrow> nbd_device" where
  "nbd_complete_rq t nbd = emit (Complete t (status (cmds nbd t))) nbd"

text \<open>
  The block layer may leave the completion to a soft interrupt or to the CPU of the submitter;
  here the request is marked complete and its completion is recorded in one step, so the history
  has it where it was requested.
\<close>

definition blk_mq_complete_request :: "u32 \<Rightarrow> nbd_device \<Rightarrow> nbd_device" where
  "blk_mq_complete_request t nbd = nbd_complete_rq t (set_rq_state t MQ_RQ_COMPLETE nbd)"

definition nbd_requeue_cmd :: "u32 \<Rightarrow> nbd_device \<Rightarrow> nbd_device" where
  "nbd_requeue_cmd t nbd =
    (if requeued (cmds nbd t) then nbd
     else blk_mq_requeue_request t (with_cmd t (\<lambda>c. c\<lparr>requeued := True\<rparr>) nbd))"

definition nbd_clear_req :: "u32 \<Rightarrow> nbd_device \<Rightarrow> nbd_device" where
  "nbd_clear_req t nbd =
    (if completed t nbd then nbd
     else if \<not> inflight (cmds nbd t) then nbd
     else blk_mq_complete_request t (with_cmd t (\<lambda>c. c\<lparr>inflight := False, status := BLK_STS_IOERR\<rparr>) nbd))"

text \<open>The block layer visits the requests that have been started.\<close>

definition nbd_clear_que :: "nbd_device \<Rightarrow> nbd_device" where
  "nbd_clear_que nbd = fold (\<lambda>t nbd. if started t nbd then nbd_clear_req t nbd else nbd) (all_tags nbd) nbd"

section \<open>Sockets\<close>

text \<open>
  The part of \<open>nbd_mark_nsock_dead\<close> that works on the configuration, and the whole with the
  message that the link is dead.
\<close>

definition config_link_down :: "nat \<Rightarrow> nbd_config \<Rightarrow> nbd_config" where
  "config_link_down i c =
    (let c = with_sock i (\<lambda>s. s\<lparr>sock := (sock s)\<lparr>shut := True\<rparr>\<rparr>) c;
         c = c\<lparr>live_connections := live_connections c - 1\<rparr>
     in if live_connections c = 0 \<and> NBD_RT_DISCONNECT_REQUESTED \<in> runtime_flags c
        then c\<lparr>runtime_flags := insert NBD_RT_DISCONNECTED (runtime_flags c - {NBD_RT_DISCONNECT_REQUESTED})\<rparr>
        else c)"

definition config_mark_dead :: "nat \<Rightarrow> nbd_config \<Rightarrow> nbd_config" where
  "config_mark_dead i c =
    with_sock i (\<lambda>s. s\<lparr>dead := True, pending := None, sent := 0\<rparr>) (if dead (socks c ! i) then c else config_link_down i c)"

definition nbd_mark_nsock_dead :: "nat \<Rightarrow> bool \<Rightarrow> nbd_device \<Rightarrow> nbd_device" where
  "nbd_mark_nsock_dead i notify nbd =
    with_config (config_mark_dead i)
      (if \<not> dead (socks (cfg nbd) ! i) \<and> notify \<and> \<not> nbd_disconnected (cfg nbd)
       then emit (Link_dead (nbd_index nbd)) nbd else nbd)"

definition sock_shutdown :: "nbd_device \<Rightarrow> nbd_device" where
  "sock_shutdown nbd =
    (if num_connections (cfg nbd) = 0 then nbd
     else if NBD_RT_DISCONNECTED \<in> runtime_flags (cfg nbd) then nbd
     else fold (\<lambda>i. nbd_mark_nsock_dead i False) [0..<num_connections (cfg nbd)]
       (with_config (\<lambda>c. c\<lparr>runtime_flags := insert NBD_RT_DISCONNECTED (runtime_flags c)\<rparr>) nbd))"

definition nbd_clear_sock :: "nbd_device \<Rightarrow> nbd_device" where
  "nbd_clear_sock nbd = (nbd_clear_que (sock_shutdown nbd))\<lparr>task_setup := None\<rparr>"

section \<open>The size of the disk\<close>

text \<open>
  The position of the lowest bit that is set, for a block size that is not zero.
  blk_validate_block_size is a function of the block layer's headers.
\<close>

fun lowest_bit :: "nat \<Rightarrow> u64 \<Rightarrow> nat" where
  "lowest_bit 0 x = 0"
| "lowest_bit (Suc k) x = (if bit x 0 then 0 else Suc (lowest_bit k (drop_bit 1 x)))"

definition NBD_DEF_BLKSIZE_BITS :: nat where "NBD_DEF_BLKSIZE_BITS = 10"

definition nbd_set_size :: "(u64 \<Rightarrow> bool) \<Rightarrow> u64 \<Rightarrow> u64 \<Rightarrow> nbd_device \<Rightarrow> int \<times> nbd_device" where
  "nbd_set_size bad_blksize bytes blksize nbd =
    (let blksize = (if blksize = 0 then push_bit NBD_DEF_BLKSIZE_BITS 1 else blksize)
     in if bad_blksize blksize then (- EINVAL, nbd)
        else (let nbd = with_config (\<lambda>c. c\<lparr>bytesize := bytes, blksize_bits := lowest_bit 64 blksize\<rparr>) nbd
              in if pid nbd = 0 then (0, nbd) else (0, emit (Set_capacity (signed_drop_bit 9 bytes)) nbd)))"

section \<open>References\<close>

text \<open>
  A count that drops to zero releases what it counts.  The device is removed at once or by a
  work of its own, which is the same event here.
\<close>

definition nbd_put :: "nbd_device \<Rightarrow> nbd_device" where
  "nbd_put nbd =
    (if refs nbd - 1 = 0 then emit Remove (nbd\<lparr>refs := 0\<rparr>) else nbd\<lparr>refs := refs nbd - 1\<rparr>)"

text \<open>
  The part of \<open>nbd_config_put\<close> that runs when the count is zero.  Invalidating the disk, the
  discard limits of the queue and the reference to the module are left out: no other operation
  reads them.
\<close>

definition config_teardown :: "nbd_device \<Rightarrow> nbd_device" where
  "config_teardown nbd =
    (let nbd = nbd\<lparr>pid := 0, backend := (if NBD_RT_HAS_BACKEND_FILE \<in> runtime_flags (cfg nbd) then None else backend nbd)\<rparr>;
         nbd = nbd_clear_sock nbd
     in nbd\<lparr>config := None, timeout := 0\<rparr>)"

definition nbd_config_put :: "nbd_device \<Rightarrow> nbd_device" where
  "nbd_config_put nbd =
    (if config_refs nbd - 1 = 0 then nbd_put (config_teardown (nbd\<lparr>config_refs := 0\<rparr>))
     else nbd\<lparr>config_refs := config_refs nbd - 1\<rparr>)"

section \<open>Timeouts\<close>

datatype blk_eh_timer_return = BLK_EH_DONE | BLK_EH_RESET_TIMER

text \<open>
  \<open>nbd_xmit_timeout\<close>; \<open>locked\<close> tells whether the lock of the command is taken.
\<close>

definition timeout_retry :: "u32 \<Rightarrow> nbd_device \<Rightarrow> nbd_device" where
  "timeout_retry t nbd =
    (let cmd = cmds nbd t; config = cfg nbd;
         nbd = (if cmd_index cmd < num_connections config \<and> cookie cmd = sock_cookie (socks config ! cmd_index cmd)
                then nbd_mark_nsock_dead (cmd_index cmd) True nbd else nbd)
     in nbd_config_put (nbd_requeue_cmd t nbd))"

text \<open>
  Without a timeout there is one socket at most.  Like the code this reads the socket of the
  command without a test of the index: the index of a command in flight is that of the socket it
  was sent on, and sockets are only removed with their configuration.
\<close>

definition timeout_warn :: "u32 \<Rightarrow> nbd_device \<Rightarrow> blk_eh_timer_return \<times> nbd_device" where
  "timeout_warn t nbd =
    (let cmd = cmds nbd t; nsock = socks (cfg nbd) ! cmd_index cmd;
         nbd = with_cmd t (\<lambda>c. c\<lparr>retries := retries c + 1\<rparr>) nbd
     in if cookie cmd \<noteq> sock_cookie nsock then (BLK_EH_DONE, nbd_config_put (nbd_requeue_cmd t nbd))
        else (BLK_EH_RESET_TIMER, nbd_config_put nbd))"

definition nbd_xmit_timeout :: "bool \<Rightarrow> u32 \<Rightarrow> nbd_device \<Rightarrow> blk_eh_timer_return \<times> nbd_device" where
  "nbd_xmit_timeout locked t nbd =
    (if locked then (BLK_EH_RESET_TIMER, nbd)
     else if \<not> inflight (cmds nbd t) then (BLK_EH_DONE, nbd)
     else if config_refs nbd = 0
     then (BLK_EH_DONE, blk_mq_complete_request t (with_cmd t (\<lambda>c. c\<lparr>status := BLK_STS_TIMEOUT, inflight := False\<rparr>) nbd))
     else (let nbd = nbd\<lparr>config_refs := config_refs nbd + 1\<rparr>; n = num_connections (cfg nbd)
           in if 1 < n \<or> n = 1 \<and> timeout nbd \<noteq> 0 then (BLK_EH_DONE, timeout_retry t nbd)
              else if timeout nbd = 0 then timeout_warn t nbd
              else (let nbd = with_config (\<lambda>c. c\<lparr>runtime_flags := insert NBD_RT_TIMEDOUT (runtime_flags c)\<rparr>) nbd;
                        nbd = with_cmd t (\<lambda>c. c\<lparr>status := BLK_STS_IOERR, inflight := False\<rparr>) nbd
                    in (BLK_EH_DONE, blk_mq_complete_request t (nbd_config_put (sock_shutdown nbd))))))"

end
