(* ===== verification/Nbd_Recv.thy ===== *)
theory Nbd_Recv
  imports Nbd_Device
begin

text \<open>
  Receiving replies (nbd_read_reply, nbd_handle_reply and recv_work of nbd.c).  A receive work
  is split where it gives up the lock of the command: it handles a reply, then completes the
  request, and at last leaves.  Reading a socket that is not there, or has nothing to deliver
  yet, is None.  \<open>hwq_of\<close> is the hardware queue of a unique tag, which the block layer's headers
  compute.
\<close>

section \<open>Replies\<close>

definition put_sock :: "nat \<Rightarrow> socket \<Rightarrow> nbd_device \<Rightarrow> nbd_device" where
  "put_sock i sk = with_config (with_sock i (\<lambda>s. s\<lparr>sock := sk\<rparr>))"

definition nbd_read_reply :: "nat \<Rightarrow> nbd_device \<Rightarrow> (int \<times> nbd_reply \<times> nbd_device) option" where
  "nbd_read_reply index nbd =
    (if config nbd = None \<or> num_connections (cfg nbd) \<le> index then None
     else map_option (\<lambda>(result, sk, bs).
         let reply = nbd_reply_of_bytes bs; nbd = put_sock index sk nbd
         in (if result < 0 then result else if reply_magic reply \<noteq> NBD_REPLY_MAGIC then - EPROTO else 0, reply, nbd))
       (sock_xmit_recv (sock (socks (cfg nbd) ! index)) 16))"

text \<open>The data of a reply goes to the segments of the request, one after the other.\<close>

fun recv_segments :: "socket \<Rightarrow> u8 list list \<Rightarrow> (int \<times> socket \<times> u8 list list) option" where
  "recv_segments sk [] = Some (0, sk, [])"
| "recv_segments sk (seg # segs) =
    (case sock_xmit_recv sk (length seg) of
       None \<Rightarrow> None
     | Some (result, sk, bs) \<Rightarrow>
         if result < 0 then Some (result, sk, seg # segs)
         else map_option (\<lambda>(result, sk, segs). (result, sk, bs # segs)) (recv_segments sk segs))"

definition set_segments :: "u32 \<Rightarrow> u8 list list \<Rightarrow> nbd_device \<Rightarrow> nbd_device" where
  "set_segments t segs nbd = nbd\<lparr>tags := (tags nbd)(t := map_option (\<lambda>r. r\<lparr>rq_segments := segs\<rparr>) (tags nbd t))\<rparr>"

text \<open>The checks of \<open>nbd_handle_reply\<close> before and after the request is found.\<close>

definition reply_finds :: "(u32 \<Rightarrow> nat) \<Rightarrow> u32 \<Rightarrow> nbd_device \<Rightarrow> bool" where
  "reply_finds hwq_of tag nbd \<longleftrightarrow> hwq_of tag < nr_hw_queues nbd \<and> tags nbd tag \<noteq> None \<and> started tag nbd"

definition reply_fits :: "nat \<Rightarrow> u64 \<Rightarrow> nbd_cmd \<Rightarrow> bool" where
  "reply_fits index handle cmd \<longleftrightarrow>
     inflight cmd \<and> cmd_index cmd = index \<and> cmd_cookie cmd = nbd_handle_to_cookie handle \<and>
     status cmd = BLK_STS_OK \<and> \<not> requeued cmd"

definition reply_data :: "nat \<Rightarrow> u32 \<Rightarrow> nbd_device \<Rightarrow> ((int + u32) \<times> nbd_device) option" where
  "reply_data index tag nbd =
    map_option (\<lambda>(result, sk, segs).
        let nbd = set_segments tag segs (put_sock index sk nbd)
        in if 0 \<le> result then (Inr tag, nbd)
           else if nbd_disconnected (cfg nbd) then (Inr tag, with_cmd tag (\<lambda>c. c\<lparr>status := BLK_STS_IOERR\<rparr>) nbd)
           else (Inl (- EIO), nbd))
      (recv_segments (sock (socks (cfg nbd) ! index)) (rq_segments (the (tags nbd tag))))"

definition nbd_handle_reply ::
  "(u32 \<Rightarrow> nat) \<Rightarrow> nat \<Rightarrow> nbd_reply \<Rightarrow> nbd_device \<Rightarrow> ((int + u32) \<times> nbd_device) option" where
  "nbd_handle_reply hwq_of index reply nbd =
    (let handle = reply_handle reply; tag = nbd_handle_to_tag handle
     in if \<not> reply_finds hwq_of tag nbd then Some (Inl (- ENOENT), nbd)
        else if \<not> reply_fits index handle (cmds nbd tag) then Some (Inl (- ENOENT), nbd)
        else if reply_error reply \<noteq> 0 then Some (Inr tag, with_cmd tag (\<lambda>c. c\<lparr>status := BLK_STS_IOERR\<rparr>) nbd)
        else if rq_writes (rq_op (the (tags nbd tag))) then Some (Inr tag, nbd)
        else reply_data index tag nbd)"

section \<open>The receive work\<close>

text \<open>
  The parts of the loop of \<open>recv_work\<close>: a reply is read and handled (the loop is left with
  None; \<open>live\<close> tells whether the queue still takes requests), and its request is completed,
  unless the block layer pretends a timeout.
\<close>

fun reply_tag :: "int + u32 \<Rightarrow> u32 option" where
  "reply_tag (Inl _) = None"
| "reply_tag (Inr t) = Some t"

lemma reply_tag_Some [simp]: "reply_tag r = Some t \<longleftrightarrow> r = Inr t"
  by (cases r) simp_all

definition recv_reply :: "(u32 \<Rightarrow> nat) \<Rightarrow> bool \<Rightarrow> nat \<Rightarrow> nbd_device \<Rightarrow> (u32 option \<times> nbd_device) option" where
  "recv_reply hwq_of live index nbd =
    (case nbd_read_reply index nbd of
       None \<Rightarrow> None
     | Some (result, reply, nbd) \<Rightarrow>
         if result \<noteq> 0 then Some (None, nbd)
         else if \<not> live then Some (None, nbd)
         else map_option (\<lambda>(res, nbd). (reply_tag res, nbd))
           (nbd_handle_reply hwq_of index reply nbd))"

definition recv_complete :: "bool \<Rightarrow> u32 \<Rightarrow> nbd_device \<Rightarrow> nbd_device" where
  "recv_complete fake_timeout t nbd =
    (if fake_timeout then nbd
     else if inflight (cmds nbd t) then blk_mq_complete_request t (with_cmd t (\<lambda>c. c\<lparr>inflight := False\<rparr>) nbd)
     else nbd)"

definition recv_end :: "nat \<Rightarrow> nbd_device \<Rightarrow> nbd_device" where
  "recv_end index nbd =
    with_config (\<lambda>c. c\<lparr>recv_threads := recv_threads c - 1\<rparr>) (nbd_config_put (nbd_mark_nsock_dead index True nbd))"

text \<open>The bytes and answers a socket still has to deliver, which each turn of the loop makes fewer.\<close>

definition rx_size :: "(int + u8 list) list \<Rightarrow> nat" where
  "rx_size rs = sum_list (map (case_sum (\<lambda>_. 1) (\<lambda>bs. Suc (length bs))) rs)"

lemma rx_size_simps [simp]:
  "rx_size [] = 0" "rx_size (Inl r # rs) = Suc (rx_size rs)" "rx_size (Inr bs # rs) = Suc (length bs + rx_size rs)"
  "rx_size (rs @ rs') = rx_size rs + rx_size rs'"
  by (simp_all add: rx_size_def)

definition rx_left :: "nat \<Rightarrow> nbd_device \<Rightarrow> nat" where
  "rx_left i nbd = rx_size (rx_results (sock (socks (cfg nbd) ! i)))"

lemma sock_recv_loop_size:
  "sock_recv_loop down rs n got = Some (result, rs', got') \<Longrightarrow> rx_size rs' \<le> rx_size rs \<and> (0 \<le> result \<longrightarrow> rx_size rs' < rx_size rs)"
  by (induction down rs n got rule: sock_recv_loop.induct) (auto split: if_splits)

lemma sock_recv_loop_got:
  "sock_recv_loop down rs n got = Some (result, rs', got') \<Longrightarrow> 0 \<le> result \<Longrightarrow> length got' = length got + n"
  by (induction down rs n got rule: sock_recv_loop.induct) (auto split: if_splits)

lemma sock_xmit_recv_size:
  "sock_xmit_recv sk n = Some (result, sk', bs) \<Longrightarrow>
     rx_size (rx_results sk') \<le> rx_size (rx_results sk) \<and> (0 \<le> result \<longrightarrow> rx_size (rx_results sk') < rx_size (rx_results sk))"
  by (auto simp: sock_xmit_recv_def dest: sock_recv_loop_size)

lemma recv_segments_size:
  "recv_segments sk segs = Some (result, sk', segs') \<Longrightarrow> rx_size (rx_results sk') \<le> rx_size (rx_results sk)"
proof (induction sk segs arbitrary: result sk' segs' rule: recv_segments.induct)
  case (2 sk seg segs)
  then show ?case by (fastforce dest: sock_xmit_recv_size split: option.splits if_splits)
qed simp

lemma config_put_sock [simp]: "config (put_sock i sk nbd) = map_option (with_sock i (\<lambda>s. s\<lparr>sock := sk\<rparr>)) (config nbd)"
  by (simp add: put_sock_def with_config_def)

lemma config_with_cmd [simp]: "config (with_cmd t f nbd) = config nbd"
  by (simp add: with_cmd_def)

lemma config_set_segments [simp]: "config (set_segments t segs nbd) = config nbd"
  by (simp add: set_segments_def)

lemma config_emit [simp]: "config (emit e nbd) = config nbd"
  by (simp add: emit_def)

lemma config_set_rq_state [simp]: "config (set_rq_state t st nbd) = config nbd"
  by (simp add: set_rq_state_def)

lemma config_complete [simp]: "config (blk_mq_complete_request t nbd) = config nbd"
  by (simp add: blk_mq_complete_request_def nbd_complete_rq_def)

lemma config_recv_complete [simp]: "config (recv_complete fake_timeout t nbd) = config nbd"
  by (simp add: recv_complete_def)

lemma socks_with_sock: "socks (with_sock i f c) = (socks c)[i := f (socks c ! i)]"
  by (simp add: with_sock_def)

text \<open>Handling a reply changes one socket of the configuration, and only what it still delivers.\<close>

definition drained :: "nat \<Rightarrow> nbd_config \<Rightarrow> nbd_config \<Rightarrow> bool" where
  "drained i c c' \<longleftrightarrow> (\<exists>rs. c' = with_sock i (\<lambda>s. s\<lparr>sock := (sock s)\<lparr>rx_results := rs\<rparr>\<rparr>) c \<and>
     rx_size rs \<le> rx_size (rx_results (sock (socks c ! i))))"

lemma sock_xmit_recv_sock: "sock_xmit_recv sk n = Some (result, sk', bs) \<Longrightarrow> \<exists>rs. sk' = sk\<lparr>rx_results := rs\<rparr>"
  by (auto simp: sock_xmit_recv_def)

lemma recv_segments_sock: "recv_segments sk segs = Some (result, sk', segs') \<Longrightarrow> \<exists>rs. sk' = sk\<lparr>rx_results := rs\<rparr>"
proof (induction sk segs arbitrary: result sk' segs' rule: recv_segments.induct)
  case (1 sk)
  then show ?case by (auto intro: exI [of _ "rx_results sk"])
next
  case (2 sk seg segs)
  then show ?case by (fastforce dest: sock_xmit_recv_sock split: option.splits if_splits)
qed

lemma drained_refl [simp]: "drained i c c"
  unfolding drained_def by (rule exI [of _ "rx_results (sock (socks c ! i))"]) (simp add: with_sock_def)

lemma drained_sock:
  assumes "i < num_connections c" "sk = (sock (socks c ! i))\<lparr>rx_results := rs\<rparr>"
    and "rx_size rs \<le> rx_size (rx_results (sock (socks c ! i)))"
  shows "drained i c (with_sock i (\<lambda>s. s\<lparr>sock := sk\<rparr>) c)"
  unfolding drained_def by (rule exI [of _ rs]) (use assms in \<open>simp add: with_sock_def\<close>)

lemma nbd_handle_reply_config:
  assumes "nbd_handle_reply hwq_of i reply nbd = Some (res, nbd')" "config nbd = Some c" "i < num_connections c"
  shows "\<exists>c'. config nbd' = Some c' \<and> drained i c c'"
proof -
  consider "config nbd' = config nbd" | "reply_data i (nbd_handle_to_tag (reply_handle reply)) nbd = Some (res, nbd')"
    using assms(1) unfolding nbd_handle_reply_def Let_def by (auto split: if_splits)
  then show ?thesis
  proof cases
    case 1
    then show ?thesis using assms(2) by simp
  next
    case 2
    then obtain result sk segs where 2:
      "recv_segments (sock (socks (cfg nbd) ! i)) (rq_segments (the (tags nbd (nbd_handle_to_tag (reply_handle reply))))) = Some (result, sk, segs)"
      "config nbd' = config (put_sock i sk nbd)"
      by (auto simp: reply_data_def Let_def split: if_splits)
    obtain rs where rs: "sk = (sock (socks (cfg nbd) ! i))\<lparr>rx_results := rs\<rparr>" using recv_segments_sock [OF 2(1)] by blast
    then show ?thesis using 2 assms(2,3) recv_segments_size [OF 2(1)] by (simp add: drained_sock)
  qed
qed

lemma nbd_read_reply_config:
  assumes "nbd_read_reply i nbd = Some (result, reply, nbd')"
  obtains c c' where "config nbd = Some c" "i < num_connections c" "config nbd' = Some c'" "drained i c c'"
    "result = 0 \<Longrightarrow> rx_left i nbd' < rx_left i nbd"
proof -
  obtain c where c: "config nbd = Some c" "i < num_connections c"
    using assms by (auto simp: nbd_read_reply_def split: if_splits)
  obtain q sk bs where r: "sock_xmit_recv (sock (socks c ! i)) 16 = Some (q, sk, bs)" "nbd' = put_sock i sk nbd" "result = 0 \<longrightarrow> 0 \<le> q"
    using assms c by (auto simp: nbd_read_reply_def Let_def split: if_splits)
  obtain rs where rs: "sk = (sock (socks c ! i))\<lparr>rx_results := rs\<rparr>" using sock_xmit_recv_sock [OF r(1)] by blast
  show thesis
    by (rule that [of c "with_sock i (\<lambda>s. s\<lparr>sock := sk\<rparr>) c"])
      (use c r rs sock_xmit_recv_size [OF r(1)] in \<open>auto simp: drained_sock rx_left_def socks_with_sock\<close>)
qed

lemma drained_left:
  "drained i c c' \<Longrightarrow> i < num_connections c \<Longrightarrow> config nbd = Some c \<Longrightarrow> config nbd' = Some c' \<Longrightarrow> rx_left i nbd' \<le> rx_left i nbd"
  by (auto simp: drained_def rx_left_def socks_with_sock)

lemma drained_num: "drained i c c' \<Longrightarrow> num_connections c' = num_connections c"
  by (auto simp: drained_def with_sock_def)

lemma recv_reply_left:
  assumes "recv_reply hwq_of live i nbd = Some (Some t, nbd')"
  shows "rx_left i nbd' < rx_left i nbd"
proof -
  obtain reply nbd1 where r: "nbd_read_reply i nbd = Some (0, reply, nbd1)" and h: "nbd_handle_reply hwq_of i reply nbd1 = Some (Inr t, nbd')"
    using assms by (auto simp: recv_reply_def split: option.splits if_splits)
  obtain c c1 where c: "config nbd = Some c" "i < num_connections c" "config nbd1 = Some c1" "drained i c c1" "rx_left i nbd1 < rx_left i nbd"
    by (rule nbd_read_reply_config [OF r]) auto
  obtain c' where "config nbd' = Some c'" "drained i c1 c'"
    using nbd_handle_reply_config [OF h c(3)] c(2) drained_num [OF c(4)] by auto
  then show ?thesis using drained_left [of i c1 c' nbd1 nbd'] c drained_num [OF c(4)] by simp
qed

lemma recv_complete_left [simp]: "rx_left i (recv_complete fake_timeout t nbd) = rx_left i nbd"
  by (simp add: rx_left_def)

text \<open>
  A receive work that nothing else interferes with, from the top of its loop to its end.  It
  ends, because each reply it handles uses up a part of what its socket delivers; it waits
  (None) when its socket has nothing to deliver and has not been shut down.
\<close>

function recv_work :: "(u32 \<Rightarrow> nat) \<Rightarrow> nat \<Rightarrow> nbd_device \<Rightarrow> nbd_device option" where
  "recv_work hwq_of index nbd =
    (case recv_reply hwq_of True index nbd of
       None \<Rightarrow> None
     | Some (None, nbd) \<Rightarrow> Some (recv_end index nbd)
     | Some (Some t, nbd) \<Rightarrow> recv_work hwq_of index (recv_complete False t nbd))"
  by pat_completeness auto

termination
  by (relation "measure (\<lambda>(hwq_of, index, nbd). rx_left index nbd)") (auto dest: recv_reply_left)

declare recv_work.simps [simp del]

text \<open>The receive works that are left when the work queue is flushed, in their order.\<close>

fun finish_works :: "(u32 \<Rightarrow> nat) \<Rightarrow> (nat \<times> u32 option) list \<Rightarrow> nbd_device \<Rightarrow> nbd_device option" where
  "finish_works hwq_of [] nbd = Some nbd"
| "finish_works hwq_of ((i, None) # works) nbd =
    (case recv_work hwq_of i nbd of None \<Rightarrow> None | Some nbd \<Rightarrow> finish_works hwq_of works nbd)"
| "finish_works hwq_of ((i, Some t) # works) nbd =
    (case recv_work hwq_of i (recv_complete False t nbd) of None \<Rightarrow> None | Some nbd \<Rightarrow> finish_works hwq_of works nbd)"

definition flush_workqueue :: "(u32 \<Rightarrow> nat) \<Rightarrow> nbd_device \<Rightarrow> nbd_device option" where
  "flush_workqueue hwq_of nbd = map_option (\<lambda>nbd. nbd\<lparr>recv_works := []\<rparr>) (finish_works hwq_of (recv_works nbd) nbd)"

end
