(* ===== verification/Nbd_Queue.thy ===== *)
theory Nbd_Queue
  imports Nbd_Recv
begin

text \<open>
  Dispatching a request (find_fallback, wait_for_reconnect, nbd_handle_cmd and nbd_queue_rq of
  nbd.c).  A request whose sockets are all dead waits for one to come back, holding a reference
  to the configuration; other operations run meanwhile, so that handling it stops there and is
  resumed later.
\<close>

section \<open>A socket to fall back to\<close>

definition sock_alive :: "nbd_config \<Rightarrow> int \<Rightarrow> bool" where
  "sock_alive c j \<longleftrightarrow> 0 \<le> j \<and> j < int (num_connections c) \<and> \<not> dead (socks c ! nat j)"

fun first_index :: "nat list \<Rightarrow> int" where
  "first_index [] = - 1"
| "first_index (i # _) = int i"

text \<open>The loop over the sockets takes the first one alive, other than the socket itself.\<close>

definition live_other :: "nat \<Rightarrow> nbd_config \<Rightarrow> int" where
  "live_other index c = first_index (filter (\<lambda>i. i \<noteq> index \<and> \<not> dead (socks c ! i)) [0..<num_connections c])"

text \<open>
  The code tests the remembered fallback a second time before it searches, with the opposite
  outcome of the first test.
\<close>

definition find_fallback :: "nat \<Rightarrow> nbd_config \<Rightarrow> int \<times> nbd_config" where
  "find_fallback index c =
    (let fallback = fallback_index (socks c ! index)
     in if NBD_RT_DISCONNECTED \<in> runtime_flags c then (- 1, c)
        else if num_connections c \<le> 1 then (- 1, c)
        else if sock_alive c fallback then (fallback, c)
        else (let new_index = live_other index c
              in (new_index, with_sock index (\<lambda>s. s\<lparr>fallback_index := new_index\<rparr>) c)))"

lemma first_index_in: "0 \<le> first_index xs \<Longrightarrow> \<exists>i\<in>set xs. first_index xs = int i"
  by (cases xs) auto

lemma first_index_none: "first_index xs < 0 \<Longrightarrow> xs = []"
  by (cases xs) auto

lemma live_other:
  "0 \<le> live_other i c \<Longrightarrow> sock_alive c (live_other i c) \<and> live_other i c \<noteq> int i"
  unfolding live_other_def by (drule first_index_in) (auto simp: sock_alive_def)

lemma live_other_none: "live_other i c < 0 \<Longrightarrow> j < num_connections c \<Longrightarrow> j \<noteq> i \<Longrightarrow> dead (socks c ! j)"
  unfolding live_other_def by (drule first_index_none) (auto simp: filter_empty_conv)

lemma find_fallback_alive:
  assumes "find_fallback i c = (j, c')" "0 \<le> j"
  shows "sock_alive c j" "sock_alive c' j"
proof -
  show a: "sock_alive c j"
    using assms live_other [of i c] by (auto simp: find_fallback_def Let_def split: if_splits)
  have "c' = c \<or> c' = with_sock i (\<lambda>s. s\<lparr>fallback_index := j\<rparr>) c"
    using assms(1) by (auto simp: find_fallback_def Let_def split: if_splits)
  then show "sock_alive c' j"
    using a by (cases "nat j = i") (auto simp: sock_alive_def with_sock_def)
qed

text \<open>There is no fallback only when the device is disconnected or all sockets are dead.\<close>

lemma find_fallback_none:
  assumes "find_fallback i c = (j, c')" "i < num_connections c" "dead (socks c ! i)"
  shows "j < 0 \<longleftrightarrow> NBD_RT_DISCONNECTED \<in> runtime_flags c \<or> (\<forall>l<num_connections c. dead (socks c ! l))"
proof
  assume j: "j < 0"
  have "dead (socks c ! l)" if "NBD_RT_DISCONNECTED \<notin> runtime_flags c" "l < num_connections c" for l
  proof (cases "l = i")
    case False
    then have "live_other i c < 0" using assms j that by (auto simp: find_fallback_def Let_def sock_alive_def split: if_splits)
    then show ?thesis using live_other_none that(2) False by blast
  qed (use assms(3) in simp)
  then show "NBD_RT_DISCONNECTED \<in> runtime_flags c \<or> (\<forall>l<num_connections c. dead (socks c ! l))" by blast
next
  assume r: "NBD_RT_DISCONNECTED \<in> runtime_flags c \<or> (\<forall>l<num_connections c. dead (socks c ! l))"
  show "j < 0"
  proof (rule ccontr)
    assume "\<not> j < 0"
    then have a: "sock_alive c j" using find_fallback_alive(1) [OF assms(1)] by simp
    have "NBD_RT_DISCONNECTED \<notin> runtime_flags c" using assms(1) \<open>\<not> j < 0\<close> by (auto simp: find_fallback_def)
    then have "dead (socks c ! nat j)" using r a by (auto simp: sock_alive_def)
    then show False using a by (simp add: sock_alive_def)
  qed
qed

section \<open>Handling a command\<close>

datatype outcome = Returned int | Waits nat

text \<open>
  All sockets are down: DISCONNECTED is set, so that no other request waits again.
\<close>

definition handle_fail :: "nbd_device \<Rightarrow> outcome \<times> nbd_device" where
  "handle_fail nbd = (Returned (- EIO), nbd_config_put (sock_shutdown nbd))"

text \<open>The part of \<open>nbd_handle_cmd\<close> that starts and sends a request on a socket that is alive.\<close>

definition handle_sent :: "u32 \<Rightarrow> nat \<Rightarrow> int \<Rightarrow> nbd_device \<Rightarrow> int \<times> nbd_device" where
  "handle_sent t index ret nbd =
    (if ret = 0 then (0, with_cmd t (\<lambda>c. c\<lparr>inflight := True\<rparr>) (emit (Payload_sent t) nbd))
     else if ret = - EAGAIN then (0, nbd_requeue_cmd t (nbd_mark_nsock_dead index True nbd))
     else (ret, nbd))"

definition handle_send :: "u32 \<Rightarrow> nat \<Rightarrow> nbd_device \<Rightarrow> (int \<times> nbd_device) option" where
  "handle_send t index nbd =
    (let nsock = socks (cfg nbd) ! index; nbd = blk_mq_start_request t nbd
     in if pending nsock \<noteq> None \<and> pending nsock \<noteq> Some t then Some (0, nbd_requeue_cmd t nbd)
        else map_option (\<lambda>(ret, cmd, nsock).
            handle_sent t index ret (with_config (with_sock index (\<lambda>_. nsock)) (with_cmd t (\<lambda>_. cmd) nbd)))
          (nbd_send_cmd (cfg_flags (cfg nbd)) t (the (tags nbd t)) index (cmds nbd t) nsock))"

text \<open>
  The loop at the label \<open>again\<close>.  A fallback is alive, so the loop takes at most one turn more
  until it sends, fails or waits.
\<close>

function handle_again :: "u32 \<Rightarrow> nat \<Rightarrow> nbd_device \<Rightarrow> (outcome \<times> nbd_device) option" where
  "handle_again t index nbd =
    (if dead (socks (cfg nbd) ! index)
     then (let (j, c) = find_fallback index (cfg nbd); nbd' = nbd\<lparr>config := Some c\<rparr>
           in if 0 \<le> j then handle_again t (nat j) nbd'
              else if dead_conn_timeout c \<noteq> 0 then Some (Waits index, nbd')
              else Some (handle_fail nbd'))
     else map_option (\<lambda>(ret, nbd). (Returned ret, nbd_config_put nbd)) (handle_send t index nbd))"
  by pat_completeness auto

termination
  by (relation "measure (\<lambda>(t, index, nbd). if dead (socks (cfg nbd) ! index) then 1 else 0)")
    (auto dest: find_fallback_alive(2) [OF sym] simp: sock_alive_def)

declare handle_again.simps [simp del]

definition nbd_handle_cmd :: "u32 \<Rightarrow> nat \<Rightarrow> nbd_device \<Rightarrow> (outcome \<times> nbd_device) option" where
  "nbd_handle_cmd t index nbd =
    (if config_refs nbd = 0 then Some (Returned (- EINVAL), nbd)
     else (let nbd = nbd\<lparr>config_refs := config_refs nbd + 1\<rparr>
           in if num_connections (cfg nbd) \<le> index then Some (Returned (- EINVAL), nbd_config_put nbd)
              else handle_again t index (with_cmd t (\<lambda>c. c\<lparr>status := BLK_STS_OK\<rparr>) nbd)))"

text \<open>
  The end of the wait: the condition holds, or the time is over; then the command goes on with
  the socket it had, or fails.
\<close>

definition wait_for_reconnect :: "nbd_config \<Rightarrow> bool" where
  "wait_for_reconnect c \<longleftrightarrow>
     (NBD_RT_DISCONNECTED \<in> runtime_flags c \<or> 0 < live_connections c) \<and> NBD_RT_DISCONNECTED \<notin> runtime_flags c"

definition handle_woken :: "u32 \<Rightarrow> nat \<Rightarrow> nbd_device \<Rightarrow> (outcome \<times> nbd_device) option" where
  "handle_woken t index nbd = (if wait_for_reconnect (cfg nbd) then handle_again t index nbd else Some (handle_fail nbd))"

text \<open>
  \<open>nbd_queue_rq\<close> and what the block layer makes of its answer: a request that has not been taken
  is idle again.
\<close>

definition queue_status :: "int \<Rightarrow> int" where
  "queue_status ret = (if ret < 0 then BLK_STS_IOERR else if ret = 0 then BLK_STS_OK else ret)"

definition queue_outcome :: "u32 \<Rightarrow> outcome \<times> nbd_device \<Rightarrow> int option \<times> nbd_device" where
  "queue_outcome t r = (case r of
      (Waits i, nbd) \<Rightarrow> (None, nbd\<lparr>waiting := waiting nbd @ [(t, i)]\<rparr>)
    | (Returned ret, nbd) \<Rightarrow> (Some (queue_status ret), nbd))"

definition nbd_queue_rq :: "u32 \<Rightarrow> nat \<Rightarrow> nbd_device \<Rightarrow> (int option \<times> nbd_device) option" where
  "nbd_queue_rq t index nbd =
    map_option (queue_outcome t) (nbd_handle_cmd t index (with_cmd t (\<lambda>c. c\<lparr>requeued := False\<rparr>) nbd))"

definition dispatch_answer :: "u32 \<Rightarrow> int option \<times> nbd_device \<Rightarrow> nbd_device" where
  "dispatch_answer t r = (case r of (st, nbd) \<Rightarrow>
     if st = Some BLK_STS_RESOURCE \<or> st = Some BLK_STS_IOERR then set_rq_state t MQ_RQ_IDLE nbd else nbd)"

end
