(* ===== verification/Nbd_Setup.thy ===== *)
theory Nbd_Setup
  imports Nbd_Queue
begin

text \<open>
  Setting a device up and taking it down (nbd.c): its sockets, the start of its receive works,
  the ioctls, opening and releasing the disk.

  What the kernel answers to an operation is part of \<open>kernel\<close>: whether the i-th allocation of a
  call succeeds, the error of creating a file of the device, the process and the ticks of a
  second, the block sizes it refuses, and the hardware queue of a tag.  A socket that is looked
  up by its file descriptor is an error or the socket.
\<close>

record kernel =
  hwq_of :: "u32 \<Rightarrow> nat"
  bad_block_size :: "u64 \<Rightarrow> bool"
  HZ :: nat
  allocates :: "nat \<Rightarrow> bool"
  create_file :: int
  current :: nat
  alloc_config_error :: int

abbreviation "ENOMEM \<equiv> 12 :: int"
abbreviation "ENXIO \<equiv> 6 :: int"
abbreviation "EPERM \<equiv> 1 :: int"
abbreviation "EEXIST \<equiv> 17 :: int"
abbreviation "ENOTTY \<equiv> 25 :: int"

section \<open>Sockets of a device\<close>

definition new_sock :: "socket \<Rightarrow> nbd_sock" where
  "new_sock sk = \<lparr>sock = sk, pending = None, sent = 0, dead = False, fallback_index = - 1, sock_cookie = 0\<rparr>"

definition add_sock :: "socket \<Rightarrow> nbd_config \<Rightarrow> nbd_config" where
  "add_sock sk c = c\<lparr>socks := socks c @ [new_sock sk], live_connections := live_connections c + 1\<rparr>"

definition nbd_add_socket :: "kernel \<Rightarrow> bool \<Rightarrow> int + socket \<Rightarrow> nbd_device \<Rightarrow> int \<times> nbd_device" where
  "nbd_add_socket k netlink found nbd =
    (case found of
       Inl err \<Rightarrow> (err, nbd)
     | Inr sk \<Rightarrow>
         (let bound = NBD_RT_BOUND \<in> runtime_flags (cfg nbd);
              nbd = (if \<not> netlink \<and> task_setup nbd = None \<and> \<not> bound then nbd\<lparr>task_setup := Some (current k)\<rparr> else nbd)
          in if \<not> netlink \<and> (task_setup nbd \<noteq> Some (current k) \<or> bound) then (- EBUSY, nbd)
             else if \<not> allocates k 0 then (- ENOMEM, nbd)
             else (0, with_config (add_sock sk) nbd)))"

text \<open>
  A new socket takes the place of the first dead one: it starts with nothing pending, because
  a socket that was marked dead has nothing pending.
\<close>

definition revive_sock :: "nat \<Rightarrow> socket \<Rightarrow> nbd_config \<Rightarrow> nbd_config" where
  "revive_sock i sk c =
    with_sock i (\<lambda>s. s\<lparr>fallback_index := - 1, sock := sk, dead := False, sock_cookie := sock_cookie s + 1\<rparr>)
      (c\<lparr>recv_threads := recv_threads c + 1, runtime_flags := runtime_flags c - {NBD_RT_DISCONNECTED},
         live_connections := live_connections c + 1\<rparr>)"

definition nbd_reconnect_socket :: "kernel \<Rightarrow> int + socket \<Rightarrow> nbd_device \<Rightarrow> int \<times> nbd_device" where
  "nbd_reconnect_socket k found nbd =
    (case found of
       Inl err \<Rightarrow> (err, nbd)
     | Inr sk \<Rightarrow>
         if \<not> allocates k 0 then (- ENOMEM, nbd)
         else (case filter (\<lambda>i. dead (socks (cfg nbd) ! i)) [0..<num_connections (cfg nbd)] of
                 [] \<Rightarrow> (- ENOSPC, nbd)
               | i # _ \<Rightarrow>
                   (0, emit Wake_up (with_config (revive_sock i sk)
                      (nbd\<lparr>config_refs := config_refs nbd + 1, recv_works := recv_works nbd @ [(i, None)]\<rparr>)))))"

section \<open>Disconnecting\<close>

text \<open>The loop that tells every server that the client leaves; its errors are only reported.\<close>

fun send_disconnects :: "nat list \<Rightarrow> nbd_device \<Rightarrow> nbd_device option" where
  "send_disconnects [] nbd = Some nbd"
| "send_disconnects (i # is) nbd =
    (case sock_xmit_send (sock (socks (cfg nbd) ! i)) (nbd_request_bytes NBD_CMD_DISC 0 0 0) 0 of
       None \<Rightarrow> None
     | Some (ret, sk, n) \<Rightarrow> send_disconnects is (put_sock i sk nbd))"

definition nbd_disconnect :: "nbd_device \<Rightarrow> nbd_device option" where
  "nbd_disconnect nbd =
    (let nbd = with_config (\<lambda>c. c\<lparr>runtime_flags := insert NBD_RT_DISCONNECT_REQUESTED (runtime_flags c)\<rparr>) nbd;
         nbd = nbd\<lparr>dev_flags := insert NBD_DISCONNECT_REQUESTED (dev_flags nbd)\<rparr>
     in send_disconnects [0..<num_connections (cfg nbd)] nbd)"

text \<open>A reference of the configuration that is given up once: the flag is tested and cleared.\<close>

definition put_config_ref :: "nbd_device \<Rightarrow> nbd_device" where
  "put_config_ref nbd =
    (if NBD_RT_HAS_CONFIG_REF \<in> runtime_flags (cfg nbd)
     then nbd_config_put (with_config (\<lambda>c. c\<lparr>runtime_flags := runtime_flags c - {NBD_RT_HAS_CONFIG_REF}\<rparr>) nbd)
     else nbd)"

definition nbd_disconnect_and_put :: "kernel \<Rightarrow> nbd_device \<Rightarrow> nbd_device option" where
  "nbd_disconnect_and_put k nbd =
    (case nbd_disconnect nbd of
       None \<Rightarrow> None
     | Some nbd \<Rightarrow>
         map_option (\<lambda>nbd. put_config_ref ((nbd_clear_que nbd)\<lparr>task_setup := None\<rparr>))
           (flush_workqueue (hwq_of k) (emit Wake_up (sock_shutdown nbd))))"

definition nbd_bdev_reset :: "nbd_device \<Rightarrow> nbd_device" where
  "nbd_bdev_reset nbd = (if 1 < openers nbd then nbd else emit (Set_capacity 0) nbd)"

definition nbd_clear_sock_ioctl :: "nbd_device \<Rightarrow> nbd_device" where
  "nbd_clear_sock_ioctl nbd = put_config_ref (nbd_bdev_reset (nbd_clear_sock nbd))"

section \<open>Starting a device\<close>

text \<open>\<open>nbd_parse_flags\<close>: whether the disk is read-only, and has a write cache with FUA.\<close>

definition nbd_parse_flags :: "nbd_device \<Rightarrow> nbd_device" where
  "nbd_parse_flags nbd =
    (let fl = cfg_flags (cfg nbd); flush = fl AND NBD_FLAG_SEND_FLUSH \<noteq> 0
     in emit (Write_cache flush (flush \<and> fl AND NBD_FLAG_SEND_FUA \<noteq> 0))
          (emit (Set_disk_ro (fl AND NBD_FLAG_READ_ONLY \<noteq> 0)) nbd))"

definition start_work :: "nat \<Rightarrow> nbd_device \<Rightarrow> nbd_device" where
  "start_work i nbd =
    with_config (\<lambda>c. c\<lparr>recv_threads := recv_threads c + 1\<rparr>)
      (nbd\<lparr>config_refs := config_refs nbd + 1, recv_works := recv_works nbd @ [(i, None)]\<rparr>)"

text \<open>
  The loop that starts the receive works: when an allocation fails the sockets are shut down
  and the works that have been started are waited for.
\<close>

fun start_works :: "kernel \<Rightarrow> nat list \<Rightarrow> nbd_device \<Rightarrow> (int \<times> nbd_device) option" where
  "start_works k [] nbd = Some (0, nbd)"
| "start_works k (i # is) nbd =
    (if \<not> allocates k i
     then map_option (Pair (- ENOMEM))
       (if i \<noteq> 0 then flush_workqueue (hwq_of k) (sock_shutdown nbd) else Some (sock_shutdown nbd))
     else start_works k is (start_work i nbd))"

definition nbd_start_device :: "kernel \<Rightarrow> nbd_device \<Rightarrow> (int \<times> nbd_device) option" where
  "nbd_start_device k nbd =
    (let n = num_connections (cfg nbd)
     in if pid nbd \<noteq> 0 then Some (- EBUSY, nbd)
        else if n = 0 then Some (- EINVAL, nbd)
        else if 1 < n \<and> cfg_flags (cfg nbd) AND NBD_FLAG_CAN_MULTI_CONN = 0 then Some (- EINVAL, nbd)
        else (let nbd = nbd_parse_flags (nbd\<lparr>nr_hw_queues := n, pid := current k\<rparr>)
              in if create_file k \<noteq> 0 then Some (create_file k, nbd)
                 else (let nbd = with_config (\<lambda>c. c\<lparr>runtime_flags := insert NBD_RT_HAS_PID_FILE (runtime_flags c)\<rparr>) nbd
                       in case start_works k [0..<n] nbd of
                            None \<Rightarrow> None
                          | Some (ret, nbd) \<Rightarrow>
                              if ret \<noteq> 0 then Some (ret, nbd)
                              else Some (nbd_set_size (bad_block_size k) (bytesize (cfg nbd)) (ucast (nbd_blksize (cfg nbd))) nbd))))"

text \<open>
  \<open>nbd_start_device_ioctl\<close> waits, without the lock of the configuration, until the receive works
  have ended or a signal comes; this is the rest after the wait.
\<close>

definition start_device_wait_over :: "kernel \<Rightarrow> bool \<Rightarrow> nbd_device \<Rightarrow> (int \<times> nbd_device) option" where
  "start_device_wait_over k interrupted nbd =
    map_option (\<lambda>nbd. let nbd = nbd_bdev_reset nbd; rf = runtime_flags (cfg nbd);
          ret = (if interrupted then - ERESTARTSYS else 0);
          ret = (if NBD_RT_DISCONNECT_REQUESTED \<in> rf then 0 else ret)
        in (if NBD_RT_TIMEDOUT \<in> rf then - ETIMEDOUT else ret, nbd))
      (flush_workqueue (hwq_of k) (if interrupted then sock_shutdown nbd else nbd))"

text \<open>
  The product is cut to the 32 bits of the timeout of the tag set.  The timeout of the request
  queue, which the block layer counts down, is not modelled: any time out may occur.
\<close>

definition nbd_set_cmd_timeout :: "kernel \<Rightarrow> nat \<Rightarrow> nbd_device \<Rightarrow> nbd_device" where
  "nbd_set_cmd_timeout k seconds nbd = nbd\<lparr>timeout := unat (of_nat (seconds * HZ k) :: u32)\<rparr>"

section \<open>The ioctls\<close>

datatype nbd_ioctl =
    DISCONNECT | CLEAR_SOCK | SET_SOCK "int + socket" | SET_BLKSIZE u64 | SET_SIZE u64 | SET_SIZE_BLOCKS u64
  | SET_TIMEOUT nat | SET_FLAGS u32 | DO_IT | CLEAR_QUE | PRINT_DEBUG | Other_ioctl

text \<open>The result of an ioctl that waits is None until the wait is over.\<close>

definition ioctl_result :: "int \<times> nbd_device \<Rightarrow> int option \<times> nbd_device" where
  "ioctl_result r = (Some (fst r), snd r)"

fun nbd_ioctl_locked :: "kernel \<Rightarrow> nbd_ioctl \<Rightarrow> nbd_device \<Rightarrow> (int option \<times> nbd_device) option" where
  "nbd_ioctl_locked k DISCONNECT nbd = map_option (Pair (Some 0)) (nbd_disconnect nbd)"
| "nbd_ioctl_locked k CLEAR_SOCK nbd = Some (Some 0, nbd_clear_sock_ioctl nbd)"
| "nbd_ioctl_locked k (SET_SOCK found) nbd = Some (ioctl_result (nbd_add_socket k False found nbd))"
| "nbd_ioctl_locked k (SET_BLKSIZE b) nbd = Some (ioctl_result (nbd_set_size (bad_block_size k) (bytesize (cfg nbd)) b nbd))"
| "nbd_ioctl_locked k (SET_SIZE b) nbd = Some (ioctl_result (nbd_set_size (bad_block_size k) b (ucast (nbd_blksize (cfg nbd))) nbd))"
| "nbd_ioctl_locked k (SET_SIZE_BLOCKS b) nbd =
    (if 2 ^ 63 \<le> unat b * 2 ^ blksize_bits (cfg nbd) then Some (Some (- EINVAL), nbd)
     else Some (ioctl_result (nbd_set_size (bad_block_size k) (push_bit (blksize_bits (cfg nbd)) b) (ucast (nbd_blksize (cfg nbd))) nbd)))"
| "nbd_ioctl_locked k (SET_TIMEOUT s) nbd = Some (Some 0, nbd_set_cmd_timeout k s nbd)"
| "nbd_ioctl_locked k (SET_FLAGS f) nbd = Some (Some 0, with_config (\<lambda>c. c\<lparr>cfg_flags := f\<rparr>) nbd)"
| "nbd_ioctl_locked k DO_IT nbd = map_option (\<lambda>(ret, nbd). (if ret \<noteq> 0 then Some ret else None, nbd)) (nbd_start_device k nbd)"
| "nbd_ioctl_locked k CLEAR_QUE nbd = Some (Some 0, nbd)"
| "nbd_ioctl_locked k PRINT_DEBUG nbd = Some (Some 0, nbd)"
| "nbd_ioctl_locked k Other_ioctl nbd = Some (Some (- ENOTTY), nbd)"

definition nbd_ioctl :: "kernel \<Rightarrow> bool \<Rightarrow> bool \<Rightarrow> nbd_ioctl \<Rightarrow> nbd_device \<Rightarrow> (int option \<times> nbd_device) option" where
  "nbd_ioctl k capable ours cmd nbd =
    (if \<not> capable then Some (Some (- EPERM), nbd)
     else if \<not> ours then Some (Some (- EINVAL), nbd)
     else if NBD_RT_BOUND \<notin> runtime_flags (cfg nbd) \<or> cmd = DISCONNECT \<or> cmd = CLEAR_SOCK
     then nbd_ioctl_locked k cmd nbd
     else Some (Some (- EINVAL), nbd))"

section \<open>Opening and releasing\<close>

definition new_config :: nbd_config where
  "new_config = \<lparr>cfg_flags = 0, runtime_flags = {}, dead_conn_timeout = 0, socks = [], live_connections = 0,
     recv_threads = 0, blksize_bits = NBD_DEF_BLKSIZE_BITS, bytesize = 0\<rparr>"

definition nbd_alloc_config :: "kernel \<Rightarrow> int + nbd_config" where
  "nbd_alloc_config k = (if alloc_config_error k \<noteq> 0 then Inl (alloc_config_error k) else Inr new_config)"

definition nbd_open :: "kernel \<Rightarrow> nbd_device \<Rightarrow> int \<times> nbd_device" where
  "nbd_open k nbd =
    (if refs nbd = 0 then (- ENXIO, nbd)
     else (let nbd = nbd\<lparr>refs := refs nbd + 1\<rparr>
           in if config_refs nbd \<noteq> 0 then (0, nbd\<lparr>config_refs := config_refs nbd + 1, openers := openers nbd + 1\<rparr>)
              else (case nbd_alloc_config k of
                      Inl err \<Rightarrow> (err, nbd)
                    | Inr c \<Rightarrow> (0, nbd\<lparr>config := Some c, config_refs := 1, refs := refs nbd + 1, openers := openers nbd + 1\<rparr>))))"

text \<open>The block layer has counted the opener down before it calls \<open>nbd_release\<close>.\<close>

definition nbd_release :: "kernel \<Rightarrow> nbd_device \<Rightarrow> nbd_device option" where
  "nbd_release k nbd =
    (let nbd = nbd\<lparr>openers := openers nbd - 1\<rparr>
     in map_option (\<lambda>nbd. nbd_put (nbd_config_put nbd))
          (if NBD_RT_DISCONNECT_ON_CLOSE \<in> runtime_flags (cfg nbd) \<and> openers nbd = 0
           then nbd_disconnect_and_put k nbd else Some nbd))"

end
