(* ===== verification/Nbd_Netlink.thy ===== *)
theory Nbd_Netlink
  imports Nbd_Setup
begin

text \<open>
  The netlink interface of nbd.c (nbd_genl_connect, nbd_genl_disconnect, nbd_genl_reconfigure
  and what they use), the table of devices with nbd_find_get_unused, and nbd_init.

  The attributes of a message are options.  The part of a command that works on a device it has
  a reference to is a function of its own; the table is a list of devices in the order of their
  ids.
\<close>

section \<open>Messages\<close>

text \<open>
  An item of the list of sockets: not a socket item or one that does not parse, one without a
  file descriptor, or a socket that is looked up.
\<close>

datatype sock_item = Bad_item | No_fd | Fd "int + socket"

record genl_attrs =
  attr_index :: "int option"
  attr_size :: "u64 option"
  attr_block_size :: "u64 option"
  attr_timeout :: "nat option"
  attr_dead_conn_timeout :: "u64 option"
  attr_server_flags :: "u64 option"
  attr_client_flags :: "u64 option"
  attr_sockets :: "sock_item list option"
  attr_backend :: "string option"

definition NBD_CFLAG_DESTROY_ON_DISCONNECT :: u64 where "NBD_CFLAG_DESTROY_ON_DISCONNECT = push_bit 0 1"
definition NBD_CFLAG_DISCONNECT_ON_CLOSE :: u64 where "NBD_CFLAG_DISCONNECT_ON_CLOSE = push_bit 1 1"

definition nbd_genl_size_set :: "kernel \<Rightarrow> genl_attrs \<Rightarrow> nbd_device \<Rightarrow> int \<times> nbd_device" where
  "nbd_genl_size_set k at nbd =
    (let c = cfg nbd; bsize = case_option (ucast (nbd_blksize c)) id (attr_block_size at);
         bytes = case_option (bytesize c) id (attr_size at)
     in if bytes \<noteq> bytesize c \<or> bsize \<noteq> ucast (nbd_blksize c) then nbd_set_size (bad_block_size k) bytes bsize nbd
        else (0, nbd))"

text \<open>The timeouts, which both commands set in the same way.\<close>

definition genl_timeouts :: "kernel \<Rightarrow> genl_attrs \<Rightarrow> nbd_device \<Rightarrow> nbd_device" where
  "genl_timeouts k at nbd =
    (let nbd = (case attr_timeout at of None \<Rightarrow> nbd | Some s \<Rightarrow> nbd_set_cmd_timeout k s nbd)
     in case attr_dead_conn_timeout at of None \<Rightarrow> nbd
        | Some s \<Rightarrow> with_config (\<lambda>c. c\<lparr>dead_conn_timeout := s * of_nat (HZ k)\<rparr>) nbd)"

text \<open>
  The client flags: with DESTROY_ON_DISCONNECT the device gives up the reference that keeps it
  around (the result tells that it is still to be put), without it the device takes it back.
\<close>

definition genl_destroy_flag :: "u64 \<Rightarrow> nbd_device \<Rightarrow> bool \<times> nbd_device" where
  "genl_destroy_flag fl nbd =
    (if fl AND NBD_CFLAG_DESTROY_ON_DISCONNECT \<noteq> 0
     then (NBD_DESTROY_ON_DISCONNECT \<notin> dev_flags nbd, nbd\<lparr>dev_flags := insert NBD_DESTROY_ON_DISCONNECT (dev_flags nbd)\<rparr>)
     else if NBD_DESTROY_ON_DISCONNECT \<in> dev_flags nbd
     then (False, nbd\<lparr>dev_flags := dev_flags nbd - {NBD_DESTROY_ON_DISCONNECT}, refs := refs nbd + 1\<rparr>)
     else (False, nbd))"

definition genl_close_flag :: "bool \<Rightarrow> u64 \<Rightarrow> nbd_device \<Rightarrow> nbd_device" where
  "genl_close_flag clears fl =
    (if fl AND NBD_CFLAG_DISCONNECT_ON_CLOSE \<noteq> 0
     then with_config (\<lambda>c. c\<lparr>runtime_flags := insert NBD_RT_DISCONNECT_ON_CLOSE (runtime_flags c)\<rparr>)
     else if clears then with_config (\<lambda>c. c\<lparr>runtime_flags := runtime_flags c - {NBD_RT_DISCONNECT_ON_CLOSE}\<rparr>)
     else (\<lambda>nbd. nbd))"

definition genl_client_flags :: "bool \<Rightarrow> genl_attrs \<Rightarrow> nbd_device \<Rightarrow> bool \<times> nbd_device" where
  "genl_client_flags clears at nbd =
    (case attr_client_flags at of None \<Rightarrow> (False, nbd)
     | Some fl \<Rightarrow> (let (put_dev, nbd) = genl_destroy_flag fl nbd in (put_dev, genl_close_flag clears fl nbd)))"

text \<open>The loop over the sockets of a message, with the operation on each of them.\<close>

fun genl_sockets :: "(int + socket \<Rightarrow> nbd_device \<Rightarrow> int \<times> nbd_device) \<Rightarrow> sock_item list \<Rightarrow> nbd_device \<Rightarrow> int \<times> nbd_device" where
  "genl_sockets f [] nbd = (0, nbd)"
| "genl_sockets f (Bad_item # items) nbd = (- EINVAL, nbd)"
| "genl_sockets f (No_fd # items) nbd = genl_sockets f items nbd"
| "genl_sockets f (Fd found # items) nbd =
    (let (ret, nbd) = f found nbd in if ret \<noteq> 0 then (ret, nbd) else genl_sockets f items nbd)"

section \<open>Connecting\<close>

text \<open>
  \<open>nbd_genl_connect\<close> after the configuration has been allocated: the settings, the sockets, the
  start of the device and its backend, up to the label \<open>out\<close>.
\<close>

definition connect_server_flags :: "genl_attrs \<Rightarrow> nbd_device \<Rightarrow> nbd_device" where
  "connect_server_flags at nbd =
    (case attr_server_flags at of None \<Rightarrow> nbd | Some fl \<Rightarrow> with_config (\<lambda>c. c\<lparr>cfg_flags := ucast fl\<rparr>) nbd)"

definition connect_backend :: "kernel \<Rightarrow> genl_attrs \<Rightarrow> nbd_device \<Rightarrow> int \<times> nbd_device" where
  "connect_backend k at nbd =
    (if attr_backend at \<noteq> None \<and> \<not> allocates k 0 then (- ENOMEM, nbd\<lparr>backend := None\<rparr>)
     else (let nbd = (case attr_backend at of None \<Rightarrow> nbd | Some b \<Rightarrow> nbd\<lparr>backend := Some b\<rparr>)
           in if create_file k \<noteq> 0 then (create_file k, nbd)
              else (0, with_config (\<lambda>c. c\<lparr>runtime_flags := insert NBD_RT_HAS_BACKEND_FILE (runtime_flags c)\<rparr>) nbd)))"

definition connect_start :: "kernel \<Rightarrow> genl_attrs \<Rightarrow> nbd_device \<Rightarrow> (int \<times> nbd_device) option" where
  "connect_start k at nbd =
    (let (ret, nbd) = genl_sockets (nbd_add_socket k True) (case_option [] id (attr_sockets at)) nbd
     in if ret \<noteq> 0 then Some (ret, nbd)
        else (case nbd_start_device k nbd of
                None \<Rightarrow> None
              | Some (ret, nbd) \<Rightarrow> Some (if ret \<noteq> 0 then (ret, nbd) else connect_backend k at nbd)))"

definition connect_config :: "kernel \<Rightarrow> genl_attrs \<Rightarrow> nbd_device \<Rightarrow> (int \<times> bool \<times> nbd_device) option" where
  "connect_config k at nbd =
    (let (ret, nbd) = nbd_genl_size_set k at nbd
     in if ret \<noteq> 0 then Some (ret, False, nbd)
        else (let (put_dev, nbd) = genl_client_flags False at (connect_server_flags at (genl_timeouts k at nbd))
              in map_option (\<lambda>(ret, nbd). (ret, put_dev, nbd)) (connect_start k at nbd)))"

text \<open>The label \<open>out\<close>: success keeps a reference, and the one of the connection is put.\<close>

definition connect_out :: "int \<times> bool \<times> nbd_device \<Rightarrow> int \<times> nbd_device" where
  "connect_out r = (case r of (ret, put_dev, nbd) \<Rightarrow>
     let nbd = (if ret = 0
           then with_config (\<lambda>c. c\<lparr>runtime_flags := insert NBD_RT_HAS_CONFIG_REF (runtime_flags c)\<rparr>)
                  (nbd\<lparr>config_refs := config_refs nbd + 1\<rparr>)
           else nbd);
         nbd = nbd_config_put nbd
     in (ret, if put_dev then nbd_put nbd else nbd))"

definition connect_device :: "kernel \<Rightarrow> genl_attrs \<Rightarrow> nbd_device \<Rightarrow> (int \<times> nbd_device) option" where
  "connect_device k at nbd =
    (if config_refs nbd \<noteq> 0 then Some (- EBUSY, nbd_put nbd)
     else if config nbd \<noteq> None then Some (- EINVAL, nbd_put nbd)
     else (case nbd_alloc_config k of
             Inl err \<Rightarrow> Some (err, nbd_put nbd)
           | Inr c \<Rightarrow>
               map_option connect_out
                 (connect_config k at (nbd\<lparr>config := Some (c\<lparr>runtime_flags := {NBD_RT_BOUND}\<rparr>), config_refs := 1\<rparr>))))"

section \<open>Disconnecting and reconfiguring\<close>

definition disconnect_device :: "kernel \<Rightarrow> nbd_device \<Rightarrow> nbd_device option" where
  "disconnect_device k nbd =
    (if config_refs nbd = 0 then Some (nbd_put nbd)
     else map_option (\<lambda>nbd. nbd_put (nbd_config_put nbd))
       (nbd_disconnect_and_put k (nbd\<lparr>config_refs := config_refs nbd + 1\<rparr>)))"

text \<open>The device must have the backend that the message names.\<close>

definition backend_matches :: "genl_attrs \<Rightarrow> nbd_device \<Rightarrow> bool" where
  "backend_matches at nbd \<longleftrightarrow> backend nbd = None \<or> attr_backend at = backend nbd"

definition reconfigure_sockets :: "kernel \<Rightarrow> genl_attrs \<Rightarrow> nbd_device \<Rightarrow> int \<times> nbd_device" where
  "reconfigure_sockets k at nbd =
    (let (ret, nbd) = genl_sockets (nbd_reconnect_socket k) (case_option [] id (attr_sockets at)) nbd
     in (if ret = - ENOSPC then 0 else ret, nbd))"

definition reconfigure_config :: "kernel \<Rightarrow> genl_attrs \<Rightarrow> nbd_device \<Rightarrow> int \<times> bool \<times> nbd_device" where
  "reconfigure_config k at nbd =
    (if NBD_RT_BOUND \<notin> runtime_flags (cfg nbd) \<or> pid nbd = 0 then (- EINVAL, False, nbd)
     else (let (ret, nbd) = nbd_genl_size_set k at nbd
           in if ret \<noteq> 0 then (ret, False, nbd)
              else (let (put_dev, nbd) = genl_client_flags True at (genl_timeouts k at nbd);
                        (ret, nbd) = reconfigure_sockets k at nbd
                    in (ret, put_dev, nbd))))"

definition reconfigure_device :: "kernel \<Rightarrow> genl_attrs \<Rightarrow> nbd_device \<Rightarrow> int \<times> nbd_device" where
  "reconfigure_device k at nbd =
    (if config_refs nbd = 0 then (- EINVAL, nbd_put nbd)
     else (let (ret, put_dev, nbd) = reconfigure_config k at (nbd\<lparr>config_refs := config_refs nbd + 1\<rparr>);
               nbd = nbd_put (nbd_config_put nbd)
           in (ret, if put_dev then nbd_put nbd else nbd)))"

section \<open>The table of devices\<close>

type_synonym nbd_table = "(int \<times> nbd_device) list"

definition table_put :: "int \<Rightarrow> nbd_device \<Rightarrow> nbd_table \<Rightarrow> nbd_table" where
  "table_put did nbd = map (\<lambda>(j, d). (j, if j = did then nbd else d))"

fun nbd_find_get_unused :: "nbd_table \<Rightarrow> (int \<times> nbd_device) option" where
  "nbd_find_get_unused [] = None"
| "nbd_find_get_unused ((did, nbd) # table) =
    (if config_refs nbd \<noteq> 0 \<or> NBD_DESTROY_ON_DISCONNECT \<in> dev_flags nbd then nbd_find_get_unused table
     else if refs nbd \<noteq> 0 then Some (did, nbd\<lparr>refs := refs nbd + 1\<rparr>)
     else nbd_find_get_unused table)"

text \<open>
  A new device.  The first id that is free is taken when none is asked for; the errors of the
  block layer are one parameter.
\<close>

definition new_device :: "u32 list \<Rightarrow> int \<Rightarrow> nat \<Rightarrow> nbd_device" where
  "new_device ts index r = \<lparr>nbd_index = index, refs = r, config_refs = 0, config = None, nr_hw_queues = 1,
     tags = (\<lambda>_. None), all_tags = ts,
     cmds = (\<lambda>_. \<lparr>cmd_index = 0, cookie = 0, retries = 0, status = 0, requeued = False, inflight = False, cmd_cookie = 0\<rparr>),
     timeout = 0, pid = 0, task_setup = None, dev_flags = {}, backend = None, recv_works = [], waiting = [], openers = 0,
     events = []\<rparr>"

fun free_id :: "nat \<Rightarrow> int \<Rightarrow> nbd_table \<Rightarrow> int" where
  "free_id 0 j table = j"
| "free_id (Suc n) j table = (if map_of table j = None then j else free_id n (j + 1) table)"

definition nbd_dev_add :: "u32 list \<Rightarrow> int \<Rightarrow> int \<Rightarrow> nat \<Rightarrow> nbd_table \<Rightarrow> (int + int) \<times> nbd_table" where
  "nbd_dev_add ts add_error index r table =
    (if 0 \<le> index \<and> map_of table index \<noteq> None then (Inl (- EEXIST), table)
     else if add_error \<noteq> 0 then (Inl add_error, table)
     else (let index = (if 0 \<le> index then index else free_id (length table) 0 table)
           in (Inr index, insort_key fst (index, new_device ts index r) table)))"

definition MINORMASK :: int where "MINORMASK = 2 ^ 20 - 1"

text \<open>The device a message asks for: its id and the device with a reference taken.\<close>

definition connect_find :: "u32 list \<Rightarrow> int \<Rightarrow> int \<Rightarrow> nbd_table \<Rightarrow> (int + int \<times> nbd_device) \<times> nbd_table" where
  "connect_find ts add_error index table =
    (let found = (if index = - 1 then nbd_find_get_unused table else map_option (Pair index) (map_of table index))
     in case found of
          Some (did, nbd) \<Rightarrow>
            if index = - 1 then (Inr (did, nbd), table)
            else if NBD_DESTROY_ON_DISCONNECT \<in> dev_flags nbd \<and> NBD_DISCONNECT_REQUESTED \<in> dev_flags nbd \<or> refs nbd = 0
            then (Inl (- EINVAL), table)
            else (Inr (did, nbd\<lparr>refs := refs nbd + 1\<rparr>), table)
        | None \<Rightarrow>
            (case nbd_dev_add ts add_error index 2 table of
               (Inl err, table) \<Rightarrow> (Inl err, table)
             | (Inr did, table) \<Rightarrow> (Inr (did, the (map_of table did)), table)))"

definition nbd_genl_connect ::
  "kernel \<Rightarrow> u32 list \<Rightarrow> int \<Rightarrow> nat \<Rightarrow> bool \<Rightarrow> genl_attrs \<Rightarrow> nbd_table \<Rightarrow> (int \<times> nbd_table) option" where
  "nbd_genl_connect k ts add_error part_shift capable at table =
    (let index = case_option (- 1) id (attr_index at)
     in if \<not> capable then Some (- EPERM, table)
        else if attr_index at \<noteq> None \<and> (index < 0 \<or> MINORMASK div 2 ^ part_shift < index) then Some (- EINVAL, table)
        else if attr_sockets at = None then Some (- EINVAL, table)
        else if attr_size at = None then Some (- EINVAL, table)
        else (case connect_find ts add_error index table of
                (Inl err, table) \<Rightarrow> Some (err, table)
              | (Inr (did, nbd), table) \<Rightarrow>
                  map_option (\<lambda>(ret, nbd). (ret, table_put did nbd table)) (connect_device k at nbd)))"

definition nbd_genl_disconnect :: "kernel \<Rightarrow> bool \<Rightarrow> genl_attrs \<Rightarrow> nbd_table \<Rightarrow> (int \<times> nbd_table) option" where
  "nbd_genl_disconnect k capable at table =
    (if \<not> capable then Some (- EPERM, table)
     else (case attr_index at of
             None \<Rightarrow> Some (- EINVAL, table)
           | Some index \<Rightarrow>
               (case map_of table index of
                  None \<Rightarrow> Some (- EINVAL, table)
                | Some nbd \<Rightarrow>
                    if refs nbd = 0 then Some (- EINVAL, table)
                    else map_option (\<lambda>nbd. (0, table_put index nbd table))
                      (disconnect_device k (nbd\<lparr>refs := refs nbd + 1\<rparr>)))))"

definition nbd_genl_reconfigure :: "kernel \<Rightarrow> bool \<Rightarrow> genl_attrs \<Rightarrow> nbd_table \<Rightarrow> int \<times> nbd_table" where
  "nbd_genl_reconfigure k capable at table =
    (if \<not> capable then (- EPERM, table)
     else (case attr_index at of
             None \<Rightarrow> (- EINVAL, table)
           | Some index \<Rightarrow>
               (case map_of table index of
                  None \<Rightarrow> (- EINVAL, table)
                | Some nbd \<Rightarrow>
                    if \<not> backend_matches at nbd then (- EINVAL, table)
                    else if refs nbd = 0 then (- EINVAL, table)
                    else (let (ret, nbd) = reconfigure_device k at (nbd\<lparr>refs := refs nbd + 1\<rparr>)
                          in (ret, table_put index nbd table)))))"

text \<open>The status of the devices: the id of each, and whether it is connected.\<close>

definition populate_nbd_status :: "nbd_device \<Rightarrow> int \<times> bool" where
  "populate_nbd_status nbd = (nbd_index nbd, config_refs nbd \<noteq> 0)"

definition nbd_genl_status :: "int \<Rightarrow> nbd_table \<Rightarrow> (int \<times> bool) list" where
  "nbd_genl_status index table =
    (if index = - 1 then map (populate_nbd_status \<circ> snd) table
     else (case map_of table index of None \<Rightarrow> [] | Some nbd \<Rightarrow> [populate_nbd_status nbd]))"

section \<open>Loading the module\<close>

text \<open>
  \<open>nbd_init\<close>: the shift of a minor number that leaves room for the partitions (fls is the
  position of the highest bit, from one), the checks, and the devices that are added at once.
  \<open>setup_error\<close> is what registering with the kernel answers.
\<close>

fun fls :: "nat \<Rightarrow> nat" where
  "fls n = (if n = 0 then 0 else Suc (fls (n div 2)))"

declare fls.simps [simp del]

definition DISK_MAX_PARTS :: nat where "DISK_MAX_PARTS = 256"
definition MINORBITS :: nat where "MINORBITS = 20"

definition nbd_init :: "u32 list \<Rightarrow> int \<Rightarrow> int \<Rightarrow> nat \<Rightarrow> int \<times> nat \<times> int \<times> nbd_table" where
  "nbd_init ts setup_error max_part nbds_max =
    (if max_part < 0 then (- EINVAL, 0, max_part, [])
     else (let part_shift = (if 0 < max_part then fls (nat max_part) else 0);
               max_part = (if 0 < max_part then 2 ^ part_shift - 1 else max_part)
           in if DISK_MAX_PARTS < 2 ^ part_shift then (- EINVAL, part_shift, max_part, [])
              else if 2 ^ (MINORBITS - part_shift) < nbds_max then (- EINVAL, part_shift, max_part, [])
              else if setup_error \<noteq> 0 then (setup_error, part_shift, max_part, [])
              else (0, part_shift, max_part, fold (\<lambda>i table. snd (nbd_dev_add ts 0 (int i) 1 table)) [0..<nbds_max] [])))"

text \<open>\<open>nbd_cleanup\<close>: every device that is not being removed is put.\<close>

definition nbd_cleanup :: "nbd_table \<Rightarrow> nbd_table" where
  "nbd_cleanup = map (\<lambda>(did, nbd). (did, if refs nbd \<noteq> 0 then nbd_put nbd else nbd))"

end
