(* ===== verification/Nbd_Inv.thy ===== *)
theory Nbd_Inv
  imports Nbd_Netlink
begin

text \<open>
  What the operations of a network block device keep: the sockets of a configuration and the
  number of those that are alive, the references to the configuration and to the device, and
  the balance of the requests that are sent and completed.
\<close>

section \<open>Sockets and configurations\<close>

text \<open>
  A socket has sent a part of a request exactly when it remembers the request, and a dead one
  is shut down and has nothing pending.
\<close>

definition sock_ok :: "nbd_sock \<Rightarrow> bool" where
  "sock_ok s \<longleftrightarrow> (pending s = None \<longleftrightarrow> sent s = 0) \<and> (dead s \<longrightarrow> pending s = None \<and> shut (sock s))"

definition alive :: "nbd_sock list \<Rightarrow> nat" where
  "alive xs = length (filter (\<lambda>s. \<not> dead s) xs)"

definition config_ok :: "nbd_config \<Rightarrow> bool" where
  "config_ok c \<longleftrightarrow> live_connections c = int (alive (socks c)) \<and> (\<forall>s\<in>set (socks c). sock_ok s)"

lemma alive_simps [simp]:
  "alive [] = 0" "alive (x # xs) = (if dead x then alive xs else Suc (alive xs))"
  by (simp_all add: alive_def)

lemma alive_update:
  "i < length xs \<Longrightarrow> alive (xs[i := y]) + (if dead (xs ! i) then 0 else 1) = alive xs + (if dead y then 0 else 1)"
proof (induction xs arbitrary: i)
  case (Cons x xs)
  show ?case
  proof (cases i)
    case (Suc j)
    then show ?thesis using Cons.IH [of j] Cons.prems by (simp split: if_splits)
  qed simp
qed simp

lemma alive_append [simp]: "alive (xs @ ys) = alive xs + alive ys"
  by (simp add: alive_def)

lemma alive_pos: "0 < alive xs \<longleftrightarrow> (\<exists>s\<in>set xs. \<not> dead s)"
  by (auto simp: alive_def filter_empty_conv)

lemma set_update_ok: "\<forall>s\<in>set xs. sock_ok s \<Longrightarrow> (i < length xs \<Longrightarrow> sock_ok y) \<Longrightarrow> \<forall>s\<in>set (xs[i := y]). sock_ok s"
  by (cases "i < length xs") (auto simp: list_update_beyond dest!: set_update_subset_insert [THEN subsetD])

text \<open>
  The changes of a configuration that leave its references alone: it stays well formed, loses
  no socket, and keeps the flag of the reference and the number of receive works.
\<close>

definition keeps :: "nbd_config \<Rightarrow> nbd_config \<Rightarrow> bool" where
  "keeps c c' \<longleftrightarrow> (config_ok c \<longrightarrow> config_ok c') \<and> num_connections c \<le> num_connections c' \<and>
     (NBD_RT_HAS_CONFIG_REF \<in> runtime_flags c' \<longleftrightarrow> NBD_RT_HAS_CONFIG_REF \<in> runtime_flags c) \<and>
     recv_threads c' = recv_threads c"

lemma keeps_refl [simp, intro]: "keeps c c"
  by (simp add: keeps_def)

lemma keeps_trans: "keeps c c' \<Longrightarrow> keeps c' c'' \<Longrightarrow> keeps c c''"
  by (auto simp: keeps_def)

lemma keeps_fields:
  assumes "socks c' = socks c" "live_connections c' = live_connections c" "recv_threads c' = recv_threads c"
    and "NBD_RT_HAS_CONFIG_REF \<in> runtime_flags c' \<longleftrightarrow> NBD_RT_HAS_CONFIG_REF \<in> runtime_flags c"
  shows "keeps c c'"
  using assms by (simp add: keeps_def config_ok_def)

lemma with_sock_fields [simp]:
  "cfg_flags (with_sock i f c) = cfg_flags c" "runtime_flags (with_sock i f c) = runtime_flags c"
  "live_connections (with_sock i f c) = live_connections c" "recv_threads (with_sock i f c) = recv_threads c"
  "dead_conn_timeout (with_sock i f c) = dead_conn_timeout c"
  "num_connections (with_sock i f c) = num_connections c" "bytesize (with_sock i f c) = bytesize c"
  "blksize_bits (with_sock i f c) = blksize_bits c"
  by (simp_all add: with_sock_def)

lemma keeps_with_sock:
  assumes "i < num_connections c \<Longrightarrow> config_ok c \<Longrightarrow> sock_ok (socks c ! i) \<Longrightarrow> sock_ok (f (socks c ! i))"
    and "dead (f (socks c ! i)) = dead (socks c ! i)"
  shows "keeps c (with_sock i f c)"
proof (cases "i < num_connections c")
  case True
  have "alive ((socks c)[i := f (socks c ! i)]) = alive (socks c)"
    using alive_update [OF True, of "f (socks c ! i)"] assms(2) by (simp split: if_splits)
  moreover have "\<forall>s\<in>set ((socks c)[i := f (socks c ! i)]). sock_ok s" if "config_ok c"
    by (rule set_update_ok) (use that assms(1) True in \<open>auto simp: config_ok_def\<close>)
  ultimately show ?thesis by (auto simp: keeps_def config_ok_def socks_with_sock)
next
  case False
  then show ?thesis by (simp add: keeps_def config_ok_def socks_with_sock list_update_beyond)
qed

lemma keeps_put_sock: "shut sk \<longleftrightarrow> shut (sock (socks c ! i)) \<Longrightarrow> keeps c (with_sock i (\<lambda>s. s\<lparr>sock := sk\<rparr>) c)"
  by (rule keeps_with_sock) (auto simp: sock_ok_def)

lemma keeps_drained: "drained i c c' \<Longrightarrow> keeps c c'"
  unfolding drained_def by (auto intro!: keeps_with_sock simp: sock_ok_def)

text \<open>A socket that is marked dead leaves the number of live connections right.\<close>

lemma keeps_link_down:
  assumes "i < num_connections c" "\<not> dead (socks c ! i)"
  shows "keeps c (with_sock i (\<lambda>s. s\<lparr>dead := True, pending := None, sent := 0\<rparr>) (config_link_down i c))"
proof -
  let ?s = "(socks c ! i)\<lparr>sock := (sock (socks c ! i))\<lparr>shut := True\<rparr>, dead := True, pending := None, sent := 0\<rparr>"
  let ?c = "with_sock i (\<lambda>s. s\<lparr>dead := True, pending := None, sent := 0\<rparr>) (config_link_down i c)"
  have socks: "socks ?c = (socks c)[i := ?s]"
    using assms(1) by (simp add: config_link_down_def socks_with_sock Let_def)
  have fields: "live_connections ?c = live_connections c - 1" "recv_threads ?c = recv_threads c"
    "NBD_RT_HAS_CONFIG_REF \<in> runtime_flags ?c \<longleftrightarrow> NBD_RT_HAS_CONFIG_REF \<in> runtime_flags c"
    by (simp_all add: config_link_down_def Let_def)
  have "alive ((socks c)[i := ?s]) + 1 = alive (socks c)"
    using alive_update [OF assms(1), of ?s] assms(2) by simp
  moreover have "\<forall>s\<in>set ((socks c)[i := ?s]). sock_ok s" if "config_ok c"
    by (rule set_update_ok) (use that in \<open>auto simp: config_ok_def sock_ok_def\<close>)
  ultimately show ?thesis unfolding keeps_def config_ok_def socks fields by auto
qed

lemma keeps_mark_dead: "i < num_connections c \<Longrightarrow> keeps c (config_mark_dead i c)"
  using keeps_link_down [of i c] keeps_with_sock [of i c "\<lambda>s. s\<lparr>dead := True, pending := None, sent := 0\<rparr>"]
  by (auto simp: config_mark_dead_def sock_ok_def)

lemma num_mark_dead [simp]: "num_connections (config_mark_dead i c) = num_connections c"
  by (simp add: config_mark_dead_def config_link_down_def Let_def)

lemma mark_dead_dead:
  "i < num_connections c \<Longrightarrow> dead (socks (config_mark_dead i c) ! i)"
  "dead (socks c ! j) \<Longrightarrow> j < num_connections c \<Longrightarrow> dead (socks (config_mark_dead i c) ! j)"
  by (cases "i = j"; simp add: config_mark_dead_def config_link_down_def socks_with_sock Let_def nth_list_update)+

lemma keeps_add_sock: "keeps c (add_sock sk c)"
  by (auto simp: keeps_def config_ok_def add_sock_def new_sock_def sock_ok_def alive_def)

section \<open>The balance of sent and completed requests\<close>

text \<open>
  The times a request has been sent, less the times it has been completed and one when its
  command is in flight.  No operation makes the balance smaller, none but opening and
  releasing changes the openers, and none but connecting takes the reference of a connection.
\<close>

definition balance :: "u32 \<Rightarrow> nbd_device \<Rightarrow> int" where
  "balance t nbd = int (length (filter (\<lambda>e. e = Payload_sent t) (events nbd)))
     - int (length (filter (\<lambda>e. \<exists>st. e = Complete t st) (events nbd))) - (if inflight (cmds nbd t) then 1 else 0)"

definition has_config_ref :: "nbd_device \<Rightarrow> bool" where
  "has_config_ref nbd \<longleftrightarrow> (\<exists>c. config nbd = Some c \<and> NBD_RT_HAS_CONFIG_REF \<in> runtime_flags c)"

definition earns :: "nbd_device \<Rightarrow> nbd_device \<Rightarrow> bool" where
  "earns nbd nbd' \<longleftrightarrow> openers nbd' = openers nbd \<and> (has_config_ref nbd' \<longrightarrow> has_config_ref nbd) \<and> (\<forall>t. balance t nbd \<le> balance t nbd')"

lemma earns_refl [simp, intro]: "earns nbd nbd"
  by (simp add: earns_def)

lemma earns_trans: "earns nbd nbd' \<Longrightarrow> earns nbd' nbd'' \<Longrightarrow> earns nbd nbd''"
  unfolding earns_def by (metis order_trans)

lemma earns_same: "openers nbd' = openers nbd \<Longrightarrow> (has_config_ref nbd' \<Longrightarrow> has_config_ref nbd) \<Longrightarrow> events nbd' = events nbd \<Longrightarrow> cmds nbd' = cmds nbd \<Longrightarrow> earns nbd nbd'"
  by (simp add: earns_def balance_def)

lemma balance_emit [simp]:
  "balance t (emit e nbd) = balance t nbd + (if e = Payload_sent t then 1 else 0) - (if \<exists>st. e = Complete t st then 1 else 0)"
  by (simp add: balance_def emit_def)

lemma balance_with_cmd [simp]:
  "balance u (with_cmd t f nbd) = balance u nbd + (if u = t \<and> inflight (cmds nbd t) then 1 else 0) - (if u = t \<and> inflight (f (cmds nbd t)) then 1 else 0)"
  by (simp add: balance_def with_cmd_def)

lemma balance_same [simp]:
  "balance t (with_config f nbd) = balance t nbd" "balance t (set_rq_state u st nbd) = balance t nbd"
  "balance t (put_sock i sk nbd) = balance t nbd" "balance t (set_segments u segs nbd) = balance t nbd"
  "balance t (nbd\<lparr>config_refs := x\<rparr>) = balance t nbd" "balance t (nbd\<lparr>refs := x\<rparr>) = balance t nbd"
  "balance t (nbd\<lparr>config := x2\<rparr>) = balance t nbd" "balance t (nbd\<lparr>task_setup := x3\<rparr>) = balance t nbd"
  "balance t (nbd\<lparr>timeout := x\<rparr>) = balance t nbd" "balance t (nbd\<lparr>pid := x\<rparr>) = balance t nbd"
  "balance t (nbd\<lparr>backend := x4\<rparr>) = balance t nbd" "balance t (nbd\<lparr>recv_works := x5\<rparr>) = balance t nbd"
  "balance t (nbd\<lparr>waiting := x6\<rparr>) = balance t nbd" "balance t (nbd\<lparr>openers := x\<rparr>) = balance t nbd"
  "balance t (nbd\<lparr>dev_flags := x7\<rparr>) = balance t nbd" "balance t (nbd\<lparr>nr_hw_queues := x\<rparr>) = balance t nbd"
  "balance t (nbd\<lparr>tags := x8\<rparr>) = balance t nbd"
  by (simp_all add: balance_def with_config_def set_rq_state_def put_sock_def set_segments_def)

lemma has_config_ref_same [simp]:
  "has_config_ref (set_rq_state u st nbd) = has_config_ref nbd" "has_config_ref (set_segments u segs nbd) = has_config_ref nbd"
  "has_config_ref (emit e nbd) = has_config_ref nbd" "has_config_ref (with_cmd t g nbd) = has_config_ref nbd"
  "has_config_ref (nbd\<lparr>config_refs := x\<rparr>) = has_config_ref nbd" "has_config_ref (nbd\<lparr>refs := x\<rparr>) = has_config_ref nbd"
  "has_config_ref (nbd\<lparr>task_setup := x3\<rparr>) = has_config_ref nbd" "has_config_ref (nbd\<lparr>tags := x8\<rparr>) = has_config_ref nbd"
  "has_config_ref (nbd\<lparr>timeout := x\<rparr>) = has_config_ref nbd" "has_config_ref (nbd\<lparr>pid := x\<rparr>) = has_config_ref nbd"
  "has_config_ref (nbd\<lparr>backend := x4\<rparr>) = has_config_ref nbd" "has_config_ref (nbd\<lparr>recv_works := x5\<rparr>) = has_config_ref nbd"
  "has_config_ref (nbd\<lparr>waiting := x6\<rparr>) = has_config_ref nbd" "has_config_ref (nbd\<lparr>openers := x\<rparr>) = has_config_ref nbd"
  "has_config_ref (nbd\<lparr>dev_flags := x7\<rparr>) = has_config_ref nbd" "has_config_ref (nbd\<lparr>nr_hw_queues := x\<rparr>) = has_config_ref nbd"
  "has_config_ref (nbd\<lparr>config := Some c\<rparr>) \<longleftrightarrow> NBD_RT_HAS_CONFIG_REF \<in> runtime_flags c"
  "\<not> has_config_ref (nbd\<lparr>config := None\<rparr>)"
  by (simp_all add: has_config_ref_def set_segments_def set_rq_state_def emit_def with_cmd_def)

lemma has_config_ref_with_config:
  "has_config_ref (with_config f nbd) \<longleftrightarrow> (\<exists>c. config nbd = Some c \<and> NBD_RT_HAS_CONFIG_REF \<in> runtime_flags (f c))"
  by (auto simp: has_config_ref_def with_config_def)

lemma has_config_ref_keeps: "rel_option keeps (config nbd) (config nbd') \<Longrightarrow> has_config_ref nbd' = has_config_ref nbd"
  by (cases "config nbd"; cases "config nbd'") (auto simp: has_config_ref_def keeps_def)

lemma openers_same [simp]:
  "openers (with_config f nbd) = openers nbd" "openers (set_rq_state u st nbd) = openers nbd"
  "openers (put_sock i sk nbd) = openers nbd" "openers (set_segments u segs nbd) = openers nbd"
  "openers (emit e nbd) = openers nbd" "openers (with_cmd t g nbd) = openers nbd"
  by (simp_all add: with_config_def set_rq_state_def put_sock_def set_segments_def emit_def with_cmd_def)

lemma balance_complete:
  "balance u (blk_mq_complete_request t nbd) = balance u nbd - (if u = t then 1 else 0)"
  by (simp add: blk_mq_complete_request_def nbd_complete_rq_def)

section \<open>Operations that leave the references alone\<close>

definition stays :: "nbd_device \<Rightarrow> nbd_device \<Rightarrow> bool" where
  "stays nbd nbd' \<longleftrightarrow> refs nbd' = refs nbd \<and> config_refs nbd' = config_refs nbd \<and> openers nbd' = openers nbd \<and>
     waiting nbd' = waiting nbd \<and> recv_works nbd' = recv_works nbd \<and>
     (NBD_DESTROY_ON_DISCONNECT \<in> dev_flags nbd' \<longleftrightarrow> NBD_DESTROY_ON_DISCONNECT \<in> dev_flags nbd) \<and>
     rel_option keeps (config nbd) (config nbd') \<and> earns nbd nbd'"

named_theorems stays

lemma keeps_option_refl [simp]: "rel_option keeps c c"
  by (rule option.rel_refl) simp

lemma stays_refl [simp, intro]: "stays nbd nbd"
  by (simp add: stays_def)

lemma stays_trans: "stays nbd nbd' \<Longrightarrow> stays nbd' nbd'' \<Longrightarrow> stays nbd nbd''"
  unfolding stays_def using earns_trans option.rel_transp [of keeps] keeps_trans
  by (auto simp: transp_def)

lemma stays_fold: "(\<And>x nbd. x \<in> set xs \<Longrightarrow> P nbd \<Longrightarrow> stays nbd (f x nbd) \<and> P (f x nbd)) \<Longrightarrow> P nbd \<Longrightarrow> stays nbd (fold f xs nbd) \<and> P (fold f xs nbd)"
proof (induction xs arbitrary: nbd)
  case (Cons x xs)
  then have "stays nbd (f x nbd)" "P (f x nbd)" by auto
  then show ?case using Cons.IH [of "f x nbd"] Cons.prems(1) stays_trans by auto
qed simp

lemma with_config_fields [simp]:
  "refs (with_config f nbd) = refs nbd" "config_refs (with_config f nbd) = config_refs nbd"
  "waiting (with_config f nbd) = waiting nbd" "recv_works (with_config f nbd) = recv_works nbd"
  "dev_flags (with_config f nbd) = dev_flags nbd"
  by (simp_all add: with_config_def)

lemma earns_with_config:
  "(\<And>c. NBD_RT_HAS_CONFIG_REF \<in> runtime_flags (f c) \<Longrightarrow> NBD_RT_HAS_CONFIG_REF \<in> runtime_flags c) \<Longrightarrow> earns nbd (with_config f nbd)"
  by (cases "config nbd") (auto simp: earns_def has_config_ref_with_config, simp add: has_config_ref_def)

lemma stays_config: "(\<And>c. config nbd = Some c \<Longrightarrow> keeps c (f c)) \<Longrightarrow> stays nbd (with_config f nbd)"
proof -
  assume "\<And>c. config nbd = Some c \<Longrightarrow> keeps c (f c)"
  then have k: "rel_option keeps (config nbd) (config (with_config f nbd))"
    by (cases "config nbd") (auto simp: with_config_def)
  then show ?thesis using has_config_ref_keeps [OF k] by (simp add: stays_def earns_def)
qed

lemma stays_emit: "(\<And>t st. e \<noteq> Complete t st) \<Longrightarrow> stays nbd (emit e nbd)"
  by (auto simp: stays_def earns_def) (simp_all add: emit_def)

lemma stays_with_cmd: "inflight (f (cmds nbd t)) \<longrightarrow> inflight (cmds nbd t) \<Longrightarrow> stays nbd (with_cmd t f nbd)"
  by (auto simp: stays_def earns_def) (simp_all add: with_cmd_def)

lemma stays_set_rq_state: "stays nbd (set_rq_state t st nbd)"
  by (auto simp: stays_def earns_def) (simp_all add: set_rq_state_def)

lemma stays_start: "stays nbd (blk_mq_start_request t nbd)"
  unfolding blk_mq_start_request_def by (rule stays_trans [OF stays_set_rq_state stays_emit]) simp

lemma stays_requeue_request: "stays nbd (blk_mq_requeue_request t nbd)"
  unfolding blk_mq_requeue_request_def by (auto intro: stays_trans [OF stays_set_rq_state] stays_emit)

lemma stays_requeue_cmd: "stays nbd (nbd_requeue_cmd t nbd)"
  unfolding nbd_requeue_cmd_def by (auto intro: stays_trans [OF stays_with_cmd stays_requeue_request])

text \<open>A request is completed by taking back that its command is in flight.\<close>

lemma stays_complete:
  assumes "inflight (cmds nbd t)" "\<not> inflight (f (cmds nbd t))"
  shows "stays nbd (blk_mq_complete_request t (with_cmd t f nbd))"
  using assms
  by (auto simp: stays_def earns_def blk_mq_complete_request_def nbd_complete_rq_def)
    (simp_all add: emit_def with_cmd_def set_rq_state_def)

lemma stays_clear_req: "stays nbd (nbd_clear_req t nbd)"
  by (simp add: nbd_clear_req_def stays_complete)

lemma stays_clear_que: "stays nbd (nbd_clear_que nbd)"
  unfolding nbd_clear_que_def
  by (rule stays_fold [where P = "\<lambda>_. True", THEN conjunct1]) (auto simp: stays_clear_req)

lemma stays_mark_dead: "i < num_connections (cfg nbd) \<Longrightarrow> stays nbd (nbd_mark_nsock_dead i notify nbd)"
proof -
  assume i: "i < num_connections (cfg nbd)"
  have mark: "stays x (with_config (config_mark_dead i) x)" if "config x = config nbd" for x
    by (rule stays_config) (use that i in \<open>auto intro: keeps_mark_dead\<close>)
  have "stays nbd (emit (Link_dead (nbd_index nbd)) nbd)" by (rule stays_emit) simp
  then show ?thesis unfolding nbd_mark_nsock_dead_def by (simp add: mark stays_trans [OF _ mark])
qed

lemma config_mark_nsock_dead: "config (nbd_mark_nsock_dead i notify nbd) = map_option (config_mark_dead i) (config nbd)"
  by (simp add: nbd_mark_nsock_dead_def with_config_def emit_def)

lemma stays_shutdown: "config nbd \<noteq> None \<Longrightarrow> stays nbd (sock_shutdown nbd)"
proof -
  let ?nbd = "with_config (\<lambda>c. c\<lparr>runtime_flags := insert NBD_RT_DISCONNECTED (runtime_flags c)\<rparr>) nbd"
  assume c: "config nbd \<noteq> None"
  have "stays nbd ?nbd" by (rule stays_config) (auto intro: keeps_fields)
  then have S: "stays nbd x" if "stays ?nbd x" for x using stays_trans that by blast
  have "stays ?nbd (fold (\<lambda>i. nbd_mark_nsock_dead i False) [0..<num_connections (cfg nbd)] ?nbd)"
    by (rule stays_fold [where P = "\<lambda>x. config x \<noteq> None \<and> num_connections (cfg x) = num_connections (cfg nbd)", THEN conjunct1])
      (use c in \<open>auto simp: stays_mark_dead config_mark_nsock_dead with_config_def\<close>)
  from S [OF this] show ?thesis unfolding sock_shutdown_def by simp
qed

end
