(* ===== verification/Nbd_Refs.thy ===== *)
theory Nbd_Refs
  imports Nbd_Inv
begin

text \<open>
  The references of a network block device: those of its configuration are held by the openers
  of the disk, the receive works, the requests that wait and the flag of the connection; those
  of the device by the openers, by its configuration, and by the module as long as the device is
  not to be destroyed when it is disconnected.
\<close>

section \<open>The invariant\<close>

text \<open>
  W are the receive works that hold a reference; k and j references more are held by the
  operation that runs.
\<close>

definition has_ref :: "nbd_config \<Rightarrow> nat" where
  "has_ref c = (if NBD_RT_HAS_CONFIG_REF \<in> runtime_flags c then 1 else 0)"

definition kept :: "nbd_device \<Rightarrow> nat" where
  "kept nbd = (if NBD_DESTROY_ON_DISCONNECT \<in> dev_flags nbd then 0 else 1)"

definition config_inv :: "(nat \<times> u32 option) list \<Rightarrow> nat \<Rightarrow> nbd_device \<Rightarrow> nbd_config \<Rightarrow> bool" where
  "config_inv W k nbd c \<longleftrightarrow> config_ok c \<and> 0 < config_refs nbd \<and>
     config_refs nbd = openers nbd + length W + length (waiting nbd) + has_ref c + k \<and>
     recv_threads c = int (length W) \<and> (\<forall>w\<in>set W. fst w < num_connections c) \<and>
     (\<forall>w\<in>set (waiting nbd). snd w < num_connections c)"

definition dev_inv :: "(nat \<times> u32 option) list \<Rightarrow> nat \<Rightarrow> nat \<Rightarrow> nbd_device \<Rightarrow> bool" where
  "dev_inv W k j nbd \<longleftrightarrow>
     (case config nbd of
        None \<Rightarrow> config_refs nbd = 0 \<and> W = [] \<and> waiting nbd = [] \<and> openers nbd = 0 \<and> k = 0
      | Some c \<Rightarrow> config_inv W k nbd c) \<and>
     kept nbd + openers nbd + (if config nbd = None then 0 else 1) + j \<le> refs nbd"

lemma config_inv_cong:
  "config_refs nbd' = config_refs nbd \<Longrightarrow> openers nbd' = openers nbd \<Longrightarrow> waiting nbd' = waiting nbd \<Longrightarrow>
     config_inv W k nbd' c = config_inv W k nbd c"
  by (simp add: config_inv_def)

lemma config_inv_refs [simp]: "config_inv W k (nbd\<lparr>refs := x\<rparr>) c = config_inv W k nbd c"
  by (rule config_inv_cong) simp_all

lemma dev_inv_config: "dev_inv W k j nbd \<Longrightarrow> 0 < k \<or> W \<noteq> [] \<or> 0 < openers nbd \<or> waiting nbd \<noteq> [] \<or> config_refs nbd \<noteq> 0
    \<Longrightarrow> \<exists>c. config nbd = Some c \<and> config_inv W k nbd c"
  by (auto simp: dev_inv_def split: option.splits)

lemma dev_inv_refs: "dev_inv W k j nbd \<Longrightarrow> config nbd = None \<longleftrightarrow> config_refs nbd = 0"
  by (auto simp: dev_inv_def config_inv_def split: option.splits)

lemma dev_inv_stays:
  assumes "dev_inv W k j nbd" "stays nbd nbd'"
  shows "dev_inv W k j nbd'"
proof (cases "config nbd")
  case None
  then show ?thesis using assms by (auto simp: dev_inv_def stays_def kept_def)
next
  case (Some c)
  then obtain c' where c': "config nbd' = Some c'" "keeps c c'"
    using assms(2) by (auto simp: stays_def option_rel_Some1)
  have "config_inv W k nbd c" using assms(1) Some by (simp add: dev_inv_def)
  then have "config_inv W k nbd' c'"
    using c'(2) assms(2) by (fastforce simp: config_inv_def keeps_def stays_def has_ref_def)
  then show ?thesis using Some c'(1) assms by (auto simp: dev_inv_def stays_def kept_def)
qed

text \<open>The invariant does not look at the other fields.\<close>

lemma dev_inv_fields [simp]:
  "dev_inv W k j (nbd\<lparr>task_setup := x3\<rparr>) = dev_inv W k j nbd" "dev_inv W k j (nbd\<lparr>timeout := x\<rparr>) = dev_inv W k j nbd"
  "dev_inv W k j (nbd\<lparr>pid := x\<rparr>) = dev_inv W k j nbd" "dev_inv W k j (nbd\<lparr>backend := x4\<rparr>) = dev_inv W k j nbd"
  "dev_inv W k j (nbd\<lparr>nr_hw_queues := x\<rparr>) = dev_inv W k j nbd" "dev_inv W k j (nbd\<lparr>tags := x8\<rparr>) = dev_inv W k j nbd"
  "dev_inv W k j (nbd\<lparr>recv_works := x5\<rparr>) = dev_inv W k j nbd"
  by (simp_all add: dev_inv_def config_inv_def kept_def split: option.splits)

section \<open>Putting references\<close>

lemma nbd_put_fields [simp]:
  "config (nbd_put nbd) = config nbd" "config_refs (nbd_put nbd) = config_refs nbd" "openers (nbd_put nbd) = openers nbd"
  "waiting (nbd_put nbd) = waiting nbd" "dev_flags (nbd_put nbd) = dev_flags nbd" "recv_works (nbd_put nbd) = recv_works nbd"
  "refs (nbd_put nbd) = refs nbd - 1" "balance t (nbd_put nbd) = balance t nbd"
  "has_config_ref (nbd_put nbd) = has_config_ref nbd"
  by (auto simp: nbd_put_def) (simp_all add: emit_def)

lemma dev_inv_put: "dev_inv W k (Suc j) nbd \<Longrightarrow> dev_inv W k j (nbd_put nbd)"
  by (auto simp: dev_inv_def config_inv_def kept_def split: option.splits)

lemma stays_clear_sock: "config nbd \<noteq> None \<Longrightarrow> stays nbd (nbd_clear_sock nbd)"
proof -
  assume "config nbd \<noteq> None"
  then have "stays nbd (nbd_clear_que (sock_shutdown nbd))"
    by (rule stays_trans [OF stays_shutdown stays_clear_que])
  then show ?thesis by (auto simp: nbd_clear_sock_def stays_def earns_def)
qed

lemma config_teardown_fields:
  assumes "config nbd \<noteq> None"
  shows "config (config_teardown nbd) = None" "config_refs (config_teardown nbd) = config_refs nbd"
    "openers (config_teardown nbd) = openers nbd" "waiting (config_teardown nbd) = waiting nbd"
    "NBD_DESTROY_ON_DISCONNECT \<in> dev_flags (config_teardown nbd) \<longleftrightarrow> NBD_DESTROY_ON_DISCONNECT \<in> dev_flags nbd" "refs (config_teardown nbd) = refs nbd"
    "recv_works (config_teardown nbd) = recv_works nbd" "earns nbd (config_teardown nbd)"
proof -
  let ?nbd = "nbd\<lparr>pid := 0, backend := (if NBD_RT_HAS_BACKEND_FILE \<in> runtime_flags (cfg nbd) then None else backend nbd)\<rparr>"
  have "stays ?nbd (nbd_clear_sock ?nbd)" by (rule stays_clear_sock) (simp add: assms)
  then show "config (config_teardown nbd) = None" "config_refs (config_teardown nbd) = config_refs nbd"
    "openers (config_teardown nbd) = openers nbd" "waiting (config_teardown nbd) = waiting nbd"
    "NBD_DESTROY_ON_DISCONNECT \<in> dev_flags (config_teardown nbd) \<longleftrightarrow> NBD_DESTROY_ON_DISCONNECT \<in> dev_flags nbd" "refs (config_teardown nbd) = refs nbd"
    "recv_works (config_teardown nbd) = recv_works nbd" "earns nbd (config_teardown nbd)"
    by (simp_all add: config_teardown_def Let_def stays_def earns_def)
qed

lemma last_config_put:
  assumes "dev_inv W k j nbd" "config nbd = Some c" "config_refs nbd - 1 = 0" "W = [] \<or> W = [w] \<and> k = 0"
    and "W = [] \<Longrightarrow> k = 1"
  shows "config (nbd_config_put nbd) = None" "dev_inv [] 0 j (nbd_config_put nbd)"
proof -
  let ?nbd = "nbd\<lparr>config_refs := 0\<rparr>"
  have none: "openers nbd = 0" "waiting nbd = []"
    using assms by (auto simp: dev_inv_def config_inv_def)
  have "config ?nbd \<noteq> None" using assms(2) by simp
  from config_teardown_fields [OF this] show "config (nbd_config_put nbd) = None" "dev_inv [] 0 j (nbd_config_put nbd)"
    using assms(1-3) none by (auto simp: nbd_config_put_def dev_inv_def kept_def split: if_splits)
qed

lemma dev_inv_config_put:
  assumes "dev_inv W (Suc k) j nbd"
  shows "dev_inv W k j (nbd_config_put nbd)"
proof -
  obtain c where c: "config nbd = Some c" "config_inv W (Suc k) nbd c"
    using dev_inv_config [OF assms] by auto
  show ?thesis
  proof (cases "config_refs nbd - 1 = 0")
    case True
    then have "W = []" "k = 0" using c(2) by (auto simp: config_inv_def)
    then show ?thesis using last_config_put(2) [OF assms c(1) True] by simp
  next
    case False
    then show ?thesis using assms c by (auto simp: nbd_config_put_def dev_inv_def config_inv_def kept_def)
  qed
qed

lemma earns_config_put: "config nbd \<noteq> None \<Longrightarrow> earns nbd (nbd_config_put nbd)"
  using config_teardown_fields(8) [of "nbd\<lparr>config_refs := 0\<rparr>"] by (auto simp: nbd_config_put_def earns_def)

lemma config_put_works [simp]: "config nbd \<noteq> None \<Longrightarrow> recv_works (nbd_config_put nbd) = recv_works nbd"
  using config_teardown_fields(7) [of "nbd\<lparr>config_refs := 0\<rparr>"] by (auto simp: nbd_config_put_def)

section \<open>Timeouts and replies\<close>

definition dev_ok :: "nat \<Rightarrow> nat \<Rightarrow> nbd_device \<Rightarrow> bool" where
  "dev_ok k j nbd \<longleftrightarrow> dev_inv (recv_works nbd) k j nbd"

lemma dev_ok_stays: "dev_ok k j nbd \<Longrightarrow> stays nbd nbd' \<Longrightarrow> dev_ok k j nbd'"
  using dev_inv_stays by (auto simp: dev_ok_def stays_def)

lemma dev_ok_config_put: "dev_ok (Suc k) j nbd \<Longrightarrow> dev_ok k j (nbd_config_put nbd)"
  using dev_inv_config_put [of "recv_works nbd" k j nbd] dev_inv_config [of "recv_works nbd" "Suc k" j nbd] by (auto simp: dev_ok_def)

lemma dev_ok_put: "dev_ok k (Suc j) nbd \<Longrightarrow> dev_ok k j (nbd_put nbd)"
  by (simp add: dev_ok_def dev_inv_put)

lemma dev_ok_get: "dev_ok k j nbd \<Longrightarrow> config_refs nbd \<noteq> 0 \<Longrightarrow> dev_ok (Suc k) j (nbd\<lparr>config_refs := config_refs nbd + 1\<rparr>)"
  by (cases "config nbd") (simp_all add: dev_ok_def dev_inv_def config_inv_def kept_def)

lemma dev_ok_refs: "dev_ok k j nbd \<Longrightarrow> dev_ok k (Suc j) (nbd\<lparr>refs := refs nbd + 1\<rparr>)"
  by (cases "config nbd") (simp_all add: dev_ok_def dev_inv_def kept_def)

lemma complete_fields [simp]:
  "refs (blk_mq_complete_request t nbd) = refs nbd" "config_refs (blk_mq_complete_request t nbd) = config_refs nbd"
  "openers (blk_mq_complete_request t nbd) = openers nbd" "waiting (blk_mq_complete_request t nbd) = waiting nbd"
  "recv_works (blk_mq_complete_request t nbd) = recv_works nbd" "dev_flags (blk_mq_complete_request t nbd) = dev_flags nbd"
  "has_config_ref (blk_mq_complete_request t nbd) = has_config_ref nbd"
  by (simp_all add: blk_mq_complete_request_def nbd_complete_rq_def) (simp_all add: emit_def set_rq_state_def)

lemma dev_ok_complete: "dev_ok k j nbd \<Longrightarrow> dev_ok k j (blk_mq_complete_request t nbd)"
  using config_inv_cong [of "blk_mq_complete_request t nbd" nbd "recv_works nbd" k]
  by (cases "config nbd") (simp_all add: dev_ok_def dev_inv_def kept_def)

text \<open>The configuration stays while an operation or an opener holds a reference.\<close>

definition held :: "nat \<Rightarrow> nbd_device \<Rightarrow> bool" where
  "held k nbd \<longleftrightarrow> 0 < k \<or> 0 < openers nbd"

lemma dev_ok_held: "dev_ok k j nbd \<Longrightarrow> held k nbd \<Longrightarrow> config nbd \<noteq> None"
  by (auto simp: dev_ok_def dev_inv_def held_def split: option.splits)

lemma held_earns: "held k nbd \<Longrightarrow> earns nbd nbd' \<Longrightarrow> held k nbd'"
  by (simp add: held_def earns_def)

lemma held_stays: "held k nbd \<Longrightarrow> stays nbd nbd' \<Longrightarrow> held k nbd'"
  by (simp add: held_def stays_def)

lemma dev_ok_config: "dev_ok (Suc k) j nbd \<Longrightarrow> config nbd \<noteq> None"
  by (erule dev_ok_held) (simp add: held_def)

text \<open>An operation keeps the device well formed and takes nothing from the balance.\<close>

lemma put_after:
  assumes "dev_ok (Suc k) j nbd" "stays nbd nbd'"
  shows "dev_ok k j (nbd_config_put nbd') \<and> earns nbd (nbd_config_put nbd')"
proof -
  have ok: "dev_ok (Suc k) j nbd'" using assms by (rule dev_ok_stays)
  have "earns nbd nbd'" using assms(2) by (simp add: stays_def)
  then show ?thesis using dev_ok_config_put [OF ok] earns_config_put [OF dev_ok_config [OF ok]] earns_trans by blast
qed

lemma stays_inflight_complete:
  "\<not> inflight (f (cmds nbd t)) \<Longrightarrow> inflight (cmds nbd t) \<Longrightarrow> stays nbd (blk_mq_complete_request t (with_cmd t f nbd))"
  by (rule stays_complete)

lemma timeout_retry_ok:
  assumes "dev_ok (Suc k) j nbd"
  shows "dev_ok k j (timeout_retry t nbd) \<and> earns nbd (timeout_retry t nbd)"
proof -
  let ?i = "cmd_index (cmds nbd t)"
  let ?n = "if ?i < num_connections (cfg nbd) \<and> cookie (cmds nbd t) = sock_cookie (socks (cfg nbd) ! ?i)
    then nbd_mark_nsock_dead ?i True nbd else nbd"
  have "stays nbd ?n" by (simp add: stays_mark_dead)
  then have "stays nbd (nbd_requeue_cmd t ?n)" by (rule stays_trans [OF _ stays_requeue_cmd])
  then show ?thesis using put_after [OF assms] by (simp add: timeout_retry_def Let_def)
qed

lemma timeout_warn_ok:
  assumes "dev_ok (Suc k) j nbd" "inflight (cmds nbd t)"
  shows "dev_ok k j (snd (timeout_warn t nbd)) \<and> earns nbd (snd (timeout_warn t nbd))"
proof -
  let ?n = "with_cmd t (\<lambda>c. c\<lparr>retries := retries c + 1\<rparr>) nbd"
  have s: "stays nbd ?n" by (rule stays_with_cmd) simp
  have "stays nbd (nbd_requeue_cmd t ?n)" by (rule stays_trans [OF s stays_requeue_cmd])
  then show ?thesis using put_after [OF assms(1)] s by (simp add: timeout_warn_def Let_def)
qed

lemma nbd_xmit_timeout_ok:
  assumes "dev_ok k j nbd"
  shows "dev_ok k j (snd (nbd_xmit_timeout locked t nbd)) \<and> earns nbd (snd (nbd_xmit_timeout locked t nbd))"
proof (cases "locked \<or> \<not> inflight (cmds nbd t) \<or> config_refs nbd = 0")
  case True
  have "stays nbd (snd (nbd_xmit_timeout locked t nbd))"
    using True by (auto simp: nbd_xmit_timeout_def stays_complete)
  then show ?thesis using dev_ok_stays [OF assms] by (simp add: stays_def)
next
  case False
  let ?g = "nbd\<lparr>config_refs := config_refs nbd + 1\<rparr>"
  have g: "dev_ok (Suc k) j ?g" using dev_ok_get [OF assms] False by simp
  have eg: "earns nbd ?g" by (simp add: earns_def)
  consider "1 < num_connections (cfg ?g) \<or> num_connections (cfg ?g) = 1 \<and> timeout ?g \<noteq> 0"
    | "\<not> (1 < num_connections (cfg ?g) \<or> num_connections (cfg ?g) = 1 \<and> timeout ?g \<noteq> 0)" "timeout ?g = 0"
    | "\<not> (1 < num_connections (cfg ?g) \<or> num_connections (cfg ?g) = 1 \<and> timeout ?g \<noteq> 0)" "timeout ?g \<noteq> 0" by blast
  then show ?thesis
  proof cases
    case 1
    then have "snd (nbd_xmit_timeout locked t nbd) = timeout_retry t ?g"
      using False by (auto simp: nbd_xmit_timeout_def Let_def)
    then show ?thesis using timeout_retry_ok [OF g, of t] earns_trans [OF eg] by simp
  next
    case 2
    then have "snd (nbd_xmit_timeout locked t nbd) = snd (timeout_warn t ?g)"
      using False by (auto simp: nbd_xmit_timeout_def Let_def)
    then show ?thesis using timeout_warn_ok [OF g, of t] False earns_trans [OF eg] by simp
  next
    case 3
    let ?f = "with_config (\<lambda>c. c\<lparr>runtime_flags := insert NBD_RT_TIMEDOUT (runtime_flags c)\<rparr>) ?g"
    let ?h = "with_cmd t (\<lambda>c. c\<lparr>status := BLK_STS_IOERR, inflight := False\<rparr>) ?f"
    let ?s = "nbd_config_put (sock_shutdown ?h)"
    have f: "stays ?g ?f" by (rule stays_config) (auto intro: keeps_fields)
    have gh: "stays ?g ?h" by (rule stays_trans [OF f stays_with_cmd]) simp
    have ch: "config ?h \<noteq> None" using dev_ok_config [OF dev_ok_stays [OF g gh]] .
    have hs: "stays ?h (sock_shutdown ?h)" using ch by (rule stays_shutdown)
    have s: "dev_ok k j ?s" using put_after [OF g stays_trans [OF gh hs]] by simp
    have bal: "balance u ?h = balance u nbd + (if u = t then 1 else 0)" for u using False by (simp add: with_config_def)
    have es: "earns ?h ?s"
      using hs earns_trans earns_config_put [of "sock_shutdown ?h"] dev_ok_config [OF dev_ok_stays [OF g stays_trans [OF gh hs]]]
      unfolding stays_def by blast
    have "balance u nbd \<le> balance u (blk_mq_complete_request t ?s)" for u
      using es bal [of u] by (auto simp: earns_def balance_complete dest: spec [of _ u])
    moreover have "openers (blk_mq_complete_request t ?s) = openers nbd" using es by (simp add: earns_def)
    moreover have "has_config_ref (blk_mq_complete_request t ?s) \<longrightarrow> has_config_ref nbd" using es gh by (simp add: stays_def earns_def)
    ultimately have e: "earns nbd (blk_mq_complete_request t ?s)" by (simp add: earns_def)
    have st: "dev_ok k j (blk_mq_complete_request t ?s)" using s by (rule dev_ok_complete)
    have "snd (nbd_xmit_timeout locked t nbd) = blk_mq_complete_request t ?s"
      using False 3 by (simp add: nbd_xmit_timeout_def Let_def)
    then show ?thesis using e st by simp
  qed
qed

section \<open>Receive works\<close>

lemma stays_put_sock: "shut sk = shut (sock (socks (cfg nbd) ! i)) \<Longrightarrow> stays nbd (put_sock i sk nbd)"
  unfolding put_sock_def by (rule stays_config) (auto intro: keeps_put_sock)

lemma stays_set_segments: "stays nbd (set_segments t segs nbd)"
  by (auto simp: stays_def earns_def) (simp_all add: set_segments_def)

lemma stays_read_reply: "nbd_read_reply i nbd = Some (result, reply, nbd') \<Longrightarrow> stays nbd nbd'"
  by (auto simp: nbd_read_reply_def Let_def split: if_splits intro!: stays_put_sock dest: sock_xmit_recv_sock)

lemma stays_reply_data: "reply_data i t nbd = Some (res, nbd') \<Longrightarrow> stays nbd nbd'"
proof -
  assume "reply_data i t nbd = Some (res, nbd')"
  then obtain result sk segs where r: "recv_segments (sock (socks (cfg nbd) ! i)) (rq_segments (the (tags nbd t))) = Some (result, sk, segs)"
    and n: "nbd' = set_segments t segs (put_sock i sk nbd) \<or>
      nbd' = with_cmd t (\<lambda>c. c\<lparr>status := BLK_STS_IOERR\<rparr>) (set_segments t segs (put_sock i sk nbd))"
    by (auto simp: reply_data_def Let_def split: if_splits)
  have "shut sk = shut (sock (socks (cfg nbd) ! i))" using recv_segments_sock [OF r] by auto
  then have s: "stays nbd (set_segments t segs (put_sock i sk nbd))"
    by (rule stays_trans [OF stays_put_sock stays_set_segments])
  have "stays nbd (with_cmd t (\<lambda>c. c\<lparr>status := BLK_STS_IOERR\<rparr>) (set_segments t segs (put_sock i sk nbd)))"
    by (rule stays_trans [OF s stays_with_cmd]) simp
  then show ?thesis using n s by auto
qed

lemma stays_handle_reply: "nbd_handle_reply h i reply nbd = Some (res, nbd') \<Longrightarrow> stays nbd nbd'"
  by (auto simp: nbd_handle_reply_def Let_def stays_with_cmd dest: stays_reply_data split: if_splits)

lemma stays_recv_reply: "recv_reply h live i nbd = Some (r, nbd') \<Longrightarrow> stays nbd nbd'"
  unfolding recv_reply_def
  by (auto split: option.splits if_splits dest!: stays_read_reply stays_handle_reply intro: stays_trans)

lemma stays_recv_complete: "stays nbd (recv_complete fake_timeout t nbd)"
  by (simp add: recv_complete_def stays_complete)

lemma recv_end_ok:
  assumes "dev_inv (w # W) k j nbd"
  shows "dev_inv W k j (recv_end (fst w) nbd) \<and> earns nbd (recv_end (fst w) nbd)
    \<and> recv_works (recv_end (fst w) nbd) = recv_works nbd"
proof -
  let ?n = "nbd_mark_nsock_dead (fst w) True nbd"
  let ?f = "\<lambda>c. c\<lparr>recv_threads := recv_threads c - 1\<rparr> :: nbd_config"
  obtain c where "config nbd = Some c" "config_inv (w # W) k nbd c"
    using dev_inv_config [OF assms] by auto
  then have s: "stays nbd ?n" by (auto intro!: stays_mark_dead simp: config_inv_def)
  have n: "dev_inv (w # W) k j ?n" using assms s by (rule dev_inv_stays)
  obtain c where c: "config ?n = Some c" "config_inv (w # W) k ?n c"
    using dev_inv_config [OF n] by auto
  have "dev_inv W k j (recv_end (fst w) nbd)"
  proof (cases "config_refs ?n - 1 = 0")
    case True
    then have w: "W = []" "k = 0" using c(2) by (auto simp: config_inv_def)
    have "with_config ?f (nbd_config_put ?n) = nbd_config_put ?n"
      using last_config_put(1) [OF n c(1) True] w by (simp add: with_config_def)
    then show ?thesis using last_config_put(2) [OF n c(1) True] w by (simp add: recv_end_def)
  next
    case False
    then show ?thesis using n c by (auto simp: recv_end_def nbd_config_put_def with_config_def dev_inv_def config_inv_def config_ok_def has_ref_def kept_def)
  qed
  moreover have "earns nbd (recv_end (fst w) nbd)"
    unfolding recv_end_def
    by (rule earns_trans [OF earns_trans earns_with_config]) (use s earns_config_put [of ?n] c(1) in \<open>auto simp: stays_def\<close>)
  moreover have "recv_works (recv_end (fst w) nbd) = recv_works nbd"
    using s c(1) by (simp add: recv_end_def with_config_def stays_def)
  ultimately show ?thesis by blast
qed

lemma recv_work_ok:
  assumes "recv_work h i nbd = Some nbd'" "dev_inv ((i, x) # W) k j nbd"
  shows "dev_inv W k j nbd' \<and> earns nbd nbd' \<and> recv_works nbd' = recv_works nbd"
  using assms
proof (induction h i nbd rule: recv_work.induct)
  case (1 h i nbd)
  obtain r n where r: "recv_reply h True i nbd = Some (r, n)"
    using 1(2) by (auto simp: recv_work.simps [of h i nbd] split: option.splits)
  have s: "stays nbd n" using r by (rule stays_recv_reply)
  have n: "dev_inv ((i, x) # W) k j n" using 1(3) s by (rule dev_inv_stays)
  show ?case
  proof (cases r)
    case None
    then have "nbd' = recv_end i n" using 1(2) r by (simp add: recv_work.simps [of h i nbd])
    then show ?thesis using recv_end_ok [OF n] s by (auto simp: stays_def intro: earns_trans)
  next
    case (Some t)
    let ?m = "recv_complete False t n"
    have m: "stays n ?m" by (rule stays_recv_complete)
    have "recv_work h i ?m = Some nbd'" using 1(2) r Some by (simp add: recv_work.simps [of h i nbd])
    then have "dev_inv W k j nbd' \<and> earns ?m nbd' \<and> recv_works nbd' = recv_works ?m"
      using 1(1) [OF r _ Some] dev_inv_stays [OF n m] by simp
    then show ?thesis using s m by (auto simp: stays_def intro: earns_trans)
  qed
qed

lemma finish_works_ok:
  "finish_works h W nbd = Some nbd' \<Longrightarrow> dev_inv W k j nbd \<Longrightarrow> dev_inv [] k j nbd' \<and> earns nbd nbd'"
proof (induction h W nbd rule: finish_works.induct)
  case (2 h i works nbd)
  then show ?case using recv_work_ok [of h i nbd] by (fastforce split: option.splits intro: earns_trans)
next
  case (3 h i t works nbd)
  let ?m = "recv_complete False t nbd"
  obtain n where n: "recv_work h i ?m = Some n" "finish_works h works n = Some nbd'" using 3(2) by (auto split: option.splits)
  have m: "stays nbd ?m" by (rule stays_recv_complete)
  have "dev_inv works k j n \<and> earns ?m n"
    using recv_work_ok [OF n(1)] dev_inv_stays [OF 3(3) m] by blast
  then show ?case using 3(1) [OF n(1,2)] m by (auto simp: stays_def intro: earns_trans)
qed simp

lemma flush_ok:
  "flush_workqueue h nbd = Some nbd' \<Longrightarrow> dev_ok k j nbd \<Longrightarrow> dev_ok k j nbd' \<and> earns nbd nbd'"
  unfolding flush_workqueue_def dev_ok_def using finish_works_ok by (fastforce simp: earns_def)

end
