(* ===== verification/Nbd_Keep.thy ===== *)
theory Nbd_Keep
  imports Nbd_Refs
begin

text \<open>
  Every operation of the device keeps its invariant: dispatching requests, setting the device
  up, the ioctls, opening and releasing, and the netlink commands.
\<close>

section \<open>Sending\<close>

lemma sock_send_loop_mono: "sock_send_loop rs bs n w = Some (r, rs', w', n') \<Longrightarrow> n \<le> n'"
  by (induction rs bs n w rule: sock_send_loop.induct) (fastforce simp: Let_def split: if_splits)+

lemma sock_xmit_send_keeps: "sock_xmit_send sk bs n = Some (r, sk', n') \<Longrightarrow> n \<le> n' \<and> shut sk' = shut sk"
  by (auto simp: sock_xmit_send_def dest: sock_send_loop_mono)

lemma send_segments_keeps: "send_segments segs skip sk n = Some (r, sk', n') \<Longrightarrow> n \<le> n' \<and> shut sk' = shut sk"
proof (induction segs arbitrary: skip sk n)
  case (Cons seg segs)
  show ?case
  proof (cases "skip \<noteq> 0 \<and> length seg \<le> skip")
    case True
    then show ?thesis using Cons.IH [of "skip - length seg" sk n] Cons.prems by simp
  next
    case False
    obtain q sk1 m where x: "sock_xmit_send sk (drop skip seg) n = Some (q, sk1, m)"
      and "(if q < 0 then Some (q, sk1, m) else send_segments segs 0 sk1 m) = Some (r, sk', n')"
      using Cons.prems(1) unfolding send_segments.simps if_not_P [OF False] by (auto split: option.splits)
    then show ?thesis using sock_xmit_send_keeps [OF x] Cons.IH [of 0 sk1 m] by (auto split: if_splits)
  qed
qed simp

text \<open>What sending keeps of a socket that is alive, and of the command.\<close>

definition send_keeps :: "nbd_cmd \<Rightarrow> nbd_sock \<Rightarrow> nbd_cmd \<Rightarrow> nbd_sock \<Rightarrow> bool" where
  "send_keeps cmd nsock cmd' nsock' \<longleftrightarrow> inflight cmd' = inflight cmd \<and> dead nsock' = dead nsock \<and> (sock_ok nsock \<longrightarrow> sock_ok nsock')"

lemma send_pages_keeps:
  assumes "send_pages tag req skip n cmd nsock = Some (r, cmd', nsock')" "0 < n" "\<not> dead nsock"
  shows "send_keeps cmd nsock cmd' nsock'"
proof (cases "req_to_nbd_cmd_type (rq_op req) = NBD_CMD_WRITE")
  case True
  then obtain q sk m where s: "send_segments (rq_segments req) skip (sock nsock) n = Some (q, sk, m)"
    and "(r, cmd', nsock') = (if q < 0
         then if was_interrupted q then send_interrupted tag m cmd (nsock\<lparr>sock := sk\<rparr>)
              else (- EAGAIN, cmd, nsock\<lparr>sock := sk\<rparr>)
         else (0, cmd, nsock\<lparr>sock := sk, pending := None, sent := 0\<rparr>))"
    using assms(1) by (auto simp: send_pages_def)
  then show ?thesis using send_segments_keeps [OF s] assms(2,3)
    by (auto simp: send_keeps_def sock_ok_def send_interrupted_def split: if_splits)
qed (use assms in \<open>auto simp: send_pages_def send_keeps_def sock_ok_def\<close>)

lemma nbd_send_cmd_keeps:
  assumes "nbd_send_cmd fl tag req index cmd nsock = Some (r, cmd', nsock')" "\<not> dead nsock"
  shows "send_keeps cmd nsock cmd' nsock'"
  using assms(1)
proof (cases rule: nbd_send_cmd_cases)
  case error
  then show ?thesis by (simp add: send_keeps_def)
next
  case rest
  then show ?thesis using send_pages_keeps assms(2) by fastforce
next
  case (head c q sk m)
  have in_c: "inflight c = inflight cmd" by (simp add: head(1) send_header_cmd_def)
  have keeps: "sent nsock \<le> m" "shut sk = shut (sock nsock)" using sock_xmit_send_keeps [OF head(3)] by auto
  show ?thesis
  proof (cases "q < 0")
    case True
    then show ?thesis using head(4) in_c keeps assms(2) by (auto simp: send_keeps_def sock_ok_def send_interrupted_def split: if_splits)
  next
    case False
    have "drop (sent nsock) (nbd_request_header tag req c) \<noteq> []" using head(2) by simp
    then have "m = 28" by (rule sock_xmit_send [OF head(3)]) (use False head(2) in auto)
    then show ?thesis using send_pages_keeps [of tag req 0 m c "nsock\<lparr>sock := sk\<rparr>" r cmd' nsock'] head(4) in_c False assms(2) keeps
      by (auto simp: send_keeps_def sock_ok_def)
  qed
qed

section \<open>Dispatching\<close>

lemma cfg_start [simp]: "config (blk_mq_start_request t nbd) = config nbd"
  by (simp add: blk_mq_start_request_def)

lemma cmds_start [simp]: "cmds (blk_mq_start_request t nbd) = cmds nbd"
  by (simp add: blk_mq_start_request_def emit_def set_rq_state_def)

lemma stays_handle_sent:
  assumes "index < num_connections (cfg nbd)"
  shows "stays nbd (snd (handle_sent t index ret nbd))"
proof -
  have "stays nbd (with_cmd t (\<lambda>c. c\<lparr>inflight := True\<rparr>) (emit (Payload_sent t) nbd))"
    by (auto simp: stays_def earns_def) (simp_all add: emit_def with_cmd_def)
  then show ?thesis
    using stays_trans [OF stays_mark_dead [OF assms] stays_requeue_cmd] by (simp add: handle_sent_def)
qed

lemma stays_handle_send:
  assumes "handle_send t index nbd = Some (ret, nbd')" "index < num_connections (cfg nbd)" "\<not> dead (socks (cfg nbd) ! index)"
  shows "stays nbd nbd'"
proof -
  let ?s = "blk_mq_start_request t nbd"
  let ?nsock = "socks (cfg nbd) ! index"
  have s: "stays nbd ?s" by (rule stays_start)
  consider "nbd' = nbd_requeue_cmd t ?s"
    | r c n where "nbd_send_cmd (cfg_flags (cfg ?s)) t (the (tags ?s t)) index (cmds ?s t) ?nsock = Some (r, c, n)"
      "nbd' = snd (handle_sent t index r (with_config (with_sock index (\<lambda>_. n)) (with_cmd t (\<lambda>_. c) ?s)))"
    using assms(1) unfolding handle_send_def Let_def by (auto split: if_splits)
  then show ?thesis
  proof cases
    case 1
    then show ?thesis using stays_trans [OF s stays_requeue_cmd] by simp
  next
    case (2 r c n)
    let ?m = "with_cmd t (\<lambda>_. c) ?s"
    have k: "send_keeps (cmds nbd t) ?nsock c n" using nbd_send_cmd_keeps [OF 2(1)] assms(3) by simp
    have m: "stays ?s ?m" by (rule stays_with_cmd) (use k in \<open>simp add: send_keeps_def\<close>)
    have "stays ?m (with_config (with_sock index (\<lambda>_. n)) ?m)"
      by (rule stays_config, rule keeps_with_sock) (use k in \<open>auto simp: send_keeps_def\<close>)
    then have p: "stays nbd (with_config (with_sock index (\<lambda>_. n)) ?m)"
      using stays_trans [OF stays_trans [OF s m]] by blast
    have "num_connections (cfg (with_config (with_sock index (\<lambda>_. n)) ?m)) = num_connections (cfg nbd) \<or> config nbd = None"
      by (cases "config nbd") (simp_all add: with_config_def)
    then have "index < num_connections (cfg (with_config (with_sock index (\<lambda>_. n)) ?m))"
      using assms(2) by (auto simp: with_config_def)
    from stays_trans [OF p stays_handle_sent [OF this]] show ?thesis using 2(2) by simp
  qed
qed

lemma find_fallback_keeps:
  assumes "find_fallback i c = (j, c')"
  shows "keeps c c'" "num_connections c' = num_connections c"
  using assms by (auto simp: find_fallback_def Let_def sock_ok_def split: if_splits intro!: keeps_with_sock)

definition outcome_ok :: "nat \<Rightarrow> nat \<Rightarrow> outcome \<times> nbd_device \<Rightarrow> bool" where
  "outcome_ok k j r \<longleftrightarrow> (case fst r of Returned ret \<Rightarrow> dev_ok k j (snd r)
     | Waits i \<Rightarrow> dev_ok (Suc k) j (snd r) \<and> i < num_connections (cfg (snd r)))"

lemma handle_fail_ok: "dev_ok (Suc k) j nbd \<Longrightarrow> outcome_ok k j (handle_fail nbd) \<and> earns nbd (snd (handle_fail nbd))"
  using put_after [OF _ stays_shutdown [OF dev_ok_config]] by (simp add: handle_fail_def outcome_ok_def)

lemma handle_again_ok:
  assumes "handle_again t index nbd = Some r" "dev_ok (Suc k) j nbd" "index < num_connections (cfg nbd)"
  shows "outcome_ok k j r \<and> earns nbd (snd r)"
  using assms
proof (induction t index nbd rule: handle_again.induct)
  case (1 t index nbd)
  obtain c where c: "config nbd = Some c" using dev_ok_config [OF 1(3)] by blast
  show ?case
  proof (cases "dead (socks (cfg nbd) ! index)")
    case True
    obtain f c' where f: "find_fallback index (cfg nbd) = (f, c')" by (cases "find_fallback index (cfg nbd)")
    let ?n = "nbd\<lparr>config := Some c'\<rparr>"
    have n: "stays nbd ?n" using find_fallback_keeps(1) [OF f] c by (simp add: stays_def earns_def has_config_ref_def keeps_def)
    have ok: "dev_ok (Suc k) j ?n" using 1(3) n by (rule dev_ok_stays)
    have en: "earns nbd ?n" using n by (simp add: stays_def)
    consider "0 \<le> f" | "f < 0" "dead_conn_timeout c' \<noteq> 0" | "f < 0" "dead_conn_timeout c' = 0" by linarith
    then show ?thesis
    proof cases
      case 1
      then have "handle_again t (nat f) ?n = Some r"
        using "1.prems"(1) True f by (simp add: handle_again.simps [of t index nbd])
      moreover have "nat f < num_connections (cfg ?n)"
        using find_fallback_alive(2) [OF f 1] by (auto simp: sock_alive_def)
      ultimately show ?thesis
        using "1.IH" [OF True f [symmetric] refl refl 1] ok en earns_trans by blast
    next
      case 2
      then have "r = (Waits index, ?n)"
        using "1.prems"(1) True f by (simp add: handle_again.simps [of t index nbd])
      then show ?thesis using ok en 1(4) find_fallback_keeps(2) [OF f] by (simp add: outcome_ok_def)
    next
      case 3
      then have "r = handle_fail ?n"
        using "1.prems"(1) True f by (simp add: handle_again.simps [of t index nbd])
      then show ?thesis using handle_fail_ok [OF ok] earns_trans [OF en] by blast
    qed
  next
    case False
    then obtain ret n where h: "handle_send t index nbd = Some (ret, n)" "r = (Returned ret, nbd_config_put n)"
      using 1(2) by (auto simp: handle_again.simps [of t index nbd])
    show ?thesis using put_after [OF 1(3) stays_handle_send [OF h(1) 1(4) False]] h(2) by (simp add: outcome_ok_def)
  qed
qed

lemma nbd_handle_cmd_ok:
  assumes "nbd_handle_cmd t index nbd = Some r" "dev_ok k j nbd"
  shows "outcome_ok k j r \<and> earns nbd (snd r)"
proof (cases "config_refs nbd = 0")
  case True
  then show ?thesis using assms by (auto simp: nbd_handle_cmd_def outcome_ok_def)
next
  case False
  let ?g = "nbd\<lparr>config_refs := config_refs nbd + 1\<rparr>"
  let ?h = "with_cmd t (\<lambda>c. c\<lparr>status := BLK_STS_OK\<rparr>) ?g"
  have g: "dev_ok (Suc k) j ?g" using dev_ok_get [OF assms(2) False] .
  have h: "stays ?g ?h" by (rule stays_with_cmd) simp
  have e: "earns nbd ?g" "earns nbd ?h" by (simp_all add: earns_def)
  show ?thesis
  proof (cases "num_connections (cfg nbd) \<le> index")
    case True
    then have "r = (Returned (- EINVAL), nbd_config_put ?g)" using assms(1) False by (simp add: nbd_handle_cmd_def)
    then show ?thesis using put_after [OF g stays_refl] earns_trans [OF e(1)] by (simp add: outcome_ok_def)
  next
    case n: False
    then have "handle_again t index ?h = Some r" using assms(1) False by (simp add: nbd_handle_cmd_def)
    then show ?thesis using handle_again_ok [OF _ dev_ok_stays [OF g h]] n earns_trans [OF e(2)] by simp
  qed
qed

text \<open>A request that waits has its reference in the list of those that wait.\<close>

lemma queue_outcome_ok: "outcome_ok k j r \<Longrightarrow> dev_ok k j (snd (queue_outcome t r)) \<and> earns (snd r) (snd (queue_outcome t r))"
proof -
  assume r: "outcome_ok k j r"
  obtain x nbd where x: "r = (x, nbd)" by (cases r)
  show ?thesis
  proof (cases x)
    case (Returned ret)
    then show ?thesis using r x by (simp add: queue_outcome_def outcome_ok_def)
  next
    case (Waits i)
    then obtain c where "config nbd = Some c" using r x dev_ok_config [of k j nbd] by (auto simp: outcome_ok_def)
    then show ?thesis using r x Waits
      by (auto simp: queue_outcome_def outcome_ok_def dev_ok_def dev_inv_def config_inv_def kept_def earns_def)
  qed
qed

lemma dispatch_answer_ok: "dev_ok k j (snd r) \<Longrightarrow> dev_ok k j (dispatch_answer t r) \<and> earns (snd r) (dispatch_answer t r)"
  using dev_ok_stays [OF _ stays_set_rq_state] by (auto simp: dispatch_answer_def earns_def split: prod.splits)

lemma answer_ok:
  assumes "outcome_ok k j r"
  shows "dev_ok k j (dispatch_answer t (queue_outcome t r)) \<and> earns (snd r) (dispatch_answer t (queue_outcome t r))"
  using queue_outcome_ok [OF assms, of t] dispatch_answer_ok earns_trans by blast

lemma nbd_queue_rq_ok:
  assumes "nbd_queue_rq t index nbd = Some r" "dev_ok k j nbd"
  shows "dev_ok k j (dispatch_answer t r) \<and> earns nbd (dispatch_answer t r)"
proof -
  let ?n = "with_cmd t (\<lambda>c. c\<lparr>requeued := False\<rparr>) nbd"
  have s: "stays nbd ?n" by (rule stays_with_cmd) simp
  obtain q where q: "nbd_handle_cmd t index ?n = Some q" "r = queue_outcome t q"
    using assms(1) by (auto simp: nbd_queue_rq_def)
  show ?thesis
    using answer_ok nbd_handle_cmd_ok [OF q(1) dev_ok_stays [OF assms(2) s]] s q(2) unfolding stays_def by (metis earns_trans)
qed

lemma handle_woken_ok:
  assumes "handle_woken t index nbd = Some r" "dev_ok (Suc k) j nbd" "index < num_connections (cfg nbd)"
  shows "outcome_ok k j r \<and> earns nbd (snd r)"
  using assms handle_again_ok handle_fail_ok by (auto simp: handle_woken_def split: if_splits)

end
