(* ===== verification/Nbd_Keep_Setup.thy ===== *)
theory Nbd_Keep_Setup
  imports Nbd_Keep
begin

text \<open>
  Setting up and taking down a device keeps its invariant: the sockets, the start of the receive
  works, the ioctls, opening and releasing, and the netlink commands.
\<close>

section \<open>Sockets, size and flags\<close>

lemma stays_fields:
  "stays nbd (nbd\<lparr>task_setup := x3\<rparr>)" "stays nbd (nbd\<lparr>timeout := x\<rparr>)" "stays nbd (nbd\<lparr>pid := x\<rparr>)"
  "stays nbd (nbd\<lparr>backend := x4\<rparr>)" "stays nbd (nbd\<lparr>nr_hw_queues := x\<rparr>)" "stays nbd (nbd\<lparr>tags := x8\<rparr>)"
  by (simp_all add: stays_def earns_def)

lemma stays_set_size: "stays nbd (snd (nbd_set_size bad bytes blksize nbd))"
proof -
  have c: "stays nbd (with_config (\<lambda>c. c\<lparr>bytesize := b, blksize_bits := n\<rparr>) nbd)" for b n
    by (rule stays_config) (auto intro: keeps_fields)
  have "stays nbd (emit (Set_capacity x) (with_config (\<lambda>c. c\<lparr>bytesize := b, blksize_bits := n\<rparr>) nbd))" for x b n
    by (rule stays_trans [OF c stays_emit]) simp
  then show ?thesis using c by (simp add: nbd_set_size_def Let_def)
qed

lemma stays_add_socket: "stays nbd (snd (nbd_add_socket k netlink found nbd))"
proof -
  have c: "stays x (with_config (add_sock sk) x)" for x sk
    by (rule stays_config) (auto intro: keeps_add_sock)
  have t: "stays nbd (nbd\<lparr>task_setup := Some (current k)\<rparr>)" by (rule stays_fields)
  show ?thesis
    using c stays_trans [OF t c] t by (auto simp: nbd_add_socket_def Let_def split: sum.splits)
qed

text \<open>A socket that comes back takes a reference for its receive work.\<close>

lemma config_ok_revive:
  assumes "config_ok c" "i < num_connections c" "dead (socks c ! i)"
  shows "config_ok (revive_sock i sk c)"
proof -
  let ?s = "(socks c ! i)\<lparr>fallback_index := - 1, sock := sk, dead := False, sock_cookie := sock_cookie (socks c ! i) + 1\<rparr>"
  have "alive ((socks c)[i := ?s]) = alive (socks c) + 1"
    using alive_update [OF assms(2), of ?s] assms(3) by simp
  moreover have "\<forall>s\<in>set ((socks c)[i := ?s]). sock_ok s"
    by (rule set_update_ok) (use assms in \<open>auto simp: config_ok_def sock_ok_def\<close>)
  ultimately show ?thesis using assms(1) by (simp add: config_ok_def revive_sock_def socks_with_sock)
qed

lemma config_inv_revive:
  assumes "config_inv W k nbd c" "i < num_connections c" "dead (socks c ! i)"
    and "config_refs nbd' = config_refs nbd + 1" "openers nbd' = openers nbd" "waiting nbd' = waiting nbd"
  shows "config_inv (W @ [(i, None)]) k nbd' (revive_sock i sk c)"
proof -
  have "config_ok (revive_sock i sk c)" using assms(1-3) by (auto intro: config_ok_revive simp: config_inv_def)
  then show ?thesis using assms by (auto simp: config_inv_def revive_sock_def has_ref_def)
qed

lemma revive_first: "filter P [0..<n] = i # is \<Longrightarrow> i < n \<and> P i"
  by (drule arg_cong [of _ _ set]) auto

lemma dev_ok_obtain:
  assumes "dev_ok k j nbd" "held k nbd"
  obtains c where "config nbd = Some c" "config_inv (recv_works nbd) k nbd c"
  using dev_ok_held [OF assms] assms(1) by (auto simp: dev_ok_def dev_inv_def)

lemma nbd_reconnect_socket_ok:
  assumes "dev_ok k j nbd" "held k nbd"
  shows "dev_ok k j (snd (nbd_reconnect_socket kn found nbd)) \<and> earns nbd (snd (nbd_reconnect_socket kn found nbd))"
proof -
  obtain c where c: "config nbd = Some c" "config_inv (recv_works nbd) k nbd c"
    by (rule dev_ok_obtain [OF assms])
  consider "snd (nbd_reconnect_socket kn found nbd) = nbd"
    | i sk where "i < num_connections c" "dead (socks c ! i)"
      "snd (nbd_reconnect_socket kn found nbd) = emit Wake_up (with_config (revive_sock i sk)
         (nbd\<lparr>config_refs := config_refs nbd + 1, recv_works := recv_works nbd @ [(i, None)]\<rparr>))"
    using c(1) by (cases found; cases "allocates kn 0"; cases "filter (\<lambda>i. dead (socks c ! i)) [0..<num_connections c]")
      (auto simp: nbd_reconnect_socket_def dest!: revive_first)
  then show ?thesis
  proof cases
    case 1
    then show ?thesis using assms by simp
  next
    case (2 i sk)
    have "config_inv (recv_works nbd @ [(i, None)]) k (snd (nbd_reconnect_socket kn found nbd)) (revive_sock i sk c)"
      by (rule config_inv_revive [OF c(2) 2(1,2)]) (simp_all add: 2(3) emit_def with_config_def)
    then show ?thesis using assms(1) c(1) unfolding 2(3)
      by (auto simp: dev_ok_def dev_inv_def kept_def emit_def with_config_def earns_def balance_def has_config_ref_def revive_sock_def)
  qed
qed

section \<open>Disconnecting\<close>

lemma stays_send_disconnects: "send_disconnects is nbd = Some nbd' \<Longrightarrow> stays nbd nbd'"
proof (induction "is" nbd rule: send_disconnects.induct)
  case (2 i "is" nbd)
  obtain ret sk n where x: "sock_xmit_send (sock (socks (cfg nbd) ! i)) (nbd_request_bytes NBD_CMD_DISC 0 0 0) 0 = Some (ret, sk, n)"
    "send_disconnects is (put_sock i sk nbd) = Some nbd'"
    using 2(2) by (auto split: option.splits)
  have "stays nbd (put_sock i sk nbd)" using sock_xmit_send_keeps [OF x(1)] by (auto intro: stays_put_sock)
  then show ?case using 2(1) [OF x(1)] x(2) stays_trans by blast
qed simp

lemma stays_disconnect: "nbd_disconnect nbd = Some nbd' \<Longrightarrow> stays nbd nbd'"
proof -
  let ?n = "with_config (\<lambda>c. c\<lparr>runtime_flags := insert NBD_RT_DISCONNECT_REQUESTED (runtime_flags c)\<rparr>) nbd"
  let ?m = "?n\<lparr>dev_flags := insert NBD_DISCONNECT_REQUESTED (dev_flags ?n)\<rparr>"
  assume "nbd_disconnect nbd = Some nbd'"
  then have m: "stays ?m nbd'" by (auto simp: nbd_disconnect_def Let_def dest: stays_send_disconnects)
  have n: "stays nbd ?n" by (rule stays_config) (auto intro: keeps_fields)
  have "stays ?n ?m" by (simp add: stays_def earns_def balance_def)
  then show ?thesis using stays_trans [OF stays_trans [OF n] m] by blast
qed

text \<open>Giving up the reference of the connection.\<close>

lemma put_config_ref_ok:
  assumes "dev_ok k j nbd" "held k nbd"
  shows "dev_ok k j (put_config_ref nbd) \<and> earns nbd (put_config_ref nbd)"
proof (cases "NBD_RT_HAS_CONFIG_REF \<in> runtime_flags (cfg nbd)")
  case True
  let ?n = "with_config (\<lambda>c. c\<lparr>runtime_flags := runtime_flags c - {NBD_RT_HAS_CONFIG_REF}\<rparr>) nbd"
  obtain c where c: "config nbd = Some c" "config_inv (recv_works nbd) k nbd c"
    by (rule dev_ok_obtain [OF assms])
  have "config_inv (recv_works nbd) (Suc k) ?n (c\<lparr>runtime_flags := runtime_flags c - {NBD_RT_HAS_CONFIG_REF}\<rparr>)"
    using c True by (auto simp: config_inv_def config_ok_def has_ref_def with_config_def)
  then have "dev_ok (Suc k) j ?n"
    using assms(1) c by (auto simp: dev_ok_def dev_inv_def with_config_def kept_def)
  from put_after [OF this stays_refl] have "dev_ok k j (nbd_config_put ?n)" "earns ?n (nbd_config_put ?n)" by auto
  moreover have "earns nbd ?n" by (rule earns_with_config) simp
  ultimately show ?thesis using True earns_trans by (auto simp: put_config_ref_def)
qed (use assms in \<open>simp add: put_config_ref_def\<close>)

lemma nbd_disconnect_and_put_ok:
  assumes "nbd_disconnect_and_put kn nbd = Some nbd'" "dev_ok k j nbd" "held k nbd"
  shows "dev_ok k j nbd' \<and> earns nbd nbd'"
proof -
  obtain a b where a: "nbd_disconnect nbd = Some a" and b: "flush_workqueue (hwq_of kn) (emit Wake_up (sock_shutdown a)) = Some b"
    and n: "nbd' = put_config_ref ((nbd_clear_que b)\<lparr>task_setup := None\<rparr>)"
    using assms(1) by (auto simp: nbd_disconnect_and_put_def split: option.splits)
  have sa: "stays nbd a" using a by (rule stays_disconnect)
  have "config a \<noteq> None" using dev_ok_held [OF dev_ok_stays [OF assms(2) sa] held_stays [OF assms(3) sa]] .
  then have "stays a (emit Wake_up (sock_shutdown a))"
    by (rule stays_trans [OF stays_shutdown stays_emit]) simp
  then have s: "stays nbd (emit Wake_up (sock_shutdown a))" by (rule stays_trans [OF sa])
  have fb: "dev_ok k j b" "earns nbd b"
    using flush_ok [OF b dev_ok_stays [OF assms(2) s]] s earns_trans by (auto simp: stays_def)
  have "stays b ((nbd_clear_que b)\<lparr>task_setup := None\<rparr>)" by (rule stays_trans [OF stays_clear_que stays_fields(1)])
  then have "dev_ok k j ((nbd_clear_que b)\<lparr>task_setup := None\<rparr>)" "earns nbd ((nbd_clear_que b)\<lparr>task_setup := None\<rparr>)"
    using dev_ok_stays [OF fb(1)] fb(2) earns_trans by (auto simp: stays_def)
  then show ?thesis using put_config_ref_ok held_earns [OF assms(3)] earns_trans n by blast
qed

lemma stays_bdev_reset: "stays nbd (nbd_bdev_reset nbd)"
  by (simp add: nbd_bdev_reset_def stays_emit)

lemma nbd_clear_sock_ioctl_ok:
  assumes "dev_ok k j nbd" "held k nbd"
  shows "dev_ok k j (nbd_clear_sock_ioctl nbd) \<and> earns nbd (nbd_clear_sock_ioctl nbd)"
proof -
  have s: "stays nbd (nbd_bdev_reset (nbd_clear_sock nbd))"
    by (rule stays_trans [OF stays_clear_sock [OF dev_ok_held [OF assms]] stays_bdev_reset])
  then have "earns nbd (nbd_bdev_reset (nbd_clear_sock nbd))" by (simp add: stays_def)
  then show ?thesis using put_config_ref_ok [OF dev_ok_stays [OF assms(1) s] held_stays [OF assms(2) s]] earns_trans by (auto simp: nbd_clear_sock_ioctl_def)
qed

section \<open>Starting\<close>

lemma stays_parse_flags: "stays nbd (nbd_parse_flags nbd)"
  unfolding nbd_parse_flags_def Let_def by (rule stays_trans [OF stays_emit stays_emit]) simp_all

lemma start_work_ok:
  assumes "dev_ok k j nbd" "held k nbd" "i < num_connections (cfg nbd)"
  shows "dev_ok k j (start_work i nbd)" "earns nbd (start_work i nbd)"
    "num_connections (cfg (start_work i nbd)) = num_connections (cfg nbd)"
proof -
  obtain c where c: "config nbd = Some c" "config_inv (recv_works nbd) k nbd c"
    by (rule dev_ok_obtain [OF assms(1,2)])
  have "config_inv (recv_works nbd @ [(i, None)]) k (start_work i nbd) (c\<lparr>recv_threads := recv_threads c + 1\<rparr>)"
    using c assms(3) by (auto simp: config_inv_def config_ok_def has_ref_def start_work_def with_config_def)
  then show "dev_ok k j (start_work i nbd)"
    using assms(1) c by (auto simp: dev_ok_def dev_inv_def kept_def start_work_def with_config_def)
qed (use dev_ok_held [OF assms(1,2)] in \<open>auto simp: start_work_def earns_def with_config_def has_config_ref_def\<close>)

lemma start_works_ok:
  assumes "start_works kn is nbd = Some (ret, nbd')" "dev_ok k j nbd" "held k nbd" "\<forall>i\<in>set is. i < num_connections (cfg nbd)"
  shows "dev_ok k j nbd' \<and> earns nbd nbd'"
  using assms
proof (induction kn "is" nbd rule: start_works.induct)
  case (2 kn i "is" nbd)
  show ?case
  proof (cases "allocates kn i")
    case True
    have i: "i < num_connections (cfg nbd)" using 2(5) by simp
    note w = start_work_ok [OF 2(3,4) i]
    have "start_works kn is (start_work i nbd) = Some (ret, nbd')" using 2(2) True by simp
    from 2(1) [OF _ this w(1) held_earns [OF 2(4) w(2)]] show ?thesis using True w 2(5) earns_trans by auto
  next
    case False
    have s: "stays nbd (sock_shutdown nbd)" by (rule stays_shutdown [OF dev_ok_held [OF 2(3,4)]])
    then have ok: "dev_ok k j (sock_shutdown nbd)" "earns nbd (sock_shutdown nbd)"
      using dev_ok_stays [OF 2(3)] by (auto simp: stays_def)
    show ?thesis
    proof (cases "i = 0")
      case True
      then show ?thesis using 2(2) False ok by simp
    next
      case i: False
      then show ?thesis using 2(2) False flush_ok [OF _ ok(1)] ok(2) earns_trans by auto
    qed
  qed
qed simp

lemma nbd_start_device_ok:
  assumes "nbd_start_device kn nbd = Some (ret, nbd')" "dev_ok k j nbd" "held k nbd"
  shows "dev_ok k j nbd' \<and> earns nbd nbd'"
proof -
  let ?a = "nbd_parse_flags (nbd\<lparr>nr_hw_queues := num_connections (cfg nbd), pid := current kn\<rparr>)"
  let ?b = "with_config (\<lambda>c. c\<lparr>runtime_flags := insert NBD_RT_HAS_PID_FILE (runtime_flags c)\<rparr>) ?a"
  have "stays nbd (nbd\<lparr>nr_hw_queues := num_connections (cfg nbd), pid := current kn\<rparr>)"
    by (rule stays_trans [OF stays_fields(5) stays_fields(3)])
  then have a: "stays nbd ?a" by (rule stays_trans [OF _ stays_parse_flags])
  have "stays ?a ?b" by (rule stays_config) (auto intro: keeps_fields)
  with a have b: "stays nbd ?b" by (rule stays_trans)
  have nb: "num_connections (cfg ?b) = num_connections (cfg nbd)"
    using dev_ok_held [OF assms(2,3)] by (auto simp: nbd_parse_flags_def Let_def with_config_def emit_def)
  note x = assms(1) [unfolded nbd_start_device_def Let_def]
  show ?thesis
  proof (cases "pid nbd \<noteq> 0 \<or> num_connections (cfg nbd) = 0 \<or>
      1 < num_connections (cfg nbd) \<and> cfg_flags (cfg nbd) AND NBD_FLAG_CAN_MULTI_CONN = 0")
    case True
    then show ?thesis using x assms(2) by (auto split: if_splits)
  next
    case False
    show ?thesis
    proof (cases "create_file kn = 0")
      case True
      obtain r n where r: "start_works kn [0..<num_connections (cfg nbd)] ?b = Some (r, n)"
        and n: "nbd' = n \<or> nbd' = snd (nbd_set_size (bad_block_size kn) (bytesize (cfg n)) (ucast (nbd_blksize (cfg n))) n)"
        using x False True by (auto split: option.splits if_splits)
      have "dev_ok k j n \<and> earns ?b n"
        by (rule start_works_ok [OF r dev_ok_stays [OF assms(2) b] held_stays [OF assms(3) b]]) (use nb in simp)
      then have ok: "dev_ok k j n" "earns nbd n" using b earns_trans by (auto simp: stays_def)
      have "stays n nbd'" using n stays_set_size by auto
      then show ?thesis using dev_ok_stays [OF ok(1)] ok(2) earns_trans by (auto simp: stays_def)
    next
      case err: False
      then have "nbd' = ?a" using x False by auto
      then show ?thesis using dev_ok_stays [OF assms(2) a] a by (simp add: stays_def)
    qed
  qed
qed

section \<open>The ioctls\<close>

lemma start_device_wait_over_ok:
  assumes "start_device_wait_over kn interrupted nbd = Some (ret, nbd')" "dev_ok k j nbd" "held k nbd"
  shows "dev_ok k j nbd' \<and> earns nbd nbd'"
proof -
  let ?n = "if interrupted then sock_shutdown nbd else nbd"
  obtain m where m: "flush_workqueue (hwq_of kn) ?n = Some m" "nbd' = nbd_bdev_reset m"
    using assms(1) by (auto simp: start_device_wait_over_def Let_def)
  have n: "stays nbd ?n" using stays_shutdown [OF dev_ok_held [OF assms(2,3)]] by simp
  have "dev_ok k j m \<and> earns ?n m" using flush_ok [OF m(1) dev_ok_stays [OF assms(2) n]] .
  then show ?thesis using n m(2) stays_bdev_reset [of m] dev_ok_stays earns_trans unfolding stays_def by blast
qed

lemma nbd_ioctl_locked_ok:
  assumes "nbd_ioctl_locked kn cmd nbd = Some (r, nbd')" "dev_ok k j nbd" "held k nbd"
  shows "dev_ok k j nbd' \<and> earns nbd nbd'"
proof -
  have stays: "dev_ok k j nbd' \<and> earns nbd nbd'" if "stays nbd nbd'" using dev_ok_stays [OF assms(2) that] that by (simp add: stays_def)
  show ?thesis
  proof (cases cmd)
    case DISCONNECT
    then show ?thesis using assms(1) by (auto intro!: stays stays_disconnect)
  next
    case CLEAR_SOCK
    then show ?thesis using assms(1) nbd_clear_sock_ioctl_ok [OF assms(2,3)] by simp
  next
    case (SET_SOCK found)
    then show ?thesis using assms(1) stays stays_add_socket by (auto simp: ioctl_result_def)
  next
    case (SET_BLKSIZE b)
    then show ?thesis using assms(1) stays stays_set_size by (auto simp: ioctl_result_def)
  next
    case (SET_SIZE b)
    then show ?thesis using assms(1) stays stays_set_size by (auto simp: ioctl_result_def)
  next
    case (SET_SIZE_BLOCKS b)
    then show ?thesis using assms(1) stays stays_set_size by (auto simp: ioctl_result_def split: if_splits)
  next
    case (SET_TIMEOUT s)
    then show ?thesis using assms(1) stays stays_fields(2) by (auto simp: nbd_set_cmd_timeout_def)
  next
    case (SET_FLAGS f)
    have "stays nbd (with_config (\<lambda>c. c\<lparr>cfg_flags := f\<rparr>) nbd)" by (rule stays_config) (auto intro: keeps_fields)
    then show ?thesis using assms(1) stays SET_FLAGS by auto
  next
    case DO_IT
    then show ?thesis using assms nbd_start_device_ok by auto
  qed (use assms stays in auto)
qed

lemma nbd_ioctl_ok:
  assumes "nbd_ioctl kn capable ours cmd nbd = Some (r, nbd')" "dev_ok k j nbd" "held k nbd"
  shows "dev_ok k j nbd' \<and> earns nbd nbd'"
  using assms nbd_ioctl_locked_ok [OF _ assms(2,3)] by (auto simp: nbd_ioctl_def split: if_splits)

section \<open>Opening and releasing\<close>

lemma config_ok_new: "config_ok new_config"
  by (simp add: config_ok_def new_config_def)

lemma nbd_open_ok:
  assumes "dev_ok 0 j nbd"
  shows "dev_ok 0 j (snd (nbd_open kn nbd))" "balance t (snd (nbd_open kn nbd)) = balance t nbd"
proof -
  show "dev_ok 0 j (snd (nbd_open kn nbd))"
  proof (cases "config nbd")
    case None
    then have none: "config_refs nbd = 0" "recv_works nbd = []" "waiting nbd = []" "openers nbd = 0" "kept nbd + j \<le> refs nbd"
      using assms by (simp_all add: dev_ok_def dev_inv_def)
    let ?n = "nbd\<lparr>config := Some new_config, config_refs := Suc 0, refs := Suc (Suc (refs nbd)), openers := Suc 0\<rparr>"
    have "config_inv [] 0 ?n new_config"
      using config_ok_new none by (simp add: config_inv_def has_ref_def) (simp add: new_config_def)
    then have "dev_ok 0 j ?n" using none by (simp add: dev_ok_def dev_inv_def kept_def)
    then show ?thesis using assms none dev_ok_refs [OF assms]
      by (auto simp: nbd_open_def nbd_alloc_config_def Let_def) (simp add: dev_ok_def dev_inv_def)
  next
    case (Some c)
    then have c: "config_inv (recv_works nbd) 0 nbd c" "kept nbd + openers nbd + 1 + j \<le> refs nbd"
      using assms by (simp_all add: dev_ok_def dev_inv_def)
    let ?n = "nbd\<lparr>refs := Suc (refs nbd), config_refs := Suc (config_refs nbd), openers := Suc (openers nbd)\<rparr>"
    have "config_inv (recv_works nbd) 0 ?n c" using c(1) by (simp add: config_inv_def)
    then have "dev_ok 0 j ?n" using c(2) Some by (simp add: dev_ok_def dev_inv_def kept_def)
    then show ?thesis using assms c(1) by (auto simp: nbd_open_def config_inv_def)
  qed
  show "balance t (snd (nbd_open kn nbd)) = balance t nbd"
    by (auto simp: nbd_open_def nbd_alloc_config_def Let_def)
qed

lemma dev_ok_put_put:
  assumes "dev_ok (Suc k) (Suc j) nbd"
  shows "dev_ok k j (nbd_put (nbd_config_put nbd)) \<and> earns nbd (nbd_put (nbd_config_put nbd))"
  using put_after [OF assms stays_refl] dev_ok_put [of k j "nbd_config_put nbd"] by (auto simp: earns_def)

lemma nbd_release_ok:
  assumes "nbd_release kn nbd = Some nbd'" "dev_ok 0 j nbd" "0 < openers nbd"
  shows "dev_ok 0 j nbd'" "balance t nbd \<le> balance t nbd'"
proof -
  let ?n = "nbd\<lparr>openers := openers nbd - 1\<rparr>"
  obtain c where c: "config nbd = Some c" "config_inv (recv_works nbd) 0 nbd c"
    by (rule dev_ok_obtain [OF assms(2)]) (use assms(3) in \<open>simp_all add: held_def\<close>)
  obtain p where p: "openers nbd = Suc p" using assms(3) by (cases "openers nbd") auto
  have "config_inv (recv_works nbd) (Suc 0) ?n c" using c(2) p by (simp add: config_inv_def)
  then have n: "dev_ok (Suc 0) (Suc j) ?n"
    using assms(2) c(1) p by (simp add: dev_ok_def dev_inv_def kept_def)
  obtain m where m: "m = ?n \<or> nbd_disconnect_and_put kn ?n = Some m" "nbd' = nbd_put (nbd_config_put m)"
    using assms(1) by (auto simp: nbd_release_def Let_def split: if_splits)
  have "dev_ok (Suc 0) (Suc j) m \<and> earns ?n m"
    using m(1) nbd_disconnect_and_put_ok [OF _ n] n by (auto simp: held_def)
  then have "dev_ok 0 j nbd' \<and> earns ?n nbd'" using dev_ok_put_put [of 0 j m] m(2) earns_trans by blast
  then show "dev_ok 0 j nbd'" "balance t nbd \<le> balance t nbd'" by (auto simp: earns_def dest: spec [of _ t])
qed

end
