(* ===== verification/Nbd_Keep_Netlink.thy ===== *)
theory Nbd_Keep_Netlink
  imports Nbd_Keep_Setup
begin

text \<open>
  The netlink commands keep the invariant of a device.
\<close>

section \<open>Settings\<close>

lemma earns_balance: "earns nbd nbd' \<Longrightarrow> balance t nbd \<le> balance t nbd'"
  by (simp add: earns_def)

lemma stays_genl_size_set: "stays nbd (snd (nbd_genl_size_set k at nbd))"
  by (simp add: nbd_genl_size_set_def Let_def stays_set_size)

lemma stays_timeouts: "stays nbd (genl_timeouts k at nbd)"
proof -
  have d: "stays x (with_config (\<lambda>c. c\<lparr>dead_conn_timeout := s\<rparr>) x)" for x s
    by (rule stays_config) (auto intro: keeps_fields)
  have t: "stays nbd (nbd_set_cmd_timeout k s nbd)" for s by (simp add: nbd_set_cmd_timeout_def stays_fields)
  show ?thesis using t d stays_trans [OF t d] by (auto simp: genl_timeouts_def Let_def split: option.splits)
qed

lemma stays_close_flag: "stays nbd (genl_close_flag clears fl nbd)"
  unfolding genl_close_flag_def by (auto intro!: stays_config intro: keeps_fields)

text \<open>The device that is not to be kept any more still has the reference that kept it.\<close>

lemma genl_destroy_flag_ok:
  assumes "genl_destroy_flag fl nbd = (p, nbd')" "dev_ok k j nbd"
  shows "dev_ok k (if p then Suc j else j) nbd' \<and> earns nbd nbd'"
proof -
  have cong: "config_inv W k (nbd\<lparr>dev_flags := x\<rparr>) c = config_inv W k nbd c"
    "config_inv W k (nbd\<lparr>dev_flags := x, refs := y\<rparr>) c = config_inv W k nbd c" for x y W c
    by (rule config_inv_cong; simp)+
  show ?thesis
    using assms unfolding genl_destroy_flag_def
    by (cases "config nbd") (auto simp: dev_ok_def dev_inv_def kept_def earns_def cong insert_absorb split: if_splits)
qed

lemma genl_client_flags_ok:
  assumes "genl_client_flags clears at nbd = (p, nbd')" "dev_ok k j nbd"
  shows "dev_ok k (if p then Suc j else j) nbd' \<and> earns nbd nbd'"
proof (cases "attr_client_flags at")
  case None
  then show ?thesis using assms by (simp add: genl_client_flags_def)
next
  case (Some fl)
  obtain n where n: "genl_destroy_flag fl nbd = (p, n)" "nbd' = genl_close_flag clears fl n"
    using assms(1) Some by (auto simp: genl_client_flags_def split: prod.splits)
  have s: "stays n nbd'" unfolding n(2) by (rule stays_close_flag)
  have d: "dev_ok k (if p then Suc j else j) n \<and> earns nbd n" using genl_destroy_flag_ok [OF n(1) assms(2)] .
  show ?thesis using d dev_ok_stays [OF _ s] s earns_trans unfolding stays_def by blast
qed

lemma genl_sockets_ok:
  assumes "\<And>found nbd. P nbd \<Longrightarrow> P (snd (f found nbd))" "P nbd"
  shows "P (snd (genl_sockets f items nbd))"
  using assms(2)
proof (induction items arbitrary: nbd)
  case (Cons item items)
  show ?case
  proof (cases item)
    case (Fd found)
    obtain r n where n: "f found nbd = (r, n)" by (cases "f found nbd")
    then have "P n" using assms(1) [OF Cons.prems, of found] by simp
    then show ?thesis using Cons.IH [of n] n Fd by simp
  qed (use Cons in simp_all)
qed simp

section \<open>Connecting\<close>

lemma stays_server_flags: "stays nbd (connect_server_flags at nbd)"
  unfolding connect_server_flags_def by (auto split: option.splits intro!: stays_config intro: keeps_fields)

lemma stays_connect_backend: "stays nbd (snd (connect_backend k at nbd))"
proof -
  let ?h = "with_config (\<lambda>c. c\<lparr>runtime_flags := insert NBD_RT_HAS_BACKEND_FILE (runtime_flags c)\<rparr>)"
  have h: "stays x (?h x)" for x by (rule stays_config) (auto intro: keeps_fields)
  have b: "stays nbd (?h (nbd\<lparr>backend := y\<rparr>))" for y by (rule stays_trans [OF stays_fields(4) h])
  show ?thesis using h b by (auto simp: connect_backend_def Let_def stays_fields split: option.splits)
qed

lemma connect_start_ok:
  assumes "connect_start kn at nbd = Some (ret, nbd')" "dev_ok k j nbd" "held k nbd"
  shows "dev_ok k j nbd' \<and> earns nbd nbd'"
proof -
  obtain r n where n: "genl_sockets (nbd_add_socket kn True) (case_option [] id (attr_sockets at)) nbd = (r, n)"
    by (cases "genl_sockets (nbd_add_socket kn True) (case_option [] id (attr_sockets at)) nbd")
  have "stays nbd (snd (genl_sockets (nbd_add_socket kn True) (case_option [] id (attr_sockets at)) nbd))"
    by (rule genl_sockets_ok [where P = "stays nbd"]) (auto intro: stays_trans stays_add_socket)
  then have s: "stays nbd n" using n by simp
  have ok: "dev_ok k j n" "held k n" using dev_ok_stays [OF assms(2) s] held_stays [OF assms(3) s] .
  consider "nbd' = n" | q m where "nbd_start_device kn n = Some (q, m)" "nbd' = m \<or> nbd' = snd (connect_backend kn at m)"
    using assms(1) n by (auto simp: connect_start_def Let_def split: if_splits option.splits)
  then show ?thesis
  proof cases
    case 1
    then show ?thesis using ok s by (simp add: stays_def)
  next
    case (2 q m)
    have m: "dev_ok k j m \<and> earns n m" using nbd_start_device_ok [OF 2(1) ok] .
    have "stays m nbd'" using 2(2) stays_connect_backend by auto
    then show ?thesis using m s dev_ok_stays earns_trans unfolding stays_def by blast
  qed
qed

lemma connect_config_ok:
  assumes "connect_config kn at nbd = Some (ret, p, nbd')" "dev_ok k j nbd" "0 < k"
  shows "dev_ok k (if p then Suc j else j) nbd' \<and> earns nbd nbd'"
proof -
  let ?s = "snd (nbd_genl_size_set kn at nbd)"
  let ?t = "connect_server_flags at (genl_timeouts kn at ?s)"
  have s: "stays nbd ?s" by (rule stays_genl_size_set)
  have t: "stays nbd ?t" by (rule stays_trans [OF s stays_trans [OF stays_timeouts stays_server_flags]])
  have h: "held k x" for x using assms(3) by (simp add: held_def)
  consider "p = False" "nbd' = ?s"
    | n where "genl_client_flags False at ?t = (p, n)" "connect_start kn at n = Some (ret, nbd')"
    using assms(1) by (auto simp: connect_config_def Let_def split: prod.splits if_splits)
  then show ?thesis
  proof cases
    case 1
    then show ?thesis using dev_ok_stays [OF assms(2) s] s by (simp add: stays_def)
  next
    case (2 n)
    have "dev_ok k (if p then Suc j else j) n \<and> earns ?t n"
      using genl_client_flags_ok [OF 2(1) dev_ok_stays [OF assms(2) t]] .
    then have "dev_ok k (if p then Suc j else j) nbd' \<and> earns n nbd'" "earns ?t n"
      using connect_start_ok [OF 2(2) _ h] by auto
    then show ?thesis using t earns_trans unfolding stays_def by blast
  qed
qed

text \<open>The reference that a new connection leaves behind, where none was before.\<close>

lemma connect_out_ok:
  assumes "dev_ok (Suc 0) (if p then Suc j else j) nbd" "\<not> has_config_ref nbd"
  shows "dev_ok 0 j (snd (connect_out (ret, p, nbd)))" "balance t nbd \<le> balance t (snd (connect_out (ret, p, nbd)))"
proof -
  let ?j = "if p then Suc j else j"
  let ?n = "if ret = 0 then with_config (\<lambda>c. c\<lparr>runtime_flags := insert NBD_RT_HAS_CONFIG_REF (runtime_flags c)\<rparr>)
      (nbd\<lparr>config_refs := config_refs nbd + 1\<rparr>) else nbd"
  obtain c where c: "config nbd = Some c" "config_inv (recv_works nbd) (Suc 0) nbd c"
    by (rule dev_ok_obtain [OF assms(1)]) (simp_all add: held_def)
  have "NBD_RT_HAS_CONFIG_REF \<notin> runtime_flags c" using assms(2) c(1) by (simp add: has_config_ref_def)
  then have "config_inv (recv_works nbd) (Suc 0)
      (with_config (\<lambda>c. c\<lparr>runtime_flags := insert NBD_RT_HAS_CONFIG_REF (runtime_flags c)\<rparr>) (nbd\<lparr>config_refs := config_refs nbd + 1\<rparr>))
      (c\<lparr>runtime_flags := insert NBD_RT_HAS_CONFIG_REF (runtime_flags c)\<rparr>)"
    using c by (simp add: config_inv_def config_ok_def has_ref_def with_config_def)
  then have n: "dev_ok (Suc 0) ?j ?n"
    using assms(1) c(1) by (simp add: dev_ok_def dev_inv_def kept_def with_config_def)
  have b: "balance t ?n = balance t nbd" by simp
  have q: "dev_ok 0 ?j (nbd_config_put ?n) \<and> earns ?n (nbd_config_put ?n)" by (rule put_after [OF n stays_refl])
  have e: "snd (connect_out (ret, p, nbd)) = (if p then nbd_put (nbd_config_put ?n) else nbd_config_put ?n)"
    by (simp add: connect_out_def Let_def)
  show "dev_ok 0 j (snd (connect_out (ret, p, nbd)))" using q dev_ok_put unfolding e by auto
  show "balance t nbd \<le> balance t (snd (connect_out (ret, p, nbd)))"
    using earns_balance [OF q [THEN conjunct2], of t] b unfolding e by simp
qed

lemma connect_device_ok:
  assumes "connect_device kn at nbd = Some (ret, nbd')" "dev_ok 0 (Suc j) nbd"
  shows "dev_ok 0 j nbd'" "balance t nbd \<le> balance t nbd'"
proof -
  have "dev_ok 0 j nbd' \<and> balance t nbd \<le> balance t nbd'"
  proof (cases "config nbd = None \<and> alloc_config_error kn = 0")
    case False
    have "config_refs nbd \<noteq> 0" if "config nbd \<noteq> None"
      using dev_inv_refs [of "recv_works nbd" 0 "Suc j" nbd] assms(2) that by (simp add: dev_ok_def)
    then have "nbd' = nbd_put nbd"
      using assms(1) False by (auto simp: connect_device_def nbd_alloc_config_def split: if_splits)
    then show ?thesis using dev_ok_put [OF assms(2)] by simp
  next
    case True
    then have none: "config_refs nbd = 0" "recv_works nbd = []" "waiting nbd = []" "openers nbd = 0" "kept nbd + Suc j \<le> refs nbd"
      using assms(2) by (simp_all add: dev_ok_def dev_inv_def)
    let ?c = "new_config\<lparr>runtime_flags := {NBD_RT_BOUND}\<rparr>"
    let ?n = "nbd\<lparr>config := Some ?c, config_refs := 1\<rparr>"
    have "config_inv [] (Suc 0) ?n ?c"
      using config_ok_new none by (simp add: config_inv_def has_ref_def config_ok_def) (simp add: new_config_def)
    then have n: "dev_ok (Suc 0) j ?n" using none by (simp add: dev_ok_def dev_inv_def kept_def)
    obtain r p m where m: "connect_config kn at ?n = Some (r, p, m)" "(ret, nbd') = connect_out (r, p, m)"
      using assms(1) True none by (auto simp: connect_device_def nbd_alloc_config_def)
    have ok: "dev_ok (Suc 0) (if p then Suc j else j) m \<and> earns ?n m" by (rule connect_config_ok [OF m(1) n]) simp
    then have "\<not> has_config_ref m" by (simp add: earns_def has_config_ref_def)
    note out = connect_out_ok [OF ok [THEN conjunct1] this, where ret = r]
    have "nbd' = snd (connect_out (r, p, m))" using m(2) by (metis snd_conv)
    then have "dev_ok 0 j nbd'" "balance t m \<le> balance t nbd'" using out by simp_all
    moreover have "balance t nbd \<le> balance t m" using earns_balance [OF ok [THEN conjunct2], of t] by simp
    ultimately show ?thesis by linarith
  qed
  then show "dev_ok 0 j nbd'" "balance t nbd \<le> balance t nbd'" by blast+
qed

section \<open>Disconnecting and reconfiguring\<close>

lemma disconnect_device_ok:
  assumes "disconnect_device kn nbd = Some nbd'" "dev_ok 0 (Suc j) nbd"
  shows "dev_ok 0 j nbd'" "balance t nbd \<le> balance t nbd'"
proof -
  have "dev_ok 0 j nbd' \<and> balance t nbd \<le> balance t nbd'"
  proof (cases "config_refs nbd = 0")
    case True
    then show ?thesis using assms dev_ok_put [OF assms(2)] by (auto simp: disconnect_device_def)
  next
    case False
    let ?g = "nbd\<lparr>config_refs := config_refs nbd + 1\<rparr>"
    have g: "dev_ok (Suc 0) (Suc j) ?g" using dev_ok_get [OF assms(2) False] .
    obtain m where m: "nbd_disconnect_and_put kn ?g = Some m" "nbd' = nbd_put (nbd_config_put m)"
      using assms(1) False by (auto simp: disconnect_device_def)
    have ok: "dev_ok (Suc 0) (Suc j) m \<and> earns ?g m"
      by (rule nbd_disconnect_and_put_ok [OF m(1) g]) (simp add: held_def)
    then show ?thesis using dev_ok_put_put [of 0 j m] m(2) earns_balance [of ?g m t] earns_balance [of m nbd' t] by simp
  qed
  then show "dev_ok 0 j nbd'" "balance t nbd \<le> balance t nbd'" by blast+
qed

lemma reconfigure_config_ok:
  assumes "reconfigure_config kn at nbd = (ret, p, nbd')" "dev_ok k j nbd" "0 < k"
  shows "dev_ok k (if p then Suc j else j) nbd' \<and> earns nbd nbd'"
proof -
  let ?s = "snd (nbd_genl_size_set kn at nbd)"
  let ?t = "genl_timeouts kn at ?s"
  have s: "stays nbd ?s" by (rule stays_genl_size_set)
  have t: "stays nbd ?t" by (rule stays_trans [OF s stays_timeouts])
  consider "p = False" "nbd' = nbd" | "p = False" "nbd' = ?s"
    | n where "genl_client_flags True at ?t = (p, n)"
        "nbd' = snd (genl_sockets (nbd_reconnect_socket kn) (case_option [] id (attr_sockets at)) n)"
    using assms(1) by (auto simp: reconfigure_config_def reconfigure_sockets_def Let_def split: prod.splits if_splits)
  then show ?thesis
  proof cases
    case 1
    then show ?thesis using assms(2) by simp
  next
    case 2
    then show ?thesis using dev_ok_stays [OF assms(2) s] s by (simp add: stays_def)
  next
    case (3 n)
    let ?j = "if p then Suc j else j"
    have n: "dev_ok k ?j n \<and> earns ?t n" using genl_client_flags_ok [OF 3(1) dev_ok_stays [OF assms(2) t]] .
    have "dev_ok k ?j nbd' \<and> earns n nbd'"
      unfolding 3(2)
    proof (rule genl_sockets_ok [where P = "\<lambda>x. dev_ok k ?j x \<and> earns n x"])
      fix found x assume x: "dev_ok k ?j x \<and> earns n x"
      have "held k x" using assms(3) by (simp add: held_def)
      then show "dev_ok k ?j (snd (nbd_reconnect_socket kn found x)) \<and> earns n (snd (nbd_reconnect_socket kn found x))"
        using nbd_reconnect_socket_ok x earns_trans by blast
    qed (use n in simp)
    then show ?thesis using n t earns_trans unfolding stays_def by blast
  qed
qed

lemma reconfigure_device_ok:
  assumes "dev_ok 0 (Suc j) nbd"
  shows "dev_ok 0 j (snd (reconfigure_device kn at nbd))" "balance t nbd \<le> balance t (snd (reconfigure_device kn at nbd))"
proof -
  have "dev_ok 0 j (snd (reconfigure_device kn at nbd)) \<and> balance t nbd \<le> balance t (snd (reconfigure_device kn at nbd))"
  proof (cases "config_refs nbd = 0")
    case True
    then show ?thesis using dev_ok_put [OF assms] by (simp add: reconfigure_device_def)
  next
    case False
    let ?g = "nbd\<lparr>config_refs := config_refs nbd + 1\<rparr>"
    have g: "dev_ok (Suc 0) (Suc j) ?g" using dev_ok_get [OF assms False] .
    obtain r p m where m: "reconfigure_config kn at ?g = (r, p, m)" by (cases "reconfigure_config kn at ?g")
    have ok: "dev_ok (Suc 0) (Suc (if p then Suc j else j)) m \<and> earns ?g m"
      using reconfigure_config_ok [OF m g] by (auto split: if_splits)
    let ?q = "nbd_put (nbd_config_put m)"
    have q: "dev_ok 0 (if p then Suc j else j) ?q \<and> earns m ?q" using dev_ok_put_put ok by blast
    have e: "snd (reconfigure_device kn at nbd) = (if p then nbd_put ?q else ?q)"
      using False m by (simp add: reconfigure_device_def Let_def)
    have "balance t nbd \<le> balance t ?q" using ok q earns_balance [of ?g m t] earns_balance [of m ?q t] by simp
    then show ?thesis using q dev_ok_put unfolding e by auto
  qed
  then show "dev_ok 0 j (snd (reconfigure_device kn at nbd))" "balance t nbd \<le> balance t (snd (reconfigure_device kn at nbd))" by blast+
qed

end
