(* ===== verification/Nbd_Steps.thy ===== *)
theory Nbd_Steps
  imports Nbd_Keep_Netlink
begin

text \<open>
  A device as a state machine: the operations that the block layer, user space, the network and
  the works of the driver run on it, one after the other, and the devices that can be reached.
\<close>

section \<open>Operations\<close>

text \<open>
  A receive work or a waiting request is named by its position in its list.  The block layer
  may change a request, and the network what a socket is going to answer, at any time.
\<close>

datatype nbd_op =
    Dispatch u32 nat
  | Wake nat
  | Timeout bool u32
  | Recv_reply bool nat
  | Recv_complete bool nat
  | Open
  | Release
  | Ioctl bool bool nbd_ioctl
  | Wait_over bool
  | Connect genl_attrs
  | Disconnect
  | Reconfigure genl_attrs
  | Block_layer u32 "request option"
  | Network nat "int list" "(int + u8 list) list"

definition without :: "nat \<Rightarrow> 'a list \<Rightarrow> 'a list" where
  "without n xs = take n xs @ drop (Suc n) xs"

definition do_wake :: "nat \<Rightarrow> nbd_device \<Rightarrow> nbd_device option" where
  "do_wake n nbd =
    (if n < length (waiting nbd)
     then (case waiting nbd ! n of (t, i) \<Rightarrow>
        map_option (\<lambda>r. dispatch_answer t (queue_outcome t r)) (handle_woken t i (nbd\<lparr>waiting := without n (waiting nbd)\<rparr>)))
     else None)"

text \<open>A receive work that leaves its loop gives up its place in the list.\<close>

definition do_recv_reply :: "kernel \<Rightarrow> bool \<Rightarrow> nat \<Rightarrow> nbd_device \<Rightarrow> nbd_device option" where
  "do_recv_reply k live n nbd =
    (if n < length (recv_works nbd)
     then (case recv_works nbd ! n of
             (i, None) \<Rightarrow>
               map_option (\<lambda>(r, nbd). case r of
                   None \<Rightarrow> recv_end i (nbd\<lparr>recv_works := without n (recv_works nbd)\<rparr>)
                 | Some t \<Rightarrow> nbd\<lparr>recv_works := (recv_works nbd)[n := (i, Some t)]\<rparr>)
               (recv_reply (hwq_of k) live i nbd)
           | (i, Some t) \<Rightarrow> None)
     else None)"

definition do_recv_complete :: "bool \<Rightarrow> nat \<Rightarrow> nbd_device \<Rightarrow> nbd_device option" where
  "do_recv_complete fake_timeout n nbd =
    (if n < length (recv_works nbd)
     then (case recv_works nbd ! n of
             (i, Some t) \<Rightarrow> Some (recv_complete fake_timeout t (nbd\<lparr>recv_works := (recv_works nbd)[n := (i, None)]\<rparr>))
           | (i, None) \<Rightarrow> None)
     else None)"

text \<open>
  An operation on an open disk has an opener, and a netlink command first takes a reference to
  the device.
\<close>

fun nbd_do :: "kernel \<Rightarrow> nbd_op \<Rightarrow> nbd_device \<Rightarrow> nbd_device option" where
  "nbd_do k (Dispatch t i) nbd =
    (if tags nbd t = None then None else map_option (dispatch_answer t) (nbd_queue_rq t i nbd))"
| "nbd_do k (Wake n) nbd = do_wake n nbd"
| "nbd_do k (Timeout locked t) nbd = Some (snd (nbd_xmit_timeout locked t nbd))"
| "nbd_do k (Recv_reply live n) nbd = do_recv_reply k live n nbd"
| "nbd_do k (Recv_complete fake_timeout n) nbd = do_recv_complete fake_timeout n nbd"
| "nbd_do k Open nbd = Some (snd (nbd_open k nbd))"
| "nbd_do k Release nbd = (if openers nbd = 0 then None else nbd_release k nbd)"
| "nbd_do k (Ioctl capable ours cmd) nbd =
    (if openers nbd = 0 then None else map_option snd (nbd_ioctl k capable ours cmd nbd))"
| "nbd_do k (Wait_over interrupted) nbd =
    (if openers nbd = 0 then None
     else if \<not> interrupted \<and> recv_threads (cfg nbd) \<noteq> 0 then None
     else map_option snd (start_device_wait_over k interrupted nbd))"
| "nbd_do k (Connect at) nbd =
    (if refs nbd = 0 then None else map_option snd (connect_device k at (nbd\<lparr>refs := refs nbd + 1\<rparr>)))"
| "nbd_do k Disconnect nbd = (if refs nbd = 0 then None else disconnect_device k (nbd\<lparr>refs := refs nbd + 1\<rparr>))"
| "nbd_do k (Reconfigure at) nbd =
    (if refs nbd = 0 then None else Some (snd (reconfigure_device k at (nbd\<lparr>refs := refs nbd + 1\<rparr>))))"
| "nbd_do k (Block_layer t r) nbd = Some (nbd\<lparr>tags := (tags nbd)(t := r)\<rparr>)"
| "nbd_do k (Network i tx rx) nbd =
    Some (with_config (with_sock i (\<lambda>s. s\<lparr>sock := (sock s)\<lparr>tx_results := tx, rx_results := rx\<rparr>\<rparr>)) nbd)"

inductive nbd_reach :: "nbd_device \<Rightarrow> bool" where
  added: "nbd_reach (new_device ts index 1)"
| step: "nbd_reach nbd \<Longrightarrow> nbd_do k op nbd = Some nbd' \<Longrightarrow> nbd_reach nbd'"

text \<open>A run of operations, for the examples.\<close>

fun nbd_run :: "kernel \<Rightarrow> nbd_op list \<Rightarrow> nbd_device \<Rightarrow> nbd_device option" where
  "nbd_run k [] nbd = Some nbd"
| "nbd_run k (op # ops) nbd = (case nbd_do k op nbd of None \<Rightarrow> None | Some nbd \<Rightarrow> nbd_run k ops nbd)"

lemma nbd_run_reach: "nbd_run k ops nbd = Some nbd' \<Longrightarrow> nbd_reach nbd \<Longrightarrow> nbd_reach nbd'"
  by (induction k ops nbd rule: nbd_run.induct) (auto split: option.splits intro: nbd_reach.step)

section \<open>Every step keeps the invariant\<close>

definition step_ok :: "nbd_device \<Rightarrow> nbd_device \<Rightarrow> bool" where
  "step_ok nbd nbd' \<longleftrightarrow> dev_ok 0 0 nbd' \<and> (\<forall>t. balance t nbd \<le> balance t nbd')"

lemma step_okI: "dev_ok 0 0 nbd' \<and> earns nbd nbd' \<Longrightarrow> step_ok nbd nbd'"
  by (simp add: step_ok_def earns_def)

lemma step_ok_stays: "dev_ok 0 0 nbd \<Longrightarrow> stays nbd nbd' \<Longrightarrow> step_ok nbd nbd'"
  using dev_ok_stays by (auto simp: step_ok_def stays_def earns_def)

lemma length_without: "n < length xs \<Longrightarrow> Suc (length (without n xs)) = length xs"
  by (simp add: without_def)

lemma set_without: "n < length xs \<Longrightarrow> set xs = insert (xs ! n) (set (without n xs))"
  unfolding without_def by (subst id_take_nth_drop) auto

text \<open>The invariant looks at how many works there are and at their sockets.\<close>

lemma dev_inv_works:
  "length W' = length W \<Longrightarrow> fst ` set W' = fst ` set W \<Longrightarrow> dev_inv W k j nbd \<Longrightarrow> dev_inv W' k j nbd"
proof -
  assume l: "length W' = length W" and s: "fst ` set W' = fst ` set W" and "dev_inv W k j nbd"
  have "(\<forall>w\<in>set W'. fst w < n) = (\<forall>x\<in>fst ` set W'. x < n)" "(\<forall>w\<in>set W. fst w < n) = (\<forall>x\<in>fst ` set W. x < n)" for n
    by simp_all
  then have "(\<forall>w\<in>set W'. fst w < n) = (\<forall>w\<in>set W. fst w < n)" for n by (simp only: s)
  then have "config_inv W' k nbd c = config_inv W k nbd c" for c by (simp only: config_inv_def l)
  moreover have "W' = [] \<longleftrightarrow> W = []" using l by (metis length_0_conv)
  ultimately show "dev_inv W' k j nbd" using \<open>dev_inv W k j nbd\<close>
    by (cases "config nbd") (simp_all add: dev_inv_def)
qed

lemma dev_inv_without:
  assumes "n < length W" "dev_inv W k j nbd"
  shows "dev_inv (W ! n # without n W) k j nbd"
  by (rule dev_inv_works [OF _ _ assms(2)]) (use length_without [OF assms(1)] set_without [OF assms(1)] in simp_all)

lemma dev_inv_phase: "n < length W \<Longrightarrow> W ! n = (i, x) \<Longrightarrow> dev_inv W k j nbd \<Longrightarrow> dev_inv (W[n := (i, y)]) k j nbd"
proof (rule dev_inv_works [of _ W])
  assume "n < length W" "W ! n = (i, x)"
  then have "map fst (W[n := (i, y)]) = map fst W" by (simp add: map_update) (metis fst_conv list_update_id nth_map)
  then show "fst ` set (W[n := (i, y)]) = fst ` set W" by (metis list.set_map)
qed simp

lemma do_wake_ok:
  assumes "do_wake n nbd = Some nbd'" "dev_ok 0 0 nbd"
  shows "step_ok nbd nbd'"
proof -
  let ?n = "nbd\<lparr>waiting := without n (waiting nbd)\<rparr>"
  obtain t i r where n: "n < length (waiting nbd)" and w: "waiting nbd ! n = (t, i)"
    and r: "handle_woken t i ?n = Some r" "nbd' = dispatch_answer t (queue_outcome t r)"
    using assms(1) by (auto simp: do_wake_def split: if_splits prod.splits)
  obtain c where c: "config nbd = Some c"
    using assms(2) n by (cases "config nbd") (auto simp: dev_ok_def dev_inv_def)
  then have ci: "config_inv (recv_works nbd) 0 nbd c" using assms(2) by (simp add: dev_ok_def dev_inv_def)
  have i: "i < num_connections c" using ci n w nth_mem [OF n] by (fastforce simp: config_inv_def)
  have "set (without n (waiting nbd)) \<subseteq> set (waiting nbd)" using set_without [OF n] by auto
  then have "config_inv (recv_works nbd) (Suc 0) ?n c"
    using ci length_without [OF n] by (auto simp: config_inv_def)
  then have ok: "dev_ok (Suc 0) 0 ?n" using assms(2) c by (simp add: dev_ok_def dev_inv_def kept_def)
  have h: "outcome_ok 0 0 r \<and> earns ?n (snd r)"
    by (rule handle_woken_ok [OF r(1) ok]) (use i c in simp)
  have "earns nbd ?n" by (simp add: earns_def)
  then show ?thesis using answer_ok [of 0 0 r t] h r(2) earns_trans by (intro step_okI) blast
qed

lemma do_recv_reply_ok:
  assumes "do_recv_reply k live n nbd = Some nbd'" "dev_ok 0 0 nbd"
  shows "step_ok nbd nbd'"
proof -
  obtain i r m where n: "n < length (recv_works nbd)" and w: "recv_works nbd ! n = (i, None)"
    and r: "recv_reply (hwq_of k) live i nbd = Some (r, m)"
    and nbd': "nbd' = (case r of None \<Rightarrow> recv_end i (m\<lparr>recv_works := without n (recv_works m)\<rparr>)
                     | Some t \<Rightarrow> m\<lparr>recv_works := (recv_works m)[n := (i, Some t)]\<rparr>)"
    using assms(1) by (auto simp: do_recv_reply_def split: if_splits prod.splits option.splits)
  have s: "stays nbd m" using r by (rule stays_recv_reply)
  have rm: "recv_works m = recv_works nbd" using s by (simp add: stays_def)
  have m: "dev_inv (recv_works nbd) 0 0 m" using dev_inv_stays [OF _ s] assms(2) by (simp add: dev_ok_def)
  show ?thesis
  proof (cases r)
    case None
    let ?m = "m\<lparr>recv_works := without n (recv_works nbd)\<rparr>"
    have "dev_inv ((i, None) # without n (recv_works nbd)) 0 0 ?m"
      using dev_inv_without [OF n m] w by simp
    from recv_end_ok [OF this] have e: "dev_inv (without n (recv_works nbd)) 0 0 nbd'" "earns ?m nbd'"
      "recv_works nbd' = without n (recv_works nbd)"
      using nbd' None rm by simp_all
    have "earns m ?m" by (simp add: earns_def)
    then have "earns nbd nbd'" using s e(2) earns_trans unfolding stays_def by blast
    then show ?thesis using e by (intro step_okI) (simp add: dev_ok_def)
  next
    case (Some t)
    have "dev_inv ((recv_works nbd)[n := (i, Some t)]) 0 0 nbd'"
      using dev_inv_phase [OF n w m] nbd' Some by simp
    moreover have "earns m nbd'" using nbd' Some by (simp add: earns_def)
    ultimately show ?thesis using nbd' Some s rm earns_trans unfolding stays_def
      by (intro step_okI) (auto simp: dev_ok_def)
  qed
qed

lemma do_recv_complete_ok:
  assumes "do_recv_complete fake_timeout n nbd = Some nbd'" "dev_ok 0 0 nbd"
  shows "step_ok nbd nbd'"
proof -
  obtain i t where n: "n < length (recv_works nbd)" and w: "recv_works nbd ! n = (i, Some t)"
    and nbd': "nbd' = recv_complete fake_timeout t (nbd\<lparr>recv_works := (recv_works nbd)[n := (i, None)]\<rparr>)"
    using assms(1) by (auto simp: do_recv_complete_def split: if_splits prod.splits option.splits)
  let ?m = "nbd\<lparr>recv_works := (recv_works nbd)[n := (i, None)]\<rparr>"
  have m: "dev_ok 0 0 ?m" using dev_inv_phase [OF n w, of 0 0 nbd None] assms(2) by (simp add: dev_ok_def)
  have "earns nbd ?m" by (simp add: earns_def)
  moreover have "stays ?m nbd'" unfolding nbd' by (rule stays_recv_complete)
  ultimately show ?thesis using dev_ok_stays [OF m] earns_trans unfolding stays_def by (intro step_okI) blast
qed

lemma nbd_do_ok:
  assumes "nbd_do k op nbd = Some nbd'" "dev_ok 0 0 nbd"
  shows "step_ok nbd nbd'"
proof (cases op)
  case (Dispatch t i)
  then show ?thesis using assms nbd_queue_rq_ok by (auto intro!: step_okI split: if_splits)
next
  case (Wake n)
  then show ?thesis using assms do_wake_ok by simp
next
  case (Timeout locked t)
  then show ?thesis using assms(1) nbd_xmit_timeout_ok [OF assms(2), of locked t] by (auto intro: step_okI)
next
  case (Recv_reply live n)
  then show ?thesis using assms do_recv_reply_ok by simp
next
  case (Recv_complete f n)
  then show ?thesis using assms do_recv_complete_ok by simp
next
  case Open
  then show ?thesis using assms(1) nbd_open_ok [OF assms(2)] by (auto simp: step_ok_def)
next
  case Release
  then show ?thesis using assms(1) nbd_release_ok [OF _ assms(2)] by (auto simp: step_ok_def split: if_splits)
next
  case (Ioctl capable ours cmd)
  then show ?thesis using assms(1) nbd_ioctl_ok [OF _ assms(2)] by (auto intro!: step_okI simp: held_def split: if_splits)
next
  case (Wait_over intr)
  then show ?thesis using assms(1) start_device_wait_over_ok [OF _ assms(2)] by (auto intro!: step_okI simp: held_def split: if_splits)
next
  case (Connect at)
  then show ?thesis using assms(1) connect_device_ok [OF _ dev_ok_refs [OF assms(2)]]
    by (fastforce simp: step_ok_def split: if_splits)
next
  case Disconnect
  then show ?thesis using assms(1) disconnect_device_ok [OF _ dev_ok_refs [OF assms(2)]]
    by (fastforce simp: step_ok_def split: if_splits)
next
  case (Reconfigure at)
  then show ?thesis using assms(1) reconfigure_device_ok [OF dev_ok_refs [OF assms(2)]]
    by (fastforce simp: step_ok_def split: if_splits)
next
  case (Block_layer t r)
  then show ?thesis using assms stays_fields(6) [of nbd] step_ok_stays by auto
next
  case (Network i tx rx)
  have "stays nbd (with_config (with_sock i (\<lambda>s. s\<lparr>sock := (sock s)\<lparr>tx_results := tx, rx_results := rx\<rparr>\<rparr>)) nbd)"
    by (rule stays_config, rule keeps_with_sock) (auto simp: sock_ok_def)
  then show ?thesis using assms Network step_ok_stays by auto
qed

lemma nbd_reach_ok: "nbd_reach nbd \<Longrightarrow> dev_ok 0 0 nbd \<and> (\<forall>t. 0 \<le> balance t nbd)"
proof (induction rule: nbd_reach.induct)
  case (added ts index)
  show ?case by (simp add: dev_ok_def dev_inv_def new_device_def kept_def balance_def)
next
  case (step nbd k op nbd')
  then show ?case using nbd_do_ok [OF step(2)] order_trans by (fastforce simp: step_ok_def)
qed

end
