(* ===== verification/Nbd_Replies.thy ===== *)
theory Nbd_Replies
  imports Nbd_Steps
begin

text \<open>
  Replies: the bytes that a socket delivers do not depend on how they arrive, a reply is taken
  only for the last transmission of its request, and the reply to a read brings its data.
\<close>

section \<open>The bytes a socket delivers\<close>

text \<open>The bytes that have arrived, when no error has.\<close>

fun stream :: "(int + u8 list) list \<Rightarrow> u8 list" where
  "stream [] = []"
| "stream (Inl _ # rs) = []"
| "stream (Inr bs # rs) = bs @ stream rs"

definition arriving :: "(int + u8 list) list \<Rightarrow> bool" where
  "arriving rs \<longleftrightarrow> (\<forall>r\<in>set rs. \<exists>bs. r = Inr bs \<and> bs \<noteq> [])"

lemma arriving_Cons [simp]: "arriving (r # rs) \<longleftrightarrow> (\<exists>bs. r = Inr bs \<and> bs \<noteq> []) \<and> arriving rs"
  by (simp add: arriving_def)

lemma sock_recv_loop_stream:
  assumes "arriving rs" "0 < n" "n \<le> length (stream rs)"
  shows "\<exists>r rs'. sock_recv_loop down rs n got = Some (r, rs', got @ take n (stream rs)) \<and> 0 \<le> r \<and>
    arriving rs' \<and> stream rs' = drop n (stream rs)"
  using assms
proof (induction rs arbitrary: n got)
  case (Cons x rs)
  obtain bs where x: "x = Inr bs" "bs \<noteq> []" "arriving rs" using Cons.prems(1) by auto
  show ?case
  proof (cases "length bs < n")
    case True
    then show ?thesis using Cons.IH [of "n - length bs" "got @ bs"] x Cons.prems(3) by auto
  next
    case False
    then show ?thesis using x Cons.prems(2) by auto
  qed
qed simp

lemma sock_xmit_recv_stream:
  assumes "arriving (rx_results sk)" "0 < n" "n \<le> length (stream (rx_results sk))"
  obtains r rs' where "sock_xmit_recv sk n = Some (r, sk\<lparr>rx_results := rs'\<rparr>, take n (stream (rx_results sk)))" "0 \<le> r"
    "arriving rs'" "stream rs' = drop n (stream (rx_results sk))"
  using sock_recv_loop_stream [OF assms, of "shut sk" "[]"] by (auto simp: sock_xmit_recv_def)

text \<open>The segments of a request get the bytes in their order.\<close>

lemma recv_segments_stream:
  assumes "arriving (rx_results sk)" "stream (rx_results sk) = concat ds @ rest"
    and "map length ds = map length segs" "[] \<notin> set segs"
  shows "\<exists>r rs'. recv_segments sk segs = Some (r, sk\<lparr>rx_results := rs'\<rparr>, ds) \<and> 0 \<le> r \<and> arriving rs' \<and> stream rs' = rest"
  using assms
proof (induction segs arbitrary: sk ds)
  case Nil
  then show ?case by (intro exI [of _ 0] exI [of _ "rx_results sk"]) simp
next
  case (Cons seg segs)
  obtain d ds' where ds: "ds = d # ds'" "length d = length seg" "map length ds' = map length segs"
    using Cons.prems(3) by (cases ds) auto
  have "0 < length seg" "length seg \<le> length (stream (rx_results sk))" using Cons.prems(2,4) ds by auto
  then obtain r rs' where x: "sock_xmit_recv sk (length seg) = Some (r, sk\<lparr>rx_results := rs'\<rparr>, take (length seg) (stream (rx_results sk)))"
    "0 \<le> r" "arriving rs'" "stream rs' = drop (length seg) (stream (rx_results sk))"
    by (rule sock_xmit_recv_stream [OF Cons.prems(1)])
  have t: "take (length seg) (stream (rx_results sk)) = d" "stream rs' = concat ds' @ rest"
    using Cons.prems(2) ds x(4) by (simp_all flip: ds(2))
  obtain r' rs'' where y: "recv_segments (sk\<lparr>rx_results := rs'\<rparr>) segs = Some (r', sk\<lparr>rx_results := rs''\<rparr>, ds')" "0 \<le> r'"
    "arriving rs''" "stream rs'' = rest"
    using Cons.IH [of "sk\<lparr>rx_results := rs'\<rparr>" ds'] x(3) t(2) ds(3) Cons.prems(4) by auto
  show ?case by (intro exI [of _ r'] exI [of _ rs'']) (use x(1,2) t(1) ds(1) y in simp)
qed

section \<open>Which replies are taken\<close>

text \<open>A reply is for the last transmission of a request on this socket.\<close>

definition reply_expected :: "nat \<Rightarrow> u64 \<Rightarrow> u32 \<Rightarrow> nbd_device \<Rightarrow> bool" where
  "reply_expected index handle t nbd \<longleftrightarrow> handle = nbd_cmd_handle t (cmds nbd t) \<and> started t nbd \<and>
     inflight (cmds nbd t) \<and> \<not> requeued (cmds nbd t) \<and> cmd_index (cmds nbd t) = index \<and> status (cmds nbd t) = BLK_STS_OK"

lemma handle_parts: "nbd_handle_to_cookie handle = cmd_cookie cmd \<Longrightarrow> handle = nbd_cmd_handle (nbd_handle_to_tag handle) cmd"
proof (rule bit_word_eqI)
  fix n assume c: "nbd_handle_to_cookie handle = cmd_cookie cmd" and n: "n < LENGTH(64)"
  have "bit (nbd_handle_to_cookie handle) (n - 32) \<longleftrightarrow> bit handle n" if "32 \<le> n"
    using that n by (auto simp: nbd_handle_to_cookie_def NBD_COOKIE_BITS_def bit_simps)
  then show "bit handle n \<longleftrightarrow> bit (nbd_cmd_handle (nbd_handle_to_tag handle) cmd) n"
    using n c by (auto simp: nbd_cmd_handle_def nbd_handle_to_tag_def NBD_COOKIE_BITS_def bit_simps not_le)
qed

lemma reply_fits_expected:
  "reply_finds h (nbd_handle_to_tag handle) nbd \<Longrightarrow> reply_fits index handle (cmds nbd (nbd_handle_to_tag handle)) \<Longrightarrow>
     reply_expected index handle (nbd_handle_to_tag handle) nbd"
  using handle_parts by (simp add: reply_finds_def reply_fits_def reply_expected_def)

lemma reply_data_result: "reply_data index t nbd = Some (res, nbd') \<Longrightarrow> res = Inr t \<or> res = Inl (- EIO)"
  by (auto simp: reply_data_def Let_def split: if_splits)

lemma nbd_handle_reply_cases:
  assumes "nbd_handle_reply h index reply nbd = Some (res, nbd')"
  shows "res = Inl (- ENOENT) \<and> nbd' = nbd \<or>
    (\<exists>t. reply_expected index (reply_handle reply) t nbd \<and> (res = Inr t \<or> res = Inl (- EIO)))"
proof (cases "reply_finds h (nbd_handle_to_tag (reply_handle reply)) nbd \<and>
    reply_fits index (reply_handle reply) (cmds nbd (nbd_handle_to_tag (reply_handle reply)))")
  case True
  then have "reply_expected index (reply_handle reply) (nbd_handle_to_tag (reply_handle reply)) nbd"
    by (auto intro: reply_fits_expected)
  moreover have "res = Inr (nbd_handle_to_tag (reply_handle reply)) \<or> res = Inl (- EIO)"
    using assms True by (auto simp: nbd_handle_reply_def Let_def dest: reply_data_result split: if_splits)
  ultimately show ?thesis by blast
next
  case False
  then show ?thesis using assms by (auto simp: nbd_handle_reply_def Let_def split: if_splits)
qed

section \<open>The reply to a read\<close>

lemma stream_reply:
  assumes "arriving (rx_results sk)" "stream (rx_results sk) = be_bytes 4 m @ be_bytes 4 e @ le_bytes 8 hnd @ rest"
  obtains r rs' where "sock_xmit_recv sk 16 = Some (r, sk\<lparr>rx_results := rs'\<rparr>, be_bytes 4 m @ be_bytes 4 e @ le_bytes 8 hnd)" "0 \<le> r"
    "arriving rs'" "stream rs' = rest"
proof -
  have "16 \<le> length (stream (rx_results sk))" using assms(2) by simp
  then obtain r rs' where "sock_xmit_recv sk 16 = Some (r, sk\<lparr>rx_results := rs'\<rparr>, take 16 (stream (rx_results sk)))" "0 \<le> r"
    "arriving rs'" "stream rs' = drop 16 (stream (rx_results sk))"
    using sock_xmit_recv_stream [OF assms(1), of 16] by auto
  then show thesis using that assms(2) by simp
qed

text \<open>
  The request as it is when its reply comes, and what the socket has to deliver.
\<close>

lemma read_reply_stream:
  assumes "config nbd = Some c" "i < num_connections c" "arriving (rx_results (sock (socks c ! i)))"
    and "stream (rx_results (sock (socks c ! i))) = be_bytes 4 NBD_REPLY_MAGIC @ be_bytes 4 e @ le_bytes 8 hnd @ rest"
  obtains rs' where
    "nbd_read_reply i nbd = Some (0, \<lparr>reply_magic = NBD_REPLY_MAGIC, reply_error = e, reply_handle = hnd\<rparr>,
       put_sock i ((sock (socks c ! i))\<lparr>rx_results := rs'\<rparr>) nbd)"
    "arriving rs'" "stream rs' = rest"
proof -
  obtain r rs' where x: "sock_xmit_recv (sock (socks c ! i)) 16 =
      Some (r, (sock (socks c ! i))\<lparr>rx_results := rs'\<rparr>, be_bytes 4 NBD_REPLY_MAGIC @ be_bytes 4 e @ le_bytes 8 hnd)"
    "0 \<le> r" "arriving rs'" "stream rs' = rest"
    by (rule stream_reply [OF assms(3,4)])
  show thesis
    by (rule that [of rs']) (use x assms(1,2) in \<open>simp_all add: nbd_read_reply_def reply_of_bytes Let_def\<close>)
qed

lemma reply_to_read:
  assumes "config nbd = Some c" "i < num_connections c" "hw t < nr_hw_queues nbd"
    and "tags nbd t = Some req" "\<not> rq_writes (rq_op req)" "[] \<notin> set (rq_segments req)"
    and "reply_expected i (nbd_cmd_handle t (cmds nbd t)) t nbd"
    and "arriving (rx_results (sock (socks c ! i)))" "map length ds = map length (rq_segments req)"
    and "stream (rx_results (sock (socks c ! i))) =
      be_bytes 4 NBD_REPLY_MAGIC @ be_bytes 4 (0 :: u32) @ le_bytes 8 (nbd_cmd_handle t (cmds nbd t)) @ concat ds @ rest"
  shows "\<exists>nbd'. recv_reply hw True i nbd = Some (Some t, nbd') \<and> tags nbd' t = Some (req\<lparr>rq_segments := ds\<rparr>) \<and>
    cmds nbd' = cmds nbd \<and> events nbd' = events nbd \<and> stream (rx_results (sock (socks (cfg nbd') ! i))) = rest"
proof -
  let ?h = "nbd_cmd_handle t (cmds nbd t)"
  let ?reply = "\<lparr>reply_magic = NBD_REPLY_MAGIC, reply_error = 0, reply_handle = ?h\<rparr>"
  let ?sk = "sock (socks c ! i)"
  obtain rs where r: "nbd_read_reply i nbd = Some (0, ?reply, put_sock i (?sk\<lparr>rx_results := rs\<rparr>) nbd)"
    "arriving rs" "stream rs = concat ds @ rest"
    by (rule read_reply_stream [OF assms(1,2,8,10)])
  let ?m = "put_sock i (?sk\<lparr>rx_results := rs\<rparr>) nbd"
  have m: "tags ?m = tags nbd" "cmds ?m = cmds nbd" "nr_hw_queues ?m = nr_hw_queues nbd" "events ?m = events nbd"
    by (simp_all add: put_sock_def with_config_def)
  have sk: "sock (socks (cfg ?m) ! i) = ?sk\<lparr>rx_results := rs\<rparr>" using assms(1,2) by (simp add: socks_with_sock)
  obtain q rs' where q: "recv_segments (?sk\<lparr>rx_results := rs\<rparr>) (rq_segments req) = Some (q, ?sk\<lparr>rx_results := rs'\<rparr>, ds)" "0 \<le> q"
    "stream rs' = rest"
    using recv_segments_stream [of "?sk\<lparr>rx_results := rs\<rparr>" ds rest "rq_segments req"] r assms(6,9) by auto
  let ?n = "set_segments t ds (put_sock i (?sk\<lparr>rx_results := rs'\<rparr>) ?m)"
  have d: "reply_data i t ?m = Some (Inr t, ?n)" using q(1,2) assms(4) m(1) sk by (simp add: reply_data_def Let_def)
  have e: "reply_finds hw t ?m" "reply_fits i ?h (cmds nbd t)"
    using assms(3,4,7) m by (simp_all add: reply_finds_def reply_fits_def reply_expected_def started_def)
  have "nbd_handle_reply hw i ?reply ?m = Some (Inr t, ?n)"
    using d e assms(4,5) m by (simp add: nbd_handle_reply_def)
  then have "recv_reply hw True i nbd = Some (Some t, ?n)" using r(1) by (simp add: recv_reply_def)
  moreover have "tags ?n t = Some (req\<lparr>rq_segments := ds\<rparr>)" "cmds ?n = cmds nbd" "events ?n = events nbd"
    "stream (rx_results (sock (socks (cfg ?n) ! i))) = rest"
    using assms(1,2,4) q(3) m by (simp_all add: set_segments_def put_sock_def with_config_def socks_with_sock)
  ultimately show ?thesis by blast
qed

end
