(* ===== verification/Nbd_Samples.thy ===== *)
theory Nbd_Samples
  imports Nbd_Replies
begin

text \<open>
  Concrete devices for the examples: a disk with one socket that serves a read, and one with
  two sockets.
\<close>

definition sample_kernel :: kernel where
  "sample_kernel = \<lparr>hwq_of = (\<lambda>_. 0), bad_block_size = (\<lambda>b. b = 3), HZ = 100, allocates = (\<lambda>_. True),
     create_file = 0, current = 7, alloc_config_error = 0\<rparr>"

definition sample_read :: request where
  "sample_read = \<lparr>rq_op = REQ_OP_READ, rq_pos = 1, rq_bytes = 4, rq_fua = False, rq_segments = [[0, 0], [0, 0]],
     rq_state = MQ_RQ_IDLE\<rparr>"

definition sample_write :: request where
  "sample_write = \<lparr>rq_op = REQ_OP_WRITE, rq_pos = 1, rq_bytes = 4, rq_fua = False, rq_segments = [[1, 2], [3, 4]],
     rq_state = MQ_RQ_IDLE\<rparr>"

definition sample_cmd :: nbd_cmd where
  "sample_cmd = \<lparr>cmd_index = 0, cookie = 0, retries = 0, status = 0, requeued = False, inflight = False, cmd_cookie = 0\<rparr>"

text \<open>The reply to the first transmission of the request with tag 0.\<close>

definition sample_reply :: "u8 list" where
  "sample_reply = [0x67, 0x44, 0x66, 0x98, 0, 0, 0, 0, 0, 0, 0, 0, 1, 0, 0, 0]"

definition sample_socket :: "int list \<Rightarrow> (int + u8 list) list \<Rightarrow> socket" where
  "sample_socket tx rx = \<lparr>tx_results = tx, rx_results = rx, wire = [], shut = False\<rparr>"

definition sample_ops :: "nbd_op list" where
  "sample_ops = [Open, Ioctl True True (SET_SIZE 4096),
     Ioctl True True (SET_SOCK (Inr (sample_socket [20, 8] [Inr (take 5 sample_reply), Inr (drop 5 sample_reply @ [9, 8, 7]), Inr [6]]))),
     Ioctl True True DO_IT, Block_layer 0 (Some sample_read), Dispatch 0 0]"

definition sample_device :: nbd_device where
  "sample_device = the (nbd_run sample_kernel sample_ops (new_device [0] 0 1))"

lemma sample_run: "nbd_run sample_kernel sample_ops (new_device [0] 0 1) \<noteq> None"
  by code_simp

lemma sample_device_reach: "nbd_reach sample_device"
  using nbd_run_reach [of sample_kernel sample_ops "new_device [0] 0 1" sample_device] sample_run nbd_reach.added [of "[0]" 0]
  by (auto simp: sample_device_def)

lemma sample_device_values:
  "map_option (\<lambda>c. live_connections c = 1 \<and> dead (socks c ! 0) = False \<and> wire (sock (socks c ! 0)) = nbd_request_header 0 sample_read (cmds sample_device 0)) (config sample_device) = Some True"
  "events sample_device = [Set_disk_ro False, Write_cache False False, Set_capacity 8, Start 0, Payload_sent 0]"
  by code_simp+

end
