(* ===== verification/Nbd_Driver.thy ===== *)
theory Nbd_Driver
  imports Nbd_Samples
begin

text \<open>
  The properties of the network block device: what sending and receiving do to a request, the
  socket that is fallen back to, and what holds of every device that can be reached.
\<close>

section \<open>Sending\<close>

text \<open>
  C14: however the network splits a transmission and however often it is
  interrupted, so that the block layer dispatches the request again and \<open>nbd_send_cmd\<close> goes on
  where it stopped, a request that is sent in the end has put its message on the wire exactly
  once, in one piece, with the header of its last handle, and nothing is left pending.
\<close>

theorem nbd_request_sent_once:
  assumes "send_attempts k fl tag req index cmd nsock = Some (0, cmd', nsock')"
    and "[] \<notin> set (rq_segments req)" "pending nsock = None" "sent nsock = 0"
  shows "wire (sock nsock') = wire (sock nsock) @ nbd_message tag req cmd' \<and> pending nsock' = None \<and> sent nsock' = 0"
proof -
  have "partially_sent (wire (sock nsock)) tag req cmd nsock"
    using assms(4) by (simp add: partially_sent_def)
  from send_attempts [OF assms(1,2) this] assms(3,4) show ?thesis by (simp add: fully_sent_def)
qed

theorem nbd_request_sent_once_witness:
  "\<exists>cmd' nsock'. send_attempts 4 0 3 sample_write 0 sample_cmd (new_sock (sample_socket [- 4, 10, - 4, 18, 1, - 512, 1, 2] [])) = Some (0, cmd', nsock') \<and>
     wire (sock nsock') = nbd_message 3 sample_write cmd' \<and> pending nsock' = None \<and> sent nsock' = 0"
proof -
  let ?s = "new_sock (sample_socket [- 4, 10, - 4, 18, 1, - 512, 1, 2] [])"
  let ?r = "send_attempts 4 0 3 sample_write 0 sample_cmd ?s"
  have "map_option fst ?r = Some 0" by code_simp
  then obtain c n where r: "?r = Some (0, c, n)" by auto
  have "wire (sock n) = wire (sock ?s) @ nbd_message 3 sample_write c \<and> pending n = None \<and> sent n = 0"
    by (rule nbd_request_sent_once [OF r]) (simp_all add: sample_write_def new_sock_def)
  then show ?thesis using r by (simp add: new_sock_def sample_socket_def)
qed

text \<open>
  C15: on a network that takes some bytes or interrupts at each call, and
  takes bytes often enough, a request that may be sent is sent after finitely many dispatches,
  at most one more than there are answers of the network.
\<close>

theorem nbd_request_is_sent:
  assumes "\<not> shut (sock nsock)" "\<forall>r\<in>set (tx_results (sock nsock)). 0 < r \<or> was_interrupted r"
    and "length (nbd_message tag req cmd) \<le> length (filter (\<lambda>r. 0 < r) (tx_results (sock nsock)))"
    and "req_to_nbd_cmd_type (rq_op req) \<noteq> - 1" "rq_writes (rq_op req) \<longrightarrow> fl AND NBD_FLAG_READ_ONLY = 0"
    and "[] \<notin> set (rq_segments req)" "pending nsock = None" "sent nsock = 0"
  shows "\<exists>cmd' nsock'. send_attempts (Suc (length (tx_results (sock nsock)))) fl tag req index cmd nsock = Some (0, cmd', nsock')"
proof (rule send_attempts_return)
  show "enough_answers tag req cmd nsock"
    using assms by (simp add: enough_answers_def good_answers_def positives_def)
  show "partially_sent (wire (sock nsock)) tag req cmd nsock"
    using assms(8) by (simp add: partially_sent_def)
qed (use assms in \<open>simp_all add: sends_allowed_def\<close>)

theorem nbd_request_is_sent_witness:
  "\<exists>cmd' nsock'. send_attempts 36 0 3 sample_write 0 sample_cmd (new_sock (sample_socket (- 4 # - 512 # - 4 # replicate 32 1) [])) = Some (0, cmd', nsock')"
proof -
  let ?s = "new_sock (sample_socket (- 4 # - 512 # - 4 # replicate 32 1) [])"
  have "\<exists>cmd' nsock'. send_attempts (Suc (length (tx_results (sock ?s)))) 0 3 sample_write 0 sample_cmd ?s = Some (0, cmd', nsock')"
    by (rule nbd_request_is_sent)
      (auto simp: new_sock_def sample_socket_def was_interrupted_def sample_write_def length_message filter_replicate
        NBD_CMD_WRITE_def)
  then show ?thesis by (simp add: new_sock_def sample_socket_def)
qed

section \<open>Replies\<close>

text \<open>
  C16: \<open>nbd_handle_reply\<close> takes a reply only when its handle is that of
  the last transmission of a request, sent on this socket, in flight, not requeued and without
  an error so far; every other reply (of an earlier transmission, of a request that is done, or
  with a handle that was never sent) is refused and changes nothing.
\<close>

theorem nbd_reply_accepted_once:
  assumes "nbd_handle_reply hw index reply nbd = Some (res, nbd')"
  shows "res = Inl (- ENOENT) \<and> nbd' = nbd \<or>
    (\<exists>t. reply_handle reply = nbd_cmd_handle t (cmds nbd t) \<and> started t nbd \<and> inflight (cmds nbd t) \<and>
       \<not> requeued (cmds nbd t) \<and> cmd_index (cmds nbd t) = index \<and> status (cmds nbd t) = BLK_STS_OK \<and>
       (res = Inr t \<or> res = Inl (- EIO)))"
  using nbd_handle_reply_cases [OF assms] unfolding reply_expected_def by blast

theorem nbd_reply_accepted_once_witness:
  "\<exists>nbd'. nbd_handle_reply (\<lambda>_. 0) 0 \<lparr>reply_magic = NBD_REPLY_MAGIC, reply_error = 0, reply_handle = 0x200000000\<rparr> sample_device
     = Some (Inl (- ENOENT), nbd') \<and> nbd' = sample_device"
proof -
  let ?r = "nbd_handle_reply (\<lambda>_. 0) 0 \<lparr>reply_magic = NBD_REPLY_MAGIC, reply_error = 0, reply_handle = 0x200000000\<rparr> sample_device"
  have "map_option fst ?r = Some (Inl (- ENOENT))" by code_simp
  then obtain n where r: "?r = Some (Inl (- ENOENT), n)" by auto
  from nbd_reply_accepted_once [OF r] have "n = sample_device" by auto
  then show ?thesis using r by simp
qed

text \<open>
  C17: when the server answers a read with the bytes of a reply (its
  handle copied from the request) and the data, the receive work reads both however they arrive,
  puts the data in the segments of the request, and completes it with the status OK; what the
  server sends next is left in the socket.
\<close>

theorem nbd_read_gets_its_data:
  assumes "config nbd = Some c" "i < num_connections c" "hw t < nr_hw_queues nbd"
    and "tags nbd t = Some req" "\<not> rq_writes (rq_op req)" "[] \<notin> set (rq_segments req)"
    and "started t nbd" "inflight (cmds nbd t)" "\<not> requeued (cmds nbd t)" "cmd_index (cmds nbd t) = i"
    and "status (cmds nbd t) = BLK_STS_OK"
    and "\<forall>r\<in>set (rx_results (sock (socks c ! i))). \<exists>bs. r = Inr bs \<and> bs \<noteq> []"
    and "stream (rx_results (sock (socks c ! i))) =
      be_bytes 4 NBD_REPLY_MAGIC @ be_bytes 4 (0 :: u32) @ le_bytes 8 (nbd_cmd_handle t (cmds nbd t)) @ concat ds @ rest"
    and "map length ds = map length (rq_segments req)"
  shows "\<exists>nbd1 nbd2. recv_reply hw True i nbd = Some (Some t, nbd1) \<and> nbd2 = recv_complete False t nbd1 \<and>
    tags nbd2 t = Some (req\<lparr>rq_segments := ds, rq_state := MQ_RQ_COMPLETE\<rparr>) \<and> \<not> inflight (cmds nbd2 t) \<and>
    events nbd2 = events nbd @ [Complete t BLK_STS_OK] \<and> stream (rx_results (sock (socks (cfg nbd2) ! i))) = rest"
proof -
  have e: "reply_expected i (nbd_cmd_handle t (cmds nbd t)) t nbd" using assms(7-11) by (simp add: reply_expected_def)
  have a: "arriving (rx_results (sock (socks c ! i)))" using assms(12) by (simp add: arriving_def)
  obtain n where n: "recv_reply hw True i nbd = Some (Some t, n)" "tags n t = Some (req\<lparr>rq_segments := ds\<rparr>)"
    "cmds n = cmds nbd" "events n = events nbd" "stream (rx_results (sock (socks (cfg n) ! i))) = rest"
    using reply_to_read [where hw = hw and nbd = nbd and c = c and i = i and t = t and req = req and ds = ds and rest = rest,
        OF assms(1-6) e a assms(14,13)] by blast
  have "tags (recv_complete False t n) t = Some (req\<lparr>rq_segments := ds, rq_state := MQ_RQ_COMPLETE\<rparr>)"
    "\<not> inflight (cmds (recv_complete False t n) t)" "events (recv_complete False t n) = events nbd @ [Complete t BLK_STS_OK]"
    using n(2-4) assms(8,11) by (simp_all add: recv_complete_def blk_mq_complete_request_def nbd_complete_rq_def
        emit_def set_rq_state_def with_cmd_def)
  then show ?thesis using n(1,5) by auto
qed

theorem nbd_read_gets_its_data_witness:
  "\<exists>nbd1 nbd2. recv_reply (\<lambda>_. 0) True 0 sample_device = Some (Some 0, nbd1) \<and> nbd2 = recv_complete False 0 nbd1 \<and>
    tags nbd2 0 = Some (sample_read\<lparr>rq_segments := [[9, 8], [7, 6]], rq_state := MQ_RQ_COMPLETE\<rparr>) \<and> \<not> inflight (cmds nbd2 0) \<and>
    events nbd2 = events sample_device @ [Complete 0 BLK_STS_OK] \<and> stream (rx_results (sock (socks (cfg nbd2) ! 0))) = []"
proof -
  have c: "config sample_device = Some (cfg sample_device)" by code_simp
  let ?q = "sample_read\<lparr>rq_state := MQ_RQ_IN_FLIGHT\<rparr>"
  have "\<exists>nbd1 nbd2. recv_reply (\<lambda>_. 0) True 0 sample_device = Some (Some 0, nbd1) \<and> nbd2 = recv_complete False 0 nbd1 \<and>
    tags nbd2 0 = Some (?q\<lparr>rq_segments := [[9, 8], [7, 6]], rq_state := MQ_RQ_COMPLETE\<rparr>) \<and> \<not> inflight (cmds nbd2 0) \<and>
    events nbd2 = events sample_device @ [Complete 0 BLK_STS_OK] \<and> stream (rx_results (sock (socks (cfg nbd2) ! 0))) = []"
  proof (rule nbd_read_gets_its_data [where nbd = sample_device and i = 0 and t = 0 and c = "cfg sample_device" and req = ?q
        and hw = "\<lambda>_. 0" and ds = "[[9, 8], [7, 6]]" and rest = "[]"])
    have "rx_results (sock (socks (cfg sample_device) ! 0)) = [Inr (take 5 sample_reply), Inr (drop 5 sample_reply @ [9, 8, 7]), Inr [6]]"
      by code_simp
    then show "\<forall>r\<in>set (rx_results (sock (socks (cfg sample_device) ! 0))). \<exists>bs. r = Inr bs \<and> bs \<noteq> []"
      by (simp add: sample_reply_def)
    show "config sample_device = Some (cfg sample_device)" by (rule c)
  qed code_simp+
  then show ?thesis by simp
qed

section \<open>Falling back\<close>

text \<open>
  C19: for a dead socket of a configuration, \<open>find_fallback\<close> returns another
  socket that is alive, and -1 exactly when the device is disconnected or no socket is alive.
\<close>

theorem find_fallback_finds:
  assumes "find_fallback index c = (j, c')" "index < num_connections c" "dead (socks c ! index)"
  shows "(0 \<le> j \<longrightarrow> j \<noteq> int index \<and> j < int (num_connections c) \<and> \<not> dead (socks c' ! nat j)) \<and>
    (j < 0 \<longleftrightarrow> NBD_RT_DISCONNECTED \<in> runtime_flags c \<or> (\<forall>i<num_connections c. dead (socks c ! i)))"
proof (rule conjI)
  show "0 \<le> j \<longrightarrow> j \<noteq> int index \<and> j < int (num_connections c) \<and> \<not> dead (socks c' ! nat j)"
    using find_fallback_alive [OF assms(1)] assms(3) find_fallback_keeps(2) [OF assms(1)] by (auto simp: sock_alive_def)
  show "j < 0 \<longleftrightarrow> NBD_RT_DISCONNECTED \<in> runtime_flags c \<or> (\<forall>i<num_connections c. dead (socks c ! i))"
    by (rule find_fallback_none [OF assms])
qed

theorem find_fallback_finds_witness:
  "find_fallback 0 (new_config\<lparr>socks := [(new_sock (sample_socket [] []))\<lparr>dead := True\<rparr>, new_sock (sample_socket [] [])]\<rparr>) =
     (1, new_config\<lparr>socks := [(new_sock (sample_socket [] []))\<lparr>dead := True, fallback_index := 1\<rparr>, new_sock (sample_socket [] [])]\<rparr>) \<and>
   1 \<noteq> int 0"
proof -
  let ?c = "new_config\<lparr>socks := [(new_sock (sample_socket [] []))\<lparr>dead := True\<rparr>, new_sock (sample_socket [] [])]\<rparr>"
  let ?d = "new_config\<lparr>socks := [(new_sock (sample_socket [] []))\<lparr>dead := True, fallback_index := 1\<rparr>, new_sock (sample_socket [] [])]\<rparr>"
  have f: "find_fallback 0 ?c = (1, ?d)"
    by (simp add: find_fallback_def live_other_def sock_alive_def new_config_def new_sock_def with_sock_def)
  have "1 \<noteq> int 0" using find_fallback_finds [OF f] by simp
  with f show ?thesis by simp
qed

section \<open>Devices that can be reached\<close>

text \<open>
  C18: in every reachable device the number of live connections is the
  number of sockets that are not dead; a socket remembers a request exactly when it has sent a
  part of it, and a dead one has been shut down and has nothing pending, so that a new socket in
  its place starts a new message.
\<close>

theorem nbd_sockets_counted:
  assumes "nbd_reach nbd" "config nbd = Some c"
  shows "live_connections c = int (length (filter (\<lambda>s. \<not> dead s) (socks c))) \<and>
    (\<forall>s\<in>set (socks c). (pending s = None \<longleftrightarrow> sent s = 0) \<and> (dead s \<longrightarrow> pending s = None \<and> shut (sock s)))"
  using nbd_reach_ok [OF assms(1)] assms(2)
  by (auto simp: dev_ok_def dev_inv_def config_inv_def config_ok_def sock_ok_def alive_def)

theorem nbd_sockets_counted_witness:
  "live_connections (cfg sample_device) = int (length (filter (\<lambda>s. \<not> dead s) (socks (cfg sample_device)))) \<and>
   length (socks (cfg sample_device)) = 1"
proof -
  have c: "config sample_device = Some (cfg sample_device)" by code_simp
  have "length (socks (cfg sample_device)) = 1" by code_simp
  then show ?thesis using nbd_sockets_counted [OF sample_device_reach c] by simp
qed



text \<open>
  C13: in every reachable device a request has been completed by the
  driver at most as often as it has been sent in full, and once less while it is in flight: a
  transmission completes its request at most once, whether by its reply, by a timeout or by an
  abort of the queue.
\<close>

theorem nbd_completed_at_most_once:
  assumes "nbd_reach nbd"
  shows "length (filter (\<lambda>e. \<exists>st. e = Complete t st) (events nbd)) + (if inflight (cmds nbd t) then 1 else 0)
    \<le> length (filter (\<lambda>e. e = Payload_sent t) (events nbd))"
  using nbd_reach_ok [OF assms] by (auto simp: balance_def dest: spec [of _ t] split: if_splits)

theorem nbd_completed_at_most_once_witness:
  "inflight (cmds sample_device 0) \<and> length (filter (\<lambda>e. e = Payload_sent 0) (events sample_device)) = 1 \<and>
   length (filter (\<lambda>e. \<exists>st. e = Complete 0 st) (events sample_device)) + 1 \<le> 1"
proof -
  have "inflight (cmds sample_device 0) \<and> length (filter (\<lambda>e. e = Payload_sent 0) (events sample_device)) = 1"
    unfolding sample_device_values(2) by (rule conjI) code_simp+
  then show ?thesis using nbd_completed_at_most_once [OF sample_device_reach, of 0] by simp
qed

end
