(* ===== verification/Nbd_Races.thy ===== *)
theory Nbd_Races
  imports Nbd_Samples
begin

text \<open>
  Runs of the driver that show where it does not do what it means to: a timeout between the
  parts of a receive work, a transmission that is left unfinished on a fallback, and opening a
  device without memory.
\<close>

section \<open>A timeout while a reply is handled\<close>

text \<open>
  The reply has been handled and the request not yet completed when its timeout requeues it; as
  \<open>nbd_requeue_cmd\<close> leaves the command in flight, the receive work completes a request that the
  block layer has on its list of requests to dispatch again.
\<close>

definition race_ops :: "nbd_op list" where
  "race_ops = [Open, Ioctl True True (SET_TIMEOUT 1),
     Ioctl True True (SET_SOCK (Inr (sample_socket [28] [Inr (sample_reply @ [9, 8, 7, 6])]))),
     Ioctl True True DO_IT, Block_layer 0 (Some sample_read), Dispatch 0 0,
     Recv_reply True 0, Timeout False 0, Recv_complete False 0]"

lemma requeued_request_completed:
  "map_option (\<lambda>nbd. drop 3 (events nbd)) (nbd_run sample_kernel race_ops (new_device [0] 0 1)) =
     Some [Start 0, Payload_sent 0, Link_dead 0, Requeue 0, Complete 0 BLK_STS_OK]"
  by code_simp

section \<open>A transmission left on a fallback\<close>

text \<open>
  The first socket fails, so that the write of tag 0 goes to the second one, which takes ten
  bytes and is interrupted; then the first socket comes back and the write is dispatched to it.
  The second socket keeps waiting for tag 0, which has been sent, and no other request passes.
\<close>

definition two_sockets :: genl_attrs where
  "two_sockets = \<lparr>attr_index = Some 0, attr_size = Some 4096, attr_block_size = None, attr_timeout = None,
     attr_dead_conn_timeout = None, attr_server_flags = Some (ucast NBD_FLAG_CAN_MULTI_CONN), attr_client_flags = None,
     attr_sockets = Some [Fd (Inr (sample_socket [- 32] [])), Fd (Inr (sample_socket [10, - 4, 100] []))],
     attr_backend = None\<rparr>"

definition first_again :: genl_attrs where
  "first_again = two_sockets\<lparr>attr_sockets := Some [Fd (Inr (sample_socket [28, 2, 2] []))]\<rparr>"

definition partial_ops :: "nbd_op list" where
  "partial_ops = [Connect two_sockets, Block_layer 0 (Some sample_write), Block_layer 1 (Some sample_read),
     Dispatch 0 0, Dispatch 0 0, Reconfigure first_again, Dispatch 0 0, Dispatch 1 1, Dispatch 1 1]"

lemma partial_send_left_behind:
  "map_option (\<lambda>nbd. (pending (socks (cfg nbd) ! 1), sent (socks (cfg nbd) ! 1), length (wire (sock (socks (cfg nbd) ! 0))),
      drop 3 (events nbd))) (nbd_run sample_kernel partial_ops (new_device [0, 1] 0 1)) =
   Some (Some 0, 10, 32, [Start 0, Link_dead 0, Requeue 0, Start 0, Wake_up, Start 0, Payload_sent 0,
     Start 1, Requeue 1, Start 1, Requeue 1])"
  by code_simp

section \<open>Opening without memory\<close>

text \<open>The reference that \<open>nbd_open\<close> has taken is not put when there is no memory for the configuration.\<close>

lemma failed_open_keeps_reference:
  assumes "refs nbd \<noteq> 0" "config_refs nbd = 0" "alloc_config_error k < 0"
  shows "nbd_open k nbd = (alloc_config_error k, nbd\<lparr>refs := refs nbd + 1\<rparr>)"
  using assms by (simp add: nbd_open_def nbd_alloc_config_def Let_def)

end
