(* ===== verification/Spec2Isabelle.thy ===== *)
theory Spec2Isabelle
  imports Bit_Codes Field_Codes Gf_Bytwo Reed_Sol_R6 Liberation_Correct Nbd_Driver Nbd_Races
begin

text \<open>
  Verification of the storage data path of deliba, for a reader who has the repository and
  this directory.  Two programs of the repository are modelled.

  (1) The erasure-coding stack of deliba2 (src/src/deliba2/host): the Galois-field library
  gf-complete and, on top of it, the erasure codes of jerasure.  An application makes a coding
  matrix (cauchy.c or reed_sol.c) or a bit matrix (cauchy.c or liberation.c), encodes k data
  devices into m coding devices (jerasure.c), and after losing devices decodes them
  (jerasure.c).  jerasure.c reaches the field through galois.c, which keeps a table of fields,
  one for each word size, and fills it by \<open>gf_init_easy\<close> of gf.c; gf.c dispatches to
  gf_wgen.c, gf_w8.c, gf_w16.c or gf_w32.c.

  (2) The network block device driver of deliba1 (src/src/deliba1/host/nbd/nbd.c and nbd.h),
  which turns the requests of the block layer into messages to a storage server, over one or
  more sockets, and completes them by the replies.  It stands by itself.

  Conventions.  A definition has the name of the function or type it translates; parts of a
  function (a loop body, a branch) have names of their own and are composed the way the
  function composes them.  32-bit and smaller integers of the source are words of their width;
  counters and indices that the code keeps far below their range are nat or int.  A C function
  that can fail an assertion, leave an array or buffer, divide by zero, use memory that was
  never written, or run forever returns an option, and None is that case; so a theorem that
  says \<open>= Some\<close> includes that nothing of this happens.  Error codes and return values of the
  source are values of the result.  Arrays updated in place are lists that are returned
  updated; loops are folds (\<open>fold\<close>, \<open>ofold\<close> with a body that can fail), and functions with a
  termination proof, or \<open>partial_function (option)\<close>, where they are not counting loops.

  The theories of the erasure codes.
  Prelude: the integer types, exclusive-or sums, folds over option, updates of arrays.
  Gf_Poly, Gf_Field: the reference arithmetic, polynomials over the two-element field modulo
  the polynomial of the field, and when it is a field.
  Gf_Types: gf_complete.h and gf_int.h (techniques, region options, \<open>gf_internal\<close>, \<open>gf_t\<close>).
  Gf_Bitmatrix: \<open>gf_bitmatrix_inverse\<close> of gf.c.
  Gf_Wgen, Gf_Wgen_Mult, Gf_Wgen_Tables: gf_wgen.c, and that each technique, from shifting to
  logarithm tables and Euclid's inversion, computes in the field.
  Gf_Words: gf_w8.c, gf_w16.c and gf_w32.c, as far as a default initialisation uses them.
  Gf_Core: the argument checks and the two initialisations of gf.c.
  Gf_Correct: an initialised field computes in its field (\<open>gf_correct\<close>); the locale
  \<open>gf_arith\<close>, interpreted on it, is what the matrix routines rely on.
  Gf_Region, Gf_Region_Correct, Gf_Region_Mult, Gf_Region_Tables, Gf_Bytwo: the region
  operations of gf.c and of the three fields, on lists of bytes at an offset; they multiply
  word by word, also when they work on several elements in a word of 64 bits, and the part they
  do by wide words is aligned (\<open>aligned_part\<close>).
  Gf_LinAlg: linear algebra over \<open>gf_arith\<close>; regular matrices.
  Galois: galois.c, the table of fields (record \<open>galois\<close>); a slot keeps its field
  (\<open>field_serves\<close>).
  Jer_Matrix, Jer_Invert, Jer_Decode, Jer_Bits: the matrix routines of jerasure.c; inversion,
  decoding matrices and bit matrices are correct.
  Jer_Devices: the region operations of jerasure.c and galois.c on devices (record \<open>jstate\<close>),
  dot products, encoding, decoding.
  Jer_Coding, Jer_Roundtrip: encoding and decoding restore the lost devices, over the locale
  \<open>region_field\<close>, interpreted on the default fields.
  Cauchy, Cauchy_Tables, Cauchy_Ones: cauchy.c with its static arrays (record
  \<open>cauchy_state\<close>) and tables.
  Jer_Mds: codes whose coding matrix has regular square submatrices survive the loss of any
  m devices, and Cauchy matrices are such.
  Reed_Sol, Vandermonde, Reed_Sol_Correct: the matrices of reed_sol.c; the column operations on
  a Vandermonde matrix keep any k of its rows regular.
  Reed_Sol_R6: the RAID-6 encoder of reed_sol.c, with its static fields, and its code.
  Jer_Bitmatrix, Jer_Bit_Invert, Jer_Packets, Jer_Bitcode, Jer_Bit_Mds: the bit-matrix
  routines of jerasure.c, on devices that are cut into packets.
  Jer_Schedule, Jer_Sched_Exec, Jer_Smart, Jer_Sched_Ids, Jer_Sched_Decode,
  Jer_Sched_Correct: the schedules of jerasure.c, which are lists of copy and exclusive-or
  operations; they compute the same as the bit matrix they are made from.
  Liberation, Cyclic, Liberation_Correct: the bit matrices of liberation.c; no block and no
  difference of two blocks maps other bits than zero to zero (cyclic shifts by a prime, and
  elimination for the eight blocks of the liber8tion code), so any two devices may be lost.
  Samples: concrete inputs.  Bit_Codes, Field_Codes and this theory: the properties.

  The theories of the network block device.
  Nbd_Types: the records of nbd.c (requests, commands, sockets, configurations, devices).
  Nbd_Send, Nbd_Recv, Nbd_Device, Nbd_Queue: sending with partial transmissions, replies and
  the receive works, completion, timeouts, dead sockets and references, dispatching with
  fallbacks.
  Nbd_Setup, Nbd_Netlink: sockets, ioctls, opening, releasing; the netlink commands, the table
  of devices, loading and unloading the module.
  Nbd_Inv, Nbd_Refs: the invariant \<open>dev_ok\<close> of a device: its sockets, the references to the
  configuration and the device, and the balance of sent and completed requests.
  Nbd_Keep, Nbd_Keep_Setup, Nbd_Keep_Netlink: every operation keeps it.
  Nbd_Steps: a device as a state machine, \<open>nbd_reach\<close> its reachable states.
  Nbd_Replies: replies reach their request, however they are delivered.
  Nbd_Samples, Nbd_Races, Nbd_Driver: concrete runs, runs that show races, the properties.

  In the driver a request is named by its unique tag.  What the network answers (how many
  bytes each call takes, which bytes arrive, which errors) is a list in the socket, and a call
  that finds the list empty is one that does not return yet.  The block layer is the state of a
  request and a list of events; its operations have the effect of the functions of
  src/src/deliba3/host/block/blk-mq.c of the same names.  A function is an atomic step except
  where it gives up the lock of a command or waits: the receive work and the wait for a
  connection are split there, and other operations may come in between.  What the kernel
  answers to a system operation (allocations, looking up a socket, creating a file) is a
  parameter, record \<open>kernel\<close>; the small allocation of the message that a link is dead is taken
  to succeed.

  Bounds and fuel.  The transmission of a request by repeated dispatches (\<open>send_attempts\<close>)
  takes at most one more attempt than the network has answers, which the proof that a request
  is sent uses.  The receive loop and the handling of a command end because each round uses up
  an answer of the network, or a live socket.  Euclid's algorithm and the scheduler that reuses
  rows are proved to end for every input they are called with.

  Not modelled.  The fields of 4, 64 and 128 bits (gf_w4.c, gf_w64.c, gf_w128.c) and, in the
  other fields, techniques that must be asked for, composite fields and vector code: the
  initialisation yields \<open>Gf_unmodelled\<close> there.  Devices whose buffers overlap.  Printing,
  timing and the test, example and tool programs.  In the driver: the debug and sysfs files,
  the layout of netlink replies, trace points, memory flags and the freeze of a queue.  The
  rest of the repository: deliba3/host is a copy of subtrees of the Linux kernel and deliba1's
  ceph directory holds headers of the kernel's client, deliba2/fpga and deliba3/fpga hold
  hardware designs and vendor code with their host programs.
\<close>

section \<open>Erasure codes: the data path\<close>

text \<open>
  C1: for words of 8, 16 and 32 bits and at most 2^w devices,
  \<open>cauchy_good_general_coding_matrix\<close> makes a coding matrix, \<open>jerasure_matrix_encode\<close> leaves
  the data devices as they are, and after the loss of any m devices
  \<open>jerasure_matrix_decode\<close> returns 0 and every device has its contents back.
\<close>

theorem cauchy_code_survives:
  assumes "w \<in> {8, 16, 32}" "k + m \<le> 2 ^ w" "0 < k" "0 < m" "devices_ok k m w sz st"
  shows "\<exists>matrix cst' st1.
    cauchy_good_general_coding_matrix (galois_default w) k m w cst = Some (Some matrix, cst') \<and>
    jerasure_matrix_encode k m w matrix sz st = Some st1 \<and> take k (dev st1) = take k (dev st) \<and>
    (\<forall>st2 xs ys. devices_ok k m w sz st2 \<and> (\<forall>e\<in>set xs. e \<noteq> - 1 \<and> unat e < k + m) \<and> card (unat ` set xs) \<le> m \<and>
       (\<forall>d<k + m. d \<notin> unat ` set xs \<longrightarrow> dev st2 ! d = dev st1 ! d) \<longrightarrow>
       (\<exists>st3. jerasure_matrix_decode k m w matrix True (xs @ - 1 # ys) sz st2 = Some (0, st3) \<and> dev st3 = dev st1))"
proof -
  obtain matrix cst' where m: "cauchy_good_general_coding_matrix (galois_default w) k m w cst = Some (Some matrix, cst')"
    "matrix_ok k m w matrix" "square_regular (galois_default w) k m matrix" "\<forall>j<k. matrix ! j = 1"
    using good_general_ok [OF assms(1-4), of cst] by blast
  show ?thesis using m(1) square_regular_survives [OF m(2) assms(4) _ m(3) assms(5), of True] m(4) by blast
qed

theorem cauchy_code_survives_witness:
  "\<exists>matrix cst' st1.
    cauchy_good_general_coding_matrix (galois_default 16) 2 1 16 cauchy_start = Some (Some matrix, cst') \<and>
    jerasure_matrix_encode 2 1 16 matrix 4 devices3 = Some st1 \<and> take 2 (dev st1) = [[1, 2, 3, 4], [5, 6, 7, 8]]"
proof -
  have "take 2 (dev devices3) = [[1, 2, 3, 4], [5, 6, 7, 8]]" by (simp add: devices3_def)
  then show ?thesis
    using cauchy_code_survives [of 16 2 1 4 devices3 cauchy_start] devices3_ok [of 16] by fastforce
qed

text \<open>
  C10: \<open>jerasure_matrix_encode\<close> returns for every matrix of field
  elements without zero rows; each word of a coding device is then the product of its row
  of the matrix and the words of the data devices, which keep their contents.
\<close>

theorem matrix_encode_encodes:
  assumes "matrix_ok k m w matrix" "devices_ok k m w sz st"
  shows "\<exists>st'. jerasure_matrix_encode k m w matrix sz st = Some st' \<and> devices_ok k m w sz st' \<and>
    encoded (galois_default w) (w div 8) k m matrix sz (dev st') \<and> take k (dev st') = take k (dev st)"
  using assms by (rule encode_default)

theorem matrix_encode_encodes_witness:
  "\<exists>st'. jerasure_matrix_encode 2 1 8 [1, 7] 4 devices3 = Some st' \<and> devices_ok 2 1 8 4 st' \<and>
    encoded (galois_default 8) 1 2 1 [1, 7] 4 (dev st') \<and> take 2 (dev st') = take 2 (dev devices3)"
  using matrix_encode_encodes [OF matrix21_ok devices3_ok [of 8]] by simp

text \<open>
  C7: when the devices outside the list of erasures hold the words
  of an encoding, at most m are erased and the rows of the first k surviving devices are
  regular, \<open>jerasure_matrix_decode\<close> returns 0 and restores every device, with and without
  the parity row.
\<close>

theorem matrix_decode_restores:
  assumes "matrix_ok k m w matrix" "0 < m" "row_k_ones \<longrightarrow> (\<forall>j<k. matrix ! j = 1)"
    "encoded (galois_default w) (w div 8) k m matrix sz D" "devices_ok k m w sz st"
    "\<forall>e\<in>set xs. e \<noteq> - 1 \<and> unat e < k + m" "card (unat ` set xs) \<le> m"
    "\<forall>d<k + m. d \<notin> unat ` set xs \<longrightarrow> dev st ! d = D ! d"
    "recoverable (galois_default w) k m matrix (erased_flags (k + m) xs)"
  shows "\<exists>st'. jerasure_matrix_decode k m w matrix row_k_ones (xs @ - 1 # ys) sz st = Some (0, st') \<and> dev st' = D"
  using assms by (rule decode_default)

theorem matrix_decode_restores_witness:
  "\<exists>D st'. encoded (galois_default 8) 1 2 1 [1, 7] 4 D \<and>
     jerasure_matrix_decode 2 1 8 [1, 7] False ([] @ - 1 # []) 4 (devices3\<lparr>dev := D\<rparr>) = Some (0, st') \<and> dev st' = D"
proof -
  obtain st' where st': "devices_ok 2 1 8 4 st'" "encoded (galois_default 8) (8 div 8) 2 1 [1, 7] 4 (dev st')"
    using encode_default [OF matrix21_ok devices3_ok [of 8]] by auto
  have ok: "devices_ok 2 1 8 4 (devices3\<lparr>dev := dev st'\<rparr>)"
    using devices3_ok [of 8] st'(1) by (simp add: devices_ok_def jst_ok_def)
  have "dm_ids 2 1 [0, 0, 0] = [0, 1]" by (simp add: dm_ids_def upt_rec)
  then have "decoding_rows 2 [1, 7] (dm_ids 2 1 [0, 0, 0]) = [1, 0, 0, 1]" by (simp add: decoding_rows_def upt_rec numeral_eq_Suc)
  then have "recoverable (galois_default 8) 2 1 [1, 7] (erased_flags (2 + 1) [])"
    unfolding recoverable_def mat_regular_def
    by (auto simp: upt_rec mat_vec_def mf_def numeral_2_eq_2 less_Suc_eq gal8.mult_1 gal8.mult_0')
  then show ?thesis
    using matrix_decode_restores [OF matrix21_ok _ _ st'(2) ok, of False "[]" "[]"] st'(2) by auto
qed

text \<open>
  C37: \<open>jerasure_matrix_decode\<close> returns -1 and writes no device when
  more than m devices are named, and when a data device is lost, the parity row may not be
  used and the surviving rows are singular.
\<close>

theorem matrix_decode_refuses:
  assumes "matrix_ok k m w matrix" "jst_ok st" "\<forall>e\<in>set xs. e \<noteq> - 1 \<and> unat e < k + m"
    and "m < card (unat ` set xs) \<or>
      \<not> recoverable (galois_default w) k m matrix (erased_flags (k + m) xs) \<and>
      (\<exists>d<k. d \<in> unat ` set xs) \<and> \<not> row_k_ones"
  shows "\<exists>st'. jerasure_matrix_decode k m w matrix row_k_ones (xs @ - 1 # ys) sz st = Some (- 1, st') \<and> dev st' = dev st"
  using assms by (rule decode_refuses)

theorem matrix_decode_refuses_witness:
  "\<exists>st'. jerasure_matrix_decode 2 1 8 [1, 7] True ([0, 1] @ - 1 # []) 4 devices3 = Some (- 1, st') \<and>
     dev st' = dev devices3"
proof -
  have "1 < card (unat ` set [0, 1 :: u32])" by simp
  then show ?thesis
    using matrix_decode_refuses [OF matrix21_ok, of devices3 "[0, 1]"] devices3_ok [of 8] by (simp add: devices_ok_def)
qed

text \<open>
  C22: \<open>cauchy_original_coding_matrix\<close> makes a matrix of which every
  square submatrix is regular, so that the code survives the loss of any m devices.
\<close>

theorem cauchy_matrices_regular:
  assumes "w \<in> {8, 16, 32}" "k + m \<le> 2 ^ w" "0 < k"
  shows "\<exists>matrix. cauchy_original_coding_matrix (galois_default w) k m w = Some (Some matrix) \<and>
    matrix_ok k m w matrix \<and> square_regular (galois_default w) k m matrix"
  using assms by (rule original_ok)

theorem cauchy_matrices_regular_witness:
  "\<exists>matrix. cauchy_original_coding_matrix (galois_default 8) 3 2 8 = Some (Some matrix) \<and>
    matrix_ok 3 2 8 matrix \<and> square_regular (galois_default 8) 3 2 matrix"
  using cauchy_matrices_regular [of 8 3 2] by simp

text \<open>
  C36: \<open>cauchy_n_ones\<close>, which never builds a bit matrix, returns the
  number of ones of the bit matrix of the element, whether or not the tables for the word
  size had been filled before.
\<close>

theorem cauchy_ones_counted:
  assumes "gf_correct F" "w = h_w (scratch F)" "2 \<le> w" "felem F n" "cauchy_cache_ok F w st"
  shows "fst (cauchy_n_ones F n w st) =
      (\<Sum>x<w. int (card {l. l < w \<and> jerasure_matrix_to_bitmatrix F 1 1 w [n] ! (l * w + x) = 1})) \<and>
    cauchy_cache_ok F w (snd (cauchy_n_ones F n w st))"
  using correct_field.n_ones_bitmatrix [OF correct_field.intro [OF assms(1)] assms(2-5)]
    correct_field.n_ones [OF correct_field.intro [OF assms(1)] assms(2-5)] prepare_cache(4) [OF assms(5)] by simp

theorem cauchy_ones_counted_witness:
  "fst (cauchy_n_ones (galois_default 8) 7 8 cauchy_start) =
      (\<Sum>x<8. int (card {l. l < 8 \<and> jerasure_matrix_to_bitmatrix (galois_default 8) 1 1 8 [7] ! (l * 8 + x) = 1}))"
  using cauchy_ones_counted [OF default_8(2), of 8 7 cauchy_start]
  by (simp add: default_8 gf_elem_def cauchy_cache_ok_def cauchy_start_def)

text \<open>
  C34: the region function of each default field multiplies a
  region word by word, adds to the destination when asked to, and keeps the tables of the
  field of 32 bits in step with the value they belong to.  The regions may start at any multiple
  of the word: the function of the field of 16 bits, which works on 64-bit words, then multiplies
  the words before the first multiple of 8 and those after the last whole 64-bit word one by
  one (it asserts that both regions have the same offset from a multiple of 8), and multiplying by 1
  with addition works byte by byte up to an aligned address, also when the two regions have different
  offsets (fields of 8 and 32 bits).  The function of the field of 32 bits asserts offsets that are
  multiples of 4 and then has no words left over.  A region that does not start at a multiple of 8
  has at least 16 bytes: in a shorter one the first aligned address may be behind its end.  The part
  that \<open>gf_set_region_data\<close> leaves to the wide words starts and ends at aligned addresses in both
  regions, with less than a wide word on either side.
\<close>

theorem default_regions_multiply:
  assumes "w \<in> {8, 16, 32}" "lazy_ok field32 d8" "length s = length d" "w div 8 dvd length d"
    and "w div 8 dvd src" "w div 8 dvd dest" "w = 16 \<longrightarrow> src mod 8 = dest mod 8"
    and "8 dvd src \<and> 8 dvd dest \<or> 16 \<le> length d" "gf_elem w v"
  shows "(\<exists>d8'. gf_multiply_region (galois_default w) d8 src dest v xr s d =
      Some (d8', region_map (w div 8) (word_product (scratch (galois_default w)) v xr) s d) \<and> lazy_ok field32 d8') \<and>
    (\<forall>al\<in>{1, 2, 4, 8}. src mod al = dest mod al \<longrightarrow>
      (\<exists>rd. gf_set_region_data (Some w) src dest (length d) (int al) = Some rd \<and> aligned_part al src dest (length d) rd))"
proof -
  have fits: "region_fits src dest (length d)"
    using assms(8) by (simp only: region_fits_def dvd_eq_mod_eq_0)
  have "\<exists>rd. gf_set_region_data (Some w) src dest (length d) (int al) = Some rd \<and> aligned_part al src dest (length d) rd"
    if "al \<in> {1, 2, 4, 8}" "src mod al = dest mod al" for al
  proof (rule region_aligned_part [OF _ _ that(2) region_fits_start [OF fits that(1)], where wb = "w div 8"])
    show "src mod (w div 8) = 0" "length d mod (w div 8) = 0"
      using assms(4,5) by (simp_all only: dvd_eq_mod_eq_0)
  qed (use assms(1) that(1) in auto)
  then show ?thesis
    using region_field.region_any [OF region_field_default [OF assms(1)] assms(2-6) _ fits, of v xr]
      assms(7,9) default_width [OF assms(1)] by simp
qed

theorem default_regions_multiply_witness:
  "(\<exists>d8'. gf_multiply_region (galois_default 16) \<lparr>last_value = 0, lazy_tables = []\<rparr> 2 10 3 True
        (replicate 18 7) (replicate 18 9) =
      Some (d8', region_map 2 (word_product (scratch (galois_default 16)) 3 True) (replicate 18 7) (replicate 18 9)) \<and>
    lazy_ok field32 d8') \<and>
    (\<exists>rd. gf_set_region_data (Some 16) 2 10 18 8 = Some rd \<and> aligned_part 8 2 10 18 rd)"
  using default_regions_multiply [of 16 "\<lparr>last_value = 0, lazy_tables = []\<rparr>" "replicate 18 7" "replicate 18 9" 2 10 3 True]
  by (simp add: lazy_ok_def gf_elem_def)

section \<open>Erasure codes over a field\<close>

text \<open>
  C24: with at least k devices alive,
  \<open>jerasure_make_decoding_matrix\<close> returns; it fails with -1 exactly when the rows of the
  surviving devices are singular, and otherwise the matrix it makes recovers every data
  word from the words of the first k surviving devices.
\<close>

theorem decoding_matrix_recovers:
  assumes "gf_correct F" "coding_matrix F k m matrix" "k \<le> card {i. i < k + m \<and> erased ! i = 0}"
  shows "\<exists>ret D. jerasure_make_decoding_matrix F k m matrix erased = Some (ret, D, dm_ids k m erased) \<and>
     (if mat_regular (felem F) (galois_single_multiply F) k
           (mf k (decoding_rows k matrix (dm_ids k m erased)))
      then ret = 0 \<and>
        (\<forall>x. (\<forall>j<k. felem F (x j)) \<longrightarrow>
          (\<forall>j<k. xsum k (\<lambda>i. galois_single_multiply F (D ! (j * k + i))
             (codeword F k matrix x (dm_ids k m erased ! i))) = x j))
      else ret = - 1)"
  using correct_field.make_decoding_matrix [OF correct_field.intro [OF assms(1)] assms(2,3)]
  by (elim exE conjE) (intro exI conjI, assumption, simp split: if_splits)

theorem decoding_matrix_recovers_witness:
  "\<exists>ret D. jerasure_make_decoding_matrix (galois_default 8) 2 1 [1, 1] [1, 0, 0] = Some (ret, D, dm_ids 2 1 [1, 0, 0]) \<and>
     (ret = 0 \<or> ret = - 1)"
proof -
  have "{i. i < 2 + 1 \<and> [1, 0, 0 :: u32] ! i = 0} = {1, 2}"
    by (auto simp: less_Suc_eq numeral_eq_Suc)
  then have "2 \<le> card {i. i < 2 + 1 \<and> [1, 0, 0 :: u32] ! i = 0}" by simp
  moreover have "coding_matrix (galois_default 8) 2 1 [1, 1]"
    by (simp add: coding_matrix_def default_8 gal8.elem_1)
  ultimately show ?thesis
    using decoding_matrix_recovers [OF default_8(2), of 2 1 "[1, 1]" "[1, 0, 0]"]
    by (auto split: if_splits)
qed

text \<open>
  C25: \<open>jerasure_invert_matrix\<close> always returns; it returns 0 exactly
  for the regular matrices, and then the product of the inverse and the matrix is the
  identity.
\<close>

theorem invert_matrix_correct:
  assumes "gf_correct F" "length mat = n * n" "\<forall>e\<in>set mat. felem F e"
  shows "\<exists>ret mat' iv. jerasure_invert_matrix F mat n = Some (ret, mat', iv) \<and>
     (if mat_regular (felem F) (galois_single_multiply F) n (mf n mat)
      then ret = 0 \<and> length iv = n * n \<and>
        is_identity n (mat_prod (galois_single_multiply F) n (mf n iv) (mf n mat))
      else ret = - 1)"
proof -
  have "elem_mat (felem F) n (mf n mat)"
    using assms(2,3) mat_index_lt [of _ n _ n] by (auto simp: elem_mat_def mf_def)
  then show ?thesis
    using correct_field.invert_matrix [OF correct_field.intro [OF assms(1)] assms(2)] by (auto split: if_splits)
qed

theorem invert_matrix_correct_witness:
  "\<exists>ret mat' iv. jerasure_invert_matrix (galois_default 8) [1, 1, 1, 2] 2 = Some (ret, mat', iv) \<and>
     (ret = 0 \<or> ret = - 1)"
  using invert_matrix_correct [OF default_8(2), of "[1, 1, 1, 2]" 2]
  by (auto simp: default_8 gf_elem_def split: if_splits)

text \<open>
  C26: the test \<open>jerasure_invertible_matrix\<close> returns 1 exactly for
  the matrices \<open>jerasure_invert_matrix\<close> can invert.
\<close>

theorem invertible_matrix_correct:
  assumes "gf_correct F" "length mat = n * n" "\<forall>e\<in>set mat. felem F e"
  shows "jerasure_invertible_matrix F mat n =
    Some (if \<exists>mat' iv. jerasure_invert_matrix F mat n = Some (0, mat', iv) then 1 else 0)"
proof -
  have "elem_mat (felem F) n (mf n mat)"
    using assms(2,3) mat_index_lt [of _ n _ n] by (auto simp: elem_mat_def mf_def)
  note c = this correct_field.intro [OF assms(1)] assms(2)
  show ?thesis
    using correct_field.invertible_matrix [OF c(2,3,1)] correct_field.invert_matrix [OF c(2,3,1)]
    by (auto split: if_splits)
qed

theorem invertible_matrix_correct_witness:
  "jerasure_invertible_matrix (galois_default 8) [1, 1, 1, 2] 2 =
    Some (if \<exists>mat' iv. jerasure_invert_matrix (galois_default 8) [1, 1, 1, 2] 2 = Some (0, mat', iv) then 1 else 0)"
  by (rule invertible_matrix_correct [OF default_8(2)]) (simp_all add: default_8 gf_elem_def)

text \<open>
  C28: in the bit matrix of a coding matrix the block of an
  element, multiplied with the bits of a word over the two-element field, gives the bits of
  the product of the element and the word.
\<close>

theorem bitmatrix_block_multiplies:
  assumes "gf_correct F" "w = h_w (scratch F)" "i < m" "j < k" "l < w"
    "felem F (matrix ! (i * k + j))" "felem F y"
  shows "of_bit (bit (galois_single_multiply F (matrix ! (i * k + j)) y) l) =
     xsum w (\<lambda>x. jerasure_matrix_to_bitmatrix F k m w matrix ! block_index k w i j l x AND of_bit (bit y x))"
  using correct_field.to_bitmatrix_block [OF correct_field.intro [OF assms(1)] assms(3,4,2,5-7)] .

theorem bitmatrix_block_multiplies_witness:
  "of_bit (bit (galois_single_multiply (galois_default 8) 7 9) 3) =
     xsum 8 (\<lambda>x. jerasure_matrix_to_bitmatrix (galois_default 8) 2 1 8 [1, 7] ! block_index 2 8 0 1 3 x AND
       of_bit (bit (9 :: u32) x))"
  using bitmatrix_block_multiplies [OF default_8(2), of 8 0 1 1 2 3 "[1, 7]" 9]
  by (simp add: default_8 gf_elem_def)

section \<open>The fields\<close>

text \<open>
  C30: the default initialisations of the fields of 8, 16 and 32
  bits succeed, and the functions they install multiply, divide and invert in the field of
  a primitive polynomial.
\<close>

theorem default_fields_correct:
  "(\<exists>F. gf_init_easy 8 = Inr F \<and> gf_correct F) \<and> (\<exists>F. gf_init_easy 16 = Inr F \<and> gf_correct F) \<and>
   (\<exists>F. gf_init_easy 32 = Inr F \<and> gf_correct F)"
  using init_easy_8 init_easy_16 init_easy_32 by blast

text \<open>
  C29: initialising a field of any word size below 32 with a primitive
  polynomial and one of the techniques shift, by-two, table, logarithm or default
  succeeds, and the installed functions multiply, divide and invert in that field, also
  with Euclid's or the matrix inversion.
\<close>

theorem wgen_init_field:
  assumes "gf_wgen_poly h = Inr p" "wf_field (set_prim_poly p h)" "h_w h < 32"
    "h_primitive (set_prim_poly p h)" "wgen_supported h"
  shows "\<exists>F. gf_wgen_init h = Inr F \<and> gf_correct F \<and> scratch F = set_prim_poly p h"
  using assms by (rule wgen_init_ok)

definition field4 :: gf_internal where
  "field4 = Gf_internal GF_MULT_SHIFT 0 GF_DIVIDE_DEFAULT 4 0x13 0 0 None"

lemma field4_sel [simp]: "h_w field4 = 4" "prim_poly field4 = 0x13" "mult_type field4 = GF_MULT_SHIFT"
  "set_prim_poly 0x13 field4 = field4"
  by (simp_all add: field4_def)

lemma wf_field4: "wf_field field4"
  by (simp add: wf_field_def)

lemma field4_primitive: "h_primitive field4"
  using gf_primitive_4 by (simp add: h_primitive_def)

theorem wgen_init_field_witness:
  "\<exists>F. gf_wgen_init field4 = Inr F \<and> gf_correct F \<and> scratch F = field4"
proof -
  have "gf_wgen_poly field4 = Inr 0x13" by (simp add: gf_wgen_poly_def push_bit_of_1)
  then show ?thesis
    using wgen_init_field [of field4 "0x13"] wf_field4 field4_primitive by (simp add: wgen_supported_def)
qed

text \<open>
  C31: the three table-free multiplications of gf_wgen.c (shift,
  by-two from the low end, by-two from the high end) compute the same product, the
  polynomial product modulo the field polynomial, for every pair of field elements.
\<close>

theorem wgen_products_agree:
  assumes "wf_field h" "gf_elem (h_w h) a" "gf_elem (h_w h) b"
  shows "gf_wgen_shift_multiply h a b = gf_mul (h_w h) (ucast (prim_poly h)) a b \<and>
         gf_wgen_bytwo_b_multiply h a b = gf_mul (h_w h) (ucast (prim_poly h)) a b \<and>
         gf_wgen_bytwo_p_multiply h a b = gf_mul (h_w h) (ucast (prim_poly h)) a b"
  using assms shift_multiply_eq_mul bytwo_b_multiply_eq_mul bytwo_p_multiply_eq_mul by auto

theorem wgen_products_agree_witness:
  "gf_wgen_shift_multiply field4 9 7 = gf_mul 4 0x13 9 7 \<and>
   gf_wgen_bytwo_b_multiply field4 9 7 = gf_mul 4 0x13 9 7 \<and>
   gf_wgen_bytwo_p_multiply field4 9 7 = gf_mul 4 0x13 9 7"
  using wgen_products_agree [OF wf_field4, of 9 7] by (simp add: gf_elem_def)

text \<open>
  C32: Euclid's algorithm in gf_wgen.c returns for every non-zero
  element of a field with a primitive polynomial of degree below 32, and what it returns
  is the inverse; it relies on any multiplication that agrees with the field product.
\<close>

theorem wgen_euclid_inverts:
  assumes "wf_field h" "h_w h < 32" "gf_primitive (h_w h) (ucast (prim_poly h))"
    and "\<And>x y. gf_elem (h_w h) x \<Longrightarrow> gf_elem (h_w h) y \<Longrightarrow> mul x y = gf_mul (h_w h) (ucast (prim_poly h)) x y"
    and "gf_elem (h_w h) b" "b \<noteq> 0"
  shows "\<exists>y. gf_wgen_euclid h mul b = Some y \<and> gf_elem (h_w h) y \<and>
             gf_mul (h_w h) (ucast (prim_poly h)) y b = 1"
  using assms by (rule euclid_inverse)

theorem wgen_euclid_inverts_witness:
  "\<exists>y. gf_wgen_euclid field4 (gf_wgen_shift_multiply field4) 9 = Some y \<and> gf_mul 4 0x13 y 9 = 1"
proof -
  have "gf_primitive 4 (ucast (0x13 :: u64))" using gf_primitive_4 by simp
  moreover have "gf_wgen_shift_multiply field4 x y = gf_mul 4 (ucast (0x13 :: u64)) x y"
    if "gf_elem 4 y" for x y
    using shift_multiply_eq_mul [OF wf_field4, of y x] that by simp
  moreover have "gf_elem 4 9" by (simp add: gf_elem_def)
  ultimately show ?thesis
    using wgen_euclid_inverts [OF wf_field4, of "gf_wgen_shift_multiply field4" 9] by auto
qed

text \<open>
  C33: \<open>gf_bitmatrix_inverse\<close>, which inverts the matrix of the
  multiplication by an element over the two-element field, returns the inverse of every
  non-zero element.
\<close>

theorem bitmatrix_inverse_inverts:
  assumes "gf_primitive w pp" "gf_elem w y" "y \<noteq> 0"
  shows "\<exists>z. gf_bitmatrix_inverse y w pp = Some z \<and> gf_elem w z \<and> gf_mul w pp z y = 1"
  using assms by (rule bitmatrix_inverse)

theorem bitmatrix_inverse_inverts_witness:
  "\<exists>z. gf_bitmatrix_inverse 9 4 0x13 = Some z \<and> gf_elem 4 z \<and> gf_mul 4 0x13 z 9 = 1"
  using bitmatrix_inverse_inverts [OF gf_primitive_4, of 9] by (simp add: gf_elem_def)

text \<open>
  C39: a field stays in the slot it was put in.  \<open>galois_change_technique\<close>
  puts a valid field in its slot whatever was there before; after any sequence of
  multiplications and divisions of any word sizes that slot still holds it, and every operation of
  its word size is computed by it, without an allocation and without a change to the table.  A slot
  that is NULL gets the default field at its first use, which changes no other slot and no composite
  flag, and from then on the default field stays in the same way.
\<close>

theorem field_table_stable:
  assumes "1 \<le> w" "w \<le> 32"
  shows "(is_valid_gf (Some G) \<longrightarrow>
      (\<exists>st1. galois_change_technique st (Some G) w = Some st1 \<and>
         gfp_array st1 = (gfp_array st)(w := Field G) \<and> field_serves w G st1)) \<and>
    (gfp_array st w = Null \<and> gf_init_easy (int w) = Inr F \<and> x \<noteq> 0 \<and> y \<noteq> 0 \<longrightarrow>
      (\<exists>st1. galois_single_multiply_st True st x y w = Some (st1, galois_single_multiply F x y) \<and>
         galois_single_divide_st True st x y w = map_option (Pair st1) (galois_single_divide F x y) \<and>
         gfp_array st1 = (gfp_array st)(w := Field F) \<and> gfp_is_composite st1 = gfp_is_composite st \<and>
         field_serves w F st1))"
proof -
  have set: "gfp_array (set_slot w (Field H) st) = (gfp_array st)(w := Field H)"
    "gfp_is_composite (set_slot w (Field H) st) = gfp_is_composite st"
    "field_serves w H (set_slot w (Field H) st)" for H
    using assms(2) by (auto simp: set_slot_def intro!: field_servesI)
  show ?thesis using galois_change [OF assms] galois_use_default [of st w F x y] assms set by blast
qed

theorem field_table_stable_witness:
  "\<exists>G st1 st2. gf_init_hard 8 GF_MULT_BYTWO_b GF_REGION_DEFAULT GF_DIVIDE_DEFAULT 0x1d 0 0 None = Inr G \<and>
    galois_change_technique galois_start (Some G) 8 = Some st1 \<and>
    galois_uses [Use_multiply False 3 5 8, Use_multiply True 2 2 16, Use_divide True 0 7 8] st1 = Some st2 \<and>
    gfp_array st2 8 = Field G \<and> gfp_array st2 16 = Field (galois_default 16) \<and>
    galois_single_multiply_st False st2 7 9 8 = Some (st2, galois_single_multiply G 7 9)"
proof -
  let ?h = "Gf_internal GF_MULT_BYTWO_b GF_REGION_DEFAULT GF_DIVIDE_DEFAULT 8 0x11d 0 0 None"
  have "wf_field ?h" "h_primitive ?h" using gf_primitive_8 by (simp_all add: wf_field_def h_primitive_def)
  then obtain G where G: "gf_init_hard 8 GF_MULT_BYTWO_b GF_REGION_DEFAULT GF_DIVIDE_DEFAULT 0x1d 0 0 None = Inr G" "gf_correct G"
    using bytwo_init [of GF_MULT_BYTWO_b 8 "0x1d" ?h] by (auto simp: word_poly_def)
  obtain st1 where st1: "galois_change_technique galois_start (Some G) 8 = Some st1"
    "gfp_array st1 = (gfp_array galois_start)(8 := Field G)" "field_serves 8 G st1"
    using field_table_stable [of 8 G galois_start, THEN conjunct1] gf_correct_valid [OF G(2)] by auto
  have "gfp_array st1 16 = Null" using st1(2) by (simp add: galois_start_def)
  then obtain st2 where st2: "galois_single_multiply_st True st1 2 2 16 = Some (st2, galois_single_multiply (galois_default 16) 2 2)"
    "gfp_array st2 = (gfp_array st1)(16 := Field (galois_default 16))"
    using field_table_stable [of 16 G st1 "galois_default 16" 2 2, THEN conjunct2] default_16(1) by auto
  have "galois_single_multiply_st False st1 3 5 8 = Some (st1, galois_single_multiply G 3 5)"
    using st1(2) by (simp add: galois_multiply_installed)
  then have uses: "galois_uses [Use_multiply False 3 5 8, Use_multiply True 2 2 16, Use_divide True 0 7 8] st1 = Some st2"
    using st2(1) by (simp add: galois_single_divide_st_def)
  have "gfp_array st2 8 = Field G \<and> galois_single_multiply_st False st2 7 9 8 = Some (st2, galois_single_multiply G 7 9)"
    using st1(3) uses unfolding field_serves_def by blast
  moreover have "gfp_array st2 16 = Field (galois_default 16)" using st2(2) by simp
  ultimately show ?thesis using G(1) st1(1) uses by blast
qed

section \<open>The checks of the arguments\<close>

text \<open>
  C40: arguments that pass \<open>gf_error_check\<close> have a known division type,
  only known region options, a supported word size, and the default technique comes
  without options.
\<close>

theorem error_check_sound:
  assumes "gf_error_check cpu w mt rt dt a1 a2 poly base = accept"
  shows "dt \<in> {GF_DIVIDE_DEFAULT, GF_DIVIDE_MATRIX, GF_DIVIDE_EUCLID} \<and> take_bit 7 rt = rt \<and>
    (1 \<le> w \<and> w \<le> 32 \<or> w = 64 \<or> w = 128) \<and>
    (mt = GF_MULT_DEFAULT \<longrightarrow> rt = 0 \<and> dt = GF_DIVIDE_DEFAULT \<and> a1 = 0 \<and> a2 = 0) \<and>
    (mt \<noteq> GF_MULT_COMPOSITE \<and> w < 64 \<longrightarrow> drop_bit (nat (w + 1)) poly = 0)"
proof -
  have mask: "rt AND NOT (1 OR (2 OR (4 OR (8 OR (0x10 OR (0x20 OR 0x40)))))) = 0 \<longleftrightarrow> take_bit 7 rt = rt" for rt :: u32
  proof -
    have "(1 OR (2 OR (4 OR (8 OR (0x10 OR (0x20 OR 0x40))))) :: u32) = mask 7" by (simp add: mask_eq_exp_minus_1)
    moreover have "rt AND NOT (mask 7) = 0 \<longleftrightarrow> take_bit 7 rt = rt"
      by (auto simp: bit_eq_iff bit_simps)
    ultimately show ?thesis by simp
  qed
  note chk = assms [unfolded gf_error_check_def Let_def gf_region_defs mask]
  have "dt \<in> {GF_DIVIDE_DEFAULT, GF_DIVIDE_MATRIX, GF_DIVIDE_EUCLID}"
    by (rule ccontr) (use chk in simp)
  moreover from this have "take_bit 7 rt = rt" using chk by (simp split: if_split_asm)
  moreover from calculation have "1 \<le> w \<and> w \<le> 32 \<or> w = 64 \<or> w = 128"
    using chk by (cases "w < 1 \<or> (w > 32 \<and> w \<noteq> 64 \<and> w \<noteq> 128)") auto
  moreover from calculation have "mt \<noteq> GF_MULT_COMPOSITE \<and> w < 64 \<longrightarrow> drop_bit (nat (w + 1)) poly = 0"
    using chk by (cases "mt \<noteq> GF_MULT_COMPOSITE \<and> w < 64 \<and> drop_bit (nat (w + 1)) poly \<noteq> 0") auto
  moreover from calculation have "mt = GF_MULT_DEFAULT \<longrightarrow> rt = 0 \<and> dt = GF_DIVIDE_DEFAULT \<and> a1 = 0 \<and> a2 = 0"
    using chk by (cases "mt = GF_MULT_DEFAULT") (simp_all split: if_split_asm)
  ultimately show ?thesis by blast
qed

theorem error_check_sound_witness:
  "GF_DIVIDE_DEFAULT \<in> {GF_DIVIDE_DEFAULT, GF_DIVIDE_MATRIX, GF_DIVIDE_EUCLID} \<and> take_bit 7 (0 :: u32) = 0 \<and>
   gf_error_check no_simd 8 GF_MULT_DEFAULT 0 GF_DIVIDE_DEFAULT 0 0 0 None = accept"
proof -
  have "gf_error_check no_simd 8 GF_MULT_DEFAULT 0 GF_DIVIDE_DEFAULT 0 0 0 None = accept"
    using check_default [of 8 no_simd None] by (simp add: GF_REGION_DEFAULT_def)
  then show ?thesis
    using error_check_sound [of no_simd 8 GF_MULT_DEFAULT 0 GF_DIVIDE_DEFAULT 0 0 0 None] by blast
qed

end
